(* ===== verification/Prelude.thy ===== *)
theory Prelude
  imports Main "HOL-Library.Word" "HOL-Library.Monad_Syntax"
begin

text \<open>
  What every component shares: the names of the machine integers, assertions as
  a fallible computation, the compiler builtin the slot scheduler uses, memory copies
  into a caller's buffer, and the generic facts on words, lists and options the
  component proofs rest on.

  A C++ \<open>assert\<close> that fails, a \<open>FATAL\<close>, and a memory access outside an
  object all end the program; each is the value \<^theory_text>\<open>None\<close> of an
  \<open>option\<close> computation. An error the program reports and survives is an ordinary
  result (\<open>False\<close>, an error bit), never \<^theory_text>\<open>None\<close>.
\<close>

unbundle bit_operations_syntax

type_synonym u8 = "8 word"
type_synonym u16 = "16 word"
type_synonym u32 = "32 word"

named_theorems word_facts

subsection \<open>Assertions\<close>

definition assert_that :: "bool \<Rightarrow> unit option" where
  "assert_that b = (if b then Some () else None)"

lemma assert_that_bind [simp]:
  "Option.bind (assert_that b) f = (if b then f () else None)"
  by (simp add: assert_that_def)

lemma assert_that_Some [simp]: "assert_that b = Some u \<longleftrightarrow> b"
  by (simp add: assert_that_def)

subsection \<open>The builtin that finds the least significant set bit\<close>

text \<open>
  \<^verbatim>\<open>__builtin_ffs\<close>: one plus the index of the least significant 1-bit of its
  argument, zero for zero.
\<close>

definition builtin_ffs :: "u32 \<Rightarrow> nat" where
  "builtin_ffs x = (case filter (bit x) [0..<32] of [] \<Rightarrow> 0 | i # _ \<Rightarrow> Suc i)"

lemma filter_upt_Nil: "filter P [0..<n] = [] \<longleftrightarrow> (\<forall>i<n. \<not> P i)"
  by (auto simp: filter_empty_conv)

lemma filter_upt_hd:
  assumes "filter P [m..<n] = i # is"
  shows "P i \<and> m \<le> i \<and> i < n \<and> (\<forall>j. m \<le> j \<and> j < i \<longrightarrow> \<not> P j)"
  using assms
proof (induction "n - m" arbitrary: m)
  case 0
  then show ?case by simp
next
  case (Suc k)
  then have lt: "m < n" by arith
  show ?case
  proof (cases "P m")
    case True
    with Suc.prems lt have "i = m" by (simp add: upt_conv_Cons)
    with True lt show ?thesis by auto
  next
    case False
    with Suc.prems lt have "filter P [Suc m..<n] = i # is"
      by (simp add: upt_conv_Cons)
    with Suc.hyps(1)[of "Suc m"] Suc.hyps(2)
    have IH: "P i" "Suc m \<le> i" "i < n" "\<And>j. Suc m \<le> j \<Longrightarrow> j < i \<Longrightarrow> \<not> P j" by simp_all
    have "\<not> P j" if "m \<le> j" "j < i" for j
      using that False IH(4)[of j] by (cases "j = m") simp_all
    with IH show ?thesis by auto
  qed
qed

lemma word32_zero_iff: "(x :: u32) = 0 \<longleftrightarrow> (\<forall>i<32. \<not> bit x i)"
  by (auto intro: bit_word_eqI)

lemma builtin_ffs_zero: "builtin_ffs x = 0 \<longleftrightarrow> x = 0"
  unfolding builtin_ffs_def word32_zero_iff filter_upt_Nil [symmetric]
  by (cases "filter (bit x) [0..<32]") (simp_all only: list.case, simp_all)

lemma builtin_ffs_Suc:
  assumes "builtin_ffs x = Suc i"
  shows "bit x i \<and> i < 32 \<and> (\<forall>j<i. \<not> bit x j)"
proof -
  from assms obtain js where "filter (bit x) [0..<32] = i # js"
    unfolding builtin_ffs_def by (cases "filter (bit x) [0..<32]") (simp_all only: list.case, simp_all)
  from filter_upt_hd [OF this] show ?thesis by auto
qed

subsection \<open>Setting and clearing single bits of a mask\<close>

lemma bit_or_bit_iff [word_facts]:
  "bit (m OR push_bit n 1 :: u32) i \<longleftrightarrow> bit m i \<or> (i = n \<and> i < 32)"
  by (auto simp: bit_simps)

lemma bit_and_not_bit_iff [word_facts]:
  "bit (m AND NOT (push_bit n 1) :: u32) i \<longleftrightarrow> bit m i \<and> i \<noteq> n"
  by (auto simp: bit_simps dest: bit_imp_le_length)

subsection \<open>Copying words into a caller's buffer\<close>

text \<open>
  \<open>memcpy\<close> of the words \<open>ws\<close> to \<open>buf + off\<close>. A write outside the
  buffer is undefined behaviour of the C++ program: \<^theory_text>\<open>None\<close>.
\<close>

definition buffer_store :: "'a list \<Rightarrow> nat \<Rightarrow> 'a list \<Rightarrow> 'a list option" where
  "buffer_store buf off ws =
     (if off + length ws \<le> length buf
      then Some (take off buf @ ws @ drop (off + length ws) buf) else None)"

definition buffer_load :: "'a list \<Rightarrow> nat \<Rightarrow> nat \<Rightarrow> 'a list option" where
  "buffer_load buf off n =
     (if off + n \<le> length buf then Some (take n (drop off buf)) else None)"

lemma buffer_store_length:
  "buffer_store buf off ws = Some buf' \<Longrightarrow> length buf' = length buf"
  by (auto simp: buffer_store_def split: if_splits)

lemma buffer_load_length:
  "buffer_load buf off n = Some ws \<Longrightarrow> length ws = n"
  by (auto simp: buffer_load_def split: if_splits)

lemma buffer_store_nth:
  assumes "buffer_store buf off ws = Some buf'" "i < length buf"
  shows "buf' ! i = (if off \<le> i \<and> i < off + length ws then ws ! (i - off) else buf ! i)"
  using assms by (auto simp: buffer_store_def nth_append min_def split: if_splits)

lemma buffer_store_load:
  assumes "buffer_store buf off ws = Some buf'"
  shows "buffer_load buf' off (length ws) = Some ws"
  using assms by (auto simp: buffer_store_def buffer_load_def split: if_splits)

lemma buffer_store_take:
  assumes "buffer_store buf off ws = Some buf'"
  shows "take (off + length ws) buf' = take off buf @ ws"
  using assms by (auto simp: buffer_store_def split: if_splits)

end
