(* ===== verification/Device_Registers.thy ===== *)
theory Device_Registers
  imports Prelude
begin

text \<open>
  The IO page and the registers behind it: the descriptor table the ARM shares with the
  PRU (\<^verbatim>\<open>10.01_base/2_src/shared/iopageregister.h\<close>), the register objects of a device
  (\<^verbatim>\<open>arm/qunibusdevice.hpp\<close>, \<^verbatim>\<open>arm/qunibusdevice.cpp\<close>) and the part of the adapter
  that plugs devices and ROM cells into the IO page (\<^verbatim>\<open>register_device\<close>,
  \<^verbatim>\<open>unregister_device\<close>, \<^verbatim>\<open>register_rom\<close>, \<^verbatim>\<open>unregister_rom\<close>, \<^verbatim>\<open>is_rom\<close> of
  \<^verbatim>\<open>arm/qunibusadapter.cpp\<close>).

  A device is a number; what a C++ pointer reaches is looked up in the state. The pointer
  \<^verbatim>\<open>pru_iopage_register\<close> of a register is the index of its descriptor, or
  \<^theory_text>\<open>None\<close> before the first registration. Names of devices and registers, which are
  for display only, are left out.
\<close>

type_synonym dev_id = nat

definition MAX_IOPAGE_REGISTER_COUNT :: nat where [simp]: "MAX_IOPAGE_REGISTER_COUNT = 0xff"
definition IOPAGE_REGISTER_HANDLE_ROM :: nat where [simp]: "IOPAGE_REGISTER_HANDLE_ROM = 0xff"
definition MAX_DEVICE_HANDLE :: nat where [simp]: "MAX_DEVICE_HANDLE = 255"
definition IOPAGEREGISTER_EVENT_FLAG_DATI :: u8 where "IOPAGEREGISTER_EVENT_FLAG_DATI = 1"
definition IOPAGEREGISTER_EVENT_FLAG_DATO :: u8 where "IOPAGEREGISTER_EVENT_FLAG_DATO = 2"

record pru_iopage_register =
  pru_value :: u16
  pru_reset_value :: u16
  pru_writable_bits :: u16
  event_register_handle :: nat
  event_flags :: u8

record device_register =
  reg_device :: "dev_id option"
  reg_index :: nat
  reg_addr :: u32
  pru_link :: "nat option"
  register_handle :: nat
  active_on_dati :: bool
  active_on_dato :: bool
  reset_value :: u16
  writable_bits :: u16
  active_dati_flipflops :: u16
  active_dato_flipflops :: u16

record qunibusdevice =
  handle :: nat
  base_addr :: u32
  register_count :: nat
  registers :: "nat \<Rightarrow> device_register"
  is_unibuscpu :: bool
  init_asserted :: bool

datatype arm2pru = ARM2PRU_CPU_ENABLE u32 | ARM2PRU_DMA | ARM2PRU_INTR u8 | ARM2PRU_INTR_CANCEL u8

record iopage_state =
  device :: "dev_id \<Rightarrow> qunibusdevice"
  devices :: "nat \<Rightarrow> dev_id option"
  register_handles :: "nat \<Rightarrow> nat"
  pru_registers :: "nat \<Rightarrow> pru_iopage_register"
  register_by_handle :: "nat \<Rightarrow> (dev_id \<times> nat) option"
  iopage_start_addr :: u32
  addr_space_byte_count :: u32
  registered_cpu :: "dev_id option"
  arm2pru_log :: "arm2pru list"

text \<open>The index of an address in the table of the IO page: \<^verbatim>\<open>IOPAGE_REGISTER_ENTRY\<close>.\<close>

definition iopage_index :: "u32 \<Rightarrow> nat" where
  "iopage_index addr = unat ((addr AND 0x1fff) div 2)"

abbreviation the_reg :: "dev_id \<Rightarrow> nat \<Rightarrow> 'a iopage_state_scheme \<Rightarrow> device_register" where
  "the_reg d i s \<equiv> registers (device s d) i"

definition upd_device ::
    "dev_id \<Rightarrow> (qunibusdevice \<Rightarrow> qunibusdevice) \<Rightarrow> 'a iopage_state_scheme \<Rightarrow> 'a iopage_state_scheme" where
  "upd_device d f s = s\<lparr>device := (device s)(d := f (device s d))\<rparr>"

definition upd_register ::
    "dev_id \<Rightarrow> nat \<Rightarrow> (device_register \<Rightarrow> device_register) \<Rightarrow> 'a iopage_state_scheme \<Rightarrow> 'a iopage_state_scheme" where
  "upd_register d i f =
     upd_device d (\<lambda>dev. dev\<lparr>registers := (registers dev)(i := f (registers dev i))\<rparr>)"

definition upd_pru_register ::
    "nat \<Rightarrow> (pru_iopage_register \<Rightarrow> pru_iopage_register) \<Rightarrow> 'a iopage_state_scheme \<Rightarrow> 'a iopage_state_scheme" where
  "upd_pru_register h f s = s\<lparr>pru_registers := (pru_registers s)(h := f (pru_registers s h))\<rparr>"

subsection \<open>Register values as a device and the bus see them\<close>

definition set_register_dati_value ::
    "dev_id \<Rightarrow> nat \<Rightarrow> u16 \<Rightarrow> 'a iopage_state_scheme \<Rightarrow> 'a iopage_state_scheme option" where
  "set_register_dati_value d i v s =
     (case pru_link (the_reg d i s) of
        None \<Rightarrow> None
      | Some p \<Rightarrow>
          Some (upd_pru_register p (\<lambda>r. r\<lparr>pru_value := v\<rparr>)
                 (upd_register d i (\<lambda>r. r\<lparr>active_dati_flipflops := v\<rparr>) s)))"

definition get_register_dati_value ::
    "dev_id \<Rightarrow> nat \<Rightarrow> 'a iopage_state_scheme \<Rightarrow> u16 option" where
  "get_register_dati_value d i s =
     (let r = the_reg d i s in
      if active_on_dati r \<or> active_on_dato r then Some (active_dati_flipflops r)
      else map_option (\<lambda>p. pru_value (pru_registers s p)) (pru_link r))"

definition get_register_dato_value ::
    "dev_id \<Rightarrow> nat \<Rightarrow> 'a iopage_state_scheme \<Rightarrow> u16 option" where
  "get_register_dato_value d i s =
     (let r = the_reg d i s in
      if active_on_dato r then Some (active_dato_flipflops r)
      else map_option (\<lambda>p. pru_value (pru_registers s p)) (pru_link r))"

text \<open>The loop of \<^verbatim>\<open>reset_unibus_registers\<close>, over the registers from \<open>i\<close> on.\<close>

fun reset_registers_from ::
    "nat \<Rightarrow> nat \<Rightarrow> dev_id \<Rightarrow> 'a iopage_state_scheme \<Rightarrow> 'a iopage_state_scheme option" where
  "reset_registers_from 0 i d s = Some s"
| "reset_registers_from (Suc n) i d s =
     do { s' \<leftarrow> set_register_dati_value d i (reset_value (the_reg d i s)) s;
          reset_registers_from n (Suc i) d s' }"

definition reset_unibus_registers ::
    "dev_id \<Rightarrow> 'a iopage_state_scheme \<Rightarrow> 'a iopage_state_scheme option" where
  "reset_unibus_registers d s = reset_registers_from (register_count (device s d)) 0 d s"

text \<open>The first register with a bus address, as \<^verbatim>\<open>register_by_unibus_address\<close> finds it.\<close>

definition register_by_unibus_address ::
    "dev_id \<Rightarrow> u32 \<Rightarrow> 'a iopage_state_scheme \<Rightarrow> nat option" where
  "register_by_unibus_address d addr s =
     List.find (\<lambda>i. reg_addr (the_reg d i s) = addr) [0..<register_count (device s d)]"

subsection \<open>Plugging a device into the IO page\<close>

definition reg_bus_addr :: "dev_id \<Rightarrow> nat \<Rightarrow> 'a iopage_state_scheme \<Rightarrow> u32" where
  "reg_bus_addr d i s = base_addr (device s d) + 2 * of_nat i"

text \<open>The next free place on the backplane; handle 0 is reserved.\<close>

definition free_device_handle :: "'a iopage_state_scheme \<Rightarrow> nat option" where
  "free_device_handle s = List.find (\<lambda>h. devices s h = None) [1..<Suc MAX_DEVICE_HANDLE]"

text \<open>
  The check for a register address another device already implements. It also sets the
  register's address, up to the first conflict.
\<close>

fun address_conflict_from ::
    "nat \<Rightarrow> nat \<Rightarrow> dev_id \<Rightarrow> 'a iopage_state_scheme \<Rightarrow> bool \<times> 'a iopage_state_scheme" where
  "address_conflict_from 0 i d s = (False, s)"
| "address_conflict_from (Suc n) i d s =
     (let s1 = upd_register d i (\<lambda>r. r\<lparr>reg_addr := reg_bus_addr d i s\<rparr>) s;
          reghandle = register_handles s (iopage_index (reg_bus_addr d i s))
      in if reghandle \<noteq> 0 \<and> reghandle \<noteq> IOPAGE_REGISTER_HANDLE_ROM then (True, s1)
         else address_conflict_from n (Suc i) d s1)"

definition register_handle_used :: "'a iopage_state_scheme \<Rightarrow> nat \<Rightarrow> bool" where
  "register_handle_used s h \<longleftrightarrow>
     (\<exists>i<0x1000. register_handles s i = h) \<and> h \<noteq> 0 \<and> h \<noteq> IOPAGE_REGISTER_HANDLE_ROM"

definition highest_register_handle :: "'a iopage_state_scheme \<Rightarrow> nat" where
  "highest_register_handle s =
     fold (\<lambda>h m. if register_handle_used s h then h else m) [1..<MAX_IOPAGE_REGISTER_COUNT] 0"

definition bad_register_config :: "device_register \<Rightarrow> bool" where
  "bad_register_config r \<longleftrightarrow>
     active_on_dati r \<and> \<not> active_on_dato r \<and> writable_bits r \<noteq> 0"

text \<open>The descriptor written for a register with handle \<open>rh\<close>.\<close>

definition pru_descriptor :: "device_register \<Rightarrow> nat \<Rightarrow> pru_iopage_register" where
  "pru_descriptor r rh =
     \<lparr>pru_value = reset_value r, pru_reset_value = reset_value r,
      pru_writable_bits = writable_bits r,
      event_register_handle = (if active_on_dati r \<or> active_on_dato r then rh else 0),
      event_flags = (if active_on_dati r then IOPAGEREGISTER_EVENT_FLAG_DATI else 0) OR
                    (if active_on_dato r then IOPAGEREGISTER_EVENT_FLAG_DATO else 0)\<rparr>"

definition install_register ::
    "dev_id \<Rightarrow> nat \<Rightarrow> nat \<Rightarrow> 'a iopage_state_scheme \<Rightarrow> 'a iopage_state_scheme option" where
  "install_register d i rh s =
     do { assert_that (register_by_handle s rh = None);
          assert_that (\<not> bad_register_config (the_reg d i s));
          let addr = reg_bus_addr d i s;
          let s1 = upd_register d i (\<lambda>r. r\<lparr>reg_device := Some d, reg_index := i, reg_addr := addr,
                      pru_link := Some rh, register_handle := rh\<rparr>) s;
          Some (s1\<lparr>register_by_handle := (register_by_handle s)(rh \<mapsto> (d, i)),
                   pru_registers := (pru_registers s)(rh := pru_descriptor (the_reg d i s) rh),
                   register_handles := (register_handles s)(iopage_index addr := rh)\<rparr>) }"

fun install_registers_from ::
    "nat \<Rightarrow> nat \<Rightarrow> nat \<Rightarrow> dev_id \<Rightarrow> 'a iopage_state_scheme \<Rightarrow> 'a iopage_state_scheme option" where
  "install_registers_from 0 i rh d s = Some s"
| "install_registers_from (Suc n) i rh d s =
     do { s' \<leftarrow> install_register d i rh s; install_registers_from n (Suc i) (Suc rh) d s' }"

text \<open>Giving the backplane position back after a failure.\<close>

definition give_back ::
    "dev_id \<Rightarrow> nat \<Rightarrow> 'a iopage_state_scheme \<Rightarrow> 'a iopage_state_scheme" where
  "give_back d dh s =
     upd_device d (\<lambda>dev. dev\<lparr>handle := 0\<rparr>) (s\<lparr>devices := (devices s)(dh := None)\<rparr>)"

definition register_device ::
    "dev_id \<Rightarrow> 'a iopage_state_scheme \<Rightarrow> (bool \<times> 'a iopage_state_scheme) option" where
  "register_device d s =
     do { assert_that (handle (device s d) = 0);
          assert_that (register_count (device s d) \<le> MAX_IOPAGE_REGISTER_COUNT);
          (case free_device_handle s of
             None \<Rightarrow> Some (False, s)
           | Some dh \<Rightarrow>
              let s1 = upd_device d (\<lambda>dev. dev\<lparr>handle := dh\<rparr>) (s\<lparr>devices := (devices s)(dh \<mapsto> d)\<rparr>);
                  (conflict, s2) = address_conflict_from (register_count (device s d)) 0 d s1;
                  rh = highest_register_handle s2;
                  free_handles = MAX_IOPAGE_REGISTER_COUNT - rh - 1
              in if conflict then Some (False, give_back d dh s2)
                 else if free_handles < register_count (device s d) then Some (False, give_back d dh s2)
                 else do {
                   s3 \<leftarrow> install_registers_from (register_count (device s d)) 0 (Suc rh) d s2;
                   (if is_unibuscpu (device s d)
                    then do { assert_that (registered_cpu s3 = None);
                              Some (True, s3\<lparr>registered_cpu := Some d\<rparr>) }
                    else Some (True, s3)) }) }"

text \<open>Removing a device: its IO page cells and its entries in the lookup table.\<close>

fun remove_registers_from ::
    "nat \<Rightarrow> nat \<Rightarrow> dev_id \<Rightarrow> 'a iopage_state_scheme \<Rightarrow> 'a iopage_state_scheme" where
  "remove_registers_from 0 i d s = s"
| "remove_registers_from (Suc n) i d s =
     (let r = the_reg d i s in
      remove_registers_from n (Suc i) d
        (s\<lparr>register_handles := (register_handles s)(iopage_index (reg_addr r) := 0),
           register_by_handle := (register_by_handle s)(register_handle r := None)\<rparr>))"

definition unregister_device ::
    "dev_id \<Rightarrow> 'a iopage_state_scheme \<Rightarrow> 'a iopage_state_scheme option" where
  "unregister_device d s =
     do { assert_that (0 < handle (device s d));
          let s1 = (if is_unibuscpu (device s d)
                    then s\<lparr>arm2pru_log := arm2pru_log s @ [ARM2PRU_CPU_ENABLE 0], registered_cpu := None\<rparr>
                    else s);
          let s2 = upd_device d (\<lambda>dev. dev\<lparr>handle := 0\<rparr>)
                     (s1\<lparr>devices := (devices s1)(handle (device s d) := None)\<rparr>);
          Some (remove_registers_from (register_count (device s d)) 0 d s2) }"

subsection \<open>ROM cells\<close>

definition rom_addr_ok :: "u32 \<Rightarrow> 'a iopage_state_scheme \<Rightarrow> bool" where
  "rom_addr_ok addr s \<longleftrightarrow>
     addr AND 1 = 0 \<and> iopage_start_addr s \<le> addr \<and> addr \<le> addr_space_byte_count s - 2"

definition register_rom ::
    "u32 \<Rightarrow> 'a iopage_state_scheme \<Rightarrow> (bool \<times> 'a iopage_state_scheme) option" where
  "register_rom addr s =
     do { assert_that (rom_addr_ok addr s);
          let cell = register_handles s (iopage_index addr);
          assert_that (cell \<noteq> IOPAGE_REGISTER_HANDLE_ROM);
          (if cell \<noteq> 0 \<and> cell \<noteq> IOPAGE_REGISTER_HANDLE_ROM then Some (False, s)
           else Some (True, s\<lparr>register_handles :=
                   (register_handles s)(iopage_index addr := IOPAGE_REGISTER_HANDLE_ROM)\<rparr>)) }"

definition unregister_rom ::
    "u32 \<Rightarrow> 'a iopage_state_scheme \<Rightarrow> 'a iopage_state_scheme option" where
  "unregister_rom addr s =
     do { assert_that (rom_addr_ok addr s);
          let cell = register_handles s (iopage_index addr);
          (if cell = 0 then Some s
           else if cell \<noteq> IOPAGE_REGISTER_HANDLE_ROM then Some s
           else Some (s\<lparr>register_handles := (register_handles s)(iopage_index addr := 0)\<rparr>)) }"

definition is_rom :: "u32 \<Rightarrow> 'a iopage_state_scheme \<Rightarrow> bool option" where
  "is_rom addr s =
     (if addr AND 1 \<noteq> 0 then Some False
      else if addr < iopage_start_addr s then Some False
      else do { assert_that (addr \<le> addr_space_byte_count s - 2);
                Some (register_handles s (iopage_index addr) = IOPAGE_REGISTER_HANDLE_ROM) })"

subsection \<open>Facts about the registration loops\<close>


lemma iopage_index_nat: "iopage_index a = unat a mod 0x2000 div 2"
proof -
  have "a AND 0x1fff = take_bit 13 a"
    by (simp add: take_bit_eq_mask mask_eq_exp_minus_1)
  then show ?thesis
    by (simp add: iopage_index_def unat_div unat_mod take_bit_eq_mod)
qed

lemma iopage_index_less [simp]: "iopage_index a < 0x1000"
  by (simp add: iopage_index_nat) 

lemma iopage_index_reg: "iopage_index (b + 2 * of_nat i) = (unat b div 2 + i) mod 0x1000"
proof -
  have "unat (b + 2 * of_nat i :: u32) mod 0x2000 = (unat b + 2 * i) mod 0x2000"
  proof -
    have "(2 * of_nat i :: u32) = of_nat (2 * i)" by simp
    then have "unat (2 * of_nat i :: u32) = (2 * i) mod 2 ^ 32"
      by (simp only: unat_of_nat) simp
    then have "unat (b + 2 * of_nat i :: u32) = (unat b + 2 * i) mod 2 ^ 32"
      by (simp add: unat_word_ariths mod_add_right_eq)
    then show ?thesis by (simp add: mod_mod_cancel)
  qed
  then have "iopage_index (b + 2 * of_nat i) = (unat b + 2 * i) mod 0x2000 div 2"
    by (simp add: iopage_index_nat)
  also have "\<dots> = (unat b + 2 * i) div 2 mod 0x1000"
    using mod_mult2_eq [where m = "unat b + 2 * i" and n = 2 and q = "0x1000"] by simp
  also have "\<dots> = (unat b div 2 + i) mod 0x1000" by (simp add: add.commute)
  finally show ?thesis .
qed

lemma iopage_index_reg_inj:
  assumes "iopage_index (b + 2 * of_nat i) = iopage_index (b + 2 * of_nat j)" "i < 0x1000" "j < 0x1000"
  shows "i = j"
proof -
  from assms(1) have "(unat b div 2 + i) mod 0x1000 = (unat b div 2 + j) mod 0x1000"
    by (simp add: iopage_index_reg)
  then have "i mod 0x1000 = j mod 0x1000" by (simp add: nat_mod_eq_iff)
  with assms(2,3) show ?thesis by simp
qed
text \<open>Looking up what an update of one register leaves.\<close>

lemma upd_register_sel [simp]:
  "devices (upd_register d i f s) = devices s"
  "register_handles (upd_register d i f s) = register_handles s"
  "pru_registers (upd_register d i f s) = pru_registers s"
  "register_by_handle (upd_register d i f s) = register_by_handle s"
  "iopage_start_addr (upd_register d i f s) = iopage_start_addr s"
  "addr_space_byte_count (upd_register d i f s) = addr_space_byte_count s"
  "registered_cpu (upd_register d i f s) = registered_cpu s"
  "arm2pru_log (upd_register d i f s) = arm2pru_log s"
  "handle (device (upd_register d i f s) e) = handle (device s e)"
  "base_addr (device (upd_register d i f s) e) = base_addr (device s e)"
  "register_count (device (upd_register d i f s) e) = register_count (device s e)"
  "is_unibuscpu (device (upd_register d i f s) e) = is_unibuscpu (device s e)"
  "the_reg e j (upd_register d i f s) = (if e = d \<and> j = i then f (the_reg d i s) else the_reg e j s)"
  by (simp_all add: upd_register_def upd_device_def)

lemma upd_handle_sel [simp]:
  "devices (upd_device d (handle_update f) s) = devices s"
  "register_handles (upd_device d (handle_update f) s) = register_handles s"
  "pru_registers (upd_device d (handle_update f) s) = pru_registers s"
  "register_by_handle (upd_device d (handle_update f) s) = register_by_handle s"
  "iopage_start_addr (upd_device d (handle_update f) s) = iopage_start_addr s"
  "addr_space_byte_count (upd_device d (handle_update f) s) = addr_space_byte_count s"
  "registered_cpu (upd_device d (handle_update f) s) = registered_cpu s"
  "arm2pru_log (upd_device d (handle_update f) s) = arm2pru_log s"
  "handle (device (upd_device d (handle_update f) s) e) = (if e = d then f (handle (device s d)) else handle (device s e))"
  "base_addr (device (upd_device d (handle_update f) s) e) = base_addr (device s e)"
  "register_count (device (upd_device d (handle_update f) s) e) = register_count (device s e)"
  "is_unibuscpu (device (upd_device d (handle_update f) s) e) = is_unibuscpu (device s e)"
  "registers (device (upd_device d (handle_update f) s) e) = registers (device s e)"
  by (simp_all add: upd_device_def)

lemma reg_bus_addr_index_inj:
  "iopage_index (reg_bus_addr d i s) = iopage_index (reg_bus_addr d j s) \<Longrightarrow>
   i < 0x1000 \<Longrightarrow> j < 0x1000 \<Longrightarrow> i = j"
  unfolding reg_bus_addr_def by (rule iopage_index_reg_inj)

text \<open>What the conflict check does and finds.\<close>

lemma address_conflict_from_frame:
  assumes "address_conflict_from n i d s = (c, s')"
  shows "devices s' = devices s \<and> register_handles s' = register_handles s \<and>
    pru_registers s' = pru_registers s \<and> register_by_handle s' = register_by_handle s \<and>
    iopage_start_addr s' = iopage_start_addr s \<and> addr_space_byte_count s' = addr_space_byte_count s \<and>
    registered_cpu s' = registered_cpu s \<and> arm2pru_log s' = arm2pru_log s \<and>
    (\<forall>e. handle (device s' e) = handle (device s e) \<and> base_addr (device s' e) = base_addr (device s e) \<and>
         register_count (device s' e) = register_count (device s e) \<and>
         is_unibuscpu (device s' e) = is_unibuscpu (device s e)) \<and>
    (\<forall>e k. e \<noteq> d \<longrightarrow> the_reg e k s' = the_reg e k s) \<and>
    (\<forall>k. (the_reg d k s')\<lparr>reg_addr := 0\<rparr> = (the_reg d k s)\<lparr>reg_addr := 0\<rparr>)"
  using assms
proof (induction n arbitrary: i s)
  case 0
  then show ?case by simp
next
  case (Suc n)
  let ?s1 = "upd_register d i (\<lambda>r. r\<lparr>reg_addr := reg_bus_addr d i s\<rparr>) s"
  from Suc.prems consider "s' = ?s1" | "address_conflict_from n (Suc i) d ?s1 = (c, s')"
    by (auto simp: Let_def split: if_splits)
  then show ?case
  proof cases
    case 1
    then show ?thesis by simp
  next
    case 2
    from Suc.IH [OF 2] show ?thesis by (auto split: if_splits)
  qed
qed

lemma address_conflict_from_iff:
  "fst (address_conflict_from n i d s) \<longleftrightarrow>
     (\<exists>k. i \<le> k \<and> k < i + n \<and> register_handles s (iopage_index (reg_bus_addr d k s)) \<notin> {0, 0xff})"
proof (induction n arbitrary: i s)
  case 0
  then show ?case by simp
next
  case (Suc n)
  let ?P = "\<lambda>k. register_handles s (iopage_index (reg_bus_addr d k s)) \<notin> {0, 0xff}"
  have split: "(\<exists>k. i \<le> k \<and> k < i + Suc n \<and> ?P k) \<longleftrightarrow> ?P i \<or> (\<exists>k. Suc i \<le> k \<and> k < Suc i + n \<and> ?P k)"
    by (metis Suc_leD add_Suc add_Suc_right le_neq_implies_less less_add_Suc1 not_less_eq_eq order_refl Suc_leI)
  show ?case
    unfolding split by (simp add: Let_def Suc.IH reg_bus_addr_def)
qed

text \<open>The highest handle in use.\<close>

lemma fold_last_hit:
  fixes xs :: "nat list"
  assumes "sorted xs" "\<forall>x \<in> set xs. m \<le> x"
  shows "m \<le> fold (\<lambda>h m. if P h then h else m) xs m \<and>
    (\<forall>h \<in> set xs. P h \<longrightarrow> h \<le> fold (\<lambda>h m. if P h then h else m) xs m) \<and>
    (fold (\<lambda>h m. if P h then h else m) xs m = m \<or>
     P (fold (\<lambda>h m. if P h then h else m) xs m) \<and> fold (\<lambda>h m. if P h then h else m) xs m \<in> set xs)"
  using assms
proof (induction xs arbitrary: m)
  case Nil
  then show ?case by simp
next
  case (Cons x xs)
  show ?case
  proof (cases "P x")
    case True
    with Cons.IH [of x] Cons.prems show ?thesis by auto
  next
    case False
    with Cons.IH [of m] Cons.prems show ?thesis by auto
  qed
qed

lemma highest_register_handle_bounds:
  "highest_register_handle s < 0xff \<and>
   (\<forall>i<0x1000. register_handles s i \<in> {1..<0xff} \<longrightarrow> register_handles s i \<le> highest_register_handle s)"
proof -
  have "sorted [1..<MAX_IOPAGE_REGISTER_COUNT]" "\<forall>x\<in>set [1..<MAX_IOPAGE_REGISTER_COUNT]. 0 \<le> x"
    by (simp_all only: sorted_upt, simp)
  note f = fold_last_hit [OF this, of "register_handle_used s", folded highest_register_handle_def]
  have "highest_register_handle s < 0xff" using f by auto
  moreover have "register_handles s i \<le> highest_register_handle s"
    if "i < 0x1000" "register_handles s i \<in> {1..<0xff}" for i
    using f that by (auto simp: register_handle_used_def simp del: upt_rec_numeral)
  ultimately show ?thesis by blast
qed


text \<open>What the installation loop does, in closed form.\<close>

definition linked_register :: "dev_id \<Rightarrow> nat \<Rightarrow> nat \<Rightarrow> u32 \<Rightarrow> device_register \<Rightarrow> device_register" where
  "linked_register d k h a r = r\<lparr>reg_device := Some d, reg_index := k, reg_addr := a,
     pru_link := Some h, register_handle := h\<rparr>"

lemma linked_register_sel [simp]:
  "reg_addr (linked_register d k h a r) = a"
  "pru_link (linked_register d k h a r) = Some h"
  "register_handle (linked_register d k h a r) = h"
  "reg_device (linked_register d k h a r) = Some d"
  "reg_index (linked_register d k h a r) = k"
  "active_on_dati (linked_register d k h a r) = active_on_dati r"
  "active_on_dato (linked_register d k h a r) = active_on_dato r"
  "reset_value (linked_register d k h a r) = reset_value r"
  "writable_bits (linked_register d k h a r) = writable_bits r"
  "bad_register_config (linked_register d k h a r) = bad_register_config r"
  "pru_descriptor (linked_register d k h a r) = pru_descriptor r"
  by (auto simp: linked_register_def bad_register_config_def pru_descriptor_def)

lemma install_register_Some:
  "install_register d i rh s = Some s' \<longleftrightarrow>
     register_by_handle s rh = None \<and> \<not> bad_register_config (the_reg d i s) \<and>
     s' = (upd_register d i (linked_register d i rh (reg_bus_addr d i s)) s)
            \<lparr>register_by_handle := (register_by_handle s)(rh \<mapsto> (d, i)),
             pru_registers := (pru_registers s)(rh := pru_descriptor (the_reg d i s) rh),
             register_handles := (register_handles s)(iopage_index (reg_bus_addr d i s) := rh)\<rparr>"
  by (auto simp: install_register_def Let_def linked_register_def [abs_def])

lemma install_registers_from_Suc:
  "install_registers_from (Suc n) i rh d s = Some s' \<longleftrightarrow>
     (\<exists>s1. install_register d i rh s = Some s1 \<and> install_registers_from n (Suc i) (Suc rh) d s1 = Some s')"
  by (auto simp: Option.bind_eq_Some_conv)

declare install_registers_from.simps(2) [simp del]

lemma install_register_bus_addr:
  "install_register d i rh s = Some s' \<Longrightarrow> reg_bus_addr d k s' = reg_bus_addr d k s"
  by (auto simp: install_register_Some reg_bus_addr_def)

lemma install_registers_frame:
  "install_registers_from n i rh d s = Some s' \<Longrightarrow>
   devices s' = devices s \<and> iopage_start_addr s' = iopage_start_addr s \<and>
   addr_space_byte_count s' = addr_space_byte_count s \<and> registered_cpu s' = registered_cpu s \<and>
   arm2pru_log s' = arm2pru_log s \<and>
   (\<forall>e. handle (device s' e) = handle (device s e) \<and> base_addr (device s' e) = base_addr (device s e) \<and>
        register_count (device s' e) = register_count (device s e) \<and>
        is_unibuscpu (device s' e) = is_unibuscpu (device s e))"
proof (induction n arbitrary: i rh s)
  case (Suc n)
  then obtain s1 where "install_register d i rh s = Some s1"
    "install_registers_from n (Suc i) (Suc rh) d s1 = Some s'"
    by (auto simp: install_registers_from_Suc)
  with Suc.IH [OF this(2)] show ?case by (simp add: install_register_Some)
qed simp

lemma install_registers_lookup:
  "install_registers_from n i rh d s = Some s' \<Longrightarrow>
   register_by_handle s' h =
     (if rh \<le> h \<and> h < rh + n then Some (d, i + (h - rh)) else register_by_handle s h)"
proof (induction n arbitrary: i rh s)
  case (Suc n)
  then obtain s1 where "install_register d i rh s = Some s1"
    "install_registers_from n (Suc i) (Suc rh) d s1 = Some s'"
    by (auto simp: install_registers_from_Suc)
  with Suc.IH [OF this(2)] show ?case by (auto simp: install_register_Some)
qed auto

lemma install_registers_reg:
  "install_registers_from n i rh d s = Some s' \<Longrightarrow>
   the_reg e k s' = (if e = d \<and> i \<le> k \<and> k < i + n
     then linked_register d k (rh + (k - i)) (reg_bus_addr d k s) (the_reg d k s) else the_reg e k s)"
proof (induction n arbitrary: i rh s)
  case (Suc n)
  then obtain s1 where s1: "install_register d i rh s = Some s1"
    "install_registers_from n (Suc i) (Suc rh) d s1 = Some s'"
    by (auto simp: install_registers_from_Suc)
  have "Suc (rh + k - Suc i) = rh + k - i" if "i < k" using that by simp
  with s1 Suc.IH [OF s1(2)] install_register_bus_addr [OF s1(1)] show ?case
    by (auto simp: install_register_Some)
qed auto

lemma install_registers_descriptor:
  "install_registers_from n i rh d s = Some s' \<Longrightarrow>
   pru_registers s' h = (if rh \<le> h \<and> h < rh + n
     then pru_descriptor (the_reg d (i + (h - rh)) s) h else pru_registers s h)"
proof (induction n arbitrary: i rh s)
  case (Suc n)
  then obtain s1 where s1: "install_register d i rh s = Some s1"
    "install_registers_from n (Suc i) (Suc rh) d s1 = Some s'"
    by (auto simp: install_registers_from_Suc)
  have "Suc (i + h - Suc rh) = i + h - rh" if "rh < h" using that by simp
  with s1 Suc.IH [OF s1(2)] show ?case
    by (auto simp: install_register_Some)
qed auto

lemma install_registers_other_cells:
  "install_registers_from n i rh d s = Some s' \<Longrightarrow>
   \<forall>k. i \<le> k \<and> k < i + n \<longrightarrow> x \<noteq> iopage_index (reg_bus_addr d k s) \<Longrightarrow>
   register_handles s' x = register_handles s x"
proof (induction n arbitrary: i rh s)
  case (Suc n)
  then obtain s1 where s1: "install_register d i rh s = Some s1"
    "install_registers_from n (Suc i) (Suc rh) d s1 = Some s'"
    by (auto simp: install_registers_from_Suc)
  from Suc.prems(2) install_register_bus_addr [OF s1(1)]
  have "\<forall>k. Suc i \<le> k \<and> k < Suc i + n \<longrightarrow> x \<noteq> iopage_index (reg_bus_addr d k s1)" by simp
  with Suc.IH [OF s1(2)] s1(1) Suc.prems(2) show ?case by (auto simp: install_register_Some)
qed simp

lemma install_registers_own_cells:
  "install_registers_from n i rh d s = Some s' \<Longrightarrow> i + n \<le> 0x1000 \<Longrightarrow> i \<le> k \<Longrightarrow> k < i + n \<Longrightarrow>
   register_handles s' (iopage_index (reg_bus_addr d k s)) = rh + (k - i)"
proof (induction n arbitrary: i rh s)
  case (Suc n)
  then obtain s1 where s1: "install_register d i rh s = Some s1"
    "install_registers_from n (Suc i) (Suc rh) d s1 = Some s'"
    by (auto simp: install_registers_from_Suc)
  note b = install_register_bus_addr [OF s1(1)]
  show ?case
  proof (cases "k = i")
    case True
    have "\<forall>m. Suc i \<le> m \<and> m < Suc i + n \<longrightarrow>
            iopage_index (reg_bus_addr d i s) \<noteq> iopage_index (reg_bus_addr d m s1)"
      using Suc.prems(2) reg_bus_addr_index_inj [of d i s] by (fastforce simp: b)
    from install_registers_other_cells [OF s1(2) this] s1(1) True show ?thesis
      by (simp add: install_register_Some)
  next
    case False
    with Suc.prems Suc.IH [OF s1(2)] show ?thesis by (simp add: b)
  qed
qed simp

lemma install_registers_defined:
  "\<forall>j. rh \<le> j \<and> j < rh + n \<longrightarrow> register_by_handle s j = None \<Longrightarrow>
   \<forall>k. i \<le> k \<and> k < i + n \<longrightarrow> \<not> bad_register_config (the_reg d k s) \<Longrightarrow>
   \<exists>s'. install_registers_from n i rh d s = Some s'"
proof (induction n arbitrary: i rh s)
  case (Suc n)
  then obtain s1 where s1: "install_register d i rh s = Some s1"
    by (auto simp: install_register_Some)
  with Suc.prems have "\<forall>j. Suc rh \<le> j \<and> j < Suc rh + n \<longrightarrow> register_by_handle s1 j = None"
    "\<forall>k. Suc i \<le> k \<and> k < Suc i + n \<longrightarrow> \<not> bad_register_config (the_reg d k s1)"
    by (auto simp: install_register_Some)
  from Suc.IH [OF this] s1 show ?case by (auto simp: install_registers_from_Suc)
qed simp

end
