(* ===== verification/Register_Map.thy ===== *)
theory Register_Map
  imports Device_Registers
begin

text \<open>
  The register map stays consistent: the invariant that ties the IO page cells, the
  lookup table from handles to registers, the register links and the backplane together,
  its preservation by plugging and unplugging devices and ROM cells, and what a bus
  access to a plugged register reaches.
\<close>

subsection \<open>The invariant of the register map\<close>

definition owns_register :: "'a iopage_state_scheme \<Rightarrow> dev_id \<Rightarrow> nat \<Rightarrow> bool" where
  "owns_register s d k \<longleftrightarrow> handle (device s d) \<noteq> 0 \<and> k < register_count (device s d)"

definition lookup_inv :: "'a iopage_state_scheme \<Rightarrow> bool" where
  "lookup_inv s \<longleftrightarrow>
     (\<forall>h d k. register_by_handle s h = Some (d, k) \<longrightarrow>
        0 < h \<and> h < 0xff \<and> owns_register s d k \<and> register_handle (the_reg d k s) = h \<and>
        pru_link (the_reg d k s) = Some h \<and>
        register_handles s (iopage_index (reg_addr (the_reg d k s))) = h)"

definition cells_inv :: "'a iopage_state_scheme \<Rightarrow> bool" where
  "cells_inv s \<longleftrightarrow>
     (\<forall>x<0x1000. register_handles s x = 0 \<or> register_handles s x = 0xff \<or>
        (\<exists>d k. register_by_handle s (register_handles s x) = Some (d, k) \<and>
               iopage_index (reg_addr (the_reg d k s)) = x))"

definition backplane_inv :: "'a iopage_state_scheme \<Rightarrow> bool" where
  "backplane_inv s \<longleftrightarrow>
     (\<forall>d. handle (device s d) \<noteq> 0 \<longrightarrow> devices s (handle (device s d)) = Some d) \<and>
     (\<forall>h d. devices s h = Some d \<longrightarrow> handle (device s d) = h \<and> 0 < h) \<and>
     (\<forall>d k. owns_register s d k \<longrightarrow> register_by_handle s (register_handle (the_reg d k s)) = Some (d, k))"

definition iopage_inv :: "'a iopage_state_scheme \<Rightarrow> bool" where
  "iopage_inv s \<longleftrightarrow> lookup_inv s \<and> cells_inv s \<and> backplane_inv s"

lemma lookup_invD:
  "lookup_inv s \<Longrightarrow> register_by_handle s h = Some (d, k) \<Longrightarrow>
     0 < h \<and> h < 0xff \<and> owns_register s d k \<and> register_handle (the_reg d k s) = h \<and>
     pru_link (the_reg d k s) = Some h \<and>
     register_handles s (iopage_index (reg_addr (the_reg d k s))) = h"
  unfolding lookup_inv_def by blast

lemma cells_invD:
  "cells_inv s \<Longrightarrow> x < 0x1000 \<Longrightarrow> register_handles s x \<notin> {0, 0xff} \<Longrightarrow>
     \<exists>d k. register_by_handle s (register_handles s x) = Some (d, k) \<and>
           iopage_index (reg_addr (the_reg d k s)) = x"
  unfolding cells_inv_def by auto

lemma free_device_handle_Some:
  "free_device_handle s = Some h \<Longrightarrow> devices s h = None \<and> 0 < h \<and> h \<le> 255"
  by (auto simp: free_device_handle_def find_Some_iff simp del: upt_rec_numeral)

lemma linked_register_addr:
  "linked_register d k h a (r\<lparr>reg_addr := b\<rparr>) = linked_register d k h a r"
  by (simp add: linked_register_def)

text \<open>
  The stages of a successful registration, as one elimination rule.
\<close>

lemma register_device_True:
  assumes "register_device d s = Some (True, s')"
  obtains dh s2 s3 rh where
    "handle (device s d) = 0" "register_count (device s d) \<le> 0xff"
    "free_device_handle s = Some dh"
    "address_conflict_from (register_count (device s d)) 0 d
       (upd_device d (\<lambda>dev. dev\<lparr>handle := dh\<rparr>) (s\<lparr>devices := (devices s)(dh \<mapsto> d)\<rparr>)) = (False, s2)"
    "rh = highest_register_handle s2" "register_count (device s d) \<le> 0xff - rh - 1"
    "install_registers_from (register_count (device s d)) 0 (Suc rh) d s2 = Some s3"
    "s' = s3 \<or> registered_cpu s3 = None \<and> s' = s3\<lparr>registered_cpu := Some d\<rparr>"
  using assms
  by (auto simp: register_device_def Let_def Option.bind_eq_Some_conv
      split: option.splits prod.splits if_splits)

text \<open>The effect of a successful registration on every table, from the stages.\<close>

lemma register_device_True_effect:
  assumes "register_device d s = Some (True, s')"
  obtains dh rh where
    "free_device_handle s = Some dh" "handle (device s d) = 0"
    "rh = highest_register_handle s" "rh + register_count (device s d) < 0xff"
    "devices s' = (devices s)(dh \<mapsto> d)"
    "\<And>e. handle (device s' e) = (if e = d then dh else handle (device s e))"
    "\<And>e. register_count (device s' e) = register_count (device s e)"
    "\<And>e. base_addr (device s' e) = base_addr (device s e)"
    "\<And>h. register_by_handle s' h = (if rh < h \<and> h \<le> rh + register_count (device s d)
           then Some (d, h - Suc rh) else register_by_handle s h)"
    "\<And>e k. e \<noteq> d \<Longrightarrow> the_reg e k s' = the_reg e k s"
    "\<And>k. k < register_count (device s d) \<Longrightarrow> the_reg d k s' =
        linked_register d k (Suc (rh + k)) (reg_bus_addr d k s) (the_reg d k s)"
    "\<And>k. k < register_count (device s d) \<Longrightarrow>
        pru_registers s' (Suc (rh + k)) = pru_descriptor (the_reg d k s) (Suc (rh + k))"
    "\<And>k. k < register_count (device s d) \<Longrightarrow> register_handles s (iopage_index (reg_bus_addr d k s)) \<in> {0, 0xff}"
    "\<And>k. k < register_count (device s d) \<Longrightarrow>
        register_handles s' (iopage_index (reg_bus_addr d k s)) = Suc (rh + k)"
    "\<And>x. \<forall>k<register_count (device s d). x \<noteq> iopage_index (reg_bus_addr d k s) \<Longrightarrow>
        register_handles s' x = register_handles s x"
    "\<And>h. h \<le> rh \<Longrightarrow> pru_registers s' h = pru_registers s h"
    "iopage_start_addr s' = iopage_start_addr s" "addr_space_byte_count s' = addr_space_byte_count s"
proof -
  let ?n = "register_count (device s d)"
  from assms show ?thesis
  proof (rule register_device_True)
    fix dh s2 s3 rh
    let ?s1 = "upd_device d (\<lambda>dev. dev\<lparr>handle := dh\<rparr>) (s\<lparr>devices := (devices s)(dh \<mapsto> d)\<rparr>)"
    assume h: "handle (device s d) = 0" "?n \<le> 0xff" "free_device_handle s = Some dh"
      and c: "address_conflict_from ?n 0 d ?s1 = (False, s2)"
      and rh: "rh = highest_register_handle s2" and room: "?n \<le> 0xff - rh - 1"
      and inst: "install_registers_from ?n 0 (Suc rh) d s2 = Some s3"
      and s': "s' = s3 \<or> registered_cpu s3 = None \<and> s' = s3\<lparr>registered_cpu := Some d\<rparr>"
    note f = address_conflict_from_frame [OF c]
    have ba: "reg_bus_addr d k s2 = reg_bus_addr d k s" for k
      using f by (simp add: reg_bus_addr_def)
    have rh': "rh = highest_register_handle s"
      using f rh by (simp add: highest_register_handle_def register_handle_used_def [abs_def])
    have rhb: "rh < 0xff" using highest_register_handle_bounds rh by blast
    have noc: "register_handles s (iopage_index (reg_bus_addr d k s)) \<in> {0, 0xff}" if "k < ?n" for k
      using c address_conflict_from_iff [of ?n 0 d ?s1] that by (auto simp: reg_bus_addr_def)
    have own: "(the_reg d k s2)\<lparr>reg_addr := 0\<rparr> = (the_reg d k s)\<lparr>reg_addr := 0\<rparr>" for k
      using f by simp
    have desc: "pru_descriptor (the_reg d k s2) = pru_descriptor (the_reg d k s)" for k
      using arg_cong [OF own, of pru_descriptor k] by (simp add: pru_descriptor_def [abs_def])
    have lk: "the_reg d k s2 = (the_reg d k s)\<lparr>reg_addr := reg_addr (the_reg d k s2)\<rparr>" for k
      using arg_cong [OF own, of "\<lambda>r. r\<lparr>reg_addr := reg_addr (the_reg d k s2)\<rparr>" k] by simp
    note lr = install_registers_reg [OF inst]
    show ?thesis
    proof (rule that [OF h(3) h(1) rh'])
      show "rh + ?n < 0xff" using room rhb by simp
      show "devices s' = (devices s)(dh \<mapsto> d)"
        using s' install_registers_frame [OF inst] f by auto
      show "handle (device s' e) = (if e = d then dh else handle (device s e))" for e
        using s' install_registers_frame [OF inst] f by auto
      show "register_count (device s' e) = register_count (device s e)" for e
        using s' install_registers_frame [OF inst] f by auto
      show "base_addr (device s' e) = base_addr (device s e)" for e
        using s' install_registers_frame [OF inst] f by auto
      show "register_by_handle s' h = (if rh < h \<and> h \<le> rh + ?n
           then Some (d, h - Suc rh) else register_by_handle s h)" for h
        using s' install_registers_lookup [OF inst, of h] f by auto
      show "the_reg e k s' = the_reg e k s" if "e \<noteq> d" for e k
        using s' lr [of e k] f that by auto
      show "the_reg d k s' = linked_register d k (Suc (rh + k)) (reg_bus_addr d k s) (the_reg d k s)"
        if "k < ?n" for k
      proof -
        have "the_reg d k s' = linked_register d k (Suc (rh + k)) (reg_bus_addr d k s) (the_reg d k s2)"
          using s' lr [of d k] that by (auto simp: ba)
        then show ?thesis using lk [of k] linked_register_addr by metis
      qed
      show "pru_registers s' (Suc (rh + k)) = pru_descriptor (the_reg d k s) (Suc (rh + k))"
        if "k < ?n" for k
        using s' install_registers_descriptor [OF inst, of "Suc (rh + k)"] that desc by auto
      show "register_handles s (iopage_index (reg_bus_addr d k s)) \<in> {0, 0xff}" if "k < ?n" for k
        using noc that .
      show "register_handles s' (iopage_index (reg_bus_addr d k s)) = Suc (rh + k)" if "k < ?n" for k
        using s' install_registers_own_cells [OF inst, of k] that h(2) by (auto simp: ba)
      show "register_handles s' x = register_handles s x"
        if "\<forall>k<?n. x \<noteq> iopage_index (reg_bus_addr d k s)" for x
        using s' install_registers_other_cells [OF inst, of x] that f by (auto simp: ba)
      show "pru_registers s' h = pru_registers s h" if "h \<le> rh" for h
        using s' install_registers_descriptor [OF inst, of h] that f by auto
      show "iopage_start_addr s' = iopage_start_addr s" "addr_space_byte_count s' = addr_space_byte_count s"
        using s' install_registers_frame [OF inst] f by auto
    qed
  qed
qed


lemma register_device_lookup_inv:
  assumes inv: "iopage_inv s" and ok: "register_device d s = Some (True, s')"
  shows "lookup_inv s' \<and> cells_inv s' \<and> backplane_inv s'"
  using ok
proof (rule register_device_True_effect)
  let ?n = "register_count (device s d)"
  fix dh rh
  assume dh: "free_device_handle s = Some dh" and h0: "handle (device s d) = 0"
    and rh: "rh = highest_register_handle s" and room: "rh + ?n < 0xff"
    and devs: "devices s' = (devices s)(dh \<mapsto> d)"
    and hd: "\<And>e. handle (device s' e) = (if e = d then dh else handle (device s e))"
    and rc: "\<And>e. register_count (device s' e) = register_count (device s e)"
    and lk: "\<And>h. register_by_handle s' h = (if rh < h \<and> h \<le> rh + ?n
           then Some (d, h - Suc rh) else register_by_handle s h)"
    and other: "\<And>e k. e \<noteq> d \<Longrightarrow> the_reg e k s' = the_reg e k s"
    and own: "\<And>k. k < ?n \<Longrightarrow> the_reg d k s' =
        linked_register d k (Suc (rh + k)) (reg_bus_addr d k s) (the_reg d k s)"
    and free: "\<And>k. k < ?n \<Longrightarrow> register_handles s (iopage_index (reg_bus_addr d k s)) \<in> {0, 0xff}"
    and cell: "\<And>k. k < ?n \<Longrightarrow> register_handles s' (iopage_index (reg_bus_addr d k s)) = Suc (rh + k)"
    and cells: "\<And>x. \<forall>k<?n. x \<noteq> iopage_index (reg_bus_addr d k s) \<Longrightarrow>
        register_handles s' x = register_handles s x"
  have L: "lookup_inv s" and C: "cells_inv s" and B: "backplane_inv s"
    using inv by (simp_all add: iopage_inv_def)
  have d0: "0 < dh" "devices s dh = None" using free_device_handle_Some [OF dh] by auto
  have used: "h \<le> rh \<and> e \<noteq> d" if "register_by_handle s h = Some (e, k)" for h e k
  proof -
    note l = lookup_invD [OF L that]
    let ?x = "iopage_index (reg_addr (the_reg e k s))"
    from l have "register_handles s ?x \<in> {1..<0xff}" by auto
    then have "register_handles s ?x \<le> rh"
      using highest_register_handle_bounds [of s] iopage_index_less unfolding rh by blast
    with l h0 show ?thesis by (auto simp: owns_register_def)
  qed
  have keep: "register_handles s' (iopage_index (reg_addr (the_reg e k s'))) = h"
    if "register_by_handle s h = Some (e, k)" for h e k
  proof -
    from used [OF that] have "the_reg e k s' = the_reg e k s" using other by blast
    moreover have "register_handles s (iopage_index (reg_addr (the_reg e k s))) = h" "0 < h" "h < 0xff"
      using lookup_invD [OF L that] by auto
    moreover from this have "\<forall>j<?n. iopage_index (reg_addr (the_reg e k s)) \<noteq> iopage_index (reg_bus_addr d j s)"
      using free by force
    ultimately show ?thesis using cells by auto
  qed
  have lookup': "register_by_handle s' h = register_by_handle s h" if "h \<le> rh" for h
    using lk that by simp
  have "lookup_inv s'"
    unfolding lookup_inv_def
  proof (intro allI impI)
    fix h e k assume a: "register_by_handle s' h = Some (e, k)"
    show "0 < h \<and> h < 255 \<and> owns_register s' e k \<and> register_handle (the_reg e k s') = h \<and>
        pru_link (the_reg e k s') = Some h \<and>
        register_handles s' (iopage_index (reg_addr (the_reg e k s'))) = h"
    proof (cases "rh < h \<and> h \<le> rh + ?n")
      case True
      with a lk [of h] have e: "e = d" "k = h - Suc rh" by auto
      have k: "k < ?n" "h = Suc (rh + k)" using True unfolding e(2) by auto
      show ?thesis
        unfolding e(1) k(2) owns_register_def hd rc own [OF k(1)] linked_register_sel cell [OF k(1)]
        using k(1) room d0 by simp
    next
      case False
      then have a': "register_by_handle s h = Some (e, k)" using a lk [of h] by (simp only: if_False)
      show ?thesis
        using lookup_invD [OF L a'] used [OF a'] keep [OF a'] other
        by (auto simp: owns_register_def hd rc)
    qed
  qed
  moreover have "cells_inv s'"
    unfolding cells_inv_def
  proof (intro allI impI)
    fix x :: nat assume x: "x < 0x1000"
    show "register_handles s' x = 0 \<or> register_handles s' x = 255 \<or>
        (\<exists>d k. register_by_handle s' (register_handles s' x) = Some (d, k) \<and>
               iopage_index (reg_addr (the_reg d k s')) = x)"
    proof (cases "\<forall>k<?n. x \<noteq> iopage_index (reg_bus_addr d k s)")
      case True
      note same = cells [OF True]
      show ?thesis
      proof (cases "register_handles s x \<in> {0, 0xff}")
        case False
        from cells_invD [OF C x this] obtain e k
          where l: "register_by_handle s (register_handles s x) = Some (e, k)"
            "iopage_index (reg_addr (the_reg e k s)) = x" by blast
        from used [OF l(1)] have "the_reg e k s' = the_reg e k s" "register_handles s x \<le> rh"
          using other by auto
        with l same lookup' show ?thesis by auto
      qed (use same in auto)
    next
      case False
      then obtain k where k: "k < ?n" "x = iopage_index (reg_bus_addr d k s)" by blast
      then have "register_by_handle s' (register_handles s' x) = Some (d, k)"
        using cell [of k] by (simp add: lk)
      with k own [of k] show ?thesis by auto
    qed
  qed
  moreover have "backplane_inv s'"
    unfolding backplane_inv_def
  proof (intro conjI allI impI)
    fix e assume "handle (device s' e) \<noteq> 0"
    then show "devices s' (handle (device s' e)) = Some e"
      using B d0 by (auto simp: hd devs backplane_inv_def)
  next
    fix h e assume a: "devices s' h = Some e"
    have "devices s h = Some e \<Longrightarrow> handle (device s e) = h \<and> 0 < h"
      using B unfolding backplane_inv_def by blast
    with a show "handle (device s' e) = h" using h0 by (auto simp: hd devs split: if_splits)
  next
    fix h e assume a: "devices s' h = Some e"
    have "devices s h = Some e \<Longrightarrow> 0 < h" using B unfolding backplane_inv_def by blast
    with a show "0 < h" using d0 by (auto simp: devs split: if_splits)
  next
    fix e k assume o: "owns_register s' e k"
    show "register_by_handle s' (register_handle (the_reg e k s')) = Some (e, k)"
    proof (cases "e = d")
      case True
      with o have "k < ?n" by (simp add: owns_register_def rc)
      with True own [of k] show ?thesis by (simp add: lk)
    next
      case False
      with o have "owns_register s e k" by (simp add: owns_register_def hd rc)
      with B have r: "register_by_handle s (register_handle (the_reg e k s)) = Some (e, k)"
        by (simp add: backplane_inv_def)
      with used [OF r] lookup' False other show ?thesis by auto
    qed
  qed
  ultimately show ?thesis by simp
qed

subsection \<open>Refusals and unplugging\<close>

lemma register_device_defined:
  assumes inv: "iopage_inv s" and "handle (device s d) = 0" "register_count (device s d) \<le> 0xff"
    and good: "\<And>k. k < register_count (device s d) \<Longrightarrow> \<not> bad_register_config (the_reg d k s)"
    and cpu: "is_unibuscpu (device s d) \<Longrightarrow> registered_cpu s = None"
  shows "\<exists>b s'. register_device d s = Some (b, s')"
proof (cases "free_device_handle s")
  case None
  with assms show ?thesis by (auto simp: register_device_def)
next
  case (Some dh)
  let ?n = "register_count (device s d)"
  let ?s1 = "upd_device d (\<lambda>dev. dev\<lparr>handle := dh\<rparr>) (s\<lparr>devices := (devices s)(dh \<mapsto> d)\<rparr>)"
  obtain c s2 where c: "address_conflict_from ?n 0 d ?s1 = (c, s2)" by force
  note f = address_conflict_from_frame [OF c]
  let ?rh = "highest_register_handle s2"
  have "register_by_handle s2 h = None" if "?rh < h" for h
  proof (rule ccontr)
    assume "register_by_handle s2 h \<noteq> None"
    then obtain e k where "register_by_handle s h = Some (e, k)" using f by auto
    with inv have l: "0 < h" "h < 0xff" "register_handles s (iopage_index (reg_addr (the_reg e k s))) = h"
      by (auto simp: iopage_inv_def dest: lookup_invD)
    let ?x = "iopage_index (reg_addr (the_reg e k s))"
    have "register_handles s2 ?x = h" using l f by simp
    moreover from this l have "register_handles s2 ?x \<in> {1..<0xff}" by simp
    then have "register_handles s2 ?x \<le> ?rh"
      using highest_register_handle_bounds [of s2] iopage_index_less by blast
    ultimately show False using that by simp
  qed
  moreover have "\<not> bad_register_config (the_reg d k s2)" if "k < ?n" for k
  proof -
    have "(the_reg d k s2)\<lparr>reg_addr := 0\<rparr> = (the_reg d k s)\<lparr>reg_addr := 0\<rparr>" using f by simp
    from arg_cong [OF this, of bad_register_config] good [OF that] show ?thesis
      by (simp add: bad_register_config_def)
  qed
  ultimately obtain s3 where s3: "install_registers_from ?n 0 (Suc ?rh) d s2 = Some s3"
    using install_registers_defined [of "Suc ?rh" ?n s2 0 d] by auto
  moreover have "registered_cpu s3 = registered_cpu s"
    using install_registers_frame [OF s3] f by simp
  ultimately show ?thesis
    using assms Some c by (auto simp: register_device_def Let_def)
qed

text \<open>A refused registration changes nothing but addresses of the refused device's registers.\<close>

lemma register_device_False_effect:
  assumes "register_device d s = Some (False, s')" and inv: "iopage_inv s"
  shows "devices s' = devices s \<and> register_handles s' = register_handles s \<and>
    pru_registers s' = pru_registers s \<and> register_by_handle s' = register_by_handle s \<and>
    registered_cpu s' = registered_cpu s \<and>
    (\<forall>e. handle (device s' e) = handle (device s e) \<and> register_count (device s' e) = register_count (device s e)) \<and>
    (\<forall>e k. e \<noteq> d \<longrightarrow> the_reg e k s' = the_reg e k s)"
proof -
  have h0: "handle (device s d) = 0" using assms(1) by (auto simp: register_device_def split: if_splits)
  show ?thesis
  proof (cases "free_device_handle s")
    case None
    then have "s' = s" using assms(1) by (auto simp: register_device_def split: if_splits)
    then show ?thesis by simp
  next
    case (Some dh)
    let ?s1 = "upd_device d (\<lambda>dev. dev\<lparr>handle := dh\<rparr>) (s\<lparr>devices := (devices s)(dh \<mapsto> d)\<rparr>)"
    obtain c s2 where c: "address_conflict_from (register_count (device s d)) 0 d ?s1 = (c, s2)" by force
    from assms(1) Some c have "s' = give_back d dh s2"
      by (auto simp: register_device_def Let_def Option.bind_eq_Some_conv split: if_splits)
    with address_conflict_from_frame [OF c] free_device_handle_Some [OF Some] h0
    show ?thesis by (auto simp: give_back_def)
  qed
qed

lemma register_device_False_inv:
  assumes r: "register_device d s = Some (False, s')" and inv: "iopage_inv s"
  shows "iopage_inv s'"
proof -
  note f = register_device_False_effect [OF assms]
  have h0: "handle (device s d) = 0" using r by (auto simp: register_device_def split: if_splits)
  have o: "owns_register s' e k = owns_register s e k" for e k using f by (simp add: owns_register_def)
  have od: "owns_register s e k \<Longrightarrow> the_reg e k s' = the_reg e k s" for e k
    using f h0 by (cases "e = d") (auto simp: owns_register_def)
  have L: "lookup_inv s" and C: "cells_inv s" and B: "backplane_inv s"
    using inv by (simp_all add: iopage_inv_def)
  have "lookup_inv s'"
    unfolding lookup_inv_def
  proof (intro allI impI)
    fix h e k assume "register_by_handle s' h = Some (e, k)"
    then have "register_by_handle s h = Some (e, k)" using f by simp
    from lookup_invD [OF L this] od o f
    show "0 < h \<and> h < 255 \<and> owns_register s' e k \<and> register_handle (the_reg e k s') = h \<and>
        pru_link (the_reg e k s') = Some h \<and>
        register_handles s' (iopage_index (reg_addr (the_reg e k s'))) = h" by simp
  qed
  moreover have "cells_inv s'"
    unfolding cells_inv_def
  proof (intro allI impI)
    fix x :: nat assume x: "x < 0x1000"
    show "register_handles s' x = 0 \<or> register_handles s' x = 255 \<or>
        (\<exists>d k. register_by_handle s' (register_handles s' x) = Some (d, k) \<and>
               iopage_index (reg_addr (the_reg d k s')) = x)"
      using cells_invD [OF C x] lookup_invD [OF L] od f by (metis insert_iff singletonD)
  qed
  moreover have "backplane_inv s'"
    using B od o f unfolding backplane_inv_def by metis
  ultimately show ?thesis by (simp add: iopage_inv_def)
qed

text \<open>Unplugging.\<close>

lemma remove_registers_frame:
  "device (remove_registers_from n i d s) = device s"
  "devices (remove_registers_from n i d s) = devices s"
  "pru_registers (remove_registers_from n i d s) = pru_registers s"
  "registered_cpu (remove_registers_from n i d s) = registered_cpu s"
  by (induction n arbitrary: i s) (simp_all add: Let_def)

lemma remove_registers_lookup:
  "register_by_handle (remove_registers_from n i d s) h =
     (if \<exists>k. i \<le> k \<and> k < i + n \<and> register_handle (the_reg d k s) = h then None else register_by_handle s h)"
proof (induction n arbitrary: i s)
  case (Suc n)
  have "(\<exists>k. i \<le> k \<and> k < i + Suc n \<and> P k) \<longleftrightarrow> P i \<or> (\<exists>k. Suc i \<le> k \<and> k < Suc i + n \<and> P k)" for P
    by (metis Suc_leD add_Suc add_Suc_right le_neq_implies_less less_add_Suc1 not_less_eq_eq order_refl Suc_leI)
  then show ?case by (auto simp: Let_def Suc.IH)
qed auto

lemma remove_registers_cells:
  "register_handles (remove_registers_from n i d s) x =
     (if \<exists>k. i \<le> k \<and> k < i + n \<and> iopage_index (reg_addr (the_reg d k s)) = x then 0 else register_handles s x)"
proof (induction n arbitrary: i s)
  case (Suc n)
  have "(\<exists>k. i \<le> k \<and> k < i + Suc n \<and> P k) \<longleftrightarrow> P i \<or> (\<exists>k. Suc i \<le> k \<and> k < Suc i + n \<and> P k)" for P
    by (metis Suc_leD add_Suc add_Suc_right le_neq_implies_less less_add_Suc1 not_less_eq_eq order_refl Suc_leI)
  then show ?case by (auto simp: Let_def Suc.IH)
qed auto

lemma unregister_device_effect:
  assumes "unregister_device d s = Some s'"
  shows "0 < handle (device s d) \<and>
    (\<forall>e. handle (device s' e) = (if e = d then 0 else handle (device s e))) \<and>
    (\<forall>e. register_count (device s' e) = register_count (device s e)) \<and>
    (\<forall>e k. the_reg e k s' = the_reg e k s) \<and>
    devices s' = (devices s)(handle (device s d) := None) \<and>
    (\<forall>h. register_by_handle s' h =
       (if \<exists>k<register_count (device s d). register_handle (the_reg d k s) = h
        then None else register_by_handle s h)) \<and>
    (\<forall>x. register_handles s' x =
       (if \<exists>k<register_count (device s d). iopage_index (reg_addr (the_reg d k s)) = x
        then 0 else register_handles s x))"
  using assms
  by (auto simp: unregister_device_def Let_def remove_registers_frame remove_registers_lookup
      remove_registers_cells split: if_splits)

lemma unregister_device_inv:
  assumes u: "unregister_device d s = Some s'" and inv: "iopage_inv s"
  shows "iopage_inv s'"
proof -
  note f = unregister_device_effect [OF u]
  have L: "lookup_inv s" and C: "cells_inv s" and B: "backplane_inv s"
    using inv by (simp_all add: iopage_inv_def)
  let ?n = "register_count (device s d)"
  have own: "register_by_handle s (register_handle (the_reg d k s)) = Some (d, k)" if "k < ?n" for k
    using B f that by (auto simp: backplane_inv_def owns_register_def)
  have keep: "e \<noteq> d \<and> register_by_handle s h = Some (e, k)"
    if "register_by_handle s' h = Some (e, k)" for h e k
  proof -
    from that f have r: "register_by_handle s h = Some (e, k)"
      and no: "\<not> (\<exists>k<?n. register_handle (the_reg d k s) = h)" by (auto split: if_splits)
    from lookup_invD [OF L r] no have "e \<noteq> d" by (auto simp: owns_register_def)
    with r show ?thesis by simp
  qed
  have cell: "register_handles s' (iopage_index (reg_addr (the_reg e k s))) = h"
    if "register_by_handle s h = Some (e, k)" "e \<noteq> d" for h e k
  proof -
    note l = lookup_invD [OF L that(1)]
    have "iopage_index (reg_addr (the_reg d j s)) \<noteq> iopage_index (reg_addr (the_reg e k s))" if j: "j < ?n" for j
      using lookup_invD [OF L own [OF j]] l \<open>e \<noteq> d\<close> own [OF j] \<open>register_by_handle s h = Some (e, k)\<close> by auto
    with f l show ?thesis by auto
  qed
  have "lookup_inv s'"
    unfolding lookup_inv_def
  proof (intro allI impI)
    fix h e k assume "register_by_handle s' h = Some (e, k)"
    from keep [OF this] have r: "register_by_handle s h = Some (e, k)" "e \<noteq> d" by auto
    from lookup_invD [OF L r(1)] cell [OF r] f r(2)
    show "0 < h \<and> h < 255 \<and> owns_register s' e k \<and> register_handle (the_reg e k s') = h \<and>
        pru_link (the_reg e k s') = Some h \<and>
        register_handles s' (iopage_index (reg_addr (the_reg e k s'))) = h"
      by (auto simp: owns_register_def)
  qed
  moreover have "cells_inv s'"
    unfolding cells_inv_def
  proof (intro allI impI)
    fix x :: nat assume x: "x < 0x1000"
    show "register_handles s' x = 0 \<or> register_handles s' x = 255 \<or>
        (\<exists>d k. register_by_handle s' (register_handles s' x) = Some (d, k) \<and>
               iopage_index (reg_addr (the_reg d k s')) = x)"
    proof (cases "register_handles s' x \<in> {0, 0xff}")
      case False
      with f have same: "register_handles s' x = register_handles s x"
        and nod: "\<not> (\<exists>k<?n. iopage_index (reg_addr (the_reg d k s)) = x)" by (auto split: if_splits)
      from cells_invD [OF C x] False same obtain e k
        where l: "register_by_handle s (register_handles s x) = Some (e, k)"
          "iopage_index (reg_addr (the_reg e k s)) = x" by auto
      from lookup_invD [OF L l(1)] nod l(2) have "e \<noteq> d" by (auto simp: owns_register_def)
      moreover have "\<not> (\<exists>j<?n. register_handle (the_reg d j s) = register_handles s x)"
        using own l(1) \<open>e \<noteq> d\<close> by force
      ultimately show ?thesis using f l same by auto
    qed auto
  qed
  moreover have "backplane_inv s'"
    unfolding backplane_inv_def
  proof (intro conjI allI impI)
    fix e assume "handle (device s' e) \<noteq> 0"
    then have "e \<noteq> d" "handle (device s e) \<noteq> 0" using f by (auto split: if_splits)
    moreover have "devices s (handle (device s e)) = Some e" "devices s (handle (device s d)) = Some d"
      using B f calculation by (auto simp: backplane_inv_def)
    ultimately show "devices s' (handle (device s' e)) = Some e" using f by auto
  next
    fix h e assume a: "devices s' h = Some e"
    then have "devices s h = Some e" "h \<noteq> handle (device s d)" using f by (auto split: if_splits)
    moreover from this have "handle (device s e) = h \<and> 0 < h" using B unfolding backplane_inv_def by blast
    ultimately show "handle (device s' e) = h" "0 < h" using f by auto
  next
    fix e k assume o: "owns_register s' e k"
    then have e: "e \<noteq> d" "owns_register s e k" using f by (auto simp: owns_register_def split: if_splits)
    then have "register_by_handle s (register_handle (the_reg e k s)) = Some (e, k)"
      using B unfolding backplane_inv_def by blast
    with own e f show "register_by_handle s' (register_handle (the_reg e k s')) = Some (e, k)" by force
  qed
  ultimately show ?thesis by (simp add: iopage_inv_def)
qed

subsection \<open>ROM cells\<close>

lemma register_rom_cases:
  assumes "register_rom addr s = Some (b, s')"
  shows "if b then register_handles s (iopage_index addr) = 0 \<and>
             s' = s\<lparr>register_handles := (register_handles s)(iopage_index addr := 0xff)\<rparr>
         else s' = s \<and> register_handles s (iopage_index addr) \<notin> {0, 0xff}"
  using assms by (auto simp: register_rom_def Let_def split: if_splits)

lemma unregister_rom_cases:
  assumes "unregister_rom addr s = Some s'"
  shows "if register_handles s (iopage_index addr) = 0xff
         then s' = s\<lparr>register_handles := (register_handles s)(iopage_index addr := 0)\<rparr> else s' = s"
  using assms by (auto simp: unregister_rom_def Let_def split: if_splits)

text \<open>A change of cells that hold no device handle keeps the invariant.\<close>

lemma cell_update_inv:
  assumes inv: "iopage_inv s" and x: "register_handles s x \<in> {0, 0xff}" and v: "v \<in> {0, 0xff}"
  shows "iopage_inv (s\<lparr>register_handles := (register_handles s)(x := v)\<rparr>)" (is "iopage_inv ?t")
proof -
  have L: "lookup_inv s" and C: "cells_inv s" and B: "backplane_inv s"
    using inv by (simp_all add: iopage_inv_def)
  have o: "owns_register ?t = owns_register s" by (intro ext) (simp add: owns_register_def)
  have ne: "iopage_index (reg_addr (the_reg d k s)) \<noteq> x" if "register_by_handle s h = Some (d, k)" for h d k
    using lookup_invD [OF L that] x by auto
  have "lookup_inv ?t"
    using L ne o unfolding lookup_inv_def by auto
  moreover have "cells_inv ?t"
    using C v unfolding cells_inv_def by auto
  moreover have "backplane_inv ?t"
    using B o unfolding backplane_inv_def by simp
  ultimately show ?thesis by (simp add: iopage_inv_def)
qed

subsection \<open>Runs of plugging and unplugging\<close>

text \<open>
  The program's calls in any order, as the menus and the command scripts make them:
  a device that is not plugged and whose registers are configured sensibly is plugged, a
  plugged device is unplugged, a ROM word is set up where there is none, or removed.
\<close>

inductive plug_step :: "iopage_state \<Rightarrow> iopage_state \<Rightarrow> bool" where
  plug: "register_device d s = Some (b, s') \<Longrightarrow> plug_step s s'"
| unplug: "unregister_device d s = Some s' \<Longrightarrow> plug_step s s'"
| rom: "register_rom a s = Some (b, s') \<Longrightarrow> plug_step s s'"
| unrom: "unregister_rom a s = Some s' \<Longrightarrow> plug_step s s'"

inductive_cases plug_stepE: "plug_step s s'"

inductive plug_reachable :: "iopage_state \<Rightarrow> iopage_state \<Rightarrow> bool" where
  start: "plug_reachable s s"
| step: "plug_reachable s t \<Longrightarrow> plug_step t u \<Longrightarrow> plug_reachable s u"

text \<open>The state before any device is plugged: an empty IO page.\<close>

definition unplugged :: "'a iopage_state_scheme \<Rightarrow> bool" where
  "unplugged s \<longleftrightarrow> (\<forall>d. handle (device s d) = 0) \<and> devices s = (\<lambda>_. None) \<and>
     register_handles s = (\<lambda>_. 0) \<and> register_by_handle s = (\<lambda>_. None)"

lemma unplugged_inv: "unplugged s \<Longrightarrow> iopage_inv s"
  by (auto simp: unplugged_def iopage_inv_def lookup_inv_def cells_inv_def backplane_inv_def owns_register_def)

lemma register_device_inv: "register_device d s = Some (b, s') \<Longrightarrow> iopage_inv s \<Longrightarrow> iopage_inv s'"
  using register_device_lookup_inv [of s d s'] register_device_False_inv [of d s s']
  by (cases b) (auto simp: iopage_inv_def)

lemma plug_step_inv: "plug_step s s' \<Longrightarrow> iopage_inv s \<Longrightarrow> iopage_inv s'"
proof (erule plug_stepE)
  fix d b assume "iopage_inv s" "register_device d s = Some (b, s')"
  then show ?thesis by (blast intro: register_device_inv)
next
  fix d assume "iopage_inv s" "unregister_device d s = Some s'"
  then show ?thesis by (blast intro: unregister_device_inv)
next
  fix a b assume "iopage_inv s" "register_rom a s = Some (b, s')"
  then show ?thesis using register_rom_cases [of a s b s'] cell_update_inv [of s "iopage_index a" 255]
    by (cases b) auto
next
  fix a assume "iopage_inv s" "unregister_rom a s = Some s'"
  then show ?thesis using unregister_rom_cases [of a s s'] cell_update_inv [of s "iopage_index a" 0]
    by (auto split: if_splits)
qed

lemma plug_reachable_inv: "plug_reachable s t \<Longrightarrow> iopage_inv s \<Longrightarrow> iopage_inv t"
  by (induction rule: plug_reachable.induct) (blast intro: plug_step_inv)+

lemma iopage_inv_cell_owner:
  assumes "iopage_inv s" "x < 0x1000" "register_handles s x \<notin> {0, 0xff}"
  shows "\<exists>!dk. register_by_handle s (register_handles s x) = Some dk \<and>
           owns_register s (fst dk) (snd dk) \<and> iopage_index (reg_addr (the_reg (fst dk) (snd dk) s)) = x"
proof -
  from assms obtain d k where r: "register_by_handle s (register_handles s x) = Some (d, k)"
    "iopage_index (reg_addr (the_reg d k s)) = x"
    unfolding iopage_inv_def using cells_invD by blast
  moreover from this assms have "owns_register s d k"
    unfolding iopage_inv_def using lookup_invD by blast
  ultimately show ?thesis by auto
qed

lemma iopage_inv_cells_distinct:
  assumes "iopage_inv s" "x < 0x1000" "y < 0x1000" "register_handles s x \<notin> {0, 0xff}"
    "register_handles s x = register_handles s y"
  shows "x = y"
proof -
  have C: "cells_inv s" using assms(1) by (simp add: iopage_inv_def)
  obtain d k where "register_by_handle s (register_handles s x) = Some (d, k)"
    "iopage_index (reg_addr (the_reg d k s)) = x"
    using cells_invD [OF C assms(2,4)] by blast
  moreover obtain e j where "register_by_handle s (register_handles s y) = Some (e, j)"
    "iopage_index (reg_addr (the_reg e j s)) = y"
    using cells_invD [OF C assms(3)] assms(4,5) by metis
  ultimately show ?thesis using assms(5) by simp
qed

subsection \<open>The register file as a device sees it\<close>

text \<open>
  What a device emulation relies on when it drives its registers: after a register is
  set, a read of it gives the value, and the other registers of the device are untouched.
\<close>

locale register_file =
  fixes n :: nat
    and set_reg :: "nat \<Rightarrow> u16 \<Rightarrow> 's \<Rightarrow> 's option"
    and get_reg :: "nat \<Rightarrow> 's \<Rightarrow> u16 option"
    and linked :: "'s \<Rightarrow> bool"
  assumes set_defined: "linked s \<Longrightarrow> i < n \<Longrightarrow> \<exists>t. set_reg i v s = Some t"
    and set_linked: "linked s \<Longrightarrow> i < n \<Longrightarrow> set_reg i v s = Some t \<Longrightarrow> linked t"
    and get_set_same: "linked s \<Longrightarrow> i < n \<Longrightarrow> set_reg i v s = Some t \<Longrightarrow> get_reg i t = Some v"
    and get_set_other: "linked s \<Longrightarrow> i < n \<Longrightarrow> j < n \<Longrightarrow> i \<noteq> j \<Longrightarrow> set_reg i v s = Some t \<Longrightarrow>
          get_reg j t = get_reg j s"
begin

text \<open>Writing the registers from \<open>i\<close> on with a given value each.\<close>

fun write_from :: "nat \<Rightarrow> nat \<Rightarrow> (nat \<Rightarrow> u16) \<Rightarrow> 's \<Rightarrow> 's option" where
  "write_from 0 i f s = Some s"
| "write_from (Suc m) i f s = Option.bind (set_reg i (f i) s) (write_from m (Suc i) f)"

lemma write_from_all:
  "linked s \<Longrightarrow> i + m \<le> n \<Longrightarrow>
   \<exists>t. write_from m i f s = Some t \<and> linked t \<and>
       (\<forall>j<n. get_reg j t = (if i \<le> j \<and> j < i + m then Some (f j) else get_reg j s))"
proof (induction m arbitrary: i s)
  case 0
  then show ?case by auto
next
  case (Suc m)
  then have i: "i < n" by simp
  from set_defined [OF Suc.prems(1) i] obtain u where u: "set_reg i (f i) s = Some u" by blast
  note lu = set_linked [OF Suc.prems(1) i u]
  from Suc.IH [OF lu, of "Suc i"] Suc.prems(2) obtain t where t: "write_from m (Suc i) f u = Some t" "linked t"
    "\<forall>j<n. get_reg j t = (if Suc i \<le> j \<and> j < Suc i + m then Some (f j) else get_reg j u)" by auto
  have "get_reg j t = (if i \<le> j \<and> j < i + Suc m then Some (f j) else get_reg j s)" if "j < n" for j
  proof (cases "j = i")
    case True
    with t(3) that get_set_same [OF Suc.prems(1) i u] show ?thesis by simp
  next
    case False
    then have "get_reg j u = get_reg j s" by (intro get_set_other [OF Suc.prems(1) i that _ u]) simp
    moreover have "(Suc i \<le> j \<and> j < Suc i + m) = (i \<le> j \<and> j < i + Suc m)" using False by auto
    ultimately show ?thesis using t(3) that by simp
  qed
  with u t(1,2) show ?case by simp
qed

end

definition registers_linked :: "dev_id \<Rightarrow> nat \<Rightarrow> 'a iopage_state_scheme \<Rightarrow> bool" where
  "registers_linked d n s \<longleftrightarrow>
     (\<forall>i<n. pru_link (the_reg d i s) \<noteq> None) \<and>
     (\<forall>i<n. \<forall>j<n. pru_link (the_reg d i s) = pru_link (the_reg d j s) \<longrightarrow> i = j)"

lemma registers_linkedD:
  "registers_linked d n s \<Longrightarrow> i < n \<Longrightarrow> \<exists>p. pru_link (the_reg d i s) = Some p"
  by (auto simp: registers_linked_def)

lemma registers_linkedI:
  "(\<And>i. i < n \<Longrightarrow> pru_link (the_reg d i s) \<noteq> None) \<Longrightarrow>
   (\<And>i j. i < n \<Longrightarrow> j < n \<Longrightarrow> pru_link (the_reg d i s) = pru_link (the_reg d j s) \<Longrightarrow> i = j) \<Longrightarrow>
   registers_linked d n s"
  unfolding registers_linked_def by blast

lemma registers_linked_cong:
  "(\<And>i. pru_link (the_reg d i t) = pru_link (the_reg d i s)) \<Longrightarrow>
   registers_linked d n t = registers_linked d n s"
  unfolding registers_linked_def by presburger

lemma registers_linked_inj:
  "registers_linked d n s \<Longrightarrow> i < n \<Longrightarrow> j < n \<Longrightarrow>
   pru_link (the_reg d i s) = pru_link (the_reg d j s) \<Longrightarrow> i = j"
  by (auto simp: registers_linked_def)

lemma iopage_inv_linked:
  assumes "iopage_inv s" "handle (device s d) \<noteq> 0"
  shows "registers_linked d (register_count (device s d)) s"
proof -
  have r: "register_by_handle s (register_handle (the_reg d k s)) = Some (d, k)"
    if "k < register_count (device s d)" for k
    using assms that by (auto simp: iopage_inv_def backplane_inv_def owns_register_def)
  have "pru_link (the_reg d k s) = Some (register_handle (the_reg d k s))"
    if "k < register_count (device s d)" for k
    using assms(1) lookup_invD [OF _ r [OF that]] by (auto simp: iopage_inv_def)
  then have l: "\<forall>k<register_count (device s d). pru_link (the_reg d k s) = Some (register_handle (the_reg d k s))"
    by blast
  have inj: "i = j" if "i < register_count (device s d)" "j < register_count (device s d)"
    "pru_link (the_reg d i s) = pru_link (the_reg d j s)" for i j
  proof -
    from that(3) have "register_handle (the_reg d i s) = register_handle (the_reg d j s)"
      unfolding l [rule_format, OF that(1)] l [rule_format, OF that(2)] option.inject .
    then have "Some (d, i) = Some (d, j)"
      using r [OF that(1)] r [OF that(2)] by metis
    then show ?thesis by simp
  qed
  show ?thesis
  proof (rule registers_linkedI)
    fix i assume "i < register_count (device s d)"
    from l [rule_format, OF this] show "pru_link (the_reg d i s) \<noteq> None" by simp
  qed (rule inj)
qed

lemma set_register_dati_value_Some:
  "set_register_dati_value d i v s = Some t \<longleftrightarrow>
     (\<exists>p. pru_link (the_reg d i s) = Some p \<and>
          t = upd_pru_register p (\<lambda>r. r\<lparr>pru_value := v\<rparr>)
                 (upd_register d i (\<lambda>r. r\<lparr>active_dati_flipflops := v\<rparr>) s))"
  by (auto simp: set_register_dati_value_def split: option.splits)

lemma upd_pru_register_sel [simp]:
  "device (upd_pru_register h f s) = device s"
  "devices (upd_pru_register h f s) = devices s"
  "register_handles (upd_pru_register h f s) = register_handles s"
  "register_by_handle (upd_pru_register h f s) = register_by_handle s"
  "pru_registers (upd_pru_register h f s) = (pru_registers s)(h := f (pru_registers s h))"
  by (simp_all add: upd_pru_register_def)

interpretation dati: register_file n "set_register_dati_value d" "get_register_dati_value d" "registers_linked d n"
proof
  fix s :: "'a iopage_state_scheme" and i v assume l: "registers_linked d n s" and i: "i < n"
  from registers_linkedD [OF this] obtain p where p: "pru_link (the_reg d i s) = Some p" by blast
  then show "\<exists>t. set_register_dati_value d i v s = Some t"
    by (simp add: set_register_dati_value_def)
  fix t assume t: "set_register_dati_value d i v s = Some t"
  with p have te: "t = upd_pru_register p (\<lambda>r. r\<lparr>pru_value := v\<rparr>)
      (upd_register d i (\<lambda>r. r\<lparr>active_dati_flipflops := v\<rparr>) s)"
    by (simp add: set_register_dati_value_Some)
  then have "pru_link (the_reg d k t) = pru_link (the_reg d k s)" for k by simp
  with l show "registers_linked d n t" using registers_linked_cong by blast
  show "get_register_dati_value d i t = Some v"
    using te p by (simp add: get_register_dati_value_def Let_def)
  fix j assume j: "j < n" "i \<noteq> j"
  have "pru_link (the_reg d j s) \<noteq> Some p"
    using registers_linked_inj [OF l i j(1)] p j(2) by auto
  then show "get_register_dati_value d j t = get_register_dati_value d j s"
    using te j(2) by (auto simp: get_register_dati_value_def Let_def intro: map_option_cong)
qed

lemma reset_registers_write_from:
  "reset_registers_from m i d s = dati.write_from d m i (\<lambda>j. reset_value (the_reg d j s)) s"
proof (induction m arbitrary: i s)
  case (Suc m)
  have "reset_value (the_reg d j u) = reset_value (the_reg d j s)"
    if "set_register_dati_value d i v s = Some u" for u v j
    using that by (auto simp: set_register_dati_value_Some)
  then show ?case
    by (auto simp: Suc.IH intro!: Option.bind_cong)
qed simp

subsection \<open>A concrete IO page\<close>

text \<open>
  Two devices on an 18 bit bus for the witnesses: device 1 with two command registers at
  777300, device 2 with one status register at 777302, which overlaps the first.
\<close>

definition sample_register :: device_register where
  "sample_register = \<lparr>reg_device = None, reg_index = 0, reg_addr = 0, pru_link = None,
     register_handle = 0, active_on_dati = False, active_on_dato = True, reset_value = 0x80,
     writable_bits = 0xffff, active_dati_flipflops = 0, active_dato_flipflops = 0\<rparr>"

definition sample_device :: "u32 \<Rightarrow> nat \<Rightarrow> qunibusdevice" where
  "sample_device a n = \<lparr>handle = 0, base_addr = a, register_count = n,
     registers = (\<lambda>_. sample_register), is_unibuscpu = False, init_asserted = False\<rparr>"

definition sample_iopage :: iopage_state where
  "sample_iopage = \<lparr>device = (\<lambda>d. if d = 1 then sample_device 0x3fec0 2 else sample_device 0x3fec2 1),
     devices = (\<lambda>_. None), register_handles = (\<lambda>_. 0),
     pru_registers = (\<lambda>_. \<lparr>pru_value = 0, pru_reset_value = 0, pru_writable_bits = 0,
       event_register_handle = 0, event_flags = 0\<rparr>),
     register_by_handle = (\<lambda>_. None), iopage_start_addr = 0x3e000, addr_space_byte_count = 0x40000,
     registered_cpu = None, arm2pru_log = []\<rparr>"

lemma highest_register_handle_none:
  assumes "\<forall>x<0x1000. register_handles s x \<in> {0, 0xff}"
  shows "highest_register_handle s = 0"
proof -
  have "register_handle_used s = (\<lambda>_. False)"
  proof
    fix h
    show "register_handle_used s h = False"
      using assms by (auto simp: register_handle_used_def)
  qed
  then have "fold (\<lambda>h m. if register_handle_used s h then h else m) xs 0 = 0" for xs
    by (induction xs) simp_all
  then show ?thesis by (simp add: highest_register_handle_def del: upt_rec_numeral)
qed

lemma free_device_handle_first: "devices s 1 = None \<Longrightarrow> free_device_handle s = Some 1"
  by (simp add: free_device_handle_def upt_conv_Cons del: upt_rec_numeral)

lemma sample_iopage_unplugged: "unplugged sample_iopage"
  by (simp add: unplugged_def sample_iopage_def sample_device_def)

lemma sample_iopage_device:
  "device sample_iopage d = (if d = 1 then sample_device 0x3fec0 2 else sample_device 0x3fec2 1)"
  "devices sample_iopage h = None" "register_handles sample_iopage x = 0"
  "register_by_handle sample_iopage h = None" "registered_cpu sample_iopage = None"
  by (simp_all add: sample_iopage_def)

lemma sample_device_sel:
  "handle (sample_device a n) = 0" "base_addr (sample_device a n) = a"
  "register_count (sample_device a n) = n" "registers (sample_device a n) k = sample_register"
  "is_unibuscpu (sample_device a n) = False" "\<not> bad_register_config sample_register"
  by (simp_all add: sample_device_def bad_register_config_def sample_register_def)

lemmas sample_simps = sample_iopage_device sample_device_sel

lemma sample_register_device_1:
  "\<exists>s'. register_device 1 sample_iopage = Some (True, s')"
proof -
  obtain b s' where r: "register_device 1 sample_iopage = Some (b, s')"
    using register_device_defined [OF unplugged_inv [OF sample_iopage_unplugged], of 1]
    by (auto simp: sample_simps)
  moreover have b
  proof (rule ccontr)
    assume "\<not> b"
    let ?s1 = "upd_device 1 (\<lambda>dev. dev\<lparr>handle := 1\<rparr>) (sample_iopage\<lparr>devices := (devices sample_iopage)(1 \<mapsto> 1)\<rparr>)"
    obtain c s2 where c: "address_conflict_from 2 0 1 ?s1 = (c, s2)" by force
    then have "\<not> c" using address_conflict_from_iff [of 2 0 1 ?s1] by (simp add: sample_simps)
    moreover have "highest_register_handle s2 = 0"
      using address_conflict_from_frame [OF c]
      by (intro highest_register_handle_none) (simp add: sample_simps)
    ultimately show False
      using r \<open>\<not> b\<close> c free_device_handle_first [of sample_iopage]
      by (auto simp: register_device_def sample_simps Let_def Option.bind_eq_Some_conv)
  qed
  ultimately show ?thesis by auto
qed

subsection \<open>Properties\<close>

lemma register_device_keeps_cells:
  assumes "register_device d s = Some (True, s')" "register_handles s x \<notin> {0, 0xff}"
  shows "register_handles s' x = register_handles s x"
  using assms(1)
proof (rule register_device_True_effect)
  assume free: "\<And>k. k < register_count (device s d) \<Longrightarrow> register_handles s (iopage_index (reg_bus_addr d k s)) \<in> {0, 0xff}"
    and cells: "\<And>x. \<forall>k<register_count (device s d). x \<noteq> iopage_index (reg_bus_addr d k s) \<Longrightarrow>
        register_handles s' x = register_handles s x"
  show ?thesis using free assms(2) by (intro cells) blast
qed

lemma register_device_own_cell:
  assumes "register_device d s = Some (True, s')" "k < register_count (device s d)"
  shows "let h = register_handles s' (iopage_index (reg_bus_addr d k s)) in
      0 < h \<and> h < 0xff \<and> register_by_handle s' h = Some (d, k) \<and>
      pru_link (the_reg d k s') = Some h \<and> pru_registers s' h = pru_descriptor (the_reg d k s) h"
  using assms(1)
proof (rule register_device_True_effect)
  fix rh
  assume "rh + register_count (device s d) < 0xff"
    and "\<And>h. register_by_handle s' h = (if rh < h \<and> h \<le> rh + register_count (device s d)
           then Some (d, h - Suc rh) else register_by_handle s h)"
    and "\<And>k. k < register_count (device s d) \<Longrightarrow> the_reg d k s' =
        linked_register d k (Suc (rh + k)) (reg_bus_addr d k s) (the_reg d k s)"
    and "\<And>k. k < register_count (device s d) \<Longrightarrow>
        pru_registers s' (Suc (rh + k)) = pru_descriptor (the_reg d k s) (Suc (rh + k))"
    and "\<And>k. k < register_count (device s d) \<Longrightarrow>
        register_handles s' (iopage_index (reg_bus_addr d k s)) = Suc (rh + k)"
  with assms(2) show ?thesis by (simp add: Let_def)
qed

text \<open>
  Property C28. After a device is plugged, a bus access to the address of any of its
  registers reaches exactly that register: the IO page cell of \<open>base + 2 * k\<close> holds a
  valid handle, the handle looks up register \<open>k\<close> of that device, the descriptor the
  PRU uses is the one of that register, and no cell of another device has changed.
\<close>
theorem register_device_routes:
  assumes "register_device d s = Some (True, s')" and "k < register_count (device s d)"
  shows "let h = register_handles s' (iopage_index (reg_bus_addr d k s)) in
      0 < h \<and> h < 0xff \<and> register_by_handle s' h = Some (d, k) \<and>
      pru_link (the_reg d k s') = Some h \<and> pru_registers s' h = pru_descriptor (the_reg d k s) h \<and>
      (\<forall>x. register_handles s x \<notin> {0, 0xff} \<longrightarrow> register_handles s' x = register_handles s x)"
  using register_device_own_cell [OF assms] register_device_keeps_cells [OF assms(1)]
  by (simp add: Let_def)

theorem register_device_routes_witness:
  "\<exists>s'. register_device 1 sample_iopage = Some (True, s') \<and>
    (let h = register_handles s' (iopage_index (reg_bus_addr 1 1 sample_iopage)) in
      register_by_handle s' h = Some (1, 1))"
proof -
  obtain s' where r: "register_device 1 sample_iopage = Some (True, s')"
    using sample_register_device_1 by blast
  have "1 < register_count (device sample_iopage 1)" by (simp add: sample_simps)
  from register_device_routes [OF r this] r show ?thesis by (simp add: Let_def)
qed

text \<open>
  However devices and ROM words are plugged and unplugged, starting from an
  empty IO page, every cell that is neither empty nor ROM belongs to exactly one register
  of one plugged device, at that register's own address, and no two cells share a handle.
\<close>
theorem register_map_unambiguous:
  assumes "unplugged s" "plug_reachable s t" "x < 0x1000" "register_handles t x \<notin> {0, 0xff}"
  shows "(\<exists>!dk. register_by_handle t (register_handles t x) = Some dk \<and>
           owns_register t (fst dk) (snd dk) \<and>
           iopage_index (reg_addr (the_reg (fst dk) (snd dk) t)) = x) \<and>
    (\<forall>y<0x1000. register_handles t y = register_handles t x \<longrightarrow> y = x)"
proof -
  have inv: "iopage_inv t"
    using plug_reachable_inv [OF assms(2) unplugged_inv [OF assms(1)]] .
  show ?thesis
    using iopage_inv_cell_owner [OF inv assms(3,4)] iopage_inv_cells_distinct [OF inv assms(3) _ assms(4)]
    by metis
qed

theorem register_map_unambiguous_witness:
  "\<exists>t x. plug_reachable sample_iopage t \<and> x < 0x1000 \<and> register_handles t x \<notin> {0, 0xff} \<and>
     (\<forall>y<0x1000. register_handles t y = register_handles t x \<longrightarrow> y = x)"
proof -
  obtain t where r: "register_device 1 sample_iopage = Some (True, t)"
    using sample_register_device_1 by blast
  then have reach: "plug_reachable sample_iopage t"
    by (blast intro: plug_reachable.intros plug_step.plug)
  let ?x = "iopage_index (reg_bus_addr 1 0 sample_iopage)"
  have c: "register_handles t ?x \<notin> {0, 0xff}"
    using r by (rule register_device_True_effect) (auto simp: sample_simps)
  from register_map_unambiguous [OF sample_iopage_unplugged reach iopage_index_less c] reach c
  show ?thesis using iopage_index_less by blast
qed

text \<open>
  Plugging never aborts the program and never disturbs a plugged device: for
  a device that is not plugged, whose registers are configured sensibly and which is not a
  second CPU, \<open>register_device\<close> returns; if one of its addresses belongs to another
  device's register it returns False, and then the IO page, the descriptors, the lookup
  table, the backplane and every other device are as before.
\<close>
theorem register_device_conflict_refused:
  assumes "iopage_inv s" "handle (device s d) = 0" "register_count (device s d) \<le> 0xff"
    and "\<And>k. k < register_count (device s d) \<Longrightarrow> \<not> bad_register_config (the_reg d k s)"
    and "is_unibuscpu (device s d) \<Longrightarrow> registered_cpu s = None"
    and "j < register_count (device s d)"
    and "register_handles s (iopage_index (reg_bus_addr d j s)) \<notin> {0, 0xff}"
  shows "\<exists>s'. register_device d s = Some (False, s') \<and> iopage_inv s' \<and>
    devices s' = devices s \<and> register_handles s' = register_handles s \<and>
    pru_registers s' = pru_registers s \<and> register_by_handle s' = register_by_handle s \<and>
    (\<forall>e. handle (device s' e) = handle (device s e)) \<and>
    (\<forall>e k. e \<noteq> d \<longrightarrow> the_reg e k s' = the_reg e k s)"
proof -
  obtain b s' where r: "register_device d s = Some (b, s')"
    using register_device_defined [OF assms(1-5)] by blast
  have "\<not> b"
  proof
    assume b
    with r have "register_device d s = Some (True, s')" by simp
    then show False by (rule register_device_True_effect) (use assms(6,7) in blast)
  qed
  with r register_device_False_effect [of d s s'] register_device_False_inv [of d s s'] assms(1)
  show ?thesis by auto
qed

theorem register_device_conflict_refused_witness:
  "\<exists>s s'. register_device 1 sample_iopage = Some (True, s) \<and> register_device 2 s = Some (False, s') \<and>
     register_handles s' = register_handles s"
proof -
  obtain s where r: "register_device 1 sample_iopage = Some (True, s)"
    using sample_register_device_1 by blast
  have inv: "iopage_inv s"
    using register_device_inv [OF r] unplugged_inv [OF sample_iopage_unplugged] by blast
  have "handle (device s 2) = 0 \<and> register_count (device s 2) = 1 \<and> the_reg 2 0 s = sample_register \<and>
      reg_bus_addr 2 0 s = reg_bus_addr 1 1 sample_iopage \<and> is_unibuscpu (device s 2) = False \<and>
      register_handles s (iopage_index (reg_bus_addr 1 1 sample_iopage)) \<notin> {0, 0xff}"
    using r
  proof (rule register_device_True)
    fix dh s2 s3 rh
    assume c: "address_conflict_from (register_count (device sample_iopage 1)) 0 1
       (upd_device 1 (\<lambda>dev. dev\<lparr>handle := dh\<rparr>) (sample_iopage\<lparr>devices := (devices sample_iopage)(dh \<mapsto> 1)\<rparr>)) = (False, s2)"
      and rh: "rh = highest_register_handle s2" "register_count (device sample_iopage 1) \<le> 0xff - rh - 1"
      and i: "install_registers_from (register_count (device sample_iopage 1)) 0 (Suc rh) 1 s2 = Some s3"
      and s: "s = s3 \<or> registered_cpu s3 = None \<and> s = s3\<lparr>registered_cpu := Some 1\<rparr>"
    have ba: "reg_bus_addr 1 1 s2 = reg_bus_addr 1 1 sample_iopage"
      using address_conflict_from_frame [OF c] by (simp add: reg_bus_addr_def)
    have "register_handles s3 (iopage_index (reg_bus_addr 1 1 s2)) = Suc rh + 1"
      using install_registers_own_cells [OF i, of 1] by (simp add: sample_simps)
    then show ?thesis
      using s rh install_registers_frame [OF i] install_registers_reg [OF i, of 2 0]
        address_conflict_from_frame [OF c] ba
      by (auto simp: sample_simps reg_bus_addr_def)
  qed
  then have "\<exists>s'. register_device 2 s = Some (False, s') \<and> iopage_inv s' \<and>
    devices s' = devices s \<and> register_handles s' = register_handles s \<and>
    pru_registers s' = pru_registers s \<and> register_by_handle s' = register_by_handle s \<and>
    (\<forall>e. handle (device s' e) = handle (device s e)) \<and>
    (\<forall>e k. e \<noteq> 2 \<longrightarrow> the_reg e k s' = the_reg e k s)"
    by (intro register_device_conflict_refused [OF inv, where j = 0]) (auto simp: sample_simps)
  with r show ?thesis by blast
qed

text \<open>
  Unplugging a freshly plugged device undoes the plugging: the backplane and
  the lookup table are as before, and so is every IO page cell except that the cells of the
  device are empty (ROM words they overlaid are not restored).
\<close>
theorem unregister_undoes_register:
  assumes "iopage_inv s" "register_device d s = Some (True, s')"
  shows "\<exists>s''. unregister_device d s' = Some s'' \<and> iopage_inv s'' \<and>
    devices s'' = devices s \<and> register_by_handle s'' = register_by_handle s \<and>
    (\<forall>x. register_handles s'' x =
       (if \<exists>k<register_count (device s d). iopage_index (reg_bus_addr d k s) = x
        then 0 else register_handles s x))"
  using assms(2)
proof (rule register_device_True_effect)
  let ?n = "register_count (device s d)"
  fix dh rh
  assume dh: "free_device_handle s = Some dh"
    and rh: "rh = highest_register_handle s"
    and devs: "devices s' = (devices s)(dh \<mapsto> d)"
    and hd: "\<And>e. handle (device s' e) = (if e = d then dh else handle (device s e))"
    and rc: "\<And>e. register_count (device s' e) = register_count (device s e)"
    and lk: "\<And>h. register_by_handle s' h = (if rh < h \<and> h \<le> rh + ?n
           then Some (d, h - Suc rh) else register_by_handle s h)"
    and own: "\<And>k. k < ?n \<Longrightarrow> the_reg d k s' =
        linked_register d k (Suc (rh + k)) (reg_bus_addr d k s) (the_reg d k s)"
    and cells: "\<And>x. \<forall>k<?n. x \<noteq> iopage_index (reg_bus_addr d k s) \<Longrightarrow>
        register_handles s' x = register_handles s x"
  have d0: "0 < dh" "devices s dh = None" using free_device_handle_Some [OF dh] by auto
  then obtain s'' where u: "unregister_device d s' = Some s''"
    using hd by (auto simp: unregister_device_def Let_def)
  note f = unregister_device_effect [OF u]
  have none: "register_by_handle s h = None" if h: "rh < h" for h
  proof (rule ccontr)
    assume "register_by_handle s h \<noteq> None"
    then obtain e k where "register_by_handle s h = Some (e, k)" by auto
    with assms(1) have "0 < h \<and> h < 0xff \<and> register_handles s (iopage_index (reg_addr (the_reg e k s))) = h"
      by (auto simp: iopage_inv_def dest: lookup_invD)
    with highest_register_handle_bounds [of s] h rh iopage_index_less show False
      by (metis atLeastLessThan_iff One_nat_def Suc_leI leD)
  qed
  have hs: "(\<exists>k<?n. register_handle (the_reg d k s') = h) \<longleftrightarrow> rh < h \<and> h \<le> rh + ?n" for h
    using own by (auto intro!: exI [of _ "h - Suc rh"])
  have "register_by_handle s'' = register_by_handle s"
  proof
    fix h
    show "register_by_handle s'' h = register_by_handle s h"
      using f none [of h] hs [of h] lk [of h] by (auto simp: rc)
  qed
  moreover have "devices s'' = devices s" using f devs hd d0 by auto
  moreover have "iopage_inv s''"
    using unregister_device_inv [OF u] register_device_inv [OF assms(2,1)] by blast
  moreover have "register_handles s'' x =
       (if \<exists>k<?n. iopage_index (reg_bus_addr d k s) = x then 0 else register_handles s x)" for x
  proof -
    have "(\<exists>k<?n. iopage_index (reg_addr (the_reg d k s')) = x) \<longleftrightarrow>
        (\<exists>k<?n. iopage_index (reg_bus_addr d k s) = x)" using own by auto
    with f cells [of x] show ?thesis by (auto simp: rc)
  qed
  ultimately show ?thesis using u by blast
qed

theorem unregister_undoes_register_witness:
  "\<exists>s' s''. register_device 1 sample_iopage = Some (True, s') \<and> unregister_device 1 s' = Some s'' \<and>
     devices s'' = devices sample_iopage"
proof -
  obtain s' where r: "register_device 1 sample_iopage = Some (True, s')"
    using sample_register_device_1 by blast
  from unregister_undoes_register [OF unplugged_inv [OF sample_iopage_unplugged] r] r
  show ?thesis by blast
qed

text \<open>
  Resetting a device's registers leaves every register readable at its reset
  value, for every plugged device of a consistent register map.
\<close>
theorem reset_unibus_registers_reads_reset:
  assumes "iopage_inv s" "handle (device s d) \<noteq> 0"
  shows "\<exists>t. reset_unibus_registers d s = Some t \<and>
    (\<forall>k<register_count (device s d). get_register_dati_value d k t = Some (reset_value (the_reg d k s)))"
proof -
  let ?n = "register_count (device s d)"
  have "registers_linked d ?n s" using assms by (rule iopage_inv_linked)
  from dati.write_from_all [OF this, of 0 ?n "\<lambda>k. reset_value (the_reg d k s)"]
  show ?thesis by (auto simp: reset_unibus_registers_def reset_registers_write_from)
qed

theorem reset_unibus_registers_reads_reset_witness:
  "\<exists>s t. register_device 1 sample_iopage = Some (True, s) \<and> reset_unibus_registers 1 s = Some t"
proof -
  obtain s where r: "register_device 1 sample_iopage = Some (True, s)"
    using sample_register_device_1 by blast
  have h: "handle (device s 1) \<noteq> 0"
    using r by (rule register_device_True_effect) (auto dest: free_device_handle_Some)
  from reset_unibus_registers_reads_reset [OF register_device_inv [OF r unplugged_inv [OF sample_iopage_unplugged]] h] r
  show ?thesis by blast
qed

end
