(* ===== verification/Priority_Requests.thy ===== *)
theory Priority_Requests
  imports Device_Registers
begin

text \<open>
  The request objects devices hand to the adapter
  (\<^verbatim>\<open>arm/priorityrequest.hpp\<close>, \<^verbatim>\<open>arm/priorityrequest.cpp\<close>): the two classes
  \<^verbatim>\<open>dma_request_c\<close> and \<^verbatim>\<open>intr_request_c\<close> over their common base, their setters,
  the edge detector of interrupt conditions and the lookup of a device by its slot.

  One record holds the fields of both classes, the field \<open>req_class\<close> the class a
  \<^verbatim>\<open>dynamic_cast\<close> finds. The caller's word buffer a DMA request points to is the list
  \<open>buffer\<close>. Mutexes and condition variables have no state here: every operation of the
  scheduler runs under the one lock, and signalling completion is the flag \<open>complete\<close>.
\<close>

definition PRIORITY_LEVEL_INDEX_NPR :: nat where [simp]: "PRIORITY_LEVEL_INDEX_NPR = 4"
definition PRIORITY_LEVEL_INDEX_BR7 :: nat where [simp]: "PRIORITY_LEVEL_INDEX_BR7 = 3"
definition PRIORITY_LEVEL_COUNT :: nat where [simp]: "PRIORITY_LEVEL_COUNT = 5"
definition PRIORITY_SLOT_COUNT :: nat where [simp]: "PRIORITY_SLOT_COUNT = 32"

datatype request_class = Dma_request | Intr_request

record request =
  req_class :: request_class
  req_device :: "dev_id option"
  level_index :: nat
  priority_slot :: nat
  executing_on_PRU :: bool
  complete :: bool
  qunibus_control :: u8
  qunibus_start_addr :: u32
  qunibus_end_addr :: u32
  buffer :: "u16 list"
  wordcount :: u32
  is_cpu_access :: bool
  chunk_max_words :: u32
  chunk_qunibus_start_addr :: u32
  chunk_words :: u32
  success :: bool
  vector :: u16
  interrupt_register :: "(dev_id \<times> nat) option"
  interrupt_register_value :: u16
  signal_level :: bool

text \<open>
  The constructors. Members the C++ leaves uninitialised keep the arbitrary value they
  have in \<open>r\<close>, the memory the object is built in.
\<close>

definition priority_request_new :: "dev_id option \<Rightarrow> request \<Rightarrow> request" where
  "priority_request_new dev r =
     r\<lparr>req_device := dev, complete := False, executing_on_PRU := False, priority_slot := 0xff\<rparr>"

definition dma_request_new :: "dev_id option \<Rightarrow> request \<Rightarrow> request" where
  "dma_request_new dev r =
     (priority_request_new dev r)\<lparr>req_class := Dma_request, level_index := PRIORITY_LEVEL_INDEX_NPR,
        success := False, is_cpu_access := False\<rparr>"

definition intr_request_new :: "dev_id option \<Rightarrow> request \<Rightarrow> request" where
  "intr_request_new dev r =
     (priority_request_new dev r)\<lparr>req_class := Intr_request, level_index := 0xff,
        vector := 0xffff, signal_level := False\<rparr>"

text \<open>A slot another device uses only draws a warning.\<close>

definition set_priority_slot :: "nat \<Rightarrow> request \<Rightarrow> request option" where
  "set_priority_slot slot r =
     do { assert_that (0 < slot);
          assert_that (slot < PRIORITY_SLOT_COUNT);
          Some (if priority_slot r = slot then r else r\<lparr>priority_slot := slot\<rparr>) }"

definition set_level :: "nat \<Rightarrow> request \<Rightarrow> request option" where
  "set_level level r =
     do { assert_that (4 \<le> level \<and> level \<le> 7); Some (r\<lparr>level_index := level - 4\<rparr>) }"

definition set_vector :: "u16 \<Rightarrow> request \<Rightarrow> request option" where
  "set_vector v r = do { assert_that (v AND 3 = 0); Some (r\<lparr>vector := v\<rparr>) }"

definition get_level :: "request \<Rightarrow> nat" where
  "get_level r = level_index r + 4"

text \<open>\<^verbatim>\<open>get_vector\<close> returns its result as 8 bits.\<close>

definition get_vector :: "request \<Rightarrow> u8" where
  "get_vector r = ucast (vector r)"

text \<open>The words already transferred, and where in the caller's buffer the chunk starts.\<close>

definition wordcount_completed_chunks :: "request \<Rightarrow> u32" where
  "wordcount_completed_chunks r = (chunk_qunibus_start_addr r - qunibus_start_addr r) div 2"

definition chunk_buffer_start :: "request \<Rightarrow> nat" where
  "chunk_buffer_start r = unat ((chunk_qunibus_start_addr r - qunibus_start_addr r) div 2)"

subsection \<open>Edge detection\<close>

datatype interrupt_edge = INTERRUPT_EDGE_NONE | INTERRUPT_EDGE_RAISING | INTERRUPT_EDGE_FALLING

definition edge_detect_reset :: "request \<Rightarrow> request" where
  "edge_detect_reset r = r\<lparr>signal_level := False\<rparr>"

definition edge_detect :: "bool \<Rightarrow> request \<Rightarrow> interrupt_edge \<times> request" where
  "edge_detect new_level r =
     (if signal_level r = new_level then (INTERRUPT_EDGE_NONE, r)
      else ((if new_level then INTERRUPT_EDGE_RAISING else INTERRUPT_EDGE_FALLING),
            r\<lparr>signal_level := new_level\<rparr>))"

text \<open>A sequence of condition values fed to the detector, and the edges it reports.\<close>

fun edges :: "bool list \<Rightarrow> request \<Rightarrow> interrupt_edge list" where
  "edges [] r = []"
| "edges (b # bs) r = (let (e, r') = edge_detect b r in e # edges bs r')"

subsection \<open>Who uses a slot\<close>

text \<open>
  The devices in registration order, each with the requests it owns:
  \<^verbatim>\<open>qunibusdevice_c::find_by_request_slot\<close>.
\<close>

definition find_by_request_slot ::
    "(dev_id \<times> request list \<times> request list) list \<Rightarrow> nat \<Rightarrow> dev_id option" where
  "find_by_request_slot mydevices slot =
     map_option fst (List.find (\<lambda>(d, dma_requests, intr_requests).
        (\<exists>r \<in> set dma_requests. priority_slot r = slot) \<or>
        (\<exists>r \<in> set intr_requests. priority_slot r = slot)) mydevices)"

subsection \<open>Facts\<close>

lemma edge_detect_level [simp]: "signal_level (snd (edge_detect b r)) = b"
  by (simp add: edge_detect_def)

lemma edge_detect_edge:
  "fst (edge_detect b r) =
     (if signal_level r = b then INTERRUPT_EDGE_NONE
      else if b then INTERRUPT_EDGE_RAISING else INTERRUPT_EDGE_FALLING)"
  by (simp add: edge_detect_def)

lemma length_edges: "length (edges bs r) = length bs"
  by (induction bs arbitrary: r) (simp_all add: split_beta Let_def)

text \<open>
  The detector reports a raising edge exactly where the interrupt condition
  changes from false to true, a falling edge exactly where it changes back, and nothing
  in between, whatever sequence of conditions it is fed.
\<close>
theorem edges_at_changes:
  assumes "i < length bs"
  shows "edges bs r ! i =
    (let before = (if i = 0 then signal_level r else bs ! (i - 1)) in
     if before = bs ! i then INTERRUPT_EDGE_NONE
     else if bs ! i then INTERRUPT_EDGE_RAISING else INTERRUPT_EDGE_FALLING)"
  using assms
proof (induction bs arbitrary: r i)
  case Nil
  then show ?case by simp
next
  case (Cons b bs)
  have e: "edges (b # bs) r = fst (edge_detect b r) # edges bs (snd (edge_detect b r))"
    by (simp add: split_beta Let_def)
  show ?case
  proof (cases i)
    case 0
    then show ?thesis unfolding e by (simp add: edge_detect_edge)
  next
    case (Suc j)
    then have j: "j < length bs" using Cons.prems by simp
    show ?thesis
      unfolding e Suc nth_Cons_Suc Cons.IH [OF j] edge_detect_level by (cases j) simp_all
  qed
qed

definition sample_request :: request where
  "sample_request = \<lparr>req_class = Intr_request, req_device = Some 1, level_index = 1, priority_slot = 5,
     executing_on_PRU = False, complete = False, qunibus_control = 0, qunibus_start_addr = 0,
     qunibus_end_addr = 0, buffer = [], wordcount = 0, is_cpu_access = False, chunk_max_words = 0,
     chunk_qunibus_start_addr = 0, chunk_words = 0, success = False, vector = 0xa0,
     interrupt_register = None, interrupt_register_value = 0, signal_level = False\<rparr>"

theorem edges_at_changes_witness:
  "edges [True, True, False] sample_request ! 0 = INTERRUPT_EDGE_RAISING \<and>
   edges [True, True, False] sample_request ! 1 = INTERRUPT_EDGE_NONE \<and>
   edges [True, True, False] sample_request ! 2 = INTERRUPT_EDGE_FALLING"
  using edges_at_changes [of 0 "[True, True, False]" sample_request]
    edges_at_changes [of 1 "[True, True, False]" sample_request]
    edges_at_changes [of 2 "[True, True, False]" sample_request]
  by (simp add: sample_request_def)

text \<open>
  The vector reported for a request is the one set only below 400 octal: the
  getter returns 8 bits of a 16 bit vector, so every larger vector is reported wrongly
  (vector 400 as 000).
\<close>
theorem get_vector_truncates:
  assumes "set_vector v r = Some r'"
  shows "ucast (get_vector r') = v \<longleftrightarrow> v < 0x100"
proof -
  have "(ucast (ucast v :: u8) :: u16) = take_bit 8 v"
    by (rule bit_word_eqI) (auto simp: bit_simps)
  moreover have "take_bit 8 v = v \<longleftrightarrow> v < 0x100"
  proof -
    have "take_bit 8 v = v \<longleftrightarrow> unat v mod 256 = unat v"
      by (simp add: take_bit_eq_mod word_unat_eq_iff unat_mod)
    also have "\<dots> \<longleftrightarrow> unat v < 256"
      by (metis mod_less mod_less_divisor zero_less_numeral)
    finally show ?thesis by (simp add: word_less_nat_alt)
  qed
  ultimately show ?thesis
    using assms by (auto simp: set_vector_def get_vector_def split: if_splits)
qed

theorem get_vector_truncates_witness:
  "\<exists>r'. set_vector 0x100 sample_request = Some r' \<and> get_vector r' = 0"
proof -
  obtain r' where r: "set_vector 0x100 sample_request = Some r'"
    by (simp add: set_vector_def)
  have "ucast (get_vector r') \<noteq> (0x100 :: u16)" using get_vector_truncates [OF r] by simp
  moreover have "get_vector r' = 0"
    using r by (auto simp: set_vector_def get_vector_def)
  ultimately show ?thesis using r by blast
qed

end
