(* ===== verification/Request_Scheduler.thy ===== *)
theory Request_Scheduler
  imports Register_Map Priority_Requests
begin

text \<open>
  The scheduler of DMA and interrupt requests in \<^verbatim>\<open>arm/qunibusadapter.cpp\<close>: per
  arbitration level a table of backplane slots, a bit mask of the slots in use and the one
  request handed to the PRU; requests are put into the table, the lowest slot is activated
  and executed, and the PRU's completion events take it out again and start the next.

  Every operation here runs under \<^verbatim>\<open>requests_mutex\<close>, so a run of the program is a
  sequence of these operations. A request is a number (its address); the objects are in
  the field \<open>request_of\<close>. \<^verbatim>\<open>mailbox_execute\<close> is the command appended to
  \<open>arm2pru_log\<close> together with the mailbox contents it is issued with; the bounded wait
  for the PRU's answer has no effect on the state.
\<close>

type_synonym req_id = nat

datatype bus_kind = UNIBUS | QBUS

definition PRU_MAX_DMA_WORDCOUNT :: u32 where [simp]: "PRU_MAX_DMA_WORDCOUNT = 8 * 512"
definition QUNIBUS_IOPAGE_ADDR_BITMASK :: u32 where "QUNIBUS_IOPAGE_ADDR_BITMASK = push_bit 22 1"
definition PRIORITY_ARBITRATION_BIT_MASK :: u8 where "PRIORITY_ARBITRATION_BIT_MASK = 0x1f"
definition DMA_STATE_READY :: u8 where "DMA_STATE_READY = 0"

text \<open>The bus cycles DATI, DATIP, DATO, DATOB and their two classes.\<close>

definition QUNIBUS_CYCLE_DATI :: u8 where "QUNIBUS_CYCLE_DATI = 0"
definition QUNIBUS_CYCLE_DATIP :: u8 where "QUNIBUS_CYCLE_DATIP = 1"
definition QUNIBUS_CYCLE_DATO :: u8 where "QUNIBUS_CYCLE_DATO = 2"
definition QUNIBUS_CYCLE_DATOB :: u8 where "QUNIBUS_CYCLE_DATOB = 3"
definition QUNIBUS_CYCLE_IS_DATI :: "u8 \<Rightarrow> bool" where
  "QUNIBUS_CYCLE_IS_DATI c \<longleftrightarrow> c AND 2 = 0"
definition QUNIBUS_CYCLE_IS_DATO :: "u8 \<Rightarrow> bool" where
  "QUNIBUS_CYCLE_IS_DATO c \<longleftrightarrow> c AND 2 \<noteq> 0"

definition priority_level_idx_to_arbitration_bit :: "nat \<Rightarrow> u8" where
  "priority_level_idx_to_arbitration_bit l = [1, 2, 4, 8, 0x10] ! l"

record priority_request_level =
  slot_request :: "nat \<Rightarrow> req_id option"
  slot_request_mask :: u32
  active :: "req_id option"

record mailbox_dma =
  cur_status :: u8
  buscycle :: u8
  mbox_wordcount :: u16
  cpu_access :: bool
  cur_addr :: u32
  startaddr :: u32
  mbox_words :: "u16 list"

record mailbox_intr =
  mbox_vector :: "nat \<Rightarrow> u16"
  priority_arbitration_bit :: u8
  mbox_level_index :: nat
  iopage_register_value :: u16
  iopage_register_handle :: nat

record adapter_state = iopage_state +
  bus :: bus_kind
  request_of :: "req_id \<Rightarrow> request"
  request_levels :: "nat \<Rightarrow> priority_request_level"
  mbox_dma :: mailbox_dma
  mbox_intr :: mailbox_intr
  line_INIT :: bool
  line_DCLO :: bool
  line_ACLO :: bool

definition upd_request :: "req_id \<Rightarrow> (request \<Rightarrow> request) \<Rightarrow> 'a adapter_state_scheme \<Rightarrow> 'a adapter_state_scheme" where
  "upd_request r f s = s\<lparr>request_of := (request_of s)(r := f (request_of s r))\<rparr>"

definition upd_level :: "nat \<Rightarrow> (priority_request_level \<Rightarrow> priority_request_level) \<Rightarrow>
    'a adapter_state_scheme \<Rightarrow> 'a adapter_state_scheme" where
  "upd_level l f s = s\<lparr>request_levels := (request_levels s)(l := f (request_levels s l))\<rparr>"

definition slot_bit :: "nat \<Rightarrow> u32" where "slot_bit slot = push_bit slot 1"

text \<open>The assertion between mask and active request several operations end with.\<close>

definition mask_matches_active :: "priority_request_level \<Rightarrow> bool" where
  "mask_matches_active prl \<longleftrightarrow> (slot_request_mask prl = 0) = (active prl = None)"

subsection \<open>The slot tables\<close>

definition cleared_level :: "priority_request_level \<Rightarrow> priority_request_level" where
  "cleared_level prl = \<lparr>slot_request = (\<lambda>slot. if slot < PRIORITY_SLOT_COUNT then None else slot_request prl slot),
     slot_request_mask = 0, active = None\<rparr>"

definition requests_init :: "'a adapter_state_scheme \<Rightarrow> 'a adapter_state_scheme" where
  "requests_init s = s\<lparr>request_levels :=
     (\<lambda>l. if l < PRIORITY_LEVEL_COUNT then cleared_level (request_levels s l) else request_levels s l)\<rparr>"

definition request_schedule ::
    "req_id \<Rightarrow> 'a adapter_state_scheme \<Rightarrow> bool \<times> 'a adapter_state_scheme" where
  "request_schedule r s =
     (let rq = request_of s r;
          prl = request_levels s (level_index rq);
          refused = (case slot_request prl (priority_slot rq) of
              None \<Rightarrow> False
            | Some other \<Rightarrow>
                (case req_class rq of
                   Dma_request \<Rightarrow> True
                 | Intr_request \<Rightarrow> req_device (request_of s other) \<noteq> req_device rq))
      in if refused then (False, s)
         else (True, upd_level (level_index rq) (\<lambda>prl. prl
                \<lparr>slot_request := (slot_request prl)(priority_slot rq \<mapsto> r),
                 slot_request_mask := slot_request_mask prl OR slot_bit (priority_slot rq)\<rparr>) s))"

text \<open>Cancelling one request found in a table: it is failed and signalled.\<close>

definition cancelled_request :: "request \<Rightarrow> request" where
  "cancelled_request rq =
     (let rq1 = rq\<lparr>executing_on_PRU := False\<rparr>;
          rq2 = (case req_class rq of Dma_request \<Rightarrow> rq1\<lparr>success := False\<rparr> | Intr_request \<Rightarrow> rq1)
      in rq2\<lparr>complete := True\<rparr>)"

fun cancel_slots_from :: "nat \<Rightarrow> nat \<Rightarrow> nat \<Rightarrow> 'a adapter_state_scheme \<Rightarrow> 'a adapter_state_scheme" where
  "cancel_slots_from 0 slot l s = s"
| "cancel_slots_from (Suc n) slot l s =
     cancel_slots_from n (Suc slot) l
       (case slot_request (request_levels s l) slot of
          None \<Rightarrow> s
        | Some r \<Rightarrow> upd_request r cancelled_request
                      (upd_level l (\<lambda>prl. prl\<lparr>slot_request := (slot_request prl)(slot := None)\<rparr>) s))"

definition cancel_level :: "nat \<Rightarrow> 'a adapter_state_scheme \<Rightarrow> 'a adapter_state_scheme" where
  "cancel_level l s =
     cancel_slots_from PRIORITY_SLOT_COUNT 0 l
       (upd_level l (\<lambda>prl. prl\<lparr>slot_request_mask := 0, active := None\<rparr>) s)"

definition requests_cancel_scheduled :: "'a adapter_state_scheme \<Rightarrow> 'a adapter_state_scheme" where
  "requests_cancel_scheduled s = fold cancel_level [0..<PRIORITY_LEVEL_COUNT] s"

definition request_activate_lowest_slot ::
    "nat \<Rightarrow> 'a adapter_state_scheme \<Rightarrow> (req_id option \<times> 'a adapter_state_scheme) option" where
  "request_activate_lowest_slot l s =
     (let prl = request_levels s l in
      do { assert_that (active prl = None);
           rq \<leftarrow> (case builtin_ffs (slot_request_mask prl) of
                    0 \<Rightarrow> Some None
                  | Suc slot \<Rightarrow> (case slot_request prl slot of None \<Rightarrow> None | Some r \<Rightarrow> Some (Some r)));
           assert_that (mask_matches_active (prl\<lparr>active := rq\<rparr>));
           Some (rq, upd_level l (\<lambda>prl. prl\<lparr>active := rq\<rparr>) s) })"

text \<open>
  Whether a request of the same or a higher level is pending. The level index is 8 bits
  and less than the number of levels at the only call.
\<close>

definition request_is_blocking_active :: "nat \<Rightarrow> 'a adapter_state_scheme \<Rightarrow> bool" where
  "request_is_blocking_active l s \<longleftrightarrow>
     (\<exists>k \<in> set [l..<PRIORITY_LEVEL_COUNT].
        active (request_levels s k) \<noteq> None \<or> slot_request_mask (request_levels s k) \<noteq> 0)"

subsection \<open>Handing the active request to the PRU\<close>

definition dma_startaddr :: "request \<Rightarrow> 'a adapter_state_scheme \<Rightarrow> u32" where
  "dma_startaddr rq s =
     (if iopage_start_addr s \<le> chunk_qunibus_start_addr rq
      then (case bus s of
              UNIBUS \<Rightarrow> chunk_qunibus_start_addr rq
            | QBUS \<Rightarrow> chunk_qunibus_start_addr rq OR QUNIBUS_IOPAGE_ADDR_BITMASK)
      else chunk_qunibus_start_addr rq)"

definition execute_dma_on_PRU ::
    "req_id \<Rightarrow> 'a adapter_state_scheme \<Rightarrow> 'a adapter_state_scheme option" where
  "execute_dma_on_PRU r s =
     do { assert_that (req_class (request_of s r) = Dma_request);
          let remaining = wordcount (request_of s r) - wordcount_completed_chunks (request_of s r);
          let chunk = min (chunk_max_words (request_of s r)) remaining;
          let rq = (request_of s r)\<lparr>chunk_words := chunk\<rparr>;
          assert_that (chunk \<noteq> 0);
          ws \<leftarrow> (if QUNIBUS_CYCLE_IS_DATO (qunibus_control rq)
                 then do { out \<leftarrow> buffer_load (buffer rq) (chunk_buffer_start rq) (unat chunk);
                           buffer_store (mbox_words (mbox_dma s)) 0 out }
                 else Some (mbox_words (mbox_dma s)));
          Some (s\<lparr>mbox_dma := \<lparr>cur_status = 0, buscycle = qunibus_control rq,
                     mbox_wordcount = ucast chunk, cpu_access = is_cpu_access rq,
                     cur_addr = cur_addr (mbox_dma s), startaddr = dma_startaddr rq s,
                     mbox_words = ws\<rparr>,
                  arm2pru_log := arm2pru_log s @ [ARM2PRU_DMA],
                  request_of := (request_of s)(r := rq\<lparr>executing_on_PRU := True\<rparr>)\<rparr>) }"

definition execute_intr_on_PRU ::
    "req_id \<Rightarrow> 'a adapter_state_scheme \<Rightarrow> 'a adapter_state_scheme option" where
  "execute_intr_on_PRU r s =
     (let rq = request_of s r in
      do { assert_that (req_class rq = Intr_request);
           assert_that (level_index rq \<le> PRIORITY_LEVEL_INDEX_BR7);
           let abit = priority_level_idx_to_arbitration_bit (level_index rq);
           Some (s\<lparr>mbox_intr := \<lparr>mbox_vector = (mbox_vector (mbox_intr s))(level_index rq := vector rq),
                     priority_arbitration_bit = abit,
                     mbox_level_index = level_index rq,
                     iopage_register_value = interrupt_register_value rq,
                     iopage_register_handle = (case interrupt_register rq of
                        None \<Rightarrow> 0 | Some (d, i) \<Rightarrow> register_handle (the_reg d i s))\<rparr>,
                   arm2pru_log := arm2pru_log s @ [ARM2PRU_INTR abit],
                   request_of := (request_of s)(r := rq\<lparr>executing_on_PRU := True\<rparr>)\<rparr>) })"

definition request_execute_active_on_PRU ::
    "nat \<Rightarrow> 'a adapter_state_scheme \<Rightarrow> 'a adapter_state_scheme option" where
  "request_execute_active_on_PRU l s =
     (case active (request_levels s l) of
        None \<Rightarrow> None
      | Some r \<Rightarrow>
          if l = PRIORITY_LEVEL_INDEX_NPR then execute_dma_on_PRU r s else execute_intr_on_PRU r s)"

subsection \<open>Taking the active request out of the tables\<close>

definition request_active_complete ::
    "nat \<Rightarrow> bool \<Rightarrow> 'a adapter_state_scheme \<Rightarrow> 'a adapter_state_scheme option" where
  "request_active_complete l signal_complete s =
     (let prl = request_levels s l in
      case active prl of
        None \<Rightarrow> Some s
      | Some r \<Rightarrow>
          (let slot = priority_slot (request_of s r) in
           do { assert_that (slot_request prl slot = Some r);
                Some (upd_request r (\<lambda>rq. rq\<lparr>executing_on_PRU := False,
                          complete := (if signal_complete then True else complete rq)\<rparr>)
                     (upd_level l (\<lambda>prl. prl\<lparr>slot_request := (slot_request prl)(slot := None),
                          slot_request_mask := slot_request_mask prl AND NOT (slot_bit slot),
                          active := None\<rparr>) s)) }))"

text \<open>\<open>request_activate_lowest_slot\<close>, then execution if there is a request.\<close>

definition activate_and_execute ::
    "nat \<Rightarrow> 'a adapter_state_scheme \<Rightarrow> 'a adapter_state_scheme option" where
  "activate_and_execute l s =
     do { (rq, s') \<leftarrow> request_activate_lowest_slot l s;
          (if rq = None then Some s' else request_execute_active_on_PRU l s') }"

subsection \<open>Requests by devices and the CPU\<close>

text \<open>
  The end of \<open>DMA\<close> and \<open>INTR\<close>: put the request into the tables, fail it if its slot is
  taken, and start it if nothing of its level is active.
\<close>

definition schedule_and_start :: "req_id \<Rightarrow> 'a adapter_state_scheme \<Rightarrow> 'a adapter_state_scheme option" where
  "schedule_and_start r s =
     (let l = level_index (request_of s r);
          (ok, s2) = request_schedule r s
      in if \<not> ok then Some (upd_request r (\<lambda>rq. rq\<lparr>complete := True\<rparr>) s2)
         else if active (request_levels s2 l) = None
         then do { (_, s3) \<leftarrow> request_activate_lowest_slot l s2;
                   request_execute_active_on_PRU l s3 }
         else Some s2)"

text \<open>
  \<^verbatim>\<open>DMA()\<close> up to the point where the caller starts to wait: the asserts, the request
  fields, scheduling, immediate execution if no DMA is active. The caller's buffer is
  passed as \<open>buf\<close>.
\<close>

definition dma_request_for :: "u8 \<Rightarrow> u32 \<Rightarrow> u16 list \<Rightarrow> u32 \<Rightarrow> request \<Rightarrow> request" where
  "dma_request_for cycle addr buf words rq = rq\<lparr>complete := False, success := False,
     executing_on_PRU := False, qunibus_control := cycle, qunibus_start_addr := addr,
     chunk_qunibus_start_addr := addr, qunibus_end_addr := 0, buffer := buf, wordcount := words,
     chunk_max_words := PRU_MAX_DMA_WORDCOUNT\<rparr>"

definition DMA ::
    "req_id \<Rightarrow> u8 \<Rightarrow> u32 \<Rightarrow> u16 list \<Rightarrow> u32 \<Rightarrow> 'a adapter_state_scheme \<Rightarrow> 'a adapter_state_scheme option" where
  "DMA r cycle addr buf words s =
     do { assert_that (priority_slot (request_of s r) < PRIORITY_SLOT_COUNT);
          assert_that (level_index (request_of s r) = PRIORITY_LEVEL_INDEX_NPR);
          assert_that (0 < words);
          assert_that (addr + 2 * words \<le> addr_space_byte_count s);
          assert_that (\<not> is_cpu_access (request_of s r) \<or> priority_slot (request_of s r) = 31);
          (if line_INIT s then Some (upd_request r (\<lambda>rq. rq\<lparr>complete := True\<rparr>) s)
           else schedule_and_start r (upd_request r (dma_request_for cycle addr buf words) s)) }"

text \<open>The parameters \<^verbatim>\<open>cpu_DATA_transfer\<close> fixes before it calls \<open>DMA\<close>.\<close>

definition cpu_DATA_transfer ::
    "req_id \<Rightarrow> u8 \<Rightarrow> u32 \<Rightarrow> u16 list \<Rightarrow> 'a adapter_state_scheme \<Rightarrow> 'a adapter_state_scheme option" where
  "cpu_DATA_transfer r cycle addr buf s =
     DMA r cycle addr buf 1 (upd_request r (\<lambda>rq. rq\<lparr>is_cpu_access := True, priority_slot := 31\<rparr>) s)"

text \<open>
  \<open>INTR\<close> when its slot is taken: the interrupt is already pending, only the interrupt
  register is updated.
\<close>

definition intr_reraise ::
    "req_id \<Rightarrow> req_id \<Rightarrow> (dev_id \<times> nat) option \<Rightarrow> u16 \<Rightarrow> 'a adapter_state_scheme \<Rightarrow> 'a adapter_state_scheme option" where
  "intr_reraise r pending ireg ivalue s =
     do { assert_that (req_class (request_of s pending) = Intr_request);
          assert_that (req_device (request_of s pending) = req_device (request_of s r));
          assert_that (vector (request_of s pending) = vector (request_of s r));
          (case ireg of None \<Rightarrow> Some s
           | Some (d, i) \<Rightarrow> set_register_dati_value d i ivalue s) }"

text \<open>
  \<open>INTR\<close> before it schedules: the interrupt register is set now if another request
  delays this one, else left to the PRU to set together with the interrupt.
\<close>

definition intr_prepare ::
    "req_id \<Rightarrow> (dev_id \<times> nat) option \<Rightarrow> u16 \<Rightarrow> 'a adapter_state_scheme \<Rightarrow> 'a adapter_state_scheme option" where
  "intr_prepare r ireg ivalue s =
     (let s1 = upd_request r (\<lambda>rq. rq\<lparr>complete := False, executing_on_PRU := False\<rparr>) s in
      case ireg of
        None \<Rightarrow> Some (upd_request r (\<lambda>rq. rq\<lparr>interrupt_register := None,
                         interrupt_register_value := ivalue\<rparr>) s1)
      | Some (d, i) \<Rightarrow>
          do { assert_that (req_device (request_of s r) = reg_device (the_reg d i s));
               (if request_is_blocking_active (level_index (request_of s r)) s1
                then map_option (upd_request r (\<lambda>rq. rq\<lparr>interrupt_register := None\<rparr>))
                       (set_register_dati_value d i ivalue s1)
                else Some (upd_request r (\<lambda>rq. rq\<lparr>interrupt_register := Some (d, i),
                         interrupt_register_value := ivalue\<rparr>) s1)) })"

definition INTR ::
    "req_id \<Rightarrow> (dev_id \<times> nat) option \<Rightarrow> u16 \<Rightarrow> 'a adapter_state_scheme \<Rightarrow> 'a adapter_state_scheme option" where
  "INTR r ireg ivalue s =
     (let rq = request_of s r in
      do { assert_that (priority_slot rq < PRIORITY_SLOT_COUNT);
           assert_that (level_index rq \<le> 3);
           assert_that (vector rq AND 3 = 0);
           (if line_INIT s then Some (upd_request r (\<lambda>rq. rq\<lparr>complete := True\<rparr>) s)
            else case slot_request (request_levels s (level_index rq)) (priority_slot rq) of
              Some pending \<Rightarrow> intr_reraise r pending ireg ivalue s
            | None \<Rightarrow> do { s2 \<leftarrow> intr_prepare r ireg ivalue s; schedule_and_start r s2 }) })"

definition cancel_INTR :: "req_id \<Rightarrow> 'a adapter_state_scheme \<Rightarrow> 'a adapter_state_scheme option" where
  "cancel_INTR r s =
     (let rq = request_of s r; l = level_index rq; prl = request_levels s l in
      if slot_request prl (priority_slot rq) = None then Some s
      else do {
        s' \<leftarrow> (if active prl = Some r
               then do { assert_that (l \<le> PRIORITY_LEVEL_INDEX_BR7);
                         let abit = priority_level_idx_to_arbitration_bit l;
                         let s1 = s\<lparr>mbox_intr := (mbox_intr s)\<lparr>priority_arbitration_bit := abit\<rparr>,
                                   arm2pru_log := arm2pru_log s @ [ARM2PRU_INTR_CANCEL abit]\<rparr>;
                         s2 \<leftarrow> request_active_complete l True s1;
                         activate_and_execute l s2 }
               else Some (upd_request r (\<lambda>rq. rq\<lparr>complete := True\<rparr>)
                     (upd_level l (\<lambda>prl. prl\<lparr>slot_request := (slot_request prl)(priority_slot rq := None),
                        slot_request_mask := slot_request_mask prl AND NOT (slot_bit (priority_slot rq))\<rparr>) s)));
        assert_that (mask_matches_active (request_levels s' l));
        Some s' })"

subsection \<open>Events from the PRU\<close>

text \<open>What \<^verbatim>\<open>worker_device_dma_chunk_complete_event\<close> does once no chunk is left.\<close>

definition dma_no_more_chunks ::
    "req_id \<Rightarrow> 'a adapter_state_scheme \<Rightarrow> 'a adapter_state_scheme option" where
  "dma_no_more_chunks r s =
     do { s' \<leftarrow> request_active_complete PRIORITY_LEVEL_INDEX_NPR (\<not> is_cpu_access (request_of s r)) s;
          activate_and_execute PRIORITY_LEVEL_INDEX_NPR s' }"

text \<open>The words a DATI chunk has read go from the mailbox to the caller's buffer.\<close>

definition dma_chunk_data :: "request \<Rightarrow> mailbox_dma \<Rightarrow> u16 list option" where
  "dma_chunk_data rq mb =
     (if QUNIBUS_CYCLE_IS_DATI (buscycle mb)
      then do { ws \<leftarrow> buffer_load (mbox_words mb) 0 (unat (mbox_wordcount mb));
                buffer_store (buffer rq) (chunk_buffer_start rq) ws }
      else Some (buffer rq))"

text \<open>
  Failed, finished, or on to the next chunk, with the lowest DMA slot again; \<open>rq\<close> is the
  request as updated so far, \<open>transferred\<close> the words completed.
\<close>

definition dma_chunk_done ::
    "req_id \<Rightarrow> request \<Rightarrow> u32 \<Rightarrow> 'a adapter_state_scheme \<Rightarrow> 'a adapter_state_scheme option" where
  "dma_chunk_done r rq transferred s =
     (if cur_status (mbox_dma s) \<noteq> DMA_STATE_READY
      then dma_no_more_chunks r (upd_request r (\<lambda>_. rq\<lparr>success := False\<rparr>) s)
      else if transferred = wordcount rq
      then dma_no_more_chunks r (upd_request r (\<lambda>_. rq\<lparr>success := True\<rparr>) s)
      else do {
        assert_that (\<not> is_cpu_access rq);
        let s2 = upd_level PRIORITY_LEVEL_INDEX_NPR (\<lambda>prl. prl\<lparr>active := None\<rparr>)
                   (upd_request r (\<lambda>_. rq\<lparr>chunk_qunibus_start_addr := cur_addr (mbox_dma s) + 2\<rparr>) s);
        (_, s3) \<leftarrow> request_activate_lowest_slot PRIORITY_LEVEL_INDEX_NPR s2;
        request_execute_active_on_PRU PRIORITY_LEVEL_INDEX_NPR s3 })"

definition untagged_mailbox :: "mailbox_dma \<Rightarrow> mailbox_dma" where
  "untagged_mailbox mb =
     mb\<lparr>startaddr := startaddr mb AND NOT QUNIBUS_IOPAGE_ADDR_BITMASK,
        cur_addr := cur_addr mb AND NOT QUNIBUS_IOPAGE_ADDR_BITMASK\<rparr>"

definition worker_device_dma_chunk_complete_event ::
    "'a adapter_state_scheme \<Rightarrow> 'a adapter_state_scheme option" where
  "worker_device_dma_chunk_complete_event s =
     (case active (request_levels s PRIORITY_LEVEL_INDEX_NPR) of
        None \<Rightarrow> None
      | Some r \<Rightarrow>
         (let mb = untagged_mailbox (mbox_dma s);
              rq = request_of s r;
              transferred = wordcount_completed_chunks rq + ucast (mbox_wordcount mb)
          in do {
            assert_that (req_class rq = Dma_request);
            assert_that (transferred \<le> wordcount rq);
            assert_that (\<not> is_cpu_access rq \<or> wordcount rq = 1);
            buf \<leftarrow> dma_chunk_data rq mb;
            dma_chunk_done r (rq\<lparr>qunibus_end_addr := cur_addr mb, buffer := buf\<rparr>) transferred
              (s\<lparr>mbox_dma := mb\<rparr>) }))"

definition worker_intr_complete_event ::
    "nat \<Rightarrow> 'a adapter_state_scheme \<Rightarrow> 'a adapter_state_scheme option" where
  "worker_intr_complete_event l s =
     do { s' \<leftarrow> request_active_complete l True s; activate_and_execute l s' }"

text \<open>
  One round of the CPU's spinning wait in \<open>DMA\<close>: whether the access is over, and the
  new state. \<open>event\<close> is the PRU's DMA event not yet acknowledged.
\<close>

definition cpu_dma_poll ::
    "req_id \<Rightarrow> bool \<Rightarrow> 'a adapter_state_scheme \<Rightarrow> (bool \<times> 'a adapter_state_scheme) option" where
  "cpu_dma_poll r event s =
     (let act = active (request_levels s PRIORITY_LEVEL_INDEX_NPR) in
      if act = Some r \<and> event
      then do { assert_that (is_cpu_access (request_of s r));
                s' \<leftarrow> worker_device_dma_chunk_complete_event s;
                Some (True, s') }
      else Some (act = None, s))"

text \<open>
  The tables' part of \<^verbatim>\<open>worker_init_event\<close> and \<^verbatim>\<open>worker_power_event\<close>, after the
  devices have been told.
\<close>

definition requests_abort_all :: "'a adapter_state_scheme \<Rightarrow> 'a adapter_state_scheme" where
  "requests_abort_all s = requests_init (requests_cancel_scheduled s)"

text \<open>\<^verbatim>\<open>qunibusadapter_c::on_init_changed\<close>.\<close>

definition adapter_on_init_changed :: "'a adapter_state_scheme \<Rightarrow> 'a adapter_state_scheme" where
  "adapter_on_init_changed s =
     (let s1 = requests_init s in
      s1\<lparr>mbox_intr := (mbox_intr s1)\<lparr>priority_arbitration_bit := PRIORITY_ARBITRATION_BIT_MASK\<rparr>,
         arm2pru_log := arm2pru_log s1 @ [ARM2PRU_INTR_CANCEL PRIORITY_ARBITRATION_BIT_MASK]\<rparr>)"

end
