(* ===== verification/Scheduler_Invariant.thy ===== *)
theory Scheduler_Invariant
  imports Request_Scheduler
begin

text \<open>
  The slot tables stay consistent: mask, slots, the active request and the flags of the
  requests agree on every arbitration level, through every operation of the scheduler, so
  that none of its assertions about the tables can fail; and what is activated is always
  the lowest slot.
\<close>

subsection \<open>The table invariant\<close>

text \<open>
  The active request of a level is executing. The converse holds for interrupts only: a
  DMA interrupted between two chunks by a request in a lower slot keeps its flag.
\<close>

definition exec_ok :: "nat \<Rightarrow> req_id option \<Rightarrow> request \<Rightarrow> req_id \<Rightarrow> bool" where
  "exec_ok l a rq r \<longleftrightarrow>
     (a = Some r \<longrightarrow> executing_on_PRU rq) \<and> (l \<noteq> 4 \<longrightarrow> executing_on_PRU rq \<longrightarrow> a = Some r)"

definition table_ok :: "req_id set \<Rightarrow> 'a adapter_state_scheme \<Rightarrow> nat \<Rightarrow> bool" where
  "table_ok E s l \<longleftrightarrow>
     (let prl = request_levels s l in
      (\<forall>slot<32. bit (slot_request_mask prl) slot \<longleftrightarrow> slot_request prl slot \<noteq> None) \<and>
      (\<forall>slot<32. \<forall>r. slot_request prl slot = Some r \<longrightarrow>
         level_index (request_of s r) = l \<and> priority_slot (request_of s r) = slot \<and>
         (req_class (request_of s r) = Dma_request \<longleftrightarrow> l = 4) \<and>
         (r \<in> E \<or> \<not> complete (request_of s r)) \<and>
         exec_ok l (active prl) (request_of s r) r) \<and>
      (\<forall>r. active prl = Some r \<longrightarrow> (\<exists>slot<32. slot_request prl slot = Some r)))"

definition sched_inv :: "req_id set \<Rightarrow> 'a adapter_state_scheme \<Rightarrow> bool" where
  "sched_inv E s \<longleftrightarrow> (\<forall>l<5. table_ok E s l \<and> mask_matches_active (request_levels s l))"

definition scheduled :: "'a adapter_state_scheme \<Rightarrow> req_id \<Rightarrow> bool" where
  "scheduled s r \<longleftrightarrow> (\<exists>l<5. \<exists>slot<32. slot_request (request_levels s l) slot = Some r)"

lemma table_okD:
  assumes "table_ok E s l" "slot < 32" "slot_request (request_levels s l) slot = Some r"
  shows "level_index (request_of s r) = l" "priority_slot (request_of s r) = slot"
    "req_class (request_of s r) = Dma_request \<longleftrightarrow> l = 4" "r \<in> E \<or> \<not> complete (request_of s r)"
    "exec_ok l (active (request_levels s l)) (request_of s r) r"
  using assms by (auto simp: table_ok_def Let_def)

lemma table_okI:
  assumes "\<And>slot. slot < 32 \<Longrightarrow>
      bit (slot_request_mask (request_levels s l)) slot \<longleftrightarrow> slot_request (request_levels s l) slot \<noteq> None"
    and "\<And>slot r. slot < 32 \<Longrightarrow> slot_request (request_levels s l) slot = Some r \<Longrightarrow>
      level_index (request_of s r) = l \<and> priority_slot (request_of s r) = slot \<and>
      (req_class (request_of s r) = Dma_request \<longleftrightarrow> l = 4) \<and> (r \<in> E \<or> \<not> complete (request_of s r)) \<and>
      exec_ok l (active (request_levels s l)) (request_of s r) r"
    and "\<And>r. active (request_levels s l) = Some r \<Longrightarrow>
      \<exists>slot<32. slot_request (request_levels s l) slot = Some r"
  shows "table_ok E s l"
  using assms unfolding table_ok_def Let_def by blast

lemma table_ok_mask:
  "table_ok E s l \<Longrightarrow> slot < 32 \<Longrightarrow>
   bit (slot_request_mask (request_levels s l)) slot \<longleftrightarrow> slot_request (request_levels s l) slot \<noteq> None"
  by (simp add: table_ok_def Let_def)

lemma table_ok_active:
  assumes "table_ok E s l" "active (request_levels s l) = Some r"
  shows "priority_slot (request_of s r) < 32 \<and>
    slot_request (request_levels s l) (priority_slot (request_of s r)) = Some r \<and>
    level_index (request_of s r) = l"
proof -
  from assms obtain slot where "slot < 32" "slot_request (request_levels s l) slot = Some r"
    by (auto simp: table_ok_def Let_def)
  with table_okD [OF assms(1) this] show ?thesis by simp
qed

lemma sched_invD: "sched_inv E s \<Longrightarrow> l < 5 \<Longrightarrow> table_ok E s l \<and> mask_matches_active (request_levels s l)"
  by (simp add: sched_inv_def)

text \<open>What the tables depend on in a request.\<close>

definition sched_view :: "request \<Rightarrow> nat \<times> nat \<times> request_class \<times> bool \<times> bool" where
  "sched_view rq = (level_index rq, priority_slot rq, req_class rq, complete rq, executing_on_PRU rq)"

lemma table_ok_cong:
  assumes "table_ok E s l" "request_levels t l = request_levels s l"
    and "\<And>slot r. slot < 32 \<Longrightarrow> slot_request (request_levels s l) slot = Some r \<Longrightarrow>
           sched_view (request_of t r) = sched_view (request_of s r)"
  shows "table_ok E t l"
proof (rule table_okI)
  fix slot r assume a: "slot < 32" "slot_request (request_levels t l) slot = Some r"
  then have b: "slot_request (request_levels s l) slot = Some r" by (simp add: assms(2))
  from table_okD [OF assms(1) a(1) b] assms(3) [OF a(1) b]
  show "level_index (request_of t r) = l \<and> priority_slot (request_of t r) = slot \<and>
      (req_class (request_of t r) = Dma_request \<longleftrightarrow> l = 4) \<and> (r \<in> E \<or> \<not> complete (request_of t r)) \<and>
      exec_ok l (active (request_levels t l)) (request_of t r) r"
    unfolding assms(2) exec_ok_def sched_view_def by simp
next
  fix r assume "active (request_levels t l) = Some r"
  with table_ok_active [OF assms(1), of r] show "\<exists>slot<32. slot_request (request_levels t l) slot = Some r"
    unfolding assms(2) by blast
qed (use table_ok_mask [OF assms(1)] assms(2) in simp)

lemma upd_request_sel [simp]:
  "request_levels (upd_request r f s) = request_levels s"
  "request_of (upd_request r f s) = (request_of s)(r := f (request_of s r))"
  "mbox_dma (upd_request r f s) = mbox_dma s"
  "mbox_intr (upd_request r f s) = mbox_intr s"
  "line_INIT (upd_request r f s) = line_INIT s"
  "bus (upd_request r f s) = bus s"
  "iopage_start_addr (upd_request r f s) = iopage_start_addr s"
  "addr_space_byte_count (upd_request r f s) = addr_space_byte_count s"
  "device (upd_request r f s) = device s"
  "arm2pru_log (upd_request r f s) = arm2pru_log s"
  by (simp_all add: upd_request_def)

lemma upd_level_sel [simp]:
  "request_levels (upd_level l g s) = (request_levels s)(l := g (request_levels s l))"
  "request_of (upd_level l g s) = request_of s"
  "mbox_dma (upd_level l g s) = mbox_dma s"
  "mbox_intr (upd_level l g s) = mbox_intr s"
  "line_INIT (upd_level l g s) = line_INIT s"
  "bus (upd_level l g s) = bus s"
  "iopage_start_addr (upd_level l g s) = iopage_start_addr s"
  "addr_space_byte_count (upd_level l g s) = addr_space_byte_count s"
  "device (upd_level l g s) = device s"
  "arm2pru_log (upd_level l g s) = arm2pru_log s"
  by (simp_all add: upd_level_def)

lemma bit_slot_bit_or [simp]:
  "bit (m OR slot_bit n :: u32) i \<longleftrightarrow> bit m i \<or> (i = n \<and> i < 32)"
  unfolding slot_bit_def by (rule bit_or_bit_iff)

lemma bit_slot_bit_clear [simp]:
  "bit (m AND NOT (slot_bit n) :: u32) i \<longleftrightarrow> bit m i \<and> i \<noteq> n"
  unfolding slot_bit_def by (rule bit_and_not_bit_iff)

lemma slot_bit_or_nonzero: "n < 32 \<Longrightarrow> m OR slot_bit n \<noteq> (0 :: u32)"
  by (metis bit_slot_bit_or word32_zero_iff)

text \<open>Requests outside the tables may change freely.\<close>

lemma table_ok_upd_request:
  assumes "table_ok E s l" "l < 5" "\<not> scheduled s r"
  shows "table_ok E (upd_request r f s) l"
  using assms(1)
proof (rule table_ok_cong)
  fix slot r' assume "slot < 32" "slot_request (request_levels s l) slot = Some r'"
  with assms(2,3) have "r' \<noteq> r" by (auto simp: scheduled_def)
  then show "sched_view (request_of (upd_request r f s) r') = sched_view (request_of s r')" by simp
qed simp

lemma sched_inv_upd_request: "sched_inv E s \<Longrightarrow> \<not> scheduled s r \<Longrightarrow> sched_inv E (upd_request r f s)"
  by (simp add: sched_inv_def table_ok_upd_request)

text \<open>Entering a request that is not scheduled into its empty slot.\<close>

definition entered :: "req_id \<Rightarrow> nat \<Rightarrow> nat \<Rightarrow> 'a adapter_state_scheme \<Rightarrow> 'a adapter_state_scheme" where
  "entered r l slot s = upd_level l (\<lambda>prl. prl\<lparr>slot_request := (slot_request prl)(slot \<mapsto> r),
      slot_request_mask := slot_request_mask prl OR slot_bit slot\<rparr>) s"

lemma table_ok_entered:
  assumes "table_ok E s k" "k < 5" "l < 5" "slot < 32" "\<not> scheduled s r"
    and "slot_request (request_levels s l) slot = None"
    and "level_index (request_of s r) = l" "priority_slot (request_of s r) = slot"
    and "req_class (request_of s r) = Dma_request \<longleftrightarrow> l = 4"
    and "\<not> complete (request_of s r)" "\<not> executing_on_PRU (request_of s r)"
  shows "table_ok E (entered r l slot s) k"
proof (cases "k = l")
  case False
  show ?thesis
    by (rule table_ok_cong [OF assms(1)]) (use False in \<open>simp_all add: entered_def\<close>)
next
  case True
  have na: "active (request_levels s l) \<noteq> Some r"
    using table_ok_active [of E s l r] assms(1,3,5) True by (auto simp: scheduled_def)
  note ok = assms(1) [unfolded True]
  let ?t = "entered r l slot s"
  show ?thesis
    unfolding True
  proof (rule table_okI)
    fix slot' :: nat assume "slot' < 32"
    then show "bit (slot_request_mask (request_levels ?t l)) slot' \<longleftrightarrow>
        slot_request (request_levels ?t l) slot' \<noteq> None"
      using table_ok_mask [OF ok] by (simp add: entered_def)
  next
    fix slot' r' assume a: "slot' < 32" "slot_request (request_levels ?t l) slot' = Some r'"
    show "level_index (request_of ?t r') = l \<and> priority_slot (request_of ?t r') = slot' \<and>
      (req_class (request_of ?t r') = Dma_request \<longleftrightarrow> l = 4) \<and> (r' \<in> E \<or> \<not> complete (request_of ?t r')) \<and>
      exec_ok l (active (request_levels ?t l)) (request_of ?t r') r'"
    proof (cases "slot' = slot")
      case True
      then show ?thesis using a(2) assms(7-11) na by (simp add: entered_def exec_ok_def)
    next
      case False
      then have "slot_request (request_levels s l) slot' = Some r'" using a(2) by (simp add: entered_def)
      from table_okD [OF ok a(1) this] show ?thesis by (simp add: entered_def)
    qed
  next
    fix r' assume a: "active (request_levels ?t l) = Some r'"
    then have "active (request_levels s l) = Some r'" by (simp add: entered_def)
    from table_ok_active [OF ok this] assms(6)
    show "\<exists>slot<32. slot_request (request_levels ?t l) slot = Some r'"
      by (intro exI [of _ "priority_slot (request_of s r')"]) (auto simp: entered_def)
  qed
qed

lemma mask_matches_entered:
  "slot < 32 \<Longrightarrow> active (request_levels s l) \<noteq> None \<Longrightarrow>
   mask_matches_active (request_levels (entered r l slot s) l)"
  using slot_bit_or_nonzero [of slot] by (auto simp: entered_def mask_matches_active_def)

lemma entered_other [simp]: "k \<noteq> l \<Longrightarrow> request_levels (entered r l slot s) k = request_levels s k"
  by (simp add: entered_def)

lemma request_schedule_free:
  "slot_request (request_levels s (level_index (request_of s r))) (priority_slot (request_of s r)) = None \<Longrightarrow>
   request_schedule r s = (True, entered r (level_index (request_of s r)) (priority_slot (request_of s r)) s)"
  by (simp add: request_schedule_def entered_def Let_def)

text \<open>Taking a scheduled request out.\<close>

definition removed :: "nat \<Rightarrow> nat \<Rightarrow> 'a adapter_state_scheme \<Rightarrow> 'a adapter_state_scheme" where
  "removed l slot s = upd_level l (\<lambda>prl. prl\<lparr>slot_request := (slot_request prl)(slot := None),
      slot_request_mask := slot_request_mask prl AND NOT (slot_bit slot),
      active := (if active prl = slot_request prl slot then None else active prl)\<rparr>) s"

lemma table_ok_removed:
  assumes "table_ok E s k" "k < 5" "table_ok E s l" "l < 5" "slot < 32"
    and "slot_request (request_levels s l) slot = Some r"
  shows "table_ok E (upd_request r f (removed l slot s)) k"
proof (cases "k = l")
  case False
  show ?thesis
  proof (rule table_ok_cong [OF assms(1)])
    fix slot' r' assume "slot' < 32" "slot_request (request_levels s k) slot' = Some r'"
    then have "r' \<noteq> r"
      using table_okD(1) [OF assms(1)] table_okD(1) [OF assms(3,5,6)] False by auto
    then show "sched_view (request_of (upd_request r f (removed l slot s)) r') = sched_view (request_of s r')"
      by (simp add: removed_def)
  qed (use False in \<open>simp add: removed_def\<close>)
next
  case True
  have other: "r' \<noteq> r" if "slot' < 32" "slot' \<noteq> slot" "slot_request (request_levels s l) slot' = Some r'" for slot' r'
    using table_okD(2) [OF assms(3) that(1,3)] table_okD(2) [OF assms(3,5,6)] that(2) by auto
  let ?t = "upd_request r f (removed l slot s)"
  show ?thesis
    unfolding True
  proof (rule table_okI)
    fix slot' :: nat assume "slot' < 32"
    then show "bit (slot_request_mask (request_levels ?t l)) slot' \<longleftrightarrow>
        slot_request (request_levels ?t l) slot' \<noteq> None"
      using table_ok_mask [OF assms(3)] by (simp add: removed_def)
  next
    fix slot' r' assume a: "slot' < 32" "slot_request (request_levels ?t l) slot' = Some r'"
    then have b: "slot' \<noteq> slot" "slot_request (request_levels s l) slot' = Some r'"
      by (auto simp: removed_def split: if_splits)
    from table_okD [OF assms(3) a(1) b(2)] other [OF a(1) b]
    show "level_index (request_of ?t r') = l \<and> priority_slot (request_of ?t r') = slot' \<and>
      (req_class (request_of ?t r') = Dma_request \<longleftrightarrow> l = 4) \<and> (r' \<in> E \<or> \<not> complete (request_of ?t r')) \<and>
      exec_ok l (active (request_levels ?t l)) (request_of ?t r') r'"
      using assms(6) by (simp add: removed_def exec_ok_def)
  next
    fix r' assume "active (request_levels ?t l) = Some r'"
    then have a: "active (request_levels s l) = Some r'" "r' \<noteq> r"
      using assms(6) by (auto simp: removed_def split: if_splits)
    from table_ok_active [OF assms(3) a(1)] a(2) assms(6)
    show "\<exists>slot<32. slot_request (request_levels ?t l) slot = Some r'"
      by (intro exI [of _ "priority_slot (request_of s r')"]) (auto simp: removed_def)
  qed
qed

subsection \<open>Activation and execution\<close>

text \<open>What execution changes in the tables' view: the active request is executing.\<close>

lemma execute_effect:
  assumes "request_execute_active_on_PRU l s = Some t"
  obtains r rq where "active (request_levels s l) = Some r" "request_levels t = request_levels s"
    "request_of t = (request_of s)(r := rq)" "rq = (request_of s r)\<lparr>chunk_words := chunk_words rq, executing_on_PRU := True\<rparr>"
    "line_INIT t = line_INIT s" "iopage_start_addr t = iopage_start_addr s"
    "addr_space_byte_count t = addr_space_byte_count s" "device t = device s" "bus t = bus s"
proof -
  from assms obtain r where a: "active (request_levels s l) = Some r"
    by (auto simp: request_execute_active_on_PRU_def split: option.splits)
  show ?thesis
  proof (cases "l = 4")
    case True
    with assms a have "execute_dma_on_PRU r s = Some t"
      by (simp add: request_execute_active_on_PRU_def)
    then show ?thesis
      by (auto simp: execute_dma_on_PRU_def Let_def Option.bind_eq_Some_conv split: if_splits intro!: that [OF a])
  next
    case False
    with assms a have "execute_intr_on_PRU r s = Some t"
      by (simp add: request_execute_active_on_PRU_def)
    then show ?thesis
      by (auto simp: execute_intr_on_PRU_def Let_def split: if_splits intro!: that [OF a])
  qed
qed

text \<open>Activation finds the scheduled request in the lowest slot.\<close>

definition lowest_slot :: "priority_request_level \<Rightarrow> nat \<Rightarrow> bool" where
  "lowest_slot prl slot \<longleftrightarrow> slot < 32 \<and> slot_request prl slot \<noteq> None \<and>
     (\<forall>k < slot. slot_request prl k = None)"

lemma activate_defined:
  assumes "table_ok E s l" "active (request_levels s l) = None"
  shows "(slot_request_mask (request_levels s l) = 0 \<and>
          request_activate_lowest_slot l s = Some (None, s)) \<or>
     (\<exists>slot r. lowest_slot (request_levels s l) slot \<and> slot_request (request_levels s l) slot = Some r \<and>
          slot_request_mask (request_levels s l) \<noteq> 0 \<and>
          request_activate_lowest_slot l s = Some (Some r, upd_level l (\<lambda>prl. prl\<lparr>active := Some r\<rparr>) s))"
proof (cases "builtin_ffs (slot_request_mask (request_levels s l))")
  case 0
  then have m: "slot_request_mask (request_levels s l) = 0" by (simp add: builtin_ffs_zero)
  have "upd_level l (\<lambda>prl. prl\<lparr>active := None\<rparr>) s = s"
  proof -
    have "(request_levels s l)\<lparr>active := None\<rparr> = request_levels s l"
      using assms(2) by (cases "request_levels s l") simp
    then show ?thesis by (intro adapter_state.equality) (simp_all add: upd_level_def)
  qed
  with 0 m assms(2) show ?thesis
    by (simp add: request_activate_lowest_slot_def Let_def mask_matches_active_def)
next
  case (Suc slot)
  note b = builtin_ffs_Suc [OF Suc]
  then obtain r where r: "slot_request (request_levels s l) slot = Some r"
    using table_ok_mask [OF assms(1), of slot] by auto
  have m: "slot_request_mask (request_levels s l) \<noteq> 0" using Suc builtin_ffs_zero [of "slot_request_mask (request_levels s l)"] by simp
  have "lowest_slot (request_levels s l) slot"
    unfolding lowest_slot_def using b r table_ok_mask [OF assms(1)] by (auto simp del: not_None_eq)
  with Suc r m assms(2) show ?thesis
    by (intro disjI2 exI [of _ slot] exI [of _ r])
      (simp add: request_activate_lowest_slot_def Let_def mask_matches_active_def)
qed

lemma activate_and_execute_inv:
  assumes ok: "\<And>k. k < 5 \<Longrightarrow> table_ok E s k" and l: "l < 5"
    and na: "active (request_levels s l) = None"
    and t: "activate_and_execute l s = Some t"
  shows "(\<forall>k<5. table_ok E t k) \<and> mask_matches_active (request_levels t l) \<and>
     (\<forall>k. k \<noteq> l \<longrightarrow> request_levels t k = request_levels s k)"
  using activate_defined [OF ok [OF l] na]
proof (elim disjE conjE exE)
  assume "slot_request_mask (request_levels s l) = 0" "request_activate_lowest_slot l s = Some (None, s)"
  with t na ok show ?thesis by (auto simp: activate_and_execute_def mask_matches_active_def)
next
  fix slot r
  assume low: "lowest_slot (request_levels s l) slot" and r: "slot_request (request_levels s l) slot = Some r"
    and m: "slot_request_mask (request_levels s l) \<noteq> 0"
    and "request_activate_lowest_slot l s = Some (Some r, upd_level l (\<lambda>prl. prl\<lparr>active := Some r\<rparr>) s)"
  with t have e: "request_execute_active_on_PRU l (upd_level l (\<lambda>prl. prl\<lparr>active := Some r\<rparr>) s) = Some t"
    by (simp add: activate_and_execute_def)
  have slot: "slot < 32" using low by (simp add: lowest_slot_def)
  from e show ?thesis
  proof (rule execute_effect)
    fix r' rq
    assume "active (request_levels (upd_level l (\<lambda>prl. prl\<lparr>active := Some r\<rparr>) s) l) = Some r'"
      and lv: "request_levels t = request_levels (upd_level l (\<lambda>prl. prl\<lparr>active := Some r\<rparr>) s)"
      and ro: "request_of t = (request_of (upd_level l (\<lambda>prl. prl\<lparr>active := Some r\<rparr>) s))(r' := rq)"
      and rq: "rq = (request_of (upd_level l (\<lambda>prl. prl\<lparr>active := Some r\<rparr>) s) r')
         \<lparr>chunk_words := chunk_words rq, executing_on_PRU := True\<rparr>"
    then have r': "r' = r" by simp
    have rq': "level_index rq = level_index (request_of s r) \<and> priority_slot rq = priority_slot (request_of s r) \<and>
        req_class rq = req_class (request_of s r) \<and> complete rq = complete (request_of s r) \<and> executing_on_PRU rq"
      by (subst rq, subst rq, subst rq, subst rq, subst rq) (simp add: r')
    have "table_ok E t l"
    proof (rule table_okI)
      fix slot' :: nat assume "slot' < 32"
      then show "bit (slot_request_mask (request_levels t l)) slot' \<longleftrightarrow>
          slot_request (request_levels t l) slot' \<noteq> None"
        using table_ok_mask [OF ok [OF l]] by (simp add: lv)
    next
      fix slot' q assume a: "slot' < 32" "slot_request (request_levels t l) slot' = Some q"
      then have "slot_request (request_levels s l) slot' = Some q" by (simp add: lv)
      from table_okD [OF ok [OF l] a(1) this] na
      show "level_index (request_of t q) = l \<and> priority_slot (request_of t q) = slot' \<and>
        (req_class (request_of t q) = Dma_request \<longleftrightarrow> l = 4) \<and> (q \<in> E \<or> \<not> complete (request_of t q)) \<and>
        exec_ok l (active (request_levels t l)) (request_of t q) q"
        using rq' r' by (cases "q = r") (simp_all add: lv ro exec_ok_def)
    next
      fix q assume "active (request_levels t l) = Some q"
      then have "q = r" by (simp add: lv)
      then show "\<exists>slot<32. slot_request (request_levels t l) slot = Some q"
        using r slot by (auto simp: lv)
    qed
    moreover have "table_ok E t k" if k: "k < 5" "k \<noteq> l" for k
    proof (rule table_ok_cong [OF ok [OF k(1)]])
      fix slot' q assume "slot' < 32" "slot_request (request_levels s k) slot' = Some q"
      then have "q \<noteq> r" using table_okD(1) [OF ok [OF k(1)]] table_okD(1) [OF ok [OF l] slot r] k(2) by auto
      then show "sched_view (request_of t q) = sched_view (request_of s q)" by (simp add: ro r')
    qed (use k in \<open>simp add: lv\<close>)
    ultimately show ?thesis using m by (auto simp: lv mask_matches_active_def)
  qed
qed

lemma sched_inv_from:
  assumes "\<And>k. k < 5 \<Longrightarrow> table_ok E t k" "mask_matches_active (request_levels t l)"
    "\<And>k. k < 5 \<Longrightarrow> k \<noteq> l \<Longrightarrow> mask_matches_active (request_levels t k)"
  shows "sched_inv E t"
  using assms unfolding sched_inv_def by metis

text \<open>Starting the next request of a level whose tables are right and which has none active.\<close>

lemma activate_and_execute_sched_inv:
  assumes "\<And>k. k < 5 \<Longrightarrow> table_ok E s k" "l < 5" "active (request_levels s l) = None"
    "\<And>k. k < 5 \<Longrightarrow> k \<noteq> l \<Longrightarrow> mask_matches_active (request_levels s k)"
    "activate_and_execute l s = Some t"
  shows "sched_inv E t"
  using activate_and_execute_inv [OF assms(1-3,5)] assms(4) by (intro sched_inv_from [of E t l]) auto

text \<open>Activation followed by unconditional execution is the same as \<open>activate_and_execute\<close>
  when a request is pending, and aborts otherwise.\<close>

lemma activate_then_execute:
  assumes "do { (_, s') \<leftarrow> request_activate_lowest_slot l s; request_execute_active_on_PRU l s' } = Some t"
  shows "activate_and_execute l s = Some t"
proof -
  from assms obtain rq s' where a: "request_activate_lowest_slot l s = Some (rq, s')"
    and e: "request_execute_active_on_PRU l s' = Some t"
    by (auto simp: Option.bind_eq_Some_conv)
  have "active (request_levels s' l) = rq"
    using a by (auto simp: request_activate_lowest_slot_def Let_def Option.bind_eq_Some_conv split: if_splits)
  with e have "rq \<noteq> None" by (auto simp: request_execute_active_on_PRU_def split: option.splits)
  with a e show ?thesis by (auto simp: activate_and_execute_def)
qed

subsection \<open>Completion\<close>

lemma request_active_complete_effect:
  assumes "table_ok E s l" "l < 5"
  shows "request_active_complete l b s = Some
    (case active (request_levels s l) of None \<Rightarrow> s
     | Some r \<Rightarrow> upd_request r (\<lambda>rq. rq\<lparr>executing_on_PRU := False,
                   complete := (if b then True else complete rq)\<rparr>)
                 (removed l (priority_slot (request_of s r)) s))"
proof (cases "active (request_levels s l)")
  case (Some r)
  with table_ok_active [OF assms(1) Some] show ?thesis
    by (simp add: request_active_complete_def Let_def removed_def upd_level_def)
qed (simp add: request_active_complete_def)

lemma request_active_complete_ok:
  assumes inv: "\<And>k. k < 5 \<Longrightarrow> table_ok E s k" and l: "l < 5"
    and t: "request_active_complete l b s = Some t"
  shows "(\<forall>k<5. table_ok E t k) \<and> active (request_levels t l) = None \<and>
    (\<forall>k. k \<noteq> l \<longrightarrow> request_levels t k = request_levels s k)"
proof (cases "active (request_levels s l)")
  case None
  with t inv show ?thesis by (simp add: request_active_complete_def)
next
  case (Some r)
  note a = table_ok_active [OF inv [OF l] Some]
  have te: "t = upd_request r (\<lambda>rq. rq\<lparr>executing_on_PRU := False,
                   complete := (if b then True else complete rq)\<rparr>)
                 (removed l (priority_slot (request_of s r)) s)"
    using t request_active_complete_effect [OF inv [OF l] l, of b] Some by simp
  show ?thesis
    using table_ok_removed [OF inv _ inv [OF l] l] a Some unfolding te
    by (auto simp: removed_def)
qed

lemma complete_then_activate_sched_inv:
  assumes inv: "\<And>k. k < 5 \<Longrightarrow> table_ok E s k" and l: "l < 5"
    and mm: "\<And>k. k < 5 \<Longrightarrow> k \<noteq> l \<Longrightarrow> mask_matches_active (request_levels s k)"
    and t: "do { s' \<leftarrow> request_active_complete l b s; activate_and_execute l s' } = Some t"
  shows "sched_inv E t"
proof -
  from t obtain s' where s': "request_active_complete l b s = Some s'" "activate_and_execute l s' = Some t"
    by (auto simp: Option.bind_eq_Some_conv)
  note c = request_active_complete_ok [OF inv l s'(1)]
  show ?thesis
    by (rule activate_and_execute_sched_inv [OF _ l _ _ s'(2)]) (use c mm in auto)
qed

subsection \<open>Every operation keeps the invariant\<close>

text \<open>Register updates do not touch the tables or the requests.\<close>

lemma upd_register_sched [simp]:
  "request_levels (upd_register d i f s) = request_levels s"
  "request_of (upd_register d i f s) = request_of s"
  "request_levels (upd_pru_register h g s) = request_levels s"
  "request_of (upd_pru_register h g s) = request_of s"
  by (simp_all add: upd_register_def upd_device_def upd_pru_register_def)

lemma set_register_sched:
  assumes "set_register_dati_value d i v s = Some t"
  shows "request_levels t = request_levels s" "request_of t = request_of s"
  using assms by (auto simp: set_register_dati_value_Some)

lemma sched_inv_cong:
  "request_levels t = request_levels s \<Longrightarrow> request_of t = request_of s \<Longrightarrow> sched_inv E s \<Longrightarrow> sched_inv E t"
  by (simp add: sched_inv_def table_ok_def)

lemma scheduled_cong:
  "request_levels t = request_levels s \<Longrightarrow> scheduled t r = scheduled s r"
  by (simp add: scheduled_def)

text \<open>A free slot means its request is not scheduled anywhere.\<close>

lemma not_scheduled:
  assumes "sched_inv E s"
    "slot_request (request_levels s (level_index (request_of s r))) (priority_slot (request_of s r)) \<noteq> Some r"
  shows "\<not> scheduled s r"
proof
  assume "scheduled s r"
  then obtain l slot where "l < 5" "slot < 32" "slot_request (request_levels s l) slot = Some r"
    by (auto simp: scheduled_def)
  with table_okD(1,2) [of E s l slot r] sched_invD [OF assms(1)] assms(2) show False by auto
qed

text \<open>Scheduling a request whose slot is free, and starting it if its level is idle.\<close>

lemma schedule_and_start_free:
  assumes "level_index (request_of s r) = l" "priority_slot (request_of s r) = slot"
    "slot_request (request_levels s l) slot = None"
  shows "active (request_levels s l) = None \<Longrightarrow> schedule_and_start r s =
      do { (_, u) \<leftarrow> request_activate_lowest_slot l (entered r l slot s); request_execute_active_on_PRU l u }"
    and "active (request_levels s l) \<noteq> None \<Longrightarrow> schedule_and_start r s = Some (entered r l slot s)"
proof -
  have "active (request_levels (entered r l slot s) l) = active (request_levels s l)"
    by (simp add: entered_def)
  with assms show "active (request_levels s l) = None \<Longrightarrow> schedule_and_start r s =
      do { (_, u) \<leftarrow> request_activate_lowest_slot l (entered r l slot s); request_execute_active_on_PRU l u }"
    "active (request_levels s l) \<noteq> None \<Longrightarrow> schedule_and_start r s = Some (entered r l slot s)"
    by (simp_all add: schedule_and_start_def request_schedule_free del: not_None_eq)
qed

lemma schedule_and_start_inv:
  assumes inv: "sched_inv E s" and l: "l < 5" and slot: "slot < 32" and ns: "\<not> scheduled s r"
    and rq: "level_index (request_of s r) = l" "priority_slot (request_of s r) = slot"
      "req_class (request_of s r) = Dma_request \<longleftrightarrow> l = 4"
      "\<not> complete (request_of s r)" "\<not> executing_on_PRU (request_of s r)"
    and free: "slot_request (request_levels s l) slot = None"
    and t: "schedule_and_start r s = Some t"
  shows "sched_inv E t"
proof -
  have ok: "table_ok E (entered r l slot s) k" if "k < 5" for k
    using table_ok_entered [OF _ that l slot ns free rq] sched_invD [OF inv that] by blast
  have mm: "mask_matches_active (request_levels (entered r l slot s) k)" if "k < 5" "k \<noteq> l" for k
    using sched_invD [OF inv that(1)] that(2) by simp
  have same: "active (request_levels (entered r l slot s) l) = active (request_levels s l)"
    by (simp add: entered_def)
  show ?thesis
  proof (cases "active (request_levels s l) = None")
    case True
    from schedule_and_start_free(1) [OF rq(1,2) free True] t have "do { (_, u) \<leftarrow> request_activate_lowest_slot l (entered r l slot s);
        request_execute_active_on_PRU l u } = Some t" by simp
    from activate_and_execute_sched_inv [OF ok l _ mm activate_then_execute [OF this]] same True
    show ?thesis by simp
  next
    case False
    then have "t = entered r l slot s" using t schedule_and_start_free(2) [OF rq(1,2) free] by simp
    then show ?thesis
      using ok mm mask_matches_entered [OF slot False] by (intro sched_inv_from [of E t l]) auto
  qed
qed

lemma dma_request_for_sel [simp]:
  "level_index (dma_request_for c a b w rq) = level_index rq"
  "priority_slot (dma_request_for c a b w rq) = priority_slot rq"
  "req_class (dma_request_for c a b w rq) = req_class rq"
  "is_cpu_access (dma_request_for c a b w rq) = is_cpu_access rq"
  "\<not> complete (dma_request_for c a b w rq)" "\<not> executing_on_PRU (dma_request_for c a b w rq)"
  by (simp_all add: dma_request_for_def)

definition dma_admissible :: "req_id \<Rightarrow> u32 \<Rightarrow> u32 \<Rightarrow> 'a adapter_state_scheme \<Rightarrow> bool" where
  "dma_admissible r addr words s \<longleftrightarrow>
     priority_slot (request_of s r) < 32 \<and> level_index (request_of s r) = 4 \<and> 0 < words \<and>
     addr + 2 * words \<le> addr_space_byte_count s \<and>
     (is_cpu_access (request_of s r) \<longrightarrow> priority_slot (request_of s r) = 31)"

lemma DMA_cases:
  assumes "req_class (request_of s r) = Dma_request"
  shows "DMA r cycle addr buf words s =
    (if \<not> dma_admissible r addr words s then None
     else if line_INIT s then Some (upd_request r (\<lambda>rq. rq\<lparr>complete := True\<rparr>) s)
     else schedule_and_start r (upd_request r (dma_request_for cycle addr buf words) s))"
  by (auto simp: DMA_def dma_admissible_def)

lemma schedule_and_start_taken_dma:
  "req_class (request_of s r) = Dma_request \<Longrightarrow>
   slot_request (request_levels s (level_index (request_of s r))) (priority_slot (request_of s r)) \<noteq> None \<Longrightarrow>
   schedule_and_start r s = Some (upd_request r (\<lambda>rq. rq\<lparr>complete := True\<rparr>) s)"
  by (auto simp: schedule_and_start_def request_schedule_def Let_def)

lemma DMA_sched_inv:
  assumes inv: "sched_inv E s" and cls: "req_class (request_of s r) = Dma_request"
    and ns: "\<not> scheduled s r" and t: "DMA r cycle addr buf words s = Some t"
  shows "sched_inv E t"
proof -
  let ?s1 = "upd_request r (dma_request_for cycle addr buf words) s"
  let ?slot = "priority_slot (request_of s r)"
  have adm: "dma_admissible r addr words s" using t DMA_cases [OF cls] by (auto split: if_splits)
  have inv1: "sched_inv E ?s1" using inv ns by (rule sched_inv_upd_request)
  have ns1: "\<not> scheduled ?s1 r" using ns by (simp add: scheduled_cong [of ?s1 s])
  consider "t = upd_request r (\<lambda>rq. rq\<lparr>complete := True\<rparr>) s"
    | "t = upd_request r (\<lambda>rq. rq\<lparr>complete := True\<rparr>) ?s1"
    | "slot_request (request_levels s 4) ?slot = None" "schedule_and_start r ?s1 = Some t"
    using t adm schedule_and_start_taken_dma [of ?s1 r] cls unfolding DMA_cases [OF cls]
    by (auto simp: dma_admissible_def split: if_splits)
  then show ?thesis
  proof cases
    case 1
    then show ?thesis using sched_inv_upd_request [OF inv ns] by simp
  next
    case 2
    then show ?thesis using sched_inv_upd_request [OF inv1 ns1] by simp
  next
    case 3
    show ?thesis
      by (rule schedule_and_start_inv [OF inv1 _ _ ns1 _ _ _ _ _ _ 3(2), where l = 4 and slot = ?slot])
        (use adm cls 3(1) in \<open>simp_all add: dma_admissible_def\<close>)
  qed
qed

text \<open>What \<open>INTR\<close> prepares: nothing in the tables, and a request ready to be entered.\<close>

definition intr_view :: "request \<Rightarrow> request \<Rightarrow> bool" where
  "intr_view rq rq' \<longleftrightarrow> level_index rq' = level_index rq \<and> priority_slot rq' = priority_slot rq \<and>
     req_class rq' = req_class rq \<and> req_device rq' = req_device rq \<and> vector rq' = vector rq \<and>
     \<not> complete rq' \<and> \<not> executing_on_PRU rq'"

lemma intr_prepare_effect:
  assumes "intr_prepare r ireg v s = Some s2"
  shows "\<exists>rq. request_levels s2 = request_levels s \<and> request_of s2 = (request_of s)(r := rq) \<and>
    intr_view (request_of s r) rq"
proof (cases ireg)
  case None
  with assms show ?thesis by (auto simp: intr_prepare_def Let_def intr_view_def)
next
  case (Some di)
  obtain d i where di: "di = (d, i)" by force
  let ?s1 = "upd_request r (\<lambda>rq. rq\<lparr>complete := False, executing_on_PRU := False\<rparr>) s"
  show ?thesis
  proof (cases "request_is_blocking_active (level_index (request_of s r)) ?s1")
    case True
    with assms Some di obtain u where u: "set_register_dati_value d i v ?s1 = Some u"
      and s2: "s2 = upd_request r (\<lambda>rq. rq\<lparr>interrupt_register := None\<rparr>) u"
      by (auto simp: intr_prepare_def Let_def split: if_splits)
    show ?thesis
      by (intro exI [of _ "(request_of s r)\<lparr>complete := False, executing_on_PRU := False,
          interrupt_register := None\<rparr>"]) (simp add: s2 set_register_sched [OF u] intr_view_def)
  next
    case False
    with assms Some di show ?thesis
      by (auto simp: intr_prepare_def Let_def intr_view_def split: if_splits)
  qed
qed

lemma intr_reraise_effect:
  assumes "intr_reraise r p ireg v s = Some t"
  shows "request_levels t = request_levels s" "request_of t = request_of s"
  using assms by (auto simp: intr_reraise_def set_register_sched split: option.splits if_splits)

text \<open>The requests in \<open>E\<close> may be complete while they are scheduled.\<close>

lemma table_ok_completed:
  assumes "table_ok E s l"
  shows "table_ok (insert r E) (upd_request r (\<lambda>rq. rq\<lparr>complete := True\<rparr>) s) l"
proof (rule table_okI)
  fix slot q
  let ?t = "upd_request r (\<lambda>rq. rq\<lparr>complete := True\<rparr>) s"
  assume a: "slot < 32" "slot_request (request_levels ?t l) slot = Some q"
  from table_okD [OF assms a(1), of q] a(2)
  show "level_index (request_of ?t q) = l \<and> priority_slot (request_of ?t q) = slot \<and>
      (req_class (request_of ?t q) = Dma_request \<longleftrightarrow> l = 4) \<and> (q \<in> insert r E \<or> \<not> complete (request_of ?t q)) \<and>
      exec_ok l (active (request_levels ?t l)) (request_of ?t q) q"
    by (cases "q = r") (simp_all add: exec_ok_def)
next
  fix q assume "active (request_levels (upd_request r (\<lambda>rq. rq\<lparr>complete := True\<rparr>) s) l) = Some q"
  then have "active (request_levels s l) = Some q" by simp
  from table_ok_active [OF assms this]
  show "\<exists>slot<32. slot_request (request_levels (upd_request r (\<lambda>rq. rq\<lparr>complete := True\<rparr>) s) l) slot = Some q" by auto
qed (use table_ok_mask [OF assms] in simp)

lemma sched_inv_completed: "sched_inv E s \<Longrightarrow> sched_inv (insert r E) (upd_request r (\<lambda>rq. rq\<lparr>complete := True\<rparr>) s)"
  by (simp add: sched_inv_def table_ok_completed)

lemma sched_inv_drop: "sched_inv E s \<Longrightarrow> sched_inv {r \<in> E. scheduled s r} s"
  unfolding sched_inv_def table_ok_def Let_def scheduled_def by blast

lemma sched_inv_mono: "sched_inv E s \<Longrightarrow> E \<subseteq> F \<Longrightarrow> sched_inv F s"
  unfolding sched_inv_def table_ok_def Let_def by blast


lemma INTR_sched_inv:
  assumes inv: "sched_inv E s" and cls: "req_class (request_of s r) = Intr_request"
    and t: "INTR r ireg v s = Some t"
  shows "sched_inv (if line_INIT s then insert r E else E) t"
proof -
  let ?l = "level_index (request_of s r)"
  let ?slot = "priority_slot (request_of s r)"
  have b: "?slot < 32" "?l \<le> 3" using t by (auto simp: INTR_def Let_def split: if_splits)
  consider "line_INIT s" "t = upd_request r (\<lambda>rq. rq\<lparr>complete := True\<rparr>) s"
    | p where "\<not> line_INIT s" "intr_reraise r p ireg v s = Some t"
    | s2 where "\<not> line_INIT s" "slot_request (request_levels s ?l) ?slot = None"
        "intr_prepare r ireg v s = Some s2" "schedule_and_start r s2 = Some t"
  proof (cases "line_INIT s")
    case True
    with t b that(1) show ?thesis by (auto simp: INTR_def Let_def split: if_splits)
  next
    case False
    show ?thesis
    proof (cases "slot_request (request_levels s ?l) ?slot")
      case None
      with t b False have "Option.bind (intr_prepare r ireg v s) (schedule_and_start r) = Some t"
        by (simp add: INTR_def Let_def split: if_splits)
      then obtain s2 where "intr_prepare r ireg v s = Some s2" "schedule_and_start r s2 = Some t"
        by (auto simp: Option.bind_eq_Some_conv)
      with None False that(3) show ?thesis by blast
    next
      case (Some p)
      with t b False that(2) show ?thesis by (simp add: INTR_def Let_def split: if_splits)
    qed
  qed
  then show ?thesis
  proof cases
    case 1
    then show ?thesis using sched_inv_completed [OF inv] by simp
  next
    case 2
    have "sched_inv E t" using inv intr_reraise_effect [OF 2(2)] by (blast intro: sched_inv_cong)
    then show ?thesis using 2(1) by simp
  next
    case 3
    from intr_prepare_effect [OF 3(3)] obtain rq where
      p: "request_levels s2 = request_levels s" "request_of s2 = (request_of s)(r := rq)"
        "intr_view (request_of s r) rq" by blast
    have ns: "\<not> scheduled s r" using not_scheduled [OF inv] 3(2) by simp
    have "sched_inv E (upd_request r (\<lambda>_. rq) s)" using inv ns by (rule sched_inv_upd_request)
    then have "sched_inv E s2"
      by (rule sched_inv_cong [rotated 2]) (simp_all add: p(1,2))
    then have "sched_inv E t"
      by (rule schedule_and_start_inv [OF _ _ _ _ _ _ _ _ _ _ 3(4), where l = ?l and slot = ?slot])
        (use b 3(2) ns p(3) cls in \<open>simp_all add: scheduled_cong [of s2 s] p(1,2) intr_view_def\<close>)
    then show ?thesis using 3(1) by simp
  qed
qed

lemma worker_intr_complete_sched_inv:
  assumes "sched_inv E s" "l < 5" "worker_intr_complete_event l s = Some t"
  shows "sched_inv E t"
  using assms sched_invD [OF assms(1)]
  by (intro complete_then_activate_sched_inv [of E s l True t]) (auto simp: worker_intr_complete_event_def)

lemma cancel_INTR_sched_inv:
  assumes inv: "sched_inv E s" and l: "level_index (request_of s r) < 5" "priority_slot (request_of s r) < 32"
    and own: "slot_request (request_levels s (level_index (request_of s r))) (priority_slot (request_of s r)) \<in> {None, Some r}"
    and t: "cancel_INTR r s = Some t"
  shows "sched_inv E t"
proof -
  let ?l = "level_index (request_of s r)"
  let ?slot = "priority_slot (request_of s r)"
  have ok: "table_ok E s k" if "k < 5" for k using sched_invD [OF inv that] by blast
  have mm: "mask_matches_active (request_levels s k)" if "k < 5" for k using sched_invD [OF inv that] by blast
  consider (none) "slot_request (request_levels s ?l) ?slot = None"
    | (act) "active (request_levels s ?l) = Some r" "slot_request (request_levels s ?l) ?slot = Some r"
    | (wait) "active (request_levels s ?l) \<noteq> Some r" "slot_request (request_levels s ?l) ?slot = Some r"
    using own by auto
  then show ?thesis
  proof cases
    case none
    with t inv show ?thesis by (simp add: cancel_INTR_def Let_def)
  next
    case act
    let ?a = "priority_level_idx_to_arbitration_bit ?l"
    let ?s1 = "s\<lparr>mbox_intr := (mbox_intr s)\<lparr>priority_arbitration_bit := ?a\<rparr>,
                 arm2pru_log := arm2pru_log s @ [ARM2PRU_INTR_CANCEL ?a]\<rparr>"
    from t act have e: "do { s2 \<leftarrow> request_active_complete ?l True ?s1; activate_and_execute ?l s2 } = Some t"
      by (auto simp: cancel_INTR_def Let_def Option.bind_eq_Some_conv split: if_splits)
    show ?thesis
      by (rule complete_then_activate_sched_inv [OF _ l(1) _ e])
        (use ok mm in \<open>simp_all add: table_ok_def\<close>)
  next
    case wait
    from t wait have te: "t = upd_request r (\<lambda>rq. rq\<lparr>complete := True\<rparr>) (removed ?l ?slot s)"
      and m: "mask_matches_active (request_levels t ?l)"
      by (auto simp: cancel_INTR_def Let_def removed_def upd_level_def upd_request_def split: if_splits)
    have "table_ok E t k" if "k < 5" for k
      unfolding te using table_ok_removed [OF ok [OF that] that ok [OF l(1)] l wait(2)] .
    moreover have "mask_matches_active (request_levels t k)" if "k < 5" "k \<noteq> ?l" for k
      using mm [OF that(1)] that(2) by (simp add: te removed_def)
    ultimately show ?thesis using m by (intro sched_inv_from [of E t ?l]) auto
  qed
qed

text \<open>The DMA chunk event.\<close>

lemma dma_no_more_chunks_sched_inv:
  assumes "sched_inv E s" "dma_no_more_chunks r s = Some t"
  shows "sched_inv E t"
  using assms sched_invD [OF assms(1)]
  by (intro complete_then_activate_sched_inv [of E s 4 "\<not> is_cpu_access (request_of s r)" t])
    (auto simp: dma_no_more_chunks_def)

text \<open>The fields of a request a DMA event changes are not those the tables depend on.\<close>

lemma sched_inv_upd_view:
  assumes "sched_inv E s" "sched_view (f (request_of s r)) = sched_view (request_of s r)"
  shows "sched_inv E (upd_request r f s)"
  unfolding sched_inv_def
proof (intro allI impI conjI)
  fix l :: nat assume "l < 5"
  with assms(1) have ok: "table_ok E s l" and mm: "mask_matches_active (request_levels s l)"
    by (simp_all add: sched_inv_def)
  show "table_ok E (upd_request r f s) l"
    by (rule table_ok_cong [OF ok]) (use assms(2) in simp_all)
  show "mask_matches_active (request_levels (upd_request r f s) l)" using mm by simp
qed

text \<open>A request that stays in its slot but is no longer active, about to be started again.\<close>

lemma reactivate_sched_inv:
  assumes inv: "sched_inv E s" and act: "active (request_levels s 4) = Some r"
    and t: "activate_and_execute 4 (upd_level 4 (\<lambda>prl. prl\<lparr>active := None\<rparr>) s) = Some t"
  shows "sched_inv E t"
proof -
  let ?u = "upd_level 4 (\<lambda>prl. prl\<lparr>active := None\<rparr>) s"
  have "table_ok E ?u k" if k: "k < 5" for k
  proof (cases "k = 4")
    case False
    show ?thesis
      by (rule table_ok_cong [OF conjunct1 [OF sched_invD [OF inv k]]]) (use False in simp_all)
  next
    case True
    then have ok: "table_ok E s 4" using sched_invD [OF inv k] by simp
    show ?thesis
      unfolding True
      by (rule table_okI) (use table_ok_mask [OF ok] table_okD [OF ok] in \<open>simp_all add: exec_ok_def\<close>)
  qed
  moreover have "mask_matches_active (request_levels ?u k)" if "k < 5" "k \<noteq> 4" for k
    using sched_invD [OF inv that(1)] that(2) by simp
  ultimately show ?thesis
    by (intro activate_and_execute_sched_inv [OF _ _ _ _ t]) simp_all
qed

lemma dma_chunk_done_sched_inv:
  assumes inv: "sched_inv E s" and act: "active (request_levels s 4) = Some r"
    and v: "sched_view rq = sched_view (request_of s r)"
    and t: "dma_chunk_done r rq n s = Some t"
  shows "sched_inv E t"
proof -
  have inv1: "sched_inv E (upd_request r (\<lambda>_. q) s)" if "sched_view q = sched_view rq" for q
    by (rule sched_inv_upd_view) (use that inv v in simp_all)
  let ?s2 = "upd_level 4 (\<lambda>prl. prl\<lparr>active := None\<rparr>)
      (upd_request r (\<lambda>_. rq\<lparr>chunk_qunibus_start_addr := cur_addr (mbox_dma s) + 2\<rparr>) s)"
  consider (fail) "dma_no_more_chunks r (upd_request r (\<lambda>_. rq\<lparr>success := False\<rparr>) s) = Some t"
    | (ready) "dma_no_more_chunks r (upd_request r (\<lambda>_. rq\<lparr>success := True\<rparr>) s) = Some t"
    | (next_chunk) "activate_and_execute 4 ?s2 = Some t"
    using t activate_then_execute [of 4 ?s2 t] unfolding dma_chunk_done_def Let_def
    by (simp split: if_splits del: upd_request_sel upd_level_sel)
  then show ?thesis
  proof cases
    case fail
    show ?thesis by (rule dma_no_more_chunks_sched_inv [OF inv1 fail]) (simp add: sched_view_def)
  next
    case ready
    show ?thesis by (rule dma_no_more_chunks_sched_inv [OF inv1 ready]) (simp add: sched_view_def)
  next
    case next_chunk
    show ?thesis by (rule reactivate_sched_inv [OF inv1 _ next_chunk]) (simp_all add: sched_view_def act)
  qed
qed

lemma worker_device_dma_chunk_complete_sched_inv:
  assumes inv: "sched_inv E s" and t: "worker_device_dma_chunk_complete_event s = Some t"
  shows "sched_inv E t"
proof -
  let ?mb = "untagged_mailbox (mbox_dma s)"
  obtain r buf n where act: "active (request_levels s 4) = Some r"
    and d: "dma_chunk_done r ((request_of s r)\<lparr>qunibus_end_addr := cur_addr ?mb, buffer := buf\<rparr>) n
          (s\<lparr>mbox_dma := ?mb\<rparr>) = Some t"
    using t by (auto simp: worker_device_dma_chunk_complete_event_def Let_def Option.bind_eq_Some_conv
        split: option.splits if_splits)
  have "sched_inv E (s\<lparr>mbox_dma := ?mb\<rparr>)" using inv by (rule sched_inv_cong [rotated 2]) simp_all
  then show ?thesis by (rule dma_chunk_done_sched_inv [OF _ _ _ d]) (simp_all add: act sched_view_def)
qed

end
