(* ===== verification/Scheduler_Runs.thy ===== *)
theory Scheduler_Runs
  imports Scheduler_Invariant
begin

text \<open>
  Runs of the scheduler: aborting everything, the operations that never fail, the step relation
  of all operations and what every reachable state satisfies.
\<close>

subsection \<open>Aborting everything\<close>

lemma cancelled_request_idem [simp]: "cancelled_request (cancelled_request rq) = cancelled_request rq"
  by (cases "req_class rq") (simp_all add: cancelled_request_def Let_def)

lemma cancel_slots_levels:
  "request_levels (cancel_slots_from n k l s) = (request_levels s)(l := (request_levels s l)
     \<lparr>slot_request := (\<lambda>i. if k \<le> i \<and> i < k + n then None else slot_request (request_levels s l) i)\<rparr>)"
proof (induction n k l s rule: cancel_slots_from.induct)
  case (1 slot l s)
  have "(\<lambda>i. if slot \<le> i \<and> i < slot + 0 then None else slot_request (request_levels s l) i) = slot_request (request_levels s l)"
    by (auto simp: fun_eq_iff)
  then show ?case by (simp only: cancel_slots_from.simps) simp
next
  case (2 n slot l s)
  show ?case
  proof (cases "slot_request (request_levels s l) slot")
    case None
    then show ?thesis using 2 by (auto simp: fun_eq_iff le_eq_less_or_eq Suc_le_eq)
  next
    case (Some r)
    then show ?thesis using 2 by (auto simp: fun_eq_iff Suc_le_eq le_eq_less_or_eq)
  qed
qed

lemma cancel_slots_request:
  "request_of (cancel_slots_from n k l s) r =
     (if \<exists>i. k \<le> i \<and> i < k + n \<and> slot_request (request_levels s l) i = Some r
      then cancelled_request (request_of s r) else request_of s r)"
proof (induction n k l s rule: cancel_slots_from.induct)
  case (2 n slot l s)
  have split: "(\<exists>i. slot \<le> i \<and> i < slot + Suc n \<and> P i) \<longleftrightarrow> P slot \<or> (\<exists>i. Suc slot \<le> i \<and> i < Suc slot + n \<and> P i)" for P
    by (metis Suc_leD Suc_le_eq add_Suc_shift le_eq_less_or_eq less_add_same_cancel1 zero_less_Suc)
  define t where "t = (case slot_request (request_levels s l) slot of None \<Rightarrow> s
      | Some q \<Rightarrow> upd_request q cancelled_request
          (upd_level l (\<lambda>prl. prl\<lparr>slot_request := (slot_request prl)(slot := None)\<rparr>) s))"
  have IH: "request_of (cancel_slots_from n (Suc slot) l t) r =
     (if \<exists>i. Suc slot \<le> i \<and> i < Suc slot + n \<and> slot_request (request_levels t l) i = Some r
      then cancelled_request (request_of t r) else request_of t r)"
    unfolding t_def by (rule 2)
  have lv: "slot_request (request_levels t l) i = slot_request (request_levels s l) i" if "Suc slot \<le> i" for i
    using that by (auto simp: t_def split: option.splits)
  have rq: "request_of t r = (if slot_request (request_levels s l) slot = Some r
      then cancelled_request (request_of s r) else request_of s r)"
    by (auto simp: t_def split: option.splits)
  have "(\<exists>i. Suc slot \<le> i \<and> i < Suc slot + n \<and> slot_request (request_levels t l) i = Some r) \<longleftrightarrow>
      (\<exists>i. Suc slot \<le> i \<and> i < Suc slot + n \<and> slot_request (request_levels s l) i = Some r)"
    using lv by (metis (no_types))
  with IH rq show ?case
    unfolding split cancel_slots_from.simps t_def [symmetric]
    by (cases "\<exists>i. Suc slot \<le> i \<and> i < Suc slot + n \<and> slot_request (request_levels s l) i = Some r";
        cases "slot_request (request_levels s l) slot = Some r")
      (simp_all only: simp_thms if_True if_False cancelled_request_idem)
qed auto

definition scheduled_on :: "'a adapter_state_scheme \<Rightarrow> nat \<Rightarrow> req_id \<Rightarrow> bool" where
  "scheduled_on s l r \<longleftrightarrow> (\<exists>slot<32. slot_request (request_levels s l) slot = Some r)"

lemma cancel_level_effect:
  "request_of (cancel_level l s) r = (if scheduled_on s l r then cancelled_request (request_of s r) else request_of s r)"
  "request_levels (cancel_level l s) = (request_levels s)(l := cleared_level (request_levels s l))"
  by (auto simp: cancel_level_def cancel_slots_request cancel_slots_levels scheduled_on_def cleared_level_def fun_eq_iff)

lemma cancel_levels_effect:
  assumes "distinct ls"
  shows "request_of (fold cancel_level ls (s :: 'a adapter_state_scheme)) r =
      (if \<exists>l\<in>set ls. scheduled_on s l r then cancelled_request (request_of s r) else request_of s r)"
    "l \<notin> set ls \<Longrightarrow> request_levels (fold cancel_level ls s) l = request_levels s l"
    "l \<in> set ls \<Longrightarrow> request_levels (fold cancel_level ls s) l = cleared_level (request_levels s l)"
  using assms
proof (induction ls arbitrary: s)
  case (Cons k ls)
  have same: "scheduled_on (cancel_level k s) l r \<longleftrightarrow> scheduled_on s l r" if "l \<noteq> k"
    for l r and s :: "'a adapter_state_scheme"
    using that by (simp add: scheduled_on_def cancel_level_effect)
  {
    case 1
    have "(\<exists>l\<in>set ls. scheduled_on (cancel_level k s) l r) \<longleftrightarrow> (\<exists>l\<in>set ls. scheduled_on s l r)"
      by (intro bex_cong refl same) (use 1 in auto)
    with 1 Cons.IH(1) [of "cancel_level k s"] show ?case
      by (auto simp: cancel_level_effect)
  next
    case 2
    then show ?case using Cons.IH(2) by (simp add: cancel_level_effect)
  next
    case 3
    then show ?case using Cons.IH(2,3) by (cases "l = k") (auto simp: cancel_level_effect)
  }
qed simp_all

lemma scheduled_levels: "scheduled s r \<longleftrightarrow> (\<exists>l\<in>set [0..<5]. scheduled_on s l r)"
  unfolding scheduled_def scheduled_on_def set_upt by (meson atLeastLessThan_iff zero_le)

lemma abort_request:
  "request_of (requests_abort_all s) r =
     (if scheduled s r then cancelled_request (request_of s r) else request_of s r)"
  unfolding requests_abort_all_def requests_init_def requests_cancel_scheduled_def scheduled_levels
  by (simp add: cancel_levels_effect(1) del: upt_rec_numeral)

lemma abort_levels:
  "l < 5 \<Longrightarrow> request_levels (requests_abort_all s) l = cleared_level (request_levels s l)"
  unfolding requests_abort_all_def requests_init_def requests_cancel_scheduled_def
  by (simp add: cancel_levels_effect(3) cleared_level_def fun_eq_iff del: upt_rec_numeral)

lemma sched_inv_all_empty:
  assumes "\<And>l. l < 5 \<Longrightarrow> request_levels s l = cleared_level (prl l)"
  shows "sched_inv E s"
proof -
  have "table_ok E s l" if "l < 5" for l
    by (rule table_okI) (use assms [OF that] in \<open>simp_all add: cleared_level_def\<close>)
  then show ?thesis using assms by (simp add: sched_inv_def mask_matches_active_def cleared_level_def)
qed

lemma requests_init_levels: "l < 5 \<Longrightarrow> request_levels (requests_init s) l = cleared_level (request_levels s l)"
  by (simp add: requests_init_def)

lemma requests_init_sched_inv: "sched_inv E (requests_init s)"
  by (rule sched_inv_all_empty) (rule requests_init_levels)

lemma requests_abort_all_sched_inv: "sched_inv E (requests_abort_all s)"
  by (rule sched_inv_all_empty) (rule abort_levels)

lemma adapter_on_init_changed_sched_inv: "sched_inv E (adapter_on_init_changed s)"
  by (rule sched_inv_all_empty [where prl = "request_levels s"])
    (simp add: adapter_on_init_changed_def Let_def requests_init_levels)

text \<open>
  INIT and the power fail abort all requests: every scheduled request ends
  complete, not executing and, if it is a DMA, failed; no other request is touched; all slot
  tables are empty and consistent.
\<close>

theorem requests_abort_all_completes:
  "request_of (requests_abort_all s) r =
     (if scheduled s r then (request_of s r)\<lparr>executing_on_PRU := False, complete := True,
        success := (if req_class (request_of s r) = Dma_request then False else success (request_of s r))\<rparr>
      else request_of s r) \<and>
   \<not> scheduled (requests_abort_all s) r \<and> sched_inv E (requests_abort_all s)"
proof (intro conjI)
  show "request_of (requests_abort_all s) r =
     (if scheduled s r then (request_of s r)\<lparr>executing_on_PRU := False, complete := True,
        success := (if req_class (request_of s r) = Dma_request then False else success (request_of s r))\<rparr>
      else request_of s r)"
    by (cases "req_class (request_of s r)") (simp_all add: abort_request cancelled_request_def Let_def)
  show "\<not> scheduled (requests_abort_all s) r"
    by (simp add: scheduled_def abort_levels cleared_level_def)
qed (rule requests_abort_all_sched_inv)

subsection \<open>The assertions cannot fail\<close>

text \<open>Interrupt levels: what activation finds can be handed to the PRU.\<close>

lemma table_intr_class:
  assumes "table_ok E s l" "l < 4" "slot < 32" "slot_request (request_levels s l) slot = Some r"
  shows "req_class (request_of s r) = Intr_request"
  using table_okD(3) [OF assms(1,3,4)] assms(2) by (cases "req_class (request_of s r)") auto

lemma execute_activated_intr_total:
  assumes ok: "table_ok E s l" and l: "l < 4"
    and r: "lowest_slot (request_levels s l) slot" "slot_request (request_levels s l) slot = Some r"
  shows "request_execute_active_on_PRU l (upd_level l (\<lambda>prl. prl\<lparr>active := Some r\<rparr>) s) \<noteq> None"
proof -
  have slot: "slot < 32" using r(1) by (simp add: lowest_slot_def)
  have "level_index (request_of s r) = l" "req_class (request_of s r) = Intr_request"
    using table_okD(1) [OF ok slot r(2)] table_intr_class [OF ok l slot r(2)] by simp_all
  with l show ?thesis
    by (simp add: request_execute_active_on_PRU_def execute_intr_on_PRU_def Let_def)
qed

lemma activate_and_execute_intr_total:
  assumes "table_ok E s l" "l < 4" "active (request_levels s l) = None"
  shows "activate_and_execute l s \<noteq> None"
  using activate_defined [OF assms(1,3)] execute_activated_intr_total [OF assms(1,2)]
  by (auto simp: activate_and_execute_def)

lemma activate_then_execute_intr_total:
  assumes "table_ok E s l" "l < 4" "active (request_levels s l) = None"
    "slot_request_mask (request_levels s l) \<noteq> 0"
  shows "do { (_, s') \<leftarrow> request_activate_lowest_slot l s; request_execute_active_on_PRU l s' } \<noteq> None"
  using activate_defined [OF assms(1,3)] execute_activated_intr_total [OF assms(1,2)] assms(4)
  by auto

lemma complete_activate_intr_total:
  assumes inv: "\<And>k. k < 5 \<Longrightarrow> table_ok E s k" and l: "l < 4"
  shows "do { s' \<leftarrow> request_active_complete l b s; activate_and_execute l s' } \<noteq> None"
proof -
  have l5: "l < 5" using l by simp
  obtain s' where s': "request_active_complete l b s = Some s'"
    using request_active_complete_effect [OF inv [OF l5] l5] by blast
  from request_active_complete_ok [OF inv l5 s'] l5 have "table_ok E s' l" "active (request_levels s' l) = None"
    by blast+
  with l show ?thesis by (simp add: s' activate_and_execute_intr_total)
qed

lemma worker_intr_complete_total:
  assumes "sched_inv E s" "l < 4"
  shows "worker_intr_complete_event l s \<noteq> None"
  unfolding worker_intr_complete_event_def
  by (rule complete_activate_intr_total) (use assms sched_invD in auto)

text \<open>What a caller of \<open>INTR\<close> and \<open>cancel_INTR\<close> has to respect: the slot is its own.\<close>

definition own_slot :: "req_id \<Rightarrow> 'a adapter_state_scheme \<Rightarrow> bool" where
  "own_slot r s \<longleftrightarrow> priority_slot (request_of s r) < 32 \<and>
     slot_request (request_levels s (level_index (request_of s r))) (priority_slot (request_of s r)) \<in> {None, Some r}"

definition intr_args_ok :: "req_id \<Rightarrow> (dev_id \<times> nat) option \<Rightarrow> 'a adapter_state_scheme \<Rightarrow> bool" where
  "intr_args_ok r ireg s \<longleftrightarrow>
     req_class (request_of s r) = Intr_request \<and> level_index (request_of s r) < 4 \<and>
     vector (request_of s r) AND 3 = 0 \<and>
     (case ireg of None \<Rightarrow> True
      | Some (d, i) \<Rightarrow> pru_link (the_reg d i s) \<noteq> None \<and> req_device (request_of s r) = reg_device (the_reg d i s))"

lemma set_register_total:
  "pru_link (the_reg d i s) \<noteq> None \<Longrightarrow> set_register_dati_value d i v s \<noteq> None"
  by (auto simp: set_register_dati_value_def)

lemma intr_prepare_total:
  assumes "intr_args_ok r ireg s"
  shows "intr_prepare r ireg v s \<noteq> None"
proof (cases ireg)
  case (Some di)
  obtain d i where di: "di = (d, i)" by force
  have "set_register_dati_value d i v (upd_request r f s) \<noteq> None" for f
    by (rule set_register_total) (use assms Some di in \<open>simp add: intr_args_ok_def\<close>)
  with assms Some di show ?thesis
    by (simp add: intr_prepare_def Let_def intr_args_ok_def)
qed (simp add: intr_prepare_def)

lemma schedule_and_start_intr_total:
  assumes inv: "sched_inv E s" and l: "l < 4" and slot: "slot < 32" and ns: "\<not> scheduled s r"
    and rq: "level_index (request_of s r) = l" "priority_slot (request_of s r) = slot"
      "req_class (request_of s r) = Intr_request"
      "\<not> complete (request_of s r)" "\<not> executing_on_PRU (request_of s r)"
    and free: "slot_request (request_levels s l) slot = None"
  shows "schedule_and_start r s \<noteq> None"
proof (cases "active (request_levels s l) = None")
  case True
  have "table_ok E (entered r l slot s) l"
    by (rule table_ok_entered [OF _ _ _ slot ns free rq(1,2)]) (use sched_invD [OF inv] l rq in auto)
  moreover have "active (request_levels (entered r l slot s) l) = None"
    "slot_request_mask (request_levels (entered r l slot s) l) \<noteq> 0"
    using True slot_bit_or_nonzero [OF slot] by (simp_all add: entered_def)
  ultimately show ?thesis
    unfolding schedule_and_start_free(1) [OF rq(1,2) free True] using l
    by (intro activate_then_execute_intr_total) auto
next
  case False
  then show ?thesis by (simp add: schedule_and_start_free(2) [OF rq(1,2) free])
qed

lemma INTR_total:
  assumes inv: "sched_inv E s" and args: "intr_args_ok r ireg s" and own: "own_slot r s"
  shows "INTR r ireg v s \<noteq> None"
proof (cases "line_INIT s")
  case True
  with args own show ?thesis by (simp add: INTR_def Let_def intr_args_ok_def own_slot_def)
next
  case False
  let ?l = "level_index (request_of s r)"
  let ?slot = "priority_slot (request_of s r)"
  have b: "?slot < 32" "?l < 4" "?l \<le> 3" "vector (request_of s r) AND 3 = 0" "req_class (request_of s r) = Intr_request"
    using args own by (auto simp: intr_args_ok_def own_slot_def)
  show ?thesis
  proof (cases "slot_request (request_levels s ?l) ?slot")
    case None
    obtain s2 where s2: "intr_prepare r ireg v s = Some s2" using intr_prepare_total [OF args] by blast
    from intr_prepare_effect [OF this] obtain rq where
      p: "request_levels s2 = request_levels s" "request_of s2 = (request_of s)(r := rq)"
        "intr_view (request_of s r) rq" by blast
    have ns: "\<not> scheduled s r" using not_scheduled [OF inv] None by simp
    have "sched_inv E s2"
      by (rule sched_inv_cong [OF _ _ sched_inv_upd_request [OF inv ns, of "\<lambda>_. rq"]]) (simp_all add: p(1,2))
    then have "schedule_and_start r s2 \<noteq> None"
      by (rule schedule_and_start_intr_total [where l = ?l and slot = ?slot])
        (use b None ns p(3) in \<open>simp_all add: scheduled_cong [of s2 s] p(1,2) intr_view_def\<close>)
    with s2 b None False show ?thesis by (simp add: INTR_def Let_def)
  next
    case (Some p)
    with own have "p = r" by (auto simp: own_slot_def)
    with Some b False args show ?thesis
      by (auto simp: INTR_def Let_def intr_reraise_def intr_args_ok_def set_register_dati_value_def split: option.splits)
  qed
qed

lemma cancel_INTR_total:
  assumes inv: "sched_inv E s" and l: "level_index (request_of s r) < 4" and own: "own_slot r s"
  shows "cancel_INTR r s \<noteq> None"
proof -
  let ?l = "level_index (request_of s r)"
  let ?slot = "priority_slot (request_of s r)"
  have slot: "?slot < 32" using own by (simp add: own_slot_def)
  have ok: "table_ok E s k" and mm: "mask_matches_active (request_levels s k)" if "k < 5" for k
    using sched_invD [OF inv that] by auto
  note okl = ok [of ?l]
  consider (none) "slot_request (request_levels s ?l) ?slot = None"
    | (act) "active (request_levels s ?l) = Some r" "slot_request (request_levels s ?l) ?slot = Some r"
    | (wait) "active (request_levels s ?l) \<noteq> Some r" "slot_request (request_levels s ?l) ?slot = Some r"
    using own by (auto simp: own_slot_def)
  then show ?thesis
  proof cases
    case none
    then show ?thesis by (simp add: cancel_INTR_def Let_def)
  next
    case act
    let ?a = "priority_level_idx_to_arbitration_bit ?l"
    let ?s1 = "s\<lparr>mbox_intr := (mbox_intr s)\<lparr>priority_arbitration_bit := ?a\<rparr>,
                 arm2pru_log := arm2pru_log s @ [ARM2PRU_INTR_CANCEL ?a]\<rparr>"
    have ok1: "table_ok E ?s1 k" if "k < 5" for k using ok [OF that] by (simp add: table_ok_def)
    obtain t where t: "do { s2 \<leftarrow> request_active_complete ?l True ?s1; activate_and_execute ?l s2 } = Some t"
      using complete_activate_intr_total [OF ok1 l, of True] by blast
    have "sched_inv E t"
      by (rule complete_then_activate_sched_inv [OF ok1 _ _ t]) (use l mm in simp_all)
    then have "mask_matches_active (request_levels t ?l)" using sched_invD [of E t ?l] l by simp
    with t act l show ?thesis
      by (auto simp: cancel_INTR_def Let_def Option.bind_eq_Some_conv)
  next
    case wait
    have m: "slot_request_mask (request_levels s ?l) \<noteq> 0"
      using table_ok_mask [OF okl slot] wait(2) l by auto
    then obtain q where q: "active (request_levels s ?l) = Some q" "q \<noteq> r"
      using mm [of ?l] l wait(1) by (auto simp: mask_matches_active_def)
    let ?m = "slot_request_mask (request_levels s ?l) AND NOT (slot_bit ?slot)"
    have qs: "priority_slot (request_of s q) < 32"
      "slot_request (request_levels s ?l) (priority_slot (request_of s q)) = Some q"
      using table_ok_active [OF okl q(1)] l by simp_all
    then have "priority_slot (request_of s q) \<noteq> ?slot" using wait(2) q(2) by auto
    then have "bit ?m (priority_slot (request_of s q))"
      using table_ok_mask [OF okl qs(1)] qs(2) l by simp
    then have "?m \<noteq> 0" by (metis bit_0_eq bot_apply bot_bool_def)
    with wait q show ?thesis by (simp add: cancel_INTR_def Let_def mask_matches_active_def)
  qed
qed

text \<open>
  Property C36. Raising, re-raising and cancelling an interrupt, and the PRU's completion
  event of an interrupt level, never fail an assertion, INIT or not: on consistent tables, for an
  interrupt request with a level of BR4 to BR7, a vector divisible by 4, a slot that is free or its own, and an
  installed register of its device or none, each of them ends normally and leaves the tables consistent. What
  consistent means is weaker for requests in E, which may be complete while they are still scheduled: raising
  an interrupt while INIT is asserted, and only that, adds its request to E.
\<close>

theorem interrupt_operations_never_fail:
  assumes "sched_inv E s" "intr_args_ok r ireg s" "own_slot r s" "l < 4"
  shows "\<exists>t u v. INTR r ireg value s = Some t \<and> sched_inv (if line_INIT s then insert r E else E) t \<and>
    cancel_INTR r s = Some u \<and> sched_inv E u \<and>
    worker_intr_complete_event l s = Some v \<and> sched_inv E v"
proof -
  have b: "level_index (request_of s r) < 4" "priority_slot (request_of s r) < 32" "req_class (request_of s r) = Intr_request"
    using assms(2,3) by (auto simp: intr_args_ok_def own_slot_def)
  obtain t where t: "INTR r ireg value s = Some t" using INTR_total [OF assms(1-3)] by blast
  obtain u where u: "cancel_INTR r s = Some u" using cancel_INTR_total [OF assms(1) b(1) assms(3)] by blast
  obtain v where v: "worker_intr_complete_event l s = Some v"
    using worker_intr_complete_total [OF assms(1,4)] by blast
  have "sched_inv (if line_INIT s then insert r E else E) t" by (rule INTR_sched_inv [OF assms(1) b(3) t])
  moreover have "sched_inv E u"
    by (rule cancel_INTR_sched_inv [OF assms(1) _ _ _ u]) (use b assms(3) in \<open>simp_all add: own_slot_def\<close>)
  moreover have "sched_inv E v" by (rule worker_intr_complete_sched_inv [OF assms(1) _ v]) (use assms(4) in simp)
  ultimately show ?thesis using t u v by blast
qed

subsection \<open>Runs\<close>

text \<open>
  The operations as steps. Their callers have to respect what the code leaves to them: a device changes and
  reuses a request, or starts a DMA with it, only while the request is not scheduled, and cancels an interrupt only if no
  other request has its slot. Where the code checks the rest with an assertion, a step is one that passes it. The PRU writes
  its mailbox between any two operations.

  \<open>INTR\<close> while INIT is asserted marks its request complete and returns, even if the request is
  scheduled; the first argument of a step is the set of the requests marked so.
\<close>

inductive adapter_step :: "req_id set \<Rightarrow> adapter_state \<Rightarrow> adapter_state \<Rightarrow> bool" where
  device_setup: "\<not> scheduled s r \<Longrightarrow> adapter_step {} s (upd_request r f s)"
| dma: "\<lbrakk>req_class (request_of s r) = Dma_request; \<not> scheduled s r; DMA r cycle addr buf words s = Some t\<rbrakk>
        \<Longrightarrow> adapter_step {} s t"
| cpu_transfer: "\<lbrakk>req_class (request_of s r) = Dma_request; \<not> scheduled s r;
        cpu_DATA_transfer r cycle addr buf s = Some t\<rbrakk> \<Longrightarrow> adapter_step {} s t"
| cpu_poll: "cpu_dma_poll r event s = Some (over, t) \<Longrightarrow> adapter_step {} s t"
| intr: "\<lbrakk>req_class (request_of s r) = Intr_request; INTR r ireg value s = Some t\<rbrakk>
        \<Longrightarrow> adapter_step (if line_INIT s then {r} else {}) s t"
| cancel: "\<lbrakk>level_index (request_of s r) < 4; own_slot r s; cancel_INTR r s = Some t\<rbrakk> \<Longrightarrow> adapter_step {} s t"
| pru_dma: "adapter_step {} s (s\<lparr>mbox_dma := mb\<rparr>)"
| dma_event: "worker_device_dma_chunk_complete_event s = Some t \<Longrightarrow> adapter_step {} s t"
| intr_event: "\<lbrakk>l < 4; worker_intr_complete_event l s = Some t\<rbrakk> \<Longrightarrow> adapter_step {} s t"
| init_line: "adapter_step {} s (s\<lparr>line_INIT := b\<rparr>)"
| abort: "adapter_step {} s (requests_abort_all s)"
| init_changed: "adapter_step {} s (adapter_on_init_changed s)"

text \<open>\<open>E\<close> are the requests that are scheduled and that \<open>INTR\<close> was called for during INIT since they are.\<close>

inductive adapter_reachable :: "req_id set \<Rightarrow> adapter_state \<Rightarrow> bool" where
  start: "adapter_reachable {} (requests_init s)"
| step: "\<lbrakk>adapter_reachable E s; adapter_step M s t\<rbrakk> \<Longrightarrow> adapter_reachable {r \<in> E \<union> M. scheduled t r} t"

lemma cpu_DATA_transfer_sched_inv:
  assumes "sched_inv E s" "req_class (request_of s r) = Dma_request" "\<not> scheduled s r"
    "cpu_DATA_transfer r cycle addr buf s = Some t"
  shows "sched_inv E t"
  using assms sched_inv_upd_request [OF assms(1,3)] unfolding cpu_DATA_transfer_def
  by (elim DMA_sched_inv [rotated 3]) (simp_all add: scheduled_cong [of "upd_request r f s" s for f])

lemma cpu_dma_poll_sched_inv:
  "sched_inv E s \<Longrightarrow> cpu_dma_poll r event s = Some (over, t) \<Longrightarrow> sched_inv E t"
  by (auto simp: cpu_dma_poll_def Let_def Option.bind_eq_Some_conv split: if_splits
      intro: worker_device_dma_chunk_complete_sched_inv)

lemma adapter_step_sched_inv:
  assumes "adapter_step M s t" "sched_inv E s"
  shows "sched_inv (E \<union> M) t"
  using assms
proof (induction rule: adapter_step.induct)
  case (cancel s r t)
  then have "sched_inv E t" by (intro cancel_INTR_sched_inv [of E s r t]) (auto simp: own_slot_def)
  then show ?case by simp
next
  case (pru_dma s mb)
  then have "sched_inv E (s\<lparr>mbox_dma := mb\<rparr>)" by (rule sched_inv_cong [rotated 2]) simp_all
  then show ?case by simp
next
  case (init_line s b)
  then have "sched_inv E (s\<lparr>line_INIT := b\<rparr>)" by (rule sched_inv_cong [rotated 2]) simp_all
  then show ?case by simp
next
  case (intr_event l s t)
  then have "sched_inv E t" by (intro worker_intr_complete_sched_inv [of E s l t]) auto
  then show ?case by simp
next
  case (intr s r ireg v t)
  then show ?case using INTR_sched_inv [of E s r ireg v t] by (cases "line_INIT s") simp_all
qed (auto intro: sched_inv_upd_request DMA_sched_inv cpu_DATA_transfer_sched_inv cpu_dma_poll_sched_inv
    worker_device_dma_chunk_complete_sched_inv requests_abort_all_sched_inv adapter_on_init_changed_sched_inv)

lemma reachable_sched_inv: "adapter_reachable E s \<Longrightarrow> sched_inv E s"
proof (induction rule: adapter_reachable.induct)
  case (step E s M t)
  then show ?case using sched_inv_drop [OF adapter_step_sched_inv] by blast
qed (rule requests_init_sched_inv)

text \<open>
  Property C1. In every state the adapter reaches by the operations of devices, CPU and PRU, in any order, with and
  without INIT, each level's table is consistent: the mask has a bit for every occupied slot, a request is active
  exactly when a slot is occupied and sits in the slot it names, every scheduled request names its level and slot, an
  interrupt is executing exactly while it is the active one, and no scheduled request is complete, except
  an interrupt that was raised again while INIT was asserted. It is assumed of the
  callers, and not checked by the code, that a device changes a request or starts a DMA with it only while the request is not
  scheduled, and cancels an interrupt only if its slot is not another request's; an operation that fails an assertion ends the run.
\<close>

theorem reachable_tables_consistent:
  assumes "adapter_reachable E s" "l < 5" "slot < 32"
  shows "(bit (slot_request_mask (request_levels s l)) slot \<longleftrightarrow> slot_request (request_levels s l) slot \<noteq> None) \<and>
    (active (request_levels s l) = None \<longleftrightarrow> (\<forall>k<32. slot_request (request_levels s l) k = None)) \<and>
    (\<forall>r. active (request_levels s l) = Some r \<longrightarrow>
       slot_request (request_levels s l) (priority_slot (request_of s r)) = Some r \<and>
       executing_on_PRU (request_of s r)) \<and>
    (\<forall>r. slot_request (request_levels s l) slot = Some r \<longrightarrow>
       level_index (request_of s r) = l \<and> priority_slot (request_of s r) = slot \<and>
       (r \<in> E \<or> \<not> complete (request_of s r)) \<and>
       (l < 4 \<longrightarrow> (executing_on_PRU (request_of s r) \<longleftrightarrow> active (request_levels s l) = Some r)))"
proof -
  from sched_invD [OF reachable_sched_inv [OF assms(1)] assms(2)]
  have ok: "table_ok E s l" and mm: "mask_matches_active (request_levels s l)" by auto
  have empty: "slot_request_mask (request_levels s l) = 0 \<longleftrightarrow> (\<forall>k<32. slot_request (request_levels s l) k = None)"
    using table_ok_mask [OF ok] by (simp add: word32_zero_iff del: not_None_eq)
  have act: "slot_request (request_levels s l) (priority_slot (request_of s r)) = Some r \<and>
      executing_on_PRU (request_of s r)" if "active (request_levels s l) = Some r" for r
    using table_ok_active [OF ok that] table_okD(5) [OF ok, of "priority_slot (request_of s r)" r] that
    by (simp add: exec_ok_def)
  have slot: "level_index (request_of s r) = l \<and> priority_slot (request_of s r) = slot \<and>
       (r \<in> E \<or> \<not> complete (request_of s r)) \<and>
       (l < 4 \<longrightarrow> (executing_on_PRU (request_of s r) \<longleftrightarrow> active (request_levels s l) = Some r))"
    if "slot_request (request_levels s l) slot = Some r" for r
    using table_okD(1,2,4,5) [OF ok assms(3) that] by (auto simp: exec_ok_def)
  show ?thesis
    using table_ok_mask [OF ok assms(3)] mm [unfolded mask_matches_active_def empty] act slot
    by (intro conjI allI impI) (simp_all only: simp_thms)
qed

text \<open>
  When the PRU reports the end of an interrupt, the request it was executing is
  completed and leaves its slot, and the next request started is the one in the lowest
  occupied slot of that level (none if the level is empty).
\<close>

theorem intr_complete_starts_lowest_slot:
  assumes "sched_inv {} s" "l < 4" "active (request_levels s l) = Some r"
    "worker_intr_complete_event l s = Some t"
  shows "complete (request_of t r) \<and> \<not> scheduled t r \<and>
    (case active (request_levels t l) of
       None \<Rightarrow> \<forall>k<32. slot_request (request_levels t l) k = None
     | Some q \<Rightarrow> executing_on_PRU (request_of t q) \<and>
         slot_request (request_levels t l) (priority_slot (request_of t q)) = Some q \<and>
         (\<forall>k < priority_slot (request_of t q). slot_request (request_levels t l) k = None))"
proof -
  have l5: "l < 5" using assms(2) by simp
  have ok: "table_ok {} s k" if "k < 5" for k using sched_invD [OF assms(1) that] by blast
  have inv: "sched_inv {} t" by (rule worker_intr_complete_sched_inv [OF assms(1) l5 assms(4)])
  have okt: "table_ok {} t l" and mmt: "mask_matches_active (request_levels t l)" using sched_invD [OF inv l5] by auto
  let ?slot = "priority_slot (request_of s r)"
  let ?u = "upd_request r (\<lambda>rq. rq\<lparr>executing_on_PRU := False, complete := True\<rparr>) (removed l ?slot s)"
  have u: "request_active_complete l True s = Some ?u"
    using request_active_complete_effect [OF ok [OF l5] l5, of True] assms(3) by simp
  with assms(4) have e: "activate_and_execute l ?u = Some t" by (simp add: worker_intr_complete_event_def)
  from request_active_complete_ok [OF ok l5 u] l5
  have oku: "table_ok {} ?u l" and nau: "active (request_levels ?u l) = None" by blast+
  have cases: "(request_of t = request_of ?u \<and> active (request_levels t l) = None) \<or>
     (\<exists>slot q rq. lowest_slot (request_levels ?u l) slot \<and> slot_request (request_levels ?u l) slot = Some q \<and>
        request_of t = (request_of ?u)(q := rq) \<and> complete rq = complete (request_of ?u q) \<and>
        slot_request (request_levels t l) = slot_request (request_levels ?u l) \<and>
        active (request_levels t l) = Some q)"
    using activate_defined [OF oku nau]
  proof (elim disjE conjE exE)
    assume "request_activate_lowest_slot l ?u = Some (None, ?u)"
    with e nau show ?thesis by (simp add: activate_and_execute_def)
  next
    fix slot q
    assume a: "lowest_slot (request_levels ?u l) slot" "slot_request (request_levels ?u l) slot = Some q"
      "request_activate_lowest_slot l ?u = Some (Some q, upd_level l (\<lambda>prl. prl\<lparr>active := Some q\<rparr>) ?u)"
    with e have "request_execute_active_on_PRU l (upd_level l (\<lambda>prl. prl\<lparr>active := Some q\<rparr>) ?u) = Some t"
      by (simp add: activate_and_execute_def)
    then obtain q' rq where f: "active (request_levels (upd_level l (\<lambda>prl. prl\<lparr>active := Some q\<rparr>) ?u) l) = Some q'"
      "request_levels t = request_levels (upd_level l (\<lambda>prl. prl\<lparr>active := Some q\<rparr>) ?u)"
      "request_of t = (request_of (upd_level l (\<lambda>prl. prl\<lparr>active := Some q\<rparr>) ?u))(q' := rq)"
      "rq = (request_of (upd_level l (\<lambda>prl. prl\<lparr>active := Some q\<rparr>) ?u) q')\<lparr>chunk_words := chunk_words rq, executing_on_PRU := True\<rparr>"
      by (rule execute_effect)
    from f(1) have q': "q' = q" by simp
    have "complete rq = complete (request_of ?u q)" by (subst f(4)) (simp add: q')
    with a(1,2) f(2,3) q' show ?thesis by (intro disjI2 exI [of _ slot] exI [of _ q] exI [of _ rq]) simp
  qed
  have "complete (request_of ?u r)" by simp
  then have cr: "complete (request_of t r)" using cases by (elim disjE conjE exE) (simp_all only: fun_upd_apply if_cancel split: if_split, simp_all)
  then have "\<not> scheduled t r" using sched_invD [OF inv] table_okD(4) by (fastforce simp: scheduled_def)
  moreover have "case active (request_levels t l) of
       None \<Rightarrow> \<forall>k<32. slot_request (request_levels t l) k = None
     | Some q \<Rightarrow> executing_on_PRU (request_of t q) \<and>
         slot_request (request_levels t l) (priority_slot (request_of t q)) = Some q \<and>
         (\<forall>k < priority_slot (request_of t q). slot_request (request_levels t l) k = None)"
  proof (cases "active (request_levels t l)")
    case None
    with mmt have "slot_request_mask (request_levels t l) = 0" by (simp add: mask_matches_active_def)
    with None table_ok_mask [OF okt] show ?thesis by (simp del: not_None_eq)
  next
    case (Some q)
    with cases obtain slot where low: "lowest_slot (request_levels t l) slot" "slot_request (request_levels t l) slot = Some q"
      by (auto simp: lowest_slot_def)
    then have "slot < 32" by (simp add: lowest_slot_def)
    from table_okD(2,5) [OF okt this low(2)] Some low show ?thesis
      by (simp add: lowest_slot_def exec_ok_def)
  qed
  ultimately show ?thesis using cr by blast
qed

subsection \<open>A concrete run\<close>

definition sample_adapter :: adapter_state where
  "sample_adapter = \<lparr>device = device sample_iopage, devices = (\<lambda>_. None), register_handles = (\<lambda>_. 0),
     pru_registers = pru_registers sample_iopage, register_by_handle = (\<lambda>_. None),
     iopage_start_addr = 0x3e000, addr_space_byte_count = 0x40000,
     registered_cpu = None, arm2pru_log = [], bus = UNIBUS,
     request_of = (\<lambda>r. if r < 8 then sample_request\<lparr>priority_slot := r + 5\<rparr>
        else sample_request\<lparr>req_class := Dma_request, level_index := 4\<rparr>),
     request_levels = (\<lambda>_. \<lparr>slot_request = (\<lambda>_. None), slot_request_mask = 0, active = None\<rparr>),
     mbox_dma = \<lparr>cur_status = 0, buscycle = 0, mbox_wordcount = 0, cpu_access = False, cur_addr = 0,
        startaddr = 0, mbox_words = replicate 4096 0\<rparr>,
     mbox_intr = \<lparr>mbox_vector = (\<lambda>_. 0), priority_arbitration_bit = 0, mbox_level_index = 0,
        iopage_register_value = 0, iopage_register_handle = 0\<rparr>,
     line_INIT = False, line_DCLO = False, line_ACLO = False\<rparr>"

abbreviation sample_start :: adapter_state where "sample_start \<equiv> requests_init sample_adapter"

lemma sample_start_sel:
  "request_of sample_start r = (if r < 8 then sample_request\<lparr>priority_slot := r + 5\<rparr>
     else sample_request\<lparr>req_class := Dma_request, level_index := 4\<rparr>)"
  "slot_request (request_levels sample_start l) slot = None"
  "\<not> line_INIT sample_start"
  by (simp_all add: requests_init_def sample_adapter_def cleared_level_def)

lemma sample_start_args: "r < 8 \<Longrightarrow> intr_args_ok r None sample_start \<and> own_slot r sample_start"
  by (simp add: intr_args_ok_def own_slot_def sample_start_sel sample_request_def)

theorem interrupt_operations_never_fail_witness:
  "\<exists>t u v. INTR 0 None 7 sample_start = Some t \<and> sched_inv {} t \<and>
    cancel_INTR 0 sample_start = Some u \<and> sched_inv {} u \<and>
    worker_intr_complete_event 1 sample_start = Some v \<and> sched_inv {} v"
  using interrupt_operations_never_fail [OF requests_init_sched_inv [of "{}" sample_adapter], of 0 None 1 7]
    sample_start_args [of 0] sample_start_sel(3) by simp

text \<open>Two requests of level 5 raised one after the other, the second in the lower slot.\<close>

lemma builtin_ffs_slot_5: "builtin_ffs (slot_bit 5) = Suc 5" "slot_bit 5 \<noteq> 0"
  by code_simp+

lemma sample_start_level:
  "request_levels sample_start l = \<lparr>slot_request = (\<lambda>_. None), slot_request_mask = 0, active = None\<rparr>"
  by (simp add: requests_init_def sample_adapter_def cleared_level_def fun_eq_iff)

lemma sample_raised: "\<exists>t. INTR 0 None 7 sample_start = Some t \<and> active (request_levels t 1) = Some 0 \<and>
    priority_slot (request_of t 0) = 5"
proof -
  let ?rq = "(request_of sample_start 0)\<lparr>complete := False, executing_on_PRU := False,
      interrupt_register := None, interrupt_register_value := 7\<rparr>"
  have p: "intr_prepare 0 None 7 sample_start = Some (upd_request 0 (\<lambda>_. ?rq) sample_start)"
    by (simp add: intr_prepare_def upd_request_def)
  show ?thesis
    by (simp add: INTR_def Let_def sample_start_sel(1,3) sample_start_level sample_request_def p schedule_and_start_def
        request_schedule_def request_activate_lowest_slot_def builtin_ffs_slot_5 mask_matches_active_def
        request_execute_active_on_PRU_def execute_intr_on_PRU_def)
qed

theorem reachable_tables_consistent_witness:
  "\<exists>t. INTR 0 None 7 sample_start = Some t \<and> slot_request (request_levels t 1) 5 = Some 0 \<and>
     bit (slot_request_mask (request_levels t 1)) 5 \<and> executing_on_PRU (request_of t 0)"
proof -
  from sample_raised obtain t where t: "INTR 0 None 7 sample_start = Some t" "active (request_levels t 1) = Some 0"
    "priority_slot (request_of t 0) = 5" by blast
  have c: "req_class (request_of sample_start 0) = Intr_request" "\<not> line_INIT sample_start"
    by (simp_all add: sample_start_sel sample_request_def)
  from adapter_reachable.step [OF adapter_reachable.start adapter_step.intr [OF c(1) t(1)]]
  have r: "adapter_reachable {} t" using c(2) by simp
  have l: "(1 :: nat) < 5" "(5 :: nat) < 32" by simp_all
  note P = reachable_tables_consistent [OF r l(1)]
  have p: "slot_request (request_levels t 1) (priority_slot (request_of t 0)) = Some 0"
    "executing_on_PRU (request_of t 0)" using P [OF l(2)] t(2) by blast+
  with t(3) P [OF l(2)] t(1) show ?thesis by auto
qed

theorem intr_complete_starts_lowest_slot_witness:
  "\<exists>t u. INTR 0 None 7 sample_start = Some t \<and> worker_intr_complete_event 1 t = Some u \<and>
     complete (request_of u 0) \<and> \<not> scheduled u 0"
proof -
  from sample_raised obtain t where t: "INTR 0 None 7 sample_start = Some t" "active (request_levels t 1) = Some 0"
    "priority_slot (request_of t 0) = 5" by blast
  have c: "req_class (request_of sample_start 0) = Intr_request" by (simp add: sample_start_sel sample_request_def)
  have inv: "sched_inv {} t" using INTR_sched_inv [OF requests_init_sched_inv [of "{}"] c t(1)] sample_start_sel(3) by simp
  obtain u where u: "worker_intr_complete_event 1 t = Some u" using worker_intr_complete_total [OF inv, of 1] by auto
  from intr_complete_starts_lowest_slot [OF inv _ t(2) u] t(1) u show ?thesis by auto
qed

text \<open>An interrupt raised while INIT is asserted is complete at once, also if it is scheduled, and stays scheduled.\<close>

lemma INTR_under_INIT_completes:
  assumes "line_INIT s" "INTR r ireg v s = Some t"
  shows "complete (request_of t r) \<and> (scheduled t r \<longleftrightarrow> scheduled s r)"
proof -
  have "t = upd_request r (\<lambda>rq. rq\<lparr>complete := True\<rparr>) s" using assms by (auto simp: INTR_def Let_def split: if_splits)
  then have "request_levels t = request_levels s" "complete (request_of t r)" by simp_all
  then show ?thesis using scheduled_cong [of t s r] by blast
qed

text \<open>
  A DMA a device starts while INIT is asserted transfers nothing and is complete at
  once, but its success flag keeps the value of the request's previous transfer: a device that
  tests it after a transfer that once worked takes the unchanged buffer for data.
\<close>

theorem DMA_under_INIT_keeps_old_success:
  assumes "line_INIT s" "DMA r cycle addr buf words s = Some t"
  shows "complete (request_of t r) \<and> success (request_of t r) = success (request_of s r) \<and>
    buffer (request_of t r) = buffer (request_of s r) \<and> request_levels t = request_levels s \<and>
    arm2pru_log t = arm2pru_log s"
  using assms by (auto simp: DMA_def upd_request_def split: if_splits)

theorem DMA_under_INIT_keeps_old_success_witness:
  "\<exists>s t. line_INIT s \<and> DMA 0 QUNIBUS_CYCLE_DATI 0 [0] 1 (s :: adapter_state) = Some t \<and> success (request_of t 0)"
proof -
  let ?s = "sample_adapter\<lparr>line_INIT := True, addr_space_byte_count := 0x40000,
    request_of := (request_of sample_adapter)(0 := (request_of sample_adapter 0)
      \<lparr>req_class := Dma_request, level_index := 4, priority_slot := 3, is_cpu_access := False, success := True\<rparr>)\<rparr>"
  have i: "line_INIT ?s" by simp
  obtain t where t: "DMA 0 QUNIBUS_CYCLE_DATI 0 [0] 1 ?s = Some t" by (simp add: DMA_def)
  from DMA_under_INIT_keeps_old_success [OF i t] have "success (request_of t 0)" by simp
  with i t show ?thesis by blast
qed

end
