(* ===== verification/Event_Worker.thy ===== *)
theory Event_Worker
  imports Scheduler_Runs
begin

text \<open>
  The worker of \<^verbatim>\<open>arm/qunibusadapter.cpp\<close>: how the PRU's events reach the
  devices. One round looks at the pending events in a fixed order, handles each and
  acknowledges it; rounds repeat while events are found.

  The devices' virtual functions are a parameter, the record \<open>device_logic\<close>: each takes
  the device and the state and gives the new state, or \<^theory_text>\<open>None\<close> where it fails
  an assertion. An event is pending where the code finds it not acknowledged: the pair of 8 bit counters
  \<^verbatim>\<open>signaled\<close> and \<^verbatim>\<open>acked\<close> of \<^verbatim>\<open>mailbox.h\<close> is one truth value, which stands for their being different. A difference that
  wraps around to zero, after 256 INIT or power events in one round of the worker, is not modelled.
\<close>

datatype DATO_ACCESS = DATO_WORD | DATO_BYTEL | DATO_BYTEH
datatype signal_edge = SIGNAL_EDGE_NONE | SIGNAL_EDGE_RAISING | SIGNAL_EDGE_FALLING

record worker_state = adapter_state +
  ev_init :: bool
  init_signal_cur :: bool
  ev_power :: bool
  power_signals_cur :: u8
  ev_deviceregister :: bool
  ev_register_handle :: nat
  ev_addr :: u32
  ev_data :: u16
  ev_control :: u8
  ev_dma :: bool
  ev_intr_master :: "nat \<Rightarrow> bool"
  ev_intr_slave :: bool
  ev_intr_slave_vector :: u16

record device_logic =
  on_after_register_access :: "dev_id \<Rightarrow> nat \<Rightarrow> u8 \<Rightarrow> DATO_ACCESS \<Rightarrow> worker_state \<Rightarrow> worker_state option"
  on_init_changed :: "dev_id \<Rightarrow> worker_state \<Rightarrow> worker_state option"
  on_power_changed :: "signal_edge \<Rightarrow> signal_edge \<Rightarrow> dev_id \<Rightarrow> worker_state \<Rightarrow> worker_state option"
  on_interrupt :: "u16 \<Rightarrow> dev_id \<Rightarrow> worker_state \<Rightarrow> worker_state option"

definition INITIALIZATIONSIGNAL_ACLO :: u8 where "INITIALIZATIONSIGNAL_ACLO = 0x10"
definition INITIALIZATIONSIGNAL_DCLO :: u8 where "INITIALIZATIONSIGNAL_DCLO = 0x20"
definition INITIALIZATIONSIGNAL_POK :: u8 where "INITIALIZATIONSIGNAL_POK = 0x08"
definition INITIALIZATIONSIGNAL_DCOK :: u8 where "INITIALIZATIONSIGNAL_DCOK = 0x10"

subsection \<open>INIT and power\<close>

text \<open>The loops over the backplane: every plugged device, by ascending handle.\<close>

fun notify_devices ::
    "(dev_id \<Rightarrow> worker_state \<Rightarrow> worker_state option) \<Rightarrow> nat list \<Rightarrow> worker_state \<Rightarrow> worker_state option" where
  "notify_devices f [] s = Some s"
| "notify_devices f (h # hs) s =
     (case devices s h of
        None \<Rightarrow> notify_devices f hs s
      | Some d \<Rightarrow> do { s' \<leftarrow> f d s; notify_devices f hs s' })"

definition notify_init :: "device_logic \<Rightarrow> dev_id \<Rightarrow> worker_state \<Rightarrow> worker_state option" where
  "notify_init L d s = on_init_changed L d (upd_device d (\<lambda>dev. dev\<lparr>init_asserted := line_INIT s\<rparr>) s)"

definition worker_init_event :: "device_logic \<Rightarrow> worker_state \<Rightarrow> worker_state option" where
  "worker_init_event L s =
     map_option requests_abort_all (notify_devices (notify_init L) [0..<Suc MAX_DEVICE_HANDLE] s)"

definition worker_power_event ::
    "device_logic \<Rightarrow> signal_edge \<Rightarrow> signal_edge \<Rightarrow> worker_state \<Rightarrow> worker_state option" where
  "worker_power_event L aclo_edge dclo_edge s =
     map_option (\<lambda>s'. if dclo_edge = SIGNAL_EDGE_RAISING then requests_abort_all s' else s')
       (notify_devices (on_power_changed L aclo_edge dclo_edge) [0..<Suc MAX_DEVICE_HANDLE] s)"

subsection \<open>Register accesses\<close>

text \<open>
  The flipflop a DATO or DATOB leaves in an active register, and the access type and bus
  cycle the device is told. Bytes are merged into the value written before.
\<close>

definition dato_flipflops :: "u8 \<Rightarrow> u32 \<Rightarrow> u16 \<Rightarrow> device_register \<Rightarrow> u16" where
  "dato_flipflops control addr data r =
     (if control = QUNIBUS_CYCLE_DATO then data AND writable_bits r
      else if control = QUNIBUS_CYCLE_DATOB then
        (if addr AND 1 \<noteq> 0
         then (active_dato_flipflops r AND 0x00ff) OR ((data AND writable_bits r) AND 0xff00)
         else (active_dato_flipflops r AND 0xff00) OR ((data AND writable_bits r) AND 0x00ff))
      else active_dato_flipflops r)"

definition dato_access :: "u8 \<Rightarrow> u32 \<Rightarrow> DATO_ACCESS" where
  "dato_access control addr =
     (if control = QUNIBUS_CYCLE_DATOB then (if addr AND 1 \<noteq> 0 then DATO_BYTEH else DATO_BYTEL)
      else DATO_WORD)"

definition dato_control :: "u8 \<Rightarrow> u8" where
  "dato_control control = (if control = QUNIBUS_CYCLE_DATOB then QUNIBUS_CYCLE_DATO else control)"

text \<open>What a DATO does to the register itself, before the device is told.\<close>

definition dato_to_register ::
    "dev_id \<Rightarrow> nat \<Rightarrow> u8 \<Rightarrow> u32 \<Rightarrow> u16 \<Rightarrow> 'a iopage_state_scheme \<Rightarrow> 'a iopage_state_scheme option" where
  "dato_to_register d i control addr data s =
     (let r = the_reg d i s in
      case pru_link r of
        None \<Rightarrow> None
      | Some p \<Rightarrow> Some (upd_register d i (\<lambda>r. r\<lparr>active_dato_flipflops := dato_flipflops control addr data r\<rparr>)
                    (upd_pru_register p (\<lambda>pr. pr\<lparr>pru_value := active_dati_flipflops r\<rparr>) s)))"

definition worker_deviceregister_event :: "device_logic \<Rightarrow> worker_state \<Rightarrow> worker_state option" where
  "worker_deviceregister_event L s =
     do { assert_that (0 < ev_register_handle s \<and> ev_register_handle s \<noteq> IOPAGE_REGISTER_HANDLE_ROM);
          (d, i) \<leftarrow> register_by_handle s (ev_register_handle s);
          assert_that (bus s = QBUS \<longrightarrow> ev_addr s AND QUNIBUS_IOPAGE_ADDR_BITMASK \<noteq> 0);
          let addr = iopage_start_addr s + (ev_addr s AND 0x1fff);
          let control = ev_control s;
          (if active_on_dati (the_reg d i s) \<and> \<not> QUNIBUS_CYCLE_IS_DATO control
           then on_after_register_access L d i QUNIBUS_CYCLE_DATI DATO_WORD s
           else if active_on_dato (the_reg d i s) \<and> QUNIBUS_CYCLE_IS_DATO control
           then do { s1 \<leftarrow> dato_to_register d i control addr (ev_data s) s;
                     on_after_register_access L d i (dato_control control) (dato_access control addr) s1 }
           else Some s) }"

subsection \<open>One round of the worker\<close>

definition line_edge :: "bool \<Rightarrow> bool \<Rightarrow> signal_edge" where
  "line_edge old new = (if new \<and> \<not> old then SIGNAL_EDGE_RAISING
     else if old \<and> \<not> new then SIGNAL_EDGE_FALLING else SIGNAL_EDGE_NONE)"

text \<open>
  INIT. On UNIBUS it is a level: the falling edge is handled at once, the raising edge at
  the end of the round (the result tells). On QBUS it is a pulse, both edges are handled
  at once.
\<close>

definition round_init :: "device_logic \<Rightarrow> worker_state \<Rightarrow> (bool \<times> worker_state) option" where
  "round_init L s =
     (if \<not> ev_init s then Some (False, s)
      else case bus s of
        UNIBUS \<Rightarrow>
          (let edge = line_edge (line_INIT s) (init_signal_cur s);
               s1 = s\<lparr>line_INIT := init_signal_cur s\<rparr>
           in case edge of
                SIGNAL_EDGE_NONE \<Rightarrow> Some (False, s1\<lparr>ev_init := False\<rparr>)
              | SIGNAL_EDGE_FALLING \<Rightarrow>
                  do { s2 \<leftarrow> worker_init_event L s1; Some (False, s2\<lparr>ev_init := False\<rparr>) }
              | SIGNAL_EDGE_RAISING \<Rightarrow> Some (True, s1))
      | QBUS \<Rightarrow>
          do { s1 \<leftarrow> worker_init_event L (s\<lparr>line_INIT := True\<rparr>);
               s2 \<leftarrow> worker_init_event L (s1\<lparr>line_INIT := False\<rparr>);
               Some (False, s2\<lparr>ev_init := False\<rparr>) })"

definition power_lines :: "worker_state \<Rightarrow> bool \<times> bool" where
  "power_lines s = (case bus s of
     UNIBUS \<Rightarrow> (power_signals_cur s AND INITIALIZATIONSIGNAL_ACLO \<noteq> 0,
                power_signals_cur s AND INITIALIZATIONSIGNAL_DCLO \<noteq> 0)
   | QBUS \<Rightarrow> (power_signals_cur s AND INITIALIZATIONSIGNAL_POK = 0,
              power_signals_cur s AND INITIALIZATIONSIGNAL_DCOK = 0))"

definition round_power :: "device_logic \<Rightarrow> worker_state \<Rightarrow> worker_state option" where
  "round_power L s =
     (if \<not> ev_power s then Some s
      else let (aclo, dclo) = power_lines s;
               aclo_edge = line_edge (line_ACLO s) aclo;
               dclo_edge = line_edge (line_DCLO s) dclo;
               s1 = s\<lparr>line_ACLO := aclo, line_DCLO := dclo\<rparr>
           in do { s2 \<leftarrow> (if aclo_edge \<noteq> SIGNAL_EDGE_NONE \<or> dclo_edge \<noteq> SIGNAL_EDGE_NONE
                         then worker_power_event L aclo_edge dclo_edge s1 else Some s1);
                   Some (s2\<lparr>ev_power := False\<rparr>) })"

definition round_deviceregister :: "device_logic \<Rightarrow> worker_state \<Rightarrow> worker_state option" where
  "round_deviceregister L s =
     (if ev_deviceregister s \<and> \<not> ev_init s
      then do { s1 \<leftarrow> worker_deviceregister_event L s; Some (s1\<lparr>ev_deviceregister := False\<rparr>) }
      else Some s)"

definition round_dma :: "worker_state \<Rightarrow> worker_state option" where
  "round_dma s =
     (if ev_dma s \<and> \<not> cpu_access (mbox_dma s)
      then do { s1 \<leftarrow> worker_device_dma_chunk_complete_event s; Some (s1\<lparr>ev_dma := False\<rparr>) }
      else Some s)"

fun round_intr_master :: "nat list \<Rightarrow> worker_state \<Rightarrow> worker_state option" where
  "round_intr_master [] s = Some s"
| "round_intr_master (l # ls) s =
     (if ev_intr_master s l
      then do { s1 \<leftarrow> worker_intr_complete_event l s;
                round_intr_master ls (s1\<lparr>ev_intr_master := (ev_intr_master s1)(l := False)\<rparr>) }
      else round_intr_master ls s)"

definition round_intr_slave :: "device_logic \<Rightarrow> worker_state \<Rightarrow> worker_state option" where
  "round_intr_slave L s =
     (if ev_intr_slave s
      then do { cpu \<leftarrow> registered_cpu s;
                s1 \<leftarrow> on_interrupt L (ev_intr_slave_vector s) cpu s;
                Some (s1\<lparr>ev_intr_slave := False\<rparr>) }
      else Some s)"

definition round_init_raising :: "device_logic \<Rightarrow> bool \<Rightarrow> worker_state \<Rightarrow> worker_state option" where
  "round_init_raising L raising s =
     (if raising then do { s1 \<leftarrow> worker_init_event L s; Some (s1\<lparr>ev_init := False\<rparr>) } else Some s)"

definition worker_round :: "device_logic \<Rightarrow> worker_state \<Rightarrow> worker_state option" where
  "worker_round L s =
     do { (raising, s1) \<leftarrow> round_init L s;
          s2 \<leftarrow> round_power L s1;
          s3 \<leftarrow> round_deviceregister L s2;
          s4 \<leftarrow> round_dma s3;
          s5 \<leftarrow> round_intr_master [0..<4] s4;
          s6 \<leftarrow> round_intr_slave L s5;
          round_init_raising L raising s6 }"

text \<open>The events a round finds: the flag \<^verbatim>\<open>any_event\<close>.\<close>

definition any_event :: "worker_state \<Rightarrow> bool" where
  "any_event s \<longleftrightarrow> ev_init s \<or> ev_power s \<or> (ev_deviceregister s \<and> \<not> ev_init s) \<or>
     (ev_dma s \<and> \<not> cpu_access (mbox_dma s)) \<or> (\<exists>l \<in> set [0..<4]. ev_intr_master s l) \<or> ev_intr_slave s"

subsection \<open>Register accesses keep read and write values apart\<close>

definition addressed_bits :: "u8 \<Rightarrow> u32 \<Rightarrow> u16" where
  "addressed_bits control addr =
     (if control = QUNIBUS_CYCLE_DATO then 0xffff
      else if control = QUNIBUS_CYCLE_DATOB then (if addr AND 1 \<noteq> 0 then 0xff00 else 0x00ff) else 0)"

lemma bit_00ff: "bit (0x00ff :: u16) n \<longleftrightarrow> n < 8"
proof -
  have "(0x00ff :: u16) = mask 8" by (simp add: mask_eq_exp_minus_1)
  then show ?thesis by (simp only: bit_mask_iff) auto
qed

lemma bit_ff00: "bit (0xff00 :: u16) n \<longleftrightarrow> 8 \<le> n \<and> n < 16"
proof -
  have "(0xff00 :: u16) = push_bit 8 (mask 8)" by (simp add: mask_eq_exp_minus_1)
  then show ?thesis by (simp only: bit_push_bit_iff bit_mask_iff) auto
qed

lemma bit_ffff: "bit (0xffff :: u16) n \<longleftrightarrow> n < 16"
proof -
  have "(0xffff :: u16) = mask 16" by (simp add: mask_eq_exp_minus_1)
  then show ?thesis by (simp only: bit_mask_iff) auto
qed

lemma bit_merge_bytes:
  assumes "k < 16"
  shows "bit ((x AND 0x00ff) OR (y AND 0xff00 :: u16)) k \<longleftrightarrow> (if k < 8 then bit x k else bit y k)"
    "bit ((x AND 0xff00) OR (y AND 0x00ff :: u16)) k \<longleftrightarrow> (if k < 8 then bit y k else bit x k)"
  using assms by (simp_all only: bit_or_iff bit_and_iff bit_00ff bit_ff00) auto

lemma bit_dato_flipflops:
  assumes "control \<in> {QUNIBUS_CYCLE_DATO, QUNIBUS_CYCLE_DATOB}" "k < 16"
  shows "bit (dato_flipflops control addr data r) k \<longleftrightarrow>
     (if bit (addressed_bits control addr) k then bit data k \<and> bit (writable_bits r) k
      else bit (active_dato_flipflops r) k)"
proof (cases "control = QUNIBUS_CYCLE_DATO")
  case True
  have "bit (addressed_bits control addr) k"
    using True assms(2) by (simp only: addressed_bits_def refl if_True bit_ffff)
  with True show ?thesis by (simp add: dato_flipflops_def bit_and_iff)
next
  case False
  with assms(1) have c: "control = QUNIBUS_CYCLE_DATOB" by simp
  have a: "bit (addressed_bits control addr) k \<longleftrightarrow> (if addr AND 1 \<noteq> 0 then 8 \<le> k else k < 8)"
    using False c assms(2)
    by (cases "addr AND 1 = 0") (simp_all only: addressed_bits_def if_True if_False simp_thms bit_00ff bit_ff00)
  show ?thesis
    using False c assms(2) unfolding a dato_flipflops_def
    by (cases "addr AND 1 = 0")
      (simp_all only: if_True if_False simp_thms bit_merge_bytes bit_and_iff, auto)
qed

lemma upd_register_reg [simp]:
  "the_reg e j (upd_register d i f s) = (if e = d \<and> j = i then f (the_reg d i s) else the_reg e j s)"
  "the_reg e j (upd_pru_register p g s) = the_reg e j s"
  "pru_registers (upd_pru_register p g s) = (pru_registers s)(p := g (pru_registers s p))"
  "pru_registers (upd_register d i f s) = pru_registers s"
  by (simp_all add: upd_register_def upd_device_def upd_pru_register_def)

text \<open>
  A DATO or DATOB to an active register leaves what the bus reads there exactly
  the device's read value, whatever was written; the device's write value takes the writable
  bits of the addressed byte or word and keeps the other byte; no other register of any device
  and no other register of the PRU changes.
\<close>

theorem dato_separates_read_and_write:
  assumes "dato_to_register d i control addr data s = Some t"
    and "control \<in> {QUNIBUS_CYCLE_DATO, QUNIBUS_CYCLE_DATOB}"
  shows "\<exists>p. pru_link (the_reg d i s) = Some p \<and>
     pru_value (pru_registers t p) = active_dati_flipflops (the_reg d i s) \<and>
     active_dati_flipflops (the_reg d i t) = active_dati_flipflops (the_reg d i s) \<and>
     (\<forall>k<16. bit (active_dato_flipflops (the_reg d i t)) k \<longleftrightarrow>
        (if bit (addressed_bits control addr) k then bit data k \<and> bit (writable_bits (the_reg d i s)) k
         else bit (active_dato_flipflops (the_reg d i s)) k)) \<and>
     (\<forall>e j. (e, j) \<noteq> (d, i) \<longrightarrow> the_reg e j t = the_reg e j s) \<and>
     (\<forall>q. q \<noteq> p \<longrightarrow> pru_registers t q = pru_registers s q)"
proof -
  obtain p where p: "pru_link (the_reg d i s) = Some p"
    using assms(1) by (auto simp: dato_to_register_def Let_def split: option.splits)
  then have t: "t = upd_register d i (\<lambda>r. r\<lparr>active_dato_flipflops := dato_flipflops control addr data r\<rparr>)
       (upd_pru_register p (\<lambda>pr. pr\<lparr>pru_value := active_dati_flipflops (the_reg d i s)\<rparr>) s)"
    using assms(1) by (simp add: dato_to_register_def Let_def)
  show ?thesis
    unfolding t using p bit_dato_flipflops [OF assms(2)] by (auto simp: fun_upd_def)
qed

text \<open>
  Writing a register's two bytes one after the other, in either order, leaves the
  same write value as writing the word at once.
\<close>

theorem byte_writes_make_a_word_write:
  assumes "lo AND 1 = 0" "hi AND 1 \<noteq> 0"
    "dato_to_register d i QUNIBUS_CYCLE_DATO lo data s = Some t"
    "dato_to_register d i QUNIBUS_CYCLE_DATOB lo data s = Some s1"
    "dato_to_register d i QUNIBUS_CYCLE_DATOB hi data s1 = Some t1"
    "dato_to_register d i QUNIBUS_CYCLE_DATOB hi data s = Some s2"
    "dato_to_register d i QUNIBUS_CYCLE_DATOB lo data s2 = Some t2"
  shows "active_dato_flipflops (the_reg d i t1) = active_dato_flipflops (the_reg d i t) \<and>
         active_dato_flipflops (the_reg d i t2) = active_dato_flipflops (the_reg d i t)"
proof -
  have ff: "active_dato_flipflops (the_reg d i y) = dato_flipflops c a data (the_reg d i x) \<and>
      writable_bits (the_reg d i y) = writable_bits (the_reg d i x)"
    if "dato_to_register d i c a data x = Some y" for c a and x y :: "'a iopage_state_scheme"
    using that by (auto simp: dato_to_register_def Let_def split: option.splits)
  note f = ff [OF assms(3)] ff [OF assms(4)] ff [OF assms(5)] ff [OF assms(6)] ff [OF assms(7)]
  have c: "QUNIBUS_CYCLE_DATOB \<noteq> QUNIBUS_CYCLE_DATO" by (simp add: QUNIBUS_CYCLE_DATOB_def QUNIBUS_CYCLE_DATO_def)
  have "bit (active_dato_flipflops (the_reg d i t1)) k = bit (active_dato_flipflops (the_reg d i t)) k \<and>
      bit (active_dato_flipflops (the_reg d i t2)) k = bit (active_dato_flipflops (the_reg d i t)) k"
    if k: "k < 16" for k
    using assms(1,2) c unfolding f [THEN conjunct1] f [THEN conjunct2] dato_flipflops_def
    by (simp only: if_True if_False simp_thms bit_merge_bytes [OF k] bit_and_iff f [THEN conjunct1] f [THEN conjunct2]) auto
  then show ?thesis by (auto intro!: bit_word_eqI)
qed

definition sample_iopage_linked :: iopage_state where
  "sample_iopage_linked = upd_register 1 0 (\<lambda>r. r\<lparr>pru_link := Some 3, writable_bits := 0xffff\<rparr>) sample_iopage"

lemma sample_linked: "dato_to_register 1 0 c a v sample_iopage_linked \<noteq> None"
  by (simp add: dato_to_register_def sample_iopage_linked_def Let_def)

theorem dato_separates_read_and_write_witness:
  "\<exists>t. dato_to_register 1 0 QUNIBUS_CYCLE_DATOB 1 0x1234 sample_iopage_linked = Some t \<and>
     pru_value (pru_registers t 3) = active_dati_flipflops (the_reg 1 0 sample_iopage_linked)"
proof -
  obtain t where t: "dato_to_register 1 0 QUNIBUS_CYCLE_DATOB 1 0x1234 sample_iopage_linked = Some t"
    using sample_linked [of QUNIBUS_CYCLE_DATOB 1 "0x1234"] by auto
  from dato_separates_read_and_write [OF t] t show ?thesis
    by (auto simp: sample_iopage_linked_def)
qed

theorem byte_writes_make_a_word_write_witness:
  "\<exists>t s1 t1. dato_to_register 1 0 QUNIBUS_CYCLE_DATO 0x3fec0 0x1234 sample_iopage_linked = Some t \<and>
     dato_to_register 1 0 QUNIBUS_CYCLE_DATOB 0x3fec0 0x1234 sample_iopage_linked = Some s1 \<and>
     dato_to_register 1 0 QUNIBUS_CYCLE_DATOB 0x3fec1 0x1234 s1 = Some t1 \<and>
     active_dato_flipflops (the_reg 1 0 t1) = active_dato_flipflops (the_reg 1 0 t)"
proof -
  let ?s = sample_iopage_linked
  have d: "\<exists>y. dato_to_register 1 0 c a v x = Some y \<and> pru_link (the_reg 1 0 y) \<noteq> None"
    if "pru_link (the_reg 1 0 x) \<noteq> None" for c a v and x :: iopage_state
    using that by (auto simp: dato_to_register_def Let_def split: option.splits)
  have l: "pru_link (the_reg 1 0 ?s) \<noteq> None" by (simp add: sample_iopage_linked_def)
  obtain t where t: "dato_to_register 1 0 QUNIBUS_CYCLE_DATO 0x3fec0 0x1234 ?s = Some t" using d [OF l] by blast
  obtain s1 where s1: "dato_to_register 1 0 QUNIBUS_CYCLE_DATOB 0x3fec0 0x1234 ?s = Some s1"
    "pru_link (the_reg 1 0 s1) \<noteq> None" using d [OF l] by blast
  obtain t1 where t1: "dato_to_register 1 0 QUNIBUS_CYCLE_DATOB 0x3fec1 0x1234 s1 = Some t1" using d [OF s1(2)] by blast
  obtain s2 where s2: "dato_to_register 1 0 QUNIBUS_CYCLE_DATOB 0x3fec1 0x1234 ?s = Some s2"
    "pru_link (the_reg 1 0 s2) \<noteq> None" using d [OF l] by blast
  obtain t2 where t2: "dato_to_register 1 0 QUNIBUS_CYCLE_DATOB 0x3fec0 0x1234 s2 = Some t2" using d [OF s2(2)] by blast
  show ?thesis
    using byte_writes_make_a_word_write [OF _ _ t s1(1) t1 s2(1) t2] t s1(1) t1 by auto
qed

subsection \<open>INIT and the other events\<close>

text \<open>
  On UNIBUS, a register access waits while the raising edge of INIT is pending:
  whatever the device would do on the access, the round does not depend on it.
\<close>

theorem register_access_waits_for_init:
  assumes "bus s = UNIBUS" "ev_init s" "init_signal_cur s" "\<not> line_INIT s" "\<not> ev_power s"
  shows "worker_round (L\<lparr>on_after_register_access := f\<rparr>) s = worker_round L s"
proof -
  have n: "notify_devices (notify_init (L\<lparr>on_after_register_access := f\<rparr>)) hs u =
      notify_devices (notify_init L) hs u" for hs u
  proof -
    have "notify_init (L\<lparr>on_after_register_access := f\<rparr>) = notify_init L"
      by (simp add: notify_init_def fun_eq_iff)
    then show ?thesis by simp
  qed
  have i: "worker_init_event (L\<lparr>on_after_register_access := f\<rparr>) = worker_init_event L"
    by (simp add: worker_init_event_def n fun_eq_iff)
  have "round_intr_slave (L\<lparr>on_after_register_access := f\<rparr>) = round_intr_slave L"
    "round_init_raising (L\<lparr>on_after_register_access := f\<rparr>) = round_init_raising L"
    by (auto simp: round_intr_slave_def round_init_raising_def i fun_eq_iff)
  with assms show ?thesis
    by (simp add: worker_round_def round_init_def line_edge_def Let_def round_power_def round_deviceregister_def i)
qed

text \<open>Devices that, told of INIT, do not touch the pending events.\<close>

definition init_keeps_events :: "device_logic \<Rightarrow> bool" where
  "init_keeps_events L \<longleftrightarrow> (\<forall>d s s'. on_init_changed L d s = Some s' \<longrightarrow>
     ev_dma s' = ev_dma s \<and> mbox_dma s' = mbox_dma s \<and> ev_power s' = ev_power s \<and>
     ev_deviceregister s' = ev_deviceregister s)"

lemma upd_device_sel [simp]:
  "ev_dma (upd_device d f s) = ev_dma s" "mbox_dma (upd_device d f (u :: 'a adapter_state_scheme)) = mbox_dma u"
  "ev_power (upd_device d f s) = ev_power s" "ev_deviceregister (upd_device d f s) = ev_deviceregister s"
  by (simp_all add: upd_device_def)

lemma notify_init_events:
  assumes "init_keeps_events L" "notify_devices (notify_init L) hs s = Some s'"
  shows "ev_dma s' = ev_dma s \<and> mbox_dma s' = mbox_dma s \<and> ev_power s' = ev_power s \<and>
     ev_deviceregister s' = ev_deviceregister s"
  using assms(2)
proof (induction hs arbitrary: s)
  case (Cons h hs)
  show ?case
  proof (cases "devices s h")
    case None
    with Cons show ?thesis by simp
  next
    case (Some d)
    with Cons.prems obtain s1 where s1: "notify_init L d s = Some s1" "notify_devices (notify_init L) hs s1 = Some s'"
      by (auto simp: Option.bind_eq_Some_conv)
    have "ev_dma s1 = ev_dma s \<and> mbox_dma s1 = mbox_dma s \<and> ev_power s1 = ev_power s \<and>
        ev_deviceregister s1 = ev_deviceregister s"
      using s1(1) assms(1) [unfolded init_keeps_events_def, rule_format, of d]
      unfolding notify_init_def by fastforce
    with Cons.IH [OF s1(2)] show ?thesis by simp
  qed
qed simp

text \<open>Aborting touches only tables and requests.\<close>

definition event_view :: "worker_state \<Rightarrow> bool \<times> bool \<times> bool \<times> mailbox_dma" where
  "event_view s = (ev_dma s, ev_power s, ev_deviceregister s, mbox_dma s)"

lemma event_view_upd [simp]:
  "event_view (upd_level l f s) = event_view s" "event_view (upd_request r g s) = event_view s"
  by (simp_all add: event_view_def upd_level_def upd_request_def)

lemma event_view_cancel_slots: "event_view (cancel_slots_from n k l s) = event_view s"
  by (induction n k l s rule: cancel_slots_from.induct) (auto split: option.splits)

lemma event_view_abort [simp]: "event_view (requests_abort_all s) = event_view s"
proof -
  have "event_view (fold cancel_level ls s) = event_view s" for ls
    by (induction ls arbitrary: s) (simp_all add: cancel_level_def event_view_cancel_slots)
  then have "event_view (requests_cancel_scheduled s) = event_view s"
    unfolding requests_cancel_scheduled_def .
  moreover have "event_view (requests_init u) = event_view u" for u
    by (simp add: requests_init_def event_view_def)
  ultimately show ?thesis by (simp add: requests_abort_all_def)
qed

lemma worker_init_event_view:
  assumes "init_keeps_events L" "worker_init_event L s = Some t"
  shows "event_view t = event_view s \<and> active (request_levels t 4) = None"
proof -
  from assms(2) obtain s' where s': "notify_devices (notify_init L) [0..<256] s = Some s'" "t = requests_abort_all s'"
    by (auto simp: worker_init_event_def)
  with notify_init_events [OF assms(1) s'(1)] show ?thesis
    using event_view_abort [of s'] abort_levels [of 4 s']
    by (simp add: event_view_def cleared_level_def)
qed

text \<open>
  On QBUS, INIT and the end of a DMA chunk found pending in the same round end the
  program: INIT empties the DMA table first, then the DMA event asserts that a DMA is active.
\<close>

theorem init_with_dma_event_fails:
  assumes "init_keeps_events L" "bus s = QBUS" "ev_init s" "ev_dma s" "\<not> cpu_access (mbox_dma s)"
    "\<not> ev_power s" "\<not> ev_deviceregister s"
  shows "worker_round L s = None"
proof (cases "round_init L s")
  case (Some p)
  with assms(2,3) obtain s1 s2 where
    s1: "worker_init_event L (s\<lparr>line_INIT := True\<rparr>) = Some s1" and
    s2: "worker_init_event L (s1\<lparr>line_INIT := False\<rparr>) = Some s2" and p: "p = (False, s2\<lparr>ev_init := False\<rparr>)"
    by (auto simp: round_init_def Option.bind_eq_Some_conv)
  have "event_view s2 = event_view s" "active (request_levels s2 4) = None"
    using worker_init_event_view [OF assms(1) s1] worker_init_event_view [OF assms(1) s2]
    by (simp_all add: event_view_def)
  then show ?thesis
    using assms(4-7) Some p
    by (simp add: worker_round_def event_view_def round_power_def round_deviceregister_def round_dma_def
        worker_device_dma_chunk_complete_event_def)
qed (simp add: worker_round_def)

definition sample_worker :: "bus_kind \<Rightarrow> worker_state" where
  "sample_worker b = adapter_state.extend (sample_adapter\<lparr>bus := b\<rparr>)
     (worker_state.fields True True False 0 True 1 0 0 0 True (\<lambda>_. False) False 0)"

lemma sample_worker_sel:
  "bus (sample_worker b) = b" "ev_init (sample_worker b)" "init_signal_cur (sample_worker b)"
  "\<not> line_INIT (sample_worker b)" "\<not> ev_power (sample_worker b)" "ev_dma (sample_worker b)"
  "ev_deviceregister (sample_worker b)" "\<not> cpu_access (mbox_dma (sample_worker b))"
  by (simp_all add: sample_worker_def adapter_state.defs worker_state.defs sample_adapter_def)

definition idle_logic :: device_logic where
  "idle_logic = \<lparr>on_after_register_access = (\<lambda>_ _ _ _. Some), on_init_changed = (\<lambda>_. Some),
     on_power_changed = (\<lambda>_ _ _. Some), on_interrupt = (\<lambda>_ _. Some)\<rparr>"

theorem register_access_waits_for_init_witness:
  "worker_round (idle_logic\<lparr>on_after_register_access := (\<lambda>_ _ _ _ _. None)\<rparr>) (sample_worker UNIBUS) =
   worker_round idle_logic (sample_worker UNIBUS)"
  by (rule register_access_waits_for_init) (simp_all add: sample_worker_sel)

theorem init_with_dma_event_fails_witness:
  "worker_round idle_logic (sample_worker QBUS\<lparr>ev_deviceregister := False\<rparr>) = None"
  by (rule init_with_dma_event_fails)
    (simp_all add: sample_worker_sel init_keeps_events_def idle_logic_def)

end
