(* ===== verification/Signed_Words.thy ===== *)
theory Signed_Words
  imports Prelude
begin

text \<open>
  Signed readings of 16 and 32 bit words: ranges, signs, and shifts as multiplication by powers of
  two. The arithmetic element and the extended instructions of the 11/34 share them.
\<close>

subsection \<open>Sign extension and words in two halves\<close>

lemma sint_bounds_16: "- 32768 \<le> sint (w :: u16) \<and> sint w \<le> 32767"
  using sint_greater_eq [of w] sint_less [of w] by simp

lemma sint_bounds_32: "- 2147483648 \<le> sint (w :: u32) \<and> sint w \<le> 2147483647"
  using sint_greater_eq [of w] sint_less [of w] by simp

definition halves :: "u16 \<Rightarrow> u16 \<Rightarrow> u32" where
  "halves hi lo = push_bit 16 (ucast hi) OR ucast lo"

lemma bit_halves: "bit (halves hi lo) k \<longleftrightarrow> (if k < 16 then bit lo k else k < 32 \<and> bit hi (k - 16))"
  by (auto simp: halves_def bit_simps dest: bit_imp_le_length)

lemma halves_split [simp]:
  "halves (ucast (drop_bit 16 t)) (ucast t) = t"
  by (rule bit_word_eqI) (auto simp: bit_halves bit_simps)

lemma halves_inject [simp]:
  "ucast (drop_bit 16 (halves hi lo)) = hi" "ucast (halves hi lo) = lo"
  by (rule bit_word_eqI; auto simp: bit_halves bit_simps)+

lemma halves_sign: "bit (halves hi lo) 31 \<longleftrightarrow> bit hi 15"
  by (simp add: bit_halves)

subsection \<open>Ranges and shifts\<close>

lemma sint_in_range_16: "- 32768 \<le> i \<Longrightarrow> i \<le> 32767 \<Longrightarrow> sint (word_of_int i :: u16) = i"
  by (simp add: sint_sbintrunc' signed_take_bit_int_eq_self)

lemma sint_in_range_32: "- 2147483648 \<le> i \<Longrightarrow> i \<le> 2147483647 \<Longrightarrow> sint (word_of_int i :: u32) = i"
  by (simp add: sint_sbintrunc' signed_take_bit_int_eq_self)

lemma sign_sint_16: "bit (w :: u16) 15 \<longleftrightarrow> sint w < 0"
  by (simp add: sint_uint bit_uint_iff)

lemma sign_sint_32: "bit (w :: u32) 31 \<longleftrightarrow> sint w < 0"
  by (simp add: sint_uint bit_uint_iff)

lemma push_bit_of_int: "push_bit s (t :: u32) = word_of_int (sint t * 2 ^ s)"
  by (simp add: push_bit_eq_mult)

lemma top_bits_range:
  assumes "m \<le> 31"
  shows "(\<forall>i. m \<le> i \<and> i < 32 \<longrightarrow> bit (t :: u32) i = bit t 31) \<longleftrightarrow> - (2 ^ m) \<le> sint t \<and> sint t < 2 ^ m"
proof -
  have all: "(\<forall>i. m \<le> i \<and> i < 32 \<longrightarrow> bit t i = bit t 31) \<longleftrightarrow> signed_drop_bit m t = - 1 \<or> signed_drop_bit m t = 0"
  proof
    assume a: "\<forall>i. m \<le> i \<and> i < 32 \<longrightarrow> bit t i = bit t 31"
    have "signed_drop_bit m t = (if bit t 31 then - 1 else 0)"
    proof (rule bit_word_eqI)
      fix n :: nat assume n: "n < LENGTH(32)"
      have "bit (signed_drop_bit m t) n = bit t 31"
      proof (cases "m + n < 32")
        case True
        have "bit t (m + n) = bit t 31" using a [rule_format, of "m + n"] True by simp
        with True n show ?thesis by (simp add: bit_signed_drop_bit_iff)
      next
        case False
        then have "32 - m \<le> n" by linarith
        with n show ?thesis by (simp add: bit_signed_drop_bit_iff)
      qed
      then show "bit (signed_drop_bit m t) n = bit (if bit t 31 then - 1 else 0 :: u32) n"
        using n by simp
    qed
    then show "signed_drop_bit m t = - 1 \<or> signed_drop_bit m t = 0" by auto
  next
    assume a: "signed_drop_bit m t = - 1 \<or> signed_drop_bit m t = 0"
    show "\<forall>i. m \<le> i \<and> i < 32 \<longrightarrow> bit t i = bit t 31"
    proof (intro allI impI)
      fix i assume i: "m \<le> i \<and> i < 32"
      have "bit (signed_drop_bit m t) (i - m) = bit t i" using i assms by (auto simp: bit_signed_drop_bit_iff)
      moreover have "bit (signed_drop_bit m t) 31 = bit t 31" using assms by (cases m) (simp_all add: bit_signed_drop_bit_iff)
      moreover have "bit (signed_drop_bit m t) (i - m) = bit (signed_drop_bit m t) 31" using a i by auto
      ultimately show "bit t i = bit t 31" by simp
    qed
  qed
  have "signed_drop_bit m t = - 1 \<longleftrightarrow> sint t div 2 ^ m = - 1" "signed_drop_bit m t = 0 \<longleftrightarrow> sint t div 2 ^ m = 0"
  proof -
    have i: "x = y \<longleftrightarrow> sint x = sint y" for x y :: u32
    proof
      assume "sint x = sint y"
      then have "(of_int (sint x) :: u32) = of_int (sint y)" by (rule arg_cong)
      then show "x = y" by (simp add: scast_id)
    qed simp
    show "signed_drop_bit m t = - 1 \<longleftrightarrow> sint t div 2 ^ m = - 1" "signed_drop_bit m t = 0 \<longleftrightarrow> sint t div 2 ^ m = 0"
      unfolding i sint_signed_drop_bit_eq drop_bit_eq_div sint_0 sint_n1 by simp_all
  qed
  moreover have "(sint t div 2 ^ m = - 1 \<or> sint t div 2 ^ m = 0) \<longleftrightarrow> - (2 ^ m) \<le> sint t \<and> sint t < 2 ^ m"
  proof -
    have p: "(0 :: int) < 2 ^ m" by simp
    have "sint t div 2 ^ m = 0 \<longleftrightarrow> 0 \<le> sint t \<and> sint t < 2 ^ m"
      using p zdiv_eq_0_iff [of "sint t" "2 ^ m"] by linarith
    moreover have "sint t div 2 ^ m = - 1 \<longleftrightarrow> - (2 ^ m) \<le> sint t \<and> sint t < 0"
    proof -
      have "(sint t + 2 ^ m) div 2 ^ m = sint t div 2 ^ m + 1"
        using p by (intro div_add_self2) simp
      moreover have "0 \<le> (sint t + 2 ^ m) div 2 ^ m \<longleftrightarrow> 0 \<le> sint t + 2 ^ m"
        using p by (simp only: pos_imp_zdiv_nonneg_iff)
      moreover have "sint t div 2 ^ m < 0 \<longleftrightarrow> sint t < 0" using p by (simp only: pos_imp_zdiv_neg_iff)
      ultimately show ?thesis by linarith
    qed
    ultimately show ?thesis by auto
  qed
  ultimately show ?thesis using all by auto
qed

lemma shift_in_range:
  assumes "s \<le> 31"
  shows "sint (push_bit s t) = sint (t :: u32) * 2 ^ s \<longleftrightarrow>
     - (2 ^ (31 - s)) \<le> sint t \<and> sint t < 2 ^ (31 - s)"
    and "\<not> (- (2 ^ (31 - s)) \<le> sint t \<and> sint t < 2 ^ (31 - s)) \<Longrightarrow> sint (u :: u32) \<noteq> sint t * 2 ^ s"
proof -
  have e: "(2 :: int) ^ 31 = 2 ^ (31 - s) * 2 ^ s" using assms by (simp flip: power_add)
  have r: "- (2 ^ (31 - s)) \<le> sint t \<and> sint t < 2 ^ (31 - s) \<longleftrightarrow>
      - (2 ^ 31) \<le> sint t * 2 ^ s \<and> sint t * 2 ^ s < 2 ^ 31"
    unfolding e by (simp add: mult_less_cancel_right flip: mult_minus_left)
  show out: "\<not> (- (2 ^ (31 - s)) \<le> sint t \<and> sint t < 2 ^ (31 - s)) \<Longrightarrow> sint (u :: u32) \<noteq> sint t * 2 ^ s" for u
    unfolding r using sint_bounds_32 [of u] by auto
  show "sint (push_bit s t) = sint (t :: u32) * 2 ^ s \<longleftrightarrow>
     - (2 ^ (31 - s)) \<le> sint t \<and> sint t < 2 ^ (31 - s)"
  proof
    assume "- (2 ^ (31 - s)) \<le> sint t \<and> sint t < 2 ^ (31 - s)"
    then show "sint (push_bit s t) = sint t * 2 ^ s"
      unfolding r push_bit_of_int by (intro sint_in_range_32) auto
  qed (use out [of "push_bit s t"] in blast)
qed

end
