(* ===== verification/Device_View.thy ===== *)
theory Device_View
  imports Event_Worker Signed_Words
begin

text \<open>
  A device's own view of its bus registers, which the models of the single devices extend:
  per register index the value the bus reads (\<^verbatim>\<open>active_dati_flipflops\<close>, which
  \<^verbatim>\<open>set_register_dati_value\<close> sets together with the PRU's copy) and the value last
  written (\<^verbatim>\<open>active_dato_flipflops\<close>). An \<^verbatim>\<open>INTR\<close> with a register whose request goes to the PRU at
  once sets only the PRU's copy, not the flipflops; the devices' models do not tell the two apart, so their
  \<^theory_text>\<open>dati\<close> is what the bus reads until the next write to this register, which in the program brings the flipflops
  back before the device's function runs. The last lemmas tie the view to the register
  map of the adapter.
\<close>

record device_view =
  dati :: "nat \<Rightarrow> u16"
  dato :: "nat \<Rightarrow> u16"

text \<open>A bit of a register.\<close>

definition flag :: "u16 \<Rightarrow> bool \<Rightarrow> u16" where "flag m b = (if b then m else 0)"

definition set_dati :: "nat \<Rightarrow> u16 \<Rightarrow> 'a device_view_scheme \<Rightarrow> 'a device_view_scheme" where
  "set_dati i v s = s\<lparr>dati := (dati s)(i := v)\<rparr>"

lemma set_dati_sel [simp]:
  "dati (set_dati i v s) = (dati s)(i := v)" "dato (set_dati i v s) = dato s"
  by (simp_all add: set_dati_def)

text \<open>The view of the device \<open>d\<close> in the adapter's state.\<close>

definition view_of :: "dev_id \<Rightarrow> 'a iopage_state_scheme \<Rightarrow> device_view" where
  "view_of d s = \<lparr>dati = (\<lambda>i. active_dati_flipflops (the_reg d i s)),
                  dato = (\<lambda>i. active_dato_flipflops (the_reg d i s))\<rparr>"

lemma set_register_dati_value_view:
  assumes "set_register_dati_value d i v s = Some t"
  shows "view_of d t = set_dati i v (view_of d s)"
  using assms by (auto simp: set_register_dati_value_def view_of_def set_dati_def fun_eq_iff split: option.splits)

lemma dato_to_register_view:
  assumes "dato_to_register d i c a v s = Some t"
  shows "view_of d t = (view_of d s)\<lparr>dato := (dato (view_of d s))(i := dato_flipflops c a v (the_reg d i s))\<rparr>"
  using assms by (auto simp: dato_to_register_def Let_def view_of_def fun_eq_iff split: option.splits)

end
