(* ===== verification/KE11.thy ===== *)
theory KE11
  imports Device_View Signed_Words "HOL-Library.Signed_Division"
begin

text \<open>
  The KE11 extended arithmetic element (\<^verbatim>\<open>10.02_devices/2_src/ke11.cpp\<close>,
  \<^verbatim>\<open>ke11.hpp\<close>): a device whose registers compute when they are written. AC and MQ
  are the halves of a 32 bit operand; writing DIV, MUL, NOR, LSH or ASH divides,
  multiplies, normalises or shifts it, and SC/SR shows step count and status.

  C++ \<open>int32_t\<close> values are 32 bit words read with \<^term>\<open>sint\<close>; \<open>>>\<close> on them is
  \<^term>\<open>signed_drop_bit\<close>, division truncates towards zero.
\<close>

record ke11 = device_view +
  ke_ac :: u16
  ke_mq :: u16
  ke_sr :: u8
  ke_sc :: u8

definition SR_C :: u8 where "SR_C = 0x1"
definition SR_SXT :: u8 where "SR_SXT = 0x2"
definition SR_Z :: u8 where "SR_Z = 0x4"
definition SR_MQZ :: u8 where "SR_MQZ = 0x8"
definition SR_ACZ :: u8 where "SR_ACZ = 0x10"
definition SR_ACM1 :: u8 where "SR_ACM1 = 0x20"
definition SR_N :: u8 where "SR_N = 0x40"
definition SR_NXV :: u8 where "SR_NXV = 0x80"
definition SR_DYN :: u8 where "SR_DYN = SR_SXT OR SR_Z OR SR_MQZ OR SR_ACZ OR SR_ACM1"

definition get_sign_byte :: "u16 \<Rightarrow> bool" where "get_sign_byte v \<longleftrightarrow> bit v 7"
definition get_sign_word :: "u16 \<Rightarrow> bool" where "get_sign_word v \<longleftrightarrow> bit v 15"
definition get_sign_long :: "u32 \<Rightarrow> bool" where "get_sign_long v \<longleftrightarrow> bit v 31"

subsection \<open>Register values\<close>

definition update_AC :: "ke11 \<Rightarrow> ke11" where "update_AC k = set_dati 1 (ke_ac k) k"
definition update_MQ :: "ke11 \<Rightarrow> ke11" where "update_MQ k = set_dati 2 (ke_mq k) k"

definition dynamic_bits :: "u16 \<Rightarrow> u16 \<Rightarrow> u8" where
  "dynamic_bits ac mq =
     (if mq = 0 then SR_MQZ else 0) OR
     (if ac = 0 then SR_ACZ OR (if \<not> get_sign_word mq then SR_SXT else 0) OR (if mq = 0 then SR_Z else 0)
      else 0) OR
     (if ac = 0xffff then SR_ACM1 OR (if get_sign_word mq then SR_SXT else 0) else 0)"

definition update_SCSR :: "ke11 \<Rightarrow> ke11" where
  "update_SCSR k =
     (let sr = (ke_sr k AND NOT SR_DYN) OR dynamic_bits (ke_ac k) (ke_mq k)
      in set_dati 4 (push_bit 8 (ucast sr) OR ucast (ke_sc k)) (k\<lparr>ke_sr := sr\<rparr>))"

definition show_result :: "ke11 \<Rightarrow> ke11" where
  "show_result k = update_SCSR (update_MQ (update_AC k))"

text \<open>Operands: a byte written to the low half is sign extended if negative.\<close>

definition byte_operand :: "DATO_ACCESS \<Rightarrow> u16 \<Rightarrow> u16" where
  "byte_operand access v = (if access = DATO_BYTEL \<and> get_sign_byte v then v OR 0xff00 else v)"

definition sext_word :: "u16 \<Rightarrow> u32" where
  "sext_word v = (if get_sign_word v then ucast v OR 0xffff8000 else ucast v)"

text \<open>\<open>(_ac << 16) | _mq\<close>, extended by its own sign.\<close>

definition sext_acmq :: "ke11 \<Rightarrow> u32" where
  "sext_acmq k = (if get_sign_word (ke_ac k) then halves (ke_ac k) (ke_mq k) OR 0x80000000
                  else halves (ke_ac k) (ke_mq k))"

definition abs_long :: "u32 \<Rightarrow> u32" where
  "abs_long t = (if get_sign_long t then - t else t)"

definition set_acmq :: "u32 \<Rightarrow> ke11 \<Rightarrow> ke11" where
  "set_acmq t k = k\<lparr>ke_ac := ucast (signed_drop_bit 16 t), ke_mq := ucast t\<rparr>"

text \<open>\<open>_sr ^= (SR_N | SR_NXV)\<close> where the sign of \<open>w\<close> is set.\<close>

definition negate_status :: "u16 \<Rightarrow> ke11 \<Rightarrow> ke11" where
  "negate_status w k = (if get_sign_word w then k\<lparr>ke_sr := ke_sr k XOR (SR_N OR SR_NXV)\<rparr> else k)"

subsection \<open>The operations\<close>

definition div_step :: "u32 \<Rightarrow> ke11 \<Rightarrow> ke11" where
  "div_step d k =
     (let match = \<not> get_sign_word (ke_ac k XOR ucast d);
          ac1 = push_bit 1 (ke_ac k) OR drop_bit 15 (ke_mq k);
          ac2 = (if match then ac1 - ucast d else ac1 + ucast d);
          mq = push_bit 1 (ke_mq k) OR of_bool match
      in k\<lparr>ke_ac := ac2, ke_mq := mq, ke_sc := 15,
           ke_sr := (if \<not> get_sign_word (ac2 XOR ucast d) then SR_C else 0) OR SR_NXV\<rparr>)"

definition div_full :: "u32 \<Rightarrow> u32 \<Rightarrow> ke11 \<Rightarrow> ke11" where
  "div_full t d k =
     (let quo = sint t sdiv sint d; rem = sint t smod sint d
      in k\<lparr>ke_sc := 0, ke_mq := word_of_int quo, ke_ac := word_of_int rem,
           ke_sr := (if 32767 < quo \<or> quo < - 32768 then SR_NXV else 0)\<rparr>)"

definition ke_DIV :: "DATO_ACCESS \<Rightarrow> ke11 \<Rightarrow> ke11" where
  "ke_DIV access k =
     (let d = sext_word (byte_operand access (dato k 0));
          t = sext_acmq k;
          k1 = (if abs_long d \<le> drop_bit 16 (abs_long t) then div_step d k else div_full t d k)
      in show_result (negate_status (ke_mq k1) k1))"

definition ke_AC_write :: "DATO_ACCESS \<Rightarrow> ke11 \<Rightarrow> ke11" where
  "ke_AC_write access k =
     update_SCSR (update_AC (k\<lparr>ke_ac := byte_operand access (dato k 1)\<rparr>))"

definition ke_MQ_write :: "DATO_ACCESS \<Rightarrow> ke11 \<Rightarrow> ke11" where
  "ke_MQ_write access k =
     (let mq = byte_operand access (dato k 2)
      in show_result (k\<lparr>ke_mq := mq, ke_ac := (if get_sign_word mq then 0xffff else 0)\<rparr>))"

definition ke_MUL :: "DATO_ACCESS \<Rightarrow> ke11 \<Rightarrow> ke11" where
  "ke_MUL access k =
     (let t = sext_word (ke_mq k) * sext_word (byte_operand access (dato k 3));
          k1 = set_acmq t (k\<lparr>ke_sc := 0\<rparr>)
      in show_result (k1\<lparr>ke_sr := (if get_sign_word (ke_ac k1) then SR_N OR SR_NXV else 0)\<rparr>))"

definition SCSR_mask :: u16 where
  "SCSR_mask = push_bit 8 (ucast (SR_NXV OR SR_N OR SR_C)) OR 0xff"

definition ke_SCSR_write :: "DATO_ACCESS \<Rightarrow> ke11 \<Rightarrow> ke11" where
  "ke_SCSR_write access k =
     (if access = DATO_WORD
      then let value = dato k 4 AND SCSR_mask
           in set_dati 5 (value AND 0xff) (set_dati 4 value
                (k\<lparr>ke_sr := ucast (drop_bit 8 value), ke_sc := ucast value\<rparr>))
      else k)"

text \<open>The loop of NOR, with the steps left and the steps done.\<close>

definition normalized :: "u16 \<Rightarrow> u16 \<Rightarrow> bool" where
  "normalized ac mq \<longleftrightarrow> ac = 0xc000 \<and> mq = 0 \<or> get_sign_word (ac XOR push_bit 1 ac)"

fun nor_loop :: "nat \<Rightarrow> u8 \<Rightarrow> u16 \<Rightarrow> u16 \<Rightarrow> u8 \<times> u16 \<times> u16" where
  "nor_loop 0 sc ac mq = (sc, ac, mq)"
| "nor_loop (Suc n) sc ac mq =
     (if normalized ac mq then (sc, ac, mq)
      else nor_loop n (sc + 1) (push_bit 1 ac OR drop_bit 15 mq) (push_bit 1 mq))"

definition ke_NOR :: "ke11 \<Rightarrow> ke11" where
  "ke_NOR k =
     (let (sc, ac, mq) = nor_loop 31 0 (ke_ac k) (ke_mq k)
      in show_result (k\<lparr>ke_ac := ac, ke_mq := mq, ke_sc := sc,
           ke_sr := (if get_sign_word ac then SR_N OR SR_NXV else 0)\<rparr>))"

text \<open>\<open>-sign << n\<close>: ones above bit \<open>n\<close> for a negative operand.\<close>

definition sign_fill :: "bool \<Rightarrow> nat \<Rightarrow> u32" where
  "sign_fill sign n = (if sign then push_bit n (- 1) else 0)"

definition shift_status :: "u32 \<Rightarrow> u32 \<Rightarrow> u8" where
  "shift_status sout t =
     (if sout \<noteq> (if get_sign_long t then - 1 else 0) then SR_NXV else 0) OR
     (if sout AND 1 \<noteq> 0 then SR_C else 0)"

text \<open>Logical shift by the 6 bit count \<open>n\<close>: left below 32, right by \<open>64 - n\<close> else.\<close>

definition lsh :: "nat \<Rightarrow> ke11 \<Rightarrow> ke11" where
  "lsh n k =
     (let t = sext_acmq k; sign = get_sign_word (ke_ac k) in
      if n < 32
      then let sout = signed_drop_bit (32 - n) t OR sign_fill sign n;
               t' = push_bit n t
           in (set_acmq t' k)\<lparr>ke_sr := shift_status sout t'\<rparr>
      else (set_acmq (if n \<noteq> 32 then drop_bit (64 - n) t else 0) k)
             \<lparr>ke_sr := (if signed_drop_bit (63 - n) t AND 1 \<noteq> 0 then SR_C else 0)\<rparr>)"

definition ke_LSH :: "ke11 \<Rightarrow> ke11" where
  "ke_LSH k =
     (let k0 = k\<lparr>ke_sc := 0, ke_sr := 0\<rparr>;
          n = unat (dato k 6 AND 0x3f);
          k1 = (if n \<noteq> 0 then lsh n k0 else k0)
      in show_result (negate_status (ke_ac k1) k1))"

text \<open>Arithmetic shift, which keeps the sign bit.\<close>

definition ash :: "nat \<Rightarrow> ke11 \<Rightarrow> ke11" where
  "ash n k =
     (let t = sext_acmq k; sign = get_sign_word (ke_ac k) in
      if n < 32
      then let sout = signed_drop_bit (31 - n) t OR sign_fill sign n;
               t' = (t AND 0x80000000) OR (push_bit n t AND 0x7fffffff)
           in (set_acmq t' k)\<lparr>ke_sr := shift_status sout t'\<rparr>
      else (set_acmq (if n \<noteq> 32 then drop_bit (64 - n) t OR sign_fill sign (n - 32) else sign_fill sign 0) k)
             \<lparr>ke_sr := (if signed_drop_bit (63 - n) t AND 1 \<noteq> 0 then SR_C else 0)\<rparr>)"

definition ke_ASH :: "ke11 \<Rightarrow> ke11" where
  "ke_ASH k =
     (let k0 = k\<lparr>ke_sc := 0, ke_sr := 0\<rparr>;
          n = unat (dato k 7 AND 0x3f);
          k1 = (if n \<noteq> 0 then ash n k0 else k0)
      in show_result (negate_status (ke_ac k1) k1))"

subsection \<open>The device\<close>

definition ke_write_register :: "nat \<Rightarrow> DATO_ACCESS \<Rightarrow> ke11 \<Rightarrow> ke11" where
  "ke_write_register i access k =
     (if i = 0 then ke_DIV access k else if i = 1 then ke_AC_write access k
      else if i = 2 then ke_MQ_write access k else if i = 3 then ke_MUL access k
      else if i = 4 then ke_SCSR_write access k else if i = 5 then ke_NOR k
      else if i = 6 then ke_LSH k else if i = 7 then ke_ASH k else k)"

definition ke_on_after_register_access :: "nat \<Rightarrow> u8 \<Rightarrow> DATO_ACCESS \<Rightarrow> ke11 \<Rightarrow> ke11" where
  "ke_on_after_register_access i control access k =
     (if control = QUNIBUS_CYCLE_DATI then set_dati i 0 k else ke_write_register i access k)"

definition ke_reset_controller :: "ke11 \<Rightarrow> ke11" where
  "ke_reset_controller k =
     k\<lparr>dati := (\<lambda>i. if i < 8 then 0 else dati k i), ke_ac := 0, ke_mq := 0, ke_sr := 0, ke_sc := 0\<rparr>"

definition ke_on_power_changed :: "signal_edge \<Rightarrow> ke11 \<Rightarrow> ke11" where
  "ke_on_power_changed dclo_edge k =
     (if dclo_edge = SIGNAL_EDGE_RAISING then ke_reset_controller k else k)"

definition ke_on_init_changed :: "bool \<Rightarrow> ke11 \<Rightarrow> ke11" where
  "ke_on_init_changed init k = (if init then ke_reset_controller k else k)"

subsection \<open>Signed values\<close>

lemma sext_word_sint [simp]: "sint (sext_word v) = sint v"
proof -
  have "sext_word v = scast v"
  proof (rule bit_word_eqI)
    fix k :: nat assume "k < LENGTH(32)"
    moreover have "bit (0xffff8000 :: u32) k \<longleftrightarrow> 15 \<le> k \<and> k < 32"
    proof -
      have "(0xffff8000 :: u32) = push_bit 15 (mask 17)" by (simp add: mask_eq_exp_minus_1)
      then show ?thesis by (simp only: bit_push_bit_iff bit_mask_iff) auto
    qed
    moreover have "bit v 15" if "bit v k" "15 \<le> k"
    proof -
      have "k < 16" using bit_imp_le_length [OF that(1)] by simp
      with that(2) have "k = 15" by simp
      with that(1) show ?thesis by simp
    qed
    ultimately show "bit (sext_word v) k \<longleftrightarrow> bit (scast v :: u32) k"
      by (cases "bit v 15"; cases "k < 15")
        (simp_all only: sext_word_def get_sign_word_def if_True if_False bit_or_iff bit_ucast_iff,
         auto simp: bit_signed_iff min_def dest: bit_imp_le_length)
  qed
  then show ?thesis by (simp add: sint_up_scast is_up)
qed

lemma sext_acmq_eq: "sext_acmq k = halves (ke_ac k) (ke_mq k)"
proof -
  have b: "bit (0x80000000 :: u32) n \<longleftrightarrow> n = 31" for n
  proof -
    have "(0x80000000 :: u32) = push_bit 31 1" by simp
    then show ?thesis by (simp only: bit_push_bit_iff bit_1_iff) auto
  qed
  have "bit (halves (ke_ac k) (ke_mq k) OR 0x80000000) n = bit (halves (ke_ac k) (ke_mq k)) n"
    if "get_sign_word (ke_ac k)" for n
    using that by (simp only: bit_or_iff b bit_halves get_sign_word_def) auto
  then have "get_sign_word (ke_ac k) \<Longrightarrow> halves (ke_ac k) (ke_mq k) OR 0x80000000 = halves (ke_ac k) (ke_mq k)"
    by (intro bit_word_eqI)
  then show ?thesis by (simp add: sext_acmq_def)
qed

lemma signed_drop_ucast: "(ucast (signed_drop_bit 16 (t :: u32)) :: u16) = ucast (drop_bit 16 t)"
  by (rule bit_word_eqI) (auto simp: bit_simps)

lemma set_acmq_sel [simp]:
  "halves (ke_ac (set_acmq t k)) (ke_mq (set_acmq t k)) = t"
  "ke_ac (set_acmq t k) = ucast (drop_bit 16 t)" "ke_mq (set_acmq t k) = ucast t"
  "ke_sr (set_acmq t k) = ke_sr k" "ke_sc (set_acmq t k) = ke_sc k"
  by (simp_all add: set_acmq_def signed_drop_ucast)

lemma show_result_sel [simp]:
  "ke_ac (show_result k) = ke_ac k" "ke_mq (show_result k) = ke_mq k" "ke_sc (show_result k) = ke_sc k"
  "ke_sr (show_result k) = (ke_sr k AND NOT SR_DYN) OR dynamic_bits (ke_ac k) (ke_mq k)"
  by (simp_all add: show_result_def update_SCSR_def update_AC_def update_MQ_def Let_def set_dati_def)

lemma sint_mult_16: 
  "sint (sext_word a * sext_word b) = sint a * sint b"
proof -
  have "\<bar>sint a\<bar> \<le> 32768" "\<bar>sint b\<bar> \<le> 32768" using sint_bounds_16 [of a] sint_bounds_16 [of b] by auto
  then have "\<bar>sint a * sint b\<bar> \<le> 32768 * 32768" unfolding abs_mult by (intro mult_mono) auto
  then show ?thesis
    by (simp add: sint_word_mult signed_take_bit_int_eq_self abs_le_iff)
qed

subsection \<open>Multiplication and division\<close>

lemma SR_bits:
  "bit SR_N n \<longleftrightarrow> n = 6" "bit SR_NXV n \<longleftrightarrow> n = 7" "bit SR_C n \<longleftrightarrow> n = 0"
proof -
  have e: "SR_N = push_bit 6 1" "SR_NXV = push_bit 7 1" "SR_C = push_bit 0 1"
    by (simp_all add: SR_N_def SR_NXV_def SR_C_def)
  show "bit SR_N n \<longleftrightarrow> n = 6" "bit SR_NXV n \<longleftrightarrow> n = 7" "bit SR_C n \<longleftrightarrow> n = 0"
    unfolding e bit_push_bit_iff bit_1_iff by auto
qed

lemma SR_DYN_bits: "bit SR_DYN n \<longleftrightarrow> 1 \<le> n \<and> n \<le> 5"
proof -
  have e: "SR_DYN = push_bit 1 (mask 5)"
    by (simp add: SR_DYN_def SR_SXT_def SR_Z_def SR_MQZ_def SR_ACZ_def SR_ACM1_def mask_eq_exp_minus_1)
  show ?thesis unfolding e bit_push_bit_iff bit_mask_iff by auto
qed

lemma dynamic_bits_static: "bit (dynamic_bits ac mq) n \<Longrightarrow> 1 \<le> n \<and> n \<le> 5"
proof -
  have "dynamic_bits ac mq AND NOT SR_DYN = 0"
    by (simp add: dynamic_bits_def SR_DYN_def SR_SXT_def SR_Z_def SR_MQZ_def SR_ACZ_def SR_ACM1_def)
  then have "\<not> bit (dynamic_bits ac mq AND NOT SR_DYN) n" by simp
  then show "bit (dynamic_bits ac mq) n \<Longrightarrow> 1 \<le> n \<and> n \<le> 5"
    unfolding bit_and_iff bit_not_iff SR_DYN_bits
    by (metis bit_imp_possible_bit)
qed

lemma show_result_static:
  assumes "n \<in> {0, 6, 7}"
  shows "bit (ke_sr (show_result k)) n \<longleftrightarrow> bit (ke_sr k) n"
  using assms dynamic_bits_static [of "ke_ac k" "ke_mq k" n]
  unfolding show_result_sel bit_or_iff bit_and_iff bit_not_iff SR_DYN_bits
  by (auto simp: bit_imp_possible_bit dest: bit_imp_possible_bit)

text \<open>
  The status the KE11 keeps: the sign N of the result, the carry C, and NXV, which is N
  exclusive or overflow.
\<close>

definition status_N :: "ke11 \<Rightarrow> bool" where "status_N k \<longleftrightarrow> bit (ke_sr k) 6"
definition status_V :: "ke11 \<Rightarrow> bool" where "status_V k \<longleftrightarrow> bit (ke_sr k) 7 \<noteq> bit (ke_sr k) 6"
definition status_C :: "ke11 \<Rightarrow> bool" where "status_C k \<longleftrightarrow> bit (ke_sr k) 0"

lemma status_show_result [simp]:
  "status_N (show_result k) = status_N k" "status_V (show_result k) = status_V k"
  "status_C (show_result k) = status_C k"
  using show_result_static [of 0 k] show_result_static [of 6 k] show_result_static [of 7 k]
  by (simp_all add: status_N_def status_V_def status_C_def del: show_result_sel)

lemma negate_status_sel [simp]:
  "ke_ac (negate_status w k) = ke_ac k" "ke_mq (negate_status w k) = ke_mq k"
  "ke_sc (negate_status w k) = ke_sc k"
  by (simp_all add: negate_status_def)

lemma bit_negate_status:
  "n < 8 \<Longrightarrow> bit (ke_sr (negate_status w k)) n \<longleftrightarrow>
     (bit (ke_sr k) n \<noteq> (get_sign_word w \<and> (n = 6 \<or> n = 7)))"
  by (auto simp: negate_status_def bit_xor_iff bit_or_iff SR_bits)

lemma status_negate:
  assumes "\<not> bit (ke_sr k) 6"
  shows "status_N (negate_status w k) \<longleftrightarrow> get_sign_word w"
    "status_V (negate_status w k) \<longleftrightarrow> bit (ke_sr k) 7"
    "status_C (negate_status w k) \<longleftrightarrow> status_C k"
  using assms by (auto simp: status_N_def status_V_def status_C_def bit_negate_status)

definition acmq :: "ke11 \<Rightarrow> int" where "acmq k = sint (halves (ke_ac k) (ke_mq k))"

lemma get_sign_word_sint: "get_sign_word w \<longleftrightarrow> sint w < 0"
  by (simp add: get_sign_word_def sign_sint_16)

lemma acmq_sign: "acmq k < 0 \<longleftrightarrow> get_sign_word (ke_ac k)"
  unfolding acmq_def sign_sint_32 [symmetric] halves_sign get_sign_word_def ..

text \<open>
  Writing MUL multiplies: the 32 bit signed AC:MQ afterwards is the exact product
  of the signed MQ before and the signed operand, the step count is zero, N shows the sign of
  the product, and overflow and carry are clear.
\<close>

theorem ke_MUL_multiplies:
  "acmq (ke_MUL access k) = sint (ke_mq k) * sint (byte_operand access (dato k 3)) \<and>
   ke_sc (ke_MUL access k) = 0 \<and>
   status_N (ke_MUL access k) = (sint (ke_mq k) * sint (byte_operand access (dato k 3)) < 0) \<and>
   \<not> status_V (ke_MUL access k) \<and> \<not> status_C (ke_MUL access k)"
proof -
  let ?t = "sext_word (ke_mq k) * sext_word (byte_operand access (dato k 3))"
  let ?k1 = "set_acmq ?t (k\<lparr>ke_sc := 0\<rparr>)"
  have e: "ke_MUL access k = show_result (?k1\<lparr>ke_sr := (if get_sign_word (ke_ac ?k1) then SR_N OR SR_NXV else 0)\<rparr>)"
    by (simp add: ke_MUL_def Let_def)
  have a: "acmq (ke_MUL access k) = sint (ke_mq k) * sint (byte_operand access (dato k 3))"
    unfolding e acmq_def show_result_sel by (simp add: sint_mult_16 del: set_acmq_sel(2,3))
  have s: "get_sign_word (ke_ac ?k1) \<longleftrightarrow> acmq (ke_MUL access k) < 0"
    unfolding acmq_sign e by simp
  have "ke_sc (ke_MUL access k) = 0" unfolding e by simp
  moreover have "status_N (ke_MUL access k) = get_sign_word (ke_ac ?k1)"
    "\<not> status_V (ke_MUL access k)" "\<not> status_C (ke_MUL access k)"
    unfolding e status_show_result unfolding status_N_def status_V_def status_C_def
    by (simp_all add: bit_or_iff SR_bits del: set_acmq_sel)
  ultimately show ?thesis using a s by simp
qed

lemma abs_long_uint: "uint (abs_long t) = \<bar>sint t\<bar>"
proof (cases "sint t < 0")
  case False
  then have "sint t = uint t"
    unfolding uint_sint [of t] using sint_bounds_32 [of t] by (simp add: take_bit_int_eq_self)
  then show ?thesis using False sign_sint_32 [of t] by (simp add: abs_long_def get_sign_long_def)
next
  case True
  have "uint (- t) = take_bit 32 (- sint t)"
    unfolding uint_sint [of "- t"] sint_word_minus by (simp add: take_bit_signed_take_bit)
  also have "\<dots> = - sint t"
    using True sint_bounds_32 [of t] by (simp add: take_bit_int_eq_self_iff)
  finally show ?thesis using True sign_sint_32 [of t] by (simp add: abs_long_def get_sign_long_def)
qed

lemma divide_possible:
  "abs_long d \<le> drop_bit 16 (abs_long t) \<longleftrightarrow> \<bar>sint d\<bar> \<le> \<bar>sint t\<bar> div 65536"
proof -
  have "\<bar>sint t\<bar> < 2 ^ 32" using sint_bounds_32 [of t] by auto
  then show ?thesis
    unfolding word_le_def unsigned_drop_bit_eq abs_long_uint
    by (simp add: drop_bit_eq_div take_bit_int_eq_self)
qed

text \<open>
  Writing DIV divides when the divisor is large enough for the quotient to need at
  most 17 bits: AC is the remainder of the truncating division of the signed AC:MQ, MQ the
  quotient modulo 65536, overflow tells exactly whether the quotient fits, N is the sign of MQ;
  without overflow dividend = quotient * divisor + remainder with a remainder smaller than the
  divisor.
\<close>

theorem ke_DIV_divides:
  assumes "\<bar>acmq k\<bar> div 65536 < \<bar>sint (byte_operand access (dato k 0))\<bar>"
  shows "let d = sint (byte_operand access (dato k 0)); k' = ke_DIV access k in
    sint (ke_ac k') = acmq k smod d \<and> ke_mq k' = word_of_int (acmq k sdiv d) \<and>
    (status_V k' \<longleftrightarrow> sint (ke_mq k') \<noteq> acmq k sdiv d) \<and>
    (status_N k' \<longleftrightarrow> sint (ke_mq k') < 0) \<and> \<not> status_C k' \<and> ke_sc k' = 0 \<and>
    (\<not> status_V k' \<longrightarrow> acmq k = sint (ke_mq k') * d + sint (ke_ac k') \<and> \<bar>sint (ke_ac k')\<bar> < \<bar>d\<bar>)"
proof -
  let ?o = "byte_operand access (dato k 0)"
  let ?d = "sint ?o"
  let ?q = "acmq k sdiv ?d"
  let ?r = "acmq k smod ?d"
  let ?k1 = "div_full (sext_acmq k) (sext_word ?o) k"
  have t: "sint (sext_acmq k) = acmq k" by (simp add: sext_acmq_eq acmq_def)
  have "\<not> abs_long (sext_word ?o) \<le> drop_bit 16 (abs_long (sext_acmq k))"
    using assms unfolding divide_possible t by simp
  then have e: "ke_DIV access k = show_result (negate_status (ke_mq ?k1) ?k1)"
    by (simp add: ke_DIV_def Let_def)
  have k1: "ke_mq ?k1 = word_of_int ?q" "ke_ac ?k1 = word_of_int ?r" "ke_sc ?k1 = 0"
    "ke_sr ?k1 = (if 32767 < ?q \<or> ?q < - 32768 then SR_NXV else 0)"
    by (simp_all add: div_full_def Let_def t)
  have d0: "?d \<noteq> 0" using assms by auto
  have rr: "\<bar>?r\<bar> < \<bar>?d\<bar>" using smod_int_range [OF d0, of "acmq k"] by auto
  have r: "sint (word_of_int ?r :: u16) = ?r"
    using rr sint_bounds_16 [of ?o] by (intro sint_in_range_16) auto
  have v: "(32767 < ?q \<or> ?q < - 32768) \<longleftrightarrow> sint (word_of_int ?q :: u16) \<noteq> ?q"
    using sint_in_range_16 [of ?q] sint_bounds_16 [of "word_of_int ?q"] by linarith
  have "\<not> bit (ke_sr ?k1) 6" unfolding k1 by (simp add: SR_bits)
  note st = status_negate [OF this, of "ke_mq ?k1"]
  have "bit (ke_sr ?k1) 7 \<longleftrightarrow> sint (word_of_int ?q :: u16) \<noteq> ?q" "\<not> status_C ?k1"
    unfolding status_C_def k1 v by (simp_all add: SR_bits)
  then show ?thesis
    unfolding Let_def e using st r rr mult_sdiv_smod_eq [of ?d "acmq k"]
    by (simp add: k1 get_sign_word_sint mult.commute del: show_result_sel(4))
qed

theorem ke_DIV_divides_witness:
  "let k = \<lparr>dati = (\<lambda>_. 0), dato = (\<lambda>_. 7), ke_ac = 0xffff, ke_mq = 0xff00, ke_sr = 0, ke_sc = 0\<rparr>;
       k' = ke_DIV DATO_WORD k in
   acmq k = - 256 \<and> sint (ke_mq k') = - 36 \<and> sint (ke_ac k') = - 4"
proof -
  define k where "k = \<lparr>dati = (\<lambda>_. 0), dato = (\<lambda>_. 7), ke_ac = 0xffff, ke_mq = 0xff00, ke_sr = 0, ke_sc = 0\<rparr>"
  have a: "acmq k = - 256"
    by (simp add: acmq_def k_def halves_def)
  have d: "sint (byte_operand DATO_WORD (dato k 0)) = 7" by (simp add: byte_operand_def k_def)
  have "sint (ke_ac (ke_DIV DATO_WORD k)) = - 4" "sint (ke_mq (ke_DIV DATO_WORD k)) = - 36"
    using ke_DIV_divides [of k DATO_WORD] unfolding a d Let_def by simp_all
  with a show ?thesis by (simp add: k_def)
qed

subsection \<open>Normalisation\<close>

lemma halves_double: "halves (push_bit 1 ac OR drop_bit 15 mq) (push_bit 1 mq) = push_bit 1 (halves ac mq)"
proof (rule bit_word_eqI)
  fix n :: nat assume n: "n < LENGTH(32)"
  show "bit (halves (push_bit 1 ac OR drop_bit 15 mq) (push_bit 1 mq)) n = bit (push_bit 1 (halves ac mq)) n"
    using n bit_imp_le_length [of mq "15 + (n - 16)"] bit_imp_le_length [of mq "n - 1"]
    unfolding bit_halves bit_or_iff bit_push_bit_iff bit_drop_bit_eq comp_def
    by (cases "n = 16") auto
qed

lemma top_bits_equal:
  assumes "bit (t :: u32) 31 = bit t 30"
  shows "sint (push_bit 1 t) = 2 * sint t"
proof -
  have "sint (push_bit 1 t) = signed_take_bit 31 (2 * sint t)"
    by (simp add: push_bit_eq_mult mult.commute sint_word_mult)
  moreover have "- (2 ^ 31) \<le> 2 * sint t \<and> 2 * sint t < 2 ^ 31"
  proof -
    have "signed_drop_bit 30 t = (if bit t 31 then - 1 else 0)"
    proof (rule bit_word_eqI)
      fix n :: nat assume n: "n < LENGTH(32)"
      then have "n = 0 \<or> n = 1 \<or> 2 \<le> n" by linarith
      then show "bit (signed_drop_bit 30 t) n = bit (if bit t 31 then - 1 else 0 :: u32) n"
        using n assms by (auto simp: bit_signed_drop_bit_iff)
    qed
    then have "sint t div 2 ^ 30 = - 1 \<or> sint t div 2 ^ 30 = 0"
      by (metis sint_signed_drop_bit_eq drop_bit_eq_div sint_0 sint_n1)
    then show ?thesis by auto
  qed
  ultimately show ?thesis by (simp add: signed_take_bit_int_eq_self)
qed

lemma not_normalized_top:
  "\<not> normalized ac mq \<Longrightarrow> bit (halves ac mq) 31 = bit (halves ac mq) 30"
  unfolding normalized_def get_sign_word_def bit_xor_iff bit_push_bit_iff bit_halves by auto

lemma nor_loop_scales:
  assumes "nor_loop n sc ac mq = (sc', ac', mq')"
  shows "\<exists>m\<le>n. sc' = sc + of_nat m \<and> sint (halves ac' mq') = sint (halves ac mq) * 2 ^ m \<and>
     (m < n \<longrightarrow> normalized ac' mq')"
  using assms
proof (induction n sc ac mq rule: nor_loop.induct)
  case (1 sc ac mq)
  then show ?case by simp
next
  case (2 n sc ac mq)
  show ?case
  proof (cases "normalized ac mq")
    case True
    with 2 show ?thesis by (intro exI [of _ 0]) simp
  next
    case False
    with 2(2) have "nor_loop n (sc + 1) (push_bit 1 ac OR drop_bit 15 mq) (push_bit 1 mq) = (sc', ac', mq')"
      by (simp only: nor_loop.simps if_False)
    from 2(1) [OF False this] obtain m where m: "m \<le> n" "sc' = sc + 1 + of_nat m"
      "sint (halves ac' mq') = sint (push_bit 1 (halves ac mq)) * 2 ^ m" "m < n \<longrightarrow> normalized ac' mq'"
      unfolding halves_double by blast
    with top_bits_equal [OF not_normalized_top [OF False]] show ?thesis
      by (intro exI [of _ "Suc m"]) (simp add: algebra_simps)
  qed
qed

text \<open>
  Writing NOR normalises: AC:MQ is multiplied by two to the step count without
  losing bits, at most 31 steps, and stops only at a normalised value or after 31 steps.
\<close>

theorem ke_NOR_normalizes:
  "let k' = ke_NOR k in
   unat (ke_sc k') \<le> 31 \<and> acmq k' = acmq k * 2 ^ unat (ke_sc k') \<and>
   (unat (ke_sc k') < 31 \<longrightarrow> normalized (ke_ac k') (ke_mq k')) \<and>
   (status_N k' \<longleftrightarrow> acmq k < 0) \<and> \<not> status_V k' \<and> \<not> status_C k'"
proof -
  obtain sc ac mq where n: "nor_loop 31 0 (ke_ac k) (ke_mq k) = (sc, ac, mq)" by (metis prod_cases3)
  from nor_loop_scales [OF n] obtain m where m: "m \<le> 31" "sc = of_nat m"
    "sint (halves ac mq) = sint (halves (ke_ac k) (ke_mq k)) * 2 ^ m" "m < 31 \<longrightarrow> normalized ac mq" by auto
  have sc: "unat sc = m" using m(1,2) by (simp add: unat_of_nat)
  let ?k1 = "k\<lparr>ke_ac := ac, ke_mq := mq, ke_sc := sc, ke_sr := (if get_sign_word ac then SR_N OR SR_NXV else 0)\<rparr>"
  have e: "ke_NOR k = show_result ?k1" by (simp add: ke_NOR_def n)
  have a: "acmq (ke_NOR k) = acmq k * 2 ^ m" using m(3) by (simp add: e acmq_def)
  have "get_sign_word ac \<longleftrightarrow> acmq (ke_NOR k) < 0" unfolding acmq_sign by (simp add: e)
  also have "\<dots> \<longleftrightarrow> acmq k < 0" unfolding a by (simp add: mult_less_0_iff)
  finally have s: "get_sign_word ac \<longleftrightarrow> acmq k < 0" .
  have "status_N (ke_NOR k) = get_sign_word ac" "\<not> status_V (ke_NOR k)" "\<not> status_C (ke_NOR k)"
    unfolding e status_show_result unfolding status_N_def status_V_def status_C_def
    by (simp_all add: bit_or_iff SR_bits)
  then show ?thesis using m(1,4) sc a s by (simp add: e)
qed

subsection \<open>Shifts\<close>

lemma bit_sign_fill: "bit (sign_fill b n) i \<longleftrightarrow> b \<and> n \<le> i \<and> i < 32"
  by (auto simp: sign_fill_def bit_push_bit_iff bit_minus_1_iff bit_not_iff bit_mask_iff dest: bit_imp_le_length)

lemma bit_small_mask: "(0x3f :: u16) = mask 6"
  by (simp add: mask_eq_exp_minus_1)

lemma shift_count: "unat (v AND 0x3f :: u16) < 64"
proof -
  have "v AND 0x3f = take_bit 6 v" unfolding bit_small_mask by (simp add: take_bit_eq_mask)
  then have "unat (v AND 0x3f) = unat v mod 64"
    by (simp add: take_bit_eq_mod unat_mod)
  then show ?thesis by simp
qed

lemma and_1_bit: "(w :: u32) AND 1 \<noteq> 0 \<longleftrightarrow> bit w 0"
  by (simp add: bit_0 odd_iff_mod_2_eq_one and_one_eq)

lemma shift_status_bits:
  "\<not> bit (shift_status s t) 6" "bit (shift_status s t) 7 \<longleftrightarrow> s \<noteq> (if get_sign_long t then - 1 else 0)"
  "bit (shift_status s t) 0 \<longleftrightarrow> bit s 0"
  unfolding shift_status_def and_1_bit by (auto simp: bit_or_iff SR_bits)

lemma shift_register_values:
  "ke_sr ((set_acmq t k)\<lparr>ke_sr := x\<rparr>) = x"
  "halves (ke_ac ((set_acmq t k)\<lparr>ke_sr := x\<rparr>)) (ke_mq ((set_acmq t k)\<lparr>ke_sr := x\<rparr>)) = t"
  "ke_sc ((set_acmq t k)\<lparr>ke_sr := x\<rparr>) = ke_sc k"
  by simp_all

lemma lsh_left_parts:
  assumes "0 < n" "n < 32" "get_sign_word (ke_ac k)  = bit t 31"
  shows "signed_drop_bit (32 - n) (t :: u32) OR sign_fill (get_sign_word (ke_ac k)) n = signed_drop_bit (32 - n) t"
    "(signed_drop_bit (32 - n) t \<noteq> (if get_sign_long (push_bit n t) then - 1 else 0)) \<longleftrightarrow>
     \<not> (- (2 ^ (31 - n)) \<le> sint t \<and> sint t < 2 ^ (31 - n))"
    "bit (signed_drop_bit (32 - n) t) 0 \<longleftrightarrow> bit t (32 - n)"
proof -
  have b: "bit (signed_drop_bit (32 - n) t) i = bit t (if i < n then 32 - n + i else 31)" if "i < 32" for i
    using that assms(1,2) by (auto simp: bit_signed_drop_bit_iff)
  show "signed_drop_bit (32 - n) t OR sign_fill (get_sign_word (ke_ac k)) n = signed_drop_bit (32 - n) t"
    by (rule bit_word_eqI) (use b assms in \<open>auto simp: bit_or_iff bit_sign_fill\<close>)
  show "bit (signed_drop_bit (32 - n) t) 0 \<longleftrightarrow> bit t (32 - n)"
    using b [of 0] assms(1) by simp
  have s: "get_sign_long (push_bit n t) \<longleftrightarrow> bit t (31 - n)"
    using assms(2) by (auto simp: get_sign_long_def bit_push_bit_iff)
  have "(signed_drop_bit (32 - n) t = (if get_sign_long (push_bit n t) then - 1 else 0)) \<longleftrightarrow>
      (\<forall>i. 31 - n \<le> i \<and> i < 32 \<longrightarrow> bit t i = bit t 31)"
  proof
    assume e: "signed_drop_bit (32 - n) t = (if get_sign_long (push_bit n t) then - 1 else 0)"
    have c: "bit (signed_drop_bit (32 - n) t) i = bit t (31 - n)" if "i < 32" for i
      unfolding e s using that by simp
    show "\<forall>i. 31 - n \<le> i \<and> i < 32 \<longrightarrow> bit t i = bit t 31"
    proof (intro allI impI)
      fix i assume i: "31 - n \<le> i \<and> i < 32"
      have "bit t 31 = bit t (31 - n)" using b [of 31] c [of 31] assms(2) by simp
      moreover have "bit t i = bit t (31 - n)"
      proof (cases "i = 31 - n")
        case False
        with i assms(2) have j: "i - (32 - n) < n" "32 - n + (i - (32 - n)) = i" "i - (32 - n) < 32" by linarith+
        show ?thesis using b [OF j(3)] c [OF j(3)] j by simp
      qed simp
      ultimately show "bit t i = bit t 31" by simp
    qed
  next
    assume a: "\<forall>i. 31 - n \<le> i \<and> i < 32 \<longrightarrow> bit t i = bit t 31"
    have "bit t (31 - n) = bit t 31" using a [rule_format, of "31 - n"] assms(2) by simp
    moreover have "bit (signed_drop_bit (32 - n) t) i = bit t 31" if "i < 32" for i
    proof (cases "i < n")
      case True
      then have "31 - n \<le> 32 - n + i \<and> 32 - n + i < 32" using assms(2) by linarith
      from a [rule_format, OF this] b [OF that] True show ?thesis by simp
    qed (use b [OF that] in simp)
    ultimately show "signed_drop_bit (32 - n) t = (if get_sign_long (push_bit n t) then - 1 else 0)"
      unfolding s by (intro bit_word_eqI) simp
  qed
  then show "(signed_drop_bit (32 - n) t \<noteq> (if get_sign_long (push_bit n t) then - 1 else 0)) \<longleftrightarrow>
     \<not> (- (2 ^ (31 - n)) \<le> sint t \<and> sint t < 2 ^ (31 - n))"
    using top_bits_range [of "31 - n" t] by simp
qed

text \<open>What LSH and ASH share: the status after the shift and the sign correction.\<close>

lemma shift_result:
  assumes "k' = show_result (negate_status (ke_ac k1) k1)" "k1 = (set_acmq t k)\<lparr>ke_sr := x\<rparr>" "\<not> bit x 6"
  shows "halves (ke_ac k') (ke_mq k') = t" "ke_sc k' = ke_sc k" "status_N k' \<longleftrightarrow> sint t < 0"
    "status_V k' \<longleftrightarrow> bit x 7" "status_C k' \<longleftrightarrow> bit x 0"
proof -
  have h: "halves (ke_ac k1) (ke_mq k1) = t" "ke_sc k1 = ke_sc k" "ke_sr k1 = x"
    unfolding assms(2) by simp_all
  show "halves (ke_ac k') (ke_mq k') = t" "ke_sc k' = ke_sc k" using h by (simp_all add: assms(1))
  have "sint t < 0 \<longleftrightarrow> get_sign_word (ke_ac k1)"
    unfolding sign_sint_32 [symmetric] h(1) [symmetric] halves_sign get_sign_word_def ..
  with status_negate [of k1 "ke_ac k1"] assms(3) h
  show "status_N k' \<longleftrightarrow> sint t < 0" "status_V k' \<longleftrightarrow> bit x 7" "status_C k' \<longleftrightarrow> bit x 0"
    unfolding assms(1) by (simp_all add: status_C_def [of k1] del: show_result_sel)
qed

lemma shift_none:
  assumes "k' = show_result (negate_status (ke_ac k0) k0)" "ke_sr k0 = 0"
  shows "halves (ke_ac k') (ke_mq k') = halves (ke_ac k0) (ke_mq k0)" "\<not> status_V k'" "\<not> status_C k'"
    "status_N k' \<longleftrightarrow> acmq k0 < 0" "ke_sc k' = ke_sc k0"
  using status_negate [of k0 "ke_ac k0"] assms
  by (simp_all add: status_C_def [of k0] acmq_sign del: show_result_sel(4))

text \<open>
  Writing LSH shifts AC:MQ logically by the low six bits of the operand: below 32 left
  by that count, from 32 on right by 64 minus the count. The carry is the last bit shifted out;
  overflow after a left shift tells exactly that the signed value was not multiplied by the
  power of two, and is clear after a right shift; N is the sign of the result, SC is zero.
\<close>

theorem ke_LSH_shifts:
  "let n = unat (dato k 6 AND 0x3f); t = halves (ke_ac k) (ke_mq k); k' = ke_LSH k in
   halves (ke_ac k') (ke_mq k') = (if n < 32 then push_bit n t else drop_bit (64 - n) t) \<and>
   (status_C k' \<longleftrightarrow> n \<noteq> 0 \<and> (if n < 32 then bit t (32 - n) else bit t (63 - n))) \<and>
   (status_V k' \<longleftrightarrow> n < 32 \<and> acmq k' \<noteq> acmq k * 2 ^ n) \<and>
   (status_N k' \<longleftrightarrow> acmq k' < 0) \<and> ke_sc k' = 0"
proof -
  define n where "n = unat (dato k 6 AND 0x3f)"
  define t where "t = halves (ke_ac k) (ke_mq k)"
  let ?k0 = "k\<lparr>ke_sc := 0, ke_sr := 0\<rparr>"
  have n64: "n < 64" unfolding n_def by (rule shift_count)
  have tt: "sext_acmq ?k0 = t" "get_sign_word (ke_ac ?k0) = bit t 31"
    by (simp_all add: sext_acmq_eq t_def halves_sign get_sign_word_def)
  consider "n = 0" | "0 < n" "n < 32" | "32 \<le> n" by linarith
  then show ?thesis
    unfolding Let_def n_def [symmetric] t_def [symmetric]
  proof cases
    case 1
    have "ke_LSH k = show_result (negate_status (ke_ac ?k0) ?k0)"
      using 1 by (simp add: ke_LSH_def n_def Let_def)
    note r = shift_none [OF this]
    show "halves (ke_ac (ke_LSH k)) (ke_mq (ke_LSH k)) = (if n < 32 then push_bit n t else drop_bit (64 - n) t) \<and>
      (status_C (ke_LSH k) \<longleftrightarrow> n \<noteq> 0 \<and> (if n < 32 then bit t (32 - n) else bit t (63 - n))) \<and>
      (status_V (ke_LSH k) \<longleftrightarrow> n < 32 \<and> acmq (ke_LSH k) \<noteq> acmq k * 2 ^ n) \<and>
      (status_N (ke_LSH k) \<longleftrightarrow> acmq (ke_LSH k) < 0) \<and> ke_sc (ke_LSH k) = 0"
      using r 1 by (simp add: acmq_def t_def)
  next
    case 2
    note p = lsh_left_parts [OF 2 tt(2)]
    let ?x = "shift_status (signed_drop_bit (32 - n) t) (push_bit n t)"
    let ?k1 = "(set_acmq (push_bit n t) ?k0)\<lparr>ke_sr := ?x\<rparr>"
    have "ke_LSH k = show_result (negate_status (ke_ac ?k1) ?k1)"
      using 2 p(1) by (simp add: ke_LSH_def n_def [symmetric] Let_def lsh_def tt(1))
    note r = shift_result [OF this refl shift_status_bits(1)]
    have "status_V (ke_LSH k) \<longleftrightarrow> acmq (ke_LSH k) \<noteq> acmq k * 2 ^ n"
      unfolding r(4) shift_status_bits p(2) acmq_def r(1) t_def [symmetric]
      using shift_in_range(1) [of n t] 2 by simp
    moreover have "status_C (ke_LSH k) \<longleftrightarrow> bit t (32 - n)" unfolding r(5) shift_status_bits p(3) ..
    ultimately show "halves (ke_ac (ke_LSH k)) (ke_mq (ke_LSH k)) = (if n < 32 then push_bit n t else drop_bit (64 - n) t) \<and>
      (status_C (ke_LSH k) \<longleftrightarrow> n \<noteq> 0 \<and> (if n < 32 then bit t (32 - n) else bit t (63 - n))) \<and>
      (status_V (ke_LSH k) \<longleftrightarrow> n < 32 \<and> acmq (ke_LSH k) \<noteq> acmq k * 2 ^ n) \<and>
      (status_N (ke_LSH k) \<longleftrightarrow> acmq (ke_LSH k) < 0) \<and> ke_sc (ke_LSH k) = 0"
      using r(1,2,3) 2 by (simp add: acmq_def)
  next
    case 3
    let ?t' = "if n \<noteq> 32 then drop_bit (64 - n) t else 0"
    let ?x = "if signed_drop_bit (63 - n) t AND 1 \<noteq> 0 then SR_C else 0"
    let ?k1 = "(set_acmq ?t' ?k0)\<lparr>ke_sr := ?x\<rparr>"
    have e: "ke_LSH k = show_result (negate_status (ke_ac ?k1) ?k1)"
      using 3 by (simp add: ke_LSH_def n_def [symmetric] Let_def lsh_def tt(1))
    have x: "\<not> bit ?x 6" "\<not> bit ?x 7" "bit ?x 0 \<longleftrightarrow> bit t (63 - n)"
      unfolding and_1_bit using 3 n64 by (auto simp: SR_bits bit_signed_drop_bit_iff)
    note r = shift_result [OF e refl x(1)]
    have d: "?t' = drop_bit (64 - n) t"
      by (cases "n = 32") (auto intro!: bit_word_eqI simp: bit_drop_bit_eq dest: bit_imp_le_length)
    show "halves (ke_ac (ke_LSH k)) (ke_mq (ke_LSH k)) = (if n < 32 then push_bit n t else drop_bit (64 - n) t) \<and>
      (status_C (ke_LSH k) \<longleftrightarrow> n \<noteq> 0 \<and> (if n < 32 then bit t (32 - n) else bit t (63 - n))) \<and>
      (status_V (ke_LSH k) \<longleftrightarrow> n < 32 \<and> acmq (ke_LSH k) \<noteq> acmq k * 2 ^ n) \<and>
      (status_N (ke_LSH k) \<longleftrightarrow> acmq (ke_LSH k) < 0) \<and> ke_sc (ke_LSH k) = 0"
      using r [unfolded d] x 3 by (simp add: acmq_def)
  qed
qed

text \<open>The arithmetic shift left keeps the sign; without overflow it is the plain shift.\<close>

lemma sign_mask_bits:
  "bit (0x80000000 :: u32) i \<longleftrightarrow> i = 31" "bit (0x7fffffff :: u32) i \<longleftrightarrow> i < 31"
proof -
  have a: "(0x80000000 :: u32) = push_bit 31 1" by simp
  have b: "(0x7fffffff :: u32) = mask 31" by (simp add: mask_eq_exp_minus_1)
  show "bit (0x80000000 :: u32) i \<longleftrightarrow> i = 31" unfolding a bit_push_bit_iff bit_1_iff by auto
  show "bit (0x7fffffff :: u32) i \<longleftrightarrow> i < 31" unfolding b bit_mask_iff by auto
qed

lemma ash_left_bits:
  "bit ((t AND 0x80000000) OR (push_bit n t AND 0x7fffffff) :: u32) i \<longleftrightarrow>
     (if i = 31 then bit t 31 else i < 31 \<and> n \<le> i \<and> bit t (i - n))"
  unfolding bit_or_iff bit_and_iff bit_push_bit_iff sign_mask_bits by auto

lemma ash_left_parts:
  fixes t :: u32
  assumes "n < 32" "get_sign_word ac = bit t 31"
  defines "t' \<equiv> (t AND 0x80000000) OR (push_bit n t AND 0x7fffffff)"
  shows "signed_drop_bit (31 - n) t OR sign_fill (get_sign_word ac) n = signed_drop_bit (31 - n) t"
    "(signed_drop_bit (31 - n) t \<noteq> (if get_sign_long t' then - 1 else 0)) \<longleftrightarrow>
     \<not> (- (2 ^ (31 - n)) \<le> sint t \<and> sint t < 2 ^ (31 - n))"
    "bit (signed_drop_bit (31 - n) t) 0 \<longleftrightarrow> bit t (31 - n)"
    "- (2 ^ (31 - n)) \<le> sint t \<and> sint t < 2 ^ (31 - n) \<Longrightarrow> t' = push_bit n t"
proof -
  have b: "bit (signed_drop_bit (31 - n) t) i = bit t (if i \<le> n then 31 - n + i else 31)" if "i < 32" for i
    using that assms(1) by (cases "n = 31") (auto simp: bit_signed_drop_bit_iff)
  show "signed_drop_bit (31 - n) t OR sign_fill (get_sign_word ac) n = signed_drop_bit (31 - n) t"
    by (rule bit_word_eqI) (use b assms in \<open>auto simp: bit_or_iff bit_sign_fill\<close>)
  show "bit (signed_drop_bit (31 - n) t) 0 \<longleftrightarrow> bit t (31 - n)" using b [of 0] by simp
  have s: "get_sign_long t' = bit t 31" unfolding get_sign_long_def t'_def ash_left_bits by simp
  have range: "(\<forall>i. 31 - n \<le> i \<and> i < 32 \<longrightarrow> bit t i = bit t 31) \<longleftrightarrow>
      - (2 ^ (31 - n)) \<le> sint t \<and> sint t < 2 ^ (31 - n)" by (rule top_bits_range) simp
  have "(signed_drop_bit (31 - n) t = (if get_sign_long t' then - 1 else 0)) \<longleftrightarrow>
      (\<forall>i. 31 - n \<le> i \<and> i < 32 \<longrightarrow> bit t i = bit t 31)"
  proof
    assume e: "signed_drop_bit (31 - n) t = (if get_sign_long t' then - 1 else 0)"
    have c: "bit (signed_drop_bit (31 - n) t) i = bit t 31" if "i < 32" for i
      unfolding e s using that by simp
    show "\<forall>i. 31 - n \<le> i \<and> i < 32 \<longrightarrow> bit t i = bit t 31"
    proof (intro allI impI)
      fix i assume i: "31 - n \<le> i \<and> i < 32"
      then have j: "i - (31 - n) < 32" "i - (31 - n) \<le> n" "31 - n + (i - (31 - n)) = i" using assms(1) by linarith+
      show "bit t i = bit t 31" using b [OF j(1)] c [OF j(1)] j by simp
    qed
  next
    assume a: "\<forall>i. 31 - n \<le> i \<and> i < 32 \<longrightarrow> bit t i = bit t 31"
    have "bit (signed_drop_bit (31 - n) t) i = bit t 31" if "i < 32" for i
    proof (cases "i \<le> n")
      case True
      then have "31 - n \<le> 31 - n + i \<and> 31 - n + i < 32" using assms(1) that by linarith
      from a [rule_format, OF this] b [OF that] True show ?thesis by simp
    qed (use b [OF that] in simp)
    then show "signed_drop_bit (31 - n) t = (if get_sign_long t' then - 1 else 0)"
      unfolding s by (intro bit_word_eqI) simp
  qed
  then show "(signed_drop_bit (31 - n) t \<noteq> (if get_sign_long t' then - 1 else 0)) \<longleftrightarrow>
     \<not> (- (2 ^ (31 - n)) \<le> sint t \<and> sint t < 2 ^ (31 - n))" unfolding range by simp
  assume "- (2 ^ (31 - n)) \<le> sint t \<and> sint t < 2 ^ (31 - n)"
  then have e: "\<forall>i. 31 - n \<le> i \<and> i < 32 \<longrightarrow> bit t i = bit t 31" unfolding range .
  have e31: "bit t (31 - n) = bit t 31" using e [rule_format, of "31 - n"] by simp
  show "t' = push_bit n t"
  proof (rule bit_word_eqI)
    fix i :: nat assume "i < LENGTH(32)"
    then show "bit t' i = bit (push_bit n t) i"
      unfolding t'_def ash_left_bits bit_push_bit_iff using assms(1) e31 by (cases "i = 31") simp_all
  qed
qed

lemma ash_right:
  assumes "32 \<le> n" "n < 64"
  shows "(if n \<noteq> 32 then drop_bit (64 - n) t OR sign_fill (bit t 31) (n - 32) else sign_fill (bit t 31) 0) =
     signed_drop_bit (64 - n) (t :: u32)"
  by (rule bit_word_eqI)
    (use assms in \<open>auto simp: bit_or_iff bit_sign_fill bit_drop_bit_eq bit_signed_drop_bit_iff dest: bit_imp_le_length\<close>)

text \<open>
  Writing ASH shifts the signed AC:MQ arithmetically. A count below 32 multiplies it
  by the power of two, or reports overflow exactly when the product does not fit, keeping the
  sign; a count from 32 on divides it by the power of two 64 minus the count, rounding down,
  without overflow. The carry is the last bit shifted out next to the sign, N is the sign, SC
  is zero.
\<close>

theorem ke_ASH_shifts:
  "let n = unat (dato k 7 AND 0x3f); t = halves (ke_ac k) (ke_mq k); k' = ke_ASH k in
   (if n < 32
    then (status_V k' \<longleftrightarrow> acmq k * 2 ^ n < - (2 ^ 31) \<or> 2 ^ 31 \<le> acmq k * 2 ^ n) \<and>
         (\<not> status_V k' \<longrightarrow> acmq k' = acmq k * 2 ^ n) \<and> (acmq k' < 0 \<longleftrightarrow> acmq k < 0)
    else \<not> status_V k' \<and> acmq k' = acmq k div 2 ^ (64 - n)) \<and>
   (status_C k' \<longleftrightarrow> n \<noteq> 0 \<and> (if n < 32 then bit t (31 - n) else bit t (63 - n))) \<and>
   (status_N k' \<longleftrightarrow> acmq k' < 0) \<and> ke_sc k' = 0"
  (is "let n = _; t = _; k' = _ in ?P n t k'")
proof -
  define n where "n = unat (dato k 7 AND 0x3f)"
  define t where "t = halves (ke_ac k) (ke_mq k)"
  let ?k0 = "k\<lparr>ke_sc := 0, ke_sr := 0\<rparr>"
  have n64: "n < 64" unfolding n_def by (rule shift_count)
  have tt: "sext_acmq ?k0 = t" "get_sign_word (ke_ac ?k0) = bit t 31"
    by (simp_all add: sext_acmq_eq t_def halves_sign get_sign_word_def)
  have at: "acmq k = sint t" by (simp add: acmq_def t_def)
  have "?P n t (ke_ASH k)"
  proof (cases "n = 0")
    case True
    have "ke_ASH k = show_result (negate_status (ke_ac ?k0) ?k0)"
      using True by (simp add: ke_ASH_def n_def Let_def)
    from shift_none [OF this] True sint_bounds_32 [of t] show ?thesis by (simp add: acmq_def t_def)
  next
    case n0: False
    show ?thesis
    proof (cases "n < 32")
      case True
      note p = ash_left_parts [OF True tt(2)]
      let ?t' = "(t AND 0x80000000) OR (push_bit n t AND 0x7fffffff)"
      let ?x = "shift_status (signed_drop_bit (31 - n) t) ?t'"
      let ?k1 = "(set_acmq ?t' ?k0)\<lparr>ke_sr := ?x\<rparr>"
      have "ke_ASH k = show_result (negate_status (ke_ac ?k1) ?k1)"
        using True n0 p(1) by (simp add: ke_ASH_def n_def [symmetric] Let_def ash_def tt(1))
      note r = shift_result [OF this refl shift_status_bits(1)]
      have at': "acmq (ke_ASH k) = sint ?t'" unfolding acmq_def r(1) ..
      have e: "(2 :: int) ^ 31 = 2 ^ (31 - n) * 2 ^ n" using True by (simp flip: power_add)
      have range: "- (2 ^ (31 - n)) \<le> sint t \<and> sint t < 2 ^ (31 - n) \<longleftrightarrow>
          \<not> (sint t * 2 ^ n < - (2 ^ 31) \<or> 2 ^ 31 \<le> sint t * 2 ^ n)"
        unfolding e by (simp add: mult_less_cancel_right flip: mult_minus_left) linarith
      have V: "status_V (ke_ASH k) \<longleftrightarrow> sint t * 2 ^ n < - (2 ^ 31) \<or> 2 ^ 31 \<le> sint t * 2 ^ n"
        unfolding r(4) shift_status_bits p(2) range by simp
      have "\<not> status_V (ke_ASH k) \<longrightarrow> sint ?t' = sint t * 2 ^ n"
        using V range p(4) shift_in_range(1) [of n t] True by auto
      moreover have "sint ?t' < 0 \<longleftrightarrow> sint t < 0"
        unfolding sign_sint_32 [symmetric] ash_left_bits by simp
      ultimately show ?thesis
        using V r(2,3,5) True n0 p(3) unfolding at at' by (simp add: shift_status_bits)
    next
      case False
      then have n: "32 \<le> n" "n < 64" using n64 by simp_all
      let ?x = "if signed_drop_bit (63 - n) t AND 1 \<noteq> 0 then SR_C else 0"
      let ?k1 = "(set_acmq (signed_drop_bit (64 - n) t) ?k0)\<lparr>ke_sr := ?x\<rparr>"
      have a: "ash n ?k0 = ?k1"
        using False unfolding ash_def Let_def tt by (simp only: if_False ash_right [OF n])
      have "ke_ASH k = show_result (negate_status (ke_ac ?k1) ?k1)"
        using n0 unfolding ke_ASH_def n_def [symmetric] Let_def a by simp
      moreover have x: "\<not> bit ?x 6" "\<not> bit ?x 7" "bit ?x 0 \<longleftrightarrow> bit t (63 - n)"
        unfolding and_1_bit using n by (auto simp: SR_bits bit_signed_drop_bit_iff)
      ultimately have r: "halves (ke_ac (ke_ASH k)) (ke_mq (ke_ASH k)) = signed_drop_bit (64 - n) t"
        "ke_sc (ke_ASH k) = 0" "status_N (ke_ASH k) \<longleftrightarrow> sint (signed_drop_bit (64 - n) t) < 0"
        "\<not> status_V (ke_ASH k)" "status_C (ke_ASH k) \<longleftrightarrow> bit t (63 - n)"
        using shift_result [OF _ refl x(1)] by simp_all
      have "acmq (ke_ASH k) = sint t div 2 ^ (64 - n)"
        unfolding acmq_def r(1) sint_signed_drop_bit_eq drop_bit_eq_div ..
      then show ?thesis using r n n0 unfolding at by (simp add: acmq_def)
    qed
  qed
  then show ?thesis unfolding Let_def n_def t_def .
qed

subsection \<open>What the registers show\<close>

definition ke_regs_ok :: "ke11 \<Rightarrow> bool" where
  "ke_regs_ok k \<longleftrightarrow> dati k 1 = ke_ac k \<and> dati k 2 = ke_mq k \<and>
     dati k 4 = push_bit 8 (ucast (ke_sr k)) OR ucast (ke_sc k)"

definition dynamic_ok :: "ke11 \<Rightarrow> bool" where
  "dynamic_ok k \<longleftrightarrow> ke_sr k AND SR_DYN = dynamic_bits (ke_ac k) (ke_mq k)"

lemma update_SCSR_dynamic: "dynamic_ok (update_SCSR k)"
proof -
  have "((ke_sr k AND NOT SR_DYN) OR dynamic_bits a m) AND SR_DYN = dynamic_bits a m" for a m
    by (rule bit_word_eqI)
      (auto simp: bit_and_iff bit_or_iff bit_not_iff SR_DYN_bits dest: dynamic_bits_static)
  then show ?thesis by (simp add: dynamic_ok_def update_SCSR_def Let_def set_dati_def)
qed

lemma update_SCSR_regs:
  "dati k 1 = ke_ac k \<Longrightarrow> dati k 2 = ke_mq k \<Longrightarrow> ke_regs_ok (update_SCSR k)"
  by (simp add: ke_regs_ok_def update_SCSR_def Let_def set_dati_def)

lemma show_result_regs: "ke_regs_ok (show_result k) \<and> dynamic_ok (show_result k)"
  unfolding show_result_def
  using update_SCSR_regs [of "update_MQ (update_AC k)"] update_SCSR_dynamic
  by (simp add: update_MQ_def update_AC_def set_dati_def)

lemma AC_write_regs:
  assumes "ke_regs_ok k"
  shows "ke_regs_ok (ke_AC_write access k) \<and> dynamic_ok (ke_AC_write access k)"
  using assms update_SCSR_regs [of "update_AC (k\<lparr>ke_ac := byte_operand access (dato k 1)\<rparr>)"] update_SCSR_dynamic
  by (simp add: ke_AC_write_def update_AC_def set_dati_def ke_regs_ok_def)

lemma SCSR_halves:
  "push_bit 8 (ucast (ucast (drop_bit 8 v) :: u8)) OR ucast (ucast v :: u8) = (v :: u16)"
  by (rule bit_word_eqI) (auto simp: bit_or_iff bit_push_bit_iff bit_ucast_iff bit_drop_bit_eq)

lemma SCSR_write_regs:
  assumes "ke_regs_ok k"
  shows "ke_regs_ok (ke_SCSR_write access k)"
  using assms SCSR_halves by (simp add: ke_SCSR_write_def Let_def ke_regs_ok_def set_dati_def del: drop_bit_and)

text \<open>
  In every access the AC, MQ and SC/SR registers go on showing the KE11's state; and
  after every write except to SC/SR the status bits that depend on AC and MQ (zero, minus one,
  sign extension) are the right ones. Reads are those of the registers active on reads.
\<close>

theorem ke_registers_show_state:
  assumes "ke_regs_ok k" "i < 8" "control = QUNIBUS_CYCLE_DATI \<Longrightarrow> i \<in> {0, 3, 6, 7}"
  shows "ke_regs_ok (ke_on_after_register_access i control access k) \<and>
     (control \<noteq> QUNIBUS_CYCLE_DATI \<and> i \<noteq> 4 \<longrightarrow> dynamic_ok (ke_on_after_register_access i control access k))"
proof (cases "control = QUNIBUS_CYCLE_DATI")
  case True
  then have "ke_on_after_register_access i control access k = set_dati i 0 k"
    by (simp add: ke_on_after_register_access_def)
  moreover have "i \<noteq> 1" "i \<noteq> 2" "i \<noteq> 4" using assms(3) [OF True] by auto
  ultimately show ?thesis using assms(1) True by (simp add: ke_regs_ok_def set_dati_def)
next
  case False
  from assms(2) have "i = 0 \<or> i = 1 \<or> i = 2 \<or> i = 3 \<or> i = 4 \<or> i = 5 \<or> i = 6 \<or> i = 7" by linarith
  with False show ?thesis
    using AC_write_regs [OF assms(1), of access] SCSR_write_regs [OF assms(1), of access] show_result_regs
    by (elim disjE) (simp_all add: ke_on_after_register_access_def ke_write_register_def ke_DIV_def ke_MQ_write_def
        ke_MUL_def ke_NOR_def ke_LSH_def ke_ASH_def Let_def case_prod_beta)
qed

definition sample_ke11 :: ke11 where
  "sample_ke11 = \<lparr>dati = (\<lambda>_. 0), dato = (\<lambda>_. 7), ke_ac = 0, ke_mq = 0, ke_sr = 0, ke_sc = 0\<rparr>"

theorem ke_registers_show_state_witness:
  "ke_regs_ok (ke_on_after_register_access 0 QUNIBUS_CYCLE_DATO DATO_WORD sample_ke11) \<and>
   dynamic_ok (ke_on_after_register_access 0 QUNIBUS_CYCLE_DATO DATO_WORD sample_ke11)"
proof -
  have "ke_regs_ok sample_ke11" by (simp add: ke_regs_ok_def sample_ke11_def)
  moreover have "QUNIBUS_CYCLE_DATO \<noteq> QUNIBUS_CYCLE_DATI"
    by (simp add: QUNIBUS_CYCLE_DATO_def QUNIBUS_CYCLE_DATI_def)
  ultimately show ?thesis
    using ke_registers_show_state [of sample_ke11 0 QUNIBUS_CYCLE_DATO DATO_WORD] by auto
qed

text \<open>
  Two registers show old values. Reading NOR after a normalisation gives the value of
  the last SC/SR write, not the step count; after a word write to SC/SR the status bits that
  depend on AC and MQ all read zero, though for AC zero at least one of them has to be set.
\<close>

theorem ke_stale_registers:
  "dati (ke_NOR k) 5 = dati k 5 \<and>
   dati (ke_SCSR_write DATO_WORD k) 4 AND push_bit 8 (ucast SR_DYN) = 0 \<and>
   (ke_ac k = 0 \<longrightarrow> \<not> dynamic_ok (ke_SCSR_write DATO_WORD k))"
proof (intro conjI impI)
  show "dati (ke_NOR k) 5 = dati k 5"
    by (simp add: ke_NOR_def show_result_def update_SCSR_def update_MQ_def update_AC_def Let_def set_dati_def
        case_prod_beta)
  have m: "SCSR_mask AND push_bit 8 (ucast SR_DYN) = 0"
    by (simp add: SCSR_mask_def SR_NXV_def SR_N_def SR_C_def SR_DYN_def SR_SXT_def SR_Z_def SR_MQZ_def SR_ACZ_def SR_ACM1_def)
  have d: "dati (ke_SCSR_write DATO_WORD k) 4 = dato k 4 AND SCSR_mask"
    by (simp add: ke_SCSR_write_def Let_def set_dati_def)
  show z: "dati (ke_SCSR_write DATO_WORD k) 4 AND push_bit 8 (ucast SR_DYN) = 0"
    unfolding d and.assoc m by simp
  assume ac: "ke_ac k = 0"
  have "ke_sr (ke_SCSR_write DATO_WORD k) AND SR_DYN = 0"
  proof (rule bit_word_eqI)
    fix n :: nat assume n: "n < LENGTH(8)"
    have "\<not> bit (dati (ke_SCSR_write DATO_WORD k) 4 AND push_bit 8 (ucast SR_DYN)) (n + 8)" unfolding z by simp
    then have "\<not> (bit (dato k 4) (n + 8) \<and> bit SCSR_mask (n + 8) \<and> bit SR_DYN n)"
      using n unfolding d bit_and_iff bit_push_bit_iff bit_ucast_iff by simp
    then show "bit (ke_sr (ke_SCSR_write DATO_WORD k) AND SR_DYN) n = bit (0 :: u8) n"
      by (auto simp: ke_SCSR_write_def Let_def set_dati_def bit_and_iff bit_ucast_iff bit_drop_bit_eq add.commute)
  qed
  moreover have "bit (dynamic_bits 0 m) 4" for m
    by (simp add: dynamic_bits_def bit_or_iff SR_ACZ_def)
  then have "dynamic_bits 0 m \<noteq> 0" for m by (metis bit_0_eq bot_apply bot_bool_def)
  ultimately show "\<not> dynamic_ok (ke_SCSR_write DATO_WORD k)"
    using ac by (simp add: dynamic_ok_def ke_SCSR_write_def Let_def set_dati_def)
qed

text \<open>
  A byte written to the low half of an operand register is sign extended only when it
  is negative: for a positive byte the operation uses the old high byte the register still
  holds from an earlier write.
\<close>

theorem ke_positive_byte_keeps_old_high_byte:
  assumes "dato_to_register d i QUNIBUS_CYCLE_DATOB addr data s = Some t" "addr AND 1 = 0"
    "writable_bits (the_reg d i s) = 0xffff" "\<not> get_sign_byte data"
  shows "byte_operand DATO_BYTEL (dato (view_of d t) i) AND 0xff00 = dato (view_of d s) i AND 0xff00"
proof -
  have "QUNIBUS_CYCLE_DATOB \<noteq> QUNIBUS_CYCLE_DATO" by (simp add: QUNIBUS_CYCLE_DATOB_def QUNIBUS_CYCLE_DATO_def)
  moreover have "data AND 0xffff = data"
  proof (rule bit_word_eqI)
    fix n :: nat assume "n < LENGTH(16)"
    then show "bit (data AND 0xffff) n = bit data n" unfolding bit_and_iff bit_ffff by simp
  qed
  ultimately have f: "dato (view_of d t) i = (dato (view_of d s) i AND 0xff00) OR (data AND 0x00ff)"
    using assms(2,3) dato_to_register_view [OF assms(1)] by (simp add: dato_flipflops_def view_of_def)
  have "\<not> get_sign_byte (dato (view_of d t) i)"
    using assms(4) unfolding f get_sign_byte_def bit_or_iff bit_and_iff bit_ff00 by simp
  then have "byte_operand DATO_BYTEL (dato (view_of d t) i) = dato (view_of d t) i" by (simp add: byte_operand_def)
  then show ?thesis
    unfolding f by (intro bit_word_eqI) (auto simp only: bit_and_iff bit_or_iff bit_ff00 bit_00ff)
qed

theorem ke_positive_byte_keeps_old_high_byte_witness:
  "\<exists>t. dato_to_register 1 0 QUNIBUS_CYCLE_DATOB 0 5 sample_iopage_linked = Some t \<and>
     byte_operand DATO_BYTEL (dato (view_of 1 t) 0) AND 0xff00 = dato (view_of 1 sample_iopage_linked) 0 AND 0xff00"
proof -
  obtain t where t: "dato_to_register 1 0 QUNIBUS_CYCLE_DATOB 0 5 sample_iopage_linked = Some t"
    using sample_linked [of QUNIBUS_CYCLE_DATOB 0 5] by auto
  have "writable_bits (the_reg 1 0 sample_iopage_linked) = 0xffff" "\<not> get_sign_byte 5"
    by (simp_all add: sample_iopage_linked_def get_sign_byte_def)
  with ke_positive_byte_keeps_old_high_byte [OF t] t show ?thesis by auto
qed

theorem ke_NOR_normalizes_witness:
  "normalized (ke_ac (ke_NOR (sample_ke11\<lparr>ke_ac := 0, ke_mq := 0x6000\<rparr>)))
     (ke_mq (ke_NOR (sample_ke11\<lparr>ke_ac := 0, ke_mq := 0x6000\<rparr>)))"
proof -
  have "unat (ke_sc (ke_NOR (sample_ke11\<lparr>ke_ac := 0, ke_mq := 0x6000\<rparr>))) = 16" by code_simp
  with ke_NOR_normalizes [of "sample_ke11\<lparr>ke_ac := 0, ke_mq := 0x6000\<rparr>"] show ?thesis
    by (simp add: Let_def)
qed

theorem ke_ASH_shifts_witness:
  "acmq (ke_ASH (sample_ke11\<lparr>ke_ac := 0xffff, ke_mq := 0xfffd, dato := (\<lambda>i. 3)\<rparr>)) = - 24"
proof -
  let ?k = "sample_ke11\<lparr>ke_ac := 0xffff, ke_mq := 0xfffd, dato := (\<lambda>i. 3)\<rparr>"
  have "\<not> status_V (ke_ASH ?k)" "unat (dato ?k 7 AND 0x3f) = 3" "acmq ?k = - 3" by code_simp+
  with ke_ASH_shifts [of ?k] show ?thesis by (simp add: Let_def)
qed

theorem ke_stale_registers_witness:
  "\<not> dynamic_ok (ke_SCSR_write DATO_WORD (sample_ke11\<lparr>ke_ac := 0\<rparr>))"
  using ke_stale_registers [of "sample_ke11\<lparr>ke_ac := 0\<rparr>"] by simp

end
