(* ===== verification/Bus_Memory.thy ===== *)
theory Bus_Memory
  imports Prelude
begin

text \<open>
  What a DMA of the adapter does to memory, as the devices rely on it: all the words of one
  request are transferred at ascending even addresses, until a slave does not answer. The
  memory on the bus is not part of the program; it is a map from addresses to words, without
  entries where nobody answers.

  \<open>dma_spec\<close> is the contract of the blocking \<^verbatim>\<open>qunibusadapter_c::DMA\<close> for the
  devices, its assertions included; \<open>limit\<close> is the number of bytes of the address space.
\<close>

type_synonym bus_memory = "u32 \<Rightarrow> u16 option"

fun bus_read :: "bus_memory \<Rightarrow> u32 \<Rightarrow> nat \<Rightarrow> u16 list option" where
  "bus_read m a 0 = Some []"
| "bus_read m a (Suc n) =
     do { w \<leftarrow> m a; ws \<leftarrow> bus_read m (a + 2) n; Some (w # ws) }"

fun bus_write :: "bus_memory \<Rightarrow> u32 \<Rightarrow> u16 list \<Rightarrow> bus_memory \<times> bool" where
  "bus_write m a [] = (m, True)"
| "bus_write m a (w # ws) =
     (case m a of None \<Rightarrow> (m, False) | Some _ \<Rightarrow> bus_write (m(a \<mapsto> w)) (a + 2) ws)"

datatype dma_direction = To_device | To_memory

text \<open>
  The result: success, the caller's buffer, memory. After a failed read no device uses the
  buffer; here it is left as it was.
\<close>

definition dma_spec ::
    "u32 \<Rightarrow> dma_direction \<Rightarrow> u32 \<Rightarrow> u16 list \<Rightarrow> nat \<Rightarrow> bus_memory \<Rightarrow> (bool \<times> u16 list \<times> bus_memory) option" where
  "dma_spec limit dir a buf n m =
     do { assert_that (0 < n \<and> n \<le> length buf);
          assert_that (a + 2 * of_nat n \<le> limit);
          Some (case dir of
            To_device \<Rightarrow>
              (case bus_read m a n of None \<Rightarrow> (False, buf, m) | Some ws \<Rightarrow> (True, ws @ drop n buf, m))
          | To_memory \<Rightarrow> (let (m', ok) = bus_write m a (take n buf) in (ok, buf, m'))) }"

lemma bus_read_length: "bus_read m a n = Some ws \<Longrightarrow> length ws = n"
  by (induction n arbitrary: a ws) (auto simp: Option.bind_eq_Some_conv)

lemma bus_read_iff:
  "bus_read m a n = Some ws \<longleftrightarrow> length ws = n \<and> (\<forall>i<n. m (a + 2 * of_nat i) = Some (ws ! i))"
proof (induction n arbitrary: a ws)
  case (Suc n)
  show ?case
  proof (cases ws)
    case Nil
    then show ?thesis by (auto simp: Option.bind_eq_Some_conv)
  next
    case (Cons w ws')
    have "(\<forall>i<Suc n. m (a + 2 * of_nat i) = Some (ws ! i)) \<longleftrightarrow>
        m a = Some w \<and> (\<forall>i<n. m (a + 2 + 2 * of_nat i) = Some (ws' ! i))"
      unfolding All_less_Suc2 by (simp add: Cons algebra_simps)
    with Suc show ?thesis by (auto simp: Cons Option.bind_eq_Some_conv)
  qed
qed auto

text \<open>Word addresses that do not wrap around are different.\<close>

lemma word_addr_unat:
  assumes "unat a + 2 * n \<le> 2 ^ 32" "k < n"
  shows "unat (a + 2 * of_nat k :: u32) = unat a + 2 * k"
proof -
  have "a + 2 * of_nat k = of_nat (unat a + 2 * k)" by simp
  then have "unat (a + 2 * of_nat k) = (unat a + 2 * k) mod 2 ^ 32"
    by (simp only: unat_of_nat) simp
  also have "\<dots> = unat a + 2 * k" by (rule mod_less) (use assms in linarith)
  finally show ?thesis .
qed

lemma word_addr_inject:
  assumes "unat a + 2 * n \<le> 2 ^ 32" "i < n" "j < n" "a + 2 * of_nat i = a + 2 * (of_nat j :: u32)"
  shows "i = j"
proof -
  from arg_cong [OF assms(4), of unat] have "unat a + 2 * i = unat a + 2 * j"
    unfolding word_addr_unat [OF assms(1,2)] word_addr_unat [OF assms(1,3)] .
  then show ?thesis by simp
qed


lemma word_addr_step:
  assumes "unat a + 2 * Suc n \<le> 2 ^ 32" "i < n"
  shows "a + 2 + 2 * of_nat i = a + 2 * of_nat (Suc i) \<and> a + 2 + 2 * (of_nat i :: u32) \<noteq> a"
proof
  show e: "a + 2 + 2 * of_nat i = a + 2 * of_nat (Suc i)" by (simp add: algebra_simps)
  show "a + 2 + 2 * (of_nat i :: u32) \<noteq> a"
  proof
    assume "a + 2 + 2 * of_nat i = a"
    with e have "a + 2 * of_nat (Suc i) = a + 2 * of_nat 0" by simp
    from word_addr_inject [OF assms(1) _ _ this] assms(2) show False by simp
  qed
qed

text \<open>A write to answering addresses succeeds, stores the words and changes nothing else.\<close>

lemma bus_write_ok:
  assumes "unat a + 2 * length ws \<le> 2 ^ 32" "\<forall>i<length ws. m (a + 2 * of_nat i) \<noteq> None"
  shows "snd (bus_write m a ws)"
    "i < length ws \<Longrightarrow> fst (bus_write m a ws) (a + 2 * of_nat i) = Some (ws ! i)"
    "(\<And>i. i < length ws \<Longrightarrow> x \<noteq> a + 2 * of_nat i) \<Longrightarrow> fst (bus_write m a ws) x = m x"
  using assms
proof (induction ws arbitrary: m a i x)
  case (Cons w ws)
  {
    fix m :: bus_memory and a :: u32
    assume p: "unat a + 2 * length (w # ws) \<le> 2 ^ 32" "\<forall>i<length (w # ws). m (a + 2 * of_nat i) \<noteq> None"
    have m: "m a \<noteq> None" using p(2) [rule_format, of 0] by simp
    have st: "a + 2 + 2 * of_nat i = a + 2 * of_nat (Suc i) \<and> a + 2 + 2 * of_nat i \<noteq> a" if "i < length ws" for i
      using p(1) that by (intro word_addr_step) simp_all
    have u: "unat (a + 2) + 2 * length ws \<le> 2 ^ 32"
    proof (cases "ws = []")
      case True
      then show ?thesis using unsigned_less [where 'a = nat, of "a + 2"] by simp
    next
      case False
      with p(1) have "unat (a + 2) = unat a + 2" by (cases ws) (auto simp: unat_word_ariths)
      with p(1) show ?thesis by simp
    qed
    have a: "\<forall>i<length ws. (m(a \<mapsto> w)) (a + 2 + 2 * of_nat i) \<noteq> None"
    proof (intro allI impI)
      fix i assume i: "i < length ws"
      then have "m (a + 2 * of_nat (Suc i)) \<noteq> None" using p(2) [rule_format, of "Suc i"] by simp
      then show "(m(a \<mapsto> w)) (a + 2 + 2 * of_nat i) \<noteq> None"
        unfolding conjunct1 [OF st [OF i]] fun_upd_apply by simp
    qed
    have e: "bus_write m a (w # ws) = bus_write (m(a \<mapsto> w)) (a + 2) ws" using m by auto
    note * = m st u a e
  }
  note * = this
  {
    case 1
    note h = * [OF this]
    from Cons.IH(1) [OF h(3,4)] show ?case unfolding h(5) .
  next
    case 2
    note h = * [OF 2(2,3)]
    show ?case
    proof (cases i)
      case 0
      have "fst (bus_write (m(a \<mapsto> w)) (a + 2) ws) a = (m(a \<mapsto> w)) a"
        by (rule Cons.IH(3) [OF _ h(3,4)]) (use h(2) in metis)
      then show ?thesis unfolding h(5) by (simp add: 0)
    next
      case (Suc j)
      then have j: "j < length ws" using 2(1) by simp
      have e: "a + 2 * of_nat i = a + 2 + 2 * of_nat j" using h(2) [OF j] Suc by simp
      show ?thesis unfolding h(5) e Cons.IH(2) [OF j h(3,4)] by (simp add: Suc)
    qed
  next
    case 3
    note h = * [OF 3(2,3)]
    have "fst (bus_write (m(a \<mapsto> w)) (a + 2) ws) x = (m(a \<mapsto> w)) x"
    proof (rule Cons.IH(3) [OF _ h(3,4)])
      fix i assume "i < length ws"
      with 3(1) [of "Suc i"] h(2) show "x \<noteq> a + 2 + 2 * of_nat i" by auto
    qed
    moreover have "x \<noteq> a" using 3(1) [of 0] by simp
    ultimately show ?case unfolding h(5) by simp
  }
qed simp_all

lemma bus_write_append:
  "bus_write m a (xs @ ys) =
    (if snd (bus_write m a xs) then bus_write (fst (bus_write m a xs)) (a + 2 * of_nat (length xs)) ys
     else bus_write m a xs)"
proof (induction xs arbitrary: m a)
  case (Cons x xs)
  have e: "a + 2 + 2 * of_nat (length xs) = a + 2 * of_nat (length (x # xs))" by (simp add: algebra_simps)
  show ?case
  proof (cases "m a")
    case (Some v)
    define m' where "m' = m(a \<mapsto> x)"
    have s: "bus_write m a (x # zs) = bus_write m' (a + 2) zs" for zs
      using Some by (simp add: m'_def)
    show ?thesis unfolding append_Cons s e [symmetric] by (rule Cons.IH)
  qed simp
qed simp

lemma bus_write_append_ok:
  "snd (bus_write m a xs) \<Longrightarrow>
   bus_write m a (xs @ ys) = bus_write (fst (bus_write m a xs)) (a + 2 * of_nat (length xs)) ys"
  by (simp add: bus_write_append del: of_nat_Suc)

end
