(* ===== verification/Storage_Geometry.thy ===== *)
theory Storage_Geometry
  imports Prelude
begin

text \<open>
  The geometry of a disk (\<^verbatim>\<open>10.02_devices/2_src/storagedrive_geometry.hpp\<close>) and
  the words of its image. Offsets are computed in 32 bit \<open>unsigned\<close> arithmetic and only
  then widened to 64 bits, so the wrap-around is part of the model; counts and the sector
  size are given as 32 bit words.
\<close>

record geometry =
  cylinder_count :: u32
  head_count :: u32
  sector_count :: u32
  sector_size_bytes :: u32
  mscp_block_count :: u32

definition get_raw_capacity :: "geometry \<Rightarrow> u32" where
  "get_raw_capacity g =
     (if 0 < mscp_block_count g then mscp_block_count g * sector_size_bytes g
      else cylinder_count g * head_count g * sector_count g * sector_size_bytes g)"

definition get_block_count :: "geometry \<Rightarrow> u32" where
  "get_block_count g =
     (if 0 < mscp_block_count g then mscp_block_count g
      else cylinder_count g * head_count g * sector_count g)"

definition get_track_capacity :: "geometry \<Rightarrow> u32" where
  "get_track_capacity g = sector_count g * sector_size_bytes g"

definition get_track_nr :: "u32 \<Rightarrow> u32 \<Rightarrow> geometry \<Rightarrow> u32" where
  "get_track_nr cylinder head g = cylinder * head_count g + head"

definition get_image_offset :: "u32 \<Rightarrow> u32 \<Rightarrow> u32 \<Rightarrow> geometry \<Rightarrow> u32" where
  "get_image_offset cylinder head sector g =
     sector_size_bytes g * (cylinder * head_count g * sector_count g + head * sector_count g + sector)"

text \<open>Cylinder, head, sector and offset in the sector of a position in the image.\<close>

definition get_chs :: "u32 \<Rightarrow> geometry \<Rightarrow> u32 \<times> u32 \<times> u32 \<times> u32" where
  "get_chs offset g =
     (let sector_nr = offset div sector_size_bytes g; track_nr = sector_nr div sector_count g
      in (track_nr div head_count g, track_nr mod head_count g, sector_nr mod sector_count g,
          offset mod sector_size_bytes g))"

text \<open>A geometry whose whole surface can be addressed without overflow.\<close>

definition geometry_fits :: "geometry \<Rightarrow> bool" where
  "geometry_fits g \<longleftrightarrow> 0 < sector_size_bytes g \<and>
     unat (cylinder_count g) * unat (head_count g) * unat (sector_count g) * unat (sector_size_bytes g) < 2 ^ 32"

lemma chs_bound:
  assumes "c < C" "h < H" "s < S" "Z \<noteq> 0"
  shows "Z * (c * H * S + h * S + s) < C * H * S * (Z :: nat)"
proof -
  have "c * H * S + h * S + s < C * H * S"
  proof -
    have "Suc h * S \<le> H * S" by (rule mult_le_mono1) (use assms(2) in simp)
    moreover have "Suc c * (H * S) \<le> C * (H * S)" by (rule mult_le_mono1) (use assms(1) in simp)
    moreover have "Suc h * S = h * S + S" "Suc c * (H * S) = c * H * S + H * S" "C * (H * S) = C * H * S"
      by (simp_all add: mult.assoc)
    moreover note assms(3)
    ultimately show ?thesis by linarith
  qed
  with assms(4) show ?thesis by (simp add: mult.commute)
qed

lemma unat_mult_exact: "unat (a :: u32) * unat (b :: u32) < 2 ^ 32 \<Longrightarrow> unat (a * b) = unat a * unat b"
  by (simp add: unat_word_ariths)

lemma unat_add_exact: "unat (a :: u32) + unat (b :: u32) < 2 ^ 32 \<Longrightarrow> unat (a + b) = unat a + unat b"
  by (simp add: unat_word_ariths)

lemma unat_image_offset:
  assumes "geometry_fits g" "c < cylinder_count g" "h < head_count g" "s < sector_count g"
  shows "unat (get_image_offset c h s g) =
    unat (sector_size_bytes g) * (unat c * unat (head_count g) * unat (sector_count g) +
      unat h * unat (sector_count g) + unat s)"
proof -
  let ?Z = "unat (sector_size_bytes g)" and ?C = "unat (cylinder_count g)"
    and ?H = "unat (head_count g)" and ?S = "unat (sector_count g)"
  have lt: "unat c < ?C" "unat h < ?H" "unat s < ?S" using assms(2-4) by (simp_all add: word_less_nat_alt)
  have Z: "?Z \<noteq> 0" using assms(1) by (auto simp: geometry_fits_def word_less_nat_alt)
  have all: "?Z * (unat c * ?H * ?S + unat h * ?S + unat s) < 2 ^ 32"
    using chs_bound [OF lt Z] assms(1) unfolding geometry_fits_def by linarith
  have le: "x \<le> ?Z * x" for x using Z by (cases ?Z) simp_all
  have b: "unat c * ?H * ?S + unat h * ?S + unat s < 2 ^ 32" using all le by (meson le_less_trans)
  have "unat c * ?H \<le> unat c * ?H * ?S" using lt(3) by (cases ?S) simp_all
  then have "unat c * ?H < 2 ^ 32" using b by linarith
  then have c1: "unat (c * head_count g) = unat c * ?H" by (rule unat_mult_exact)
  have c2: "unat (c * head_count g * sector_count g) = unat c * ?H * ?S"
    unfolding c1 [symmetric] using b by (intro unat_mult_exact) (simp add: c1)
  have c3: "unat (h * sector_count g) = unat h * ?S" using b by (intro unat_mult_exact) simp
  have c4: "unat (c * head_count g * sector_count g + h * sector_count g) = unat c * ?H * ?S + unat h * ?S"
    using b by (subst unat_add_exact) (simp_all add: c2 c3)
  have c5: "unat (c * head_count g * sector_count g + h * sector_count g + s) = unat c * ?H * ?S + unat h * ?S + unat s"
    using b by (subst unat_add_exact) (simp_all add: c4)
  show ?thesis
    unfolding get_image_offset_def using all by (subst unat_mult_exact) (simp_all add: c5)
qed

text \<open>
  For a disk whose capacity fits 32 bits, the position of a sector in the image and
  the decomposition of a position are inverse: every sector's offset decomposes into the
  sector's cylinder, head and sector number with offset zero, and lies within the capacity.
\<close>

theorem get_chs_get_image_offset:
  assumes "geometry_fits g" "c < cylinder_count g" "h < head_count g" "s < sector_count g"
  shows "get_chs (get_image_offset c h s g) g = (c, h, s, 0) \<and>
    unat (get_image_offset c h s g) <
      unat (cylinder_count g) * unat (head_count g) * unat (sector_count g) * unat (sector_size_bytes g)"
proof -
  let ?Z = "unat (sector_size_bytes g)" and ?H = "unat (head_count g)" and ?S = "unat (sector_count g)"
  have lt: "unat c < unat (cylinder_count g)" "unat h < ?H" "unat s < ?S"
    using assms(2-4) by (simp_all add: word_less_nat_alt)
  have Z: "0 < ?Z" using assms(1) by (auto simp: geometry_fits_def word_less_nat_alt)
  note o = unat_image_offset [OF assms]
  let ?n = "unat c * ?H * ?S + unat h * ?S + unat s"
  have n: "?n = (unat c * ?H + unat h) * ?S + unat s" by (simp add: algebra_simps)
  have d: "unat (get_image_offset c h s g div sector_size_bytes g) = ?n"
    unfolding unat_div o using Z by simp
  have t: "?n div ?S = unat c * ?H + unat h" "?n mod ?S = unat s" unfolding n using lt(3) by simp_all
  have t2: "(unat c * ?H + unat h) div ?H = unat c" "(unat c * ?H + unat h) mod ?H = unat h" using lt(2) by simp_all
  have "get_image_offset c h s g div sector_size_bytes g div sector_count g div head_count g = c"
    "get_image_offset c h s g div sector_size_bytes g div sector_count g mod head_count g = h"
    "get_image_offset c h s g div sector_size_bytes g mod sector_count g = s"
    "get_image_offset c h s g mod sector_size_bytes g = 0"
    by (simp_all add: word_unat_eq_iff unat_div unat_mod d [unfolded unat_div] t t2)
      (use lt(2) in \<open>simp_all add: o\<close>)
  then show ?thesis
    unfolding get_chs_def Let_def using chs_bound [OF lt] Z by (simp add: o)
qed

definition rk05_geometry :: geometry where
  "rk05_geometry = \<lparr>cylinder_count = 203, head_count = 2, sector_count = 12, sector_size_bytes = 512,
     mscp_block_count = 0\<rparr>"

theorem get_chs_get_image_offset_witness:
  "get_chs (get_image_offset 202 1 11 rk05_geometry) rk05_geometry = (202, 1, 11, 0)"
  using get_chs_get_image_offset [of rk05_geometry 202 1 11]
  by (simp add: rk05_geometry_def geometry_fits_def)

text \<open>Disks of 4 GB and more overflow: their capacity is reported modulo 4 GB.\<close>

lemma capacity_wraps:
  "0 < mscp_block_count g \<Longrightarrow>
   unat (get_raw_capacity g) = (unat (mscp_block_count g) * unat (sector_size_bytes g)) mod 2 ^ 32"
  by (simp add: get_raw_capacity_def unat_word_ariths)

end
