(* ===== verification/RK11.thy ===== *)
theory RK11
  imports Device_View Bus_Memory Storage_Geometry
begin

text \<open>
  The RK11 disk controller and its RK05 drives (\<^verbatim>\<open>10.02_devices/2_src/rk11.cpp\<close>,
  \<^verbatim>\<open>rk05.cpp\<close>): the registers, the drive status, the commands a write to RKCS
  starts and the worker that transfers sectors between a drive's image and memory.

  The drives are part of the controller's state, their image is a map from word positions to
  words. RKWC and RKBA are passive registers: reads and writes of the bus and of the
  controller share one value, \<open>dati\<close>. A DMA is \<open>dma_spec\<close> on the memory in the
  state. \<open>rk_interrupts\<close> counts the calls of \<^verbatim>\<open>INTR\<close>. Register accesses and
  the steps of the worker threads are separate operations; the transfer loop of one command
  is one step of the controller's worker.
\<close>

record rk05 =
  current_cylinder :: u32
  seek_count :: int
  sectorCount :: nat
  d_wps :: bool
  d_rwsrdy :: bool
  d_dry :: bool
  d_sok :: bool
  d_sin :: bool
  d_dru :: bool
  d_rk05 :: bool
  d_dpl :: bool
  d_scp :: bool
  image :: "(nat \<Rightarrow> u16) option"
  image_is_open :: bool

datatype rk_function =
  Control_Reset | RK_Write | RK_Read | Write_Check | Seek | Read_Check | Drive_Reset | Write_Lock

definition rk_function_of :: "u16 \<Rightarrow> rk_function" where
  "rk_function_of v = [Control_Reset, RK_Write, RK_Read, Write_Check, Seek, Read_Check, Drive_Reset, Write_Lock]
     ! unat (v AND 7)"

datatype rk_worker_state = Worker_Idle | Worker_Execute | Worker_Finish

record rk_command =
  c_address :: u32
  c_function :: u16
  c_format :: bool
  c_iba :: bool

record rk11 = device_view +
  rk_id :: u16
  e_wce :: bool
  e_cse :: bool
  e_nxs :: bool
  e_nxc :: bool
  e_nxd :: bool
  e_te :: bool
  e_dlt :: bool
  e_nxm :: bool
  e_pge :: bool
  e_ske :: bool
  e_wlo :: bool
  e_ovr :: bool
  e_dre :: bool
  rk_go :: bool
  rk_function :: u16
  rk_mex :: u16
  rk_ide :: bool
  rk_rdy :: bool
  rk_sse :: bool
  rk_exb :: bool
  rk_fmt :: bool
  rk_iba :: bool
  rk_scp :: bool
  rk_he :: bool
  rk_err :: bool
  rkda_sector :: u16
  rkda_surface :: u16
  rkda_cyl :: u16
  rkda_drive :: u16
  drives :: "nat \<Rightarrow> rk05"
  new_command :: rk_command
  new_command_ready :: bool
  rk_worker :: rk_worker_state
  rk_current :: rk_command
  rk_do_interrupt :: bool
  is_rkv11 :: bool
  memory :: bus_memory
  addr_limit :: u32
  rk_interrupts :: nat

definition selected_drive :: "rk11 \<Rightarrow> rk05" where
  "selected_drive s = drives s (unat (rkda_drive s))"

definition upd_drive :: "nat \<Rightarrow> (rk05 \<Rightarrow> rk05) \<Rightarrow> rk11 \<Rightarrow> rk11" where
  "upd_drive n f s = s\<lparr>drives := (drives s)(n := f (drives s n))\<rparr>"

subsection \<open>Register values\<close>

definition RKER_value :: "rk11 \<Rightarrow> u16" where
  "RKER_value s =
     flag 0x0001 (e_wce s) OR flag 0x0002 (e_cse s) OR flag 0x0020 (e_nxs s) OR flag 0x0040 (e_nxc s) OR
     flag 0x0080 (e_nxd s) OR flag 0x0100 (e_te s) OR flag 0x0200 (e_dlt s) OR flag 0x0400 (e_nxm s) OR
     flag 0x0800 (e_pge s) OR flag 0x1000 (e_ske s) OR flag 0x2000 (e_wlo s) OR flag 0x4000 (e_ovr s) OR
     flag 0x8000 (e_dre s)"

definition update_RKER :: "rk11 \<Rightarrow> rk11" where "update_RKER s = set_dati 1 (RKER_value s) s"

definition RKCS_value :: "rk11 \<Rightarrow> u16" where
  "RKCS_value s =
     flag 0x0001 (rk_go s) OR push_bit 1 (rk_function s) OR push_bit 4 (rk_mex s) OR flag 0x0040 (rk_ide s) OR
     flag 0x0080 (rk_rdy s) OR flag 0x0100 (rk_sse s) OR flag 0x0200 (rk_exb s) OR flag 0x0400 (rk_fmt s) OR
     flag 0x0800 (rk_iba s) OR flag 0x2000 (rk_scp s) OR flag 0x4000 (rk_he s) OR flag 0x8000 (rk_err s)"

definition update_RKCS :: "rk11 \<Rightarrow> rk11" where "update_RKCS s = set_dati 2 (RKCS_value s) s"

definition RKDS_value :: "rk11 \<Rightarrow> u16" where
  "RKDS_value s =
     (let d = selected_drive s in
      of_nat (sectorCount d) OR flag 0x0010 (of_nat (sectorCount d) = rkda_sector s) OR
      flag 0x0020 (d_wps d) OR flag 0x0040 (d_rwsrdy d) OR flag 0x0080 (d_dry d) OR flag 0x0100 (d_sok d) OR
      flag 0x0200 (d_sin d) OR flag 0x0400 (d_dru d) OR flag 0x0800 (d_rk05 d) OR flag 0x1000 (d_dpl d) OR
      push_bit 13 (rk_id s))"

definition update_RKDS :: "rk11 \<Rightarrow> rk11" where "update_RKDS s = set_dati 0 (RKDS_value s) s"

definition RKDA_value :: "rk11 \<Rightarrow> u16" where
  "RKDA_value s = rkda_sector s OR push_bit 4 (rkda_surface s) OR push_bit 5 (rkda_cyl s) OR
     push_bit 13 (rkda_drive s)"

definition update_RKDA :: "rk11 \<Rightarrow> rk11" where "update_RKDA s = set_dati 5 (RKDA_value s) s"

definition invoke_interrupt :: "rk11 \<Rightarrow> rk11" where
  "invoke_interrupt s = (if rk_ide s then s\<lparr>rk_interrupts := Suc (rk_interrupts s)\<rparr> else s)"

subsection \<open>The drives\<close>

definition on_drive_status_changed :: "nat \<Rightarrow> rk11 \<Rightarrow> rk11" where
  "on_drive_status_changed n s =
     (let s1 = (if n = unat (rkda_drive s) then update_RKDS s else s);
          search_complete = d_scp (drives s1 n);
          s2 = upd_drive n (\<lambda>d. d\<lparr>d_scp := False\<rparr>) s1
      in if search_complete \<and> rk_ide s2
         then invoke_interrupt (update_RKCS (update_RKDS (s2\<lparr>rk_scp := True, rk_id := of_nat n\<rparr>)))
         else s2)"

text \<open>The sector's first word in the image.\<close>

definition image_word :: "u32 \<Rightarrow> u32 \<Rightarrow> u32 \<Rightarrow> nat" where
  "image_word cylinder surface sector = unat (get_image_offset cylinder surface sector rk05_geometry) div 2"

definition sector_in_range :: "u32 \<Rightarrow> u32 \<Rightarrow> u32 \<Rightarrow> bool" where
  "sector_in_range cylinder surface sector \<longleftrightarrow> cylinder < cylinder_count rk05_geometry \<and>
     surface < head_count rk05_geometry \<and> sector < sector_count rk05_geometry"

definition start_access :: "nat \<Rightarrow> u32 \<Rightarrow> rk11 \<Rightarrow> rk11" where
  "start_access n cylinder s =
     on_drive_status_changed n
       (upd_drive n (\<lambda>d. d\<lparr>current_cylinder := cylinder, d_scp := False, d_rwsrdy := False\<rparr>) s)"

definition end_access :: "nat \<Rightarrow> rk11 \<Rightarrow> rk11" where
  "end_access n s = on_drive_status_changed n (upd_drive n (\<lambda>d. d\<lparr>d_rwsrdy := True\<rparr>) s)"

text \<open>Without an image the caller's buffer is left as it is.\<close>

definition read_sector ::
    "nat \<Rightarrow> u32 \<Rightarrow> u32 \<Rightarrow> u32 \<Rightarrow> u16 list \<Rightarrow> rk11 \<Rightarrow> (u16 list \<times> rk11) option" where
  "read_sector n cylinder surface sector buf s =
     do { assert_that (sector_in_range cylinder surface sector);
          let s1 = start_access n cylinder s;
          let buf' = (case image (drives s1 n) of
              None \<Rightarrow> buf
            | Some im \<Rightarrow> map (\<lambda>i. im (image_word cylinder surface sector + i)) [0..<256]);
          Some (buf', end_access n s1) }"

definition write_image :: "nat \<Rightarrow> u16 list \<Rightarrow> (nat \<Rightarrow> u16) \<Rightarrow> (nat \<Rightarrow> u16)" where
  "write_image pos ws im = (\<lambda>x. if pos \<le> x \<and> x < pos + length ws then ws ! (x - pos) else im x)"

definition write_sector ::
    "nat \<Rightarrow> u32 \<Rightarrow> u32 \<Rightarrow> u32 \<Rightarrow> u16 list \<Rightarrow> rk11 \<Rightarrow> rk11 option" where
  "write_sector n cylinder surface sector buf s =
     do { assert_that (sector_in_range cylinder surface sector);
          let s1 = start_access n cylinder s;
          let s2 = upd_drive n (\<lambda>d. d\<lparr>image := map_option
                     (write_image (image_word cylinder surface sector) (take 256 buf)) (image d)\<rparr>) s1;
          Some (end_access n s2) }"

definition drive_seek :: "nat \<Rightarrow> u32 \<Rightarrow> rk11 \<Rightarrow> rk11 option" where
  "drive_seek n cylinder s =
     do { assert_that (cylinder < cylinder_count rk05_geometry);
          let count = \<bar>sint (current_cylinder (drives s n)) - sint cylinder\<bar> + 1;
          let busy = 0 < count;
          Some (on_drive_status_changed n (upd_drive n (\<lambda>d. d\<lparr>seek_count := count, current_cylinder := cylinder,
                  d_rwsrdy := \<not> busy, d_scp := \<not> busy\<rparr>) s)) }"

definition drive_reset :: "nat \<Rightarrow> rk11 \<Rightarrow> rk11 option" where
  "drive_reset n s =
     drive_seek n 0 (on_drive_status_changed n
       (upd_drive n (\<lambda>d. d\<lparr>d_sin := False, d_dru := False, d_dpl := False\<rparr>) s))"

text \<open>Write protection is not implemented: only the seek flag is cleared.\<close>

definition set_write_protect :: "nat \<Rightarrow> rk11 \<Rightarrow> rk11" where
  "set_write_protect n s = upd_drive n (\<lambda>d. d\<lparr>d_scp := False\<rparr>) s"

text \<open>One round of a drive's worker thread.\<close>

definition drive_worker_step :: "nat \<Rightarrow> rk11 \<Rightarrow> rk11" where
  "drive_worker_step n s =
     (if 0 < seek_count (drives s n)
      then let s1 = upd_drive n (\<lambda>d. d\<lparr>seek_count := seek_count d - 25\<rparr>) s
           in if seek_count (drives s1 n) < 0
              then upd_drive n (\<lambda>d. d\<lparr>d_rwsrdy := True\<rparr>)
                     (on_drive_status_changed n (upd_drive n (\<lambda>d. d\<lparr>d_scp := True\<rparr>) s1))
              else s1
      else if image_is_open (drives s n)
      then on_drive_status_changed n
             (upd_drive n (\<lambda>d. d\<lparr>sectorCount := (sectorCount d + 1) mod 12, d_sok := True\<rparr>) s)
      else s)"

subsection \<open>Commands\<close>

definition check_drive_present :: "rk11 \<Rightarrow> bool" where
  "check_drive_present s = d_dry (selected_drive s)"

definition check_drive_ready :: "rk11 \<Rightarrow> bool" where
  "check_drive_ready s =
     (let d = selected_drive s in d_dry d \<and> \<not> d_sin d \<and> \<not> d_dru d \<and> \<not> d_dpl d)"

definition validate_seek :: "rk11 \<Rightarrow> bool \<times> rk11" where
  "validate_seek s =
     (let nxs = (11 < rkda_sector s); nxc = (202 < rkda_cyl s); nxd = (\<not> check_drive_present s);
          error = (nxs \<or> nxc \<or> nxd);
          s1 = s\<lparr>e_nxs := e_nxs s \<or> nxs, e_nxc := e_nxc s \<or> nxc, e_nxd := e_nxd s \<or> nxd\<rparr>
      in (\<not> error, if error then s1\<lparr>rk_he := True, rk_err := True\<rparr> else s1))"

definition increment_RKDA :: "rk11 \<Rightarrow> rk11" where
  "increment_RKDA s =
     (let s1 = s\<lparr>rkda_sector := rkda_sector s + 1\<rparr>;
          s2 = (if 11 < rkda_sector s1
                then let s3 = s1\<lparr>rkda_sector := 0, rkda_surface := rkda_surface s1 + 1\<rparr>
                     in if 1 < rkda_surface s3
                        then s3\<lparr>rkda_surface := 0, rkda_cyl := rkda_cyl s3 + 1\<rparr> else s3
                else s1)
      in update_RKDA s2)"

definition reset_controller :: "rk11 \<Rightarrow> rk11" where
  "reset_controller s =
     (let s1 = s\<lparr>dati := (\<lambda>i. if i = 2 then 0x0080 else if i < 8 then 0 else dati s i)\<rparr>;
          s2 = update_RKER (s1\<lparr>e_wce := False, e_cse := False, e_nxs := False, e_nxc := False, e_nxd := False,
                 e_te := False, e_dlt := False, e_nxm := False, e_pge := False, e_ske := False, e_wlo := False,
                 e_ovr := False, e_dre := False\<rparr>);
          s3 = update_RKCS (s2\<lparr>rk_go := False, rk_function := 0, rk_mex := 0, rk_ide := False, rk_rdy := True,
                 rk_sse := False, rk_exb := False, rk_fmt := False, rk_iba := False, rk_scp := False,
                 rk_he := False, rk_err := False\<rparr>);
          s4 = update_RKDA (s3\<lparr>rkda_sector := 0, rkda_surface := 0, rkda_cyl := 0, rkda_drive := 0\<rparr>);
          s5 = update_RKDS (s4\<lparr>rk_id := 0\<rparr>)
      in set_dati 4 0 (set_dati 3 0 s5))"

text \<open>The DMA of one sector. With IBA set all words go to or come from one address.\<close>

definition rk_dma_transfer ::
    "dma_direction \<Rightarrow> bool \<Rightarrow> u32 \<Rightarrow> u16 list \<Rightarrow> nat \<Rightarrow> rk11 \<Rightarrow> (bool \<times> u16 list \<times> rk11) option" where
  "rk_dma_transfer dir iba addr buf n s =
     (if iba
      then (case dir of
          To_memory \<Rightarrow>
            do { assert_that (0 < n \<and> n \<le> length buf);
                 (ok, _, m) \<leftarrow> dma_spec (addr_limit s) To_memory addr [buf ! (n - 1)] 1 (memory s);
                 Some (ok, buf, s\<lparr>memory := m\<rparr>) }
        | To_device \<Rightarrow>
            do { (ok, b, m) \<leftarrow> dma_spec (addr_limit s) To_device addr buf 1 (memory s);
                 Some (ok, map (\<lambda>i. if i < n then b ! 0 else b ! i) [0..<length b], s\<lparr>memory := m\<rparr>) })
      else do { (ok, b, m) \<leftarrow> dma_spec (addr_limit s) dir addr buf n (memory s);
                Some (ok, b, s\<lparr>memory := m\<rparr>) })"

datatype rw_kind = Rw_write | Rw_read | Rw_read_format | Rw_write_check

definition rw_kind_of :: "rk_command \<Rightarrow> rw_kind" where
  "rw_kind_of c =
     (if rk_function_of (c_function c) = RK_Write then Rw_write
      else if rk_function_of (c_function c) = RK_Read then (if c_format c then Rw_read_format else Rw_read)
      else Rw_write_check)"

text \<open>
  What a sector needs before its DMA: the sector buffer, and the check buffer with the disk's
  data for a write check.
\<close>

definition load_buffers :: "rw_kind \<Rightarrow> rk11 \<Rightarrow> (u16 list \<times> u16 list \<times> rk11) option" where
  "load_buffers kind s =
     (let zeros = replicate 256 0; n = unat (rkda_drive s);
          c = ucast (rkda_cyl s); h = ucast (rkda_surface s); sec = ucast (rkda_sector s) in
      case kind of
        Rw_read \<Rightarrow> do { (b, s1) \<leftarrow> read_sector n c h sec zeros s; Some (b, zeros, s1) }
      | Rw_read_format \<Rightarrow> Some (zeros[0 := push_bit 5 (rkda_cyl s)], zeros, s)
      | Rw_write_check \<Rightarrow> do { (b, s1) \<leftarrow> read_sector n c h sec zeros s; Some (zeros, b, s1) }
      | Rw_write \<Rightarrow> Some (zeros, zeros, s))"

text \<open>
  What is done with a sector after its DMA: whether the command stops, and the new state.
\<close>

definition store_sector ::
    "rw_kind \<Rightarrow> nat \<Rightarrow> u16 list \<Rightarrow> u16 list \<Rightarrow> rk11 \<Rightarrow> (bool \<times> rk11) option" where
  "store_sector kind n buf check s =
     (let d = unat (rkda_drive s);
          c = ucast (rkda_cyl s); h = ucast (rkda_surface s); sec = ucast (rkda_sector s) in
      case kind of
        Rw_write \<Rightarrow> map_option (\<lambda>s1. (False, s1)) (write_sector d c h sec buf s)
      | Rw_write_check \<Rightarrow>
          (let differs = (take n buf \<noteq> take n check);
               s1 = s\<lparr>e_wce := e_wce s \<or> differs, rk_err := rk_err s \<or> differs\<rparr>
           in Some (e_wce s1 \<and> rk_sse s, s1))
      | _ \<Rightarrow> Some (False, set_dati 7 (buf ! (n - 1)) s))"

text \<open>Word count, bus address and disk address after a sector of \<open>n\<close> words.\<close>

definition advance ::
    "bool \<Rightarrow> nat \<Rightarrow> int \<Rightarrow> u32 \<Rightarrow> rk11 \<Rightarrow> int \<times> u32 \<times> rk11" where
  "advance iba n count addr s =
     (let count' = count - int n;
          addr' = (if iba then addr else addr + 2 * of_nat n);
          s1 = set_dati 3 (word_of_int (- count')) s;
          s2 = (if iba then s1
                else (set_dati 4 (ucast addr') s1)\<lparr>rk_mex := ucast (drop_bit 16 addr') AND 3\<rparr>)
      in (count', addr', increment_RKDA s2))"

text \<open>
  One round of the transfer loop: abort, remaining count, address, state. Sector buffer and check buffer are uninitialised in the
  source and zero here. That shows only where a drive without an image, or behind its end, is read: the properties of transfers
  assume an image.
\<close>

definition transfer_round ::
    "rk_command \<Rightarrow> int \<Rightarrow> u32 \<Rightarrow> rk11 \<Rightarrow> (bool \<times> int \<times> u32 \<times> rk11) option" where
  "transfer_round cmd count addr s =
     (if new_command_ready s then Some (True, count, addr, s)
      else let (valid, s0) = validate_seek s in
      if \<not> valid then Some (True, count, addr, if 202 < rkda_cyl s0 then s0\<lparr>e_ovr := True\<rparr> else s0)
      else do {
        let kind = rw_kind_of cmd;
        let n = (if kind = Rw_read_format then 1 else nat (min 256 count));
        (buf, check, s1) \<leftarrow> load_buffers kind s0;
        (ok, buf', s2) \<leftarrow> rk_dma_transfer (if kind = Rw_write \<or> kind = Rw_write_check then To_device else To_memory)
                           (c_iba cmd) addr buf n s1;
        (abort, s3) \<leftarrow> (if ok then store_sector kind n buf' check s2
                        else Some (True, s2\<lparr>e_nxm := True, rk_he := True, rk_err := True\<rparr>));
        let (count', addr', s4) = advance (c_iba cmd) n count addr s3;
        Some (abort, count', addr', s4) })"

text \<open>
  The loop; every round takes at least one word, so the word count is fuel enough. The count
  is the negated RKWC as a signed 16 bit number.
\<close>

fun transfer_loop :: "nat \<Rightarrow> rk_command \<Rightarrow> int \<Rightarrow> u32 \<Rightarrow> rk11 \<Rightarrow> rk11 option" where
  "transfer_loop 0 cmd count addr s = Some s"
| "transfer_loop (Suc fuel) cmd count addr s =
     (if count \<le> 0 then Some s
      else do { (abort, count', addr', s') \<leftarrow> transfer_round cmd count addr s;
                (if abort then Some s' else transfer_loop fuel cmd count' addr' s') })"

definition word_count :: "rk11 \<Rightarrow> int" where
  "word_count s = sint (- dati s 3)"

definition rk_transfer :: "rk_command \<Rightarrow> rk11 \<Rightarrow> rk11 option" where
  "rk_transfer cmd s = transfer_loop (nat (word_count s)) cmd (word_count s) (c_address cmd) s"

fun read_check_loop :: "nat \<Rightarrow> bool \<Rightarrow> int \<Rightarrow> u32 \<Rightarrow> rk11 \<Rightarrow> rk11" where
  "read_check_loop 0 iba count addr s = s"
| "read_check_loop (Suc fuel) iba count addr s =
     (if count \<le> 0 then s
      else let (valid, s0) = validate_seek s in
      if \<not> valid then s0
      else let count' = count - 256;
               addr' = (if iba then addr else addr + 512);
               s1 = (if iba then s0
                     else (set_dati 3 (word_of_int (- count')) s0)\<lparr>rk_mex := ucast (drop_bit 16 addr') AND 3\<rparr>)
           in read_check_loop fuel iba count' addr' (increment_RKDA s1))"

definition rk_read_check :: "rk_command \<Rightarrow> rk11 \<Rightarrow> rk11" where
  "rk_read_check cmd s = read_check_loop (nat (word_count s)) (c_iba cmd) (word_count s) (c_address cmd) s"

subsection \<open>The controller's worker\<close>

definition rk_seek :: "rk11 \<Rightarrow> rk11 option" where
  "rk_seek s =
     (let (valid, s0) = validate_seek s in
      if valid then drive_seek (unat (rkda_drive s0)) (ucast (rkda_cyl s0)) (update_RKDS (s0\<lparr>rk_id := 0\<rparr>))
      else Some (s0\<lparr>rk_do_interrupt := False\<rparr>))"

definition rk_drive_reset :: "rk11 \<Rightarrow> rk11 option" where
  "rk_drive_reset s =
     (if check_drive_present s then drive_reset (unat (rkda_drive s)) s
      else Some (s\<lparr>rk_do_interrupt := False\<rparr>))"

definition rk_execute :: "rk_command \<Rightarrow> rk11 \<Rightarrow> rk11 option" where
  "rk_execute cmd s =
     (case rk_function_of (c_function cmd) of
        RK_Write \<Rightarrow> rk_transfer cmd s
      | RK_Read \<Rightarrow> rk_transfer cmd s
      | Write_Check \<Rightarrow> rk_transfer cmd s
      | Read_Check \<Rightarrow> Some (rk_read_check cmd s)
      | Seek \<Rightarrow> rk_seek s
      | Drive_Reset \<Rightarrow> rk_drive_reset s
      | _ \<Rightarrow> Some s)"

definition rk_finish :: "rk11 \<Rightarrow> rk11" where
  "rk_finish s =
     (let s1 = update_RKCS (update_RKER (s\<lparr>rk_rdy := True\<rparr>))
      in if rk_do_interrupt s1 then invoke_interrupt s1 else s1)"

definition rk_worker_step :: "rk11 \<Rightarrow> rk11 option" where
  "rk_worker_step s =
     (case rk_worker s of
        Worker_Idle \<Rightarrow>
          Some (if new_command_ready s
                then (update_RKCS (s\<lparr>rk_current := new_command s, new_command_ready := False, rk_go := False\<rparr>))
                       \<lparr>rk_do_interrupt := True, rk_worker := Worker_Execute\<rparr>
                else s)
      | Worker_Execute \<Rightarrow>
          map_option (\<lambda>t. t\<lparr>rk_worker := Worker_Finish\<rparr>) (rk_execute (rk_current s) s)
      | Worker_Finish \<Rightarrow> Some ((rk_finish s)\<lparr>rk_worker := Worker_Idle\<rparr>))"

subsection \<open>Register accesses\<close>

definition load_RKCS :: "u16 \<Rightarrow> rk11 \<Rightarrow> rk11" where
  "load_RKCS v s =
     s\<lparr>rk_go := v AND 0x1 \<noteq> 0, rk_function := drop_bit 1 (v AND 0xe), rk_mex := drop_bit 4 (v AND 0x30),
       rk_ide := v AND 0x40 \<noteq> 0, rk_sse := v AND 0x100 \<noteq> 0, rk_exb := v AND 0x200 \<noteq> 0,
       rk_fmt := v AND 0x400 \<noteq> 0, rk_iba := v AND 0x800 \<noteq> 0\<rparr>"

definition start_command :: "rk11 \<Rightarrow> rk11" where
  "start_command s =
     s\<lparr>rk_rdy := False, rk_scp := False,
       new_command := \<lparr>c_address = (if is_rkv11 s then ucast (dati s 4)
                                    else ucast (dati s 4) OR push_bit 16 (ucast (rk_mex s))),
                      c_function = rk_function s, c_format = rk_fmt s, c_iba = rk_iba s\<rparr>,
       new_command_ready := True\<rparr>"

text \<open>The decoding of GO: whether an error interrupt is due, and the new state.\<close>

definition go_command :: "rk11 \<Rightarrow> bool \<times> rk11" where
  "go_command s =
     (let f = rk_function_of (rk_function s) in
      if rk_fmt s \<and> f \<noteq> RK_Read \<and> f \<noteq> RK_Write \<and> f \<noteq> Control_Reset
      then (False, s\<lparr>e_pge := True, rk_he := True, rk_err := True, rk_go := False\<rparr>)
      else case f of
        Control_Reset \<Rightarrow> (False, reset_controller s)
      | Write_Lock \<Rightarrow> (False, (set_write_protect (unat (rkda_drive s)) s)\<lparr>rk_scp := False\<rparr>)
      | _ \<Rightarrow>
         if f \<noteq> Drive_Reset \<and> \<not> check_drive_ready s
         then (True, s\<lparr>e_dre := True, rk_he := True, rk_err := True, rk_scp := False, rk_go := False\<rparr>)
         else if \<not> check_drive_present s
         then (True, s\<lparr>e_nxd := True, rk_he := True, rk_err := True, rk_scp := False, rk_go := False\<rparr>)
         else (False, start_command s))"

definition write_RKCS :: "rk11 \<Rightarrow> rk11 option" where
  "write_RKCS s0 =
     (let s = load_RKCS (dato s0 2) s0 in
      if rk_go s
      then let (error, s1) = go_command s; s2 = update_RKCS (update_RKER s1)
           in if error then do { assert_that (rk_rdy s2); Some (invoke_interrupt s2) } else Some s2
      else let s1 = update_RKCS s in Some (if rk_rdy s1 then invoke_interrupt s1 else s1))"

definition write_RKDA :: "rk11 \<Rightarrow> rk11" where
  "write_RKDA s =
     (if rk_rdy s
      then let v = dato s 5; old = rkda_drive s;
               s1 = update_RKDA (s\<lparr>rkda_sector := v AND 0xf, rkda_surface := drop_bit 4 (v AND 0x10),
                      rkda_cyl := drop_bit 5 (v AND 0x1fe0), rkda_drive := drop_bit 13 (v AND 0xe000)\<rparr>)
           in if rkda_drive s1 \<noteq> old then update_RKDS s1 else s1
      else s)"

definition rk_on_after_register_access :: "nat \<Rightarrow> rk11 \<Rightarrow> rk11 option" where
  "rk_on_after_register_access i s =
     (if i = 2 then write_RKCS s else if i = 5 then Some (write_RKDA s) else None)"

text \<open>Power-up and INIT; the controller forwards both to its drives.\<close>

fun reset_drives :: "nat list \<Rightarrow> rk11 \<Rightarrow> rk11 option" where
  "reset_drives [] s = Some s"
| "reset_drives (n # ns) s = do { s' \<leftarrow> drive_reset n s; reset_drives ns s' }"

definition rk_on_power_changed :: "signal_edge \<Rightarrow> rk11 \<Rightarrow> rk11 option" where
  "rk_on_power_changed dclo_edge s =
     (if dclo_edge = SIGNAL_EDGE_RAISING then map_option reset_controller (reset_drives [0..<8] s) else Some s)"

definition rk_on_init_changed :: "bool \<Rightarrow> rk11 \<Rightarrow> rk11 option" where
  "rk_on_init_changed init s =
     (if init then reset_drives [0..<8] (reset_controller s) else Some s)"

end
