(* ===== verification/RK11_Correct.thy ===== *)
theory RK11_Correct
  imports RK11
begin

text \<open>
  What the RK11 and its drives do: seeks, disk addresses, whole transfers from disk to memory
  and back, and where the code falls short.
\<close>

subsection \<open>Seeks\<close>

lemma upd_drive_sel [simp]:
  "drives (upd_drive n f s) = (drives s)(n := f (drives s n))"
  "dati (upd_drive n f s) = dati s" "dato (upd_drive n f s) = dato s"
  "rkda_drive (upd_drive n f s) = rkda_drive s" "rk_ide (upd_drive n f s) = rk_ide s"
  by (simp_all add: upd_drive_def)

lemma set_dati_drives [simp]: "drives (set_dati i v s) = drives (s :: rk11)"
  by (simp add: set_dati_def)

lemma invoke_interrupt_drives [simp]: "drives (invoke_interrupt s) = drives s"
  by (simp add: invoke_interrupt_def)

lemma status_changed_drives:
  "drives (on_drive_status_changed n s) = (drives s)(n := (drives s n)\<lparr>d_scp := False\<rparr>)"
  by (simp add: on_drive_status_changed_def Let_def update_RKDS_def update_RKCS_def)

lemma worker_step_seek:
  assumes "0 < seek_count (drives s n)"
  shows "seek_count (drives (drive_worker_step n s) n) = seek_count (drives s n) - 25"
    "seek_count (drives s n) < 25 \<Longrightarrow> d_rwsrdy (drives (drive_worker_step n s) n)"
    "25 \<le> seek_count (drives s n) \<Longrightarrow> d_rwsrdy (drives (drive_worker_step n s) n) = d_rwsrdy (drives s n)"
  using assms by (simp_all add: drive_worker_step_def Let_def status_changed_drives)

lemma worker_step_idle:
  assumes "seek_count (drives s n) = 0"
  shows "seek_count (drives (drive_worker_step n s) n) = 0"
    "d_rwsrdy (drives (drive_worker_step n s) n) = d_rwsrdy (drives s n)"
  using assms by (simp_all add: drive_worker_step_def Let_def status_changed_drives)

lemma seek_in_multiples_hangs:
  assumes "25 dvd seek_count (drives s n)" "0 \<le> seek_count (drives s n)" "\<not> d_rwsrdy (drives s n)"
  shows "\<not> d_rwsrdy (drives ((drive_worker_step n ^^ m) s) n)"
proof -
  have "25 dvd seek_count (drives ((drive_worker_step n ^^ m) s) n) \<and>
      0 \<le> seek_count (drives ((drive_worker_step n ^^ m) s) n) \<and>
      \<not> d_rwsrdy (drives ((drive_worker_step n ^^ m) s) n)"
  proof (induction m)
    case (Suc m)
    let ?t = "(drive_worker_step n ^^ m) s"
    show ?case
    proof (cases "seek_count (drives ?t n) = 0")
      case True
      with Suc worker_step_idle [of ?t n] show ?thesis by simp
    next
      case False
      with Suc have "25 \<le> seek_count (drives ?t n)" by (intro zdvd_imp_le) auto
      with Suc worker_step_seek [of ?t n] show ?thesis by simp
    qed
  qed (use assms in simp)
  then show ?thesis by blast
qed

lemma other_seeks_end:
  assumes "\<not> 25 dvd seek_count (drives s n)" "0 < seek_count (drives s n)"
  shows "\<exists>m. d_rwsrdy (drives ((drive_worker_step n ^^ m) s) n)"
  using assms
proof (induction "nat (seek_count (drives s n))" arbitrary: s rule: less_induct)
  case less
  show ?case
  proof (cases "seek_count (drives s n) < 25")
    case True
    with worker_step_seek(2) [OF less.prems(2)] show ?thesis by (intro exI [of _ 1]) simp
  next
    case False
    let ?t = "drive_worker_step n s"
    have t: "seek_count (drives ?t n) = seek_count (drives s n) - 25" using worker_step_seek(1) [OF less.prems(2)] .
    have "seek_count (drives s n) \<noteq> 25" using less.prems(1) by auto
    then have "0 < seek_count (drives ?t n)" "nat (seek_count (drives ?t n)) < nat (seek_count (drives s n))"
      using False t by auto
    moreover have "\<not> 25 dvd seek_count (drives ?t n)"
      unfolding t using less.prems(1) by presburger
    ultimately obtain m where "d_rwsrdy (drives ((drive_worker_step n ^^ m) ?t) n)" using less.hyps by blast
    then show ?thesis by (intro exI [of _ "Suc m"]) (simp only: funpow_Suc_right comp_def)
  qed
qed

text \<open>
  A seek ends, with the drive ready for the next command, exactly when the number of
  cylinders to move plus one is not a multiple of 25: otherwise the step counter hits zero
  without going below, and the drive stays busy for ever.
\<close>

theorem rk05_seek_ends_iff:
  assumes "drive_seek n cylinder s = Some t"
  shows "(\<exists>m. d_rwsrdy (drives ((drive_worker_step n ^^ m) t) n)) \<longleftrightarrow>
    \<not> 25 dvd (\<bar>sint (current_cylinder (drives s n)) - sint cylinder\<bar> + 1)"
proof -
  let ?k = "\<bar>sint (current_cylinder (drives s n)) - sint cylinder\<bar> + 1"
  have t: "seek_count (drives t n) = ?k" "\<not> d_rwsrdy (drives t n)"
    using assms by (auto simp: drive_seek_def Let_def status_changed_drives split: if_splits)
  show ?thesis
    using seek_in_multiples_hangs [where s = t and n = n] other_seeks_end [where s = t and n = n] t by auto
qed

definition sample_rk05 :: rk05 where
  "sample_rk05 = \<lparr>current_cylinder = 0, seek_count = 0, sectorCount = 0, d_wps = False, d_rwsrdy = True,
     d_dry = True, d_sok = False, d_sin = False, d_dru = False, d_rk05 = True, d_dpl = False, d_scp = False,
     image = Some (\<lambda>x. of_nat x), image_is_open = True\<rparr>"

definition sample_rk11 :: rk11 where
  "sample_rk11 = \<lparr>dati = (\<lambda>_. 0), dato = (\<lambda>_. 0), rk_id = 0, e_wce = False, e_cse = False, e_nxs = False,
     e_nxc = False, e_nxd = False, e_te = False, e_dlt = False, e_nxm = False, e_pge = False, e_ske = False,
     e_wlo = False, e_ovr = False, e_dre = False, rk_go = False, rk_function = 0, rk_mex = 0, rk_ide = False,
     rk_rdy = True, rk_sse = False, rk_exb = False, rk_fmt = False, rk_iba = False, rk_scp = False,
     rk_he = False, rk_err = False, rkda_sector = 0, rkda_surface = 0, rkda_cyl = 0, rkda_drive = 0,
     drives = (\<lambda>_. sample_rk05), new_command = \<lparr>c_address = 0, c_function = 0, c_format = False, c_iba = False\<rparr>,
     new_command_ready = False, rk_worker = Worker_Idle,
     rk_current = \<lparr>c_address = 0, c_function = 0, c_format = False, c_iba = False\<rparr>, rk_do_interrupt = False,
     is_rkv11 = False, memory = (\<lambda>_. Some 0), addr_limit = 0x40000, rk_interrupts = 0\<rparr>"

theorem rk05_seek_ends_iff_witness:
  "\<exists>t. drive_seek 0 24 sample_rk11 = Some t \<and>
     (\<forall>m. \<not> d_rwsrdy (drives ((drive_worker_step 0 ^^ m) t) 0))"
proof -
  obtain t where t: "drive_seek 0 24 sample_rk11 = Some t"
    by (simp add: drive_seek_def rk05_geometry_def)
  have "sint (current_cylinder (drives sample_rk11 0)) = 0" by (simp add: sample_rk11_def sample_rk05_def)
  with rk05_seek_ends_iff [OF t] t show ?thesis by simp
qed

subsection \<open>Disk addresses\<close>

definition rk_lba :: "rk11 \<Rightarrow> nat" where
  "rk_lba s = (unat (rkda_cyl s) * 2 + unat (rkda_surface s)) * 12 + unat (rkda_sector s)"

definition da_ok :: "rk11 \<Rightarrow> bool" where
  "da_ok s \<longleftrightarrow> rkda_sector s \<le> 11 \<and> rkda_surface s \<le> 1"

lemma da_ok_nat: "da_ok s \<longleftrightarrow> unat (rkda_sector s) \<le> 11 \<and> unat (rkda_surface s) \<le> 1"
  by (simp add: da_ok_def word_le_nat_alt)

lemma on_disk_cyl: "da_ok s \<Longrightarrow> rk_lba s < 4872 \<longleftrightarrow> unat (rkda_cyl s) < 203"
  by (auto simp: da_ok_nat rk_lba_def)

lemma unat_Suc_16: "unat (x :: u16) < 65535 \<Longrightarrow> unat (x + 1) = unat x + 1"
  by (simp add: unat_word_ariths)

lemma increment_RKDA_step:
  assumes "da_ok s" "rkda_cyl s < 0xffff"
  shows "rk_lba (increment_RKDA s) = rk_lba s + 1 \<and> da_ok (increment_RKDA s) \<and>
    rkda_drive (increment_RKDA s) = rkda_drive s \<and>
    dati (increment_RKDA s) 5 = RKDA_value (increment_RKDA s)"
proof -
  have b: "unat (rkda_sector s) \<le> 11" "unat (rkda_surface s) \<le> 1" "unat (rkda_cyl s) < 65535"
    using assms by (simp_all add: da_ok_nat word_less_nat_alt)
  have u: "unat (rkda_sector s + 1) = unat (rkda_sector s) + 1" "unat (rkda_surface s + 1) = unat (rkda_surface s) + 1"
    "unat (rkda_cyl s + 1) = unat (rkda_cyl s) + 1"
    using b by (simp_all add: unat_Suc_16)
  show ?thesis
  proof (cases "unat (rkda_sector s) = 11")
    case False
    then have "\<not> 11 < rkda_sector s + 1" using u b by (simp add: word_less_nat_alt)
    with False u b show ?thesis
      by (simp add: increment_RKDA_def Let_def update_RKDA_def set_dati_def rk_lba_def da_ok_nat RKDA_value_def)
  next
    case True
    then have s: "11 < rkda_sector s + 1" using u by (simp add: word_less_nat_alt)
    show ?thesis
    proof (cases "unat (rkda_surface s) = 1")
      case False
      then have "\<not> 1 < rkda_surface s + 1" using u b by (simp add: word_less_nat_alt)
      with False True s u b show ?thesis
        by (simp add: increment_RKDA_def Let_def update_RKDA_def set_dati_def rk_lba_def da_ok_nat RKDA_value_def)
    next
      case h: True
      then have "1 < rkda_surface s + 1" using u by (simp add: word_less_nat_alt)
      with h True s u b show ?thesis
        by (simp add: increment_RKDA_def Let_def update_RKDA_def set_dati_def rk_lba_def da_ok_nat RKDA_value_def)
    qed
  qed
qed

text \<open>
  Advancing the disk address moves to the next sector of the disk in the order
  sector, surface, cylinder, keeps the address well-formed and the drive selected, and shows it
  in RKDA.
\<close>

theorem increment_RKDA_next_sector:
  assumes "da_ok s" "rkda_cyl s < 0xffff"
  shows "rk_lba (increment_RKDA s) = rk_lba s + 1 \<and> da_ok (increment_RKDA s) \<and>
    rkda_drive (increment_RKDA s) = rkda_drive s \<and>
    dati (increment_RKDA s) 5 = RKDA_value (increment_RKDA s)"
  using increment_RKDA_step [OF assms] .

theorem increment_RKDA_next_sector_witness:
  "rk_lba (increment_RKDA (sample_rk11\<lparr>rkda_sector := 11, rkda_surface := 1\<rparr>)) = 24"
  using increment_RKDA_next_sector [of "sample_rk11\<lparr>rkda_sector := 11, rkda_surface := 1\<rparr>"]
  by (simp add: sample_rk11_def da_ok_def rk_lba_def)

lemma image_word_lba:
  assumes "unat c < 203" "unat h < 2" "unat x < 12"
  shows "image_word c h x = 256 * ((unat c * 2 + unat h) * 12 + unat x)"
proof -
  have "geometry_fits rk05_geometry" "c < cylinder_count rk05_geometry" "h < head_count rk05_geometry"
    "x < sector_count rk05_geometry"
    using assms by (simp_all add: geometry_fits_def rk05_geometry_def word_less_nat_alt)
  from unat_image_offset [OF this] show ?thesis
    by (simp add: image_word_def rk05_geometry_def)
qed

text \<open>What a sector access leaves alone.\<close>

definition rk_errors :: "rk11 \<Rightarrow> bool list" where
  "rk_errors s = [e_wce s, e_cse s, e_nxs s, e_nxc s, e_nxd s, e_te s, e_dlt s, e_nxm s, e_pge s, e_ske s,
     e_wlo s, e_ovr s, e_dre s, rk_he s, rk_err s]"

definition io_rest where
  "io_rest s = (memory s, addr_limit s, new_command_ready s, rkda_drive s, (\<lambda>n. image (drives s n)),
     (\<lambda>n. d_dry (drives s n)), rk_errors s, (e_wce s, rk_sse s, rk_do_interrupt s, rk_worker s))"

definition io_view where
  "io_view s = (io_rest s, (rkda_sector s, rkda_surface s, rkda_cyl s), (dati s 3, dati s 4))"

lemma io_view_upd_drive:
  assumes "\<And>d. image (f d) = image d \<and> d_dry (f d) = d_dry d"
  shows "io_view (upd_drive n f s) = io_view s"
  using assms by (auto simp: io_view_def io_rest_def upd_drive_def rk_errors_def fun_eq_iff)

lemma io_view_status [simp]: "io_view (on_drive_status_changed n s) = io_view s"
  by (simp add: on_drive_status_changed_def Let_def io_view_def io_rest_def rk_errors_def update_RKDS_def
      update_RKCS_def invoke_interrupt_def upd_drive_def set_dati_def fun_eq_iff)

lemma io_view_start [simp]: "io_view (start_access n c s) = io_view s"
  unfolding start_access_def io_view_status by (rule io_view_upd_drive) simp

lemma io_view_end [simp]: "io_view (end_access n s) = io_view s"
  unfolding end_access_def io_view_status by (rule io_view_upd_drive) simp

text \<open>A command may go on: nothing new ordered, the drive there, the address on the disk.\<close>

definition rk_ready_for_sector :: "rk11 \<Rightarrow> bool" where
  "rk_ready_for_sector s \<longleftrightarrow> \<not> new_command_ready s \<and> d_dry (selected_drive s) \<and> da_ok s \<and> rk_lba s < 4872"

lemma validate_seek_ok:
  assumes "rk_ready_for_sector s"
  shows "validate_seek s = (True, s)"
proof -
  have "\<not> 11 < rkda_sector s" "unat (rkda_cyl s) < 203"
    using assms on_disk_cyl [of s] by (auto simp: rk_ready_for_sector_def da_ok_def)
  then have "\<not> 202 < rkda_cyl s" by (simp add: word_less_nat_alt)
  with \<open>\<not> 11 < rkda_sector s\<close> assms show ?thesis
    by (simp add: validate_seek_def Let_def rk_ready_for_sector_def check_drive_present_def)
qed

lemma sector_position:
  assumes "rk_ready_for_sector s"
  shows "sector_in_range (ucast (rkda_cyl s)) (ucast (rkda_surface s)) (ucast (rkda_sector s))"
    "image_word (ucast (rkda_cyl s)) (ucast (rkda_surface s)) (ucast (rkda_sector s)) = 256 * rk_lba s"
proof -
  have b: "unat (rkda_sector s) \<le> 11" "unat (rkda_surface s) \<le> 1" "unat (rkda_cyl s) < 203"
    using assms on_disk_cyl [of s] by (auto simp: rk_ready_for_sector_def da_ok_nat)
  have u: "unat (ucast x :: u32) = unat x" for x :: u16
  proof -
    have "unat x < 2 ^ 32" using unsigned_less [where 'a = nat, of x] by simp
    then show ?thesis by (simp add: unsigned_ucast_eq take_bit_nat_eq_self)
  qed
  show "sector_in_range (ucast (rkda_cyl s)) (ucast (rkda_surface s)) (ucast (rkda_sector s))"
    using b by (simp add: sector_in_range_def rk05_geometry_def word_less_nat_alt u)
  show "image_word (ucast (rkda_cyl s)) (ucast (rkda_surface s)) (ucast (rkda_sector s)) = 256 * rk_lba s"
    using b by (subst image_word_lba) (simp_all add: u rk_lba_def)
qed

subsection \<open>Whole transfers\<close>

lemma io_view_rest: "io_view s = io_view t \<Longrightarrow> io_rest s = io_rest t"
  by (simp add: io_view_def)

lemma io_rest_D:
  assumes "io_rest t = io_rest s"
  shows "memory t = memory s" "addr_limit t = addr_limit s" "new_command_ready t = new_command_ready s"
    "rkda_drive t = rkda_drive s" "image (drives t n) = image (drives s n)"
    "d_dry (drives t n) = d_dry (drives s n)" "rk_errors t = rk_errors s" "e_wce t = e_wce s" "rk_sse t = rk_sse s"
  using assms by (auto simp: io_rest_def fun_eq_iff)

lemma io_view_D:
  assumes "io_view t = io_view s"
  shows "io_rest t = io_rest s" "rk_lba t = rk_lba s" "da_ok t = da_ok s" "rkda_cyl t = rkda_cyl s"
    "rkda_surface t = rkda_surface s" "rkda_sector t = rkda_sector s"
    "dati t 3 = dati s 3" "dati t 4 = dati s 4"
  using assms by (auto simp: io_view_def rk_lba_def da_ok_def)

lemma io_view_ready:
  assumes "io_view t = io_view s"
  shows "rk_ready_for_sector t = rk_ready_for_sector s"
  using io_view_D [OF assms] io_rest_D [OF io_view_rest [OF assms]]
  by (simp add: rk_ready_for_sector_def selected_drive_def)

lemma rk_errors_frame [simp]:
  "rk_errors (s\<lparr>memory := m\<rparr>) = rk_errors s" "rk_errors (set_dati i v s) = rk_errors s"
  "rk_errors (upd_drive n f s) = rk_errors s"
  by (simp_all add: rk_errors_def set_dati_def upd_drive_def)

lemma io_rest_set_dati [simp]: "io_rest (set_dati i v s) = io_rest s"
  by (simp add: io_rest_def) (simp add: set_dati_def)

lemma io_rest_memory: "io_rest s = io_rest t \<Longrightarrow> io_rest (s\<lparr>memory := m\<rparr>) = io_rest (t\<lparr>memory := m\<rparr>)"
  by (simp add: io_rest_def)

lemma read_sector_ok:
  assumes "rk_ready_for_sector s" "image (selected_drive s) = Some im"
  obtains t where "read_sector (unat (rkda_drive s)) (ucast (rkda_cyl s)) (ucast (rkda_surface s))
      (ucast (rkda_sector s)) buf s = Some (map (\<lambda>i. im (256 * rk_lba s + i)) [0..<256], t)"
    "io_view t = io_view s"
proof -
  let ?n = "unat (rkda_drive s)"
  let ?s1 = "start_access ?n (ucast (rkda_cyl s)) s"
  have "image (drives ?s1 ?n) = Some im"
    using assms(2) io_rest_D(5) [OF io_view_rest, of ?s1 s] by (simp add: selected_drive_def)
  then have "read_sector ?n (ucast (rkda_cyl s)) (ucast (rkda_surface s)) (ucast (rkda_sector s)) buf s =
      Some (map (\<lambda>i. im (256 * rk_lba s + i)) [0..<256], end_access ?n ?s1)"
    unfolding read_sector_def sector_position(2) [OF assms(1)]
    by (simp add: sector_position(1) [OF assms(1)] Let_def del: upt_rec_numeral)
  then show thesis by (rule that) simp
qed

lemma write_sector_ok:
  assumes "rk_ready_for_sector s" "image (selected_drive s) = Some im" "length buf = 256"
  obtains t where "write_sector (unat (rkda_drive s)) (ucast (rkda_cyl s)) (ucast (rkda_surface s))
      (ucast (rkda_sector s)) buf s = Some t"
    "io_view t = io_view (upd_drive (unat (rkda_drive s))
        (\<lambda>d. d\<lparr>image := Some (write_image (256 * rk_lba s) buf im)\<rparr>) s)"
proof -
  let ?n = "unat (rkda_drive s)"
  let ?s1 = "start_access ?n (ucast (rkda_cyl s)) s"
  let ?w = "\<lambda>d. d\<lparr>image := map_option (write_image (256 * rk_lba s) buf) (image d)\<rparr>"
  have im: "image (drives ?s1 ?n) = Some im"
    using assms(2) io_rest_D(5) [OF io_view_rest, of ?s1 s] by (simp add: selected_drive_def)
  have e: "write_sector ?n (ucast (rkda_cyl s)) (ucast (rkda_surface s)) (ucast (rkda_sector s)) buf s =
      Some (end_access ?n (upd_drive ?n ?w ?s1))"
    unfolding write_sector_def sector_position(2) [OF assms(1)]
    using assms(3) by (simp add: sector_position(1) [OF assms(1)] Let_def)
  have v: "io_view (upd_drive ?n ?w ?s1) =
      io_view (upd_drive ?n (\<lambda>d. d\<lparr>image := Some (write_image (256 * rk_lba s) buf im)\<rparr>) s)"
  proof -
    have v: "io_view ?s1 = io_view s" by simp
    show ?thesis
      using v im by (auto simp: io_view_def io_rest_def rk_errors_def upd_drive_def fun_eq_iff)
  qed
  show thesis by (rule that [OF e]) (simp only: io_view_end v)
qed

lemma advance_effect:
  assumes "da_ok s" "rkda_cyl s < 0xffff"
  obtains t where "advance False n count addr s = (count - int n, addr + 2 * of_nat n, t)"
    "rk_lba t = rk_lba s + 1" "da_ok t" "io_rest t = io_rest s"
    "dati t 3 = word_of_int (- (count - int n))" "dati t 4 = ucast (addr + 2 * of_nat n)"
proof -
  define s1 where "s1 = (set_dati 4 (ucast (addr + 2 * of_nat n)) (set_dati 3 (word_of_int (- (count - int n))) s))
      \<lparr>rk_mex := ucast (drop_bit 16 (addr + 2 * of_nat n)) AND 3\<rparr>"
  have v: "da_ok s1" "rkda_cyl s1 = rkda_cyl s" "rk_lba s1 = rk_lba s" "io_rest s1 = io_rest s"
    using assms(1) by (simp_all add: s1_def da_ok_def rk_lba_def io_rest_def rk_errors_def set_dati_def)
  have e: "advance False n count addr s = (count - int n, addr + 2 * of_nat n, increment_RKDA s1)"
    by (simp add: advance_def Let_def s1_def)
  have i: "rk_lba (increment_RKDA s1) = rk_lba s1 + 1 \<and> da_ok (increment_RKDA s1)"
    using increment_RKDA_step [OF v(1)] assms(2) v(2) by simp
  have "io_rest (increment_RKDA s1) = io_rest s1" "dati (increment_RKDA s1) 3 = dati s1 3"
    "dati (increment_RKDA s1) 4 = dati s1 4"
    by (auto simp: increment_RKDA_def Let_def update_RKDA_def set_dati_def io_rest_def rk_errors_def)
  with e i v show thesis by (intro that) (simp_all add: s1_def)
qed

lemma dma_address_ok:
  assumes "unat a + 2 * n \<le> unat (limit :: u32)"
  shows "a + 2 * of_nat n \<le> limit"
proof -
  have "(a + 2 * of_nat n :: u32) = of_nat (unat a + 2 * n)" by simp
  moreover have "unat (of_nat (unat a + 2 * n) :: u32) = unat a + 2 * n"
    using assms unsigned_less [where 'a = nat, of limit] by (simp only: unat_of_nat) simp
  ultimately have "unat (a + 2 * of_nat n) = unat a + 2 * n" by metis
  with assms show ?thesis by (simp add: word_le_nat_alt)
qed

lemma dma_to_memory_ok:
  assumes "0 < n" "n \<le> length buf" "unat a + 2 * n \<le> unat (addr_limit s)" "\<forall>i<n. memory s (a + 2 * of_nat i) \<noteq> None"
  shows "rk_dma_transfer To_memory False a buf n s =
    Some (True, buf, s\<lparr>memory := fst (bus_write (memory s) a (take n buf))\<rparr>)"
proof -
  have "unat a + 2 * length (take n buf) \<le> 2 ^ 32"
    using assms unsigned_less [where 'a = nat, of "addr_limit s"] by simp
  from bus_write_ok(1) [OF this, of "memory s"] assms(2,4) have "snd (bus_write (memory s) a (take n buf))" by simp
  with assms dma_address_ok [OF assms(3)] show ?thesis
    by (simp add: rk_dma_transfer_def dma_spec_def case_prod_beta)
qed

lemma dma_to_device_ok:
  assumes "0 < n" "n \<le> length buf" "unat a + 2 * n \<le> unat (addr_limit s)" "bus_read (memory s) a n = Some ws"
  shows "rk_dma_transfer To_device False a buf n s = Some (True, ws @ drop n buf, s)"
  using assms dma_address_ok [OF assms(3)] by (simp add: rk_dma_transfer_def dma_spec_def)

text \<open>The loop keeps any invariant its rounds keep, and ends with the count at zero.\<close>

lemma transfer_loop_invariant:
  assumes step: "\<And>k a s. 0 < k \<Longrightarrow> J k a s \<Longrightarrow>
      \<exists>t. transfer_round cmd (int k) a s = Some (False, int (k - min 256 k), a + 2 * of_nat (min 256 k), t) \<and>
          J (k - min 256 k) (a + 2 * of_nat (min 256 k)) t"
  shows "J k a s \<Longrightarrow> k \<le> fuel \<Longrightarrow> \<exists>t a'. transfer_loop fuel cmd (int k) a s = Some t \<and> J 0 a' t"
proof (induction fuel arbitrary: k a s)
  case 0
  then show ?case by auto
next
  case (Suc fuel)
  show ?case
  proof (cases "k = 0")
    case True
    with Suc.prems show ?thesis by auto
  next
    case False
    then have "0 < k" by simp
    from step [OF this Suc.prems(1)] obtain t where t:
      "transfer_round cmd (int k) a s = Some (False, int (k - min 256 k), a + 2 * of_nat (min 256 k), t)"
      "J (k - min 256 k) (a + 2 * of_nat (min 256 k)) t" by blast
    have "k - min 256 k \<le> fuel" using Suc.prems(2) False by simp
    from Suc.IH [OF t(2) this] False t(1) show ?thesis by auto
  qed
qed


text \<open>The conditions under which a round on \<open>n\<close> words at bus address \<open>a\<close> succeeds.\<close>

definition sector_dma_ok :: "u32 \<Rightarrow> nat \<Rightarrow> (nat \<Rightarrow> u16) \<Rightarrow> rk11 \<Rightarrow> bool" where
  "sector_dma_ok a n im s \<longleftrightarrow> rk_ready_for_sector s \<and> image (selected_drive s) = Some im \<and>
     unat a + 2 * n \<le> unat (addr_limit s) \<and> (\<forall>i<n. memory s (a + 2 * of_nat i) \<noteq> None)"

definition disk_words :: "(nat \<Rightarrow> u16) \<Rightarrow> nat \<Rightarrow> nat \<Rightarrow> u16 list" where
  "disk_words im pos n = map (\<lambda>i. im (pos + i)) [0..<n]"

lemma disk_words_length [simp]: "length (disk_words im pos n) = n"
  by (simp add: disk_words_def)

lemma disk_words_nth [simp]: "i < n \<Longrightarrow> disk_words im pos n ! i = im (pos + i)"
  by (simp add: disk_words_def)

lemma disk_words_take [simp]: "take m (disk_words im pos n) = disk_words im pos (min m n)"
  by (rule nth_equalityI) auto

lemma disk_words_add: "disk_words im pos (m + n) = disk_words im pos m @ disk_words im (pos + m) n"
  by (rule nth_equalityI) (auto simp: nth_append)

lemma ready_cyl: "rk_ready_for_sector s \<Longrightarrow> rkda_cyl s < 0xffff"
  using on_disk_cyl [of s] by (auto simp: rk_ready_for_sector_def word_less_nat_alt)

lemma transfer_round_ok:
  assumes "rk_ready_for_sector s" "rw_kind_of cmd = kind" "kind \<noteq> Rw_read_format"
    "load_buffers kind s = Some (buf, check, s1)"
    "rk_dma_transfer (if kind = Rw_write \<or> kind = Rw_write_check then To_device else To_memory)
       (c_iba cmd) addr buf (nat (min 256 count)) s1 = Some (True, buf', s2)"
    "store_sector kind (nat (min 256 count)) buf' check s2 = Some (stop, s3)"
    "advance (c_iba cmd) (nat (min 256 count)) count addr s3 = (count', addr', t)"
  shows "transfer_round cmd count addr s = Some (stop, count', addr', t)"
proof -
  have "\<not> new_command_ready s" using assms(1) by (simp add: rk_ready_for_sector_def)
  with assms(2-) show ?thesis unfolding transfer_round_def validate_seek_ok [OF assms(1)] Let_def by simp
qed

lemma round_read:
  assumes kind: "rw_kind_of cmd = Rw_read" "\<not> c_iba cmd" and k: "0 < k" and ok: "sector_dma_ok a (min 256 k) im s"
  obtains t where
    "transfer_round cmd (int k) a s = Some (False, int (k - min 256 k), a + 2 * of_nat (min 256 k), t)"
    "rk_lba t = rk_lba s + 1" "da_ok t"
    "io_rest t = io_rest (s\<lparr>memory := fst (bus_write (memory s) a (disk_words im (256 * rk_lba s) (min 256 k)))\<rparr>)"
    "dati t 3 = word_of_int (- int (k - min 256 k))" "dati t 4 = ucast (a + 2 * of_nat (min 256 k))"
proof -
  let ?n = "min 256 k" and ?buf = "disk_words im (256 * rk_lba s) 256"
  have r: "rk_ready_for_sector s" "image (selected_drive s) = Some im" using ok by (simp_all add: sector_dma_ok_def)
  from read_sector_ok [OF r, of "replicate 256 0"] obtain s1 where s1:
    "read_sector (unat (rkda_drive s)) (ucast (rkda_cyl s)) (ucast (rkda_surface s)) (ucast (rkda_sector s))
       (replicate 256 0) s = Some (?buf, s1)" "io_view s1 = io_view s"
    unfolding disk_words_def by blast
  note v = io_view_D [OF s1(2)] io_rest_D [OF io_view_rest [OF s1(2)]]
  let ?s2 = "s1\<lparr>memory := fst (bus_write (memory s) a (disk_words im (256 * rk_lba s) ?n))\<rparr>"
  have d: "rk_dma_transfer To_memory False a ?buf ?n s1 = Some (True, ?buf, ?s2)"
    using dma_to_memory_ok [of ?n ?buf a s1] k ok by (simp add: v sector_dma_ok_def)
  let ?s3 = "set_dati 7 (?buf ! (?n - 1)) ?s2"
  have "da_ok ?s3" "rkda_cyl ?s3 < 0xffff" "rk_lba ?s3 = rk_lba s"
    using r(1) ready_cyl [OF r(1)] v by (simp_all add: rk_ready_for_sector_def da_ok_def rk_lba_def set_dati_def)
  from advance_effect [OF this(1,2), of ?n "int k" a] this(3) obtain t where t:
    "advance False ?n (int k) a ?s3 = (int k - int ?n, a + 2 * of_nat ?n, t)"
    "rk_lba t = rk_lba s + 1" "da_ok t" "io_rest t = io_rest ?s3"
    "dati t 3 = word_of_int (- (int k - int ?n))" "dati t 4 = ucast (a + 2 * of_nat ?n)" by metis
  have n: "nat (min 256 (int k)) = ?n" by (simp add: min_def)
  have c: "int k - int ?n = int (k - ?n)" by simp
  have l: "load_buffers Rw_read s = Some (?buf, replicate 256 0, s1)"
    unfolding load_buffers_def Let_def by (simp only: rw_kind.case s1(1) bind.bind_lunit prod.case)
  have st: "store_sector Rw_read ?n ?buf (replicate 256 0) ?s2 = Some (False, ?s3)"
    by (simp add: store_sector_def Let_def)
  have "transfer_round cmd (int k) a s = Some (False, int k - int ?n, a + 2 * of_nat ?n, t)"
    by (rule transfer_round_ok [OF r(1) kind(1) _ l, where buf' = ?buf and ?s2.0 = ?s2 and ?s3.0 = ?s3])
      (use d st t(1) kind(2) in \<open>simp_all only: n rw_kind.distinct if_False simp_thms\<close>)
  moreover have "io_rest ?s3 = io_rest (s\<lparr>memory := fst (bus_write (memory s) a (disk_words im (256 * rk_lba s) ?n))\<rparr>)"
    using io_rest_memory [OF io_view_rest [OF s1(2)]] by simp
  ultimately show thesis using that t unfolding c by simp
qed

lemma round_write:
  assumes kind: "rw_kind_of cmd = Rw_write" "\<not> c_iba cmd" and k: "0 < k" and ok: "sector_dma_ok a (min 256 k) im s"
    and ws: "bus_read (memory s) a (min 256 k) = Some ws"
  obtains t where
    "transfer_round cmd (int k) a s = Some (False, int (k - min 256 k), a + 2 * of_nat (min 256 k), t)"
    "rk_lba t = rk_lba s + 1" "da_ok t"
    "io_rest t = io_rest (upd_drive (unat (rkda_drive s)) (\<lambda>d. d\<lparr>image :=
       Some (write_image (256 * rk_lba s) (ws @ replicate (256 - min 256 k) 0) im)\<rparr>) s)"
    "dati t 3 = word_of_int (- int (k - min 256 k))" "dati t 4 = ucast (a + 2 * of_nat (min 256 k))"
proof -
  let ?n = "min 256 k" and ?z = "replicate 256 (0 :: u16)"
  let ?buf = "ws @ replicate (256 - ?n) 0"
  have r: "rk_ready_for_sector s" "image (selected_drive s) = Some im" using ok by (simp_all add: sector_dma_ok_def)
  have len: "length ws = ?n" using bus_read_length [OF ws] .
  have d: "rk_dma_transfer To_device False a ?z ?n s = Some (True, ?buf, s)"
    using dma_to_device_ok [of ?n ?z a s ws] k ok ws by (simp add: sector_dma_ok_def)
  have "length ?buf = 256" using len by simp
  from write_sector_ok [OF r this] obtain s3 where s3:
    "write_sector (unat (rkda_drive s)) (ucast (rkda_cyl s)) (ucast (rkda_surface s)) (ucast (rkda_sector s)) ?buf s
       = Some s3"
    "io_view s3 = io_view (upd_drive (unat (rkda_drive s))
        (\<lambda>d. d\<lparr>image := Some (write_image (256 * rk_lba s) ?buf im)\<rparr>) s)" by blast
  note v = io_view_D [OF s3(2)]
  have "da_ok s3" "rkda_cyl s3 < 0xffff" "rk_lba s3 = rk_lba s"
    using r(1) ready_cyl [OF r(1)] v(2,3,4)
    by (simp_all add: rk_ready_for_sector_def da_ok_def rk_lba_def upd_drive_def)
  from advance_effect [OF this(1,2), of ?n "int k" a] this(3) obtain t where t:
    "advance False ?n (int k) a s3 = (int k - int ?n, a + 2 * of_nat ?n, t)"
    "rk_lba t = rk_lba s + 1" "da_ok t" "io_rest t = io_rest s3"
    "dati t 3 = word_of_int (- (int k - int ?n))" "dati t 4 = ucast (a + 2 * of_nat ?n)" by metis
  have n: "nat (min 256 (int k)) = ?n" by (simp add: min_def)
  have c: "int k - int ?n = int (k - ?n)" by simp
  have l: "load_buffers Rw_write s = Some (?z, ?z, s)"
    unfolding load_buffers_def Let_def by (simp only: rw_kind.case)
  have st: "store_sector Rw_write ?n ?buf ?z s = Some (False, s3)"
    unfolding store_sector_def Let_def by (simp only: rw_kind.case s3(1) option.map)
  have "transfer_round cmd (int k) a s = Some (False, int k - int ?n, a + 2 * of_nat ?n, t)"
    by (rule transfer_round_ok [OF r(1) kind(1) _ l, where buf' = ?buf and ?s2.0 = s and ?s3.0 = s3])
      (use d st t(1) kind(2) in \<open>simp_all only: n rw_kind.distinct if_True simp_thms\<close>)
  then show thesis using that t v(1) unfolding c by simp
qed

lemma round_write_check:
  assumes kind: "rw_kind_of cmd = Rw_write_check" "\<not> c_iba cmd" and k: "0 < k" and ok: "sector_dma_ok a (min 256 k) im s"
    and ws: "bus_read (memory s) a (min 256 k) = Some ws" and sse: "\<not> rk_sse s"
    and differs: "differs \<longleftrightarrow> ws \<noteq> disk_words im (256 * rk_lba s) (min 256 k)"
  obtains t where
    "transfer_round cmd (int k) a s = Some (False, int (k - min 256 k), a + 2 * of_nat (min 256 k), t)"
    "rk_lba t = rk_lba s + 1" "da_ok t"
    "io_rest t = io_rest (s\<lparr>e_wce := e_wce s \<or> differs, rk_err := rk_err s \<or> differs\<rparr>)"
    "dati t 3 = word_of_int (- int (k - min 256 k))" "dati t 4 = ucast (a + 2 * of_nat (min 256 k))"
proof -
  let ?n = "min 256 k" and ?z = "replicate 256 (0 :: u16)" and ?c = "disk_words im (256 * rk_lba s) 256"
  let ?buf = "ws @ drop ?n ?z"
  have r: "rk_ready_for_sector s" "image (selected_drive s) = Some im" using ok by (simp_all add: sector_dma_ok_def)
  have len: "length ws = ?n" using bus_read_length [OF ws] .
  from read_sector_ok [OF r, of ?z] obtain s1 where s1:
    "read_sector (unat (rkda_drive s)) (ucast (rkda_cyl s)) (ucast (rkda_surface s)) (ucast (rkda_sector s)) ?z s
       = Some (?c, s1)" "io_view s1 = io_view s"
    unfolding disk_words_def by blast
  note v = io_view_D [OF s1(2)] io_rest_D [OF io_view_rest [OF s1(2)]]
  have d: "rk_dma_transfer To_device False a ?z ?n s1 = Some (True, ?buf, s1)"
    using dma_to_device_ok [of ?n ?z a s1 ws] k ok ws by (simp add: v sector_dma_ok_def)
  let ?s3 = "s1\<lparr>e_wce := e_wce s1 \<or> differs, rk_err := rk_err s1 \<or> differs\<rparr>"
  have "da_ok ?s3" "rkda_cyl ?s3 < 0xffff" "rk_lba ?s3 = rk_lba s"
    using r(1) ready_cyl [OF r(1)] v by (simp_all add: rk_ready_for_sector_def da_ok_def rk_lba_def)
  from advance_effect [OF this(1,2), of ?n "int k" a] this(3) obtain t where t:
    "advance False ?n (int k) a ?s3 = (int k - int ?n, a + 2 * of_nat ?n, t)"
    "rk_lba t = rk_lba s + 1" "da_ok t" "io_rest t = io_rest ?s3"
    "dati t 3 = word_of_int (- (int k - int ?n))" "dati t 4 = ucast (a + 2 * of_nat ?n)" by metis
  have n: "nat (min 256 (int k)) = ?n" by (simp add: min_def)
  have c: "int k - int ?n = int (k - ?n)" by simp
  have l: "load_buffers Rw_write_check s = Some (?z, ?c, s1)"
    unfolding load_buffers_def Let_def by (simp only: rw_kind.case s1(1) bind.bind_lunit prod.case)
  have "take ?n ?buf = ws" "take ?n ?c = disk_words im (256 * rk_lba s) ?n" using len by simp_all
  then have st: "store_sector Rw_write_check ?n ?buf ?c s1 = Some (False, ?s3)"
    unfolding store_sector_def Let_def using sse by (simp add: differs v)
  have "transfer_round cmd (int k) a s = Some (False, int k - int ?n, a + 2 * of_nat ?n, t)"
    by (rule transfer_round_ok [OF r(1) kind(1) _ l, where buf' = ?buf and ?s2.0 = s1 and ?s3.0 = ?s3])
      (use d st t(1) kind(2) in \<open>simp_all only: n rw_kind.distinct if_True simp_thms\<close>)
  moreover have "io_rest ?s3 = io_rest (s\<lparr>e_wce := e_wce s \<or> differs, rk_err := rk_err s \<or> differs\<rparr>)"
    using io_view_rest [OF s1(2)] by (simp add: io_rest_def rk_errors_def)
  ultimately show thesis using that t unfolding c by simp
qed

text \<open>How far a transfer of \<open>n\<close> words has come when \<open>k\<close> words are left.\<close>

definition transfer_progress :: "nat \<Rightarrow> u32 \<Rightarrow> nat \<Rightarrow> nat \<Rightarrow> u32 \<Rightarrow> rk11 \<Rightarrow> bool" where
  "transfer_progress n a0 lba0 k a s \<longleftrightarrow>
     k \<le> n \<and> (k = 0 \<or> 256 dvd (n - k)) \<and> a = a0 + 2 * of_nat (n - k) \<and> da_ok s \<and>
     rk_lba s = lba0 + (n - k + 255) div 256 \<and>
     dati s 3 = word_of_int (- int k) \<and> (k < n \<longrightarrow> dati s 4 = ucast a)"

lemma transfer_progress_step:
  assumes "transfer_progress n a0 lba0 k a s" "0 < k" "rk_lba t = rk_lba s + 1" "da_ok t"
    "dati t 3 = word_of_int (- int (k - min 256 k))" "dati t 4 = ucast (a + 2 * of_nat (min 256 k))"
  shows "transfer_progress n a0 lba0 (k - min 256 k) (a + 2 * of_nat (min 256 k)) t"
proof -
  have p: "k \<le> n" "256 dvd (n - k)" "a = a0 + 2 * of_nat (n - k)" "rk_lba s = lba0 + (n - k + 255) div 256"
    using assms(1,2) by (auto simp: transfer_progress_def)
  have m: "n - (k - min 256 k) = (n - k) + min 256 k" using p(1) by auto
  obtain q where q: "n - k = 256 * q" using p(2) by auto
  have "(n - k + min 256 k + 255) div 256 = (n - k + 255) div 256 + 1"
  proof -
    have "(256 * q + min 256 k + 255) div 256 = q + (min 256 k + 255) div 256"
      by (simp add: add.assoc)
    moreover have "(min 256 k + 255) div 256 = 1" using assms(2) by (cases "k < 256") auto
    moreover have "(256 * q + 255) div 256 = q" by simp
    ultimately show ?thesis by (simp only: q)
  qed
  moreover have "k - min 256 k = 0 \<or> 256 dvd (n - k + min 256 k)" by (simp add: q min_def)
  moreover have "a + 2 * of_nat (min 256 k) = a0 + 2 * of_nat (n - k + min 256 k)"
    unfolding p(3) of_nat_add by (simp only: distrib_left add.assoc)
  moreover have "k - min 256 k \<le> n" using p(1) by simp
  ultimately show ?thesis
    unfolding transfer_progress_def m using assms(3-6) p(4) by simp
qed

text \<open>What the sector at the current position is in terms of the start of the transfer.\<close>

lemma transfer_progress_position:
  assumes "transfer_progress n a0 lba0 k a s" "0 < k"
  shows "256 * rk_lba s = 256 * lba0 + (n - k)" "a = a0 + 2 * of_nat (n - k)" "n - (k - min 256 k) = n - k + min 256 k"
proof -
  have p: "k \<le> n" "256 dvd (n - k)" "a = a0 + 2 * of_nat (n - k)" "rk_lba s = lba0 + (n - k + 255) div 256"
    using assms by (auto simp: transfer_progress_def)
  obtain q where q: "n - k = 256 * q" using p(2) by auto
  have "(n - k + 255) div 256 = q" by (simp add: q)
  then show "256 * rk_lba s = 256 * lba0 + (n - k)" unfolding p(4) by (simp add: q)
  show "a = a0 + 2 * of_nat (n - k)" by (rule p(3))
  show "n - (k - min 256 k) = n - k + min 256 k" using p(1) by auto
qed

text \<open>
  A transfer that nothing hinders: \<open>n\<close> words, the drive there with its image \<open>im\<close>, all sectors on
  the disk, memory answering at every address.
\<close>

definition transfer_ok :: "rk_command \<Rightarrow> nat \<Rightarrow> (nat \<Rightarrow> u16) \<Rightarrow> rk11 \<Rightarrow> bool" where
  "transfer_ok cmd n im s \<longleftrightarrow> \<not> c_iba cmd \<and> rk_ready_for_sector s \<and> image (selected_drive s) = Some im \<and>
     dati s 3 = word_of_int (- int n) \<and> 0 < n \<and> n < 0x8000 \<and> 256 * rk_lba s + n \<le> 256 * 4872 \<and>
     unat (c_address cmd) + 2 * n \<le> unat (addr_limit s) \<and>
     (\<forall>i<n. memory s (c_address cmd + 2 * of_nat i) \<noteq> None)"

lemma sint_small: "0 \<le> i \<Longrightarrow> i < 32768 \<Longrightarrow> sint (word_of_int i :: u16) = i"
  by (simp add: sint_sbintrunc' signed_take_bit_int_eq_self)

lemma transfer_ok_count: "transfer_ok cmd n im s \<Longrightarrow> word_count s = int n"
proof -
  assume ok: "transfer_ok cmd n im s"
  then have "- dati s 3 = (word_of_int (int n) :: u16)" by (simp add: transfer_ok_def)
  moreover have "sint (word_of_int (int n) :: u16) = int n"
    by (rule sint_small) (use ok in \<open>simp_all add: transfer_ok_def\<close>)
  ultimately show ?thesis by (simp add: word_count_def)
qed

lemma transfer_ok_start:
  "transfer_ok cmd n im s \<Longrightarrow> transfer_progress n (c_address cmd) (rk_lba s) n (c_address cmd) s"
  by (simp add: transfer_ok_def transfer_progress_def rk_ready_for_sector_def)

lemma transfer_ok_sector:
  assumes ok: "transfer_ok cmd n im s0" and p: "transfer_progress n (c_address cmd) (rk_lba s0) k a s" and k: "0 < k"
    and same: "new_command_ready s = new_command_ready s0" "d_dry (selected_drive s)" "addr_limit s = addr_limit s0"
    and im: "image (selected_drive s) = Some im'" and mem: "\<And>x. memory s0 x \<noteq> None \<Longrightarrow> memory s x \<noteq> None"
  shows "sector_dma_ok a (min 256 k) im' s"
proof -
  note pos = transfer_progress_position [OF p k]
  have kn: "k \<le> n" and da: "da_ok s" using p by (auto simp: transfer_progress_def)
  have "256 * rk_lba s < 256 * 4872" using ok k kn unfolding pos(1) transfer_ok_def by linarith
  then have "rk_ready_for_sector s"
    using ok same(1,2) da by (simp add: rk_ready_for_sector_def transfer_ok_def)
  moreover have lim: "unat (c_address cmd) + 2 * n \<le> 2 ^ 32"
    using ok unsigned_less [where 'a = nat, of "addr_limit s0"] by (simp add: transfer_ok_def)
  have "unat a = unat (c_address cmd) + 2 * (n - k)"
    unfolding pos(2) by (rule word_addr_unat [OF lim]) (use k kn in simp)
  then have "unat a + 2 * min 256 k \<le> unat (addr_limit s)"
    using ok kn unfolding same(3) transfer_ok_def by linarith
  moreover have "memory s (a + 2 * of_nat i) \<noteq> None" if "i < min 256 k" for i
  proof (rule mem)
    have "a + 2 * of_nat i = c_address cmd + 2 * of_nat (n - k + i)"
      unfolding pos(2) of_nat_add by (simp only: distrib_left add.assoc)
    moreover have "n - k + i < n" using that kn by linarith
    ultimately show "memory s0 (a + 2 * of_nat i) \<noteq> None" using ok unfolding transfer_ok_def by metis
  qed
  ultimately show ?thesis by (simp add: sector_dma_ok_def im)
qed

lemma bus_write_dom: "fst (bus_write m a ws) x = None \<longleftrightarrow> m x = None"
  by (induction ws arbitrary: m a) (auto split: option.splits)

lemma transfer_loop_result:
  assumes ok: "transfer_ok cmd n im s"
    and step: "\<And>k a u. 0 < k \<Longrightarrow> transfer_progress n (c_address cmd) (rk_lba s) k a u \<Longrightarrow> Q (n - k) u \<Longrightarrow>
      \<exists>t. transfer_round cmd (int k) a u = Some (False, int (k - min 256 k), a + 2 * of_nat (min 256 k), t) \<and>
        rk_lba t = rk_lba u + 1 \<and> da_ok t \<and> Q (n - k + min 256 k) t \<and>
        dati t 3 = word_of_int (- int (k - min 256 k)) \<and> dati t 4 = ucast (a + 2 * of_nat (min 256 k))"
    and start: "Q 0 s"
  obtains t where "rk_transfer cmd s = Some t" "Q n t" "rk_lba t = rk_lba s + (n + 255) div 256" "da_ok t"
    "dati t 3 = 0" "dati t 4 = ucast (c_address cmd + 2 * of_nat n)"
proof -
  let ?J = "\<lambda>k a u. transfer_progress n (c_address cmd) (rk_lba s) k a u \<and> Q (n - k) u"
  have "\<exists>t a'. transfer_loop n cmd (int n) (c_address cmd) s = Some t \<and> ?J 0 a' t"
  proof (rule transfer_loop_invariant [where J = ?J])
    fix k a u assume k: "0 < k" and j: "?J k a u"
    from step [OF k] j obtain t where t:
      "transfer_round cmd (int k) a u = Some (False, int (k - min 256 k), a + 2 * of_nat (min 256 k), t)"
      "rk_lba t = rk_lba u + 1" "da_ok t" "Q (n - k + min 256 k) t"
      "dati t 3 = word_of_int (- int (k - min 256 k))" "dati t 4 = ucast (a + 2 * of_nat (min 256 k))" by blast
    from transfer_progress_step [OF conjunct1 [OF j] k t(2,3,5,6)] t(1,4)
    show "\<exists>t. transfer_round cmd (int k) a u = Some (False, int (k - min 256 k), a + 2 * of_nat (min 256 k), t) \<and>
        ?J (k - min 256 k) (a + 2 * of_nat (min 256 k)) t"
      by (simp add: transfer_progress_position(3) [OF conjunct1 [OF j] k])
  qed (use transfer_ok_start [OF ok] start in auto)
  then obtain t a' where t: "transfer_loop n cmd (int n) (c_address cmd) s = Some t" "?J 0 a' t" by blast
  have "0 < n" using ok by (simp add: transfer_ok_def)
  then show thesis
    using that [of t] t by (simp add: rk_transfer_def transfer_ok_count [OF ok] transfer_progress_def)
qed

lemma io_rest_ready:
  assumes "io_rest u = io_rest v" "rk_ready_for_sector s" "io_rest v = io_rest (s\<lparr>memory := m, e_wce := b, rk_err := c\<rparr>)"
  shows "new_command_ready u = new_command_ready s" "d_dry (selected_drive u)" "addr_limit u = addr_limit s"
  using assms by (auto simp: io_rest_def selected_drive_def rk_ready_for_sector_def fun_eq_iff)

lemma rw_kinds:
  "rk_function_of (c_function cmd) = RK_Read \<Longrightarrow> \<not> c_format cmd \<Longrightarrow> rw_kind_of cmd = Rw_read"
  "rk_function_of (c_function cmd) = RK_Write \<Longrightarrow> rw_kind_of cmd = Rw_write"
  "rk_function_of (c_function cmd) = Write_Check \<Longrightarrow> rw_kind_of cmd = Rw_write_check"
  by (simp_all add: rw_kind_of_def)

lemma read_transfer:
  assumes ok: "transfer_ok cmd n im s" and kind: "rw_kind_of cmd = Rw_read"
  obtains t where "rk_transfer cmd s = Some t"
    "io_rest t = io_rest (s\<lparr>memory := fst (bus_write (memory s) (c_address cmd) (disk_words im (256 * rk_lba s) n))\<rparr>)"
    "rk_lba t = rk_lba s + (n + 255) div 256" "da_ok t" "dati t 3 = 0" "dati t 4 = ucast (c_address cmd + 2 * of_nat n)"
proof -
  let ?a0 = "c_address cmd" and ?p = "256 * rk_lba s"
  let ?m = "\<lambda>j. fst (bus_write (memory s) ?a0 (disk_words im ?p j))"
  let ?Q = "\<lambda>j u. io_rest u = io_rest (s\<lparr>memory := ?m j\<rparr>)"
  have r: "rk_ready_for_sector s" and im: "image (selected_drive s) = Some im" and iba: "\<not> c_iba cmd"
    and lim: "unat ?a0 + 2 * n \<le> 2 ^ 32" and mem: "\<forall>i<n. memory s (?a0 + 2 * of_nat i) \<noteq> None"
    using ok unsigned_less [where 'a = nat, of "addr_limit s"] by (simp_all add: transfer_ok_def)
  show thesis
  proof (rule transfer_loop_result [OF ok, of ?Q])
    fix k a u assume k: "0 < k" and p: "transfer_progress n ?a0 (rk_lba s) k a u" and q: "?Q (n - k) u"
    note pos = transfer_progress_position [OF p k]
    have kn: "k \<le> n" using p by (simp add: transfer_progress_def)
    note v = io_rest_D [OF q]
    have "sector_dma_ok a (min 256 k) im u"
      by (rule transfer_ok_sector [OF ok p k])
        (use v r im in \<open>auto simp: selected_drive_def rk_ready_for_sector_def bus_write_dom\<close>)
    from round_read [OF kind iba k this] obtain t where t:
      "transfer_round cmd (int k) a u = Some (False, int (k - min 256 k), a + 2 * of_nat (min 256 k), t)"
      "rk_lba t = rk_lba u + 1" "da_ok t"
      "io_rest t = io_rest (u\<lparr>memory := fst (bus_write (memory u) a (disk_words im (256 * rk_lba u) (min 256 k)))\<rparr>)"
      "dati t 3 = word_of_int (- int (k - min 256 k))" "dati t 4 = ucast (a + 2 * of_nat (min 256 k))" by blast
    have "snd (bus_write (memory s) ?a0 (disk_words im ?p (n - k)))"
      by (rule bus_write_ok(1)) (use lim mem kn in auto)
    from bus_write_append_ok [OF this, of "disk_words im (?p + (n - k)) (min 256 k)"]
    have "fst (bus_write (memory u) a (disk_words im (256 * rk_lba u) (min 256 k))) = ?m (n - k + min 256 k)"
      using v(1) unfolding disk_words_add pos(1) pos(2) by simp
    with t(4) have "?Q (n - k + min 256 k) t"
      using io_rest_memory [OF q, of "?m (n - k + min 256 k)"] by simp
    with t show "\<exists>t. transfer_round cmd (int k) a u = Some (False, int (k - min 256 k), a + 2 * of_nat (min 256 k), t) \<and>
        rk_lba t = rk_lba u + 1 \<and> da_ok t \<and> ?Q (n - k + min 256 k) t \<and>
        dati t 3 = word_of_int (- int (k - min 256 k)) \<and> dati t 4 = ucast (a + 2 * of_nat (min 256 k))"
      by blast
  next
    show "?Q 0 s" by (simp add: disk_words_def)
  qed (rule that)
qed

definition padded :: "u16 list \<Rightarrow> u16 list" where
  "padded xs = xs @ replicate ((256 - length xs mod 256) mod 256) 0"

lemma padded_dvd: "256 dvd length xs \<Longrightarrow> padded xs = xs"
  by (simp add: padded_def dvd_eq_mod_eq_0)

lemma padded_append:
  assumes "256 dvd length xs" "0 < length ys" "length ys \<le> 256"
  shows "padded (xs @ ys) = xs @ ys @ replicate (256 - length ys) 0"
proof -
  have "(length xs + length ys) mod 256 = length ys mod 256"
    using assms(1) by (metis dvd_eq_mod_eq_0 mod_add_left_eq add_0)
  moreover have "(256 - length ys mod 256) mod 256 = 256 - length ys"
    using assms(2,3) by (cases "length ys = 256") auto
  ultimately show ?thesis by (simp add: padded_def)
qed

lemma write_image_append:
  "write_image (pos + length xs) ys (write_image pos xs im) = write_image pos (xs @ ys) im"
  by (rule ext) (auto simp: write_image_def nth_append)

lemma write_image_Nil [simp]: "write_image pos [] im = im"
proof (rule ext)
  fix x show "write_image pos [] im x = im x" by (cases "pos \<le> x \<and> x < pos") (auto simp: write_image_def)
qed

lemma io_rest_image:
  "io_rest u = io_rest v \<Longrightarrow>
   io_rest (upd_drive n (\<lambda>d. d\<lparr>image := i\<rparr>) u) = io_rest (upd_drive n (\<lambda>d. d\<lparr>image := i\<rparr>) v)"
  by (auto simp: io_rest_def upd_drive_def rk_errors_def fun_eq_iff)

lemma upd_drive_image_twice [simp]:
  "upd_drive n (\<lambda>d. d\<lparr>image := i\<rparr>) (upd_drive n (\<lambda>d. d\<lparr>image := j\<rparr>) s) = upd_drive n (\<lambda>d. d\<lparr>image := i\<rparr>) s"
  by (simp add: upd_drive_def)

lemma bus_read_slice:
  assumes "bus_read m a0 n = Some data" "j + l \<le> n"
  shows "bus_read m (a0 + 2 * of_nat j) l = Some (take l (drop j data))"
proof -
  have len: "length data = n" and d: "\<And>i. i < n \<Longrightarrow> m (a0 + 2 * of_nat i) = Some (data ! i)"
    using assms(1) unfolding bus_read_iff by auto
  have e: "a0 + 2 * of_nat j + 2 * of_nat i = a0 + 2 * (of_nat (j + i) :: u32)" for i
    by (simp only: of_nat_add distrib_left add.assoc)
  show ?thesis
    unfolding bus_read_iff e using len assms(2) by (auto intro!: d simp del: of_nat_add)
qed

lemma write_transfer:
  assumes ok: "transfer_ok cmd n im s" and kind: "rw_kind_of cmd = Rw_write"
    and data: "bus_read (memory s) (c_address cmd) n = Some ws"
  obtains t where "rk_transfer cmd s = Some t"
    "io_rest t = io_rest (upd_drive (unat (rkda_drive s))
       (\<lambda>d. d\<lparr>image := Some (write_image (256 * rk_lba s) (padded ws) im)\<rparr>) s)"
    "rk_lba t = rk_lba s + (n + 255) div 256" "da_ok t" "dati t 3 = 0" "dati t 4 = ucast (c_address cmd + 2 * of_nat n)"
proof -
  let ?a0 = "c_address cmd" and ?p = "256 * rk_lba s" and ?d = "unat (rkda_drive s)"
  let ?im = "\<lambda>j. write_image ?p (padded (take j ws)) im"
  let ?S = "\<lambda>i. upd_drive ?d (\<lambda>d. d\<lparr>image := Some i\<rparr>) s"
  let ?Q = "\<lambda>j u. io_rest u = io_rest (?S (?im j))"
  have r: "rk_ready_for_sector s" and im: "image (drives s ?d) = Some im" and iba: "\<not> c_iba cmd"
    using ok by (simp_all add: transfer_ok_def selected_drive_def)
  have len: "length ws = n" using bus_read_length [OF data] .
  show thesis
  proof (rule transfer_loop_result [OF ok, of ?Q])
    fix k a u assume k: "0 < k" and p: "transfer_progress n ?a0 (rk_lba s) k a u" and q: "?Q (n - k) u"
    note pos = transfer_progress_position [OF p k]
    have kn: "k \<le> n" and dv: "256 dvd (n - k)" using p k by (auto simp: transfer_progress_def)
    note v = io_rest_D [OF q]
    have vd: "rkda_drive u = rkda_drive s" and vm: "memory u = memory s" using v(1,4) by (simp_all add: upd_drive_def)
    have vi: "image (selected_drive u) = Some (write_image ?p (take (n - k) ws) im)"
      using v(5) [of ?d] dv len by (simp add: selected_drive_def vd padded_dvd)
    have "sector_dma_ok a (min 256 k) (write_image ?p (take (n - k) ws) im) u"
      by (rule transfer_ok_sector [OF ok p k])
        (use v r vi vd vm in \<open>auto simp: selected_drive_def rk_ready_for_sector_def upd_drive_def\<close>)
    moreover have "bus_read (memory u) a (min 256 k) = Some (take (min 256 k) (drop (n - k) ws))"
      unfolding vm pos(2) by (rule bus_read_slice [OF data]) (use kn in linarith)
    ultimately obtain t where t:
      "transfer_round cmd (int k) a u = Some (False, int (k - min 256 k), a + 2 * of_nat (min 256 k), t)"
      "rk_lba t = rk_lba u + 1" "da_ok t"
      "io_rest t = io_rest (upd_drive (unat (rkda_drive u)) (\<lambda>d. d\<lparr>image := Some (write_image (256 * rk_lba u)
         (take (min 256 k) (drop (n - k) ws) @ replicate (256 - min 256 k) 0) (write_image ?p (take (n - k) ws) im))\<rparr>) u)"
      "dati t 3 = word_of_int (- int (k - min 256 k))" "dati t 4 = ucast (a + 2 * of_nat (min 256 k))"
      using round_write [OF kind iba k] by metis
    have tk: "take (n - k + min 256 k) ws = take (n - k) ws @ take (min 256 k) (drop (n - k) ws)"
      by (simp add: take_add)
    have "padded (take (n - k + min 256 k) ws) =
        take (n - k) ws @ take (min 256 k) (drop (n - k) ws) @ replicate (256 - min 256 k) 0"
      unfolding tk by (subst padded_append) (use len kn k dv in auto)
    moreover have "write_image (256 * rk_lba u) ys (write_image ?p (take (n - k) ws) im) =
        write_image ?p (take (n - k) ws @ ys) im" for ys
      using write_image_append [of ?p "take (n - k) ws" ys im] len unfolding pos(1) by simp
    ultimately have "?Q (n - k + min 256 k) t"
      using t(4) io_rest_image [OF q, of ?d "Some (?im (n - k + min 256 k))"] by (simp add: vd)
    with t show "\<exists>t. transfer_round cmd (int k) a u = Some (False, int (k - min 256 k), a + 2 * of_nat (min 256 k), t) \<and>
        rk_lba t = rk_lba u + 1 \<and> da_ok t \<and> ?Q (n - k + min 256 k) t \<and>
        dati t 3 = word_of_int (- int (k - min 256 k)) \<and> dati t 4 = ucast (a + 2 * of_nat (min 256 k))"
      by blast
  next
    show "?Q 0 s" using im by (auto simp: padded_def io_rest_def upd_drive_def rk_errors_def fun_eq_iff)
  next
    fix t assume "rk_transfer cmd s = Some t" "?Q n t" "rk_lba t = rk_lba s + (n + 255) div 256" "da_ok t"
      "dati t 3 = 0" "dati t 4 = ucast (?a0 + 2 * of_nat n)"
    then show thesis using that [of t] len by simp
  qed
qed

lemma write_check_transfer:
  assumes ok: "transfer_ok cmd n im s" and kind: "rw_kind_of cmd = Rw_write_check" and sse: "\<not> rk_sse s"
    and data: "bus_read (memory s) (c_address cmd) n = Some ws"
  obtains t differs where "rk_transfer cmd s = Some t" "differs \<longleftrightarrow> ws \<noteq> disk_words im (256 * rk_lba s) n"
    "io_rest t = io_rest (s\<lparr>e_wce := e_wce s \<or> differs, rk_err := rk_err s \<or> differs\<rparr>)"
    "rk_lba t = rk_lba s + (n + 255) div 256" "da_ok t" "dati t 3 = 0" "dati t 4 = ucast (c_address cmd + 2 * of_nat n)"
proof -
  let ?a0 = "c_address cmd" and ?p = "256 * rk_lba s"
  let ?D = "\<lambda>j. take j ws \<noteq> disk_words im ?p j"
  let ?S = "\<lambda>b. s\<lparr>e_wce := e_wce s \<or> b, rk_err := rk_err s \<or> b\<rparr>"
  let ?Q = "\<lambda>j u. io_rest u = io_rest (?S (?D j))"
  have r: "rk_ready_for_sector s" and im: "image (selected_drive s) = Some im" and iba: "\<not> c_iba cmd"
    using ok by (simp_all add: transfer_ok_def)
  have len: "length ws = n" using bus_read_length [OF data] .
  show thesis
  proof (rule transfer_loop_result [OF ok, of ?Q])
    fix k a u assume k: "0 < k" and p: "transfer_progress n ?a0 (rk_lba s) k a u" and q: "?Q (n - k) u"
    note pos = transfer_progress_position [OF p k]
    have kn: "k \<le> n" using p by (simp add: transfer_progress_def)
    note v = io_rest_D [OF q]
    have vm: "memory u = memory s" using v(1) by simp
    have "sector_dma_ok a (min 256 k) im u"
      by (rule transfer_ok_sector [OF ok p k]) (use v r im in \<open>auto simp: selected_drive_def rk_ready_for_sector_def\<close>)
    moreover have "bus_read (memory u) a (min 256 k) = Some (take (min 256 k) (drop (n - k) ws))"
      unfolding vm pos(2) by (rule bus_read_slice [OF data]) (use kn in linarith)
    moreover have "\<not> rk_sse u" using v(9) sse by simp
    ultimately obtain t where t:
      "transfer_round cmd (int k) a u = Some (False, int (k - min 256 k), a + 2 * of_nat (min 256 k), t)"
      "rk_lba t = rk_lba u + 1" "da_ok t"
      "io_rest t = io_rest (u\<lparr>e_wce := e_wce u \<or> take (min 256 k) (drop (n - k) ws) \<noteq> disk_words im (256 * rk_lba u) (min 256 k),
          rk_err := rk_err u \<or> take (min 256 k) (drop (n - k) ws) \<noteq> disk_words im (256 * rk_lba u) (min 256 k)\<rparr>)"
      "dati t 3 = word_of_int (- int (k - min 256 k))" "dati t 4 = ucast (a + 2 * of_nat (min 256 k))"
      using round_write_check [OF kind iba k _ _ _ refl] by metis
    have "?D (n - k + min 256 k) \<longleftrightarrow> ?D (n - k) \<or>
        take (min 256 k) (drop (n - k) ws) \<noteq> disk_words im (256 * rk_lba u) (min 256 k)"
      unfolding disk_words_add take_add pos(1) using len by (subst append_eq_append_conv) auto
    moreover have "e_wce u \<longleftrightarrow> e_wce s \<or> ?D (n - k)" "rk_err u \<longleftrightarrow> rk_err s \<or> ?D (n - k)"
      using q by (auto simp: io_rest_def rk_errors_def)
    ultimately have "?Q (n - k + min 256 k) t"
      using q t(4) by (auto simp: io_rest_def rk_errors_def)
    with t show "\<exists>t. transfer_round cmd (int k) a u = Some (False, int (k - min 256 k), a + 2 * of_nat (min 256 k), t) \<and>
        rk_lba t = rk_lba u + 1 \<and> da_ok t \<and> ?Q (n - k + min 256 k) t \<and>
        dati t 3 = word_of_int (- int (k - min 256 k)) \<and> dati t 4 = ucast (a + 2 * of_nat (min 256 k))"
      by blast
  next
    show "?Q 0 s" by (simp add: disk_words_def)
  next
    fix t assume "rk_transfer cmd s = Some t" "?Q n t" "rk_lba t = rk_lba s + (n + 255) div 256" "da_ok t"
      "dati t 3 = 0" "dati t 4 = ucast (?a0 + 2 * of_nat n)"
    then show thesis using that [of t "?D n"] len by simp
  qed
qed

end
