(* ===== verification/RK11_Transfers.thy ===== *)
theory RK11_Transfers
  imports RK11_Correct
begin

text \<open>
  The commands of the RK11 as a program sees them: what a read, a write and a write check of
  \<open>n\<close> words do to memory, disk and registers, and what the code does where a program may not
  expect it: large counts, a partial last sector in a read check, a reset during a write.
\<close>

text \<open>An untroubled command for one sample state.\<close>

definition sample_command :: "u16 \<Rightarrow> rk_command" where
  "sample_command f = \<lparr>c_address = 0x200, c_function = f, c_format = False, c_iba = False\<rparr>"

definition sample_transfer :: rk11 where
  "sample_transfer = sample_rk11\<lparr>dati := (\<lambda>i. if i = 3 then - 1 else 0),
     drives := (\<lambda>_. sample_rk05\<lparr>image := Some (\<lambda>i. 7), d_dry := True\<rparr>)\<rparr>"

lemma sample_transfer_ok: "transfer_ok (sample_command f) 1 (\<lambda>i. 7) sample_transfer"
  by (simp add: transfer_ok_def sample_transfer_def sample_command_def sample_rk11_def rk_ready_for_sector_def
      selected_drive_def da_ok_def rk_lba_def)

lemma sectors_round_up: "n + (256 - n mod 256) mod 256 = 256 * ((n + 255) div 256)" for n :: nat
proof (cases "n mod 256 = 0")
  case True
  then obtain q where "n = 256 * q" by auto
  then show ?thesis by simp
next
  case False
  define q r where "q = n div 256" and "r = n mod 256"
  have qr: "n = 256 * q + r" "0 < r" "r < 256" using False by (simp_all add: q_def r_def)
  have "(256 * q + r + 255) div 256 = q + (r + 255) div 256" by (simp add: add.assoc)
  also have "(r + 255) div 256 = 1" using qr(2,3) by (intro div_nat_eqI) simp_all
  finally have "(n + 255) div 256 = n div 256 + 1" unfolding qr(1) [symmetric] by (simp only: q_def)
  then have e: "(n + 255) div 256 = q + 1" by (simp only: q_def)
  have m: "(256 - n mod 256) mod 256 = 256 - r" using qr(2) unfolding r_def by simp
  show ?thesis unfolding e m using qr by simp
qed

lemma transfer_ok_write:
  assumes "transfer_ok cmd n im s"
  shows "unat (c_address cmd) + 2 * length (disk_words im p n) \<le> 2 ^ 32"
    "\<forall>i<length (disk_words im p n). memory s (c_address cmd + 2 * of_nat i) \<noteq> None"
  using assms unsigned_less [where 'a = nat, of "addr_limit s"] by (simp_all add: transfer_ok_def)

lemma sint_range_16: "- 32768 \<le> i \<Longrightarrow> i \<le> 32767 \<Longrightarrow> sint (word_of_int i :: u16) = i"
  by (simp add: sint_sbintrunc' signed_take_bit_int_eq_self)

text \<open>
  The word count is the negated RKWC read as a signed 16 bit number: with RKWC zero
  or at most 100000 octal, which asks for 32768 to 65536 words, a read, write or write check
  ends at once, transfers nothing and reports no error.
\<close>

theorem large_word_count_transfers_nothing:
  assumes "rk_function_of (c_function cmd) \<in> {RK_Read, RK_Write, Write_Check}"
  shows "dati s 3 = 0 \<or> dati s 3 \<le> 0x8000 \<Longrightarrow> rk_execute cmd s = Some s"
proof -
  assume h: "dati s 3 = 0 \<or> dati s 3 \<le> 0x8000"
  have "word_count s \<le> 0"
  proof (cases "dati s 3 = 0")
    case False
    show ?thesis
    proof (cases "dati s 3 = 0x8000")
      case True
      then show ?thesis by (simp add: word_count_def)
    next
      case n: False
      with h False have "unat (dati s 3) \<le> 0x8000" by (simp add: word_le_nat_alt)
      moreover have "unat (dati s 3) \<noteq> 0x8000" using n by (simp add: word_unat_eq_iff)
      ultimately have u: "unat (dati s 3) < 0x8000" by simp
      have "- dati s 3 = word_of_int (- int (unat (dati s 3)))" by simp
      moreover have "sint (word_of_int (- int (unat (dati s 3))) :: u16) = - int (unat (dati s 3))"
        by (rule sint_range_16) (use u(1) in linarith)+
      ultimately show ?thesis using u by (simp add: word_count_def)
    qed
  qed (simp add: word_count_def)
  with assms show ?thesis by (auto simp: rk_execute_def rk_transfer_def)
qed

theorem large_word_count_transfers_nothing_witness:
  "rk_execute (sample_command 2) sample_rk11 = Some sample_rk11"
proof -
  have "rk_function_of (c_function (sample_command 2)) \<in> {RK_Read, RK_Write, Write_Check}" "dati sample_rk11 3 = 0"
    by (simp_all add: sample_command_def rk_function_of_def sample_rk11_def)
  from large_word_count_transfers_nothing [OF this(1)] this(2) show ?thesis by simp
qed

text \<open>
  Property C29. A read of \<open>n\<close> words (0 < \<open>n\<close> < 32768) on a drive that is ready, with a valid disk address, no word behind the
  end of the disk, the format and inhibit bits off, and a memory that answers at the \<open>n\<close> addresses, none behind the address
  space: it puts the \<open>n\<close> words of the disk that start at the selected sector to
  the \<open>n\<close> consecutive word addresses from the bus address on, changes no other word of memory and no disk, ends with RKWC zero, RKBA behind
  the last word and the disk address behind the last sector touched, and reports no new error. A
  read of 32768 to 65536 words, RKWC zero or at most 100000 octal, whatever the drive and the addresses, ends at once and changes nothing.
\<close>

theorem rk_read_copies_disk_to_memory:
  assumes "rk_function_of (c_function cmd) = RK_Read" "\<not> c_format cmd"
  shows "(transfer_ok cmd n im s \<longrightarrow> (\<exists>t. rk_execute cmd s = Some t \<and>
      (\<forall>i<n. memory t (c_address cmd + 2 * of_nat i) = Some (im (256 * rk_lba s + i))) \<and>
      (\<forall>x. (\<forall>i<n. x \<noteq> c_address cmd + 2 * of_nat i) \<longrightarrow> memory t x = memory s x) \<and>
      (\<forall>d. image (drives t d) = image (drives s d)) \<and>
      rk_lba t = rk_lba s + (n + 255) div 256 \<and> dati t 3 = 0 \<and>
      dati t 4 = ucast (c_address cmd + 2 * of_nat n) \<and> rk_errors t = rk_errors s)) \<and>
    (dati s 3 = 0 \<or> dati s 3 \<le> 0x8000 \<longrightarrow> rk_execute cmd s = Some s)"
proof (intro conjI impI)
  assume ok: "transfer_ok cmd n im s"
  from read_transfer [OF ok rw_kinds(1) [OF assms]] obtain t where t: "rk_transfer cmd s = Some t"
    "io_rest t = io_rest (s\<lparr>memory := fst (bus_write (memory s) (c_address cmd) (disk_words im (256 * rk_lba s) n))\<rparr>)"
    "rk_lba t = rk_lba s + (n + 255) div 256" "da_ok t" "dati t 3 = 0" "dati t 4 = ucast (c_address cmd + 2 * of_nat n)" .
  note w = bus_write_ok [OF transfer_ok_write [OF ok, where p = "256 * rk_lba s"]]
  show "\<exists>t. rk_execute cmd s = Some t \<and>
      (\<forall>i<n. memory t (c_address cmd + 2 * of_nat i) = Some (im (256 * rk_lba s + i))) \<and>
      (\<forall>x. (\<forall>i<n. x \<noteq> c_address cmd + 2 * of_nat i) \<longrightarrow> memory t x = memory s x) \<and>
      (\<forall>d. image (drives t d) = image (drives s d)) \<and>
      rk_lba t = rk_lba s + (n + 255) div 256 \<and> dati t 3 = 0 \<and>
      dati t 4 = ucast (c_address cmd + 2 * of_nat n) \<and> rk_errors t = rk_errors s"
    using t(1,3,5,6) io_rest_D [OF t(2)] w(2,3) assms(1) by (intro exI [of _ t]) (simp add: rk_execute_def)
next
  assume "dati s 3 = 0 \<or> dati s 3 \<le> 0x8000"
  then show "rk_execute cmd s = Some s" using assms(1) by (intro large_word_count_transfers_nothing) simp_all
qed

theorem rk_read_copies_disk_to_memory_witness:
  "\<exists>t. rk_execute (sample_command 2) sample_transfer = Some t \<and> memory t 0x200 = Some 7 \<and> memory t 0x202 = Some 0"
proof -
  have "rk_function_of (c_function (sample_command 2)) = RK_Read" "\<not> c_format (sample_command 2)"
    by (simp_all add: sample_command_def rk_function_of_def)
  from rk_read_copies_disk_to_memory [OF this, THEN conjunct1, THEN mp, OF sample_transfer_ok] obtain t where
    "rk_execute (sample_command 2) sample_transfer = Some t" "memory t 0x200 = Some 7"
    "memory t 0x202 = memory sample_transfer 0x202"
    by (auto simp: sample_command_def)
  then show ?thesis by (simp add: sample_transfer_def sample_rk11_def)
qed

text \<open>
  A write of \<open>n\<close> words puts the \<open>n\<close> words of memory from the bus address on to the
  selected drive, from the selected sector on; the rest of the last sector becomes zero, all
  other words of the drive, the other drives and memory stay, and the registers end as after a
  read.
\<close>

theorem rk_write_copies_memory_to_disk:
  assumes "transfer_ok cmd n im s" "rk_function_of (c_function cmd) = RK_Write"
  shows "\<exists>t im'. rk_execute cmd s = Some t \<and> image (selected_drive t) = Some im' \<and>
    (\<forall>i<n. memory s (c_address cmd + 2 * of_nat i) = Some (im' (256 * rk_lba s + i))) \<and>
    (\<forall>i. n \<le> i \<and> i < 256 * ((n + 255) div 256) \<longrightarrow> im' (256 * rk_lba s + i) = 0) \<and>
    (\<forall>x. x < 256 * rk_lba s \<or> 256 * (rk_lba s + (n + 255) div 256) \<le> x \<longrightarrow> im' x = im x) \<and>
    (\<forall>d. d \<noteq> unat (rkda_drive s) \<longrightarrow> image (drives t d) = image (drives s d)) \<and> memory t = memory s \<and>
    rk_lba t = rk_lba s + (n + 255) div 256 \<and> dati t 3 = 0 \<and>
    dati t 4 = ucast (c_address cmd + 2 * of_nat n) \<and> rk_errors t = rk_errors s"
proof -
  define ws where "ws = map (\<lambda>i. the (memory s (c_address cmd + 2 * of_nat i))) [0..<n]"
  have "\<forall>i<n. memory s (c_address cmd + 2 * of_nat i) \<noteq> None" using assms(1) by (simp add: transfer_ok_def)
  then have data: "bus_read (memory s) (c_address cmd) n = Some ws" and
    mem: "memory s (c_address cmd + 2 * of_nat i) = Some (ws ! i)" if "i < n" for i
    using that by (auto simp: bus_read_iff ws_def simp del: upt_rec_numeral)
  have "0 < n" using assms(1) by (simp add: transfer_ok_def)
  note data = data [OF this]
  have len: "length ws = n" by (simp add: ws_def)
  from write_transfer [OF assms(1) rw_kinds(2) [OF assms(2)] data] obtain t where t: "rk_transfer cmd s = Some t"
    "io_rest t = io_rest (upd_drive (unat (rkda_drive s))
       (\<lambda>d. d\<lparr>image := Some (write_image (256 * rk_lba s) (padded ws) im)\<rparr>) s)"
    "rk_lba t = rk_lba s + (n + 255) div 256" "da_ok t" "dati t 3 = 0" "dati t 4 = ucast (c_address cmd + 2 * of_nat n)" .
  note v = io_rest_D [OF t(2)]
  let ?im = "write_image (256 * rk_lba s) (padded ws) im"
  have pl: "length (padded ws) = 256 * ((n + 255) div 256)"
  proof -
    have "n + (256 - n mod 256) mod 256 = 256 * ((n + 255) div 256)" by (rule sectors_round_up)
    then show ?thesis by (simp add: padded_def len)
  qed
  have nth: "padded ws ! i = (if i < n then ws ! i else 0)" if "i < length (padded ws)" for i
    using that by (auto simp: padded_def len nth_append)
  have im: "?im (256 * rk_lba s + i) = (if i < n then ws ! i else 0)" if "i < 256 * ((n + 255) div 256)" for i
    using nth [of i] that by (simp add: write_image_def pl)
  have le: "i < 256 * ((n + 255) div 256)" if "i < n" for i
    using pl that by (simp add: padded_def len)
  have er: "rk_errors t = rk_errors s" using v(7) by simp
  have out: "?im x = im x" if "x < 256 * rk_lba s \<or> 256 * (rk_lba s + (n + 255) div 256) \<le> x" for x
    using that by (auto simp: write_image_def pl)
  show ?thesis
    using t(1,3,5,6) v(1,4,5) er im mem out le assms(2)
    by (intro exI [of _ t] exI [of _ ?im]) (simp add: rk_execute_def selected_drive_def upd_drive_def)
qed

theorem rk_write_copies_memory_to_disk_witness:
  "\<exists>t im'. rk_execute (sample_command 1) sample_transfer = Some t \<and> image (selected_drive t) = Some im' \<and>
     im' 0 = 0 \<and> im' 1 = 0 \<and> im' 256 = 7"
proof -
  have f: "rk_function_of (c_function (sample_command 1)) = RK_Write"
    by (simp add: sample_command_def rk_function_of_def)
  from rk_write_copies_memory_to_disk [OF sample_transfer_ok this] obtain t im' where t:
    "rk_execute (sample_command 1) sample_transfer = Some t" "image (selected_drive t) = Some im'"
    "memory sample_transfer (c_address (sample_command 1)) = Some (im' (256 * rk_lba sample_transfer))"
    "\<forall>i. 1 \<le> i \<and> i < 256 * ((1 + 255) div 256) \<longrightarrow> im' (256 * rk_lba sample_transfer + i) = 0"
    "\<forall>x. x < 256 * rk_lba sample_transfer \<or> 256 * (rk_lba sample_transfer + (1 + 255) div 256) \<le> x \<longrightarrow> im' x = 7"
    by auto
  moreover have "rk_lba sample_transfer = 0" "memory sample_transfer a = Some 0" for a
    by (simp_all add: sample_transfer_def sample_rk11_def rk_lba_def)
  ultimately show ?thesis by auto
qed

text \<open>
  A write check that need not stop at errors compares all \<open>n\<close> words of memory with
  the disk: WCE and ERR are set exactly when one differs (or were set before), nothing is
  transferred, and the registers end as after a read.
\<close>

theorem rk_write_check_compares:
  assumes "transfer_ok cmd n im s" "rk_function_of (c_function cmd) = Write_Check" "\<not> rk_sse s"
  shows "\<exists>t. rk_execute cmd s = Some t \<and>
    (e_wce t \<longleftrightarrow> e_wce s \<or> (\<exists>i<n. memory s (c_address cmd + 2 * of_nat i) \<noteq> Some (im (256 * rk_lba s + i)))) \<and>
    (rk_err t \<longleftrightarrow> rk_err s \<or> (\<exists>i<n. memory s (c_address cmd + 2 * of_nat i) \<noteq> Some (im (256 * rk_lba s + i)))) \<and>
    memory t = memory s \<and> (\<forall>d. image (drives t d) = image (drives s d)) \<and>
    rk_lba t = rk_lba s + (n + 255) div 256 \<and> dati t 3 = 0"
proof -
  define ws where "ws = map (\<lambda>i. the (memory s (c_address cmd + 2 * of_nat i))) [0..<n]"
  have mem: "memory s (c_address cmd + 2 * of_nat i) = Some (ws ! i)" if "i < n" for i
  proof -
    have "memory s (c_address cmd + 2 * of_nat i) \<noteq> None" using assms(1) that by (simp add: transfer_ok_def)
    with that show ?thesis by (auto simp: ws_def simp del: upt_rec_numeral)
  qed
  have len: "length ws = n" by (simp add: ws_def)
  have "bus_read (memory s) (c_address cmd) n = Some ws" using mem len by (simp add: bus_read_iff)
  from write_check_transfer [OF assms(1) rw_kinds(3) [OF assms(2)] assms(3) this] obtain t differs where t:
    "rk_transfer cmd s = Some t" "differs \<longleftrightarrow> ws \<noteq> disk_words im (256 * rk_lba s) n"
    "io_rest t = io_rest (s\<lparr>e_wce := e_wce s \<or> differs, rk_err := rk_err s \<or> differs\<rparr>)"
    "rk_lba t = rk_lba s + (n + 255) div 256" "da_ok t" "dati t 3 = 0" by blast
  have "differs \<longleftrightarrow> (\<exists>i<n. memory s (c_address cmd + 2 * of_nat i) \<noteq> Some (im (256 * rk_lba s + i)))"
    unfolding t(2) using mem len by (auto simp: list_eq_iff_nth_eq)
  with t(1,3,4,6) assms(2) show ?thesis
    by (intro exI [of _ t]) (auto simp: rk_execute_def io_rest_def rk_errors_def fun_eq_iff)
qed

theorem rk_write_check_compares_witness:
  "\<exists>t. rk_execute (sample_command 3) sample_transfer = Some t \<and> e_wce t"
proof -
  have "rk_function_of (c_function (sample_command 3)) = Write_Check" "\<not> rk_sse sample_transfer"
    by (simp_all add: sample_command_def rk_function_of_def sample_transfer_def sample_rk11_def)
  from rk_write_check_compares [OF sample_transfer_ok this] obtain t where
    "rk_execute (sample_command 3) sample_transfer = Some t"
    "e_wce t \<longleftrightarrow> e_wce sample_transfer \<or> memory sample_transfer (c_address (sample_command 3)) \<noteq> Some 7"
    by auto
  then show ?thesis by (auto simp: sample_transfer_def sample_rk11_def)
qed

text \<open>
  A control reset (or INIT) in the middle of a write does not stop it: the worker goes
  on with the rest of the words, but the disk address is now zero, so that it overwrites sector
  zero of drive zero.
\<close>

theorem reset_redirects_write:
  assumes "rw_kind_of cmd = Rw_write" "\<not> c_iba cmd" "0 < k"
    "sector_dma_ok a (min 256 k) im (reset_controller s)" "bus_read (memory s) a (min 256 k) = Some ws"
  shows "\<exists>t. transfer_round cmd (int k) a (reset_controller s) =
      Some (False, int (k - min 256 k), a + 2 * of_nat (min 256 k), t) \<and>
    (\<forall>i<min 256 k. \<exists>im'. image (drives t 0) = Some im' \<and> im' i = ws ! i) \<and>
    (\<forall>d. d \<noteq> 0 \<longrightarrow> image (drives t d) = image (drives s d))"
proof -
  have r: "rkda_drive (reset_controller s) = 0" "rk_lba (reset_controller s) = 0"
    "memory (reset_controller s) = memory s" "drives (reset_controller s) = drives s"
    by (simp_all add: reset_controller_def Let_def update_RKER_def update_RKCS_def update_RKDA_def update_RKDS_def
        set_dati_def rk_lba_def)
  from round_write [OF assms(1,2,3,4)] assms(5) obtain t where t:
    "transfer_round cmd (int k) a (reset_controller s) =
       Some (False, int (k - min 256 k), a + 2 * of_nat (min 256 k), t)"
    "io_rest t = io_rest (upd_drive 0 (\<lambda>d. d\<lparr>image :=
       Some (write_image 0 (ws @ replicate (256 - min 256 k) 0) im)\<rparr>) (reset_controller s))"
    unfolding r by (metis mult_0_right unsigned_0)
  have len: "length ws = min 256 k" by (rule bus_read_length [OF assms(5)])
  show ?thesis
    using t(1) io_rest_D(5) [OF t(2)] len
    by (intro exI [of _ t]) (auto simp: r write_image_def nth_append)
qed

theorem reset_redirects_write_witness:
  "\<exists>t im'. transfer_round (sample_command 1) 1 0x200 (reset_controller (sample_transfer\<lparr>rkda_drive := 3\<rparr>)) =
      Some (False, 0, 0x202, t) \<and> image (drives t 0) = Some im' \<and> im' 0 = 0"
proof -
  let ?s = "sample_transfer\<lparr>rkda_drive := 3\<rparr>"
  have "rw_kind_of (sample_command 1) = Rw_write" "\<not> c_iba (sample_command 1)"
    by (simp_all add: sample_command_def rk_function_of_def rw_kind_of_def)
  moreover have "sector_dma_ok 0x200 (min 256 1) (\<lambda>i. 7) (reset_controller ?s)"
    by (simp add: sector_dma_ok_def reset_controller_def Let_def update_RKER_def update_RKCS_def update_RKDA_def
        update_RKDS_def set_dati_def rk_lba_def da_ok_def sample_transfer_def sample_rk11_def
        rk_ready_for_sector_def selected_drive_def)
  moreover have "bus_read (memory ?s) 0x200 (min 256 1) = Some [0]"
    by (simp add: sample_transfer_def sample_rk11_def)
  ultimately show ?thesis
    using reset_redirects_write [of "sample_command 1" 1 "0x200" "\<lambda>i. 7" ?s "[0]"] by auto
qed

lemma read_check_loop_ok:
  assumes "r < 256" "m \<le> fuel" "da_ok s" "\<not> new_command_ready s" "d_dry (selected_drive s)" "rk_lba s + m \<le> 4872"
  shows "io_rest (read_check_loop fuel False (256 * int m - int r) addr s) = io_rest s \<and>
    rk_lba (read_check_loop fuel False (256 * int m - int r) addr s) = rk_lba s + m \<and>
    (0 < m \<or> dati s 3 = of_nat r \<longrightarrow>
       dati (read_check_loop fuel False (256 * int m - int r) addr s) 3 = of_nat r)"
  using assms
proof (induction m arbitrary: fuel s addr)
  case 0
  then show ?case by (cases fuel) simp_all
next
  case (Suc m)
  then obtain f where f: "fuel = Suc f" "m \<le> f" by (cases fuel) auto
  have ready: "rk_ready_for_sector s" using Suc.prems by (simp add: rk_ready_for_sector_def)
  let ?c = "256 * int m - int r"
  define s1 where "s1 = (set_dati 3 (word_of_int (- ?c)) s)\<lparr>rk_mex := ucast (drop_bit 16 (addr + 512)) AND 3\<rparr>"
  have s1: "io_rest s1 = io_rest s" "da_ok s1" "rkda_cyl s1 = rkda_cyl s" "rk_lba s1 = rk_lba s"
    "dati s1 3 = word_of_int (- ?c)"
    using Suc.prems(3) by (simp_all add: s1_def io_rest_def rk_errors_def da_ok_def rk_lba_def set_dati_def)
  let ?t = "increment_RKDA s1"
  have i: "rk_lba ?t = rk_lba s + 1" "da_ok ?t"
    using increment_RKDA_step [OF s1(2)] ready_cyl [OF ready] s1(3,4) by simp_all
  have io: "io_rest ?t = io_rest s" and d3: "dati ?t 3 = dati s1 3"
    unfolding s1(1) [symmetric]
    by (auto simp: increment_RKDA_def Let_def update_RKDA_def set_dati_def io_rest_def rk_errors_def)
  have "read_check_loop fuel False (256 * int (Suc m) - int r) addr s = read_check_loop f False ?c (addr + 512) ?t"
    using Suc.prems(1) by (simp add: f(1) validate_seek_ok [OF ready] Let_def s1_def algebra_simps)
  moreover have "\<not> new_command_ready ?t" "d_dry (selected_drive ?t)"
    using io Suc.prems(4,5) by (auto simp: io_rest_def selected_drive_def fun_eq_iff)
  note Suc.IH [OF Suc.prems(1) f(2) i(2) this, of "addr + 512"]
  moreover have "dati ?t 3 = of_nat r" if "m = 0" using that by (simp add: d3 s1(5))
  ultimately show ?case using i(1) io Suc.prems(6) by auto
qed

text \<open>
  A read check of \<open>n\<close> words passes over the sectors they touch, moves no data and
  sets no error; but it leaves RKWC at the number of words missing to whole sectors, not at zero.
\<close>

theorem rk_read_check_word_count:
  assumes "rk_ready_for_sector s" "dati s 3 = word_of_int (- int n)" "0 < n" "n < 0x8000"
    "256 * rk_lba s + n \<le> 256 * 4872" "rk_function_of (c_function cmd) = Read_Check" "\<not> c_iba cmd"
  shows "\<exists>t. rk_execute cmd s = Some t \<and> io_rest t = io_rest s \<and>
    rk_lba t = rk_lba s + (n + 255) div 256 \<and> dati t 3 = of_nat (256 * ((n + 255) div 256) - n)"
proof -
  let ?m = "(n + 255) div 256" and ?r = "(256 - n mod 256) mod 256"
  have m: "256 * ?m = n + ?r" using sectors_round_up [of n] by simp
  have wc: "word_count s = int n"
    using sint_small [of "int n"] assms(2,4) by (simp add: word_count_def)
  have c: "int n = 256 * int ?m - int ?r"
    using arg_cong [OF m, of int] by simp
  have "?r < 256" by simp
  moreover have "?m \<le> n" using m assms(3) \<open>?r < 256\<close> by linarith
  moreover have "rk_lba s + ?m \<le> 4872" using assms(5) m \<open>?r < 256\<close> by linarith
  moreover have "0 < ?m" using m assms(3) by linarith
  ultimately show ?thesis
    using read_check_loop_ok [of ?r ?m n s "c_address cmd"] assms(1,6,7) m
    by (simp add: rk_execute_def rk_read_check_def wc rk_ready_for_sector_def flip: c)
qed

theorem rk_read_check_word_count_witness:
  "\<exists>t. rk_execute (sample_command 5) sample_transfer = Some t \<and> dati t 3 = 255"
proof -
  have "rk_ready_for_sector sample_transfer" "dati sample_transfer 3 = word_of_int (- int 1)" "rk_lba sample_transfer = 0"
    "rk_function_of (c_function (sample_command 5)) = Read_Check" "\<not> c_iba (sample_command 5)"
    by (simp_all add: sample_command_def rk_function_of_def sample_transfer_def sample_rk11_def rk_ready_for_sector_def
        selected_drive_def da_ok_def rk_lba_def)
  with rk_read_check_word_count [of sample_transfer 1 "sample_command 5"] show ?thesis by auto
qed

end
