(* ===== verification/PRU_Registers.thy ===== *)
theory PRU_Registers
  imports Event_Worker
begin

text \<open>
  The PRU's side of the IO page (\<^verbatim>\<open>10.01_base/2_src/pru1_u/pru1_iopageregisters.c\<close>) and the
  state machine that answers bus cycles of other masters
  (\<^verbatim>\<open>pru1_u/pru1_statemachine_data_slave.c\<close>), for UNIBUS.

  The register table and the events of the mailbox are the ones the ARM sees: the field
  \<open>shared\<close> is the ARM's state. Emulated memory is the map \<open>ddr_words\<close>, by word index.
  The PRU's bus latches are the record \<open>bus_lines\<close>: the lines as they are seen on the bus, and
  the ones this side drives. \<^theory_text>\<open>None\<close> stands for the result 0, nobody answers.
\<close>

record pru_state =
  shared :: worker_state
  memory_start_addr :: u32
  memory_limit_addr :: u32
  ddr_words :: "nat \<Rightarrow> u16"

definition upd_shared :: "(worker_state \<Rightarrow> worker_state) \<Rightarrow> 'a pru_state_scheme \<Rightarrow> 'a pru_state_scheme" where
  "upd_shared f p = p\<lparr>shared := f (shared p)\<rparr>"

definition in_memory :: "u32 \<Rightarrow> 'a pru_state_scheme \<Rightarrow> bool" where
  "in_memory addr p \<longleftrightarrow> addr < memory_limit_addr p \<and> memory_start_addr p \<le> addr"

definition ddr_index :: "u32 \<Rightarrow> nat" where "ddr_index addr = unat addr div 2"

text \<open>\<^verbatim>\<open>DDRMEM_MEMSET_B\<close>: the bytes of a word, low byte first.\<close>

definition set_byte :: "u32 \<Rightarrow> u8 \<Rightarrow> u16 \<Rightarrow> u16" where
  "set_byte addr b w = (if addr AND 1 \<noteq> 0 then (w AND 0x00ff) OR push_bit 8 (ucast b)
                        else (w AND 0xff00) OR ucast b)"

text \<open>\<^verbatim>\<open>DO_EVENT_DEVICEREGISTER\<close>.\<close>

definition event_deviceregister ::
    "pru_iopage_register \<Rightarrow> u8 \<Rightarrow> u32 \<Rightarrow> u16 \<Rightarrow> worker_state \<Rightarrow> worker_state" where
  "event_deviceregister reg control addr data s =
     s\<lparr>ev_deviceregister := True, ev_control := control, ev_register_handle := event_register_handle reg,
       ev_addr := addr, ev_data := data\<rparr>"

definition emulated_addr_read :: "u32 \<Rightarrow> 'a pru_state_scheme \<Rightarrow> (u16 \<times> 'a pru_state_scheme) option" where
  "emulated_addr_read addr p =
     (if in_memory addr p then Some (ddr_words p (ddr_index addr), p)
      else if iopage_start_addr (shared p) \<le> addr then
        (let h = register_handles (shared p) (iopage_index addr) in
         if h = 0 then None
         else if h = IOPAGE_REGISTER_HANDLE_ROM then Some (ddr_words p (ddr_index addr), p)
         else let reg = pru_registers (shared p) h in
           Some (pru_value reg,
             if event_flags reg AND IOPAGEREGISTER_EVENT_FLAG_DATI \<noteq> 0
             then upd_shared (event_deviceregister reg QUNIBUS_CYCLE_DATI addr (pru_value reg)) p else p))
      else None)"

text \<open>Storing into a register, and the event if it is active on DATO.\<close>

definition store_register :: "nat \<Rightarrow> u8 \<Rightarrow> u32 \<Rightarrow> u16 \<Rightarrow> worker_state \<Rightarrow> worker_state" where
  "store_register h control addr v s =
     (let reg = pru_registers s h; s1 = upd_pru_register h (\<lambda>r. r\<lparr>pru_value := v\<rparr>) s
      in if event_flags reg AND IOPAGEREGISTER_EVENT_FLAG_DATO \<noteq> 0
         then event_deviceregister reg control addr v s1 else s1)"

definition emulated_addr_write_w :: "u32 \<Rightarrow> u16 \<Rightarrow> 'a pru_state_scheme \<Rightarrow> 'a pru_state_scheme option" where
  "emulated_addr_write_w addr w p =
     (if in_memory addr p then Some (p\<lparr>ddr_words := (ddr_words p)(ddr_index addr := w)\<rparr>)
      else if iopage_start_addr (shared p) \<le> addr then
        (let h = register_handles (shared p) (iopage_index addr) in
         if h = 0 then None
         else if h = IOPAGE_REGISTER_HANDLE_ROM then None
         else let reg = pru_registers (shared p) h;
                  v = (pru_value reg AND NOT (pru_writable_bits reg)) OR (w AND pru_writable_bits reg)
              in Some (upd_shared (store_register h QUNIBUS_CYCLE_DATO addr v) p))
      else None)"

text \<open>The value of a register after a byte is written to one half.\<close>

definition merged_byte :: "u32 \<Rightarrow> u8 \<Rightarrow> pru_iopage_register \<Rightarrow> u16" where
  "merged_byte addr b reg =
     (if addr AND 1 \<noteq> 0
      then (pru_value reg AND 0x00ff) OR (pru_value reg AND NOT (pru_writable_bits reg) AND 0xff00) OR
           (push_bit 8 (ucast b) AND pru_writable_bits reg)
      else (pru_value reg AND 0xff00) OR (pru_value reg AND NOT (pru_writable_bits reg) AND 0x00ff) OR
           (ucast b AND pru_writable_bits reg))"

definition emulated_addr_write_b :: "u32 \<Rightarrow> u8 \<Rightarrow> 'a pru_state_scheme \<Rightarrow> 'a pru_state_scheme option" where
  "emulated_addr_write_b addr b p =
     (if in_memory addr p
      then Some (p\<lparr>ddr_words := (ddr_words p)(ddr_index addr := set_byte addr b (ddr_words p (ddr_index addr)))\<rparr>)
      else if iopage_start_addr (shared p) \<le> addr then
        (let h = register_handles (shared p) (iopage_index addr) in
         if h = 0 then None
         else if h = IOPAGE_REGISTER_HANDLE_ROM then None
         else Some (upd_shared (store_register h QUNIBUS_CYCLE_DATOB addr
                     (merged_byte addr b (pru_registers (shared p) h))) p))
      else None)"

definition iopageregisters_reset_values :: "'a pru_state_scheme \<Rightarrow> 'a pru_state_scheme" where
  "iopageregisters_reset_values p = upd_shared (\<lambda>s. s\<lparr>pru_registers :=
     (\<lambda>h. if h < MAX_IOPAGE_REGISTER_COUNT
          then (pru_registers s h)\<lparr>pru_value := pru_reset_value (pru_registers s h)\<rparr> else pru_registers s h)\<rparr>) p"

subsection \<open>The slave's state machine\<close>

record bus_lines =
  l_addr :: u32
  l_control :: u8
  l_data :: u16
  l_msyn :: bool
  l_ssyn :: bool

datatype slave_state = Slave_idle | Slave_10 | Slave_20

text \<open>The state machine's state and the lines it drives.\<close>

record slave = pru_state +
  slave_at :: slave_state
  drive_data :: u16
  drive_ssyn :: bool

definition data_byte :: "u32 \<Rightarrow> u16 \<Rightarrow> u8" where
  "data_byte addr w = (if addr AND 1 \<noteq> 0 then ucast (drop_bit 8 w) else ucast w)"

definition sm_data_slave_start :: "bus_lines \<Rightarrow> slave \<Rightarrow> slave" where
  "sm_data_slave_start lines p =
     (if \<not> l_msyn lines then p
      else if l_ssyn lines then p
      else if l_control lines = QUNIBUS_CYCLE_DATI \<or> l_control lines = QUNIBUS_CYCLE_DATIP then
        (case emulated_addr_read (l_addr lines) p of
           None \<Rightarrow> p
         | Some (w, q) \<Rightarrow> q\<lparr>slave_at := Slave_20, drive_data := w, drive_ssyn := True\<rparr>)
      else if l_control lines = QUNIBUS_CYCLE_DATO then
        (case emulated_addr_write_w (l_addr lines) (l_data lines) p of
           None \<Rightarrow> p
         | Some q \<Rightarrow> q\<lparr>slave_at := Slave_10, drive_ssyn := True\<rparr>)
      else if l_control lines = QUNIBUS_CYCLE_DATOB then
        (case emulated_addr_write_b (l_addr lines) (data_byte (l_addr lines) (l_data lines)) p of
           None \<Rightarrow> p
         | Some q \<Rightarrow> q\<lparr>slave_at := Slave_10, drive_ssyn := True\<rparr>)
      else p)"

definition sm_data_slave_state_10 :: "bus_lines \<Rightarrow> slave \<Rightarrow> slave" where
  "sm_data_slave_state_10 lines p =
     (if l_msyn lines then p
      else if ev_deviceregister (shared p) then p
      else p\<lparr>slave_at := Slave_idle, drive_ssyn := False\<rparr>)"

definition sm_data_slave_state_20 :: "bus_lines \<Rightarrow> slave \<Rightarrow> slave" where
  "sm_data_slave_state_20 lines p =
     (if l_msyn lines then p
      else if ev_deviceregister (shared p) then p
      else p\<lparr>slave_at := Slave_idle, drive_data := 0, drive_ssyn := False\<rparr>)"

definition sm_data_slave :: "bus_lines \<Rightarrow> slave \<Rightarrow> slave" where
  "sm_data_slave lines p =
     (case slave_at p of
        Slave_idle \<Rightarrow> sm_data_slave_start lines p
      | Slave_10 \<Rightarrow> sm_data_slave_state_10 lines p
      | Slave_20 \<Rightarrow> sm_data_slave_state_20 lines p)"

subsection \<open>From the bus to the device\<close>

text \<open>
  The cell of the IO page at \<open>addr\<close> leads to register \<open>i\<close> of device \<open>d\<close> with descriptor \<open>h\<close>, as
  \<open>register_device\<close> sets it up.
\<close>

definition register_cell :: "u32 \<Rightarrow> nat \<Rightarrow> dev_id \<Rightarrow> nat \<Rightarrow> 'a iopage_state_scheme \<Rightarrow> bool" where
  "register_cell addr h d i s \<longleftrightarrow>
     register_handles s (iopage_index addr) = h \<and> 0 < h \<and> h < 0xff \<and>
     register_by_handle s h = Some (d, i) \<and> pru_link (the_reg d i s) = Some h \<and>
     (let r = the_reg d i s; pr = pru_registers s h in
        pru_writable_bits pr = writable_bits r \<and>
        (active_on_dati r \<or> active_on_dato r \<longrightarrow> event_register_handle pr = h) \<and>
        (event_flags pr AND IOPAGEREGISTER_EVENT_FLAG_DATI \<noteq> 0 \<longleftrightarrow> active_on_dati r) \<and>
        (event_flags pr AND IOPAGEREGISTER_EVENT_FLAG_DATO \<noteq> 0 \<longleftrightarrow> active_on_dato r))"

lemma descriptor_flags [simp]:
  "event_flags (pru_descriptor r h) AND IOPAGEREGISTER_EVENT_FLAG_DATI \<noteq> 0 \<longleftrightarrow> active_on_dati r"
  "event_flags (pru_descriptor r h) AND IOPAGEREGISTER_EVENT_FLAG_DATO \<noteq> 0 \<longleftrightarrow> active_on_dato r"
  by (simp_all add: pru_descriptor_def IOPAGEREGISTER_EVENT_FLAG_DATI_def IOPAGEREGISTER_EVENT_FLAG_DATO_def)

lemma store_register_sel:
  "pru_registers (store_register h c a v s) = (pru_registers s)(h := (pru_registers s h)\<lparr>pru_value := v\<rparr>)"
  "register_by_handle (store_register h c a v s) = register_by_handle s"
  "device (store_register h c a v s) = device s" "bus (store_register h c a v s) = bus s"
  "iopage_start_addr (store_register h c a v s) = iopage_start_addr s"
  "register_handles (store_register h c a v s) = register_handles s"
  by (simp_all add: store_register_def event_deviceregister_def upd_pru_register_def Let_def)

lemma store_register_event:
  assumes "event_flags (pru_registers s h) AND IOPAGEREGISTER_EVENT_FLAG_DATO \<noteq> 0"
  shows "ev_deviceregister (store_register h c a v s)" "ev_control (store_register h c a v s) = c"
    "ev_register_handle (store_register h c a v s) = event_register_handle (pru_registers s h)"
    "ev_addr (store_register h c a v s) = a" "ev_data (store_register h c a v s) = v"
  using assms by (simp_all add: store_register_def event_deviceregister_def upd_pru_register_def Let_def)

lemma control_classes [simp]:
  "QUNIBUS_CYCLE_IS_DATO QUNIBUS_CYCLE_DATO" "QUNIBUS_CYCLE_IS_DATO QUNIBUS_CYCLE_DATOB"
  "\<not> QUNIBUS_CYCLE_IS_DATO QUNIBUS_CYCLE_DATI" "\<not> QUNIBUS_CYCLE_IS_DATO QUNIBUS_CYCLE_DATIP"
  "QUNIBUS_CYCLE_DATOB \<noteq> QUNIBUS_CYCLE_DATO" "QUNIBUS_CYCLE_DATO \<noteq> QUNIBUS_CYCLE_DATOB"
  "QUNIBUS_CYCLE_DATI \<noteq> QUNIBUS_CYCLE_DATO" "QUNIBUS_CYCLE_DATI \<noteq> QUNIBUS_CYCLE_DATOB"
  by (simp_all add: QUNIBUS_CYCLE_IS_DATO_def QUNIBUS_CYCLE_DATO_def QUNIBUS_CYCLE_DATOB_def QUNIBUS_CYCLE_DATI_def
      QUNIBUS_CYCLE_DATIP_def)

text \<open>The byte of a DATOB at its place in the word.\<close>

definition byte_at :: "u32 \<Rightarrow> u8 \<Rightarrow> u16" where
  "byte_at addr b = (if addr AND 1 \<noteq> 0 then push_bit 8 (ucast b) else ucast b)"

lemma bit_byte_at: "bit (byte_at addr b) k \<longleftrightarrow> (if addr AND 1 \<noteq> 0 then 8 \<le> k \<and> bit b (k - 8) else bit b k) \<and> k < 16"
  by (auto simp: byte_at_def bit_simps dest: bit_imp_le_length)

lemma bit_merged_byte:
  assumes "k < 16" "bit (addressed_bits QUNIBUS_CYCLE_DATOB addr) k" "bit (pru_writable_bits pr) k"
  shows "bit (merged_byte addr b pr) k \<longleftrightarrow> bit (byte_at addr b) k"
proof -
  have pb: "possible_bit TYPE(16 word) k" using assms(1) by simp
  show ?thesis
    using assms pb unfolding merged_byte_def byte_at_def addressed_bits_def
    by (cases "addr AND 1 = 0")
      (auto simp only: bit_or_iff bit_and_iff bit_not_iff bit_push_bit_iff bit_ucast_iff bit_00ff bit_ff00
        control_classes if_True if_False simp_thms not_less)
qed

lemma event_addr_parity:
  assumes "(base :: u32) AND 1 = 0"
  shows "(base + (addr AND 0x1fff)) AND 1 = addr AND 1"
proof -
  have t: "x AND 1 = of_bool (odd x)" for x :: u32 by (simp add: and_one_eq mod_2_eq_odd)
  have "even base" using assms unfolding t by simp
  moreover have "even (addr AND 0x1fff) \<longleftrightarrow> even addr" by (simp add: even_and_iff)
  ultimately show ?thesis unfolding t by simp
qed

text \<open>
  Property C30. A word or byte that a bus master writes to an active register arrives at the
  device: the PRU raises the event, and the worker calls the device's register function with the
  register and the access type, the addressed writable bits of the written value in the
  register's DATO flipflops, the others kept. The value the bus reads then is again the one in the register's DATI
  flipflops, which the write does not change: the value last set by the device itself. If an interrupt with this
  register has in the meantime put a newer value into the PRU's copy alone, the write undoes it. No other register changes.
\<close>

theorem bus_write_reaches_device:
  assumes cell: "register_cell addr h d i (shared p)" and act: "active_on_dato (the_reg d i (shared p))"
    and io: "\<not> in_memory addr p" "iopage_start_addr (shared p) \<le> addr" "iopage_start_addr (shared p) AND 1 = 0"
    and bus: "bus (shared p) = UNIBUS"
    and wr: "(control = QUNIBUS_CYCLE_DATO \<and> written = w \<and> emulated_addr_write_w addr w p = Some q) \<or>
      (control = QUNIBUS_CYCLE_DATOB \<and> written = byte_at addr b \<and> emulated_addr_write_b addr b p = Some q)"
  shows "ev_deviceregister (shared q) \<and>
    (\<exists>s. worker_deviceregister_event L (shared q) =
         on_after_register_access L d i QUNIBUS_CYCLE_DATO (dato_access control addr) s \<and>
       (\<forall>k<16. bit (active_dato_flipflops (the_reg d i s)) k \<longleftrightarrow>
          (if bit (addressed_bits control addr) k then bit written k \<and> bit (writable_bits (the_reg d i (shared p))) k
           else bit (active_dato_flipflops (the_reg d i (shared p))) k)) \<and>
       pru_value (pru_registers s h) = active_dati_flipflops (the_reg d i (shared p)) \<and>
       active_dati_flipflops (the_reg d i s) = active_dati_flipflops (the_reg d i (shared p)) \<and>
       (\<forall>g. g \<noteq> h \<longrightarrow> pru_registers s g = pru_registers (shared p) g) \<and>
       (\<forall>e j. (e, j) \<noteq> (d, i) \<longrightarrow> the_reg e j s = the_reg e j (shared p)))"
proof -
  let ?s = "shared p" and ?pr = "pru_registers (shared p) h"
  have c: "register_handles ?s (iopage_index addr) = h" "0 < h" "h < 0xff" "register_by_handle ?s h = Some (d, i)"
    "pru_link (the_reg d i ?s) = Some h" "pru_writable_bits ?pr = writable_bits (the_reg d i ?s)"
    "event_register_handle ?pr = h" "event_flags ?pr AND IOPAGEREGISTER_EVENT_FLAG_DATO \<noteq> 0"
    using cell act by (auto simp: register_cell_def Let_def)
  obtain v where v: "control \<in> {QUNIBUS_CYCLE_DATO, QUNIBUS_CYCLE_DATOB}"
    "shared q = store_register h control addr v ?s"
    "\<And>k. k < 16 \<Longrightarrow> bit (addressed_bits control addr) k \<Longrightarrow> bit (writable_bits (the_reg d i ?s)) k \<Longrightarrow>
       bit v k \<longleftrightarrow> bit written k"
    using wr
  proof
    assume a: "control = QUNIBUS_CYCLE_DATO \<and> written = w \<and> emulated_addr_write_w addr w p = Some q"
    show thesis
      by (rule that [of "(pru_value ?pr AND NOT (pru_writable_bits ?pr)) OR (w AND pru_writable_bits ?pr)"])
        (use a io c in \<open>auto simp: emulated_addr_write_w_def upd_shared_def Let_def bit_or_iff bit_and_iff bit_not_iff\<close>)
  next
    assume a: "control = QUNIBUS_CYCLE_DATOB \<and> written = byte_at addr b \<and> emulated_addr_write_b addr b p = Some q"
    show thesis
      by (rule that [of "merged_byte addr b ?pr"])
        (use a io c bit_merged_byte [of _ addr ?pr b] in \<open>auto simp: emulated_addr_write_b_def upd_shared_def Let_def\<close>)
  qed
  let ?q = "shared q"
  note ev = store_register_event [OF c(8), of control addr v, folded v(2)]
  note sel = store_register_sel [of h control addr v ?s, folded v(2)]
  let ?a = "iopage_start_addr ?s + (addr AND 0x1fff)"
  have link: "pru_link (the_reg d i ?q) = Some h" using c(5) by (simp add: sel)
  then obtain s where s: "dato_to_register d i control ?a v ?q = Some s"
    by (simp add: dato_to_register_def Let_def)
  have par: "addressed_bits control ?a = addressed_bits control addr" "dato_access control ?a = dato_access control addr"
    by (simp_all add: addressed_bits_def dato_access_def event_addr_parity [OF io(3)])
  have "QUNIBUS_CYCLE_IS_DATO control" "dato_control control = QUNIBUS_CYCLE_DATO"
    using v(1) by (auto simp: dato_control_def)
  then have "worker_deviceregister_event L ?q =
      on_after_register_access L d i QUNIBUS_CYCLE_DATO (dato_access control addr) s"
    using s act c(2,3,4,7) bus by (simp add: worker_deviceregister_event_def ev sel Let_def par)
  moreover have "bit (active_dato_flipflops (the_reg d i s)) k \<longleftrightarrow>
        (if bit (addressed_bits control addr) k then bit written k \<and> bit (writable_bits (the_reg d i ?s)) k
         else bit (active_dato_flipflops (the_reg d i ?s)) k)" if "k < 16" for k
    using s link v(3) [OF that] bit_dato_flipflops [OF v(1) that, of ?a v "the_reg d i ?s"]
    by (auto simp: dato_to_register_def Let_def sel par upd_pru_register_def)
  ultimately show ?thesis
    using s link ev(1) sel
    by (intro conjI exI [of _ s])
      (auto simp: dato_to_register_def Let_def upd_pru_register_def upd_register_def upd_device_def split: if_splits)
qed

lemma register_device_cell:
  assumes "register_device d s = Some (True, t)" "k < register_count (device s d)"
  shows "register_cell (reg_bus_addr d k s) (register_handles t (iopage_index (reg_bus_addr d k s))) d k t"
  using assms(1)
proof (rule register_device_True_effect)
  fix rh
  assume "rh + register_count (device s d) < 0xff"
    and "\<And>h. register_by_handle t h = (if rh < h \<and> h \<le> rh + register_count (device s d)
           then Some (d, h - Suc rh) else register_by_handle s h)"
    and "\<And>k. k < register_count (device s d) \<Longrightarrow> the_reg d k t =
        linked_register d k (Suc (rh + k)) (reg_bus_addr d k s) (the_reg d k s)"
    and "\<And>k. k < register_count (device s d) \<Longrightarrow>
        pru_registers t (Suc (rh + k)) = pru_descriptor (the_reg d k s) (Suc (rh + k))"
    and "\<And>k. k < register_count (device s d) \<Longrightarrow>
        register_handles t (iopage_index (reg_bus_addr d k s)) = Suc (rh + k)"
  with assms(2) show ?thesis
    by (simp add: register_cell_def Let_def) (simp add: pru_descriptor_def)
qed

definition sample_bus_register :: device_register where
  "sample_bus_register = sample_register\<lparr>pru_link := Some 3, active_on_dati := False, active_on_dato := True,
     writable_bits := 0xff0f\<rparr>"

definition sample_pru :: pru_state where
  "sample_pru = \<lparr>shared = (sample_worker UNIBUS)\<lparr>iopage_start_addr := 0x3e000,
     register_handles := (\<lambda>_. 3), register_by_handle := (\<lambda>_. Some (1, 0)),
     pru_registers := (\<lambda>_. pru_descriptor sample_bus_register 3),
     device := (\<lambda>_. (device (sample_worker UNIBUS) 1)\<lparr>registers := (\<lambda>_. sample_bus_register)\<rparr>)\<rparr>,
     memory_start_addr = 0, memory_limit_addr = 0x100, ddr_words = (\<lambda>_. 0)\<rparr>"

theorem bus_write_reaches_device_witness:
  "\<exists>q s. emulated_addr_write_b 0x3f001 0x7a sample_pru = Some q \<and>
     worker_deviceregister_event idle_logic (shared q) =
       on_after_register_access idle_logic 1 0 QUNIBUS_CYCLE_DATO DATO_BYTEH s \<and>
     bit (active_dato_flipflops (the_reg 1 0 s)) 9 \<and> \<not> bit (active_dato_flipflops (the_reg 1 0 s)) 8"
proof -
  have c: "register_cell 0x3f001 3 1 0 (shared sample_pru)" "active_on_dato (the_reg 1 0 (shared sample_pru))"
    by (simp_all add: register_cell_def sample_pru_def sample_bus_register_def Let_def)
      (simp_all add: pru_descriptor_def)
  have io: "\<not> in_memory 0x3f001 sample_pru" "iopage_start_addr (shared sample_pru) \<le> 0x3f001"
    "iopage_start_addr (shared sample_pru) AND 1 = 0" "bus (shared sample_pru) = UNIBUS"
    by (simp_all add: in_memory_def sample_pru_def sample_worker_sel)
  obtain q where q: "emulated_addr_write_b 0x3f001 0x7a sample_pru = Some q"
    using io by (simp add: emulated_addr_write_b_def sample_pru_def)
  from bus_write_reaches_device [OF c io disjI2, of QUNIBUS_CYCLE_DATOB "byte_at 0x3f001 0x7a" "0x7a" q idle_logic] q
  obtain s where s: "worker_deviceregister_event idle_logic (shared q) =
       on_after_register_access idle_logic 1 0 QUNIBUS_CYCLE_DATO (dato_access QUNIBUS_CYCLE_DATOB 0x3f001) s"
    "\<forall>k<16. bit (active_dato_flipflops (the_reg 1 0 s)) k \<longleftrightarrow>
       (if bit (addressed_bits QUNIBUS_CYCLE_DATOB 0x3f001) k
        then bit (byte_at 0x3f001 0x7a) k \<and> bit (writable_bits (the_reg 1 0 (shared sample_pru))) k
        else bit (active_dato_flipflops (the_reg 1 0 (shared sample_pru))) k)" by auto
  have "dato_access QUNIBUS_CYCLE_DATOB 0x3f001 = DATO_BYTEH"
    by (simp add: dato_access_def)
  moreover have "bit (active_dato_flipflops (the_reg 1 0 s)) 9" "\<not> bit (active_dato_flipflops (the_reg 1 0 s)) 8"
    using s(2) [rule_format, of 9] s(2) [rule_format, of 8]
    by (simp_all add: addressed_bits_def byte_at_def sample_pru_def sample_bus_register_def)
  ultimately show ?thesis using q s(1) by auto
qed

subsection \<open>Memory\<close>

lemma bit_set_byte: "bit (set_byte addr b w) k \<longleftrightarrow>
   (if bit (addressed_bits QUNIBUS_CYCLE_DATOB addr) k then bit (byte_at addr b) k else bit w k)"
proof (cases "k < 16")
  case True
  show ?thesis
    using True unfolding set_byte_def byte_at_def addressed_bits_def
    by (cases "addr AND 1 = 0"; cases "k < 8")
      (simp_all only: bit_or_iff bit_and_iff bit_push_bit_iff bit_ucast_iff bit_00ff bit_ff00
        control_classes if_True if_False simp_thms, auto dest: bit_imp_le_length)
next
  case False
  then show ?thesis by (auto dest: bit_imp_le_length)
qed

subsection \<open>The slave's handshake\<close>

text \<open>The ARM may change the shared state between any two steps, and the bus its lines.\<close>

inductive slave_reachable :: "slave \<Rightarrow> bool" where
  start: "slave_at p = Slave_idle \<Longrightarrow> drive_data p = 0 \<Longrightarrow> \<not> drive_ssyn p \<Longrightarrow> slave_reachable p"
| bus: "slave_reachable p \<Longrightarrow> slave_reachable (sm_data_slave lines p)"
| arm: "slave_reachable p \<Longrightarrow> slave_reachable (p\<lparr>shared := s\<rparr>)"

definition slave_inv :: "slave \<Rightarrow> bool" where
  "slave_inv p \<longleftrightarrow> (drive_ssyn p \<longleftrightarrow> slave_at p \<noteq> Slave_idle) \<and> (slave_at p \<noteq> Slave_20 \<longrightarrow> drive_data p = 0)"

lemma emulated_frame:
  "emulated_addr_read a (p :: slave) = Some (w, q) \<Longrightarrow>
     slave_at q = slave_at p \<and> drive_data q = drive_data p \<and> drive_ssyn q = drive_ssyn p"
  "emulated_addr_write_w a w (p :: slave) = Some q \<Longrightarrow>
     slave_at q = slave_at p \<and> drive_data q = drive_data p \<and> drive_ssyn q = drive_ssyn p"
  "emulated_addr_write_b a b (p :: slave) = Some q \<Longrightarrow>
     slave_at q = slave_at p \<and> drive_data q = drive_data p \<and> drive_ssyn q = drive_ssyn p"
  by (auto simp: emulated_addr_read_def emulated_addr_write_w_def emulated_addr_write_b_def upd_shared_def Let_def
      split: if_splits)

lemmas sm_data_slave_defs = sm_data_slave_def sm_data_slave_start_def sm_data_slave_state_10_def
  sm_data_slave_state_20_def

lemma slave_inv_step: "slave_inv p \<Longrightarrow> slave_inv (sm_data_slave lines p)"
  by (cases "slave_at p")
    (auto simp: slave_inv_def sm_data_slave_defs split: option.split dest: emulated_frame)

lemma slave_reachable_inv: "slave_reachable p \<Longrightarrow> slave_inv p"
proof (induction rule: slave_reachable.induct)
  case (bus p lines)
  then show ?case by (intro slave_inv_step)
qed (simp_all add: slave_inv_def)

text \<open>
  Property C37. However the bus lines change and whatever the ARM does, the slave drives SSYN
  exactly while it is in a cycle and data only in a read cycle; it raises SSYN only under MSYN
  when no other slave has answered; it releases SSYN only after MSYN is gone and the ARM has
  acknowledged the register event, and then it does so at once.
\<close>

theorem slave_handshake:
  assumes "slave_reachable p"
  shows "(drive_ssyn p \<longleftrightarrow> slave_at p \<noteq> Slave_idle) \<and> (drive_data p \<noteq> 0 \<longrightarrow> slave_at p = Slave_20) \<and>
    (\<not> drive_ssyn p \<and> drive_ssyn (sm_data_slave lines p) \<longrightarrow> l_msyn lines \<and> \<not> l_ssyn lines) \<and>
    (drive_ssyn p \<longrightarrow>
      (drive_ssyn (sm_data_slave lines p) \<longleftrightarrow> l_msyn lines \<or> ev_deviceregister (shared p)))"
proof -
  from slave_reachable_inv [OF assms] have "slave_inv p" .
  then show ?thesis
    by (cases "slave_at p") (auto simp: slave_inv_def sm_data_slave_defs split: option.split_asm)
qed

definition sample_slave :: slave where
  "sample_slave = pru_state.extend sample_pru (slave.fields Slave_idle 0 False)"

definition sample_read_lines :: bus_lines where
  "sample_read_lines = \<lparr>l_addr = 0x10, l_control = QUNIBUS_CYCLE_DATI, l_data = 0, l_msyn = True, l_ssyn = False\<rparr>"

theorem slave_handshake_witness:
  "drive_ssyn (sm_data_slave sample_read_lines sample_slave) \<and>
   \<not> drive_ssyn (sm_data_slave (sample_read_lines\<lparr>l_msyn := False\<rparr>)
       (sm_data_slave sample_read_lines (sample_slave\<lparr>shared := (shared sample_slave)\<lparr>ev_deviceregister := False\<rparr>\<rparr>)))"
proof -
  let ?p0 = "sample_slave\<lparr>shared := (shared sample_slave)\<lparr>ev_deviceregister := False\<rparr>\<rparr>"
  let ?p1 = "sm_data_slave sample_read_lines ?p0"
  have r: "slave_reachable sample_slave"
    by (rule slave_reachable.start) (simp_all add: sample_slave_def pru_state.defs slave.defs)
  have r1: "slave_reachable ?p1" by (intro slave_reachable.bus slave_reachable.arm r)
  have m: "emulated_addr_read 0x10 p = Some (ddr_words p (ddr_index 0x10), p)"
    if "memory_start_addr p = 0" "memory_limit_addr p = 0x100" for p :: slave
    using that by (simp add: emulated_addr_read_def in_memory_def)
  have s: "drive_ssyn (sm_data_slave sample_read_lines sample_slave)" "drive_ssyn ?p1" "\<not> ev_deviceregister (shared ?p1)"
    using m [of sample_slave] m [of ?p0]
    by (simp_all add: sm_data_slave_defs sample_read_lines_def sample_slave_def sample_pru_def pru_state.defs slave.defs)
  from slave_handshake [OF r1, of "sample_read_lines\<lparr>l_msyn := False\<rparr>"] s show ?thesis
    by (simp add: sample_read_lines_def)
qed

end
