(* ===== verification/PRU_Dma.thy ===== *)
theory PRU_Dma
  imports PRU_Registers Bus_Memory
begin

text \<open>
  The PRU's DMA master (\<^verbatim>\<open>pru1_u/pru1_statemachine_dma.c\<close>), for UNIBUS: the state machine
  that transfers the words of one mailbox chunk, one bus cycle per word, to slaves emulated by
  this side or to others on the bus.

  One call of a state function is one step. What it reads from the bus latches and the timer
  is its input; delays that only give signals time to settle have no state. The latches it
  sets are the fields from \<open>d_bbsy\<close> on. The bus with its slaves and the timer is modelled at the
  end: a slave answers after some polls, where nobody answers the timer runs out.
\<close>

datatype dma_at = Dma_stopped | Dma_start | Dma_1 | Dma_11 | Dma_21 | Dma_99

definition DMA_STATE_RUNNING :: u8 where "DMA_STATE_RUNNING = 2"
definition DMA_STATE_TIMEOUTSTOP :: u8 where "DMA_STATE_TIMEOUTSTOP = 3"
definition DMA_STATE_INITSTOP :: u8 where "DMA_STATE_INITSTOP = 4"

record dma_machine = pru_state +
  dma_at :: dma_at
  dataptr :: nat
  cur_wordsleft :: u16
  state_timeout :: bool
  address_overlay :: u32
  d_bbsy :: bool
  d_sack :: bool
  d_msyn :: bool
  d_addr :: u32
  d_control :: u8
  d_data :: u16

record dma_input =
  i_ssyn :: bool
  i_timeout :: bool
  i_data :: u16
  i_init :: bool

definition the_dma :: "dma_machine \<Rightarrow> mailbox_dma" where "the_dma p = mbox_dma (shared p)"

definition upd_dma :: "(mailbox_dma \<Rightarrow> mailbox_dma) \<Rightarrow> dma_machine \<Rightarrow> dma_machine" where
  "upd_dma f p = upd_shared (\<lambda>s. s\<lparr>mbox_dma := f (mbox_dma s)\<rparr>) p"

definition sm_dma_start :: "dma_machine \<Rightarrow> dma_machine" where
  "sm_dma_start p =
     (upd_dma (\<lambda>mb. mb\<lparr>cur_addr := startaddr mb, cur_status := DMA_STATE_RUNNING\<rparr>) p)
       \<lparr>dataptr := 0, cur_wordsleft := mbox_wordcount (the_dma p), d_bbsy := True, dma_at := Dma_1\<rparr>"

text \<open>Storing a word read into the mailbox buffer; outside the buffer the behaviour is undefined.\<close>

definition store_word :: "u16 \<Rightarrow> dma_machine \<Rightarrow> dma_machine option" where
  "store_word w p =
     do { assert_that (dataptr p < length (mbox_words (the_dma p)));
          Some (upd_dma (\<lambda>mb. mb\<lparr>mbox_words := (mbox_words mb)[dataptr p := w]\<rparr>) p) }"

text \<open>Address and control go onto the bus, 18 and 2 bits.\<close>

definition put_cycle :: "u32 \<Rightarrow> u8 \<Rightarrow> dma_machine \<Rightarrow> dma_machine" where
  "put_cycle addr control p = p\<lparr>d_addr := addr AND 0x3ffff, d_control := control\<rparr>"

text \<open>A word to a slave: one that is emulated here takes it at once, else MSYN stays and the slave is waited for.\<close>

definition sm_dma_write :: "u32 \<Rightarrow> u8 \<Rightarrow> u16 \<Rightarrow> dma_machine \<Rightarrow> dma_machine" where
  "sm_dma_write addr cycle w p =
     (let internal = (if cycle = QUNIBUS_CYCLE_DATOB then emulated_addr_write_b addr (data_byte addr w) p
                      else emulated_addr_write_w addr w p)
      in case internal of
           Some q \<Rightarrow> q\<lparr>d_msyn := False, d_data := 0, dma_at := Dma_99\<rparr>
         | None \<Rightarrow> p\<lparr>d_msyn := True, d_data := w, dma_at := Dma_21\<rparr>)"

definition sm_dma_read :: "u32 \<Rightarrow> dma_machine \<Rightarrow> dma_machine option" where
  "sm_dma_read addr p =
     (case emulated_addr_read addr p of
        Some (w, q) \<Rightarrow> map_option (\<lambda>q. q\<lparr>d_msyn := False, d_data := 0, dma_at := Dma_99\<rparr>) (store_word w q)
      | None \<Rightarrow> Some (p\<lparr>d_msyn := True, dma_at := Dma_11\<rparr>))"

text \<open>
  In a cycle with a slave that is emulated here, the master also drives SSYN and, for a read, the data of the slave for a moment, and takes them
  back before the state function returns; only the latches at its end are modelled. SSYN of the slave state machine, \<open>d_ssyn\<close> in
  \<open>PRU_Main\<close>, is not set while this side is the master.
\<close>

definition sm_dma_state_1 :: "dma_machine \<Rightarrow> dma_machine option" where
  "sm_dma_state_1 p =
     (if cur_status (the_dma p) \<noteq> DMA_STATE_RUNNING \<or> mbox_wordcount (the_dma p) = 0
      then Some (p\<lparr>dma_at := Dma_stopped\<rparr>)
      else let cycle = buscycle (the_dma p);
               addr = cur_addr (the_dma p) OR address_overlay p;
               p1 = p\<lparr>d_sack := (if cur_wordsleft p = 1 then False else d_sack p), state_timeout := False\<rparr>
           in if QUNIBUS_CYCLE_IS_DATO cycle
              then do { assert_that (dataptr p < length (mbox_words (the_dma p)));
                        Some (sm_dma_write addr cycle (mbox_words (the_dma p) ! dataptr p)
                          (put_cycle addr (if cycle = QUNIBUS_CYCLE_DATOB then QUNIBUS_CYCLE_DATOB
                                           else QUNIBUS_CYCLE_DATO) p1)) }
              else sm_dma_read addr (put_cycle addr QUNIBUS_CYCLE_DATI p1))"

definition sm_dma_state_11 :: "dma_input \<Rightarrow> dma_machine \<Rightarrow> dma_machine option" where
  "sm_dma_state_11 i p =
     (let p1 = p\<lparr>state_timeout := i_timeout i\<rparr> in
      if \<not> i_timeout i \<and> \<not> i_ssyn i then Some p1
      else map_option (\<lambda>q. q\<lparr>d_msyn := False, dma_at := Dma_99\<rparr>) (store_word (i_data i) p1))"

definition sm_dma_state_21 :: "dma_input \<Rightarrow> dma_machine \<Rightarrow> dma_machine" where
  "sm_dma_state_21 i p =
     (let p1 = p\<lparr>state_timeout := i_timeout i\<rparr> in
      if \<not> i_timeout i \<and> \<not> i_ssyn i then p1
      else p1\<lparr>d_msyn := False, d_data := 0, dma_at := Dma_99\<rparr>)"

text \<open>The end of the transfer: the bus is released and the ARM is told.\<close>

definition sm_dma_finish :: "u8 \<Rightarrow> dma_machine \<Rightarrow> dma_machine" where
  "sm_dma_finish final p =
     (upd_shared (\<lambda>s. s\<lparr>ev_dma := True\<rparr>) (upd_dma (\<lambda>mb. mb\<lparr>cur_status := final\<rparr>) p))
       \<lparr>d_addr := 0, d_control := 0, d_msyn := False, d_bbsy := False, dma_at := Dma_stopped\<rparr>"

definition sm_dma_state_99 :: "dma_input \<Rightarrow> dma_machine \<Rightarrow> dma_machine" where
  "sm_dma_state_99 i p =
     (if state_timeout p then sm_dma_finish DMA_STATE_TIMEOUTSTOP (p\<lparr>d_sack := False\<rparr>)
      else let p1 = p\<lparr>dataptr := Suc (dataptr p), cur_wordsleft := cur_wordsleft p - 1\<rparr> in
        if cur_wordsleft p1 = 0 then sm_dma_finish DMA_STATE_READY p1
        else if i_init i then sm_dma_finish DMA_STATE_INITSTOP (p1\<lparr>d_sack := False\<rparr>)
        else (upd_dma (\<lambda>mb. mb\<lparr>cur_addr := cur_addr mb + 2\<rparr>) p1)\<lparr>dma_at := Dma_1\<rparr>)"

definition sm_dma :: "dma_input \<Rightarrow> dma_machine \<Rightarrow> dma_machine option" where
  "sm_dma i p =
     (case dma_at p of
        Dma_stopped \<Rightarrow> Some p
      | Dma_start \<Rightarrow> Some (sm_dma_start p)
      | Dma_1 \<Rightarrow> sm_dma_state_1 p
      | Dma_11 \<Rightarrow> sm_dma_state_11 i p
      | Dma_21 \<Rightarrow> Some (sm_dma_state_21 i p)
      | Dma_99 \<Rightarrow> Some (sm_dma_state_99 i p))"

subsection \<open>The bus around the master\<close>

text \<open>
  The other slaves: the words they hold, how many polls each address takes to answer, how many
  polls the current cycle has waited. The timer runs out after \<open>timeout_polls\<close>.
\<close>

record dma_bus =
  ext :: bus_memory
  delay :: "u32 \<Rightarrow> nat"
  waited :: nat
  timeout_polls :: nat

definition answered :: "dma_machine \<Rightarrow> dma_bus \<Rightarrow> bool" where
  "answered p b \<longleftrightarrow> ext b (d_addr p) \<noteq> None \<and> delay b (d_addr p) \<le> waited b"

definition bus_input :: "dma_machine \<Rightarrow> dma_bus \<Rightarrow> dma_input" where
  "bus_input p b = \<lparr>i_ssyn = answered p b, i_timeout = (timeout_polls b \<le> waited b),
     i_data = (case ext b (d_addr p) of None \<Rightarrow> 0 | Some w \<Rightarrow> w), i_init = False\<rparr>"

definition bus_step :: "dma_machine \<Rightarrow> dma_bus \<Rightarrow> (dma_machine \<times> dma_bus) option" where
  "bus_step p b =
     (case sm_dma (bus_input p b) p of
        None \<Rightarrow> None
      | Some q \<Rightarrow> Some (q, b\<lparr>waited := (if dma_at q \<in> {Dma_11, Dma_21} \<and> dma_at q = dma_at p then Suc (waited b) else 0),
          ext := (if dma_at p = Dma_21 \<and> answered p b then (ext b)(d_addr p \<mapsto> d_data p) else ext b)\<rparr>))"

fun bus_run :: "nat \<Rightarrow> dma_machine \<Rightarrow> dma_bus \<Rightarrow> (dma_machine \<times> dma_bus) option" where
  "bus_run 0 p b = Some (p, b)"
| "bus_run (Suc k) p b = (case bus_step p b of None \<Rightarrow> None | Some (q, c) \<Rightarrow> bus_run k q c)"

subsection \<open>Runs\<close>

definition bus_reaches :: "dma_machine \<Rightarrow> dma_bus \<Rightarrow> dma_machine \<Rightarrow> dma_bus \<Rightarrow> bool" where
  "bus_reaches p b q c \<longleftrightarrow> (\<exists>k. bus_run k p b = Some (q, c))"

lemma bus_run_add:
  "bus_run j p b = Some (q, c) \<Longrightarrow> bus_run k q c = Some r \<Longrightarrow> bus_run (j + k) p b = Some r"
  by (induction j arbitrary: p b) (auto split: option.splits)

lemma bus_reaches_refl [simp]: "bus_reaches p b p b"
  unfolding bus_reaches_def by (rule exI [of _ 0]) simp

lemma bus_reaches_trans [trans]:
  "bus_reaches p b q c \<Longrightarrow> bus_reaches q c r d \<Longrightarrow> bus_reaches p b r d"
  unfolding bus_reaches_def using bus_run_add by metis

lemma bus_reaches_step: "bus_step p b = Some (q, c) \<Longrightarrow> bus_reaches p b q c"
  unfolding bus_reaches_def by (rule exI [of _ 1]) simp

lemma bus_run_stopped:
  assumes "dma_at p = Dma_stopped"
  shows "\<exists>c. bus_run k p b = Some (p, c) \<and> ext c = ext b"
  using assms
proof (induction k arbitrary: b)
  case (Suc k)
  then show ?case using Suc.IH [of "b\<lparr>waited := 0\<rparr>"] by (auto simp: bus_step_def sm_dma_def)
qed simp

lemma bus_reaches_run:
  assumes "bus_reaches p b q c" "dma_at q = Dma_stopped"
  shows "\<exists>k0. \<forall>k\<ge>k0. \<exists>d. bus_run k p b = Some (q, d) \<and> ext d = ext c"
proof -
  obtain k0 where k0: "bus_run k0 p b = Some (q, c)" using assms(1) by (auto simp: bus_reaches_def)
  have "\<exists>d. bus_run k p b = Some (q, d) \<and> ext d = ext c" if "k0 \<le> k" for k
    using bus_run_stopped [OF assms(2), of "k - k0" c] bus_run_add [OF k0] that by fastforce
  then show ?thesis by blast
qed

text \<open>Waiting for a slave, or for the timer where there is none.\<close>

definition polls :: "dma_machine \<Rightarrow> dma_bus \<Rightarrow> nat" where
  "polls p b = (case ext b (d_addr p) of None \<Rightarrow> timeout_polls b | Some _ \<Rightarrow> delay b (d_addr p))"

definition bus_timing_ok :: "dma_bus \<Rightarrow> bool" where
  "bus_timing_ok b \<longleftrightarrow> (\<forall>a. delay b a < timeout_polls b)"

lemma bus_run_timing: "bus_run k p b = Some (q, c) \<Longrightarrow> delay c = delay b \<and> timeout_polls c = timeout_polls b"
proof (induction k arbitrary: p b)
  case (Suc k)
  then obtain r d where s: "bus_step p b = Some (r, d)" "bus_run k r d = Some (q, c)" by (auto split: option.splits)
  from s(1) have "delay d = delay b \<and> timeout_polls d = timeout_polls b" by (auto simp: bus_step_def split: option.splits)
  with Suc.IH [OF s(2)] show ?case by simp
qed simp

lemma bus_reaches_timing: "bus_reaches p b q c \<Longrightarrow> bus_timing_ok c \<longleftrightarrow> bus_timing_ok b"
  using bus_run_timing by (fastforce simp: bus_reaches_def bus_timing_ok_def)

lemma wait_for_slave:
  assumes "dma_at p = Dma_11 \<or> dma_at p = Dma_21" "\<not> state_timeout p" "bus_timing_ok b" "waited b \<le> polls p b"
  shows "bus_reaches p b p (b\<lparr>waited := polls p b\<rparr>)"
  using assms(3,4)
proof (induction "polls p b - waited b" arbitrary: b)
  case 0
  then have "b\<lparr>waited := polls p b\<rparr> = b" by simp
  then show ?case by simp
next
  case (Suc n)
  let ?c = "b\<lparr>waited := Suc (waited b)\<rparr>"
  have lt: "waited b < polls p b" using Suc.hyps(2) by simp
  have "polls p b \<le> timeout_polls b"
    using Suc.prems(1) by (auto simp: polls_def bus_timing_ok_def less_imp_le split: option.split)
  with lt have nt: "\<not> timeout_polls b \<le> waited b" by simp
  have na: "\<not> answered p b" using lt by (auto simp: answered_def polls_def)
  have "bus_step p b = Some (p, ?c)"
    using assms(1,2) nt na
    by (auto simp: bus_step_def sm_dma_def sm_dma_state_11_def sm_dma_state_21_def bus_input_def Let_def)
  moreover have "polls p ?c = polls p b" by (simp add: polls_def split: option.split)
  ultimately show ?case
    using Suc.hyps(1) [of ?c] Suc.hyps(2) Suc.prems lt bus_reaches_trans [OF bus_reaches_step]
    by (simp add: bus_timing_ok_def)
qed

subsection \<open>One word\<close>

text \<open>Memory as the master sees it: emulated here or on the bus.\<close>

definition bus_view :: "'a pru_state_scheme \<Rightarrow> dma_bus \<Rightarrow> bus_memory" where
  "bus_view p b = (\<lambda>a. if odd (unat a) then None
     else if in_memory a p then Some (ddr_words p (ddr_index a)) else ext b a)"

text \<open>An address of memory: even, within 18 bits, no cell of the IO page in use.\<close>

definition memory_addr :: "'a pru_state_scheme \<Rightarrow> u32 \<Rightarrow> bool" where
  "memory_addr p a \<longleftrightarrow> even (unat a) \<and> a AND 0x3ffff = a \<and>
     (in_memory a p \<or> \<not> iopage_start_addr (shared p) \<le> a \<or> register_handles (shared p) (iopage_index a) = 0)"

text \<open>What a word transfer leaves alone: all but the mailbox, memory, position and bus lines.\<close>

definition dma_frame :: "dma_machine \<Rightarrow> u32 \<times> u32 \<times> u32 \<times> worker_state" where
  "dma_frame p = (memory_start_addr p, memory_limit_addr p, address_overlay p, (shared p)\<lparr>mbox_dma := undefined\<rparr>)"

lemma dma_frame_D:
  assumes "dma_frame q = dma_frame p"
  shows "in_memory a q = in_memory a p" "memory_addr q a = memory_addr p a" "address_overlay q = address_overlay p"
    "shared q = (shared p)\<lparr>mbox_dma := the_dma q\<rparr>"
proof -
  have s: "(shared q)\<lparr>mbox_dma := undefined\<rparr> = (shared p)\<lparr>mbox_dma := undefined\<rparr>" using assms by (simp add: dma_frame_def)
  from arg_cong [OF s, of iopage_start_addr] arg_cong [OF s, of register_handles] assms
  show "in_memory a q = in_memory a p" "memory_addr q a = memory_addr p a" "address_overlay q = address_overlay p"
    by (auto simp: dma_frame_def in_memory_def memory_addr_def)
  show "shared q = (shared p)\<lparr>mbox_dma := the_dma q\<rparr>"
    using arg_cong [OF s, of "\<lambda>x. x\<lparr>mbox_dma := mbox_dma (shared q)\<rparr>"] by (simp add: the_dma_def)
qed

lemma emulated_none:
  assumes "memory_addr p a" "\<not> in_memory a p"
  shows "emulated_addr_read a p = None" "emulated_addr_write_w a w p = None"
  using assms by (auto simp: memory_addr_def emulated_addr_read_def emulated_addr_write_w_def Let_def)

lemma read_word:
  assumes at: "dma_at p = Dma_1" "cur_status (the_dma p) = DMA_STATE_RUNNING" "mbox_wordcount (the_dma p) \<noteq> 0"
    and cyc: "\<not> QUNIBUS_CYCLE_IS_DATO (buscycle (the_dma p))" and ov: "address_overlay p = 0"
    and mem: "memory_addr p (cur_addr (the_dma p))" and len: "dataptr p < length (mbox_words (the_dma p))"
    and b: "bus_timing_ok b"
  obtains q c where "bus_reaches p b q c" "dma_at q = Dma_99"
    "state_timeout q \<longleftrightarrow> bus_view p b (cur_addr (the_dma p)) = None"
    "the_dma q = (the_dma p)\<lparr>mbox_words := (mbox_words (the_dma p))[dataptr p :=
        (case bus_view p b (cur_addr (the_dma p)) of None \<Rightarrow> 0 | Some w \<Rightarrow> w)]\<rparr>"
    "dataptr q = dataptr p" "cur_wordsleft q = cur_wordsleft p"
    "d_sack q = (if cur_wordsleft p = 1 then False else d_sack p)" "dma_frame q = dma_frame p"
    "ddr_words q = ddr_words p" "ext c = ext b" "bus_timing_ok c"
proof (cases "in_memory (cur_addr (the_dma p)) p")
  case True
  let ?a = "cur_addr (the_dma p)"
  let ?w = "ddr_words p (ddr_index ?a)"
  let ?p1 = "put_cycle ?a QUNIBUS_CYCLE_DATI (p\<lparr>d_sack := (if cur_wordsleft p = 1 then False else d_sack p), state_timeout := False\<rparr>)"
  let ?q = "(upd_dma (\<lambda>mb. mb\<lparr>mbox_words := (mbox_words mb)[dataptr p := ?w]\<rparr>) ?p1)\<lparr>d_msyn := False, d_data := 0, dma_at := Dma_99\<rparr>"
  have "emulated_addr_read ?a ?p1 = Some (?w, ?p1)"
    using True by (simp add: emulated_addr_read_def in_memory_def put_cycle_def)
  then have "sm_dma_state_1 p = Some ?q"
    using at cyc ov len by (simp add: sm_dma_state_1_def sm_dma_read_def store_word_def Let_def put_cycle_def the_dma_def)
  then have s: "bus_step p b = Some (?q, b\<lparr>waited := 0\<rparr>)"
    using at(1) by (simp add: bus_step_def sm_dma_def)
  show thesis
    by (rule that [OF bus_reaches_step [OF s]])
      (use True b mem in \<open>auto simp: memory_addr_def bus_view_def upd_dma_def upd_shared_def put_cycle_def the_dma_def dma_frame_def bus_timing_ok_def\<close>)
next
  case False
  let ?a = "cur_addr (the_dma p)"
  let ?p1 = "put_cycle ?a QUNIBUS_CYCLE_DATI (p\<lparr>d_sack := (if cur_wordsleft p = 1 then False else d_sack p), state_timeout := False\<rparr>)"
  let ?p2 = "?p1\<lparr>d_msyn := True, dma_at := Dma_11\<rparr>"
  let ?b = "b\<lparr>waited := 0\<rparr>" let ?c = "?b\<lparr>waited := polls ?p2 ?b\<rparr>"
  have fr: "dma_frame ?p1 = dma_frame p" by (simp add: dma_frame_def put_cycle_def)
  have "emulated_addr_read ?a ?p1 = None"
    using emulated_none(1) [of ?p1 ?a] mem False dma_frame_D [OF fr] by simp
  then have "sm_dma_state_1 p = Some ?p2"
    using at cyc ov by (simp add: sm_dma_state_1_def sm_dma_read_def Let_def)
  then have s1: "bus_step p b = Some (?p2, ?b)"
    using at(1) by (simp add: bus_step_def sm_dma_def)
  have addr: "d_addr ?p2 = ?a" using mem by (simp add: put_cycle_def memory_addr_def)
  have w: "bus_reaches ?p2 ?b ?p2 ?c"
    by (rule wait_for_slave) (use b in \<open>auto simp: put_cycle_def bus_timing_ok_def\<close>)
  let ?v = "case ext b ?a of None \<Rightarrow> 0 | Some w \<Rightarrow> w"
  let ?q = "(upd_dma (\<lambda>mb. mb\<lparr>mbox_words := (mbox_words mb)[dataptr p := ?v]\<rparr>)
     (?p2\<lparr>state_timeout := (ext b ?a = None)\<rparr>))\<lparr>d_msyn := False, dma_at := Dma_99\<rparr>"
  have i: "bus_input ?p2 ?c = \<lparr>i_ssyn = (ext b ?a \<noteq> None), i_timeout = (ext b ?a = None), i_data = ?v, i_init = False\<rparr>"
    using b addr by (auto simp: bus_input_def answered_def polls_def bus_timing_ok_def not_le split: option.split)
  have "sm_dma (bus_input ?p2 ?c) ?p2 = Some ?q"
    unfolding i using len
    by (cases "ext b ?a") (simp_all add: sm_dma_def sm_dma_state_11_def store_word_def Let_def put_cycle_def the_dma_def)
  then have s2: "bus_step ?p2 ?c = Some (?q, ?c\<lparr>waited := 0\<rparr>)" by (simp add: bus_step_def)
  show thesis
    by (rule that [OF bus_reaches_trans [OF bus_reaches_step [OF s1] bus_reaches_trans [OF w bus_reaches_step [OF s2]]]])
      (use False b mem in \<open>auto simp: memory_addr_def bus_view_def upd_dma_def upd_shared_def put_cycle_def the_dma_def dma_frame_def bus_timing_ok_def\<close>)
qed

lemma write_word:
  assumes at: "dma_at p = Dma_1" "cur_status (the_dma p) = DMA_STATE_RUNNING" "mbox_wordcount (the_dma p) \<noteq> 0"
    and cyc: "buscycle (the_dma p) = QUNIBUS_CYCLE_DATO" and ov: "address_overlay p = 0"
    and mem: "memory_addr p (cur_addr (the_dma p))" and len: "dataptr p < length (mbox_words (the_dma p))"
    and b: "bus_timing_ok b"
  obtains q c where "bus_reaches p b q c" "dma_at q = Dma_99"
    "state_timeout q \<longleftrightarrow> bus_view p b (cur_addr (the_dma p)) = None"
    "the_dma q = the_dma p" "dataptr q = dataptr p" "cur_wordsleft q = cur_wordsleft p"
    "d_sack q = (if cur_wordsleft p = 1 then False else d_sack p)" "dma_frame q = dma_frame p"
    "bus_view q c = (if bus_view p b (cur_addr (the_dma p)) = None then bus_view p b
       else (bus_view p b)(cur_addr (the_dma p) \<mapsto> mbox_words (the_dma p) ! dataptr p))" "bus_timing_ok c"
proof -
  let ?a = "cur_addr (the_dma p)" and ?w = "mbox_words (the_dma p) ! dataptr p"
  let ?p1 = "put_cycle ?a QUNIBUS_CYCLE_DATO (p\<lparr>d_sack := (if cur_wordsleft p = 1 then False else d_sack p), state_timeout := False\<rparr>)"
  have ev: "even (unat ?a)" using mem by (simp add: memory_addr_def)
  have s1: "sm_dma_state_1 p = Some (sm_dma_write ?a QUNIBUS_CYCLE_DATO ?w ?p1)"
    using at cyc ov len by (simp add: sm_dma_state_1_def Let_def)
  show thesis
  proof (cases "in_memory ?a p")
    case True
    let ?q = "?p1\<lparr>ddr_words := (ddr_words p)(ddr_index ?a := ?w), d_msyn := False, d_data := 0, dma_at := Dma_99\<rparr>"
    have "emulated_addr_write_w ?a ?w ?p1 = Some (?p1\<lparr>ddr_words := (ddr_words p)(ddr_index ?a := ?w)\<rparr>)"
      using True by (simp add: emulated_addr_write_w_def in_memory_def put_cycle_def)
    then have "sm_dma_state_1 p = Some ?q" using s1 by (simp add: sm_dma_write_def Let_def)
    then have s: "bus_step p b = Some (?q, b\<lparr>waited := 0\<rparr>)"
      using at(1) by (simp add: bus_step_def sm_dma_def)
    have inj: "ddr_index x = ddr_index ?a \<longleftrightarrow> x = ?a" if "even (unat x)" for x
      using ev that by (auto simp: ddr_index_def word_unat_eq_iff elim!: evenE)
    have v: "bus_view ?q (b\<lparr>waited := 0\<rparr>) = (bus_view p b)(?a \<mapsto> ?w)"
      using True ev inj by (auto simp: bus_view_def fun_eq_iff put_cycle_def in_memory_def)
    show thesis
      by (rule that [OF bus_reaches_step [OF s]])
        (use v True b ev in \<open>auto simp: bus_view_def put_cycle_def the_dma_def dma_frame_def bus_timing_ok_def\<close>)
  next
    case False
    let ?p2 = "?p1\<lparr>d_msyn := True, d_data := ?w, dma_at := Dma_21\<rparr>"
    let ?b = "b\<lparr>waited := 0\<rparr>" let ?c = "?b\<lparr>waited := polls ?p2 ?b\<rparr>"
    have fr: "dma_frame ?p1 = dma_frame p" by (simp add: dma_frame_def put_cycle_def)
    have "emulated_addr_write_w ?a ?w ?p1 = None"
      using emulated_none(2) [of ?p1 ?a] mem False dma_frame_D [OF fr] by simp
    then have "sm_dma_state_1 p = Some ?p2" using s1 by (simp add: sm_dma_write_def Let_def)
    then have s1: "bus_step p b = Some (?p2, ?b)"
      using at(1) by (simp add: bus_step_def sm_dma_def)
    have addr: "d_addr ?p2 = ?a" using mem by (simp add: put_cycle_def memory_addr_def)
    have w: "bus_reaches ?p2 ?b ?p2 ?c"
      by (rule wait_for_slave) (use b in \<open>auto simp: put_cycle_def bus_timing_ok_def\<close>)
    let ?q = "?p2\<lparr>state_timeout := (ext b ?a = None), d_msyn := False, d_data := 0, dma_at := Dma_99\<rparr>"
    let ?d = "?c\<lparr>waited := 0, ext := (if ext b ?a = None then ext b else (ext b)(?a \<mapsto> ?w))\<rparr>"
    have an: "answered ?p2 ?c \<longleftrightarrow> ext b ?a \<noteq> None"
      using addr by (auto simp: answered_def polls_def)
    have to: "timeout_polls ?c \<le> waited ?c \<longleftrightarrow> ext b ?a = None"
      using b addr by (auto simp: polls_def bus_timing_ok_def not_le split: option.split)
    have "sm_dma (bus_input ?p2 ?c) ?p2 = Some ?q"
      using an to by (cases "ext b ?a") (simp_all add: sm_dma_def sm_dma_state_21_def bus_input_def Let_def)
    then have s2: "bus_step ?p2 ?c = Some (?q, ?d)" using an addr by (auto simp: bus_step_def)
    have v: "bus_view ?q ?d = (if bus_view p b ?a = None then bus_view p b else (bus_view p b)(?a \<mapsto> ?w))"
      using False ev by (auto simp: bus_view_def fun_eq_iff put_cycle_def in_memory_def)
    show thesis
      by (rule that [OF bus_reaches_trans [OF bus_reaches_step [OF s1] bus_reaches_trans [OF w bus_reaches_step [OF s2]]]])
        (use v False b ev in \<open>auto simp: bus_view_def put_cycle_def the_dma_def dma_frame_def bus_timing_ok_def\<close>)
  qed
qed

text \<open>The end of a word: the next word, or the end of the transfer.\<close>

definition pru_config :: "dma_machine \<Rightarrow> u32 \<times> u32 \<times> u32" where
  "pru_config p = (memory_start_addr p, memory_limit_addr p, address_overlay p)"

definition dma_released :: "dma_machine \<Rightarrow> bool" where
  "dma_released q \<longleftrightarrow> dma_at q = Dma_stopped \<and> ev_dma (shared q) \<and> \<not> d_bbsy q \<and> \<not> d_sack q \<and> \<not> d_msyn q"

lemma word_done_last:
  assumes "dma_at p = Dma_99" "state_timeout p \<or> cur_wordsleft p = 1 \<and> \<not> d_sack p"
  obtains q c where "bus_reaches p b q c" "dma_released q"
    "the_dma q = (the_dma p)\<lparr>cur_status := (if state_timeout p then DMA_STATE_TIMEOUTSTOP else DMA_STATE_READY)\<rparr>"
    "bus_view q c = bus_view p b" "shared q = (shared p)\<lparr>mbox_dma := the_dma q, ev_dma := True\<rparr>"
    "pru_config q = pru_config p"
proof -
  let ?q = "sm_dma_state_99 (bus_input p b) p"
  have s: "bus_step p b = Some (?q, b\<lparr>waited := 0\<rparr>)"
    using assms(1) by (auto simp: bus_step_def sm_dma_def sm_dma_state_99_def sm_dma_finish_def Let_def
        upd_dma_def upd_shared_def)
  show thesis
    by (rule that [OF bus_reaches_step [OF s]])
      (use assms in \<open>auto simp: sm_dma_state_99_def sm_dma_finish_def Let_def upd_dma_def upd_shared_def
         dma_released_def the_dma_def bus_view_def in_memory_def pru_config_def\<close>)
qed

lemma word_done_next:
  assumes "dma_at p = Dma_99" "\<not> state_timeout p" "cur_wordsleft p \<noteq> 1" "bus_timing_ok b"
  obtains q c where "bus_reaches p b q c" "dma_at q = Dma_1"
    "the_dma q = (the_dma p)\<lparr>cur_addr := cur_addr (the_dma p) + 2\<rparr>"
    "dataptr q = Suc (dataptr p)" "cur_wordsleft q = cur_wordsleft p - 1" "d_sack q = d_sack p"
    "dma_frame q = dma_frame p" "bus_view q c = bus_view p b" "bus_timing_ok c"
proof -
  let ?q = "sm_dma_state_99 (bus_input p b) p"
  have nz: "cur_wordsleft p - 1 \<noteq> 0" using assms(3) by simp
  have s: "bus_step p b = Some (?q, b\<lparr>waited := 0\<rparr>)"
    using assms(1,2) nz by (auto simp: bus_step_def sm_dma_def sm_dma_state_99_def Let_def bus_input_def
        upd_dma_def upd_shared_def)
  show thesis
    by (rule that [OF bus_reaches_step [OF s]])
      (use assms nz in \<open>auto simp: sm_dma_state_99_def Let_def upd_dma_def upd_shared_def bus_input_def
         the_dma_def bus_view_def in_memory_def dma_frame_def bus_timing_ok_def\<close>)
qed

subsection \<open>All words of a chunk\<close>

text \<open>What the ARM finds when a chunk has ended: nothing else of the shared state has changed.\<close>

definition dma_rest :: "mailbox_dma \<Rightarrow> mailbox_dma" where
  "dma_rest mb = mb\<lparr>cur_addr := 0, cur_status := 0, mbox_words := []\<rparr>"

definition dma_ended :: "dma_machine \<Rightarrow> dma_machine \<Rightarrow> bool" where
  "dma_ended p q \<longleftrightarrow> dma_released q \<and> dma_rest (the_dma q) = dma_rest (the_dma p) \<and>
     length (mbox_words (the_dma q)) = length (mbox_words (the_dma p)) \<and>
     shared q = (shared p)\<lparr>mbox_dma := the_dma q, ev_dma := True\<rparr> \<and> pru_config q = pru_config p"

text \<open>A timeout reports the first address where nobody answers.\<close>

definition dma_timed_out :: "bus_memory \<Rightarrow> u32 \<Rightarrow> nat \<Rightarrow> mailbox_dma \<Rightarrow> bool" where
  "dma_timed_out m a n mb \<longleftrightarrow> cur_status mb = DMA_STATE_TIMEOUTSTOP \<and>
     (\<exists>j<n. cur_addr mb = a + 2 * of_nat j \<and> m (a + 2 * of_nat j) = None \<and> (\<forall>i<j. m (a + 2 * of_nat i) \<noteq> None))"

lemma dma_timed_out_here: "m a = None \<Longrightarrow> cur_status mb = DMA_STATE_TIMEOUTSTOP \<Longrightarrow> cur_addr mb = a \<Longrightarrow> dma_timed_out m a (Suc n) mb"
  unfolding dma_timed_out_def by (intro conjI exI [of _ 0]) simp_all

lemma dma_timed_out_later:
  assumes "dma_timed_out m (a + 2) n mb" "m a \<noteq> None"
  shows "dma_timed_out m a (Suc n) mb"
proof -
  obtain j where j: "j < n" "cur_addr mb = a + 2 + 2 * of_nat j" "m (a + 2 + 2 * of_nat j) = None"
      "\<forall>i<j. m (a + 2 + 2 * of_nat i) \<noteq> None"
    using assms(1) by (auto simp: dma_timed_out_def)
  have e: "a + 2 * of_nat (Suc i) = a + 2 + 2 * of_nat i" for i by (simp add: algebra_simps)
  have "\<forall>i<Suc j. m (a + 2 * of_nat i) \<noteq> None"
    unfolding All_less_Suc2 e using j(4) assms(2) by simp
  then have "Suc j < Suc n \<and> cur_addr mb = a + 2 * of_nat (Suc j) \<and> m (a + 2 * of_nat (Suc j)) = None \<and>
      (\<forall>i<Suc j. m (a + 2 * of_nat i) \<noteq> None)"
    unfolding e using j by simp
  moreover have "cur_status mb = DMA_STATE_TIMEOUTSTOP" using assms(1) by (simp add: dma_timed_out_def)
  ultimately show ?thesis unfolding dma_timed_out_def by metis
qed

text \<open>The state between two words.\<close>

definition dma_at_word :: "nat \<Rightarrow> dma_machine \<Rightarrow> dma_bus \<Rightarrow> bool" where
  "dma_at_word n p b \<longleftrightarrow> dma_at p = Dma_1 \<and> cur_status (the_dma p) = DMA_STATE_RUNNING \<and>
     mbox_wordcount (the_dma p) \<noteq> 0 \<and> address_overlay p = 0 \<and> unat (cur_wordsleft p) = n \<and> bus_timing_ok b \<and>
     dataptr p + n \<le> length (mbox_words (the_dma p)) \<and>
     (\<forall>i<n. memory_addr p (cur_addr (the_dma p) + 2 * of_nat i))"

lemma dma_at_word_D:
  assumes "dma_at_word (Suc n) p b"
  shows "dma_at p = Dma_1" "cur_status (the_dma p) = DMA_STATE_RUNNING" "mbox_wordcount (the_dma p) \<noteq> 0"
    "address_overlay p = 0" "memory_addr p (cur_addr (the_dma p))" "dataptr p < length (mbox_words (the_dma p))"
    "bus_timing_ok b" "cur_wordsleft p = 1 \<longleftrightarrow> n = 0"
proof -
  show "memory_addr p (cur_addr (the_dma p))" using assms by (simp add: dma_at_word_def All_less_Suc2)
  have "cur_wordsleft p = 1 \<longleftrightarrow> unat (cur_wordsleft p) = 1" by (auto simp: word_unat_eq_iff)
  then show "cur_wordsleft p = 1 \<longleftrightarrow> n = 0" using assms by (simp add: dma_at_word_def)
qed (use assms in \<open>auto simp: dma_at_word_def\<close>)

lemma dma_at_word_next:
  assumes "dma_at_word (Suc (Suc n)) p b" "dma_frame q = dma_frame p" "dma_at q = Dma_1"
    "the_dma q = (the_dma p)\<lparr>cur_addr := cur_addr (the_dma p) + 2, mbox_words := ws\<rparr>"
    "length ws = length (mbox_words (the_dma p))"
    "dataptr q = Suc (dataptr p)" "cur_wordsleft q = cur_wordsleft p - 1" "bus_timing_ok c"
  shows "dma_at_word (Suc n) q c"
proof -
  have "unat (cur_wordsleft p) = Suc (Suc n)" using assms(1) by (simp add: dma_at_word_def)
  then have l: "unat (cur_wordsleft q) = Suc n"
    using assms(7) unat_minus_one [of "cur_wordsleft p"] by force
  have e: "a + 2 * of_nat (Suc i) = a + 2 + 2 * of_nat i" for a :: u32 and i by (simp add: algebra_simps)
  have "\<forall>i<Suc (Suc n). memory_addr p (cur_addr (the_dma p) + 2 * of_nat i)"
    using assms(1) by (simp add: dma_at_word_def)
  then have m: "\<forall>i<Suc n. memory_addr p (cur_addr (the_dma p) + 2 + 2 * of_nat i)"
    unfolding All_less_Suc2 [of "Suc n"] e by blast
  show ?thesis
    using assms l m unfolding dma_at_word_def dma_frame_D(2,3) [OF assms(2)] by simp
qed

lemma dma_frame_config: "dma_frame q = dma_frame p \<Longrightarrow> pru_config q = pru_config p"
  by (simp add: dma_frame_def pru_config_def)

lemma dma_endedI:
  assumes "dma_released r" "shared r = (shared q)\<lparr>mbox_dma := the_dma r, ev_dma := True\<rparr>" "dma_frame q = dma_frame p"
    "pru_config r = pru_config q"
    "dma_rest (the_dma r) = dma_rest (the_dma p)" "length (mbox_words (the_dma r)) = length (mbox_words (the_dma p))"
  shows "dma_ended p r"
  using assms dma_frame_D(4) [OF assms(3)] dma_frame_config [OF assms(3)] by (simp add: dma_ended_def)

lemma dma_ended_step:
  assumes "dma_ended q r" "dma_frame q = dma_frame p" "dma_rest (the_dma q) = dma_rest (the_dma p)"
    "length (mbox_words (the_dma q)) = length (mbox_words (the_dma p))"
  shows "dma_ended p r"
  using assms dma_frame_D(4) [OF assms(2)] dma_frame_config [OF assms(2)] by (auto simp: dma_ended_def)

definition read_result :: "bus_memory \<Rightarrow> nat \<Rightarrow> dma_machine \<Rightarrow> dma_machine \<Rightarrow> bool" where
  "read_result m n p q \<longleftrightarrow> (let a = cur_addr (the_dma p); old = mbox_words (the_dma p) in
     case bus_read m a n of
       None \<Rightarrow> dma_timed_out m a n (the_dma q)
     | Some ws \<Rightarrow> cur_status (the_dma q) = DMA_STATE_READY \<and> cur_addr (the_dma q) = a + 2 * of_nat (n - 1) \<and>
         mbox_words (the_dma q) = take (dataptr p) old @ ws @ drop (dataptr p + n) old)"

lemma dma_read_loop:
  assumes "dma_at_word (Suc n) p b" "\<not> QUNIBUS_CYCLE_IS_DATO (buscycle (the_dma p))"
  shows "\<exists>q c. bus_reaches p b q c \<and> dma_ended p q \<and> bus_view q c = bus_view p b \<and>
    read_result (bus_view p b) (Suc n) p q"
  using assms
proof (induction n arbitrary: p b)
  case (0 p b)
  note D = dma_at_word_D [OF "0.prems"(1)]
  let ?a = "cur_addr (the_dma p)"
  obtain q c where q: "bus_reaches p b q c" "dma_at q = Dma_99"
    "state_timeout q \<longleftrightarrow> bus_view p b ?a = None"
    "the_dma q = (the_dma p)\<lparr>mbox_words := (mbox_words (the_dma p))[dataptr p :=
        (case bus_view p b ?a of None \<Rightarrow> 0 | Some w \<Rightarrow> w)]\<rparr>"
    "dataptr q = dataptr p" "cur_wordsleft q = cur_wordsleft p"
    "d_sack q = (if cur_wordsleft p = 1 then False else d_sack p)" "dma_frame q = dma_frame p"
    "ddr_words q = ddr_words p" "ext c = ext b" "bus_timing_ok c"
    by (rule read_word [OF D(1-3) "0.prems"(2) D(4-7)])
  have qv: "bus_view q c = bus_view p b" using q(9,10) dma_frame_D(1) [OF q(8)] by (simp add: bus_view_def fun_eq_iff)
  obtain r d where r: "bus_reaches q c r d" "dma_released r"
    "the_dma r = (the_dma q)\<lparr>cur_status := (if state_timeout q then DMA_STATE_TIMEOUTSTOP else DMA_STATE_READY)\<rparr>"
    "bus_view r d = bus_view q c" "shared r = (shared q)\<lparr>mbox_dma := the_dma r, ev_dma := True\<rparr>"
    "pru_config r = pru_config q"
    by (rule word_done_last [of q c]) (use q D(8) in simp_all)
  have "dma_ended p r" by (rule dma_endedI [OF r(2,5) q(8) r(6)]) (simp_all add: r(3) q(4) dma_rest_def)
  moreover have "read_result (bus_view p b) (Suc 0) p r"
    using q(3,4) r(3) D(6)
    by (auto simp: read_result_def Let_def upd_conv_take_nth_drop intro: dma_timed_out_here split: option.splits)
  ultimately show ?case using bus_reaches_trans [OF q(1) r(1)] r(4) qv by metis
next
  case (Suc n p b)
  note D = dma_at_word_D [OF "Suc.prems"(1)]
  let ?a = "cur_addr (the_dma p)"
  obtain q c where q: "bus_reaches p b q c" "dma_at q = Dma_99"
    "state_timeout q \<longleftrightarrow> bus_view p b ?a = None"
    "the_dma q = (the_dma p)\<lparr>mbox_words := (mbox_words (the_dma p))[dataptr p :=
        (case bus_view p b ?a of None \<Rightarrow> 0 | Some w \<Rightarrow> w)]\<rparr>"
    "dataptr q = dataptr p" "cur_wordsleft q = cur_wordsleft p"
    "d_sack q = (if cur_wordsleft p = 1 then False else d_sack p)" "dma_frame q = dma_frame p"
    "ddr_words q = ddr_words p" "ext c = ext b" "bus_timing_ok c"
    by (rule read_word [OF D(1-3) "Suc.prems"(2) D(4-7)])
  have qv: "bus_view q c = bus_view p b" using q(9,10) dma_frame_D(1) [OF q(8)] by (simp add: bus_view_def fun_eq_iff)
  show ?case
  proof (cases "bus_view p b ?a")
    case None
    obtain r d where r: "bus_reaches q c r d" "dma_released r"
      "the_dma r = (the_dma q)\<lparr>cur_status := (if state_timeout q then DMA_STATE_TIMEOUTSTOP else DMA_STATE_READY)\<rparr>"
      "bus_view r d = bus_view q c" "shared r = (shared q)\<lparr>mbox_dma := the_dma r, ev_dma := True\<rparr>"
      "pru_config r = pru_config q"
      by (rule word_done_last [of q c]) (use q None in simp_all)
    have "dma_ended p r" by (rule dma_endedI [OF r(2,5) q(8) r(6)]) (simp_all add: r(3) q(4) dma_rest_def)
    moreover have "read_result (bus_view p b) (Suc (Suc n)) p r"
      using q(3,4) r(3) None
      by (auto simp: read_result_def Let_def intro: dma_timed_out_here)
    ultimately show ?thesis using bus_reaches_trans [OF q(1) r(1)] r(4) qv by metis
  next
    case (Some w)
    obtain r d where r: "bus_reaches q c r d" "dma_at r = Dma_1"
      "the_dma r = (the_dma q)\<lparr>cur_addr := cur_addr (the_dma q) + 2\<rparr>"
      "dataptr r = Suc (dataptr q)" "cur_wordsleft r = cur_wordsleft q - 1" "d_sack r = d_sack q"
      "dma_frame r = dma_frame q" "bus_view r d = bus_view q c" "bus_timing_ok d"
      by (rule word_done_next [of q c]) (use q D(8) Some in simp_all)
    have fr: "dma_frame r = dma_frame p" using r(7) q(8) by simp
    let ?ws = "(mbox_words (the_dma p))[dataptr p := w]"
    have td: "the_dma r = (the_dma p)\<lparr>cur_addr := ?a + 2, mbox_words := ?ws\<rparr>" using r(3) q(4) Some by simp
    have "dma_at_word (Suc n) r d"
      by (rule dma_at_word_next [OF "Suc.prems"(1) fr r(2) td]) (use r q in simp_all)
    moreover have "\<not> QUNIBUS_CYCLE_IS_DATO (buscycle (the_dma r))" using Suc.prems(2) td by simp
    ultimately obtain s e where s: "bus_reaches r d s e" "dma_ended r s" "bus_view s e = bus_view r d"
        "read_result (bus_view r d) (Suc n) r s"
      using Suc.IH by blast
    have len: "dataptr p < length (mbox_words (the_dma p))" by (rule D(6))
    have "dma_ended p s" by (rule dma_ended_step [OF s(2) fr]) (simp_all add: td dma_rest_def)
    moreover have "read_result (bus_view p b) (Suc (Suc n)) p s"
      using s(4) Some len unfolding r(8) qv read_result_def Let_def td r(4) q(5)
      by (auto simp: Option.bind_eq_Some_conv take_Suc_conv_app_nth
          simp del: bus_read.simps(2) intro: dma_timed_out_later split: option.splits
          simp: bus_read.simps(2) [of _ ?a])
    ultimately show ?thesis
      using bus_reaches_trans [OF bus_reaches_trans [OF q(1) r(1)] s(1)] s(3) r(8) qv by metis
  qed
qed

definition words_left :: "nat \<Rightarrow> dma_machine \<Rightarrow> u16 list" where
  "words_left n p = take n (drop (dataptr p) (mbox_words (the_dma p)))"

lemma words_left_Suc:
  assumes "dataptr p < length (mbox_words (the_dma p))"
  shows "words_left (Suc n) p = (mbox_words (the_dma p) ! dataptr p) # take n (drop (Suc (dataptr p)) (mbox_words (the_dma p)))"
  using assms by (simp add: words_left_def Cons_nth_drop_Suc [symmetric])

definition write_result :: "bus_memory \<Rightarrow> u16 list \<Rightarrow> dma_machine \<Rightarrow> dma_machine \<Rightarrow> bool" where
  "write_result m ws p q \<longleftrightarrow> mbox_words (the_dma q) = mbox_words (the_dma p) \<and>
     (if snd (bus_write m (cur_addr (the_dma p)) ws)
      then cur_status (the_dma q) = DMA_STATE_READY \<and> cur_addr (the_dma q) = cur_addr (the_dma p) + 2 * of_nat (length ws - 1)
      else dma_timed_out m (cur_addr (the_dma p)) (length ws) (the_dma q))"

text \<open>Addresses of one chunk do not wrap around: they are within 18 bits.\<close>

lemma dma_timed_out_written:
  assumes "dma_timed_out (m(a \<mapsto> w)) (a + 2) n mb" "m a \<noteq> None"
  shows "dma_timed_out m a (Suc n) mb"
proof (rule dma_timed_out_later)
  show "m a \<noteq> None" by (rule assms(2))
next
  have "(m(a \<mapsto> w)) x = None \<longleftrightarrow> m x = None" for x using assms(2) by auto
  then show "dma_timed_out m (a + 2) n mb"
    using assms(1) unfolding dma_timed_out_def by blast
qed

lemma dma_write_loop:
  assumes "dma_at_word (Suc n) p b" "buscycle (the_dma p) = QUNIBUS_CYCLE_DATO"
  shows "\<exists>q c. bus_reaches p b q c \<and> dma_ended p q \<and>
    bus_view q c = fst (bus_write (bus_view p b) (cur_addr (the_dma p)) (words_left (Suc n) p)) \<and>
    write_result (bus_view p b) (words_left (Suc n) p) p q"
  using assms
proof (induction n arbitrary: p b)
  case (0 p b)
  note D = dma_at_word_D [OF "0.prems"(1)]
  let ?a = "cur_addr (the_dma p)"
  obtain q c where q: "bus_reaches p b q c" "dma_at q = Dma_99"
    "state_timeout q \<longleftrightarrow> bus_view p b ?a = None"
    "the_dma q = the_dma p" "dataptr q = dataptr p" "cur_wordsleft q = cur_wordsleft p"
    "d_sack q = (if cur_wordsleft p = 1 then False else d_sack p)" "dma_frame q = dma_frame p"
    "bus_view q c = (if bus_view p b ?a = None then bus_view p b
       else (bus_view p b)(?a \<mapsto> mbox_words (the_dma p) ! dataptr p))" "bus_timing_ok c"
    by (rule write_word [OF D(1-3) "0.prems"(2) D(4-7)])
  obtain r d where r: "bus_reaches q c r d" "dma_released r"
    "the_dma r = (the_dma q)\<lparr>cur_status := (if state_timeout q then DMA_STATE_TIMEOUTSTOP else DMA_STATE_READY)\<rparr>"
    "bus_view r d = bus_view q c" "shared r = (shared q)\<lparr>mbox_dma := the_dma r, ev_dma := True\<rparr>"
    "pru_config r = pru_config q"
    by (rule word_done_last [of q c]) (use q D(8) in simp_all)
  have "dma_ended p r" by (rule dma_endedI [OF r(2,5) q(8) r(6)]) (simp_all add: r(3) q(4) dma_rest_def)
  moreover have "bus_view r d = fst (bus_write (bus_view p b) ?a (words_left (Suc 0) p)) \<and>
      write_result (bus_view p b) (words_left (Suc 0) p) p r"
    using q(3,4) r(3) unfolding words_left_Suc [OF D(6)] r(4) q(9)
    by (auto simp: write_result_def intro: dma_timed_out_here split: option.splits)
  ultimately show ?case using bus_reaches_trans [OF q(1) r(1)] by metis
next
  case (Suc n p b)
  note D = dma_at_word_D [OF "Suc.prems"(1)]
  let ?a = "cur_addr (the_dma p)" and ?w = "mbox_words (the_dma p) ! dataptr p"
  obtain q c where q: "bus_reaches p b q c" "dma_at q = Dma_99"
    "state_timeout q \<longleftrightarrow> bus_view p b ?a = None"
    "the_dma q = the_dma p" "dataptr q = dataptr p" "cur_wordsleft q = cur_wordsleft p"
    "d_sack q = (if cur_wordsleft p = 1 then False else d_sack p)" "dma_frame q = dma_frame p"
    "bus_view q c = (if bus_view p b ?a = None then bus_view p b else (bus_view p b)(?a \<mapsto> ?w))" "bus_timing_ok c"
    by (rule write_word [OF D(1-3) "Suc.prems"(2) D(4-7)])
  have len: "length (words_left (Suc (Suc n)) p) = Suc (Suc n)"
    using "Suc.prems"(1) by (auto simp: words_left_def dma_at_word_def)
  show ?case
  proof (cases "bus_view p b ?a")
    case None
    obtain r d where r: "bus_reaches q c r d" "dma_released r"
      "the_dma r = (the_dma q)\<lparr>cur_status := (if state_timeout q then DMA_STATE_TIMEOUTSTOP else DMA_STATE_READY)\<rparr>"
      "bus_view r d = bus_view q c" "shared r = (shared q)\<lparr>mbox_dma := the_dma r, ev_dma := True\<rparr>"
      "pru_config r = pru_config q"
      by (rule word_done_last [of q c]) (use q None in simp_all)
    have "dma_ended p r" by (rule dma_endedI [OF r(2,5) q(8) r(6)]) (simp_all add: r(3) q(4) dma_rest_def)
    moreover have "bus_view r d = fst (bus_write (bus_view p b) ?a (words_left (Suc (Suc n)) p)) \<and>
        write_result (bus_view p b) (words_left (Suc (Suc n)) p) p r"
      using q(3,4,9) r(3,4) None unfolding words_left_Suc [OF D(6)]
      by (auto simp: write_result_def intro: dma_timed_out_here)
    ultimately show ?thesis using bus_reaches_trans [OF q(1) r(1)] by metis
  next
    case (Some v)
    obtain r d where r: "bus_reaches q c r d" "dma_at r = Dma_1"
      "the_dma r = (the_dma q)\<lparr>cur_addr := cur_addr (the_dma q) + 2\<rparr>"
      "dataptr r = Suc (dataptr q)" "cur_wordsleft r = cur_wordsleft q - 1" "d_sack r = d_sack q"
      "dma_frame r = dma_frame q" "bus_view r d = bus_view q c" "bus_timing_ok d"
      by (rule word_done_next [of q c]) (use q D(8) Some in simp_all)
    have fr: "dma_frame r = dma_frame p" using r(7) q(8) by simp
    have td: "the_dma r = (the_dma p)\<lparr>cur_addr := ?a + 2\<rparr>" using r(3) q(4) by simp
    have td': "the_dma r = (the_dma p)\<lparr>cur_addr := ?a + 2, mbox_words := mbox_words (the_dma p)\<rparr>" using td by simp
    have "dma_at_word (Suc n) r d"
      by (rule dma_at_word_next [OF "Suc.prems"(1) fr r(2) td']) (use r q in simp_all)
    moreover have "buscycle (the_dma r) = QUNIBUS_CYCLE_DATO" using Suc.prems(2) td by simp
    ultimately obtain s e where s: "bus_reaches r d s e" "dma_ended r s"
        "bus_view s e = fst (bus_write (bus_view r d) (cur_addr (the_dma r)) (words_left (Suc n) r))"
        "write_result (bus_view r d) (words_left (Suc n) r) r s"
      using Suc.IH by blast
    have wl: "words_left (Suc (Suc n)) p = ?w # words_left (Suc n) r"
      unfolding words_left_Suc [OF D(6)] by (simp add: words_left_def r(4) q(5) td)
    have ll: "length (words_left (Suc n) r) = Suc n" using len unfolding wl by simp
    have v: "bus_view r d = (bus_view p b)(?a \<mapsto> ?w)" using r(8) q(9) Some by simp
    have "dma_ended p s" by (rule dma_ended_step [OF s(2) fr]) (simp_all add: td dma_rest_def)
    moreover have "bus_view s e = fst (bus_write (bus_view p b) ?a (words_left (Suc (Suc n)) p))"
      using s(3) Some unfolding wl v td by simp
    moreover have "write_result (bus_view p b) (words_left (Suc (Suc n)) p) p s"
      using s(4) Some unfolding wl v td write_result_def by (auto simp: ll intro: dma_timed_out_written)
    ultimately show ?thesis using bus_reaches_trans [OF bus_reaches_trans [OF q(1) r(1)] s(1)] by metis
  qed
qed

subsection \<open>One mailbox chunk\<close>

text \<open>
  What a mailbox that asks for a DMA must hold when the state machine is started: a number of
  words within the buffer, addresses of memory.
\<close>

definition dma_ready :: "dma_machine \<Rightarrow> dma_bus \<Rightarrow> bool" where
  "dma_ready p b \<longleftrightarrow> dma_at p = Dma_start \<and> address_overlay p = 0 \<and> bus_timing_ok b \<and>
     mbox_wordcount (the_dma p) \<noteq> 0 \<and> unat (mbox_wordcount (the_dma p)) \<le> length (mbox_words (the_dma p)) \<and>
     (\<forall>i<unat (mbox_wordcount (the_dma p)). memory_addr p (startaddr (the_dma p) + 2 * of_nat i))"

lemma dma_started:
  assumes "dma_ready p b"
  obtains q c n where "bus_reaches p b q c" "unat (mbox_wordcount (the_dma p)) = Suc n" "dma_at_word (Suc n) q c"
    "the_dma q = (the_dma p)\<lparr>cur_addr := startaddr (the_dma p), cur_status := DMA_STATE_RUNNING\<rparr>"
    "dataptr q = 0" "dma_frame q = dma_frame p" "bus_view q c = bus_view p b"
proof -
  let ?q = "sm_dma_start p" and ?c = "b\<lparr>waited := 0\<rparr>"
  have s: "bus_step p b = Some (?q, ?c)"
    using assms by (auto simp: dma_ready_def bus_step_def sm_dma_def sm_dma_start_def)
  have fr: "dma_frame ?q = dma_frame p" by (simp add: dma_frame_def sm_dma_start_def upd_dma_def upd_shared_def)
  obtain n where n: "unat (mbox_wordcount (the_dma p)) = Suc n"
    using assms by (cases "unat (mbox_wordcount (the_dma p))") (auto simp: dma_ready_def unat_eq_0)
  have td: "the_dma ?q = (the_dma p)\<lparr>cur_addr := startaddr (the_dma p), cur_status := DMA_STATE_RUNNING\<rparr>"
    by (simp add: sm_dma_start_def upd_dma_def upd_shared_def the_dma_def)
  have dw: "dma_at_word (Suc n) ?q ?c"
    using assms n td unfolding dma_at_word_def dma_ready_def dma_frame_D(2,3) [OF fr]
    by (simp add: sm_dma_start_def bus_timing_ok_def)
  have bv: "bus_view ?q ?c = bus_view p b"
    using dma_frame_D(1) [OF fr] by (simp add: bus_view_def fun_eq_iff sm_dma_start_def upd_dma_def upd_shared_def)
  show thesis
    by (rule that [OF bus_reaches_step [OF s] n dw td _ fr bv]) (simp add: sm_dma_start_def)
qed

text \<open>
  A read chunk: for every memory on the bus, every delay of the slaves below the
  timeout and every mailbox that asks for it, the DMA machine comes to its end, with the bus
  released and the event set; then either all words are in the mailbox as they are in memory, or the
  status is the timeout and the current address the first where nobody answered. Memory and the
  rest of the state shared with the ARM are as before.
\<close>

lemma dma_chunk_reads:
  assumes "dma_ready p b" "\<not> QUNIBUS_CYCLE_IS_DATO (buscycle (the_dma p))"
  shows "\<exists>q c. bus_reaches p b q c \<and> dma_ended p q \<and> bus_view q c = bus_view p b \<and>
    (let a = startaddr (the_dma p); n = unat (mbox_wordcount (the_dma p)) in
     case bus_read (bus_view p b) a n of
       None \<Rightarrow> dma_timed_out (bus_view p b) a n (the_dma q)
     | Some ws \<Rightarrow> cur_status (the_dma q) = DMA_STATE_READY \<and> cur_addr (the_dma q) = a + 2 * of_nat (n - 1) \<and>
         mbox_words (the_dma q) = ws @ drop n (mbox_words (the_dma p)))"
proof -
  obtain q c n where q: "bus_reaches p b q c" "unat (mbox_wordcount (the_dma p)) = Suc n" "dma_at_word (Suc n) q c"
    "the_dma q = (the_dma p)\<lparr>cur_addr := startaddr (the_dma p), cur_status := DMA_STATE_RUNNING\<rparr>"
    "dataptr q = 0" "dma_frame q = dma_frame p" "bus_view q c = bus_view p b"
    by (rule dma_started [OF assms(1)])
  have "\<not> QUNIBUS_CYCLE_IS_DATO (buscycle (the_dma q))" using assms(2) q(4) by simp
  from dma_read_loop [OF q(3) this] obtain r d where r: "bus_reaches q c r d" "dma_ended q r"
      "bus_view r d = bus_view q c" "read_result (bus_view q c) (Suc n) q r" by blast
  have "dma_ended p r" by (rule dma_ended_step [OF r(2) q(6)]) (simp_all add: q(4) dma_rest_def)
  moreover have "let a = startaddr (the_dma p); n = unat (mbox_wordcount (the_dma p)) in
     case bus_read (bus_view p b) a n of
       None \<Rightarrow> dma_timed_out (bus_view p b) a n (the_dma r)
     | Some ws \<Rightarrow> cur_status (the_dma r) = DMA_STATE_READY \<and> cur_addr (the_dma r) = a + 2 * of_nat (n - 1) \<and>
         mbox_words (the_dma r) = ws @ drop n (mbox_words (the_dma p))"
    using r(4) unfolding read_result_def q(2,4,5,7) Let_def by (simp del: bus_read.simps(2) split: option.split_asm option.split)
  ultimately show ?thesis using bus_reaches_trans [OF q(1) r(1)] r(3) q(7) by metis
qed


text \<open>
  A write chunk, under the same conditions: the machine comes to its end with the
  bus released; memory then holds the words of the mailbox up to the first address where
  nobody answers, the status is ready if there is none and else the timeout with that address.
\<close>

lemma dma_chunk_writes:
  assumes "dma_ready p b" "buscycle (the_dma p) = QUNIBUS_CYCLE_DATO"
  shows "\<exists>q c. bus_reaches p b q c \<and> dma_ended p q \<and>
    (let a = startaddr (the_dma p); ws = take (unat (mbox_wordcount (the_dma p))) (mbox_words (the_dma p)) in
     bus_view q c = fst (bus_write (bus_view p b) a ws) \<and> mbox_words (the_dma q) = mbox_words (the_dma p) \<and>
     (if snd (bus_write (bus_view p b) a ws) then cur_status (the_dma q) = DMA_STATE_READY \<and> cur_addr (the_dma q) = a + 2 * of_nat (length ws - 1)
      else dma_timed_out (bus_view p b) a (length ws) (the_dma q)))"
proof -
  obtain q c n where q: "bus_reaches p b q c" "unat (mbox_wordcount (the_dma p)) = Suc n" "dma_at_word (Suc n) q c"
    "the_dma q = (the_dma p)\<lparr>cur_addr := startaddr (the_dma p), cur_status := DMA_STATE_RUNNING\<rparr>"
    "dataptr q = 0" "dma_frame q = dma_frame p" "bus_view q c = bus_view p b"
    by (rule dma_started [OF assms(1)])
  have "buscycle (the_dma q) = QUNIBUS_CYCLE_DATO" using assms(2) q(4) by simp
  from dma_write_loop [OF q(3) this] obtain r d where r: "bus_reaches q c r d" "dma_ended q r"
      "bus_view r d = fst (bus_write (bus_view q c) (cur_addr (the_dma q)) (words_left (Suc n) q))"
      "write_result (bus_view q c) (words_left (Suc n) q) q r" by blast
  have w: "words_left (Suc n) q = take (unat (mbox_wordcount (the_dma p))) (mbox_words (the_dma p))"
    by (simp add: words_left_def q(2,4,5))
  have "dma_ended p r" by (rule dma_ended_step [OF r(2) q(6)]) (simp_all add: q(4) dma_rest_def)
  moreover have "let a = startaddr (the_dma p); ws = take (unat (mbox_wordcount (the_dma p))) (mbox_words (the_dma p)) in
     bus_view r d = fst (bus_write (bus_view p b) a ws) \<and> mbox_words (the_dma r) = mbox_words (the_dma p) \<and>
     (if snd (bus_write (bus_view p b) a ws) then cur_status (the_dma r) = DMA_STATE_READY \<and> cur_addr (the_dma r) = a + 2 * of_nat (length ws - 1)
      else dma_timed_out (bus_view p b) a (length ws) (the_dma r))"
    using r(3,4) unfolding write_result_def w q(4,7) Let_def by (simp split: if_split_asm)
  ultimately show ?thesis using bus_reaches_trans [OF q(1) r(1)] by metis
qed


end
