(* ===== verification/Device_DMA.thy ===== *)
theory Device_DMA
  imports PRU_Dma
begin

text \<open>
  The DMA of a device from end to end: \<^verbatim>\<open>qunibusadapter_c::DMA\<close> cuts the transfer into
  mailbox chunks, the PRU's DMA machine transfers each over the bus, the worker thread takes the
  chunk's result and starts the next. The theorem at the end is that, for a request alone in its
  table, this implements \<open>dma_spec\<close>, the contract the device models rest on.
\<close>

subsection \<open>Reads in two parts\<close>

lemma bus_read_add:
  "bus_read m a (i + j) = (case bus_read m a i of None \<Rightarrow> None
     | Some ws \<Rightarrow> map_option (\<lambda>vs. ws @ vs) (bus_read m (a + 2 * of_nat i) j))"
proof (induction i arbitrary: a)
  case (Suc i)
  have e: "a + 2 + 2 * of_nat i = a + 2 * of_nat (Suc i)" by (simp add: algebra_simps)
  show ?case
    by (cases "m a"; cases "bus_read m (a + 2) i"; cases "bus_read m (a + 2 * of_nat (Suc i)) j")
      (simp_all add: Suc.IH e [simplified] del: of_nat_Suc add: e)
next
  case 0
  show ?case by (cases "bus_read m a j") simp_all
qed

subsection \<open>A request alone in its table\<close>

definition lone_level :: "req_id \<Rightarrow> nat \<Rightarrow> req_id option \<Rightarrow> priority_request_level" where
  "lone_level r slot act = \<lparr>slot_request = (\<lambda>_. None)(slot \<mapsto> r), slot_request_mask = slot_bit slot, active = act\<rparr>"

definition idle_level :: priority_request_level where
  "idle_level = \<lparr>slot_request = (\<lambda>_. None), slot_request_mask = 0, active = None\<rparr>"

lemma bit_slot_bit: "bit (slot_bit slot) i \<longleftrightarrow> i = slot \<and> i < 32"
  by (auto simp: slot_bit_def bit_simps)

lemma builtin_ffs_slot:
  assumes "slot < 32"
  shows "builtin_ffs (slot_bit slot) = Suc slot" "slot_bit slot \<noteq> 0"
proof -
  have b: "bit (slot_bit slot) slot" using assms by (simp add: bit_slot_bit)
  then show nz: "slot_bit slot \<noteq> 0" by auto
  then obtain i where i: "builtin_ffs (slot_bit slot) = Suc i"
    using builtin_ffs_zero [of "slot_bit slot"] by (cases "builtin_ffs (slot_bit slot)") auto
  from builtin_ffs_Suc [OF i] show "builtin_ffs (slot_bit slot) = Suc slot" using i by (simp add: bit_slot_bit)
qed

lemma activate_lone:
  assumes "request_levels s l = lone_level r slot None" "slot < 32"
  shows "request_activate_lowest_slot l s = Some (Some r, upd_level l (\<lambda>prl. prl\<lparr>active := Some r\<rparr>) s)"
  using assms builtin_ffs_slot [OF assms(2)]
  by (simp add: request_activate_lowest_slot_def Let_def lone_level_def mask_matches_active_def)

lemma activate_idle:
  assumes "request_levels s l = idle_level"
  shows "request_activate_lowest_slot l s = Some (None, s)"
proof -
  have "upd_level l (\<lambda>prl. prl\<lparr>active := None\<rparr>) s = s"
    using assms by (intro adapter_state.equality) (simp_all add: upd_level_def idle_level_def fun_eq_iff)
  moreover have "builtin_ffs 0 = 0" by (simp add: builtin_ffs_zero)
  ultimately show ?thesis
    using assms by (simp add: request_activate_lowest_slot_def Let_def idle_level_def mask_matches_active_def)
qed

subsection \<open>Between two chunks\<close>

text \<open>A transfer of \<open>n\<close> words at \<open>a\<close> of which \<open>k\<close> are done.\<close>

definition dma_fits :: "u32 \<Rightarrow> u16 list \<Rightarrow> nat \<Rightarrow> bool" where
  "dma_fits a buf n \<longleftrightarrow> 0 < n \<and> n \<le> length buf \<and> unat a + 2 * n \<le> 0x40000"

definition chunk_count :: "nat \<Rightarrow> nat \<Rightarrow> nat" where "chunk_count n k = min 4096 (n - k)"

definition dma_request_at :: "nat \<Rightarrow> u8 \<Rightarrow> u32 \<Rightarrow> u16 list \<Rightarrow> nat \<Rightarrow> nat \<Rightarrow> request \<Rightarrow> bool" where
  "dma_request_at slot cycle a buf n k rq \<longleftrightarrow> req_class rq = Dma_request \<and> \<not> is_cpu_access rq \<and>
     level_index rq = 4 \<and> priority_slot rq = slot \<and> qunibus_control rq = cycle \<and>
     qunibus_start_addr rq = a \<and> chunk_qunibus_start_addr rq = a + 2 * of_nat k \<and>
     buffer rq = buf \<and> wordcount rq = of_nat n \<and> chunk_max_words rq = 4096 \<and> \<not> complete rq"

lemma half_of_double: "n < 2 ^ 31 \<Longrightarrow> (2 * of_nat n :: u32) div 2 = of_nat n"
  by (simp add: word_unat_eq_iff unat_div unat_word_ariths unat_of_nat)

lemma dma_request_at_D:
  assumes "dma_request_at slot cycle a buf n k rq" "k < n" "dma_fits a buf n"
  shows "wordcount_completed_chunks rq = of_nat k" "chunk_buffer_start rq = k"
    "min (chunk_max_words rq) (wordcount rq - wordcount_completed_chunks rq) = of_nat (chunk_count n k)"
proof -
  have b: "n < 2 ^ 18" "k < 2 ^ 18" using assms(2,3) by (auto simp: dma_fits_def)
  have h: "(2 * of_nat k :: u32) div 2 = of_nat k" by (rule half_of_double) (use b in simp)
  show c: "wordcount_completed_chunks rq = of_nat k"
    using assms(1) h by (simp add: wordcount_completed_chunks_def dma_request_at_def)
  show "chunk_buffer_start rq = k"
    using assms(1) h b by (simp add: chunk_buffer_start_def dma_request_at_def unat_of_nat)
  have "(of_nat n - of_nat k :: u32) = of_nat (n - k)" using assms(2) by (simp add: of_nat_diff)
  moreover have "min (4096 :: u32) (of_nat (n - k)) = of_nat (min 4096 (n - k))"
    using b by (auto simp: min_def word_le_nat_alt unat_of_nat)
  ultimately show "min (chunk_max_words rq) (wordcount rq - wordcount_completed_chunks rq) = of_nat (chunk_count n k)"
    using assms(1) c by (simp add: dma_request_at_def chunk_count_def)
qed

definition chunk_mailbox :: "u8 \<Rightarrow> u32 \<Rightarrow> u16 list \<Rightarrow> nat \<Rightarrow> nat \<Rightarrow> mailbox_dma \<Rightarrow> bool" where
  "chunk_mailbox cycle a buf n k mb \<longleftrightarrow> buscycle mb = cycle \<and> unat (mbox_wordcount mb) = chunk_count n k \<and>
     \<not> cpu_access mb \<and> startaddr mb = a + 2 * of_nat k \<and> length (mbox_words mb) = 4096 \<and>
     (cycle = QUNIBUS_CYCLE_DATO \<longrightarrow> take (chunk_count n k) (mbox_words mb) = take (chunk_count n k) (drop k buf))"

definition chunk_pending ::
    "req_id \<Rightarrow> nat \<Rightarrow> u8 \<Rightarrow> u32 \<Rightarrow> u16 list \<Rightarrow> nat \<Rightarrow> nat \<Rightarrow> worker_state \<Rightarrow> bool" where
  "chunk_pending r slot cycle a buf n k s \<longleftrightarrow> request_levels s 4 = lone_level r slot (Some r) \<and> slot < 32 \<and>
     bus s = UNIBUS \<and> dma_request_at slot cycle a buf n k (request_of s r) \<and> chunk_mailbox cycle a buf n k (mbox_dma s)"

text \<open>What the scheduler leaves alone: all but the request, its table, the mailbox and the command log.\<close>

definition other_state :: "worker_state \<Rightarrow> worker_state" where
  "other_state s = s\<lparr>request_of := (\<lambda>_. undefined), request_levels := (\<lambda>_. undefined),
     mbox_dma := undefined, arm2pru_log := [], ev_dma := False\<rparr>"

lemma other_state_D:
  assumes "other_state t = other_state s"
  shows "iopage_start_addr t = iopage_start_addr s" "register_handles t = register_handles s" "bus t = bus s"
  using arg_cong [OF assms, of iopage_start_addr] arg_cong [OF assms, of register_handles] arg_cong [OF assms, of bus]
  by (simp_all add: other_state_def)

lemma execute_chunk:
  assumes "request_levels s 4 = lone_level r slot (Some r)" "slot < 32" "bus s = UNIBUS"
    "dma_request_at slot cycle a buf n k (request_of s r)" "k < n" "dma_fits a buf n"
    "length (mbox_words (mbox_dma s)) = 4096" "cycle = QUNIBUS_CYCLE_DATI \<or> cycle = QUNIBUS_CYCLE_DATO"
  obtains t where "request_execute_active_on_PRU 4 s = Some t" "chunk_pending r slot cycle a buf n k t"
    "other_state t = other_state (s :: worker_state)"
proof -
  let ?rq = "request_of s r" and ?c = "chunk_count n k"
  note D = dma_request_at_D [OF assms(4,5,6)]
  have rq: "req_class ?rq = Dma_request" "qunibus_control ?rq = cycle" "buffer ?rq = buf" "\<not> is_cpu_access ?rq"
    "chunk_qunibus_start_addr ?rq = a + 2 * of_nat k"
    using assms(4) by (simp_all add: dma_request_at_def)
  have c: "0 < ?c" "?c \<le> 4096" "k + ?c \<le> length buf"
    using assms(5,6) by (auto simp: chunk_count_def dma_fits_def)
  have u: "unat (of_nat ?c :: u32) = ?c" using c(2) by (simp add: unat_of_nat)
  have uc: "unat (ucast (of_nat ?c :: u32) :: u16) = ?c" using c(2) by (simp add: unat_of_nat unsigned_ucast_eq take_bit_nat_eq_self)
  have nz: "(of_nat ?c :: u32) \<noteq> 0" using u c(1) by auto
  have sa: "dma_startaddr (?rq\<lparr>chunk_words := of_nat ?c\<rparr>) s = a + 2 * of_nat k"
    using assms(3) rq(5) by (simp add: dma_startaddr_def)
  have cb: "chunk_buffer_start (?rq\<lparr>chunk_words := of_nat ?c\<rparr>) = k"
    using D(2) by (simp add: chunk_buffer_start_def)
  define ws where "ws = (if QUNIBUS_CYCLE_IS_DATO cycle
    then take ?c (drop k buf) @ drop ?c (mbox_words (mbox_dma s)) else mbox_words (mbox_dma s))"
  have lt: "length (take ?c (drop k buf)) = ?c" using c(3) by simp
  have lws: "length ws = 4096" using lt c(2) assms(7) by (auto simp: ws_def)
  have out: "(if QUNIBUS_CYCLE_IS_DATO (qunibus_control (?rq\<lparr>chunk_words := of_nat ?c\<rparr>))
      then do { out \<leftarrow> buffer_load (buffer (?rq\<lparr>chunk_words := of_nat ?c\<rparr>))
                  (chunk_buffer_start (?rq\<lparr>chunk_words := of_nat ?c\<rparr>)) (unat (of_nat ?c :: u32));
                buffer_store (mbox_words (mbox_dma s)) 0 out }
      else Some (mbox_words (mbox_dma s))) = Some ws"
    unfolding cb u using c lt assms(7) rq(2,3) by (simp add: buffer_load_def buffer_store_def ws_def)
  let ?t = "s\<lparr>mbox_dma := \<lparr>cur_status = 0, buscycle = cycle, mbox_wordcount = ucast (of_nat ?c :: u32), cpu_access = False,
      cur_addr = cur_addr (mbox_dma s), startaddr = a + 2 * of_nat k, mbox_words = ws\<rparr>,
      arm2pru_log := arm2pru_log s @ [ARM2PRU_DMA],
      request_of := (request_of s)(r := ?rq\<lparr>chunk_words := of_nat ?c, executing_on_PRU := True\<rparr>)\<rparr>"
  have "execute_dma_on_PRU r s = Some ?t"
    unfolding execute_dma_on_PRU_def Let_def D(3) using nz rq out sa by simp
  then have x: "request_execute_active_on_PRU 4 s = Some ?t"
    using assms(1) by (simp add: request_execute_active_on_PRU_def lone_level_def)
  have w: "take ?c ws = take ?c (drop k buf)" if "cycle = QUNIBUS_CYCLE_DATO"
    using that lt by (simp add: ws_def QUNIBUS_CYCLE_IS_DATO_def QUNIBUS_CYCLE_DATO_def)
  have "dma_request_at slot cycle a buf n k (?rq\<lparr>chunk_words := of_nat ?c, executing_on_PRU := True\<rparr>)"
    using assms(4) by (simp add: dma_request_at_def)
  then have "chunk_pending r slot cycle a buf n k ?t"
    using assms(1,2,3) uc lws w by (simp add: chunk_pending_def chunk_mailbox_def)
  moreover have "other_state ?t = other_state s" by (simp add: other_state_def)
  ultimately show thesis using that [OF x] by blast
qed

subsection \<open>The worker takes the result of a chunk\<close>

lemma dma_no_more_chunks_lone:
  assumes "request_levels s 4 = lone_level r slot (Some r)" "slot < 32"
    "priority_slot (request_of s r) = slot" "\<not> is_cpu_access (request_of s r)"
  shows "\<exists>t. dma_no_more_chunks r s = Some t \<and> request_levels t 4 = idle_level \<and>
    request_of t r = (request_of s r)\<lparr>executing_on_PRU := False, complete := True\<rparr> \<and>
    mbox_dma t = mbox_dma s \<and> other_state t = other_state (s :: worker_state)"
proof -
  let ?t = "upd_request r (\<lambda>rq. rq\<lparr>executing_on_PRU := False, complete := True\<rparr>)
    (upd_level 4 (\<lambda>prl. prl\<lparr>slot_request := (slot_request prl)(slot := None),
       slot_request_mask := slot_request_mask prl AND NOT (slot_bit slot), active := None\<rparr>) s)"
  have m: "slot_bit slot AND NOT (slot_bit slot) = 0" by (simp add: bit_eq_iff bit_simps)
  have l: "request_levels ?t 4 = idle_level"
    using assms(1) m by (simp add: lone_level_def idle_level_def fun_eq_iff)
  have "request_active_complete 4 True s = Some ?t"
    using assms by (simp add: request_active_complete_def Let_def lone_level_def)
  then have "dma_no_more_chunks r s = Some ?t"
    using assms(4) activate_idle [OF l] by (simp add: dma_no_more_chunks_def activate_and_execute_def)
  with l show ?thesis
    by (intro exI [of _ ?t]) (simp add: other_state_def, simp add: upd_request_def upd_level_def)
qed

lemma addr18_untagged:
  assumes "(x :: u32) AND 0x3ffff = x"
  shows "x AND NOT QUNIBUS_IOPAGE_ADDR_BITMASK = x"
proof -
  have "x AND NOT QUNIBUS_IOPAGE_ADDR_BITMASK = x AND (0x3ffff AND NOT QUNIBUS_IOPAGE_ADDR_BITMASK)"
    by (subst assms [symmetric]) (simp only: and.assoc)
  also have "(0x3ffff :: u32) AND NOT QUNIBUS_IOPAGE_ADDR_BITMASK = 0x3ffff"
    by (simp add: QUNIBUS_IOPAGE_ADDR_BITMASK_def)
  finally show ?thesis using assms by simp
qed

definition chunk_result :: "u8 \<Rightarrow> u16 list \<Rightarrow> nat \<Rightarrow> nat \<Rightarrow> u16 list \<Rightarrow> u16 list" where
  "chunk_result cycle buf k c ws =
     (if QUNIBUS_CYCLE_IS_DATI cycle then take k buf @ take c ws @ drop (k + c) buf else buf)"

text \<open>The state the PRU leaves when the chunk that was pending in \<open>s0\<close> has ended.\<close>

definition chunk_ended :: "worker_state \<Rightarrow> mailbox_dma \<Rightarrow> worker_state \<Rightarrow> bool" where
  "chunk_ended s0 mb s \<longleftrightarrow> s = s0\<lparr>mbox_dma := mb, ev_dma := True\<rparr> \<and> dma_rest mb = dma_rest (mbox_dma s0) \<and>
     length (mbox_words mb) = 4096 \<and> cur_addr mb AND 0x3ffff = cur_addr mb"

lemma dma_rest_D:
  assumes "dma_rest mb = dma_rest mb'"
  shows "buscycle mb = buscycle mb'" "mbox_wordcount mb = mbox_wordcount mb'" "cpu_access mb = cpu_access mb'"
    "startaddr mb = startaddr mb'"
  using arg_cong [OF assms, of buscycle] arg_cong [OF assms, of mbox_wordcount] arg_cong [OF assms, of cpu_access]
    arg_cong [OF assms, of startaddr] by (simp_all add: dma_rest_def)

lemma round_dma_chunk:
  assumes "chunk_pending r slot cycle a buf n k s0" "chunk_ended s0 mb s" "k < n" "dma_fits a buf n"
  obtains mb' where "round_dma s = map_option (\<lambda>t. t\<lparr>ev_dma := False\<rparr>)
      (dma_chunk_done r ((request_of s0 r)\<lparr>qunibus_end_addr := cur_addr mb,
          buffer := chunk_result cycle buf k (chunk_count n k) (mbox_words mb)\<rparr>)
        (of_nat (k + chunk_count n k)) (s\<lparr>mbox_dma := mb'\<rparr>))"
    "cur_status mb' = cur_status mb" "cur_addr mb' = cur_addr mb" "length (mbox_words mb') = 4096"
proof -
  let ?rq = "request_of s0 r" and ?c = "chunk_count n k" and ?mb = "untagged_mailbox mb"
  have s: "s = s0\<lparr>mbox_dma := mb, ev_dma := True\<rparr>" and rest: "dma_rest mb = dma_rest (mbox_dma s0)"
    and len: "length (mbox_words mb) = 4096" and ca: "cur_addr mb AND 0x3ffff = cur_addr mb"
    using assms(2) by (auto simp: chunk_ended_def)
  have rq: "dma_request_at slot cycle a buf n k ?rq" and cm: "chunk_mailbox cycle a buf n k (mbox_dma s0)"
    and act: "active (request_levels s0 4) = Some r"
    using assms(1) by (auto simp: chunk_pending_def lone_level_def)
  note D = dma_request_at_D [OF rq assms(3,4)]
  have mb: "buscycle ?mb = cycle" "unat (mbox_wordcount ?mb) = ?c" "mbox_words ?mb = mbox_words mb"
    "cur_addr ?mb = cur_addr mb" "\<not> cpu_access mb" "cur_status ?mb = cur_status mb"
    using cm dma_rest_D [OF rest] addr18_untagged [OF ca] by (auto simp: untagged_mailbox_def chunk_mailbox_def)
  have c: "?c \<le> 4096" "k + ?c \<le> n" "n \<le> length buf" "n < 2 ^ 18"
    using assms(3,4) by (auto simp: chunk_count_def dma_fits_def)
  have tr: "wordcount_completed_chunks ?rq + ucast (mbox_wordcount ?mb) = of_nat (k + ?c)"
    using D(1) mb(2) by (metis of_nat_add of_nat_unat)
  have le: "(of_nat (k + ?c) :: u32) \<le> wordcount ?rq"
    using rq c by (simp add: dma_request_at_def word_le_nat_alt unat_of_nat del: of_nat_add)
  have r': "req_class ?rq = Dma_request" "\<not> is_cpu_access ?rq" "buffer ?rq = buf"
    using rq by (simp_all add: dma_request_at_def)
  have data: "dma_chunk_data ?rq ?mb = Some (chunk_result cycle buf k ?c (mbox_words mb))"
    unfolding dma_chunk_data_def mb(1-3) D(2) r'(3) using c len
    by (simp add: buffer_load_def buffer_store_def chunk_result_def)
  have "worker_device_dma_chunk_complete_event s =
      dma_chunk_done r (?rq\<lparr>qunibus_end_addr := cur_addr mb, buffer := chunk_result cycle buf k ?c (mbox_words mb)\<rparr>)
        (of_nat (k + ?c)) (s\<lparr>mbox_dma := ?mb\<rparr>)"
    using act tr le r' data mb(4)
    by (simp add: worker_device_dma_chunk_complete_event_def s Let_def del: of_nat_add)
  then have "round_dma s = map_option (\<lambda>t. t\<lparr>ev_dma := False\<rparr>)
      (dma_chunk_done r (?rq\<lparr>qunibus_end_addr := cur_addr mb, buffer := chunk_result cycle buf k ?c (mbox_words mb)\<rparr>)
        (of_nat (k + ?c)) (s\<lparr>mbox_dma := ?mb\<rparr>))"
    using mb(5) by (simp add: round_dma_def s map_conv_bind_option o_def del: of_nat_add)
  then show thesis by (rule that) (use mb len in simp_all)
qed

lemma round_dma_ends:
  assumes "chunk_pending r slot cycle a buf n k s0" "chunk_ended s0 mb s" "k < n" "dma_fits a buf n"
    "cur_status mb \<noteq> DMA_STATE_READY \<or> k + chunk_count n k = n"
  obtains t where "round_dma s = Some t" "complete (request_of t r)"
    "success (request_of t r) \<longleftrightarrow> cur_status mb = DMA_STATE_READY"
    "buffer (request_of t r) = chunk_result cycle buf k (chunk_count n k) (mbox_words mb)"
    "request_levels t 4 = idle_level" "other_state t = other_state s"
proof -
  let ?b = "chunk_result cycle buf k (chunk_count n k) (mbox_words mb)" and ?c = "chunk_count n k"
  let ?rq = "(request_of s0 r)\<lparr>qunibus_end_addr := cur_addr mb, buffer := ?b\<rparr>"
  obtain mb' where m: "round_dma s = map_option (\<lambda>t. t\<lparr>ev_dma := False\<rparr>)
      (dma_chunk_done r ?rq (of_nat (k + ?c)) (s\<lparr>mbox_dma := mb'\<rparr>))"
    "cur_status mb' = cur_status mb" "cur_addr mb' = cur_addr mb" "length (mbox_words mb') = 4096"
    by (rule round_dma_chunk [OF assms(1-4)])
  let ?ok = "cur_status mb = DMA_STATE_READY"
  let ?s = "upd_request r (\<lambda>_. ?rq\<lparr>success := ?ok\<rparr>) (s\<lparr>mbox_dma := mb'\<rparr>)"
  have rq: "dma_request_at slot cycle a buf n k (request_of s0 r)" using assms(1) by (simp add: chunk_pending_def)
  have s: "s = s0\<lparr>mbox_dma := mb, ev_dma := True\<rparr>" using assms(2) by (simp add: chunk_ended_def)
  have "\<exists>t. dma_no_more_chunks r ?s = Some t \<and> request_levels t 4 = idle_level \<and>
      request_of t r = (request_of ?s r)\<lparr>executing_on_PRU := False, complete := True\<rparr> \<and>
      mbox_dma t = mbox_dma ?s \<and> other_state t = other_state ?s"
    by (rule dma_no_more_chunks_lone [where slot = slot])
      (use assms(1) rq s in \<open>simp_all add: chunk_pending_def dma_request_at_def\<close>)
  then obtain t where t: "dma_no_more_chunks r ?s = Some t" "request_levels t 4 = idle_level"
      "request_of t r = (request_of ?s r)\<lparr>executing_on_PRU := False, complete := True\<rparr>"
      "other_state t = other_state ?s" by blast
  have w: "wordcount ?rq = of_nat n" using rq by (simp add: dma_request_at_def)
  have "dma_chunk_done r ?rq (of_nat (k + ?c)) (s\<lparr>mbox_dma := mb'\<rparr>) = Some t"
    using assms(5) t(1) m(2) w unfolding dma_chunk_done_def by (auto simp del: of_nat_add)
  then have "round_dma s = Some (t\<lparr>ev_dma := False\<rparr>)" using m(1) by simp
  then show thesis
    by (rule that) (use t(2-4) in \<open>simp_all, simp add: other_state_def upd_request_def\<close>)
qed

lemma round_dma_continues:
  assumes "chunk_pending r slot cycle a buf n k s0" "chunk_ended s0 mb s" "k < n" "dma_fits a buf n"
    "cur_status mb = DMA_STATE_READY" "k + chunk_count n k < n"
    "cur_addr mb = a + 2 * of_nat k + 2 * of_nat (chunk_count n k - 1)"
    "cycle = QUNIBUS_CYCLE_DATI \<or> cycle = QUNIBUS_CYCLE_DATO"
  obtains t where "round_dma s = Some t"
    "chunk_pending r slot cycle a (chunk_result cycle buf k (chunk_count n k) (mbox_words mb)) n (k + chunk_count n k) t"
    "other_state t = other_state s"
proof -
  let ?b = "chunk_result cycle buf k (chunk_count n k) (mbox_words mb)" and ?c = "chunk_count n k"
  let ?rq = "(request_of s0 r)\<lparr>qunibus_end_addr := cur_addr mb, buffer := ?b\<rparr>"
  obtain mb' where m: "round_dma s = map_option (\<lambda>t. t\<lparr>ev_dma := False\<rparr>)
      (dma_chunk_done r ?rq (of_nat (k + ?c)) (s\<lparr>mbox_dma := mb'\<rparr>))"
    "cur_status mb' = cur_status mb" "cur_addr mb' = cur_addr mb" "length (mbox_words mb') = 4096"
    by (rule round_dma_chunk [OF assms(1-4)])
  have rq: "dma_request_at slot cycle a buf n k (request_of s0 r)" and sl: "slot < 32"
    and lv: "request_levels s0 4 = lone_level r slot (Some r)" and ub: "bus s0 = UNIBUS"
    using assms(1) by (simp_all add: chunk_pending_def)
  have s: "s = s0\<lparr>mbox_dma := mb, ev_dma := True\<rparr>" and len: "length (mbox_words mb) = 4096"
    using assms(2) by (simp_all add: chunk_ended_def)
  have c: "0 < ?c" "?c \<le> 4096" "n \<le> length buf" "n < 2 ^ 18" using assms(3,4) by (auto simp: chunk_count_def dma_fits_def)
  let ?s = "upd_request r (\<lambda>_. ?rq\<lparr>chunk_qunibus_start_addr := cur_addr mb + 2\<rparr>) (s\<lparr>mbox_dma := mb'\<rparr>)"
  let ?s2 = "upd_level 4 (\<lambda>prl. prl\<lparr>active := None\<rparr>) ?s"
  let ?s3 = "upd_level 4 (\<lambda>prl. prl\<lparr>active := Some r\<rparr>) ?s2"
  have a2: "request_levels ?s2 4 = lone_level r slot None" using lv s by (simp add: lone_level_def)
  have lb: "length ?b = length buf" using c assms(6) len by (simp add: chunk_result_def)
  have next_addr: "cur_addr mb + 2 = a + 2 * of_nat (k + ?c)"
    using assms(7) c(1) by (cases ?c) (simp_all add: algebra_simps)
  have r3: "dma_request_at slot cycle a ?b n (k + ?c) (request_of ?s3 r)"
    using rq next_addr by (simp add: dma_request_at_def del: of_nat_add)
  have fits: "dma_fits a ?b n" using assms(4) lb by (simp add: dma_fits_def)
  obtain t where t: "request_execute_active_on_PRU 4 ?s3 = Some t" "chunk_pending r slot cycle a ?b n (k + ?c) t"
      "other_state t = other_state ?s3"
    by (rule execute_chunk [of ?s3 r slot cycle a ?b n "k + ?c"])
      (use r3 fits lv ub sl assms(6,8) m(4) s in \<open>simp_all add: lone_level_def\<close>)
  have w: "wordcount ?rq = of_nat n" "\<not> is_cpu_access ?rq" using rq by (simp_all add: dma_request_at_def)
  have ne: "(of_nat (k + ?c) :: u32) \<noteq> of_nat n"
    using assms(6) c(4) by (simp add: word_unat_eq_iff unat_of_nat del: of_nat_add)
  have "dma_chunk_done r ?rq (of_nat (k + ?c)) (s\<lparr>mbox_dma := mb'\<rparr>) = Some t"
    unfolding dma_chunk_done_def using assms(5) m(2,3) w ne activate_lone [OF a2 sl] t(1)
    by (simp del: of_nat_add)
  then have "round_dma s = Some (t\<lparr>ev_dma := False\<rparr>)" using m(1) by simp
  then show thesis
    by (rule that) (use t(2,3) in \<open>simp_all add: chunk_pending_def\<close>, simp add: other_state_def upd_request_def upd_level_def)
qed

subsection \<open>All chunks\<close>

text \<open>
  PRU and worker in turn until the request is complete: the PRU's main loop starts the DMA
  machine for the command it finds, the machine runs to its end, the worker handles the event.
\<close>

inductive dma_served :: "req_id \<Rightarrow> dma_machine \<Rightarrow> dma_bus \<Rightarrow> dma_machine \<Rightarrow> dma_bus \<Rightarrow> bool" where
  finished: "complete (request_of (shared p) r) \<Longrightarrow> dma_served r p b p b"
| chunk: "\<not> complete (request_of (shared p) r) \<Longrightarrow> bus_reaches (p\<lparr>dma_at := Dma_start\<rparr>) b p1 b1 \<Longrightarrow>
    dma_at p1 = Dma_stopped \<Longrightarrow> round_dma (shared p1) = Some s2 \<Longrightarrow>
    dma_served r (p1\<lparr>shared := s2\<rparr>) b1 q c \<Longrightarrow> dma_served r p b q c"

definition dma_environment :: "u32 \<Rightarrow> nat \<Rightarrow> dma_machine \<Rightarrow> dma_bus \<Rightarrow> bool" where
  "dma_environment a n p b \<longleftrightarrow> bus_timing_ok b \<and> address_overlay p = 0 \<and> (\<forall>i<n. memory_addr p (a + 2 * of_nat i))"

lemma dma_environment_cong:
  assumes "dma_environment a n p b" "pru_config q = pru_config p" "bus_timing_ok c"
    "other_state (shared q) = other_state (shared p)"
  shows "dma_environment a n q c"
  using assms other_state_D [OF assms(4)]
  by (auto simp: dma_environment_def pru_config_def memory_addr_def in_memory_def)

lemma bus_view_cong:
  "memory_start_addr q = memory_start_addr p \<Longrightarrow> memory_limit_addr q = memory_limit_addr p \<Longrightarrow>
   ddr_words q = ddr_words p \<Longrightarrow> bus_view q b = bus_view p b"
  by (simp add: bus_view_def in_memory_def fun_eq_iff)

lemma pending_ready:
  assumes "chunk_pending r slot cycle a buf n k (shared p)" "k < n" "dma_environment a n p b"
  shows "dma_ready (p\<lparr>dma_at := Dma_start\<rparr>) b" "the_dma (p\<lparr>dma_at := Dma_start\<rparr>) = mbox_dma (shared p)"
    "bus_view (p\<lparr>dma_at := Dma_start\<rparr>) b = bus_view p b"
proof -
  let ?p = "p\<lparr>dma_at := Dma_start\<rparr>"
  show t: "the_dma ?p = mbox_dma (shared p)" by (simp add: the_dma_def)
  show "bus_view ?p b = bus_view p b" by (rule bus_view_cong) simp_all
  have m: "memory_addr ?p x = memory_addr p x" for x by (simp add: memory_addr_def in_memory_def)
  have cm: "chunk_mailbox cycle a buf n k (mbox_dma (shared p))" using assms(1) by (simp add: chunk_pending_def)
  have c: "0 < chunk_count n k" "chunk_count n k \<le> 4096" "k + chunk_count n k \<le> n" using assms(2) by (auto simp: chunk_count_def)
  have e: "a + 2 * of_nat k + 2 * of_nat i = a + 2 * of_nat (k + i)" for i by (simp add: algebra_simps)
  have "memory_addr p (a + 2 * of_nat k + 2 * of_nat i)" if "i < chunk_count n k" for i
  proof -
    have "k + i < n" using that c(3) by simp
    then show ?thesis using assms(3) unfolding e dma_environment_def by blast
  qed
  moreover have "mbox_wordcount (mbox_dma (shared p)) \<noteq> 0" using cm c(1) by (auto simp: chunk_mailbox_def)
  ultimately show "dma_ready ?p b"
    using cm c(2) assms(3) m unfolding dma_ready_def t by (simp add: chunk_mailbox_def dma_environment_def)
qed

lemma ended_chunk:
  assumes "dma_ended (p\<lparr>dma_at := Dma_start\<rparr>) q" "chunk_pending r slot cycle a buf n k (shared p)"
    "cur_addr (the_dma q) AND 0x3ffff = cur_addr (the_dma q)"
  shows "chunk_ended (shared p) (the_dma q) (shared q)" "dma_at q = Dma_stopped" "pru_config q = pru_config p"
proof -
  have "dma_rest (the_dma q) = dma_rest (mbox_dma (shared p))" "length (mbox_words (the_dma q)) = length (mbox_words (mbox_dma (shared p)))"
    "shared q = (shared p)\<lparr>mbox_dma := the_dma q, ev_dma := True\<rparr>" "dma_at q = Dma_stopped" "pru_config q = pru_config p"
    using assms(1) by (simp_all add: dma_ended_def dma_released_def the_dma_def pru_config_def)
  moreover have "length (mbox_words (mbox_dma (shared p))) = 4096"
    using assms(2) by (simp add: chunk_pending_def chunk_mailbox_def)
  ultimately show "chunk_ended (shared p) (the_dma q) (shared q)" "dma_at q = Dma_stopped" "pru_config q = pru_config p"
    using assms(3) by (simp_all add: chunk_ended_def)
qed

text \<open>What a whole transfer must have done when \<open>k\<close> words were done before.\<close>

definition transfer_result ::
    "u8 \<Rightarrow> u32 \<Rightarrow> u16 list \<Rightarrow> nat \<Rightarrow> nat \<Rightarrow> bus_memory \<Rightarrow> bool \<Rightarrow> u16 list \<Rightarrow> bus_memory \<Rightarrow> bool" where
  "transfer_result cycle a buf n k m ok buf' m' \<longleftrightarrow>
     (if cycle = QUNIBUS_CYCLE_DATO
      then (m', ok) = bus_write m (a + 2 * of_nat k) (take (n - k) (drop k buf)) \<and> buf' = buf
      else m' = m \<and> (case bus_read m (a + 2 * of_nat k) (n - k) of
          None \<Rightarrow> \<not> ok | Some ws \<Rightarrow> ok \<and> buf' = take k buf @ ws @ drop n buf))"

lemma cycle_classes:
  "\<not> QUNIBUS_CYCLE_IS_DATO QUNIBUS_CYCLE_DATI" "QUNIBUS_CYCLE_DATI \<noteq> QUNIBUS_CYCLE_DATO"
  "QUNIBUS_CYCLE_IS_DATI QUNIBUS_CYCLE_DATI" "\<not> QUNIBUS_CYCLE_IS_DATI QUNIBUS_CYCLE_DATO"
  "QUNIBUS_CYCLE_IS_DATO QUNIBUS_CYCLE_DATO"
  by (simp_all add: QUNIBUS_CYCLE_DATI_def QUNIBUS_CYCLE_DATO_def QUNIBUS_CYCLE_IS_DATO_def QUNIBUS_CYCLE_IS_DATI_def)

text \<open>One chunk as the scheduler sees it: it fails, or it has transferred its words.\<close>

lemma chunk_transfer:
  assumes "chunk_pending r slot cycle a buf n k (shared p)" "k < n" "dma_fits a buf n" "dma_environment a n p b"
    "cycle = QUNIBUS_CYCLE_DATI \<or> cycle = QUNIBUS_CYCLE_DATO"
  obtains q c where "bus_reaches (p\<lparr>dma_at := Dma_start\<rparr>) b q c" "dma_at q = Dma_stopped" "pru_config q = pru_config p"
    "bus_timing_ok c" "chunk_ended (shared p) (the_dma q) (shared q)"
    "transfer_result cycle a buf (k + chunk_count n k) k (bus_view p b) (cur_status (the_dma q) = DMA_STATE_READY)
       (chunk_result cycle buf k (chunk_count n k) (mbox_words (the_dma q))) (bus_view q c)"
    "cur_status (the_dma q) = DMA_STATE_READY \<Longrightarrow>
       cur_addr (the_dma q) = a + 2 * of_nat k + 2 * of_nat (chunk_count n k - 1)"
proof -
  let ?p = "p\<lparr>dma_at := Dma_start\<rparr>" and ?c = "chunk_count n k" and ?a = "a + 2 * of_nat k"
  note R = pending_ready [OF assms(1,2,4)]
  have cm: "chunk_mailbox cycle a buf n k (mbox_dma (shared p))" using assms(1) by (simp add: chunk_pending_def)
  then have mb: "buscycle (the_dma ?p) = cycle" "startaddr (the_dma ?p) = ?a" "unat (mbox_wordcount (the_dma ?p)) = ?c"
      "length (mbox_words (the_dma ?p)) = 4096"
    by (simp_all add: R(2) chunk_mailbox_def)
  have c: "0 < ?c" "?c \<le> 4096" "k + ?c \<le> n" "n \<le> length buf" using assms(2,3) by (auto simp: chunk_count_def dma_fits_def)
  have a18: "x AND 0x3ffff = x" if "x = ?a + 2 * of_nat i" "i < ?c" for x :: u32 and i
  proof -
    have e: "x = a + 2 * of_nat (k + i)" using that(1) by (simp add: algebra_simps)
    have "k + i < n" using that(2) c(3) by simp
    then have "memory_addr p x" using assms(4) unfolding e dma_environment_def by blast
    then show ?thesis by (simp add: memory_addr_def)
  qed
  have to: "dma_timed_out m ?a ?c mb' \<Longrightarrow> cur_status mb' \<noteq> DMA_STATE_READY \<and> cur_addr mb' AND 0x3ffff = cur_addr mb'" for m mb'
    using a18 unfolding dma_timed_out_def by (auto simp: DMA_STATE_TIMEOUTSTOP_def DMA_STATE_READY_def)
  have last: "?c - 1 < ?c" using c(1) by simp
  from assms(5) show thesis
  proof
    assume cyc: "cycle = QUNIBUS_CYCLE_DATI"
    have "\<not> QUNIBUS_CYCLE_IS_DATO (buscycle (the_dma ?p))" unfolding mb(1) cyc by (rule cycle_classes(1))
    from dma_chunk_reads [OF R(1) this] obtain q d where q: "bus_reaches ?p b q d" "dma_ended ?p q" "bus_view q d = bus_view ?p b"
      "case bus_read (bus_view ?p b) ?a ?c of
       None \<Rightarrow> dma_timed_out (bus_view ?p b) ?a ?c (the_dma q)
     | Some ws \<Rightarrow> cur_status (the_dma q) = DMA_STATE_READY \<and> cur_addr (the_dma q) = ?a + 2 * of_nat (?c - 1) \<and>
         mbox_words (the_dma q) = ws @ drop ?c (mbox_words (the_dma ?p))"
      unfolding mb(2,3) Let_def by blast
    have lw: "bus_read (bus_view ?p b) ?a ?c = Some ws \<Longrightarrow> length ws = ?c" for ws by (rule bus_read_length)
    have ca: "cur_addr (the_dma q) AND 0x3ffff = cur_addr (the_dma q)"
      using q(4) to a18 [OF _ last] by (auto split: option.splits)
    have tr: "transfer_result cycle a buf (k + ?c) k (bus_view p b) (cur_status (the_dma q) = DMA_STATE_READY)
       (chunk_result cycle buf k ?c (mbox_words (the_dma q))) (bus_view q d)"
      using q(3,4) lw to unfolding R(3) cyc
      by (auto simp: transfer_result_def chunk_result_def cycle_classes split: option.splits)
    show thesis
      by (rule that [OF q(1) ended_chunk(2,3) [OF q(2) assms(1) ca] _ ended_chunk(1) [OF q(2) assms(1) ca] tr])
        (use q(4) to bus_reaches_timing [OF q(1)] assms(4) in \<open>auto simp: dma_environment_def split: option.splits\<close>)
  next
    assume cyc: "cycle = QUNIBUS_CYCLE_DATO"
    let ?ws = "take ?c (mbox_words (the_dma ?p))"
    have wl: "?ws = take ?c (drop k buf)" using cm cyc by (simp add: R(2) chunk_mailbox_def)
    have lw: "length (take ?c (drop k buf)) = ?c" using c by simp
    have "buscycle (the_dma ?p) = QUNIBUS_CYCLE_DATO" unfolding mb(1) cyc ..
    from dma_chunk_writes [OF R(1) this] obtain q d where q: "bus_reaches ?p b q d" "dma_ended ?p q"
     "bus_view q d = fst (bus_write (bus_view ?p b) ?a (take ?c (drop k buf)))"
     "if snd (bus_write (bus_view ?p b) ?a (take ?c (drop k buf)))
      then cur_status (the_dma q) = DMA_STATE_READY \<and> cur_addr (the_dma q) = ?a + 2 * of_nat (?c - 1)
      else dma_timed_out (bus_view ?p b) ?a ?c (the_dma q)"
      unfolding mb(2,3) Let_def wl lw by blast
    have ca: "cur_addr (the_dma q) AND 0x3ffff = cur_addr (the_dma q)"
      using q(4) to a18 [OF _ last] by (auto split: if_splits)
    have tr: "transfer_result cycle a buf (k + ?c) k (bus_view p b) (cur_status (the_dma q) = DMA_STATE_READY)
       (chunk_result cycle buf k ?c (mbox_words (the_dma q))) (bus_view q d)"
      using q(3,4) to unfolding R(3) cyc
      by (auto simp: transfer_result_def chunk_result_def cycle_classes prod_eq_iff split: if_splits)
    show thesis
      by (rule that [OF q(1) ended_chunk(2,3) [OF q(2) assms(1) ca] _ ended_chunk(1) [OF q(2) assms(1) ca] tr])
        (use q(4) to bus_reaches_timing [OF q(1)] assms(4) in \<open>auto simp: dma_environment_def split: if_splits\<close>)
  qed
qed

lemma transfer_result_extend:
  assumes "transfer_result cycle a buf (k + c) k m True buf1 m1" "k + c \<le> n" "n \<le> length buf"
    "transfer_result cycle a buf1 n (k + c) m1 ok buf2 m2"
  shows "transfer_result cycle a buf n k m ok buf2 m2"
proof (cases "cycle = QUNIBUS_CYCLE_DATO")
  case True
  let ?a = "a + 2 * of_nat k" and ?xs = "take c (drop k buf)" and ?ys = "take (n - (k + c)) (drop (k + c) buf)"
  have h: "(m1, True) = bus_write m ?a ?xs" "buf1 = buf" "(m2, ok) = bus_write m1 (a + 2 * of_nat (k + c)) ?ys" "buf2 = buf"
    using assms(1,4) True by (auto simp: transfer_result_def)
  have l: "length ?xs = c" using assms(2,3) by simp
  have e: "?a + 2 * of_nat c = a + 2 * of_nat (k + c)" by (simp add: algebra_simps)
  have t: "take (n - k) (drop k buf) = ?xs @ ?ys"
    using assms(2) take_add [of c "n - (k + c)" "drop k buf"] by (simp add: add.commute)
  have "bus_write m ?a (take (n - k) (drop k buf)) = (m2, ok)"
    unfolding t bus_write_append l e using h(1,3) by (simp add: prod_eq_iff del: of_nat_add)
  then show ?thesis using True h(4) by (simp add: transfer_result_def)
next
  case False
  let ?a = "a + 2 * of_nat k"
  have e: "?a + 2 * of_nat c = a + 2 * of_nat (k + c)" by (simp add: algebra_simps)
  obtain ws where ws: "bus_read m ?a c = Some ws" "buf1 = take k buf @ ws @ drop (k + c) buf" "m1 = m"
    using assms(1) False by (auto simp: transfer_result_def split: option.splits)
  have lw: "length ws = c" using ws(1) by (rule bus_read_length)
  have "bus_read m ?a (n - k) = (case bus_read m (a + 2 * of_nat (k + c)) (n - (k + c)) of
      None \<Rightarrow> None | Some vs \<Rightarrow> Some (ws @ vs))"
    using bus_read_add [of m ?a c "n - (k + c)"] assms(2) ws(1) unfolding e
    by (simp split: option.splits)
  then show ?thesis
    using assms(2-4) False ws lw by (auto simp: transfer_result_def split: option.splits)
qed

lemma transfer_result_fail:
  assumes "transfer_result cycle a buf (k + c) k m False buf1 m1" "k + c \<le> n" "n \<le> length buf"
  shows "transfer_result cycle a buf n k m False buf1 m1"
proof (cases "cycle = QUNIBUS_CYCLE_DATO")
  case True
  let ?xs = "take c (drop k buf)"
  have h: "(m1, False) = bus_write m (a + 2 * of_nat k) ?xs" "buf1 = buf"
    using assms(1) True by (auto simp: transfer_result_def)
  have "take (n - k) (drop k buf) = ?xs @ take (n - (k + c)) (drop (k + c) buf)"
    using assms(2) take_add [of c "n - (k + c)" "drop k buf"] by (simp add: add.commute)
  then show ?thesis using True h by (simp add: transfer_result_def bus_write_append) (metis snd_conv)
next
  case False
  have "bus_read m (a + 2 * of_nat k) c = None" "m1 = m"
    using assms(1) False by (auto simp: transfer_result_def split: option.splits)
  then show ?thesis
    using False bus_read_add [of m "a + 2 * of_nat k" c "n - (k + c)"] assms(2)
    by (simp add: transfer_result_def)
qed

lemma transfer_result_length:
  assumes "transfer_result cycle a buf (k + c) k m ok buf1 m1" "ok" "k + c \<le> length buf"
  shows "length buf1 = length buf"
  using assms bus_read_length by (fastforce simp: transfer_result_def split: option.splits if_splits)

definition served ::
    "req_id \<Rightarrow> u8 \<Rightarrow> u32 \<Rightarrow> u16 list \<Rightarrow> nat \<Rightarrow> nat \<Rightarrow> dma_machine \<Rightarrow> dma_bus \<Rightarrow> dma_machine \<Rightarrow> dma_bus \<Rightarrow> bool" where
  "served r cycle a buf n k p b q c \<longleftrightarrow> dma_served r p b q c \<and> complete (request_of (shared q) r) \<and>
     request_levels (shared q) 4 = idle_level \<and> other_state (shared q) = other_state (shared p) \<and>
     transfer_result cycle a buf n k (bus_view p b) (success (request_of (shared q) r)) (buffer (request_of (shared q) r)) (bus_view q c)"

lemma dma_loop:
  assumes "chunk_pending r slot cycle a buf n k (shared p)" "k < n" "dma_fits a buf n" "dma_environment a n p b"
    "cycle = QUNIBUS_CYCLE_DATI \<or> cycle = QUNIBUS_CYCLE_DATO"
  shows "\<exists>q c. served r cycle a buf n k p b q c"
  using assms(1-4)
proof (induction "n - k" arbitrary: k buf p b rule: less_induct)
  case less
  let ?c = "chunk_count n k"
  obtain p1 b1 where p1: "bus_reaches (p\<lparr>dma_at := Dma_start\<rparr>) b p1 b1" "dma_at p1 = Dma_stopped" "pru_config p1 = pru_config p"
    "bus_timing_ok b1" "chunk_ended (shared p) (the_dma p1) (shared p1)"
    "transfer_result cycle a buf (k + ?c) k (bus_view p b) (cur_status (the_dma p1) = DMA_STATE_READY)
       (chunk_result cycle buf k ?c (mbox_words (the_dma p1))) (bus_view p1 b1)"
    "cur_status (the_dma p1) = DMA_STATE_READY \<Longrightarrow>
       cur_addr (the_dma p1) = a + 2 * of_nat k + 2 * of_nat (?c - 1)"
    by (rule chunk_transfer [OF less.prems assms(5)]) blast
  have c: "0 < ?c" "k + ?c \<le> n" "n \<le> length buf" using less.prems(2,3) by (auto simp: chunk_count_def dma_fits_def)
  have nc: "\<not> complete (request_of (shared p) r)"
    using less.prems(1) by (simp add: chunk_pending_def dma_request_at_def)
  have os1: "other_state (shared p1) = other_state (shared p)"
    using p1(5) by (simp add: chunk_ended_def other_state_def)
  have view: "bus_view (p1\<lparr>shared := s\<rparr>) b1 = bus_view p1 b1" for s by (rule bus_view_cong) simp_all
  show ?case
  proof (cases "cur_status (the_dma p1) \<noteq> DMA_STATE_READY \<or> k + ?c = n")
    case True
    obtain t where t: "round_dma (shared p1) = Some t" "complete (request_of t r)"
      "success (request_of t r) \<longleftrightarrow> cur_status (the_dma p1) = DMA_STATE_READY"
      "buffer (request_of t r) = chunk_result cycle buf k ?c (mbox_words (the_dma p1))"
      "request_levels t 4 = idle_level" "other_state t = other_state (shared p1)"
      by (rule round_dma_ends [OF less.prems(1) p1(5) less.prems(2,3) True])
    let ?q = "p1\<lparr>shared := t\<rparr>"
    have "dma_served r ?q b1 ?q b1" by (rule dma_served.finished) (use t in simp)
    from dma_served.chunk [OF nc p1(1,2) t(1) this] have "dma_served r p b ?q b1" .
    moreover have "transfer_result cycle a buf n k (bus_view p b) (success (request_of t r)) (buffer (request_of t r)) (bus_view ?q b1)"
    proof (cases "cur_status (the_dma p1) = DMA_STATE_READY")
      case ok: True
      then show ?thesis using p1(6) True t(3,4) view by simp
    next
      case False
      then show ?thesis using transfer_result_fail [OF _ c(2,3)] p1(6) t(3,4) view by simp
    qed
    ultimately show ?thesis using t os1 unfolding served_def by (intro exI [of _ ?q] exI [of _ b1]) simp
  next
    case False
    then have ok: "cur_status (the_dma p1) = DMA_STATE_READY" and lt: "k + ?c < n" using c(2) by auto
    let ?buf = "chunk_result cycle buf k ?c (mbox_words (the_dma p1))"
    obtain t where t: "round_dma (shared p1) = Some t" "chunk_pending r slot cycle a ?buf n (k + ?c) t"
      "other_state t = other_state (shared p1)"
      by (rule round_dma_continues [OF less.prems(1) p1(5) less.prems(2,3) ok lt p1(7) [OF ok] assms(5)])
    let ?q = "p1\<lparr>shared := t\<rparr>"
    have lb: "length ?buf = length buf"
      by (rule transfer_result_length [OF p1(6) ok]) (use c in simp)
    have fits: "dma_fits a ?buf n" using less.prems(3) lb by (simp add: dma_fits_def)
    have env: "dma_environment a n ?q b1"
      by (rule dma_environment_cong [OF less.prems(4)])
        (use p1(3,4) t(3) os1 in \<open>simp_all add: pru_config_def\<close>)
    have "n - (k + ?c) < n - k" using lt c(1) by linarith
    from less.hyps [OF this _ lt fits env] t(2)
    obtain q c where q: "served r cycle a ?buf n (k + ?c) ?q b1 q c" by auto
    then have "dma_served r ?q b1 q c" by (simp add: served_def)
    from dma_served.chunk [OF nc p1(1,2) t(1) this] have "dma_served r p b q c" .
    moreover have "transfer_result cycle a buf n k (bus_view p b) (success (request_of (shared q) r))
        (buffer (request_of (shared q) r)) (bus_view q c)"
      by (rule transfer_result_extend [OF _ c(2,3)]) (use p1(6) ok q view in \<open>auto simp: served_def\<close>)
    ultimately show ?thesis using q t(3) os1 unfolding served_def by auto
  qed
qed

text \<open>The state in which a device starts a DMA: no other DMA is scheduled, and no INIT.\<close>

definition dma_startable :: "req_id \<Rightarrow> dma_machine \<Rightarrow> bool" where
  "dma_startable r p \<longleftrightarrow> request_levels (shared p) 4 = idle_level \<and> req_class (request_of (shared p) r) = Dma_request \<and>
     \<not> is_cpu_access (request_of (shared p) r) \<and> bus (shared p) = UNIBUS \<and> \<not> line_INIT (shared p) \<and>
     length (mbox_words (mbox_dma (shared p))) = 4096"

lemma DMA_started:
  assumes "dma_startable r p" "dma_fits a buf n" "cycle = QUNIBUS_CYCLE_DATI \<or> cycle = QUNIBUS_CYCLE_DATO"
    "dma_admissible r a (of_nat n) (shared p)"
  obtains t where "DMA r cycle a buf (of_nat n) (shared p) = Some t"
    "chunk_pending r (priority_slot (request_of (shared p) r)) cycle a buf n 0 t" "other_state t = other_state (shared p)"
proof -
  let ?s = "shared p" and ?slot = "priority_slot (request_of (shared p) r)"
  let ?s1 = "upd_request r (dma_request_for cycle a buf (of_nat n)) ?s"
  let ?s2 = "upd_level 4 (\<lambda>prl. prl\<lparr>slot_request := (slot_request prl)(?slot \<mapsto> r),
       slot_request_mask := slot_request_mask prl OR slot_bit ?slot\<rparr>) ?s1"
  let ?s3 = "upd_level 4 (\<lambda>prl. prl\<lparr>active := Some r\<rparr>) ?s2"
  have st: "request_levels ?s 4 = idle_level" "req_class (request_of ?s r) = Dma_request" "\<not> line_INIT ?s"
    "\<not> is_cpu_access (request_of ?s r)" "bus ?s = UNIBUS" "length (mbox_words (mbox_dma ?s)) = 4096"
    using assms(1) by (simp_all add: dma_startable_def)
  have ad: "?slot < 32" "level_index (request_of ?s r) = 4" using assms(4) by (simp_all add: dma_admissible_def)
  have D: "DMA r cycle a buf (of_nat n) ?s = schedule_and_start r ?s1"
    unfolding DMA_cases [OF st(2)] using assms(4) st(3) by simp
  have lv: "request_levels ?s2 4 = lone_level r ?slot None"
    using st(1) by (simp add: idle_level_def lone_level_def)
  have s2: "request_schedule r ?s1 = (True, ?s2)"
    using st(1,2) ad by (simp add: request_schedule_def Let_def idle_level_def)
  have "schedule_and_start r ?s1 =
      do { (_, s3) \<leftarrow> request_activate_lowest_slot 4 ?s2; request_execute_active_on_PRU 4 s3 }"
    using s2 ad st(1) by (simp add: schedule_and_start_def idle_level_def)
  then have x: "DMA r cycle a buf (of_nat n) ?s = request_execute_active_on_PRU 4 ?s3"
    using D activate_lone [OF lv ad(1)] by simp
  obtain u where u: "request_execute_active_on_PRU 4 ?s3 = Some u" "chunk_pending r ?slot cycle a buf n 0 u"
    "other_state u = other_state ?s3"
    by (rule execute_chunk [of ?s3 r ?slot cycle a buf n 0])
      (use st ad lv assms(2,3) in \<open>simp_all add: lone_level_def dma_request_at_def dma_request_for_def dma_fits_def\<close>)
  show thesis
    by (rule that [of u]) (use x u in \<open>simp_all, simp add: other_state_def upd_request_def upd_level_def\<close>)
qed

text \<open>
  Property C2. A device's DMA implements its contract. Whatever memory is on the bus, however
  long each slave takes within the timeout, and whatever number of mailbox chunks the transfer
  takes: when a request alone in its table is started with \<^verbatim>\<open>DMA()\<close>, PRU and worker come to the
  point where it is complete; then memory and the success flag are those of \<open>dma_spec\<close>, and after
  a success so is the caller's buffer.
\<close>

theorem DMA_implements_spec:
  assumes "dma_startable r p" "dma_fits a buf n" "dma_environment a n p b"
    "(cycle, dir) = (QUNIBUS_CYCLE_DATI, To_device) \<or> (cycle, dir) = (QUNIBUS_CYCLE_DATO, To_memory)"
    "DMA r cycle a buf (of_nat n) (shared p) = Some s1"
  shows "\<exists>q c ok buf'. dma_served r (p\<lparr>shared := s1\<rparr>) b q c \<and> complete (request_of (shared q) r) \<and>
    request_levels (shared q) 4 = idle_level \<and>
    dma_spec (addr_space_byte_count (shared p)) dir a buf n (bus_view p b) = Some (ok, buf', bus_view q c) \<and>
    success (request_of (shared q) r) = ok \<and> (ok \<longrightarrow> buffer (request_of (shared q) r) = buf')"
proof -
  let ?p = "p\<lparr>shared := s1\<rparr>"
  have cyc: "cycle = QUNIBUS_CYCLE_DATI \<or> cycle = QUNIBUS_CYCLE_DATO" using assms(4) by auto
  have "dma_admissible r a (of_nat n) (shared p)"
    using assms(1,5) DMA_cases [of "shared p" r] by (auto simp: dma_startable_def split: if_splits)
  from DMA_started [OF assms(1,2) cyc this]
  have f: "chunk_pending r (priority_slot (request_of (shared p) r)) cycle a buf n 0 (shared ?p)"
    "other_state (shared ?p) = other_state (shared p)" using assms(5) by auto
  have fits: "0 < n" "n \<le> length buf" using assms(2) by (auto simp: dma_fits_def)
  have env: "dma_environment a n ?p b"
    by (rule dma_environment_cong [OF assms(3) _ _ f(2)])
      (use assms(3) in \<open>simp_all add: pru_config_def dma_environment_def\<close>)
  obtain q c where q: "served r cycle a buf n 0 ?p b q c" using dma_loop [OF f(1) fits(1) assms(2) env cyc] by blast
  have v: "bus_view ?p b = bus_view p b" by (rule bus_view_cong) simp_all
  have lim: "a + 2 * of_nat n \<le> addr_space_byte_count (shared p)" using assms(5) by (auto simp: DMA_def split: if_splits)
  have tr: "transfer_result cycle a buf n 0 (bus_view p b) (success (request_of (shared q) r))
      (buffer (request_of (shared q) r)) (bus_view q c)"
    using q v by (simp add: served_def)
  have "\<exists>ok buf'. dma_spec (addr_space_byte_count (shared p)) dir a buf n (bus_view p b) = Some (ok, buf', bus_view q c) \<and>
    success (request_of (shared q) r) = ok \<and> (ok \<longrightarrow> buffer (request_of (shared q) r) = buf')"
    using tr assms(4) fits lim cycle_classes(2)
    by (auto simp: transfer_result_def dma_spec_def split: option.splits prod.splits)
  then show ?thesis using q unfolding served_def by blast
qed

subsection \<open>A concrete transfer\<close>

text \<open>Two words, the first in emulated memory, the second in a slave that answers at the second poll.\<close>

definition sample_dma_pru :: dma_machine where
  "sample_dma_pru = pru_state.extend
     \<lparr>shared = (sample_worker UNIBUS)\<lparr>request_levels := (\<lambda>_. idle_level),
        request_of := (\<lambda>_. (request_of (sample_worker UNIBUS) 8)\<lparr>priority_slot := 3, is_cpu_access := False\<rparr>)\<rparr>,
      memory_start_addr = 0, memory_limit_addr = 0x100, ddr_words = (\<lambda>_. 5)\<rparr>
     (dma_machine.fields Dma_stopped 0 0 False 0 False False False 0 0 0)"

definition sample_bus :: dma_bus where
  "sample_bus = \<lparr>ext = (\<lambda>x. if x = 0x100 then Some 7 else None), delay = (\<lambda>_. 1), waited = 0, timeout_polls = 3\<rparr>"

theorem DMA_implements_spec_witness:
  "\<exists>s1 q c. DMA 0 QUNIBUS_CYCLE_DATI 0xfe [0, 0] 2 (shared sample_dma_pru) = Some s1 \<and>
     dma_served 0 (sample_dma_pru\<lparr>shared := s1\<rparr>) sample_bus q c \<and>
     success (request_of (shared q) 0) \<and> buffer (request_of (shared q) 0) = [5, 7]"
proof -
  note sel = sample_dma_pru_def pru_state.defs dma_machine.defs sample_worker_def adapter_state.defs worker_state.defs
    sample_adapter_def sample_request_def
  have st: "dma_startable 0 sample_dma_pru" by (simp add: dma_startable_def sel)
  have f: "dma_fits 0xfe [0, 0] 2" by (simp add: dma_fits_def)
  have env: "dma_environment 0xfe 2 sample_dma_pru sample_bus"
    by (auto simp: dma_environment_def bus_timing_ok_def sample_bus_def less_2_cases_iff memory_addr_def
        in_memory_def sel)
  have ad: "dma_admissible 0 0xfe (of_nat 2) (shared sample_dma_pru)" by (simp add: dma_admissible_def sel)
  obtain s1 where s1: "DMA 0 QUNIBUS_CYCLE_DATI 0xfe [0, 0] (of_nat 2) (shared sample_dma_pru) = Some s1"
    by (rule DMA_started [OF st f disjI1 [OF refl] ad])
  have view: "bus_view sample_dma_pru sample_bus 0xfe = Some 5" "bus_view sample_dma_pru sample_bus 0x100 = Some 7"
    by (simp_all add: bus_view_def in_memory_def sample_bus_def sel)
  have lim: "addr_space_byte_count (shared sample_dma_pru) = 0x40000" by (simp add: sel)
  have "bus_read (bus_view sample_dma_pru sample_bus) 0xfe (Suc (Suc 0)) = Some [5, 7]" by (simp add: view)
  then have "dma_spec 0x40000 To_device 0xfe [0, 0] 2 (bus_view sample_dma_pru sample_bus) =
      Some (True, [5, 7], bus_view sample_dma_pru sample_bus)"
    by (simp add: dma_spec_def numeral_2_eq_2 [symmetric])
  with DMA_implements_spec [OF st f env disjI1 [OF refl] s1, unfolded lim] s1 show ?thesis by auto
qed

end
