(* ===== verification/PRU_Main.thy ===== *)
theory PRU_Main
  imports PRU_Dma
begin

text \<open>
  Arbitration, interrupts and the main loop of the PRU, for UNIBUS:
  \<^verbatim>\<open>pru1_u/pru1_statemachine_arbitration.c\<close>, \<^verbatim>\<open>pru1_statemachine_intr_master.c\<close>,
  \<^verbatim>\<open>pru1_statemachine_intr_slave.c\<close>, \<^verbatim>\<open>pru1_utils.c\<close> and \<^verbatim>\<open>pru1_main_unibus.c\<close>.

  The state \<open>pru_main\<close> extends the DMA master's; bus latches are driven by several machines, and each
  is one field: \<open>d_sack\<close>, \<open>d_bbsy\<close>, \<open>d_ssyn\<close>, \<open>d_data\<close>. What the rest of the bus shows to one round of the
  main loop is the record \<open>bus_env\<close>; a line is seen asserted if anyone asserts it. The commands to
  read and set single latches and the halt of the PRU are left out.
\<close>

definition PRIORITY_ARBITRATION_BIT_NP :: u8 where "PRIORITY_ARBITRATION_BIT_NP = 0x10"
definition PRIORITY_ARBITRATION_INTR_MASK :: u8 where "PRIORITY_ARBITRATION_INTR_MASK = 0x0f"
definition CPU_PRIORITY_LEVEL_FETCHING :: u8 where "CPU_PRIORITY_LEVEL_FETCHING = 0xff"
definition INITIALIZATIONSIGNAL_INIT :: u8 where "INITIALIZATIONSIGNAL_INIT = 0x08"
definition LATCH1_SACK :: u8 where "LATCH1_SACK = 0x20"
definition LATCH1_BBSY :: u8 where "LATCH1_BBSY = 0x40"

datatype master = Master_none | Master_dma | Intr_start | Intr_1 | Intr_2

record pru_main = dma_machine +
  device_request_mask :: u8
  device_request_signalled_mask :: u8
  device_forwarded_grant_mask :: u8
  grant_bbsy_ssyn_wait_grant_mask :: u8
  cpu_request :: bool
  arbitrator_grant_mask :: u8
  intr_vector :: u16
  intr_level_index :: nat
  master_at :: master
  slave_in :: slave_state
  intr_slave_waiting :: bool
  emulate_cpu :: bool
  arb_mode_none :: bool
  ifs_priority_level :: u8
  ifs_intr_arbitration_pending :: bool
  br_lines :: u8
  grant_out :: u8
  d_ssyn :: bool
  d_intr :: bool
  d_initialization :: u8

datatype arm2pru_opcode =
    OP_NONE | OP_NOP | OP_ARB_MODE_NONE | OP_ARB_MODE_CLIENT | OP_DMA | OP_INTR | OP_INTR_CANCEL
  | OP_ARB_GRANT_INTR_REQUESTS | OP_INITALIZATIONSIGNAL_SET u8 bool | OP_CPU_ENABLE bool
  | OP_ADDRESS_OVERLAY u32

text \<open>
  The rest of the bus: the lines of latch 1 as the arbitrator reads them and as the
  device side reads them a moment later, the other lines, the timers, the polls of the slave and
  the command of the ARM.
\<close>

record bus_env =
  e_requests :: u8
  e_latch1 :: u8
  e_grant_in :: u8
  e_ssyn :: bool
  e_intr :: bool
  e_data :: u16
  e_initialization :: u8
  e_sack_timeout :: bool
  e_dma_timeout :: bool
  e_polls :: "bus_lines list"
  e_command :: arm2pru_opcode

text \<open>Latch 1 as it is read: requests, SACK and BBSY of others and the own ones.\<close>

definition latch1 :: "u8 \<Rightarrow> pru_main \<Rightarrow> u8" where
  "latch1 others m = others OR br_lines m OR (if d_sack m then LATCH1_SACK else 0) OR
     (if d_bbsy m then LATCH1_BBSY else 0)"

text \<open>\<^verbatim>\<open>__lmbd(w, 1)\<close>: the position of the highest bit set, 32 if there is none.\<close>

fun lmbd_from :: "nat \<Rightarrow> u8 \<Rightarrow> nat" where
  "lmbd_from 0 w = (if bit w 0 then 0 else 32)"
| "lmbd_from (Suc n) w = (if bit w (Suc n) then Suc n else lmbd_from n w)"

definition lmbd :: "u8 \<Rightarrow> nat" where "lmbd w = lmbd_from 7 w"

subsection \<open>Arbitration\<close>

definition sm_arb_reset :: "pru_main \<Rightarrow> pru_main" where
  "sm_arb_reset m = m\<lparr>br_lines := 0, d_sack := False, device_request_mask := 0, device_forwarded_grant_mask := 0,
     device_request_signalled_mask := 0, grant_bbsy_ssyn_wait_grant_mask := 0, cpu_request := False,
     arbitrator_grant_mask := 0\<rparr>"

definition sm_arb_worker_none :: "u8 \<Rightarrow> pru_main \<Rightarrow> u8 \<times> pru_main" where
  "sm_arb_worker_none grant_mask m =
     (let m1 = m\<lparr>grant_out := grant_mask AND PRIORITY_ARBITRATION_BIT_MASK\<rparr> in
      if device_request_mask m1 AND PRIORITY_ARBITRATION_BIT_NP \<noteq> 0
      then (PRIORITY_ARBITRATION_BIT_NP,
            m1\<lparr>device_request_mask := device_request_mask m1 AND NOT PRIORITY_ARBITRATION_BIT_NP\<rparr>)
      else (0, m1))"

text \<open>An access of the emulated CPU needs no grant, only an idle bus.\<close>

definition cpu_access_granted :: "u8 \<Rightarrow> pru_main \<Rightarrow> bool" where
  "cpu_access_granted others m \<longleftrightarrow>
     (let v = latch1 others m in
      v AND 0x70 = 0 \<and> \<not> (v AND 0x0f \<noteq> 0 \<and> ifs_intr_arbitration_pending m))"

text \<open>The device side: one of our requests is granted (state 1), then the bus gets free (state 2).\<close>

definition arb_wait_for_grant :: "u8 \<Rightarrow> pru_main \<Rightarrow> pru_main" where
  "arb_wait_for_grant grants m =
     (let g = grants AND device_request_mask m AND NOT (device_forwarded_grant_mask m);
          changed = PRIORITY_ARBITRATION_BIT_MASK AND device_request_mask m
      in if g \<noteq> 0
         then m\<lparr>br_lines := (br_lines m AND NOT changed) OR (NOT g AND changed), d_sack := True,
                device_request_mask := device_request_mask m AND NOT g,
                grant_bbsy_ssyn_wait_grant_mask := g\<rparr>
         else m)"

definition sm_arb_worker_device :: "u8 \<Rightarrow> u8 \<Rightarrow> bool \<Rightarrow> pru_main \<Rightarrow> u8 \<times> pru_main" where
  "sm_arb_worker_device grants others ssyn m =
     (if cpu_request m \<and> cpu_access_granted others m
      then (PRIORITY_ARBITRATION_BIT_NP, m\<lparr>cpu_request := False\<rparr>)
      else let m1 = m\<lparr>br_lines := device_request_mask m AND PRIORITY_ARBITRATION_BIT_MASK,
                      device_request_signalled_mask := device_request_mask m\<rparr>;
               w = grant_bbsy_ssyn_wait_grant_mask m1
           in if w = 0 then (0, arb_wait_for_grant grants m1)
              else if grants AND w \<noteq> 0 then (0, m1)
              else if latch1 others m1 AND LATCH1_BBSY \<noteq> 0 then (0, m1)
              else if ssyn \<or> d_ssyn m1 then (0, m1)
              else (w, m1\<lparr>grant_bbsy_ssyn_wait_grant_mask := 0\<rparr>))"

text \<open>The arbitrator of an emulated CPU.\<close>

definition new_grant :: "u8 \<Rightarrow> pru_main \<Rightarrow> u8" where
  "new_grant v m =
     (if v AND LATCH1_SACK \<noteq> 0 then 0
      else if v AND PRIORITY_ARBITRATION_BIT_NP \<noteq> 0
      then (if arbitrator_grant_mask m = 0 then PRIORITY_ARBITRATION_BIT_NP else arbitrator_grant_mask m)
      else if ifs_intr_arbitration_pending m \<and> v AND PRIORITY_ARBITRATION_INTR_MASK \<noteq> 0
      then (if arbitrator_grant_mask m = 0
            then (let l = lmbd (v AND PRIORITY_ARBITRATION_INTR_MASK) + 4 in
                  if unat (ifs_priority_level m) < l \<and> l \<noteq> unat CPU_PRIORITY_LEVEL_FETCHING
                  then push_bit (l - 4) 1 else 0)
            else arbitrator_grant_mask m)
      else arbitrator_grant_mask m)"

text \<open>The timer is only looked at when nothing else happens.\<close>

definition sack_timeout_matters :: "u8 \<Rightarrow> pru_main \<Rightarrow> bool" where
  "sack_timeout_matters v m \<longleftrightarrow> v AND LATCH1_SACK = 0 \<and> v AND PRIORITY_ARBITRATION_BIT_NP = 0 \<and>
     \<not> (ifs_intr_arbitration_pending m \<and> v AND PRIORITY_ARBITRATION_INTR_MASK \<noteq> 0)"

definition sm_arb_worker_cpu :: "u8 \<Rightarrow> bool \<Rightarrow> pru_main \<Rightarrow> u8 \<times> pru_main" where
  "sm_arb_worker_cpu others timeout m =
     (let v = latch1 others m;
          g = (if sack_timeout_matters v m \<and> timeout then 0 else new_grant v m)
      in (g, m\<lparr>arbitrator_grant_mask := g, grant_out := g AND PRIORITY_ARBITRATION_BIT_MASK,
               ifs_intr_arbitration_pending := False\<rparr>))"

subsection \<open>Interrupt transactions\<close>

text \<open>The master puts its vector onto the bus and waits for SSYN; the end is signalled to the ARM.\<close>

definition sm_intr_master :: "bool \<Rightarrow> pru_main \<Rightarrow> pru_main" where
  "sm_intr_master ssyn m =
     (case master_at m of
        Intr_start \<Rightarrow> m\<lparr>d_bbsy := True, master_at := Intr_1\<rparr>
      | Intr_1 \<Rightarrow> m\<lparr>d_data := intr_vector m, d_intr := True, d_sack := False, master_at := Intr_2\<rparr>
      | Intr_2 \<Rightarrow>
          (if \<not> (ssyn \<or> d_ssyn m) then m
           else if ev_intr_master (shared m) (intr_level_index m) then m
           else (upd_shared (\<lambda>s. s\<lparr>ev_intr_master := (ev_intr_master s)(intr_level_index m := True)\<rparr>) m)
                  \<lparr>d_data := 0, d_intr := False, d_bbsy := False, master_at := Master_none\<rparr>)
      | _ \<Rightarrow> m)"

text \<open>The receiver of an emulated CPU.\<close>

definition sm_intr_slave :: "bool \<Rightarrow> u16 \<Rightarrow> pru_main \<Rightarrow> pru_main" where
  "sm_intr_slave intr data m =
     (if \<not> intr_slave_waiting m
      then (if \<not> (intr \<or> d_intr m) then m
            else (upd_shared (\<lambda>s. s\<lparr>ev_intr_slave := True, ev_intr_slave_vector := data OR d_data m\<rparr>) m)
                   \<lparr>d_ssyn := True, ifs_priority_level := CPU_PRIORITY_LEVEL_FETCHING, intr_slave_waiting := True\<rparr>)
      else if ev_intr_slave (shared m) then m
      else if intr \<or> d_intr m then m
      else m\<lparr>d_ssyn := False, intr_slave_waiting := False\<rparr>)"

subsection \<open>The main loop\<close>

text \<open>INIT and power lines; the names of the events' fields are the worker's.\<close>

definition power_part :: "u8 \<Rightarrow> u8" where
  "power_part v = v AND (INITIALIZATIONSIGNAL_DCLO OR INITIALIZATIONSIGNAL_ACLO)"

definition do_event_initializationsignals :: "u8 \<Rightarrow> pru_main \<Rightarrow> pru_main" where
  "do_event_initializationsignals others m =
     (let cur = (others OR d_initialization m) AND 0x38;
          init = (cur AND INITIALIZATIONSIGNAL_INIT \<noteq> 0);
          m1 = (if init then m\<lparr>device_request_mask := 0\<rparr> else m);
          m2 = (if power_part (power_signals_cur (shared m1) XOR cur) \<noteq> 0
                then upd_shared (\<lambda>s. s\<lparr>power_signals_cur := power_part cur, ev_power := True\<rparr>) m1 else m1)
      in if init_signal_cur (shared m2) \<noteq> init
         then upd_shared (\<lambda>s. s\<lparr>init_signal_cur := init, ev_init := True\<rparr>)
                (if \<not> init_signal_cur (shared m2) then iopageregisters_reset_values m2 else m2)
         else m2)"

text \<open>The data slave works on the same latches; it sees the bus with what this side drives.\<close>

definition slave_view :: "pru_main \<Rightarrow> slave" where
  "slave_view m = pru_state.extend (pru_state.truncate m) (slave.fields (slave_in m) (d_data m) (d_ssyn m))"

definition slave_poll :: "bus_lines \<Rightarrow> pru_main \<Rightarrow> pru_main" where
  "slave_poll l m =
     (let q = sm_data_slave \<lparr>l_addr = l_addr l OR d_addr m, l_control = l_control l OR d_control m,
                 l_data = l_data l OR d_data m, l_msyn = (l_msyn l \<or> d_msyn m), l_ssyn = (l_ssyn l \<or> d_ssyn m)\<rparr>
               (slave_view m)
      in m\<lparr>shared := shared q, ddr_words := ddr_words q, slave_in := slave_at q, d_data := drive_data q,
           d_ssyn := drive_ssyn q\<rparr>)"

text \<open>
  The loop over a whole slave cycle; it ends with the cycle or with a register event. \<^theory_text>\<open>None\<close> if it
  is still waiting after the polls given.
\<close>

fun slave_loop :: "bus_lines list \<Rightarrow> pru_main \<Rightarrow> pru_main option" where
  "slave_loop [] m = None"
| "slave_loop (l # ls) m =
     (let m' = slave_poll l m in
      if slave_in m' \<noteq> Slave_idle \<and> \<not> ev_deviceregister (shared m') then slave_loop ls m' else Some m')"

text \<open>Grants of a physical CPU: the ones we have not asked for are passed on.\<close>

definition forward_grants :: "u8 \<Rightarrow> pru_main \<Rightarrow> u8 \<times> pru_main" where
  "forward_grants grant_in m =
     (let g = grant_in AND PRIORITY_ARBITRATION_BIT_MASK; f = g AND NOT (device_request_signalled_mask m)
      in (g, m\<lparr>device_forwarded_grant_mask := f, grant_out := f AND PRIORITY_ARBITRATION_BIT_MASK\<rparr>))"

definition start_granted :: "u8 \<Rightarrow> pru_main \<Rightarrow> pru_main" where
  "start_granted granted m =
     (if granted AND PRIORITY_ARBITRATION_BIT_NP \<noteq> 0 then m\<lparr>master_at := Master_dma, dma_at := Dma_start\<rparr>
      else if granted AND PRIORITY_ARBITRATION_INTR_MASK \<noteq> 0
      then (let i = lmbd granted in
            m\<lparr>intr_vector := mbox_vector (mbox_intr (shared m)) i, intr_level_index := i, master_at := Intr_start\<rparr>)
      else m)"

definition arbitrate :: "bus_env \<Rightarrow> u8 \<Rightarrow> pru_main \<Rightarrow> pru_main" where
  "arbitrate e grants m =
     (let (g, m1) = (if emulate_cpu m then sm_arb_worker_cpu (e_requests e) (e_sack_timeout e) m else (grants, m));
          (granted, m2) = (if arb_mode_none m1 then sm_arb_worker_none g m1
                           else sm_arb_worker_device g (e_latch1 e) (e_ssyn e) m1)
      in start_granted granted m2)"

definition slave_round :: "bus_env \<Rightarrow> pru_main \<Rightarrow> pru_main option" where
  "slave_round e m =
     do { m1 \<leftarrow> slave_loop (e_polls e) m;
          let m2 = do_event_initializationsignals (e_initialization e) m1;
          let (g, m3) = (if emulate_cpu m2 then (0, m2) else forward_grants (e_grant_in e) m2);
          Some (if ev_deviceregister (shared m3) then m3 else arbitrate e g m3) }"

definition dma_round :: "bus_env \<Rightarrow> pru_main \<Rightarrow> pru_main option" where
  "dma_round e m =
     do { q \<leftarrow> sm_dma \<lparr>i_ssyn = (e_ssyn e \<or> d_ssyn m), i_timeout = e_dma_timeout e, i_data = e_data e OR d_data m,
              i_init = ((e_initialization e OR d_initialization m) AND INITIALIZATIONSIGNAL_INIT \<noteq> 0)\<rparr>
            (dma_machine.truncate m);
          let m1 = dma_machine.extend q (dma_machine.more m);
          Some (if dma_at m1 = Dma_stopped then m1\<lparr>master_at := Master_none\<rparr> else m1) }"

definition master_round :: "bus_env \<Rightarrow> pru_main \<Rightarrow> pru_main option" where
  "master_round e m = (if master_at m = Master_dma then dma_round e m else Some (sm_intr_master (e_ssyn e) m))"

definition execute_command :: "arm2pru_opcode \<Rightarrow> pru_main \<Rightarrow> pru_main" where
  "execute_command c m =
     (case c of
        OP_NONE \<Rightarrow> m
      | OP_NOP \<Rightarrow> m
      | OP_ARB_MODE_NONE \<Rightarrow> m\<lparr>arb_mode_none := True\<rparr>
      | OP_ARB_MODE_CLIENT \<Rightarrow> m\<lparr>arb_mode_none := False\<rparr>
      | OP_DMA \<Rightarrow> (if cpu_access (the_dma (dma_machine.truncate m)) then m\<lparr>cpu_request := True\<rparr>
                   else m\<lparr>device_request_mask := device_request_mask m OR PRIORITY_ARBITRATION_BIT_NP\<rparr>)
      | OP_INTR \<Rightarrow>
          (let mb = mbox_intr (shared m); m1 = m\<lparr>device_request_mask := device_request_mask m OR priority_arbitration_bit mb\<rparr>
           in if iopage_register_handle mb = 0 then m1
              else upd_shared (upd_pru_register (iopage_register_handle mb) (\<lambda>r. r\<lparr>pru_value := iopage_register_value mb\<rparr>)) m1)
      | OP_INTR_CANCEL \<Rightarrow>
          m\<lparr>device_request_mask := device_request_mask m AND NOT (priority_arbitration_bit (mbox_intr (shared m)))\<rparr>
      | OP_ARB_GRANT_INTR_REQUESTS \<Rightarrow> (if emulate_cpu m then m\<lparr>ifs_intr_arbitration_pending := True\<rparr> else m)
      | OP_INITALIZATIONSIGNAL_SET lines val \<Rightarrow>
          m\<lparr>d_initialization := (if val then d_initialization m OR lines else d_initialization m AND NOT lines)\<rparr>
      | OP_CPU_ENABLE on \<Rightarrow> (if emulate_cpu m \<noteq> on then sm_arb_reset (m\<lparr>emulate_cpu := on\<rparr>) else m)
      | OP_ADDRESS_OVERLAY a \<Rightarrow> m\<lparr>address_overlay := a, d_addr := a AND 0x3ffff\<rparr>)"

definition main_round :: "bus_env \<Rightarrow> pru_main \<Rightarrow> pru_main option" where
  "main_round e m =
     do { m1 \<leftarrow> (if master_at m = Master_none then slave_round e m else master_round e m);
          let m2 = (if emulate_cpu m1 then sm_intr_slave (e_intr e) (e_data e) m1 else m1);
          Some (execute_command (e_command e) m2) }"

end
