(* ===== verification/PRU_Interrupts.thy ===== *)
theory PRU_Interrupts
  imports PRU_Main
begin

text \<open>
  What the main loop of the PRU guarantees: the arbitrator's grants, no interrupt without a request,
  the way of a device's interrupt to an emulated CPU, and what a cancelled one does.
\<close>

subsection \<open>The arbitrator\<close>

lemma bit_0f: "bit (0x0f :: u8) n \<longleftrightarrow> n < 4"
proof -
  have "(0x0f :: u8) = mask 4" by (simp add: mask_eq_exp_minus_1)
  then show ?thesis by (simp only: bit_mask_iff) auto
qed

lemma lmbd_from_highest:
  "\<exists>k\<le>n. bit w k \<Longrightarrow>
   lmbd_from n w \<le> n \<and> bit w (lmbd_from n w) \<and> (\<forall>k. lmbd_from n w < k \<and> k \<le> n \<longrightarrow> \<not> bit w k)"
  by (induction n) (auto simp: le_Suc_eq)

lemma lmbd_highest:
  assumes "w \<noteq> 0"
  shows "bit w (lmbd w) \<and> (\<forall>k. lmbd w < k \<longrightarrow> \<not> bit w k)"
proof -
  obtain k where k: "bit w k" using assms by (metis bit_eq_iff bit_0_eq bot_apply bot_bool_def)
  then have "k < 8" by (auto dest: bit_imp_le_length)
  with k have "\<exists>k\<le>7. bit w k" by (intro exI [of _ k]) simp
  from lmbd_from_highest [OF this] show ?thesis
    using bit_imp_le_length [of w] by (fastforce simp: lmbd_def)
qed

lemma lmbd_low:
  assumes "w AND 0x0f \<noteq> 0"
  shows "lmbd (w AND 0x0f) < 4 \<and> bit w (lmbd (w AND 0x0f)) \<and> (\<forall>k. lmbd (w AND 0x0f) < k \<and> k < 4 \<longrightarrow> \<not> bit w k)"
  using lmbd_highest [OF assms] unfolding bit_and_iff bit_0f by blast

definition single_grant :: "u8 \<Rightarrow> bool" where "single_grant g \<longleftrightarrow> g \<in> {0, 1, 2, 4, 8, 0x10}"

lemma push_bit_single: "l < 4 \<Longrightarrow> single_grant (push_bit l 1)"
  by (auto simp: single_grant_def less_Suc_eq numeral_eq_Suc)

text \<open>
  The arbitrator of an emulated CPU has at most one grant out; it takes a grant back when a
  device asserts SACK, keeps it until then, and gives a new one to a DMA request first, else, when the
  CPU allows interrupts at this moment, to the highest requested level, if it is above the CPU's
  priority (which is higher than any level while the CPU fetches a vector).
\<close>

theorem arbitrator_grants:
  assumes "single_grant (arbitrator_grant_mask m)" "sm_arb_worker_cpu others timeout m = (g, m')"
  defines "v \<equiv> latch1 others m"
  shows "single_grant g \<and> arbitrator_grant_mask m' = g \<and> (v AND LATCH1_SACK \<noteq> 0 \<longrightarrow> g = 0) \<and>
    (g \<noteq> 0 \<longrightarrow> g = arbitrator_grant_mask m \<or> arbitrator_grant_mask m = 0 \<and>
       (if v AND PRIORITY_ARBITRATION_BIT_NP \<noteq> 0 then g = PRIORITY_ARBITRATION_BIT_NP
        else ifs_intr_arbitration_pending m \<and>
          (\<exists>l<4. g = push_bit l 1 \<and> bit v l \<and> (\<forall>k. l < k \<and> k < 4 \<longrightarrow> \<not> bit v k) \<and> unat (ifs_priority_level m) < l + 4)))"
proof -
  define l where "l = lmbd (v AND 0x0f)"
  have l: "v AND 0x0f \<noteq> 0 \<Longrightarrow> l < 4 \<and> bit v l \<and> (\<forall>k. l < k \<and> k < 4 \<longrightarrow> \<not> bit v k)"
    unfolding l_def by (rule lmbd_low)
  have g: "g = (if sack_timeout_matters v m \<and> timeout then 0 else new_grant v m)" "arbitrator_grant_mask m' = g"
    using assms(2) by (auto simp: sm_arb_worker_cpu_def Let_def v_def)
  have fetching: "unat CPU_PRIORITY_LEVEL_FETCHING = 255" by (simp add: CPU_PRIORITY_LEVEL_FETCHING_def)
  have n: "new_grant v m =
     (if v AND LATCH1_SACK \<noteq> 0 then 0
      else if v AND PRIORITY_ARBITRATION_BIT_NP \<noteq> 0
      then (if arbitrator_grant_mask m = 0 then PRIORITY_ARBITRATION_BIT_NP else arbitrator_grant_mask m)
      else if ifs_intr_arbitration_pending m \<and> v AND 0x0f \<noteq> 0
      then (if arbitrator_grant_mask m = 0
            then if unat (ifs_priority_level m) < l + 4 \<and> l + 4 \<noteq> 255 then push_bit l 1 else 0
            else arbitrator_grant_mask m)
      else arbitrator_grant_mask m)"
    unfolding new_grant_def Let_def l_def PRIORITY_ARBITRATION_INTR_MASK_def fetching by (simp only: add_diff_cancel_right')
  have np: "single_grant PRIORITY_ARBITRATION_BIT_NP" "single_grant 0"
    by (simp_all add: single_grant_def PRIORITY_ARBITRATION_BIT_NP_def)
  have pb: "v AND 0x0f \<noteq> 0 \<Longrightarrow> single_grant (push_bit l 1)" using l push_bit_single by blast
  let ?a = "arbitrator_grant_mask m" and ?sack = "v AND LATCH1_SACK \<noteq> 0" and ?np = "v AND PRIORITY_ARBITRATION_BIT_NP \<noteq> 0"
    and ?br = "ifs_intr_arbitration_pending m \<and> v AND 0x0f \<noteq> 0" and ?lv = "unat (ifs_priority_level m) < l + 4"
  consider "g = 0" | "g = ?a" "\<not> ?sack" | "?a = 0" "g = PRIORITY_ARBITRATION_BIT_NP" "\<not> ?sack" ?np
    | "?a = 0" "g = push_bit l 1" "\<not> ?sack" "\<not> ?np" ?br ?lv
    using g(1) unfolding n
    by (cases ?sack; cases ?np; cases ?br; cases ?lv; cases "?a = 0"; cases "l + 4 \<noteq> 255";
        cases "sack_timeout_matters v m \<and> timeout") (simp_all only: if_True if_False simp_thms)
  then show ?thesis
  proof cases
    case 4
    with l have "\<exists>l<4. g = push_bit l 1 \<and> bit v l \<and> (\<forall>k. l < k \<and> k < 4 \<longrightarrow> \<not> bit v k) \<and> unat (ifs_priority_level m) < l + 4"
      by blast
    with 4 pb g(2) show ?thesis by simp
  qed (use g(2) np assms(1) in simp_all)
qed


subsection \<open>No interrupt without a request\<close>

definition pending :: "nat \<Rightarrow> pru_main \<Rightarrow> nat" where
  "pending l m = of_bool (bit (device_request_mask m) l) + of_bool (bit (grant_bbsy_ssyn_wait_grant_mask m) l)"

definition intr_started :: "nat \<Rightarrow> pru_main \<Rightarrow> bool" where
  "intr_started l m \<longleftrightarrow> master_at m = Intr_start \<and> intr_level_index m = l"

lemma start_granted_masks [simp]:
  "pending l (start_granted g m) = pending l m"
  by (simp add: start_granted_def pending_def Let_def)

lemma start_granted_intr:
  assumes "intr_started l (start_granted g m)" "master_at m = Master_none"
  shows "bit g l \<and> g \<noteq> PRIORITY_ARBITRATION_BIT_NP"
proof -
  have g: "g AND PRIORITY_ARBITRATION_BIT_NP = 0" "g AND PRIORITY_ARBITRATION_INTR_MASK \<noteq> 0" "lmbd g = l"
    using assms by (auto simp: start_granted_def intr_started_def Let_def split: if_splits)
  then have "g \<noteq> 0" by auto
  with g show ?thesis using lmbd_highest [of g] by (auto simp: PRIORITY_ARBITRATION_BIT_NP_def)
qed

lemma worker_cpu_masks:
  "sm_arb_worker_cpu others timeout m = (g, m') \<Longrightarrow> pending l m' = pending l m \<and> master_at m' = master_at m"
  by (auto simp: sm_arb_worker_cpu_def Let_def pending_def)

lemma worker_none_masks:
  "sm_arb_worker_none g m = (granted, m') \<Longrightarrow>
   (granted = 0 \<or> granted = PRIORITY_ARBITRATION_BIT_NP) \<and> pending l m' \<le> pending l m \<and> master_at m' = master_at m"
  by (auto simp: sm_arb_worker_none_def Let_def pending_def bit_simps split: if_splits)

lemma wait_for_grant_masks:
  assumes "grant_bbsy_ssyn_wait_grant_mask m = 0"
  shows "pending l (arb_wait_for_grant g m) \<le> pending l m"
  using assms by (auto simp: arb_wait_for_grant_def Let_def pending_def bit_simps)

lemma worker_device_masks:
  assumes "sm_arb_worker_device g others ssyn m = (granted, m')"
  shows "master_at m' = master_at m \<and>
    (granted = PRIORITY_ARBITRATION_BIT_NP \<or> pending l m' + of_bool (bit granted l) \<le> pending l m) \<and> pending l m' \<le> pending l m"
proof -
  define m1 where "m1 = m\<lparr>br_lines := device_request_mask m AND PRIORITY_ARBITRATION_BIT_MASK,
                device_request_signalled_mask := device_request_mask m\<rparr>"
  have p: "pending l m1 = pending l m" "pending l (m\<lparr>cpu_request := False\<rparr>) = pending l m" "master_at m1 = master_at m"
    by (simp_all add: pending_def m1_def)
  have "sm_arb_worker_device g others ssyn m =
     (if cpu_request m \<and> cpu_access_granted others m then (PRIORITY_ARBITRATION_BIT_NP, m\<lparr>cpu_request := False\<rparr>)
      else if grant_bbsy_ssyn_wait_grant_mask m1 = 0 then (0, arb_wait_for_grant g m1)
      else if g AND grant_bbsy_ssyn_wait_grant_mask m1 \<noteq> 0 then (0, m1)
      else if latch1 others m1 AND LATCH1_BBSY \<noteq> 0 then (0, m1)
      else if ssyn \<or> d_ssyn m1 then (0, m1)
      else (grant_bbsy_ssyn_wait_grant_mask m1, m1\<lparr>grant_bbsy_ssyn_wait_grant_mask := 0\<rparr>))"
    unfolding sm_arb_worker_device_def Let_def m1_def ..
  with assms consider "(granted, m') = (PRIORITY_ARBITRATION_BIT_NP, m\<lparr>cpu_request := False\<rparr>)"
    | "(granted, m') = (0, arb_wait_for_grant g m1)" "grant_bbsy_ssyn_wait_grant_mask m1 = 0"
    | "(granted, m') = (0, m1)"
    | "(granted, m') = (grant_bbsy_ssyn_wait_grant_mask m1, m1\<lparr>grant_bbsy_ssyn_wait_grant_mask := 0\<rparr>)"
    by metis
  then show ?thesis
  proof cases
    case 2
    then show ?thesis using wait_for_grant_masks [of m1 l g] p by (simp add: arb_wait_for_grant_def Let_def)
  next
    case 4
    then have "m' = m1\<lparr>grant_bbsy_ssyn_wait_grant_mask := 0\<rparr>" "granted = grant_bbsy_ssyn_wait_grant_mask m1" by simp_all
    then show ?thesis using p by (simp add: pending_def)
  qed (use p in simp_all)
qed

lemma arbitrate_masks:
  assumes "master_at m = Master_none"
  shows "pending l (arbitrate e g m) + of_bool (intr_started l (arbitrate e g m)) \<le> pending l m"
proof -
  obtain g1 m1 where a: "(if emulate_cpu m then sm_arb_worker_cpu (e_requests e) (e_sack_timeout e) m else (g, m)) = (g1, m1)"
    by (rule prod.exhaust)
  then have m1: "pending l m1 = pending l m" "master_at m1 = Master_none"
    using worker_cpu_masks [of "e_requests e" "e_sack_timeout e" m g1 m1 l] assms by (auto split: if_splits)
  obtain granted m2 where d: "(if arb_mode_none m1 then sm_arb_worker_none g1 m1
      else sm_arb_worker_device g1 (e_latch1 e) (e_ssyn e) m1) = (granted, m2)" by (rule prod.exhaust)
  have m2: "master_at m2 = Master_none" "pending l m2 \<le> pending l m1"
    "granted \<noteq> PRIORITY_ARBITRATION_BIT_NP \<Longrightarrow> pending l m2 + of_bool (bit granted l) \<le> pending l m1"
    using d m1(2) worker_none_masks [of g1 m1 granted m2 l] worker_device_masks [of g1 "e_latch1 e" "e_ssyn e" m1 granted m2 l]
    by (auto split: if_splits)
  have r: "arbitrate e g m = start_granted granted m2" unfolding arbitrate_def a by (simp add: d)
  show ?thesis
  proof (cases "intr_started l (arbitrate e g m)")
    case True
    then have "bit granted l" "granted \<noteq> PRIORITY_ARBITRATION_BIT_NP" using start_granted_intr m2(1) unfolding r by blast+
    then show ?thesis using m2(3) m1(1) True unfolding r by simp
  next
    case False
    then show ?thesis using m2(2) m1(1) unfolding r by simp
  qed
qed

lemma slave_poll_masks [simp]:
  "pending l (slave_poll x m) = pending l m" "master_at (slave_poll x m) = master_at m"
  by (simp_all add: slave_poll_def Let_def pending_def)

lemma slave_loop_masks:
  "slave_loop ls m = Some m' \<Longrightarrow> pending l m' = pending l m \<and> master_at m' = master_at m"
proof (induction ls arbitrary: m)
  case (Cons x ls)
  then show ?case using Cons.IH [of "slave_poll x m"] by (simp only: slave_loop.simps Let_def split: if_splits) auto
qed simp

lemma initialization_masks:
  "pending l (do_event_initializationsignals v m) \<le> pending l m"
  "master_at (do_event_initializationsignals v m) = master_at m"
  by (auto simp: do_event_initializationsignals_def Let_def pending_def upd_shared_def iopageregisters_reset_values_def)

lemma slave_round_masks:
  assumes "slave_round e m = Some m'" "master_at m = Master_none"
  shows "pending l m' + of_bool (intr_started l m') \<le> pending l m"
proof -
  obtain m1 where m1: "slave_loop (e_polls e) m = Some m1" using assms(1) by (auto simp: slave_round_def split: Option.bind_splits)
  let ?m2 = "do_event_initializationsignals (e_initialization e) m1"
  obtain g m3 where m3: "(if emulate_cpu ?m2 then (0, ?m2) else forward_grants (e_grant_in e) ?m2) = (g, m3)" by (rule prod.exhaust)
  have m': "m' = (if ev_deviceregister (shared m3) then m3 else arbitrate e g m3)"
    using assms(1) m1 m3 by (simp add: slave_round_def Let_def)
  have p: "pending l m3 = pending l ?m2" "master_at m3 = master_at ?m2"
    using m3 by (auto simp: forward_grants_def Let_def pending_def split: if_splits)
  have "pending l m3 \<le> pending l m" "master_at m3 = Master_none"
    using p initialization_masks(1) [of l "e_initialization e" m1] initialization_masks(2) [of "e_initialization e" m1] slave_loop_masks [OF m1, of l] assms(2) by simp_all
  then show ?thesis using arbitrate_masks [of m3 l e g] unfolding m' by (auto simp: intr_started_def)
qed

lemma extend_dma_fields [simp]:
  "device_request_mask (dma_machine.extend q (dma_machine.more m)) = device_request_mask m"
  "grant_bbsy_ssyn_wait_grant_mask (dma_machine.extend q (dma_machine.more m)) = grant_bbsy_ssyn_wait_grant_mask m"
  by (cases q, cases m, simp add: dma_machine.defs)+

lemma master_round_masks:
  assumes "master_round e m = Some m'" "master_at m \<noteq> Master_none"
  shows "pending l m' = pending l m"
  using assms
  by (auto simp: master_round_def dma_round_def sm_intr_master_def Let_def pending_def upd_shared_def
      split: if_splits master.splits Option.bind_splits)

lemma command_masks:
  assumes "l < 4"
  shows "pending l (execute_command c m) \<le>
   pending l m + of_bool (c = OP_INTR \<and> bit (priority_arbitration_bit (mbox_intr (shared m))) l)"
proof -
  have np: "\<not> bit PRIORITY_ARBITRATION_BIT_NP l"
    using assms by (auto simp: PRIORITY_ARBITRATION_BIT_NP_def less_Suc_eq numeral_eq_Suc)
  show ?thesis
    by (cases c) (auto simp: execute_command_def Let_def pending_def upd_shared_def sm_arb_reset_def bit_or_iff np
        bit_and_iff [of "device_request_mask m"])
qed

lemma command_rest:
  "master_at (execute_command c m) = master_at m" "intr_level_index (execute_command c m) = intr_level_index m"
  "mbox_intr (shared (execute_command c m)) = mbox_intr (shared m)"
  by (cases c; simp add: execute_command_def Let_def upd_shared_def upd_pru_register_def sm_arb_reset_def)+

lemma intr_slave_rest:
  "pending l (sm_intr_slave i d m) = pending l m" "master_at (sm_intr_slave i d m) = master_at m"
  "intr_level_index (sm_intr_slave i d m) = intr_level_index m"
  by (simp_all add: sm_intr_slave_def upd_shared_def pending_def)

text \<open>What one round counts: a request by the ARM's command, and the start of an interrupt transaction.\<close>

definition raises :: "nat \<Rightarrow> bus_env \<Rightarrow> pru_main \<Rightarrow> bool" where
  "raises l e m' \<longleftrightarrow> e_command e = OP_INTR \<and> bit (priority_arbitration_bit (mbox_intr (shared m'))) l"

definition starts :: "nat \<Rightarrow> pru_main \<Rightarrow> pru_main \<Rightarrow> bool" where
  "starts l m m' \<longleftrightarrow> master_at m = Master_none \<and> intr_started l m'"

lemma main_round_counts:
  assumes "main_round e m = Some m'" "l < 4"
  shows "of_bool (starts l m m') + pending l m' \<le> pending l m + of_bool (raises l e m')"
proof -
  obtain m1 where m1: "(if master_at m = Master_none then slave_round e m else master_round e m) = Some m1"
    using assms(1) by (auto simp: main_round_def simp del: if_split split: Option.bind_splits)
  let ?m2 = "if emulate_cpu m1 then sm_intr_slave (e_intr e) (e_data e) m1 else m1"
  have m': "m' = execute_command (e_command e) ?m2" using assms(1) m1 by (simp add: main_round_def Let_def)
  have r: "pending l ?m2 = pending l m1" "master_at ?m2 = master_at m1" "intr_level_index ?m2 = intr_level_index m1"
    by (simp_all add: intr_slave_rest)
  have c: "pending l m' \<le> pending l m1 + of_bool (raises l e m')"
    using command_masks [OF assms(2), of "e_command e" ?m2] r(1)
    unfolding m' raises_def command_rest by simp
  have s: "intr_started l m' = intr_started l m1" unfolding intr_started_def m' command_rest using r by simp
  have "of_bool (starts l m m') + pending l m1 \<le> pending l m"
  proof (cases "master_at m = Master_none")
    case True
    then show ?thesis using m1 slave_round_masks [of e m m1 l] s by (simp add: starts_def)
  next
    case False
    then show ?thesis using m1 master_round_masks [of e m m1 l] by (simp add: starts_def)
  qed
  with c show ?thesis by linarith
qed

text \<open>
  A run of the PRU: rounds in any bus environment, between which the ARM changes what it shares and
  the CPU its priority; counted are the requests and the transactions of level \<open>l\<close>.
\<close>

inductive pru_run :: "nat \<Rightarrow> pru_main \<Rightarrow> nat \<Rightarrow> nat \<Rightarrow> pru_main \<Rightarrow> bool" for l m0 where
  start: "pru_run l m0 0 0 m0"
| round: "pru_run l m0 requested sent m \<Longrightarrow> main_round e m = Some m' \<Longrightarrow>
    pru_run l m0 (requested + of_bool (raises l e m')) (sent + of_bool (starts l m m')) m'"
| arm: "pru_run l m0 requested sent m \<Longrightarrow> pru_run l m0 requested sent (m\<lparr>shared := s, ifs_priority_level := p\<rparr>)"

text \<open>
  Property C4. However the bus, the ARM and the CPU behave, the PRU never sends more interrupt
  vectors of a level than the ARM has requested, plus the ones pending at the start: no
  spurious interrupts, whatever is cancelled, reset or switched in between.
\<close>

theorem no_spurious_interrupts:
  assumes "pru_run l m0 requested sent m" "l < 4"
  shows "sent + pending l m \<le> requested + pending l m0"
  using assms(1)
proof (induction rule: pru_run.induct)
  case (round requested sent m e m')
  with main_round_counts [OF round.hyps(2) assms(2)] show ?case by linarith
qed (simp_all add: pending_def)

subsection \<open>From a device to an emulated CPU\<close>

text \<open>An otherwise quiet bus, and the ARM's command of the round.\<close>

definition no_cycle :: bus_lines where
  "no_cycle = \<lparr>l_addr = 0, l_control = 0, l_data = 0, l_msyn = False, l_ssyn = False\<rparr>"

definition quiet :: "arm2pru_opcode \<Rightarrow> bus_env" where
  "quiet c = \<lparr>e_requests = 0, e_latch1 = 0, e_grant_in = 0, e_ssyn = False, e_intr = False, e_data = 0,
     e_initialization = 0, e_sack_timeout = False, e_dma_timeout = False, e_polls = [no_cycle], e_command = c\<rparr>"

fun main_rounds :: "bus_env list \<Rightarrow> pru_main \<Rightarrow> pru_main option" where
  "main_rounds [] m = Some m"
| "main_rounds (e # es) m = do { m' \<leftarrow> main_round e m; main_rounds es m' }"

text \<open>Nothing is driven onto the bus; the PRU serves an emulated CPU.\<close>

definition serves_cpu :: "pru_main \<Rightarrow> bool" where
  "serves_cpu m \<longleftrightarrow> emulate_cpu m \<and> \<not> arb_mode_none m \<and> slave_in m = Slave_idle \<and> \<not> d_msyn m \<and> d_initialization m = 0 \<and>
     \<not> cpu_request m \<and> device_forwarded_grant_mask m = 0 \<and>
     \<not> ev_deviceregister (shared m) \<and> power_signals_cur (shared m) = 0 \<and> \<not> init_signal_cur (shared m)"

definition pru_idle :: "pru_main \<Rightarrow> bool" where
  "pru_idle m \<longleftrightarrow> serves_cpu m \<and> master_at m = Master_none \<and> \<not> intr_slave_waiting m \<and> device_request_mask m = 0 \<and>
     grant_bbsy_ssyn_wait_grant_mask m = 0 \<and> arbitrator_grant_mask m = 0 \<and> br_lines m = 0 \<and>
     \<not> d_sack m \<and> \<not> d_bbsy m \<and> \<not> d_ssyn m \<and> \<not> d_intr m \<and> d_data m = 0"

lemma quiet_slave_loop:
  assumes "slave_in m = Slave_idle" "\<not> d_msyn m"
  shows "slave_loop [no_cycle] m = Some m"
proof -
  have "slave_poll no_cycle m = m"
    using assms by (cases m) (simp add: slave_poll_def slave_view_def no_cycle_def sm_data_slave_def sm_data_slave_start_def
        pru_state.defs slave.defs Let_def)
  then show ?thesis using assms(1) by simp
qed

lemma quiet_round:
  assumes "serves_cpu m" "master_at m = Master_none"
  shows "main_round (quiet c) m =
    (let m1 = arbitrate (quiet c) 0 m
     in Some (execute_command c (if emulate_cpu m1 then sm_intr_slave False 0 m1 else m1)))"
proof -
  have "do_event_initializationsignals 0 m = m"
    using assms by (simp add: serves_cpu_def do_event_initializationsignals_def Let_def power_part_def)
  then show ?thesis
    using assms quiet_slave_loop [of m]
    by (simp add: serves_cpu_def main_round_def slave_round_def quiet_def Let_def)
qed

lemma lmbd_levels: "lmbd 1 = 0" "lmbd 2 = 1" "lmbd 4 = 2" "lmbd 8 = 3"
  by code_simp+

lemma level_bits:
  assumes "l < 4"
  defines "b \<equiv> push_bit l 1 :: u8"
  shows "b \<noteq> 0" "b AND PRIORITY_ARBITRATION_BIT_NP = 0" "b AND LATCH1_SACK = 0" "b AND LATCH1_BBSY = 0"
    "b AND PRIORITY_ARBITRATION_INTR_MASK = b" "b AND PRIORITY_ARBITRATION_BIT_MASK = b" "lmbd b = l" "b AND NOT b = 0"
proof -
  have "l \<in> {0, 1, 2, 3}" using assms(1) by auto
  then have "b \<noteq> 0 \<and> b AND PRIORITY_ARBITRATION_BIT_NP = 0 \<and> b AND LATCH1_SACK = 0 \<and> b AND LATCH1_BBSY = 0 \<and>
    b AND PRIORITY_ARBITRATION_INTR_MASK = b \<and> b AND PRIORITY_ARBITRATION_BIT_MASK = b \<and> lmbd b = l \<and> b AND NOT b = 0"
    unfolding b_def PRIORITY_ARBITRATION_BIT_NP_def LATCH1_SACK_def LATCH1_BBSY_def
      PRIORITY_ARBITRATION_INTR_MASK_def PRIORITY_ARBITRATION_BIT_MASK_def
    by (elim insertE emptyE; hypsubst; simp add: lmbd_levels)
  then show "b \<noteq> 0" "b AND PRIORITY_ARBITRATION_BIT_NP = 0" "b AND LATCH1_SACK = 0" "b AND LATCH1_BBSY = 0"
    "b AND PRIORITY_ARBITRATION_INTR_MASK = b" "b AND PRIORITY_ARBITRATION_BIT_MASK = b" "lmbd b = l" "b AND NOT b = 0"
    by blast+
qed

text \<open>A round in which nothing is on the bus puts the requests there.\<close>

lemma round_requests:
  assumes "serves_cpu m" "master_at m = Master_none" "\<not> intr_slave_waiting m" "\<not> d_intr m"
    "br_lines m = 0" "\<not> d_sack m" "\<not> d_bbsy m" "arbitrator_grant_mask m = 0" "grant_bbsy_ssyn_wait_grant_mask m = 0"
  shows "main_round (quiet c) m = Some (execute_command c (m\<lparr>arbitrator_grant_mask := 0, grant_out := 0, ifs_intr_arbitration_pending := False,
     br_lines := device_request_mask m AND PRIORITY_ARBITRATION_BIT_MASK, device_request_signalled_mask := device_request_mask m\<rparr>))"
  using assms
  by (simp add: quiet_round) (simp add: serves_cpu_def quiet_def arbitrate_def sm_arb_worker_cpu_def sm_arb_worker_device_def latch1_def
      new_grant_def sack_timeout_matters_def arb_wait_for_grant_def start_granted_def sm_intr_slave_def Let_def)

text \<open>The arbitrator grants the only request, the device side takes the grant.\<close>

lemma round_grant:
  assumes "serves_cpu m" "master_at m = Master_none" "\<not> intr_slave_waiting m" "\<not> d_intr m"
    "br_lines m = push_bit l 1" "\<not> d_sack m" "\<not> d_bbsy m" "arbitrator_grant_mask m = 0" "grant_bbsy_ssyn_wait_grant_mask m = 0"
    "device_request_mask m = push_bit l 1" "l < 4" "unat (ifs_priority_level m) < l + 4" "ifs_intr_arbitration_pending m"
  shows "main_round (quiet c) m = Some (execute_command c (m\<lparr>arbitrator_grant_mask := push_bit l 1, grant_out := push_bit l 1,
     ifs_intr_arbitration_pending := False, device_request_signalled_mask := push_bit l 1,
     br_lines := 0, d_sack := True, device_request_mask := 0, grant_bbsy_ssyn_wait_grant_mask := push_bit l 1\<rparr>))"
proof -
  define b where "b = (push_bit l 1 :: u8)"
  note lb = level_bits [OF assms(11), folded b_def] and a = assms [folded b_def]
  have f: "l + 4 \<noteq> unat CPU_PRIORITY_LEVEL_FETCHING" using assms(11) by (simp add: CPU_PRIORITY_LEVEL_FETCHING_def)
  have v: "latch1 0 m = b" using a by (simp add: latch1_def)
  have s: "push_bit (l + 4 - 4) 1 = b" by (simp only: b_def add_diff_cancel_right')
  have n: "new_grant b m = b"
    unfolding new_grant_def Let_def lb s using a(8,12,13) f lb(1) by simp
  have cpu: "sm_arb_worker_cpu 0 False m = (b, m\<lparr>arbitrator_grant_mask := b, grant_out := b, ifs_intr_arbitration_pending := False\<rparr>)"
    unfolding sm_arb_worker_cpu_def Let_def v n sack_timeout_matters_def lb by (simp add: lb)
  have w: "(b AND NOT b) OR (NOT b AND b) = 0" using lb(8) by (simp add: and.commute)
  have "arbitrate (quiet c) 0 m = m\<lparr>arbitrator_grant_mask := b, grant_out := b,
     ifs_intr_arbitration_pending := False, device_request_signalled_mask := b,
     br_lines := 0, d_sack := True, device_request_mask := 0, grant_bbsy_ssyn_wait_grant_mask := b\<rparr>"
    using a lb(1,6,8) w
    by (simp add: serves_cpu_def quiet_def arbitrate_def cpu sm_arb_worker_device_def arb_wait_for_grant_def
      start_granted_def Let_def and.commute)
  then show ?thesis
    using a(1-4) unfolding b_def [symmetric] by (simp add: quiet_round) (simp add: serves_cpu_def sm_intr_slave_def)
qed


text \<open>The bus is free: the vector of the granted level is taken and the transaction starts.\<close>

lemma round_start:
  assumes "serves_cpu m" "master_at m = Master_none" "\<not> intr_slave_waiting m" "\<not> d_intr m" "\<not> d_ssyn m"
    "br_lines m = 0" "d_sack m" "\<not> d_bbsy m" "grant_bbsy_ssyn_wait_grant_mask m = push_bit l 1"
    "device_request_mask m = 0" "l < 4"
  shows "main_round (quiet c) m = Some (execute_command c (m\<lparr>arbitrator_grant_mask := 0, grant_out := 0,
     ifs_intr_arbitration_pending := False, br_lines := 0, device_request_signalled_mask := 0,
     grant_bbsy_ssyn_wait_grant_mask := 0, intr_vector := mbox_vector (mbox_intr (shared m)) l,
     intr_level_index := l, master_at := Intr_start\<rparr>))"
proof -
  define b where "b = (push_bit l 1 :: u8)"
  note lb = level_bits [OF assms(11), folded b_def] and a = assms [folded b_def]
  have v: "latch1 0 m AND LATCH1_SACK \<noteq> 0" using a by (simp add: latch1_def LATCH1_SACK_def)
  have cpu: "sm_arb_worker_cpu 0 False m = (0, m\<lparr>arbitrator_grant_mask := 0, grant_out := 0, ifs_intr_arbitration_pending := False\<rparr>)"
    using v by (simp add: sm_arb_worker_cpu_def Let_def new_grant_def)
  have "arbitrate (quiet c) 0 m = m\<lparr>arbitrator_grant_mask := 0, grant_out := 0,
     ifs_intr_arbitration_pending := False, br_lines := 0, device_request_signalled_mask := 0,
     grant_bbsy_ssyn_wait_grant_mask := 0, intr_vector := mbox_vector (mbox_intr (shared m)) l,
     intr_level_index := l, master_at := Intr_start\<rparr>"
    using a lb
    by (simp add: serves_cpu_def quiet_def arbitrate_def cpu sm_arb_worker_device_def latch1_def LATCH1_SACK_def LATCH1_BBSY_def
      start_granted_def Let_def)
  then show ?thesis
    using a(1-4) by (simp add: quiet_round) (simp add: serves_cpu_def sm_intr_slave_def)
qed

lemma round_intr:
  assumes "master_at m = Intr_start" "emulate_cpu m" "\<not> intr_slave_waiting m" "\<not> d_intr m"
  shows "main_round (quiet c) m = Some (execute_command c (m\<lparr>d_bbsy := True, master_at := Intr_1\<rparr>))"
  using assms by (simp add: main_round_def master_round_def sm_intr_master_def quiet_def sm_intr_slave_def)

lemma round_intr_1:
  assumes "master_at m = Intr_1" "emulate_cpu m" "\<not> intr_slave_waiting m"
  shows "main_round (quiet c) m = Some (execute_command c
    (m\<lparr>d_data := intr_vector m, d_intr := True, d_sack := False, master_at := Intr_2,
       shared := (shared m)\<lparr>ev_intr_slave := True, ev_intr_slave_vector := intr_vector m\<rparr>, d_ssyn := True,
       ifs_priority_level := CPU_PRIORITY_LEVEL_FETCHING, intr_slave_waiting := True\<rparr>))"
  using assms by (simp add: main_round_def master_round_def sm_intr_master_def quiet_def sm_intr_slave_def upd_shared_def)

lemma round_intr_2:
  assumes "master_at m = Intr_2" "emulate_cpu m" "intr_slave_waiting m" "d_ssyn m" "ev_intr_slave (shared m)"
    "\<not> ev_intr_master (shared m) (intr_level_index m)"
  shows "main_round (quiet c) m = Some (execute_command c
    (m\<lparr>shared := (shared m)\<lparr>ev_intr_master := (ev_intr_master (shared m))(intr_level_index m := True)\<rparr>, d_data := 0,
       d_intr := False, d_bbsy := False, master_at := Master_none\<rparr>))"
  using assms by (simp add: main_round_def master_round_def sm_intr_master_def quiet_def sm_intr_slave_def upd_shared_def)

text \<open>What the ARM's side of the scheduler goes on with.\<close>

definition scheduler_view :: "worker_state \<Rightarrow>
    (nat \<Rightarrow> priority_request_level) \<times> (req_id \<Rightarrow> request) \<times> dev_id option" where
  "scheduler_view s = (request_levels s, request_of s, registered_cpu s)"

text \<open>From the start of the transaction to its end.\<close>

lemma transaction_rounds:
  assumes "master_at m = Intr_start" "serves_cpu m" "\<not> intr_slave_waiting m" "\<not> d_intr m" "br_lines m = 0" "device_request_mask m = 0"
    "\<not> ev_intr_master (shared m) (intr_level_index m)"
  shows "\<exists>m'. main_rounds (map quiet [OP_NONE, OP_NONE, OP_NONE]) m = Some m' \<and>
    ev_intr_slave (shared m') \<and> ev_intr_slave_vector (shared m') = intr_vector m \<and>
    ev_intr_master (shared m') (intr_level_index m) \<and> ifs_priority_level m' = CPU_PRIORITY_LEVEL_FETCHING \<and>
    device_request_mask m' = 0 \<and> latch1 0 m' = 0 \<and> \<not> d_intr m' \<and> master_at m' = Master_none \<and>
    scheduler_view (shared m') = scheduler_view (shared m)"
proof -
  have none: "execute_command OP_NONE x = x" for x by (simp add: execute_command_def)
  have e: "emulate_cpu m" using assms(2) by (simp add: serves_cpu_def)
  define m5 where "m5 = m\<lparr>d_bbsy := True, master_at := Intr_1\<rparr>"
  have r5: "main_round (quiet OP_NONE) m = Some m5"
    using round_intr [of m OP_NONE] assms(1,3,4) e unfolding m5_def none by simp
  define m6 where "m6 = m5\<lparr>d_data := intr_vector m5, d_intr := True, d_sack := False, master_at := Intr_2,
       shared := (shared m5)\<lparr>ev_intr_slave := True, ev_intr_slave_vector := intr_vector m5\<rparr>, d_ssyn := True,
       ifs_priority_level := CPU_PRIORITY_LEVEL_FETCHING, intr_slave_waiting := True\<rparr>"
  have r6: "main_round (quiet OP_NONE) m5 = Some m6"
    using round_intr_1 [of m5 OP_NONE] assms(3) e unfolding m6_def none by (simp add: m5_def)
  define m7 where "m7 = m6\<lparr>shared := (shared m6)\<lparr>ev_intr_master := (ev_intr_master (shared m6))(intr_level_index m6 := True)\<rparr>,
       d_data := 0, d_intr := False, d_bbsy := False, master_at := Master_none\<rparr>"
  have r7: "main_round (quiet OP_NONE) m6 = Some m7"
    using round_intr_2 [of m6 OP_NONE] e assms(7) unfolding m7_def none by (simp add: m6_def m5_def)
  have "main_rounds (map quiet [OP_NONE, OP_NONE, OP_NONE]) m = Some m7" using r5 r6 r7 by simp
  moreover have "ev_intr_slave (shared m7)" "ev_intr_slave_vector (shared m7) = intr_vector m" "ev_intr_master (shared m7) (intr_level_index m)"
    "ifs_priority_level m7 = CPU_PRIORITY_LEVEL_FETCHING" "device_request_mask m7 = 0" "latch1 0 m7 = 0" "\<not> d_intr m7"
    "master_at m7 = Master_none" "scheduler_view (shared m7) = scheduler_view (shared m)"
    using assms(5,6) by (simp_all add: m7_def m6_def m5_def latch1_def scheduler_view_def)
  ultimately show ?thesis by blast
qed

text \<open>
  An interrupt a device requests of an emulated CPU arrives: on an otherwise quiet bus, once
  the CPU grants interrupts, with its priority below the level, the seventh round leaves the vector as an
  event for the ARM, the transaction signalled as complete, no request, SACK, BBSY or INTR on the bus, and
  the CPU's priority marked as not valid until it has fetched its new PSW. The ARM's request tables are as before.
\<close>

lemma interrupt_reaches_cpu:
  assumes "pru_idle m" "l < 4" "unat (ifs_priority_level m) < l + 4"
    "priority_arbitration_bit (mbox_intr (shared m)) = push_bit l 1"
    "\<not> ev_intr_slave (shared m)" "\<not> ev_intr_master (shared m) l"
  shows "\<exists>m'. main_rounds (map quiet [OP_INTR, OP_ARB_GRANT_INTR_REQUESTS, OP_NONE, OP_NONE, OP_NONE, OP_NONE, OP_NONE]) m = Some m' \<and>
    ev_intr_slave (shared m') \<and> ev_intr_slave_vector (shared m') = mbox_vector (mbox_intr (shared m)) l \<and>
    ev_intr_master (shared m') l \<and> ifs_priority_level m' = CPU_PRIORITY_LEVEL_FETCHING \<and>
    device_request_mask m' = 0 \<and> latch1 0 m' = 0 \<and> \<not> d_intr m' \<and> master_at m' = Master_none \<and>
    scheduler_view (shared m') = scheduler_view (shared m)"
proof -
  define b where "b = (push_bit l 1 :: u8)"
  note lb = level_bits [OF assms(2), folded b_def] and a = assms(4) [folded b_def]
  let ?mb = "mbox_intr (shared m)"
  define m1 where "m1 = execute_command OP_INTR (m\<lparr>arbitrator_grant_mask := 0, grant_out := 0, ifs_intr_arbitration_pending := False,
     br_lines := device_request_mask m AND PRIORITY_ARBITRATION_BIT_MASK, device_request_signalled_mask := device_request_mask m\<rparr>)"
  have r1: "main_round (quiet OP_INTR) m = Some m1"
    using assms(1) unfolding m1_def pru_idle_def by (intro round_requests) simp_all
  have idle: "serves_cpu m" "master_at m = Master_none" "\<not> intr_slave_waiting m" "\<not> d_intr m" "\<not> d_ssyn m" "br_lines m = 0" "\<not> d_sack m"
    "\<not> d_bbsy m" "arbitrator_grant_mask m = 0" "grant_bbsy_ssyn_wait_grant_mask m = 0" "device_request_mask m = 0"
    using assms(1) by (simp_all add: pru_idle_def)
  obtain sh where sh: "m1 = m\<lparr>arbitrator_grant_mask := 0, grant_out := 0, ifs_intr_arbitration_pending := False,
     br_lines := 0, device_request_signalled_mask := 0, device_request_mask := b, shared := sh\<rparr>"
    "mbox_intr sh = ?mb" "ev_intr_slave sh = ev_intr_slave (shared m)" "ev_intr_master sh = ev_intr_master (shared m)"
    "serves_cpu m1" "scheduler_view sh = scheduler_view (shared m)"
    using idle a unfolding m1_def
    by (cases "iopage_register_handle ?mb = 0")
      (force simp: execute_command_def Let_def upd_shared_def upd_pru_register_def serves_cpu_def scheduler_view_def)+
  define m2 where "m2 = execute_command OP_ARB_GRANT_INTR_REQUESTS (m1\<lparr>arbitrator_grant_mask := 0, grant_out := 0,
     ifs_intr_arbitration_pending := False, br_lines := device_request_mask m1 AND PRIORITY_ARBITRATION_BIT_MASK,
     device_request_signalled_mask := device_request_mask m1\<rparr>)"
  have f1: "master_at m1 = Master_none" "\<not> intr_slave_waiting m1" "\<not> d_intr m1" "\<not> d_ssyn m1" "br_lines m1 = 0" "\<not> d_sack m1"
    "\<not> d_bbsy m1" "arbitrator_grant_mask m1 = 0" "grant_bbsy_ssyn_wait_grant_mask m1 = 0" "device_request_mask m1 = b"
    "ifs_priority_level m1 = ifs_priority_level m" "shared m1 = sh" "emulate_cpu m1"
    using idle sh(5) unfolding sh(1) by (simp_all add: serves_cpu_def)
  have r2: "main_round (quiet OP_ARB_GRANT_INTR_REQUESTS) m1 = Some m2"
    unfolding m2_def by (rule round_requests) (use f1 sh(5) in simp_all)
  have f2: "master_at m2 = Master_none" "\<not> intr_slave_waiting m2" "\<not> d_intr m2" "\<not> d_ssyn m2" "br_lines m2 = b" "\<not> d_sack m2"
    "\<not> d_bbsy m2" "arbitrator_grant_mask m2 = 0" "grant_bbsy_ssyn_wait_grant_mask m2 = 0" "device_request_mask m2 = b"
    "ifs_priority_level m2 = ifs_priority_level m" "shared m2 = sh" "ifs_intr_arbitration_pending m2" "serves_cpu m2"
    using f1 sh(5) lb(6) by (simp_all add: m2_def execute_command_def serves_cpu_def)
  define m3 where "m3 = m2\<lparr>arbitrator_grant_mask := b, grant_out := b,
     ifs_intr_arbitration_pending := False, device_request_signalled_mask := b,
     br_lines := 0, d_sack := True, device_request_mask := 0, grant_bbsy_ssyn_wait_grant_mask := b\<rparr>"
  have none: "execute_command OP_NONE x = x" for x by (simp add: execute_command_def)
  have r3: "main_round (quiet OP_NONE) m2 = Some m3"
    using round_grant [of m2 l OP_NONE] f2 assms(2,3) unfolding m3_def b_def none by simp
  define m4 where "m4 = m3\<lparr>arbitrator_grant_mask := 0, grant_out := 0,
     ifs_intr_arbitration_pending := False, br_lines := 0, device_request_signalled_mask := 0,
     grant_bbsy_ssyn_wait_grant_mask := 0, intr_vector := mbox_vector (mbox_intr (shared m3)) l,
     intr_level_index := l, master_at := Intr_start\<rparr>"
  have s3: "serves_cpu m3" using f2(14) by (simp add: m3_def serves_cpu_def)
  have r4: "main_round (quiet OP_NONE) m3 = Some m4"
    using round_start [of m3 l OP_NONE] s3 f2 assms(2) unfolding m4_def none by (simp add: m3_def b_def)
  have f4: "master_at m4 = Intr_start" "serves_cpu m4" "\<not> intr_slave_waiting m4" "\<not> d_intr m4" "br_lines m4 = 0"
    "device_request_mask m4 = 0" "\<not> ev_intr_master (shared m4) (intr_level_index m4)" "intr_vector m4 = mbox_vector ?mb l"
    "intr_level_index m4 = l" "scheduler_view (shared m4) = scheduler_view (shared m)"
    using f2 s3 sh(6) sh(2,4) assms(6) by (simp_all add: m4_def m3_def serves_cpu_def)
  from transaction_rounds [OF f4(1-7)] show ?thesis using r1 r2 r3 r4 f4(8-10) by simp
qed

text \<open>
  A cancel comes too late once the PRU has taken the grant: the transaction takes place
  all the same, with the vector that is in the mailbox when the bus gets free, and its completion is
  signalled for the level, to whatever request is active there by then.
\<close>

theorem cancelled_interrupt_is_sent:
  assumes "grant_bbsy_ssyn_wait_grant_mask m = push_bit l 1" "l < 4" "d_sack m" "master_at m = Master_none"
    "device_request_mask m = 0" "br_lines m = 0" "\<not> d_bbsy m" "\<not> d_ssyn m" "\<not> d_intr m" "\<not> intr_slave_waiting m"
    "serves_cpu (m\<lparr>shared := s\<rparr>)" "\<not> ev_intr_master s l"
  shows "\<exists>m'. main_rounds (map quiet [OP_NONE, OP_NONE, OP_NONE, OP_NONE]) ((execute_command OP_INTR_CANCEL m)\<lparr>shared := s\<rparr>) = Some m' \<and>
    ev_intr_slave (shared m') \<and> ev_intr_slave_vector (shared m') = mbox_vector (mbox_intr s) l \<and> ev_intr_master (shared m') l"
proof -
  let ?m = "(execute_command OP_INTR_CANCEL m)\<lparr>shared := s\<rparr>"
  have c: "?m = m\<lparr>shared := s\<rparr>" using assms(5) by (cases m) (simp add: execute_command_def)
  define m4 where "m4 = ?m\<lparr>arbitrator_grant_mask := 0, grant_out := 0,
     ifs_intr_arbitration_pending := False, br_lines := 0, device_request_signalled_mask := 0,
     grant_bbsy_ssyn_wait_grant_mask := 0, intr_vector := mbox_vector (mbox_intr (shared ?m)) l,
     intr_level_index := l, master_at := Intr_start\<rparr>"
  have r4: "main_round (quiet OP_NONE) ?m = Some m4"
    using round_start [of ?m l OP_NONE] assms unfolding m4_def c by (simp add: execute_command_def)
  have f4: "master_at m4 = Intr_start" "serves_cpu m4" "\<not> intr_slave_waiting m4" "\<not> d_intr m4" "br_lines m4 = 0"
    "device_request_mask m4 = 0" "\<not> ev_intr_master (shared m4) (intr_level_index m4)" "intr_vector m4 = mbox_vector (mbox_intr s) l"
    "intr_level_index m4 = l"
    using assms unfolding m4_def c by (simp_all add: serves_cpu_def)
  from transaction_rounds [OF f4(1-7)] show ?thesis using r4 f4(8,9) by simp blast
qed


subsection \<open>A concrete machine\<close>

definition sample_shared :: worker_state where
  "sample_shared = (sample_worker UNIBUS)\<lparr>ev_deviceregister := False, init_signal_cur := False,
     mbox_intr := \<lparr>mbox_vector = (\<lambda>l. 0x40 + of_nat l * 4), priority_arbitration_bit = 4, mbox_level_index = 2,
       iopage_register_value = 0, iopage_register_handle = 0\<rparr>\<rparr>"

definition sample_main :: pru_main where
  "sample_main = dma_machine.extend
     (pru_state.extend \<lparr>shared = sample_shared, memory_start_addr = 0, memory_limit_addr = 0x100, ddr_words = (\<lambda>_. 0)\<rparr>
        (dma_machine.fields Dma_stopped 0 0 False 0 False False False 0 0 0))
     (pru_main.fields 0 0 0 0 False 0 0 0 Master_none Slave_idle False True False 3 False 0 0 False False 0)"

lemma sample_main_fields:
  "shared sample_main = sample_shared" "ifs_priority_level sample_main = 3" "ev_intr_slave sample_shared = False"
  "ev_intr_master sample_shared = (\<lambda>_. False)" "priority_arbitration_bit (mbox_intr sample_shared) = 4"
  "mbox_vector (mbox_intr sample_shared) 2 = 0x48" "power_signals_cur sample_shared = 0" "\<not> init_signal_cur sample_shared"
  "\<not> ev_deviceregister sample_shared"
  by (simp_all add: sample_main_def sample_shared_def dma_machine.defs pru_state.defs pru_main.defs
      sample_worker_def adapter_state.defs worker_state.defs sample_adapter_def)

lemma sample_main_idle: "pru_idle sample_main" "pending l sample_main = 0"
  using sample_main_fields(1,7-9) unfolding pru_idle_def serves_cpu_def pending_def
  by (simp_all add: sample_main_def dma_machine.defs pru_state.defs pru_main.defs)

theorem cancelled_interrupt_is_sent_witness:
  "\<exists>m'. main_rounds (map quiet [OP_NONE, OP_NONE, OP_NONE, OP_NONE])
      ((execute_command OP_INTR_CANCEL (sample_main\<lparr>grant_bbsy_ssyn_wait_grant_mask := 4, d_sack := True\<rparr>))\<lparr>shared := sample_shared\<rparr>) =
      Some m' \<and> ev_intr_slave_vector (shared m') = 0x48"
proof -
  let ?m = "sample_main\<lparr>grant_bbsy_ssyn_wait_grant_mask := 4, d_sack := True\<rparr>"
  have i: "pru_idle sample_main" by (rule sample_main_idle)
  have s: "serves_cpu (?m\<lparr>shared := sample_shared\<rparr>)" using i sample_main_fields by (simp add: pru_idle_def serves_cpu_def)
  have "grant_bbsy_ssyn_wait_grant_mask ?m = push_bit 2 1" by simp
  from cancelled_interrupt_is_sent [OF this _ _ _ _ _ _ _ _ _ s] i show ?thesis
    by (simp add: pru_idle_def sample_main_fields) blast
qed

theorem arbitrator_grants_witness:
  "\<exists>g m'. sm_arb_worker_cpu 0 False (sample_main\<lparr>br_lines := 4, ifs_intr_arbitration_pending := True\<rparr>) = (g, m') \<and>
     single_grant g \<and> arbitrator_grant_mask m' = g"
proof -
  let ?m = "sample_main\<lparr>br_lines := 4, ifs_intr_arbitration_pending := True\<rparr>"
  obtain g m' where r: "sm_arb_worker_cpu 0 False ?m = (g, m')" by (rule prod.exhaust)
  have "single_grant (arbitrator_grant_mask ?m)"
    using sample_main_idle(1) by (simp add: pru_idle_def single_grant_def)
  from arbitrator_grants [OF this r] r show ?thesis by blast
qed

theorem no_spurious_interrupts_witness:
  "\<exists>m. pru_run 2 sample_main 1 0 m \<and> pending 2 m \<le> 1"
proof -
  have "\<exists>m. main_round (quiet OP_INTR) sample_main = Some m"
    using sample_main_idle(1) round_requests [of sample_main OP_INTR] unfolding pru_idle_def by blast
  then obtain m where m: "main_round (quiet OP_INTR) sample_main = Some m" ..
  have "m = execute_command OP_INTR (sample_main\<lparr>arbitrator_grant_mask := 0, grant_out := 0, ifs_intr_arbitration_pending := False,
     br_lines := device_request_mask sample_main AND PRIORITY_ARBITRATION_BIT_MASK,
     device_request_signalled_mask := device_request_mask sample_main\<rparr>)"
    using sample_main_idle(1) round_requests [of sample_main OP_INTR] m unfolding pru_idle_def by simp
  then have "mbox_intr (shared m) = mbox_intr sample_shared" "master_at m = Master_none"
    using sample_main_idle(1) sample_main_fields(1) by (simp_all add: command_rest pru_idle_def)
  then have "raises 2 (quiet OP_INTR) m" "\<not> starts 2 sample_main m"
    by (simp_all add: raises_def starts_def intr_started_def quiet_def sample_main_fields)
  with pru_run.round [OF pru_run.start m, of 2] have "pru_run 2 sample_main 1 0 m" by simp
  with no_spurious_interrupts [OF this] sample_main_idle(2) [of 2] show ?thesis by auto
qed

end
