(* ===== verification/Device_INTR.thy ===== *)
theory Device_INTR
  imports Device_DMA PRU_Interrupts Scheduler_Runs
begin

text \<open>
  The interrupt of a device from end to end: \<^verbatim>\<open>qunibusadapter_c::INTR\<close> puts it into the tables and the
  mailbox, the PRU gets it granted and sends the vector, the worker completes the request and
  passes the vector to the emulated CPU.
\<close>

lemma INTR_alone:
  assumes "INTR r ireg val s = Some t" "request_levels s (level_index (request_of s r)) = idle_level" "\<not> line_INIT s"
  defines "l \<equiv> level_index (request_of s r)" and "slot \<equiv> priority_slot (request_of s r)"
  shows "l < 4" "slot < 32" "request_levels t l = lone_level r slot (Some r)"
    "priority_arbitration_bit (mbox_intr t) = push_bit l 1" "mbox_vector (mbox_intr t) l = vector (request_of s r)"
    "priority_slot (request_of t r) = slot"
proof -
  have b: "slot < 32" "l \<le> 3" using assms(1) by (auto simp: INTR_def Let_def l_def slot_def split: if_splits)
  have free: "slot_request (request_levels s l) slot = None" "active (request_levels s l) = None"
    using assms(2) by (simp_all add: idle_level_def l_def)
  have "Option.bind (intr_prepare r ireg val s) (schedule_and_start r) = Some t"
    using assms(1,3) free(1) by (simp add: INTR_def Let_def l_def slot_def split: if_splits)
  then obtain s2 where s2: "intr_prepare r ireg val s = Some s2" "schedule_and_start r s2 = Some t"
    by (auto simp: Option.bind_eq_Some_conv)
  from intr_prepare_effect [OF s2(1)] obtain rq where
    p: "request_levels s2 = request_levels s" "request_of s2 = (request_of s)(r := rq)"
      "intr_view (request_of s r) rq" by blast
  have q: "level_index (request_of s2 r) = l" "priority_slot (request_of s2 r) = slot" "vector (request_of s2 r) = vector (request_of s r)"
    using p(2,3) by (simp_all add: intr_view_def l_def slot_def)
  let ?e = "entered r l slot s2"
  have lv: "request_levels ?e l = lone_level r slot None"
    using assms(2) p(1) by (simp add: entered_def lone_level_def idle_level_def l_def)
  have "slot_request (request_levels s2 l) slot = None" "active (request_levels s2 l) = None"
    using free p(1) by simp_all
  from schedule_and_start_free(1) [OF q(1,2) this] activate_lone [OF lv b(1)] s2(2)
  have t: "request_execute_active_on_PRU l (upd_level l (\<lambda>prl. prl\<lparr>active := Some r\<rparr>) ?e) = Some t" by simp
  have re: "request_of ?e r = request_of s2 r" by (simp add: entered_def)
  have x: "execute_intr_on_PRU r (upd_level l (\<lambda>prl. prl\<lparr>active := Some r\<rparr>) ?e) = Some t"
    using t b(2) by (simp add: request_execute_active_on_PRU_def)
  show "l < 4" "slot < 32" using b by simp_all
  have bit: "priority_level_idx_to_arbitration_bit l = push_bit l 1" if "l \<in> {0, 1, 2, 3}"
    using that unfolding priority_level_idx_to_arbitration_bit_def
    by (elim insertE emptyE) (simp_all add: numeral_eq_Suc)
  have l4: "l \<in> {0, 1, 2, 3}" using b(2) by auto
  show "request_levels t l = lone_level r slot (Some r)"
    "priority_arbitration_bit (mbox_intr t) = push_bit l 1" "mbox_vector (mbox_intr t) l = vector (request_of s r)"
    "priority_slot (request_of t r) = slot"
    using x lv re q bit [OF l4]
    by (auto simp: execute_intr_on_PRU_def Let_def lone_level_def split: if_splits)
qed

lemma complete_lone_intr:
  assumes "request_levels s l = lone_level r slot (Some r)" "priority_slot (request_of s r) = slot" "slot < 32"
  obtains u where "worker_intr_complete_event l s = Some u" "complete (request_of u r)" "request_levels u l = idle_level"
proof -
  let ?u = "upd_request r (\<lambda>rq. rq\<lparr>executing_on_PRU := False, complete := True\<rparr>)
     (upd_level l (\<lambda>prl. prl\<lparr>slot_request := (slot_request prl)(slot := None),
        slot_request_mask := slot_request_mask prl AND NOT (slot_bit slot), active := None\<rparr>) s)"
  have c: "request_active_complete l True s = Some ?u"
    using assms by (simp add: request_active_complete_def Let_def lone_level_def)
  have "slot_bit slot AND NOT (slot_bit slot) = 0" by simp
  then have i: "request_levels ?u l = idle_level"
    using assms(1) by (simp add: lone_level_def idle_level_def)
  have "worker_intr_complete_event l s = Some ?u"
    using c activate_idle [OF i] by (simp add: worker_intr_complete_event_def activate_and_execute_def)
  then show thesis by (rule that) (use i in simp_all)
qed

text \<open>
  Property C3. A device's interrupt alone in its table, requested of an emulated CPU that runs below its level:
  after the seven rounds of the PRU (and no sooner change of the bus) the worker finds the request's own
  vector for the CPU, and its completion event takes the request out of the tables and wakes the device.
\<close>

theorem device_interrupt_delivered:
  assumes "INTR r ireg val s = Some (shared m)" "\<not> line_INIT s"
    "l = level_index (request_of s r)" "request_levels s l = idle_level"
    "pru_idle m" "unat (ifs_priority_level m) < l + 4" "\<not> ev_intr_slave (shared m)" "\<not> ev_intr_master (shared m) l"
  shows "\<exists>m' u. main_rounds (map quiet [OP_INTR, OP_ARB_GRANT_INTR_REQUESTS, OP_NONE, OP_NONE, OP_NONE, OP_NONE, OP_NONE]) m = Some m' \<and>
    ev_intr_slave (shared m') \<and> ev_intr_slave_vector (shared m') = vector (request_of s r) \<and>
    ev_intr_master (shared m') l \<and> worker_intr_complete_event l (shared m') = Some u \<and>
    complete (request_of u r) \<and> request_levels u l = idle_level"
proof -
  have f: "l < 4" "priority_slot (request_of s r) < 32"
    "request_levels (shared m) l = lone_level r (priority_slot (request_of s r)) (Some r)"
    "priority_arbitration_bit (mbox_intr (shared m)) = push_bit l 1"
    "mbox_vector (mbox_intr (shared m)) l = vector (request_of s r)"
    "priority_slot (request_of (shared m) r) = priority_slot (request_of s r)"
    using INTR_alone [OF assms(1) _ assms(2)] assms(3,4) by simp_all
  from interrupt_reaches_cpu [OF assms(5) f(1) assms(6) f(4) assms(7,8)] obtain m' where
    m': "main_rounds (map quiet [OP_INTR, OP_ARB_GRANT_INTR_REQUESTS, OP_NONE, OP_NONE, OP_NONE, OP_NONE, OP_NONE]) m = Some m'"
      "ev_intr_slave (shared m')" "ev_intr_slave_vector (shared m') = vector (request_of s r)"
      "ev_intr_master (shared m') l" "scheduler_view (shared m') = scheduler_view (shared m)"
    unfolding f(5) by blast
  have "request_levels (shared m') l = lone_level r (priority_slot (request_of s r)) (Some r)"
    "priority_slot (request_of (shared m') r) = priority_slot (request_of s r)"
    using m'(5) f(3,6) by (simp_all add: scheduler_view_def)
  then obtain u where "worker_intr_complete_event l (shared m') = Some u" "complete (request_of u r)" "request_levels u l = idle_level"
    using complete_lone_intr f(2) by blast
  with m' show ?thesis by blast
qed


subsection \<open>A concrete interrupt\<close>

definition sample_intr_state :: worker_state where
  "sample_intr_state = sample_shared\<lparr>line_INIT := False, request_levels := (\<lambda>_. idle_level),
     request_of := (\<lambda>_. sample_request\<lparr>level_index := 2, priority_slot := 5, vector := 0xe0\<rparr>)\<rparr>"

lemma sample_intr_raised:
  "\<exists>t. INTR 0 None 7 sample_intr_state = Some t \<and> ev_deviceregister t = ev_deviceregister sample_shared \<and>
     power_signals_cur t = power_signals_cur sample_shared \<and> init_signal_cur t = init_signal_cur sample_shared \<and>
     ev_intr_slave t = ev_intr_slave sample_shared \<and> ev_intr_master t = ev_intr_master sample_shared"
proof -
  let ?s = sample_intr_state
  let ?rq = "(request_of ?s 0)\<lparr>complete := False, executing_on_PRU := False,
      interrupt_register := None, interrupt_register_value := 7\<rparr>"
  have p: "intr_prepare 0 None 7 ?s = Some (upd_request 0 (\<lambda>_. ?rq) ?s)"
    by (simp add: intr_prepare_def upd_request_def)
  have f: "level_index (request_of ?s 0) = 2" "priority_slot (request_of ?s 0) = 5" "vector (request_of ?s 0) = 0xe0"
    "\<not> line_INIT ?s" "slot_request (request_levels ?s 2) 5 = None"
    by (simp_all add: sample_intr_state_def idle_level_def)
  have "INTR 0 None 7 ?s = schedule_and_start 0 (upd_request 0 (\<lambda>_. ?rq) ?s)"
    by (simp add: INTR_def Let_def p f)
  then show ?thesis
    by (simp add: sample_intr_state_def idle_level_def sample_request_def schedule_and_start_def
        request_schedule_def request_activate_lowest_slot_def builtin_ffs_slot_5 mask_matches_active_def
        request_execute_active_on_PRU_def execute_intr_on_PRU_def upd_request_def upd_level_def Let_def)
qed

theorem device_interrupt_delivered_witness:
  "\<exists>t m'. INTR 0 None 7 sample_intr_state = Some t \<and>
    main_rounds (map quiet [OP_INTR, OP_ARB_GRANT_INTR_REQUESTS, OP_NONE, OP_NONE, OP_NONE, OP_NONE, OP_NONE])
      (sample_main\<lparr>shared := t\<rparr>) = Some m' \<and> ev_intr_slave_vector (shared m') = 0xe0"
proof -
  obtain t where t: "INTR 0 None 7 sample_intr_state = Some t"
    "ev_deviceregister t = ev_deviceregister sample_shared" "power_signals_cur t = power_signals_cur sample_shared"
    "init_signal_cur t = init_signal_cur sample_shared" "ev_intr_slave t = ev_intr_slave sample_shared"
    "ev_intr_master t = ev_intr_master sample_shared" using sample_intr_raised by blast
  let ?m = "sample_main\<lparr>shared := t\<rparr>"
  have i: "pru_idle ?m"
    using sample_main_idle(1) t sample_main_fields by (simp add: pru_idle_def serves_cpu_def)
  have r: "INTR 0 None 7 sample_intr_state = Some (shared ?m)" using t(1) by simp
  have s: "\<not> line_INIT sample_intr_state" "2 = level_index (request_of sample_intr_state 0)"
    "request_levels sample_intr_state 2 = idle_level" "vector (request_of sample_intr_state 0) = 0xe0"
    by (simp_all add: sample_intr_state_def)
  have v: "unat (ifs_priority_level ?m) < 2 + 4" "\<not> ev_intr_slave (shared ?m)" "\<not> ev_intr_master (shared ?m) 2"
    using t sample_main_fields by simp_all
  from device_interrupt_delivered [OF r s(1-3) i v] s(4) t(1) show ?thesis by auto
qed

end
