(* ===== verification/KA11.thy ===== *)
theory KA11
  imports Prelude
begin

text \<open>
  The CPU of the PDP-11/20, \<^verbatim>\<open>10.02_devices/2_src/cpu20/ka11.c\<close>.

  The functions of \<^verbatim>\<open>cpu_bus_adapter.h\<close> through which the core reaches the bus are the
  record \<open>cpu_bus\<close>, over a type of environments; \<open>CPU_Memory\<close> has the ones of \<^verbatim>\<open>cpu.cpp\<close>. A
  function that may end in \<^verbatim>\<open>goto be\<close>, a bus error, gives a \<open>fallible\<close>; the
  label an instruction jumps to is an \<open>ending\<close>. Tracing is left out, and so is the mutex: setting an
  interrupt is atomic.
\<close>

record 'e cpu_bus =
  unibone_dati :: "u32 \<Rightarrow> 'e \<Rightarrow> u16 option \<times> 'e"
  unibone_dato :: "u32 \<Rightarrow> u16 \<Rightarrow> 'e \<Rightarrow> bool \<times> 'e"
  unibone_datob :: "u32 \<Rightarrow> u16 \<Rightarrow> 'e \<Rightarrow> bool \<times> 'e"
  unibone_prioritylevelchange :: "u8 \<Rightarrow> 'e \<Rightarrow> 'e"
  unibone_bus_init :: "'e \<Rightarrow> 'e"
  unibone_grant_interrupts :: "'e \<Rightarrow> 'e"

datatype ka11_state = KA11_STATE_HALTED | KA11_STATE_RUNNING | KA11_STATE_WAITING

record 'e ka11 =
  r :: "nat \<Rightarrow> u16"
  b_reg :: u16
  ba :: u16
  bdata :: u16
  ir :: u16
  psw :: u8
  traps :: u32
  be :: nat
  kstate :: ka11_state
  external_intr :: bool
  external_intrvec :: u16
  sw :: u16
  swab_vbit :: bool
  env :: 'e

datatype 'e fallible = Done "'e ka11" | Fault "'e ka11"

definition on_done :: "'e fallible \<Rightarrow> ('e ka11 \<Rightarrow> 'e fallible) \<Rightarrow> 'e fallible" where
  "on_done x f = (case x of Done s \<Rightarrow> f s | Fault s \<Rightarrow> Fault s)"

definition TRAP_STACK :: u32 where "TRAP_STACK = 1"
definition TRAP_PWR :: u32 where "TRAP_PWR = 2"
definition PSW_T :: u8 where "PSW_T = 0x10"

definition set_r :: "nat \<Rightarrow> u16 \<Rightarrow> 'e ka11 \<Rightarrow> 'e ka11" where
  "set_r i v s = s\<lparr>r := (r s)(i := v)\<rparr>"

text \<open>Sign of a word, sign extension of its low byte, and the 18 bit bus address of a 16 bit address.\<close>

definition sgn_bit :: "u16 \<Rightarrow> bool" where "sgn_bit w = bit w 15"

definition sxt :: "u16 \<Rightarrow> u16" where "sxt b = scast (ucast b :: u8)"

definition ubxt :: "u16 \<Rightarrow> u32" where
  "ubxt a = (if a AND 0xe000 = 0xe000 then ucast a OR 0x30000 else ucast a)"

subsection \<open>Bus cycles\<close>

definition bus_error :: "'e ka11 \<Rightarrow> 'e fallible" where
  "bus_error s = Fault (s\<lparr>be := Suc (be s)\<rparr>)"

text \<open>The addresses 0177400 to 0177777 of the processor itself: the value read there, or an error.\<close>

definition internal_read :: "'e ka11 \<Rightarrow> u16 option option" where
  "internal_read s =
     (if ba s AND 0xff00 = 0xff00 then
        (if ba s AND 0xff = 0x78 \<or> ba s AND 0xff = 0x79 then Some (Some (sw s))
         else if ba s AND 0xff = 0xfe then Some (Some (ucast (psw s)))
         else if ba s AND 0xff = 0xff then Some None
         else if ba s AND 0xff = 0x67 then Some (Some 0)
         else None)
      else None)"

definition dati :: "'e cpu_bus \<Rightarrow> bool \<Rightarrow> 'e ka11 \<Rightarrow> 'e fallible" where
  "dati B b s =
     (if \<not> b \<and> ba s AND 1 \<noteq> 0 then bus_error s
      else case internal_read s of
        Some None \<Rightarrow> bus_error s
      | Some (Some v) \<Rightarrow> Done (s\<lparr>bdata := v, be := 0\<rparr>)
      | None \<Rightarrow> (case unibone_dati B (ubxt (ba s) AND NOT 1) (env s) of
            (None, e) \<Rightarrow> bus_error (s\<lparr>env := e\<rparr>)
          | (Some d, e) \<Rightarrow> Done (s\<lparr>bdata := d, be := 0, env := e\<rparr>)))"

definition levelchange :: "'e cpu_bus \<Rightarrow> u8 \<Rightarrow> 'e ka11 \<Rightarrow> 'e ka11" where
  "levelchange B p s = s\<lparr>env := unibone_prioritylevelchange B (drop_bit 5 p) (env s)\<rparr>"

text \<open>What a write to the processor's own addresses does.\<close>

definition internal_write :: "'e cpu_bus \<Rightarrow> 'e ka11 \<Rightarrow> 'e ka11 option option" where
  "internal_write B s =
     (if ba s AND 0xff00 = 0xff00 then
        (if ba s AND 0xff = 0x78 \<or> ba s AND 0xff = 0x79 then Some (Some s)
         else if ba s AND 0xff = 0xfe then Some (Some (levelchange B (ucast (bdata s)) (s\<lparr>psw := ucast (bdata s)\<rparr>)))
         else if ba s AND 0xff = 0xff then Some None
         else None)
      else None)"

definition dato :: "'e cpu_bus \<Rightarrow> bool \<Rightarrow> 'e ka11 \<Rightarrow> 'e fallible" where
  "dato B b s =
     (if \<not> b \<and> ba s AND 1 \<noteq> 0 then bus_error s
      else case internal_write B s of
        Some None \<Rightarrow> bus_error s
      | Some (Some s') \<Rightarrow> Done (s'\<lparr>be := 0\<rparr>)
      | None \<Rightarrow> (case (if b then unibone_datob B (ubxt (ba s)) (bdata s) (env s)
                       else unibone_dato B (ubxt (ba s) AND NOT 1) (bdata s) (env s)) of
            (False, e) \<Rightarrow> bus_error (s\<lparr>env := e\<rparr>)
          | (True, e) \<Rightarrow> Done (s\<lparr>be := 0, env := e\<rparr>)))"

subsection \<open>Operands\<close>

text \<open>An operand specifier has the mode in bits 3 to 5 and the register in bits 0 to 2.\<close>

definition reg_no :: "u16 \<Rightarrow> nat" where "reg_no m = unat (m AND 7)"
definition deferred :: "u16 \<Rightarrow> bool" where "deferred m = bit m 3"
definition operand_mode :: "u16 \<Rightarrow> u16" where "operand_mode m = drop_bit 3 m AND 6"

definition auto_step :: "u16 \<Rightarrow> bool \<Rightarrow> u16" where
  "auto_step m b = (if \<not> b \<or> reg_no m = 6 \<or> reg_no m = 7 \<or> deferred m then 2 else 1)"

text \<open>The modes without their deferred bit; INDEX reads the word after the instruction.\<close>

definition addr_base :: "'e cpu_bus \<Rightarrow> u16 \<Rightarrow> bool \<Rightarrow> 'e ka11 \<Rightarrow> 'e fallible" where
  "addr_base B m b s =
     (let n = reg_no m; ai = auto_step m b in
      if operand_mode m = 2 then Done (set_r n (r s n + ai) (s\<lparr>ba := r s n, b_reg := r s n + ai\<rparr>))
      else if operand_mode m = 4 then
        (let a = r s n - ai in
         Done (set_r n a (s\<lparr>ba := a, b_reg := a,
           traps := (if n = 6 \<and> a AND NOT 0xff = 0 then traps s OR TRAP_STACK else traps s)\<rparr>)))
      else
        on_done (dati B False (set_r 7 (r s 7 + 2) (s\<lparr>ba := r s 7\<rparr>)))
          (\<lambda>s. Done (s\<lparr>ba := bdata s + r s n, b_reg := bdata s + r s n\<rparr>)))"

definition addrop :: "'e cpu_bus \<Rightarrow> u16 \<Rightarrow> bool \<Rightarrow> 'e ka11 \<Rightarrow> 'e fallible" where
  "addrop B m b s =
     (if operand_mode m = 0 then Done (s\<lparr>ba := r s (reg_no m), b_reg := r s (reg_no m)\<rparr>)
      else on_done (addr_base B m b s)
        (\<lambda>s. if deferred m then on_done (dati B False s) (\<lambda>s. Done (s\<lparr>ba := bdata s, b_reg := bdata s\<rparr>))
             else Done s))"

definition is_register :: "u16 \<Rightarrow> bool" where "is_register m \<longleftrightarrow> m AND 0x38 = 0"

definition fetchop :: "'e cpu_bus \<Rightarrow> nat \<Rightarrow> u16 \<Rightarrow> bool \<Rightarrow> 'e ka11 \<Rightarrow> 'e fallible" where
  "fetchop B t m b s =
     on_done (if is_register m then Done (set_r t (r s (reg_no m)) s)
              else on_done (dati B b s)
                (\<lambda>s. Done (set_r t (if b \<and> ba s AND 1 \<noteq> 0 then drop_bit 8 (bdata s) else bdata s) s)))
       (\<lambda>s. Done (if b then set_r t (sxt (r s t)) s else s))"

definition readop :: "'e cpu_bus \<Rightarrow> nat \<Rightarrow> u16 \<Rightarrow> bool \<Rightarrow> 'e ka11 \<Rightarrow> 'e fallible" where
  "readop B t m b s = on_done (addrop B m b s) (fetchop B t m b)"

definition writedest :: "'e cpu_bus \<Rightarrow> u16 \<Rightarrow> bool \<Rightarrow> 'e ka11 \<Rightarrow> 'e fallible" where
  "writedest B v b s =
     (if is_register (ir s)
      then (let d = reg_no (ir s) in
            Done (set_r d (if b then (r s d AND NOT 0xff) OR (v AND 0xff) else v) s))
      else dato B b (s\<lparr>bdata := (if ba s AND 1 \<noteq> 0 then push_bit 8 v else v)\<rparr>))"

text \<open>The macros \<^verbatim>\<open>RD_B\<close> and \<^verbatim>\<open>RD_U\<close>: memory operands before registers.\<close>

definition RD_B :: "'e cpu_bus \<Rightarrow> u16 \<Rightarrow> u16 \<Rightarrow> bool \<Rightarrow> 'e ka11 \<Rightarrow> 'e fallible" where
  "RD_B B src dst by s =
     on_done (if is_register src then Done s else readop B 8 src by s) (\<lambda>s.
     on_done (if is_register dst then Done s else readop B 9 dst by s) (\<lambda>s.
     on_done (if is_register src then fetchop B 8 src by s else Done s) (\<lambda>s.
              if is_register dst then fetchop B 9 dst by s else Done s)))"

definition RD_U :: "'e cpu_bus \<Rightarrow> u16 \<Rightarrow> bool \<Rightarrow> 'e ka11 \<Rightarrow> 'e fallible" where
  "RD_U B dst by s =
     on_done (if is_register dst then fetchop B 9 dst by s else readop B 9 dst by s)
       (\<lambda>s. Done (set_r 8 (r s 9) s))"

subsection \<open>Arithmetic and condition codes\<close>

definition CLC :: "u8 \<Rightarrow> u8" where "CLC p = p AND NOT 1"
definition CLV :: "u8 \<Rightarrow> u8" where "CLV p = p AND NOT 2"
definition CLCV :: "u8 \<Rightarrow> u8" where "CLCV p = p AND NOT 3"
definition SEC_if :: "bool \<Rightarrow> u8 \<Rightarrow> u8" where "SEC_if c p = (if c then p OR 1 else p)"
definition SEV_if :: "bool \<Rightarrow> u8 \<Rightarrow> u8" where "SEV_if c p = (if c then p OR 2 else p)"

definition setnz :: "u16 \<Rightarrow> u8 \<Rightarrow> u8" where
  "setnz w p = (let p1 = p AND NOT 0xc; p2 = (if w AND 0x8000 \<noteq> 0 then p1 OR 8 else p1)
                in if w = 0 then p2 OR 4 else p2)"

definition BXT :: "bool \<Rightarrow> u16 \<Rightarrow> u16" where "BXT by b = (if by then sxt b else b)"

text \<open>V after a shift is N exclusive or C.\<close>

definition shift_V :: "u8 \<Rightarrow> u8" where
  "shift_V p = SEV_if (bit p 3 \<noteq> bit p 0) p"

text \<open>
  Each operation gives the result and the new PSW; \<open>sr\<close> and \<open>dr\<close> are the source and destination
  operands, sign-extended for bytes. Sums are taken in 32 bits where the carry matters.
\<close>

definition alu_MOV :: "bool \<Rightarrow> u16 \<Rightarrow> u16 \<Rightarrow> u8 \<Rightarrow> u16 \<times> u8" where
  "alu_MOV by sr dr p = (sr, setnz sr (CLV p))"

definition alu_CMP :: "bool \<Rightarrow> u16 \<Rightarrow> u16 \<Rightarrow> u8 \<Rightarrow> u16 \<times> u8" where
  "alu_CMP by sr dr p =
     (let sum = ucast sr + ucast (NOT dr) + (1 :: u32); b = BXT by (ucast sum)
      in (b, setnz b (SEV_if (sgn_bit ((sr XOR dr) AND NOT (dr XOR b)))
              (SEC_if (sum AND 0x10000 = 0) (CLCV p)))))"

definition alu_BIT :: "bool \<Rightarrow> u16 \<Rightarrow> u16 \<Rightarrow> u8 \<Rightarrow> u16 \<times> u8" where
  "alu_BIT by sr dr p = (let b = dr AND sr in (b, setnz b (CLV p)))"

definition alu_BIC :: "bool \<Rightarrow> u16 \<Rightarrow> u16 \<Rightarrow> u8 \<Rightarrow> u16 \<times> u8" where
  "alu_BIC by sr dr p = (let b = dr AND NOT sr in (b, setnz b (CLV p)))"

definition alu_BIS :: "bool \<Rightarrow> u16 \<Rightarrow> u16 \<Rightarrow> u8 \<Rightarrow> u16 \<times> u8" where
  "alu_BIS by sr dr p = (let b = dr OR sr in (b, setnz b (CLV p)))"

definition alu_ADD :: "bool \<Rightarrow> u16 \<Rightarrow> u16 \<Rightarrow> u8 \<Rightarrow> u16 \<times> u8" where
  "alu_ADD by sr dr p =
     (let sum = ucast sr + ucast dr :: u32; b = ucast sum
      in (b, setnz b (SEV_if (sgn_bit (NOT (sr XOR dr) AND (dr XOR b)))
              (SEC_if (sum AND 0x10000 \<noteq> 0) (CLCV p)))))"

definition alu_SUB :: "bool \<Rightarrow> u16 \<Rightarrow> u16 \<Rightarrow> u8 \<Rightarrow> u16 \<times> u8" where
  "alu_SUB by sr dr p =
     (let sum = ucast dr + ucast (NOT sr) + (1 :: u32); b = ucast sum
      in (b, setnz b (SEV_if (sgn_bit ((sr XOR dr) AND (dr XOR b)))
              (SEC_if (sum AND 0x10000 = 0) (CLCV p)))))"

definition alu_CLR :: "bool \<Rightarrow> u16 \<Rightarrow> u8 \<Rightarrow> u16 \<times> u8" where
  "alu_CLR by sr p = (0, setnz 0 (CLCV p))"

definition alu_COM :: "bool \<Rightarrow> u16 \<Rightarrow> u8 \<Rightarrow> u16 \<times> u8" where
  "alu_COM by sr p = (let b = NOT sr in (b, setnz b (SEC_if True (CLV p))))"

definition alu_INC :: "bool \<Rightarrow> u16 \<Rightarrow> u8 \<Rightarrow> u16 \<times> u8" where
  "alu_INC by sr p = (let b = BXT by (sr + 1) in (b, setnz b (SEV_if (sgn_bit (NOT sr AND b)) (CLV p))))"

definition alu_DEC :: "bool \<Rightarrow> u16 \<Rightarrow> u8 \<Rightarrow> u16 \<times> u8" where
  "alu_DEC by sr p = (let b = BXT by (sr + NOT 0) in (b, setnz b (SEV_if (sgn_bit (sr AND NOT b)) (CLV p))))"

definition alu_NEG :: "bool \<Rightarrow> u16 \<Rightarrow> u8 \<Rightarrow> u16 \<times> u8" where
  "alu_NEG by sr p =
     (let b = BXT by (NOT sr + 1) in (b, setnz b (SEV_if (sgn_bit (b AND sr)) (SEC_if (b \<noteq> 0) (CLCV p)))))"

definition alu_ADC :: "bool \<Rightarrow> u16 \<Rightarrow> u8 \<Rightarrow> u16 \<times> u8" where
  "alu_ADC by sr p =
     (let sum = ucast sr + of_bool (bit p 0) :: u32; b = BXT by (ucast sum)
      in (b, setnz b (SEV_if (sgn_bit (NOT sr AND b)) (SEC_if (sum AND 0x10000 \<noteq> 0) (CLCV p)))))"

definition alu_SBC :: "bool \<Rightarrow> u16 \<Rightarrow> u8 \<Rightarrow> u16 \<times> u8" where
  "alu_SBC by sr p =
     (let c = bit p 0; b0 = sr + (if c then - 1 else 0); b = BXT by b0
      in (b, setnz b (SEV_if (sgn_bit (sr AND NOT b)) (SEC_if (c \<and> sr = 0) (CLCV p)))))"

definition alu_TST :: "bool \<Rightarrow> u16 \<Rightarrow> u8 \<Rightarrow> u16 \<times> u8" where
  "alu_TST by sr p = (sr, setnz sr (CLCV p))"

definition alu_ROR :: "bool \<Rightarrow> u16 \<Rightarrow> u8 \<Rightarrow> u16 \<times> u8" where
  "alu_ROR by sr p =
     (let b0 = drop_bit 1 (sr AND (if by then 0xff else 0xffff));
          b = BXT by (if bit p 0 then b0 OR (if by then 0x80 else 0x8000) else b0)
      in (b, shift_V (setnz b (SEC_if (bit sr 0) (CLCV p)))))"

definition alu_ROL :: "bool \<Rightarrow> u16 \<Rightarrow> u8 \<Rightarrow> u16 \<times> u8" where
  "alu_ROL by sr p =
     (let b0 = push_bit 1 sr AND (if by then 0xff else 0xffff);
          b = BXT by (if bit p 0 then b0 OR 1 else b0)
      in (b, shift_V (setnz b (SEC_if (bit sr 15) (CLCV p)))))"

definition alu_ASR :: "bool \<Rightarrow> u16 \<Rightarrow> u8 \<Rightarrow> u16 \<times> u8" where
  "alu_ASR by sr p =
     (let b = BXT by (drop_bit 1 sr OR (sr AND 0x8000))
      in (b, shift_V (setnz b (SEC_if (bit sr 0) (CLCV p)))))"

definition alu_ASL :: "bool \<Rightarrow> u16 \<Rightarrow> u8 \<Rightarrow> u16 \<times> u8" where
  "alu_ASL by sr p =
     (let b = BXT by (push_bit 1 sr) in (b, shift_V (setnz b (SEC_if (bit sr 15) (CLCV p)))))"

definition alu_SWAB :: "bool \<Rightarrow> u16 \<Rightarrow> u8 \<Rightarrow> u16 \<times> u8" where
  "alu_SWAB vbit dr p =
     (let p1 = (if vbit then CLCV p else CLC p);
          b = push_bit 8 (dr AND 0xff) OR (drop_bit 8 dr AND 0xff);
          p2 = p1 AND NOT 0xc; p3 = (if b AND 0x80 \<noteq> 0 then p2 OR 8 else p2)
      in (b, if b AND 0xff = 0 then p3 OR 4 else p3))"

subsection \<open>Instructions\<close>

text \<open>The labels of \<^verbatim>\<open>step\<close>: service, trap with a vector, bus error, return.\<close>

datatype ending = Service | Trap u16 | Bus_error | Return

definition svc :: "'e fallible \<Rightarrow> ending \<times> 'e ka11" where
  "svc x = (case x of Done s \<Rightarrow> (Service, s) | Fault s \<Rightarrow> (Bus_error, s))"

definition is_byte :: "'e ka11 \<Rightarrow> bool" where "is_byte s = bit (ir s) 15"
definition src_op :: "'e ka11 \<Rightarrow> u16" where "src_op s = drop_bit 6 (ir s) AND 0x3f"
definition dst_op :: "'e ka11 \<Rightarrow> u16" where "dst_op s = ir s AND 0x3f"

definition exec_MOV :: "'e cpu_bus \<Rightarrow> 'e ka11 \<Rightarrow> ending \<times> 'e ka11" where
  "exec_MOV B s =
     (let by = is_byte s in
      svc (on_done (RD_B B (src_op s) (dst_op s) by s)
        (\<lambda>s. let (b, p) = alu_MOV by (r s 8) (r s 9) (psw s) in
             if is_register (dst_op s) then Done (set_r (reg_no (dst_op s)) b (s\<lparr>psw := p\<rparr>))
             else writedest B b by (s\<lparr>psw := p\<rparr>))))"

definition exec_binary ::
    "'e cpu_bus \<Rightarrow> (bool \<Rightarrow> u16 \<Rightarrow> u16 \<Rightarrow> u8 \<Rightarrow> u16 \<times> u8) \<Rightarrow> bool \<Rightarrow> bool \<Rightarrow> 'e ka11 \<Rightarrow> ending \<times> 'e ka11" where
  "exec_binary B alu wr by s =
     svc (on_done (RD_B B (src_op s) (dst_op s) by s)
       (\<lambda>s. let (b, p) = alu by (r s 8) (r s 9) (psw s) in
            if wr then writedest B b by (s\<lparr>psw := p\<rparr>) else Done (s\<lparr>psw := p\<rparr>)))"

definition exec_unary ::
    "'e cpu_bus \<Rightarrow> (bool \<Rightarrow> u16 \<Rightarrow> u8 \<Rightarrow> u16 \<times> u8) \<Rightarrow> bool \<Rightarrow> 'e ka11 \<Rightarrow> ending \<times> 'e ka11" where
  "exec_unary B alu wr s =
     (let by = is_byte s in
      svc (on_done (RD_U B (dst_op s) by s)
        (\<lambda>s. let (b, p) = alu by (r s 8) (psw s) in
             if wr then writedest B b by (s\<lparr>psw := p\<rparr>) else Done (s\<lparr>psw := p\<rparr>))))"

text \<open>\<^verbatim>\<open>PUSH\<close> and \<^verbatim>\<open>OUT(SP, w)\<close>.\<close>

definition PUSH :: "bool \<Rightarrow> 'e ka11 \<Rightarrow> 'e ka11" where
  "PUSH inhov s =
     (let sp = r s 6 - 2 in
      set_r 6 sp (s\<lparr>traps := (if \<not> inhov \<and> sp AND NOT 0xff = 0 then traps s OR TRAP_STACK else traps s)\<rparr>))"

definition OUT :: "'e cpu_bus \<Rightarrow> u16 \<Rightarrow> u16 \<Rightarrow> 'e ka11 \<Rightarrow> 'e fallible" where
  "OUT B a d s = dato B False (s\<lparr>ba := a, bdata := d\<rparr>)"

definition INA :: "'e cpu_bus \<Rightarrow> u16 \<Rightarrow> 'e ka11 \<Rightarrow> 'e fallible" where
  "INA B a s = dati B False (s\<lparr>ba := a\<rparr>)"

definition exec_JSR :: "'e cpu_bus \<Rightarrow> 'e ka11 \<Rightarrow> ending \<times> 'e ka11" where
  "exec_JSR B s =
     (let sf = reg_no (src_op s) in
      if is_register (dst_op s) then (Trap 4, s)
      else svc (on_done (addrop B (dst_op s) False s) (\<lambda>s.
           let s1 = PUSH False (set_r 9 (b_reg s) s) in
           on_done (OUT B (r s1 6) (r s1 sf) s1) (\<lambda>s.
           Done (set_r 7 (r s 9) (set_r sf (r s 7) s))))))"

definition exec_JMP :: "'e cpu_bus \<Rightarrow> 'e ka11 \<Rightarrow> ending \<times> 'e ka11" where
  "exec_JMP B s =
     (if is_register (dst_op s) then (Trap 4, s)
      else svc (on_done (addrop B (dst_op s) False s) (\<lambda>s. Done (set_r 7 (b_reg s) s))))"

text \<open>\<^verbatim>\<open>BA = SP; POP\<close>.\<close>

definition POP :: "'e ka11 \<Rightarrow> 'e ka11" where
  "POP s = set_r 6 (r s 6 + 2) (s\<lparr>ba := r s 6\<rparr>)"

definition exec_RTS :: "'e cpu_bus \<Rightarrow> 'e ka11 \<Rightarrow> ending \<times> 'e ka11" where
  "exec_RTS B s =
     (let df = reg_no (dst_op s); s1 = POP s; s2 = set_r 7 (r s1 df) s1 in
      svc (on_done (dati B False s2) (\<lambda>s. Done (set_r df (bdata s) s))))"

definition exec_SWAB :: "'e cpu_bus \<Rightarrow> 'e ka11 \<Rightarrow> ending \<times> 'e ka11" where
  "exec_SWAB B s =
     (let by = is_byte s in
      svc (on_done (RD_U B (dst_op s) by s) (\<lambda>s.
        let (b, p) = alu_SWAB (swab_vbit s) (r s 9) (psw s) in writedest B b by (s\<lparr>psw := p\<rparr>))))"

text \<open>The branches: a mask per instruction with a bit for each value of the condition codes.\<close>

definition branch_mask :: "u16 \<Rightarrow> u32" where
  "branch_mask c =
     (if c = 0x100 then 0xffff
      else if c = 0x200 then 0x0f0f else if c = 0x300 then 0xf0f0
      else if c = 0x400 then 0xcc33 else if c = 0x500 then 0x33cc
      else if c = 0x600 then 0x0c03 else if c = 0x700 then 0xf3fc
      else if c = 0x8000 then 0x00ff else if c = 0x8100 then 0xff00
      else if c = 0x8200 then 0x0505 else if c = 0x8300 then 0xfafa
      else if c = 0x8400 then 0x3333 else if c = 0x8500 then 0xcccc
      else if c = 0x8600 then 0x5555 else 0xaaaa)"

definition exec_branch :: "'e ka11 \<Rightarrow> ending \<times> 'e ka11" where
  "exec_branch s =
     (Service, if bit (branch_mask (ir s AND 0x8700)) (unat (psw s AND 0xf))
        then set_r 7 (r s 7 + push_bit 1 (sxt (ir s))) s else s)"

definition exec_RTI :: "'e cpu_bus \<Rightarrow> 'e ka11 \<Rightarrow> ending \<times> 'e ka11" where
  "exec_RTI B s =
     svc (on_done (dati B False (POP s)) (\<lambda>s.
          on_done (dati B False (POP (set_r 7 (bdata s) s))) (\<lambda>s.
          Done (levelchange B (ucast (bdata s)) (s\<lparr>psw := ucast (bdata s)\<rparr>)))))"

definition ka11_reset :: "'e ka11 \<Rightarrow> 'e ka11" where
  "ka11_reset s = s\<lparr>traps := 0, external_intr := False\<rparr>"

text \<open>The groups of the decoder; a group that does not know the instruction passes it on.\<close>

definition exec_operate :: "'e cpu_bus \<Rightarrow> 'e ka11 \<Rightarrow> ending \<times> 'e ka11" where
  "exec_operate B s =
     (if ir s = 0 then (Return, s\<lparr>kstate := KA11_STATE_HALTED\<rparr>)
      else if ir s = 1 then (Return, s\<lparr>kstate := KA11_STATE_WAITING\<rparr>)
      else if ir s = 2 then exec_RTI B s
      else if ir s = 3 then (Trap 0xc, s)
      else if ir s = 4 then (Trap 0x10, s)
      else if ir s = 5 then (Service, (ka11_reset s)\<lparr>env := unibone_bus_init B (env s)\<rparr>)
      else (Trap 8, s))"

definition exec_misc :: "'e cpu_bus \<Rightarrow> 'e ka11 \<Rightarrow> ending \<times> 'e ka11" where
  "exec_misc B s =
     (let g = ir s AND 0xfec0; h = ir s AND 0x38 in
      if g = 0x40 then exec_JMP B s
      else if g = 0x80 then
        (if h = 0 then exec_RTS B s
         else if h = 8 \<or> h = 0x10 \<or> h = 0x18 then (Trap 8, s)
         else if h = 0x20 \<or> h = 0x28 then (Service, s\<lparr>psw := psw s AND NOT (ucast (ir s) AND 0xf)\<rparr>)
         else (Service, s\<lparr>psw := psw s OR (ucast (ir s) AND 0xf)\<rparr>))
      else if g = 0xc0 then exec_SWAB B s
      else exec_operate B s)"

definition exec_program_control :: "'e cpu_bus \<Rightarrow> 'e ka11 \<Rightarrow> ending \<times> 'e ka11" where
  "exec_program_control B s =
     (let g = ir s AND 0x8f00 in
      if g = 0x800 \<or> g = 0x900 then exec_JSR B s
      else if g = 0x8800 then (Trap 0x18, s)
      else if g = 0x8900 then (Trap 0x1c, s)
      else if ir s AND 0x7800 = 0 \<and> ir s AND 0x8700 \<noteq> 0 then exec_branch s
      else exec_misc B s)"

definition unary_op :: "u16 \<Rightarrow> ((bool \<Rightarrow> u16 \<Rightarrow> u8 \<Rightarrow> u16 \<times> u8) \<times> bool) option" where
  "unary_op g =
     (if g = 0xa00 then Some (alu_CLR, True) else if g = 0xa40 then Some (alu_COM, True)
      else if g = 0xa80 then Some (alu_INC, True) else if g = 0xac0 then Some (alu_DEC, True)
      else if g = 0xb00 then Some (alu_NEG, True) else if g = 0xb40 then Some (alu_ADC, True)
      else if g = 0xb80 then Some (alu_SBC, True) else if g = 0xbc0 then Some (alu_TST, False)
      else if g = 0xc00 then Some (alu_ROR, True) else if g = 0xc40 then Some (alu_ROL, True)
      else if g = 0xc80 then Some (alu_ASR, True) else if g = 0xcc0 then Some (alu_ASL, True)
      else None)"

definition exec_unary_group :: "'e cpu_bus \<Rightarrow> 'e ka11 \<Rightarrow> ending \<times> 'e ka11" where
  "exec_unary_group B s =
     (let g = ir s AND 0xfc0 in
      case unary_op g of
        Some (alu, wr) \<Rightarrow> exec_unary B alu wr s
      | None \<Rightarrow> if g = 0xd00 \<or> g = 0xd40 \<or> g = 0xd80 \<or> g = 0xdc0 then (Trap 8, s)
                else exec_program_control B s)"

definition execute :: "'e cpu_bus \<Rightarrow> 'e ka11 \<Rightarrow> ending \<times> 'e ka11" where
  "execute B s =
     (let g = ir s AND 0xf000; by = is_byte s in
      if g = 0x9000 \<or> g = 0x1000 then exec_MOV B s
      else if g = 0xa000 \<or> g = 0x2000 then exec_binary B alu_CMP False by s
      else if g = 0xb000 \<or> g = 0x3000 then exec_binary B alu_BIT False by s
      else if g = 0xc000 \<or> g = 0x4000 then exec_binary B alu_BIC True by s
      else if g = 0xd000 \<or> g = 0x5000 then exec_binary B alu_BIS True by s
      else if g = 0x6000 then exec_binary B alu_ADD True False s
      else if g = 0xe000 then exec_binary B alu_SUB True False s
      else if g = 0xf000 \<or> g = 0x7000 then (Trap 8, s)
      else exec_unary_group B s)"

subsection \<open>Traps and the step\<close>

text \<open>The trap sequence; the vector is in the scratch register \<^verbatim>\<open>TV\<close>.\<close>

definition trap_entry :: "'e cpu_bus \<Rightarrow> bool \<Rightarrow> u16 \<Rightarrow> 'e ka11 \<Rightarrow> 'e fallible" where
  "trap_entry B inhov v s =
     (let s1 = PUSH inhov (set_r 10 v s) in
      on_done (OUT B (r s1 6) (ucast (psw s1)) s1) (\<lambda>s.
      let s2 = PUSH inhov s in
      on_done (OUT B (r s2 6) (r s2 7) s2) (\<lambda>s.
      on_done (INA B (r s 10) s) (\<lambda>s.
      on_done (INA B (r s 10 + 2) (set_r 7 (bdata s) s)) (\<lambda>s.
      Done (levelchange B (ucast (bdata s)) (s\<lparr>psw := ucast (bdata s)\<rparr>)))))))"

text \<open>
  A bus error in the trap sequence starts it again, for vector 4, or halts: \<^theory_text>\<open>None\<close> if
  that never ends.
\<close>

partial_function (option) run_trap :: "'e cpu_bus \<Rightarrow> bool \<Rightarrow> u16 \<Rightarrow> 'e ka11 \<Rightarrow> 'e ka11 option" where
  "run_trap B inhov v s =
     (case trap_entry B inhov v s of
        Done t \<Rightarrow> Some t
      | Fault t \<Rightarrow> if 1 < be t then Some (t\<lparr>kstate := KA11_STATE_HALTED\<rparr>) else run_trap B inhov 4 t)"

definition run_bus_error :: "'e cpu_bus \<Rightarrow> bool \<Rightarrow> 'e ka11 \<Rightarrow> 'e ka11 option" where
  "run_bus_error B inhov s =
     (if 1 < be s then Some (s\<lparr>kstate := KA11_STATE_HALTED\<rparr>) else run_trap B inhov 4 s)"

text \<open>The end of an instruction; \<open>oldpsw\<close> is the PSW the instruction began with.\<close>

definition run_service :: "'e cpu_bus \<Rightarrow> u8 \<Rightarrow> 'e ka11 \<Rightarrow> 'e ka11 option" where
  "run_service B oldpsw s =
     (if oldpsw AND PSW_T \<noteq> 0 then run_trap B False 0xc s
      else if traps s AND TRAP_STACK \<noteq> 0 then run_trap B True 4 (s\<lparr>traps := traps s AND NOT TRAP_STACK\<rparr>)
      else if traps s AND TRAP_PWR \<noteq> 0 then run_trap B False 0x14 (s\<lparr>traps := traps s AND NOT TRAP_PWR\<rparr>)
      else Some s)"

definition run_ending :: "'e cpu_bus \<Rightarrow> u8 \<Rightarrow> ending \<times> 'e ka11 \<Rightarrow> 'e ka11 option" where
  "run_ending B oldpsw x =
     (case x of (Service, s) \<Rightarrow> run_service B oldpsw s
      | (Trap v, s) \<Rightarrow> run_trap B False v s
      | (Bus_error, s) \<Rightarrow> run_bus_error B False s
      | (Return, s) \<Rightarrow> Some s)"

definition step :: "'e cpu_bus \<Rightarrow> 'e ka11 \<Rightarrow> 'e ka11 option" where
  "step B s =
     (if external_intr s
      then run_trap B False (external_intrvec s) (s\<lparr>external_intr := False, kstate := KA11_STATE_RUNNING\<rparr>)
      else case INA B (r s 7) s of
        Fault t \<Rightarrow> run_bus_error B False t
      | Done t \<Rightarrow> run_ending B (psw s) (execute B (set_r 7 (r t 7 + 2) (t\<lparr>ir := bdata t\<rparr>))))"

definition ka11_condstep :: "'e cpu_bus \<Rightarrow> 'e ka11 \<Rightarrow> 'e ka11 option" where
  "ka11_condstep B s =
     (let s1 = (if kstate s = KA11_STATE_RUNNING \<or> kstate s = KA11_STATE_WAITING
                then s\<lparr>env := unibone_grant_interrupts B (env s)\<rparr> else s) in
      if kstate s1 = KA11_STATE_RUNNING \<or> (kstate s1 = KA11_STATE_WAITING \<and> traps s1 \<noteq> 0) \<or>
         (kstate s1 = KA11_STATE_WAITING \<and> external_intr s1)
      then step B (s1\<lparr>kstate := KA11_STATE_RUNNING\<rparr>) else Some s1)"

definition ka11_setintr :: "u16 \<Rightarrow> 'e ka11 \<Rightarrow> 'e ka11" where
  "ka11_setintr vec s = s\<lparr>external_intr := True, external_intrvec := vec\<rparr>"

definition ka11_pwrfail_trap :: "'e ka11 \<Rightarrow> 'e ka11" where
  "ka11_pwrfail_trap s = s\<lparr>traps := traps s OR TRAP_PWR\<rparr>"

definition ka11_pwrup_vector_fetch :: "'e cpu_bus \<Rightarrow> 'e ka11 \<Rightarrow> 'e ka11" where
  "ka11_pwrup_vector_fetch B s =
     (case on_done (INA B 0x14 s) (\<lambda>s.
           on_done (INA B 0x16 (set_r 7 (bdata s) s)) (\<lambda>s. Done (s\<lparr>psw := ucast (bdata s)\<rparr>))) of
        Done s \<Rightarrow> s | Fault s \<Rightarrow> s\<lparr>be := Suc (be s)\<rparr>)"

end
