(* ===== verification/KA11_Arith.thy ===== *)
theory KA11_Arith
  imports KA11
begin

text \<open>
  The arithmetic of the 11/20 and its condition codes: results and codes of the instructions
  against integer arithmetic, the branches against the relations they are named after.

  Operands of byte instructions are sign-extended bytes. So words and bytes share one
  statement: the value of an operand is its \<open>sint\<close>, its range that of the instruction's width.
\<close>

definition half_range :: "bool \<Rightarrow> int" where "half_range by = (if by then 128 else 32768)"

definition in_range :: "bool \<Rightarrow> int \<Rightarrow> bool" where
  "in_range by x \<longleftrightarrow> - half_range by \<le> x \<and> x < half_range by"

definition wrap :: "bool \<Rightarrow> int \<Rightarrow> int" where
  "wrap by x = (x + half_range by) mod (2 * half_range by) - half_range by"

definition operand :: "bool \<Rightarrow> u16 \<Rightarrow> bool" where "operand by w \<longleftrightarrow> in_range by (sint w)"

text \<open>The unsigned value of an operand: of the word, or of the byte.\<close>

definition uval :: "bool \<Rightarrow> u16 \<Rightarrow> int" where "uval by w = uint w mod (2 * half_range by)"

named_theorems arith_facts

subsection \<open>Values\<close>

lemma wrap_in_range [arith_facts]: "in_range by x \<Longrightarrow> wrap by x = x"
  by (simp add: wrap_def in_range_def half_range_def split: if_splits)

lemma wrap_range [simp]: "in_range by (wrap by x)"
  by (auto simp: wrap_def in_range_def half_range_def)

lemma wrap_cases:
  assumes "- 2 * half_range by \<le> x" "x < 2 * half_range by"
  shows "wrap by x = (if x < - half_range by then x + 2 * half_range by
     else if half_range by \<le> x then x - 2 * half_range by else x)"
proof -
  let ?h = "half_range by"
  have h: "?h > 0" by (simp add: half_range_def)
  consider "x < - ?h" | "?h \<le> x" | "- ?h \<le> x" "x < ?h" by linarith
  then show ?thesis
  proof cases
    case 1
    then have "(x + ?h + 2 * ?h) mod (2 * ?h) = x + ?h + 2 * ?h"
      using assms by (intro mod_pos_pos_trivial) linarith+
    with 1 show ?thesis unfolding wrap_def mod_add_self2 by simp
  next
    case 2
    have "(x - ?h) mod (2 * ?h) = x - ?h"
      using assms 2 by (intro mod_pos_pos_trivial) linarith+
    moreover have "(x - ?h + 2 * ?h) mod (2 * ?h) = (x - ?h) mod (2 * ?h)" by (rule mod_add_self2)
    moreover have "x - ?h + 2 * ?h = x + ?h" by simp
    ultimately show ?thesis using 2 h by (simp add: wrap_def)
  next
    case 3
    then show ?thesis using wrap_in_range [of "by" x] by (simp add: in_range_def)
  qed
qed

lemma wrap_True_False [simp]: "wrap True (wrap False x) = wrap True x"
proof -
  have "wrap False x + 128 = (x + 32768) mod (256 * 256) - 32640" by (simp add: wrap_def half_range_def)
  then have "(wrap False x + 128) mod 256 = ((x + 32768) mod (256 * 256) mod 256 - 32640) mod 256"
    by (simp only: mod_simps)
  also have "(x + 32768) mod (256 * 256) mod 256 = (x + 32768) mod 256"
    by (rule mod_mod_cancel) simp
  finally show ?thesis by (simp add: wrap_def half_range_def mod_simps add.commute)
qed

lemma sint_word [simp]: "wrap False (sint (w :: u16)) = sint w"
  by (rule wrap_in_range) (use sint_greater_eq [of w] sint_less [of w] in \<open>simp add: in_range_def half_range_def\<close>)

lemma signed_take_bit_wrap: "signed_take_bit 15 x = wrap False x" "signed_take_bit 7 x = wrap True x"
  by (simp_all add: wrap_def half_range_def signed_take_bit_eq_take_bit_shift take_bit_eq_mod)

lemma sint_of_int_16: "sint (word_of_int x :: u16) = wrap False x"
  by (simp add: sint_uint uint_word_of_int_eq signed_take_bit_take_bit signed_take_bit_wrap)

lemma sint_uint_16: "sint (w :: u16) = wrap False (uint w)"
  by (simp add: sint_uint signed_take_bit_wrap)

lemma sint_plus_16: "sint (a + b :: u16) = wrap False (sint a + sint b)"
  using sint_of_int_16 [of "sint a + sint b"] by simp

lemma sint_minus_16: "sint (a - b :: u16) = wrap False (sint a - sint b)"
  using sint_of_int_16 [of "sint a - sint b"] by simp

lemma sint_sxt: "sint (sxt w) = wrap True (sint w)"
proof -
  have "sint (ucast w :: u8) = wrap True (uint w)"
    by (simp add: sint_uint unsigned_ucast_eq signed_take_bit_take_bit signed_take_bit_wrap)
  also have "\<dots> = wrap True (sint w)" by (simp add: sint_uint_16)
  finally have s: "sint (ucast w :: u8) = wrap True (sint w)" .
  have "in_range False (wrap True (sint w))"
    using wrap_range [of True "sint w"] by (simp add: in_range_def half_range_def)
  then show ?thesis
    unfolding sxt_def by (simp only: scast_eq sint_of_int_16 s wrap_in_range)
qed

lemma sint_BXT: "sint (BXT by w) = wrap by (sint w)"
  by (cases "by") (simp_all add: BXT_def sint_sxt)

lemma sgn_bit_sint: "sgn_bit w \<longleftrightarrow> sint w < 0"
  using bit_last_iff [of w] by (simp add: sgn_bit_def)

lemma sgn_bit_logic:
  "sgn_bit (NOT a) \<longleftrightarrow> \<not> sgn_bit a" "sgn_bit (a AND b) \<longleftrightarrow> sgn_bit a \<and> sgn_bit b"
  "sgn_bit (a XOR b) \<longleftrightarrow> sgn_bit a \<noteq> sgn_bit b"
  by (simp_all add: sgn_bit_def bit_simps)

lemma sgn_bit_0 [simp]: "\<not> sgn_bit 0"
  by (simp add: sgn_bit_def)

lemma and_8000: "w AND 0x8000 = 0 \<longleftrightarrow> \<not> sgn_bit (w :: u16)"
  using and_exp_eq_0_iff_not_bit [of w 15] by (simp add: sgn_bit_def)

lemma and_10000: "w AND 0x10000 = 0 \<longleftrightarrow> \<not> bit (w :: u32) 16"
  using and_exp_eq_0_iff_not_bit [of w 16] by simp

subsection \<open>Condition codes\<close>

definition cc_N :: "u8 \<Rightarrow> bool" where "cc_N p = bit p 3"
definition cc_Z :: "u8 \<Rightarrow> bool" where "cc_Z p = bit p 2"
definition cc_V :: "u8 \<Rightarrow> bool" where "cc_V p = bit p 1"
definition cc_C :: "u8 \<Rightarrow> bool" where "cc_C p = bit p 0"
definition psw_rest :: "u8 \<Rightarrow> u8" where "psw_rest p = p AND 0xf0"

lemma psw_rest_simps:
  "psw_rest (p AND q) = psw_rest p AND psw_rest q" "psw_rest (p OR q) = psw_rest p OR psw_rest q"
  by (simp_all add: psw_rest_def bit_eq_iff bit_simps) blast+

lemma setnz_cc [simp]:
  "cc_N (setnz w p) = sgn_bit w" "cc_Z (setnz w p) \<longleftrightarrow> w = 0" "cc_V (setnz w p) = cc_V p" "cc_C (setnz w p) = cc_C p"
  "psw_rest (setnz w p) = psw_rest p"
  unfolding setnz_def Let_def
  by (auto simp: cc_N_def cc_Z_def cc_V_def cc_C_def bit_simps and_8000 psw_rest_simps) (auto simp: psw_rest_def and.assoc)

lemma SEC_SEV_cc [simp]:
  "cc_V (SEV_if c p) \<longleftrightarrow> c \<or> cc_V p" "cc_C (SEV_if c p) = cc_C p" "psw_rest (SEV_if c p) = psw_rest p"
  "cc_V (SEC_if c p) = cc_V p" "cc_C (SEC_if c p) \<longleftrightarrow> c \<or> cc_C p" "psw_rest (SEC_if c p) = psw_rest p"
  "cc_N (SEV_if c p) = cc_N p" "cc_Z (SEV_if c p) = cc_Z p"
  by (auto simp: SEC_if_def SEV_if_def cc_N_def cc_Z_def cc_V_def cc_C_def bit_simps psw_rest_simps) (auto simp: psw_rest_def)

lemma CL_cc [simp]:
  "\<not> cc_V (CLV p)" "cc_C (CLV p) = cc_C p" "psw_rest (CLV p) = psw_rest p"
  "\<not> cc_V (CLCV p)" "\<not> cc_C (CLCV p)" "psw_rest (CLCV p) = psw_rest p"
  by (auto simp: CLV_def CLCV_def cc_V_def cc_C_def bit_simps psw_rest_simps) (auto simp: psw_rest_def and.assoc)

text \<open>
  A result with its codes: the exact integer, wrapped around to the width, N and Z of the
  result, V if the exact integer is out of range, the given C; nothing else of the PSW changes.
\<close>

definition codes_of :: "bool \<Rightarrow> int \<Rightarrow> bool \<Rightarrow> u8 \<Rightarrow> u16 \<times> u8 \<Rightarrow> bool" where
  "codes_of by exact carry p = (\<lambda>(b, q). sint b = wrap by exact \<and> (cc_N q \<longleftrightarrow> wrap by exact < 0) \<and>
     (cc_Z q \<longleftrightarrow> wrap by exact = 0) \<and> (cc_V q \<longleftrightarrow> \<not> in_range by exact) \<and> (cc_C q \<longleftrightarrow> carry) \<and>
     psw_rest q = psw_rest p)"

lemma codes_ofI:
  assumes "sint b = wrap by exact" "cc_V q \<longleftrightarrow> \<not> in_range by exact" "cc_C q \<longleftrightarrow> carry" "psw_rest q = psw_rest p"
  shows "codes_of by exact carry p (b, setnz b q)"
proof -
  have "b = 0 \<longleftrightarrow> sint b = 0" by (metis signed_0 signed_word_eqI)
  then show ?thesis using assms by (simp add: codes_of_def sgn_bit_sint)
qed

text \<open>The carry out of bit 15 of a sum taken in 32 bits.\<close>

lemma carry_out:
  assumes "uint (x :: u32) < 131072"
  shows "bit x 16 \<longleftrightarrow> 65536 \<le> uint x"
proof -
  have "bit x 16 \<longleftrightarrow> bit (uint x) 16" by (simp add: bit_uint_iff)
  also have "\<dots> \<longleftrightarrow> odd (uint x div 65536)" by (simp add: bit_iff_odd)
  also have "\<dots> \<longleftrightarrow> 65536 \<le> uint x"
  proof -
    have "uint x div 65536 = (if 65536 \<le> uint x then 1 else 0)"
      using assms by (simp add: div_pos_geq div_pos_pos_trivial)
    then show ?thesis by simp
  qed
  finally show ?thesis .
qed

lemma uint_16: "0 \<le> uint (w :: u16) \<and> uint w < 65536"
  using uint_bounded [of w] by simp

lemma uint_ucast_32: "uint (ucast (w :: u16) :: u32) = uint w"
  using uint_16 [of w] by (simp add: unsigned_ucast_eq take_bit_int_eq_self)

lemma sum_32:
  fixes a b :: u16
  assumes "c \<in> {0, 1}"
  shows "uint (ucast a + ucast b + c :: u32) = uint a + uint b + uint c"
    "ucast (ucast a + ucast b + c :: u32) = a + b + (ucast c :: u16)"
proof -
  have c: "0 \<le> uint c" "uint c \<le> 1" using assms by auto
  have "uint (ucast a + ucast b :: u32) = uint a + uint b"
    using uint_16 [of a] uint_16 [of b] by (simp add: uint_word_ariths uint_ucast_32)
  then show u: "uint (ucast a + ucast b + c :: u32) = uint a + uint b + uint c"
    using uint_16 [of a] uint_16 [of b] c by (simp add: uint_word_ariths)
  have "ucast (ucast a + ucast b + c :: u32) = (word_of_int (uint (ucast a + ucast b + c :: u32)) :: u16)"
    by (rule ucast_eq)
  also have "\<dots> = word_of_int (uint a + uint b + uint c)" by (simp only: u)
  also have "\<dots> = a + b + word_of_int (uint c)" by (simp only: of_int_add word_of_int_uint)
  also have "word_of_int (uint c) = (ucast c :: u16)" by (rule ucast_eq [symmetric])
  finally show "ucast (ucast a + ucast b + c :: u32) = a + b + (ucast c :: u16)" .
qed

subsection \<open>The arithmetic instructions\<close>

lemma operand_range: "operand by w \<Longrightarrow> - half_range by \<le> sint w \<and> sint w < half_range by"
  by (simp add: operand_def in_range_def)

lemma operand_False [simp]: "operand False w"
  unfolding operand_def using wrap_range [of False "sint w"] by simp

lemma wrap_wrap [simp]: "wrap by (wrap False x) = wrap by x"
  by (cases "by") (simp_all add: wrap_in_range)

text \<open>Overflow of a sum or difference, seen in the signs.\<close>

lemma overflow_sum:
  assumes "in_range by x" "in_range by y"
  shows "\<not> in_range by (x + y) \<longleftrightarrow> (x < 0 \<longleftrightarrow> y < 0) \<and> (wrap by (x + y) < 0 \<longleftrightarrow> \<not> y < 0)"
proof -
  have h: "half_range by > 0" by (simp add: half_range_def)
  have "- 2 * half_range by \<le> x + y" "x + y < 2 * half_range by" using assms by (auto simp: in_range_def)
  from wrap_cases [OF this] show ?thesis using assms h by (auto simp: in_range_def)
qed

lemma overflow_difference:
  assumes "in_range by x" "in_range by y"
  shows "\<not> in_range by (x - y) \<longleftrightarrow> (x < 0 \<longleftrightarrow> \<not> y < 0) \<and> (wrap by (x - y) < 0 \<longleftrightarrow> y < 0)"
proof -
  have h: "half_range by > 0" by (simp add: half_range_def)
  have "- 2 * half_range by \<le> x - y" "x - y < 2 * half_range by" using assms by (auto simp: in_range_def)
  from wrap_cases [OF this] show ?thesis using assms h by (auto simp: in_range_def)
qed

text \<open>Unsigned order of operands, as the carry of the 16 bit difference shows it.\<close>

lemma uint_sint_16: "uint (w :: u16) = (if sint w < 0 then sint w + 65536 else sint w)"
proof -
  have u: "0 \<le> uint w" "uint w < 65536" using uint_16 [of w] by auto
  have "sint w = (if 32768 \<le> uint w then uint w - 65536 else uint w)"
    unfolding sint_uint_16 using wrap_cases [of False "uint w"] u by (auto simp: half_range_def)
  then show ?thesis using u by auto
qed

lemma uval_sint:
  assumes "operand by w"
  shows "uval by w = (if sint w < 0 then sint w + 2 * half_range by else sint w)"
proof (cases "by")
  case True
  have r: "- 128 \<le> sint w" "sint w < 128" using operand_range [OF assms] True by (simp_all add: half_range_def)
  have "uint w mod 256 = sint w mod 256"
    using mod_mult_self1 [of "sint w" 256 256] unfolding uint_sint_16 by simp
  also have "\<dots> = (if sint w < 0 then sint w + 256 else sint w)"
  proof (cases "sint w < 0")
    case True
    have "(sint w + 256) mod 256 = sint w + 256" using r True by (intro mod_pos_pos_trivial) simp_all
    then show ?thesis using True by simp
  next
    case False
    then show ?thesis using r by (simp add: mod_pos_pos_trivial)
  qed
  finally show ?thesis using True by (simp add: uval_def half_range_def)
next
  case False
  then show ?thesis using uint_16 [of w] uint_sint_16 [of w] by (simp add: uval_def half_range_def mod_pos_pos_trivial)
qed

lemma uval_less:
  assumes "operand by x" "operand by y"
  shows "uval by x < uval by y \<longleftrightarrow> uint x < uint y"
  using operand_range [OF assms(1)] operand_range [OF assms(2)]
  unfolding uval_sint [OF assms(1)] uval_sint [OF assms(2)] uint_sint_16
  by (cases "by") (auto simp: half_range_def)

lemma uint_NOT_16: "uint (NOT (w :: u16)) = 65535 - uint w"
proof -
  have "word_of_int (65535 - uint w) = 65535 - w" by (simp only: of_int_diff of_int_numeral word_of_int_uint)
  also have "\<dots> = NOT w" by (simp add: not_eq_complement)
  finally have n: "NOT w = word_of_int (65535 - uint w)" by (rule sym)
  have t: "take_bit 16 (65535 - u) = 65535 - u" if "0 \<le> u" "u < 65536" for u :: int
    using that by (simp add: take_bit_int_eq_self)
  show ?thesis unfolding n uint_word_of_int_eq using t [of "uint w"] uint_16 [of w] by simp
qed

text \<open>A subtraction is an addition of the complement and one; no carry means borrow.\<close>

lemma difference_32:
  fixes a b :: u16
  shows "ucast (ucast a + ucast (NOT b) + 1 :: u32) = a - b"
    "(ucast a + ucast (NOT b) + 1 :: u32) AND 0x10000 = 0 \<longleftrightarrow> uint a < uint b"
proof -
  have "ucast (ucast a + ucast (NOT b) + 1 :: u32) = a + NOT b + (1 :: u16)"
    using sum_32(2) [of 1 a "NOT b"] by simp
  then show "ucast (ucast a + ucast (NOT b) + 1 :: u32) = a - b"
    by (simp add: not_eq_complement)
  have u: "uint (ucast a + ucast (NOT b) + 1 :: u32) = uint a + 65536 - uint b"
    using sum_32(1) [of 1 a "NOT b"] by (simp add: uint_NOT_16)
  have "uint (ucast a + ucast (NOT b) + 1 :: u32) < 131072"
    unfolding u using uint_16 [of a] uint_16 [of b] by linarith
  from carry_out [OF this] show "(ucast a + ucast (NOT b) + 1 :: u32) AND 0x10000 = 0 \<longleftrightarrow> uint a < uint b"
    unfolding and_10000 u by auto
qed

lemmas sign_logic = sgn_bit_logic [unfolded sgn_bit_sint] sgn_bit_sint

lemma CMP_codes:
  assumes "operand by sr" "operand by dr"
  shows "codes_of by (sint sr - sint dr) (uval by sr < uval by dr) p (alu_CMP by sr dr p)"
  unfolding alu_CMP_def Let_def
  using assms overflow_difference [of "by" "sint sr" "sint dr"]
  by (intro codes_ofI)
    (auto simp: sint_BXT difference_32 sint_minus_16 uval_less sign_logic operand_def)

lemma SUB_codes: "codes_of False (sint dr - sint sr) (uint dr < uint sr) p (alu_SUB by sr dr p)"
  unfolding alu_SUB_def Let_def
  using overflow_difference [of False "sint dr" "sint sr"]
  by (intro codes_ofI)
    (auto simp: difference_32 sint_minus_16 sign_logic operand_False [unfolded operand_def])

lemma sum_carry:
  fixes a b :: u16
  shows "(ucast a + ucast b :: u32) AND 0x10000 = 0 \<longleftrightarrow> uint a + uint b < 65536" "ucast (ucast a + ucast b :: u32) = a + b"
proof -
  have u: "uint (ucast a + ucast b :: u32) = uint a + uint b" using sum_32(1) [of 0 a b] by simp
  show "ucast (ucast a + ucast b :: u32) = a + b" using sum_32(2) [of 0 a b] by simp
  have "uint (ucast a + ucast b :: u32) < 131072"
    unfolding u using uint_16 [of a] uint_16 [of b] by linarith
  from carry_out [OF this] show "(ucast a + ucast b :: u32) AND 0x10000 = 0 \<longleftrightarrow> uint a + uint b < 65536"
    unfolding and_10000 u by auto
qed

lemma ADD_codes: "codes_of False (sint sr + sint dr) (65536 \<le> uint sr + uint dr) p (alu_ADD by sr dr p)"
  unfolding alu_ADD_def Let_def
  using overflow_sum [of False "sint sr" "sint dr"]
  by (intro codes_ofI)
    (auto simp: sum_carry sint_plus_16 sign_logic operand_False [unfolded operand_def])

lemma small_in_range [simp]: "in_range by 0" "in_range by 1" "in_range by (- 1)"
  by (simp_all add: in_range_def half_range_def)

lemma INC_codes: "operand by sr \<Longrightarrow> codes_of by (sint sr + 1) (cc_C p) p (alu_INC by sr p)"
  unfolding alu_INC_def Let_def
  using overflow_sum [of "by" "sint sr" 1]
  by (intro codes_ofI) (auto simp: sint_BXT sint_plus_16 sign_logic operand_def)

lemma DEC_codes: "operand by sr \<Longrightarrow> codes_of by (sint sr - 1) (cc_C p) p (alu_DEC by sr p)"
  unfolding alu_DEC_def Let_def
  using overflow_difference [of "by" "sint sr" 1]
  by (intro codes_ofI) (auto simp: sint_BXT sint_minus_16 sign_logic operand_def)

lemma sint_0_iff: "sint (w :: u16) = 0 \<longleftrightarrow> w = 0"
  by (metis signed_0 signed_word_eqI)

lemma NEG_codes: "operand by sr \<Longrightarrow> codes_of by (- sint sr) (sr \<noteq> 0) p (alu_NEG by sr p)"
proof -
  assume a: "operand by sr"
  have n: "NOT sr + 1 = - sr" by (simp add: not_eq_complement)
  have s: "sint (BXT by (- sr)) = wrap by (- sint sr)"
    using sint_minus_16 [of 0 sr] by (simp add: sint_BXT)
  have "- half_range by \<le> sint sr" "sint sr < half_range by" using operand_range [OF a] by auto
  then have z: "wrap by (- sint sr) = 0 \<longleftrightarrow> sint sr = 0" and
    v: "\<not> in_range by (- sint sr) \<longleftrightarrow> wrap by (- sint sr) < 0 \<and> sint sr < 0"
    using wrap_cases [of "by" "- sint sr"] by (auto simp: in_range_def half_range_def split: if_splits)
  show ?thesis
    unfolding alu_NEG_def Let_def n
    by (intro codes_ofI) (use s z v in \<open>auto simp: sign_logic sint_0_iff [symmetric]\<close>)
qed

text \<open>The carry into ADC and SBC, as a number.\<close>

definition carry_value :: "u8 \<Rightarrow> int" where "carry_value p = (if cc_C p then 1 else 0)"

lemma ADC_codes:
  assumes "operand by sr"
  shows "codes_of by (sint sr + carry_value p) (sint sr = - 1 \<and> cc_C p) p (alu_ADC by sr p)"
proof -
  let ?c = "of_bool (bit p 0) :: u16"
  have c: "ucast ?c = (of_bool (bit p 0) :: u32)" "sint ?c = carry_value p" "uint ?c = carry_value p"
    by (simp_all add: carry_value_def cc_C_def)
  note sc = sum_carry [of sr ?c, unfolded c]
  have cy: "uint sr + carry_value p < 65536 \<longleftrightarrow> \<not> (sint sr = - 1 \<and> cc_C p)"
    using uint_16 [of sr] uint_sint_16 [of sr] operand_range [of False sr]
    by (auto simp: carry_value_def half_range_def split: if_splits)
  have s: "sint (BXT by (sr + ?c)) = wrap by (sint sr + carry_value p)" by (simp add: sint_BXT sint_plus_16 c)
  have "in_range by (carry_value p)" by (simp add: carry_value_def)
  from overflow_sum [OF _ this, of "sint sr"] assms
  have "\<not> in_range by (sint sr + carry_value p) \<longleftrightarrow> \<not> sint sr < 0 \<and> wrap by (sint sr + carry_value p) < 0"
    by (auto simp: operand_def carry_value_def split: if_splits)
  then show ?thesis
    unfolding alu_ADC_def Let_def sc
    by (intro codes_ofI) (use s cy in \<open>auto simp: sign_logic\<close>)
qed

lemma SBC_codes:
  assumes "operand by sr"
  shows "codes_of by (sint sr - carry_value p) (sr = 0 \<and> cc_C p) p (alu_SBC by sr p)"
proof -
  have b: "sr + (if bit p 0 then - 1 else 0) = sr - (if bit p 0 then 1 else 0)" by simp
  have s: "sint (BXT by (sr - (if bit p 0 then 1 else 0))) = wrap by (sint sr - carry_value p)"
    by (simp add: sint_BXT sint_minus_16 carry_value_def cc_C_def)
  have "in_range by (carry_value p)" by (simp add: carry_value_def)
  from overflow_difference [OF _ this, of "sint sr"] assms
  have "\<not> in_range by (sint sr - carry_value p) \<longleftrightarrow> sint sr < 0 \<and> \<not> wrap by (sint sr - carry_value p) < 0"
    by (auto simp: operand_def carry_value_def split: if_splits)
  then show ?thesis
    unfolding alu_SBC_def Let_def b
    by (intro codes_ofI) (use s in \<open>auto simp: sign_logic cc_C_def [symmetric]\<close>)
qed

lemma TST_codes: "operand by sr \<Longrightarrow> codes_of by (sint sr) False p (alu_TST by sr p)"
  unfolding alu_TST_def by (intro codes_ofI) (simp_all add: wrap_in_range operand_def)

lemma shift_V_cc: "cc_V (shift_V p) \<longleftrightarrow> cc_V p \<or> cc_N p \<noteq> cc_C p" "cc_C (shift_V p) = cc_C p"
  "psw_rest (shift_V p) = psw_rest p" "cc_N (shift_V p) = cc_N p" "cc_Z (shift_V p) = cc_Z p"
  by (simp_all add: shift_V_def) (simp add: cc_N_def cc_C_def disj_commute)

lemma ASL_codes:
  assumes "operand by sr"
  shows "codes_of by (2 * sint sr) (sint sr < 0) p (alu_ASL by sr p)"
proof -
  have "push_bit 1 sr = sr + sr" by (simp add: push_bit_eq_mult)
  then have s: "sint (BXT by (push_bit 1 sr)) = wrap by (2 * sint sr)" by (simp only: sint_BXT sint_plus_16 wrap_wrap mult_2)
  have z: "BXT by (push_bit 1 sr) = 0 \<longleftrightarrow> wrap by (2 * sint sr) = 0" using s by (metis sint_0_iff)
  have c: "bit sr 15 \<longleftrightarrow> sint sr < 0" using sgn_bit_sint [of sr] by (simp add: sgn_bit_def)
  have "\<not> in_range by (2 * sint sr) \<longleftrightarrow> (wrap by (2 * sint sr) < 0) \<noteq> (sint sr < 0)"
    using wrap_cases [of "by" "2 * sint sr"] operand_range [OF assms] by (auto simp: in_range_def half_range_def split: if_splits)
  then show ?thesis
    unfolding alu_ASL_def Let_def codes_of_def using s z c by (auto simp: shift_V_cc sgn_bit_sint)
qed

subsection \<open>Branches\<close>

definition branch_taken :: "u16 \<Rightarrow> u8 \<Rightarrow> bool" where
  "branch_taken c p = bit (branch_mask c) (unat (p AND 0xf))"

lemma less_8: "n < 8 \<longleftrightarrow> n \<in> {0, 1, 2, 3, 4, 5, 6, 7 :: nat}" by auto

lemma codes_index:
  "p AND 0xf = (if cc_N p then 8 else 0) OR (if cc_Z p then 4 else 0) OR (if cc_V p then 2 else 0) OR
     (if cc_C p then 1 else (0 :: u8))"
proof (rule bit_word_eqI)
  fix n assume "n < LENGTH(8)"
  then have "n \<in> {0, 1, 2, 3, 4, 5, 6, 7}" using less_8 by simp
  then show "bit (p AND 0xf) n = bit ((if cc_N p then 8 else 0) OR (if cc_Z p then 4 else 0) OR (if cc_V p then 2 else 0) OR
     (if cc_C p then 1 else (0 :: u8))) n"
    by (elim insertE emptyE; hypsubst) (auto simp: cc_N_def cc_Z_def cc_V_def cc_C_def bit_simps)
qed

text \<open>Each branch by its opcode, the bits 15 and 10 to 8 of the instruction.\<close>

lemma branch_taken_iff:
  "branch_taken 0x100 p"
  "branch_taken 0x200 p \<longleftrightarrow> \<not> cc_Z p" "branch_taken 0x300 p \<longleftrightarrow> cc_Z p"
  "branch_taken 0x400 p \<longleftrightarrow> cc_N p = cc_V p" "branch_taken 0x500 p \<longleftrightarrow> cc_N p \<noteq> cc_V p"
  "branch_taken 0x600 p \<longleftrightarrow> \<not> cc_Z p \<and> cc_N p = cc_V p" "branch_taken 0x700 p \<longleftrightarrow> cc_Z p \<or> cc_N p \<noteq> cc_V p"
  "branch_taken 0x8000 p \<longleftrightarrow> \<not> cc_N p" "branch_taken 0x8100 p \<longleftrightarrow> cc_N p"
  "branch_taken 0x8200 p \<longleftrightarrow> \<not> cc_C p \<and> \<not> cc_Z p" "branch_taken 0x8300 p \<longleftrightarrow> cc_C p \<or> cc_Z p"
  "branch_taken 0x8400 p \<longleftrightarrow> \<not> cc_V p" "branch_taken 0x8500 p \<longleftrightarrow> cc_V p"
  "branch_taken 0x8600 p \<longleftrightarrow> \<not> cc_C p" "branch_taken 0x8700 p \<longleftrightarrow> cc_C p"
  unfolding branch_taken_def codes_index branch_mask_def
  by (cases "cc_N p"; cases "cc_Z p"; cases "cc_V p"; cases "cc_C p"; simp)+

end
