(* ===== verification/KA11_Programs.thy ===== *)
theory KA11_Programs
  imports KA11_Arith
begin

text \<open>
  Whole instructions of the 11/20: fetch, decoding, execution and service, one or several
  instructions after the other.
\<close>

lemma set_r_sel [simp]:
  "r (set_r i v s) = (r s)(i := v)" "ba (set_r i v s) = ba s" "bdata (set_r i v s) = bdata s" "ir (set_r i v s) = ir s"
  "psw (set_r i v s) = psw s" "traps (set_r i v s) = traps s" "be (set_r i v s) = be s" "kstate (set_r i v s) = kstate s"
  "external_intr (set_r i v s) = external_intr s" "external_intrvec (set_r i v s) = external_intrvec s"
  "env (set_r i v s) = env s" "b_reg (set_r i v s) = b_reg s" "swab_vbit (set_r i v s) = swab_vbit s" "sw (set_r i v s) = sw s"
  by (simp_all add: set_r_def)

lemma on_done_simps [simp]: "on_done (Done s) f = f s" "on_done (Fault s) f = Fault s"
  by (simp_all add: on_done_def)

lemma svc_simps [simp]: "svc (Done s) = (Service, s)" "svc (Fault s) = (Bus_error, s)"
  by (simp_all add: svc_def)

subsection \<open>Fetch and service\<close>

text \<open>A word of memory at an even address outside the processor's own registers.\<close>

definition memory_word :: "u16 \<Rightarrow> bool" where
  "memory_word a \<longleftrightarrow> a AND 1 = 0 \<and> a AND 0xff00 \<noteq> 0xff00"

definition fetches :: "'e cpu_bus \<Rightarrow> u16 \<Rightarrow> u16 \<Rightarrow> 'e \<Rightarrow> 'e \<Rightarrow> bool" where
  "fetches B a w e e' \<longleftrightarrow> memory_word a \<and> unibone_dati B (ubxt a AND NOT 1) e = (Some w, e')"

lemma dati_fetches:
  assumes "fetches B (ba s) w (env s) e"
  shows "dati B b s = Done (s\<lparr>bdata := w, be := 0, env := e\<rparr>)"
  using assms by (auto simp: fetches_def memory_word_def dati_def internal_read_def)

text \<open>The state in which a fetched instruction is executed.\<close>

definition fetched :: "u16 \<Rightarrow> 'e \<Rightarrow> 'e ka11 \<Rightarrow> 'e ka11" where
  "fetched w e s = set_r 7 (r s 7 + 2) (s\<lparr>ba := r s 7, bdata := w, be := 0, env := e, ir := w\<rparr>)"

lemma fetched_sel [simp]:
  "r (fetched w e s) = (r s)(7 := r s 7 + 2)" "ir (fetched w e s) = w" "psw (fetched w e s) = psw s"
  "traps (fetched w e s) = traps s" "env (fetched w e s) = e" "be (fetched w e s) = 0"
  "external_intr (fetched w e s) = external_intr s" "kstate (fetched w e s) = kstate s"
  "swab_vbit (fetched w e s) = swab_vbit s" "sw (fetched w e s) = sw s"
  by (simp_all add: fetched_def)

lemma step_fetched:
  assumes "fetches B (r s 7) w (env s) e" "\<not> external_intr s"
  shows "step B s = run_ending B (psw s) (execute B (fetched w e s))"
proof -
  have "INA B (r s 7) s = Done (s\<lparr>ba := r s 7, bdata := w, be := 0, env := e\<rparr>)"
    using dati_fetches [of B "s\<lparr>ba := r s 7\<rparr>" w e False] assms(1) by (simp add: INA_def)
  moreover have "set_r 7 (r s 7 + 2) (s\<lparr>ba := r s 7, bdata := w, be := 0, env := e, ir := w\<rparr>) = fetched w e s"
    by (simp add: fetched_def)
  ultimately show ?thesis using assms(2) by (simp add: step_def)
qed

text \<open>No interrupt, no trap pending.\<close>

definition undisturbed :: "'e ka11 \<Rightarrow> bool" where
  "undisturbed s \<longleftrightarrow> \<not> external_intr s \<and> traps s = 0 \<and> psw s AND PSW_T = 0"

lemma run_service_quiet: "p AND PSW_T = 0 \<Longrightarrow> traps s = 0 \<Longrightarrow> run_service B p s = Some s"
  by (simp add: run_service_def)

lemma step_service:
  assumes "fetches B (r s 7) w (env s) e" "undisturbed s" "execute B (fetched w e s) = (Service, t)" "traps t = 0"
  shows "step B s = Some t"
  using assms by (simp add: undisturbed_def step_fetched run_ending_def run_service_quiet)

lemma psw_T_rest: "psw_rest q = psw_rest p \<Longrightarrow> q AND PSW_T = 0 \<longleftrightarrow> p AND PSW_T = 0"
proof -
  assume "psw_rest q = psw_rest p"
  then have "(q AND 0xf0) AND PSW_T = (p AND 0xf0) AND PSW_T" by (simp add: psw_rest_def)
  moreover have "(0xf0 :: u8) AND PSW_T = PSW_T" by (simp add: PSW_T_def)
  ultimately show ?thesis by (simp add: and.assoc)
qed

subsection \<open>Decoding\<close>

lemma and_eq_bit: "w AND m = c \<Longrightarrow> bit c k \<Longrightarrow> bit w k" for w :: "'a::len word"
  by (auto simp: bit_and_iff)

lemma unary_op_bit_11: "unary_op g = Some x \<Longrightarrow> bit g 11"
  unfolding unary_op_def by (auto split: if_splits)

lemma execute_branch:
  assumes "ir s AND 0x7800 = 0" "ir s AND 0x8700 \<noteq> 0"
  shows "execute B s = exec_branch s"
proof -
  have z: "\<not> bit (ir s) k" if "k \<in> {11, 12, 13, 14}" for k
  proof -
    have "bit (0x7800 :: u16) k" using that by auto
    then show ?thesis using arg_cong [OF assms(1), of "\<lambda>x. bit x k"] by (simp add: bit_and_iff)
  qed
  have ne: "ir s AND m \<noteq> c" if "bit c 11 \<or> bit c 12 \<or> bit c 13 \<or> bit c 14" for m c
    using that z and_eq_bit [of "ir s" m c] by blast
  have u: "unary_op (ir s AND 0xfc0) = None"
    using unary_op_bit_11 [of "ir s AND 0xfc0"] z [of 11] by (cases "unary_op (ir s AND 0xfc0)") (auto simp: bit_and_iff)
  show ?thesis
    unfolding execute_def Let_def exec_unary_group_def u exec_program_control_def using ne assms by simp
qed

lemma is_byte_bits:
  assumes "w AND 0xf000 = (c :: u16)"
  shows "bit w 15 = bit c 15"
  using arg_cong [OF assms, of "\<lambda>x. bit x 15"] by (simp add: bit_and_iff)

subsection \<open>Register operands\<close>

definition reg_value :: "bool \<Rightarrow> u16 \<Rightarrow> u16" where "reg_value by w = (if by then sxt w else w)"

lemma operand_reg_value: "operand by (reg_value by w)"
  unfolding operand_def reg_value_def using wrap_range [of "by" "sint w"]
  by (cases "by") (simp_all add: sint_sxt)

lemma fetchop_register:
  assumes "is_register m"
  shows "fetchop B t m by s = Done (set_r t (reg_value by (r s (reg_no m))) s)"
  using assms by (simp add: fetchop_def reg_value_def set_r_def)

lemma reg_no_less: "reg_no m < 8"
proof -
  have "m AND 7 = take_bit 3 m" by (simp add: take_bit_eq_mask mask_numeral)
  then have "unat (m AND 7) = take_bit 3 (unat m)" by (simp add: unsigned_take_bit_eq)
  then show ?thesis using take_bit_nat_less_exp [of 3 "unat m"] by (simp add: reg_no_def)
qed

lemma RD_B_registers:
  assumes "is_register src" "is_register dst"
  shows "RD_B B src dst by s =
    Done (set_r 9 (reg_value by (r s (reg_no dst))) (set_r 8 (reg_value by (r s (reg_no src))) s))"
  using assms reg_no_less [of dst] by (simp add: RD_B_def fetchop_register)

lemma exec_compare:
  assumes "is_register (src_op s)" "is_register (dst_op s)"
  shows "exec_binary B alu False by s =
    (let x = reg_value by (r s (reg_no (src_op s))); y = reg_value by (r s (reg_no (dst_op s)))
     in (Service, (set_r 9 y (set_r 8 x s))\<lparr>psw := snd (alu by x y (psw s))\<rparr>))"
  using assms by (simp add: exec_binary_def RD_B_registers Let_def split: prod.split)

subsection \<open>Compare and branch\<close>

text \<open>The relations the branches are named after: of signed and of unsigned values.\<close>

definition branch_relation :: "u16 \<Rightarrow> int \<Rightarrow> int \<Rightarrow> int \<Rightarrow> int \<Rightarrow> bool" where
  "branch_relation c x y ux uy =
     (if c = 0x200 then x \<noteq> y else if c = 0x300 then x = y
      else if c = 0x400 then x \<ge> y else if c = 0x500 then x < y
      else if c = 0x600 then x > y else if c = 0x700 then x \<le> y
      else if c = 0x8200 then ux > uy else if c = 0x8300 then ux \<le> uy
      else if c = 0x8600 then ux \<ge> uy else ux < uy)"

definition comparing_branches :: "u16 set" where
  "comparing_branches = {0x200, 0x300, 0x400, 0x500, 0x600, 0x700, 0x8200, 0x8300, 0x8600, 0x8700}"

lemma sint_inject_16: "sint x = sint y \<longleftrightarrow> x = (y :: u16)"
  by (metis signed_word_eqI)

lemma compare_branch_taken:
  assumes "operand by x" "operand by y" "c \<in> comparing_branches"
  shows "branch_taken c (snd (alu_CMP by x y p)) \<longleftrightarrow> branch_relation c (sint x) (sint y) (uval by x) (uval by y)"
proof -
  obtain b q where q: "alu_CMP by x y p = (b, q)" by (cases "alu_CMP by x y p")
  let ?d = "sint x - sint y"
  have f: "cc_N q \<longleftrightarrow> wrap by ?d < 0" "cc_Z q \<longleftrightarrow> wrap by ?d = 0" "cc_V q \<longleftrightarrow> \<not> in_range by ?d"
    "cc_C q \<longleftrightarrow> uval by x < uval by y"
    using CMP_codes [OF assms(1,2), of p] unfolding q codes_of_def by auto
  note r = operand_range [OF assms(1)] operand_range [OF assms(2)]
  have w: "wrap by ?d = (if ?d < - half_range by then ?d + 2 * half_range by
     else if half_range by \<le> ?d then ?d - 2 * half_range by else ?d)"
    by (rule wrap_cases) (use r in linarith)+
  have h: "half_range by > 0" by (simp add: half_range_def)
  have lt: "cc_N q \<noteq> cc_V q \<longleftrightarrow> sint x < sint y"
    unfolding f in_range_def w using r h by (auto split: if_splits)
  have eq: "cc_Z q \<longleftrightarrow> sint x = sint y"
    unfolding f w using r h by (auto split: if_splits)
  have ue: "uval by x = uval by y \<longleftrightarrow> sint x = sint y"
    unfolding uval_sint [OF assms(1)] uval_sint [OF assms(2)] using r by auto
  show ?thesis
    using assms(3) lt eq ue f(4) unfolding comparing_branches_def q snd_conv
    by (elim insertE emptyE; hypsubst) (auto simp: branch_taken_iff branch_relation_def)
qed

lemma execute_compare:
  assumes "ir s AND 0xf000 = (if by then 0xa000 else 0x2000)" "is_register (src_op s)" "is_register (dst_op s)"
  shows "execute B s = (let x = reg_value by (r s (reg_no (src_op s))); y = reg_value by (r s (reg_no (dst_op s)))
     in (Service, (set_r 9 y (set_r 8 x s))\<lparr>psw := snd (alu_CMP by x y (psw s))\<rparr>))"
proof -
  have "is_byte s = by" using is_byte_bits [OF assms(1)] by (cases "by") (simp_all add: is_byte_def)
  then have "execute B s = exec_binary B alu_CMP False by s" using assms(1) by (cases "by") (simp_all add: execute_def)
  then show ?thesis using exec_compare [OF assms(2,3)] by simp
qed

text \<open>
  Property C38. A CMP or CMPB of two registers followed by a conditional branch, executed from
  memory: after the two steps the PC is at the branch's target exactly if the values, of words or
  low bytes, signed or unsigned as the branch is named, are in the branch's relation, and
  behind the branch otherwise; the registers keep their values.
\<close>

theorem compare_and_branch:
  assumes "undisturbed s" "fetches B (r s 7) w (env s) e1" "fetches B (r s 7 + 2) w' e1 e2"
    "w AND 0xf000 = (if by then 0xa000 else 0x2000)" "is_register (drop_bit 6 w AND 0x3f)" "is_register (w AND 0x3f)"
    "i = reg_no (drop_bit 6 w AND 0x3f)" "j = reg_no (w AND 0x3f)" "i \<noteq> 7" "j \<noteq> 7"
    "w' AND 0x7800 = 0" "w' AND 0x8700 \<in> comparing_branches"
  shows "\<exists>s1 s2. step B s = Some s1 \<and> step B s1 = Some s2 \<and> (\<forall>k<7. r s2 k = r s k) \<and> env s2 = e2 \<and>
    r s2 7 = r s 7 + 4 +
      (if branch_relation (w' AND 0x8700) (sint (reg_value by (r s i))) (sint (reg_value by (r s j)))
            (uval by (reg_value by (r s i))) (uval by (reg_value by (r s j)))
       then push_bit 1 (sxt w') else 0)"
proof -
  let ?x = "reg_value by (r s i)" and ?y = "reg_value by (r s j)" and ?c = "w' AND 0x8700"
  let ?f = "fetched w e1 s"
  define s1 where "s1 = (set_r 9 ?y (set_r 8 ?x ?f))\<lparr>psw := snd (alu_CMP by ?x ?y (psw s))\<rparr>"
  have ops: "src_op ?f = drop_bit 6 w AND 0x3f" "dst_op ?f = w AND 0x3f" by (simp_all add: src_op_def dst_op_def)
  have ex: "execute B ?f = (Service, s1)"
    using execute_compare [of ?f "by" B] assms(4-10) unfolding ops s1_def by (simp add: Let_def)
  have st1: "step B s = Some s1"
    by (rule step_service [OF assms(2,1) ex]) (use assms(1) in \<open>simp add: s1_def undisturbed_def\<close>)
  obtain b q where q: "alu_CMP by ?x ?y (psw s) = (b, q)" by (cases "alu_CMP by ?x ?y (psw s)")
  have "psw_rest q = psw_rest (psw s)"
    using CMP_codes [OF operand_reg_value [of "by" "r s i"] operand_reg_value [of "by" "r s j"], of "psw s"]
    unfolding q codes_of_def by simp
  then have u1: "undisturbed s1"
    using assms(1) psw_T_rest [of q "psw s"] by (simp add: undisturbed_def s1_def q)
  have pc: "r s1 7 = r s 7 + 2" "env s1 = e1" "psw s1 = snd (alu_CMP by ?x ?y (psw s))" by (simp_all add: s1_def)
  have f2: "fetches B (r s1 7) w' (env s1) e2" using assms(3) pc by simp
  let ?g = "fetched w' e2 s1"
  have nz: "?c \<noteq> 0" using assms(12) by (auto simp: comparing_branches_def)
  define t where "t = (if branch_taken ?c (psw s1) then set_r 7 (r ?g 7 + push_bit 1 (sxt w')) ?g else ?g)"
  have "execute B ?g = (Service, t)"
    using execute_branch [of ?g B] assms(11) nz by (simp add: exec_branch_def branch_taken_def t_def)
  then have st2: "step B s1 = Some t"
    by (rule step_service [OF f2 u1]) (use u1 in \<open>simp add: t_def undisturbed_def\<close>)
  have "branch_taken ?c (psw s1) \<longleftrightarrow> branch_relation ?c (sint ?x) (sint ?y) (uval by ?x) (uval by ?y)"
    unfolding pc(3) by (rule compare_branch_taken [OF operand_reg_value operand_reg_value assms(12)])
  then have "r t 7 = r s 7 + 4 + (if branch_relation ?c (sint ?x) (sint ?y) (uval by ?x) (uval by ?y)
      then push_bit 1 (sxt w') else 0)"
    by (simp add: t_def pc)
  moreover have "\<forall>k<7. r t k = r s k" "env t = e2" by (simp_all add: t_def s1_def)
  ultimately show ?thesis using st1 st2 by blast
qed

subsection \<open>Sums of double words\<close>

lemma mod_double_word:
  assumes "0 \<le> l" "l < 65536"
  shows "(65536 * k + l) mod (65536 * 65536) = 65536 * (k mod 65536) + (l :: int)"
proof -
  have d: "(65536 * k + l) div 65536 = k" "(65536 * k + l) mod 65536 = l"
    using assms by (simp_all add: div_pos_pos_trivial mod_pos_pos_trivial)
  have "(65536 * k + l) mod (65536 * 65536) = 65536 * ((65536 * k + l) div 65536 mod 65536) + (65536 * k + l) mod 65536"
    by (rule zmod_zmult2_eq) simp
  then show ?thesis unfolding d .
qed

text \<open>
  The addition of two 32 bit numbers in register pairs by ADD of the low words, ADC and
  ADD of the high words gives their sum modulo 2 to the 32.
\<close>

theorem double_word_addition:
  assumes "alu_ADD False lo1 lo2 p = (lo, p1)" "alu_ADC False hi2 p1 = (h, p2)" "alu_ADD False hi1 h p2 = (hi, p3)"
  shows "uint hi * 65536 + uint lo = (uint hi1 * 65536 + uint lo1 + (uint hi2 * 65536 + uint lo2)) mod 2 ^ 32"
proof -
  have lo: "lo = lo1 + lo2" using assms(1) sum_carry(2) [of lo1 lo2] by (simp add: alu_ADD_def Let_def)
  have c: "cc_C p1 \<longleftrightarrow> 65536 \<le> uint lo1 + uint lo2"
    using ADD_codes [of lo1 lo2 p False] unfolding assms(1) codes_of_def by simp
  have h: "h = hi2 + of_bool (bit p1 0)"
    using assms(2) sum_carry(2) [of hi2 "of_bool (bit p1 0)"]
    by (cases "bit p1 0") (simp_all add: alu_ADC_def BXT_def Let_def)
  have hi: "hi = hi1 + h" using assms(3) sum_carry(2) [of hi1 h] by (simp add: alu_ADD_def Let_def)
  have ulo: "uint lo1 + uint lo2 = uint lo + 65536 * (if cc_C p1 then 1 else 0)"
    unfolding lo c using uint_16 [of lo1] uint_16 [of lo2] uint_word_of_int_eq [of "uint lo1 + uint lo2", where 'a = 16]
    by (auto simp: uint_plus_if')
  let ?H = "uint hi1 + (uint hi2 + (if cc_C p1 then 1 else 0))"
  have uhi: "uint hi = ?H mod 65536"
    unfolding hi h by (simp add: uint_word_ariths cc_C_def mod_simps)
  have l: "0 \<le> uint lo" "uint lo < 65536" using uint_16 [of lo] by auto
  have m: "(65536 * ?H + uint lo) mod (65536 * 65536) = 65536 * (?H mod 65536) + uint lo"
    by (rule mod_double_word [OF l])
  have e: "uint hi1 * 65536 + uint lo1 + (uint hi2 * 65536 + uint lo2) = 65536 * ?H + uint lo"
    using ulo by (simp add: algebra_simps)
  have p: "(2 :: int) ^ 32 = 65536 * 65536" by simp
  show ?thesis unfolding e p m uhi by (simp only: mult.commute)
qed

end
