(* ===== verification/KA11_Memory.thy ===== *)
theory KA11_Memory
  imports KA11_Programs
begin

text \<open>
  The 11/20 with memory: what the core relies on for a word of memory, as the locale
  \<open>cpu_memory\<close>, and what subroutine calls, traps and interrupts do with the stack under it.
\<close>

subsection \<open>The contract of memory\<close>

text \<open>
  \<open>mem e\<close> gives the words of memory in the environment \<open>e\<close> by even bus address; nothing is
  promised for addresses without an entry.
\<close>

locale cpu_memory =
  fixes B :: "'e cpu_bus" and mem :: "'e \<Rightarrow> u32 \<Rightarrow> u16 option"
  assumes dati_mem: "mem e a = Some w \<Longrightarrow> \<exists>e'. unibone_dati B a e = (Some w, e') \<and> mem e' = mem e"
    and dato_mem: "mem e a \<noteq> None \<Longrightarrow> \<exists>e'. unibone_dato B a w e = (True, e') \<and> mem e' = (mem e)(a \<mapsto> w)"
    and level_mem: "mem (unibone_prioritylevelchange B l e) = mem e"

lemma ubxt_inject: "ubxt a = ubxt b \<longleftrightarrow> a = b"
proof
  assume e: "ubxt a = ubxt b"
  have c: "ucast (ubxt x) = x" for x :: u16
  proof (rule bit_word_eqI)
    fix n assume "n < LENGTH(16)"
    then have n: "n < 16" by simp
    have z: "\<not> bit (0x30000 :: u32) n"
    proof
      assume b: "bit (0x30000 :: u32) n"
      have "(0x30000 :: u32) = push_bit 16 3" by simp
      with b have "16 \<le> n" by (metis bit_push_bit_iff)
      with n show False by simp
    qed
    show "bit (ucast (ubxt x) :: u16) n = bit x n"
      using n z by (simp add: ubxt_def bit_simps)
  qed
  from arg_cong [OF e, of "\<lambda>x. ucast x :: u16"] show "a = b" unfolding c .
qed simp

lemma ubxt_even: "a AND 1 = 0 \<Longrightarrow> ubxt a AND NOT 1 = ubxt a"
proof -
  assume a: "a AND 1 = 0"
  have "\<not> bit (ubxt a) 0" using a by (auto simp: ubxt_def bit_simps and_one_eq even_iff_mod_2_eq_zero simp flip: bit_0)
  then show ?thesis by (intro bit_word_eqI) (auto simp: bit_simps intro: gr0I)
qed

text \<open>The word of memory at a 16 bit address of the CPU.\<close>

definition word_at :: "('e \<Rightarrow> u32 \<Rightarrow> u16 option) \<Rightarrow> 'e \<Rightarrow> u16 \<Rightarrow> u16 option" where
  "word_at mem e a = (if memory_word a then mem e (ubxt a) else None)"

context cpu_memory begin

lemma word_at_fetches:
  assumes "word_at mem e a = Some w"
  obtains e' where "fetches B a w e e'" "word_at mem e' = word_at mem e"
proof -
  have m: "memory_word a" "mem e (ubxt a) = Some w" using assms by (simp_all add: word_at_def split: if_splits)
  then have "ubxt a AND NOT 1 = ubxt a" by (intro ubxt_even) (simp add: memory_word_def)
  with dati_mem [OF m(2)] m(1) show thesis
    using that by (auto simp: fetches_def word_at_def fun_eq_iff)
qed

lemma dati_word:
  assumes "word_at mem (env s) (ba s) = Some w"
  obtains e where "dati B b s = Done (s\<lparr>bdata := w, be := 0, env := e\<rparr>)" "word_at mem e = word_at mem (env s)"
  using word_at_fetches [OF assms] dati_fetches by metis

lemma dato_word:
  assumes "word_at mem (env s) (ba s) \<noteq> None"
  obtains e where "dato B False s = Done (s\<lparr>be := 0, env := e\<rparr>)" "word_at mem e = (word_at mem (env s))(ba s \<mapsto> bdata s)"
proof -
  have m: "memory_word (ba s)" "mem (env s) (ubxt (ba s)) \<noteq> None" using assms by (simp_all add: word_at_def split: if_splits)
  then have u: "ubxt (ba s) AND NOT 1 = ubxt (ba s)" by (intro ubxt_even) (simp add: memory_word_def)
  from dato_mem [OF m(2), of "bdata s"] obtain e where
    e: "unibone_dato B (ubxt (ba s)) (bdata s) (env s) = (True, e)" "mem e = (mem (env s))(ubxt (ba s) \<mapsto> bdata s)" by blast
  have "dato B False s = Done (s\<lparr>be := 0, env := e\<rparr>)"
    using m(1) u e(1) by (simp add: dato_def memory_word_def internal_write_def)
  moreover have "word_at mem e = (word_at mem (env s))(ba s \<mapsto> bdata s)"
    using m(1) e(2) by (auto simp: word_at_def fun_eq_iff ubxt_inject)
  ultimately show thesis by (rule that)
qed

lemma word_at_level [simp]: "word_at mem (env (levelchange B p s)) = word_at mem (env s)"
  by (simp add: levelchange_def word_at_def level_mem fun_eq_iff)

end

subsection \<open>The stack\<close>

text \<open>What a stack operation leaves alone.\<close>

definition frame :: "'e ka11 \<Rightarrow> bool \<times> u32 \<times> ka11_state \<times> u16 \<times> u16" where
  "frame s = (external_intr s, traps s, kstate s, ir s, sw s)"

lemma frame_D:
  assumes "frame t = frame s"
  shows "external_intr t = external_intr s" "traps t = traps s" "kstate t = kstate s" "ir t = ir s"
  using assms by (simp_all add: frame_def)

text \<open>Room for a push: memory below the stack pointer, not in the words below 0400.\<close>

definition stack_cell :: "('e \<Rightarrow> u32 \<Rightarrow> u16 option) \<Rightarrow> 'e \<Rightarrow> u16 \<Rightarrow> bool" where
  "stack_cell mem e a \<longleftrightarrow> word_at mem e a \<noteq> None \<and> a AND NOT 0xff \<noteq> 0"

context cpu_memory begin

lemma push_word:
  assumes "stack_cell mem (env s) (r s 6 - 2)"
  obtains t where "OUT B (r (PUSH inhov s) 6) w (PUSH inhov s) = Done t" "r t = (r s)(6 := r s 6 - 2)"
    "psw t = psw s" "frame t = frame s" "word_at mem (env t) = (word_at mem (env s))(r s 6 - 2 \<mapsto> w)"
proof -
  let ?u = "(PUSH inhov s)\<lparr>ba := r s 6 - 2, bdata := w\<rparr>"
  have u: "traps ?u = traps s" "r ?u = (r s)(6 := r s 6 - 2)" "psw ?u = psw s" "env ?u = env s" "frame ?u = frame s"
    using assms by (simp_all add: PUSH_def Let_def stack_cell_def frame_def)
  have "word_at mem (env ?u) (ba ?u) \<noteq> None" using assms u(4) by (simp add: stack_cell_def)
  then obtain e where e: "dato B False ?u = Done (?u\<lparr>be := 0, env := e\<rparr>)"
      "word_at mem e = (word_at mem (env ?u))(ba ?u \<mapsto> bdata ?u)"
    by (rule dato_word)
  have o: "OUT B (r (PUSH inhov s) 6) w (PUSH inhov s) = Done (?u\<lparr>be := 0, env := e\<rparr>)"
    using e(1) by (simp add: OUT_def PUSH_def Let_def)
  show thesis by (rule that [OF o]) (use u e(2) in \<open>simp_all add: frame_def\<close>)
qed

lemma pop_word:
  assumes "word_at mem (env s) (r s 6) = Some w"
  obtains t where "dati B False (POP s) = Done t" "r t = (r s)(6 := r s 6 + 2)" "bdata t = w"
    "psw t = psw s" "frame t = frame s" "word_at mem (env t) = word_at mem (env s)"
proof -
  have "word_at mem (env (POP s)) (ba (POP s)) = Some w" using assms by (simp add: POP_def)
  then obtain e where e: "dati B False (POP s) = Done ((POP s)\<lparr>bdata := w, be := 0, env := e\<rparr>)"
      "word_at mem e = word_at mem (env (POP s))"
    by (rule dati_word)
  show thesis by (rule that [OF e(1)]) (use e(2) in \<open>simp_all add: POP_def frame_def\<close>)
qed

lemma read_vector:
  assumes "word_at mem (env s) a = Some w"
  obtains t where "INA B a s = Done t" "r t = r s" "bdata t = w"
    "psw t = psw s" "frame t = frame s" "word_at mem (env t) = word_at mem (env s)"
proof -
  have "word_at mem (env (s\<lparr>ba := a\<rparr>)) (ba (s\<lparr>ba := a\<rparr>)) = Some w" using assms by simp
  then obtain e where e: "dati B False (s\<lparr>ba := a\<rparr>) = Done (s\<lparr>ba := a, bdata := w, be := 0, env := e\<rparr>)"
      "word_at mem e = word_at mem (env s)"
    by (rule dati_word) simp
  show thesis by (rule that [of "s\<lparr>ba := a, bdata := w, be := 0, env := e\<rparr>"]) (use e in \<open>simp_all add: INA_def frame_def\<close>)
qed

text \<open>The trap sequence when stack and vector are memory.\<close>

definition trap_memory :: "'e \<Rightarrow> u16 \<Rightarrow> u16 \<Rightarrow> u16 \<Rightarrow> u16 \<Rightarrow> bool" where
  "trap_memory e sp v pc ps \<longleftrightarrow> stack_cell mem e (sp - 2) \<and> stack_cell mem e (sp - 4) \<and>
     word_at mem e v = Some pc \<and> word_at mem e (v + 2) = Some ps \<and> v \<notin> {sp - 2, sp - 4} \<and> v + 2 \<notin> {sp - 2, sp - 4}"

lemma trap_sequence:
  assumes "trap_memory (env s) (r s 6) v pc ps"
  obtains t where "run_trap B inhov v s = Some t" "r t = (r s)(6 := r s 6 - 4, 7 := pc, 10 := v)"
    "psw t = ucast ps" "frame t = frame s"
    "word_at mem (env t) = (word_at mem (env s))(r s 6 - 2 \<mapsto> ucast (psw s), r s 6 - 4 \<mapsto> r s 7)"
proof -
  let ?sp = "r s 6"
  have tm: "stack_cell mem (env s) (?sp - 2)" "stack_cell mem (env s) (?sp - 4)" "word_at mem (env s) v = Some pc"
    "word_at mem (env s) (v + 2) = Some ps" "v \<noteq> ?sp - 2" "v \<noteq> ?sp - 4" "v + 2 \<noteq> ?sp - 2" "v + 2 \<noteq> ?sp - 4"
    using assms by (simp_all add: trap_memory_def)
  let ?s0 = "set_r 10 v s"
  have "stack_cell mem (env ?s0) (r ?s0 6 - 2)" using tm by simp
  then obtain s1 where s1: "OUT B (r (PUSH inhov ?s0) 6) (ucast (psw s)) (PUSH inhov ?s0) = Done s1"
    "r s1 = (r ?s0)(6 := r ?s0 6 - 2)" "psw s1 = psw ?s0" "frame s1 = frame ?s0"
    "word_at mem (env s1) = (word_at mem (env ?s0))(r ?s0 6 - 2 \<mapsto> ucast (psw s))" by (rule push_word)
  have "stack_cell mem (env s1) (r s1 6 - 2)" using tm(2) s1(2,5) by (simp add: stack_cell_def)
  then obtain s2 where s2: "OUT B (r (PUSH inhov s1) 6) (r (PUSH inhov s1) 7) (PUSH inhov s1) = Done s2"
    "r s2 = (r s1)(6 := r s1 6 - 2)" "psw s2 = psw s1" "frame s2 = frame s1"
    "word_at mem (env s2) = (word_at mem (env s1))(r s1 6 - 2 \<mapsto> r (PUSH inhov s1) 7)" by (rule push_word)
  have p7: "r (PUSH inhov s1) 7 = r s 7" using s1(2) by (simp add: PUSH_def Let_def)
  have "word_at mem (env s2) (r s2 10) = Some pc"
    using tm(3,5,6) s1(2,5) s2(2,5) by simp
  then obtain s3 where s3: "INA B (r s2 10) s2 = Done s3" "r s3 = r s2" "bdata s3 = pc" "psw s3 = psw s2"
    "frame s3 = frame s2" "word_at mem (env s3) = word_at mem (env s2)" by (rule read_vector)
  let ?s4 = "set_r 7 (bdata s3) s3"
  have "word_at mem (env ?s4) (r s3 10 + 2) = Some ps"
    using tm(4,7,8) s1(2,5) s2(2,5) s3(2,6) by simp
  then obtain s5 where s5: "INA B (r s3 10 + 2) ?s4 = Done s5" "r s5 = r ?s4" "bdata s5 = ps" "psw s5 = psw ?s4"
    "frame s5 = frame ?s4" "word_at mem (env s5) = word_at mem (env ?s4)" by (rule read_vector)
  let ?t = "levelchange B (ucast (bdata s5)) (s5\<lparr>psw := ucast (bdata s5)\<rparr>)"
  have ps: "psw (PUSH inhov ?s0) = psw s" by (simp add: PUSH_def Let_def)
  have "trap_entry B inhov v s = Done ?t"
    using s1(1) s2(1) s3(1) s5(1) ps by (simp add: trap_entry_def Let_def)
  then have rt: "run_trap B inhov v s = Some ?t" by (subst run_trap.simps) simp
  show thesis
  proof (rule that [OF rt])
    have fr: "frame s5 = frame s" using s1(4) s2(4) s3(5) s5(5) by (simp add: frame_def)
    show "frame ?t = frame s" using fr by (simp add: frame_def levelchange_def)
    show "psw ?t = ucast ps" using s5(3) by (simp add: levelchange_def)
    show "r ?t = (r s)(6 := r s 6 - 4, 7 := pc, 10 := v)"
      using s1(2) s2(2) s3(2,3) s5(2) by (auto simp: levelchange_def fun_eq_iff)
    show "word_at mem (env ?t) = (word_at mem (env s))(r s 6 - 2 \<mapsto> ucast (psw s), r s 6 - 4 \<mapsto> r s 7)"
      using s1(2,5) s2(2,5) s3(6) s5(6) p7 by simp
  qed
qed

end

subsection \<open>Interrupts and subroutines return\<close>

lemma ucast_u8_u16 [simp]: "ucast (ucast (p :: u8) :: u16) = p"
  by (rule bit_word_eqI) (simp add: bit_simps)

lemma execute_RTI: "ir s = 2 \<Longrightarrow> execute B s = exec_RTI B s"
  by (simp add: execute_def Let_def exec_unary_group_def unary_op_def exec_program_control_def exec_misc_def
      exec_operate_def)

definition interrupt_memory ::
    "('e \<Rightarrow> u32 \<Rightarrow> u16 option) \<Rightarrow> 'e \<Rightarrow> u16 \<Rightarrow> u16 \<Rightarrow> u16 \<Rightarrow> u16 \<Rightarrow> bool" where
  "interrupt_memory mem e sp v pc ps \<longleftrightarrow> stack_cell mem e (sp - 2) \<and> stack_cell mem e (sp - 4) \<and>
     word_at mem e v = Some pc \<and> word_at mem e (v + 2) = Some ps \<and> word_at mem e pc = Some 2 \<and>
     {v, v + 2, pc} \<inter> {sp - 2, sp - 4} = {} \<and> ucast ps AND PSW_T = 0"

context cpu_memory begin

lemma return_from_trap:
  assumes "word_at mem (env s) (r s 6) = Some pc" "word_at mem (env s) (r s 6 + 2) = Some ps"
  obtains t where "exec_RTI B s = (Service, t)" "r t = (r s)(6 := r s 6 + 4, 7 := pc)" "psw t = ucast ps"
    "frame t = frame s" "word_at mem (env t) = word_at mem (env s)"
proof -
  obtain s1 where s1: "dati B False (POP s) = Done s1" "r s1 = (r s)(6 := r s 6 + 2)" "bdata s1 = pc"
    "psw s1 = psw s" "frame s1 = frame s" "word_at mem (env s1) = word_at mem (env s)"
    by (rule pop_word [OF assms(1)])
  let ?s1 = "set_r 7 (bdata s1) s1"
  have "word_at mem (env ?s1) (r ?s1 6) = Some ps" using assms(2) s1(2,6) by simp
  then obtain s2 where s2: "dati B False (POP ?s1) = Done s2" "r s2 = (r ?s1)(6 := r ?s1 6 + 2)" "bdata s2 = ps"
    "psw s2 = psw ?s1" "frame s2 = frame ?s1" "word_at mem (env s2) = word_at mem (env ?s1)"
    by (rule pop_word)
  let ?t = "levelchange B (ucast (bdata s2)) (s2\<lparr>psw := ucast (bdata s2)\<rparr>)"
  have "exec_RTI B s = (Service, ?t)" using s1(1) s2(1) by (simp add: exec_RTI_def)
  then show thesis
  proof (rule that)
    show "r ?t = (r s)(6 := r s 6 + 4, 7 := pc)" using s1(2,3) s2(2) by (auto simp: levelchange_def)
    show "frame ?t = frame s" using s1(5) s2(5) by (simp add: frame_def levelchange_def)
    show "psw ?t = ucast ps" using s2(3) by (simp add: levelchange_def)
    show "word_at mem (env ?t) = word_at mem (env s)" using s1(6) s2(6) by simp
  qed
qed

lemma interrupt_and_return:
  assumes "external_intr s" "traps s = 0"
    and "interrupt_memory mem (env s) (r s 6) (external_intrvec s) pc ps"
  shows "\<exists>s1 s2. step B s = Some s1 \<and> r s1 7 = pc \<and> psw s1 = ucast ps \<and> step B s1 = Some s2 \<and>
    (\<forall>k<8. r s2 k = r s k) \<and> psw s2 = psw s \<and> \<not> external_intr s2 \<and> traps s2 = 0 \<and> kstate s2 = KA11_STATE_RUNNING"
proof -
  let ?sp = "r s 6" and ?v = "external_intrvec s"
  let ?s0 = "s\<lparr>external_intr := False, kstate := KA11_STATE_RUNNING\<rparr>"
  have im: "stack_cell mem (env s) (?sp - 2)" "stack_cell mem (env s) (?sp - 4)" "word_at mem (env s) ?v = Some pc"
    "word_at mem (env s) (?v + 2) = Some ps" "word_at mem (env s) pc = Some 2" "pc \<noteq> ?sp - 2" "pc \<noteq> ?sp - 4"
    "ucast ps AND PSW_T = 0"
    using assms(3) by (auto simp: interrupt_memory_def)
  have "trap_memory (env ?s0) (r ?s0 6) ?v pc ps"
    using assms(3) by (auto simp: interrupt_memory_def trap_memory_def)
  then obtain s1 where s1: "run_trap B False ?v ?s0 = Some s1" "r s1 = (r ?s0)(6 := r ?s0 6 - 4, 7 := pc, 10 := ?v)"
    "psw s1 = ucast ps" "frame s1 = frame ?s0"
    "word_at mem (env s1) = (word_at mem (env ?s0))(r ?s0 6 - 2 \<mapsto> ucast (psw ?s0), r ?s0 6 - 4 \<mapsto> r ?s0 7)"
    by (rule trap_sequence)
  have st1: "step B s = Some s1" using assms(1) s1(1) by (simp add: step_def)
  have f1: "\<not> external_intr s1" "traps s1 = 0" "kstate s1 = KA11_STATE_RUNNING"
    using frame_D [OF s1(4)] assms(2) by simp_all
  have "word_at mem (env s1) (r s1 7) = Some 2" using s1(2,5) im(5-7) by simp
  then obtain e where e: "fetches B (r s1 7) 2 (env s1) e" "word_at mem e = word_at mem (env s1)" by (rule word_at_fetches)
  let ?f = "fetched 2 e s1"
  have m: "word_at mem (env ?f) (r ?f 6) = Some (r s 7)" "word_at mem (env ?f) (r ?f 6 + 2) = Some (ucast (psw s))"
    using s1(2,5) e(2) by simp_all
  obtain t where t: "exec_RTI B ?f = (Service, t)" "r t = (r ?f)(6 := r ?f 6 + 4, 7 := r s 7)" "psw t = ucast (ucast (psw s) :: u16)"
    "frame t = frame ?f" "word_at mem (env t) = word_at mem (env ?f)"
    by (rule return_from_trap [OF m])
  have tr: "traps t = 0" "\<not> external_intr t" "kstate t = KA11_STATE_RUNNING" using frame_D [OF t(4)] f1 by simp_all
  have "step B s1 = Some t"
  proof (rule step_service [OF e(1)])
    show "undisturbed s1" using f1 im(8) s1(3) by (simp add: undisturbed_def)
    show "execute B ?f = (Service, t)" using execute_RTI [of ?f B] t(1) by simp
  qed (rule tr)
  moreover have "\<forall>k<8. r t k = r s k" using t(2) s1(2) by simp
  ultimately show ?thesis using st1 s1(2,3) t(3) tr by fastforce
qed

end

text \<open>JSR with a register deferred operand.\<close>

definition call_memory ::
    "('e \<Rightarrow> u32 \<Rightarrow> u16 option) \<Rightarrow> 'e \<Rightarrow> u16 \<Rightarrow> u16 \<Rightarrow> u16 \<Rightarrow> u16 \<Rightarrow> bool" where
  "call_memory mem e sp pc w target \<longleftrightarrow> word_at mem e pc = Some w \<and> w AND 0xfe38 = 0x808 \<and>
     word_at mem e target = Some (0x80 OR (drop_bit 6 w AND 7)) \<and>
     stack_cell mem e (sp - 2) \<and> target \<noteq> sp - 2"

lemma less_16: "n < 16 \<longleftrightarrow> n \<in> {0, 1, 2, 3, 4, 5, 6, 7, 8, 9, 10, 11, 12, 13, 14, 15 :: nat}"
  by (simp only: insert_iff empty_iff) arith

lemma unary_op_bits: "unary_op g = Some x \<Longrightarrow> bit g 9 \<or> bit g 10"
  unfolding unary_op_def by (auto split: if_splits)

lemma execute_JSR:
  assumes "ir s AND 0xfe38 = 0x808"
  shows "execute B s = exec_JSR B s"
proof -
  have b: "bit (ir s) k = bit (0x808 :: u16) k" if "bit (0xfe38 :: u16) k" for k
    using that arg_cong [OF assms, of "\<lambda>x. bit x k"] by (simp add: bit_and_iff)
  have z: "\<not> bit (ir s) k" if "k \<in> {9, 10, 12, 13, 14, 15}" for k using that b [of k] by auto
  have o: "bit (ir s) 11" using b [of 11] by simp
  have ne: "ir s AND m \<noteq> c" if "bit c 9 \<or> bit c 10 \<or> bit c 12 \<or> bit c 13 \<or> bit c 14 \<or> bit c 15" for m c
    using that z and_eq_bit [of "ir s" m c] by blast
  have u: "unary_op (ir s AND 0xfc0) = None"
    using unary_op_bits [of "ir s AND 0xfc0"] z [of 9] z [of 10]
    by (cases "unary_op (ir s AND 0xfc0)") (auto simp: bit_and_iff)
  have j: "ir s AND 0x8f00 = (if bit (ir s) 8 then 0x900 else 0x800)"
  proof (rule bit_word_eqI)
    fix n assume "n < LENGTH(16)"
    then have "n \<in> {0, 1, 2, 3, 4, 5, 6, 7, 8, 9, 10, 11, 12, 13, 14, 15}" using less_16 by simp
    then show "bit (ir s AND 0x8f00) n = bit (if bit (ir s) 8 then 0x900 else 0x800 :: u16) n"
      by (elim insertE emptyE; hypsubst) (use z o in \<open>auto simp: bit_simps\<close>)
  qed
  show ?thesis
    unfolding execute_def Let_def exec_unary_group_def u exec_program_control_def j using ne by simp
qed

lemma execute_RTS:
  assumes "ir s = 0x80 OR m" "m AND 7 = m"
  shows "execute B s = exec_RTS B s"
proof -
  have a: "ir s AND k = 0x80 AND k" if "k AND 7 = 0" for k
  proof -
    have "m AND k = m AND (7 AND k)" by (subst assms(2) [symmetric]) (simp only: and.assoc)
    then have "m AND k = 0" using that by (simp add: and.commute)
    then show ?thesis unfolding assms(1) by (simp add: bit.conj_disj_distrib2)
  qed
  show ?thesis
    by (simp add: execute_def Let_def exec_unary_group_def unary_op_def exec_program_control_def exec_misc_def a)
qed

context cpu_memory begin

lemma call_and_return:
  assumes "undisturbed s" "call_memory mem (env s) (r s 6) (r s 7) w target"
    "target = (if reg_no w = 7 then r s 7 + 2 else r s (reg_no w))" "reg_no (drop_bit 6 w AND 7) \<noteq> 6"
  shows "\<exists>s1 s2. step B s = Some s1 \<and> r s1 7 = target \<and> step B s1 = Some s2 \<and> r s2 7 = r s 7 + 2 \<and>
    (\<forall>k<7. r s2 k = r s k) \<and> psw s2 = psw s \<and> undisturbed s2 \<and>
    (\<forall>a. a \<noteq> r s 6 - 2 \<longrightarrow> word_at mem (env s2) a = word_at mem (env s) a)"
proof -
  let ?sp = "r s 6" and ?pc = "r s 7" and ?sf = "reg_no (drop_bit 6 w AND 7)"
  have cm: "word_at mem (env s) ?pc = Some w" "w AND 0xfe38 = 0x808" "stack_cell mem (env s) (?sp - 2)"
    "word_at mem (env s) target = Some (0x80 OR (drop_bit 6 w AND 7))" "target \<noteq> ?sp - 2"
    using assms(2) by (simp_all add: call_memory_def)
  obtain e where e: "fetches B ?pc w (env s) e" "word_at mem e = word_at mem (env s)" by (rule word_at_fetches [OF cm(1)])
  let ?f = "fetched w e s"
  have m: "(w AND 0x3f) AND 0x38 = 8" "(w AND 0x3f) AND 7 = w AND 7"
    using arg_cong [OF cm(2), of "\<lambda>x. x AND 0x38"] by (simp_all add: and.assoc)
  have mode: "operand_mode (w AND 0x3f) = 0" "reg_no (w AND 0x3f) = reg_no w"
  proof -
    have "operand_mode (w AND 0x3f) = drop_bit 3 ((w AND 0x3f) AND 0x38) AND 6"
      by (rule bit_word_eqI) (auto simp: operand_mode_def bit_simps)
    then show "operand_mode (w AND 0x3f) = 0" unfolding m by simp
    show "reg_no (w AND 0x3f) = reg_no w" by (simp add: reg_no_def m(2))
  qed
  have sf: "reg_no (src_op ?f) = ?sf" by (simp add: src_op_def reg_no_def and.assoc)
  let ?g = "set_r 9 target (?f\<lparr>ba := target, b_reg := target\<rparr>)"
  have ad: "addrop B (w AND 0x3f) False ?f = Done (?f\<lparr>ba := target, b_reg := target\<rparr>)"
    using assms(3) mode by (simp add: addrop_def)
  have "stack_cell mem (env ?g) (r ?g 6 - 2)" using cm(3) e(2) by (simp add: stack_cell_def)
  then obtain t where t: "OUT B (r (PUSH False ?g) 6) (r (PUSH False ?g) ?sf) (PUSH False ?g) = Done t"
    "r t = (r ?g)(6 := r ?g 6 - 2)" "psw t = psw ?g" "frame t = frame ?g"
    "word_at mem (env t) = (word_at mem (env ?g))(r ?g 6 - 2 \<mapsto> r (PUSH False ?g) ?sf)"
    by (rule push_word)
  have sf8: "?sf < 8" by (rule reg_no_less)
  define v where "v = (if ?sf = 7 then ?pc + 2 else r s ?sf)"
  have pv: "r (PUSH False ?g) ?sf = v" using assms(4) sf8 by (auto simp: PUSH_def Let_def v_def)
  define s1 where "s1 = set_r 7 (r t 9) (set_r ?sf (r t 7) t)"
  have "execute B ?f = (Service, s1)"
  proof -
    have "\<not> is_register (dst_op ?f)" using m(1) by (simp add: is_register_def dst_op_def)
    moreover have "execute B ?f = exec_JSR B ?f" by (rule execute_JSR) (use cm(2) in simp)
    ultimately show ?thesis
      using ad t(1) sf by (simp add: exec_JSR_def Let_def dst_op_def s1_def)
  qed
  moreover have fr: "external_intr s1 = external_intr s" "traps s1 = traps s" "psw s1 = psw s"
    using frame_D [OF t(4)] t(3) by (simp_all add: s1_def)
  moreover have tr: "traps s1 = 0" using fr(2) assms(1) by (simp add: undisturbed_def)
  ultimately have st1: "step B s = Some s1" using step_service [OF e(1) assms(1)] by simp
  have r1: "r s1 = (r s)(6 := ?sp - 2, 9 := target, ?sf := ?pc + 2, 7 := target)"
    using t(2) assms(4) sf8 by (auto simp: s1_def fun_eq_iff)
  have m1: "word_at mem (env s1) = (word_at mem (env s))(?sp - 2 \<mapsto> v)"
    using t(5) e(2) pv by (simp add: s1_def)
  have u1: "undisturbed s1" using assms(1) fr by (simp add: undisturbed_def)
  have "word_at mem (env s1) (r s1 7) = Some (0x80 OR (drop_bit 6 w AND 7))" using r1 m1 cm(4,5) by simp
  then obtain e1 where e1: "fetches B (r s1 7) (0x80 OR (drop_bit 6 w AND 7)) (env s1) e1"
      "word_at mem e1 = word_at mem (env s1)" by (rule word_at_fetches)
  let ?h = "fetched (0x80 OR (drop_bit 6 w AND 7)) e1 s1"
  have df: "reg_no (dst_op ?h) = ?sf"
    by (simp add: dst_op_def reg_no_def and.assoc bit.conj_disj_distrib2)
  let ?p = "set_r 7 (r (POP ?h) ?sf) (POP ?h)"
  have "word_at mem (env ?h) (r ?h 6) = Some v" using r1 m1 e1(2) assms(4) sf8 by simp
  then obtain e2 where e2: "dati B False ?p = Done (?p\<lparr>bdata := v, be := 0, env := e2\<rparr>)" "word_at mem e2 = word_at mem (env ?h)"
    using dati_word [of ?p v False] by (auto simp: POP_def)
  let ?t = "set_r ?sf v (?p\<lparr>bdata := v, be := 0, env := e2\<rparr>)"
  have "execute B ?h = (Service, ?t)"
  proof -
    have "execute B ?h = exec_RTS B ?h" by (rule execute_RTS) (simp, simp only: and.assoc and.idem)
    then show ?thesis using e2(1) df by (simp add: exec_RTS_def Let_def)
  qed
  then have st2: "step B s1 = Some ?t"
    by (rule step_service [OF e1(1) u1]) (use tr in \<open>simp add: POP_def\<close>)
  have "r ?t 7 = ?pc + 2" "\<forall>k<7. r ?t k = r s k"
    using r1 assms(4) sf8 by (auto simp: POP_def v_def)
  moreover have "psw ?t = psw s" "undisturbed ?t" using fr u1 by (simp_all add: POP_def undisturbed_def)
  moreover have "\<forall>a. a \<noteq> ?sp - 2 \<longrightarrow> word_at mem (env ?t) a = word_at mem (env s) a"
    using e2(2) e1(2) m1 by simp
  moreover have "r s1 7 = target" by (simp add: r1)
  ultimately show ?thesis using st1 st2 by blast
qed

end

end
