(* ===== verification/CPU_Memory.thy ===== *)
theory CPU_Memory
  imports KA11_Memory
begin

text \<open>
  The ARM side of the CPU emulations: the emulated memory (\<^verbatim>\<open>arm/ddrmem.cpp\<close>) and the functions a
  CPU core reaches the bus with (\<^verbatim>\<open>10.02_devices/2_src/cpu.cpp\<close>).

  With \<^verbatim>\<open>direct_memory\<close> the core reads and writes the memory of this side without bus cycles.
  Everything else are bus cycles by \<^verbatim>\<open>cpu_DATA_transfer\<close>; they are the
  parameter \<open>bus_cycles\<close>, over the rest of the system. Trigger and trace buffer are left out;
  the emulated time is a counter.
\<close>

lemma even_word_unat: "(a :: u32) AND 1 = 0 \<longleftrightarrow> even (unat a)" "(a :: u32) mod 2 = 0 \<longleftrightarrow> even (unat a)"
proof -
  have e: "even a \<longleftrightarrow> even (unat a)" by (simp only: even_iff_mod_2_eq_zero word_unat_eq_iff unat_mod) simp
  show "a AND 1 = 0 \<longleftrightarrow> even (unat a)" "a mod 2 = 0 \<longleftrightarrow> even (unat a)"
    unfolding e [symmetric] by (simp_all add: and_one_eq mod_2_eq_odd)
qed

subsection \<open>Emulated memory\<close>

record ddrmem =
  dwords :: "nat \<Rightarrow> u16"
  ddr_enabled :: bool
  ddr_startaddr :: u32
  ddr_endaddr :: u32
  pmi_address_overlay :: u32
  ddr_pru_start :: u32
  ddr_pru_limit :: u32

definition word_index :: "u32 \<Rightarrow> nat" where "word_index a = unat a div 2"

definition ddr_put :: "u32 \<Rightarrow> u16 \<Rightarrow> ddrmem \<Rightarrow> ddrmem" where
  "ddr_put a w m = m\<lparr>dwords := (dwords m)(word_index a := w)\<rparr>"

definition ddr_in_range :: "u32 \<Rightarrow> ddrmem \<Rightarrow> bool" where
  "ddr_in_range a m \<longleftrightarrow> ddr_enabled m \<and> ddr_startaddr m \<le> a \<and> a \<le> ddr_endaddr m"

definition deposit :: "u32 \<Rightarrow> u16 \<Rightarrow> ddrmem \<Rightarrow> bool \<times> ddrmem" where
  "deposit a w m = (if ddr_in_range a m then (True, ddr_put a w m) else (False, m))"

definition exam :: "u32 \<Rightarrow> ddrmem \<Rightarrow> u16 option" where
  "exam a m = (if ddr_in_range a m then Some (dwords m (word_index a)) else None)"

text \<open>The accesses of an emulated CPU, which no range limits; the address must be even.\<close>

definition pmi_deposit :: "u32 \<Rightarrow> u32 \<Rightarrow> u16 \<Rightarrow> ddrmem \<Rightarrow> ddrmem option" where
  "pmi_deposit iopage a w m =
     do { assert_that (a AND 1 = 0); assert_that (a < iopage); Some (ddr_put a w m) }"

definition pmi_exam :: "u32 \<Rightarrow> ddrmem \<Rightarrow> u16 option" where
  "pmi_exam a m = do { assert_that (a AND 1 = 0); Some (dwords m (word_index a)) }"

definition iopage_deposit :: "u32 \<Rightarrow> u32 \<Rightarrow> u32 \<Rightarrow> u16 \<Rightarrow> ddrmem \<Rightarrow> bool \<times> ddrmem" where
  "iopage_deposit iopage limit a w m =
     (if a < iopage \<or> limit \<le> a then (False, m) else (True, ddr_put a w m))"

definition iopage_exam :: "u32 \<Rightarrow> u32 \<Rightarrow> u32 \<Rightarrow> ddrmem \<Rightarrow> u16 option" where
  "iopage_exam iopage limit a m = (if a < iopage \<or> limit \<le> a then None else Some (dwords m (word_index a)))"

definition set_pmi_address_overlay :: "u32 \<Rightarrow> ddrmem \<Rightarrow> ddrmem" where
  "set_pmi_address_overlay a m = m\<lparr>pmi_address_overlay := a\<rparr>"

definition clear_memory :: "ddrmem \<Rightarrow> ddrmem" where "clear_memory m = m\<lparr>dwords := \<lambda>_. 0\<rparr>"

definition fill_pattern :: "nat \<Rightarrow> ddrmem \<Rightarrow> ddrmem" where
  "fill_pattern addr_space_word_count m =
     m\<lparr>dwords := \<lambda>n. if n < addr_space_word_count then NOT (of_nat n) else dwords m n\<rparr>"

text \<open>The memory range the PRU answers for; the result is the function's.\<close>

definition set_range :: "u32 \<Rightarrow> u32 \<Rightarrow> u32 \<Rightarrow> u32 \<Rightarrow> ddrmem \<Rightarrow> (bool \<times> ddrmem) option" where
  "set_range iopage limit start endaddr m =
     do { assert_that (iopage \<noteq> 0);
          let m1 = m\<lparr>ddr_startaddr := start, ddr_endaddr := endaddr,
                ddr_enabled := (start < limit \<and> endaddr < limit \<and> start \<le> endaddr)\<rparr>;
          Some (if \<not> ddr_enabled m1 then (True, m1\<lparr>ddr_pru_start := 0, ddr_pru_limit := 0\<rparr>)
                else if iopage \<le> endaddr \<or> start mod 2 \<noteq> 0 \<or> endaddr mod 2 \<noteq> 0 then (False, m1)
                else (True, m1\<lparr>ddr_pru_start := start, ddr_pru_limit := endaddr + 2\<rparr>)) }"

text \<open>
  When a memory range is accepted, ARM and PRU agree on it: for even addresses the ARM's
  \<^verbatim>\<open>exam\<close> and \<^verbatim>\<open>deposit\<close> succeed exactly where the PRU answers bus cycles from memory, and a
  word deposited is the word examined afterwards, at that address and no other.
\<close>

theorem set_range_accepted:
  assumes "set_range iopage limit start endaddr m = Some (True, t)" "iopage < limit" "limit \<le> 0x400000" "a AND 1 = 0"
  shows "(exam a t \<noteq> None \<longleftrightarrow> ddr_pru_start t \<le> a \<and> a < ddr_pru_limit t) \<and>
    (fst (deposit a w t) \<longleftrightarrow> exam a t \<noteq> None) \<and>
    (fst (deposit a w t) \<longrightarrow> exam a (snd (deposit a w t)) = Some w \<and>
       (\<forall>x. x AND 1 = 0 \<and> x \<noteq> a \<longrightarrow> exam x (snd (deposit a w t)) = exam x t))"
proof -
  have i: "word_index x = word_index y \<longleftrightarrow> x = y" if "x AND 1 = 0" "y AND 1 = 0" for x y :: u32
    using that unfolding even_word_unat by (auto simp: word_index_def word_unat_eq_iff elim!: evenE)
  have "exam a t \<noteq> None \<longleftrightarrow> ddr_pru_start t \<le> a \<and> a < ddr_pru_limit t"
  proof (cases "ddr_enabled t")
    case True
    then have t: "ddr_startaddr t = start" "ddr_endaddr t = endaddr" "ddr_pru_start t = start" "ddr_pru_limit t = endaddr + 2"
      "\<not> iopage \<le> endaddr" "endaddr mod 2 = 0"
      using assms(1) by (auto simp: set_range_def Let_def split: if_splits)
    have "unat endaddr < 0x400000" using t(5) assms(2,3) by (simp add: word_less_nat_alt word_le_nat_alt)
    then have u: "unat (endaddr + 2) = unat endaddr + 2" by (simp add: unat_word_ariths)
    have "even (unat endaddr)" using t(6) by (simp add: even_word_unat)
    moreover have "even (unat a)" using assms(4) by (simp add: even_word_unat)
    ultimately have "a \<le> endaddr \<longleftrightarrow> a < endaddr + 2"
      unfolding word_le_nat_alt word_less_nat_alt u by presburger
    then show ?thesis using True t by (simp add: exam_def ddr_in_range_def)
  next
    case False
    then have "ddr_pru_limit t = 0" using assms(1) by (auto simp: set_range_def Let_def split: if_splits)
    with False show ?thesis by (simp add: exam_def ddr_in_range_def)
  qed
  moreover have "ddr_in_range x (ddr_put a w t) = ddr_in_range x t" for x by (simp add: ddr_in_range_def ddr_put_def)
  ultimately show ?thesis
    using i assms(4) by (auto simp: deposit_def exam_def ddr_put_def)
qed

definition empty_memory :: ddrmem where
  "empty_memory = \<lparr>dwords = (\<lambda>_. 0), ddr_enabled = False, ddr_startaddr = 0, ddr_endaddr = 0, pmi_address_overlay = 0,
     ddr_pru_start = 0, ddr_pru_limit = 0\<rparr>"

theorem set_range_accepted_witness:
  "\<exists>t. set_range 0x3e000 0x40000 0x1000 0x1ffe empty_memory = Some (True, t) \<and> exam 0x1ffe t \<noteq> None \<and>
     ddr_pru_start t \<le> 0x1ffe \<and> 0x1ffe < ddr_pru_limit t"
proof -
  obtain t where t: "set_range 0x3e000 0x40000 0x1000 0x1ffe empty_memory = Some (True, t)"
    by (simp add: set_range_def Let_def empty_memory_def assert_that_def)
  then have "ddr_pru_start t = 0x1000" "ddr_pru_limit t = 0x2000"
    by (auto simp: set_range_def Let_def empty_memory_def assert_that_def)
  with t set_range_accepted [OF t, of "0x1ffe" 0] show ?thesis by simp
qed

text \<open>
  When \<^verbatim>\<open>set_range\<close> refuses a range (odd, or reaching into the IO page), the ARM's memory
  stays enabled with the refused range, and \<^verbatim>\<open>exam\<close> reads from it, while the PRU keeps its old one.
\<close>

theorem set_range_refused_stays_enabled:
  assumes "set_range iopage limit start endaddr m = Some (False, t)"
  shows "ddr_enabled t \<and> exam start t = Some (dwords m (word_index start)) \<and>
    ddr_pru_start t = ddr_pru_start m \<and> ddr_pru_limit t = ddr_pru_limit m"
  using assms by (auto simp: set_range_def Let_def exam_def ddr_in_range_def split: if_splits)

theorem set_range_refused_stays_enabled_witness:
  "\<exists>t. set_range 0x3e000 0x40000 0x1000 0x1fff empty_memory = Some (False, t) \<and> ddr_enabled t \<and> ddr_pru_limit t = 0"
proof -
  obtain t where t: "set_range 0x3e000 0x40000 0x1000 0x1fff empty_memory = Some (False, t)"
    by (simp add: set_range_def Let_def empty_memory_def assert_that_def)
  with set_range_refused_stays_enabled [OF t] show ?thesis by (simp add: empty_memory_def)
qed

subsection \<open>The bus functions of a core\<close>

record 'x bus_cycles =
  cycle_dati :: "u32 \<Rightarrow> 'x \<Rightarrow> u16 option \<times> 'x"
  cycle_dato :: "u32 \<Rightarrow> u16 \<Rightarrow> 'x \<Rightarrow> bool \<times> 'x"
  cycle_datob :: "u32 \<Rightarrow> u16 \<Rightarrow> 'x \<Rightarrow> bool \<times> 'x"
  qunibus_init :: "'x \<Rightarrow> 'x"
  grant_intr_requests :: "'x \<Rightarrow> 'x"
  is_rom_address :: "u32 \<Rightarrow> 'x \<Rightarrow> bool"

record 'x cpu_env =
  direct_memory :: bool
  env_iopage_start :: u32
  memory :: ddrmem
  emu_time_ns :: nat
  ifs_priority_level :: u8
  system :: 'x

definition UNIBUS_ACCESS_NS :: nat where "UNIBUS_ACCESS_NS = 1000"

definition bus_time :: "'x cpu_env \<Rightarrow> 'x cpu_env" where
  "bus_time e = e\<lparr>emu_time_ns := emu_time_ns e + UNIBUS_ACCESS_NS\<rparr>"

definition adapter_dato :: "'x bus_cycles \<Rightarrow> u32 \<Rightarrow> u16 \<Rightarrow> 'x cpu_env \<Rightarrow> bool \<times> 'x cpu_env" where
  "adapter_dato X addr data e0 =
     (let e = bus_time e0 in
      if direct_memory e \<and> addr < env_iopage_start e
      then (True, e\<lparr>memory := ddr_put addr data (memory e)\<rparr>)
      else (let (ok, x) = cycle_dato X addr data (system e) in (ok, e\<lparr>system := x\<rparr>)))"

definition merge_byte :: "u32 \<Rightarrow> u16 \<Rightarrow> u16 \<Rightarrow> u16" where
  "merge_byte addr data w =
     (if addr AND 1 \<noteq> 0 then (w AND 0xff) OR (data AND 0xff00) else (w AND 0xff00) OR (data AND 0xff))"

definition adapter_datob :: "'x bus_cycles \<Rightarrow> u32 \<Rightarrow> u16 \<Rightarrow> 'x cpu_env \<Rightarrow> bool \<times> 'x cpu_env" where
  "adapter_datob X addr data e0 =
     (let e = bus_time e0 in
      if direct_memory e \<and> addr < env_iopage_start e
      then (let a = addr AND NOT 1; w = dwords (memory e) (word_index a)
            in (True, e\<lparr>memory := ddr_put a (merge_byte addr data w) (memory e)\<rparr>))
      else (let (ok, x) = cycle_datob X addr data (system e) in (ok, e\<lparr>system := x\<rparr>)))"

definition adapter_dati :: "'x bus_cycles \<Rightarrow> u32 \<Rightarrow> 'x cpu_env \<Rightarrow> u16 option \<times> 'x cpu_env" where
  "adapter_dati X addr0 e0 =
     (let e = bus_time e0;
          addr = (if direct_memory e \<and> addr0 < env_iopage_start e
                  then addr0 OR pmi_address_overlay (memory e) else addr0)
      in if direct_memory e \<and> (addr < env_iopage_start e \<or> is_rom_address X addr (system e))
         then (Some (dwords (memory e) (word_index addr)), e)
         else (let (d, x) = cycle_dati X addr (system e) in (d, e\<lparr>system := x\<rparr>)))"

definition adapter_bus :: "'x bus_cycles \<Rightarrow> 'x cpu_env cpu_bus" where
  "adapter_bus X = \<lparr>unibone_dati = adapter_dati X, unibone_dato = adapter_dato X, unibone_datob = adapter_datob X,
     unibone_prioritylevelchange = (\<lambda>l e. e\<lparr>ifs_priority_level := l\<rparr>),
     unibone_bus_init = (\<lambda>e. e\<lparr>system := qunibus_init X (system e)\<rparr>),
     unibone_grant_interrupts = (\<lambda>e. e\<lparr>system := grant_intr_requests X (system e)\<rparr>)\<rparr>"

text \<open>The words of directly accessed memory, while no boot address is overlaid.\<close>

definition direct_words :: "'x cpu_env \<Rightarrow> u32 \<Rightarrow> u16 option" where
  "direct_words e a =
     (if direct_memory e \<and> pmi_address_overlay (memory e) = 0 \<and> a AND 1 = 0 \<and> a < env_iopage_start e
      then Some (dwords (memory e) (word_index a)) else None)"

subsection \<open>Direct memory is memory for the core\<close>

lemma even_mask: "(a :: u32) AND 1 = 0 \<Longrightarrow> word_index x = word_index a \<Longrightarrow> x AND 1 = 0 \<Longrightarrow> x = a"
  unfolding even_word_unat by (auto simp: word_index_def word_unat_eq_iff elim!: evenE)

interpretation direct: cpu_memory "adapter_bus X" direct_words for X :: "'x bus_cycles"
proof
  fix e :: "'x cpu_env" and a w
  assume "direct_words e a = Some w"
  then show "\<exists>e'. unibone_dati (adapter_bus X) a e = (Some w, e') \<and> direct_words e' = direct_words e"
    by (auto simp: direct_words_def adapter_bus_def adapter_dati_def bus_time_def Let_def fun_eq_iff split: if_splits)
next
  fix e :: "'x cpu_env" and a w
  assume "direct_words e a \<noteq> None"
  then show "\<exists>e'. unibone_dato (adapter_bus X) a w e = (True, e') \<and> direct_words e' = (direct_words e)(a \<mapsto> w)"
    by (auto simp: direct_words_def adapter_bus_def adapter_dato_def bus_time_def Let_def fun_eq_iff ddr_put_def
        dest: even_mask split: if_splits)
next
  fix l and e :: "'x cpu_env"
  show "direct_words (unibone_prioritylevelchange (adapter_bus X) l e) = direct_words e"
    by (simp add: adapter_bus_def direct_words_def fun_eq_iff)
qed


text \<open>
  Property C32. JSR through a register and the RTS at its target return behind the JSR, with every
  register, the PSW and all memory but the one stack word as before, whatever the link register
  is (the stack pointer excepted).
\<close>

theorem subroutines_return:
  assumes "undisturbed s" "call_memory direct_words (env s) (r s 6) (r s 7) w target"
    "target = (if reg_no w = 7 then r s 7 + 2 else r s (reg_no w))" "reg_no (drop_bit 6 w AND 7) \<noteq> 6"
  shows "\<exists>s1 s2. step (adapter_bus X) s = Some s1 \<and> r s1 7 = target \<and> step (adapter_bus X) s1 = Some s2 \<and>
    r s2 7 = r s 7 + 2 \<and> (\<forall>k<7. r s2 k = r s k) \<and> psw s2 = psw s \<and> undisturbed s2 \<and>
    (\<forall>a. a \<noteq> r s 6 - 2 \<longrightarrow> word_at direct_words (env s2) a = word_at direct_words (env s) a)"
  by (rule direct.call_and_return [OF assms])

subsection \<open>A concrete machine\<close>

definition no_devices :: "unit bus_cycles" where
  "no_devices = \<lparr>cycle_dati = (\<lambda>_ x. (None, x)), cycle_dato = (\<lambda>_ _ x. (False, x)), cycle_datob = (\<lambda>_ _ x. (False, x)),
     qunibus_init = id, grant_intr_requests = id, is_rom_address = (\<lambda>_ _. False)\<rparr>"

definition sample_core :: "unit cpu_env ka11" where
  "sample_core = \<lparr>r = (\<lambda>i. if i = 1 then 0xfffe else if i = 2 then 0x400 else if i = 6 then 0x1000 else if i = 7 then 0x300 else 0),
     b_reg = 0, ba = 0, bdata = 0, ir = 0, psw = 1, traps = 0, be = 0, kstate = KA11_STATE_RUNNING,
     external_intr = False, external_intrvec = 0x40, sw = 0, swab_vbit = False,
     env = \<lparr>direct_memory = True, env_iopage_start = 0x3e000,
       memory = \<lparr>dwords = (\<lambda>i. if i = 0x20 then 0x200 else if i = 0x21 then 0xe0 else if i = 0x100 then 2
           else if i = 0x180 then 0x94a else if i = 0x200 then 0x85 else if i = 0x210 then 0x2042 else if i = 0x211 then 0x502
           else 0),
         ddr_enabled = True, ddr_startaddr = 0, ddr_endaddr = 0x3dffe, pmi_address_overlay = 0,
         ddr_pru_start = 0, ddr_pru_limit = 0x3e000\<rparr>,
       emu_time_ns = 0, ifs_priority_level = 0, system = ()\<rparr>\<rparr>"

lemma sample_words:
  "word_at direct_words (env sample_core) 0x40 = Some 0x200" "word_at direct_words (env sample_core) 0x42 = Some 0xe0"
  "word_at direct_words (env sample_core) 0x200 = Some 2" "word_at direct_words (env sample_core) 0x300 = Some 0x94a"
  "word_at direct_words (env sample_core) 0x400 = Some 0x85" "word_at direct_words (env sample_core) 0x420 = Some 0x2042"
  "word_at direct_words (env sample_core) 0x422 = Some 0x502"
  "word_at direct_words (env sample_core) 0xffe = Some 0" "word_at direct_words (env sample_core) 0xffc = Some 0"
  by (simp_all add: word_at_def memory_word_def direct_words_def sample_core_def ubxt_def word_index_def)

lemma sample_regs:
  "r sample_core 1 = 0xfffe" "r sample_core 2 = 0x400" "r sample_core 6 = 0x1000" "r sample_core 7 = 0x300"
  "psw sample_core = 1" "traps sample_core = 0" "\<not> external_intr sample_core"
  by (simp_all add: sample_core_def)


theorem subroutines_return_witness:
  "\<exists>s1 s2. step (adapter_bus no_devices) sample_core = Some s1 \<and> r s1 7 = 0x400 \<and>
    step (adapter_bus no_devices) s1 = Some s2 \<and> r s2 7 = 0x302 \<and> r s2 6 = 0x1000"
proof -
  have w: "word_at direct_words (env sample_core) 0x300 = Some 0x94a" by (rule sample_words)
  have u: "undisturbed sample_core" by (simp add: undisturbed_def sample_regs PSW_T_def)
  have m: "call_memory direct_words (env sample_core) (r sample_core 6) (r sample_core 7) 0x94a 0x400"
    unfolding call_memory_def stack_cell_def by (simp add: sample_words sample_regs)
  have t: "0x400 = (if reg_no 0x94a = 7 then r sample_core 7 + 2 else r sample_core (reg_no 0x94a))"
    "reg_no (drop_bit 6 0x94a AND 7) \<noteq> 6" by (simp_all add: reg_no_def sample_regs)
  from subroutines_return [OF u m t, of no_devices] sample_regs show ?thesis by fastforce
qed

theorem compare_and_branch_witness:
  "\<exists>s1 s2. step (adapter_bus no_devices) (set_r 7 0x420 sample_core) = Some s1 \<and>
    step (adapter_bus no_devices) s1 = Some s2 \<and> r s2 7 = 0x428"
proof -
  let ?B = "adapter_bus no_devices" and ?s = "set_r 7 0x420 sample_core"
  obtain e1 where e1: "fetches ?B 0x420 0x2042 (env sample_core) e1" "word_at direct_words e1 = word_at direct_words (env sample_core)"
    by (rule direct.word_at_fetches [OF sample_words(6)])
  have "word_at direct_words e1 0x422 = Some 0x502" unfolding e1(2) by (rule sample_words)
  then obtain e2 where e2: "fetches ?B 0x422 0x502 e1 e2" by (rule direct.word_at_fetches)
  have u: "undisturbed ?s" by (simp add: undisturbed_def sample_regs PSW_T_def)
  have f: "fetches ?B (r ?s 7) 0x2042 (env ?s) e1" "fetches ?B (r ?s 7 + 2) 0x502 e1 e2" using e1 e2 by simp_all
  have "\<exists>s1 s2. step ?B ?s = Some s1 \<and> step ?B s1 = Some s2 \<and> (\<forall>k<7. r s2 k = r ?s k) \<and> env s2 = e2 \<and>
    r s2 7 = r ?s 7 + 4 +
      (if branch_relation (0x502 AND 0x8700) (sint (reg_value False (r ?s 1))) (sint (reg_value False (r ?s 2)))
            (uval False (reg_value False (r ?s 1))) (uval False (reg_value False (r ?s 2)))
       then push_bit 1 (sxt 0x502) else 0)"
    by (rule compare_and_branch [OF u f])
      (simp_all add: is_register_def reg_no_def comparing_branches_def)
  then obtain s1 s2 where s: "step ?B ?s = Some s1" "step ?B s1 = Some s2"
    and p: "r s2 7 = r ?s 7 + 4 +
      (if branch_relation (0x502 AND 0x8700) (sint (reg_value False (r ?s 1))) (sint (reg_value False (r ?s 2)))
            (uval False (reg_value False (r ?s 1))) (uval False (reg_value False (r ?s 2)))
       then push_bit 1 (sxt 0x502) else 0)" by blast
  have "r ?s 1 = 0xfffe" "r ?s 2 = 0x400" "r ?s 7 = 0x420" using sample_regs(1,2) by simp_all
  with p have "r s2 7 = 0x428" by (simp add: branch_relation_def reg_value_def sxt_def)
  with s show ?thesis by blast
qed

theorem double_word_addition_witness:
  "\<exists>lo p1 h p2 hi p3. alu_ADD False 0xffff 1 0 = (lo, p1) \<and> alu_ADC False 0 p1 = (h, p2) \<and>
     alu_ADD False 2 h p2 = (hi, p3) \<and> uint hi * 65536 + uint lo = 3 * 65536"
proof -
  obtain lo p1 where a: "alu_ADD False 0xffff 1 0 = (lo, p1)" by (cases "alu_ADD False 0xffff 1 0")
  obtain h p2 where b: "alu_ADC False 0 p1 = (h, p2)" by (cases "alu_ADC False 0 p1")
  obtain hi p3 where c: "alu_ADD False 2 h p2 = (hi, p3)" by (cases "alu_ADD False 2 h p2")
  from double_word_addition [OF a b c] a b c show ?thesis by auto
qed

end
