(* ===== verification/KT11D.thy ===== *)
theory KT11D
  imports Prelude
begin

text \<open>
  The memory management unit of the 11/34, \<^verbatim>\<open>cpu34/kt11d.h\<close> and \<^verbatim>\<open>cpu34/kt11d.c\<close>: page
  registers, the page descriptors derived from them, relocation, aborts, and the registers at
  their 18 bit addresses. An access is the word 1 for a read and 2 for a write, as in \<^verbatim>\<open>deny\<close>; array
  indexes are natural numbers. \<^verbatim>\<open>kt11d_format\<close> and tracing are left out.
\<close>

subsection \<open>Registers and state\<close>

definition KT11D_READ :: u8 where "KT11D_READ = 1"
definition KT11D_WRITE :: u8 where "KT11D_WRITE = 2"

definition KT11D_SPACE_KERNEL :: nat where "KT11D_SPACE_KERNEL = 0"
definition KT11D_SPACE_USER :: nat where "KT11D_SPACE_USER = 8"

definition KT11D_MODE_KERNEL :: u16 where "KT11D_MODE_KERNEL = 0"
definition KT11D_MODE_USER :: u16 where "KT11D_MODE_USER = 3"

definition MMR0_NONRESIDENT :: u16 where "MMR0_NONRESIDENT = 0x8000"
definition MMR0_LENGTH :: u16 where "MMR0_LENGTH = 0x4000"
definition MMR0_READONLY :: u16 where "MMR0_READONLY = 0x2000"
definition MMR0_ABORTS :: u16 where "MMR0_ABORTS = 0xe000"
definition MMR0_MAINT :: u16 where "MMR0_MAINT = 0x0100"
definition MMR0_MODE :: u16 where "MMR0_MODE = 0x0060"
definition MMR0_PAGE :: u16 where "MMR0_PAGE = 0x000e"
definition MMR0_ENABLE :: u16 where "MMR0_ENABLE = 0x0001"
definition MMR0_WRITABLE :: u16 where "MMR0_WRITABLE = 0xe101"

definition PDR_WRITABLE :: u16 where "PDR_WRITABLE = 0x7f4e"
definition PDR_W :: u16 where "PDR_W = 0x0040"
definition PDR_ED :: u16 where "PDR_ED = 0x0008"
definition PAR_WRITABLE :: u16 where "PAR_WRITABLE = 0x0fff"

definition KT11D_ABORT_VECTOR :: u16 where "KT11D_ABORT_VECTOR = 0xa8"

record kt11d_page =
  base :: u32
  blk_lo :: u8
  blk_span :: u8
  deny :: u8
  pdr_idx :: nat

record kt11d =
  mmr0 :: u16
  mmr1 :: u16
  mmr2 :: u16
  par :: "nat \<Rightarrow> u16"
  pdr :: "nat \<Rightarrow> u16"
  page :: "nat \<Rightarrow> kt11d_page"
  enabled :: bool
  space :: nat
  prev_space :: nat
  mode :: u16
  prev_mode :: u16
  access_space :: nat
  access_mode :: u16
  access_illegal :: bool
  frozen :: bool
  maint :: bool
  dest_ref :: bool
  mmr1_count :: nat

definition kt11d_is_own_register :: "u32 \<Rightarrow> bool" where
  "kt11d_is_own_register pa \<longleftrightarrow>
     \<not> pa < 0x3f4c0 \<and>
     (pa \<le> 0x3f4cf \<or> (0x3f4e0 \<le> pa \<and> pa \<le> 0x3f4ef) \<or> (0x3ff7a \<le> pa \<and> pa \<le> 0x3ff7f) \<or>
      (0x3ff80 \<le> pa \<and> pa \<le> 0x3ff8f) \<or> (0x3ffa0 \<le> pa \<and> pa \<le> 0x3ffaf))"

subsection \<open>Derived page descriptors\<close>

definition PDR_ACF :: "u16 \<Rightarrow> u16" where "PDR_ACF p = drop_bit 1 p AND 3"
definition PDR_PLF :: "u16 \<Rightarrow> u16" where "PDR_PLF p = drop_bit 8 p AND 0x7f"

definition kt11d_descriptor :: "u16 \<Rightarrow> u16 \<Rightarrow> nat \<Rightarrow> kt11d_page" where
  "kt11d_descriptor d a i =
     (let plf = PDR_PLF d; down = d AND PDR_ED \<noteq> 0 in
      \<lparr>base = push_bit 6 (ucast (a AND PAR_WRITABLE)) - push_bit 13 (of_nat (i mod 8)),
       blk_lo = (if down then ucast plf else 0),
       blk_span = (if down then ucast (0x7f - plf) else ucast plf),
       deny = (if PDR_ACF d = 3 then 0 else if PDR_ACF d = 1 then KT11D_WRITE
               else KT11D_READ OR KT11D_WRITE),
       pdr_idx = i\<rparr>)"

definition kt11d_rebuild :: "nat \<Rightarrow> kt11d \<Rightarrow> kt11d" where
  "kt11d_rebuild i m = m\<lparr>page := (page m)(i := kt11d_descriptor (pdr m i) (par m i) i)\<rparr>"

definition kt11d_rebuild_all :: "kt11d \<Rightarrow> kt11d" where
  "kt11d_rebuild_all m =
     fold kt11d_rebuild [0..<16]
       (m\<lparr>enabled := (mmr0 m AND MMR0_ENABLE \<noteq> 0), frozen := (mmr0 m AND MMR0_ABORTS \<noteq> 0),
          maint := (mmr0 m AND MMR0_MAINT \<noteq> 0)\<rparr>)"

definition kt11d_set_access :: "nat \<Rightarrow> u16 \<Rightarrow> kt11d \<Rightarrow> kt11d" where
  "kt11d_set_access sp md m =
     m\<lparr>access_space := sp, access_mode := md,
       access_illegal := (md \<noteq> KT11D_MODE_KERNEL \<and> md \<noteq> KT11D_MODE_USER)\<rparr>"

text \<open>The state \<^verbatim>\<open>memset\<close> leaves, and the power-up.\<close>

definition kt11d_zero :: kt11d where
  "kt11d_zero =
     \<lparr>mmr0 = 0, mmr1 = 0, mmr2 = 0, par = (\<lambda>_. 0), pdr = (\<lambda>_. 0),
      page = (\<lambda>_. \<lparr>base = 0, blk_lo = 0, blk_span = 0, deny = 0, pdr_idx = 0\<rparr>),
      enabled = False, space = 0, prev_space = 0, mode = 0, prev_mode = 0, access_space = 0,
      access_mode = 0, access_illegal = False, frozen = False, maint = False, dest_ref = False,
      mmr1_count = 0\<rparr>"

definition kt11d_reset :: kt11d where
  "kt11d_reset =
     kt11d_rebuild_all (kt11d_set_access KT11D_SPACE_KERNEL KT11D_MODE_KERNEL
       (kt11d_zero\<lparr>space := KT11D_SPACE_KERNEL, prev_space := KT11D_SPACE_KERNEL\<rparr>))"

definition kt11d_init :: "kt11d \<Rightarrow> kt11d" where
  "kt11d_init m = kt11d_rebuild_all (m\<lparr>mmr0 := 0, mmr1 := 0, mmr2 := 0, mmr1_count := 0\<rparr>)"

definition space_of_mode :: "u16 \<Rightarrow> nat" where
  "space_of_mode md = (if md = KT11D_MODE_KERNEL then KT11D_SPACE_KERNEL else KT11D_SPACE_USER)"

definition kt11d_set_modes :: "u16 \<Rightarrow> kt11d \<Rightarrow> kt11d" where
  "kt11d_set_modes p m =
     (let md = drop_bit 14 p AND 3; pm = drop_bit 12 p AND 3 in
      kt11d_set_access (space_of_mode md) md
        (m\<lparr>mode := md, prev_mode := pm, space := space_of_mode md, prev_space := space_of_mode pm\<rparr>))"

subsection \<open>Aborts and relocation\<close>

definition va_page :: "u16 \<Rightarrow> nat" where "va_page va = unat (drop_bit 13 va)"
definition va_block :: "u16 \<Rightarrow> u32" where "va_block va = ucast (drop_bit 6 va AND 0x7f)"

text \<open>MMR0 with mode and page of a reference in bits 6 to 1.\<close>

definition mmr0_reference :: "u16 \<Rightarrow> kt11d \<Rightarrow> u16" where
  "mmr0_reference va m =
     (mmr0 m AND NOT (MMR0_MODE OR MMR0_PAGE)) OR push_bit 5 (access_mode m) OR
     push_bit 1 (drop_bit 13 va)"

definition outside_page :: "kt11d_page \<Rightarrow> u16 \<Rightarrow> bool" where
  "outside_page p va \<longleftrightarrow> (ucast (blk_span p) :: u32) < va_block va - ucast (blk_lo p)"

definition abort_bits :: "u16 \<Rightarrow> u8 \<Rightarrow> nat \<Rightarrow> kt11d \<Rightarrow> u16" where
  "abort_bits va access i m =
     (if PDR_ACF (pdr m i) = 3 then 0
      else if PDR_ACF (pdr m i) = 1 then (if access AND KT11D_WRITE \<noteq> 0 then MMR0_READONLY else 0)
      else MMR0_NONRESIDENT) OR
     (if outside_page (page m i) va then MMR0_LENGTH else 0)"

definition kt11d_abort :: "u16 \<Rightarrow> nat \<Rightarrow> u8 \<Rightarrow> kt11d \<Rightarrow> kt11d" where
  "kt11d_abort va sp access m =
     (if \<not> frozen m
      then m\<lparr>mmr0 := mmr0_reference va m OR abort_bits va access (sp + va_page va) m, frozen := True\<rparr>
      else m)"

definition kt11d_abort_mode :: "u16 \<Rightarrow> kt11d \<Rightarrow> kt11d" where
  "kt11d_abort_mode va m =
     (if \<not> frozen m then m\<lparr>mmr0 := mmr0_reference va m OR MMR0_NONRESIDENT, frozen := True\<rparr> else m)"

definition kt11d_unrelocated :: "u16 \<Rightarrow> u32" where
  "kt11d_unrelocated va = (if va AND 0xe000 = 0xe000 then ucast va OR 0x30000 else ucast va)"

definition kt11d_relocate :: "u16 \<Rightarrow> nat \<Rightarrow> u8 \<Rightarrow> kt11d \<Rightarrow> u32 option \<times> kt11d" where
  "kt11d_relocate va sp access m =
     (if \<not> enabled m \<and> \<not> (maint m \<and> dest_ref m) then (Some (kt11d_unrelocated va), m)
      else if access_illegal m then (None, kt11d_abort_mode va m)
      else
        (let m1 = (if \<not> frozen m then m\<lparr>mmr0 := mmr0_reference va m\<rparr> else m);
             p = page m1 (sp + va_page va) in
         if deny p AND access \<noteq> 0 then (None, kt11d_abort va sp access m1)
         else if outside_page p va then (None, kt11d_abort va sp access m1)
         else
           (let pa = (base p + ucast va) AND 0x3ffff in
            (Some pa,
             if access AND KT11D_WRITE \<noteq> 0 \<and> \<not> kt11d_is_own_register pa
             then m1\<lparr>pdr := (pdr m1)(pdr_idx p := pdr m1 (pdr_idx p) OR PDR_W)\<rparr> else m1))))"

subsection \<open>Instruction bookkeeping\<close>

definition kt11d_instruction_start :: "kt11d \<Rightarrow> kt11d" where
  "kt11d_instruction_start m = (if frozen m then m else m\<lparr>mmr1 := 0, mmr1_count := 0\<rparr>)"

definition kt11d_instruction_fetched :: "u16 \<Rightarrow> kt11d \<Rightarrow> kt11d" where
  "kt11d_instruction_fetched pc m = (if frozen m then m else m\<lparr>mmr2 := pc\<rparr>)"

definition kt11d_log_register :: "nat \<Rightarrow> int \<Rightarrow> kt11d \<Rightarrow> kt11d" where
  "kt11d_log_register reg amount m =
     (if frozen m \<or> reg = 7 \<or> 2 \<le> mmr1_count m then m
      else
        (let entry = push_bit 3 (of_int amount AND 0x1f) OR (of_nat reg AND 7) :: u16 in
         m\<lparr>mmr1 := (if mmr1_count m = 0 then entry else mmr1 m OR push_bit 8 entry),
           mmr1_count := mmr1_count m + 1\<rparr>))"

definition set_dest_ref :: "bool \<Rightarrow> kt11d \<Rightarrow> kt11d" where
  "set_dest_ref b m = m\<lparr>dest_ref := b\<rparr>"

subsection \<open>The registers at their addresses\<close>

datatype mmu_register = MMR0 | MMR1 | MMR2 | PDR nat | PAR nat

definition lookup :: "u32 \<Rightarrow> mmu_register option" where
  "lookup pa =
     (if \<not> kt11d_is_own_register pa then None
      else if pa = 0x3ff7a then Some MMR0
      else if pa = 0x3ff7c then Some MMR1
      else if pa = 0x3ff7e then Some MMR2
      else if 0x3f4c0 \<le> pa \<and> pa \<le> 0x3f4ce then Some (PDR (KT11D_SPACE_KERNEL + unat (drop_bit 1 (pa - 0x3f4c0))))
      else if 0x3f4e0 \<le> pa \<and> pa \<le> 0x3f4ee then Some (PAR (KT11D_SPACE_KERNEL + unat (drop_bit 1 (pa - 0x3f4e0))))
      else if 0x3ff80 \<le> pa \<and> pa \<le> 0x3ff8e then Some (PDR (KT11D_SPACE_USER + unat (drop_bit 1 (pa - 0x3ff80))))
      else if 0x3ffa0 \<le> pa \<and> pa \<le> 0x3ffae then Some (PAR (KT11D_SPACE_USER + unat (drop_bit 1 (pa - 0x3ffa0))))
      else None)"

fun writable_mask :: "mmu_register \<Rightarrow> u16" where
  "writable_mask MMR0 = MMR0_WRITABLE"
| "writable_mask MMR1 = 0"
| "writable_mask MMR2 = 0"
| "writable_mask (PDR i) = PDR_WRITABLE"
| "writable_mask (PAR i) = PAR_WRITABLE"

fun register_image :: "mmu_register \<Rightarrow> kt11d \<Rightarrow> u16" where
  "register_image MMR0 m = mmr0 m"
| "register_image MMR1 m = mmr1 m"
| "register_image MMR2 m = mmr2 m"
| "register_image (PDR i) m = pdr m i"
| "register_image (PAR i) m = par m i"

fun set_register_image :: "mmu_register \<Rightarrow> u16 \<Rightarrow> kt11d \<Rightarrow> kt11d" where
  "set_register_image MMR0 w m = m\<lparr>mmr0 := w\<rparr>"
| "set_register_image MMR1 w m = m\<lparr>mmr1 := w\<rparr>"
| "set_register_image MMR2 w m = m\<lparr>mmr2 := w\<rparr>"
| "set_register_image (PDR i) w m = m\<lparr>pdr := (pdr m)(i := w)\<rparr>"
| "set_register_image (PAR i) w m = m\<lparr>par := (par m)(i := w)\<rparr>"

definition kt11d_read_reg :: "u32 \<Rightarrow> kt11d \<Rightarrow> u16 option" where
  "kt11d_read_reg pa m = map_option (\<lambda>g. register_image g m) (lookup pa)"

text \<open>What follows the change of a register: everything is derived anew, or one page.\<close>

definition page_written :: "nat \<Rightarrow> kt11d \<Rightarrow> kt11d" where
  "page_written i m = kt11d_rebuild i (m\<lparr>pdr := (pdr m)(i := pdr m i AND NOT PDR_W)\<rparr>)"

fun after_write :: "mmu_register \<Rightarrow> kt11d \<Rightarrow> kt11d" where
  "after_write (PDR i) m = page_written i m"
| "after_write (PAR i) m = page_written i m"
| "after_write g m = kt11d_rebuild_all m"

definition kt11d_write_reg :: "u32 \<Rightarrow> u16 \<Rightarrow> u16 \<Rightarrow> kt11d \<Rightarrow> kt11d option" where
  "kt11d_write_reg pa w msk m =
     (case lookup pa of
        None \<Rightarrow> None
      | Some g \<Rightarrow>
          (let mk = msk AND writable_mask g in
           Some (after_write g
             (set_register_image g ((register_image g m AND NOT mk) OR (w AND mk)) m))))"

end
