(* ===== verification/KT11D_Correct.thy ===== *)
theory KT11D_Correct
  imports KT11D
begin

text \<open>
  What the memory management unit keeps and what it computes: the state derived from the page
  registers is never stale, relocation is the translation the page registers describe,
  an abort freezes the status registers with its cause, and register writes read back.
\<close>

subsection \<open>Fields of words\<close>

definition within :: "'a::len word \<Rightarrow> 'a word \<Rightarrow> bool" where
  "within w x \<longleftrightarrow> x AND NOT w = 0"

lemma within_bit: "within w x \<longleftrightarrow> (\<forall>n. bit x n \<longrightarrow> bit w n)"
proof
  assume *: "within w x"
  show "\<forall>n. bit x n \<longrightarrow> bit w n"
  proof (intro allI impI)
    fix n assume "bit x n"
    moreover have "\<not> bit (x AND NOT w) n" using * by (simp add: within_def)
    ultimately show "bit w n" by (auto simp: bit_simps dest: bit_imp_le_length)
  qed
next
  assume "\<forall>n. bit x n \<longrightarrow> bit w n"
  then show "within w x" unfolding within_def by (intro bit_word_eqI) (auto simp: bit_simps)
qed

lemma within_zero [simp]: "within w 0"
  by (simp add: within_bit)

lemma within_or [simp]: "within w (x OR y) \<longleftrightarrow> within w x \<and> within w y"
  unfolding within_bit by (auto simp: bit_or_iff)

lemma within_and_left: "within w x \<Longrightarrow> within w (x AND y)"
  unfolding within_bit by (auto simp: bit_and_iff)

lemma within_and_right: "within w (y AND w)"
  unfolding within_bit by (auto simp: bit_and_iff)

lemma within_trans: "within v x \<Longrightarrow> within w v \<Longrightarrow> within w x"
  unfolding within_bit by auto

lemma and_within: "within w x \<Longrightarrow> x AND w = x"
  unfolding within_bit by (rule bit_word_eqI) (auto simp: bit_and_iff)

lemma within_push: "within w x \<Longrightarrow> within (push_bit n w) (push_bit n x)"
  unfolding within_bit by (auto simp: bit_push_bit_iff)

subsection \<open>What the state keeps\<close>

text \<open>
  Pages, flags and the selected spaces agree with the registers and modes they are derived from;
  no register has a bit the hardware does not have.
\<close>

definition pages_ok :: "kt11d \<Rightarrow> bool" where
  "pages_ok m \<longleftrightarrow> (\<forall>i<16. page m i = kt11d_descriptor (pdr m i) (par m i) i)"

definition flags_ok :: "kt11d \<Rightarrow> bool" where
  "flags_ok m \<longleftrightarrow>
     enabled m = (mmr0 m AND MMR0_ENABLE \<noteq> 0) \<and> frozen m = (mmr0 m AND MMR0_ABORTS \<noteq> 0) \<and>
     maint m = (mmr0 m AND MMR0_MAINT \<noteq> 0)"

definition modes_ok :: "kt11d \<Rightarrow> bool" where
  "modes_ok m \<longleftrightarrow>
     within 3 (mode m) \<and> within 3 (prev_mode m) \<and> within 3 (access_mode m) \<and>
     space m = space_of_mode (mode m) \<and> prev_space m = space_of_mode (prev_mode m) \<and>
     access_space m = space_of_mode (access_mode m) \<and>
     access_illegal m = (access_mode m \<noteq> KT11D_MODE_KERNEL \<and> access_mode m \<noteq> KT11D_MODE_USER)"

definition registers_ok :: "kt11d \<Rightarrow> bool" where
  "registers_ok m \<longleftrightarrow>
     within (MMR0_WRITABLE OR MMR0_MODE OR MMR0_PAGE) (mmr0 m) \<and>
     (\<forall>i<16. within PDR_WRITABLE (pdr m i) \<and> within PAR_WRITABLE (par m i)) \<and> mmr1_count m \<le> 2"

definition mmu_ok :: "kt11d \<Rightarrow> bool" where
  "mmu_ok m \<longleftrightarrow> pages_ok m \<and> flags_ok m \<and> modes_ok m \<and> registers_ok m"

text \<open>Rebuilding every page.\<close>

lemma rebuild_fold:
  "fold kt11d_rebuild xs m =
     m\<lparr>page := (\<lambda>i. if i \<in> set xs then kt11d_descriptor (pdr m i) (par m i) i else page m i)\<rparr>"
  by (induction xs arbitrary: m) (auto simp: kt11d_rebuild_def fun_eq_iff)

lemma rebuild_all:
  "kt11d_rebuild_all m =
     m\<lparr>enabled := (mmr0 m AND MMR0_ENABLE \<noteq> 0), frozen := (mmr0 m AND MMR0_ABORTS \<noteq> 0),
       maint := (mmr0 m AND MMR0_MAINT \<noteq> 0),
       page := (\<lambda>i. if i < 16 then kt11d_descriptor (pdr m i) (par m i) i else page m i)\<rparr>"
  by (simp add: kt11d_rebuild_all_def rebuild_fold fun_eq_iff)

lemma rebuild_all_ok: "modes_ok m \<Longrightarrow> registers_ok m \<Longrightarrow> mmu_ok (kt11d_rebuild_all m)"
  by (simp add: rebuild_all mmu_ok_def pages_ok_def flags_ok_def modes_ok_def registers_ok_def)

lemma reset_ok: "mmu_ok kt11d_reset"
  unfolding kt11d_reset_def
  by (rule rebuild_all_ok)
     (simp_all add: modes_ok_def registers_ok_def kt11d_zero_def kt11d_set_access_def space_of_mode_def
        KT11D_MODE_KERNEL_def)

lemma init_ok: "mmu_ok m \<Longrightarrow> mmu_ok (kt11d_init m)"
  unfolding kt11d_init_def
  by (rule rebuild_all_ok) (simp_all add: mmu_ok_def modes_ok_def registers_ok_def)

lemma set_access_ok: "mmu_ok m \<Longrightarrow> within 3 md \<Longrightarrow> mmu_ok (kt11d_set_access (space_of_mode md) md m)"
  by (simp add: kt11d_set_access_def mmu_ok_def pages_ok_def flags_ok_def modes_ok_def registers_ok_def)

lemma set_modes_ok: "mmu_ok m \<Longrightarrow> mmu_ok (kt11d_set_modes p m)"
  by (simp add: kt11d_set_modes_def Let_def kt11d_set_access_def mmu_ok_def pages_ok_def flags_ok_def
      modes_ok_def registers_ok_def within_and_right)

lemma instruction_start_ok: "mmu_ok m \<Longrightarrow> mmu_ok (kt11d_instruction_start m)"
  by (simp add: kt11d_instruction_start_def mmu_ok_def pages_ok_def flags_ok_def modes_ok_def registers_ok_def)

lemma instruction_fetched_ok: "mmu_ok m \<Longrightarrow> mmu_ok (kt11d_instruction_fetched pc m)"
  by (simp add: kt11d_instruction_fetched_def mmu_ok_def pages_ok_def flags_ok_def modes_ok_def registers_ok_def)

lemma log_register_ok: "mmu_ok m \<Longrightarrow> mmu_ok (kt11d_log_register g amount m)"
  by (simp add: kt11d_log_register_def Let_def mmu_ok_def pages_ok_def flags_ok_def modes_ok_def registers_ok_def)

lemma dest_ref_ok: "mmu_ok m \<Longrightarrow> mmu_ok (set_dest_ref b m)"
  by (simp add: set_dest_ref_def mmu_ok_def pages_ok_def flags_ok_def modes_ok_def registers_ok_def)

subsection \<open>Relocation\<close>

text \<open>
  The translation as the page registers describe it, on natural numbers: the access control
  field allows the access, the block of the address lies on the legal side of the page length,
  and the physical address is the page address plus the displacement.
\<close>

definition block_legal :: "u16 \<Rightarrow> u16 \<Rightarrow> bool" where
  "block_legal d va \<longleftrightarrow>
     (let block = unat va div 64 mod 128; plf = unat d div 256 mod 128 in
      if bit d 3 then plf \<le> block else block \<le> plf)"

definition access_legal :: "u16 \<Rightarrow> u8 \<Rightarrow> bool" where
  "access_legal d access \<longleftrightarrow>
     PDR_ACF d = 3 \<or> (PDR_ACF d = 1 \<and> access = KT11D_READ)"

definition physical_address :: "u16 \<Rightarrow> u16 \<Rightarrow> nat" where
  "physical_address a va = (unat a mod 4096 * 64 + unat va mod 8192) mod 262144"

lemma and_mask_unat: "unat ((x :: 'a::len word) AND 0x7f) = unat x mod 128"
proof -
  have "(0x7f :: 'a word) = mask 7" by (simp add: mask_eq_exp_minus_1)
  then have "x AND 0x7f = take_bit 7 x" by (simp add: take_bit_eq_mask)
  then show ?thesis by (simp only: unsigned_take_bit_eq) (simp add: take_bit_eq_mod)
qed

lemma unat_drop_bit: "unat (drop_bit n (x :: 'a::len word)) = unat x div 2 ^ n"
  by (rule trans [OF unat_drop_bit_eq drop_bit_eq_div])

lemma unat_ucast: "unat (ucast (x :: 'b::len word) :: 'a::len word) = take_bit LENGTH('a) (unat x)"
  by (rule unsigned_ucast_eq)

lemma unat_PLF: "unat (PDR_PLF d) = unat d div 256 mod 128"
  by (simp add: PDR_PLF_def and_mask_unat unat_drop_bit)

lemma unat_va_block: "unat (va_block va) = unat va div 64 mod 128"
proof -
  have "unat (drop_bit 6 va AND 0x7f) = unat va div 64 mod 128"
    by (simp add: and_mask_unat unat_drop_bit)
  then show ?thesis by (simp add: va_block_def unsigned_ucast_eq take_bit_nat_eq_self)
qed

lemma va_page_lt: "va_page va < 8"
proof -
  have "unat va < 2 ^ 16" using unsigned_less [of va] by simp
  then show ?thesis by (simp add: va_page_def unat_drop_bit)
qed

lemma page_index: "space_of_mode md + va_page va < 16"
  using va_page_lt [of va] by (auto simp: space_of_mode_def KT11D_SPACE_KERNEL_def KT11D_SPACE_USER_def)

lemma page_index_mod: "(space_of_mode md + va_page va) mod 8 = va_page va"
  using va_page_lt [of va] by (auto simp: space_of_mode_def KT11D_SPACE_KERNEL_def KT11D_SPACE_USER_def)

lemma and_nonzero_bit3: "(d :: u16) AND 8 \<noteq> 0 \<longleftrightarrow> bit d 3"
  using and_exp_eq_0_iff_not_bit [of d 3] by simp

lemma outside_descriptor: "outside_page (kt11d_descriptor d a i) va \<longleftrightarrow> \<not> block_legal d va"
proof -
  let ?B = "unat va div 64 mod 128" and ?P = "unat d div 256 mod 128"
  have ED: "d AND PDR_ED \<noteq> 0 \<longleftrightarrow> bit d 3"
    by (simp add: PDR_ED_def and_nonzero_bit3)
  have P8: "unat (ucast (PDR_PLF d) :: u8) = ?P"
    by (simp only: unat_ucast unat_PLF) (simp add: take_bit_nat_eq_self)
  have lo: "unat (ucast (ucast (PDR_PLF d) :: u8) :: u32) = ?P"
    by (simp only: unat_ucast unat_PLF) (simp add: take_bit_nat_eq_self)
  have s: "unat (0x7f - PDR_PLF d) = 127 - ?P"
    by (simp add: unat_sub_if' unat_PLF)
  have span: "unat (ucast (ucast (0x7f - PDR_PLF d) :: u8) :: u32) = 127 - ?P"
    by (simp only: unat_ucast s) (simp add: take_bit_nat_eq_self)
  show ?thesis
  proof (cases "bit d 3")
    case True
    then have "outside_page (kt11d_descriptor d a i) va \<longleftrightarrow>
        (ucast (ucast (0x7f - PDR_PLF d) :: u8) :: u32) < va_block va - ucast (ucast (PDR_PLF d) :: u8)"
      by (simp add: outside_page_def kt11d_descriptor_def Let_def ED)
    also have "\<dots> \<longleftrightarrow> ?B < ?P"
    proof -
      have arith: "127 - q < (if q \<le> b then b - q else b + 2 ^ LENGTH(32) - q) \<longleftrightarrow> b < q"
        if "q < 128" "b < 128" for q b :: nat using that by auto
      show ?thesis
        unfolding word_less_nat_alt unat_sub_if' span lo unat_va_block
        by (rule arith) simp_all
    qed
    finally show ?thesis using True by (auto simp: block_legal_def Let_def)
  next
    case False
    then have "outside_page (kt11d_descriptor d a i) va \<longleftrightarrow>
        (ucast (ucast (PDR_PLF d) :: u8) :: u32) < va_block va"
      by (simp add: outside_page_def kt11d_descriptor_def Let_def ED)
    also have "\<dots> \<longleftrightarrow> ?P < ?B"
      unfolding word_less_nat_alt lo unat_va_block by simp
    finally show ?thesis using False by (auto simp: block_legal_def Let_def)
  qed
qed

lemma deny_descriptor:
  assumes "access = KT11D_READ \<or> access = KT11D_WRITE"
  shows "deny (kt11d_descriptor d a i) AND access \<noteq> 0 \<longleftrightarrow> \<not> access_legal d access"
  using assms
  by (auto simp: kt11d_descriptor_def Let_def access_legal_def KT11D_READ_def KT11D_WRITE_def)

lemma unat_push_u32:
  assumes "unat (x :: u32) * 2 ^ n < 2 ^ 32"
  shows "unat (push_bit n x) = unat x * 2 ^ n"
  using assms by (simp only: unsigned_push_bit_eq) (simp add: push_bit_eq_mult take_bit_nat_eq_self)

lemma base_address:
  assumes "i mod 8 = va_page va"
  shows "(base (kt11d_descriptor d a i) + ucast va) AND 0x3ffff = of_nat (physical_address a va)"
proof -
  let ?A = "unat a mod 4096"
  have "(0xfff :: u16) = mask 12" by (simp add: mask_eq_exp_minus_1)
  then have A: "unat (a AND PAR_WRITABLE) = ?A"
    unfolding PAR_WRITABLE_def by (simp only: take_bit_eq_mask [symmetric] unsigned_take_bit_eq) (simp add: take_bit_eq_mod)
  have A32: "unat (ucast (a AND PAR_WRITABLE) :: u32) = ?A"
    by (simp only: unat_ucast A) (simp add: take_bit_nat_eq_self)
  have b6: "push_bit 6 (ucast (a AND PAR_WRITABLE) :: u32) = word_of_int (int (?A * 64))"
  proof -
    have "unat (push_bit 6 (ucast (a AND PAR_WRITABLE) :: u32)) = ?A * 64"
      using unat_push_u32 [of "ucast (a AND PAR_WRITABLE)" 6] A32 by simp
    then show ?thesis by (metis of_int_of_nat_eq of_nat_unat ucast_id)
  qed
  have b13: "push_bit 13 (of_nat (i mod 8) :: u32) = word_of_int (int (va_page va * 8192))"
    by (simp add: assms push_bit_eq_mult)
  have v: "(ucast va :: u32) = word_of_int (int (unat va))"
    by simp
  have div: "unat va div 8192 = va_page va" by (simp add: va_page_def unat_drop_bit)
  have m18: "(0x3ffff :: u32) = mask 18" by (simp add: mask_eq_exp_minus_1)
  have "base (kt11d_descriptor d a i) + ucast va =
      word_of_int (int (?A * 64) - int (va_page va * 8192) + int (unat va))"
    unfolding kt11d_descriptor_def Let_def kt11d_page.simps b6 b13 v by simp
  also have "int (?A * 64) - int (va_page va * 8192) + int (unat va) = int (?A * 64 + unat va mod 8192)"
    unfolding div [symmetric] minus_mod_eq_div_mult [symmetric] by simp
  finally have sum: "base (kt11d_descriptor d a i) + ucast va = of_nat (?A * 64 + unat va mod 8192)"
    by simp
  show ?thesis
    unfolding sum m18 take_bit_eq_mask [symmetric] physical_address_def
    by (rule word_unat_eq_iff [THEN iffD2])
       (simp only: unsigned_take_bit_eq unsigned_of_nat, simp add: take_bit_eq_mod mod_mod_cancel)
qed

text \<open>The legal translation, and what a reference that is refused leaves in MMR0.\<close>

definition reference_translation :: "u16 \<Rightarrow> u8 \<Rightarrow> kt11d \<Rightarrow> u32 option" where
  "reference_translation va access m =
     (let i = access_space m + va_page va in
      if access_legal (pdr m i) access \<and> block_legal (pdr m i) va
      then Some (of_nat (physical_address (par m i) va)) else None)"

text \<open>The effect of a reference on MMR0: the page and mode of the reference, until it is frozen.\<close>

definition mmr0_noted :: "u16 \<Rightarrow> kt11d \<Rightarrow> kt11d" where
  "mmr0_noted va m = (if \<not> frozen m then m\<lparr>mmr0 := mmr0_reference va m\<rparr> else m)"

lemma relocate_unfold:
  assumes ok: "mmu_ok m" and on: "enabled m \<or> maint m \<and> dest_ref m" and legal: "\<not> access_illegal m"
    and acc: "access = KT11D_READ \<or> access = KT11D_WRITE"
  shows "kt11d_relocate va (access_space m) access m =
     (case reference_translation va access m of
        None \<Rightarrow> (None, kt11d_abort va (access_space m) access (mmr0_noted va m))
      | Some pa \<Rightarrow>
         (Some pa,
          if access = KT11D_WRITE \<and> \<not> kt11d_is_own_register pa
          then (mmr0_noted va m)\<lparr>pdr := (pdr m)(access_space m + va_page va :=
                  pdr m (access_space m + va_page va) OR PDR_W)\<rparr>
          else mmr0_noted va m))"
proof -
  define i where "i = access_space m + va_page va"
  have lt: "i < 16" and md: "i mod 8 = va_page va"
    using ok page_index page_index_mod unfolding i_def by (auto simp: mmu_ok_def modes_ok_def)
  have p: "page (mmr0_noted va m) i = kt11d_descriptor (pdr m i) (par m i) i"
    using ok lt by (simp add: mmr0_noted_def mmu_ok_def pages_ok_def)
  have d: "pdr (mmr0_noted va m) = pdr m" by (simp add: mmr0_noted_def)
  have idx: "pdr_idx (kt11d_descriptor (pdr m i) (par m i) i) = i"
    by (simp add: kt11d_descriptor_def Let_def)
  have w: "access AND KT11D_WRITE \<noteq> 0 \<longleftrightarrow> access = KT11D_WRITE"
    using acc by (auto simp: KT11D_READ_def KT11D_WRITE_def)
  have on': "(\<not> enabled m \<and> \<not> (maint m \<and> dest_ref m)) = False" using on by auto
  show ?thesis
    unfolding kt11d_relocate_def on' if_False
    by (simp add: legal Let_def mmr0_noted_def [symmetric] i_def [symmetric] p d idx w
        deny_descriptor [OF acc] outside_descriptor base_address [OF md] reference_translation_def)
qed

subsection \<open>Aborts\<close>

lemma replace_field:
  fixes x k v f :: "'a::len word"
  assumes "within k v" "k AND f = 0"
  shows "((x AND NOT k) OR v) AND f = x AND f"
proof (rule bit_word_eqI)
  fix n assume n: "n < LENGTH('a)"
  have "\<not> bit (k AND f) n" using assms(2) by simp
  then have "\<not> (bit k n \<and> bit f n)" by (simp add: bit_and_iff)
  then show "bit (((x AND NOT k) OR v) AND f) n = bit (x AND f) n"
    using assms(1) n unfolding within_bit by (auto simp: bit_simps)
qed

lemma replace_field_idem:
  fixes x k v :: "'a::len word"
  assumes "within k v"
  shows "(((x AND NOT k) OR v) AND NOT k) OR v = (x AND NOT k) OR v"
  by (rule bit_word_eqI) (auto simp: bit_simps)

lemma within_3bits: "within 7 (drop_bit 13 (va :: u16))"
proof -
  have "within (mask 3) (drop_bit 13 va)"
    unfolding within_bit by (auto simp: bit_drop_bit_eq bit_mask_iff dest: bit_imp_le_length)
  then show ?thesis by (simp add: mask_eq_exp_minus_1)
qed

definition reference_field :: "u16 \<Rightarrow> kt11d \<Rightarrow> u16" where
  "reference_field va m = push_bit 5 (access_mode m) OR push_bit 1 (drop_bit 13 va)"

lemma mmr0_reference_field:
  "mmr0_reference va m = (mmr0 m AND NOT (MMR0_MODE OR MMR0_PAGE)) OR reference_field va m"
  by (simp add: mmr0_reference_def reference_field_def or.assoc)

lemma reference_field_within:
  assumes "within 3 (access_mode m)"
  shows "within (MMR0_MODE OR MMR0_PAGE) (reference_field va m)"
proof -
  have "within (push_bit 5 3) (push_bit 5 (access_mode m))" by (rule within_push [OF assms])
  moreover have "within (push_bit 1 7) (push_bit 1 (drop_bit 13 va))" by (rule within_push [OF within_3bits])
  ultimately have "within MMR0_MODE (push_bit 5 (access_mode m))" "within MMR0_PAGE (push_bit 1 (drop_bit 13 va))"
    by (simp_all add: MMR0_MODE_def MMR0_PAGE_def)
  then show ?thesis unfolding reference_field_def within_bit by (auto simp: bit_or_iff)
qed

lemma reference_keeps_flags:
  assumes "within 3 (access_mode m)"
  shows "mmr0_reference va m AND MMR0_ENABLE = mmr0 m AND MMR0_ENABLE"
    "mmr0_reference va m AND MMR0_ABORTS = mmr0 m AND MMR0_ABORTS"
    "mmr0_reference va m AND MMR0_MAINT = mmr0 m AND MMR0_MAINT"
  unfolding mmr0_reference_field
  by (rule replace_field [OF reference_field_within [OF assms]],
      simp add: MMR0_MODE_def MMR0_PAGE_def MMR0_ENABLE_def MMR0_ABORTS_def MMR0_MAINT_def)+

lemma reference_idem:
  assumes "within 3 (access_mode m)"
  shows "mmr0_reference va (m\<lparr>mmr0 := mmr0_reference va m\<rparr>) = mmr0_reference va m"
  using replace_field_idem [OF reference_field_within [OF assms], of "mmr0 m" va]
  by (simp add: mmr0_reference_def reference_field_def or.assoc)

lemma reference_within:
  assumes "within 3 (access_mode m)" "within (MMR0_WRITABLE OR MMR0_MODE OR MMR0_PAGE) (mmr0 m)"
  shows "within (MMR0_WRITABLE OR MMR0_MODE OR MMR0_PAGE) (mmr0_reference va m)"
  unfolding mmr0_reference_field within_or
  using within_and_left [OF assms(2)] reference_field_within [OF assms(1), of va]
  unfolding within_bit by (auto simp: bit_or_iff)

text \<open>The cause of an abort, from the page descriptor register.\<close>

definition abort_cause :: "u16 \<Rightarrow> u8 \<Rightarrow> u16 \<Rightarrow> u16" where
  "abort_cause d access va =
     (if PDR_ACF d = 3 then 0
      else if PDR_ACF d = 1 then (if access = KT11D_WRITE then MMR0_READONLY else 0)
      else MMR0_NONRESIDENT) OR
     (if block_legal d va then 0 else MMR0_LENGTH)"

lemma abort_cause_nonzero:
  assumes "\<not> (access_legal d access \<and> block_legal d va)" "access = KT11D_READ \<or> access = KT11D_WRITE"
  shows "abort_cause d access va AND MMR0_ABORTS \<noteq> 0"
  using assms
  by (auto simp: abort_cause_def access_legal_def MMR0_READONLY_def MMR0_NONRESIDENT_def MMR0_LENGTH_def
      MMR0_ABORTS_def KT11D_READ_def KT11D_WRITE_def)

lemma abort_cause_within: "within MMR0_WRITABLE (abort_cause d access va)"
  by (simp add: abort_cause_def within_def MMR0_READONLY_def MMR0_NONRESIDENT_def MMR0_LENGTH_def MMR0_WRITABLE_def)

lemma abort_cause_flags:
  "abort_cause d access va AND MMR0_ENABLE = 0" "abort_cause d access va AND MMR0_MAINT = 0"
  by (simp_all add: abort_cause_def MMR0_READONLY_def MMR0_NONRESIDENT_def MMR0_LENGTH_def
      MMR0_ENABLE_def MMR0_MAINT_def)

lemma abort_effect:
  assumes ok: "mmu_ok m" and acc: "access = KT11D_READ \<or> access = KT11D_WRITE"
  shows "kt11d_abort va (access_space m) access (mmr0_noted va m) =
     (if frozen m then m
      else m\<lparr>mmr0 := mmr0_reference va m OR abort_cause (pdr m (access_space m + va_page va)) access va,
             frozen := True\<rparr>)"
proof (cases "frozen m")
  case True
  then show ?thesis by (simp add: kt11d_abort_def mmr0_noted_def)
next
  case False
  define i where "i = access_space m + va_page va"
  have lt: "i < 16" and am: "within 3 (access_mode m)"
    using ok page_index unfolding i_def by (auto simp: mmu_ok_def modes_ok_def)
  have p: "page m i = kt11d_descriptor (pdr m i) (par m i) i"
    using ok lt by (simp add: mmu_ok_def pages_ok_def)
  have w: "access AND KT11D_WRITE \<noteq> 0 \<longleftrightarrow> access = KT11D_WRITE"
    using acc by (auto simp: KT11D_READ_def KT11D_WRITE_def)
  show ?thesis
    using False
    by (simp add: kt11d_abort_def mmr0_noted_def reference_idem [OF am] abort_bits_def abort_cause_def
        i_def [symmetric] p outside_descriptor w)
qed

subsection \<open>The state is kept\<close>

lemma descriptor_ignores_W: "kt11d_descriptor (d OR PDR_W) a i = kt11d_descriptor d a i"
proof -
  have "PDR_PLF (d OR PDR_W) = PDR_PLF d" "PDR_ACF (d OR PDR_W) = PDR_ACF d"
    by (simp_all add: PDR_PLF_def PDR_ACF_def PDR_W_def bit.conj_disj_distrib2 drop_bit_or)
  moreover have "(d OR PDR_W) AND PDR_ED = d AND PDR_ED"
    by (simp add: PDR_W_def PDR_ED_def bit.conj_disj_distrib2)
  ultimately show ?thesis by (simp add: kt11d_descriptor_def)
qed

lemma descriptor_clears_W: "kt11d_descriptor (d AND NOT PDR_W) a i = kt11d_descriptor d a i"
proof -
  have "kt11d_descriptor (d AND NOT PDR_W) a i = kt11d_descriptor ((d AND NOT PDR_W) OR PDR_W) a i"
    by (rule descriptor_ignores_W [symmetric])
  also have "(d AND NOT PDR_W) OR PDR_W = d OR PDR_W" by (rule bit_word_eqI) (auto simp: bit_simps)
  finally show ?thesis by (simp add: descriptor_ignores_W)
qed

lemma noted_ok: "mmu_ok m \<Longrightarrow> mmu_ok (mmr0_noted va m)"
  using reference_keeps_flags [of m va] reference_within [of m va]
  by (simp add: mmr0_noted_def mmu_ok_def pages_ok_def flags_ok_def modes_ok_def registers_ok_def)

lemma set_W_ok:
  assumes "mmu_ok m"
  shows "mmu_ok (m\<lparr>pdr := (pdr m)(i := pdr m i OR PDR_W)\<rparr>)"
proof -
  have "within PDR_WRITABLE PDR_W" by (simp add: within_def PDR_W_def PDR_WRITABLE_def)
  then show ?thesis
    using assms by (simp add: mmu_ok_def pages_ok_def flags_ok_def modes_ok_def registers_ok_def
        descriptor_ignores_W)
qed

lemma abort_with_ok:
  assumes ok: "mmu_ok m" and c: "within MMR0_WRITABLE c" "c AND MMR0_ENABLE = 0" "c AND MMR0_MAINT = 0"
    "c AND MMR0_ABORTS \<noteq> 0"
  shows "mmu_ok (m\<lparr>mmr0 := mmr0_reference va m OR c, frozen := True\<rparr>)"
proof -
  have am: "within 3 (access_mode m)" and wi: "within (MMR0_WRITABLE OR MMR0_MODE OR MMR0_PAGE) (mmr0 m)"
    using ok by (simp_all add: mmu_ok_def modes_ok_def registers_ok_def)
  have "within (MMR0_WRITABLE OR MMR0_MODE OR MMR0_PAGE) c"
    using c(1) unfolding within_bit by (auto simp: bit_or_iff)
  moreover have "(mmr0_reference va m OR c) AND MMR0_ABORTS \<noteq> 0"
    using c(4) by (metis bit.conj_disj_distrib2 or_eq_0_iff)
  ultimately show ?thesis
    using ok reference_within [OF am wi, of va]
    by (simp add: mmu_ok_def pages_ok_def flags_ok_def modes_ok_def registers_ok_def
        bit.conj_disj_distrib2 reference_keeps_flags [OF am] c)
qed

lemma abort_ok:
  assumes "mmu_ok m" "access = KT11D_READ \<or> access = KT11D_WRITE" "reference_translation va access m = None"
  shows "mmu_ok (kt11d_abort va (access_space m) access (mmr0_noted va m))"
proof -
  have "\<not> (access_legal (pdr m (access_space m + va_page va)) access \<and>
           block_legal (pdr m (access_space m + va_page va)) va)"
    using assms(3) by (auto simp: reference_translation_def Let_def split: if_splits)
  from abort_cause_nonzero [OF this assms(2)] show ?thesis
    using assms(1) abort_with_ok [OF assms(1) abort_cause_within abort_cause_flags]
    by (simp add: abort_effect [OF assms(1,2)])
qed

lemma abort_mode_ok: "mmu_ok m \<Longrightarrow> mmu_ok (kt11d_abort_mode va m)"
  unfolding kt11d_abort_mode_def
  by (auto intro!: abort_with_ok simp: within_def MMR0_NONRESIDENT_def MMR0_WRITABLE_def MMR0_ENABLE_def
      MMR0_MAINT_def MMR0_ABORTS_def)

lemma relocate_ok:
  assumes ok: "mmu_ok m" and acc: "access = KT11D_READ \<or> access = KT11D_WRITE"
  shows "mmu_ok (snd (kt11d_relocate va (access_space m) access m))"
proof (cases "enabled m \<or> maint m \<and> dest_ref m")
  case off: False
  then show ?thesis using ok by (simp add: kt11d_relocate_def)
next
  case on: True
  show ?thesis
  proof (cases "access_illegal m")
    case True
    then show ?thesis using ok on by (auto simp: kt11d_relocate_def abort_mode_ok)
  next
    case False
    note r = relocate_unfold [OF ok on False acc, of va]
    have d: "pdr (mmr0_noted va m) = pdr m" by (simp add: mmr0_noted_def)
    show ?thesis
      using abort_ok [OF ok acc, of va] noted_ok [OF ok, of va]
        set_W_ok [OF noted_ok [OF ok], of va "access_space m + va_page va"]
      by (auto simp: r d split: option.split)
  qed
qed

lemma field_within:
  "within v x \<Longrightarrow> within v k \<Longrightarrow> within v ((x AND NOT (msk AND k)) OR (w AND (msk AND k)))"
  unfolding within_bit by (auto simp: bit_or_iff bit_and_iff)

lemma after_write_ok:
  assumes ok: "mmu_ok m"
  shows "mmu_ok (after_write g (set_register_image g
           ((register_image g m AND NOT (msk AND writable_mask g)) OR (w AND (msk AND writable_mask g))) m))"
proof -
  have fits: "i < 16 \<Longrightarrow> within PDR_WRITABLE (pdr m i)" "i < 16 \<Longrightarrow> within PAR_WRITABLE (par m i)"
    "within (MMR0_WRITABLE OR MMR0_MODE OR MMR0_PAGE) (mmr0 m)" for i
    using ok by (simp_all add: mmu_ok_def registers_ok_def)
  have big: "within PDR_WRITABLE d \<or> \<not> i < 16 \<Longrightarrow> mmu_ok (page_written i (m\<lparr>pdr := (pdr m)(i := d)\<rparr>))"
    "within PAR_WRITABLE d \<or> \<not> i < 16 \<Longrightarrow> mmu_ok (page_written i (m\<lparr>par := (par m)(i := d)\<rparr>))" for d i
    using ok by (auto simp: page_written_def kt11d_rebuild_def mmu_ok_def pages_ok_def flags_ok_def
        modes_ok_def registers_ok_def within_and_left descriptor_clears_W)
  have mmr: "within (MMR0_WRITABLE OR MMR0_MODE OR MMR0_PAGE) MMR0_WRITABLE"
    unfolding within_bit by (simp add: bit_or_iff)
  show ?thesis
  proof (cases g)
    case MMR0
    have "within (MMR0_WRITABLE OR MMR0_MODE OR MMR0_PAGE)
       ((mmr0 m AND NOT (msk AND MMR0_WRITABLE)) OR (w AND (msk AND MMR0_WRITABLE)))"
      by (rule field_within [OF fits(3) mmr])
    moreover have "modes_ok (m\<lparr>mmr0 := v\<rparr>)" for v using ok by (simp add: mmu_ok_def modes_ok_def)
    ultimately show ?thesis
      unfolding MMR0 register_image.simps set_register_image.simps writable_mask.simps after_write.simps
      by (intro rebuild_all_ok) (use ok in \<open>simp_all add: mmu_ok_def registers_ok_def del: within_or\<close>)
  next
    case (PDR i)
    have "within PDR_WRITABLE ((pdr m i AND NOT (msk AND PDR_WRITABLE)) OR (w AND (msk AND PDR_WRITABLE))) \<or> \<not> i < 16"
      using field_within [of PDR_WRITABLE "pdr m i" PDR_WRITABLE msk w] fits(1) [of i]
      by (auto simp: within_def)
    from big(1) [OF this] show ?thesis by (simp add: PDR)
  next
    case (PAR i)
    have "within PAR_WRITABLE ((par m i AND NOT (msk AND PAR_WRITABLE)) OR (w AND (msk AND PAR_WRITABLE))) \<or> \<not> i < 16"
      using field_within [of PAR_WRITABLE "par m i" PAR_WRITABLE msk w] fits(2) [of i]
      by (auto simp: within_def)
    from big(2) [OF this] show ?thesis by (simp add: PAR)
  next
    case MMR1
    then show ?thesis using ok rebuild_all_ok [of m] by (simp add: mmu_ok_def)
  next
    case MMR2
    then show ?thesis using ok rebuild_all_ok [of m] by (simp add: mmu_ok_def)
  qed
qed

lemma write_reg_ok: "mmu_ok m \<Longrightarrow> kt11d_write_reg pa w msk m = Some m' \<Longrightarrow> mmu_ok m'"
  using after_write_ok [of m _ msk w]
  by (auto simp: kt11d_write_reg_def Let_def split: option.splits)

subsection \<open>Runs\<close>

text \<open>
  What the processor asks of the unit: INIT, a new PSW, the spaces of a vector fetch, of
  \<^verbatim>\<open>MFPI\<close> and \<^verbatim>\<open>MTPI\<close> and of ordinary references, a reference, a register write, and the bookkeeping
  of an instruction.
\<close>

datatype mmu_event =
    Init | Modes u16 | Kernel_access | Previous_access | Current_access
  | Reference u16 bool | Write_register u32 u16 u16
  | Start | Fetched u16 | Log nat int | Operand bool

definition access_of :: "bool \<Rightarrow> u8" where
  "access_of wr = (if wr then KT11D_WRITE else KT11D_READ)"

fun mmu_step :: "mmu_event \<Rightarrow> kt11d \<Rightarrow> kt11d" where
  "mmu_step Init m = kt11d_init m"
| "mmu_step (Modes p) m = kt11d_set_modes p m"
| "mmu_step Kernel_access m = kt11d_set_access KT11D_SPACE_KERNEL KT11D_MODE_KERNEL m"
| "mmu_step Previous_access m = kt11d_set_access (prev_space m) (prev_mode m) m"
| "mmu_step Current_access m = kt11d_set_access (space m) (mode m) m"
| "mmu_step (Reference va wr) m = snd (kt11d_relocate va (access_space m) (access_of wr) m)"
| "mmu_step (Write_register pa w msk) m =
     (case kt11d_write_reg pa w msk m of None \<Rightarrow> m | Some m' \<Rightarrow> m')"
| "mmu_step Start m = kt11d_instruction_start m"
| "mmu_step (Fetched pc) m = kt11d_instruction_fetched pc m"
| "mmu_step (Log g amount) m = kt11d_log_register g amount m"
| "mmu_step (Operand b) m = set_dest_ref b m"

definition mmu_run :: "mmu_event list \<Rightarrow> kt11d" where
  "mmu_run evs = fold mmu_step evs kt11d_reset"

lemma access_of_cases: "access_of wr = KT11D_READ \<or> access_of wr = KT11D_WRITE"
  by (simp add: access_of_def)

lemma set_access_keeps:
  "mmu_ok m \<Longrightarrow> mmu_ok (kt11d_set_access KT11D_SPACE_KERNEL KT11D_MODE_KERNEL m)"
  "mmu_ok m \<Longrightarrow> mmu_ok (kt11d_set_access (prev_space m) (prev_mode m) m)"
  "mmu_ok m \<Longrightarrow> mmu_ok (kt11d_set_access (space m) (mode m) m)"
proof -
  have k: "KT11D_SPACE_KERNEL = space_of_mode KT11D_MODE_KERNEL" "within 3 KT11D_MODE_KERNEL"
    by (simp_all add: space_of_mode_def KT11D_MODE_KERNEL_def)
  show "mmu_ok m \<Longrightarrow> mmu_ok (kt11d_set_access KT11D_SPACE_KERNEL KT11D_MODE_KERNEL m)"
    unfolding k(1) by (rule set_access_ok [OF _ k(2)])
  show "mmu_ok m \<Longrightarrow> mmu_ok (kt11d_set_access (prev_space m) (prev_mode m) m)"
    using set_access_ok [of m "prev_mode m"] by (simp add: mmu_ok_def modes_ok_def)
  show "mmu_ok m \<Longrightarrow> mmu_ok (kt11d_set_access (space m) (mode m) m)"
    using set_access_ok [of m "mode m"] by (simp add: mmu_ok_def modes_ok_def)
qed

lemma step_ok: "mmu_ok m \<Longrightarrow> mmu_ok (mmu_step e m)"
  by (cases e)
     (auto simp: init_ok set_modes_ok set_access_keeps relocate_ok access_of_cases instruction_start_ok
       instruction_fetched_ok log_register_ok dest_ref_ok split: option.split intro: write_reg_ok)

lemma steps_ok: "mmu_ok m \<Longrightarrow> mmu_ok (fold mmu_step evs m)"
  by (induction evs arbitrary: m) (simp_all add: step_ok)

lemma run_ok: "mmu_ok (mmu_run evs)"
  unfolding mmu_run_def by (rule steps_ok [OF reset_ok])

text \<open>
  Property C34. Whatever the processor does with the unit since power-up, the state the
  translation works on is never stale: every page descriptor is the one its PAR and PDR give, the
  flags for relocation, maintenance mode and freezing are the bits of MMR0, the selected space and the
  illegal-mode flag belong to the selected mode, and no register holds a bit the hardware lacks.
\<close>

theorem mmu_state_never_stale:
  "(\<forall>i<16. page (mmu_run evs) i = kt11d_descriptor (pdr (mmu_run evs) i) (par (mmu_run evs) i) i \<and>
     pdr (mmu_run evs) i AND NOT PDR_WRITABLE = 0 \<and> par (mmu_run evs) i AND NOT PAR_WRITABLE = 0) \<and>
   enabled (mmu_run evs) = (mmr0 (mmu_run evs) AND MMR0_ENABLE \<noteq> 0) \<and>
   frozen (mmu_run evs) = (mmr0 (mmu_run evs) AND MMR0_ABORTS \<noteq> 0) \<and>
   maint (mmu_run evs) = (mmr0 (mmu_run evs) AND MMR0_MAINT \<noteq> 0) \<and>
   access_space (mmu_run evs) = space_of_mode (access_mode (mmu_run evs)) \<and>
   access_illegal (mmu_run evs) =
     (access_mode (mmu_run evs) \<noteq> KT11D_MODE_KERNEL \<and> access_mode (mmu_run evs) \<noteq> KT11D_MODE_USER) \<and>
   mmr0 (mmu_run evs) AND NOT (MMR0_WRITABLE OR MMR0_MODE OR MMR0_PAGE) = 0"
  using run_ok [of evs]
  unfolding mmu_ok_def pages_ok_def flags_ok_def modes_ok_def registers_ok_def within_def by blast

text \<open>
  Property C33. Relocation is the translation of the page registers: in every run, with relocation on
  (or a destination reference in maintenance mode) and a mode that exists, a reference is granted
  exactly if the access control field and the page length of its page allow it, and then goes
  to the page address plus the displacement; the descriptors, their wrapping base and the
  single unsigned comparison for both directions of expansion compute just this.
\<close>

theorem relocation_is_translation:
  assumes "enabled (mmu_run evs) \<or> maint (mmu_run evs) \<and> dest_ref (mmu_run evs)"
    "\<not> access_illegal (mmu_run evs)"
  shows "fst (kt11d_relocate va (access_space (mmu_run evs)) (access_of wr) (mmu_run evs)) =
     reference_translation va (access_of wr) (mmu_run evs)"
  using relocate_unfold [OF run_ok assms access_of_cases]
  by (simp split: option.split)

text \<open>A map that relocates page 1 to 040000, and relocation on.\<close>

definition sample_map :: "mmu_event list" where
  "sample_map = [Write_register 0x3f4c2 0x0f06 0xffff, Write_register 0x3f4e2 0x0100 0xffff,
     Write_register 0x3ff7a 1 0xffff]"

lemmas mmu_eval = kt11d_write_reg_def lookup_def kt11d_is_own_register_def KT11D_SPACE_KERNEL_def
  KT11D_SPACE_USER_def page_written_def kt11d_rebuild_def rebuild_all kt11d_reset_def kt11d_zero_def
  kt11d_set_access_def KT11D_MODE_KERNEL_def KT11D_MODE_USER_def MMR0_ENABLE_def MMR0_ABORTS_def MMR0_MAINT_def
  MMR0_WRITABLE_def PDR_WRITABLE_def PAR_WRITABLE_def PDR_W_def

lemma sample_map_run:
  "enabled (mmu_run sample_map)" "access_space (mmu_run sample_map) = 0" "\<not> access_illegal (mmu_run sample_map)"
  "pdr (mmu_run sample_map) (Suc 0) = 0x0f06" "par (mmu_run sample_map) (Suc 0) = 0x0100" "\<not> frozen (mmu_run sample_map)"
  "mmr0 (mmu_run sample_map) = 1" "access_mode (mmu_run sample_map) = 0"
  by (simp_all add: mmu_run_def sample_map_def mmu_eval)

theorem mmu_state_never_stale_witness:
  "page (mmu_run sample_map) 1 = kt11d_descriptor 0x0f06 0x0100 1 \<and> frozen (mmu_run sample_map) = False"
proof -
  note all = mmu_state_never_stale [of sample_map]
  have "page (mmu_run sample_map) 1 = kt11d_descriptor (pdr (mmu_run sample_map) 1) (par (mmu_run sample_map) 1) 1"
    using conjunct1 [OF all] by (metis one_less_numeral_iff semiring_norm(76))
  moreover have "frozen (mmu_run sample_map) = (mmr0 (mmu_run sample_map) AND MMR0_ABORTS \<noteq> 0)" using all by blast
  ultimately show ?thesis by (simp add: sample_map_run MMR0_ABORTS_def)
qed

theorem relocation_is_translation_witness:
  "fst (kt11d_relocate 0x2004 (access_space (mmu_run sample_map)) (access_of True) (mmu_run sample_map)) = Some 0x4004"
proof -
  have "fst (kt11d_relocate 0x2004 (access_space (mmu_run sample_map)) (access_of True) (mmu_run sample_map)) =
      reference_translation 0x2004 (access_of True) (mmu_run sample_map)"
    by (rule relocation_is_translation) (simp_all add: sample_map_run)
  also have "\<dots> = Some 0x4004"
    by (simp add: reference_translation_def Let_def sample_map_run va_page_def access_legal_def PDR_ACF_def
        block_legal_def physical_address_def)
  finally show ?thesis .
qed

lemma refused_effect:
  assumes ok: "mmu_ok m" and on: "enabled m \<or> maint m \<and> dest_ref m" and "\<not> access_illegal m" "\<not> frozen m"
    and none: "reference_translation va (access_of wr) m = None"
  shows "kt11d_relocate va (access_space m) (access_of wr) m =
      (None, m\<lparr>mmr0 := mmr0_reference va m OR
         abort_cause (pdr m (access_space m + va_page va)) (access_of wr) va, frozen := True\<rparr>) \<and>
    abort_cause (pdr m (access_space m + va_page va)) (access_of wr) va AND MMR0_ABORTS \<noteq> 0"
proof -
  let ?d = "pdr m (access_space m + va_page va)"
  have "\<not> (access_legal ?d (access_of wr) \<and> block_legal ?d va)"
    using none by (auto simp: reference_translation_def Let_def split: if_splits)
  from abort_cause_nonzero [OF this access_of_cases] show ?thesis
    using relocate_unfold [OF ok on assms(3) access_of_cases, of va wr] assms(4) none
    by (simp add: abort_effect [OF ok access_of_cases])
qed

lemma sample_refused:
  "snd (kt11d_relocate 0x3ffe (access_space (mmu_run sample_map)) (access_of True) (mmu_run sample_map)) =
     (mmu_run sample_map)\<lparr>mmr0 := 0x4003, frozen := True\<rparr>"
proof -
  have none: "reference_translation 0x3ffe (access_of True) (mmu_run sample_map) = None"
    by (simp add: reference_translation_def Let_def sample_map_run va_page_def access_legal_def PDR_ACF_def
        block_legal_def physical_address_def)
  have "mmr0_reference 0x3ffe (mmu_run sample_map) OR
      abort_cause (pdr (mmu_run sample_map) (access_space (mmu_run sample_map) + va_page 0x3ffe)) (access_of True) 0x3ffe = 0x4003"
    by (simp add: mmr0_reference_def sample_map_run va_page_def abort_cause_def PDR_ACF_def block_legal_def
        MMR0_LENGTH_def MMR0_MODE_def MMR0_PAGE_def)
  then show ?thesis
    using refused_effect [OF run_ok _ _ _ none] by (simp add: sample_map_run)
qed

text \<open>
  A refused reference records its cause: with relocation on, in a mode that exists, and
  MMR0 not frozen, a reference outside what the page allows returns no address, changes nothing but
  MMR0, and leaves there the mode and page of the reference and the abort bits of exactly the
  conditions it violated - non-resident, read-only, page length; at least one of them is set, so that
  MMR0 to MMR2 are frozen.
\<close>

theorem refused_reference_records_cause:
  assumes "enabled (mmu_run evs) \<or> maint (mmu_run evs) \<and> dest_ref (mmu_run evs)"
    "\<not> access_illegal (mmu_run evs)" "\<not> frozen (mmu_run evs)"
    "reference_translation va (access_of wr) (mmu_run evs) = None"
  shows "kt11d_relocate va (access_space (mmu_run evs)) (access_of wr) (mmu_run evs) =
      (None, (mmu_run evs)\<lparr>mmr0 := mmr0_reference va (mmu_run evs) OR
         abort_cause (pdr (mmu_run evs) (access_space (mmu_run evs) + va_page va)) (access_of wr) va,
         frozen := True\<rparr>) \<and>
    abort_cause (pdr (mmu_run evs) (access_space (mmu_run evs) + va_page va)) (access_of wr) va AND MMR0_ABORTS \<noteq> 0"
  by (rule refused_effect [OF run_ok assms])

theorem refused_reference_records_cause_witness:
  "fst (kt11d_relocate 0x3ffe (access_space (mmu_run sample_map)) (access_of True) (mmu_run sample_map)) = None"
proof -
  have "reference_translation 0x3ffe (access_of True) (mmu_run sample_map) = None"
    by (simp add: reference_translation_def Let_def sample_map_run va_page_def access_legal_def PDR_ACF_def
        block_legal_def physical_address_def)
  from refused_reference_records_cause [OF _ _ _ this] show ?thesis by (simp add: sample_map_run)
qed

text \<open>What software may do to release a freeze: write MMR0, or INIT.\<close>

fun releases :: "mmu_event \<Rightarrow> bool" where
  "releases Init = True"
| "releases (Write_register pa w msk) = (lookup pa = Some MMR0)"
| "releases _ = False"

lemma lookup_write_status:
  "kt11d_write_reg pa w msk m = Some m' \<Longrightarrow> lookup pa \<noteq> Some MMR0 \<Longrightarrow>
     mmr0 m' = mmr0 m \<and> mmr1 m' = mmr1 m \<and> mmr2 m' = mmr2 m"
proof -
  assume w: "kt11d_write_reg pa w msk m = Some m'" and "lookup pa \<noteq> Some MMR0"
  then obtain g where g: "lookup pa = Some g" "g \<noteq> MMR0"
    by (cases "lookup pa") (auto simp: kt11d_write_reg_def)
  show ?thesis
    using w g by (cases g) (auto simp: kt11d_write_reg_def Let_def rebuild_all page_written_def kt11d_rebuild_def)
qed

lemma relocate_frozen:
  assumes "frozen m"
  shows "mmr0 (snd (kt11d_relocate va sp acc m)) = mmr0 m \<and> mmr1 (snd (kt11d_relocate va sp acc m)) = mmr1 m \<and>
    mmr2 (snd (kt11d_relocate va sp acc m)) = mmr2 m"
  using assms by (simp add: kt11d_relocate_def Let_def kt11d_abort_def kt11d_abort_mode_def)

lemma step_frozen:
  assumes "frozen m" "\<not> releases e"
  shows "mmr0 (mmu_step e m) = mmr0 m \<and> mmr1 (mmu_step e m) = mmr1 m \<and> mmr2 (mmu_step e m) = mmr2 m"
  using assms lookup_write_status [of _ _ _ m]
  by (cases e) (auto simp: kt11d_set_modes_def Let_def kt11d_set_access_def relocate_frozen
      kt11d_instruction_start_def kt11d_instruction_fetched_def kt11d_log_register_def set_dest_ref_def
      split: option.split)

text \<open>
  After an abort the status registers stay as the abort handler must find them: no
  sequence of references, aborts, instruction starts, register logs, mode changes and writes to other
  registers changes MMR0, MMR1 or MMR2 as long as software does not write MMR0 and no INIT comes.
\<close>

theorem frozen_status_is_kept:
  assumes "frozen (mmu_run evs)" "\<forall>e \<in> set later. \<not> releases e"
  shows "mmr0 (mmu_run (evs @ later)) = mmr0 (mmu_run evs) \<and> mmr1 (mmu_run (evs @ later)) = mmr1 (mmu_run evs) \<and>
    mmr2 (mmu_run (evs @ later)) = mmr2 (mmu_run evs)"
proof -
  have "mmr0 (fold mmu_step later m) = mmr0 m \<and> mmr1 (fold mmu_step later m) = mmr1 m \<and>
      mmr2 (fold mmu_step later m) = mmr2 m"
    if "mmu_ok m" "frozen m" for m
    using that assms(2)
  proof (induction later arbitrary: m)
    case (Cons e later)
    have s: "mmr0 (mmu_step e m) = mmr0 m \<and> mmr1 (mmu_step e m) = mmr1 m \<and> mmr2 (mmu_step e m) = mmr2 m"
      using Cons.prems by (intro step_frozen) simp_all
    have ok: "mmu_ok (mmu_step e m)" by (rule step_ok [OF Cons.prems(1)])
    with s Cons.prems have "frozen (mmu_step e m)" by (simp add: mmu_ok_def flags_ok_def)
    from Cons.IH [OF ok this] Cons.prems(3) s show ?case by simp
  qed simp
  from this [OF run_ok assms(1)] show ?thesis by (simp add: mmu_run_def)
qed

theorem frozen_status_is_kept_witness:
  "mmr0 (mmu_run ((sample_map @ [Reference 0x3ffe True]) @ [Start, Fetched 0x1000, Reference 0 False])) = 0x4003"
proof -
  have run: "mmu_run (sample_map @ [Reference 0x3ffe True]) =
      snd (kt11d_relocate 0x3ffe (access_space (mmu_run sample_map)) (access_of True) (mmu_run sample_map))"
    by (simp add: mmu_run_def)
  have fr: "frozen (mmu_run (sample_map @ [Reference 0x3ffe True]))"
    and v: "mmr0 (mmu_run (sample_map @ [Reference 0x3ffe True])) = 0x4003"
    unfolding run sample_refused by simp_all
  then show ?thesis
    using frozen_status_is_kept [OF fr, of "[Start, Fetched 0x1000, Reference 0 False]"] by simp
qed

subsection \<open>Register writes\<close>

text \<open>
  A register of the unit reads back what was written to it: after a write through
  the byte mask \<open>msk\<close>, a read of the address gives the old value with the selected, writable bits
  replaced, and the flag that the page was written into cleared.
\<close>

theorem register_write_reads_back:
  assumes "lookup pa = Some g"
  shows "\<exists>m'. kt11d_write_reg pa w msk m = Some m' \<and>
    kt11d_read_reg pa m' =
      Some (((register_image g m AND NOT (msk AND writable_mask g)) OR (w AND (msk AND writable_mask g)))
            AND (case g of PDR i \<Rightarrow> NOT PDR_W | _ \<Rightarrow> - 1))"
  using assms
  by (cases g) (simp_all add: kt11d_write_reg_def kt11d_read_reg_def Let_def rebuild_all page_written_def kt11d_rebuild_def)

theorem register_write_reads_back_witness:
  "kt11d_write_reg 0x3f4c2 0x1234 0xff00 kt11d_reset \<noteq> None"
  using register_write_reads_back [of "0x3f4c2" "PDR 1" "0x1234" "0xff00" kt11d_reset]
  by (auto simp: lookup_def kt11d_is_own_register_def KT11D_SPACE_KERNEL_def)

text \<open>
  The written-into flag of a page is set by accepted writes only: when a step of the
  processor sets it, that step was a granted write through this page, to an address that
  is not one of the unit's own registers.
\<close>

theorem only_a_granted_write_marks_the_page:
  assumes "\<not> bit (pdr (mmu_run evs) i) 6" "bit (pdr (mmu_run (evs @ [e])) i) 6"
  shows "\<exists>va pa. e = Reference va True \<and> i = access_space (mmu_run evs) + va_page va \<and>
    reference_translation va KT11D_WRITE (mmu_run evs) = Some pa \<and> \<not> kt11d_is_own_register pa"
proof -
  define m where "m = mmu_run evs"
  have ok: "mmu_ok m" by (simp add: m_def run_ok)
  have clear: "\<not> bit (pdr m i) 6" and set: "bit (pdr (mmu_step e m) i) 6"
    using assms by (simp_all add: m_def mmu_run_def)
  have W: "\<not> bit (d AND NOT PDR_W) 6" for d by (simp add: PDR_W_def bit_simps)
  have written: "\<not> bit (pdr (after_write g (set_register_image g w m)) i) 6" for g w
    using clear W by (cases g) (simp_all add: page_written_def kt11d_rebuild_def rebuild_all)
  have other: "pdr (mmu_step e m) i = pdr m i" if "\<not> (\<exists>va wr. e = Reference va wr)" "\<not> (\<exists>pa w msk. e = Write_register pa w msk)"
    using that by (cases e) (simp_all add: kt11d_init_def rebuild_all kt11d_set_modes_def Let_def kt11d_set_access_def
        kt11d_instruction_start_def kt11d_instruction_fetched_def kt11d_log_register_def set_dest_ref_def)
  have "\<not> (\<exists>pa w msk. e = Write_register pa w msk)"
    using set clear written by (auto simp: kt11d_write_reg_def Let_def split: option.splits)
  with other have "\<exists>va wr. e = Reference va wr" using set clear by metis
  then obtain va wr where e: "e = Reference va wr" by blast
  have noted: "pdr (mmr0_noted va m) = pdr m" by (simp add: mmr0_noted_def)
  have on: "enabled m \<or> maint m \<and> dest_ref m" and legal: "\<not> access_illegal m"
    using set clear by (auto simp: e kt11d_relocate_def kt11d_abort_mode_def split: if_splits)
  from set clear obtain pa where "reference_translation va (access_of wr) m = Some pa"
      "access_of wr = KT11D_WRITE" "\<not> kt11d_is_own_register pa" "i = access_space m + va_page va"
    by (auto simp: e relocate_unfold [OF ok on legal access_of_cases] abort_effect [OF ok access_of_cases] noted
        split: option.splits if_splits)
  then show ?thesis
    unfolding e m_def by (cases wr) (auto simp: access_of_def KT11D_READ_def KT11D_WRITE_def)
qed

theorem only_a_granted_write_marks_the_page_witness:
  "\<exists>pa. reference_translation 0x2004 KT11D_WRITE (mmu_run sample_map) = Some pa \<and> \<not> kt11d_is_own_register pa"
proof -
  have "reference_translation 0x2004 (access_of True) (mmu_run sample_map) = Some 0x4004"
    by (simp add: reference_translation_def Let_def sample_map_run va_page_def access_legal_def PDR_ACF_def
        block_legal_def physical_address_def)
  then have "pdr (mmu_run (sample_map @ [Reference 0x2004 True])) (Suc 0) = 0x0f46"
    using relocate_unfold [OF run_ok _ _ access_of_cases, of sample_map "0x2004" True]
    by (simp add: mmu_run_def [of "sample_map @ _"] mmu_run_def [symmetric] sample_map_run va_page_def
        kt11d_is_own_register_def PDR_W_def mmr0_noted_def access_of_def)
  then have "bit (pdr (mmu_run (sample_map @ [Reference 0x2004 True])) (Suc 0)) 6" by simp
  moreover have "\<not> bit (pdr (mmu_run sample_map) (Suc 0)) 6" by (simp add: sample_map_run)
  ultimately show ?thesis
    using only_a_granted_write_marks_the_page [of sample_map "Suc 0" "Reference 0x2004 True"] by auto
qed

end
