(* ===== verification/KD11EA.thy ===== *)
theory KD11EA
  imports KA11 KT11D "HOL-Library.Signed_Division"
begin

text \<open>
  The CPU of the 11/34, \<^verbatim>\<open>10.02_devices/2_src/cpu34/kd11ea.c\<close>: bus cycles through the memory
  management unit, processor modes with a stack pointer each, the extended instructions, and the
  trap sequence. The word operations it has in common with the 11/20 are the \<open>alu_\<close> functions of
  \<open>KA11\<close>, applied to the low byte of the PSW. Names end in 34 where the 11/20 has the same name. Tracing
  is left out; setting an interrupt is atomic.
\<close>

datatype kd11ea_state = KD11EA_STATE_HALTED | KD11EA_STATE_RUNNING | KD11EA_STATE_WAITING

record 'e kd11ea =
  r34 :: "nat \<Rightarrow> u16"
  b34 :: u16
  ba34 :: u16
  bdata34 :: u16
  ir34 :: u16
  psw34 :: u16
  stackpointer :: "nat \<Rightarrow> u16"
  traps34 :: u32
  be34 :: nat
  state34 :: kd11ea_state
  trap_vector :: u16
  autoinc_reg :: "nat option"
  autoinc_amount :: u16
  mmu :: kt11d
  intr34 :: bool
  intrvec34 :: u16
  sw34 :: u16
  env34 :: 'e

datatype 'e outcome = Okay "'e kd11ea" | Abort "'e kd11ea"

definition on_okay :: "'e outcome \<Rightarrow> ('e kd11ea \<Rightarrow> 'e outcome) \<Rightarrow> 'e outcome" where
  "on_okay x f = (case x of Okay s \<Rightarrow> f s | Abort s \<Rightarrow> Abort s)"

definition KD11EA_SP_KERNEL :: nat where "KD11EA_SP_KERNEL = 0"
definition KD11EA_SP_USER :: nat where "KD11EA_SP_USER = 1"

definition PSW_PR :: u16 where "PSW_PR = 0x00e0"
definition PSW_T34 :: u16 where "PSW_T34 = 0x0010"
definition PSW_MASK :: u16 where "PSW_MASK = 0xf0ff"

definition set_r34 :: "nat \<Rightarrow> u16 \<Rightarrow> 'e kd11ea \<Rightarrow> 'e kd11ea" where
  "set_r34 i v s = s\<lparr>r34 := (r34 s)(i := v)\<rparr>"

definition psw_mode :: "u16 \<Rightarrow> u16" where "psw_mode p = drop_bit 14 p AND 3"

definition IS_KERNEL :: "'e kd11ea \<Rightarrow> bool" where
  "IS_KERNEL s \<longleftrightarrow> psw_mode (psw34 s) = KT11D_MODE_KERNEL"

definition stack_of :: "u16 \<Rightarrow> nat" where
  "stack_of p = (if psw_mode p = KT11D_MODE_KERNEL then KD11EA_SP_KERNEL else KD11EA_SP_USER)"

definition swap_stack :: "nat \<Rightarrow> nat \<Rightarrow> 'e kd11ea \<Rightarrow> 'e kd11ea" where
  "swap_stack old new s =
     (if old \<noteq> new
      then let s1 = s\<lparr>stackpointer := (stackpointer s)(old := r34 s 6)\<rparr> in set_r34 6 (stackpointer s1 new) s1
      else s)"

definition kd11ea_set_psw :: "'e cpu_bus \<Rightarrow> u16 \<Rightarrow> 'e kd11ea \<Rightarrow> 'e kd11ea" where
  "kd11ea_set_psw B newpsw s =
     (let p = newpsw AND PSW_MASK;
          s1 = swap_stack (stack_of (psw34 s)) (stack_of p) s
      in s1\<lparr>psw34 := p, mmu := kt11d_set_modes p (mmu s1),
            env34 := unibone_prioritylevelchange B (ucast (drop_bit 5 p AND 7)) (env34 s1)\<rparr>)"

subsection \<open>Reset\<close>

definition kd11ea_reset :: "'e kd11ea \<Rightarrow> 'e kd11ea" where
  "kd11ea_reset s = s\<lparr>traps34 := 0, intr34 := False, mmu := kt11d_init (mmu s)\<rparr>"

definition kd11ea_power_reset :: "'e cpu_bus \<Rightarrow> 'e kd11ea \<Rightarrow> 'e kd11ea" where
  "kd11ea_power_reset B s =
     kd11ea_set_psw B 0
       ((kd11ea_reset s)\<lparr>mmu := kt11d_reset,
          stackpointer := (stackpointer s)(KD11EA_SP_KERNEL := 0, KD11EA_SP_USER := 0),
          trap_vector := 4, autoinc_reg := None\<rparr>)"

subsection \<open>Bus cycles\<close>

definition autoinc_pending :: "nat \<Rightarrow> u16 \<Rightarrow> 'e kd11ea \<Rightarrow> 'e kd11ea" where
  "autoinc_pending n amount s = s\<lparr>autoinc_reg := Some n, autoinc_amount := amount\<rparr>"

definition autoinc_commit :: "'e kd11ea \<Rightarrow> 'e kd11ea" where
  "autoinc_commit s = s\<lparr>autoinc_reg := None\<rparr>"

definition autoinc_undo :: "'e kd11ea \<Rightarrow> 'e kd11ea" where
  "autoinc_undo s =
     (case autoinc_reg s of
        Some n \<Rightarrow> set_r34 n (r34 s n - autoinc_amount s) (s\<lparr>autoinc_reg := None\<rparr>)
      | None \<Rightarrow> s)"

text \<open>The labels \<^verbatim>\<open>ok\<close>, \<^verbatim>\<open>be\<close> and \<^verbatim>\<open>abort\<close> of a bus cycle.\<close>

definition cycle_ok :: "'e kd11ea \<Rightarrow> 'e outcome" where
  "cycle_ok s = Okay (autoinc_commit (s\<lparr>be34 := 0\<rparr>))"

definition cycle_fails :: "u16 \<Rightarrow> 'e kd11ea \<Rightarrow> 'e outcome" where
  "cycle_fails v s = Abort (autoinc_undo (s\<lparr>trap_vector := v, be34 := Suc (be34 s)\<rparr>))"

definition internal_read34 :: "u32 \<Rightarrow> 'e kd11ea \<Rightarrow> u16 option" where
  "internal_read34 pa s =
     (if 0x3e000 \<le> pa then
        (case kt11d_read_reg (pa AND NOT 1) (mmu s) of
           Some w \<Rightarrow> Some w
         | None \<Rightarrow>
             if pa = 0x3ff78 \<or> pa = 0x3ff79 then Some (sw34 s)
             else if pa = 0x3fffe \<or> pa = 0x3ffff then Some (psw34 s AND PSW_MASK)
             else if pa = 0x3ff67 then Some 0
             else None)
      else None)"

definition dati34 :: "'e cpu_bus \<Rightarrow> bool \<Rightarrow> 'e kd11ea \<Rightarrow> 'e outcome" where
  "dati34 B b s =
     (if \<not> b \<and> ba34 s AND 1 \<noteq> 0 then cycle_fails 4 s
      else case kt11d_relocate (ba34 s) (access_space (mmu s)) KT11D_READ (mmu s) of
        (None, m) \<Rightarrow> cycle_fails KT11D_ABORT_VECTOR (s\<lparr>mmu := m\<rparr>)
      | (Some pa, m) \<Rightarrow>
          (let s = s\<lparr>mmu := m\<rparr> in
           case internal_read34 pa s of
             Some v \<Rightarrow> cycle_ok (s\<lparr>bdata34 := v\<rparr>)
           | None \<Rightarrow> (case unibone_dati B (pa AND NOT 1) (env34 s) of
                 (None, e) \<Rightarrow> cycle_fails 4 (s\<lparr>env34 := e\<rparr>)
               | (Some d, e) \<Rightarrow> cycle_ok (s\<lparr>bdata34 := d, env34 := e\<rparr>))))"

definition write_mask :: "bool \<Rightarrow> u32 \<Rightarrow> u16" where
  "write_mask b pa = (if b then (if pa AND 1 \<noteq> 0 then 0xff00 else 0x00ff) else 0xffff)"

definition internal_write34 :: "'e cpu_bus \<Rightarrow> bool \<Rightarrow> u32 \<Rightarrow> 'e kd11ea \<Rightarrow> 'e kd11ea option" where
  "internal_write34 B b pa s =
     (if 0x3e000 \<le> pa then
        (case kt11d_write_reg (pa AND NOT 1) (bdata34 s) (write_mask b pa) (mmu s) of
           Some m \<Rightarrow> Some (s\<lparr>mmu := m\<rparr>)
         | None \<Rightarrow>
             if pa = 0x3ff78 \<or> pa = 0x3ff79 then Some s
             else if pa = 0x3fffe \<or> pa = 0x3ffff then
               (let mk = write_mask b pa AND NOT PSW_T34 in
                Some (kd11ea_set_psw B ((psw34 s AND NOT mk) OR (bdata34 s AND mk)) s))
             else None)
      else None)"

definition dato34 :: "'e cpu_bus \<Rightarrow> bool \<Rightarrow> 'e kd11ea \<Rightarrow> 'e outcome" where
  "dato34 B b s =
     (if \<not> b \<and> ba34 s AND 1 \<noteq> 0 then cycle_fails 4 s
      else case kt11d_relocate (ba34 s) (access_space (mmu s)) KT11D_WRITE (mmu s) of
        (None, m) \<Rightarrow> cycle_fails KT11D_ABORT_VECTOR (s\<lparr>mmu := m\<rparr>)
      | (Some pa, m) \<Rightarrow>
          (let s = s\<lparr>mmu := m\<rparr> in
           case internal_write34 B b pa s of
             Some s' \<Rightarrow> cycle_ok s'
           | None \<Rightarrow> (case (if b then unibone_datob B pa (bdata34 s) (env34 s)
                            else unibone_dato B (pa AND NOT 1) (bdata34 s) (env34 s)) of
                 (False, e) \<Rightarrow> cycle_fails 4 (s\<lparr>env34 := e\<rparr>)
               | (True, e) \<Rightarrow> cycle_ok (s\<lparr>env34 := e\<rparr>))))"

subsection \<open>Operands\<close>

definition mark_dest :: "bool \<Rightarrow> 'e kd11ea \<Rightarrow> 'e kd11ea" where
  "mark_dest d s = s\<lparr>mmu := set_dest_ref d (mmu s)\<rparr>"

definition log34 :: "nat \<Rightarrow> int \<Rightarrow> 'e kd11ea \<Rightarrow> 'e kd11ea" where
  "log34 n amount s = s\<lparr>mmu := kt11d_log_register n amount (mmu s)\<rparr>"

definition stack_limit :: "u16 \<Rightarrow> 'e kd11ea \<Rightarrow> 'e kd11ea" where
  "stack_limit sp s =
     (if IS_KERNEL s \<and> sp AND NOT 0xff = 0 then s\<lparr>traps34 := traps34 s OR TRAP_STACK\<rparr> else s)"

definition addr_base34 :: "'e cpu_bus \<Rightarrow> u16 \<Rightarrow> bool \<Rightarrow> 'e kd11ea \<Rightarrow> 'e outcome" where
  "addr_base34 B m b s =
     (let n = reg_no m; ai = auto_step m b in
      if operand_mode m = 2 then
        (let v = r34 s n + ai in
         Okay (log34 n (uint ai) (autoinc_pending n ai (set_r34 n v (s\<lparr>ba34 := r34 s n, b34 := v\<rparr>)))))
      else if operand_mode m = 4 then
        (let a = r34 s n - ai; s1 = s\<lparr>b34 := a, ba34 := a\<rparr> in
         Okay (log34 n (- uint ai) (set_r34 n a (if n = 6 then stack_limit a s1 else s1))))
      else
        on_okay (dati34 B False (set_r34 7 (r34 s 7 + 2) (s\<lparr>ba34 := r34 s 7\<rparr>)))
          (\<lambda>s. Okay (s\<lparr>b34 := bdata34 s + r34 s n, ba34 := bdata34 s + r34 s n\<rparr>)))"

text \<open>Only called for modes other than register mode, which the source excludes by an assertion.\<close>

definition addrop34 :: "'e cpu_bus \<Rightarrow> u16 \<Rightarrow> bool \<Rightarrow> 'e kd11ea \<Rightarrow> 'e outcome" where
  "addrop34 B m b s =
     (if is_register m then Okay s
      else
        (let dest = dest_ref (mmu s); s = mark_dest False (autoinc_commit s) in
         if operand_mode m = 0
         then Okay (mark_dest dest (s\<lparr>b34 := r34 s (reg_no m), ba34 := r34 s (reg_no m)\<rparr>))
         else on_okay (addr_base34 B m b s) (\<lambda>s.
              on_okay (if deferred m then on_okay (dati34 B False s)
                            (\<lambda>s. Okay (s\<lparr>b34 := bdata34 s, ba34 := bdata34 s\<rparr>))
                       else Okay s)
                (\<lambda>s. Okay (mark_dest dest s)))))"

definition fetchop34 :: "'e cpu_bus \<Rightarrow> nat \<Rightarrow> u16 \<Rightarrow> bool \<Rightarrow> 'e kd11ea \<Rightarrow> 'e outcome" where
  "fetchop34 B t m b s =
     on_okay (if is_register m then Okay (set_r34 t (r34 s (reg_no m)) s)
              else on_okay (dati34 B b s)
                (\<lambda>s. Okay (set_r34 t (if b \<and> ba34 s AND 1 \<noteq> 0 then drop_bit 8 (bdata34 s) else bdata34 s) s)))
       (\<lambda>s. Okay (if b then set_r34 t (sxt (r34 s t)) s else s))"

definition readop34 :: "'e cpu_bus \<Rightarrow> nat \<Rightarrow> u16 \<Rightarrow> bool \<Rightarrow> 'e kd11ea \<Rightarrow> 'e outcome" where
  "readop34 B t m b s = on_okay (addrop34 B m b (mark_dest (t = 9) s)) (fetchop34 B t m b)"

definition addrdest :: "'e cpu_bus \<Rightarrow> u16 \<Rightarrow> bool \<Rightarrow> 'e kd11ea \<Rightarrow> 'e outcome" where
  "addrdest B m b s = addrop34 B m b (mark_dest True s)"

definition writedest34 :: "'e cpu_bus \<Rightarrow> u16 \<Rightarrow> bool \<Rightarrow> 'e kd11ea \<Rightarrow> 'e outcome" where
  "writedest34 B v b s0 =
     (let s = mark_dest True s0 in
      if is_register (ir34 s)
      then (let d = reg_no (ir34 s) in
            Okay (set_r34 d (if b then (r34 s d AND NOT 0xff) OR (v AND 0xff) else v) s))
      else dato34 B b (s\<lparr>bdata34 := (if ba34 s AND 1 \<noteq> 0 then push_bit 8 v else v)\<rparr>))"

text \<open>The macros \<^verbatim>\<open>RD_B\<close>, source before destination, and \<^verbatim>\<open>RD_U\<close>.\<close>

definition operand34 :: "'e cpu_bus \<Rightarrow> nat \<Rightarrow> u16 \<Rightarrow> bool \<Rightarrow> 'e kd11ea \<Rightarrow> 'e outcome" where
  "operand34 B t m b s = (if is_register m then fetchop34 B t m b s else readop34 B t m b s)"

definition RD_B34 :: "'e cpu_bus \<Rightarrow> u16 \<Rightarrow> u16 \<Rightarrow> bool \<Rightarrow> 'e kd11ea \<Rightarrow> 'e outcome" where
  "RD_B34 B src dst by s = on_okay (operand34 B 8 src by s) (operand34 B 9 dst by)"

definition RD_U34 :: "'e cpu_bus \<Rightarrow> u16 \<Rightarrow> bool \<Rightarrow> 'e kd11ea \<Rightarrow> 'e outcome" where
  "RD_U34 B dst by s = on_okay (operand34 B 9 dst by s) (\<lambda>s. Okay (set_r34 8 (r34 s 9) s))"

subsection \<open>Extended arithmetic\<close>

text \<open>Condition codes computed on the low byte of the PSW, and all four set at once.\<close>

definition with_cc :: "u16 \<Rightarrow> u8 \<Rightarrow> u16" where
  "with_cc p c = (p AND 0xff00) OR ucast c"

definition cc_bits :: "bool \<Rightarrow> bool \<Rightarrow> bool \<Rightarrow> bool \<Rightarrow> u16" where
  "cc_bits n z v c = (if n then 8 else 0) OR (if z then 4 else 0) OR (if v then 2 else 0) OR (if c then 1 else 0)"

definition set_cc :: "bool \<Rightarrow> bool \<Rightarrow> bool \<Rightarrow> bool \<Rightarrow> u16 \<Rightarrow> u16" where
  "set_cc n z v c p = (p AND NOT 0xf) OR cc_bits n z v c"

definition eis_MUL :: "nat \<Rightarrow> u16 \<Rightarrow> (nat \<Rightarrow> u16) \<Rightarrow> u16 \<Rightarrow> (nat \<Rightarrow> u16) \<times> u16" where
  "eis_MUL reg dr rs p =
     (let prod = scast dr * scast (rs reg) :: u32;
          p' = set_cc (bit prod 31) (prod = 0) False (sint prod < - 32768 \<or> 32767 < sint prod) p
      in (if odd reg then rs(reg := ucast prod)
          else rs(reg + 1 := ucast prod, reg := ucast (drop_bit 16 prod)), p'))"

text \<open>
  \<^verbatim>\<open>ldiv\<close> truncates towards zero. Its quotient is taken as an integer; for the dividend \<open>-2 ^ 31\<close> and the
  divisor \<open>-1\<close> a 32 bit \<^verbatim>\<open>long\<close> cannot hold it, and C does not define the result.
\<close>

definition register_pair :: "nat \<Rightarrow> (nat \<Rightarrow> u16) \<Rightarrow> u32" where
  "register_pair reg rs = push_bit 16 (ucast (rs reg)) OR ucast (rs (if odd reg then reg else reg + 1))"

definition eis_DIV :: "nat \<Rightarrow> u16 \<Rightarrow> (nat \<Rightarrow> u16) \<Rightarrow> u16 \<Rightarrow> (nat \<Rightarrow> u16) \<times> u16" where
  "eis_DIV reg dr rs p =
     (let lo = (if odd reg then reg else reg + 1) in
      if dr = 0 then (rs, set_cc False False True True p)
      else
        (let a = sint (register_pair reg rs); q = a sdiv sint dr;
             fits = (- 32768 \<le> q \<and> q \<le> 32767)
         in (if fits then rs(reg := of_int q, lo := of_int (a smod sint dr)) else rs,
             set_cc (sgn_bit (of_int q)) (of_int q = (0 :: u16)) (\<not> fits) False p)))"

text \<open>
  The loops that shift left: one place at a time, the carry is the bit that leaves the sign position,
  and a change of sign sets V.
\<close>

primrec ash_left :: "nat \<Rightarrow> u32 \<Rightarrow> bool \<Rightarrow> bool \<Rightarrow> u32 \<times> bool \<times> bool" where
  "ash_left 0 b v c = (b, v, c)"
| "ash_left (Suc n) b v c = ash_left n (push_bit 1 b) (v \<or> bit (b XOR push_bit 1 b) 15) (bit b 15)"

primrec ashc_left :: "nat \<Rightarrow> u32 \<Rightarrow> bool \<Rightarrow> bool \<Rightarrow> u32 \<times> bool \<times> bool" where
  "ashc_left 0 b v c = (b, v, c)"
| "ashc_left (Suc n) b v c = ashc_left n (push_bit 1 b) (v \<or> bit (b XOR push_bit 1 b) 31) (bit b 31)"

definition shift_count :: "u16 \<Rightarrow> nat" where "shift_count dr = unat (dr AND 0x3f)"

definition eis_ASH :: "nat \<Rightarrow> u16 \<Rightarrow> (nat \<Rightarrow> u16) \<Rightarrow> u16 \<Rightarrow> (nat \<Rightarrow> u16) \<times> u16" where
  "eis_ASH reg dr rs p =
     (let b = ucast (rs reg) :: u32; sh = shift_count dr in
      if 32 \<le> sh then
        (let k = 64 - sh; msk = (if bit b 15 then 0xffff else 0) :: u16 in
         if 17 \<le> k then (rs(reg := msk), set_cc (bit msk 15) (msk = 0) False (msk \<noteq> 0) p)
         else (let d = ucast (drop_bit k b) OR push_bit (16 - k) msk :: u16 in
               (rs(reg := d), set_cc (bit d 15) (d = 0) False (bit b (k - 1)) p)))
      else if sh = 0 then (rs(reg := rs reg), set_cc (bit (rs reg) 15) (rs reg = 0) False (bit p 0) p)
      else if 17 \<le> sh then (rs(reg := 0), set_cc False True (rs reg \<noteq> 0) False p)
      else (case ash_left sh b False (bit p 0) of (d, v, c) \<Rightarrow>
              (rs(reg := ucast d), set_cc (bit d 15) ((ucast d :: u16) = 0) v c p)))"

definition eis_ASHC :: "nat \<Rightarrow> u16 \<Rightarrow> (nat \<Rightarrow> u16) \<Rightarrow> u16 \<Rightarrow> (nat \<Rightarrow> u16) \<times> u16" where
  "eis_ASHC reg dr rs p =
     (let val = register_pair reg rs; sh = shift_count dr;
          (d, v, c) =
            (if 32 \<le> sh then
               (let k = 64 - sh; msk = (if bit val 31 then 0xffffffff else 0) :: u32 in
                if 32 \<le> k then (msk, False, msk \<noteq> 0)
                else (drop_bit k val OR push_bit (32 - k) msk, False, bit val (k - 1)))
             else ashc_left sh val False (bit p 0))
      in (if odd reg then rs(reg := ucast d)
          else rs(reg := ucast (drop_bit 16 d), reg + 1 := ucast d),
          set_cc (bit d 31) (d = 0) v c p))"

subsection \<open>Instructions\<close>

text \<open>The labels of \<^verbatim>\<open>step\<close>; \<^verbatim>\<open>RTI\<close> with the T bit set asks for the trace trap at once.\<close>

datatype ending34 = Serve | Serve_traced | Trap_to u16 | Bus_abort | Stop

definition svc34 :: "'e outcome \<Rightarrow> ending34 \<times> 'e kd11ea" where
  "svc34 x = (case x of Okay s \<Rightarrow> (Serve, s) | Abort s \<Rightarrow> (Bus_abort, s))"

definition is_byte34 :: "'e kd11ea \<Rightarrow> bool" where "is_byte34 s = bit (ir34 s) 15"
definition src_op34 :: "'e kd11ea \<Rightarrow> u16" where "src_op34 s = drop_bit 6 (ir34 s) AND 0x3f"
definition dst_op34 :: "'e kd11ea \<Rightarrow> u16" where "dst_op34 s = ir34 s AND 0x3f"

definition exec_MOV34 :: "'e cpu_bus \<Rightarrow> 'e kd11ea \<Rightarrow> ending34 \<times> 'e kd11ea" where
  "exec_MOV34 B s =
     (let by = is_byte34 s in
      svc34 (on_okay (RD_B34 B (src_op34 s) (dst_op34 s) by s)
        (\<lambda>s. let (b, c) = alu_MOV by (r34 s 8) (r34 s 9) (ucast (psw34 s)); s1 = s\<lparr>psw34 := with_cc (psw34 s) c\<rparr> in
             if is_register (dst_op34 s) then Okay (set_r34 (reg_no (dst_op34 s)) b s1)
             else writedest34 B b by s1)))"

definition exec_binary34 ::
    "'e cpu_bus \<Rightarrow> (bool \<Rightarrow> u16 \<Rightarrow> u16 \<Rightarrow> u8 \<Rightarrow> u16 \<times> u8) \<Rightarrow> bool \<Rightarrow> bool \<Rightarrow> 'e kd11ea \<Rightarrow> ending34 \<times> 'e kd11ea" where
  "exec_binary34 B alu wr by s =
     svc34 (on_okay (RD_B34 B (src_op34 s) (dst_op34 s) by s)
       (\<lambda>s. let (b, c) = alu by (r34 s 8) (r34 s 9) (ucast (psw34 s)); s1 = s\<lparr>psw34 := with_cc (psw34 s) c\<rparr> in
            if wr then writedest34 B b by s1 else Okay s1))"

definition exec_unary34 ::
    "'e cpu_bus \<Rightarrow> (bool \<Rightarrow> u16 \<Rightarrow> u8 \<Rightarrow> u16 \<times> u8) \<Rightarrow> bool \<Rightarrow> 'e kd11ea \<Rightarrow> ending34 \<times> 'e kd11ea" where
  "exec_unary34 B alu wr s =
     (let by = is_byte34 s in
      svc34 (on_okay (RD_U34 B (dst_op34 s) by s)
        (\<lambda>s. let (b, c) = alu by (r34 s 8) (ucast (psw34 s)); s1 = s\<lparr>psw34 := with_cc (psw34 s) c\<rparr> in
             if wr then writedest34 B b by s1 else Okay s1)))"

definition eis_reg :: "'e kd11ea \<Rightarrow> nat" where "eis_reg s = unat (drop_bit 6 (ir34 s) AND 7)"

definition exec_eis ::
    "'e cpu_bus \<Rightarrow> (nat \<Rightarrow> u16 \<Rightarrow> (nat \<Rightarrow> u16) \<Rightarrow> u16 \<Rightarrow> (nat \<Rightarrow> u16) \<times> u16) \<Rightarrow> 'e kd11ea \<Rightarrow> ending34 \<times> 'e kd11ea" where
  "exec_eis B f s =
     svc34 (on_okay (RD_U34 B (dst_op34 s) (is_byte34 s) s)
       (\<lambda>s. let (rs, p) = f (eis_reg s) (r34 s 9) (r34 s) (psw34 s) in Okay (s\<lparr>r34 := rs, psw34 := p\<rparr>)))"

definition exec_XOR :: "'e cpu_bus \<Rightarrow> 'e kd11ea \<Rightarrow> ending34 \<times> 'e kd11ea" where
  "exec_XOR B s =
     svc34 (on_okay (RD_U34 B (dst_op34 s) (is_byte34 s) s)
       (\<lambda>s. let b = r34 s 9 XOR r34 s (eis_reg s) in
            writedest34 B b (is_byte34 s) (s\<lparr>psw34 := with_cc (psw34 s) (setnz b (CLV (ucast (psw34 s))))\<rparr>)))"

definition exec_SOB :: "'e kd11ea \<Rightarrow> ending34 \<times> 'e kd11ea" where
  "exec_SOB s =
     (let b = r34 s (eis_reg s) - 1; s1 = set_r34 (eis_reg s) b s in
      (Serve, if b \<noteq> 0 then set_r34 7 (r34 s1 7 - push_bit 1 (ir34 s AND 0x3f)) s1 else s1))"

text \<open>The group 07xxxx.\<close>

definition exec_extended :: "'e cpu_bus \<Rightarrow> 'e kd11ea \<Rightarrow> ending34 \<times> 'e kd11ea" where
  "exec_extended B s =
     (let g = ir34 s AND 0xfe00 in
      if g = 0x7000 then exec_eis B eis_MUL s
      else if g = 0x7200 then exec_eis B eis_DIV s
      else if g = 0x7400 then exec_eis B eis_ASH s
      else if g = 0x7600 then exec_eis B eis_ASHC s
      else if g = 0x7800 then exec_XOR B s
      else if g = 0x7e00 then exec_SOB s
      else (Trap_to 8, s))"

text \<open>\<^verbatim>\<open>PUSH\<close>, \<^verbatim>\<open>POP\<close> and the cycles on explicit addresses.\<close>

definition PUSH34 :: "bool \<Rightarrow> 'e kd11ea \<Rightarrow> 'e kd11ea" where
  "PUSH34 inhov s =
     (let s1 = mark_dest False (set_r34 6 (r34 s 6 - 2) s) in
      if inhov then s1 else stack_limit (r34 s1 6) s1)"

definition POP34 :: "'e kd11ea \<Rightarrow> 'e kd11ea" where
  "POP34 s = autoinc_pending 6 2 (set_r34 6 (r34 s 6 + 2) (s\<lparr>ba34 := r34 s 6\<rparr>))"

definition OUT34 :: "'e cpu_bus \<Rightarrow> u16 \<Rightarrow> u16 \<Rightarrow> 'e kd11ea \<Rightarrow> 'e outcome" where
  "OUT34 B a d s = dato34 B False (s\<lparr>ba34 := a, bdata34 := d\<rparr>)"

definition INA34 :: "'e cpu_bus \<Rightarrow> u16 \<Rightarrow> 'e kd11ea \<Rightarrow> 'e outcome" where
  "INA34 B a s = dati34 B False (s\<lparr>ba34 := a\<rparr>)"

definition exec_MARK :: "'e cpu_bus \<Rightarrow> 'e kd11ea \<Rightarrow> ending34 \<times> 'e kd11ea" where
  "exec_MARK B s =
     (let s1 = set_r34 6 (r34 s 7 + 2 * (ir34 s AND 0x3f)) s;
          s2 = POP34 (set_r34 7 (r34 s1 5) s1) in
      svc34 (on_okay (dati34 B False s2) (\<lambda>s. Okay (set_r34 5 (bdata34 s) s))))"

definition exec_MTPS :: "'e cpu_bus \<Rightarrow> 'e kd11ea \<Rightarrow> ending34 \<times> 'e kd11ea" where
  "exec_MTPS B s =
     svc34 (on_okay (RD_U34 B (dst_op34 s) (is_byte34 s) s) (\<lambda>s.
       let b = r34 s 9 AND (0xff AND NOT PSW_T34);
           b' = (if \<not> IS_KERNEL s then (b AND NOT PSW_PR) OR (psw34 s AND PSW_PR) else b) in
       Okay (kd11ea_set_psw B ((psw34 s AND (0xff00 OR PSW_T34)) OR b') s)))"

text \<open>The stack pointer of the previous mode when it is not the active one.\<close>

definition other_stack :: "u16 \<Rightarrow> 'e kd11ea \<Rightarrow> bool" where
  "other_stack m s \<longleftrightarrow> reg_no m = 6 \<and> prev_space (mmu s) \<noteq> space (mmu s)"

definition prev_stack :: "'e kd11ea \<Rightarrow> nat" where
  "prev_stack s = (if prev_space (mmu s) = KT11D_SPACE_KERNEL then KD11EA_SP_KERNEL else KD11EA_SP_USER)"

definition SPACE_PREV :: "'e kd11ea \<Rightarrow> 'e kd11ea" where
  "SPACE_PREV s = s\<lparr>mmu := kt11d_set_access (prev_space (mmu s)) (prev_mode (mmu s)) (mmu s)\<rparr>"

definition SPACE_KERNEL :: "'e kd11ea \<Rightarrow> 'e kd11ea" where
  "SPACE_KERNEL s = s\<lparr>mmu := kt11d_set_access KT11D_SPACE_KERNEL KT11D_MODE_KERNEL (mmu s)\<rparr>"

definition SPACE_RESTORE :: "'e kd11ea \<Rightarrow> 'e kd11ea" where
  "SPACE_RESTORE s = s\<lparr>mmu := kt11d_set_access (space (mmu s)) (mode (mmu s)) (mmu s)\<rparr>"

definition restored :: "'e outcome \<Rightarrow> 'e outcome" where
  "restored x = (case x of Okay s \<Rightarrow> Okay (SPACE_RESTORE s) | Abort s \<Rightarrow> Abort (SPACE_RESTORE s))"

definition set_nz34 :: "u16 \<Rightarrow> 'e kd11ea \<Rightarrow> 'e kd11ea" where
  "set_nz34 b s = s\<lparr>psw34 := with_cc (psw34 s) (setnz b (CLV (ucast (psw34 s))))\<rparr>"

definition exec_MFPI :: "'e cpu_bus \<Rightarrow> 'e kd11ea \<Rightarrow> ending34 \<times> 'e kd11ea" where
  "exec_MFPI B s =
     svc34 (on_okay
       (if is_register (dst_op34 s)
        then Okay (s\<lparr>bdata34 := (if other_stack (dst_op34 s) s then stackpointer s (prev_stack s)
                                else r34 s (reg_no (dst_op34 s)))\<rparr>)
        else on_okay (addrdest B (dst_op34 s) False s) (\<lambda>s. restored (dati34 B False (SPACE_PREV s))))
       (\<lambda>s. let b = bdata34 s; s1 = PUSH34 False (set_nz34 b s) in OUT34 B (r34 s1 6) b s1))"

definition exec_MTPI :: "'e cpu_bus \<Rightarrow> 'e kd11ea \<Rightarrow> ending34 \<times> 'e kd11ea" where
  "exec_MTPI B s =
     svc34 (on_okay (dati34 B False (POP34 s)) (\<lambda>s.
       let b = bdata34 s; s1 = set_nz34 b s; m = dst_op34 s1 in
       if is_register m
       then Okay (if other_stack m s1 then s1\<lparr>stackpointer := (stackpointer s1)(prev_stack s1 := b)\<rparr>
                  else set_r34 (reg_no m) b s1)
       else on_okay (addrdest B m False s1)
              (\<lambda>s. restored (dato34 B False (SPACE_PREV (s\<lparr>bdata34 := b\<rparr>))))))"

definition dest_or_register :: "'e cpu_bus \<Rightarrow> bool \<Rightarrow> ('e kd11ea \<Rightarrow> u16) \<Rightarrow> 'e kd11ea \<Rightarrow> ending34 \<times> 'e kd11ea" where
  "dest_or_register B by f s =
     svc34 (on_okay (if is_register (dst_op34 s) then Okay s else addrdest B (dst_op34 s) by s) (\<lambda>s.
       let b = f s; s1 = set_nz34 b s in
       if is_register (dst_op34 s1) then Okay (set_r34 (reg_no (dst_op34 s1)) b s1)
       else writedest34 B b by s1))"

definition exec_SXT :: "'e cpu_bus \<Rightarrow> 'e kd11ea \<Rightarrow> ending34 \<times> 'e kd11ea" where
  "exec_SXT B s = dest_or_register B False (\<lambda>s. if bit (psw34 s) 3 then 0xffff else 0) s"

definition exec_MFPS :: "'e cpu_bus \<Rightarrow> 'e kd11ea \<Rightarrow> ending34 \<times> 'e kd11ea" where
  "exec_MFPS B s = dest_or_register B True (\<lambda>s. sxt (psw34 s AND 0xff)) s"

definition exec_JSR34 :: "'e cpu_bus \<Rightarrow> 'e kd11ea \<Rightarrow> ending34 \<times> 'e kd11ea" where
  "exec_JSR34 B s =
     (let sf = reg_no (src_op34 s) in
      if is_register (dst_op34 s) then (Trap_to 4, s)
      else svc34 (on_okay (addrdest B (dst_op34 s) False s) (\<lambda>s.
           let s1 = PUSH34 False (set_r34 9 (ba34 s) s) in
           on_okay (OUT34 B (r34 s1 6) (r34 s1 sf) s1) (\<lambda>s.
           let s2 = set_r34 sf (r34 s 7) s in Okay (set_r34 7 (r34 s2 9) s2)))))"

definition exec_JMP34 :: "'e cpu_bus \<Rightarrow> 'e kd11ea \<Rightarrow> ending34 \<times> 'e kd11ea" where
  "exec_JMP34 B s =
     (if is_register (dst_op34 s) then (Trap_to 4, s)
      else svc34 (on_okay (addrdest B (dst_op34 s) False s) (\<lambda>s. Okay (set_r34 7 (ba34 s) s))))"

definition exec_RTS34 :: "'e cpu_bus \<Rightarrow> 'e kd11ea \<Rightarrow> ending34 \<times> 'e kd11ea" where
  "exec_RTS34 B s =
     (let df = reg_no (dst_op34 s); s1 = POP34 s; s2 = set_r34 7 (r34 s1 df) s1 in
      svc34 (on_okay (dati34 B False s2) (\<lambda>s. Okay (set_r34 df (bdata34 s) s))))"

definition exec_SWAB34 :: "'e cpu_bus \<Rightarrow> 'e kd11ea \<Rightarrow> ending34 \<times> 'e kd11ea" where
  "exec_SWAB34 B s =
     (let by = is_byte34 s in
      svc34 (on_okay (RD_U34 B (dst_op34 s) by s) (\<lambda>s.
        let (b, c) = alu_SWAB True (r34 s 9) (ucast (psw34 s)) in
        writedest34 B b by (s\<lparr>psw34 := with_cc (psw34 s) c\<rparr>))))"

definition exec_branch34 :: "'e kd11ea \<Rightarrow> ending34 \<times> 'e kd11ea" where
  "exec_branch34 s =
     (Serve, if bit (branch_mask (ir34 s AND 0x8700)) (unat (psw34 s AND 0xf))
        then set_r34 7 (r34 s 7 + push_bit 1 (sxt (ir34 s))) s else s)"

text \<open>\<^verbatim>\<open>RTI\<close> and \<^verbatim>\<open>RTT\<close>: outside kernel mode the mode fields and the priority stay.\<close>

definition returned_psw :: "u16 \<Rightarrow> 'e kd11ea \<Rightarrow> u16" where
  "returned_psw b s =
     (if \<not> IS_KERNEL s then (b AND NOT (0xf000 OR PSW_PR)) OR (psw34 s AND (0xf000 OR PSW_PR)) else b)"

definition exec_RTI34 :: "'e cpu_bus \<Rightarrow> 'e kd11ea \<Rightarrow> ending34 \<times> 'e kd11ea" where
  "exec_RTI34 B s =
     (case on_okay (dati34 B False (POP34 s)) (\<lambda>s. dati34 B False (POP34 (set_r34 7 (bdata34 s) s))) of
        Okay s \<Rightarrow>
          (let b = returned_psw (bdata34 s) s in
           (if ir34 s = 2 \<and> b AND PSW_T34 \<noteq> 0 then Serve_traced else Serve, kd11ea_set_psw B b s))
      | Abort s \<Rightarrow> (Bus_abort, s))"

definition exec_operate34 :: "'e cpu_bus \<Rightarrow> 'e kd11ea \<Rightarrow> ending34 \<times> 'e kd11ea" where
  "exec_operate34 B s =
     (if ir34 s = 0 then
        (if \<not> IS_KERNEL s then (Trap_to 8, s) else (Stop, s\<lparr>state34 := KD11EA_STATE_HALTED\<rparr>))
      else if ir34 s = 1 then (Stop, s\<lparr>state34 := KD11EA_STATE_WAITING\<rparr>)
      else if ir34 s = 2 \<or> ir34 s = 6 then exec_RTI34 B s
      else if ir34 s = 3 then (Trap_to 0xc, s)
      else if ir34 s = 4 then (Trap_to 0x10, s)
      else if ir34 s = 5 then
        (Serve, if IS_KERNEL s then (let s1 = kd11ea_reset s in s1\<lparr>env34 := unibone_bus_init B (env34 s1)\<rparr>) else s)
      else (Trap_to 8, s))"

definition exec_misc34 :: "'e cpu_bus \<Rightarrow> 'e kd11ea \<Rightarrow> ending34 \<times> 'e kd11ea" where
  "exec_misc34 B s =
     (let g = ir34 s AND 0xfec0; h = ir34 s AND 0x38 in
      if g = 0x40 then exec_JMP34 B s
      else if g = 0x80 then
        (if h = 0 then exec_RTS34 B s
         else if h = 8 \<or> h = 0x10 \<or> h = 0x18 then (Trap_to 8, s)
         else if h = 0x20 \<or> h = 0x28 then (Serve, s\<lparr>psw34 := psw34 s AND NOT (ir34 s AND 0xf)\<rparr>)
         else (Serve, s\<lparr>psw34 := psw34 s OR (ir34 s AND 0xf)\<rparr>))
      else if g = 0xc0 then exec_SWAB34 B s
      else exec_operate34 B s)"

definition exec_program_control34 :: "'e cpu_bus \<Rightarrow> 'e kd11ea \<Rightarrow> ending34 \<times> 'e kd11ea" where
  "exec_program_control34 B s =
     (let g = ir34 s AND 0x8f00 in
      if g = 0x800 \<or> g = 0x900 then exec_JSR34 B s
      else if g = 0x8800 then (Trap_to 0x18, s)
      else if g = 0x8900 then (Trap_to 0x1c, s)
      else if ir34 s AND 0x7800 = 0 \<and> ir34 s AND 0x8700 \<noteq> 0 then exec_branch34 s
      else exec_misc34 B s)"

definition exec_unary_group34 :: "'e cpu_bus \<Rightarrow> 'e kd11ea \<Rightarrow> ending34 \<times> 'e kd11ea" where
  "exec_unary_group34 B s =
     (let g = ir34 s AND 0xfc0 in
      case unary_op g of
        Some (alu, wr) \<Rightarrow> exec_unary34 B alu wr s
      | None \<Rightarrow>
          if g = 0xd00 then (if is_byte34 s then exec_MTPS B s else exec_MARK B s)
          else if g = 0xd40 then exec_MFPI B s
          else if g = 0xd80 then exec_MTPI B s
          else if g = 0xdc0 then (if is_byte34 s then exec_MFPS B s else exec_SXT B s)
          else exec_program_control34 B s)"

definition execute34 :: "'e cpu_bus \<Rightarrow> 'e kd11ea \<Rightarrow> ending34 \<times> 'e kd11ea" where
  "execute34 B s =
     (let g = ir34 s AND 0xf000; by = is_byte34 s in
      if g = 0x9000 \<or> g = 0x1000 then exec_MOV34 B s
      else if g = 0xa000 \<or> g = 0x2000 then exec_binary34 B alu_CMP False by s
      else if g = 0xb000 \<or> g = 0x3000 then exec_binary34 B alu_BIT False by s
      else if g = 0xc000 \<or> g = 0x4000 then exec_binary34 B alu_BIC True by s
      else if g = 0xd000 \<or> g = 0x5000 then exec_binary34 B alu_BIS True by s
      else if g = 0x6000 then exec_binary34 B alu_ADD True False s
      else if g = 0xe000 then exec_binary34 B alu_SUB True False s
      else if g = 0xf000 then (Trap_to 8, s)
      else if g = 0x7000 then exec_extended B s
      else exec_unary_group34 B s)"

subsection \<open>Traps and the step\<close>

text \<open>
  The trap sequence: the vector is read in kernel space before the mode changes; the old PSW and PC
  are pushed on the stack of the new mode.
\<close>

definition trap_psw :: "u16 \<Rightarrow> u16 \<Rightarrow> u16" where
  "trap_psw new old = (new AND NOT 0x3000) OR (drop_bit 2 old AND 0x3000)"

definition trap_entry34 :: "'e cpu_bus \<Rightarrow> bool \<Rightarrow> u16 \<Rightarrow> 'e kd11ea \<Rightarrow> 'e outcome" where
  "trap_entry34 B inhov v s =
     (let s = mark_dest False (set_r34 10 v s); old_pc = r34 s 7; old_psw = psw34 s in
      on_okay (INA34 B (r34 s 10) (SPACE_KERNEL s)) (\<lambda>s.
      let new_pc = bdata34 s in
      on_okay (INA34 B (r34 s 10 + 2) s) (\<lambda>s.
      let s1 = PUSH34 inhov (kd11ea_set_psw B (trap_psw (bdata34 s) old_psw) (SPACE_RESTORE s)) in
      on_okay (OUT34 B (r34 s1 6) old_psw s1) (\<lambda>s.
      let s2 = PUSH34 inhov s in
      on_okay (OUT34 B (r34 s2 6) old_pc s2) (\<lambda>s.
      Okay (set_r34 7 new_pc s))))))"

text \<open>
  \<^verbatim>\<open>trap\<close>, \<^verbatim>\<open>be\<close> within a trap sequence, and \<^verbatim>\<open>service\<close> after it; \<^theory_text>\<open>None\<close> if that never ends.
\<close>

partial_function (option) run_trap34 :: "'e cpu_bus \<Rightarrow> bool \<Rightarrow> u16 \<Rightarrow> 'e kd11ea \<Rightarrow> 'e kd11ea option" where
  "run_trap34 B inhov v s =
     (case trap_entry34 B inhov v s of
        Okay t \<Rightarrow>
          if psw34 t AND PSW_T34 \<noteq> 0 then run_trap34 B inhov 0xc t
          else if traps34 t AND TRAP_STACK \<noteq> 0 then run_trap34 B True 4 (t\<lparr>traps34 := traps34 t AND NOT TRAP_STACK\<rparr>)
          else if traps34 t AND TRAP_PWR \<noteq> 0 then run_trap34 B inhov 0x14 (t\<lparr>traps34 := traps34 t AND NOT TRAP_PWR\<rparr>)
          else Some t
      | Abort t \<Rightarrow>
          if 1 < be34 t then Some (t\<lparr>state34 := KD11EA_STATE_HALTED\<rparr>) else run_trap34 B inhov (trap_vector t) t)"

definition run_service34 :: "'e cpu_bus \<Rightarrow> u16 \<Rightarrow> 'e kd11ea \<Rightarrow> 'e kd11ea option" where
  "run_service34 B oldpsw s =
     (if oldpsw AND PSW_T34 \<noteq> 0 then run_trap34 B False 0xc s
      else if traps34 s AND TRAP_STACK \<noteq> 0 then run_trap34 B True 4 (s\<lparr>traps34 := traps34 s AND NOT TRAP_STACK\<rparr>)
      else if traps34 s AND TRAP_PWR \<noteq> 0 then run_trap34 B False 0x14 (s\<lparr>traps34 := traps34 s AND NOT TRAP_PWR\<rparr>)
      else Some s)"

text \<open>An instruction that was aborted leaves the condition codes it found.\<close>

definition run_abort34 :: "'e cpu_bus \<Rightarrow> u16 \<Rightarrow> 'e kd11ea \<Rightarrow> 'e kd11ea option" where
  "run_abort34 B oldpsw s =
     (if 1 < be34 s then Some (s\<lparr>state34 := KD11EA_STATE_HALTED\<rparr>)
      else run_trap34 B False (trap_vector s) (s\<lparr>psw34 := (psw34 s AND NOT 0xf) OR (oldpsw AND 0xf)\<rparr>))"

definition run_ending34 :: "'e cpu_bus \<Rightarrow> u16 \<Rightarrow> ending34 \<times> 'e kd11ea \<Rightarrow> 'e kd11ea option" where
  "run_ending34 B oldpsw x =
     (case x of (Serve, s) \<Rightarrow> run_service34 B oldpsw s
      | (Serve_traced, s) \<Rightarrow> run_service34 B (oldpsw OR PSW_T34) s
      | (Trap_to v, s) \<Rightarrow> run_trap34 B False v s
      | (Bus_abort, s) \<Rightarrow> run_abort34 B oldpsw s
      | (Stop, s) \<Rightarrow> Some s)"

definition start_instruction :: "'e kd11ea \<Rightarrow> 'e kd11ea" where
  "start_instruction s =
     autoinc_commit (mark_dest False (s\<lparr>mmu := kt11d_instruction_start (mmu s)\<rparr>))"

definition fetched34 :: "'e kd11ea \<Rightarrow> 'e kd11ea" where
  "fetched34 s =
     (let s1 = s\<lparr>ir34 := bdata34 s, mmu := kt11d_instruction_fetched (r34 s 7) (mmu s)\<rparr>
      in set_r34 7 (r34 s1 7 + 2) s1)"

definition step34 :: "'e cpu_bus \<Rightarrow> 'e kd11ea \<Rightarrow> 'e kd11ea option" where
  "step34 B s =
     (if intr34 s
      then run_trap34 B False (intrvec34 s) (s\<lparr>intr34 := False, state34 := KD11EA_STATE_RUNNING\<rparr>)
      else case INA34 B (r34 s 7) (start_instruction s) of
        Abort t \<Rightarrow> run_abort34 B (psw34 s) t
      | Okay t \<Rightarrow> run_ending34 B (psw34 s) (execute34 B (fetched34 t)))"

definition kd11ea_condstep :: "'e cpu_bus \<Rightarrow> 'e kd11ea \<Rightarrow> 'e kd11ea option" where
  "kd11ea_condstep B s =
     (let s1 = (if state34 s = KD11EA_STATE_RUNNING \<or> state34 s = KD11EA_STATE_WAITING
                then s\<lparr>env34 := unibone_grant_interrupts B (env34 s)\<rparr> else s) in
      if state34 s1 = KD11EA_STATE_RUNNING \<or> (state34 s1 = KD11EA_STATE_WAITING \<and> traps34 s1 \<noteq> 0) \<or>
         (state34 s1 = KD11EA_STATE_WAITING \<and> intr34 s1)
      then step34 B (s1\<lparr>state34 := KD11EA_STATE_RUNNING\<rparr>) else Some s1)"

definition kd11ea_setintr :: "u16 \<Rightarrow> 'e kd11ea \<Rightarrow> 'e kd11ea" where
  "kd11ea_setintr vec s = s\<lparr>intr34 := True, intrvec34 := vec\<rparr>"

definition kd11ea_pwrfail_trap :: "'e kd11ea \<Rightarrow> 'e kd11ea" where
  "kd11ea_pwrfail_trap s = s\<lparr>traps34 := traps34 s OR TRAP_PWR\<rparr>"

definition kd11ea_pwrup_vector_fetch :: "'e cpu_bus \<Rightarrow> 'e kd11ea \<Rightarrow> 'e kd11ea" where
  "kd11ea_pwrup_vector_fetch B s =
     (case on_okay (INA34 B 0x14 s) (\<lambda>s.
           on_okay (INA34 B 0x16 (set_r34 7 (bdata34 s) s)) (\<lambda>s. Okay (kd11ea_set_psw B (bdata34 s) s))) of
        Okay s \<Rightarrow> s | Abort s \<Rightarrow> s\<lparr>be34 := Suc (be34 s)\<rparr>)"

end
