(* ===== verification/KD11EA_Arith.thy ===== *)
theory KD11EA_Arith
  imports KD11EA Signed_Words
begin

text \<open>
  The extended arithmetic of the 11/34 against integer arithmetic: products, quotients and the
  two arithmetic shifts, with their condition codes.
\<close>

subsection \<open>Condition codes and register pairs\<close>

lemma cc_bits_bit: "bit (cc_bits n z v c) i \<longleftrightarrow> (i = 3 \<and> n) \<or> (i = 2 \<and> z) \<or> (i = 1 \<and> v) \<or> (i = 0 \<and> c)"
proof -
  have b: "bit (8 :: u16) i \<longleftrightarrow> i = 3" "bit (4 :: u16) i \<longleftrightarrow> i = 2" "bit (2 :: u16) i \<longleftrightarrow> i = 1"
  proof -
    have e: "(8 :: u16) = push_bit 3 1" "(4 :: u16) = push_bit 2 1" "(2 :: u16) = push_bit 1 1" by simp_all
    show "bit (8 :: u16) i \<longleftrightarrow> i = 3" unfolding e(1) bit_push_bit_iff bit_1_iff by auto
    show "bit (4 :: u16) i \<longleftrightarrow> i = 2" unfolding e(2) bit_push_bit_iff bit_1_iff by auto
    show "bit (2 :: u16) i \<longleftrightarrow> i = 1" unfolding e(3) bit_push_bit_iff bit_1_iff by auto
  qed
  show ?thesis
    unfolding cc_bits_def bit_or_iff
    by (cases n; cases z; cases v; cases c) (auto simp only: if_True if_False b bit_0_eq bit_1_iff bot_fun_def bot_bool_def)
qed

lemma set_cc_bits [simp]:
  "bit (set_cc n z v c p) 3 = n" "bit (set_cc n z v c p) 2 = z" "bit (set_cc n z v c p) 1 = v" "bit (set_cc n z v c p) 0 = c"
  "set_cc n z v c p AND NOT 0xf = p AND NOT 0xf"
proof -
  have f: "(0xf :: u16) = mask 4" by (simp add: mask_eq_exp_minus_1)
  have m: "bit (0xf :: u16) i \<longleftrightarrow> i < 4" for i unfolding f bit_mask_iff by auto
  show "bit (set_cc n z v c p) 3 = n" "bit (set_cc n z v c p) 2 = z" "bit (set_cc n z v c p) 1 = v" "bit (set_cc n z v c p) 0 = c"
    unfolding set_cc_def bit_or_iff bit_and_iff bit_not_iff m cc_bits_bit by simp_all
  show "set_cc n z v c p AND NOT 0xf = p AND NOT 0xf"
    by (rule bit_word_eqI) (unfold set_cc_def bit_or_iff bit_and_iff bit_not_iff m cc_bits_bit, auto)
qed

lemmas set_cc_bits_simplified [simp] = set_cc_bits [simplified]

lemma pair_of_halves: "push_bit 16 (ucast (ucast (drop_bit 16 t) :: u16)) OR ucast (ucast t :: u16) = (t :: u32)"
  by (rule bit_word_eqI) (auto simp: bit_simps)

lemma register_pair_even:
  "even reg \<Longrightarrow> register_pair reg (rs(reg := ucast (drop_bit 16 t), reg + 1 := ucast t)) = t"
  using pair_of_halves [of t] by (simp add: register_pair_def)

lemma register_pair_even':
  "even reg \<Longrightarrow> register_pair reg (rs(reg + 1 := ucast t, reg := ucast (drop_bit 16 t))) = t"
  using pair_of_halves [of t] by (simp add: register_pair_def)

subsection \<open>Multiplication and division\<close>

lemma sint_scast_16: "sint (scast (a :: u16) :: u32) = sint a"
  by (simp add: sint_up_scast is_up)

lemma sint_scast_mult: "sint (scast (a :: u16) * scast (b :: u16) :: u32) = sint a * sint b"
proof -
  have "\<bar>sint a\<bar> \<le> 32768" "\<bar>sint b\<bar> \<le> 32768" using sint_bounds_16 [of a] sint_bounds_16 [of b] by auto
  then have "\<bar>sint a * sint b\<bar> \<le> 32768 * 32768" unfolding abs_mult by (intro mult_mono) auto
  then show ?thesis
    by (simp add: sint_word_mult sint_scast_16 signed_take_bit_int_eq_self abs_le_iff)
qed

lemma sint_zero_iff: "sint (w :: u32) = 0 \<longleftrightarrow> w = 0"
proof
  assume "sint w = 0"
  then have "(of_int (sint w) :: u32) = 0" by (simp only: of_int_0)
  then show "w = 0" by simp
qed simp

text \<open>
  \<^verbatim>\<open>MUL\<close> of the 11/34 multiplies two signed words: for an even register the pair holds the exact
  product, for an odd one its low half; N and Z describe the product, V is clear, and C
  tells that the product does not fit a word.
\<close>

theorem MUL_multiplies:
  "case eis_MUL reg dr rs p of (rs', p') \<Rightarrow>
     (even reg \<longrightarrow> sint (register_pair reg rs') = sint (rs reg) * sint dr) \<and>
     (odd reg \<longrightarrow> rs' = rs(reg := of_int (sint (rs reg) * sint dr))) \<and>
     (bit p' 3 \<longleftrightarrow> sint (rs reg) * sint dr < 0) \<and> (bit p' 2 \<longleftrightarrow> sint (rs reg) * sint dr = 0) \<and> \<not> bit p' 1 \<and>
     (bit p' 0 \<longleftrightarrow> sint (of_int (sint (rs reg) * sint dr) :: u16) \<noteq> sint (rs reg) * sint dr) \<and>
     p' AND NOT 0xf = p AND NOT 0xf"
proof -
  let ?w = "scast dr * scast (rs reg) :: u32" and ?x = "sint (rs reg) * sint dr"
  have s: "sint ?w = ?x" by (simp add: sint_scast_mult mult.commute)
  have neg: "bit ?w 31 \<longleftrightarrow> ?x < 0" by (simp add: sign_sint_32 s)
  have zero: "?w = 0 \<longleftrightarrow> ?x = 0" using sint_zero_iff [of ?w] s by metis
  have low: "(ucast ?w :: u16) = of_int ?x"
  proof -
    have "(ucast ?w :: u16) = scast ?w" by (rule bit_word_eqI) (simp add: bit_simps min_def)
    then have "(ucast ?w :: u16) = of_int (sint ?w)" by simp
    then show ?thesis unfolding s .
  qed
  have fit: "(sint ?w < - 32768 \<or> 32767 < sint ?w) \<longleftrightarrow> sint (of_int ?x :: u16) \<noteq> ?x"
    unfolding s using sint_in_range_16 [of ?x] sint_bounds_16 [of "of_int ?x :: u16"] by linarith
  show ?thesis
    unfolding eis_MUL_def Let_def neg zero fit low [symmetric]
    using register_pair_even' [of reg rs ?w] s by (auto simp: add.commute)
qed

text \<open>
  Property C40. \<^verbatim>\<open>DIV\<close> of the 11/34 divides the register pair: a zero divisor sets V and C and leaves the
  registers; otherwise, if the truncated quotient fits a word, the even register of the pair gets it
  and the odd one the remainder, and V and C are clear; if not, V is set and the registers stay.
\<close>

theorem DIV_divides:
  assumes "even reg"
  shows "case eis_DIV reg dr rs p of (rs', p') \<Rightarrow>
     let a = sint (register_pair reg rs); d = sint dr in
     (dr = 0 \<longrightarrow> rs' = rs \<and> bit p' 1 \<and> bit p' 0) \<and>
     (dr \<noteq> 0 \<and> - 32768 \<le> a sdiv d \<and> a sdiv d \<le> 32767 \<longrightarrow>
        a = sint (rs' reg) * d + sint (rs' (reg + 1)) \<and> \<bar>sint (rs' (reg + 1))\<bar> < \<bar>d\<bar> \<and>
        sint (rs' reg) = a sdiv d \<and> (\<forall>i. i \<noteq> reg \<and> i \<noteq> reg + 1 \<longrightarrow> rs' i = rs i) \<and>
        (bit p' 3 \<longleftrightarrow> a sdiv d < 0) \<and> (bit p' 2 \<longleftrightarrow> a sdiv d = 0) \<and> \<not> bit p' 1 \<and> \<not> bit p' 0) \<and>
     (dr \<noteq> 0 \<and> \<not> (- 32768 \<le> a sdiv d \<and> a sdiv d \<le> 32767) \<longrightarrow> rs' = rs \<and> bit p' 1 \<and> \<not> bit p' 0)"
proof (cases "dr = 0")
  case True
  then show ?thesis by (simp add: eis_DIV_def Let_def)
next
  case False
  define a d q m where "a = sint (register_pair reg rs)" and "d = sint dr" and "q = a sdiv d" and "m = a smod d"
  have d0: "d \<noteq> 0"
  proof
    assume "d = 0"
    then have "(of_int (sint dr) :: u16) = 0" by (simp only: d_def of_int_0)
    then show False using False by simp
  qed
  have m: "\<bar>m\<bar> < \<bar>d\<bar>" using d0 by (simp add: m_def signed_modulo_int_def abs_mult)
  have id: "a = q * d + m" unfolding q_def m_def by (rule sdiv_mult_smod_eq [symmetric])
  have e: "eis_DIV reg dr rs p =
      (if - 32768 \<le> q \<and> q \<le> 32767 then rs(reg := of_int q, reg + 1 := of_int m) else rs,
       set_cc (sgn_bit (of_int q)) (of_int q = (0 :: u16)) (\<not> (- 32768 \<le> q \<and> q \<le> 32767)) False p)"
    using False assms by (simp only: eis_DIV_def Let_def if_False if_True not_True_eq_False a_def d_def q_def m_def)
  have ne: "reg \<noteq> reg + 1" by simp
  have sm: "sint (of_int m :: u16) = m"
    using m sint_bounds_16 [of dr] unfolding d_def [symmetric] by (intro sint_in_range_16) linarith+
  have fits: "sint (of_int q :: u16) = q" if "- 32768 \<le> q \<and> q \<le> 32767"
    using that by (intro sint_in_range_16) auto
  then have z: "(of_int q :: u16) = 0 \<longleftrightarrow> q = 0" if "- 32768 \<le> q \<and> q \<le> 32767"
    using that by (metis of_int_0 sint_0)
  have n: "bit (of_int q :: u16) 15 \<longleftrightarrow> q < 0" if "- 32768 \<le> q \<and> q \<le> 32767"
    by (simp only: sign_sint_16 fits [OF that])
  have regs: "(rs(reg := of_int q, reg + 1 := of_int m)) reg = of_int q"
    "(rs(reg := of_int q, reg + 1 := of_int m)) (reg + 1) = of_int m"
    "\<forall>i. i \<noteq> reg \<and> i \<noteq> reg + 1 \<longrightarrow> (rs(reg := of_int q, reg + 1 := of_int m)) i = rs i" by simp_all
  show ?thesis
    unfolding e prod.case Let_def a_def [symmetric] d_def [symmetric] q_def [symmetric] m_def [symmetric]
    using False by (cases "- 32768 \<le> q \<and> q \<le> 32767",
      simp_all only: if_True if_False simp_thms regs sm fits z n m sgn_bit_def set_cc_bits id [symmetric], simp)
qed

theorem DIV_divides_witness:
  "case eis_DIV 0 3 ((\<lambda>_. 0)(1 := 17)) 0 of (rs', p') \<Rightarrow> sint (rs' 0) = 5 \<and> sint (rs' 1) = 2"
proof -
  define rs :: "nat \<Rightarrow> u16" where "rs = (\<lambda>_. 0)(1 := 17)"
  obtain rs' p' where e: "eis_DIV 0 3 rs 0 = (rs', p')" by (cases "eis_DIV 0 3 rs 0")
  have p: "sint (register_pair 0 rs) = 17" by (simp add: register_pair_def rs_def)
  have d: "sint (3 :: u16) = 3" by simp
  have q: "(17 :: int) sdiv 3 = 5" by (simp add: signed_divide_int_def)
  have "(17 :: int) = sint (rs' 0) * 3 + sint (rs' (0 + 1)) \<and> sint (rs' 0) = 5"
    using DIV_divides [where reg = 0 and dr = 3 and rs = rs and p = 0]
    unfolding e prod.case Let_def p d q by simp
  then show ?thesis unfolding rs_def [symmetric] e prod.case by simp
qed

subsection \<open>Shifts\<close>

lemma ashc_left_bits:
  assumes "n \<le> 31"
  shows "ashc_left n t v c =
    (push_bit n t, v \<or> \<not> (\<forall>i. 31 - n \<le> i \<and> i < 32 \<longrightarrow> bit t i = bit t 31),
     if n = 0 then c else bit t (32 - n))"
  using assms
proof (induction n arbitrary: t v c)
  case 0
  have all: "(\<forall>i. 31 - 0 \<le> i \<and> i < 32 \<longrightarrow> bit t i = bit t 31) = True"
    unfolding eq_True
  proof (intro allI impI)
    fix i :: nat assume "31 - 0 \<le> i \<and> i < 32"
    then have "i = 31" by linarith
    then show "bit t i = bit t 31" by simp
  qed
  show ?case by (simp only: all ashc_left.simps push_bit_0_id id_apply if_True simp_thms)
next
  case (Suc n)
  define u where "u = push_bit 1 t"
  have b: "bit u i \<longleftrightarrow> i < 32 \<and> 0 < i \<and> bit t (i - 1)" for i
    unfolding u_def bit_push_bit_iff by (auto simp: Suc_le_eq dest: bit_imp_le_length)
  have x: "bit (t XOR u) 31 \<longleftrightarrow> bit t 31 \<noteq> bit t 30" by (simp add: bit_xor_iff b)
  have all: "(\<forall>i. 31 - Suc n \<le> i \<and> i < 32 \<longrightarrow> bit t i = bit t 31) \<longleftrightarrow>
      bit t 31 = bit t 30 \<and> (\<forall>i. 31 - n \<le> i \<and> i < 32 \<longrightarrow> bit u i = bit u 31)"
  proof (rule iffI)
    assume a: "\<forall>i. 31 - Suc n \<le> i \<and> i < 32 \<longrightarrow> bit t i = bit t 31"
    have e: "bit t 31 = bit t 30" using a [rule_format, of 30] by simp
    have "bit u i = bit u 31" if i: "31 - n \<le> i \<and> i < 32" for i
    proof -
      have "31 - Suc n \<le> i - 1 \<and> i - 1 < 32" "0 < i" using i Suc.prems by linarith+
      then show ?thesis using a [rule_format, of "i - 1"] i e by (simp add: b)
    qed
    with e show "bit t 31 = bit t 30 \<and> (\<forall>i. 31 - n \<le> i \<and> i < 32 \<longrightarrow> bit u i = bit u 31)" by blast
  next
    assume a: "bit t 31 = bit t 30 \<and> (\<forall>i. 31 - n \<le> i \<and> i < 32 \<longrightarrow> bit u i = bit u 31)"
    show "\<forall>i. 31 - Suc n \<le> i \<and> i < 32 \<longrightarrow> bit t i = bit t 31"
    proof (intro allI impI)
      fix i assume i: "31 - Suc n \<le> i \<and> i < 32"
      show "bit t i = bit t 31"
      proof (cases "i = 31")
        case False
        then have "31 - n \<le> i + 1 \<and> i + 1 < 32" using i by linarith
        from a [THEN conjunct2, rule_format, OF this] show ?thesis
          using a [THEN conjunct1] False i by (simp add: b)
      qed simp
    qed
  qed
  have carry: "(if n = 0 then bit t 31 else bit u (32 - n)) = bit t (32 - Suc n)"
  proof (cases "n = 0")
    case False
    then have "32 - n < 32" "0 < 32 - n" "32 - n - 1 = 32 - Suc n" using Suc.prems by linarith+
    then show ?thesis using False by (simp only: b if_False simp_thms)
  qed simp
  have p: "push_bit n u = push_bit (Suc n) t" unfolding u_def push_bit_push_bit by simp
  have IH: "ashc_left n u (v \<or> bit (t XOR u) 31) (bit t 31) =
      (push_bit n u, (v \<or> bit (t XOR u) 31) \<or> \<not> (\<forall>i. 31 - n \<le> i \<and> i < 32 \<longrightarrow> bit u i = bit u 31),
       if n = 0 then bit t 31 else bit u (32 - n))"
    by (rule Suc.IH) (use Suc.prems in simp)
  have "ashc_left (Suc n) t v c = ashc_left n u (v \<or> bit (t XOR u) 31) (bit t 31)"
    by (simp only: ashc_left.simps u_def)
  also note IH
  finally show ?case
    by (simp only: p x carry all de_Morgan_conj disj_assoc nat.distinct if_False)
qed

lemma ash_left_ashc:
  "ashc_left n (push_bit 16 b) v c = (case ash_left n b v c of (d, v', c') \<Rightarrow> (push_bit 16 d, v', c'))"
proof (induction n arbitrary: b v c)
  case (Suc n)
  have x: "bit (push_bit 16 b XOR push_bit 16 (push_bit 1 b)) 31 = bit (b XOR push_bit 1 b) 15"
    unfolding bit_xor_iff bit_push_bit_iff by auto
  have c: "bit (push_bit 16 b) 31 = bit b 15" by (simp add: bit_push_bit_iff)
  have p: "push_bit 1 (push_bit 16 b) = push_bit 16 (push_bit 1 b)" unfolding push_bit_push_bit by (simp only: add.commute)
  show ?case unfolding ashc_left.simps ash_left.simps x c p by (rule Suc.IH)
qed simp

lemma bit_odd_div: "bit (x :: int) n \<longleftrightarrow> odd (x div 2 ^ n)"
  by (simp add: bit_iff_odd)

lemma bit_sint_32: "bit (sint (t :: u32)) n \<longleftrightarrow> bit t (min n 31)"
  by (cases "n \<le> 31") (auto simp: bit_sint_iff min_def dest: bit_imp_le_length)

text \<open>The loop of \<^verbatim>\<open>ASHC\<close>: shifted value, overflow exactly when the product does not fit, last bit out.\<close>

lemma ashc_left_value:
  assumes "n \<le> 31"
  shows "ashc_left n t False c =
    (push_bit n t, sint (push_bit n t) \<noteq> sint t * 2 ^ n, if n = 0 then c else odd (sint t * 2 ^ n div 2 ^ 32))"
proof -
  have v: "(\<not> (\<forall>i. 31 - n \<le> i \<and> i < 32 \<longrightarrow> bit t i = bit t 31)) = (sint (push_bit n t) \<noteq> sint t * 2 ^ n)"
    unfolding top_bits_range [of "31 - n" t, simplified] using shift_in_range(1) [OF assms, of t] by simp
  have c: "bit t (32 - n) \<longleftrightarrow> odd (sint t * 2 ^ n div 2 ^ 32)" if "n \<noteq> 0"
  proof -
    have p: "(2 :: int) ^ 32 = 2 ^ (32 - n) * 2 ^ n" using assms by (simp flip: power_add)
    have "sint t * 2 ^ n div 2 ^ 32 = sint t div 2 ^ (32 - n)" unfolding p by (rule div_mult_mult2) simp
    moreover have "bit (sint t) (32 - n) = bit t (32 - n)"
      using that unfolding bit_sint_32 by (intro arg_cong [of _ _ "bit t"]) linarith
    ultimately show ?thesis by (simp add: bit_odd_div)
  qed
  show ?thesis unfolding ashc_left_bits [OF assms] v using c by simp
qed

lemma odd_shift_out:
  assumes "0 < k" "k \<le> 32"
  shows "bit (t :: u32) (k - 1) \<longleftrightarrow> odd (sint t div 2 ^ (k - 1))"
proof -
  have "min (k - 1) 31 = k - 1" using assms by linarith
  then show ?thesis using bit_sint_32 [of t "k - 1"] by (simp add: bit_odd_div)
qed

text \<open>A right shift filled with copies of the sign is the signed shift.\<close>

definition sign_word :: "u32 \<Rightarrow> u32" where
  "sign_word t = (if bit t 31 then 0xffffffff else 0)"

lemma bit_sign_word: "bit (sign_word t) i \<longleftrightarrow> bit t 31 \<and> i < 32"
proof -
  have m: "(0xffffffff :: u32) = mask 32" by (simp add: mask_eq_exp_minus_1)
  show ?thesis unfolding sign_word_def m by (auto simp: bit_mask_iff)
qed

lemma sign_word_nonzero: "sign_word t \<noteq> 0 \<longleftrightarrow> bit t 31"
  by (simp add: sign_word_def)

lemma shift_right_32:
  assumes "0 < k" "k \<le> 32"
  shows "(if 32 \<le> k then sign_word t else drop_bit k t OR push_bit (32 - k) (sign_word t)) = signed_drop_bit k t"
proof (rule bit_word_eqI)
  fix i :: nat assume i: "i < LENGTH(32)"
  show "bit (if 32 \<le> k then sign_word t else drop_bit k t OR push_bit (32 - k) (sign_word t)) i = bit (signed_drop_bit k t) i"
  proof (cases "32 \<le> k")
    case True
    then show ?thesis using i assms by (simp add: bit_sign_word bit_signed_drop_bit_iff)
  next
    case k: False
    show ?thesis
    proof (cases "32 - k \<le> i")
      case True
      then have "\<not> bit t (k + i) \<or> k + i = 31" by (auto dest: bit_imp_le_length)
      then show ?thesis
        using True i k unfolding if_not_P [OF k] bit_or_iff bit_drop_bit_eq bit_push_bit_iff bit_sign_word bit_signed_drop_bit_iff
        by auto
    next
      case False
      then show ?thesis
        using i k unfolding if_not_P [OF k] bit_or_iff bit_drop_bit_eq bit_push_bit_iff bit_sign_word bit_signed_drop_bit_iff
        by auto
    qed
  qed
qed

text \<open>The signed shift count of \<^verbatim>\<open>ASH\<close> and \<^verbatim>\<open>ASHC\<close>: six bits of two's complement.\<close>

definition signed_count :: "u16 \<Rightarrow> int" where
  "signed_count dr = (if shift_count dr < 32 then int (shift_count dr) else int (shift_count dr) - 64)"

lemma shift_count_lt: "shift_count dr < 64"
proof -
  have "(0x3f :: u16) = mask 6" by (simp add: mask_eq_exp_minus_1)
  then have "dr AND 0x3f = take_bit 6 dr" by (simp add: take_bit_eq_mask)
  then have "shift_count dr = take_bit 6 (unat dr)" by (simp add: shift_count_def unsigned_take_bit_eq)
  then show ?thesis by (simp add: take_bit_eq_mod)
qed

text \<open>What an arithmetic shift by \<open>n\<close> places does to a signed value, its carry and its overflow.\<close>

definition shifted :: "int \<Rightarrow> int \<Rightarrow> int" where
  "shifted n x = (if n < 0 then x div 2 ^ nat (- n) else x * 2 ^ nat n)"

definition shifted_out :: "nat \<Rightarrow> bool \<Rightarrow> int \<Rightarrow> int \<Rightarrow> bool" where
  "shifted_out w c n x =
     (if n < 0 then odd (x div 2 ^ (nat (- n) - 1)) else if n = 0 then c else odd (x * 2 ^ nat n div 2 ^ w))"

text \<open>
  Property C39. \<^verbatim>\<open>ASHC\<close> of the 11/34 shifts the signed register pair arithmetically by its six bit signed count:
  right rounding down, left multiplying. N and Z describe the result, C is the last bit
  shifted out (or the old C for a count of zero), and V is set exactly when the shifted value does not
  fit the pair - although the loop only watches the sign change step by step.
\<close>

theorem ASHC_shifts:
  assumes "even reg"
  shows "case eis_ASHC reg dr rs p of (rs', p') \<Rightarrow>
     let x = sint (register_pair reg rs); y = sint (register_pair reg rs'); n = signed_count dr in
     register_pair reg rs' = of_int (shifted n x) \<and> (bit p' 1 \<longleftrightarrow> y \<noteq> shifted n x) \<and>
     (bit p' 3 \<longleftrightarrow> y < 0) \<and> (bit p' 2 \<longleftrightarrow> y = 0) \<and> (bit p' 0 \<longleftrightarrow> shifted_out 32 (bit p 0) n x)"
proof -
  define t sh where "t = register_pair reg rs" and "sh = shift_count dr"
  have fin: "eis_ASHC reg dr rs p = (rs(reg := ucast (drop_bit 16 d), reg + 1 := ucast d), set_cc (bit d 31) (d = 0) v c p)"
    if "(if 32 \<le> sh
         then let k = 64 - sh; msk = sign_word t
              in if 32 \<le> k then (msk, False, msk \<noteq> 0)
                 else (drop_bit k t OR push_bit (32 - k) msk, False, bit t (k - 1))
         else ashc_left sh t False (bit p 0)) = (d, v, c)" for d v c
    using assms that unfolding eis_ASHC_def t_def [symmetric] sh_def [symmetric] sign_word_def [symmetric] Let_def by simp
  have "\<exists>(d :: u32) v c. eis_ASHC reg dr rs p =
        (rs(reg := ucast (drop_bit 16 d), reg + 1 := ucast d), set_cc (bit d 31) (d = 0) v c p) \<and>
      d = of_int (shifted (signed_count dr) (sint t)) \<and> v = (sint d \<noteq> shifted (signed_count dr) (sint t)) \<and>
      c = shifted_out 32 (bit p 0) (signed_count dr) (sint t)"
  proof (cases "32 \<le> sh")
    case True
    define k where "k = 64 - sh"
    have k: "0 < k" "k \<le> 32" and n: "signed_count dr = - int k"
      using True shift_count_lt [of dr] unfolding k_def sh_def signed_count_def by auto
    have c: "sign_word t \<noteq> 0 \<longleftrightarrow> bit t (k - 1)" if "32 \<le> k"
    proof -
      have "k - 1 = 31" using that k by linarith
      then show ?thesis by (simp add: sign_word_nonzero)
    qed
    define d where "d = signed_drop_bit k t"
    have e: "eis_ASHC reg dr rs p = (rs(reg := ucast (drop_bit 16 d), reg + 1 := ucast d),
        set_cc (bit d 31) (d = 0) False (bit t (k - 1)) p)"
      unfolding d_def
      by (rule fin) (use True c shift_right_32 [OF k, of t] in \<open>cases "32 \<le> k"; simp add: k_def [symmetric] Let_def\<close>)
    have sd: "sint d = shifted (signed_count dr) (sint t)"
      unfolding d_def n shifted_def using k by (simp add: sint_signed_drop_bit_eq drop_bit_eq_div)
    have d: "d = of_int (shifted (signed_count dr) (sint t))" unfolding sd [symmetric] by simp
    have v: "False = (sint d \<noteq> shifted (signed_count dr) (sint t))" unfolding sd by (simp only: simp_thms)
    have c': "bit t (k - 1) = shifted_out 32 (bit p 0) (signed_count dr) (sint t)"
      unfolding n shifted_out_def odd_shift_out [OF k] using k by simp
    show ?thesis
      using e d v c' by blast
  next
    case False
    then have sh: "sh \<le> 31" and n: "signed_count dr = int sh" by (simp_all add: sh_def signed_count_def)
    define d where "d = push_bit sh t"
    have "eis_ASHC reg dr rs p = (rs(reg := ucast (drop_bit 16 d), reg + 1 := ucast d),
        set_cc (bit d 31) (d = 0) (sint d \<noteq> sint t * 2 ^ sh)
          (if sh = 0 then bit p 0 else odd (sint t * 2 ^ sh div 2 ^ 32)) p)"
      unfolding d_def by (rule fin) (use False ashc_left_value [OF sh] in simp)
    moreover have "d = of_int (sint t * 2 ^ sh)" unfolding d_def by (rule push_bit_of_int)
    ultimately show ?thesis by (simp add: n shifted_def shifted_out_def)
  qed
  then obtain d :: u32 and v c where e: "eis_ASHC reg dr rs p =
        (rs(reg := ucast (drop_bit 16 d), reg + 1 := ucast d), set_cc (bit d 31) (d = 0) v c p)"
      and d: "d = of_int (shifted (signed_count dr) (sint t))" "v = (sint d \<noteq> shifted (signed_count dr) (sint t))"
        "c = shifted_out 32 (bit p 0) (signed_count dr) (sint t)"
    by blast
  show ?thesis
    unfolding e prod.case Let_def register_pair_even [OF assms] t_def [symmetric] set_cc_bits sign_sint_32
      sint_zero_iff d(2,3)
    by (intro conjI refl d(1))
qed

theorem ASHC_shifts_witness:
  "case eis_ASHC 0 0x3f ((\<lambda>_. 0)(1 := 5)) 0 of (rs', p') \<Rightarrow> sint (register_pair 0 rs') = 2 \<and> bit p' 0"
proof -
  define rs :: "nat \<Rightarrow> u16" where "rs = (\<lambda>_. 0)(1 := 5)"
  obtain rs' p' where e: "eis_ASHC 0 0x3f rs 0 = (rs', p')" by (cases "eis_ASHC 0 0x3f rs 0")
  have x: "sint (register_pair 0 rs) = 5" by (simp add: register_pair_def rs_def)
  have n: "signed_count 0x3f = - 1" by (simp add: signed_count_def shift_count_def)
  have s: "shifted (- 1) 5 = 2" "shifted_out 32 False (- 1) 5" by (simp_all add: shifted_def shifted_out_def)
  have "register_pair 0 rs' = of_int 2 \<and> bit p' 0"
    using ASHC_shifts [where reg = 0 and dr = "0x3f" and rs = rs and p = 0]
    unfolding e prod.case Let_def x n s by (simp add: s)
  then show ?thesis unfolding rs_def [symmetric] e prod.case by simp
qed

text \<open>The same for \<^verbatim>\<open>ASH\<close>, whose loop works on the low 16 bits of a wider word.\<close>

lemma sint_high_half: "sint (push_bit 16 (ucast (w :: u16)) :: u32) = sint w * 65536"
proof -
  have "(push_bit 16 (ucast w) :: u32) = push_bit 16 (scast w)"
  proof (rule bit_word_eqI)
    fix n :: nat assume "n < LENGTH(32)"
    then show "bit (push_bit 16 (ucast w) :: u32) n = bit (push_bit 16 (scast w) :: u32) n"
      by (cases "n = 31") (auto simp: bit_push_bit_iff bit_ucast_iff bit_signed_iff min_def dest: bit_imp_le_length)
  qed
  also have "\<dots> = word_of_int (sint (scast w :: u32) * 2 ^ 16)" by (rule push_bit_of_int)
  finally have "(push_bit 16 (ucast w) :: u32) = word_of_int (sint w * 2 ^ 16)" unfolding sint_scast_16 .
  moreover have "sint (word_of_int (sint w * 2 ^ 16) :: u32) = sint w * 2 ^ 16"
    using sint_bounds_16 [of w] by (intro sint_in_range_32) simp_all
  ultimately show ?thesis by (simp only:) simp
qed

lemma ash_left_shifts: "fst (ash_left n b v c) = push_bit n b"
proof (induction n arbitrary: b v c)
  case (Suc n)
  show ?case unfolding ash_left.simps Suc push_bit_push_bit by simp
qed simp

lemma ash_left_value:
  fixes w :: u16
  assumes "n \<le> 16"
  shows "case ash_left n (ucast w) False c of (d, v, c') \<Rightarrow>
     (ucast d :: u16) = of_int (sint w * 2 ^ n) \<and> bit d 15 = bit (ucast d :: u16) 15 \<and>
     (v \<longleftrightarrow> sint (ucast d :: u16) \<noteq> sint w * 2 ^ n) \<and>
     c' = (if n = 0 then c else odd (sint w * 2 ^ n div 2 ^ 16))"
proof -
  define t where "t = push_bit 16 (ucast w :: u32)"
  obtain d v c' where e: "ash_left n (ucast w) False c = (d, v, c')" by (cases "ash_left n (ucast w) False c")
  have st: "sint t = sint w * 65536" unfolding t_def by (rule sint_high_half)
  have "ashc_left n t False c = (push_bit 16 d, v, c')"
    unfolding t_def ash_left_ashc e prod.case ..
  with ashc_left_value [of n t c] assms
  have d: "push_bit 16 d = push_bit n t" and v: "v \<longleftrightarrow> sint (push_bit n t) \<noteq> sint t * 2 ^ n"
    and c: "c' = (if n = 0 then c else odd (sint t * 2 ^ n div 2 ^ 32))" by auto
  define h where "h = (ucast d :: u16)"
  have "push_bit 16 (ucast h) = push_bit 16 d"
    unfolding h_def by (rule bit_word_eqI) (auto simp: bit_push_bit_iff bit_ucast_iff dest: bit_imp_le_length)
  then have sh: "sint (push_bit n t) = sint h * 65536" using sint_high_half [of h] d by simp
  have "d = push_bit n (ucast w)" using ash_left_shifts [of n "ucast w" False c] e by simp
  then have "h = push_bit n w"
    unfolding h_def by (intro bit_word_eqI) (auto simp: bit_push_bit_iff bit_ucast_iff dest: bit_imp_le_length)
  then have h: "h = of_int (sint w * 2 ^ n)" by (simp add: push_bit_eq_mult)
  have "sint t * 2 ^ n = sint w * 2 ^ n * 65536" by (simp add: st)
  then have v': "v \<longleftrightarrow> sint h \<noteq> sint w * 2 ^ n" unfolding v sh by simp
  have "sint t * 2 ^ n div 2 ^ 32 = (sint w * 2 ^ n) * 2 ^ 16 div (2 ^ 16 * 2 ^ 16)" by (simp add: st)
  also have "\<dots> = sint w * 2 ^ n div 2 ^ 16" by (rule div_mult_mult2) simp
  finally have c2: "c' = (if n = 0 then c else odd (sint w * 2 ^ n div 2 ^ 16))" unfolding c by (simp only:)
  have "bit d 15 = bit h 15" by (simp add: h_def bit_ucast_iff)
  then show ?thesis unfolding e prod.case h_def [symmetric] using h v' c2 by blast
qed

definition sign_word_16 :: "u16 \<Rightarrow> u16" where
  "sign_word_16 w = (if bit w 15 then 0xffff else 0)"

lemma bit_sign_word_16: "bit (sign_word_16 w) i \<longleftrightarrow> bit w 15 \<and> i < 16"
proof -
  have m: "(0xffff :: u16) = mask 16" by (simp add: mask_eq_exp_minus_1)
  show ?thesis unfolding sign_word_16_def m by (auto simp: bit_mask_iff)
qed

lemma shift_right_16:
  assumes "0 < k"
  shows "(if 17 \<le> k then sign_word_16 w else ucast (drop_bit k (ucast w :: u32)) OR push_bit (16 - k) (sign_word_16 w)) =
     signed_drop_bit k w"
proof (rule bit_word_eqI)
  fix i :: nat assume i: "i < LENGTH(16)"
  show "bit (if 17 \<le> k then sign_word_16 w else ucast (drop_bit k (ucast w :: u32)) OR push_bit (16 - k) (sign_word_16 w)) i =
      bit (signed_drop_bit k w) i"
  proof (cases "17 \<le> k")
    case True
    then show ?thesis using i by (simp add: bit_sign_word_16 bit_signed_drop_bit_iff)
  next
    case k: False
    show ?thesis
    proof (cases "16 - k \<le> i")
      case True
      then have "\<not> bit w (k + i) \<or> k + i = 15" by (auto dest: bit_imp_le_length)
      then show ?thesis
        using True i k unfolding if_not_P [OF k] bit_or_iff bit_ucast_iff bit_drop_bit_eq bit_push_bit_iff bit_sign_word_16
          bit_signed_drop_bit_iff by auto
    next
      case False
      then show ?thesis
        using i k unfolding if_not_P [OF k] bit_or_iff bit_ucast_iff bit_drop_bit_eq bit_push_bit_iff bit_sign_word_16
          bit_signed_drop_bit_iff by auto
    qed
  qed
qed

lemma carry_right_16:
  assumes "0 < k"
  shows "(if 17 \<le> k then sign_word_16 w \<noteq> 0 else bit (ucast w :: u32) (k - 1)) \<longleftrightarrow> odd (sint w div 2 ^ (k - 1))"
proof -
  have "bit (sint w) (k - 1) \<longleftrightarrow> (if 17 \<le> k then bit w 15 else bit w (k - 1))"
    by (auto simp: bit_sint_iff dest: bit_imp_le_length)
  then show ?thesis unfolding bit_odd_div by (auto simp: sign_word_16_def bit_ucast_iff dest: bit_imp_le_length)
qed

text \<open>
  \<^verbatim>\<open>ASH\<close> of the 11/34 shifts a signed register arithmetically by its six bit signed count, also
  for counts beyond the width of the register: N and Z describe the result, C is the last bit shifted out (or
  the old C for a count of zero), and V is set exactly when the shifted value does not fit a word.
\<close>

theorem ASH_shifts:
  "case eis_ASH reg dr rs p of (rs', p') \<Rightarrow>
     let x = sint (rs reg); n = signed_count dr in
     rs' = rs(reg := of_int (shifted n x)) \<and> (bit p' 1 \<longleftrightarrow> sint (rs' reg) \<noteq> shifted n x) \<and>
     (bit p' 3 \<longleftrightarrow> sint (rs' reg) < 0) \<and> (bit p' 2 \<longleftrightarrow> rs' reg = 0) \<and>
     (bit p' 0 \<longleftrightarrow> shifted_out 16 (bit p 0) n x)"
proof -
  define w sh where "w = rs reg" and "sh = shift_count dr"
  have "\<exists>(d :: u16) v c. eis_ASH reg dr rs p = (rs(reg := d), set_cc (bit d 15) (d = 0) v c p) \<and>
      d = of_int (shifted (signed_count dr) (sint w)) \<and> v = (sint d \<noteq> shifted (signed_count dr) (sint w)) \<and>
      c = shifted_out 16 (bit p 0) (signed_count dr) (sint w)"
  proof -
    consider (right) "32 \<le> sh" | (none) "sh = 0" | (out) "17 \<le> sh" "sh < 32" | (left) "0 < sh" "sh \<le> 16"
      by linarith
    then show ?thesis
    proof cases
      case right
      define k d where "k = 64 - sh" and "d = signed_drop_bit k w"
      have k: "0 < k" "k \<le> 32" and n: "signed_count dr = - int k"
        using right shift_count_lt [of dr] unfolding k_def sh_def signed_count_def by auto
      have sw: "sign_word_16 w = (if bit (ucast w :: u32) 15 then 0xffff else 0)"
        by (simp add: sign_word_16_def bit_ucast_iff)
      have "eis_ASH reg dr rs p = (rs(reg := d), set_cc (bit d 15) (d = 0) False (odd (sint w div 2 ^ (k - 1))) p)"
        unfolding d_def shift_right_16 [OF k(1), symmetric] carry_right_16 [OF k(1), symmetric] eis_ASH_def
          w_def [symmetric] sh_def [symmetric] k_def [symmetric] sw [symmetric] Let_def
        using right by (cases "17 \<le> k") (simp_all only: if_True if_False)
      moreover have sd: "sint d = shifted (signed_count dr) (sint w)"
        unfolding d_def n shifted_def using k by (simp add: sint_signed_drop_bit_eq drop_bit_eq_div)
      moreover have "d = of_int (shifted (signed_count dr) (sint w))" unfolding sd [symmetric] by simp
      moreover have "shifted_out 16 (bit p 0) (signed_count dr) (sint w) = odd (sint w div 2 ^ (k - 1))"
        unfolding n shifted_out_def using k by simp
      ultimately show ?thesis by blast
    next
      case none
      then have "eis_ASH reg dr rs p = (rs(reg := w), set_cc (bit w 15) (w = 0) False (bit p 0) p)"
        by (simp add: eis_ASH_def w_def sh_def)
      moreover have "signed_count dr = 0" using none by (simp add: sh_def signed_count_def)
      ultimately show ?thesis
        by (intro exI [of _ w] exI [of _ False] exI [of _ "bit p 0"]) (simp add: shifted_def shifted_out_def)
    next
      case out
      have n: "signed_count dr = int sh" using out by (simp add: sh_def signed_count_def)
      have "eis_ASH reg dr rs p = (rs(reg := 0), set_cc False True (w \<noteq> 0) False p)"
        using out by (simp add: eis_ASH_def w_def [symmetric] sh_def [symmetric] Let_def)
      moreover have "(0 :: u16) = of_int (sint w * 2 ^ sh)"
      proof -
        have "(of_int (sint w * 2 ^ sh) :: u16) = push_bit sh w" by (simp add: push_bit_eq_mult)
        also have "push_bit sh w = 0" using out by (intro bit_word_eqI) (auto simp: bit_push_bit_iff)
        finally show ?thesis by (rule sym)
      qed
      moreover have "(w \<noteq> 0) = (sint (0 :: u16) \<noteq> sint w * 2 ^ sh)"
      proof -
        have "sint w = 0 \<longleftrightarrow> w = 0"
        proof
          assume "sint w = 0"
          then have "(of_int (sint w) :: u16) = 0" by (simp only: of_int_0)
          then show "w = 0" by simp
        qed simp
        then show ?thesis by auto
      qed
      moreover have "False = shifted_out 16 (bit p 0) (int sh) (sint w)"
      proof -
        have "(2 :: int) ^ sh = 2 ^ (sh - 16) * 2 ^ 16" using out by (simp only: power_add [symmetric]) simp
        then have e: "sint w * 2 ^ sh = sint w * 2 ^ (sh - 16) * 2 ^ 16" by (simp only: mult.assoc)
        have "sint w * 2 ^ sh div 2 ^ 16 = sint w * 2 ^ (sh - 16)"
          unfolding e by (rule nonzero_mult_div_cancel_right) simp
        then show ?thesis using out by (simp add: shifted_out_def)
      qed
      ultimately show ?thesis
        unfolding n by (intro exI [of _ 0] exI [of _ "w \<noteq> 0"] exI [of _ False]) (simp add: shifted_def)
    next
      case left
      have n: "signed_count dr = int sh" using left by (simp add: sh_def signed_count_def)
      obtain d v c where e: "ash_left sh (ucast w) False (bit p 0) = (d, v, c)"
        by (cases "ash_left sh (ucast w) False (bit p 0)")
      have "eis_ASH reg dr rs p = (rs(reg := ucast d), set_cc (bit d 15) ((ucast d :: u16) = 0) v c p)"
        using left e by (simp add: eis_ASH_def w_def [symmetric] sh_def [symmetric] Let_def)
      with ash_left_value [OF left(2), of w "bit p 0"] left show ?thesis
        unfolding e prod.case n
        by (intro exI [of _ "ucast d"] exI [of _ v] exI [of _ c]) (simp add: shifted_def shifted_out_def)
    qed
  qed
  then obtain d :: u16 and v c where e: "eis_ASH reg dr rs p = (rs(reg := d), set_cc (bit d 15) (d = 0) v c p)"
      and d: "d = of_int (shifted (signed_count dr) (sint w))" "v = (sint d \<noteq> shifted (signed_count dr) (sint w))"
        "c = shifted_out 16 (bit p 0) (signed_count dr) (sint w)"
    by blast
  have reg: "(rs(reg := d)) reg = d" by simp
  show ?thesis
    unfolding e prod.case Let_def w_def [symmetric] set_cc_bits sign_sint_16 d(2,3) reg
    using d(1) by (intro conjI refl) (rule arg_cong [of _ _ "\<lambda>d. rs(reg := d)"])
qed

end
