(* ===== verification/KD11EA_Modes.thy ===== *)
theory KD11EA_Modes
  imports KD11EA KT11D_Correct KA11_Arith
begin

text \<open>
  The processor modes of the 11/34: which part of the memory management state a reference depends on,
  that a program in user mode stays within what the map grants it, and what a trap does
  when the kernel stack cannot be used.
\<close>

subsection \<open>References as a function of the map\<close>

text \<open>
  The map: relocation on or off, the page registers but for the written-into flags. The selected
  modes and spaces. A reference depends on the map and the selected space, and changes neither.
\<close>

definition map_of_mmu :: "kt11d \<Rightarrow> bool \<times> bool \<times> (nat \<Rightarrow> u16) \<times> (nat \<Rightarrow> u16)" where
  "map_of_mmu m = (enabled m, maint m, par m, \<lambda>i. pdr m i AND NOT PDR_W)"

definition modes_of_mmu :: "kt11d \<Rightarrow> (nat \<times> u16) \<times> (nat \<times> u16) \<times> nat \<times> u16 \<times> bool" where
  "modes_of_mmu m = ((space m, mode m), (prev_space m, prev_mode m), access_space m, access_mode m, access_illegal m)"

lemma map_of_mmu_D:
  assumes "map_of_mmu m' = map_of_mmu m"
  shows "enabled m' = enabled m" "maint m' = maint m" "par m' = par m" "pdr m' i AND NOT PDR_W = pdr m i AND NOT PDR_W"
  using assms by (auto simp: map_of_mmu_def dest: fun_cong)

lemma modes_of_mmu_D:
  assumes "modes_of_mmu m' = modes_of_mmu m"
  shows "space m' = space m" "mode m' = mode m" "prev_space m' = prev_space m" "prev_mode m' = prev_mode m"
    "access_space m' = access_space m" "access_mode m' = access_mode m" "access_illegal m' = access_illegal m"
  using assms by (auto simp: modes_of_mmu_def)

definition translate :: "kt11d \<Rightarrow> nat \<Rightarrow> u16 \<Rightarrow> bool \<Rightarrow> u32 option" where
  "translate m sp va wr =
     (if \<not> enabled m then Some (kt11d_unrelocated va)
      else if access_legal (pdr m (sp + va_page va)) (access_of wr) \<and> block_legal (pdr m (sp + va_page va)) va
      then Some (of_nat (physical_address (par m (sp + va_page va)) va)) else None)"

lemma legal_ignores_W:
  "access_legal (d AND NOT PDR_W) a = access_legal d a" "block_legal (d AND NOT PDR_W) va = block_legal d va"
proof -
  have "PDR_ACF (d AND NOT PDR_W) = PDR_ACF d"
    by (simp add: PDR_ACF_def PDR_W_def drop_bit_and and.assoc)
  then show "access_legal (d AND NOT PDR_W) a = access_legal d a" by (simp add: access_legal_def)
  have "PDR_PLF (d AND NOT PDR_W) = PDR_PLF d"
    by (simp add: PDR_PLF_def PDR_W_def drop_bit_and and.assoc)
  then have "unat d div 256 mod 128 = unat (d AND NOT PDR_W) div 256 mod 128" by (simp flip: unat_PLF)
  moreover have "bit (d AND NOT PDR_W) 3 = bit d 3" by (simp add: PDR_W_def bit_simps)
  ultimately show "block_legal (d AND NOT PDR_W) va = block_legal d va" by (simp add: block_legal_def Let_def)
qed

lemma translate_map: 
  assumes "map_of_mmu m' = map_of_mmu m"
  shows "translate m' sp va wr = translate m sp va wr"
proof -
  note d = map_of_mmu_D [OF assms]
  have "access_legal (pdr m' i) a = access_legal (pdr m i) a" "block_legal (pdr m' i) va = block_legal (pdr m i) va" for i a
    using legal_ignores_W [of "pdr m' i"] legal_ignores_W [of "pdr m i"] d(4) by metis+
  then show ?thesis by (simp add: translate_def d(1,3))
qed

lemma map_of_mmu_noted [simp]: "map_of_mmu (mmr0_noted va m) = map_of_mmu m" "modes_of_mmu (mmr0_noted va m) = modes_of_mmu m"
  "dest_ref (mmr0_noted va m) = dest_ref m"
  by (simp_all add: mmr0_noted_def map_of_mmu_def modes_of_mmu_def)

lemma map_of_mmu_abort [simp]: "map_of_mmu (kt11d_abort va sp a m) = map_of_mmu m"
  "modes_of_mmu (kt11d_abort va sp a m) = modes_of_mmu m" "dest_ref (kt11d_abort va sp a m) = dest_ref m"
  by (simp_all add: kt11d_abort_def map_of_mmu_def modes_of_mmu_def)

lemma map_of_mmu_W [simp]:
  "map_of_mmu (m\<lparr>pdr := (pdr m)(i := pdr m i OR PDR_W)\<rparr>) = map_of_mmu m"
proof -
  have "(d OR PDR_W) AND NOT PDR_W = d AND NOT PDR_W" for d :: u16
    by (rule bit_word_eqI) (auto simp: bit_simps)
  then show ?thesis by (auto simp: map_of_mmu_def fun_eq_iff)
qed

lemma modes_of_mmu_W [simp]: "modes_of_mmu (m\<lparr>pdr := d\<rparr>) = modes_of_mmu m"
  by (simp add: modes_of_mmu_def)

lemma relocate_translate:
  assumes ok: "mmu_ok m" and "enabled m \<or> \<not> maint m" and legal: "\<not> access_illegal m"
  obtains m' where "kt11d_relocate va (access_space m) (access_of wr) m = (translate m (access_space m) va wr, m')"
    "mmu_ok m'" "map_of_mmu m' = map_of_mmu m" "modes_of_mmu m' = modes_of_mmu m" "dest_ref m' = dest_ref m"
proof (cases "enabled m")
  case False
  then have "kt11d_relocate va (access_space m) (access_of wr) m = (translate m (access_space m) va wr, m)"
    using assms(2) by (simp add: kt11d_relocate_def translate_def)
  then show thesis by (rule that) (simp_all add: ok)
next
  case True
  note r = relocate_unfold [OF ok disjI1 [OF True] legal access_of_cases, of va wr]
  have t: "translate m (access_space m) va wr = reference_translation va (access_of wr) m"
    using True by (simp add: translate_def reference_translation_def Let_def)
  let ?m = "snd (kt11d_relocate va (access_space m) (access_of wr) m)"
  have p: "pdr (mmr0_noted va m) = pdr m" by (simp add: mmr0_noted_def)
  have W: "map_of_mmu ((mmr0_noted va m)\<lparr>pdr := (pdr m)(i := pdr m i OR PDR_W)\<rparr>) = map_of_mmu m" for i
    using map_of_mmu_W [of "mmr0_noted va m" i] by (simp add: p)
  show thesis
  proof (rule that)
    show "kt11d_relocate va (access_space m) (access_of wr) m = (translate m (access_space m) va wr, ?m)"
      unfolding t r by (simp split: option.split)
    show "mmu_ok ?m" by (rule relocate_ok [OF ok access_of_cases])
    show "map_of_mmu ?m = map_of_mmu m" unfolding r by (simp add: W split: option.split)
    show "modes_of_mmu ?m = modes_of_mmu m" unfolding r by (simp split: option.split)
    show "dest_ref ?m = dest_ref m" unfolding r by (simp add: mmr0_noted_def split: option.split)
  qed
qed

subsection \<open>A program in user mode\<close>

text \<open>
  What stays as it is while user mode runs: priority and mode fields \<open>q\<close> of the PSW, the map \<open>mp\<close>, and
  the saved stack pointers \<open>sps\<close>; the machine is not halted.
\<close>

definition user_modes :: "(nat \<times> u16) \<times> (nat \<times> u16) \<times> nat \<times> u16 \<times> bool" where
  "user_modes = ((KT11D_SPACE_USER, KT11D_MODE_USER), (KT11D_SPACE_USER, KT11D_MODE_USER),
     KT11D_SPACE_USER, KT11D_MODE_USER, False)"

definition user_confined ::
    "u16 \<Rightarrow> bool \<times> bool \<times> (nat \<Rightarrow> u16) \<times> (nat \<Rightarrow> u16) \<Rightarrow> (nat \<Rightarrow> u16) \<Rightarrow> 'e kd11ea \<Rightarrow> bool" where
  "user_confined q mp sps s \<longleftrightarrow>
     mmu_ok (mmu s) \<and> psw34 s AND 0xf0e0 = q \<and> map_of_mmu (mmu s) = mp \<and> modes_of_mmu (mmu s) = user_modes \<and>
     stackpointer s = sps \<and> state34 s \<noteq> KD11EA_STATE_HALTED"

text \<open>User mode with user as previous mode, and a map that lets no user write reach the I/O page.\<close>

definition confining :: "u16 \<Rightarrow> bool \<times> bool \<times> (nat \<Rightarrow> u16) \<times> (nat \<Rightarrow> u16) \<Rightarrow> bool" where
  "confining q mp \<longleftrightarrow> q AND 0xf000 = 0xf000 \<and> fst mp \<and>
     (\<forall>m va pa. map_of_mmu m = mp \<longrightarrow> translate m KT11D_SPACE_USER va True = Some pa \<longrightarrow> pa < 0x3e000)"

definition outcome_confined ::
    "u16 \<Rightarrow> bool \<times> bool \<times> (nat \<Rightarrow> u16) \<times> (nat \<Rightarrow> u16) \<Rightarrow> (nat \<Rightarrow> u16) \<Rightarrow> 'e outcome \<Rightarrow> bool" where
  "outcome_confined q mp sps x = (case x of Okay s \<Rightarrow> user_confined q mp sps s | Abort s \<Rightarrow> user_confined q mp sps s)"

lemma outcome_confined_simps [simp]:
  "outcome_confined q mp sps (Okay s) = user_confined q mp sps s"
  "outcome_confined q mp sps (Abort s) = user_confined q mp sps s"
  by (simp_all add: outcome_confined_def)

lemma outcome_confined_bind [intro]:
  assumes "outcome_confined q mp sps x" "\<And>s. user_confined q mp sps s \<Longrightarrow> outcome_confined q mp sps (f s)"
  shows "outcome_confined q mp sps (on_okay x f)"
  using assms by (cases x) (simp_all add: on_okay_def)

lemma confined_fields [simp]:
  "user_confined q mp sps (s\<lparr>ba34 := a\<rparr>) = user_confined q mp sps s"
  "user_confined q mp sps (s\<lparr>b34 := a\<rparr>) = user_confined q mp sps s"
  "user_confined q mp sps (s\<lparr>bdata34 := a\<rparr>) = user_confined q mp sps s"
  "user_confined q mp sps (s\<lparr>ir34 := a\<rparr>) = user_confined q mp sps s"
  "user_confined q mp sps (s\<lparr>be34 := n\<rparr>) = user_confined q mp sps s"
  "user_confined q mp sps (s\<lparr>trap_vector := a\<rparr>) = user_confined q mp sps s"
  "user_confined q mp sps (s\<lparr>autoinc_reg := g\<rparr>) = user_confined q mp sps s"
  "user_confined q mp sps (s\<lparr>autoinc_amount := a\<rparr>) = user_confined q mp sps s"
  "user_confined q mp sps (s\<lparr>env34 := e\<rparr>) = user_confined q mp sps s"
  "user_confined q mp sps (s\<lparr>traps34 := t\<rparr>) = user_confined q mp sps s"
  "user_confined q mp sps (s\<lparr>r34 := rs\<rparr>) = user_confined q mp sps s"
  "user_confined q mp sps (set_r34 i v s) = user_confined q mp sps s"
  by (simp_all add: user_confined_def set_r34_def)

lemma confined_helpers [simp]:
  "user_confined q mp sps (autoinc_pending n a s) = user_confined q mp sps s"
  "user_confined q mp sps (autoinc_commit s) = user_confined q mp sps s"
  "user_confined q mp sps (autoinc_undo s) = user_confined q mp sps s"
  "user_confined q mp sps (stack_limit a s) = user_confined q mp sps s"
  "user_confined q mp sps (POP34 s) = user_confined q mp sps s"
  "outcome_confined q mp sps (cycle_ok s) = user_confined q mp sps s"
  "outcome_confined q mp sps (cycle_fails v s) = user_confined q mp sps s"
  by (simp_all add: autoinc_pending_def autoinc_commit_def autoinc_undo_def stack_limit_def POP34_def
      cycle_ok_def cycle_fails_def user_confined_def set_r34_def split: option.split)

lemma confined_mmu:
  assumes "user_confined q mp sps s" "mmu_ok m" "map_of_mmu m = map_of_mmu (mmu s)" "modes_of_mmu m = modes_of_mmu (mmu s)"
  shows "user_confined q mp sps (s\<lparr>mmu := m\<rparr>)"
  using assms by (simp add: user_confined_def)

lemma confined_mark [intro]: "user_confined q mp sps s \<Longrightarrow> user_confined q mp sps (mark_dest d s)"
proof -
  assume u: "user_confined q mp sps s"
  then have "mmu_ok (set_dest_ref d (mmu s))" by (intro dest_ref_ok) (simp add: user_confined_def)
  then show ?thesis
    unfolding mark_dest_def by (rule confined_mmu [OF u]) (simp_all add: set_dest_ref_def map_of_mmu_def modes_of_mmu_def)
qed

lemma confined_log [intro]: "user_confined q mp sps s \<Longrightarrow> user_confined q mp sps (log34 n a s)"
proof -
  assume u: "user_confined q mp sps s"
  then have "mmu_ok (kt11d_log_register n a (mmu s))" by (intro log_register_ok) (simp add: user_confined_def)
  then show ?thesis
    unfolding log34_def
    by (rule confined_mmu [OF u]) (simp_all add: kt11d_log_register_def map_of_mmu_def modes_of_mmu_def Let_def)
qed

lemma confined_access:
  assumes "user_confined q mp sps s"
  shows "user_confined q mp sps (SPACE_PREV s)" "user_confined q mp sps (SPACE_RESTORE s)"
  using assms set_access_keeps(2,3) [of "mmu s"]
  by (simp_all add: SPACE_PREV_def SPACE_RESTORE_def user_confined_def kt11d_set_access_def map_of_mmu_def
      modes_of_mmu_def user_modes_def KT11D_MODE_USER_def KT11D_MODE_KERNEL_def)

lemma confined_restored [intro]: "outcome_confined q mp sps x \<Longrightarrow> outcome_confined q mp sps (restored x)"
  by (cases x) (simp_all add: restored_def confined_access)

lemma confined_psw:
  "user_confined q mp sps s \<Longrightarrow> p AND 0xf0e0 = psw34 s AND 0xf0e0 \<Longrightarrow> user_confined q mp sps (s\<lparr>psw34 := p\<rparr>)"
  by (simp add: user_confined_def)

text \<open>A bus cycle: reads and writes outside the I/O page only touch the bus.\<close>

lemma confined_relocate:
  assumes "user_confined q mp sps s" "confining q mp"
  obtains m where "kt11d_relocate va (access_space (mmu s)) (access_of wr) (mmu s) = (translate (mmu s) KT11D_SPACE_USER va wr, m)"
    "user_confined q mp sps (s\<lparr>mmu := m\<rparr>)"
proof -
  have s: "mmu_ok (mmu s)" "enabled (mmu s)" "access_space (mmu s) = KT11D_SPACE_USER" "\<not> access_illegal (mmu s)"
    using assms by (auto simp: user_confined_def confining_def map_of_mmu_def modes_of_mmu_def user_modes_def)
  obtain m where "kt11d_relocate va (access_space (mmu s)) (access_of wr) (mmu s) = (translate (mmu s) (access_space (mmu s)) va wr, m)"
      "mmu_ok m" "map_of_mmu m = map_of_mmu (mmu s)" "modes_of_mmu m = modes_of_mmu (mmu s)" "dest_ref m = dest_ref (mmu s)"
    by (rule relocate_translate [OF s(1) disjI1 [OF s(2)] s(4)])
  then show thesis using that confined_mmu [OF assms(1)] s(3) by metis
qed

lemma confined_dati [intro]:
  assumes "user_confined q mp sps s" "confining q mp"
  shows "outcome_confined q mp sps (dati34 B b s)"
proof -
  obtain m where m: "kt11d_relocate (ba34 s) (access_space (mmu s)) KT11D_READ (mmu s) = (translate (mmu s) KT11D_SPACE_USER (ba34 s) False, m)"
      "user_confined q mp sps (s\<lparr>mmu := m\<rparr>)"
    using confined_relocate [OF assms, of "ba34 s" False] by (auto simp: access_of_def)
  show ?thesis
    using assms(1) m(2) by (simp add: dati34_def m(1) Let_def split: option.split prod.split)
qed

lemma confined_dato [intro]:
  assumes "user_confined q mp sps s" "confining q mp"
  shows "outcome_confined q mp sps (dato34 B b s)"
proof -
  obtain m where m: "kt11d_relocate (ba34 s) (access_space (mmu s)) KT11D_WRITE (mmu s) = (translate (mmu s) KT11D_SPACE_USER (ba34 s) True, m)"
      "user_confined q mp sps (s\<lparr>mmu := m\<rparr>)"
    using confined_relocate [OF assms, of "ba34 s" True] by (auto simp: access_of_def)
  have io: "internal_write34 B c pa (s\<lparr>mmu := m\<rparr>) = None" if "translate (mmu s) KT11D_SPACE_USER (ba34 s) True = Some pa" for pa c
  proof -
    have "\<not> 0x3e000 \<le> pa" using assms that by (auto simp: confining_def user_confined_def not_le)
    then show ?thesis unfolding internal_write34_def by (simp only: if_False)
  qed
  show ?thesis
    using assms(1) m(2) by (auto simp: dato34_def m(1) Let_def io split: option.split prod.split bool.split)
qed

text \<open>Operands.\<close>

lemma confined_addr_base:
  assumes "user_confined q mp sps s" "confining q mp"
  shows "outcome_confined q mp sps (addr_base34 B m b s)"
  unfolding addr_base34_def Let_def
  using assms by (auto intro!: outcome_confined_bind confined_dati confined_log)

lemma confined_addrop:
  assumes "user_confined q mp sps s" "confining q mp"
  shows "outcome_confined q mp sps (addrop34 B m b s)"
  unfolding addrop34_def Let_def
  using assms by (auto intro!: outcome_confined_bind confined_dati confined_mark confined_addr_base)

lemma confined_fetchop:
  assumes "user_confined q mp sps s" "confining q mp"
  shows "outcome_confined q mp sps (fetchop34 B t m b s)"
  unfolding fetchop34_def
  using assms by (auto intro!: outcome_confined_bind confined_dati)

lemma confined_readop:
  assumes "user_confined q mp sps s" "confining q mp"
  shows "outcome_confined q mp sps (readop34 B t m b s)"
  unfolding readop34_def
  using assms by (auto intro!: outcome_confined_bind confined_addrop confined_fetchop confined_mark)

lemma confined_addrdest:
  assumes "user_confined q mp sps s" "confining q mp"
  shows "outcome_confined q mp sps (addrdest B m b s)"
  unfolding addrdest_def
  using assms by (auto intro!: confined_addrop confined_mark)

lemma confined_writedest:
  assumes "user_confined q mp sps s" "confining q mp"
  shows "outcome_confined q mp sps (writedest34 B v b s)"
  unfolding writedest34_def Let_def
  using assms by (auto intro!: confined_dato confined_mark)

lemma confined_operand:
  assumes "user_confined q mp sps s" "confining q mp"
  shows "outcome_confined q mp sps (operand34 B t m b s)"
  unfolding operand34_def using assms by (auto intro!: confined_fetchop confined_readop)

lemma confined_RD:
  assumes "user_confined q mp sps s" "confining q mp"
  shows "outcome_confined q mp sps (RD_B34 B src dst by s)" "outcome_confined q mp sps (RD_U34 B dst by s)"
  unfolding RD_B34_def RD_U34_def
  using assms by (auto intro!: outcome_confined_bind confined_operand)

text \<open>Condition codes leave priority and modes.\<close>

lemma with_cc_keeps:
  assumes "psw_rest c = psw_rest (ucast p)"
  shows "with_cc p c AND 0xf0e0 = p AND 0xf0e0"
proof (rule bit_word_eqI)
  have b: "bit c i = bit p i" if "i \<in> {5, 6, 7}" for i
  proof -
    have "bit (psw_rest c) i = bit (psw_rest (ucast p)) i" by (simp add: assms)
    then show ?thesis using that by (auto simp: psw_rest_def bit_simps)
  qed
  have high: "\<not> bit c 12" "\<not> bit c 13" "\<not> bit c 14" "\<not> bit c 15"
    using bit_imp_le_length [of c] by fastforce+
  fix n assume "n < LENGTH(16)"
  then have "n \<in> {0, 1, 2, 3, 4, 5, 6, 7, 8, 9, 10, 11, 12, 13, 14, 15}"
    by (simp only: insert_iff empty_iff len_of_numeral_defs) (simp, arith)
  then show "bit (with_cc p c AND 0xf0e0) n = bit (p AND 0xf0e0) n"
    by (elim insertE emptyE; hypsubst) (use b high in \<open>auto simp: with_cc_def bit_simps\<close>)
qed

text \<open>The word operations only touch the condition codes.\<close>

lemma psw_rest_clear [simp]: "psw_rest (CLC p) = psw_rest p"
  by (simp add: CLC_def psw_rest_simps) (simp add: psw_rest_def and.assoc)

lemma psw_rest_shift [simp]: "psw_rest (shift_V p) = psw_rest p"
  by (simp add: shift_V_def)

definition keeps_rest2 :: "(bool \<Rightarrow> u16 \<Rightarrow> u16 \<Rightarrow> u8 \<Rightarrow> u16 \<times> u8) \<Rightarrow> bool" where
  "keeps_rest2 alu \<longleftrightarrow> (\<forall>by sr dr p. psw_rest (snd (alu by sr dr p)) = psw_rest p)"

definition keeps_rest1 :: "(bool \<Rightarrow> u16 \<Rightarrow> u8 \<Rightarrow> u16 \<times> u8) \<Rightarrow> bool" where
  "keeps_rest1 alu \<longleftrightarrow> (\<forall>by sr p. psw_rest (snd (alu by sr p)) = psw_rest p)"

lemma binary_keeps_rest [simp]:
  "keeps_rest2 alu_MOV" "keeps_rest2 alu_CMP" "keeps_rest2 alu_BIT" "keeps_rest2 alu_BIC" "keeps_rest2 alu_BIS"
  "keeps_rest2 alu_ADD" "keeps_rest2 alu_SUB"
  by (simp_all add: keeps_rest2_def alu_MOV_def alu_CMP_def alu_BIT_def alu_BIC_def alu_BIS_def alu_ADD_def alu_SUB_def Let_def)

lemma unary_keeps_rest:
  "unary_op g = Some (alu, wr) \<Longrightarrow> keeps_rest1 alu"
  unfolding unary_op_def
  by (auto simp: keeps_rest1_def alu_CLR_def alu_COM_def alu_INC_def alu_DEC_def alu_NEG_def alu_ADC_def alu_SBC_def
      alu_TST_def alu_ROR_def alu_ROL_def alu_ASR_def alu_ASL_def Let_def split: if_splits)

lemma SWAB_keeps_rest: "psw_rest (snd (alu_SWAB vbit dr p)) = psw_rest p"
proof -
  have k: "psw_rest (p AND NOT 0xc) = psw_rest p" "psw_rest (p OR 8) = psw_rest p" "psw_rest (p OR 4) = psw_rest p" for p
    by (simp_all add: psw_rest_simps) (simp_all add: psw_rest_def and.assoc)
  show ?thesis by (simp add: alu_SWAB_def Let_def k [simplified])
qed


subsection \<open>No instruction leaves user mode\<close>

definition end_confined ::
    "u16 \<Rightarrow> bool \<times> bool \<times> (nat \<Rightarrow> u16) \<times> (nat \<Rightarrow> u16) \<Rightarrow> (nat \<Rightarrow> u16) \<Rightarrow> ending34 \<times> 'e kd11ea \<Rightarrow> bool" where
  "end_confined q mp sps x = user_confined q mp sps (snd x)"

lemma end_confined_svc [intro]: "outcome_confined q mp sps x \<Longrightarrow> end_confined q mp sps (svc34 x)"
  by (cases x) (simp_all add: svc34_def end_confined_def)

lemma end_confined_pair [simp]: "end_confined q mp sps (e, s) = user_confined q mp sps s"
  by (simp add: end_confined_def)

lemma confined_with_cc:
  assumes "user_confined q mp sps s" "psw_rest c = psw_rest (ucast (psw34 s))"
  shows "user_confined q mp sps (s\<lparr>psw34 := with_cc (psw34 s) c\<rparr>)"
  using assms by (intro confined_psw with_cc_keeps)

lemma confined_exec_binary:
  assumes "user_confined q mp sps s" "confining q mp" "keeps_rest2 alu"
  shows "end_confined q mp sps (exec_binary34 B alu wr by s)"
proof -
  have "outcome_confined q mp sps
      (let (b, c) = alu by (r34 u 8) (r34 u 9) (ucast (psw34 u)); s1 = u\<lparr>psw34 := with_cc (psw34 u) c\<rparr>
       in if wr then writedest34 B b by s1 else Okay s1)"
    if u: "user_confined q mp sps u" for u
  proof -
    obtain b c where a: "alu by (r34 u 8) (r34 u 9) (ucast (psw34 u)) = (b, c)" by fastforce
    have "psw_rest (snd (alu by (r34 u 8) (r34 u 9) (ucast (psw34 u)))) = psw_rest (ucast (psw34 u))"
      using assms(3) unfolding keeps_rest2_def by blast
    then have "psw_rest c = psw_rest (ucast (psw34 u))" by (simp add: a)
    from confined_with_cc [OF u this] show ?thesis
      using assms(2) by (auto simp: a Let_def intro: confined_writedest)
  qed
  then show ?thesis
    unfolding exec_binary34_def using assms(1,2) by (intro end_confined_svc outcome_confined_bind confined_RD)
qed

lemma confined_exec_MOV:
  assumes "user_confined q mp sps s" "confining q mp"
  shows "end_confined q mp sps (exec_MOV34 B s)"
proof -
  have "outcome_confined q mp sps
      (let (b, c) = alu_MOV by (r34 u 8) (r34 u 9) (ucast (psw34 u)); s1 = u\<lparr>psw34 := with_cc (psw34 u) c\<rparr>
       in if is_register m then Okay (set_r34 n b s1) else writedest34 B b by s1)"
    if u: "user_confined q mp sps u" for u "by" m n
  proof -
    obtain b c where a: "alu_MOV by (r34 u 8) (r34 u 9) (ucast (psw34 u)) = (b, c)" by fastforce
    have "psw_rest (snd (alu_MOV by (r34 u 8) (r34 u 9) (ucast (psw34 u)))) = psw_rest (ucast (psw34 u))"
      by (simp add: alu_MOV_def)
    then have "psw_rest c = psw_rest (ucast (psw34 u))" by (simp add: a)
    from confined_with_cc [OF u this] show ?thesis
      using assms(2) by (auto simp: a Let_def intro: confined_writedest)
  qed
  note step = this
  show ?thesis
    unfolding exec_MOV34_def Let_def [of "is_byte34 s"]
    by (intro end_confined_svc outcome_confined_bind confined_RD assms step)
qed

lemma confined_exec_unary:
  assumes "user_confined q mp sps s" "confining q mp" "keeps_rest1 alu"
  shows "end_confined q mp sps (exec_unary34 B alu wr s)"
proof -
  have "outcome_confined q mp sps
      (let (b, c) = alu by (r34 u 8) (ucast (psw34 u)); s1 = u\<lparr>psw34 := with_cc (psw34 u) c\<rparr>
       in if wr then writedest34 B b by s1 else Okay s1)"
    if u: "user_confined q mp sps u" for u "by"
  proof -
    obtain b c where a: "alu by (r34 u 8) (ucast (psw34 u)) = (b, c)" by fastforce
    have "psw_rest (snd (alu by (r34 u 8) (ucast (psw34 u)))) = psw_rest (ucast (psw34 u))"
      using assms(3) unfolding keeps_rest1_def by blast
    then have "psw_rest c = psw_rest (ucast (psw34 u))" by (simp add: a)
    from confined_with_cc [OF u this] show ?thesis
      using assms(2) by (auto simp: a Let_def intro: confined_writedest)
  qed
  note step = this
  show ?thesis
    unfolding exec_unary34_def Let_def [of "is_byte34 s"]
    by (intro end_confined_svc outcome_confined_bind confined_RD assms step)
qed

lemma set_cc_keeps: "set_cc n z v c p AND 0xf0e0 = p AND 0xf0e0"
proof -
  have "cc_bits n z v c AND 0xf0e0 = 0" by (simp add: cc_bits_def)
  moreover have "(p AND NOT 0xf) AND 0xf0e0 = p AND 0xf0e0" by (simp add: and.assoc)
  ultimately show ?thesis unfolding set_cc_def by (simp only: bit.conj_disj_distrib2 or.right_neutral)
qed

lemma eis_keeps:
  "snd (eis_MUL g d rs p) AND 0xf0e0 = p AND 0xf0e0" "snd (eis_DIV g d rs p) AND 0xf0e0 = p AND 0xf0e0"
  "snd (eis_ASH g d rs p) AND 0xf0e0 = p AND 0xf0e0" "snd (eis_ASHC g d rs p) AND 0xf0e0 = p AND 0xf0e0"
proof -
  show "snd (eis_MUL g d rs p) AND 0xf0e0 = p AND 0xf0e0" unfolding eis_MUL_def Let_def snd_conv by (rule set_cc_keeps)
  show "snd (eis_DIV g d rs p) AND 0xf0e0 = p AND 0xf0e0"
    unfolding eis_DIV_def Let_def by (cases "d = 0") (simp_all only: if_True if_False simp_thms snd_conv set_cc_keeps)
  show "snd (eis_ASH g d rs p) AND 0xf0e0 = p AND 0xf0e0"
    unfolding eis_ASH_def Let_def
    by (simp only: if_distrib [of snd] if_distrib [of "\<lambda>x. x AND _"] snd_conv set_cc_keeps prod.case_distrib [of snd]
        prod.case_distrib [of "\<lambda>x. x AND _"] if_cancel case_prod_unfold)
  show "snd (eis_ASHC g d rs p) AND 0xf0e0 = p AND 0xf0e0"
    unfolding eis_ASHC_def Let_def case_prod_unfold snd_conv by (rule set_cc_keeps)
qed

lemma confined_exec_eis:
  assumes "user_confined q mp sps s" "confining q mp" "\<And>g d rs p. snd (f g d rs p) AND 0xf0e0 = p AND 0xf0e0"
  shows "end_confined q mp sps (exec_eis B f s)"
proof -
  have step: "outcome_confined q mp sps (let (rs, p) = f (eis_reg u) (r34 u 9) (r34 u) (psw34 u) in Okay (u\<lparr>r34 := rs, psw34 := p\<rparr>))"
    if u: "user_confined q mp sps u" for u
  proof -
    obtain rs p where a: "f (eis_reg u) (r34 u 9) (r34 u) (psw34 u) = (rs, p)" by fastforce
    have "p AND 0xf0e0 = psw34 u AND 0xf0e0" using assms(3) [of "eis_reg u" "r34 u 9" "r34 u" "psw34 u"] by (simp only: a snd_conv)
    then have "user_confined q mp sps (u\<lparr>r34 := rs, psw34 := p\<rparr>)" using u by (intro confined_psw) simp_all
    then show ?thesis by (simp add: a)
  qed
  show ?thesis unfolding exec_eis_def by (intro end_confined_svc outcome_confined_bind confined_RD assms step)
qed

lemma confined_set_nz: "user_confined q mp sps s \<Longrightarrow> user_confined q mp sps (set_nz34 b s)"
  unfolding set_nz34_def by (rule confined_with_cc) simp_all

lemma confined_extended:
  assumes "user_confined q mp sps s" "confining q mp"
  shows "end_confined q mp sps (exec_extended B s)"
proof -
  have xor: "end_confined q mp sps (exec_XOR B s)"
    unfolding exec_XOR_def Let_def
    by (intro end_confined_svc outcome_confined_bind confined_RD confined_writedest assms)
       (simp_all add: confined_with_cc assms(2))
  have sob: "end_confined q mp sps (exec_SOB s)" using assms(1) by (simp add: exec_SOB_def Let_def)
  show ?thesis
    unfolding exec_extended_def Let_def
    using xor sob confined_exec_eis [OF assms eis_keeps(1)] confined_exec_eis [OF assms eis_keeps(2)]
      confined_exec_eis [OF assms eis_keeps(3)] confined_exec_eis [OF assms eis_keeps(4)] assms(1)
    by simp
qed

text \<open>Instructions that load the PSW keep mode and priority of a user program.\<close>

lemma user_fields:
  assumes "(p :: u16) AND 0xf000 = 0xf000"
  shows "drop_bit 14 p AND 3 = 3" "drop_bit 12 p AND 3 = 3"
proof -
  have "drop_bit 14 (p AND 0xf000) = drop_bit 14 0xf000" "drop_bit 12 (p AND 0xf000) = drop_bit 12 0xf000"
    by (simp_all only: assms)
  then have a: "drop_bit 14 p AND 3 = 3" and b: "drop_bit 12 p AND 0xf = 0xf" by (simp_all add: drop_bit_and)
  show "drop_bit 14 p AND 3 = 3" by (rule a)
  have "(drop_bit 12 p AND 0xf) AND 3 = 3" by (simp only: b) simp
  then show "drop_bit 12 p AND 3 = 3" by (simp add: and.assoc)
qed

lemma confined_user_psw:
  assumes "user_confined q mp sps s" "confining q mp"
  shows "psw34 s AND 0xf000 = 0xf000" "\<not> IS_KERNEL s"
proof -
  have "(psw34 s AND 0xf0e0) AND 0xf000 = 0xf000" using assms by (simp only: user_confined_def confining_def)
  then show p: "psw34 s AND 0xf000 = 0xf000" by (simp add: and.assoc)
  then show "\<not> IS_KERNEL s" by (simp add: IS_KERNEL_def psw_mode_def user_fields KT11D_MODE_KERNEL_def)
qed

lemma stack_of_user: "p AND 0xf000 = 0xf000 \<Longrightarrow> stack_of p = KD11EA_SP_USER"
  by (simp only: stack_of_def psw_mode_def user_fields KT11D_MODE_KERNEL_def) simp

lemma user_set_modes: "p AND 0xf000 = 0xf000 \<Longrightarrow> modes_of_mmu (kt11d_set_modes p m) = user_modes"
  by (simp only: kt11d_set_modes_def Let_def user_fields)
     (simp add: kt11d_set_access_def modes_of_mmu_def user_modes_def space_of_mode_def KT11D_MODE_USER_def KT11D_MODE_KERNEL_def)

lemma confined_set_psw:
  assumes u: "user_confined q mp sps s" and c: "confining q mp" and p: "p AND 0xf0e0 = psw34 s AND 0xf0e0"
  shows "user_confined q mp sps (kd11ea_set_psw B p s)"
proof -
  have m: "(p AND PSW_MASK) AND 0xf0e0 = psw34 s AND 0xf0e0" using p by (simp add: PSW_MASK_def and.assoc)
  have "((p AND PSW_MASK) AND 0xf0e0) AND 0xf000 = 0xf000"
    unfolding m using confined_user_psw(1) [OF u c] by (simp add: and.assoc)
  then have top: "(p AND PSW_MASK) AND 0xf000 = 0xf000" by (simp add: and.assoc)
  have st: "stack_of (psw34 s) = stack_of (p AND PSW_MASK)"
    by (simp only: stack_of_user [OF top] stack_of_user [OF confined_user_psw(1) [OF u c]])
  have ok: "mmu_ok (kt11d_set_modes (p AND PSW_MASK) (mmu s))" using u by (intro set_modes_ok) (simp add: user_confined_def)
  have mo: "modes_of_mmu (kt11d_set_modes (p AND PSW_MASK) (mmu s)) = user_modes"
    by (rule user_set_modes [OF top])
  have ma: "map_of_mmu (kt11d_set_modes (p AND PSW_MASK) (mmu s)) = map_of_mmu (mmu s)"
    by (simp add: kt11d_set_modes_def Let_def kt11d_set_access_def map_of_mmu_def)
  show ?thesis
    using u ok mo ma m unfolding kd11ea_set_psw_def Let_def swap_stack_def st
    by (simp add: user_confined_def)
qed

lemma merge_user_psw:
  fixes p d :: u16
  shows "(p AND (0xff00 OR PSW_T34)) OR ((d AND (0xff AND NOT PSW_T34) AND NOT PSW_PR) OR (p AND PSW_PR)) = x \<Longrightarrow>
      x AND 0xf0e0 = p AND 0xf0e0"
    "(d AND NOT (0xf000 OR PSW_PR)) OR (p AND (0xf000 OR PSW_PR)) = x \<Longrightarrow> x AND 0xf0e0 = p AND 0xf0e0"
proof -
  have j: "(p AND 0xf000) OR (p AND 0xe0) = p AND 0xf0e0"
    by (simp add: bit.conj_disj_distrib [symmetric])
  show "(p AND (0xff00 OR PSW_T34)) OR ((d AND (0xff AND NOT PSW_T34) AND NOT PSW_PR) OR (p AND PSW_PR)) = x \<Longrightarrow>
      x AND 0xf0e0 = p AND 0xf0e0"
    by (elim subst) (simp add: bit.conj_disj_distrib2 and.assoc PSW_T34_def PSW_PR_def j)
  show "(d AND NOT (0xf000 OR PSW_PR)) OR (p AND (0xf000 OR PSW_PR)) = x \<Longrightarrow> x AND 0xf0e0 = p AND 0xf0e0"
    by (elim subst) (simp add: bit.conj_disj_distrib2 and.assoc PSW_PR_def)
qed

lemma confined_MTPS:
  assumes "user_confined q mp sps s" "confining q mp"
  shows "end_confined q mp sps (exec_MTPS B s)"
proof -
  have step: "outcome_confined q mp sps (Okay (kd11ea_set_psw B
      ((psw34 u AND (0xff00 OR PSW_T34)) OR (if \<not> IS_KERNEL u
        then (r34 u 9 AND (0xff AND NOT PSW_T34) AND NOT PSW_PR) OR (psw34 u AND PSW_PR)
        else r34 u 9 AND (0xff AND NOT PSW_T34))) u))"
    if u: "user_confined q mp sps u" for u
    using confined_user_psw(2) [OF u assms(2)] confined_set_psw [OF u assms(2) merge_user_psw(1) [OF refl], of B "r34 u 9"]
    by (simp only: if_True simp_thms outcome_confined_simps)
  show ?thesis
    unfolding exec_MTPS_def Let_def
    by (intro end_confined_svc outcome_confined_bind confined_RD assms) (simp only: and.assoc [symmetric], rule step [unfolded and.assoc [symmetric]])
qed

lemma confined_RTI:
  assumes "user_confined q mp sps s" "confining q mp"
  shows "end_confined q mp sps (exec_RTI34 B s)"
proof -
  let ?x = "on_okay (dati34 B False (POP34 s)) (\<lambda>s. dati34 B False (POP34 (set_r34 7 (bdata34 s) s)))"
  have "outcome_confined q mp sps ?x"
    by (intro outcome_confined_bind confined_dati assms(2)) (simp_all add: assms(1))
  then show ?thesis
  proof (cases ?x)
    case (Okay u)
    with \<open>outcome_confined q mp sps ?x\<close> have u: "user_confined q mp sps u" by simp
    have "user_confined q mp sps (kd11ea_set_psw B (returned_psw (bdata34 u) u) u)"
      unfolding returned_psw_def if_P [OF confined_user_psw(2) [OF u assms(2)]]
      by (rule confined_set_psw [OF u assms(2) merge_user_psw(2) [OF refl]])
    then show ?thesis by (simp add: exec_RTI34_def Okay Let_def)
  qed (simp add: exec_RTI34_def)
qed

lemma confined_PUSH: "user_confined q mp sps s \<Longrightarrow> user_confined q mp sps (PUSH34 inhov s)"
  by (simp add: PUSH34_def Let_def confined_mark)

lemma confined_OUT:
  "user_confined q mp sps s \<Longrightarrow> confining q mp \<Longrightarrow> outcome_confined q mp sps (OUT34 B a d s)"
  unfolding OUT34_def by (rule confined_dato) simp_all

lemma no_other_stack: "user_confined q mp sps s \<Longrightarrow> \<not> other_stack m s"
  by (simp add: other_stack_def user_confined_def modes_of_mmu_def user_modes_def)

lemma confined_MFPI:
  assumes "user_confined q mp sps s" "confining q mp"
  shows "end_confined q mp sps (exec_MFPI B s)"
  unfolding exec_MFPI_def Let_def
proof (intro end_confined_svc outcome_confined_bind)
  show "outcome_confined q mp sps (if is_register (dst_op34 s)
      then Okay (s\<lparr>bdata34 := (if other_stack (dst_op34 s) s then stackpointer s (prev_stack s) else r34 s (reg_no (dst_op34 s)))\<rparr>)
      else on_okay (addrdest B (dst_op34 s) False s) (\<lambda>s. restored (dati34 B False (SPACE_PREV s))))"
    using assms by (auto intro!: outcome_confined_bind confined_addrdest confined_restored confined_dati confined_access)
qed (use assms(2) in \<open>auto intro!: confined_OUT confined_PUSH confined_set_nz\<close>)

lemma confined_MTPI:
  assumes "user_confined q mp sps s" "confining q mp"
  shows "end_confined q mp sps (exec_MTPI B s)"
proof -
  have "outcome_confined q mp sps (if is_register m
       then Okay (if other_stack m u then u\<lparr>stackpointer := (stackpointer u)(prev_stack u := b)\<rparr> else set_r34 (reg_no m) b u)
       else on_okay (addrdest B m False u) (\<lambda>s. restored (dato34 B False (SPACE_PREV (s\<lparr>bdata34 := b\<rparr>)))))"
    if "user_confined q mp sps u" for u m b
    using that assms(2) no_other_stack [OF that]
    by (auto intro!: outcome_confined_bind confined_addrdest confined_restored confined_dato confined_access)
  note step = this
  show ?thesis
    unfolding exec_MTPI_def Let_def
    by (intro end_confined_svc outcome_confined_bind confined_dati step confined_set_nz)
       (simp_all add: assms)
qed

lemma confined_MARK:
  assumes "user_confined q mp sps s" "confining q mp"
  shows "end_confined q mp sps (exec_MARK B s)"
  unfolding exec_MARK_def Let_def
  by (intro end_confined_svc outcome_confined_bind confined_dati assms(2)) (simp_all add: assms(1))

lemma confined_dest_or_register:
  assumes "user_confined q mp sps s" "confining q mp"
  shows "end_confined q mp sps (dest_or_register B by f s)"
proof -
  have "outcome_confined q mp sps (if is_register (dst_op34 (set_nz34 (f u) u))
      then Okay (set_r34 (reg_no (dst_op34 (set_nz34 (f u) u))) (f u) (set_nz34 (f u) u))
      else writedest34 B (f u) by (set_nz34 (f u) u))"
    if "user_confined q mp sps u" for u
    using confined_set_nz [OF that] assms(2) by (auto intro: confined_writedest)
  note step = this
  have "outcome_confined q mp sps (if is_register (dst_op34 s) then Okay s else addrdest B (dst_op34 s) by s)"
    using assms by (auto intro: confined_addrdest)
  then show ?thesis
    unfolding dest_or_register_def Let_def by (intro end_confined_svc outcome_confined_bind step)
qed

lemma confined_jumps:
  assumes "user_confined q mp sps s" "confining q mp"
  shows "end_confined q mp sps (exec_JSR34 B s)" "end_confined q mp sps (exec_JMP34 B s)"
    "end_confined q mp sps (exec_RTS34 B s)"
proof -
  show "end_confined q mp sps (exec_JMP34 B s)"
    unfolding exec_JMP34_def using assms by (auto intro!: end_confined_svc outcome_confined_bind confined_addrdest)
  show "end_confined q mp sps (exec_RTS34 B s)"
    unfolding exec_RTS34_def Let_def
    by (intro end_confined_svc outcome_confined_bind confined_dati assms(2)) (simp_all add: assms(1))
  show "end_confined q mp sps (exec_JSR34 B s)"
    unfolding exec_JSR34_def Let_def
    using assms by (auto intro!: end_confined_svc outcome_confined_bind confined_addrdest confined_OUT confined_PUSH)
qed

lemma confined_SWAB:
  assumes "user_confined q mp sps s" "confining q mp"
  shows "end_confined q mp sps (exec_SWAB34 B s)"
proof -
  have "outcome_confined q mp sps (let (b, c) = alu_SWAB True (r34 u 9) (ucast (psw34 u)) in
        writedest34 B b by (u\<lparr>psw34 := with_cc (psw34 u) c\<rparr>))"
    if u: "user_confined q mp sps u" for u "by"
  proof -
    obtain b c where a: "alu_SWAB True (r34 u 9) (ucast (psw34 u)) = (b, c)" by fastforce
    have "psw_rest c = psw_rest (ucast (psw34 u))" using SWAB_keeps_rest [of True "r34 u 9" "ucast (psw34 u)"] by (simp add: a)
    from confined_with_cc [OF u this] show ?thesis using assms(2) by (simp add: a confined_writedest)
  qed
  note step = this
  show ?thesis
    unfolding exec_SWAB34_def Let_def [of "is_byte34 s"]
    by (intro end_confined_svc outcome_confined_bind confined_RD assms step)
qed

lemma cc_only_keeps:
  "(p AND NOT (w AND 0xf)) AND 0xf0e0 = p AND (0xf0e0 :: u16)" "(p OR (w AND 0xf)) AND 0xf0e0 = p AND (0xf0e0 :: u16)"
proof -
  show "(p OR (w AND 0xf)) AND 0xf0e0 = p AND (0xf0e0 :: u16)"
    by (simp add: bit.conj_disj_distrib2 and.assoc)
  have d: "\<not> (bit (0xf :: u16) n \<and> bit (0xf0e0 :: u16) n)" for n
  proof -
    have "(0xf :: u16) AND 0xf0e0 = 0" by simp
    then have "\<not> bit ((0xf :: u16) AND 0xf0e0) n" by (simp only: bit_0_eq bot_apply) simp
    then show ?thesis unfolding bit_and_iff .
  qed
  show "(p AND NOT (w AND 0xf)) AND 0xf0e0 = p AND (0xf0e0 :: u16)"
  proof (rule bit_word_eqI)
    fix n :: nat assume "n < LENGTH(16)"
    then show "bit ((p AND NOT (w AND 0xf)) AND 0xf0e0) n = bit (p AND (0xf0e0 :: u16)) n"
      unfolding bit_and_iff bit_not_iff using d [of n] by auto
  qed
qed

lemma confined_operate:
  assumes "user_confined q mp sps s" "confining q mp"
  shows "end_confined q mp sps (exec_operate34 B s)"
proof -
  have "user_confined q mp sps (s\<lparr>state34 := KD11EA_STATE_WAITING\<rparr>)"
    using assms(1) by (simp add: user_confined_def)
  then show ?thesis
    using confined_user_psw(2) [OF assms] confined_RTI [OF assms] assms(1)
    by (simp add: exec_operate34_def)
qed

lemma confined_misc:
  assumes "user_confined q mp sps s" "confining q mp"
  shows "end_confined q mp sps (exec_misc34 B s)"
  unfolding exec_misc34_def Let_def
  using confined_jumps [OF assms] confined_SWAB [OF assms] confined_operate [OF assms] assms(1)
    confined_psw [OF assms(1) cc_only_keeps(1)] confined_psw [OF assms(1) cc_only_keeps(2)]
  by (simp split: if_splits)

lemma confined_program_control:
  assumes "user_confined q mp sps s" "confining q mp"
  shows "end_confined q mp sps (exec_program_control34 B s)"
proof -
  have "end_confined q mp sps (exec_branch34 s)" using assms(1) by (simp add: exec_branch34_def)
  then show ?thesis
    unfolding exec_program_control34_def Let_def
    using confined_jumps [OF assms] confined_misc [OF assms] assms(1) by simp
qed

lemma confined_unary_group:
  assumes "user_confined q mp sps s" "confining q mp"
  shows "end_confined q mp sps (exec_unary_group34 B s)"
proof (cases "unary_op (ir34 s AND 0xfc0)")
  case None
  then show ?thesis
    unfolding exec_unary_group34_def Let_def exec_SXT_def exec_MFPS_def
    using confined_MTPS [OF assms] confined_MARK [OF assms] confined_MFPI [OF assms] confined_MTPI [OF assms]
      confined_dest_or_register [OF assms] confined_program_control [OF assms]
    by simp
next
  case (Some x)
  then obtain alu wr where x: "unary_op (ir34 s AND 0xfc0) = Some (alu, wr)" by (cases x) auto
  then show ?thesis
    using confined_exec_unary [OF assms unary_keeps_rest [OF x]] by (simp add: exec_unary_group34_def Let_def)
qed

lemma confined_execute:
  assumes "user_confined q mp sps s" "confining q mp"
  shows "end_confined q mp sps (execute34 B s)"
  unfolding execute34_def Let_def
  using confined_exec_MOV [OF assms] confined_exec_binary [OF assms] confined_extended [OF assms]
    confined_unary_group [OF assms] assms(1)
  by simp

text \<open>One instruction, up to the trap it may end in.\<close>

definition instruction34 :: "'e cpu_bus \<Rightarrow> 'e kd11ea \<Rightarrow> 'e kd11ea" where
  "instruction34 B s =
     (case INA34 B (r34 s 7) (start_instruction s) of
        Abort t \<Rightarrow> t
      | Okay t \<Rightarrow> snd (execute34 B (fetched34 t)))"

lemma confined_instruction:
  assumes u: "user_confined q mp sps s" and c: "confining q mp"
  shows "user_confined q mp sps (instruction34 B s)"
proof -
  have st: "user_confined q mp sps (start_instruction s)"
    unfolding start_instruction_def confined_helpers
  proof (rule confined_mark, rule confined_mmu [OF u])
    show "mmu_ok (kt11d_instruction_start (mmu s))" using u by (intro instruction_start_ok) (simp add: user_confined_def)
  qed (simp_all add: kt11d_instruction_start_def map_of_mmu_def modes_of_mmu_def)
  have x: "outcome_confined q mp sps (INA34 B (r34 s 7) (start_instruction s))"
    unfolding INA34_def by (rule confined_dati [OF _ c]) (simp add: st)
  have f: "user_confined q mp sps (fetched34 t)" if t: "user_confined q mp sps t" for t
  proof -
    have "mmu_ok (kt11d_instruction_fetched (r34 t 7) (mmu t))" using t by (intro instruction_fetched_ok) (simp add: user_confined_def)
    then have "user_confined q mp sps (t\<lparr>mmu := kt11d_instruction_fetched (r34 t 7) (mmu t)\<rparr>)"
      by (rule confined_mmu [OF t]) (simp_all add: kt11d_instruction_fetched_def map_of_mmu_def modes_of_mmu_def)
    then show ?thesis by (simp add: fetched34_def Let_def user_confined_def set_r34_def)
  qed
  show ?thesis
    using x confined_execute [OF f c] unfolding instruction34_def
    by (cases "INA34 B (r34 s 7) (start_instruction s)") (auto simp: end_confined_def)
qed

text \<open>
  Property C6. A user program cannot leave its confinement: with relocation on, user as current and
  previous mode, and a map whose user pages grant no write into the I/O page, no instruction - whatever it
  is, and whether it completes or aborts - changes the mode or the priority in the PSW, the page registers,
  the selected spaces or the saved kernel stack pointer, and none halts the machine; only the trap
  sequence, through a vector in kernel space, gets out.
\<close>

theorem user_program_stays_confined:
  assumes "mmu_ok (mmu s)" "modes_of_mmu (mmu s) = user_modes" "enabled (mmu s)" "psw34 s AND 0xf000 = 0xf000"
    "state34 s \<noteq> KD11EA_STATE_HALTED"
    and "\<forall>va pa. translate (mmu s) KT11D_SPACE_USER va True = Some pa \<longrightarrow> pa < 0x3e000"
  shows "psw34 (instruction34 B s) AND 0xf0e0 = psw34 s AND 0xf0e0 \<and>
    map_of_mmu (mmu (instruction34 B s)) = map_of_mmu (mmu s) \<and> modes_of_mmu (mmu (instruction34 B s)) = user_modes \<and>
    stackpointer (instruction34 B s) = stackpointer s \<and> state34 (instruction34 B s) \<noteq> KD11EA_STATE_HALTED"
proof -
  let ?q = "psw34 s AND 0xf0e0" and ?mp = "map_of_mmu (mmu s)"
  have "user_confined ?q ?mp (stackpointer s) s" using assms(1,2,5) by (simp add: user_confined_def)
  moreover have "confining ?q ?mp"
    unfolding confining_def
  proof (intro conjI allI impI)
    show "?q AND 0xf000 = 0xf000" using assms(4) by (simp add: and.assoc)
    show "fst ?mp" using assms(3) by (simp add: map_of_mmu_def)
    fix m va pa assume "map_of_mmu m = ?mp" "translate m KT11D_SPACE_USER va True = Some pa"
    then show "pa < 0x3e000" using assms(6) translate_map by metis
  qed
  ultimately have "user_confined ?q ?mp (stackpointer s) (instruction34 B s)" by (rule confined_instruction)
  then show ?thesis by (simp add: user_confined_def)
qed

subsection \<open>Reads of memory\<close>

lemma dati34_memory:
  assumes "mmu_ok (mmu s)" "enabled (mmu s) \<or> \<not> maint (mmu s)" "\<not> access_illegal (mmu s)" "ba34 s AND 1 = 0"
    "translate (mmu s) (access_space (mmu s)) (ba34 s) False = Some pa" "pa < 0x3e000"
    "unibone_dati B (pa AND NOT 1) (env34 s) = (Some w, e)"
  obtains m where "dati34 B False s = Okay (s\<lparr>mmu := m, bdata34 := w, env34 := e, be34 := 0, autoinc_reg := None\<rparr>)"
    "mmu_ok m" "map_of_mmu m = map_of_mmu (mmu s)" "modes_of_mmu m = modes_of_mmu (mmu s)" "dest_ref m = dest_ref (mmu s)"
proof -
  have rd: "access_of False = KT11D_READ" by (simp add: access_of_def)
  obtain m where m: "kt11d_relocate (ba34 s) (access_space (mmu s)) KT11D_READ (mmu s) = (Some pa, m)"
    "mmu_ok m" "map_of_mmu m = map_of_mmu (mmu s)" "modes_of_mmu m = modes_of_mmu (mmu s)" "dest_ref m = dest_ref (mmu s)"
  proof (rule relocate_translate [OF assms(1-3), of "ba34 s" False])
    fix m
    assume "kt11d_relocate (ba34 s) (access_space (mmu s)) (access_of False) (mmu s) =
        (translate (mmu s) (access_space (mmu s)) (ba34 s) False, m)"
      and o: "mmu_ok m" "map_of_mmu m = map_of_mmu (mmu s)" "modes_of_mmu m = modes_of_mmu (mmu s)" "dest_ref m = dest_ref (mmu s)"
    then have "kt11d_relocate (ba34 s) (access_space (mmu s)) KT11D_READ (mmu s) = (Some pa, m)" by (simp only: rd assms(5))
    then show thesis using o by (rule that)
  qed
  have n: "\<not> 0x3e000 \<le> pa" using assms(6) by (simp add: not_le)
  have "internal_read34 pa (s\<lparr>mmu := m\<rparr>) = None" unfolding internal_read34_def using n by (simp only: if_False)
  then have "dati34 B False s = Okay (s\<lparr>mmu := m, bdata34 := w, env34 := e, be34 := 0, autoinc_reg := None\<rparr>)"
    using assms(4,7) by (simp add: dati34_def m(1) Let_def cycle_ok_def autoinc_commit_def)
  then show thesis using m(2-5) by (rule that)
qed

subsection \<open>A kernel stack that cannot be used\<close>

text \<open>
  A vector that can be read, whatever the state of the bus, and selects kernel mode: its words
  at \<open>v\<close> and \<open>v + 2\<close>.
\<close>

definition readable :: "'e cpu_bus \<Rightarrow> kt11d \<Rightarrow> u16 \<Rightarrow> (u16 \<Rightarrow> bool) \<Rightarrow> bool" where
  "readable B m va P \<longleftrightarrow> va AND 1 = 0 \<and>
     (\<exists>pa<0x3e000. translate m KT11D_SPACE_KERNEL va False = Some pa \<and>
        (\<forall>e. \<exists>w e'. unibone_dati B (pa AND NOT 1) e = (Some w, e') \<and> P w))"

definition kernel_vector :: "'e cpu_bus \<Rightarrow> kt11d \<Rightarrow> u16 \<Rightarrow> bool" where
  "kernel_vector B m v \<longleftrightarrow> readable B m v (\<lambda>w. True) \<and> readable B m (v + 2) (\<lambda>w. w AND 0xc000 = 0)"

definition odd_kernel_stack :: "'e cpu_bus \<Rightarrow> 'e kd11ea \<Rightarrow> bool" where
  "odd_kernel_stack B s \<longleftrightarrow> mmu_ok (mmu s) \<and> (enabled (mmu s) \<or> \<not> maint (mmu s)) \<and> IS_KERNEL s \<and>
     r34 s 6 AND 1 \<noteq> 0 \<and> kernel_vector B (mmu s) 4"

lemma readable_map:
  assumes "map_of_mmu m' = map_of_mmu m"
  shows "readable B m' va P = readable B m va P"
  unfolding readable_def translate_map [OF assms] ..

lemma readable_INA:
  assumes "readable B (mmu s) va P" "mmu_ok (mmu s)" "enabled (mmu s) \<or> \<not> maint (mmu s)"
    "access_space (mmu s) = KT11D_SPACE_KERNEL" "\<not> access_illegal (mmu s)"
  obtains m w e where "INA34 B va s = Okay (s\<lparr>ba34 := va, mmu := m, bdata34 := w, env34 := e, be34 := 0, autoinc_reg := None\<rparr>)"
    "P w" "mmu_ok m" "map_of_mmu m = map_of_mmu (mmu s)" "modes_of_mmu m = modes_of_mmu (mmu s)"
proof -
  obtain pa where pa: "pa < 0x3e000" "translate (mmu s) KT11D_SPACE_KERNEL va False = Some pa" "va AND 1 = 0"
    and r: "\<forall>e. \<exists>w e'. unibone_dati B (pa AND NOT 1) e = (Some w, e') \<and> P w"
    using assms(1) unfolding readable_def by blast
  obtain w e where w: "unibone_dati B (pa AND NOT 1) (env34 s) = (Some w, e)" "P w" using r by blast
  let ?s = "s\<lparr>ba34 := va\<rparr>"
  obtain m where "dati34 B False ?s = Okay (?s\<lparr>mmu := m, bdata34 := w, env34 := e, be34 := 0, autoinc_reg := None\<rparr>)"
    "mmu_ok m" "map_of_mmu m = map_of_mmu (mmu ?s)" "modes_of_mmu m = modes_of_mmu (mmu ?s)"
    by (rule dati34_memory [of ?s pa B w e]) (use assms pa w in simp_all)
  then show thesis using that w(2) by (simp add: INA34_def)
qed

lemma kernel_mode_psw:
  assumes "w AND 0xc000 = (0 :: u16)"
  shows "psw_mode (trap_psw w old AND PSW_MASK) = KT11D_MODE_KERNEL"
proof -
  have "(trap_psw w old AND PSW_MASK) AND 0xc000 = w AND 0xc000"
    unfolding trap_psw_def PSW_MASK_def by (simp add: bit.conj_disj_distrib2 and.assoc)
  then have "drop_bit 14 ((trap_psw w old AND PSW_MASK) AND 0xc000) = 0" using assms by (simp only: drop_bit_of_0)
  then show ?thesis by (simp add: psw_mode_def drop_bit_and KT11D_MODE_KERNEL_def)
qed

lemma set_psw_kernel:
  assumes "IS_KERNEL s" "psw_mode (p AND PSW_MASK) = KT11D_MODE_KERNEL"
  shows "kd11ea_set_psw B p s =
     s\<lparr>psw34 := p AND PSW_MASK, mmu := kt11d_set_modes (p AND PSW_MASK) (mmu s),
       env34 := unibone_prioritylevelchange B (ucast (drop_bit 5 (p AND PSW_MASK) AND 7)) (env34 s)\<rparr>"
proof -
  have "stack_of (psw34 s) = stack_of (p AND PSW_MASK)" using assms by (simp add: stack_of_def IS_KERNEL_def)
  then show ?thesis unfolding kd11ea_set_psw_def Let_def by (simp add: swap_stack_def)
qed

lemma map_of_mmu_modes [simp]:
  "map_of_mmu (kt11d_set_modes p m) = map_of_mmu m" "map_of_mmu (kt11d_set_access sp md m) = map_of_mmu m"
  "map_of_mmu (set_dest_ref d m) = map_of_mmu m"
  by (simp_all add: kt11d_set_modes_def Let_def kt11d_set_access_def set_dest_ref_def map_of_mmu_def)

lemma PUSH34_sel [simp]:
  "r34 (PUSH34 inhov s) = (r34 s)(6 := r34 s 6 - 2)" "be34 (PUSH34 inhov s) = be34 s"
  "autoinc_reg (PUSH34 inhov s) = autoinc_reg s" "psw34 (PUSH34 inhov s) = psw34 s" "env34 (PUSH34 inhov s) = env34 s"
  "mmu (PUSH34 inhov s) = set_dest_ref False (mmu s)" "stackpointer (PUSH34 inhov s) = stackpointer s"
  "state34 (PUSH34 inhov s) = state34 s" "intr34 (PUSH34 inhov s) = intr34 s" "ir34 (PUSH34 inhov s) = ir34 s"
  by (simp_all add: PUSH34_def Let_def stack_limit_def mark_dest_def set_r34_def)

lemma odd_minus_2: "(x - 2) AND 1 = x AND (1 :: u16)"
proof -
  have "even (x - 2) \<longleftrightarrow> even x" by simp
  then show ?thesis by (simp add: and_one_eq mod_2_eq_odd)
qed

text \<open>A trap sequence on an odd kernel stack reads its vector, fails to push, and leaves the count of bus errors at one.\<close>

lemma odd_stack_trap:
  assumes odd: "odd_kernel_stack B s" and v: "kernel_vector B (mmu s) v"
  obtains t where "trap_entry34 B inhov v s = Abort t" "odd_kernel_stack B t" "be34 t = 1" "trap_vector t = 4"
proof -
  let ?s0 = "SPACE_KERNEL (mark_dest False (set_r34 10 v s))"
  have o: "mmu_ok (mmu s)" "enabled (mmu s) \<or> \<not> maint (mmu s)" "IS_KERNEL s" "r34 s 6 AND 1 \<noteq> 0" "kernel_vector B (mmu s) 4"
    using odd by (simp_all add: odd_kernel_stack_def)
  have m0: "map_of_mmu (mmu ?s0) = map_of_mmu (mmu s)" by (simp add: SPACE_KERNEL_def mark_dest_def set_r34_def)
  have ok0: "mmu_ok (mmu ?s0)"
    using o(1) by (simp add: SPACE_KERNEL_def mark_dest_def set_r34_def set_access_keeps dest_ref_ok)
  have acc0: "access_space (mmu ?s0) = KT11D_SPACE_KERNEL" "\<not> access_illegal (mmu ?s0)"
    by (simp_all add: SPACE_KERNEL_def kt11d_set_access_def)
  have on0: "enabled (mmu ?s0) \<or> \<not> maint (mmu ?s0)" using o(2) map_of_mmu_D [OF m0] by simp
  have "readable B (mmu ?s0) v (\<lambda>w. True)" unfolding readable_map [OF m0] using v by (simp add: kernel_vector_def)
  then obtain m1 w1 e1 where s1: "INA34 B v ?s0 = Okay (?s0\<lparr>ba34 := v, mmu := m1, bdata34 := w1, env34 := e1, be34 := 0, autoinc_reg := None\<rparr>)"
    "mmu_ok m1" "map_of_mmu m1 = map_of_mmu (mmu ?s0)" "modes_of_mmu m1 = modes_of_mmu (mmu ?s0)"
    using readable_INA [OF _ ok0 on0 acc0] by blast
  let ?s1 = "?s0\<lparr>ba34 := v, mmu := m1, bdata34 := w1, env34 := e1, be34 := 0, autoinc_reg := None\<rparr>"
  have m1: "map_of_mmu (mmu ?s1) = map_of_mmu (mmu s)" using s1(3) m0 by simp
  have "readable B (mmu ?s1) (v + 2) (\<lambda>w. w AND 0xc000 = 0)"
    unfolding readable_map [OF m1] using v by (simp add: kernel_vector_def)
  moreover have "mmu_ok (mmu ?s1)" "enabled (mmu ?s1) \<or> \<not> maint (mmu ?s1)" using s1(2) o(2) map_of_mmu_D [OF m1] by simp_all
  moreover have "access_space (mmu ?s1) = KT11D_SPACE_KERNEL" "\<not> access_illegal (mmu ?s1)"
    using acc0 modes_of_mmu_D [OF s1(4)] by simp_all
  ultimately obtain m2 w2 e2 where s2: "INA34 B (v + 2) ?s1 =
      Okay (?s1\<lparr>ba34 := v + 2, mmu := m2, bdata34 := w2, env34 := e2, be34 := 0, autoinc_reg := None\<rparr>)"
    "w2 AND 0xc000 = 0" "mmu_ok m2" "map_of_mmu m2 = map_of_mmu (mmu ?s1)" "modes_of_mmu m2 = modes_of_mmu (mmu ?s1)"
    using readable_INA [of B ?s1 "v + 2" "\<lambda>w. w AND 0xc000 = 0"] by blast
  let ?s2 = "?s1\<lparr>ba34 := v + 2, mmu := m2, bdata34 := w2, env34 := e2, be34 := 0, autoinc_reg := None\<rparr>"
  let ?p = "trap_psw w2 (psw34 s)"
  have k: "psw_mode (?p AND PSW_MASK) = KT11D_MODE_KERNEL" by (rule kernel_mode_psw [OF s2(2)])
  let ?s3 = "kd11ea_set_psw B ?p (SPACE_RESTORE ?s2)"
  have p2: "psw34 ?s2 = psw34 s" "r34 ?s2 = (r34 s)(10 := v)" "r34 ?s1 = (r34 s)(10 := v)"
    by (simp_all add: SPACE_KERNEL_def mark_dest_def set_r34_def)
  have ker: "IS_KERNEL (SPACE_RESTORE ?s2)" using o(3) by (simp add: SPACE_RESTORE_def IS_KERNEL_def SPACE_KERNEL_def mark_dest_def set_r34_def)
  note s3 = set_psw_kernel [OF ker k, of B]
  have f3: "r34 ?s3 = (r34 s)(10 := v)" "be34 ?s3 = 0" "autoinc_reg ?s3 = None" "psw34 ?s3 = ?p AND PSW_MASK"
    unfolding s3 using p2 by (simp_all add: SPACE_RESTORE_def)
  have m2: "map_of_mmu (mmu ?s2) = map_of_mmu (mmu s)" using s2(4) m1 by simp
  have m3: "map_of_mmu (mmu ?s3) = map_of_mmu (mmu s)" unfolding s3 using m2 by (simp add: SPACE_RESTORE_def)
  have ok3: "mmu_ok (mmu ?s3)" unfolding s3 using s2(3) by (simp add: SPACE_RESTORE_def set_modes_ok set_access_keeps)
  define u where "u = (PUSH34 inhov ?s3)\<lparr>ba34 := r34 s 6 - 2, bdata34 := psw34 s\<rparr>"
  define t where "t = u\<lparr>trap_vector := 4, be34 := 1\<rparr>"
  have "OUT34 B (r34 (PUSH34 inhov ?s3) 6) (psw34 s) (PUSH34 inhov ?s3) = Abort t"
    using o(4) f3 by (simp add: OUT34_def dato34_def odd_minus_2 cycle_fails_def autoinc_undo_def t_def u_def)
  moreover have "r34 (mark_dest False (set_r34 10 v s)) 10 = v" "psw34 (mark_dest False (set_r34 10 v s)) = psw34 s"
    "r34 ?s1 10 = v"
    by (simp_all add: mark_dest_def set_r34_def SPACE_KERNEL_def)
  ultimately have "trap_entry34 B inhov v s = Abort t"
    using s1(1) s2(1) by (simp add: trap_entry34_def Let_def on_okay_def)
  moreover have "odd_kernel_stack B t"
  proof -
    have mt: "map_of_mmu (mmu t) = map_of_mmu (mmu s)" using m3 by (simp add: t_def u_def)
    have "mmu_ok (mmu t)" using ok3 by (simp add: t_def u_def dest_ref_ok)
    moreover have "kernel_vector B (mmu t) 4" using o(5) by (simp add: kernel_vector_def readable_map [OF mt])
    moreover have "IS_KERNEL t" using k f3(4) by (simp add: t_def u_def IS_KERNEL_def)
    ultimately show ?thesis
      using o(2,4) map_of_mmu_D [OF mt] f3(1) by (simp add: odd_kernel_stack_def t_def u_def odd_minus_2)
  qed
  ultimately show thesis by (rule that) (simp_all add: t_def)
qed

lemma odd_stack_never:
  assumes "run_trap34 B inhov v s = Some t"
  shows "\<not> (odd_kernel_stack B s \<and> kernel_vector B (mmu s) v)"
proof (rule run_trap34.raw_induct [where P = "\<lambda>B inhov v s t. \<not> (odd_kernel_stack B s \<and> kernel_vector B (mmu s) v)", OF _ assms],
    rule notI)
  fix run :: "'b cpu_bus \<Rightarrow> bool \<Rightarrow> u16 \<Rightarrow> 'b kd11ea \<Rightarrow> 'b kd11ea option" and B inhov v s t
  assume IH: "\<And>B inhov v s t. run B inhov v s = Some t \<Longrightarrow> \<not> (odd_kernel_stack B s \<and> kernel_vector B (mmu s) v)"
    and body: "(case trap_entry34 B inhov v s of
        Okay t \<Rightarrow>
          if psw34 t AND PSW_T34 \<noteq> 0 then run B inhov 0xc t
          else if traps34 t AND TRAP_STACK \<noteq> 0 then run B True 4 (t\<lparr>traps34 := traps34 t AND NOT TRAP_STACK\<rparr>)
          else if traps34 t AND TRAP_PWR \<noteq> 0 then run B inhov 0x14 (t\<lparr>traps34 := traps34 t AND NOT TRAP_PWR\<rparr>)
          else Some t
      | Abort t \<Rightarrow>
          if 1 < be34 t then Some (t\<lparr>state34 := KD11EA_STATE_HALTED\<rparr>) else run B inhov (trap_vector t) t) = Some t"
    and a: "odd_kernel_stack B s \<and> kernel_vector B (mmu s) v"
  from a obtain u where u: "trap_entry34 B inhov v s = Abort u" "odd_kernel_stack B u" "be34 u = 1" "trap_vector u = 4"
    using odd_stack_trap by blast
  then have "run B inhov 4 u = Some t" using body by simp
  from IH [OF this] u(2) show False by (simp add: odd_kernel_stack_def)
qed

text \<open>
  Property C35. The double bus error that should halt the machine is not noticed: if the kernel stack pointer is
  odd, a trap reads its vector successfully - which clears the count of bus errors - and then fails to
  push, traps again through vector 4, and so on for ever: the step never returns, so that not even the HALT switch
  is polled again. (The core of the 11/20 pushes first and halts.)
\<close>

theorem odd_kernel_stack_never_returns:
  assumes "mmu_ok (mmu s)" "enabled (mmu s) \<or> \<not> maint (mmu s)" "IS_KERNEL s" "r34 s 6 AND 1 \<noteq> 0"
    "kernel_vector B (mmu s) 4" "kernel_vector B (mmu s) v"
  shows "run_trap34 B inhov v s = None"
proof (rule ccontr)
  assume "run_trap34 B inhov v s \<noteq> None"
  then obtain t where "run_trap34 B inhov v s = Some t" by blast
  from odd_stack_never [OF this] assms show False by (simp add: odd_kernel_stack_def)
qed

subsection \<open>Samples\<close>

text \<open>A bus on which every word reads as zero, and a machine in kernel mode on it.\<close>

definition zero_bus :: "unit cpu_bus" where
  "zero_bus = \<lparr>unibone_dati = \<lambda>a e. (Some 0, e), unibone_dato = \<lambda>a w e. (True, e),
     unibone_datob = \<lambda>a w e. (True, e), unibone_prioritylevelchange = \<lambda>l e. e,
     unibone_bus_init = \<lambda>e. e, unibone_grant_interrupts = \<lambda>e. e\<rparr>"

definition sample34 :: "kt11d \<Rightarrow> u16 \<Rightarrow> u16 \<Rightarrow> unit kd11ea" where
  "sample34 m p sp =
     \<lparr>r34 = (\<lambda>_. 0)(6 := sp, 7 := 0x1000), b34 = 0, ba34 = 0, bdata34 = 0, ir34 = 0, psw34 = p,
      stackpointer = (\<lambda>_. 0), traps34 = 0, be34 = 0, state34 = KD11EA_STATE_RUNNING, trap_vector = 4,
      autoinc_reg = None, autoinc_amount = 0, mmu = m, intr34 = False, intrvec34 = 0, sw34 = 0, env34 = ()\<rparr>"

theorem odd_kernel_stack_never_returns_witness:
  "run_trap34 zero_bus False 4 (sample34 kt11d_reset 0 0x1001) = None"
proof -
  let ?m = "mmu (sample34 kt11d_reset 0 0x1001)"
  have off: "\<not> enabled ?m" "\<not> maint ?m" by (simp_all add: sample34_def mmu_eval)
  have "readable zero_bus ?m va P" if "va = 4 \<or> va = 6" "P 0" for va P
    using that off by (auto simp: readable_def translate_def kt11d_unrelocated_def zero_bus_def)
  then have "kernel_vector zero_bus ?m 4" by (simp add: kernel_vector_def)
  moreover have "mmu_ok ?m" by (simp add: sample34_def reset_ok)
  moreover have "IS_KERNEL (sample34 kt11d_reset 0 0x1001)" "r34 (sample34 kt11d_reset 0 0x1001) 6 AND 1 \<noteq> 0"
    by (simp_all add: sample34_def IS_KERNEL_def psw_mode_def KT11D_MODE_KERNEL_def)
  ultimately show ?thesis using off by (intro odd_kernel_stack_never_returns) simp_all
qed

text \<open>A map with one user page, read and write, at 040000.\<close>

definition user_map :: "mmu_event list" where
  "user_map = [Write_register 0x3ff80 0x7f06 0xffff, Write_register 0x3ffa0 0x0100 0xffff,
     Write_register 0x3ff7a 1 0xffff, Modes 0xf000]"

lemma user_map_run:
  "enabled (mmu_run user_map)" "modes_of_mmu (mmu_run user_map) = user_modes"
  "pdr (mmu_run user_map) i = (if i = 8 then 0x7f06 else 0)" "par (mmu_run user_map) i = (if i = 8 then 0x0100 else 0)"
  by (simp_all add: mmu_run_def user_map_def mmu_eval modes_of_mmu_def user_modes_def kt11d_set_modes_def Let_def
      space_of_mode_def)

theorem user_program_stays_confined_witness:
  "psw34 (instruction34 zero_bus (sample34 (mmu_run user_map) 0xf000 0x1000)) AND 0xf0e0 = 0xf000"
proof -
  let ?s = "sample34 (mmu_run user_map) 0xf000 0x1000"
  have m: "mmu ?s = mmu_run user_map" by (simp add: sample34_def)
  have closed: "pa < 0x3e000" if "translate (mmu_run user_map) KT11D_SPACE_USER va True = Some pa" for va pa
  proof -
    have "\<not> access_legal 0 a" for a by (simp add: access_legal_def PDR_ACF_def)
    then have "KT11D_SPACE_USER + va_page va = 8" "pa = of_nat (physical_address 0x0100 va)"
      using that by (auto simp: translate_def user_map_run split: if_splits)
    moreover have "physical_address 0x0100 va < 0x6000" by (simp add: physical_address_def)
    ultimately show ?thesis by (simp add: word_less_nat_alt unsigned_of_nat take_bit_nat_eq_self)
  qed
  have "psw34 (instruction34 zero_bus ?s) AND 0xf0e0 = psw34 ?s AND 0xf0e0"
    by (rule user_program_stays_confined [of ?s zero_bus, THEN conjunct1])
      (use closed in \<open>simp_all add: m user_map_run run_ok\<close>, simp_all add: sample34_def)
  then show ?thesis by (simp add: sample34_def)
qed

end
