(* ===== verification/KD11EA_Memory.thy ===== *)
theory KD11EA_Memory
  imports KD11EA_Modes KA11_Memory
begin

text \<open>
  The 11/34 with memory: under the contract \<open>cpu_memory\<close> of the bus, with relocation on or off,
  an interrupt is taken on the kernel stack and returned from.
\<close>

subsection \<open>Words of memory behind the map\<close>

text \<open>A virtual address that reads and writes the memory word at \<open>pa\<close>, outside the I/O page.\<close>

definition word_map :: "kt11d \<Rightarrow> nat \<Rightarrow> u16 \<Rightarrow> u32 \<Rightarrow> bool" where
  "word_map m sp va pa \<longleftrightarrow> va AND 1 = 0 \<and> pa AND NOT 1 = pa \<and> pa < 0x3e000 \<and>
     translate m sp va False = Some pa \<and> translate m sp va True = Some pa"

lemma word_map_same:
  assumes "map_of_mmu m' = map_of_mmu m"
  shows "word_map m' sp va pa = word_map m sp va pa"
  unfolding word_map_def translate_map [OF assms] ..

definition frame34 :: "'e kd11ea \<Rightarrow> bool \<times> u32 \<times> kd11ea_state \<times> u16 \<times> u16" where
  "frame34 s = (intr34 s, traps34 s, state34 s, ir34 s, sw34 s)"

text \<open>What a memory cycle leaves alone, and a state whose references are legal.\<close>

definition kept :: "'e kd11ea \<Rightarrow> 'e kd11ea \<Rightarrow> bool" where
  "kept s t \<longleftrightarrow> psw34 t = psw34 s \<and> stackpointer t = stackpointer s \<and> frame34 t = frame34 s \<and>
     map_of_mmu (mmu t) = map_of_mmu (mmu s) \<and> modes_of_mmu (mmu t) = modes_of_mmu (mmu s) \<and>
     (mmu_ok (mmu s) \<longrightarrow> mmu_ok (mmu t))"

definition referring :: "nat \<Rightarrow> 'e kd11ea \<Rightarrow> bool" where
  "referring sp s \<longleftrightarrow> mmu_ok (mmu s) \<and> (enabled (mmu s) \<or> \<not> maint (mmu s)) \<and> \<not> access_illegal (mmu s) \<and>
     access_space (mmu s) = sp"

lemma kept_refl [simp]: "kept s s"
  by (simp add: kept_def)

lemma kept_trans: "kept s t \<Longrightarrow> kept t u \<Longrightarrow> kept s u"
  by (simp add: kept_def)

lemma kept_referring: "kept s t \<Longrightarrow> referring sp s \<Longrightarrow> referring sp t"
  by (auto simp: kept_def referring_def dest: map_of_mmu_D modes_of_mmu_D)

lemma kept_map: "kept s t \<Longrightarrow> word_map (mmu t) sp va pa = word_map (mmu s) sp va pa"
  using word_map_same [of "mmu t" "mmu s"] unfolding kept_def by blast

context cpu_memory begin

lemma read34:
  assumes r: "referring sp s" and w: "word_map (mmu s) sp (ba34 s) pa" and m: "mem (env34 s) pa = Some w"
  obtains t where "dati34 B False s = Okay t" "r34 t = r34 s" "bdata34 t = w" "kept s t" "mem (env34 t) = mem (env34 s)"
proof -
  obtain e where e: "unibone_dati B pa (env34 s) = (Some w, e)" "mem e = mem (env34 s)" using dati_mem [OF m] by blast
  have a: "mmu_ok (mmu s)" "enabled (mmu s) \<or> \<not> maint (mmu s)" "\<not> access_illegal (mmu s)" "ba34 s AND 1 = 0"
    "translate (mmu s) (access_space (mmu s)) (ba34 s) False = Some pa" "pa < 0x3e000"
    "unibone_dati B (pa AND NOT 1) (env34 s) = (Some w, e)"
    using r w e(1) by (simp_all add: referring_def word_map_def)
  obtain mm where t: "dati34 B False s = Okay (s\<lparr>mmu := mm, bdata34 := w, env34 := e, be34 := 0, autoinc_reg := None\<rparr>)"
    "mmu_ok mm" "map_of_mmu mm = map_of_mmu (mmu s)" "modes_of_mmu mm = modes_of_mmu (mmu s)"
    by (rule dati34_memory [OF a])
  show thesis by (rule that [OF t(1)]) (use t e(2) in \<open>simp_all add: kept_def frame34_def\<close>)
qed

lemma write34:
  assumes r: "referring sp s" and w: "word_map (mmu s) sp (ba34 s) pa" and m: "mem (env34 s) pa \<noteq> None"
  obtains t where "dato34 B False s = Okay t" "r34 t = r34 s" "kept s t" "mem (env34 t) = (mem (env34 s))(pa \<mapsto> bdata34 s)"
proof -
  obtain e where e: "unibone_dato B pa (bdata34 s) (env34 s) = (True, e)" "mem e = (mem (env34 s))(pa \<mapsto> bdata34 s)"
    using dato_mem [OF m] by blast
  have a: "mmu_ok (mmu s)" "enabled (mmu s) \<or> \<not> maint (mmu s)" "\<not> access_illegal (mmu s)"
    using r by (simp_all add: referring_def)
  have wr: "access_of True = KT11D_WRITE" by (simp add: access_of_def)
  have tr: "translate (mmu s) (access_space (mmu s)) (ba34 s) True = Some pa" using r w by (simp add: referring_def word_map_def)
  obtain mm where mm: "kt11d_relocate (ba34 s) (access_space (mmu s)) KT11D_WRITE (mmu s) = (Some pa, mm)"
    "mmu_ok mm" "map_of_mmu mm = map_of_mmu (mmu s)" "modes_of_mmu mm = modes_of_mmu (mmu s)"
  proof (rule relocate_translate [OF a, of "ba34 s" True])
    fix mm
    assume "kt11d_relocate (ba34 s) (access_space (mmu s)) (access_of True) (mmu s) =
        (translate (mmu s) (access_space (mmu s)) (ba34 s) True, mm)"
      and o: "mmu_ok mm" "map_of_mmu mm = map_of_mmu (mmu s)" "modes_of_mmu mm = modes_of_mmu (mmu s)"
    then have "kt11d_relocate (ba34 s) (access_space (mmu s)) KT11D_WRITE (mmu s) = (Some pa, mm)" by (simp only: wr tr)
    then show thesis using o by (rule that)
  qed
  have n: "\<not> 0x3e000 \<le> pa" using w by (simp add: word_map_def not_le)
  have "internal_write34 B False pa (s\<lparr>mmu := mm\<rparr>) = None" unfolding internal_write34_def using n by (simp only: if_False)
  then have "dato34 B False s = Okay (s\<lparr>mmu := mm, env34 := e, be34 := 0, autoinc_reg := None\<rparr>)"
    using w e(1) by (simp add: dato34_def mm(1) Let_def cycle_ok_def autoinc_commit_def word_map_def)
  then show thesis by (rule that) (use mm e(2) in \<open>simp_all add: kept_def frame34_def\<close>)
qed

lemma push34:
  assumes r: "referring sp s" and w: "word_map (mmu s) sp (r34 s 6 - 2) pa" and m: "mem (env34 s) pa \<noteq> None"
    and l: "(r34 s 6 - 2) AND NOT 0xff \<noteq> 0"
  obtains t where "OUT34 B (r34 (PUSH34 inhov s) 6) w (PUSH34 inhov s) = Okay t" "r34 t = (r34 s)(6 := r34 s 6 - 2)"
    "kept s t" "mem (env34 t) = (mem (env34 s))(pa \<mapsto> w)"
proof -
  let ?u = "(PUSH34 inhov s)\<lparr>ba34 := r34 s 6 - 2, bdata34 := w\<rparr>"
  have u: "r34 ?u = (r34 s)(6 := r34 s 6 - 2)" "env34 ?u = env34 s" "ba34 ?u = r34 s 6 - 2" "bdata34 ?u = w" by simp_all
  have ma: "map_of_mmu (mmu ?u) = map_of_mmu (mmu s)" by simp
  have k: "kept s ?u"
    using l by (simp add: kept_def frame34_def PUSH34_def Let_def stack_limit_def mark_dest_def set_r34_def dest_ref_ok)
      (simp add: modes_of_mmu_def set_dest_ref_def)
  have "word_map (mmu ?u) sp (ba34 ?u) pa" using w unfolding u word_map_same [OF ma] .
  moreover have "mem (env34 ?u) pa \<noteq> None" using m unfolding u .
  ultimately obtain t where t: "dato34 B False ?u = Okay t" "r34 t = r34 ?u" "kept ?u t" "mem (env34 t) = (mem (env34 ?u))(pa \<mapsto> bdata34 ?u)"
    using write34 [OF kept_referring [OF k r]] by metis
  have "OUT34 B (r34 (PUSH34 inhov s) 6) w (PUSH34 inhov s) = Okay t" using t(1) by (simp add: OUT34_def)
  moreover have "r34 t = (r34 s)(6 := r34 s 6 - 2)" using t(2) unfolding u .
  moreover have "kept s t" by (rule kept_trans [OF k t(3)])
  moreover have "mem (env34 t) = (mem (env34 s))(pa \<mapsto> w)" using t(4) unfolding u .
  ultimately show thesis by (rule that)
qed

lemma pop34:
  assumes r: "referring sp s" and w: "word_map (mmu s) sp (r34 s 6) pa" and m: "mem (env34 s) pa = Some w"
  obtains t where "dati34 B False (POP34 s) = Okay t" "r34 t = (r34 s)(6 := r34 s 6 + 2)" "bdata34 t = w"
    "kept s t" "mem (env34 t) = mem (env34 s)"
proof -
  have u: "r34 (POP34 s) = (r34 s)(6 := r34 s 6 + 2)" "env34 (POP34 s) = env34 s" "ba34 (POP34 s) = r34 s 6" "mmu (POP34 s) = mmu s"
    by (simp_all add: POP34_def autoinc_pending_def set_r34_def)
  have k: "kept s (POP34 s)" using u by (simp add: kept_def frame34_def POP34_def autoinc_pending_def set_r34_def)
  have "word_map (mmu (POP34 s)) sp (ba34 (POP34 s)) pa" "mem (env34 (POP34 s)) pa = Some w" using w m u by simp_all
  then obtain t where t: "dati34 B False (POP34 s) = Okay t" "r34 t = r34 (POP34 s)" "bdata34 t = w" "kept (POP34 s) t"
      "mem (env34 t) = mem (env34 (POP34 s))"
    using read34 [OF kept_referring [OF k r]] by metis
  show thesis by (rule that [OF t(1)]) (use t u kept_trans [OF k t(4)] in simp_all)
qed

lemma fetch34:
  assumes r: "referring sp s" and w: "word_map (mmu s) sp va pa" and m: "mem (env34 s) pa = Some w"
  obtains t where "INA34 B va s = Okay t" "r34 t = r34 s" "bdata34 t = w" "kept s t" "mem (env34 t) = mem (env34 s)"
proof -
  let ?u = "s\<lparr>ba34 := va\<rparr>"
  have k: "kept s ?u" by (simp add: kept_def frame34_def)
  have "word_map (mmu ?u) sp (ba34 ?u) pa" "mem (env34 ?u) pa = Some w" using w m by simp_all
  then obtain t where t: "dati34 B False ?u = Okay t" "r34 t = r34 ?u" "bdata34 t = w" "kept ?u t" "mem (env34 t) = mem (env34 ?u)"
    using read34 [OF kept_referring [OF k r]] by metis
  show thesis by (rule that [of t]) (use t kept_trans [OF k t(4)] in \<open>simp_all add: INA34_def\<close>)
qed

text \<open>Loading a PSW: the stack pointer of the new mode becomes R6, the other one is saved.\<close>

lemma set_psw34:
  shows "psw34 (kd11ea_set_psw B p s) = p AND PSW_MASK" "frame34 (kd11ea_set_psw B p s) = frame34 s" "mem (env34 (kd11ea_set_psw B p s)) = mem (env34 s)"
    "mmu (kd11ea_set_psw B p s) = kt11d_set_modes (p AND PSW_MASK) (mmu s)" "bdata34 (kd11ea_set_psw B p s) = bdata34 s"
    "r34 (kd11ea_set_psw B p s) = (r34 s)(6 := if stack_of (psw34 s) = stack_of (p AND PSW_MASK) then r34 s 6 else stackpointer s (stack_of (p AND PSW_MASK)))"
    "stackpointer (kd11ea_set_psw B p s) = (if stack_of (psw34 s) = stack_of (p AND PSW_MASK) then stackpointer s
       else (stackpointer s)(stack_of (psw34 s) := r34 s 6))"
  unfolding kd11ea_set_psw_def Let_def swap_stack_def
  by (auto simp: frame34_def level_mem set_r34_def)

end

lemma set_modes_kernel:
  assumes "psw_mode p = KT11D_MODE_KERNEL"
  shows "access_space (kt11d_set_modes p m) = KT11D_SPACE_KERNEL" "\<not> access_illegal (kt11d_set_modes p m)"
  using assms by (simp_all add: kt11d_set_modes_def Let_def kt11d_set_access_def psw_mode_def space_of_mode_def)

subsection \<open>Traps\<close>

text \<open>The kernel stack pointer, whichever mode is current, and what a trap needs of memory.\<close>

definition kernel_sp :: "'e kd11ea \<Rightarrow> u16" where
  "kernel_sp s = (if IS_KERNEL s then r34 s 6 else stackpointer s KD11EA_SP_KERNEL)"

definition vector_memory :: "('e \<Rightarrow> u32 \<Rightarrow> u16 option) \<Rightarrow> 'e kd11ea \<Rightarrow> u16 \<Rightarrow> u16 \<Rightarrow> u16 \<Rightarrow> bool" where
  "vector_memory mem s v pc ps \<longleftrightarrow>
     (\<exists>pa pa'. word_map (mmu s) KT11D_SPACE_KERNEL v pa \<and> mem (env34 s) pa = Some pc \<and>
        word_map (mmu s) KT11D_SPACE_KERNEL (v + 2) pa' \<and> mem (env34 s) pa' = Some ps) \<and>
     ps AND 0xc000 = 0 \<and> ps AND PSW_T34 = 0"

definition stack_memory :: "('e \<Rightarrow> u32 \<Rightarrow> u16 option) \<Rightarrow> 'e kd11ea \<Rightarrow> u32 \<Rightarrow> u32 \<Rightarrow> bool" where
  "stack_memory mem s p1 p2 \<longleftrightarrow>
     word_map (mmu s) KT11D_SPACE_KERNEL (kernel_sp s - 2) p1 \<and> word_map (mmu s) KT11D_SPACE_KERNEL (kernel_sp s - 4) p2 \<and>
     mem (env34 s) p1 \<noteq> None \<and> mem (env34 s) p2 \<noteq> None \<and> p1 \<noteq> p2 \<and>
     (kernel_sp s - 2) AND NOT 0xff \<noteq> 0 \<and> (kernel_sp s - 4) AND NOT 0xff \<noteq> 0"

lemma trap_psw_T: "(trap_psw ps old AND PSW_MASK) AND PSW_T34 = ps AND PSW_T34"
  by (simp add: trap_psw_def PSW_MASK_def PSW_T34_def bit.conj_disj_distrib2 and.assoc)

context cpu_memory begin

lemma trap34:
  assumes ok: "mmu_ok (mmu s)" and on: "enabled (mmu s) \<or> \<not> maint (mmu s)" and tr: "traps34 s = 0"
    and vm: "vector_memory mem s v pc ps" and sm: "stack_memory mem s p1 p2"
  obtains t where "run_trap34 B inhov v s = Some t" "r34 t = (r34 s)(10 := v, 6 := kernel_sp s - 4, 7 := pc)"
    "psw34 t = trap_psw ps (psw34 s) AND PSW_MASK" "IS_KERNEL t" "frame34 t = frame34 s"
    "map_of_mmu (mmu t) = map_of_mmu (mmu s)" "referring KT11D_SPACE_KERNEL t"
    "stackpointer t = (if IS_KERNEL s then stackpointer s else (stackpointer s)(KD11EA_SP_USER := r34 s 6))"
    "mem (env34 t) = (mem (env34 s))(p1 \<mapsto> psw34 s, p2 \<mapsto> r34 s 7)"
proof -
  obtain pa pa' where vec: "word_map (mmu s) KT11D_SPACE_KERNEL v pa" "mem (env34 s) pa = Some pc"
      "word_map (mmu s) KT11D_SPACE_KERNEL (v + 2) pa'" "mem (env34 s) pa' = Some ps"
    and ps: "ps AND 0xc000 = 0" "ps AND PSW_T34 = 0"
    using vm by (auto simp: vector_memory_def)
  define a where "a = mark_dest False (set_r34 10 v s)"
  have a: "r34 a = (r34 s)(10 := v)" "psw34 a = psw34 s" "stackpointer a = stackpointer s" "frame34 a = frame34 s"
      "env34 a = env34 s" "map_of_mmu (mmu a) = map_of_mmu (mmu s)" "mmu_ok (mmu a)"
    using ok by (simp_all add: a_def mark_dest_def set_r34_def frame34_def dest_ref_ok)
  define b where "b = SPACE_KERNEL a"
  have b: "r34 b = r34 a" "psw34 b = psw34 a" "stackpointer b = stackpointer a" "frame34 b = frame34 a" "env34 b = env34 a"
      "map_of_mmu (mmu b) = map_of_mmu (mmu s)" "mmu_ok (mmu b)"
    using a by (simp_all add: b_def SPACE_KERNEL_def frame34_def set_access_keeps)
  have "enabled (mmu b) \<or> \<not> maint (mmu b)" using on map_of_mmu_D [OF b(6)] by simp
  then have rb: "referring KT11D_SPACE_KERNEL b"
    using b(7) by (simp add: referring_def b_def SPACE_KERNEL_def kt11d_set_access_def)
  have "word_map (mmu b) KT11D_SPACE_KERNEL v pa" "mem (env34 b) pa = Some pc"
    using vec(1,2) a(5) b(5) unfolding word_map_same [OF b(6)] by simp_all
  then obtain c where c: "INA34 B v b = Okay c" "r34 c = r34 b" "bdata34 c = pc" "kept b c" "mem (env34 c) = mem (env34 b)"
    by (rule fetch34 [OF rb])
  have rc: "referring KT11D_SPACE_KERNEL c" by (rule kept_referring [OF c(4) rb])
  have mc: "map_of_mmu (mmu c) = map_of_mmu (mmu s)" using c(4) b(6) by (simp add: kept_def)
  have "word_map (mmu c) KT11D_SPACE_KERNEL (v + 2) pa'" "mem (env34 c) pa' = Some ps"
    using vec(3,4) a(5) b(5) c(5) unfolding word_map_same [OF mc] by simp_all
  then obtain d where d: "INA34 B (v + 2) c = Okay d" "r34 d = r34 c" "bdata34 d = ps" "kept c d" "mem (env34 d) = mem (env34 c)"
    by (rule fetch34 [OF rc])
  define e where "e = SPACE_RESTORE d"
  have e: "r34 e = r34 d" "psw34 e = psw34 s" "stackpointer e = stackpointer s" "frame34 e = frame34 s" "env34 e = env34 d"
    using a b c(4) d(4) by (simp_all add: e_def SPACE_RESTORE_def kept_def frame34_def)
  have me: "map_of_mmu (mmu e) = map_of_mmu (mmu s)" "mmu_ok (mmu e)"
    using mc rc d(4) by (simp_all add: e_def SPACE_RESTORE_def kept_def referring_def set_access_keeps)
  let ?p = "trap_psw ps (psw34 s)"
  have k: "psw_mode (?p AND PSW_MASK) = KT11D_MODE_KERNEL" by (rule kernel_mode_psw [OF ps(1)])
  define f where "f = kd11ea_set_psw B ?p e"
  have st: "stack_of (?p AND PSW_MASK) = KD11EA_SP_KERNEL" using k by (simp add: stack_of_def)
  have ks: "stack_of (psw34 s) = (if IS_KERNEL s then KD11EA_SP_KERNEL else KD11EA_SP_USER)"
    by (simp add: stack_of_def IS_KERNEL_def)
  have f: "psw34 f = ?p AND PSW_MASK" "frame34 f = frame34 s" "mem (env34 f) = mem (env34 s)"
      "r34 f = (r34 s)(10 := v, 6 := kernel_sp s)"
      "stackpointer f = (if IS_KERNEL s then stackpointer s else (stackpointer s)(KD11EA_SP_USER := r34 s 6))"
    using e a b c d unfolding f_def
    by (auto simp: set_psw34 st ks kernel_sp_def KD11EA_SP_KERNEL_def KD11EA_SP_USER_def)
  have mf: "map_of_mmu (mmu f) = map_of_mmu (mmu s)" "mmu_ok (mmu f)"
    using me unfolding f_def set_psw34 by (simp_all add: set_modes_ok)
  have rf: "referring KT11D_SPACE_KERNEL f"
    using mf on map_of_mmu_D [OF mf(1)] set_modes_kernel [OF k] by (simp add: referring_def f_def set_psw34)
  have sm': "word_map (mmu f) KT11D_SPACE_KERNEL (r34 f 6 - 2) p1" "mem (env34 f) p1 \<noteq> None" "(r34 f 6 - 2) AND NOT 0xff \<noteq> 0"
    using sm f(3,4) unfolding word_map_same [OF mf(1)] by (simp_all add: stack_memory_def)
  obtain g where g: "OUT34 B (r34 (PUSH34 inhov f) 6) (psw34 s) (PUSH34 inhov f) = Okay g" "r34 g = (r34 f)(6 := r34 f 6 - 2)"
      "kept f g" "mem (env34 g) = (mem (env34 f))(p1 \<mapsto> psw34 s)"
    by (rule push34 [OF rf sm'])
  have rg: "referring KT11D_SPACE_KERNEL g" by (rule kept_referring [OF g(3) rf])
  have mg: "map_of_mmu (mmu g) = map_of_mmu (mmu s)" using g(3) mf by (simp add: kept_def)
  have sp2: "r34 g 6 - 2 = kernel_sp s - 4" using g(2) f(4) by simp
  have sm2: "word_map (mmu g) KT11D_SPACE_KERNEL (r34 g 6 - 2) p2" "mem (env34 g) p2 \<noteq> None" "(r34 g 6 - 2) AND NOT 0xff \<noteq> 0"
    using sm g(4) f(3) unfolding sp2 word_map_same [OF mg] by (simp_all add: stack_memory_def)
  obtain h where h: "OUT34 B (r34 (PUSH34 inhov g) 6) (r34 s 7) (PUSH34 inhov g) = Okay h" "r34 h = (r34 g)(6 := r34 g 6 - 2)"
      "kept g h" "mem (env34 h) = (mem (env34 g))(p2 \<mapsto> r34 s 7)"
    by (rule push34 [OF rg sm2])
  let ?t = "set_r34 7 pc h"
  have entry: "trap_entry34 B inhov v s = Okay ?t"
    using c(1,2,3) d(1,3) g(1) h(1) a b
    by (simp add: trap_entry34_def Let_def on_okay_def a_def [symmetric] b_def [symmetric] e_def [symmetric] f_def [symmetric])
  have kt: "kept f h" by (rule kept_trans [OF g(3) h(3)])
  have T: "psw34 h AND PSW_T34 = 0" using kt f(1) ps(2) trap_psw_T by (simp add: kept_def)
  have t0: "traps34 h = 0" using kt f(2) tr by (simp add: kept_def frame34_def)
  have run: "run_trap34 B inhov v s = Some ?t"
    by (subst run_trap34.simps) (use T t0 in \<open>simp add: entry set_r34_def\<close>)
  show thesis
  proof (rule that [OF run])
    show "r34 ?t = (r34 s)(10 := v, 6 := kernel_sp s - 4, 7 := pc)" using h(2) g(2) f(4) by (auto simp: set_r34_def)
    show "psw34 ?t = trap_psw ps (psw34 s) AND PSW_MASK" using kt f(1) by (simp add: kept_def set_r34_def)
    show "IS_KERNEL ?t" using kt f(1) k by (simp add: kept_def set_r34_def IS_KERNEL_def)
    show "frame34 ?t = frame34 s" using kt f(2) by (simp add: kept_def set_r34_def frame34_def)
    show "map_of_mmu (mmu ?t) = map_of_mmu (mmu s)" using kt mf(1) by (simp add: kept_def set_r34_def)
    show "referring KT11D_SPACE_KERNEL ?t" using kept_referring [OF kt rf] by (simp add: referring_def set_r34_def)
    show "stackpointer ?t = (if IS_KERNEL s then stackpointer s else (stackpointer s)(KD11EA_SP_USER := r34 s 6))"
      using kt f(5) by (simp add: kept_def set_r34_def)
    show "mem (env34 ?t) = (mem (env34 s))(p1 \<mapsto> psw34 s, p2 \<mapsto> r34 s 7)" using h(4) g(4) f(3) by (simp add: set_r34_def)
  qed
qed

end

subsection \<open>Interrupts return\<close>

lemma execute_RTI34: "ir34 s = 2 \<Longrightarrow> execute34 B s = exec_RTI34 B s"
  by (simp add: execute34_def Let_def exec_unary_group34_def unary_op_def exec_program_control34_def exec_misc34_def
      exec_operate34_def)

lemma start_instruction_kept: "kept s (start_instruction s)" "r34 (start_instruction s) = r34 s"
  "env34 (start_instruction s) = env34 s"
proof -
  have ok: "mmu_ok (set_dest_ref False (kt11d_instruction_start (mmu s)))" if "mmu_ok (mmu s)"
    using that by (intro dest_ref_ok instruction_start_ok)
  show "kept s (start_instruction s)"
    using ok by (simp add: kept_def start_instruction_def autoinc_commit_def mark_dest_def frame34_def)
      (simp add: kt11d_instruction_start_def set_dest_ref_def map_of_mmu_def modes_of_mmu_def)
  show "r34 (start_instruction s) = r34 s" "env34 (start_instruction s) = env34 s"
    by (simp_all add: start_instruction_def autoinc_commit_def mark_dest_def)
qed

lemma fetched34_kept: "kept s ((fetched34 s)\<lparr>ir34 := ir34 s\<rparr>)" "r34 (fetched34 s) = (r34 s)(7 := r34 s 7 + 2)"
  "env34 (fetched34 s) = env34 s" "ir34 (fetched34 s) = bdata34 s"
proof -
  have ok: "mmu_ok (kt11d_instruction_fetched (r34 s 7) (mmu s))" if "mmu_ok (mmu s)"
    using that by (rule instruction_fetched_ok)
  show "kept s ((fetched34 s)\<lparr>ir34 := ir34 s\<rparr>)"
    using ok by (simp add: kept_def fetched34_def Let_def set_r34_def frame34_def)
      (simp add: kt11d_instruction_fetched_def map_of_mmu_def modes_of_mmu_def)
  show "r34 (fetched34 s) = (r34 s)(7 := r34 s 7 + 2)" "env34 (fetched34 s) = env34 s" "ir34 (fetched34 s) = bdata34 s"
    by (simp_all add: fetched34_def Let_def set_r34_def)
qed

context cpu_memory begin

text \<open>\<^verbatim>\<open>RTI\<close> in kernel mode: PC and PSW from the stack, and the stack pointer of the mode returned to.\<close>

lemma return34:
  assumes k: "IS_KERNEL s" and r: "referring KT11D_SPACE_KERNEL s"
    and w1: "word_map (mmu s) KT11D_SPACE_KERNEL (r34 s 6) p2" "mem (env34 s) p2 = Some pc"
    and w2: "word_map (mmu s) KT11D_SPACE_KERNEL (r34 s 6 + 2) p1" "mem (env34 s) p1 = Some ps"
    and T: "ps AND PSW_T34 = 0"
  obtains t where "exec_RTI34 B s = (Serve, t)" "psw34 t = ps AND PSW_MASK" "frame34 t = frame34 s" "mem (env34 t) = mem (env34 s)"
    "map_of_mmu (mmu t) = map_of_mmu (mmu s)"
    "r34 t = (r34 s)(7 := pc, 6 := if stack_of (ps AND PSW_MASK) = KD11EA_SP_KERNEL then r34 s 6 + 4
        else stackpointer s (stack_of (ps AND PSW_MASK)))"
    "stackpointer t = (if stack_of (ps AND PSW_MASK) = KD11EA_SP_KERNEL then stackpointer s
        else (stackpointer s)(KD11EA_SP_KERNEL := r34 s 6 + 4))"
proof -
  obtain a where a: "dati34 B False (POP34 s) = Okay a" "r34 a = (r34 s)(6 := r34 s 6 + 2)" "bdata34 a = pc" "kept s a"
      "mem (env34 a) = mem (env34 s)"
    by (rule pop34 [OF r w1])
  define b where "b = set_r34 7 (bdata34 a) a"
  have b: "r34 b = (r34 s)(7 := pc, 6 := r34 s 6 + 2)" "env34 b = env34 a" "kept s b"
    using a(2,3) kept_trans [OF a(4), of b] by (auto simp: b_def set_r34_def kept_def frame34_def)
  have rb: "referring KT11D_SPACE_KERNEL b" by (rule kept_referring [OF b(3) r])
  have "word_map (mmu b) KT11D_SPACE_KERNEL (r34 b 6) p1" "mem (env34 b) p1 = Some ps"
    using w2 a(5) b(1,2) unfolding kept_map [OF b(3)] by simp_all
  then obtain c where c: "dati34 B False (POP34 b) = Okay c" "r34 c = (r34 b)(6 := r34 b 6 + 2)" "bdata34 c = ps" "kept b c"
      "mem (env34 c) = mem (env34 b)"
    by (rule pop34 [OF rb])
  have kc: "kept s c" by (rule kept_trans [OF b(3) c(4)])
  have "IS_KERNEL c" using k kc by (simp add: kept_def IS_KERNEL_def)
  then have rp: "returned_psw (bdata34 c) c = ps" by (simp add: returned_psw_def c(3))
  have st: "stack_of (psw34 c) = KD11EA_SP_KERNEL" using \<open>IS_KERNEL c\<close> by (simp add: stack_of_def IS_KERNEL_def)
  let ?t = "kd11ea_set_psw B ps c"
  have "exec_RTI34 B s = (Serve, ?t)"
    using a(1) c(1) T rp by (simp add: exec_RTI34_def on_okay_def b_def [symmetric] Let_def)
  then show thesis
  proof (rule that)
    show "psw34 ?t = ps AND PSW_MASK" by (rule set_psw34)
    show "frame34 ?t = frame34 s" using kc by (simp add: set_psw34 kept_def)
    show "mem (env34 ?t) = mem (env34 s)" using c(5) b(2) a(5) by (simp add: set_psw34)
    show "map_of_mmu (mmu ?t) = map_of_mmu (mmu s)" using kc by (simp add: set_psw34 kept_def)
    have c6: "r34 c 6 = r34 s 6 + 4" "r34 c = (r34 s)(7 := pc, 6 := r34 s 6 + 4)" using c(2) b(1) by (auto simp: add.assoc)
    have sp: "stackpointer c = stackpointer s" using kc by (simp add: kept_def)
    show "r34 ?t = (r34 s)(7 := pc, 6 := if stack_of (ps AND PSW_MASK) = KD11EA_SP_KERNEL then r34 s 6 + 4
        else stackpointer s (stack_of (ps AND PSW_MASK)))"
      unfolding set_psw34 st sp c6 by auto
    show "stackpointer ?t = (if stack_of (ps AND PSW_MASK) = KD11EA_SP_KERNEL then stackpointer s
        else (stackpointer s)(KD11EA_SP_KERNEL := r34 s 6 + 4))"
      unfolding set_psw34 st sp c6 by auto
  qed
qed

end

end
