(* ===== verification/KD11EA_Machine.thy ===== *)
theory KD11EA_Machine
  imports KD11EA_Memory CPU_Memory
begin

text \<open>The 11/34 on directly accessed memory: interrupts with memory management on or off.\<close>

subsection \<open>An interrupt and its RTI\<close>

text \<open>An \<^verbatim>\<open>RTI\<close> instruction in memory the trap does not overwrite.\<close>

definition handler_memory :: "('e \<Rightarrow> u32 \<Rightarrow> u16 option) \<Rightarrow> 'e kd11ea \<Rightarrow> u16 \<Rightarrow> bool" where
  "handler_memory mem s pc \<longleftrightarrow>
     (\<exists>p1 p2 p. stack_memory mem s p1 p2 \<and> word_map (mmu s) KT11D_SPACE_KERNEL pc p \<and> mem (env34 s) p = Some 2 \<and>
        p \<noteq> p1 \<and> p \<noteq> p2)"

lemma fetched34_fields: "psw34 (fetched34 s) = psw34 s" "stackpointer (fetched34 s) = stackpointer s"
  "intr34 (fetched34 s) = intr34 s" "traps34 (fetched34 s) = traps34 s" "state34 (fetched34 s) = state34 s"
  by (simp_all add: fetched34_def Let_def set_r34_def)

text \<open>The stack pointer of user mode: R6 while it runs, otherwise saved.\<close>

definition user_sp :: "'e kd11ea \<Rightarrow> u16" where
  "user_sp s = (if IS_KERNEL s then stackpointer s KD11EA_SP_USER else r34 s 6)"

context cpu_memory begin

lemma fetch_step34:
  assumes i: "\<not> intr34 s" and r: "referring KT11D_SPACE_KERNEL s"
    and w: "word_map (mmu s) KT11D_SPACE_KERNEL (r34 s 7) p" "mem (env34 s) p = Some w"
  obtains t where "step34 B s = run_ending34 B (psw34 s) (execute34 B t)" "r34 t = (r34 s)(7 := r34 s 7 + 2)"
    "kept s (t\<lparr>ir34 := ir34 s\<rparr>)" "ir34 t = w" "mem (env34 t) = mem (env34 s)"
proof -
  let ?a = "start_instruction s"
  note k = start_instruction_kept [of s]
  have ra: "referring KT11D_SPACE_KERNEL ?a" by (rule kept_referring [OF k(1) r])
  have "word_map (mmu ?a) KT11D_SPACE_KERNEL (r34 s 7) p" "mem (env34 ?a) p = Some w"
    using w unfolding kept_map [OF k(1)] k(3) by simp_all
  then obtain b where b: "INA34 B (r34 s 7) ?a = Okay b" "r34 b = r34 ?a" "bdata34 b = w" "kept ?a b" "mem (env34 b) = mem (env34 ?a)"
    by (rule fetch34 [OF ra])
  note f = fetched34_kept [of b]
  have "step34 B s = run_ending34 B (psw34 s) (execute34 B (fetched34 b))"
    using i b(1) by (simp add: step34_def)
  moreover have "r34 (fetched34 b) = (r34 s)(7 := r34 s 7 + 2)" using f(2) b(2) k(2) by simp
  moreover have "kept s ((fetched34 b)\<lparr>ir34 := ir34 s\<rparr>)"
    using kept_trans [OF kept_trans [OF k(1) b(4)] f(1)] kept_trans [OF k(1) b(4)] by (simp add: kept_def frame34_def)
  moreover have "ir34 (fetched34 b) = w" using f(4) b(3) by simp
  moreover have "mem (env34 (fetched34 b)) = mem (env34 s)" using f(3) b(5) k(3) by simp
  ultimately show thesis by (rule that)
qed

lemma interrupt_and_return34:
  assumes i: "intr34 s" "traps34 s = 0" and ok: "mmu_ok (mmu s)" "enabled (mmu s) \<or> \<not> maint (mmu s)"
    and vm: "vector_memory mem s (intrvec34 s) pc ps" and hm: "handler_memory mem s pc"
    and p: "psw34 s AND PSW_MASK = psw34 s" "psw34 s AND PSW_T34 = 0"
  shows "\<exists>s1 s2. step34 B s = Some s1 \<and> r34 s1 7 = pc \<and> IS_KERNEL s1 \<and> r34 s1 6 = kernel_sp s - 4 \<and>
    step34 B s1 = Some s2 \<and> (\<forall>k<8. r34 s2 k = r34 s k) \<and> psw34 s2 = psw34 s \<and> kernel_sp s2 = kernel_sp s \<and>
    user_sp s2 = user_sp s \<and> map_of_mmu (mmu s2) = map_of_mmu (mmu s) \<and> \<not> intr34 s2 \<and> traps34 s2 = 0 \<and> state34 s2 = KD11EA_STATE_RUNNING"
proof -
  obtain p1 p2 ph where sm: "stack_memory mem s p1 p2" and h: "word_map (mmu s) KT11D_SPACE_KERNEL pc ph"
    "mem (env34 s) ph = Some 2" "ph \<noteq> p1" "ph \<noteq> p2" using hm by (auto simp: handler_memory_def)
  let ?s0 = "s\<lparr>intr34 := False, state34 := KD11EA_STATE_RUNNING\<rparr>"
  have k0: "kernel_sp ?s0 = kernel_sp s" "IS_KERNEL ?s0 = IS_KERNEL s" by (simp_all add: kernel_sp_def IS_KERNEL_def)
  have a: "mmu_ok (mmu ?s0)" "enabled (mmu ?s0) \<or> \<not> maint (mmu ?s0)" "traps34 ?s0 = 0"
    "vector_memory mem ?s0 (intrvec34 s) pc ps" "stack_memory mem ?s0 p1 p2"
    using ok i vm sm by (simp_all add: vector_memory_def stack_memory_def k0)
  obtain s1 where s1: "run_trap34 B False (intrvec34 s) ?s0 = Some s1" "r34 s1 = (r34 ?s0)(10 := intrvec34 s, 6 := kernel_sp ?s0 - 4, 7 := pc)"
    "psw34 s1 = trap_psw ps (psw34 ?s0) AND PSW_MASK" "IS_KERNEL s1" "frame34 s1 = frame34 ?s0"
    "map_of_mmu (mmu s1) = map_of_mmu (mmu ?s0)" "referring KT11D_SPACE_KERNEL s1"
    "stackpointer s1 = (if IS_KERNEL ?s0 then stackpointer ?s0 else (stackpointer ?s0)(KD11EA_SP_USER := r34 ?s0 6))"
    "mem (env34 s1) = (mem (env34 ?s0))(p1 \<mapsto> psw34 ?s0, p2 \<mapsto> r34 ?s0 7)"
    by (rule trap34 [OF a])
  have st1: "step34 B s = Some s1" using i(1) s1(1) by (simp add: step34_def)
  have f1: "\<not> intr34 s1" "traps34 s1 = 0" "state34 s1 = KD11EA_STATE_RUNNING"
    using s1(5) i(2) by (simp_all add: frame34_def)
  have T1: "psw34 s1 AND PSW_T34 = 0" using s1(3) vm trap_psw_T by (simp add: vector_memory_def)
  have m1: "map_of_mmu (mmu s1) = map_of_mmu (mmu s)" using s1(6) by simp
  have r1: "r34 s1 7 = pc" "r34 s1 6 = kernel_sp s - 4" using s1(2) by (simp_all add: k0)
  have sm': "word_map (mmu s1) KT11D_SPACE_KERNEL (r34 s1 6 + 2) p1" "word_map (mmu s1) KT11D_SPACE_KERNEL (r34 s1 6) p2" "p1 \<noteq> p2"
    using sm unfolding word_map_same [OF m1] r1 by (simp_all add: stack_memory_def)
  have w: "word_map (mmu s1) KT11D_SPACE_KERNEL (r34 s1 7) ph" "mem (env34 s1) ph = Some 2"
    using h s1(9) unfolding word_map_same [OF m1] r1 by simp_all
  obtain t where t: "step34 B s1 = run_ending34 B (psw34 s1) (execute34 B t)" "r34 t = (r34 s1)(7 := r34 s1 7 + 2)"
    "kept s1 (t\<lparr>ir34 := ir34 s1\<rparr>)" "ir34 t = 2" "mem (env34 t) = mem (env34 s1)"
    by (rule fetch_step34 [OF f1(1) s1(7) w])
  have kt: "psw34 t = psw34 s1" "stackpointer t = stackpointer s1" "map_of_mmu (mmu t) = map_of_mmu (mmu s1)"
    "intr34 t = intr34 s1" "traps34 t = traps34 s1" "state34 t = state34 s1"
    using t(3) by (simp_all add: kept_def frame34_def)
  have rt: "IS_KERNEL t" "referring KT11D_SPACE_KERNEL t" "r34 t 6 = r34 s1 6"
    using s1(4) kept_referring [OF t(3) s1(7)] kt(1) t(2) by (simp_all add: IS_KERNEL_def referring_def)
  have ret: "word_map (mmu t) KT11D_SPACE_KERNEL (r34 t 6) p2" "mem (env34 t) p2 = Some (r34 s 7)"
    "word_map (mmu t) KT11D_SPACE_KERNEL (r34 t 6 + 2) p1" "mem (env34 t) p1 = Some (psw34 s)"
    using sm' t(5) s1(9) unfolding word_map_same [OF kt(3)] rt(3) by simp_all
  obtain u where u: "exec_RTI34 B t = (Serve, u)" "psw34 u = psw34 s AND PSW_MASK" "frame34 u = frame34 t" "mem (env34 u) = mem (env34 t)"
    "map_of_mmu (mmu u) = map_of_mmu (mmu t)"
    "r34 u = (r34 t)(7 := r34 s 7, 6 := if stack_of (psw34 s AND PSW_MASK) = KD11EA_SP_KERNEL then r34 t 6 + 4
        else stackpointer t (stack_of (psw34 s AND PSW_MASK)))"
    "stackpointer u = (if stack_of (psw34 s AND PSW_MASK) = KD11EA_SP_KERNEL then stackpointer t
        else (stackpointer t)(KD11EA_SP_KERNEL := r34 t 6 + 4))"
    by (rule return34 [OF rt(1,2) ret p(2)])
  have fu: "\<not> intr34 u" "traps34 u = 0" "state34 u = KD11EA_STATE_RUNNING"
    using u(3) kt f1 by (simp_all add: frame34_def)
  have st2: "step34 B s1 = Some u"
    unfolding t(1) execute_RTI34 [OF t(4)] u(1) using T1 fu(2) by (simp add: run_ending34_def run_service34_def)
  have stk: "stack_of (psw34 s) = (if IS_KERNEL s then KD11EA_SP_KERNEL else KD11EA_SP_USER)"
    by (simp add: stack_of_def IS_KERNEL_def)
  have pu: "psw34 u = psw34 s" "IS_KERNEL u = IS_KERNEL s" using u(2) p(1) by (simp_all add: IS_KERNEL_def)
  have x: "r34 u 6 = r34 s 6 \<and> kernel_sp u = kernel_sp s \<and> user_sp u = user_sp s"
    using u(6,7) kt(2) s1(8) rt(3) r1(2) unfolding p(1) stk kernel_sp_def user_sp_def pu(2) k0
    by (auto simp: KD11EA_SP_KERNEL_def KD11EA_SP_USER_def)
  have "r34 u k = r34 s k" if "k < 8" for k
    using x u(6) t(2) s1(2) that by (cases "k = 6"; cases "k = 7") auto
  moreover have "map_of_mmu (mmu u) = map_of_mmu (mmu s)" using u(5) kt(3) m1 by simp
  ultimately show ?thesis using st1 st2 r1 s1(4) pu(1) x fu by blast
qed

end


subsection \<open>A user program that is interrupted\<close>






end
