(* ===== verification/Storage_Image.thy ===== *)
theory Storage_Image
  imports Prelude
begin

text \<open>
  Disk images (\<^verbatim>\<open>storageimage.cpp\<close>, \<^verbatim>\<open>storageimage.hpp\<close>): a binary file on the host and a block of
  memory. The state of a file stream is its content, whether it is open, and its fail bit; reading past
  the end sets the fail bit, and positioning and reading do nothing while it is set. The operating system
  is taken to write what it is told. Opening with its search for files, and copies to other files, are
  left out: an opened image is given by its content.
\<close>

subsection \<open>Binary files\<close>

record binfile =
  content :: "u8 list"
  f_open :: bool
  f_fail :: bool
  f_readonly :: bool

definition opened_binfile :: "u8 list \<Rightarrow> bool \<Rightarrow> binfile" where
  "opened_binfile bs ro = \<lparr>content = bs, f_open = True, f_fail = False, f_readonly = ro\<rparr>"

text \<open>A buffer of zeros over which the bytes of the file are read.\<close>

definition binfile_read :: "nat \<Rightarrow> nat \<Rightarrow> binfile \<Rightarrow> (u8 list \<times> binfile) option" where
  "binfile_read pos len f =
     do { assert_that (f_open f); assert_that (0 < len);
          let got = (if f_fail f then [] else take len (drop pos (content f)));
          Some (got @ replicate (len - length got) 0, f\<lparr>f_fail := f_fail f \<or> length got < len\<rparr>) }"

text \<open>
  The loop that fills a file with zeros up to the write position. A chunk is an \<^verbatim>\<open>int\<close>, cast from
  64 bits; a negative one would be an invalid length. \<^theory_text>\<open>None\<close> also if the loop never ends.
\<close>

definition max_chunk_size :: int where "max_chunk_size = 0x40000"

definition enlarge_chunk :: "int \<Rightarrow> int" where
  "enlarge_chunk gap = min max_chunk_size (sint (of_int gap :: 32 word))"

partial_function (option) enlarge :: "int \<Rightarrow> u8 list \<Rightarrow> u8 list option" where
  "enlarge write_pos c =
     (if int (length c) < write_pos
      then (let n = enlarge_chunk (write_pos - int (length c)) in
            if n < 0 then None else enlarge write_pos (c @ replicate (nat n) 0))
      else Some c)"

definition overlay :: "nat \<Rightarrow> u8 list \<Rightarrow> u8 list \<Rightarrow> u8 list" where
  "overlay pos buf c = take pos c @ buf @ drop (pos + length buf) c"

definition binfile_write :: "u8 list \<Rightarrow> nat \<Rightarrow> binfile \<Rightarrow> binfile option" where
  "binfile_write buf pos f =
     do { assert_that (f_open f); assert_that (\<not> f_readonly f);
          c \<leftarrow> enlarge (int pos) (content f);
          assert_that (c = [] \<longrightarrow> pos = 0);
          Some (f\<lparr>content := overlay pos buf c, f_fail := False\<rparr>) }"

text \<open>\<^verbatim>\<open>tellp\<close> gives -1 while the fail bit is set; the result is unsigned.\<close>

definition binfile_size :: "binfile \<Rightarrow> nat" where
  "binfile_size f = (if f_fail f then 2 ^ 64 - 1 else length (content f))"

definition binfile_truncate :: "binfile \<Rightarrow> binfile option" where
  "binfile_truncate f =
     do { assert_that (f_open f); assert_that (\<not> f_readonly f); Some (f\<lparr>content := [], f_fail := False\<rparr>) }"

definition binfile_close :: "binfile \<Rightarrow> binfile" where
  "binfile_close f = (if \<not> f_open f then f else f\<lparr>f_open := False, f_readonly := False\<rparr>)"

subsection \<open>Images in memory\<close>

text \<open>\<open>block\<close> is the allocated memory, \<open>data_size\<close> what the object believes its length to be.\<close>

record memory_image =
  block :: "u8 list"
  data_size :: nat
  m_opened :: bool

text \<open>\<^verbatim>\<open>malloc\<close> leaves the block undefined: \<open>junk\<close>.\<close>

definition memimage_close :: "memory_image \<Rightarrow> memory_image option" where
  "memimage_close m = do { assert_that (m_opened m); Some (m\<lparr>block := [], m_opened := False\<rparr>) }"

definition memimage_open :: "u8 list \<Rightarrow> memory_image \<Rightarrow> memory_image option" where
  "memimage_open junk m =
     do { m1 \<leftarrow> (if m_opened m then memimage_close m else Some m);
          assert_that (length junk = data_size m1);
          Some (m1\<lparr>block := junk, m_opened := True\<rparr>) }"

definition memimage_truncate :: "memory_image \<Rightarrow> memory_image option" where
  "memimage_truncate m = do { assert_that (m_opened m); Some (m\<lparr>block := [], data_size := 0\<rparr>) }"

definition memimage_read :: "nat \<Rightarrow> nat \<Rightarrow> memory_image \<Rightarrow> u8 list option" where
  "memimage_read pos len m =
     do { assert_that (m_opened m); assert_that (0 < len);
          got \<leftarrow> (if pos < data_size m
                 then buffer_load (block m) pos (if pos + len \<le> data_size m then len else data_size m - pos)
                 else Some []);
          Some (got @ replicate (len - length got) 0) }"

text \<open>The block is re-allocated with the old size, and the new size is one byte short.\<close>

definition memimage_write :: "u8 list \<Rightarrow> nat \<Rightarrow> memory_image \<Rightarrow> memory_image option" where
  "memimage_write buf pos m =
     do { assert_that (m_opened m);
          let new_size = nat ((int pos + int (length buf) - 1) mod 2 ^ 64);
          let m1 = (if data_size m < new_size then m\<lparr>data_size := new_size\<rparr> else m);
          b \<leftarrow> buffer_store (block m1) pos buf;
          Some (m1\<lparr>block := b\<rparr>) }"

definition memimage_size :: "memory_image \<Rightarrow> nat option" where
  "memimage_size m = do { assert_that (m_opened m); Some (data_size m) }"

subsection \<open>The virtual functions\<close>

datatype storage_image = Binfile binfile | Memory_image memory_image

fun image_read :: "nat \<Rightarrow> nat \<Rightarrow> storage_image \<Rightarrow> (u8 list \<times> storage_image) option" where
  "image_read pos len (Binfile f) = map_option (\<lambda>(b, f). (b, Binfile f)) (binfile_read pos len f)"
| "image_read pos len (Memory_image m) = map_option (\<lambda>b. (b, Memory_image m)) (memimage_read pos len m)"

fun image_write :: "u8 list \<Rightarrow> nat \<Rightarrow> storage_image \<Rightarrow> storage_image option" where
  "image_write buf pos (Binfile f) = map_option Binfile (binfile_write buf pos f)"
| "image_write buf pos (Memory_image m) = map_option Memory_image (memimage_write buf pos m)"

fun image_size :: "storage_image \<Rightarrow> nat option" where
  "image_size (Binfile f) = Some (binfile_size f)"
| "image_size (Memory_image m) = memimage_size m"

fun image_opened :: "storage_image \<Rightarrow> bool" where
  "image_opened (Binfile f) = f_open f"
| "image_opened (Memory_image m) = m_opened m"

definition set_zero :: "nat \<Rightarrow> nat \<Rightarrow> storage_image \<Rightarrow> storage_image option" where
  "set_zero pos len i = image_write (replicate len 0) pos i"

definition is_zero :: "nat \<Rightarrow> nat \<Rightarrow> storage_image \<Rightarrow> (bool \<times> storage_image) option" where
  "is_zero pos len i = do { (b, i') \<leftarrow> image_read pos len i; Some (\<forall>x \<in> set b. x = 0, i') }"

text \<open>A buffer of words as bytes, the low byte first.\<close>

fun bytes_to_words :: "u8 list \<Rightarrow> u16 list" where
  "bytes_to_words [] = []"
| "bytes_to_words [b] = [ucast b]"
| "bytes_to_words (b # c # bs) = (ucast b OR push_bit 8 (ucast c)) # bytes_to_words bs"

fun words_to_bytes :: "u16 list \<Rightarrow> u8 list" where
  "words_to_bytes [] = []"
| "words_to_bytes (w # ws) = ucast w # ucast (drop_bit 8 w) # words_to_bytes ws"

lemma length_words_to_bytes [simp]: "length (words_to_bytes ws) = 2 * length ws"
  by (induction ws) simp_all

lemma words_bytes_words: "bytes_to_words (words_to_bytes ws) = ws"
proof (induction ws)
  case (Cons w ws)
  have "(ucast (ucast w :: u8) :: u16) OR push_bit 8 (ucast (ucast (drop_bit 8 w) :: u8)) = w"
    by (rule bit_word_eqI) (auto simp: bit_simps)
  then show ?case using Cons by simp
qed simp

subsection \<open>What a drive relies on\<close>

text \<open>
  The contract of an image: \<open>byte s p\<close> is the byte at \<open>p\<close>, zero beyond the end; in a state that \<open>holds\<close> its
  first \<open>n\<close> bytes, reading below \<open>n\<close> gives them and writing below \<open>n\<close> replaces them.
\<close>

locale image_store =
  fixes reads :: "nat \<Rightarrow> nat \<Rightarrow> 's \<Rightarrow> (u8 list \<times> 's) option" and writes :: "u8 list \<Rightarrow> nat \<Rightarrow> 's \<Rightarrow> 's option"
    and byte :: "'s \<Rightarrow> nat \<Rightarrow> u8" and holds :: "nat \<Rightarrow> 's \<Rightarrow> bool"
  assumes holds_mono: "holds n s \<Longrightarrow> k \<le> n \<Longrightarrow> holds k s"
    and read_ok: "holds (pos + len) s \<Longrightarrow> 0 < len \<Longrightarrow> reads pos len s = Some (map (byte s) [pos..<pos + len], s)"
    and write_ok: "holds (pos + length buf) s \<Longrightarrow> buf \<noteq> [] \<Longrightarrow> \<exists>t. writes buf pos s = Some t \<and> (\<forall>n. holds n s \<longrightarrow> holds n t) \<and>
        byte t = (\<lambda>p. if pos \<le> p \<and> p < pos + length buf then buf ! (p - pos) else byte s p)"
begin

lemma read_back:
  assumes "holds (pos + length buf) s" "buf \<noteq> []"
  obtains t where "writes buf pos s = Some t" "reads pos (length buf) t = Some (buf, t)" "holds (pos + length buf) t"
proof -
  obtain t where t: "writes buf pos s = Some t" "holds (pos + length buf) t"
    "byte t = (\<lambda>p. if pos \<le> p \<and> p < pos + length buf then buf ! (p - pos) else byte s p)"
    using write_ok [OF assms] assms(1) by blast
  have "map (byte t) [pos..<pos + length buf] = buf" by (rule nth_equalityI) (simp_all add: t(3))
  then have "reads pos (length buf) t = Some (buf, t)" using read_ok [OF t(2)] assms(2) by simp
  then show thesis using t(2) by (rule that [OF t(1)])
qed

lemma read_elsewhere:
  assumes "holds (pos + length buf) s" "buf \<noteq> []" "holds (q + len) s" "0 < len" "q + len \<le> pos \<or> pos + length buf \<le> q"
    "reads q len s = Some (old, s)"
  obtains t where "writes buf pos s = Some t" "reads q len t = Some (old, t)"
proof -
  obtain t where t: "writes buf pos s = Some t" "holds (q + len) t"
    "byte t = (\<lambda>p. if pos \<le> p \<and> p < pos + length buf then buf ! (p - pos) else byte s p)"
    using write_ok [OF assms(1,2)] assms(3) by blast
  have "map (byte t) [q..<q + len] = map (byte s) [q..<q + len]" using assms(5) by (auto simp: t(3))
  then have "reads q len t = Some (old, t)" using read_ok [OF t(2) assms(4)] read_ok [OF assms(3,4)] assms(6) by simp
  with t(1) show thesis by (rule that)
qed

end

subsection \<open>The loop that enlarges a file\<close>

lemma sint_of_int_32:
  obtains k where "sint (of_int g :: 32 word) = g - k * 2 ^ 32"
proof -
  let ?w = "of_int g :: 32 word"
  have "of_int (sint ?w) = ?w" by simp
  then have "take_bit 32 (sint ?w) = take_bit 32 g" by (simp only: word_of_int_eq_iff) simp
  then have "(2 ^ 32 :: int) dvd g - sint ?w" by (simp add: take_bit_eq_mod mod_eq_dvd_iff dvd_diff_commute)
  then obtain k where "g - sint ?w = 2 ^ 32 * k" by (rule dvdE)
  then show thesis by (intro that [of k]) simp
qed

lemma enlarge_chunk_small:
  assumes "0 < gap" "gap < 2 ^ 31"
  shows "enlarge_chunk gap = min max_chunk_size gap"
proof -
  have "sint (of_int gap :: 32 word) = gap" using assms by (simp add: signed_of_int signed_take_bit_int_eq_self)
  then show ?thesis by (simp add: enlarge_chunk_def)
qed

lemma enlarge_done: "write_pos \<le> int (length c) \<Longrightarrow> enlarge write_pos c = Some c"
  by (subst enlarge.simps) simp

lemma enlarge_pads:
  assumes "write_pos - int (length c) < 2 ^ 31"
  shows "enlarge write_pos c = Some (c @ replicate (nat (write_pos - int (length c))) 0)"
  using assms
proof (induction "nat (write_pos - int (length c))" arbitrary: c rule: less_induct)
  case less
  show ?case
  proof (cases "int (length c) < write_pos")
    case True
    let ?gap = "write_pos - int (length c)"
    define n where "n = enlarge_chunk ?gap"
    have n: "n = min max_chunk_size ?gap" unfolding n_def by (rule enlarge_chunk_small) (use True less.prems in simp_all)
    have pos: "0 < n" "n \<le> ?gap" using True by (simp_all add: n max_chunk_size_def)
    let ?c = "c @ replicate (nat n) 0"
    have len: "int (length ?c) = int (length c) + n" using pos(1) by simp
    have "nat (write_pos - int (length ?c)) < nat ?gap" unfolding len using pos True by simp
    moreover have "write_pos - int (length ?c) < 2 ^ 31" unfolding len using less.prems pos by simp
    ultimately have "enlarge write_pos ?c = Some (?c @ replicate (nat (write_pos - int (length ?c))) 0)"
      by (rule less.hyps)
    also have "?c @ replicate (nat (write_pos - int (length ?c))) 0 = c @ replicate (nat ?gap) 0"
    proof -
      have "nat n + nat (write_pos - int (length ?c)) = nat ?gap" unfolding len using pos by simp
      then show ?thesis by (simp only: append_assoc replicate_add [symmetric])
    qed
    finally show ?thesis using True pos(1) by (subst enlarge.simps) (simp add: Let_def n_def)
  next
    case False
    then show ?thesis by (simp add: enlarge_done)
  qed
qed

lemma enlarge_ends:
  assumes "enlarge write_pos c = Some d"
  shows "write_pos - int (length c) < 2 ^ 31"
proof (rule enlarge.raw_induct [where P = "\<lambda>w c d. w - int (length c) < 2 ^ 31", OF _ assms])
  fix rec :: "int \<Rightarrow> u8 list \<Rightarrow> u8 list option" and w c d
  assume IH: "\<And>w c d. rec w c = Some d \<Longrightarrow> w - int (length c) < 2 ^ 31"
    and s: "(if int (length c) < w then let n = enlarge_chunk (w - int (length c)) in
        if n < 0 then None else rec w (c @ replicate (nat n) 0) else Some c) = Some d"
  show "w - int (length c) < 2 ^ 31"
  proof (rule ccontr)
    let ?gap = "w - int (length c)"
    assume big: "\<not> ?gap < 2 ^ 31"
    then have lt: "int (length c) < w" by simp
    define n where "n = enlarge_chunk ?gap"
    have n0: "0 \<le> n" using s lt by (auto simp: n_def Let_def split: if_splits)
    then have "rec w (c @ replicate (nat n) 0) = Some d" using s lt by (simp add: n_def Let_def)
    then have small: "?gap - n < 2 ^ 31" using IH n0 by fastforce
    obtain k where k: "sint (of_int ?gap :: 32 word) = ?gap - k * 2 ^ 32" by (rule sint_of_int_32)
    have r: "n \<le> ?gap - k * 2 ^ 32" using k by (simp add: n_def enlarge_chunk_def)
    moreover have "?gap - k * 2 ^ 32 < 2 ^ 31" using sint_lt [of "of_int ?gap :: 32 word"] k by simp
    ultimately have "k * 2 ^ 32 < 2 ^ 31" "0 < k * 2 ^ 32" using small big n0 by linarith+
    then show False by simp
  qed
qed

lemma binfile_write_iff:
  assumes "f_open f" "\<not> f_readonly f"
  shows "binfile_write buf pos f =
    (if int pos - int (length (content f)) < 2 ^ 31
     then Some (f\<lparr>content := overlay pos buf (content f @ replicate (pos - length (content f)) 0), f_fail := False\<rparr>)
     else None)"
proof (cases "int pos - int (length (content f)) < 2 ^ 31")
  case True
  have "nat (int pos - int (length (content f))) = pos - length (content f)" by simp
  then have "enlarge (int pos) (content f) = Some (content f @ replicate (pos - length (content f)) 0)"
    using enlarge_pads [OF True] by simp
  moreover have "content f @ replicate (pos - length (content f)) 0 = [] \<Longrightarrow> pos = 0" by auto
  ultimately show ?thesis using True assms by (auto simp: binfile_write_def)
next
  case False
  have "enlarge (int pos) (content f) = None"
  proof (cases "enlarge (int pos) (content f)")
    case (Some d)
    from enlarge_ends [OF this] False show ?thesis by simp
  qed simp
  with False assms show ?thesis by (simp add: binfile_write_def)
qed

text \<open>
  Property C11. A write to an image file returns exactly when the position is less than 2 GB behind the end
  of the file, and then the file is filled up with zeros to the position and the bytes are in their
  place; otherwise the loop that fills the file never ends or writes a block of negative length.
\<close>

theorem binfile_write_returns_iff:
  assumes "f_open f" "\<not> f_readonly f"
  shows "binfile_write buf pos f =
    (if int pos - int (length (content f)) < 2 ^ 31
     then Some (f\<lparr>content := overlay pos buf (content f @ replicate (pos - length (content f)) 0), f_fail := False\<rparr>)
     else None)"
  by (rule binfile_write_iff [OF assms])

theorem binfile_write_returns_iff_witness:
  "binfile_write [7] 2 (opened_binfile [1] False) = Some (opened_binfile [1, 0, 7] False)"
  using binfile_write_returns_iff [of "opened_binfile [1] False" "[7]" 2]
  by (simp add: opened_binfile_def overlay_def)

text \<open>
  After a read that reaches behind the end of the file, the file reads as zeros everywhere
  and its size is reported as \<open>2^64 - 1\<close>, until the next write: the fail bit of the stream is not cleared
  before positioning.
\<close>

theorem read_past_end_blinds:
  assumes "f_open f" "0 < len" "length (content f) < pos + len" "binfile_read pos len f = Some (b, g)" "0 < n"
  shows "binfile_read q n g = Some (replicate n 0, g) \<and> content g = content f \<and> binfile_size g = 2 ^ 64 - 1 \<and>
    (binfile_write buf q g = Some h \<longrightarrow> \<not> f_fail h)"
proof -
  have "length (take len (drop pos (content f))) < len" using assms(2,3) by simp
  then have g: "g = f\<lparr>f_fail := True\<rparr>" using assms(1,2,4) by (auto simp: binfile_read_def Let_def split: if_splits)
  then show ?thesis using assms(1,5)
    by (auto simp: binfile_read_def binfile_size_def binfile_write_def Let_def Option.bind_eq_Some_conv split: if_splits)
qed

theorem read_past_end_blinds_witness:
  "\<exists>b g. binfile_read 0 3 (opened_binfile [1, 2] False) = Some (b, g) \<and> b = [1, 2, 0] \<and>
     binfile_read 0 2 g = Some ([0, 0], g)"
proof -
  let ?f = "opened_binfile [1, 2] False"
  have r: "binfile_read 0 3 ?f = Some ([1, 2, 0], ?f\<lparr>f_fail := True\<rparr>)"
    by (simp add: binfile_read_def opened_binfile_def Let_def)
  have "binfile_read 0 2 (?f\<lparr>f_fail := True\<rparr>) = Some (replicate 2 0, ?f\<lparr>f_fail := True\<rparr>)"
    using read_past_end_blinds [OF _ _ _ r, of 2 0 "[]" ?f] by (simp add: opened_binfile_def)
  with r show ?thesis by (simp add: numeral_2_eq_2)
qed

text \<open>
  An image in memory cannot grow: every write that reaches behind the block allocated by
  \<^verbatim>\<open>open\<close> writes outside it, although the function is meant to enlarge it.
\<close>

theorem memory_image_cannot_grow:
  assumes "m_opened m" "length (block m) = data_size m"
  shows "memimage_write buf pos m \<noteq> None \<longleftrightarrow> pos + length buf \<le> data_size m"
  using assms by (auto simp: memimage_write_def buffer_store_def Let_def)

theorem memory_image_cannot_grow_witness:
  "memimage_write [1, 2] 1 \<lparr>block = [0, 0], data_size = 2, m_opened = True\<rparr> = None"
proof -
  have "\<not> memimage_write [1, 2] 1 \<lparr>block = [0, 0], data_size = 2, m_opened = True\<rparr> \<noteq> None"
    by (subst memory_image_cannot_grow) simp_all
  then show ?thesis by simp
qed

subsection \<open>Both images keep the contract\<close>

fun image_byte :: "storage_image \<Rightarrow> nat \<Rightarrow> u8" where
  "image_byte (Binfile f) p = (if p < length (content f) then content f ! p else 0)"
| "image_byte (Memory_image m) p = (if p < data_size m then block m ! p else 0)"

fun image_holds :: "nat \<Rightarrow> storage_image \<Rightarrow> bool" where
  "image_holds n (Binfile f) \<longleftrightarrow> f_open f \<and> \<not> f_fail f \<and> \<not> f_readonly f \<and> n \<le> length (content f)"
| "image_holds n (Memory_image m) \<longleftrightarrow>
     m_opened m \<and> length (block m) = data_size m \<and> n \<le> data_size m \<and> data_size m < 2 ^ 64"

lemma take_drop_map: "pos + len \<le> length c \<Longrightarrow> take len (drop pos c) = map ((!) c) [pos..<pos + len]"
  by (rule nth_equalityI) simp_all

lemma nth_overlay:
  "pos + length buf \<le> length c \<Longrightarrow> p < length c \<Longrightarrow> overlay pos buf c ! p = (if pos \<le> p \<and> p < pos + length buf then buf ! (p - pos) else c ! p)"
  by (auto simp: overlay_def nth_append min_def)

lemma length_overlay: "pos + length buf \<le> length c \<Longrightarrow> length (overlay pos buf c) = length c"
  by (simp add: overlay_def)

interpretation img: image_store image_read image_write image_byte image_holds
proof
  fix n k s
  show "image_holds n s \<Longrightarrow> k \<le> n \<Longrightarrow> image_holds k s" by (cases s) simp_all
next
  fix pos len s
  assume "image_holds (pos + len) s" "0 < len"
  then show "image_read pos len s = Some (map (image_byte s) [pos..<pos + len], s)"
    by (cases s) (auto simp: binfile_read_def memimage_read_def buffer_load_def Let_def take_drop_map)
next
  fix pos and buf :: "u8 list" and s
  assume h: "image_holds (pos + length buf) s" and b: "buf \<noteq> []"
  show "\<exists>t. image_write buf pos s = Some t \<and> (\<forall>n. image_holds n s \<longrightarrow> image_holds n t) \<and>
      image_byte t = (\<lambda>p. if pos \<le> p \<and> p < pos + length buf then buf ! (p - pos) else image_byte s p)"
  proof (cases s)
    case (Binfile f)
    with h show ?thesis
      by (auto simp: binfile_write_iff length_overlay nth_overlay fun_eq_iff)
  next
    case (Memory_image m)
    then have "\<not> data_size m < nat ((int pos + int (length buf) - 1) mod 2 ^ 64)"
      using h b by (cases buf) (auto simp: mod_pos_pos_trivial)
    with Memory_image h show ?thesis
      by (auto simp: memimage_write_def buffer_store_def Let_def overlay_def [symmetric] length_overlay nth_overlay fun_eq_iff)
  qed
qed

end
