(* ===== verification/MSCP_Drive.thy ===== *)
theory MSCP_Drive
  imports Storage_Image
begin

text \<open>
  Drives of the MSCP controller (\<^verbatim>\<open>mscp_drive.cpp\<close>, \<^verbatim>\<open>mscp_drive.hpp\<close>) with the service of
  \<^verbatim>\<open>storagedrive.cpp\<close> they use: type table, sizes, the image and the RCT area in memory. Parameters,
  the activity LED and capacities published for display are left out.
\<close>

subsection \<open>Drive types\<close>

record drive_info =
  TypeName :: string
  BlockCount :: u32
  SectsPerTrack :: u16
  TracksPerGroup :: u16
  GroupsPerCylinder :: u16
  MediaID :: u32
  Model :: u8
  RCTSize :: u16

definition drive_row :: "string \<Rightarrow> u32 \<Rightarrow> u16 \<Rightarrow> u16 \<Rightarrow> u16 \<Rightarrow> u32 \<Rightarrow> u8 \<Rightarrow> u16 \<Rightarrow> drive_info" where
  "drive_row n b s t g m d r = \<lparr>TypeName = n, BlockCount = b, SectsPerTrack = s, TracksPerGroup = t,
     GroupsPerCylinder = g, MediaID = m, Model = d, RCTSize = r\<rparr>"

definition g_driveTable :: "drive_info list" where
  "g_driveTable =
    [drive_row ''RX50'' 800 10 5 16 0x25658032 7 0,
     drive_row ''RX33'' 2400 15 2 1 0x25658021 10 0,
     drive_row ''RD51'' 21600 18 4 1 0x25644033 6 36,
     drive_row ''RD31'' 41560 17 4 1 0x2564401f 12 3,
     drive_row ''RC25'' 50902 50 8 1 0x20643019 2 0,
     drive_row ''RC25F'' 50902 50 8 1 0x20643319 3 0,
     drive_row ''RD52'' 60480 17 8 1 0x25644034 8 4,
     drive_row ''RD32'' 83236 17 6 1 0x25641047 15 4,
     drive_row ''RD53'' 138672 17 8 1 0x25644035 9 5,
     drive_row ''RA80'' 237212 31 14 1 0x20643019 1 0,
     drive_row ''RD54'' 311200 17 15 1 0x25644036 13 7,
     drive_row ''RA60'' 400176 42 60 1 0x22a4103c 4 1008,
     drive_row ''RA70'' 547041 33 11 1 0x20643019 18 198,
     drive_row ''RA81'' 891072 51 14 1 0x25641051 5 2856,
     drive_row ''RA82'' 1216665 57 15 1 0x25641052 11 3420,
     drive_row ''RA71'' 1367310 51 14 1 0x25641047 40 1428,
     drive_row ''RA72'' 1953300 51 20 1 0x25641048 37 2040,
     drive_row ''RA90'' 2376153 69 13 1 0x2564105a 19 1794,
     drive_row ''RA92'' 2940951 73 13 1 0x2564105c 29 949,
     drive_row ''RA73'' 3920490 70 21 1 0x25641049 47 198]"

subsection \<open>State and sizes\<close>

record mscp_drive =
  driveInfo :: drive_info
  online :: bool
  unitDeviceNumber :: u32
  unitClassModel :: u16
  useImageSize :: bool
  rctData :: "u8 list"
  drive_image :: "storage_image option"

definition GetBlockSize :: u32 where "GetBlockSize = 512"

definition drive_image_size :: "mscp_drive \<Rightarrow> nat option" where
  "drive_image_size d = (case drive_image d of None \<Rightarrow> Some 0 | Some i \<Rightarrow> image_size i)"

text \<open>The size of the image is divided in 64 bits and stored in 32.\<close>

definition GetBlockCount :: "mscp_drive \<Rightarrow> u32 option" where
  "GetBlockCount d =
     (if useImageSize d then map_option (\<lambda>n. of_nat (n div unat GetBlockSize)) (drive_image_size d)
      else Some (BlockCount (driveInfo d)))"

definition GetRCTCopies :: u8 where "GetRCTCopies = 1"
definition GetRBNs :: u8 where "GetRBNs = 0"

definition GetRCTBlockCount :: "mscp_drive \<Rightarrow> u32" where
  "GetRCTBlockCount d = ucast (RCTSize (driveInfo d)) * ucast GetRCTCopies"

definition IsAvailable :: "mscp_drive \<Rightarrow> bool" where
  "IsAvailable d \<longleftrightarrow> (case drive_image d of None \<Rightarrow> False | Some i \<Rightarrow> image_opened i)"

definition SetOnline :: "mscp_drive \<Rightarrow> mscp_drive" where "SetOnline d = d\<lparr>online := True\<rparr>"
definition SetOffline :: "mscp_drive \<Rightarrow> mscp_drive" where "SetOffline d = d\<lparr>online := False\<rparr>"

text \<open>Selecting a type: the class of the unit, and an RCT area of zeros. Case is not distinguished.\<close>

definition UpdateMetadata :: "mscp_drive \<Rightarrow> mscp_drive" where
  "UpdateMetadata d =
     d\<lparr>unitClassModel := 0x0200 OR ucast (Model (driveInfo d)),
       rctData := replicate (unat (RCTSize (driveInfo d)) * unat GetBlockSize) 0\<rparr>"

definition lower_case :: "char \<Rightarrow> char" where
  "lower_case c = (if 65 \<le> (of_char c :: nat) \<and> (of_char c :: nat) \<le> 90 then char_of ((of_char c :: nat) + 32) else c)"

definition SetDriveType :: "string \<Rightarrow> mscp_drive \<Rightarrow> bool \<times> mscp_drive" where
  "SetDriveType n d =
     (case filter (\<lambda>i. map lower_case n = map lower_case (TypeName i)) g_driveTable of
        [] \<Rightarrow> (False, d)
      | i # _ \<Rightarrow> (True, UpdateMetadata (d\<lparr>driveInfo := i\<rparr>)))"

definition new_drive :: "nat \<Rightarrow> mscp_drive" where
  "new_drive n =
     SetOffline (snd (SetDriveType ''RA81''
       \<lparr>driveInfo = drive_row [] 0 0 0 0 0 0 0, online = False, unitDeviceNumber = of_nat n + 1, unitClassModel = 0,
        useImageSize = False, rctData = [], drive_image = None\<rparr>))"

subsection \<open>Reading and writing\<close>

text \<open>
  The position \<^verbatim>\<open>blockNumber * GetBlockSize()\<close> is computed in 32 bits. Without an image nothing is read or
  written; the server asks for \<^verbatim>\<open>IsAvailable\<close> first.
\<close>

definition block_position :: "u32 \<Rightarrow> nat" where
  "block_position b = unat (b * GetBlockSize)"

definition drive_image_read :: "nat \<Rightarrow> nat \<Rightarrow> mscp_drive \<Rightarrow> (u8 list \<times> mscp_drive) option" where
  "drive_image_read pos len d =
     do { i \<leftarrow> drive_image d; (b, i') \<leftarrow> image_read pos len i; Some (b, d\<lparr>drive_image := Some i'\<rparr>) }"

definition drive_image_write :: "u8 list \<Rightarrow> nat \<Rightarrow> mscp_drive \<Rightarrow> mscp_drive option" where
  "drive_image_write buf pos d =
     do { i \<leftarrow> drive_image d; i' \<leftarrow> image_write buf pos i; Some (d\<lparr>drive_image := Some i'\<rparr>) }"

text \<open>The rest of the last block of a write is filled with zeros.\<close>

definition unused_bytes :: "nat \<Rightarrow> nat \<Rightarrow> nat \<Rightarrow> nat" where
  "unused_bytes block_size pos len = ((pos + len + block_size - 1) div block_size) * block_size - (pos + len)"

definition image_clear_remaining_block_bytes :: "nat \<Rightarrow> nat \<Rightarrow> nat \<Rightarrow> mscp_drive \<Rightarrow> mscp_drive option" where
  "image_clear_remaining_block_bytes block_size pos len d =
     (let n = unused_bytes block_size pos len in
      if 0 < n then drive_image_write (replicate n 0) (pos + len) d else Some d)"

definition drive_Write :: "u32 \<Rightarrow> u8 list \<Rightarrow> mscp_drive \<Rightarrow> mscp_drive option" where
  "drive_Write b buf d =
     do { d1 \<leftarrow> drive_image_write buf (block_position b) d;
          image_clear_remaining_block_bytes (unat GetBlockSize) (block_position b) (length buf) d1 }"

definition drive_Read :: "u32 \<Rightarrow> nat \<Rightarrow> mscp_drive \<Rightarrow> (u8 list \<times> mscp_drive) option" where
  "drive_Read b len d = drive_image_read (block_position b) len d"

definition WriteRCTBlock :: "u32 \<Rightarrow> u8 list \<Rightarrow> mscp_drive \<Rightarrow> mscp_drive option" where
  "WriteRCTBlock b buf d =
     do { assert_that (b < GetRCTBlockCount d);
          src \<leftarrow> buffer_load buf 0 (unat GetBlockSize);
          r \<leftarrow> buffer_store (rctData d) (block_position b) src;
          Some (d\<lparr>rctData := r\<rparr>) }"

definition ReadRCTBlock :: "u32 \<Rightarrow> mscp_drive \<Rightarrow> u8 list option" where
  "ReadRCTBlock b d =
     do { assert_that (b < GetRCTBlockCount d); buffer_load (rctData d) (block_position b) (unat GetBlockSize) }"

end
