(* ===== verification/UDA_Rings.thy ===== *)
theory UDA_Rings
  imports Device_View Bus_Memory MSCP_Drive
begin

text \<open>
  The port of the MSCP controller, first part (\<^verbatim>\<open>uda.cpp\<close>, \<^verbatim>\<open>uda.hpp\<close>): its state, DMA, interrupts,
  and the rings of command and response descriptors in host memory. A buffer of bytes that is
  transferred is a list of words; \<open>dma_spec\<close> is what the adapter's DMA does. A number of an enumeration
  that is only compared is a constructor.
\<close>

subsection \<open>State\<close>

datatype controller_type = UDA50 | RQDX3

datatype init_step = Uninitialized | Step1 | Step2 | Step3 | Step4 | Complete

record uda = device_view +
  controllerType :: controller_type
  dma22 :: bool
  ringBase :: u32
  commandRingLength :: nat
  responseRingLength :: nat
  commandRingPointer :: u32
  responseRingPointer :: u32
  interruptVector :: u32
  interruptEnable :: bool
  purgeInterruptEnable :: bool
  step1Value :: u16
  initStep :: init_step
  next_step :: bool
  request_vector :: u16
  intr_calls :: nat
  host_memory :: bus_memory
  host_limit :: u32

text \<open>Register 0 is IP, register 1 is SA.\<close>

definition update_SA :: "u16 \<Rightarrow> 'a uda_scheme \<Rightarrow> 'a uda_scheme" where
  "update_SA v s = set_dati 1 v s"

definition StateTransition :: "init_step \<Rightarrow> 'a uda_scheme \<Rightarrow> 'a uda_scheme" where
  "StateTransition n s = s\<lparr>initStep := n, next_step := True\<rparr>"

definition PORT_ERROR :: u16 where "PORT_ERROR = 0x8000"
definition PORT_ERROR_PACKET_READ :: u16 where "PORT_ERROR_PACKET_READ = 1"
definition PORT_ERROR_RING_READ :: u16 where "PORT_ERROR_RING_READ = 6"
definition PORT_ERROR_RING_WRITE :: u16 where "PORT_ERROR_RING_WRITE = 7"

definition PortError :: "u16 \<Rightarrow> 'a uda_scheme \<Rightarrow> 'a uda_scheme" where
  "PortError e s = StateTransition Uninitialized (update_SA (PORT_ERROR OR e) s)"

text \<open>A call of \<^verbatim>\<open>qunibusadapter->INTR\<close>, and with it the new value of SA where one is given.\<close>

definition interrupts_on :: "'a uda_scheme \<Rightarrow> bool" where
  "interrupts_on s \<longleftrightarrow> (interruptEnable s \<or> initStep s = Complete) \<and> interruptVector s \<noteq> 0"

definition Interrupt_SA :: "u16 \<Rightarrow> 'a uda_scheme \<Rightarrow> 'a uda_scheme" where
  "Interrupt_SA v s = (if interrupts_on s then (set_dati 1 v s)\<lparr>intr_calls := intr_calls s + 1\<rparr> else update_SA v s)"

definition Interrupt :: "'a uda_scheme \<Rightarrow> 'a uda_scheme" where
  "Interrupt s = (if interrupts_on s then s\<lparr>intr_calls := intr_calls s + 1\<rparr> else s)"

subsection \<open>DMA\<close>

definition DMAWrite :: "u32 \<Rightarrow> nat \<Rightarrow> u16 list \<Rightarrow> 'a uda_scheme \<Rightarrow> (bool \<times> 'a uda_scheme) option" where
  "DMAWrite a len buf s =
     do { assert_that (even len); assert_that (a < host_limit s);
          (ok, _, m) \<leftarrow> dma_spec (host_limit s) To_memory a buf (len div 2) (host_memory s);
          Some (ok, s\<lparr>host_memory := m\<rparr>) }"

text \<open>The result is no buffer if the memory could not be read. A fresh buffer is filled with 0xc3.\<close>

definition DMARead :: "u32 \<Rightarrow> nat \<Rightarrow> nat \<Rightarrow> 'a uda_scheme \<Rightarrow> u16 list option option" where
  "DMARead a len bufsize s =
     do { assert_that (len \<le> bufsize); assert_that (even len); assert_that (a < host_limit s);
          (ok, buf, _) \<leftarrow> dma_spec (host_limit s) To_device a (replicate (bufsize div 2) 0xc3c3) (len div 2) (host_memory s);
          Some (if ok then Some buf else None) }"

definition DMAWriteWord :: "u32 \<Rightarrow> u16 \<Rightarrow> 'a uda_scheme \<Rightarrow> (bool \<times> 'a uda_scheme) option" where
  "DMAWriteWord a w s = DMAWrite a 2 [w] s"

definition DMAReadWord :: "u32 \<Rightarrow> 'a uda_scheme \<Rightarrow> u16 option option" where
  "DMAReadWord a s = map_option (map_option hd) (DMARead a 2 2 s)"

subsection \<open>Descriptors and messages\<close>

text \<open>A descriptor is two words, \<open>Word0\<close> and \<open>Word1\<close>.\<close>

definition desc_ownership :: "u16 \<Rightarrow> bool" where "desc_ownership w1 = bit w1 15"
definition desc_flag :: "u16 \<Rightarrow> bool" where "desc_flag w1 = bit w1 14"

definition desc_envelope :: "u16 \<Rightarrow> u16 \<Rightarrow> u32" where
  "desc_envelope w0 w1 = ucast w0 OR push_bit 16 (ucast (w1 AND 3))"

text \<open>Ownership 0, flag 1.\<close>

definition desc_returned :: "u16 \<Rightarrow> u16" where
  "desc_returned w1 = (w1 AND NOT 0x8000) OR 0x4000"

definition GetCommandDescriptorAddress :: "nat \<Rightarrow> 'a uda_scheme \<Rightarrow> u32" where
  "GetCommandDescriptorAddress i s = ringBase s + of_nat (responseRingLength s * 4) + of_nat (i * 4)"

definition GetResponseDescriptorAddress :: "nat \<Rightarrow> 'a uda_scheme \<Rightarrow> u32" where
  "GetResponseDescriptorAddress i s = ringBase s + of_nat (i * 4)"

text \<open>A message with its header, in words: \<^verbatim>\<open>sizeof(Message)\<close> is 10256.\<close>

type_synonym message = "u16 list"

definition sizeof_Message :: nat where "sizeof_Message = 10256"
definition MAX_MESSAGE_LENGTH :: nat where "MAX_MESSAGE_LENGTH = 0x1000"

definition MessageLength :: "message \<Rightarrow> u16" where "MessageLength msg = msg ! 0"

text \<open>A remainder by a ring length of zero is undefined.\<close>

definition ring_mod :: "u32 \<Rightarrow> nat \<Rightarrow> nat option" where
  "ring_mod p len = do { assert_that (len \<noteq> 0); Some (unat p mod len) }"

subsection \<open>The command ring\<close>

datatype next_command = Next message | Ring_empty | Ring_error

definition ring_error :: "u16 \<Rightarrow> 'a uda_scheme \<Rightarrow> (next_command \<times> 'a uda_scheme) option" where
  "ring_error e s = Some (Ring_error, PortError e s)"

text \<open>
  Whether the host is to be told that the ring is no longer full: the flag is set, and the
  previous descriptor is still owned by the port. The outer option is a failed assertion, the inner one
  a failed DMA.
\<close>

definition ring_was_full :: "u16 \<Rightarrow> u32 \<Rightarrow> nat \<Rightarrow> (nat \<Rightarrow> 'a uda_scheme \<Rightarrow> u32) \<Rightarrow> 'a uda_scheme \<Rightarrow> bool option option" where
  "ring_was_full w1 ptr len addr s =
     (if \<not> desc_flag w1 then Some (Some False)
      else if len = 1 then Some (Some True)
      else do { i \<leftarrow> ring_mod (ptr - 1) len;
                d \<leftarrow> DMARead (addr i s) 4 4 s;
                Some (map_option (\<lambda>d. desc_ownership (d ! 1)) d) })"

definition return_command :: "u16 \<Rightarrow> u16 \<Rightarrow> message \<Rightarrow> bool \<Rightarrow> 'a uda_scheme \<Rightarrow> (next_command \<times> 'a uda_scheme) option" where
  "return_command w0 w1 msg doInterrupt s =
     do { (ok, s1) \<leftarrow> DMAWrite (GetCommandDescriptorAddress (unat (commandRingPointer s)) s) 4 [w0, desc_returned w1] s;
          if \<not> ok then ring_error PORT_ERROR_RING_WRITE s1
          else do { i \<leftarrow> ring_mod (commandRingPointer s1 + 1) (commandRingLength s1);
                    let s2 = s1\<lparr>commandRingPointer := of_nat i\<rparr>;
                    if doInterrupt
                    then do { (_, s3) \<leftarrow> DMAWriteWord (ringBase s2 - 4) 1 s2; Some (Next msg, Interrupt s3) }
                    else Some (Next msg, s2) } }"

definition fetch_command :: "u16 \<Rightarrow> u16 \<Rightarrow> 'a uda_scheme \<Rightarrow> (next_command \<times> 'a uda_scheme) option" where
  "fetch_command w0 w1 s =
     (let a = desc_envelope w0 w1 - 4 in
      do { len \<leftarrow> DMAReadWord a s;
           if len = None \<or> unat (the len) = 0 \<or> MAX_MESSAGE_LENGTH \<le> unat (the len)
           then ring_error PORT_ERROR_RING_READ s
           else do { msg \<leftarrow> DMARead a (unat (the len) + 4) sizeof_Message s;
                     case msg of
                       None \<Rightarrow> ring_error PORT_ERROR_RING_READ s
                     | Some msg \<Rightarrow>
                         do { was_full \<leftarrow> ring_was_full w1 (commandRingPointer s) (commandRingLength s) GetCommandDescriptorAddress s;
                              case was_full of
                                None \<Rightarrow> ring_error PORT_ERROR_RING_READ s
                              | Some b \<Rightarrow> return_command w0 w1 msg b s } } })"

definition GetNextCommand :: "'a uda_scheme \<Rightarrow> (next_command \<times> 'a uda_scheme) option" where
  "GetNextCommand s =
     do { d \<leftarrow> DMARead (GetCommandDescriptorAddress (unat (commandRingPointer s)) s) 4 4 s;
          case d of
            None \<Rightarrow> ring_error PORT_ERROR_PACKET_READ s
          | Some d \<Rightarrow> if desc_ownership (d ! 1) then fetch_command (d ! 0) (d ! 1) s else Some (Ring_empty, s) }"

subsection \<open>The response ring\<close>

text \<open>
  A descriptor that cannot be read is used all the same, through a null pointer: undefined. The
  length of the host's buffer is read and only logged.
\<close>

definition post_response_at :: "u16 \<Rightarrow> u16 \<Rightarrow> message \<Rightarrow> 'a uda_scheme \<Rightarrow> 'a uda_scheme option" where
  "post_response_at w0 w1 msg s =
     (let a = desc_envelope w0 w1 - 4; d = GetResponseDescriptorAddress (unat (responseRingPointer s)) s in
      do { _ \<leftarrow> DMAReadWord a s;
           assert_that (0 < MessageLength msg);
           (_, s1) \<leftarrow> DMAWrite a (unat (MessageLength msg) + 4) msg s;
           was_empty \<leftarrow> ring_was_full w1 (responseRingPointer s1) (responseRingLength s1) GetResponseDescriptorAddress s1;
           doInterrupt \<leftarrow> was_empty;
           (_, s2) \<leftarrow> DMAWrite d 4 [w0, desc_returned w1] s1;
           s3 \<leftarrow> (if doInterrupt
                 then map_option (\<lambda>(_, s). Interrupt s) (DMAWriteWord (ringBase s2 - 2) 1 s2)
                 else Some s2);
           i \<leftarrow> ring_mod (responseRingPointer s3 + 1) (responseRingLength s3);
           Some (s3\<lparr>responseRingPointer := of_nat i\<rparr>) })"

definition PostResponse :: "message \<Rightarrow> 'a uda_scheme \<Rightarrow> (bool \<times> 'a uda_scheme) option" where
  "PostResponse msg s =
     do { d \<leftarrow> DMARead (GetResponseDescriptorAddress (unat (responseRingPointer s)) s) 4 4 s;
          d \<leftarrow> d;
          if desc_ownership (d ! 1)
          then map_option (\<lambda>s. (True, s)) (post_response_at (d ! 0) (d ! 1) msg s)
          else Some (False, s) }"

end
