(* ===== verification/MSCP_Server.thy ===== *)
theory MSCP_Server
  imports UDA_Rings
begin

text \<open>
  The MSCP server (\<^verbatim>\<open>mscp_server.cpp\<close>, \<^verbatim>\<open>mscp_server.hpp\<close>): the commands, and the polling thread as a state
  machine whose steps are the iterations of its loops. Each command is one step. Waiting for a
  condition is a step that changes nothing. Stopping the thread at the end of the program is
  left out.
\<close>

subsection \<open>State\<close>

datatype PollingState = Wait | Run | InitRestart | InitRun

text \<open>Where the polling thread is: at the top of its loop, reading the ring, or executing its queue.\<close>

datatype poll_phase = Poll_top | Poll_reading | Poll_executing

record mscp = uda +
  hostTimeout :: u32
  controllerFlags :: u32
  pollState :: PollingState
  credits :: u8
  drives :: "nat \<Rightarrow> mscp_drive"
  poll_at :: poll_phase
  poll_queue :: "message list"

definition DRIVE_COUNT :: nat where "DRIVE_COUNT = 8"
definition MAX_CREDITS :: u8 where "MAX_CREDITS = 14"
definition INIT_CREDITS :: u8 where "INIT_CREDITS = 1"

definition GetDrive :: "nat \<Rightarrow> 'a mscp_scheme \<Rightarrow> mscp_drive option" where
  "GetDrive n s = (if n < DRIVE_COUNT then Some (drives s n) else None)"

definition set_drive :: "nat \<Rightarrow> mscp_drive \<Rightarrow> 'a mscp_scheme \<Rightarrow> 'a mscp_scheme" where
  "set_drive n d s = s\<lparr>drives := (drives s)(n := d)\<rparr>"

text \<open>The drive, if it exists and has an image.\<close>

definition available_drive :: "nat \<Rightarrow> 'a mscp_scheme \<Rightarrow> mscp_drive option" where
  "available_drive n s = (case GetDrive n s of None \<Rightarrow> None | Some d \<Rightarrow> if IsAvailable d then Some d else None)"

definition GetControllerIdentifier :: u32 where "GetControllerIdentifier = 0x12345678"
definition GetControllerClassModel :: u16 where "GetControllerClassModel = 0x0102"

subsection \<open>Messages\<close>

text \<open>
  Words of a message: 0 length, 1 credits (4 bits), type (4 bits) and connection, 2 and 3 reference
  number, 4 unit, 6 opcode or endcode and flags, 7 modifiers or status, from 8 on the parameters.
\<close>

definition word32 :: "nat \<Rightarrow> message \<Rightarrow> u32" where
  "word32 i msg = ucast (msg ! i) OR push_bit 16 (ucast (msg ! (i + 1)))"

definition put32 :: "nat \<Rightarrow> u32 \<Rightarrow> message \<Rightarrow> message" where
  "put32 i v msg = msg[i := ucast v, i + 1 := ucast (drop_bit 16 v)]"

definition parameters :: nat where "parameters = 8"

definition unit_number :: "message \<Rightarrow> nat" where "unit_number msg = unat (msg ! 4)"
definition opcode :: "message \<Rightarrow> u16" where "opcode msg = msg ! 6 AND 0xff"
definition modifiers :: "message \<Rightarrow> u16" where "modifiers msg = msg ! 7"

definition set_length :: "nat \<Rightarrow> message \<Rightarrow> message" where
  "set_length n msg = msg[0 := of_nat (n + 12)]"

definition STATUS :: "u32 \<Rightarrow> u32 \<Rightarrow> u32 \<Rightarrow> u32" where
  "STATUS code subcode flags = push_bit 8 flags OR push_bit 16 ((code AND 0x1f) OR push_bit 5 (subcode AND 0x7ff))"

definition GET_STATUS :: "u32 \<Rightarrow> u16" where "GET_STATUS st = ucast (drop_bit 16 st)"
definition GET_FLAGS :: "u32 \<Rightarrow> u16" where "GET_FLAGS st = ucast (drop_bit 8 st) AND 0xff"

definition SUCCESS :: u32 where "SUCCESS = 0"
definition INVALID_COMMAND :: u32 where "INVALID_COMMAND = 1"
definition UNIT_OFFLINE :: u32 where "UNIT_OFFLINE = 3"
definition UNIT_AVAILABLE :: u32 where "UNIT_AVAILABLE = 4"
definition COMPARE_ERROR :: u32 where "COMPARE_ERROR = 7"
definition HOST_BUFFER_ACCESS_ERROR :: u32 where "HOST_BUFFER_ACCESS_ERROR = 9"

definition HEADER_OFFSET :: u32 where "HEADER_OFFSET = 4"

text \<open>What a command gives: its status, the message as its response, and the new state.\<close>

type_synonym 'a result = "(u32 \<times> message \<times> 'a mscp_scheme) option"

subsection \<open>Commands without a transfer\<close>

definition do_Abort :: "message \<Rightarrow> 'a mscp_scheme \<Rightarrow> 'a result" where
  "do_Abort msg s = Some (STATUS SUCCESS 0 0, msg, s)"

definition do_Available :: "message \<Rightarrow> 'a mscp_scheme \<Rightarrow> 'a result" where
  "do_Available msg s =
     (case available_drive (unit_number msg) s of
        None \<Rightarrow> Some (STATUS UNIT_OFFLINE 0 0, msg, s)
      | Some d \<Rightarrow> Some (STATUS SUCCESS 0x40 0, msg, set_drive (unit_number msg) (SetOffline d) s))"

definition do_DetermineAccessPaths :: "message \<Rightarrow> 'a mscp_scheme \<Rightarrow> 'a result" where
  "do_DetermineAccessPaths msg s =
     (case available_drive (unit_number msg) s of
        None \<Rightarrow> Some (STATUS UNIT_OFFLINE 0 0, msg, s)
      | Some d \<Rightarrow> Some (STATUS SUCCESS 0 0, msg, s))"

definition do_GetCommandStatus :: "message \<Rightarrow> 'a mscp_scheme \<Rightarrow> 'a result" where
  "do_GetCommandStatus msg s = Some (STATUS SUCCESS 0 0, put32 (parameters + 2) 0 (set_length 8 msg), s)"

definition do_Replace :: "message \<Rightarrow> 'a mscp_scheme \<Rightarrow> 'a result" where
  "do_Replace msg s =
     (let msg = set_length 0 msg in
      case available_drive (unit_number msg) s of
        None \<Rightarrow> Some (STATUS UNIT_OFFLINE 0 0, msg, s)
      | Some d \<Rightarrow> Some (STATUS SUCCESS 0 0, msg, s))"

text \<open>The parameters of the responses to GET UNIT STATUS.\<close>

definition unit_unknown_params :: "message \<Rightarrow> message" where
  "unit_unknown_params msg = (put32 (parameters + 4) 0 msg)[parameters + 6 := 0, parameters + 7 := 0, parameters + 10 := 0]"

definition unit_status_params :: "nat \<Rightarrow> mscp_drive \<Rightarrow> message \<Rightarrow> message" where
  "unit_status_params n d msg =
     (put32 (parameters + 8) (MediaID (driveInfo d))
      (put32 (parameters + 4) (unitDeviceNumber d) (put32 (parameters + 2) 0 msg)))
       [parameters := 0, parameters + 1 := 0, parameters + 6 := 0, parameters + 7 := unitClassModel d,
        parameters + 10 := of_nat n, parameters + 11 := 0, parameters + 12 := SectsPerTrack (driveInfo d),
        parameters + 13 := TracksPerGroup (driveInfo d), parameters + 14 := GroupsPerCylinder (driveInfo d),
        parameters + 15 := 0, parameters + 16 := RCTSize (driveInfo d),
        parameters + 17 := ucast GetRBNs OR push_bit 8 (ucast GetRCTCopies)]"

definition do_GetUnitStatus :: "message \<Rightarrow> 'a mscp_scheme \<Rightarrow> 'a result" where
  "do_GetUnitStatus msg0 s =
     (let msg1 = set_length 36 msg0;
          wrap = (bit (modifiers msg1) 0 \<and> DRIVE_COUNT \<le> unit_number msg1);
          n = (if wrap then 0 else unit_number msg1);
          msg = (if wrap then msg1[4 := 0] else msg1)
      in case available_drive n s of
           None \<Rightarrow> Some (STATUS UNIT_OFFLINE 0 0, unit_unknown_params msg, s)
         | Some d \<Rightarrow> Some (STATUS (if online d then SUCCESS else UNIT_AVAILABLE) 0 0, unit_status_params n d msg, s))"

definition do_SetControllerCharacteristics :: "message \<Rightarrow> 'a mscp_scheme \<Rightarrow> 'a result" where
  "do_SetControllerCharacteristics msg0 s =
     (let msg = set_length 16 msg0 in
      if msg ! parameters \<noteq> 0 then Some (STATUS INVALID_COMMAND 0 0, msg, s)
      else
        (let s1 = s\<lparr>hostTimeout := ucast (msg ! (parameters + 2)), controllerFlags := ucast (msg ! (parameters + 1))\<rparr> in
         Some (STATUS SUCCESS 0 0,
           (put32 (parameters + 4) GetControllerIdentifier msg)
             [parameters + 3 := 0, parameters + 1 := ucast (controllerFlags s1) AND 0xfe, parameters + 2 := 0xff,
              parameters + 7 := GetControllerClassModel, parameters + 6 := 0],
           s1)))"

text \<open>ONLINE and SET UNIT CHARACTERISTICS.\<close>

definition unit_characteristics_params :: "mscp_drive \<Rightarrow> u32 \<Rightarrow> message \<Rightarrow> message" where
  "unit_characteristics_params d blocks msg =
     (put32 (parameters + 10) 0 (put32 (parameters + 2) 0 (put32 (parameters + 14) 0 (put32 (parameters + 12) blocks
      (put32 (parameters + 8) (MediaID (driveInfo d)) (put32 (parameters + 4) (unitDeviceNumber d) msg))))))
       [parameters := 0, parameters + 1 := 0, parameters + 6 := 0, parameters + 7 := unitClassModel d]"

definition SetUnitCharacteristicsInternal :: "bool \<Rightarrow> message \<Rightarrow> 'a mscp_scheme \<Rightarrow> 'a result" where
  "SetUnitCharacteristicsInternal bringOnline msg0 s =
     (let msg = set_length 32 msg0 in
      case available_drive (unit_number msg) s of
        None \<Rightarrow> Some (STATUS UNIT_OFFLINE 0 0, msg, s)
      | Some d \<Rightarrow>
          do { blocks \<leftarrow> GetBlockCount d;
               let msg = unit_characteristics_params d blocks msg;
               if bringOnline
               then Some (STATUS SUCCESS (if online d then 0x100 else 0) 0, msg, set_drive (unit_number msg) (SetOnline d) s)
               else Some (STATUS SUCCESS 0 0, msg, s) })"

subsection \<open>Transfers\<close>

datatype transfer = ACCESS | COMPARE_HOST_DATA | ERASE | READ | WRITE

definition byte_count :: "message \<Rightarrow> u32" where "byte_count msg = word32 parameters msg"
definition buffer_address :: "message \<Rightarrow> u32" where "buffer_address msg = word32 (parameters + 2) msg AND 0x00ffffff"
definition lbn :: "message \<Rightarrow> u32" where "lbn msg = word32 (parameters + 8) msg"

text \<open>The checks on block number and byte count, in 32 bits; a refusal is the subcode of the bad field.\<close>

definition check_transfer :: "u32 \<Rightarrow> mscp_drive \<Rightarrow> message \<Rightarrow> u32 option" where
  "check_transfer blocks d msg =
     (let all = blocks + GetRCTBlockCount d in
      if all \<le> lbn msg then Some (16 + HEADER_OFFSET)
      else if (all - lbn msg) * GetBlockSize < byte_count msg then Some (0 + HEADER_OFFSET)
      else if blocks \<le> lbn msg \<and> byte_count msg \<noteq> GetBlockSize then Some (0 + HEADER_OFFSET)
      else None)"

text \<open>The data of a transfer on the disk: in the RCT area from block \<open>blocks\<close> on.\<close>

definition read_disk :: "u32 \<Rightarrow> message \<Rightarrow> mscp_drive \<Rightarrow> (u8 list \<times> mscp_drive) option" where
  "read_disk blocks msg d =
     (if blocks \<le> lbn msg then map_option (\<lambda>b. (b, d)) (ReadRCTBlock (lbn msg - blocks) d)
      else drive_Read (lbn msg) (unat (byte_count msg)) d)"

definition write_disk :: "u32 \<Rightarrow> message \<Rightarrow> u8 list \<Rightarrow> mscp_drive \<Rightarrow> mscp_drive option" where
  "write_disk blocks msg buf d =
     (if blocks \<le> lbn msg then WriteRCTBlock (lbn msg - blocks) buf d else drive_Write (lbn msg) buf d)"

definition read_host :: "message \<Rightarrow> 'a mscp_scheme \<Rightarrow> u8 list option option" where
  "read_host msg s =
     map_option (map_option words_to_bytes)
       (DMARead (buffer_address msg) (unat (byte_count msg)) (unat (byte_count msg)) s)"

definition NXM_status :: u32 where "NXM_status = STATUS HOST_BUFFER_ACCESS_ERROR 3 0"

text \<open>
  The operations: \<^theory_text>\<open>None\<close> in the status means that the transfer is done. \<open>n\<close> is the unit. COMPARE HOST DATA
  falls through to ERASE.
\<close>

definition transfer_ERASE :: "u32 \<Rightarrow> nat \<Rightarrow> message \<Rightarrow> 'a mscp_scheme \<Rightarrow> (u32 option \<times> 'a mscp_scheme) option" where
  "transfer_ERASE blocks n msg s =
     do { d \<leftarrow> write_disk blocks msg (replicate (unat (byte_count msg)) 0) (drives s n);
          Some (None, set_drive n d s) }"

definition transfer_COMPARE :: "u32 \<Rightarrow> nat \<Rightarrow> message \<Rightarrow> 'a mscp_scheme \<Rightarrow> (u32 option \<times> 'a mscp_scheme) option" where
  "transfer_COMPARE blocks n msg s0 =
     do { (disk, d) \<leftarrow> read_disk blocks msg (drives s0 n);
          let s = set_drive n d s0;
          mem \<leftarrow> read_host msg s;
          case mem of
            None \<Rightarrow> Some (Some NXM_status, s)
          | Some mem \<Rightarrow>
              if take (unat (byte_count msg)) disk = take (unat (byte_count msg)) mem
              then Some (Some (STATUS COMPARE_ERROR 0 0), s)
              else transfer_ERASE blocks n msg s }"

definition transfer_READ :: "u32 \<Rightarrow> nat \<Rightarrow> message \<Rightarrow> 'a mscp_scheme \<Rightarrow> (u32 option \<times> 'a mscp_scheme) option" where
  "transfer_READ blocks n msg s0 =
     do { (disk, d) \<leftarrow> read_disk blocks msg (drives s0 n);
          (ok, s) \<leftarrow> DMAWrite (buffer_address msg) (unat (byte_count msg)) (bytes_to_words disk) (set_drive n d s0);
          Some (if ok then None else Some NXM_status, s) }"

definition transfer_WRITE :: "u32 \<Rightarrow> nat \<Rightarrow> message \<Rightarrow> 'a mscp_scheme \<Rightarrow> (u32 option \<times> 'a mscp_scheme) option" where
  "transfer_WRITE blocks n msg s =
     do { mem \<leftarrow> read_host msg s;
          case mem of
            None \<Rightarrow> Some (Some NXM_status, s)
          | Some mem \<Rightarrow> do { d \<leftarrow> write_disk blocks msg mem (drives s n); Some (None, set_drive n d s) } }"

definition do_transfer :: "transfer \<Rightarrow> u32 \<Rightarrow> nat \<Rightarrow> message \<Rightarrow> 'a mscp_scheme \<Rightarrow> (u32 option \<times> 'a mscp_scheme) option" where
  "do_transfer op blocks n msg s =
     (case op of
        ACCESS \<Rightarrow> Some (None, s)
      | COMPARE_HOST_DATA \<Rightarrow> transfer_COMPARE blocks n msg s
      | ERASE \<Rightarrow> transfer_ERASE blocks n msg s
      | READ \<Rightarrow> transfer_READ blocks n msg s
      | WRITE \<Rightarrow> transfer_WRITE blocks n msg s)"

definition DoDiskTransfer :: "transfer \<Rightarrow> message \<Rightarrow> 'a mscp_scheme \<Rightarrow> 'a result" where
  "DoDiskTransfer op msg0 s =
     (let msg = set_length 20 msg0; n = unit_number msg in
      case available_drive n s of
        None \<Rightarrow> Some (STATUS UNIT_OFFLINE 0 0, msg, s)
      | Some d \<Rightarrow>
          if \<not> online d then Some (STATUS UNIT_AVAILABLE 0 0, msg, s)
          else
            do { blocks \<leftarrow> GetBlockCount d;
                 case check_transfer blocks d msg of
                   Some subcode \<Rightarrow> Some (STATUS INVALID_COMMAND subcode 0, msg, s)
                 | None \<Rightarrow>
                     do { (st, s) \<leftarrow> do_transfer op blocks n msg s;
                          case st of
                            Some st \<Rightarrow> Some (st, msg, s)
                          | None \<Rightarrow> Some (STATUS SUCCESS 0 0, put32 (parameters + 8) 0 msg, s) } })"

subsection \<open>The polling thread\<close>

text \<open>The dispatch on opcodes; the last case is the protocol error.\<close>

definition dispatch_command :: "message \<Rightarrow> 'a mscp_scheme \<Rightarrow> (bool \<times> u32 \<times> message \<times> 'a mscp_scheme) option" where
  "dispatch_command msg s =
     (let op = opcode msg; known = map_option (Pair False) in
      if op = 0x01 then known (do_Abort msg s)
      else if op = 0x10 then known (DoDiskTransfer ACCESS msg s)
      else if op = 0x08 then known (do_Available msg s)
      else if op = 0x20 then known (DoDiskTransfer COMPARE_HOST_DATA msg s)
      else if op = 0x0b then known (do_DetermineAccessPaths msg s)
      else if op = 0x12 then known (DoDiskTransfer ERASE msg s)
      else if op = 0x02 then known (do_GetCommandStatus msg s)
      else if op = 0x03 then known (do_GetUnitStatus msg s)
      else if op = 0x09 then known (SetUnitCharacteristicsInternal True msg s)
      else if op = 0x21 then known (DoDiskTransfer READ msg s)
      else if op = 0x14 then known (do_Replace msg s)
      else if op = 0x04 then known (do_SetControllerCharacteristics msg s)
      else if op = 0x0a then known (SetUnitCharacteristicsInternal False msg s)
      else if op = 0x22 then known (DoDiskTransfer WRITE msg s)
      else Some (True, STATUS INVALID_COMMAND (8 + HEADER_OFFSET) 0, msg, s))"

text \<open>Endcode, flags and status of the response.\<close>

definition end_message :: "bool \<Rightarrow> u32 \<Rightarrow> message \<Rightarrow> message" where
  "end_message protocolError st msg =
     (let endcode = (if protocolError then 0x80 else (msg ! 6 AND 0xff) OR 0x80)
      in msg[6 := endcode OR push_bit 8 (GET_FLAGS st), 7 := GET_STATUS st])"

definition message_type :: "message \<Rightarrow> u16" where "message_type msg = drop_bit 4 (msg ! 1) AND 0xf"

definition set_credits :: "u8 \<Rightarrow> message \<Rightarrow> message" where
  "set_credits c msg = msg[1 := (msg ! 1 AND NOT 0xf) OR (ucast c AND 0xf)]"

text \<open>The first responses hand all credits to the host, every response returns one.\<close>

definition grant_credits :: "message \<Rightarrow> 'a mscp_scheme \<Rightarrow> message \<times> 'a mscp_scheme" where
  "grant_credits msg s =
     (if message_type msg = 0 \<and> bit (msg ! 6) 7
      then (let g = min (credits s) MAX_CREDITS in (set_credits (g + 1) msg, s\<lparr>credits := credits s - g\<rparr>))
      else (set_credits 0 msg, s))"

definition handle_message :: "message \<Rightarrow> 'a mscp_scheme \<Rightarrow> 'a mscp_scheme option" where
  "handle_message msg0 s0 =
     do { (protocolError, st, msg1, s1) \<leftarrow> dispatch_command msg0 s0;
          let (msg, s2) = grant_credits (end_message protocolError st msg1) s1;
          (posted, s3) \<leftarrow> PostResponse msg s2;
          assert_that posted;
          Some s3 }"

definition poll_wakes :: "'a mscp_scheme \<Rightarrow> 'a mscp_scheme" where
  "poll_wakes s =
     (if pollState s = Wait then s
      else s\<lparr>pollState := (if pollState s = InitRun then Run else pollState s), poll_at := Poll_reading, poll_queue := []\<rparr>)"

definition poll_reads :: "'a mscp_scheme \<Rightarrow> 'a mscp_scheme option" where
  "poll_reads s =
     (if pollState s = InitRestart then Some (s\<lparr>poll_at := Poll_executing\<rparr>)
      else do { (c, s1) \<leftarrow> GetNextCommand s;
                Some (case c of
                  Next msg \<Rightarrow> s1\<lparr>poll_queue := poll_queue s1 @ [msg]\<rparr>
                | Ring_empty \<Rightarrow> s1\<lparr>poll_at := Poll_executing\<rparr>
                | Ring_error \<Rightarrow> s1\<lparr>poll_at := Poll_executing, poll_queue := []\<rparr>) })"

definition poll_sleeps :: "'a mscp_scheme \<Rightarrow> 'a mscp_scheme" where
  "poll_sleeps s =
     s\<lparr>pollState := (case pollState s of InitRestart \<Rightarrow> Wait | InitRun \<Rightarrow> Run | _ \<Rightarrow> Wait),
       poll_at := Poll_top, poll_queue := []\<rparr>"

definition poll_executes :: "'a mscp_scheme \<Rightarrow> 'a mscp_scheme option" where
  "poll_executes s =
     (case poll_queue s of
        [] \<Rightarrow> Some (poll_sleeps s)
      | msg # msgs \<Rightarrow>
          if pollState s = InitRestart then Some (poll_sleeps s)
          else handle_message msg (s\<lparr>poll_queue := msgs\<rparr>))"

definition poll_step :: "'a mscp_scheme \<Rightarrow> 'a mscp_scheme option" where
  "poll_step s =
     (case poll_at s of
        Poll_top \<Rightarrow> Some (poll_wakes s)
      | Poll_reading \<Rightarrow> poll_reads s
      | Poll_executing \<Rightarrow> poll_executes s)"

subsection \<open>Waking and resetting the server\<close>

definition InitPolling :: "'a mscp_scheme \<Rightarrow> 'a mscp_scheme" where
  "InitPolling s = s\<lparr>pollState := InitRun\<rparr>"

text \<open>\<^verbatim>\<open>Reset\<close>: it asks the polling thread to stop, waits until that sleeps, then resets.\<close>

definition server_Reset_begin :: "'a mscp_scheme \<Rightarrow> 'a mscp_scheme" where
  "server_Reset_begin s = (if pollState s \<noteq> Wait then s\<lparr>pollState := InitRestart\<rparr> else s)"

definition drives_offline :: "'a mscp_scheme \<Rightarrow> 'a mscp_scheme" where
  "drives_offline s = s\<lparr>drives := (\<lambda>i. if i < DRIVE_COUNT then SetOffline (drives s i) else drives s i)\<rparr>"

definition server_Reset_end :: "'a mscp_scheme \<Rightarrow> 'a mscp_scheme" where
  "server_Reset_end s = drives_offline (s\<lparr>credits := INIT_CREDITS\<rparr>)"

end
