(* ===== verification/UDA.thy ===== *)
theory UDA
  imports MSCP_Server
begin

text \<open>
  The port of the MSCP controller, second part (\<^verbatim>\<open>uda.cpp\<close>): the register accesses of the host, the
  initialization in four steps by the worker thread, power and INIT. The worker's \<^verbatim>\<open>Reset\<close> waits for the
  polling thread in the middle. Delays are left out.
\<close>

datatype worker_phase = Worker_waiting | Worker_resetting

record uda_port = mscp +
  worker_at :: worker_phase

definition UDA50_ID :: u16 where "UDA50_ID = 0x0063"
definition RQDX3_ID :: u16 where "RQDX3_ID = 0x0133"

definition STEP1 :: u16 where "STEP1 = 0x0800"
definition STEP2 :: u16 where "STEP2 = 0x1000"
definition STEP3 :: u16 where "STEP3 = 0x2000"
definition STEP4 :: u16 where "STEP4 = 0x4000"
definition STEP1_22_BIT :: u16 where "STEP1_22_BIT = 0x0200"

subsection \<open>The worker\<close>

text \<open>The first word written is at \<open>-headerSize\<close>; \<open>clear_words a n\<close> writes \<open>n\<close> zero words from \<open>a\<close>.\<close>

fun clear_words :: "u32 \<Rightarrow> nat \<Rightarrow> 'a uda_scheme \<Rightarrow> 'a uda_scheme option" where
  "clear_words a 0 s = Some s"
| "clear_words a (Suc n) s = do { (_, s1) \<leftarrow> DMAWriteWord a 0 s; clear_words (a + 2) n s1 }"

fun own_responses :: "nat \<Rightarrow> nat \<Rightarrow> 'a uda_scheme \<Rightarrow> 'a uda_scheme option" where
  "own_responses i 0 s = Some s"
| "own_responses i (Suc n) s =
     do { (_, s1) \<leftarrow> DMAWrite (GetResponseDescriptorAddress i s) 4 [0, 0x8000] s; own_responses (Suc i) n s1 }"

definition headerSize :: "'a uda_scheme \<Rightarrow> nat" where
  "headerSize s = (if purgeInterruptEnable s then 8 else 4)"

definition clear_communications_area :: "'a uda_scheme \<Rightarrow> 'a uda_scheme option" where
  "clear_communications_area s =
     do { s1 \<leftarrow> clear_words (ringBase s - of_nat (headerSize s))
                 (((responseRingLength s + commandRingLength s) * 4 + headerSize s) div 2) s;
          own_responses 0 (responseRingLength s1) s1 }"

text \<open>What \<^verbatim>\<open>Reset\<close> does after the server's \<^verbatim>\<open>Reset\<close>, and the transition that follows.\<close>

definition Reset_end :: "'a uda_port_scheme \<Rightarrow> 'a uda_port_scheme" where
  "Reset_end s =
     StateTransition Step1
       ((server_Reset_end s)\<lparr>ringBase := 0, commandRingLength := 0, responseRingLength := 0, commandRingPointer := 0,
          responseRingPointer := 0, interruptVector := 0, interruptEnable := False, purgeInterruptEnable := False,
          worker_at := Worker_waiting\<rparr>)"

definition worker_init_step :: "'a uda_port_scheme \<Rightarrow> 'a uda_port_scheme option" where
  "worker_init_step s =
     (case initStep s of
        Uninitialized \<Rightarrow>
          (let s1 = server_Reset_begin (update_SA 0 s) in
           Some (if pollState s1 = Wait then Reset_end s1 else s1\<lparr>worker_at := Worker_resetting\<rparr>))
      | Step1 \<Rightarrow> Some (update_SA (STEP1 OR (if dma22 s then STEP1_22_BIT else 0)) s)
      | Step2 \<Rightarrow> Some (Interrupt_SA (STEP2 OR drop_bit 8 (step1Value s)) s)
      | Step3 \<Rightarrow> Some (Interrupt_SA (STEP3 OR (step1Value s AND 0xff)) s)
      | Step4 \<Rightarrow>
          do { s1 \<leftarrow> clear_communications_area s;
               Some (Interrupt_SA (STEP4 OR (if controllerType s1 = UDA50 then UDA50_ID else RQDX3_ID)) s1) }
      | Complete \<Rightarrow> Some s)"

definition worker_step :: "'a uda_port_scheme \<Rightarrow> 'a uda_port_scheme option" where
  "worker_step s =
     (case worker_at s of
        Worker_waiting \<Rightarrow> if next_step s then worker_init_step (s\<lparr>next_step := False\<rparr>) else Some s
      | Worker_resetting \<Rightarrow> Some (if pollState s = Wait then Reset_end s else s))"

subsection \<open>Register accesses\<close>

definition access_IP :: "bool \<Rightarrow> 'a mscp_scheme \<Rightarrow> 'a mscp_scheme" where
  "access_IP is_write s =
     (if is_write then StateTransition Uninitialized (update_SA 0 s)
      else if initStep s = Complete then InitPolling s else s)"

text \<open>\<^verbatim>\<open>set_vector\<close> asserts that the vector is a multiple of 4, which it is.\<close>

definition write_step1 :: "u16 \<Rightarrow> 'a uda_scheme \<Rightarrow> 'a uda_scheme" where
  "write_step1 v s =
     StateTransition Step2
       (s\<lparr>step1Value := v, interruptVector := push_bit 2 (ucast v AND 0x7f),
          request_vector := push_bit 2 (v AND 0x7f), interruptEnable := bit v 7,
          responseRingLength := 2 ^ unat (drop_bit 8 (v AND 0x700)),
          commandRingLength := 2 ^ unat (drop_bit 11 (v AND 0x3800))\<rparr>)"

definition write_step2 :: "u16 \<Rightarrow> 'a uda_scheme \<Rightarrow> 'a uda_scheme" where
  "write_step2 v s = StateTransition Step3 (s\<lparr>ringBase := ucast (v AND 0xfffe), purgeInterruptEnable := bit v 0\<rparr>)"

definition write_step3 :: "u16 \<Rightarrow> 'a uda_scheme \<Rightarrow> 'a uda_scheme" where
  "write_step3 v s = StateTransition Step4 (s\<lparr>ringBase := ringBase s OR push_bit 16 (ucast (v AND 0x7fff))\<rparr>)"

definition write_step4 :: "u16 \<Rightarrow> 'a uda_scheme \<Rightarrow> 'a uda_scheme" where
  "write_step4 v s = (if bit v 0 then update_SA 0 (StateTransition Complete s) else s)"

definition write_SA :: "'a uda_scheme \<Rightarrow> 'a uda_scheme" where
  "write_SA s =
     (let v = dato s 1 in
      case initStep s of
        Uninitialized \<Rightarrow> write_step1 v s
      | Step1 \<Rightarrow> write_step1 v s
      | Step2 \<Rightarrow> write_step2 v s
      | Step3 \<Rightarrow> write_step3 v s
      | Step4 \<Rightarrow> write_step4 v s
      | Complete \<Rightarrow> s)"

definition uda_on_after_register_access :: "nat \<Rightarrow> bool \<Rightarrow> 'a mscp_scheme \<Rightarrow> 'a mscp_scheme" where
  "uda_on_after_register_access i is_write s =
     (if i = 0 then access_IP is_write s else if i = 1 then write_SA s else s)"

text \<open>A write by the host: the value arrives in the write flipflops, then the device is called.\<close>

definition host_writes :: "nat \<Rightarrow> u16 \<Rightarrow> 'a mscp_scheme \<Rightarrow> 'a mscp_scheme" where
  "host_writes i v s = uda_on_after_register_access i True (s\<lparr>dato := (dato s)(i := v)\<rparr>)"

definition host_reads_IP :: "'a mscp_scheme \<Rightarrow> 'a mscp_scheme" where
  "host_reads_IP s = uda_on_after_register_access 0 False s"

text \<open>The drives are told of power changes and of both edges of INIT, and go offline.\<close>

definition uda_on_power_changed :: "bool \<Rightarrow> 'a mscp_scheme \<Rightarrow> 'a mscp_scheme" where
  "uda_on_power_changed dclo_raising s =
     (let s1 = drives_offline s in if dclo_raising then StateTransition Uninitialized s1 else s1)"

definition uda_on_init_changed :: "bool \<Rightarrow> 'a mscp_scheme \<Rightarrow> 'a mscp_scheme" where
  "uda_on_init_changed asserted s =
     drives_offline (if asserted then StateTransition Uninitialized s else s)"

text \<open>The constructors of the controller and of its server. The address space has 18 or 22 bits.\<close>

definition new_port :: "bool \<Rightarrow> bus_memory \<Rightarrow> uda_port" where
  "new_port bits22 m =
     \<lparr>dati = (\<lambda>_. 0), dato = (\<lambda>_. 0), controllerType = UDA50, dma22 = bits22, ringBase = 0, commandRingLength = 0,
      responseRingLength = 0, commandRingPointer = 0, responseRingPointer = 0, interruptVector = 0,
      interruptEnable = False, purgeInterruptEnable = False, step1Value = 0, initStep = Uninitialized,
      next_step = False, request_vector = 108, intr_calls = 0, host_memory = m,
      host_limit = (if bits22 then 0x400000 else 0x40000),
      hostTimeout = 0, controllerFlags = 0, pollState = Wait, credits = INIT_CREDITS, drives = new_drive,
      poll_at = Poll_top, poll_queue = [], worker_at = Worker_waiting\<rparr>"

subsection \<open>Runs\<close>

text \<open>
  The threads in any interleaving: accesses of the bus, power and INIT, the worker and the polling
  thread. The host may change its memory at any time.
\<close>

datatype uda_event =
    Host_write nat u16 | Host_read_IP | Host_memory bus_memory | Power bool | Init bool | Worker | Poll

fun uda_step :: "uda_event \<Rightarrow> 'a uda_port_scheme \<Rightarrow> 'a uda_port_scheme option" where
  "uda_step (Host_write i v) s = Some (host_writes i v s)"
| "uda_step Host_read_IP s = Some (host_reads_IP s)"
| "uda_step (Host_memory m) s = Some (s\<lparr>host_memory := m\<rparr>)"
| "uda_step (Power dclo_raising) s = Some (uda_on_power_changed dclo_raising s)"
| "uda_step (Init asserted) s = Some (uda_on_init_changed asserted s)"
| "uda_step Worker s = worker_step s"
| "uda_step Poll s = poll_step s"

fun uda_steps :: "uda_event list \<Rightarrow> 'a uda_port_scheme \<Rightarrow> 'a uda_port_scheme option" where
  "uda_steps [] s = Some s"
| "uda_steps (e # es) s = do { s1 \<leftarrow> uda_step e s; uda_steps es s1 }"

end
