(* ===== verification/Host_Regions.thy ===== *)
theory Host_Regions
  imports UDA_Rings
begin

text \<open>
  Regions of host memory under the DMA of the MSCP controller: what reading and writing a region that is
  present and lies in the address space gives, and that regions apart from each other do not interfere.
\<close>

declare bus_write.simps(2) [simp del]

definition present :: "bus_memory \<Rightarrow> u32 \<Rightarrow> nat \<Rightarrow> bool" where
  "present m a n \<longleftrightarrow> (\<forall>i<n. m (a + 2 * of_nat i) \<noteq> None)"

text \<open>\<open>n\<close> words from \<open>a\<close> on lie below \<open>lim\<close>.\<close>

definition fits :: "u32 \<Rightarrow> nat \<Rightarrow> u32 \<Rightarrow> bool" where
  "fits a n lim \<longleftrightarrow> 0 < n \<and> unat a + 2 * n \<le> unat lim"

definition apart :: "u32 \<Rightarrow> nat \<Rightarrow> u32 \<Rightarrow> nat \<Rightarrow> bool" where
  "apart a n b k \<longleftrightarrow> unat a + 2 * n \<le> unat b \<or> unat b + 2 * k \<le> unat a"

lemma apart_sym: "apart a n b k \<longleftrightarrow> apart b k a n"
  by (auto simp: apart_def)

lemma fits_32: "fits a n lim \<Longrightarrow> unat a + 2 * n \<le> 2 ^ 32"
  using unsigned_less [where 'a = nat, of lim] by (simp add: fits_def)

lemma fits_D:
  assumes "fits a n lim"
  shows "0 < n" "a < lim" "a + 2 * of_nat n \<le> lim"
proof -
  have u: "unat a + 2 * n \<le> unat lim" "0 < n" using assms by (simp_all add: fits_def)
  have l: "unat lim < 2 ^ 32" using unsigned_less [where 'a = nat, of lim] by simp
  show "0 < n" by fact
  show "a < lim" using u by (simp add: word_less_nat_alt)
  have "a + 2 * of_nat n = of_nat (unat a + 2 * n)" by simp
  then have "unat (a + 2 * of_nat n) = (unat a + 2 * n) mod 2 ^ 32" by (simp only: unat_of_nat) simp
  also have "\<dots> = unat a + 2 * n" using u l by (intro mod_less) linarith
  finally show "a + 2 * of_nat n \<le> lim" using u by (simp add: word_le_nat_alt)
qed

lemma bus_read_cong:
  assumes "\<And>i. i < n \<Longrightarrow> m (a + 2 * of_nat i) = m' (a + 2 * of_nat i)"
  shows "bus_read m a n = bus_read m' a n"
proof -
  have "bus_read m a n = Some ws \<longleftrightarrow> bus_read m' a n = Some ws" for ws
    unfolding bus_read_iff using assms by auto
  then show ?thesis by (metis option.exhaust)
qed

lemma present_read:
  assumes "present m a n"
  obtains ws where "bus_read m a n = Some ws" "length ws = n"
proof -
  have "bus_read m a n = Some (map (\<lambda>i. the (m (a + 2 * of_nat i))) [0..<n])"
    unfolding bus_read_iff using assms by (auto simp: present_def)
  then show thesis by (rule that) simp
qed

lemma read_present: "bus_read m a n = Some ws \<Longrightarrow> present m a n"
  unfolding bus_read_iff present_def by auto

lemma dom_bus_write: "dom (fst (bus_write m a ws)) = dom m"
  by (induction ws arbitrary: m a) (auto simp: bus_write.simps(2) split: option.splits)

lemma present_write [simp]: "present (fst (bus_write m a ws)) b k = present m b k"
  using dom_bus_write [of m a ws] unfolding present_def by (metis domIff)

lemma apart_words:
  assumes "apart a n b k" "unat a + 2 * n \<le> 2 ^ 32" "unat b + 2 * k \<le> 2 ^ 32" "i < n" "j < k"
  shows "b + 2 * of_nat j \<noteq> a + 2 * of_nat i"
proof
  assume "b + 2 * of_nat j = a + 2 * of_nat i"
  then have "unat b + 2 * j = unat a + 2 * i"
    using word_addr_unat [OF assms(2,4)] word_addr_unat [OF assms(3,5)] by metis
  with assms(1,4,5) show False by (auto simp: apart_def)
qed

lemma written_elsewhere:
  assumes "present m a (length ws)" "unat a + 2 * length ws \<le> 2 ^ 32" "apart a (length ws) b k" "unat b + 2 * k \<le> 2 ^ 32"
  shows "bus_read (fst (bus_write m a ws)) b k = bus_read m b k"
proof (rule bus_read_cong)
  fix j assume "j < k"
  show "fst (bus_write m a ws) (b + 2 * of_nat j) = m (b + 2 * of_nat j)"
    by (rule bus_write_ok(3)) (use assms apart_words [OF assms(3,2,4) _ \<open>j < k\<close>] in \<open>auto simp: present_def\<close>)
qed

lemma written_here:
  assumes "present m a (length ws)" "unat a + 2 * length ws \<le> 2 ^ 32"
  shows "bus_read (fst (bus_write m a ws)) a (length ws) = Some ws"
  unfolding bus_read_iff using bus_write_ok(2) [OF assms(2)] assms(1) by (auto simp: present_def)

lemma write_ok_present:
  assumes "present m a (length ws)" "unat a + 2 * length ws \<le> 2 ^ 32"
  shows "snd (bus_write m a ws)"
  using bus_write_ok(1) [OF assms(2)] assms(1) by (simp add: present_def)

subsection \<open>The DMA functions\<close>

lemma DMARead_ok:
  assumes "fits a n (host_limit s)" "n \<le> b" "bus_read (host_memory s) a n = Some ws"
  shows "DMARead a (2 * n) (2 * b) s = Some (Some (ws @ replicate (b - n) 0xc3c3))"
  using fits_D [OF assms(1)] assms(2,3) by (simp add: DMARead_def dma_spec_def)

lemma DMAReadWord_ok:
  assumes "fits a 1 (host_limit s)" "bus_read (host_memory s) a 1 = Some [w]"
  shows "DMAReadWord a s = Some (Some w)"
  using DMARead_ok [OF assms(1) _ assms(2), of 1] by (simp add: DMAReadWord_def)

definition poke :: "u32 \<Rightarrow> u16 list \<Rightarrow> 'a uda_scheme \<Rightarrow> 'a uda_scheme" where
  "poke a ws s = s\<lparr>host_memory := fst (bus_write (host_memory s) a ws)\<rparr>"

lemma poke_sel [simp]:
  "host_memory (poke a ws s) = fst (bus_write (host_memory s) a ws)" "host_limit (poke a ws s) = host_limit s"
  "ringBase (poke a ws s) = ringBase s" "commandRingLength (poke a ws s) = commandRingLength s"
  "responseRingLength (poke a ws s) = responseRingLength s" "commandRingPointer (poke a ws s) = commandRingPointer s"
  "responseRingPointer (poke a ws s) = responseRingPointer s" "initStep (poke a ws s) = initStep s"
  "dati (poke a ws s) = dati s" "dato (poke a ws s) = dato s" "next_step (poke a ws s) = next_step s"
  "interruptVector (poke a ws s) = interruptVector s" "interruptEnable (poke a ws s) = interruptEnable s"
  "purgeInterruptEnable (poke a ws s) = purgeInterruptEnable s" "controllerType (poke a ws s) = controllerType s"
  "intr_calls (poke a ws s) = intr_calls s" "step1Value (poke a ws s) = step1Value s" "dma22 (poke a ws s) = dma22 s"
  by (simp_all add: poke_def)

lemma DMAWrite_ok:
  assumes "fits a n (host_limit s)" "n \<le> length buf" "present (host_memory s) a n"
  shows "DMAWrite a (2 * n) buf s = Some (True, poke a (take n buf) s)"
proof -
  have "length (take n buf) = n" using assms(2) by simp
  then have "snd (bus_write (host_memory s) a (take n buf))"
    using write_ok_present [of "host_memory s" a "take n buf"] assms fits_32 [OF assms(1)] by simp
  then show ?thesis using fits_D [OF assms(1)] assms(2)
    by (simp add: DMAWrite_def dma_spec_def poke_def split_beta Let_def)
qed

lemma DMAWriteWord_ok:
  assumes "fits a 1 (host_limit s)" "present (host_memory s) a 1"
  shows "DMAWriteWord a w s = Some (True, poke a [w] s)"
  using DMAWrite_ok [OF assms(1) _ assms(2), of "[w]"] by (simp add: DMAWriteWord_def)

text \<open>An address outside the address space ends the program, and so does an odd length.\<close>

lemma DMA_outside:
  assumes "host_limit s \<le> a"
  shows "DMAWrite a n buf s = None" "DMARead a n b s = None"
proof -
  have "\<not> a < host_limit s" using assms by simp
  then show "DMAWrite a n buf s = None" "DMARead a n b s = None" by (simp_all add: DMAWrite_def DMARead_def)
qed

lemma DMA_odd: "odd n \<Longrightarrow> DMAWrite a n buf s = None" "odd n \<Longrightarrow> DMARead a n b s = None"
  by (simp_all add: DMAWrite_def DMARead_def)

subsection \<open>Regions written piece by piece\<close>

lemma present_shift: "present m a (k + n) \<Longrightarrow> present m (a + 2 * of_nat k) n"
  unfolding present_def
proof (intro allI impI)
  fix i assume all: "\<forall>i<k + n. m (a + 2 * of_nat i) \<noteq> None" and i: "i < n"
  have "m (a + 2 * of_nat (k + i)) \<noteq> None" by (rule all [rule_format]) (use i in simp)
  then show "m (a + 2 * of_nat k + 2 * of_nat i) \<noteq> None" by (simp add: algebra_simps)
qed

lemma present_le: "present m a n \<Longrightarrow> k \<le> n \<Longrightarrow> present m a k"
  by (simp add: present_def)

lemma unat_shift:
  fixes a lim :: u32
  assumes "unat a + 2 * n \<le> unat lim" "k \<le> n"
  shows "unat (a + 2 * of_nat k) = unat a + 2 * k"
proof -
  have "unat lim < 2 ^ 32" using unsigned_less [where 'a = nat, of lim] by simp
  then have l: "unat a + 2 * k < 2 ^ 32" using assms by linarith
  have "a + 2 * of_nat k = of_nat (unat a + 2 * k)" by simp
  then have "unat (a + 2 * of_nat k) = (unat a + 2 * k) mod 2 ^ 32" by (simp only: unat_of_nat) simp
  then show ?thesis using l by simp
qed

lemma fits_shift: "fits a (k + n) lim \<Longrightarrow> 0 < n \<Longrightarrow> fits (a + 2 * of_nat k) n lim"
  using unat_shift [of a "k + n" lim k] by (simp add: fits_def)

lemma fits_le: "fits a n lim \<Longrightarrow> 0 < k \<Longrightarrow> k \<le> n \<Longrightarrow> fits a k lim"
  by (simp add: fits_def)

lemma read_part:
  assumes "bus_read m a n = Some ws" "k + j \<le> n"
  shows "bus_read m (a + 2 * of_nat k) j = Some (take j (drop k ws))"
proof -
  have r: "length ws = n" "\<And>i. i < n \<Longrightarrow> m (a + 2 * of_nat i) = Some (ws ! i)" using assms(1) unfolding bus_read_iff by auto
  show ?thesis unfolding bus_read_iff
  proof (intro conjI allI impI)
    show "length (take j (drop k ws)) = j" using r(1) assms(2) by simp
    fix i assume i: "i < j"
    have "m (a + 2 * of_nat (k + i)) = Some (ws ! (k + i))" using i assms(2) by (intro r(2)) simp
    then show "m (a + 2 * of_nat k + 2 * of_nat i) = Some (take j (drop k ws) ! i)"
      using i r(1) assms(2) by (simp add: algebra_simps)
  qed
qed

lemma poke_append:
  assumes "present (host_memory s) a n" "unat a + 2 * n \<le> 2 ^ 32" "length xs = n"
  shows "poke (a + 2 * of_nat n) ys (poke a xs s) = poke a (xs @ ys) s"
proof -
  have "snd (bus_write (host_memory s) a xs)" by (rule write_ok_present) (use assms in simp_all)
  then show ?thesis using bus_write_append_ok [of "host_memory s" a xs ys] assms(3) by (simp add: poke_def)
qed

lemma poke_Nil [simp]: "poke a [] s = s"
  by (simp add: poke_def)

end
