(* ===== verification/UDA_Correct.thy ===== *)
theory UDA_Correct
  imports UDA Host_Regions
begin

text \<open>
  The port of the MSCP controller: the initialization, the command ring as a queue, and what a reset
  promises.
\<close>

declare bus_write.simps(2) [simp del]

subsection \<open>Initialization\<close>

lemma drives_offline_sel [simp]:
  "host_memory (drives_offline s) = host_memory s" "host_limit (drives_offline s) = host_limit s"
  "dati (drives_offline s) = dati s" "dato (drives_offline s) = dato s" "pollState (drives_offline s) = pollState s"
  "poll_at (drives_offline s) = poll_at s" "poll_queue (drives_offline s) = poll_queue s"
  "worker_at (drives_offline t) = worker_at t" "initStep (drives_offline s) = initStep s"
  "next_step (drives_offline s) = next_step s"
  by (simp_all add: drives_offline_def)

lemma drives_offline_online: "i < DRIVE_COUNT \<Longrightarrow> \<not> online (drives (drives_offline s) i)"
  by (simp add: drives_offline_def SetOffline_def)

text \<open>\<open>k\<close> bytes are \<open>k div 2\<close> words.\<close>

lemma clear_words_poke:
  assumes "present (host_memory s) a n" "unat a + 2 * n \<le> unat (host_limit s)"
  shows "clear_words a n s = Some (poke a (replicate n 0) s)"
  using assms
proof (induction n arbitrary: a s)
  case (Suc n)
  have f: "fits a 1 (host_limit s)" "present (host_memory s) a 1"
    using Suc.prems by (auto simp: fits_def intro: present_le)
  have l: "unat a + 2 * 1 \<le> 2 ^ 32" by (rule fits_32 [OF f(1)])
  let ?t = "poke a [0] s"
  have u: "unat (a + 2) = unat a + 2" using unat_shift [OF Suc.prems(2), of 1] by simp
  have p: "present (host_memory s) (a + 2) n" using present_shift [of "host_memory s" a 1 n] Suc.prems(1) by simp
  have "clear_words a (Suc n) s = clear_words (a + 2) n ?t" using DMAWriteWord_ok [OF f] by simp
  also have "\<dots> = Some (poke (a + 2) (replicate n 0) ?t)"
    by (rule Suc.IH) (use Suc.prems(2) u p in simp_all)
  also have "poke (a + 2) (replicate n 0) ?t = poke a ([0] @ replicate n 0) s"
  proof -
    have "poke (a + 2 * of_nat 1) (replicate n 0) ?t = poke a ([0] @ replicate n 0) s"
      by (rule poke_append [OF f(2) l]) simp
    moreover have "a + 2 * of_nat 1 = a + (2 :: u32)" by simp
    ultimately show ?thesis by (simp only:)
  qed
  finally show ?case by (simp only: append_Cons append_Nil replicate_Suc)
qed simp

definition owned_responses :: "nat \<Rightarrow> u16 list" where
  "owned_responses n = concat (replicate n [0, 0x8000])"

lemma length_owned_responses [simp]: "length (owned_responses n) = 2 * n"
  by (induction n) (simp_all add: owned_responses_def)

lemma owned_responses_Suc: "owned_responses (Suc n) = [0, 0x8000] @ owned_responses n"
  by (simp add: owned_responses_def)

lemma own_responses_poke:
  assumes "present (host_memory s) (GetResponseDescriptorAddress i s) (2 * n)"
    "unat (GetResponseDescriptorAddress i s) + 4 * n \<le> unat (host_limit s)"
  shows "own_responses i n s = Some (poke (GetResponseDescriptorAddress i s) (owned_responses n) s)"
  using assms
proof (induction n arbitrary: i s)
  case (Suc n)
  let ?a = "GetResponseDescriptorAddress i s"
  have f: "fits ?a 2 (host_limit s)" "present (host_memory s) ?a 2"
    using Suc.prems by (auto simp: fits_def intro: present_le)
  have l: "unat ?a + 2 * 2 \<le> 2 ^ 32" by (rule fits_32 [OF f(1)])
  let ?t = "poke ?a [0, 0x8000] s"
  have nxt: "GetResponseDescriptorAddress (Suc i) ?t = ?a + 2 * of_nat 2"
    by (simp add: GetResponseDescriptorAddress_def)
  have u: "unat (?a + 2 * of_nat 2) = unat ?a + 2 * 2"
    by (rule unat_shift [of _ "2 + 2 * n" "host_limit s"]) (use Suc.prems(2) in simp_all)
  have p: "present (host_memory s) (?a + 2 * of_nat 2) (2 * n)"
    by (rule present_shift) (use Suc.prems(1) in simp)
  have "own_responses i (Suc n) s = own_responses (Suc i) n ?t"
    using DMAWrite_ok [OF f(1) _ f(2), of "[0, 0x8000]"] by simp
  also have "\<dots> = Some (poke (GetResponseDescriptorAddress (Suc i) ?t) (owned_responses n) ?t)"
    by (rule Suc.IH) (use Suc.prems(2) u p in \<open>simp_all only: nxt poke_sel present_write, simp\<close>)
  also have "poke (GetResponseDescriptorAddress (Suc i) ?t) (owned_responses n) ?t = poke ?a (owned_responses (Suc n)) s"
    unfolding nxt owned_responses_Suc by (rule poke_append [OF f(2) l]) simp
  finally show ?case .
qed (simp add: owned_responses_def)

text \<open>The communications area: header, response ring, command ring.\<close>

definition comm_area_fits :: "'a uda_scheme \<Rightarrow> bool" where
  "comm_area_fits s \<longleftrightarrow>
     headerSize s \<le> unat (ringBase s) \<and>
     unat (ringBase s) + 4 * (responseRingLength s + commandRingLength s) \<le> unat (host_limit s) \<and>
     present (host_memory s) (ringBase s - of_nat (headerSize s))
       (headerSize s div 2 + 2 * (responseRingLength s + commandRingLength s))"

lemma comm_area_fits_cong:
  assumes "comm_area_fits s" "purgeInterruptEnable t = purgeInterruptEnable s" "ringBase t = ringBase s"
    "responseRingLength t = responseRingLength s" "commandRingLength t = commandRingLength s"
    "host_limit t = host_limit s" "host_memory t = host_memory s"
  shows "comm_area_fits t"
  using assms(1) unfolding comm_area_fits_def headerSize_def assms(2-7) .

lemma clear_communications_area_effect:
  assumes "comm_area_fits s"
  obtains m where "clear_communications_area s = Some (s\<lparr>host_memory := m\<rparr>)"
    "bus_read m (ringBase s) (2 * responseRingLength s) = Some (owned_responses (responseRingLength s))"
    "bus_read m (ringBase s + 2 * of_nat (2 * responseRingLength s)) (2 * commandRingLength s) =
      Some (replicate (2 * commandRingLength s) 0)"
    "dom m = dom (host_memory s)"
proof -
  define h r c b where hrcb: "h = headerSize s" "r = responseRingLength s" "c = commandRingLength s" "b = ringBase s"
  define a n where an: "a = b - of_nat h" "n = h div 2 + 2 * (r + c)"
  have even: "2 * (h div 2) = h" by (simp add: hrcb headerSize_def)
  have p: "h \<le> unat b" "unat b + 4 * (r + c) \<le> unat (host_limit s)" "present (host_memory s) a n"
    using assms by (simp_all add: comm_area_fits_def hrcb an)
  have "h < 2 ^ 32" by (simp add: hrcb headerSize_def)
  then have uh: "unat (of_nat h :: u32) = h" by (simp only: unat_of_nat) simp
  have ua: "unat a = unat b - h" using p(1) uh by (simp add: an unat_sub word_le_nat_alt)
  have fa: "unat a + 2 * n \<le> unat (host_limit s)" using p(1,2) even unfolding ua an(2) by simp
  have base: "a + 2 * of_nat (h div 2) = b"
  proof -
    have "2 * of_nat (h div 2) = (of_nat (2 * (h div 2)) :: u32)" by simp
    then show ?thesis unfolding even by (simp add: an)
  qed
  have pb: "present (host_memory s) b (2 * (r + c))"
    using present_shift [of "host_memory s" a "h div 2" "2 * (r + c)"] p(3) unfolding base an(2) .
  define s1 where "s1 = poke a (replicate n 0) s"
  have s1: "clear_words a n s = Some s1" unfolding s1_def by (rule clear_words_poke [OF p(3) fa])
  have s1_sel: "host_memory s1 = fst (bus_write (host_memory s) a (replicate n 0))" "host_limit s1 = host_limit s"
    "ringBase s1 = b" "responseRingLength s1 = r" by (simp_all add: s1_def hrcb)
  define s2 where "s2 = poke b (owned_responses r) s1"
  have addr: "GetResponseDescriptorAddress 0 s1 = b" by (simp add: GetResponseDescriptorAddress_def s1_sel)
  have pr: "present (host_memory s1) b (2 * r)" unfolding s1_sel present_write by (rule present_le [OF pb]) simp
  have s2: "own_responses 0 r s1 = Some s2"
    using own_responses_poke [of s1 0 r] p(2) pr by (simp add: addr s1_sel s2_def)
  have "((r + c) * 4 + h) div 2 = n" unfolding an(2) using even by simp
  then have "clear_communications_area s = Some s2"
    using s1 s2 s1_sel(4) by (simp add: clear_communications_area_def hrcb an(1))
  then have eff: "clear_communications_area s = Some (s\<lparr>host_memory := host_memory s2\<rparr>)" by (simp add: s2_def s1_def poke_def)
  have lim: "unat (host_limit s) < 2 ^ 32" using unsigned_less [where 'a = nat, of "host_limit s"] by simp
  have l32: "unat a + 2 * n \<le> 2 ^ 32" "unat b + 2 * (2 * r) \<le> 2 ^ 32" "unat b + 2 * (2 * r) + 2 * (2 * c) \<le> 2 ^ 32"
    using fa p(2) lim by simp_all
  have zeros: "bus_read (host_memory s1) a n = Some (replicate n 0)"
    using written_here [of "host_memory s" a "replicate n 0"] p(3) l32(1) by (simp add: s1_sel)
  have resp: "bus_read (host_memory s2) b (2 * r) = Some (owned_responses r)"
    using written_here [of "host_memory s1" b "owned_responses r"] l32(2) pr by (simp add: s2_def)
  have ub: "unat (b + 2 * of_nat (2 * r)) = unat b + 2 * (2 * r)"
    by (rule unat_shift [of b "2 * (r + c)" "host_limit s"]) (use p(2) in simp_all)
  have sh: "b + 2 * of_nat (2 * r) = a + 2 * of_nat (h div 2 + 2 * r)"
    unfolding base [symmetric] by (simp add: algebra_simps)
  have "bus_read (host_memory s2) (b + 2 * of_nat (2 * r)) (2 * c) = bus_read (host_memory s1) (b + 2 * of_nat (2 * r)) (2 * c)"
    unfolding s2_def poke_sel
    by (rule written_elsewhere) (use pr l32 ub in \<open>simp_all only: length_owned_responses apart_def, simp_all\<close>)
  moreover have "bus_read (host_memory s1) (a + 2 * of_nat (h div 2 + 2 * r)) (2 * c) = Some (replicate (2 * c) 0)"
    using read_part [OF zeros, of "h div 2 + 2 * r" "2 * c"] by (simp add: an(2) del: of_nat_add)
  ultimately have cmd: "bus_read (host_memory s2) (b + 2 * of_nat (2 * r)) (2 * c) = Some (replicate (2 * c) 0)"
    unfolding sh by simp
  show thesis
    by (rule that [OF eff resp [unfolded hrcb] cmd [unfolded hrcb]]) (simp add: s2_def s1_def dom_bus_write)
qed

text \<open>What the values written in the steps 1 to 3 mean.\<close>

definition programmed :: "u16 \<Rightarrow> u16 \<Rightarrow> u16 \<Rightarrow> 'a uda_scheme \<Rightarrow> 'a uda_scheme" where
  "programmed v1 v2 v3 s =
     s\<lparr>responseRingLength := 2 ^ unat (drop_bit 8 (v1 AND 0x700)), commandRingLength := 2 ^ unat (drop_bit 11 (v1 AND 0x3800)),
       ringBase := ucast (v2 AND 0xfffe) OR push_bit 16 (ucast (v3 AND 0x7fff)), purgeInterruptEnable := bit v2 0\<rparr>"

definition step_interrupts :: "u16 \<Rightarrow> nat" where
  "step_interrupts v1 = (if bit v1 7 \<and> push_bit 2 (ucast v1 AND 0x7f) \<noteq> (0 :: u32) then 1 else 0)"

lemmas port_run = host_writes_def uda_on_after_register_access_def access_IP_def write_SA_def StateTransition_def
  update_SA_def worker_step_def worker_init_step_def server_Reset_begin_def Reset_end_def server_Reset_end_def
  drives_offline_def SetOffline_def Interrupt_SA_def interrupts_on_def set_dati_def Let_def

text \<open>What the stages of the initialization keep.\<close>

definition idle_port :: "'a uda_port_scheme \<Rightarrow> bool" where
  "idle_port s \<longleftrightarrow> worker_at s = Worker_waiting \<and> pollState s = Wait \<and> \<not> next_step s"

definition stage_frame :: "'a uda_port_scheme \<Rightarrow> 'a uda_port_scheme \<Rightarrow> bool" where
  "stage_frame s t \<longleftrightarrow> host_memory t = host_memory s \<and> host_limit t = host_limit s \<and> controllerType t = controllerType s \<and>
     dma22 t = dma22 s \<and> commandRingPointer t = commandRingPointer s \<and> responseRingPointer t = responseRingPointer s \<and>
     drives t = drives s"

lemma stage_reset:
  assumes "worker_at s = Worker_waiting" "pollState s = Wait"
  shows "\<exists>t. uda_steps [Host_write 0 v0, Worker, Worker] s = Some t \<and> idle_port t \<and> initStep t = Step1 \<and>
    dati t 1 = STEP1 OR (if dma22 s then STEP1_22_BIT else 0) \<and> commandRingPointer t = 0 \<and> responseRingPointer t = 0 \<and>
    host_memory t = host_memory s \<and> host_limit t = host_limit s \<and> controllerType t = controllerType s \<and> dma22 t = dma22 s \<and>
    (\<forall>i<DRIVE_COUNT. \<not> online (drives t i)) \<and> intr_calls t = intr_calls s"
  using assms by (simp add: port_run idle_port_def)

lemma stage_1:
  assumes "idle_port s" "initStep s = Step1"
  shows "\<exists>t. uda_steps [Host_write 1 v1, Worker] s = Some t \<and> idle_port t \<and> initStep t = Step2 \<and> stage_frame s t \<and>
    dati t 1 = STEP2 OR drop_bit 8 v1 \<and> intr_calls t = intr_calls s + step_interrupts v1 \<and> step1Value t = v1 \<and>
    responseRingLength t = 2 ^ unat (drop_bit 8 (v1 AND 0x700)) \<and> commandRingLength t = 2 ^ unat (drop_bit 11 (v1 AND 0x3800)) \<and>
    interruptEnable t = bit v1 7 \<and> interruptVector t = push_bit 2 (ucast v1 AND 0x7f)"
  using assms by (simp add: port_run write_step1_def idle_port_def stage_frame_def step_interrupts_def)

lemma stage_2:
  assumes "idle_port s" "initStep s = Step2"
  shows "\<exists>t. uda_steps [Host_write 1 v2, Worker] s = Some t \<and> idle_port t \<and> initStep t = Step3 \<and> stage_frame s t \<and>
    dati t 1 = STEP3 OR (step1Value s AND 0xff) \<and>
    intr_calls t = intr_calls s + (if interruptEnable s \<and> interruptVector s \<noteq> 0 then 1 else 0) \<and>
    responseRingLength t = responseRingLength s \<and> commandRingLength t = commandRingLength s \<and>
    interruptEnable t = interruptEnable s \<and> interruptVector t = interruptVector s \<and>
    ringBase t = ucast (v2 AND 0xfffe) \<and> purgeInterruptEnable t = bit v2 0"
  using assms by (simp add: port_run write_step2_def idle_port_def stage_frame_def)

lemma stage_3:
  assumes s: "idle_port s" "initStep s = Step3"
    and c: "comm_area_fits (s\<lparr>ringBase := b\<rparr>)" "ringBase s OR push_bit 16 (ucast (v3 AND 0x7fff)) = b"
  shows "\<exists>t. uda_steps [Host_write 1 v3, Worker] s = Some t \<and> idle_port t \<and> initStep t = Step4 \<and>
    commandRingPointer t = commandRingPointer s \<and> responseRingPointer t = responseRingPointer s \<and> drives t = drives s \<and>
    dati t 1 = STEP4 OR (if controllerType s = UDA50 then UDA50_ID else RQDX3_ID) \<and>
    intr_calls t = intr_calls s + (if interruptEnable s \<and> interruptVector s \<noteq> 0 then 1 else 0) \<and>
    responseRingLength t = responseRingLength s \<and> commandRingLength t = commandRingLength s \<and> ringBase t = b \<and>
    bus_read (host_memory t) b (2 * responseRingLength s) = Some (owned_responses (responseRingLength s)) \<and>
    bus_read (host_memory t) (b + 2 * of_nat (2 * responseRingLength s)) (2 * commandRingLength s) =
      Some (replicate (2 * commandRingLength s) 0)"
proof -
  let ?u = "s\<lparr>dato := (dato s)(1 := v3), ringBase := b, initStep := Step4, next_step := False\<rparr>"
  have u: "comm_area_fits ?u" using c(1) by (simp add: comm_area_fits_def headerSize_def)
  obtain m where m: "clear_communications_area ?u = Some (?u\<lparr>host_memory := m\<rparr>)"
    "bus_read m b (2 * responseRingLength s) = Some (owned_responses (responseRingLength s))"
    "bus_read m (b + 2 * of_nat (2 * responseRingLength s)) (2 * commandRingLength s) =
      Some (replicate (2 * commandRingLength s) 0)"
  proof (rule clear_communications_area_effect [OF u])
    fix m
    assume "clear_communications_area ?u = Some (?u\<lparr>host_memory := m\<rparr>)"
      "bus_read m (ringBase ?u) (2 * responseRingLength ?u) = Some (owned_responses (responseRingLength ?u))"
      "bus_read m (ringBase ?u + 2 * of_nat (2 * responseRingLength ?u)) (2 * commandRingLength ?u) =
        Some (replicate (2 * commandRingLength ?u) 0)"
    then show thesis by (intro that) simp_all
  qed
  have "uda_steps [Host_write 1 v3, Worker] s = worker_step (?u\<lparr>next_step := True\<rparr>)"
    using s c(2) by (cases "worker_step (?u\<lparr>next_step := True\<rparr>)")
      (simp_all add: host_writes_def uda_on_after_register_access_def write_SA_def write_step3_def StateTransition_def Let_def)
  also have "\<dots> = Some (Interrupt_SA (STEP4 OR (if controllerType s = UDA50 then UDA50_ID else RQDX3_ID)) (?u\<lparr>host_memory := m\<rparr>))"
    using s m(1) by (simp add: worker_step_def worker_init_step_def idle_port_def)
  finally show ?thesis using s m(2,3) by (simp add: idle_port_def Interrupt_SA_def interrupts_on_def set_dati_def update_SA_def)
qed

lemma stage_4:
  assumes "idle_port s" "initStep s = Step4" "bit v4 0"
  shows "\<exists>t. uda_steps [Host_write 1 v4] s = Some t \<and> initStep t = Complete \<and> dati t 1 = 0 \<and> stage_frame s t \<and>
    responseRingLength t = responseRingLength s \<and> commandRingLength t = commandRingLength s \<and> ringBase t = ringBase s \<and>
    intr_calls t = intr_calls s"
  using assms by (simp add: port_run write_step4_def stage_frame_def)

text \<open>
  Property C8. The four-step initialization: written to by a host as the protocol asks, the port shows the bits of
  each step in SA and echoes what was written in step 1, interrupts after each step if asked to, and
  ends in operation with the ring base and lengths the host gave, both ring pointers at 0, all units
  offline, all response descriptors owned by the port and all command descriptors by the host.
\<close>

theorem initialization_handshake:
  fixes s :: "'a uda_port_scheme"
  assumes "worker_at s = Worker_waiting" "pollState s = Wait" "bit v4 0" "comm_area_fits (programmed v1 v2 v3 s)"
  shows "\<exists>s1 s2 s3 s4 t.
    uda_steps [Host_write 0 v0, Worker, Worker] s = Some s1 \<and> dati s1 1 = STEP1 OR (if dma22 s then STEP1_22_BIT else 0) \<and>
    uda_steps [Host_write 1 v1, Worker] s1 = Some s2 \<and> dati s2 1 = STEP2 OR drop_bit 8 v1 \<and>
    uda_steps [Host_write 1 v2, Worker] s2 = Some s3 \<and> dati s3 1 = STEP3 OR (v1 AND 0xff) \<and>
    uda_steps [Host_write 1 v3, Worker] s3 = Some s4 \<and>
      dati s4 1 = STEP4 OR (if controllerType s = UDA50 then UDA50_ID else RQDX3_ID) \<and>
    uda_steps [Host_write 1 v4] s4 = Some t \<and> dati t 1 = 0 \<and> initStep t = Complete \<and>
    ringBase t = ringBase (programmed v1 v2 v3 s) \<and> responseRingLength t = responseRingLength (programmed v1 v2 v3 s) \<and>
    commandRingLength t = commandRingLength (programmed v1 v2 v3 s) \<and> commandRingPointer t = 0 \<and> responseRingPointer t = 0 \<and>
    (\<forall>i<DRIVE_COUNT. \<not> online (drives t i)) \<and> intr_calls t = intr_calls s + 3 * step_interrupts v1 \<and>
    bus_read (host_memory t) (ringBase t) (2 * responseRingLength t) = Some (owned_responses (responseRingLength t)) \<and>
    bus_read (host_memory t) (ringBase t + 2 * of_nat (2 * responseRingLength t)) (2 * commandRingLength t) =
      Some (replicate (2 * commandRingLength t) 0)"
proof -
  obtain s1 where s1: "uda_steps [Host_write 0 v0, Worker, Worker] s = Some s1" "idle_port s1" "initStep s1 = Step1"
    "dati s1 1 = STEP1 OR (if dma22 s then STEP1_22_BIT else 0)" "commandRingPointer s1 = 0" "responseRingPointer s1 = 0"
    "host_memory s1 = host_memory s" "host_limit s1 = host_limit s" "controllerType s1 = controllerType s"
    "\<forall>i<DRIVE_COUNT. \<not> online (drives s1 i)" "intr_calls s1 = intr_calls s"
    using stage_reset [OF assms(1,2)] by blast
  obtain s2 where s2: "uda_steps [Host_write 1 v1, Worker] s1 = Some s2" "idle_port s2" "initStep s2 = Step2" "stage_frame s1 s2"
    "dati s2 1 = STEP2 OR drop_bit 8 v1" "intr_calls s2 = intr_calls s1 + step_interrupts v1" "step1Value s2 = v1"
    "responseRingLength s2 = responseRingLength (programmed v1 v2 v3 s)"
    "commandRingLength s2 = commandRingLength (programmed v1 v2 v3 s)"
    "interruptEnable s2 = bit v1 7" "interruptVector s2 = push_bit 2 (ucast v1 AND 0x7f)"
    using stage_1 [OF s1(2,3)] by (auto simp: programmed_def)
  obtain s3 where s3: "uda_steps [Host_write 1 v2, Worker] s2 = Some s3" "idle_port s3" "initStep s3 = Step3" "stage_frame s2 s3"
    "dati s3 1 = STEP3 OR (v1 AND 0xff)" "intr_calls s3 = intr_calls s2 + step_interrupts v1"
    "responseRingLength s3 = responseRingLength s2" "commandRingLength s3 = commandRingLength s2"
    "interruptEnable s3 = bit v1 7" "interruptVector s3 = push_bit 2 (ucast v1 AND 0x7f)"
    "ringBase s3 = ucast (v2 AND 0xfffe)" "purgeInterruptEnable s3 = bit v2 0"
    using stage_2 [OF s2(2,3), of v2] s2(7,10,11) by (auto simp: step_interrupts_def)
  let ?b = "ringBase (programmed v1 v2 v3 s)"
  have b: "ringBase s3 OR push_bit 16 (ucast (v3 AND 0x7fff)) = ?b" by (simp add: s3(11) programmed_def)
  have "comm_area_fits (s3\<lparr>ringBase := ?b\<rparr>)"
    by (rule comm_area_fits_cong [OF assms(4)])
      (use s1(7,8) s2(4,8,9) s3(4,7,8,12) in \<open>simp_all add: stage_frame_def\<close>, simp_all add: programmed_def)
  note st3 = stage_3 [OF s3(2,3) this b]
  obtain s4 where s4: "uda_steps [Host_write 1 v3, Worker] s3 = Some s4" "idle_port s4" "initStep s4 = Step4"
    "commandRingPointer s4 = commandRingPointer s3" "responseRingPointer s4 = responseRingPointer s3" "drives s4 = drives s3"
    "dati s4 1 = STEP4 OR (if controllerType s3 = UDA50 then UDA50_ID else RQDX3_ID)"
    "intr_calls s4 = intr_calls s3 + (if interruptEnable s3 \<and> interruptVector s3 \<noteq> 0 then 1 else 0)"
    "responseRingLength s4 = responseRingLength s3" "commandRingLength s4 = commandRingLength s3" "ringBase s4 = ?b"
    "bus_read (host_memory s4) ?b (2 * responseRingLength s3) = Some (owned_responses (responseRingLength s3))"
    "bus_read (host_memory s4) (?b + 2 * of_nat (2 * responseRingLength s3)) (2 * commandRingLength s3) =
      Some (replicate (2 * commandRingLength s3) 0)"
    using st3 by (elim exE conjE)
  have i4: "intr_calls s4 = intr_calls s3 + step_interrupts v1"
    unfolding s4(8) s3(9,10) step_interrupts_def ..
  obtain t where t: "uda_steps [Host_write 1 v4] s4 = Some t" "initStep t = Complete" "dati t 1 = 0" "stage_frame s4 t"
    "responseRingLength t = responseRingLength s4" "commandRingLength t = commandRingLength s4" "ringBase t = ringBase s4"
    "intr_calls t = intr_calls s4"
    using stage_4 [OF s4(2,3) assms(3)] by blast
  have c: "controllerType s3 = controllerType s" "commandRingPointer t = 0" "responseRingPointer t = 0" "drives t = drives s1"
    "host_memory t = host_memory s4"
    using s1(5,6,9) s2(4) s3(4) s4(4-6) t(4) by (simp_all add: stage_frame_def)
  have i: "intr_calls t = intr_calls s + 3 * step_interrupts v1" using s1(11) s2(6) s3(6) i4 t(8) by simp
  have r: "bus_read (host_memory t) (ringBase t) (2 * responseRingLength t) = Some (owned_responses (responseRingLength t))"
    "bus_read (host_memory t) (ringBase t + 2 * of_nat (2 * responseRingLength t)) (2 * commandRingLength t) =
      Some (replicate (2 * commandRingLength t) 0)"
    using s4(9-13) t(5-7) c(5) by simp_all
  have l: "responseRingLength t = responseRingLength (programmed v1 v2 v3 s)"
    "commandRingLength t = commandRingLength (programmed v1 v2 v3 s)" "ringBase t = ?b"
    using t(5-7) s4(9-11) s3(7,8) s2(8,9) by simp_all
  have d: "dati s4 1 = STEP4 OR (if controllerType s = UDA50 then UDA50_ID else RQDX3_ID)"
    "\<forall>i<DRIVE_COUNT. \<not> online (drives t i)"
    using s4(7) c(1,4) s1(10) by (simp_all only: simp_thms)
  show ?thesis
    by (rule exI [of _ s1], rule exI [of _ s2], rule exI [of _ s3], rule exI [of _ s4], rule exI [of _ t], intro conjI)
      (fact s1(1) s1(4) s2(1) s2(5) s3(1) s3(5) s4(1) d t(1-3) l c(2,3) i r)+
qed

theorem initialization_handshake_witness:
  "\<exists>s1 s2 s3 s4 t. uda_steps [Host_write 0 0, Worker, Worker] (new_port False (\<lambda>_. Some 7)) = Some s1 \<and>
     uda_steps [Host_write 1 0x8080, Worker] s1 = Some s2 \<and> uda_steps [Host_write 1 0x1000, Worker] s2 = Some s3 \<and>
     uda_steps [Host_write 1 0, Worker] s3 = Some s4 \<and> uda_steps [Host_write 1 1] s4 = Some t \<and>
     initStep t = Complete \<and> ringBase t = 0x1000 \<and> bus_read (host_memory t) 0x1000 2 = Some [0, 0x8000]"
proof -
  let ?s = "new_port False (\<lambda>_. Some 7)"
  have p: "worker_at ?s = Worker_waiting" "pollState ?s = Wait" "bit (1 :: u16) 0"
    "comm_area_fits (programmed 0x8080 0x1000 0 ?s)"
    by (simp_all add: new_port_def comm_area_fits_def programmed_def headerSize_def present_def)
  have q: "ringBase (programmed 0x8080 0x1000 0 ?s) = 0x1000" "responseRingLength (programmed 0x8080 0x1000 0 ?s) = 1"
    by (simp_all add: programmed_def)
  have "owned_responses 1 = [0, 0x8000]" by (simp add: owned_responses_def)
  with initialization_handshake [OF p, of 0] show ?thesis unfolding q by fastforce
qed

end
