(* ===== verification/UDA_Commands.thy ===== *)
theory UDA_Commands
  imports UDA_Correct
begin

text \<open>
  The command ring as a queue: what the host has put into it is what \<^verbatim>\<open>GetNextCommand\<close> takes out of it,
  in order, and the polling thread empties it.
\<close>

declare bus_write.simps(2) [simp del]

subsection \<open>Parts of the communications area\<close>

definition area :: "'a uda_scheme \<Rightarrow> u32" where "area s = ringBase s - of_nat (headerSize s)"

definition area_words :: "'a uda_scheme \<Rightarrow> nat" where
  "area_words s = headerSize s div 2 + 2 * (responseRingLength s + commandRingLength s)"

definition slot_word :: "nat \<Rightarrow> 'a uda_scheme \<Rightarrow> nat" where
  "slot_word i s = headerSize s div 2 + 2 * (responseRingLength s + i)"

lemma area_fits:
  assumes "comm_area_fits s"
  shows "present (host_memory s) (area s) (area_words s)" "unat (area s) + 2 * area_words s \<le> unat (host_limit s)"
proof -
  have p: "headerSize s \<le> unat (ringBase s)"
    "unat (ringBase s) + 4 * (responseRingLength s + commandRingLength s) \<le> unat (host_limit s)"
    using assms by (simp_all add: comm_area_fits_def)
  show "present (host_memory s) (area s) (area_words s)"
    using assms by (simp add: comm_area_fits_def area_def area_words_def)
  have "unat (of_nat (headerSize s) :: u32) = headerSize s" by (simp add: headerSize_def)
  then have "unat (area s) = unat (ringBase s) - headerSize s"
    using p(1) by (simp add: area_def unat_sub word_le_nat_alt)
  moreover have "2 * (headerSize s div 2) = headerSize s" by (simp add: headerSize_def)
  ultimately show "unat (area s) + 2 * area_words s \<le> unat (host_limit s)" using p by (simp add: area_words_def)
qed

lemma area_part:
  assumes "comm_area_fits s" "k + j \<le> area_words s" "0 < j"
  shows "fits (area s + 2 * of_nat k) j (host_limit s)" "present (host_memory s) (area s + 2 * of_nat k) j"
proof -
  note a = area_fits [OF assms(1)]
  show "fits (area s + 2 * of_nat k) j (host_limit s)"
    using unat_shift [OF a(2), of k] a(2) assms(2,3) by (simp add: fits_def)
  show "present (host_memory s) (area s + 2 * of_nat k) j"
    by (rule present_shift, rule present_le [OF a(1)]) (use assms(2) in simp)
qed

lemma area_apart:
  assumes "comm_area_fits s" "k + j \<le> k'" "k' + j' \<le> area_words s"
  shows "apart (area s + 2 * of_nat k) j (area s + 2 * of_nat k') j'"
  using unat_shift [OF area_fits(2) [OF assms(1)], of k] unat_shift [OF area_fits(2) [OF assms(1)], of k'] assms(2,3)
  by (simp add: apart_def)

lemma apart_area:
  assumes "comm_area_fits s" "apart (area s) (area_words s) b n" "k + j \<le> area_words s"
  shows "apart (area s + 2 * of_nat k) j b n"
  using unat_shift [OF area_fits(2) [OF assms(1)], of k] assms(2,3) by (auto simp: apart_def)

lemma header_even: "2 * (headerSize s div 2) = headerSize s" "4 \<le> headerSize s"
  by (simp_all add: headerSize_def)

lemma of_nat_header: "(of_nat (headerSize s) :: u32) = 2 * of_nat (headerSize s div 2)"
  by (simp add: headerSize_def)

lemma slot_address: "GetCommandDescriptorAddress i s = area s + 2 * of_nat (slot_word i s)"
  by (simp add: GetCommandDescriptorAddress_def area_def slot_word_def of_nat_header algebra_simps)

lemma flag_address: "ringBase s - 4 = area s + 2 * of_nat (headerSize s div 2 - 2)"
  by (simp add: area_def headerSize_def)

lemma slot_bounds:
  "i < commandRingLength s \<Longrightarrow> slot_word i s + 2 \<le> area_words s"
  "headerSize s div 2 - 2 + 1 \<le> slot_word i s"
  by (simp_all add: slot_word_def area_words_def headerSize_def)

subsection \<open>The messages in the ring\<close>

definition slot_owned :: "nat \<Rightarrow> 'a uda_scheme \<Rightarrow> bool" where
  "slot_owned i s \<longleftrightarrow>
     (case bus_read (host_memory s) (GetCommandDescriptorAddress i s) 2 of None \<Rightarrow> False | Some d \<Rightarrow> desc_ownership (d ! 1))"

text \<open>The message of slot \<open>i\<close>, if the slot is owned by the port and its message is well-formed.\<close>

definition command_at :: "nat \<Rightarrow> 'a uda_scheme \<Rightarrow> message option" where
  "command_at i s =
     do { d \<leftarrow> bus_read (host_memory s) (GetCommandDescriptorAddress i s) 2;
          assert_that (desc_ownership (d ! 1));
          let a = desc_envelope (d ! 0) (d ! 1) - 4;
          l \<leftarrow> host_memory s a;
          let n = unat l div 2 + 2;
          assert_that (l \<noteq> 0 \<and> unat l < MAX_MESSAGE_LENGTH \<and> even (unat l));
          assert_that (fits a n (host_limit s) \<and> apart (area s) (area_words s) a n);
          ws \<leftarrow> bus_read (host_memory s) a n;
          Some (ws @ replicate (sizeof_Message div 2 - n) 0xc3c3) }"

lemma command_at_D:
  assumes "command_at i s = Some m"
  obtains w0 w1 a l n ws where
    "bus_read (host_memory s) (GetCommandDescriptorAddress i s) 2 = Some [w0, w1]" "desc_ownership w1"
    "a = desc_envelope w0 w1 - 4" "n = unat l div 2 + 2" "host_memory s a = Some l" "l \<noteq> 0" "unat l < MAX_MESSAGE_LENGTH"
    "even (unat l)" "fits a n (host_limit s)" "apart (area s) (area_words s) a n"
    "bus_read (host_memory s) a n = Some ws" "m = ws @ replicate (sizeof_Message div 2 - n) 0xc3c3"
proof -
  obtain d where d: "bus_read (host_memory s) (GetCommandDescriptorAddress i s) 2 = Some d"
    using assms by (auto simp: command_at_def Option.bind_eq_Some_conv)
  then have "length d = 2" by (rule bus_read_length)
  then obtain w0 w1 where "d = [w0, w1]" by (auto simp: numeral_2_eq_2 length_Suc_conv)
  with assms d show thesis
    by (auto simp: command_at_def Let_def Option.bind_eq_Some_conv split: if_splits simp del: bus_read.simps
        intro!: that [of w0 w1 "desc_envelope w0 w1 - 4"])
qed

lemma area_sel [simp]:
  "area (s\<lparr>host_memory := m\<rparr>) = area s" "area (s\<lparr>commandRingPointer := p\<rparr>) = area s" "area (s\<lparr>intr_calls := k\<rparr>) = area s"
  "area_words (s\<lparr>host_memory := m\<rparr>) = area_words s" "area_words (s\<lparr>commandRingPointer := p\<rparr>) = area_words s"
  "area_words (s\<lparr>intr_calls := k\<rparr>) = area_words s"
  by (simp_all add: area_def area_words_def headerSize_def)

lemma command_address_sel [simp]:
  "GetCommandDescriptorAddress i (s\<lparr>host_memory := m\<rparr>) = GetCommandDescriptorAddress i s"
  "GetCommandDescriptorAddress i (s\<lparr>commandRingPointer := p\<rparr>) = GetCommandDescriptorAddress i s"
  "GetCommandDescriptorAddress i (s\<lparr>intr_calls := k\<rparr>) = GetCommandDescriptorAddress i s"
  by (simp_all add: GetCommandDescriptorAddress_def)

text \<open>A write to another part of the communications area leaves a slot alone.\<close>

lemma slot_untouched:
  assumes "comm_area_fits s" "i < commandRingLength s" "k + length ws \<le> area_words s"
    "k + length ws \<le> slot_word i s \<or> slot_word i s + 2 \<le> k"
  shows "bus_read (fst (bus_write (host_memory s) (area s + 2 * of_nat k) ws)) (GetCommandDescriptorAddress i s) 2 =
    bus_read (host_memory s) (GetCommandDescriptorAddress i s) 2"
proof (cases "ws = []")
  case False
  note p = area_part [OF assms(1,3)] area_part [OF assms(1) slot_bounds(1) [OF assms(2)]]
  have "apart (area s + 2 * of_nat k) (length ws) (area s + 2 * of_nat (slot_word i s)) 2"
    using assms(4) area_apart [OF assms(1) _ slot_bounds(1) [OF assms(2)], of k "length ws"]
      area_apart [OF assms(1) _ assms(3), of "slot_word i s" 2] by (auto simp: apart_sym)
  then show ?thesis unfolding slot_address using False p
    by (intro written_elsewhere) (auto dest!: fits_32)
qed simp

lemma command_untouched:
  assumes "comm_area_fits s" "i < commandRingLength s" "k + length ws \<le> area_words s"
    "k + length ws \<le> slot_word i s \<or> slot_word i s + 2 \<le> k"
    and t: "t = s\<lparr>host_memory := fst (bus_write (host_memory s) (area s + 2 * of_nat k) ws)\<rparr>"
  shows "slot_owned i t = slot_owned i s" "command_at i s = Some m \<Longrightarrow> command_at i t = Some m"
proof -
  note u = slot_untouched [OF assms(1-4)]
  have hm: "host_memory t = fst (bus_write (host_memory s) (area s + 2 * of_nat k) ws)" by (simp add: t)
  show "slot_owned i t = slot_owned i s" by (simp add: slot_owned_def t u)
  assume "command_at i s = Some m"
  then show "command_at i t = Some m"
  proof (cases rule: command_at_D)
    case c: (1 w0 w1 a l n ws')
    show ?thesis
    proof (cases "ws = []")
      case True
      then show ?thesis using \<open>command_at i s = Some m\<close> by (simp add: t)
    next
      case False
      have "apart (area s + 2 * of_nat k) (length ws) a n" by (rule apart_area [OF assms(1) c(10) assms(3)])
      moreover have "present (host_memory s) (area s + 2 * of_nat k) (length ws)"
          "unat (area s + 2 * of_nat k) + 2 * length ws \<le> 2 ^ 32"
        using area_part [OF assms(1,3)] False fits_32 [of "area s + 2 * of_nat k"] by auto
      ultimately have "bus_read (host_memory t) a n = bus_read (host_memory s) a n"
        unfolding hm by (intro written_elsewhere fits_32 [OF c(9)])
      then have e: "bus_read (host_memory t) a n = Some ws'" using c(11) by simp
      have "0 < n" using c(4) by simp
      then have "host_memory t a = host_memory s a" using e c(11) unfolding bus_read_iff by fastforce
      moreover have "bus_read (host_memory t) (GetCommandDescriptorAddress i t) 2 = Some [w0, w1]" "area t = area s"
        "area_words t = area_words s" "host_limit t = host_limit s"
        using u c(1) by (simp_all add: t)
      ultimately show ?thesis using c e by (simp add: command_at_def Let_def del: bus_read.simps)
    qed
  qed
qed

text \<open>
  The ring is in order: it lies in memory below the limit, and every slot the host has handed over holds a
  well-formed message outside of it.
\<close>

definition ring_ok :: "'a uda_scheme \<Rightarrow> bool" where
  "ring_ok s \<longleftrightarrow> comm_area_fits s \<and> commandRingPointer s < of_nat (commandRingLength s) \<and>
     (\<exists>k \<le> 7. commandRingLength s = 2 ^ k) \<and>
     (\<forall>i<commandRingLength s. slot_owned i s \<longrightarrow> command_at i s \<noteq> None)"

text \<open>The abstract queue: the messages from the ring pointer on, up to the first slot of the host.\<close>

fun commands_from :: "nat \<Rightarrow> nat \<Rightarrow> 'a uda_scheme \<Rightarrow> message list" where
  "commands_from 0 i s = []"
| "commands_from (Suc n) i s =
     (case command_at (i mod commandRingLength s) s of None \<Rightarrow> [] | Some m \<Rightarrow> m # commands_from n (Suc i) s)"

definition command_queue :: "'a uda_scheme \<Rightarrow> message list" where
  "command_queue s = commands_from (commandRingLength s) (unat (commandRingPointer s)) s"

lemma commands_from_cong:
  assumes "commandRingLength t = commandRingLength s"
    "\<And>j. i \<le> j \<Longrightarrow> j < i + n \<Longrightarrow> command_at (j mod commandRingLength s) t = command_at (j mod commandRingLength s) s"
  shows "commands_from n i t = commands_from n i s"
  using assms by (induction n arbitrary: i) (auto split: option.splits)

lemma commands_from_end:
  "command_at ((i + n) mod commandRingLength s) s = None \<Longrightarrow> commands_from (Suc n) i s = commands_from n i s"
  by (induction n arbitrary: i) (auto split: option.splits)

lemma commands_from_mod: "commands_from n (i mod commandRingLength s) s = commands_from n i s"
proof -
  let ?c = "commandRingLength s"
  have "commands_from n i s = commands_from n j s" if "i mod ?c = j mod ?c" for i j
    using that
  proof (induction n arbitrary: i j)
    case (Suc n)
    have "Suc (i mod ?c) mod ?c = Suc (j mod ?c) mod ?c" by (simp only: Suc.prems)
    then have "Suc i mod ?c = Suc j mod ?c" by (simp only: mod_Suc_eq)
    then have "commands_from n (Suc i) s = commands_from n (Suc j) s" by (rule Suc.IH)
    then show ?case by (simp only: commands_from.simps Suc.prems)
  qed simp
  from this [of "i mod ?c" i] show ?thesis by simp
qed

subsection \<open>Taking a message out\<close>

lemma ring_sel [simp]:
  "command_at i (s\<lparr>commandRingPointer := p\<rparr>) = command_at i s" "command_at i (s\<lparr>intr_calls := k\<rparr>) = command_at i s"
  "slot_owned i (s\<lparr>commandRingPointer := p\<rparr>) = slot_owned i s" "slot_owned i (s\<lparr>intr_calls := k\<rparr>) = slot_owned i s"
  "comm_area_fits (s\<lparr>commandRingPointer := p\<rparr>) = comm_area_fits s" "comm_area_fits (s\<lparr>intr_calls := k\<rparr>) = comm_area_fits s"
  by (simp_all add: command_at_def slot_owned_def comm_area_fits_def headerSize_def)

lemma part_written:
  "comm_area_fits s \<Longrightarrow> comm_area_fits (s\<lparr>host_memory := fst (bus_write (host_memory s) a ws)\<rparr>)"
  by (simp add: comm_area_fits_def headerSize_def)

lemma command_owned: "command_at i s = Some m \<Longrightarrow> slot_owned i s"
  by (auto simp: command_at_def slot_owned_def Option.bind_eq_Some_conv Let_def simp del: bus_read.simps split: if_splits)

lemma slot_read:
  assumes "comm_area_fits s" "i < commandRingLength s"
  obtains w0 w1 where "bus_read (host_memory s) (GetCommandDescriptorAddress i s) 2 = Some [w0, w1]"
    "DMARead (GetCommandDescriptorAddress i s) 4 4 s = Some (Some [w0, w1])" "slot_owned i s = desc_ownership w1"
proof -
  note p = area_part [OF assms(1) slot_bounds(1) [OF assms(2)], folded slot_address]
  obtain d where d: "bus_read (host_memory s) (GetCommandDescriptorAddress i s) 2 = Some d" "length d = 2"
    using present_read [OF p(2)] by auto
  then obtain w0 w1 where w: "d = [w0, w1]" by (auto simp: numeral_2_eq_2 length_Suc_conv)
  have "DMARead (GetCommandDescriptorAddress i s) 4 4 s = Some (Some [w0, w1])"
    using DMARead_ok [OF p(1) _ d(1), of 2] by (simp add: w)
  then show thesis using d w by (intro that) (simp_all add: slot_owned_def del: bus_read.simps)
qed

lemma ring_was_full_returns:
  assumes "ring_ok s"
  shows "\<exists>b. ring_was_full w (commandRingPointer s) (commandRingLength s) GetCommandDescriptorAddress s = Some (Some b)"
proof -
  have c: "comm_area_fits s" "0 < commandRingLength s" using assms by (auto simp: ring_ok_def)
  let ?i = "unat (commandRingPointer s - 1) mod commandRingLength s"
  have "?i < commandRingLength s" using c(2) by simp
  with c(1) obtain w0 w1 where "DMARead (GetCommandDescriptorAddress ?i s) 4 4 s = Some (Some [w0, w1])"
    by (rule slot_read)
  then show ?thesis using c(2) by (auto simp: ring_was_full_def ring_mod_def)
qed

text \<open>The pointer advances by one, around the ring.\<close>

lemma pointer_bound:
  assumes "ring_ok s"
  shows "unat (commandRingPointer s) < commandRingLength s" "commandRingLength s \<le> 128"
proof -
  obtain k where k: "k \<le> 7" "commandRingLength s = 2 ^ k" using assms by (auto simp: ring_ok_def)
  have "(2 :: nat) ^ k \<le> 2 ^ 7" by (rule power_increasing) (use k(1) in simp_all)
  then show l: "commandRingLength s \<le> 128" using k(2) by simp
  have "unat (of_nat (commandRingLength s) :: u32) = commandRingLength s" using l by (simp add: unat_of_nat)
  then show "unat (commandRingPointer s) < commandRingLength s"
    using assms by (simp add: ring_ok_def word_less_nat_alt)
qed

lemma unat_small:
  assumes "n < (128 :: nat)"
  shows "unat (of_nat n :: u32) = n"
  using assms by (simp add: unat_of_nat)

lemma pointer_advances:
  assumes "ring_ok s"
  shows "ring_mod (commandRingPointer s + 1) (commandRingLength s) =
    Some (Suc (unat (commandRingPointer s)) mod commandRingLength s)"
proof -
  note b = pointer_bound [OF assms]
  have "unat (commandRingPointer s + 1) = Suc (unat (commandRingPointer s))"
    using b by (subst unat_plus_simple [THEN iffD1]) (auto simp: word_le_nat_alt unat_word_ariths)
  then show ?thesis using b by (simp add: ring_mod_def)
qed

lemma Interrupt_eq: "Interrupt s = s\<lparr>intr_calls := intr_calls s + (if interrupts_on s then 1 else 0)\<rparr>"
  by (cases s) (simp add: Interrupt_def)

lemma return_command_effect:
  assumes "ring_ok s" "p = unat (commandRingPointer s)"
  obtains M k where
    "return_command w0 w1 msg b s = Some (Next msg,
       s\<lparr>host_memory := M, commandRingPointer := of_nat (Suc p mod commandRingLength s), intr_calls := k\<rparr>)"
    "comm_area_fits (s\<lparr>host_memory := M\<rparr>)" "\<not> slot_owned p (s\<lparr>host_memory := M\<rparr>)"
    "\<And>j. j < commandRingLength s \<Longrightarrow> j \<noteq> p \<Longrightarrow> slot_owned j (s\<lparr>host_memory := M\<rparr>) = slot_owned j s"
    "\<And>j m. j < commandRingLength s \<Longrightarrow> j \<noteq> p \<Longrightarrow> command_at j s = Some m \<Longrightarrow>
      command_at j (s\<lparr>host_memory := M\<rparr>) = Some m"
proof -
  have c: "comm_area_fits s" using assms(1) by (simp add: ring_ok_def)
  have l: "p < commandRingLength s" using pointer_bound [OF assms(1)] assms(2) by simp
  let ?ws = "[w0, desc_returned w1]" and ?q = "Suc p mod commandRingLength s"
  define M1 where "M1 = fst (bus_write (host_memory s) (area s + 2 * of_nat (slot_word p s)) ?ws)"
  define s1 where "s1 = s\<lparr>host_memory := M1\<rparr>"
  note f = area_part [OF c slot_bounds(1) [OF l] zero_less_numeral]
  have d: "DMAWrite (GetCommandDescriptorAddress p s) 4 ?ws s = Some (True, s1)"
    using DMAWrite_ok [OF f(1) _ f(2), of ?ws] unfolding slot_address s1_def M1_def poke_def by simp
  have c1: "comm_area_fits s1" unfolding s1_def M1_def by (rule part_written [OF c])
  have len2: "length ?ws = 2" by simp
  have "bus_read M1 (GetCommandDescriptorAddress p s) 2 = Some ?ws"
    using written_here [of "host_memory s" "GetCommandDescriptorAddress p s" ?ws, unfolded len2] f fits_32 [OF f(1)]
    unfolding M1_def slot_address by blast
  then have n1: "\<not> slot_owned p s1"
    by (simp add: s1_def slot_owned_def desc_ownership_def desc_returned_def bit_simps del: bus_read.simps)
  have kw: "slot_word p s + length ?ws \<le> area_words s" using slot_bounds(1) [OF l] by simp
  have o1: "slot_owned j s1 = slot_owned j s" "command_at j s = Some m \<Longrightarrow> command_at j s1 = Some m"
    if "j < commandRingLength s" "j \<noteq> p" for j m
  proof -
    have "slot_word p s + length ?ws \<le> slot_word j s \<or> slot_word j s + 2 \<le> slot_word p s"
      using that(2) by (auto simp: slot_word_def)
    from command_untouched [OF c that(1) kw this s1_def [unfolded M1_def]]
    show "slot_owned j s1 = slot_owned j s" "command_at j s = Some m \<Longrightarrow> command_at j s1 = Some m" by simp_all
  qed
  have m1: "ring_mod (commandRingPointer s1 + 1) (commandRingLength s1) = Some ?q"
    using pointer_advances [OF assms(1)] by (simp add: s1_def assms(2))
  show thesis
  proof (cases b)
    case False
    then have "return_command w0 w1 msg b s = Some (Next msg, s1\<lparr>commandRingPointer := of_nat ?q\<rparr>)"
      using d m1 by (simp add: return_command_def assms(2))
    then show thesis using c1 n1 o1 by (intro that [where M = M1 and k = "intr_calls s"]) (simp_all add: s1_def)
  next
    case True
    let ?k = "headerSize s div 2 - 2"
    define M2 where "M2 = fst (bus_write M1 (area s + 2 * of_nat ?k) [1])"
    define s2 where "s2 = s1\<lparr>host_memory := M2\<rparr>"
    have g: "?k + length [1 :: u16] \<le> area_words s1"
      using header_even(2) [of s] by (simp add: area_words_def s1_def headerSize_def)
    have f1: "fits (ringBase s - 4) 1 (host_limit s)" "present M1 (ringBase s - 4) 1"
      using area_part [OF c1, of ?k 1] g unfolding flag_address by (simp_all add: s1_def)
    have e: "s2 = s1\<lparr>host_memory := fst (bus_write (host_memory s1) (area s1 + 2 * of_nat ?k) [1])\<rparr>"
      by (simp add: s2_def M2_def s1_def)
    let ?t = "s1\<lparr>commandRingPointer := of_nat ?q\<rparr>"
    have "DMAWriteWord (ringBase s - 4) 1 ?t = Some (True, poke (ringBase s - 4) [1] ?t)"
      by (rule DMAWriteWord_ok) (use f1 in \<open>simp_all add: s1_def\<close>)
    moreover have "poke (ringBase s - 4) [1] ?t = s\<lparr>host_memory := M2, commandRingPointer := of_nat ?q\<rparr>"
      by (simp add: poke_def M2_def s1_def flag_address)
    ultimately have "return_command w0 w1 msg b s =
        Some (Next msg, Interrupt (s\<lparr>host_memory := M2, commandRingPointer := of_nat ?q\<rparr>))"
      using d m1 True by (simp add: return_command_def assms(2) s1_def)
    then obtain k where r: "return_command w0 w1 msg b s =
        Some (Next msg, s\<lparr>host_memory := M2, commandRingPointer := of_nat ?q, intr_calls := k\<rparr>)"
      by (simp add: Interrupt_eq)
    have c2: "comm_area_fits s2" unfolding e by (rule part_written [OF c1])
    have o2: "slot_owned j s2 = slot_owned j s1" "command_at j s1 = Some m \<Longrightarrow> command_at j s2 = Some m"
      if "j < commandRingLength s" for j m
      using command_untouched [OF c1 _ g _ e, of j] that slot_bounds(2) [of s j] by (simp_all add: s1_def slot_word_def headerSize_def)
    show thesis
      using c2 n1 o1 o2 l by (intro that [OF r]) (simp_all add: s2_def s1_def)
  qed
qed

lemma GetNextCommand_owned:
  assumes "ring_ok s" "p = unat (commandRingPointer s)" "command_at p s = Some m"
  obtains M k t where
    "GetNextCommand s = Some (Next m, t)"
    "t = s\<lparr>host_memory := M, commandRingPointer := of_nat (Suc p mod commandRingLength s), intr_calls := k\<rparr>"
    "comm_area_fits t" "\<not> slot_owned p t"
    "\<And>j. j < commandRingLength s \<Longrightarrow> j \<noteq> p \<Longrightarrow> slot_owned j t = slot_owned j s"
    "\<And>j m. j < commandRingLength s \<Longrightarrow> j \<noteq> p \<Longrightarrow> command_at j s = Some m \<Longrightarrow> command_at j t = Some m"
proof -
  have c: "comm_area_fits s" using assms(1) by (simp add: ring_ok_def)
  have l: "p < commandRingLength s" using pointer_bound [OF assms(1)] assms(2) by simp
  obtain w0 w1 a l n ws where w: "bus_read (host_memory s) (GetCommandDescriptorAddress p s) 2 = Some [w0, w1]"
    "desc_ownership w1" "a = desc_envelope w0 w1 - 4" "n = unat l div 2 + 2" "host_memory s a = Some l" "l \<noteq> 0"
    "unat l < MAX_MESSAGE_LENGTH" "even (unat l)" "fits a n (host_limit s)" "apart (area s) (area_words s) a n"
    "bus_read (host_memory s) a n = Some ws" "m = ws @ replicate (sizeof_Message div 2 - n) 0xc3c3"
    using assms(3) by (rule command_at_D)
  obtain v0 v1 where v: "bus_read (host_memory s) (GetCommandDescriptorAddress p s) 2 = Some [v0, v1]"
    "DMARead (GetCommandDescriptorAddress p s) 4 4 s = Some (Some [v0, v1])"
    using slot_read [OF c \<open>p < commandRingLength s\<close>] by metis
  have e: "v0 = w0" "v1 = w1" using v(1) w(1) by simp_all
  have len: "DMAReadWord a s = Some (Some l)"
    by (rule DMAReadWord_ok) (use w(4,5,9) in \<open>auto simp: fits_def\<close>)
  have nz: "unat l \<noteq> 0" using w(6) by (simp add: unat_eq_zero)
  have dbl: "unat l + 4 = 2 * n" using w(4,8) by presburger
  have msg: "DMARead a (unat l + 4) sizeof_Message s = Some (Some m)"
    using DMARead_ok [OF w(9) _ w(11), of "sizeof_Message div 2"] w(4,7) unfolding dbl w(12)
    by (simp add: sizeof_Message_def MAX_MESSAGE_LENGTH_def)
  obtain b where full: "ring_was_full w1 (commandRingPointer s) (commandRingLength s) GetCommandDescriptorAddress s = Some (Some b)"
    using ring_was_full_returns [OF assms(1)] by blast
  have g: "GetNextCommand s = return_command w0 w1 m b s"
    using v(2) w(2,7) len nz msg full
    by (simp add: GetNextCommand_def fetch_command_def e assms(2) [symmetric] w(3) [symmetric] Let_def)
  show thesis
  proof (rule return_command_effect [OF assms(1,2), where ?w0.0 = w0 and ?w1.0 = w1 and b = b and msg = m])
    fix M k
    let ?t = "s\<lparr>host_memory := M, commandRingPointer := of_nat (Suc p mod commandRingLength s), intr_calls := k\<rparr>"
    assume h: "return_command w0 w1 m b s = Some (Next m, ?t)" "comm_area_fits (s\<lparr>host_memory := M\<rparr>)"
      "\<not> slot_owned p (s\<lparr>host_memory := M\<rparr>)"
      "\<And>j. j < commandRingLength s \<Longrightarrow> j \<noteq> p \<Longrightarrow> slot_owned j (s\<lparr>host_memory := M\<rparr>) = slot_owned j s"
      "\<And>j m. j < commandRingLength s \<Longrightarrow> j \<noteq> p \<Longrightarrow> command_at j s = Some m \<Longrightarrow> command_at j (s\<lparr>host_memory := M\<rparr>) = Some m"
    show thesis by (rule that [of ?t]) (use h g in simp_all)
  qed
qed

subsection \<open>The ring is a queue\<close>

lemma queue_cases:
  assumes "ring_ok s" "p = unat (commandRingPointer s)" "commandRingLength s = Suc n"
  shows "command_queue s = (case command_at p s of None \<Rightarrow> [] | Some m \<Rightarrow> m # commands_from n (Suc p) s)"
  using pointer_bound [OF assms(1)] assms(2,3) by (simp add: command_queue_def split: option.splits)

lemma dequeue:
  assumes "ring_ok s" "command_queue s = m # ms"
  obtains M q k t where "GetNextCommand s = Some (Next m, t)" "t = s\<lparr>host_memory := M, commandRingPointer := q, intr_calls := k\<rparr>"
    "ring_ok t" "command_queue t = ms"
proof -
  define p where "p = unat (commandRingPointer s)"
  note b = pointer_bound [OF assms(1), folded p_def]
  obtain n where n: "commandRingLength s = Suc n" using b(1) by (cases "commandRingLength s") auto
  have m: "command_at p s = Some m" "commands_from n (Suc p) s = ms"
    using assms(2) unfolding queue_cases [OF assms(1) p_def n] by (auto split: option.splits)
  obtain M k t where t: "GetNextCommand s = Some (Next m, t)"
    "t = s\<lparr>host_memory := M, commandRingPointer := of_nat (Suc p mod commandRingLength s), intr_calls := k\<rparr>"
    "comm_area_fits t" "\<not> slot_owned p t"
    "\<And>j. j < commandRingLength s \<Longrightarrow> j \<noteq> p \<Longrightarrow> slot_owned j t = slot_owned j s"
    "\<And>j m. j < commandRingLength s \<Longrightarrow> j \<noteq> p \<Longrightarrow> command_at j s = Some m \<Longrightarrow> command_at j t = Some m"
    by (rule GetNextCommand_owned [OF assms(1) p_def m(1)], rule that)
  have ln: "commandRingLength t = Suc n" using n by (simp add: t(2))
  have np: "command_at p t = None" using command_owned t(4) by (cases "command_at p t") auto
  have same: "command_at j t = command_at j s" if "j < Suc n" "j \<noteq> p" for j
  proof (cases "command_at j s")
    case None
    then have "\<not> slot_owned j s" using assms(1) that n by (auto simp: ring_ok_def)
    then have "\<not> slot_owned j t" using t(5) that n by simp
    then show ?thesis using None command_owned by (cases "command_at j t") auto
  qed (use t(6) that n in auto)
  let ?q = "Suc p mod commandRingLength s"
  have q: "?q < Suc n" unfolding n by simp
  have "?q < 128" using q b(2) n by linarith
  then have uq: "unat (commandRingPointer t) = ?q" using unat_small [of ?q] by (simp add: t(2))
  have "ring_ok t" unfolding ring_ok_def
  proof (intro conjI allI impI)
    show "comm_area_fits t" by fact
    show "commandRingPointer t < of_nat (commandRingLength t)"
      using uq q b(2) unfolding ln n word_less_nat_alt by (simp add: unat_of_nat del: of_nat_Suc)
    show "\<exists>k\<le>7. commandRingLength t = 2 ^ k" using assms(1) by (simp add: ring_ok_def t(2))
    fix i assume "i < commandRingLength t" "slot_owned i t"
    then have i: "i < Suc n" "i \<noteq> p" "slot_owned i s" using t(4,5) ln n by auto
    then have "command_at i s \<noteq> None" using assms(1) n by (simp add: ring_ok_def)
    then show "command_at i t \<noteq> None" using same [OF i(1,2)] by simp
  qed
  moreover have "command_queue t = ms"
  proof -
    have "command_queue t = commands_from (Suc n) (Suc p mod commandRingLength t) t"
      unfolding command_queue_def uq ln n ..
    also have "\<dots> = commands_from (Suc n) (Suc p) t" by (rule commands_from_mod)
    also have "\<dots> = commands_from n (Suc p) t"
    proof (rule commands_from_end)
      have "(Suc p + n) mod commandRingLength t = p" using b(1) by (simp add: ln n mod_add_self2 flip: add_Suc_right)
      then show "command_at ((Suc p + n) mod commandRingLength t) t = None" using np by simp
    qed
    also have "\<dots> = commands_from n (Suc p) s"
    proof (rule commands_from_cong)
      show "commandRingLength t = commandRingLength s" by (simp add: t(2))
      fix j assume j: "Suc p \<le> j" "j < Suc p + n"
      have "j mod Suc n \<noteq> p"
      proof (cases "j < Suc n")
        case False
        then have "j mod Suc n = j - Suc n" using j b(1) n by (simp add: mod_if)
        then show ?thesis using False j by simp
      qed (use j in simp)
      then show "command_at (j mod commandRingLength s) t = command_at (j mod commandRingLength s) s"
        unfolding n by (intro same) simp_all
    qed
    finally show ?thesis using m(2) by simp
  qed
  ultimately show thesis using that [OF t(1,2)] by blast
qed

lemma no_command:
  assumes "ring_ok s" "command_queue s = []"
  shows "GetNextCommand s = Some (Ring_empty, s)"
proof -
  define p where "p = unat (commandRingPointer s)"
  note b = pointer_bound [OF assms(1), folded p_def]
  obtain n where n: "commandRingLength s = Suc n" using b(1) by (cases "commandRingLength s") auto
  have "command_at p s = None"
    using assms(2) unfolding queue_cases [OF assms(1) p_def n] by (simp split: option.splits)
  then have no: "\<not> slot_owned p s" using assms(1) b(1) by (auto simp: ring_ok_def)
  have "comm_area_fits s" using assms(1) by (simp add: ring_ok_def)
  from slot_read [OF this b(1)] obtain w0 w1 where
    "DMARead (GetCommandDescriptorAddress p s) 4 4 s = Some (Some [w0, w1])" "slot_owned p s = desc_ownership w1"
    by metis
  then show ?thesis using no by (simp add: GetNextCommand_def p_def [symmetric])
qed

text \<open>
  Property C7. The command ring implements a queue: on a ring the host has set up properly, the next
  command is the oldest message put in, its slot goes back to the host, and the rest stays queued in
  order; the ring is reported empty exactly if the queue is, and then nothing changes.
\<close>

theorem command_ring_is_queue:
  assumes "ring_ok s"
  shows "\<exists>c t. GetNextCommand s = Some (c, t) \<and> ring_ok t \<and>
    (case command_queue s of [] \<Rightarrow> c = Ring_empty \<and> t = s | m # ms \<Rightarrow> c = Next m \<and> command_queue t = ms)"
proof (cases "command_queue s")
  case Nil
  then show ?thesis using no_command [OF assms] assms by simp
next
  case (Cons m ms)
  then show ?thesis using dequeue [OF assms, of m ms] by fastforce
qed

text \<open>A ring of one descriptor each at 0x1000, with one message of four bytes at 0x2000.\<close>

definition one_command :: uda_port where
  "one_command = (new_port False ((\<lambda>_. Some 4)(0x1004 \<mapsto> 0x2004, 0x1006 \<mapsto> 0x8000)))
     \<lparr>initStep := Complete, ringBase := 0x1000, responseRingLength := 1, commandRingLength := 1, poll_at := Poll_reading,
      pollState := Run\<rparr>"

definition one_message :: message where "one_message = [4, 4, 4, 4] @ replicate 5124 0xc3c3"

lemma bus_read_numeral:
  "bus_read m a (numeral k) = do { w \<leftarrow> m a; ws \<leftarrow> bus_read m (a + 2) (pred_numeral k); Some (w # ws) }"
  by (simp add: numeral_eq_Suc)

lemma one_command: "ring_ok one_command" "command_queue one_command = [one_message]"
proof -
  have c: "comm_area_fits one_command"
    by (simp add: comm_area_fits_def one_command_def new_port_def headerSize_def present_def)
  have p: "area one_command = 0xffc" "area_words one_command = 6"
    by (simp_all add: area_def area_words_def one_command_def new_port_def headerSize_def)
  have r: "bus_read (host_memory one_command) (GetCommandDescriptorAddress 0 one_command) 2 = Some [0x2004, 0x8000]"
    by (simp add: one_command_def new_port_def GetCommandDescriptorAddress_def bus_read_numeral)
  have w: "bus_read (host_memory one_command) 0x2000 4 = Some [4, 4, 4, 4]"
    by (simp add: one_command_def new_port_def bus_read_numeral)
  have "command_at 0 one_command = Some one_message"
    by (simp add: command_at_def r desc_ownership_def desc_envelope_def p w MAX_MESSAGE_LENGTH_def sizeof_Message_def
        one_message_def fits_def apart_def Let_def del: bus_read.simps) (simp_all add: one_command_def new_port_def bus_read_numeral)
  then show "ring_ok one_command" "command_queue one_command = [one_message]"
    using c by (auto simp: ring_ok_def command_queue_def one_command_def new_port_def intro: exI [of _ 0])
qed

theorem command_ring_is_queue_witness:
  "\<exists>c t. GetNextCommand one_command = Some (c, t) \<and> ring_ok t \<and> c = Next one_message \<and> command_queue t = []"
  using command_ring_is_queue [OF one_command(1)] unfolding one_command(2) by simp

lemma ring_poll_sel [simp]:
  "ring_ok (s\<lparr>poll_at := a\<rparr>) = ring_ok s" "ring_ok (s\<lparr>poll_queue := q\<rparr>) = ring_ok s"
  "command_queue (s\<lparr>poll_at := a\<rparr>) = command_queue s" "command_queue (s\<lparr>poll_queue := q\<rparr>) = command_queue s"
proof -
  have c: "command_at i (s\<lparr>poll_at := a\<rparr>) = command_at i s" "command_at i (s\<lparr>poll_queue := q\<rparr>) = command_at i s" for i
    by (simp_all add: command_at_def area_def area_words_def headerSize_def GetCommandDescriptorAddress_def)
  have "slot_owned i (s\<lparr>poll_at := a\<rparr>) = slot_owned i s" "slot_owned i (s\<lparr>poll_queue := q\<rparr>) = slot_owned i s" for i
    by (simp_all add: slot_owned_def GetCommandDescriptorAddress_def)
  then show "ring_ok (s\<lparr>poll_at := a\<rparr>) = ring_ok s" "ring_ok (s\<lparr>poll_queue := q\<rparr>) = ring_ok s"
    by (simp_all add: ring_ok_def c comm_area_fits_def headerSize_def)
  show "command_queue (s\<lparr>poll_at := a\<rparr>) = command_queue s" "command_queue (s\<lparr>poll_queue := q\<rparr>) = command_queue s"
    by (auto simp: command_queue_def c intro!: commands_from_cong)
qed

text \<open>
  Property C10. Awakened, the polling thread takes all the messages that are in the ring into its queue, in order,
  and then turns to executing them; the ring is then empty.
\<close>

theorem polling_empties_ring:
  assumes "ring_ok s" "poll_at s = Poll_reading" "pollState s \<noteq> InitRestart"
  shows "\<exists>t. uda_steps (replicate (Suc (length (command_queue s))) Poll) s = Some t \<and>
    poll_queue t = poll_queue s @ command_queue s \<and> command_queue t = [] \<and> poll_at t = Poll_executing"
proof -
  have reads: "\<exists>t. uda_steps (replicate (Suc (length ms)) Poll) s = Some t \<and>
      poll_queue t = poll_queue s @ ms \<and> command_queue t = [] \<and> poll_at t = Poll_executing"
    if "ring_ok s" "poll_at s = Poll_reading" "pollState s \<noteq> InitRestart" "command_queue s = ms" for s :: "'a uda_port_scheme" and ms
    using that
  proof (induction ms arbitrary: s)
    case Nil
    then have "GetNextCommand s = Some (Ring_empty, s)" by (intro no_command)
    then have "poll_step s = Some (s\<lparr>poll_at := Poll_executing\<rparr>)"
      using Nil(2,3) by (simp add: poll_step_def poll_reads_def)
    moreover have "command_queue (s\<lparr>poll_at := Poll_executing\<rparr>) = []" using Nil(4) by simp
    ultimately show ?case by simp
  next
    case (Cons m ms)
    obtain M q k t where t: "GetNextCommand s = Some (Next m, t)"
      "t = s\<lparr>host_memory := M, commandRingPointer := q, intr_calls := k\<rparr>" "ring_ok t" "command_queue t = ms"
      using dequeue [OF Cons.prems(1,4)] by metis
    let ?t = "t\<lparr>poll_queue := poll_queue t @ [m]\<rparr>"
    have "poll_step s = Some ?t" using Cons.prems(2,3) t(1) by (simp add: poll_step_def poll_reads_def)
    moreover have "ring_ok ?t" "command_queue ?t = ms" using t(3,4) by simp_all
    moreover have "poll_at ?t = Poll_reading" "pollState ?t \<noteq> InitRestart" "poll_queue ?t = poll_queue s @ [m]"
      using Cons.prems(2,3) by (simp_all add: t(2))
    ultimately show ?case using Cons.IH [of ?t] by simp
  qed
  show ?thesis by (rule reads [OF assms refl])
qed

theorem polling_empties_ring_witness:
  "\<exists>t. uda_steps [Poll, Poll] one_command = Some t \<and> poll_queue t = [one_message] \<and> poll_at t = Poll_executing"
proof -
  have "poll_at one_command = Poll_reading" "pollState one_command \<noteq> InitRestart" "poll_queue one_command = []"
    by (simp_all add: one_command_def new_port_def)
  then show ?thesis using polling_empties_ring [OF one_command(1)] unfolding one_command(2) by auto
qed

end
