(* ===== verification/UDA_Reset.thy ===== *)
theory UDA_Reset
  imports UDA_Commands
begin

text \<open>
  What a reset of the controller promises: when the initialization has begun, the polling thread
  sleeps, and nothing of what was queued before is left.
\<close>

subsection \<open>What executing a command leaves alone\<close>

definition same_threads :: "'a uda_port_scheme \<Rightarrow> 'a uda_port_scheme \<Rightarrow> bool" where
  "same_threads s t \<longleftrightarrow> pollState t = pollState s \<and> poll_at t = poll_at s \<and> poll_queue t = poll_queue s \<and>
     initStep t = initStep s \<and> worker_at t = worker_at s"

lemma same_threads_refl [simp]: "same_threads s s"
  by (simp add: same_threads_def)

lemma same_threads_trans: "same_threads s t \<Longrightarrow> same_threads t u \<Longrightarrow> same_threads s u"
  by (simp add: same_threads_def)

lemma same_threads_sel [simp]:
  "same_threads s (t\<lparr>host_memory := m\<rparr>) = same_threads s t" "same_threads s (t\<lparr>responseRingPointer := p\<rparr>) = same_threads s t"
  "same_threads s (t\<lparr>credits := c\<rparr>) = same_threads s t" "same_threads s (t\<lparr>hostTimeout := h\<rparr>) = same_threads s t"
  "same_threads s (t\<lparr>controllerFlags := f\<rparr>) = same_threads s t" "same_threads s (set_drive n d t) = same_threads s t"
  "same_threads s (Interrupt t) = same_threads s t" "same_threads s (t\<lparr>commandRingPointer := p\<rparr>) = same_threads s t"
  "same_threads (set_drive n d s) t = same_threads s t" "same_threads (s\<lparr>credits := c\<rparr>) t = same_threads s t"
  by (simp_all add: same_threads_def set_drive_def Interrupt_def)

lemma DMAWrite_threads: "DMAWrite a n b s = Some (ok, t) \<Longrightarrow> same_threads s t"
  unfolding DMAWrite_def by (auto simp: Option.bind_eq_Some_conv split: if_splits)

lemma DMAWriteWord_threads: "DMAWriteWord a w s = Some (ok, t) \<Longrightarrow> same_threads s t"
  unfolding DMAWriteWord_def by (rule DMAWrite_threads)

lemma post_response_threads: "post_response_at w0 w1 m s = Some t \<Longrightarrow> same_threads s t"
  unfolding post_response_at_def Let_def
  by (auto simp: Option.bind_eq_Some_conv split: if_splits
      dest!: DMAWrite_threads DMAWriteWord_threads intro: same_threads_trans)

lemma PostResponse_threads: "PostResponse m s = Some (ok, t) \<Longrightarrow> same_threads s t"
  by (auto simp: PostResponse_def Option.bind_eq_Some_conv split: if_splits dest: post_response_threads)

lemma transfer_threads:
  "do_transfer op blocks n m s = Some (st, t) \<Longrightarrow> same_threads s t"
  by (cases op)
    (auto simp: do_transfer_def transfer_COMPARE_def transfer_ERASE_def transfer_READ_def transfer_WRITE_def
      Option.bind_eq_Some_conv Let_def split: option.splits if_splits dest!: DMAWrite_threads)

lemma DoDiskTransfer_threads: "DoDiskTransfer op m s = Some (st, r, t) \<Longrightarrow> same_threads s t"
  by (auto simp: DoDiskTransfer_def Let_def Option.bind_eq_Some_conv split: option.splits if_splits dest: transfer_threads)

lemma SetUnitCharacteristics_threads: "SetUnitCharacteristicsInternal b m s = Some (st, r, t) \<Longrightarrow> same_threads s t"
  by (auto simp: SetUnitCharacteristicsInternal_def Let_def Option.bind_eq_Some_conv split: option.splits if_splits)

lemmas command_defs = do_Abort_def do_Available_def do_DetermineAccessPaths_def do_GetCommandStatus_def do_GetUnitStatus_def
  do_Replace_def do_SetControllerCharacteristics_def

lemma execute_threads: "dispatch_command m s = Some (e, st, r, t) \<Longrightarrow> same_threads s t"
  unfolding dispatch_command_def Let_def
  by (auto simp: command_defs Let_def split: if_splits option.splits
      dest: DoDiskTransfer_threads SetUnitCharacteristics_threads)

lemma handle_message_threads: "handle_message m s = Some t \<Longrightarrow> same_threads s t"
  by (auto simp: handle_message_def Option.bind_eq_Some_conv grant_credits_def Let_def split: if_splits
      dest!: execute_threads PostResponse_threads intro: same_threads_trans)

subsection \<open>Runs of well-behaved hosts\<close>

text \<open>The host does not write SA before the controller has shown the first step.\<close>

fun polite :: "uda_event \<Rightarrow> 'a uda_port_scheme \<Rightarrow> bool" where
  "polite (Host_write i v) s \<longleftrightarrow> (i = 1 \<longrightarrow> initStep s \<noteq> Uninitialized)"
| "polite e s \<longleftrightarrow> True"

inductive reachable_port :: "uda_port \<Rightarrow> bool" where
  created: "reachable_port (new_port bits22 m)"
| stepped: "reachable_port s \<Longrightarrow> polite e s \<Longrightarrow> uda_step e s = Some t \<Longrightarrow> reachable_port t"

definition quiesced :: "'a mscp_scheme \<Rightarrow> bool" where
  "quiesced s \<longleftrightarrow> pollState s = Wait \<and> poll_at s = Poll_top \<and> poll_queue s = []"

definition port_inv :: "'a uda_port_scheme \<Rightarrow> bool" where
  "port_inv s \<longleftrightarrow> (pollState s = Wait \<longrightarrow> quiesced s) \<and> (initStep s \<noteq> Uninitialized \<longrightarrow> initStep s \<noteq> Complete \<longrightarrow> quiesced s) \<and>
     (worker_at s = Worker_resetting \<longrightarrow> initStep s = Uninitialized)"

lemma port_inv_same: "port_inv s \<Longrightarrow> same_threads s t \<Longrightarrow> port_inv t"
  by (simp add: port_inv_def same_threads_def quiesced_def)

text \<open>Reading the ring may end in a port error, which is a transition to \<^theory_text>\<open>Uninitialized\<close>.\<close>

definition same_or_error :: "'a uda_port_scheme \<Rightarrow> 'a uda_port_scheme \<Rightarrow> bool" where
  "same_or_error s t \<longleftrightarrow> pollState t = pollState s \<and> poll_at t = poll_at s \<and> poll_queue t = poll_queue s \<and>
     worker_at t = worker_at s \<and> (initStep t = initStep s \<or> initStep t = Uninitialized)"

lemma same_same_or_error: "same_threads s t \<Longrightarrow> same_or_error s t"
  by (simp add: same_threads_def same_or_error_def)

lemma ring_error_threads: "ring_error e s = Some (c, t) \<Longrightarrow> same_or_error s t"
  by (auto simp: ring_error_def same_or_error_def PortError_def StateTransition_def update_SA_def set_dati_def)

lemma same_then_error: "same_threads s t \<Longrightarrow> same_or_error t u \<Longrightarrow> same_or_error s u"
  by (auto simp: same_threads_def same_or_error_def)

lemma same_threads_pointer: "same_threads (s\<lparr>commandRingPointer := p\<rparr>) t = same_threads s t"
  by (simp add: same_threads_def)

lemma return_command_threads:
  assumes "return_command w0 w1 m b s = Some (c, t)"
  shows "same_or_error s t"
proof -
  obtain ok u where u: "DMAWrite (GetCommandDescriptorAddress (unat (commandRingPointer s)) s) 4 [w0, desc_returned w1] s = Some (ok, u)"
    using assms by (auto simp: return_command_def Option.bind_eq_Some_conv)
  note d = DMAWrite_threads [OF u]
  show ?thesis
  proof (cases ok)
    case False
    then have "ring_error PORT_ERROR_RING_WRITE u = Some (c, t)" using assms u by (simp add: return_command_def)
    then show ?thesis using same_then_error [OF d ring_error_threads] by simp
  next
    case True
    have "same_threads u t" using assms u True
      by (auto simp: return_command_def Option.bind_eq_Some_conv Let_def same_threads_pointer split: if_splits
          dest!: DMAWriteWord_threads)
    then show ?thesis by (intro same_same_or_error same_threads_trans [OF d])
  qed
qed

lemma fetch_command_threads: "fetch_command w0 w1 s = Some (c, t) \<Longrightarrow> same_or_error s t"
  unfolding fetch_command_def Let_def
  by (auto simp: Option.bind_eq_Some_conv split: if_splits option.splits dest: ring_error_threads return_command_threads)

lemma next_command_threads: "GetNextCommand s = Some (c, t) \<Longrightarrow> same_or_error s t"
  unfolding GetNextCommand_def
  by (auto simp: Option.bind_eq_Some_conv same_same_or_error split: if_splits option.splits
      dest: ring_error_threads fetch_command_threads)

lemma poll_inv:
  assumes "port_inv s" "poll_step s = Some t"
  shows "port_inv t"
proof (cases "poll_at s")
  case Poll_top
  then show ?thesis using assms by (auto simp: poll_step_def poll_wakes_def port_inv_def quiesced_def split: if_splits)
next
  case Poll_reading
  then have r: "poll_reads s = Some t" "pollState s \<noteq> Wait" using assms by (auto simp: poll_step_def port_inv_def quiesced_def)
  show ?thesis
  proof (cases "pollState s = InitRestart")
    case False
    then obtain c u where u: "GetNextCommand s = Some (c, u)"
      using r(1) by (auto simp: poll_reads_def Option.bind_eq_Some_conv)
    with next_command_threads [OF u] r assms(1) False show ?thesis
      by (cases c) (auto simp: poll_reads_def port_inv_def quiesced_def same_or_error_def)
  qed (use r assms(1) in \<open>auto simp: poll_reads_def port_inv_def quiesced_def\<close>)
next
  case Poll_executing
  then have r: "poll_executes s = Some t" "pollState s \<noteq> Wait" using assms by (auto simp: poll_step_def port_inv_def quiesced_def)
  show ?thesis
  proof (cases "poll_queue s = [] \<or> pollState s = InitRestart")
    case True
    then have "t = poll_sleeps s" using r(1) by (auto simp: poll_executes_def split: list.splits)
    then show ?thesis using r(2) assms(1)
      by (cases "pollState s") (auto simp: poll_sleeps_def port_inv_def quiesced_def)
  next
    case False
    then obtain m ms where m: "handle_message m (s\<lparr>poll_queue := ms\<rparr>) = Some t"
      using r(1) by (auto simp: poll_executes_def split: list.splits)
    have "port_inv (s\<lparr>poll_queue := ms\<rparr>)" using assms(1) r(2) by (auto simp: port_inv_def quiesced_def)
    then show ?thesis using handle_message_threads [OF m] by (rule port_inv_same)
  qed
qed

lemma drives_offline_inv [simp]: "port_inv (drives_offline s) = port_inv s"
  by (simp add: port_inv_def quiesced_def)

lemma transition_inv: "port_inv s \<Longrightarrow> port_inv (StateTransition Uninitialized s)"
  by (simp add: port_inv_def quiesced_def StateTransition_def)

lemma writing_SA_inv:
  assumes "port_inv s" "initStep s \<noteq> Uninitialized"
  shows "port_inv (write_SA s)"
  using assms
  by (cases "initStep s")
    (auto simp: write_SA_def Let_def write_step1_def write_step2_def write_step3_def write_step4_def StateTransition_def
      update_SA_def set_dati_def port_inv_def quiesced_def)

lemma access_inv:
  assumes "port_inv s" "polite (Host_write i v) s"
  shows "port_inv (host_writes i v s)" "port_inv (host_reads_IP s)"
proof -
  let ?u = "s\<lparr>dato := (dato s)(i := v)\<rparr>"
  have u: "port_inv ?u" using assms(1) by (simp add: port_inv_def quiesced_def)
  have "port_inv (update_SA 0 ?u)" using u by (simp add: port_inv_def quiesced_def update_SA_def set_dati_def)
  from transition_inv [OF this] writing_SA_inv [OF u] u assms(2)
  show "port_inv (host_writes i v s)"
    by (auto simp: host_writes_def uda_on_after_register_access_def access_IP_def)
  show "port_inv (host_reads_IP s)"
    using assms(1) by (auto simp: host_reads_IP_def uda_on_after_register_access_def access_IP_def InitPolling_def
        port_inv_def quiesced_def)
qed

lemma clear_area_threads: "clear_communications_area s = Some t \<Longrightarrow> same_threads s t"
proof -
  have c: "clear_words a n s = Some t \<Longrightarrow> same_threads s t" for a n and s t :: "'a uda_port_scheme"
    by (induction n arbitrary: a s)
      (auto simp: Option.bind_eq_Some_conv dest!: DMAWriteWord_threads intro: same_threads_trans)
  have "own_responses i n s = Some t \<Longrightarrow> same_threads s t" for i n and s t :: "'a uda_port_scheme"
    by (induction n arbitrary: i s)
      (auto simp: Option.bind_eq_Some_conv dest!: DMAWrite_threads intro: same_threads_trans)
  with c show "clear_communications_area s = Some t \<Longrightarrow> same_threads s t"
    by (fastforce simp: clear_communications_area_def Option.bind_eq_Some_conv intro: same_threads_trans)
qed

lemma SA_threads [simp]: "same_threads s (update_SA v s)" "same_threads s (Interrupt_SA v s)"
  by (simp_all add: same_threads_def update_SA_def set_dati_def Interrupt_SA_def)

lemma worker_init_inv:
  assumes "port_inv s" "worker_init_step s = Some t" "worker_at s = Worker_waiting"
  shows "port_inv t"
proof (cases "initStep s")
  case Uninitialized
  then show ?thesis using assms
    by (auto simp: worker_init_step_def Let_def server_Reset_begin_def update_SA_def set_dati_def Reset_end_def server_Reset_end_def
        StateTransition_def port_inv_def quiesced_def split: if_splits)
next
  case Step4
  then obtain u where u: "clear_communications_area s = Some u" "same_threads u t"
    using assms(2) by (auto simp: worker_init_step_def Option.bind_eq_Some_conv)
  show ?thesis by (rule port_inv_same [OF assms(1) same_threads_trans [OF clear_area_threads [OF u(1)] u(2)]])
qed (use assms in \<open>auto simp: worker_init_step_def intro: port_inv_same\<close>)

lemma worker_inv:
  assumes "port_inv s" "worker_step s = Some t"
  shows "port_inv t"
proof (cases "worker_at s")
  case Worker_waiting
  have "port_inv (s\<lparr>next_step := False\<rparr>)" using assms(1) by (simp add: port_inv_def quiesced_def)
  then show ?thesis using assms Worker_waiting worker_init_inv [of "s\<lparr>next_step := False\<rparr>" t]
    by (auto simp: worker_step_def split: if_splits)
next
  case Worker_resetting
  then show ?thesis using assms
    by (auto simp: worker_step_def Reset_end_def server_Reset_end_def StateTransition_def port_inv_def quiesced_def split: if_splits)
qed

lemma step_inv:
  assumes "port_inv s" "polite e s" "uda_step e s = Some t"
  shows "port_inv t"
proof (cases e)
  case (Host_memory m)
  then show ?thesis using assms by (auto simp: port_inv_def quiesced_def)
next
  case (Power b)
  then show ?thesis using assms by (auto simp: uda_on_power_changed_def Let_def intro!: transition_inv)
next
  case (Init b)
  then show ?thesis using assms by (auto simp: uda_on_init_changed_def intro!: transition_inv)
next
  case Host_read_IP
  have "polite (Host_write 0 0) s" by simp
  from access_inv(2) [OF assms(1) this] show ?thesis using assms(3) Host_read_IP by simp
qed (use assms access_inv worker_inv poll_inv in auto)

text \<open>
  Property C9. A reset quiesces the controller: in every run of a host that does not write SA before the first step is
  shown, with power failures and bus INITs at any moment, the polling thread sleeps and has no command queued during
  all of the initialization steps 1 to 4, so that no command of before the reset is executed after it.
\<close>

theorem initialization_quiesces:
  assumes "reachable_port s" "initStep s \<notin> {Uninitialized, Complete}"
  shows "pollState s = Wait \<and> poll_at s = Poll_top \<and> poll_queue s = []"
proof -
  from assms(1) have "port_inv s"
  proof (induction rule: reachable_port.induct)
    case (created bits22 m)
    show ?case by (simp add: port_inv_def quiesced_def new_port_def)
  next
    case (stepped s e t)
    from stepped.IH stepped.hyps(2,3) show ?case by (rule step_inv)
  qed
  then show ?thesis using assms(2) by (simp add: port_inv_def quiesced_def)
qed

theorem initialization_quiesces_witness:
  "\<exists>t. uda_steps [Host_write 0 0, Worker] (new_port False (\<lambda>_. Some 7)) = Some t \<and> initStep t = Step1 \<and> poll_at t = Poll_top"
proof -
  let ?s = "new_port False (\<lambda>_. Some 7)"
  obtain t where t: "uda_step (Host_write 0 0) ?s = Some (host_writes 0 0 ?s)" "uda_step Worker (host_writes 0 0 ?s) = Some t" "initStep t = Step1"
    by (simp add: new_port_def port_run)
  have "reachable_port (host_writes 0 0 ?s)" by (rule stepped [OF created _ t(1)]) simp
  then have "reachable_port t" by (rule stepped [OF _ _ t(2)]) simp
  from initialization_quiesces [OF this] have "poll_at t = Poll_top" using t(3) by simp
  then show ?thesis using t by simp
qed

text \<open>
  A host that writes SA right after starting a reset gets no reset: the write is taken for that of
  step 1, the controller goes on to step 2, and the units stay online, the queued commands stay queued
  and the polling thread goes on executing them.
\<close>

theorem early_SA_write_skips_reset:
  assumes "worker_at s = Worker_waiting"
  shows "\<exists>t. uda_steps [Host_write 0 v0, Host_write 1 v1, Worker] s = Some t \<and> initStep t = Step2 \<and>
    dati t 1 = STEP2 OR drop_bit 8 v1 \<and> drives t = drives s \<and> poll_queue t = poll_queue s \<and> poll_at t = poll_at s \<and>
    pollState t = pollState s"
  using assms by (simp add: port_run write_step1_def)

theorem early_SA_write_skips_reset_witness:
  "\<exists>t. uda_steps [Host_write 0 0, Host_write 1 0x8000, Worker] (one_command\<lparr>poll_queue := [one_message]\<rparr>) = Some t \<and>
     initStep t = Step2 \<and> poll_queue t = [one_message] \<and> poll_at t = Poll_reading"
proof -
  have "worker_at (one_command\<lparr>poll_queue := [one_message]\<rparr>) = Worker_waiting" "poll_at one_command = Poll_reading"
    by (simp_all add: one_command_def new_port_def)
  with early_SA_write_skips_reset [OF this(1), of 0 "0x8000"] show ?thesis by auto
qed

end
