(* ===== verification/MSCP_Correct.thy ===== *)
theory MSCP_Correct
  imports MSCP_Server Host_Regions
begin

text \<open>
  Transfers of the MSCP server: what is written is read back, the bounds checks, the inverted comparison,
  and what a guest program can do to the emulator.
\<close>

subsection \<open>Messages and buffers\<close>

lemma set_length_sel [simp]:
  "unit_number (set_length n m) = unit_number m" "byte_count (set_length n m) = byte_count m"
  "buffer_address (set_length n m) = buffer_address m" "lbn (set_length n m) = lbn m"
  by (simp_all add: set_length_def unit_number_def byte_count_def buffer_address_def lbn_def word32_def parameters_def)

lemma check_set_length [simp]: "check_transfer b d (set_length n m) = check_transfer b d m"
  unfolding check_transfer_def set_length_sel ..

subsection \<open>Disk blocks\<close>

text \<open>Where the bytes of a transfer lie on the disk, with the rest of the last block.\<close>

definition disk_end :: "message \<Rightarrow> nat" where
  "disk_end m = block_position (lbn m) + unat (byte_count m) + unused_bytes 512 (block_position (lbn m)) (unat (byte_count m))"

definition disk_data :: "message \<Rightarrow> mscp_drive \<Rightarrow> u8 list" where
  "disk_data m d = map (image_byte (the (drive_image d))) [block_position (lbn m)..<block_position (lbn m) + unat (byte_count m)]"

text \<open>A unit that is online, has an image that covers the transfer, and the size of its type.\<close>

definition ready :: "message \<Rightarrow> mscp_drive \<Rightarrow> bool" where
  "ready m d \<longleftrightarrow> IsAvailable d \<and> online d \<and> \<not> useImageSize d \<and> check_transfer (BlockCount (driveInfo d)) d m = None \<and>
     lbn m < BlockCount (driveInfo d) \<and> 0 < unat (byte_count m) \<and>
     (case drive_image d of None \<Rightarrow> False | Some i \<Rightarrow> image_holds (disk_end m) i)"

lemma ready_image:
  assumes "ready m d"
  obtains i where "drive_image d = Some i" "image_holds (disk_end m) i"
  using assms by (auto simp: ready_def split: option.splits)

lemma drive_Read_ok:
  assumes "ready m d"
  shows "drive_Read (lbn m) (unat (byte_count m)) d = Some (disk_data m d, d)"
proof -
  obtain i where i: "drive_image d = Some i" "image_holds (disk_end m) i" using assms by (rule ready_image)
  have "image_holds (block_position (lbn m) + unat (byte_count m)) i" using i(2) by (rule img.holds_mono) (simp add: disk_end_def)
  moreover have "0 < unat (byte_count m)" using assms by (simp add: ready_def)
  ultimately have "image_read (block_position (lbn m)) (unat (byte_count m)) i = Some (disk_data m d, i)"
    using img.read_ok [of "block_position (lbn m)" "unat (byte_count m)" i] by (simp add: disk_data_def i(1))
  then show ?thesis using i(1) by (simp add: drive_Read_def drive_image_read_def)
qed

text \<open>Writing replaces the bytes of the transfer, and fills up the last block.\<close>

lemma drive_Write_ok:
  assumes "ready m d" "length buf = unat (byte_count m)"
  obtains i where "drive_Write (lbn m) buf d = Some (d\<lparr>drive_image := Some i\<rparr>)" "image_holds (disk_end m) i"
    "disk_data m (d\<lparr>drive_image := Some i\<rparr>) = buf"
proof -
  let ?p = "block_position (lbn m)" and ?n = "unat (byte_count m)"
  obtain i where i: "drive_image d = Some i" "image_holds (disk_end m) i" using assms(1) by (rule ready_image)
  have h: "image_holds (?p + length buf) i" using i(2) by (rule img.holds_mono) (simp add: disk_end_def assms(2))
  have ne: "buf \<noteq> []" using assms by (auto simp: ready_def)
  obtain j where j: "image_write buf ?p i = Some j" "\<And>n. image_holds n i \<Longrightarrow> image_holds n j"
    "image_byte j = (\<lambda>p. if ?p \<le> p \<and> p < ?p + length buf then buf ! (p - ?p) else image_byte i p)"
    using img.write_ok [OF h ne] by blast
  have data: "map (image_byte k) [?p..<?p + ?n] = buf" if "\<And>p. p < ?p + ?n \<Longrightarrow> image_byte k p = image_byte j p" for k
    by (rule nth_equalityI) (use that j(3) assms(2) in simp_all)
  have w: "drive_image_write buf ?p d = Some (d\<lparr>drive_image := Some j\<rparr>)"
    using i(1) j(1) by (simp add: drive_image_write_def)
  show thesis
  proof (cases "unused_bytes 512 ?p ?n = 0")
    case True
    then have "drive_Write (lbn m) buf d = Some (d\<lparr>drive_image := Some j\<rparr>)"
      using w by (simp add: drive_Write_def image_clear_remaining_block_bytes_def GetBlockSize_def assms(2))
    then show thesis using j(2) [OF i(2)] data [of j] by (intro that [of j]) (simp_all add: disk_data_def)
  next
    case False
    let ?z = "replicate (unused_bytes 512 ?p ?n) (0 :: u8)"
    have "image_holds (?p + ?n + length ?z) j" using j(2) [OF i(2)] by (simp add: disk_end_def)
    then obtain k where k: "image_write ?z (?p + ?n) j = Some k" "\<And>n. image_holds n j \<Longrightarrow> image_holds n k"
      "image_byte k = (\<lambda>p. if ?p + ?n \<le> p \<and> p < ?p + ?n + length ?z then ?z ! (p - (?p + ?n)) else image_byte j p)"
      using img.write_ok [of "?p + ?n" ?z j] False by auto
    have "drive_Write (lbn m) buf d = Some (d\<lparr>drive_image := Some k\<rparr>)"
      using w k(1) False by (simp add: drive_Write_def image_clear_remaining_block_bytes_def GetBlockSize_def assms(2) drive_image_write_def)
    then show thesis using k(2) [OF j(2) [OF i(2)]] data [of k] k(3) by (intro that [of k]) (simp_all add: disk_data_def)
  qed
qed

subsection \<open>Transfers\<close>

text \<open>The host's buffer: an even number of bytes in memory that answers.\<close>

definition buffer_words :: "message \<Rightarrow> nat" where "buffer_words m = unat (byte_count m) div 2"

definition buffer_ok :: "message \<Rightarrow> 'a uda_scheme \<Rightarrow> bool" where
  "buffer_ok m s \<longleftrightarrow> even (unat (byte_count m)) \<and> fits (buffer_address m) (buffer_words m) (host_limit s) \<and>
     present (host_memory s) (buffer_address m) (buffer_words m)"

lemma read_host_ok:
  assumes "buffer_ok m s" "bus_read (host_memory s) (buffer_address m) (buffer_words m) = Some ws"
  shows "read_host m s = Some (Some (words_to_bytes ws))" "length (words_to_bytes ws) = unat (byte_count m)"
proof -
  have n: "unat (byte_count m) = 2 * buffer_words m" using assms(1) by (simp add: buffer_ok_def buffer_words_def)
  have "DMARead (buffer_address m) (2 * buffer_words m) (2 * buffer_words m) s = Some (Some ws)"
    using DMARead_ok [OF _ order_refl assms(2)] assms(1) by (simp add: buffer_ok_def)
  then show "read_host m s = Some (Some (words_to_bytes ws))" by (simp add: read_host_def n)
  show "length (words_to_bytes ws) = unat (byte_count m)" using bus_read_length [OF assms(2)] n by simp
qed

lemma DoDiskTransfer_ready:
  assumes "unit_number m < DRIVE_COUNT" "ready m (drives s (unit_number m))"
  shows "DoDiskTransfer op m s =
    do { (st, t) \<leftarrow> do_transfer op (BlockCount (driveInfo (drives s (unit_number m)))) (unit_number m) (set_length 20 m) s;
         Some (case st of Some st \<Rightarrow> (st, set_length 20 m, t)
               | None \<Rightarrow> (STATUS SUCCESS 0 0, put32 (parameters + 8) 0 (set_length 20 m), t)) }"
  using assms
  by (cases "do_transfer op (BlockCount (driveInfo (drives s (unit_number m)))) (unit_number m) (set_length 20 m) s")
    (auto simp: DoDiskTransfer_def available_drive_def GetDrive_def ready_def GetBlockCount_def Let_def split: option.splits)

lemma data_area:
  assumes "ready m d"
  shows "read_disk (BlockCount (driveInfo d)) m d = drive_Read (lbn m) (unat (byte_count m)) d"
    "write_disk (BlockCount (driveInfo d)) m buf d = drive_Write (lbn m) buf d"
  using assms by (auto simp: ready_def read_disk_def write_disk_def)

lemma set_length_disk [simp]: "read_disk b (set_length n m) d = read_disk b m d" "write_disk b (set_length n m) buf d = write_disk b m buf d"
  "read_host (set_length n m) s = read_host m s"
  unfolding read_disk_def write_disk_def read_host_def set_length_sel by (rule refl)+

lemma WRITE_effect:
  assumes "unit_number m < DRIVE_COUNT" "ready m (drives s (unit_number m))" "buffer_ok m s"
    "bus_read (host_memory s) (buffer_address m) (buffer_words m) = Some ws"
  obtains i r where
    "DoDiskTransfer WRITE m s = Some (STATUS SUCCESS 0 0, r, set_drive (unit_number m) ((drives s (unit_number m))\<lparr>drive_image := Some i\<rparr>) s)"
    "image_holds (disk_end m) i" "disk_data m ((drives s (unit_number m))\<lparr>drive_image := Some i\<rparr>) = words_to_bytes ws"
proof -
  note h = read_host_ok [OF assms(3,4)]
  obtain i where i: "drive_Write (lbn m) (words_to_bytes ws) (drives s (unit_number m)) = Some ((drives s (unit_number m))\<lparr>drive_image := Some i\<rparr>)"
    "image_holds (disk_end m) i" "disk_data m ((drives s (unit_number m))\<lparr>drive_image := Some i\<rparr>) = words_to_bytes ws"
    using drive_Write_ok [OF assms(2) h(2)] by blast
  show thesis
    by (rule that [OF _ i(2,3)])
      (simp add: DoDiskTransfer_ready [OF assms(1,2)] do_transfer_def transfer_WRITE_def h(1) data_area [OF assms(2)] i(1))
qed

lemma READ_effect:
  assumes "unit_number m < DRIVE_COUNT" "ready m (drives s (unit_number m))" "buffer_ok m s"
    "disk_data m (drives s (unit_number m)) = words_to_bytes ws" "length ws = buffer_words m"
  obtains r where "DoDiskTransfer READ m s = Some (STATUS SUCCESS 0 0, r, poke (buffer_address m) ws (set_drive (unit_number m) (drives s (unit_number m)) s))"
proof -
  have n: "unat (byte_count m) = 2 * buffer_words m" using assms(3) by (simp add: buffer_ok_def buffer_words_def)
  let ?s = "set_drive (unit_number m) (drives s (unit_number m)) s"
  have "DMAWrite (buffer_address m) (unat (byte_count m)) ws ?s = Some (True, poke (buffer_address m) (take (buffer_words m) ws) ?s)"
    unfolding n by (rule DMAWrite_ok) (use assms(3,5) in \<open>simp_all add: buffer_ok_def set_drive_def\<close>)
  then show thesis
    by (intro that)
      (simp add: DoDiskTransfer_ready [OF assms(1,2)] do_transfer_def transfer_READ_def data_area [OF assms(2)]
        drive_Read_ok [OF assms(2)] assms(4,5) words_bytes_words)
qed

lemma holds_opened: "image_holds n i \<Longrightarrow> image_opened i"
  by (cases i) simp_all

lemma ready_again:
  assumes "ready m d" "lbn m' = lbn m" "byte_count m' = byte_count m" "image_holds (disk_end m') i"
  shows "ready m' (d\<lparr>drive_image := Some i\<rparr>)"
proof -
  have "check_transfer b (d\<lparr>drive_image := Some i\<rparr>) m' = check_transfer b d m" for b
    unfolding check_transfer_def assms(2,3) GetRCTBlockCount_def by simp
  then show ?thesis using assms holds_opened [OF assms(4)] by (simp add: ready_def IsAvailable_def)
qed

text \<open>
  Property C12. A WRITE followed by a READ of the same blocks of a unit, in any other buffer of the host, succeeds
  and brings back what was written.
\<close>

theorem written_data_reads_back:
  assumes "unit_number m < DRIVE_COUNT" "ready m (drives s (unit_number m))"
    and "unit_number m' = unit_number m" "lbn m' = lbn m" "byte_count m' = byte_count m"
    and "buffer_ok m s" "buffer_ok m' s"
  shows "\<exists>r t r' u. DoDiskTransfer WRITE m s = Some (STATUS SUCCESS 0 0, r, t) \<and>
    DoDiskTransfer READ m' t = Some (STATUS SUCCESS 0 0, r', u) \<and>
    bus_read (host_memory u) (buffer_address m') (buffer_words m') = bus_read (host_memory s) (buffer_address m) (buffer_words m)"
proof -
  let ?n = "unit_number m"
  have "present (host_memory s) (buffer_address m) (buffer_words m)" using assms(6) by (simp add: buffer_ok_def)
  then obtain ws where ws: "bus_read (host_memory s) (buffer_address m) (buffer_words m) = Some ws" "length ws = buffer_words m"
    by (rule present_read)
  obtain i r where w: "DoDiskTransfer WRITE m s = Some (STATUS SUCCESS 0 0, r, set_drive ?n ((drives s ?n)\<lparr>drive_image := Some i\<rparr>) s)"
    "image_holds (disk_end m) i" "disk_data m ((drives s ?n)\<lparr>drive_image := Some i\<rparr>) = words_to_bytes ws"
    using WRITE_effect [OF assms(1,2,6) ws(1)] by blast
  let ?d = "(drives s ?n)\<lparr>drive_image := Some i\<rparr>" and ?t = "set_drive ?n ((drives s ?n)\<lparr>drive_image := Some i\<rparr>) s"
  have same: "disk_end m' = disk_end m" "disk_data m' = disk_data m" "buffer_words m' = buffer_words m"
    using assms(4,5) by (simp_all add: disk_end_def disk_data_def fun_eq_iff buffer_words_def)
  have d: "drives ?t (unit_number m') = ?d" by (simp add: set_drive_def assms(3))
  have rd: "ready m' (drives ?t (unit_number m'))"
    unfolding d by (rule ready_again [OF assms(2,4,5)]) (use w(2) same(1) in simp)
  have b: "buffer_ok m' ?t" using assms(7) by (simp add: buffer_ok_def set_drive_def)
  have dd: "disk_data m' (drives ?t (unit_number m')) = words_to_bytes ws" unfolding d same by (rule w(3))
  obtain r' where r: "DoDiskTransfer READ m' ?t = Some (STATUS SUCCESS 0 0, r', poke (buffer_address m') ws
      (set_drive (unit_number m') (drives ?t (unit_number m')) ?t))"
    using READ_effect [OF _ rd b dd] assms(1,3) ws(2) same(3) by auto
  have "bus_read (fst (bus_write (host_memory s) (buffer_address m') ws)) (buffer_address m') (length ws) = Some ws"
    using assms(7) ws(2) same(3) by (intro written_here) (auto simp: buffer_ok_def dest: fits_32)
  then show ?thesis using w(1) r ws same(3) by (simp add: set_drive_def)
qed

text \<open>A unit of the smallest type on an image in memory, and a command for its first block.\<close>

definition small_unit :: mscp_drive where
  "small_unit = \<lparr>driveInfo = drive_row ''RX50'' 800 10 5 16 0x25658032 7 0, online = True, unitDeviceNumber = 1, unitClassModel = 0,
     useImageSize = False, rctData = [],
     drive_image = Some (Memory_image \<lparr>block = replicate 512 7, data_size = 512, m_opened = True\<rparr>)\<rparr>"

definition small_server :: mscp where
  "small_server =
     \<lparr>dati = (\<lambda>_. 0), dato = (\<lambda>_. 0), controllerType = UDA50, dma22 = False, ringBase = 0, commandRingLength = 1,
      responseRingLength = 1, commandRingPointer = 0, responseRingPointer = 0, interruptVector = 0,
      interruptEnable = False, purgeInterruptEnable = False, step1Value = 0, initStep = Complete,
      next_step = False, request_vector = 108, intr_calls = 0, host_memory = (\<lambda>_. Some 5), host_limit = 0x40000,
      hostTimeout = 0, controllerFlags = 0, pollState = Run, credits = 1, drives = (\<lambda>_. small_unit),
      poll_at = Poll_executing, poll_queue = []\<rparr>"

definition block_command :: "u16 \<Rightarrow> u32 \<Rightarrow> message" where
  "block_command op a = [32, 0, 1, 0, 0, 0, op, 0, 512, 0, ucast a, ucast (drop_bit 16 a), 0, 0, 0, 0, 0, 0]"

lemma block_command [simp]:
  "unit_number (block_command op a) = 0" "byte_count (block_command op a) = 512" "lbn (block_command op a) = 0"
  "buffer_address (block_command op a) = a AND 0x00ffffff" "opcode (block_command op a) = op AND 0xff"
proof -
  have "ucast (ucast a :: u16) OR push_bit 16 (ucast (ucast (drop_bit 16 a) :: u16)) = a"
    by (rule bit_word_eqI) (auto simp: bit_simps)
  then show "buffer_address (block_command op a) = a AND 0x00ffffff"
    by (simp add: buffer_address_def word32_def parameters_def block_command_def)
qed (simp_all add: unit_number_def byte_count_def lbn_def word32_def parameters_def block_command_def opcode_def)

lemma small_ready:
  "ready (block_command op a) (drives small_server 0)" "disk_data (block_command op a) (drives small_server 0) = replicate 512 7"
proof -
  have "check_transfer 800 small_unit (block_command op a) = None"
    by (simp add: check_transfer_def GetRCTBlockCount_def small_unit_def drive_row_def GetBlockSize_def)
  moreover have "disk_end (block_command op a) = 512" by (simp add: disk_end_def block_position_def unused_bytes_def)
  ultimately show "ready (block_command op a) (drives small_server 0)"
    by (simp add: ready_def small_server_def IsAvailable_def) (simp add: small_unit_def drive_row_def)
  show "disk_data (block_command op a) (drives small_server 0) = replicate 512 7"
    by (rule nth_equalityI) (simp_all add: disk_data_def block_position_def small_server_def small_unit_def)
qed

lemma small_buffer: "unat (a AND 0x00ffffff) + 512 \<le> 0x40000 \<Longrightarrow> buffer_ok (block_command op a) small_server"
  by (simp add: buffer_ok_def buffer_words_def fits_def present_def) (simp add: small_server_def)

theorem written_data_reads_back_witness:
  "\<exists>r t r' u. DoDiskTransfer WRITE (block_command 0x22 0x1000) small_server = Some (STATUS SUCCESS 0 0, r, t) \<and>
     DoDiskTransfer READ (block_command 0x21 0x2000) t = Some (STATUS SUCCESS 0 0, r', u) \<and>
     bus_read (host_memory u) 0x2000 256 = bus_read (\<lambda>_. Some 5) 0x1000 256"
  using written_data_reads_back [of "block_command 0x22 0x1000" small_server "block_command 0x21 0x2000"]
  by (simp add: small_ready small_buffer DRIVE_COUNT_def buffer_words_def) (simp add: small_server_def)

subsection \<open>The comparison\<close>

text \<open>
  Property C14. COMPARE HOST DATA does the reverse of what it is for: on equal data it answers with a compare error, and
  on different data it succeeds, after erasing the blocks on the disk.
\<close>

theorem compare_host_data_inverted:
  assumes "unit_number m < DRIVE_COUNT" "ready m (drives s (unit_number m))" "buffer_ok m s"
    and "bus_read (host_memory s) (buffer_address m) (buffer_words m) = Some ws"
  shows "\<exists>st r t. DoDiskTransfer COMPARE_HOST_DATA m s = Some (st, r, t) \<and>
    (if disk_data m (drives s (unit_number m)) = words_to_bytes ws
     then st = STATUS COMPARE_ERROR 0 0 \<and> drives t = drives s
     else st = STATUS SUCCESS 0 0 \<and> disk_data m (drives t (unit_number m)) = replicate (unat (byte_count m)) 0)"
proof -
  let ?n = "unit_number m" and ?c = "unat (byte_count m)"
  let ?d = "drives s ?n" let ?s = "set_drive ?n ?d s"
  have s: "drives ?s = drives s" by (simp add: set_drive_def)
  have h: "read_host m ?s = Some (Some (words_to_bytes ws))" "length (words_to_bytes ws) = ?c"
    using read_host_ok [of m ?s ws] assms(3,4) by (simp_all add: buffer_ok_def set_drive_def)
  have l: "length (disk_data m ?d) = ?c" by (simp add: disk_data_def)
  obtain i where i: "drive_Write (lbn m) (replicate ?c 0) ?d = Some (?d\<lparr>drive_image := Some i\<rparr>)"
    "disk_data m (?d\<lparr>drive_image := Some i\<rparr>) = replicate ?c 0"
    using drive_Write_ok [OF assms(2), of "replicate ?c 0"] by auto
  have c: "transfer_COMPARE (BlockCount (driveInfo ?d)) ?n (set_length 20 m) s =
      (if disk_data m ?d = words_to_bytes ws then Some (Some (STATUS COMPARE_ERROR 0 0), ?s)
       else Some (None, set_drive ?n (?d\<lparr>drive_image := Some i\<rparr>) ?s))"
    using data_area [OF assms(2)] drive_Read_ok [OF assms(2)] h l i(1)
    by (simp add: transfer_COMPARE_def transfer_ERASE_def s)
  show ?thesis
    using i(2) s by (auto simp: DoDiskTransfer_ready [OF assms(1,2)] do_transfer_def c set_drive_def)
qed

theorem compare_host_data_inverted_witness:
  "\<exists>r t. DoDiskTransfer COMPARE_HOST_DATA (block_command 0x20 0x1000) small_server = Some (STATUS SUCCESS 0 0, r, t) \<and>
     disk_data (block_command 0x20 0x1000) (drives t 0) = replicate 512 0"
proof -
  let ?m = "block_command 0x20 0x1000"
  have b: "bus_read (host_memory small_server) (buffer_address ?m) (buffer_words ?m) = Some (replicate 256 5)"
    unfolding bus_read_iff by (simp add: buffer_words_def) (simp add: small_server_def)
  have "hd (disk_data ?m (drives small_server 0)) \<noteq> hd (words_to_bytes (replicate 256 5))"
    using replicate_Suc [of 255 "5 :: u16"] replicate_Suc [of 511 "7 :: u8"] unfolding small_ready by simp
  then have ne: "disk_data ?m (drives small_server 0) \<noteq> words_to_bytes (replicate 256 5)" by metis
  show ?thesis
    using compare_host_data_inverted [of ?m small_server, OF _ _ _ b] ne
    by (simp add: small_ready small_buffer DRIVE_COUNT_def)
qed

subsection \<open>Bounds\<close>

lemma table_sizes: "i \<in> set g_driveTable \<Longrightarrow> unat (BlockCount i) + unat (RCTSize i) \<le> 3920688"
  by (auto simp: g_driveTable_def drive_row_def)

text \<open>
  Property C13. For every unit type of the table the checks of a transfer, made in 32 bits, are those of the integers:
  the transfer is accepted if and only if its first block exists, it ends before the end of the RCT area, and in the
  RCT area is one block long.
\<close>

theorem transfer_checks_are_exact:
  assumes "driveInfo d \<in> set g_driveTable"
  shows "check_transfer (BlockCount (driveInfo d)) d m = None \<longleftrightarrow>
    (let all = unat (BlockCount (driveInfo d)) + unat (RCTSize (driveInfo d)) in
     unat (lbn m) < all \<and> unat (lbn m) * 512 + unat (byte_count m) \<le> all * 512 \<and>
     (unat (BlockCount (driveInfo d)) \<le> unat (lbn m) \<longrightarrow> byte_count m = 512))"
proof -
  let ?b = "BlockCount (driveInfo d)" and ?r = "RCTSize (driveInfo d)"
  define all where "all = unat ?b + unat ?r"
  have a: "all \<le> 3920688" using table_sizes [OF assms] by (simp add: all_def)
  have rct: "GetRCTBlockCount d = ucast ?r" by (simp add: GetRCTBlockCount_def GetRCTCopies_def)
  have ur: "unat (ucast ?r :: u32) = unat ?r" 
    using unsigned_less [where 'a = nat, of ?r] by (simp add: unsigned_ucast_eq take_bit_nat_eq_self)
  have ua: "unat (?b + ucast ?r) = all"
    using a ur by (simp add: all_def unat_word_ariths)
  have prod: "unat ((?b + ucast ?r - lbn m) * 512) = (all - unat (lbn m)) * 512" if "unat (lbn m) < all"
  proof -
    have s: "unat (?b + ucast ?r - lbn m) = all - unat (lbn m)"
      using that ua by (simp add: unat_sub word_le_nat_alt)
    have "(all - unat (lbn m)) * 512 < 2 ^ 32" using a by simp
    then show ?thesis unfolding unat_word_ariths s by simp
  qed
  show ?thesis
  proof (cases "unat (lbn m) < all")
    case True
    have "\<not> ?b + ucast ?r \<le> lbn m" using True ua by (simp add: word_le_nat_alt)
    moreover have "(?b + ucast ?r - lbn m) * 512 < byte_count m \<longleftrightarrow> (all - unat (lbn m)) * 512 < unat (byte_count m)"
      using prod [OF True] by (simp add: word_less_nat_alt)
    moreover have "(all - unat (lbn m)) * 512 = all * 512 - unat (lbn m) * 512" by (rule diff_mult_distrib)
    ultimately show ?thesis using True
      by (auto simp: check_transfer_def rct GetBlockSize_def Let_def all_def [symmetric] word_le_nat_alt)
  next
    case False
    then have "?b + ucast ?r \<le> lbn m" using ua by (simp add: word_le_nat_alt)
    then show ?thesis using False by (simp add: check_transfer_def rct Let_def all_def [symmetric])
  qed
qed

theorem transfer_checks_are_exact_witness:
  "check_transfer 800 small_unit (block_command 0x22 0x1000) = None"
  using transfer_checks_are_exact [of small_unit "block_command 0x22 0x1000"]
  by (simp add: small_unit_def g_driveTable_def drive_row_def)

subsection \<open>What a guest can do\<close>

text \<open>
  Property C15. A guest program ends the emulator with one valid READ command: a buffer address behind the address
  space, or an odd byte count, fails an assertion of the port instead of giving an error status.
\<close>

theorem guest_ends_program:
  assumes "unit_number m < DRIVE_COUNT" "ready m (drives s (unit_number m))" "opcode m = 0x21"
    and "host_limit s \<le> buffer_address m \<or> odd (unat (byte_count m))"
  shows "handle_message m s = None"
proof -
  let ?d = "drives s (unit_number m)"
  have "DMAWrite (buffer_address m) (unat (byte_count m)) b (set_drive (unit_number m) ?d s) = None" for b
    using assms(4) DMA_outside(1) [of "set_drive (unit_number m) ?d s"] DMA_odd(1) by (auto simp: set_drive_def)
  then have "DoDiskTransfer READ m s = None"
    by (simp add: DoDiskTransfer_ready [OF assms(1,2)] do_transfer_def transfer_READ_def data_area [OF assms(2)]
        drive_Read_ok [OF assms(2)])
  then show ?thesis by (simp add: handle_message_def dispatch_command_def assms(3) Let_def)
qed

theorem guest_ends_program_witness: "handle_message (block_command 0x21 0x100000) small_server = None"
  using guest_ends_program [of "block_command 0x21 0x100000" small_server]
  by (simp add: small_ready DRIVE_COUNT_def) (simp add: small_server_def)

end
