(* ===== verification/RL0102.thy ===== *)
theory RL0102
  imports Device_View Bus_Memory Storage_Geometry Storage_Image
begin

text \<open>
  The RL01 and RL02 disk drives (\<^verbatim>\<open>rl0102.cpp\<close>, \<^verbatim>\<open>rl0102.hpp\<close>), with the state of the RL11 controller
  they report to (\<^verbatim>\<open>rl11.hpp\<close>): the status word, the state machine of the drive's worker, seeking and
  the sectors that pass the heads. Whether the file of a cartridge can be opened, and whether only for
  reading, is given in the state. Lamps only shown, delays and the locking of parameters are left out.
\<close>

subsection \<open>State\<close>

datatype rl_state = RL_load_cartridge | RL_spin_up | RL_brush_cycle | RL_load_heads | RL_seek | RL_lock_on |
  RL_unload_heads | RL_spin_down | RL_power_off

fun state_code :: "rl_state \<Rightarrow> u16" where
  "state_code RL_load_cartridge = 0"
| "state_code RL_spin_up = 1"
| "state_code RL_brush_cycle = 2"
| "state_code RL_load_heads = 3"
| "state_code RL_seek = 4"
| "state_code RL_lock_on = 5"
| "state_code RL_unload_heads = 6"
| "state_code RL_spin_down = 7"
| "state_code RL_power_off = 0xff"

record rl0102 =
  d_state :: rl_state
  is_RL02 :: bool
  cylinder :: u32
  head :: u32
  seek_destination_cylinder :: u32
  seek_destination_head :: u32
  volume_check :: bool
  error_wge :: bool
  drive_ready_line :: bool
  drive_error_line :: bool
  status_word :: u16
  rotation_umin :: u32
  emulation_speed :: u32
  power_switch :: bool
  runstop_button :: bool
  fault_lamp :: bool
  writeprotect_button :: bool
  cover_open :: bool
  next_sector_segment_under_heads :: nat
  cartridge :: "binfile option"
  can_open :: bool
  opens_readonly :: bool

datatype rl_controller_state = RL11_ready | RL11_busy | RL11_seek_init | RL11_rw_init | RL11_rw_disk

datatype rl_worker = RL_waiting | RL_seek_wait nat bool | RL_executing

record rl11 = device_view +
  rl11_state :: rl_controller_state
  selected_drive_unitno :: nat
  function_code :: u16
  interrupt_enable :: bool
  qunibus_address_msb :: u32
  error_operation_incomplete :: bool
  error_dma_timeout :: bool
  error_writecheck :: bool
  error_header_not_found :: bool
  mpr_silo :: "u16 list"
  mpr_silo_idx :: nat
  has_BAE :: bool
  rl_drives :: "nat \<Rightarrow> rl0102"
  rl_worker_at :: rl_worker
  rl_signalled :: bool
  rl_init_asserted :: bool
  rl_memory :: bus_memory
  rl_limit :: u32
  rl_interrupts :: nat

definition rl_drive :: "rl11 \<Rightarrow> rl0102" where "rl_drive s = rl_drives s (selected_drive_unitno s)"

definition upd_rl :: "nat \<Rightarrow> (rl0102 \<Rightarrow> rl0102) \<Rightarrow> rl11 \<Rightarrow> rl11" where
  "upd_rl n f s = s\<lparr>rl_drives := (rl_drives s)(n := f (rl_drives s n))\<rparr>"

definition rl_geometry :: "rl0102 \<Rightarrow> geometry" where
  "rl_geometry d = \<lparr>cylinder_count = (if is_RL02 d then 512 else 256), head_count = 2, sector_count = 40,
     sector_size_bytes = 256, mscp_block_count = 0\<rparr>"

subsection \<open>The status of the controller\<close>

definition any_controller_error :: "rl11 \<Rightarrow> bool" where
  "any_controller_error s \<longleftrightarrow> error_dma_timeout s \<or> error_operation_incomplete s \<or> error_writecheck s \<or> error_header_not_found s"

definition CS_value :: "rl11 \<Rightarrow> u16" where
  "CS_value s =
     flag 0x0001 (drive_ready_line (rl_drive s)) OR push_bit 1 (function_code s) OR
     push_bit 4 (ucast (qunibus_address_msb s AND 3)) OR flag 0x0040 (interrupt_enable s) OR
     flag 0x0080 (rl11_state s = RL11_ready) OR push_bit 8 (of_nat (selected_drive_unitno s)) OR
     flag 0x0400 (error_operation_incomplete s) OR flag 0x0800 (error_writecheck s) OR
     flag 0x1400 (error_header_not_found s) OR flag 0x2000 (error_dma_timeout s) OR
     flag 0x4000 (drive_error_line (rl_drive s)) OR
     flag 0x8000 (any_controller_error s \<or> drive_error_line (rl_drive s))"

text \<open>Without and with an interrupt; with it, CS changes at the same moment.\<close>

definition do_controller_status :: "rl11 \<Rightarrow> rl11" where
  "do_controller_status s = set_dati 0 (CS_value s) s"

definition do_controller_status_INTR :: "rl11 \<Rightarrow> rl11 option" where
  "do_controller_status_INTR s =
     do { assert_that (interrupt_enable s); assert_that (rl11_state s = RL11_ready);
          Some ((set_dati 0 (CS_value s) s)\<lparr>rl_interrupts := rl_interrupts s + 1\<rparr>) }"

definition rl_on_drive_status_changed :: "nat \<Rightarrow> rl11 \<Rightarrow> rl11" where
  "rl_on_drive_status_changed n s = (if n \<noteq> selected_drive_unitno s then s else do_controller_status s)"

subsection \<open>The status of a drive\<close>

definition cartridge_readonly :: "rl0102 \<Rightarrow> bool" where
  "cartridge_readonly d \<longleftrightarrow> (case cartridge d of None \<Rightarrow> False | Some f \<Rightarrow> f_readonly f)"

definition status_value :: "rl0102 \<Rightarrow> u16" where
  "status_value d =
     (if d_state d \<noteq> RL_power_off then state_code (d_state d) else 0) OR flag 0x0008 (d_state d \<noteq> RL_brush_cycle) OR
     flag 0x0010 (d_state d \<in> {RL_load_heads, RL_seek, RL_lock_on}) OR flag 0x0020 (cover_open d) OR
     flag 0x0040 (head d = 1) OR flag 0x0080 (is_RL02 d) OR flag 0x0200 (volume_check d) OR
     flag 0x0400 (error_wge d) OR flag 0x2000 (cartridge_readonly d \<or> writeprotect_button d)"

definition update_status_word :: "nat \<Rightarrow> bool \<Rightarrow> bool \<Rightarrow> rl11 \<Rightarrow> rl11" where
  "update_status_word n ready err0 s =
     (let d = rl_drives s n; err = (err0 \<or> volume_check d \<or> error_wge d); w = status_value d in
      if ready \<noteq> drive_ready_line d \<or> err \<noteq> drive_error_line d \<or> w \<noteq> status_word d
      then rl_on_drive_status_changed n
        (upd_rl n (\<lambda>d. d\<lparr>drive_ready_line := ready, drive_error_line := err, status_word := w\<rparr>) s)
      else s)"

definition update_status_word_same :: "nat \<Rightarrow> rl11 \<Rightarrow> rl11" where
  "update_status_word_same n s = update_status_word n (drive_ready_line (rl_drives s n)) (drive_error_line (rl_drives s n)) s"

definition drive_not_ready :: "nat \<Rightarrow> rl11 \<Rightarrow> rl11" where
  "drive_not_ready n s = update_status_word n False (drive_error_line (rl_drives s n)) s"

definition drive_change_state :: "nat \<Rightarrow> rl_state \<Rightarrow> rl11 \<Rightarrow> rl11" where
  "drive_change_state n st s = update_status_word_same n (upd_rl n (\<lambda>d. d\<lparr>d_state := st\<rparr>) s)"

definition clear_error_register :: "nat \<Rightarrow> rl11 \<Rightarrow> rl11" where
  "clear_error_register n s =
     update_status_word n (drive_ready_line (rl_drives s n)) False (upd_rl n (\<lambda>d. d\<lparr>error_wge := False, volume_check := False\<rparr>) s)"

definition drive_on_power_changed :: "nat \<Rightarrow> bool \<Rightarrow> rl11 \<Rightarrow> rl11" where
  "drive_on_power_changed n dclo_raising s =
     (if dclo_raising
      then (let s1 = drive_change_state n RL_power_off s in update_status_word n (drive_ready_line (rl_drives s1 n)) True s1)
      else s)"

subsection \<open>Commands of the controller\<close>

definition cmd_seek :: "nat \<Rightarrow> u32 \<Rightarrow> u32 \<Rightarrow> rl11 \<Rightarrow> (bool \<times> rl11) option" where
  "cmd_seek n c h s =
     do { assert_that (c < cylinder_count (rl_geometry (rl_drives s n)));
          Some (if d_state (rl_drives s n) \<noteq> RL_lock_on then (False, s)
                else (True, drive_change_state n RL_seek (drive_not_ready n
                  (upd_rl n (\<lambda>d. d\<lparr>seek_destination_cylinder := c, seek_destination_head := h, head := 0xff\<rparr>) s)))) }"

definition header_on_track :: "u16 \<Rightarrow> rl0102 \<Rightarrow> bool" where
  "header_on_track hdr d \<longleftrightarrow>
     ucast (drop_bit 7 hdr AND 0x1ff) = cylinder d \<and> ucast (drop_bit 6 hdr AND 1) = head d \<and> hdr AND 0x3f < 40"

text \<open>CRC-16 over the words, one bit at a time.\<close>

definition crc_bit :: "u32 \<Rightarrow> bool \<Rightarrow> u32" where
  "crc_bit crc b = (if bit crc 0 \<noteq> b then drop_bit 1 ((crc AND NOT 1) OR 1) XOR 0xa001 else drop_bit 1 (crc AND NOT 1))"

definition calc_crc :: "u16 list \<Rightarrow> u16" where
  "calc_crc ws = ucast (fold (\<lambda>w crc. fold (\<lambda>i crc. crc_bit crc (bit w i)) [0..<16] crc) ws 0)"

definition segment_advance :: "rl0102 \<Rightarrow> rl0102" where
  "segment_advance d = d\<lparr>next_sector_segment_under_heads := (next_sector_segment_under_heads d + 1) mod 80\<rparr>"

definition pass_data :: "rl0102 \<Rightarrow> rl0102" where
  "pass_data d = (if odd (next_sector_segment_under_heads d) then segment_advance d else d)"

definition pass_header :: "rl0102 \<Rightarrow> rl0102" where
  "pass_header d = (if even (next_sector_segment_under_heads d) then segment_advance d else d)"

definition sector_under_heads :: "rl0102 \<Rightarrow> nat" where
  "sector_under_heads d = next_sector_segment_under_heads d div 2"

text \<open>The header that comes next, if the drive is in the state to read one.\<close>

definition cmd_read_next_sector_header :: "rl0102 \<Rightarrow> (u16 list option \<times> rl0102) option" where
  "cmd_read_next_sector_header d0 =
     (if d_state d0 \<noteq> RL_lock_on then Some (None, d0)
      else
        (let d = pass_data d0; h = (push_bit 7 (ucast (cylinder d)) OR push_bit 6 (ucast (head d))) OR of_nat (sector_under_heads d) in
         do { assert_that (cylinder d < 512); assert_that (head d < 2); assert_that (sector_under_heads d < 40);
              Some (Some [h, 0, calc_crc [h, 0]], segment_advance d) }))"

definition sector_offset :: "rl0102 \<Rightarrow> nat" where
  "sector_offset d = unat (2 * cylinder d + head d) * (40 * 256) + sector_under_heads d * 256"

text \<open>The data of the sector, 128 words; nothing is read without a cartridge.\<close>

definition cmd_read_next_sector_data :: "rl0102 \<Rightarrow> (u16 list option \<times> rl0102) option" where
  "cmd_read_next_sector_data d0 =
     (if d_state d0 \<noteq> RL_lock_on then Some (None, d0)
      else
        (let d = pass_header d0 in
         case cartridge d of
           None \<Rightarrow> Some (None, segment_advance d)
         | Some f \<Rightarrow>
             do { (b, f) \<leftarrow> binfile_read (sector_offset d) 256 f;
                  Some (Some (bytes_to_words b), segment_advance (d\<lparr>cartridge := Some f\<rparr>)) }))"

definition cmd_write_next_sector_data :: "nat \<Rightarrow> u16 list \<Rightarrow> rl11 \<Rightarrow> rl11 option" where
  "cmd_write_next_sector_data n buf s =
     (let d0 = rl_drives s n in
      if d_state d0 \<noteq> RL_lock_on then Some s
      else if cartridge_readonly d0 \<or> writeprotect_button d0 \<or> \<not> drive_ready_line d0
      then Some (update_status_word_same n (upd_rl n (\<lambda>d. d\<lparr>error_wge := True\<rparr>) s))
      else
        (let d = pass_header (d0\<lparr>error_wge := False\<rparr>) in
         do { d' \<leftarrow> (case cartridge d of
                      None \<Rightarrow> Some d
                    | Some f \<Rightarrow> map_option (\<lambda>f. d\<lparr>cartridge := Some f\<rparr>) (binfile_write (words_to_bytes buf) (sector_offset d) f));
              Some (upd_rl n (\<lambda>_. segment_advance d') s) }))"

subsection \<open>The worker of a drive\<close>

definition full_rpm :: u32 where "full_rpm = 2400"
definition rpm_increment :: "rl0102 \<Rightarrow> u32" where "rpm_increment d = (full_rpm div (25 * 10)) * emulation_speed d"

definition state_power_off :: "nat \<Rightarrow> rl11 \<Rightarrow> rl11" where
  "state_power_off n s =
     (let s1 = upd_rl n (\<lambda>d. d\<lparr>fault_lamp := False\<rparr>) (update_status_word n False True (upd_rl n (\<lambda>d. d\<lparr>volume_check := True\<rparr>) s)) in
      if power_switch (rl_drives s1 n) then drive_change_state n RL_load_cartridge s1 else s1)"

definition cartridge_open :: "rl0102 \<Rightarrow> bool \<times> rl0102" where
  "cartridge_open d =
     (case cartridge d of
        None \<Rightarrow> (False, d)
      | Some f \<Rightarrow> if can_open d then (True, d\<lparr>cartridge := Some (opened_binfile (content f) (opens_readonly d))\<rparr>)
                 else (False, d\<lparr>cartridge := Some (binfile_close f)\<rparr>))"

definition state_load_cartridge :: "nat \<Rightarrow> rl11 \<Rightarrow> rl11" where
  "state_load_cartridge n s0 =
     (let s = drive_not_ready n s0; d = rl_drives s n in
      if runstop_button d \<and> \<not> cover_open d
      then (let (ok, d1) = cartridge_open d in
            if ok then drive_change_state n RL_spin_up (upd_rl n (\<lambda>_. d1\<lparr>fault_lamp := False\<rparr>) s)
            else upd_rl n (\<lambda>_. d1\<lparr>fault_lamp := True\<rparr>) s)
      else upd_rl n (\<lambda>d. d\<lparr>fault_lamp := False, cartridge := map_option binfile_close (cartridge d)\<rparr>) s)"

definition state_spin_up :: "nat \<Rightarrow> rl11 \<Rightarrow> rl11" where
  "state_spin_up n s0 =
     (let s = drive_not_ready n (upd_rl n (\<lambda>d. d\<lparr>volume_check := True\<rparr>) s0); d = rl_drives s n in
      if \<not> runstop_button d \<or> fault_lamp d then drive_change_state n RL_spin_down s
      else
        (let v = rotation_umin d + rpm_increment d in
         if full_rpm < v then drive_change_state n RL_brush_cycle (upd_rl n (\<lambda>d. d\<lparr>rotation_umin := full_rpm, cylinder := 0\<rparr>) s)
         else upd_rl n (\<lambda>d. d\<lparr>rotation_umin := v\<rparr>) s))"

definition state_brush_cycle :: "nat \<Rightarrow> rl11 \<Rightarrow> rl11" where
  "state_brush_cycle n s = drive_change_state n RL_load_heads (drive_not_ready n s)"

definition state_load_heads :: "nat \<Rightarrow> rl11 \<Rightarrow> rl11" where
  "state_load_heads n s =
     upd_rl n (\<lambda>d. d\<lparr>next_sector_segment_under_heads := 12\<rparr>)
       (drive_change_state n RL_seek
         (upd_rl n (\<lambda>d. d\<lparr>cylinder := 0, seek_destination_cylinder := 0, seek_destination_head := 0, head := 0xff\<rparr>)
           (drive_not_ready n s)))"

definition trackmove_increment :: "rl0102 \<Rightarrow> u32" where
  "trackmove_increment d = (if is_RL02 d then 51 else 25)"

definition drive_state_seek :: "nat \<Rightarrow> rl11 \<Rightarrow> rl11" where
  "drive_state_seek n s0 =
     (let s = drive_not_ready n s0; d = rl_drives s n; inc = trackmove_increment d; dest = seek_destination_cylinder d in
      if \<not> runstop_button d \<or> fault_lamp d then drive_change_state n RL_spin_down s
      else if seek_destination_head d \<noteq> head d then upd_rl n (\<lambda>d. d\<lparr>head := seek_destination_head d\<rparr>) s
      else if cylinder d < dest
      then (if dest \<le> cylinder d + inc then drive_change_state n RL_lock_on (upd_rl n (\<lambda>d. d\<lparr>cylinder := dest\<rparr>) s)
            else upd_rl n (\<lambda>d. d\<lparr>cylinder := cylinder d + inc\<rparr>) s)
      else if cylinder d - dest \<le> inc then drive_change_state n RL_lock_on (upd_rl n (\<lambda>d. d\<lparr>cylinder := dest\<rparr>) s)
      else upd_rl n (\<lambda>d. d\<lparr>cylinder := cylinder d - inc\<rparr>) s)"

definition state_lock_on :: "nat \<Rightarrow> rl11 \<Rightarrow> rl11" where
  "state_lock_on n s =
     (let d = rl_drives s n in
      if \<not> runstop_button d \<or> fault_lamp d then drive_change_state n RL_unload_heads s
      else update_status_word n True (drive_error_line d) s)"

definition state_unload_heads :: "nat \<Rightarrow> rl11 \<Rightarrow> rl11" where
  "state_unload_heads n s = drive_change_state n RL_spin_down (upd_rl n (\<lambda>d. d\<lparr>drive_ready_line := False\<rparr>) s)"

definition state_spin_down :: "nat \<Rightarrow> rl11 \<Rightarrow> rl11" where
  "state_spin_down n s0 =
     (let s = drive_not_ready n s0; d = rl_drives s n in
      if rotation_umin d \<le> rpm_increment d
      then drive_change_state n RL_load_cartridge (upd_rl n (\<lambda>d. d\<lparr>rotation_umin := 0\<rparr>) s)
      else upd_rl n (\<lambda>d. d\<lparr>rotation_umin := rotation_umin d - rpm_increment d\<rparr>) s)"

text \<open>One round of the worker. The drive is enabled, and so is its controller.\<close>

definition drive_worker_round :: "nat \<Rightarrow> rl11 \<Rightarrow> rl11" where
  "drive_worker_round n s0 =
     (let s1 = update_status_word_same n s0;
          s = (if power_switch (rl_drives s1 n) then s1 else drive_change_state n RL_power_off s1) in
      case d_state (rl_drives s n) of
        RL_power_off \<Rightarrow> state_power_off n s
      | RL_load_cartridge \<Rightarrow> state_load_cartridge n s
      | RL_spin_up \<Rightarrow> state_spin_up n s
      | RL_brush_cycle \<Rightarrow> state_brush_cycle n s
      | RL_load_heads \<Rightarrow> state_load_heads n s
      | RL_seek \<Rightarrow> drive_state_seek n s
      | RL_lock_on \<Rightarrow> state_lock_on n s
      | RL_unload_heads \<Rightarrow> state_unload_heads n s
      | RL_spin_down \<Rightarrow> state_spin_down n s)"

end
