(* ===== verification/RL11.thy ===== *)
theory RL11
  imports RL0102
begin

text \<open>
  The RL11 controller (\<^verbatim>\<open>rl11.cpp\<close>): register accesses, the functions a write of CS starts, and the worker
  that executes the longer ones. CS is register 0, BA 1, DA 2, MP 3 and, on the RLV12, BAE 4. BA and DA are
  passive registers with one value for reads and writes, \<open>dati\<close>. A signal to the worker is remembered
  until it wakes up; one round of its loops is one step. Connections to the panel and delays are left out.
\<close>

definition clear_errors :: "rl11 \<Rightarrow> rl11" where
  "clear_errors s = s\<lparr>error_dma_timeout := False, error_operation_incomplete := False, error_writecheck := False,
     error_header_not_found := False\<rparr>"

definition get_qunibus_address :: "rl11 \<Rightarrow> u32" where
  "get_qunibus_address s = push_bit 16 (qunibus_address_msb s) OR ucast (dati s 1)"

definition update_qunibus_address :: "u32 \<Rightarrow> rl11 \<Rightarrow> rl11" where
  "update_qunibus_address a s0 =
     (let s = set_dati 1 (ucast a AND 0xfffe) (s0\<lparr>qunibus_address_msb := drop_bit 16 a\<rparr>) in
      if has_BAE s then set_dati 4 (ucast (qunibus_address_msb s) AND 0x3f) s else s)"

text \<open>The word count is the negative of the value last written to MP, not of the value read.\<close>

definition get_MP_wordcount :: "rl11 \<Rightarrow> u16" where "get_MP_wordcount s = - dato s 3"

definition set_MP_wordcount :: "u16 \<Rightarrow> rl11 \<Rightarrow> rl11" where
  "set_MP_wordcount n s = s\<lparr>dato := (dato s)(3 := - n)\<rparr>"

definition set_MP_dati_value :: "u16 \<Rightarrow> rl11 \<Rightarrow> rl11" where
  "set_MP_dati_value w s = set_dati 3 w (s\<lparr>mpr_silo := [w, w, w], mpr_silo_idx := 0\<rparr>)"

definition set_MP_dati_silo :: "rl11 \<Rightarrow> rl11" where
  "set_MP_dati_silo s = set_dati 3 (mpr_silo s ! 0) (s\<lparr>mpr_silo_idx := 0\<rparr>)"

definition change_state :: "rl_controller_state \<Rightarrow> rl11 \<Rightarrow> rl11" where
  "change_state st s = do_controller_status (s\<lparr>rl11_state := st\<rparr>)"

definition change_state_INTR :: "rl_controller_state \<Rightarrow> rl11 \<Rightarrow> rl11 option" where
  "change_state_INTR st s = do_controller_status_INTR (s\<lparr>rl11_state := st\<rparr>)"

definition do_command_done :: "rl11 \<Rightarrow> rl11 option" where
  "do_command_done s =
     (if interrupt_enable s \<and> rl11_state s \<noteq> RL11_ready then change_state_INTR RL11_ready s
      else Some (change_state RL11_ready s))"

definition do_operation_incomplete :: "rl11 \<Rightarrow> rl11 option" where
  "do_operation_incomplete s = do_command_done (s\<lparr>error_operation_incomplete := True\<rparr>)"

definition rl_reset :: "rl11 \<Rightarrow> rl11" where
  "rl_reset s =
     (let s1 = set_dati 2 0 (set_dati 1 0 (set_dati 0 0x80 s));
          s2 = (if has_BAE s1 then set_dati 4 0 s1 else s1)
      in do_controller_status (change_state RL11_ready (clear_errors
           (s2\<lparr>selected_drive_unitno := 0, function_code := 0, interrupt_enable := False, qunibus_address_msb := 0\<rparr>))))"

subsection \<open>Seek\<close>

definition destination_cylinder :: "u16 \<Rightarrow> rl0102 \<Rightarrow> u32" where
  "destination_cylinder da d =
     (let diff = ucast (drop_bit 7 da); n = cylinder_count (rl_geometry d) in
      if bit da 2 then (if n \<le> cylinder d + diff then (n - 1) AND 0xfffe else cylinder d + diff)
      else if cylinder d < diff then 0 else cylinder d - diff)"

definition state_seek :: "rl11 \<Rightarrow> rl11 option" where
  "state_seek s =
     (let da = dati s 2 in
      if \<not> drive_ready_line (rl_drive s) then do_operation_incomplete s
      else if da AND 9 \<noteq> 1 then do_command_done s
      else do { (_, t) \<leftarrow> cmd_seek (selected_drive_unitno s) (destination_cylinder da (rl_drive s)) (ucast (drop_bit 4 da AND 1)) s;
                do_command_done t })"

subsection \<open>Transfers\<close>

text \<open>The address at which a DMA ends: that of the last word, or of the first one that does not answer.\<close>

fun dma_end :: "bus_memory \<Rightarrow> u32 \<Rightarrow> nat \<Rightarrow> u32" where
  "dma_end m a 0 = a - 2"
| "dma_end m a (Suc n) = (if m a = None then a else dma_end m (a + 2) n)"

definition rl_dma :: "dma_direction \<Rightarrow> u16 list \<Rightarrow> nat \<Rightarrow> rl11 \<Rightarrow> (u16 list \<times> rl11) option" where
  "rl_dma dir buf n s =
     (let a = get_qunibus_address s in
      do { (ok, b, m) \<leftarrow> dma_spec (rl_limit s) dir a buf n (rl_memory s);
           Some (b, update_qunibus_address (dma_end (rl_memory s) a n + 2) (s\<lparr>rl_memory := m, error_dma_timeout := \<not> ok\<rparr>)) })"

definition empty_silo :: "u16 list" where "empty_silo = replicate 128 0"

definition read_into_silo :: "rl11 \<Rightarrow> (u16 list \<times> rl11) option" where
  "read_into_silo s =
     do { (b, d) \<leftarrow> cmd_read_next_sector_data (rl_drive s);
          Some (case b of None \<Rightarrow> empty_silo | Some b \<Rightarrow> b, upd_rl (selected_drive_unitno s) (\<lambda>_. d) s) }"

definition is_read :: "u16 \<Rightarrow> bool" where "is_read f \<longleftrightarrow> f = 6 \<or> f = 7"

text \<open>One sector, up to the end of the DMA. The results are the two buffers.\<close>

definition transfer_sector :: "nat \<Rightarrow> rl11 \<Rightarrow> (u16 list \<times> u16 list \<times> rl11) option" where
  "transfer_sector n s =
     (if is_read (function_code s)
      then do { (silo, s1) \<leftarrow> read_into_silo s; (_, s2) \<leftarrow> rl_dma To_memory silo n s1; Some (silo, empty_silo, s2) }
      else if function_code s = 1
      then do { (silo, s1) \<leftarrow> read_into_silo s; (cmp, s2) \<leftarrow> rl_dma To_device empty_silo n s1; Some (silo, cmp, s2) }
      else do { (silo, s1) \<leftarrow> rl_dma To_device empty_silo n s; Some (silo, empty_silo, s1) })"

definition finish_sector :: "u16 list \<Rightarrow> u16 list \<Rightarrow> rl11 \<Rightarrow> rl11 option" where
  "finish_sector silo silo_compare s =
     (if function_code s = 5 then cmd_write_next_sector_data (selected_drive_unitno s) silo s
      else if function_code s = 1 then Some (s\<lparr>error_writecheck := silo \<noteq> silo_compare\<rparr>)
      else Some s)"

definition next_sector :: "u16 \<Rightarrow> u16 \<Rightarrow> rl11 \<Rightarrow> rl11 option" where
  "next_sector disk_address count s =
     (let rest = (if 128 \<le> count then count - 128 else 0);
          s1 = set_MP_wordcount rest (set_dati 2 (disk_address + 1) s)
      in if rest = 0 then do_command_done s1 else Some (change_state RL11_rw_disk s1))"

definition rw_sector :: "rl11 \<Rightarrow> rl11 option" where
  "rw_sector s =
     (let disk_address = dati s 2; count = get_MP_wordcount s; n = min (unat count) 128 in
      do { (silo, cmp, s1) \<leftarrow> transfer_sector n s;
           if error_dma_timeout s1 then do_operation_incomplete s1
           else do { s2 \<leftarrow> finish_sector silo cmp s1; next_sector disk_address count s2 } })"

text \<open>The header under the heads, if the drive is on track, is left in the silo of MP.\<close>

definition rw_disk :: "rl11 \<Rightarrow> rl11 option" where
  "rw_disk s =
     (if function_code s = 7 then rw_sector s
      else if \<not> header_on_track (dati s 2) (rl_drive s)
      then do_operation_incomplete (s\<lparr>error_header_not_found := True\<rparr>)
      else do { (h, d) \<leftarrow> cmd_read_next_sector_header (rl_drive s);
                let s1 = upd_rl (selected_drive_unitno s) (\<lambda>_. d) s;
                let s2 = (case h of None \<Rightarrow> s1 | Some h \<Rightarrow> s1\<lparr>mpr_silo := h\<rparr>);
                if mpr_silo s2 ! 0 \<noteq> dati s2 2 then Some s2 else rw_sector s2 })"

definition state_readwrite :: "rl11 \<Rightarrow> rl11 option" where
  "state_readwrite s =
     do { assert_that (function_code s \<in> {1, 5, 6, 7});
          if \<not> drive_ready_line (rl_drive s) then do_operation_incomplete s
          else if rl11_state s = RL11_rw_init
          then (let s1 = clear_errors s in
                if get_MP_wordcount s1 = 0 then do_command_done s1 else Some (change_state RL11_rw_disk s1))
          else if rl11_state s = RL11_rw_disk
          then do { assert_that (get_MP_wordcount s \<noteq> 0); rw_disk s }
          else Some s }"

subsection \<open>Register accesses\<close>

definition run_delayed :: "rl11 \<Rightarrow> rl11" where
  "run_delayed s = (do_controller_status s)\<lparr>rl_signalled := True\<rparr>"

definition get_status :: "rl11 \<Rightarrow> rl11 option" where
  "get_status s =
     (let da = dati s 2 in
      if \<not> bit da 1 then do { s1 \<leftarrow> do_operation_incomplete s; do_command_done s1 }
      else (let s1 = (if bit da 3 then clear_error_register (selected_drive_unitno s) s else s)
            in do_command_done (set_MP_dati_value (status_word (rl_drive s1)) s1)))"

definition drive_seeks :: "rl0102 \<Rightarrow> bool" where "drive_seeks d \<longleftrightarrow> status_word d AND 7 = 4"

definition start_function :: "rl11 \<Rightarrow> rl11 option" where
  "start_function s0 =
     (let s = change_state RL11_busy (clear_errors s0) in
      if function_code s = 0 then do_command_done s
      else if function_code s = 3 then (if drive_seeks (rl_drive s) then Some (run_delayed s) else state_seek s)
      else if function_code s = 2 then get_status s
      else Some (run_delayed s))"

definition write_CS :: "rl11 \<Rightarrow> rl11 option" where
  "write_CS s0 =
     (if rl11_state s0 \<noteq> RL11_ready then Some s0
      else
        (let v = dato s0 0;
             s1 = s0\<lparr>selected_drive_unitno := unat (drop_bit 8 v AND 3), function_code := drop_bit 1 v AND 7,
                     qunibus_address_msb := (qunibus_address_msb s0 AND NOT 3) OR ucast (drop_bit 4 v AND 3)\<rparr>;
             s2 = (if has_BAE s1 then set_dati 4 (ucast (qunibus_address_msb s1) AND 0x3f) s1 else s1);
             s3 = s2\<lparr>interrupt_enable := bit v 6\<rparr>
         in if bit v 7 then Some (do_controller_status s3) else start_function s3))"

definition read_MP :: "rl11 \<Rightarrow> rl11" where
  "read_MP s =
     (if mpr_silo_idx s < 2
      then set_dati 3 (mpr_silo s ! (mpr_silo_idx s + 1)) (s\<lparr>mpr_silo_idx := mpr_silo_idx s + 1\<rparr>)
      else set_dati 3 (mpr_silo s ! 2) s)"

definition write_BAE :: "rl11 \<Rightarrow> rl11 option" where
  "write_BAE s =
     do { assert_that (has_BAE s);
          let s1 = s\<lparr>qunibus_address_msb := ucast (dato s 4 AND 0x3f)\<rparr>;
          Some (do_controller_status (set_dati 4 (ucast (qunibus_address_msb s1)) s1)) }"

definition rl_on_after_register_access :: "nat \<Rightarrow> bool \<Rightarrow> rl11 \<Rightarrow> rl11 option" where
  "rl_on_after_register_access i is_write s =
     (if i = 0 \<and> is_write then write_CS s
      else if i = 3 \<and> \<not> is_write then Some (read_MP s)
      else if i = 4 \<and> is_write then write_BAE s
      else Some s)"

definition rl_on_power_changed :: "bool \<Rightarrow> rl11 \<Rightarrow> rl11" where
  "rl_on_power_changed dclo_raising s =
     (let s1 = fold (\<lambda>n. drive_on_power_changed n dclo_raising) [0..<4] s in if dclo_raising then rl_reset s1 else s1)"

definition rl_on_init_changed :: "bool \<Rightarrow> rl11 \<Rightarrow> rl11" where
  "rl_on_init_changed asserted s =
     (let s1 = s\<lparr>rl_init_asserted := asserted\<rparr> in if asserted then s1 else rl_reset s1)"

subsection \<open>The worker\<close>

definition worker_dispatch :: "nat \<Rightarrow> rl11 \<Rightarrow> rl11 option" where
  "worker_dispatch n s0 =
     (let s = s0\<lparr>rl_worker_at := RL_executing\<rparr>; f = function_code s in
      if f \<in> {1, 5, 6, 7} then Some (change_state RL11_rw_init s)
      else if f = 3 then Some (change_state RL11_seek_init s)
      else if f = 4
      then do { (h, d) \<leftarrow> cmd_read_next_sector_header (rl_drives s n);
                let s1 = upd_rl n (\<lambda>_. d) s;
                let s2 = (case h of None \<Rightarrow> s1 | Some h \<Rightarrow> s1\<lparr>mpr_silo := h\<rparr>);
                do_command_done (set_MP_dati_silo s2) }
      else Some s)"

definition worker_wakes :: "rl11 \<Rightarrow> rl11 option" where
  "worker_wakes s0 =
     (let s = s0\<lparr>rl_signalled := False\<rparr>; n = selected_drive_unitno s in
      if rl_init_asserted s then Some s
      else (let s1 = clear_errors s in
            if d_state (rl_drives s1 n) = RL_power_off then do_operation_incomplete s1
            else Some (s1\<lparr>rl_worker_at := RL_seek_wait n False\<rparr>)))"

definition worker_executes :: "rl11 \<Rightarrow> rl11 option" where
  "worker_executes s =
     (case rl11_state s of
        RL11_ready \<Rightarrow> Some (s\<lparr>rl_worker_at := RL_waiting\<rparr>)
      | RL11_busy \<Rightarrow> Some s
      | RL11_seek_init \<Rightarrow> state_seek s
      | RL11_rw_init \<Rightarrow> state_readwrite s
      | RL11_rw_disk \<Rightarrow> state_readwrite s)"

text \<open>It waits for the end of a seek, and then for the drive's ready bit in CS.\<close>

definition rl_worker_step :: "rl11 \<Rightarrow> rl11 option" where
  "rl_worker_step s =
     (case rl_worker_at s of
        RL_waiting \<Rightarrow> if rl_signalled s then worker_wakes s else Some s
      | RL_seek_wait n waited \<Rightarrow>
          if drive_seeks (rl_drives s n) then Some (s\<lparr>rl_worker_at := RL_seek_wait n True\<rparr>)
          else if waited \<and> \<not> bit (dati s 0) 0 then Some s
          else worker_dispatch n s
      | RL_executing \<Rightarrow> worker_executes s)"

subsection \<open>Runs\<close>

datatype rl_event = RL_write nat u16 | RL_read nat | RL_power bool | RL_init bool | RL_worker | RL_drive nat |
  RL_buttons nat bool bool bool bool | RL_cartridge nat "u8 list option" bool bool | RL_memory bus_memory

text \<open>The cover can be opened, and the cartridge changed, only when the drive is not running.\<close>

definition closed_file :: "u8 list \<Rightarrow> binfile" where "closed_file c = binfile_close (opened_binfile c False)"

text \<open>A write of the host arrives in the flipflops of an active register, and in the value of a passive one.\<close>

fun rl_step :: "rl_event \<Rightarrow> rl11 \<Rightarrow> rl11 option" where
  "rl_step (RL_write i v) s =
     rl_on_after_register_access i True
       (if i = 1 then set_dati 1 (v AND 0xfffe) s else if i = 2 then set_dati 2 v s else s\<lparr>dato := (dato s)(i := v)\<rparr>)"
| "rl_step (RL_read i) s = rl_on_after_register_access i False s"
| "rl_step (RL_power dclo_raising) s = Some (rl_on_power_changed dclo_raising s)"
| "rl_step (RL_init asserted) s = Some (rl_on_init_changed asserted s)"
| "rl_step RL_worker s = rl_worker_step s"
| "rl_step (RL_drive n) s = (if n < 4 then Some (drive_worker_round n s) else Some s)"
| "rl_step (RL_buttons n pwr run wp cover) s =
     Some (upd_rl n (\<lambda>d. d\<lparr>power_switch := pwr, runstop_button := run, writeprotect_button := wp,
       cover_open := (if d_state d = RL_load_cartridge then cover else cover_open d)\<rparr>) s)"
| "rl_step (RL_cartridge n c ok ro) s =
     Some (if d_state (rl_drives s n) \<in> {RL_power_off, RL_load_cartridge}
           then upd_rl n (\<lambda>d. d\<lparr>cartridge := map_option closed_file c, can_open := ok, opens_readonly := ro\<rparr>) s else s)"
| "rl_step (RL_memory m) s = Some (s\<lparr>rl_memory := m\<rparr>)"

end
