(* ===== verification/RL0102_Correct.thy ===== *)
theory RL0102_Correct
  imports RL11
begin

text \<open>
  The RL drives: their states stay in order, and every seek ends.
\<close>

subsection \<open>Drives in order\<close>

definition rl_running :: "rl0102 \<Rightarrow> bool" where
  "rl_running d \<longleftrightarrow> d_state d \<noteq> RL_load_cartridge \<and> d_state d \<noteq> RL_power_off"

definition drive_ok :: "rl0102 \<Rightarrow> bool" where
  "drive_ok d \<longleftrightarrow> cylinder d < cylinder_count (rl_geometry d) \<and>
     seek_destination_cylinder d < cylinder_count (rl_geometry d) \<and> seek_destination_head d < 2 \<and>
     (d_state d = RL_lock_on \<longrightarrow> head d < 2) \<and> next_sector_segment_under_heads d < 80 \<and>
     (rl_running d \<longrightarrow> (\<exists>f. cartridge d = Some f \<and> f_open f))"

definition rl_ok :: "rl11 \<Rightarrow> bool" where
  "rl_ok s \<longleftrightarrow> (\<forall>n<4. drive_ok (rl_drives s n)) \<and> selected_drive_unitno s < 4 \<and>
     (rl11_state s \<in> {RL11_rw_init, RL11_rw_disk} \<longrightarrow> function_code s \<in> {1, 5, 6, 7}) \<and>
     (case rl_worker_at s of RL_seek_wait n b \<Rightarrow> n < 4 | _ \<Rightarrow> True)"

text \<open>Notifying the controller changes CS only; what a drive reports does not change where its heads are.\<close>

lemma upd_rl_sel [simp]:
  "rl_drives (upd_rl n f s) = (rl_drives s)(n := f (rl_drives s n))" "selected_drive_unitno (upd_rl n f s) = selected_drive_unitno s"
  "rl11_state (upd_rl n f s) = rl11_state s" "function_code (upd_rl n f s) = function_code s"
  "rl_worker_at (upd_rl n f s) = rl_worker_at s" "dato (upd_rl n f s) = dato s" "dati (upd_rl n f s) = dati s"
  "rl_memory (upd_rl n f s) = rl_memory s" "rl_limit (upd_rl n f s) = rl_limit s" "interrupt_enable (upd_rl n f s) = interrupt_enable s"
  "qunibus_address_msb (upd_rl n f s) = qunibus_address_msb s" "has_BAE (upd_rl n f s) = has_BAE s"
  "rl_interrupts (upd_rl n f s) = rl_interrupts s" "error_dma_timeout (upd_rl n f s) = error_dma_timeout s"
  "any_controller_error (upd_rl n f s) = any_controller_error s" "rl_signalled (upd_rl n f s) = rl_signalled s"
  "rl_init_asserted (upd_rl n f s) = rl_init_asserted s" "mpr_silo (upd_rl n f s) = mpr_silo s"
  "error_operation_incomplete (upd_rl n f s) = error_operation_incomplete s" "error_writecheck (upd_rl n f s) = error_writecheck s"
  "error_header_not_found (upd_rl n f s) = error_header_not_found s"
  by (simp_all add: upd_rl_def any_controller_error_def)

lemma set_dati_rl [simp]:
  "rl_drives (set_dati i v s) = rl_drives s" "selected_drive_unitno (set_dati i v s) = selected_drive_unitno s"
  "rl11_state (set_dati i v s) = rl11_state s" "function_code (set_dati i v s) = function_code s"
  "rl_worker_at (set_dati i v s) = rl_worker_at s" "rl_memory (set_dati i v s) = rl_memory s"
  "rl_limit (set_dati i v s) = rl_limit s" "interrupt_enable (set_dati i v s) = interrupt_enable s"
  "qunibus_address_msb (set_dati i v s) = qunibus_address_msb s" "has_BAE (set_dati i v s) = has_BAE s"
  "rl_interrupts (set_dati i v s) = rl_interrupts s" "error_dma_timeout (set_dati i v s) = error_dma_timeout s"
  "any_controller_error (set_dati i v s) = any_controller_error s" "rl_signalled (set_dati i v s) = rl_signalled s"
  "rl_init_asserted (set_dati i v s) = rl_init_asserted s" "mpr_silo (set_dati i v s) = mpr_silo s"
  "error_operation_incomplete (set_dati i v s) = error_operation_incomplete s" "error_writecheck (set_dati i v s) = error_writecheck s"
  "error_header_not_found (set_dati i v s) = error_header_not_found s"
  by (simp_all add: set_dati_def any_controller_error_def)

definition reported :: "nat \<Rightarrow> bool \<Rightarrow> bool \<Rightarrow> rl11 \<Rightarrow> rl0102" where
  "reported n ready err s = (rl_drives s n)\<lparr>drive_ready_line := ready,
     drive_error_line := err \<or> volume_check (rl_drives s n) \<or> error_wge (rl_drives s n),
     status_word := status_value (rl_drives s n)\<rparr>"

lemma update_status_word_drives: "rl_drives (update_status_word n ready err s) = (rl_drives s)(n := reported n ready err s)"
  by (cases "rl_drives s n")
    (auto simp: update_status_word_def Let_def rl_on_drive_status_changed_def do_controller_status_def reported_def fun_eq_iff)

lemma update_status_word_sel [simp]:
  "selected_drive_unitno (update_status_word n r e s) = selected_drive_unitno s"
  "rl11_state (update_status_word n r e s) = rl11_state s" "function_code (update_status_word n r e s) = function_code s"
  "rl_worker_at (update_status_word n r e s) = rl_worker_at s" "dato (update_status_word n r e s) = dato s"
  "rl_memory (update_status_word n r e s) = rl_memory s" "rl_limit (update_status_word n r e s) = rl_limit s"
  "interrupt_enable (update_status_word n r e s) = interrupt_enable s" "rl_signalled (update_status_word n r e s) = rl_signalled s"
  "qunibus_address_msb (update_status_word n r e s) = qunibus_address_msb s" "has_BAE (update_status_word n r e s) = has_BAE s"
  "rl_interrupts (update_status_word n r e s) = rl_interrupts s" "any_controller_error (update_status_word n r e s) = any_controller_error s"
  "error_dma_timeout (update_status_word n r e s) = error_dma_timeout s"
  by (simp_all add: update_status_word_def Let_def rl_on_drive_status_changed_def do_controller_status_def)

lemma drive_ok_reported [simp]: "drive_ok (reported n r e s) = drive_ok (rl_drives s n)"
  by (simp add: drive_ok_def reported_def rl_geometry_def rl_running_def)

lemma reported_sel [simp]:
  "d_state (reported n r e s) = d_state (rl_drives s n)" "cylinder (reported n r e s) = cylinder (rl_drives s n)"
  "head (reported n r e s) = head (rl_drives s n)" "seek_destination_head (reported n r e s) = seek_destination_head (rl_drives s n)"
  "seek_destination_cylinder (reported n r e s) = seek_destination_cylinder (rl_drives s n)" "is_RL02 (reported n r e s) = is_RL02 (rl_drives s n)"
  "runstop_button (reported n r e s) = runstop_button (rl_drives s n)" "fault_lamp (reported n r e s) = fault_lamp (rl_drives s n)"
  "power_switch (reported n r e s) = power_switch (rl_drives s n)" "cover_open (reported n r e s) = cover_open (rl_drives s n)"
  "rotation_umin (reported n r e s) = rotation_umin (rl_drives s n)" "cartridge (reported n r e s) = cartridge (rl_drives s n)"
  "can_open (reported n r e s) = can_open (rl_drives s n)" "opens_readonly (reported n r e s) = opens_readonly (rl_drives s n)"
  "next_sector_segment_under_heads (reported n r e s) = next_sector_segment_under_heads (rl_drives s n)"
  "drive_ready_line (reported n r e s) = r" "status_word (reported n r e s) = status_value (rl_drives s n)"
  by (simp_all add: reported_def)

lemmas drive_moves = drive_change_state_def update_status_word_same_def drive_not_ready_def clear_error_register_def
  update_status_word_drives

lemma state_power_off_ok: "drive_ok (rl_drives s n) \<Longrightarrow> drive_ok (rl_drives (state_power_off n s) n)"
  by (simp add: state_power_off_def Let_def drive_moves) (simp add: drive_ok_def rl_geometry_def rl_running_def)

lemma cartridge_open_ok:
  "cartridge_open d = (ok, e) \<Longrightarrow> d_state d = RL_load_cartridge \<Longrightarrow> drive_ok d \<Longrightarrow>
    drive_ok (e\<lparr>fault_lamp := b\<rparr>) \<and> (ok \<longrightarrow> drive_ok (e\<lparr>fault_lamp := b, d_state := st\<rparr>) \<or> st = RL_lock_on)"
  by (auto simp: cartridge_open_def drive_ok_def rl_geometry_def rl_running_def opened_binfile_def split: option.splits if_splits)

lemma state_load_cartridge_ok:
  assumes "drive_ok (rl_drives s n)" "d_state (rl_drives s n) = RL_load_cartridge"
  shows "drive_ok (rl_drives (state_load_cartridge n s) n)"
proof -
  let ?d = "reported n False (drive_error_line (rl_drives s n)) s"
  obtain ok e where e: "cartridge_open ?d = (ok, e)" by fastforce
  have d: "drive_ok ?d" "d_state ?d = RL_load_cartridge" using assms by simp_all
  show ?thesis using cartridge_open_ok [OF e d(2,1)] d
    by (simp add: state_load_cartridge_def Let_def drive_moves e)
      (auto simp: drive_ok_def rl_geometry_def rl_running_def)
qed

lemma state_spin_up_ok: "drive_ok (rl_drives s n) \<Longrightarrow> d_state (rl_drives s n) = RL_spin_up \<Longrightarrow> drive_ok (rl_drives (state_spin_up n s) n)"
  by (simp add: state_spin_up_def Let_def drive_moves) (auto simp: drive_ok_def rl_geometry_def rl_running_def)

lemma state_brush_cycle_ok: "drive_ok (rl_drives s n) \<Longrightarrow> d_state (rl_drives s n) = RL_brush_cycle \<Longrightarrow> drive_ok (rl_drives (state_brush_cycle n s) n)"
  by (simp add: state_brush_cycle_def Let_def drive_moves) (auto simp: drive_ok_def rl_geometry_def rl_running_def)

lemma state_load_heads_ok: "drive_ok (rl_drives s n) \<Longrightarrow> d_state (rl_drives s n) = RL_load_heads \<Longrightarrow> drive_ok (rl_drives (state_load_heads n s) n)"
  by (simp add: state_load_heads_def Let_def drive_moves)
    (auto simp: drive_ok_def rl_geometry_def rl_running_def update_status_word_drives)

lemma state_lock_on_ok: "drive_ok (rl_drives s n) \<Longrightarrow> d_state (rl_drives s n) = RL_lock_on \<Longrightarrow> drive_ok (rl_drives (state_lock_on n s) n)"
  by (simp add: state_lock_on_def Let_def drive_moves) (auto simp: drive_ok_def rl_geometry_def rl_running_def)

lemma state_unload_heads_ok: "drive_ok (rl_drives s n) \<Longrightarrow> d_state (rl_drives s n) = RL_unload_heads \<Longrightarrow> drive_ok (rl_drives (state_unload_heads n s) n)"
  by (simp add: state_unload_heads_def Let_def drive_moves) (auto simp: drive_ok_def rl_geometry_def rl_running_def)

lemma state_spin_down_ok: "drive_ok (rl_drives s n) \<Longrightarrow> d_state (rl_drives s n) = RL_spin_down \<Longrightarrow> drive_ok (rl_drives (state_spin_down n s) n)"
  by (simp add: state_spin_down_def Let_def drive_moves) (auto simp: drive_ok_def rl_geometry_def rl_running_def)

text \<open>A step of a seek, on the drive alone.\<close>

definition seek_move :: "rl0102 \<Rightarrow> rl0102" where
  "seek_move d =
     (let inc = trackmove_increment d; dest = seek_destination_cylinder d in
      if seek_destination_head d \<noteq> head d then d\<lparr>head := seek_destination_head d\<rparr>
      else if cylinder d < dest then (if dest \<le> cylinder d + inc then d\<lparr>cylinder := dest, d_state := RL_lock_on\<rparr> else d\<lparr>cylinder := cylinder d + inc\<rparr>)
      else if cylinder d - dest \<le> inc then d\<lparr>cylinder := dest, d_state := RL_lock_on\<rparr>
      else d\<lparr>cylinder := cylinder d - inc\<rparr>)"

lemma cylinder_steps:
  fixes c dest inc lim :: u32
  assumes "c < lim" "dest < lim" "lim \<le> 512" "inc \<le> 51"
  shows "c < dest \<Longrightarrow> \<not> dest \<le> c + inc \<Longrightarrow> c + inc < lim" "\<not> c < dest \<Longrightarrow> \<not> c - dest \<le> inc \<Longrightarrow> c - inc < lim"
proof -
  have n: "unat c < unat lim" "unat dest < unat lim" "unat lim \<le> 512" "unat inc \<le> 51"
    using assms by (simp_all add: word_less_nat_alt word_le_nat_alt)
  have p: "unat (c + inc) = unat c + unat inc" using n by (simp add: unat_word_ariths)
  show "c + inc < lim" if "c < dest" "\<not> dest \<le> c + inc" using that n p by (simp add: word_less_nat_alt word_le_nat_alt)
  show "c - inc < lim" if "\<not> c < dest" "\<not> c - dest \<le> inc"
  proof -
    have "unat (c - dest) = unat c - unat dest" using that(1) by (simp add: unat_sub word_less_nat_alt word_le_nat_alt)
    then have "unat inc \<le> unat c" using that(2) by (simp add: word_le_nat_alt)
    then have "unat (c - inc) = unat c - unat inc" by (simp add: unat_sub word_le_nat_alt)
    then show ?thesis using n by (simp add: word_less_nat_alt)
  qed
qed

lemma seek_move_ok:
  assumes "drive_ok d" "d_state d = RL_seek"
  shows "drive_ok (seek_move d)"
proof -
  let ?lim = "cylinder_count (rl_geometry d)"
  have "?lim \<le> 512" "trackmove_increment d \<le> 51" by (simp_all add: rl_geometry_def trackmove_increment_def)
  then show ?thesis using assms cylinder_steps [of "cylinder d" ?lim "seek_destination_cylinder d" "trackmove_increment d"]
    by (auto simp: seek_move_def Let_def drive_ok_def rl_running_def rl_geometry_def)
qed

subsection \<open>A seek ends\<close>

definition spinning :: "rl0102 \<Rightarrow> bool" where
  "spinning d \<longleftrightarrow> power_switch d \<and> runstop_button d \<and> \<not> fault_lamp d"

definition lines :: "bool \<Rightarrow> bool \<Rightarrow> u16 \<Rightarrow> rl0102 \<Rightarrow> rl0102" where
  "lines r e w d = d\<lparr>drive_ready_line := r, drive_error_line := e, status_word := w\<rparr>"

lemma lines_sel [simp]:
  "d_state (lines r e w d) = d_state d" "cylinder (lines r e w d) = cylinder d" "head (lines r e w d) = head d"
  "seek_destination_cylinder (lines r e w d) = seek_destination_cylinder d" "seek_destination_head (lines r e w d) = seek_destination_head d"
  "is_RL02 (lines r e w d) = is_RL02 d" "spinning (lines r e w d) = spinning d" "drive_ok (lines r e w d) = drive_ok d"
  "lines r e w (lines r' e' w' d) = lines r e w d" "drive_ready_line (lines r e w d) = r"
  by (simp_all add: lines_def spinning_def drive_ok_def rl_geometry_def rl_running_def)

lemma reported_lines: "\<exists>e' w. reported n r e s = lines r e' w (rl_drives s n)"
  by (auto simp: reported_def lines_def)

lemma seek_move_lines: "seek_move (lines r e w d) = lines r e w (seek_move d)"
  by (simp add: seek_move_def lines_def Let_def trackmove_increment_def)

lemma not_ready_lines: "\<exists>e w. rl_drives (drive_not_ready n s) n = lines False e w (rl_drives s n)"
  using reported_lines [of n False _ s] by (simp add: drive_moves)

lemma change_state_lines: "\<exists>r e w. rl_drives (drive_change_state n st s) n = lines r e w ((rl_drives s n)\<lparr>d_state := st\<rparr>)"
  using reported_lines [of n _ _ "upd_rl n (\<lambda>d. d\<lparr>d_state := st\<rparr>) s"] by (simp add: drive_moves) blast

lemma lines_upd:
  "(lines r e w d)\<lparr>cylinder := c\<rparr> = lines r e w (d\<lparr>cylinder := c\<rparr>)" "(lines r e w d)\<lparr>head := h\<rparr> = lines r e w (d\<lparr>head := h\<rparr>)"
  "(lines r e w d)\<lparr>d_state := st\<rparr> = lines r e w (d\<lparr>d_state := st\<rparr>)"
  by (simp_all add: lines_def)

lemma state_seek_lines:
  assumes "spinning (rl_drives s n)"
  shows "\<exists>r e w. rl_drives (drive_state_seek n s) n = lines r e w (seek_move (rl_drives s n))"
proof -
  let ?s = "drive_not_ready n s" and ?d = "rl_drives s n"
  obtain e w where d: "rl_drives ?s n = lines False e w ?d" using not_ready_lines by blast
  have go: "runstop_button (lines False e w ?d)" "\<not> fault_lamp (lines False e w ?d)" "trackmove_increment (lines False e w ?d) = trackmove_increment ?d"
    using assms by (simp_all add: spinning_def lines_def trackmove_increment_def)
  have lock: "\<exists>r e w. rl_drives (drive_change_state n RL_lock_on (upd_rl n (\<lambda>d. d\<lparr>cylinder := c\<rparr>) ?s)) n =
      lines r e w (?d\<lparr>cylinder := c, d_state := RL_lock_on\<rparr>)" for c
    using change_state_lines [of n RL_lock_on "upd_rl n (\<lambda>d. d\<lparr>cylinder := c\<rparr>) ?s"] by (simp add: d lines_upd)
  have move: "\<exists>r e w. lines False e1 w1 x = lines r e w x" for e1 w1 x by blast
  show ?thesis
    unfolding drive_state_seek_def Let_def d seek_move_def using go lock move by (simp add: lines_upd d)
qed

lemma seek_round:
  assumes "d_state (rl_drives s n) = RL_seek" "spinning (rl_drives s n)"
  shows "\<exists>r e w. rl_drives (drive_worker_round n s) n = lines r e w (seek_move (rl_drives s n))"
proof -
  let ?s = "update_status_word_same n s"
  obtain r e w where d: "rl_drives ?s n = lines r e w (rl_drives s n)"
    using reported_lines [of n _ _ s] by (simp add: drive_moves) blast
  have "drive_worker_round n s = drive_state_seek n ?s"
    using assms by (simp add: drive_worker_round_def Let_def d) (simp add: lines_def spinning_def)
  then show ?thesis using state_seek_lines [of ?s n] assms(2) by (auto simp: d seek_move_lines)
qed

lemma seek_rounds:
  assumes "\<And>j. j < k \<Longrightarrow> d_state ((seek_move ^^ j) (rl_drives s n)) = RL_seek" "spinning (rl_drives s n)"
  shows "\<exists>r e w. rl_drives ((drive_worker_round n ^^ k) s) n = lines r e w ((seek_move ^^ k) (rl_drives s n))"
  using assms
proof (induction k)
  case 0
  have "rl_drives s n = lines (drive_ready_line (rl_drives s n)) (drive_error_line (rl_drives s n)) (status_word (rl_drives s n)) (rl_drives s n)"
    by (simp add: lines_def)
  then show ?case by (metis funpow_0)
next
  case (Suc k)
  obtain r e w where k: "rl_drives ((drive_worker_round n ^^ k) s) n = lines r e w ((seek_move ^^ k) (rl_drives s n))"
    using Suc by fastforce
  have sp: "spinning ((seek_move ^^ j) d) = spinning d" for j d
    by (induction j) (auto simp: seek_move_def Let_def spinning_def)
  have "d_state (rl_drives ((drive_worker_round n ^^ k) s) n) = RL_seek" using Suc.prems(1) [of k] by (simp add: k)
  from seek_round [OF this] show ?case using Suc.prems(2) by (simp add: k sp seek_move_lines)
qed

definition track_distance :: "rl0102 \<Rightarrow> nat" where
  "track_distance d = (unat (cylinder d) - unat (seek_destination_cylinder d)) + (unat (seek_destination_cylinder d) - unat (cylinder d))"

lemma seek_move_nearer:
  assumes "drive_ok d" "d_state d = RL_seek" "head d = seek_destination_head d"
  shows "if track_distance d \<le> unat (trackmove_increment d)
    then d_state (seek_move d) = RL_lock_on \<and> cylinder (seek_move d) = seek_destination_cylinder d
    else d_state (seek_move d) = RL_seek \<and> track_distance (seek_move d) = track_distance d - unat (trackmove_increment d)"
proof -
  let ?c = "cylinder d" and ?t = "seek_destination_cylinder d" and ?i = "trackmove_increment d"
  have b: "unat ?c < 512" "unat ?t < 512" "unat ?i \<le> 51"
    using assms(1) by (auto simp: drive_ok_def rl_geometry_def trackmove_increment_def word_less_nat_alt split: if_splits)
  have p: "unat (?c + ?i) = unat ?c + unat ?i" using b by (simp add: unat_word_ariths)
  have m: "unat (?c - ?t) = unat ?c - unat ?t" if "\<not> ?c < ?t" using that by (simp add: unat_sub word_less_nat_alt word_le_nat_alt)
  have mi: "unat (?c - ?i) = unat ?c - unat ?i" if "unat ?i \<le> unat ?c" using that by (simp add: unat_sub word_le_nat_alt)
  show ?thesis
  proof (cases "?c < ?t")
    case True
    then show ?thesis using assms(2,3) p by (auto simp: seek_move_def Let_def track_distance_def word_less_nat_alt word_le_nat_alt)
  next
    case False
    then show ?thesis using assms(2,3) m [OF False] mi
      by (auto simp: seek_move_def Let_def track_distance_def word_less_nat_alt word_le_nat_alt)
  qed
qed

lemma seek_move_frame:
  "seek_destination_cylinder (seek_move d) = seek_destination_cylinder d" "seek_destination_head (seek_move d) = seek_destination_head d"
  "trackmove_increment (seek_move d) = trackmove_increment d" "seek_destination_head d = head d \<Longrightarrow> head (seek_move d) = head d"
  by (simp_all add: seek_move_def Let_def trackmove_increment_def)

lemma seek_on_head:
  assumes "drive_ok d" "d_state d = RL_seek" "head d = seek_destination_head d" "track_distance d \<le> Suc k * unat (trackmove_increment d)"
  shows "\<exists>j\<le>Suc k. (\<forall>i<j. d_state ((seek_move ^^ i) d) = RL_seek) \<and> d_state ((seek_move ^^ j) d) = RL_lock_on \<and>
    cylinder ((seek_move ^^ j) d) = seek_destination_cylinder d \<and> head ((seek_move ^^ j) d) = seek_destination_head d"
  using assms
proof (induction k arbitrary: d)
  case 0
  then show ?case using seek_move_nearer [OF 0(1-3)] by (intro exI [of _ 1]) (auto simp: seek_move_frame)
next
  case (Suc k)
  note n = seek_move_nearer [OF Suc.prems(1-3)]
  show ?case
  proof (cases "track_distance d \<le> unat (trackmove_increment d)")
    case True
    then show ?thesis using n Suc.prems(2,3) by (intro exI [of _ 1]) (auto simp: seek_move_frame)
  next
    case False
    let ?e = "seek_move d"
    have "drive_ok ?e" by (rule seek_move_ok [OF Suc.prems(1,2)])
    moreover have "d_state ?e = RL_seek" "head ?e = seek_destination_head ?e"
      "track_distance ?e \<le> Suc k * unat (trackmove_increment ?e)"
      using n False Suc.prems(3,4) by (simp_all add: seek_move_frame)
    ultimately obtain j where j: "j \<le> Suc k" "\<forall>i<j. d_state ((seek_move ^^ i) ?e) = RL_seek" "d_state ((seek_move ^^ j) ?e) = RL_lock_on"
      "cylinder ((seek_move ^^ j) ?e) = seek_destination_cylinder d" "head ((seek_move ^^ j) ?e) = seek_destination_head d"
      using Suc.IH [of ?e] by (auto simp: seek_move_frame)
    have "d_state ((seek_move ^^ i) d) = RL_seek" if "i < Suc j" for i
      using that j(2) Suc.prems(2) by (cases i) (simp_all add: funpow_Suc_right del: funpow.simps)
    then show ?thesis using j by (intro exI [of _ "Suc j"]) (simp add: funpow_Suc_right del: funpow.simps)
  qed
qed

lemma seek_of_drive:
  assumes "drive_ok d" "d_state d = RL_seek"
  shows "\<exists>j\<le>12. (\<forall>i<j. d_state ((seek_move ^^ i) d) = RL_seek) \<and> d_state ((seek_move ^^ j) d) = RL_lock_on \<and>
    cylinder ((seek_move ^^ j) d) = seek_destination_cylinder d \<and> head ((seek_move ^^ j) d) = seek_destination_head d"
proof -
  have dist: "track_distance e \<le> Suc 10 * unat (trackmove_increment e)" if "drive_ok e" for e
    using that by (auto simp: drive_ok_def track_distance_def rl_geometry_def trackmove_increment_def word_less_nat_alt split: if_splits)
  show ?thesis
  proof (cases "head d = seek_destination_head d")
    case True
    obtain j where j: "j \<le> Suc 10" "\<forall>i<j. d_state ((seek_move ^^ i) d) = RL_seek" "d_state ((seek_move ^^ j) d) = RL_lock_on"
      "cylinder ((seek_move ^^ j) d) = seek_destination_cylinder d" "head ((seek_move ^^ j) d) = seek_destination_head d"
      using seek_on_head [OF assms True dist [OF assms(1)]] by blast
    then show ?thesis by (intro exI [of _ j]) simp
  next
    case False
    let ?e = "seek_move d"
    have e: "drive_ok ?e" "d_state ?e = RL_seek" "head ?e = seek_destination_head ?e"
      using seek_move_ok [OF assms] assms(2) False by (simp_all add: seek_move_def)
    obtain j where j: "j \<le> Suc 10" "\<forall>i<j. d_state ((seek_move ^^ i) ?e) = RL_seek" "d_state ((seek_move ^^ j) ?e) = RL_lock_on"
      "cylinder ((seek_move ^^ j) ?e) = seek_destination_cylinder d" "head ((seek_move ^^ j) ?e) = seek_destination_head d"
      using seek_on_head [OF e dist [OF e(1)]] by (auto simp: seek_move_frame)
    have "d_state ((seek_move ^^ i) d) = RL_seek" if "i < Suc j" for i
      using that j(2) assms(2) by (cases i) (simp_all add: funpow_Suc_right del: funpow.simps)
    then show ?thesis using j by (intro exI [of _ "Suc j"]) (simp add: funpow_Suc_right del: funpow.simps)
  qed
qed

lemma lock_on_round:
  assumes "d_state (rl_drives s n) = RL_lock_on" "spinning (rl_drives s n)"
  shows "\<exists>e w. rl_drives (drive_worker_round n s) n = lines True e w (rl_drives s n)"
proof -
  let ?s = "update_status_word_same n s"
  obtain r e w where d: "rl_drives ?s n = lines r e w (rl_drives s n)"
    using reported_lines [of n _ _ s] by (simp add: drive_moves) blast
  have "drive_worker_round n s = update_status_word n True (drive_error_line (rl_drives ?s n)) ?s"
    using assms by (simp add: drive_worker_round_def Let_def d state_lock_on_def) (simp add: lines_def spinning_def)
  moreover obtain e' w' where "reported n True (drive_error_line (rl_drives ?s n)) ?s = lines True e' w' (rl_drives ?s n)"
    using reported_lines by blast
  ultimately show ?thesis by (auto simp: update_status_word_drives d)
qed

text \<open>
  Property C18. Every seek of an RL drive ends: from whatever cylinder and head, after at most 13 rounds of the drive's
  worker the drive is locked on the destination and reports that it is ready.
\<close>

theorem rl_seek_completes:
  assumes "drive_ok (rl_drives s n)" "d_state (rl_drives s n) = RL_seek" "spinning (rl_drives s n)"
  shows "\<exists>k\<le>13. let d = rl_drives ((drive_worker_round n ^^ k) s) n in
    d_state d = RL_lock_on \<and> drive_ready_line d \<and> cylinder d = seek_destination_cylinder (rl_drives s n) \<and>
    head d = seek_destination_head (rl_drives s n)"
proof -
  let ?d = "rl_drives s n"
  obtain j where j: "j \<le> 12" "\<forall>i<j. d_state ((seek_move ^^ i) ?d) = RL_seek" "d_state ((seek_move ^^ j) ?d) = RL_lock_on"
    "cylinder ((seek_move ^^ j) ?d) = seek_destination_cylinder ?d" "head ((seek_move ^^ j) ?d) = seek_destination_head ?d"
    using seek_of_drive [OF assms(1,2)] by blast
  obtain r e w where m: "rl_drives ((drive_worker_round n ^^ j) s) n = lines r e w ((seek_move ^^ j) ?d)"
    using seek_rounds [OF _ assms(3)] j(2) by blast
  have sp: "spinning ((seek_move ^^ i) d) = spinning d" for i d
    by (induction i) (auto simp: seek_move_def Let_def spinning_def)
  obtain e' w' where l: "rl_drives ((drive_worker_round n ^^ Suc j) s) n = lines True e' w' ((seek_move ^^ j) ?d)"
    using lock_on_round [of "(drive_worker_round n ^^ j) s" n] j(3) assms(3) by (auto simp: m sp)
  show ?thesis
    by (rule exI [of _ "Suc j"]) (use j l in \<open>simp del: funpow.simps\<close>)
qed

text \<open>An RL02 at cylinder 0 that seeks its last cylinder, in the controller of a powered system.\<close>

definition seeking_drive :: rl0102 where
  "seeking_drive = \<lparr>d_state = RL_seek, is_RL02 = True, cylinder = 0, head = 0xff, seek_destination_cylinder = 511,
     seek_destination_head = 1, volume_check = False, error_wge = False, drive_ready_line = False, drive_error_line = False,
     status_word = 0, rotation_umin = 2400, emulation_speed = 1, power_switch = True, runstop_button = True, fault_lamp = False,
     writeprotect_button = False, cover_open = False, next_sector_segment_under_heads = 12,
     cartridge = Some (opened_binfile [] False), can_open = True, opens_readonly = False\<rparr>"

definition seeking_rl11 :: rl11 where
  "seeking_rl11 = \<lparr>dati = (\<lambda>_. 0), dato = (\<lambda>_. 0), rl11_state = RL11_ready, selected_drive_unitno = 0, function_code = 0,
     interrupt_enable = False, qunibus_address_msb = 0, error_operation_incomplete = False, error_dma_timeout = False,
     error_writecheck = False, error_header_not_found = False, mpr_silo = [0, 0, 0], mpr_silo_idx = 0, has_BAE = False,
     rl_drives = (\<lambda>_. seeking_drive), rl_worker_at = RL_waiting, rl_signalled = False, rl_init_asserted = False,
     rl_memory = (\<lambda>_. Some 0), rl_limit = 0x40000, rl_interrupts = 0\<rparr>"

lemma seeking_drive: "drive_ok seeking_drive" "d_state seeking_drive = RL_seek" "spinning seeking_drive"
  by (simp_all add: seeking_drive_def drive_ok_def rl_geometry_def rl_running_def spinning_def opened_binfile_def)

theorem rl_seek_completes_witness:
  "\<exists>k\<le>13. let d = rl_drives ((drive_worker_round 0 ^^ k) seeking_rl11) 0 in
     d_state d = RL_lock_on \<and> drive_ready_line d \<and> cylinder d = 511 \<and> head d = 1"
proof -
  have "rl_drives seeking_rl11 0 = seeking_drive" by (simp add: seeking_rl11_def)
  moreover have "seek_destination_cylinder seeking_drive = 511" "seek_destination_head seeking_drive = 1"
    by (simp_all add: seeking_drive_def)
  ultimately show ?thesis using rl_seek_completes [of seeking_rl11 0] seeking_drive by simp
qed

subsection \<open>Every state of the worker keeps a drive in order\<close>

lemma drive_worker_round_ok:
  assumes "drive_ok (rl_drives s n)"
  shows "drive_ok (rl_drives (drive_worker_round n s) n)"
proof -
  let ?s = "update_status_word_same n s"
  have d: "drive_ok (rl_drives ?s n)" using assms by (simp add: drive_moves)
  define u where "u = (if power_switch (rl_drives ?s n) then ?s else drive_change_state n RL_power_off ?s)"
  have u: "drive_ok (rl_drives u n)" using d by (simp add: u_def drive_moves) (simp add: drive_ok_def rl_geometry_def rl_running_def)
  have seek: "drive_ok (rl_drives (drive_state_seek n u) n)" if "d_state (rl_drives u n) = RL_seek"
  proof (cases "spinning (rl_drives u n)")
    case True
    then obtain r e w where "rl_drives (drive_state_seek n u) n = lines r e w (seek_move (rl_drives u n))"
      using state_seek_lines by blast
    then show ?thesis using seek_move_ok [OF u that] by simp
  next
    case False
    have e: "power_switch (rl_drives u n)"
      using that by (auto simp: u_def drive_moves split: if_splits)
    obtain e' w where r: "rl_drives (drive_not_ready n u) n = lines False e' w (rl_drives u n)" using not_ready_lines by blast
    have "drive_state_seek n u = drive_change_state n RL_spin_down (drive_not_ready n u)"
    proof -
      have "\<not> runstop_button (lines False e' w (rl_drives u n)) \<or> fault_lamp (lines False e' w (rl_drives u n))"
        using False e by (auto simp: spinning_def lines_def)
      then show ?thesis by (auto simp: drive_state_seek_def Let_def r)
    qed
    moreover obtain r' e'' w' where
      "rl_drives (drive_change_state n RL_spin_down (drive_not_ready n u)) n = lines r' e'' w' ((rl_drives (drive_not_ready n u) n)\<lparr>d_state := RL_spin_down\<rparr>)"
      using change_state_lines by blast
    ultimately show ?thesis using u that by (simp add: r lines_upd) (simp add: drive_ok_def rl_geometry_def rl_running_def)
  qed
  show ?thesis
    unfolding drive_worker_round_def Let_def u_def [symmetric]
    using u seek state_power_off_ok state_load_cartridge_ok state_spin_up_ok state_brush_cycle_ok state_load_heads_ok
      state_lock_on_ok state_unload_heads_ok state_spin_down_ok
    by (cases "d_state (rl_drives u n)") simp_all
qed

end
