(* ===== verification/RL11_Safety.thy ===== *)
theory RL11_Safety
  imports RL0102_Correct
begin

text \<open>
  The assertions of the RL11: in every run of the controller with its drives, which of them can fail.
\<close>

subsection \<open>Ending a function\<close>

definition ctl_same :: "rl11 \<Rightarrow> rl11 \<Rightarrow> bool" where
  "ctl_same s t \<longleftrightarrow> rl_drives t = rl_drives s \<and> selected_drive_unitno t = selected_drive_unitno s \<and>
     function_code t = function_code s \<and> rl_worker_at t = rl_worker_at s \<and> has_BAE t = has_BAE s"

lemma do_command_done_ok: "\<exists>t. do_command_done s = Some t \<and> ctl_same s t \<and> rl11_state t = RL11_ready"
  by (simp add: do_command_done_def change_state_INTR_def do_controller_status_INTR_def change_state_def
      do_controller_status_def ctl_same_def)

lemma do_operation_incomplete_ok: "\<exists>t. do_operation_incomplete s = Some t \<and> ctl_same s t \<and> rl11_state t = RL11_ready"
  using do_command_done_ok [of "s\<lparr>error_operation_incomplete := True\<rparr>"]
  by (simp add: do_operation_incomplete_def ctl_same_def)

lemma ready_ok: "rl_ok s \<Longrightarrow> ctl_same s t \<Longrightarrow> rl11_state t = RL11_ready \<Longrightarrow> rl_ok t"
  by (simp add: rl_ok_def ctl_same_def)

text \<open>A result that is there and in order.\<close>

definition fine :: "rl11 option \<Rightarrow> bool" where
  "fine r \<longleftrightarrow> (case r of None \<Rightarrow> False | Some t \<Rightarrow> rl_ok t)"

lemma fine_Some [simp]: "fine (Some t) = rl_ok t"
  by (simp add: fine_def)

lemma fine_iff: "fine r \<longleftrightarrow> (\<exists>t. r = Some t \<and> rl_ok t)"
  by (cases r) (simp_all add: fine_def)

lemma fine_bind: "fine r \<Longrightarrow> (\<And>t. rl_ok t \<Longrightarrow> fine (f t)) \<Longrightarrow> fine (Option.bind r f)"
  by (cases r) (simp_all add: fine_def)

lemma command_done_fine: "rl_ok s \<Longrightarrow> fine (do_command_done s)"
  using do_command_done_ok [of s] ready_ok by auto

lemma operation_incomplete_fine: "rl_ok s \<Longrightarrow> fine (do_operation_incomplete s)"
  using do_operation_incomplete_ok [of s] ready_ok by auto

lemma rl_ok_upd [simp]:
  "rl_ok (set_dati i v s) = rl_ok s" "rl_ok (do_controller_status s) = rl_ok s" "rl_ok (clear_errors s) = rl_ok s"
  "rl_ok (s\<lparr>rl_signalled := b\<rparr>) = rl_ok s" "rl_ok (s\<lparr>rl_memory := m\<rparr>) = rl_ok s" "rl_ok (s\<lparr>dato := f\<rparr>) = rl_ok s"
  "rl_ok (s\<lparr>mpr_silo := h\<rparr>) = rl_ok s" "rl_ok (s\<lparr>mpr_silo_idx := k\<rparr>) = rl_ok s" "rl_ok (s\<lparr>qunibus_address_msb := a\<rparr>) = rl_ok s"
  "rl_ok (s\<lparr>error_dma_timeout := b\<rparr>) = rl_ok s" "rl_ok (s\<lparr>error_header_not_found := b\<rparr>) = rl_ok s"
  "rl_ok (s\<lparr>error_writecheck := b\<rparr>) = rl_ok s" "rl_ok (s\<lparr>rl_init_asserted := b\<rparr>) = rl_ok s" "rl_ok (s\<lparr>interrupt_enable := b\<rparr>) = rl_ok s"
  by (simp_all add: rl_ok_def do_controller_status_def clear_errors_def)

lemma rl_ok_state:
  "rl_ok s \<Longrightarrow> st = RL11_ready \<or> st = RL11_busy \<or> st = RL11_seek_init \<or> function_code s \<in> {1, 5, 6, 7} \<Longrightarrow> rl_ok (change_state st s)"
  by (auto simp: change_state_def rl_ok_def do_controller_status_def)

lemma rl_ok_drive: "rl_ok s \<Longrightarrow> n < 4 \<Longrightarrow> drive_ok (rl_drives s n)"
  by (simp add: rl_ok_def)

lemma rl_ok_upd_rl: "rl_ok s \<Longrightarrow> (n < 4 \<Longrightarrow> drive_ok (f (rl_drives s n))) \<Longrightarrow> rl_ok (upd_rl n f s)"
  by (auto simp: rl_ok_def)

lemma rl_ok_status: "rl_ok s \<Longrightarrow> rl_ok (update_status_word n r e s)"
  by (simp add: rl_ok_def update_status_word_drives)

lemma rl_ok_selected: "rl_ok s \<Longrightarrow> selected_drive_unitno s < 4"
  by (simp add: rl_ok_def)

subsection \<open>The drives under the controller\<close>

lemma destination_in_range: "cylinder d < cylinder_count (rl_geometry d) \<Longrightarrow> destination_cylinder da d < cylinder_count (rl_geometry d)"
proof -
  assume c: "cylinder d < cylinder_count (rl_geometry d)"
  have "cylinder d - diff < cylinder_count (rl_geometry d)" if "\<not> cylinder d < diff" for diff
    using that c by (simp add: word_less_nat_alt unat_sub word_le_nat_alt)
  then show ?thesis using c by (auto simp: destination_cylinder_def Let_def rl_geometry_def not_le)
qed

lemma cmd_seek_ok:
  assumes "rl_ok s" "n < 4" "c < cylinder_count (rl_geometry (rl_drives s n))" "h < 2"
  shows "\<exists>b t. cmd_seek n c h s = Some (b, t) \<and> rl_ok t"
proof (cases "d_state (rl_drives s n) = RL_lock_on")
  case True
  let ?s = "upd_rl n (\<lambda>d. d\<lparr>seek_destination_cylinder := c, seek_destination_head := h, head := 0xff\<rparr>) s"
  have d: "drive_ok (rl_drives s n)" using assms(1,2) by (rule rl_ok_drive)
  have "drive_ok (rl_drives (drive_change_state n RL_seek (drive_not_ready n ?s)) n)"
    using d assms(3,4) True by (simp add: drive_moves) (auto simp: drive_ok_def rl_geometry_def rl_running_def)
  moreover have "rl_drives (drive_change_state n RL_seek (drive_not_ready n ?s)) m = rl_drives s m" if "m \<noteq> n" for m
    using that by (simp add: drive_moves)
  ultimately have "\<forall>m<4. drive_ok (rl_drives (drive_change_state n RL_seek (drive_not_ready n ?s)) m)"
    using assms(1) by (metis rl_ok_drive)
  then have "rl_ok (drive_change_state n RL_seek (drive_not_ready n ?s))"
    using assms(1) unfolding rl_ok_def by (simp add: drive_change_state_def update_status_word_same_def drive_not_ready_def)
  then show ?thesis using assms(3) True by (auto simp: cmd_seek_def)
next
  case False
  have "cmd_seek n c h s = Some (False, s)" using assms(3) False by (simp add: cmd_seek_def)
  then show ?thesis using assms(1) by blast
qed

lemma head_bit: "ucast (w AND 1 :: u16) < (2 :: u32)"
proof -
  have "w AND 1 = (if bit w 0 then 1 else 0)" by (rule bit_word_eqI) (auto simp: bit_simps intro: gr0I)
  then show ?thesis by (simp split: if_splits)
qed

lemma state_seek_fine:
  assumes "rl_ok s"
  shows "fine (state_seek s)"
proof -
  have d: "cylinder (rl_drive s) < cylinder_count (rl_geometry (rl_drive s))"
    using rl_ok_drive [OF assms rl_ok_selected [OF assms]] by (simp add: rl_drive_def drive_ok_def)
  obtain b t where "cmd_seek (selected_drive_unitno s) (destination_cylinder (dati s 2) (rl_drive s)) (ucast (drop_bit 4 (dati s 2) AND 1)) s = Some (b, t)" "rl_ok t"
    using cmd_seek_ok [OF assms rl_ok_selected [OF assms] destination_in_range [OF d, unfolded rl_drive_def] head_bit] unfolding rl_drive_def by blast
  then show ?thesis
    using operation_incomplete_fine [OF assms] command_done_fine [OF assms] command_done_fine [of t]
    by (simp add: state_seek_def Let_def)
qed

lemma header_ok:
  assumes "drive_ok d"
  shows "\<exists>h e. cmd_read_next_sector_header d = Some (h, e) \<and> drive_ok e"
proof (cases "d_state d = RL_lock_on")
  case True
  have "cylinder d < 512" using assms by (auto simp: drive_ok_def rl_geometry_def word_less_nat_alt split: if_splits)
  moreover have "(next_sector_segment_under_heads d + 1) mod 80 < 80" by simp
  ultimately show ?thesis using assms True
    by (auto simp: cmd_read_next_sector_header_def Let_def pass_data_def segment_advance_def sector_under_heads_def drive_ok_def
        rl_geometry_def rl_running_def)
qed (simp add: cmd_read_next_sector_header_def assms)

lemma pass_header_ok: "drive_ok (pass_header d) = drive_ok d" "drive_ok (segment_advance d) = drive_ok d" if "next_sector_segment_under_heads d < 80"
  using that by (auto simp: pass_header_def segment_advance_def drive_ok_def rl_geometry_def rl_running_def)

lemma drive_segment: "drive_ok d \<Longrightarrow> next_sector_segment_under_heads d < 80"
  by (simp add: drive_ok_def)

lemma pass_header_sel [simp]:
  "d_state (pass_header d) = d_state d" "cartridge (pass_header d) = cartridge d" "cylinder (pass_header d) = cylinder d"
  "head (pass_header d) = head d" "is_RL02 (pass_header d) = is_RL02 d"
  by (simp_all add: pass_header_def segment_advance_def)

lemma drive_ok_cartridge: "drive_ok d \<Longrightarrow> f_open f \<Longrightarrow> drive_ok (d\<lparr>cartridge := Some f\<rparr>)"
  by (auto simp: drive_ok_def rl_geometry_def rl_running_def)

lemma length_bytes_to_words: "length (bytes_to_words b) = (length b + 1) div 2"
  by (induction b rule: bytes_to_words.induct) simp_all

lemma sector_data_ok:
  assumes "drive_ok d"
  shows "\<exists>b e. cmd_read_next_sector_data d = Some (b, e) \<and> drive_ok e \<and> (\<forall>ws. b = Some ws \<longrightarrow> length ws = 128)"
proof (cases "d_state d = RL_lock_on")
  case True
  let ?d = "pass_header d"
  have d: "drive_ok ?d" using assms drive_segment [OF assms] by (simp add: pass_header_ok)
  obtain f where f: "cartridge d = Some f" "f_open f" using assms True by (auto simp: drive_ok_def rl_running_def)
  obtain b g where g: "binfile_read (sector_offset ?d) 256 f = Some (b, g)" "f_open g" "length b = 256"
    using f(2) by (auto simp: binfile_read_def Let_def)
  have c: "drive_ok (?d\<lparr>cartridge := Some g\<rparr>)" using d g(2) by (rule drive_ok_cartridge)
  have "drive_ok (segment_advance (?d\<lparr>cartridge := Some g\<rparr>))"
    using pass_header_ok(2) [OF drive_segment [OF c]] c by blast
  moreover have "length (bytes_to_words b) = 128" using length_bytes_to_words [of b] g(3) by simp
  ultimately show ?thesis using True f g by (simp add: cmd_read_next_sector_data_def Let_def)
qed (simp add: cmd_read_next_sector_data_def assms)

lemma sector_offset_small:
  assumes "drive_ok d" "d_state d = RL_lock_on"
  shows "sector_offset d < 2 ^ 31"
proof -
  have b: "unat (cylinder d) < 512" "unat (head d) < 2" "next_sector_segment_under_heads d < 80"
    using assms by (auto simp: drive_ok_def rl_geometry_def word_less_nat_alt split: if_splits)
  have "unat (2 * cylinder d + head d) = 2 * unat (cylinder d) + unat (head d)" using b by (simp add: unat_word_ariths)
  then show ?thesis using b by (simp add: sector_offset_def sector_under_heads_def)
qed

lemma drive_ok_wge: "drive_ok (d\<lparr>error_wge := b\<rparr>) = drive_ok d"
  by (simp add: drive_ok_def rl_geometry_def rl_running_def)

lemma write_sector_fine:
  assumes "rl_ok s" "n < 4"
  shows "fine (cmd_write_next_sector_data n buf s)"
proof -
  let ?old = "rl_drives s n"
  have d0: "drive_ok ?old" using assms by (rule rl_ok_drive)
  consider "d_state ?old \<noteq> RL_lock_on" | "d_state ?old = RL_lock_on" "cartridge_readonly ?old \<or> writeprotect_button ?old \<or> \<not> drive_ready_line ?old"
    | "d_state ?old = RL_lock_on" "\<not> cartridge_readonly ?old" "\<not> writeprotect_button ?old" "drive_ready_line ?old" by blast
  then show ?thesis
  proof cases
    case 1
    then show ?thesis using assms(1) by (simp add: cmd_write_next_sector_data_def Let_def)
  next
    case 2
    have "rl_ok (upd_rl n (\<lambda>d. d\<lparr>error_wge := True\<rparr>) s)"
      by (rule rl_ok_upd_rl [OF assms(1)]) (use d0 in \<open>simp add: drive_ok_def rl_geometry_def rl_running_def\<close>)
    then show ?thesis using 2 by (simp add: cmd_write_next_sector_data_def Let_def update_status_word_same_def rl_ok_status)
  next
    case 3
    let ?d = "pass_header (?old\<lparr>error_wge := False\<rparr>)"
    have e: "drive_ok (?old\<lparr>error_wge := False\<rparr>)" using d0 by (simp only: drive_ok_wge)
    then have d: "drive_ok ?d" using pass_header_ok(1) [OF drive_segment [OF e]] by blast
    obtain f where f: "cartridge ?old = Some f" "f_open f" using d0 3(1) by (auto simp: drive_ok_def rl_running_def)
    have "d_state ?d = RL_lock_on" using 3(1) by simp
    then have "sector_offset ?d < 2 ^ 31" by (rule sector_offset_small [OF d])
    moreover have "\<not> f_readonly f" using 3(2) f(1) by (simp add: cartridge_readonly_def)
    ultimately obtain g where g: "binfile_write (words_to_bytes buf) (sector_offset ?d) f = Some g" "f_open g"
      using f(2) by (simp add: binfile_write_iff)
    have c: "drive_ok (?d\<lparr>cartridge := Some g\<rparr>)" using d g(2) by (rule drive_ok_cartridge)
    have "drive_ok (segment_advance (?d\<lparr>cartridge := Some g\<rparr>))"
      using pass_header_ok(2) [OF drive_segment [OF c]] c by blast
    then have "rl_ok (upd_rl n (\<lambda>_. segment_advance (?d\<lparr>cartridge := Some g\<rparr>)) s)" by (rule rl_ok_upd_rl [OF assms(1)])
    then show ?thesis using 3 f g by (simp add: cmd_write_next_sector_data_def Let_def)
  qed
qed

subsection \<open>Transfers\<close>

text \<open>A DMA ends the program only when it would run past the end of the address space.\<close>

definition rl_dma_fits :: "rl11 \<Rightarrow> bool" where
  "rl_dma_fits s \<longleftrightarrow> get_qunibus_address s + 2 * of_nat (min (unat (get_MP_wordcount s)) 128) \<le> rl_limit s"

lemma update_qunibus_address_ok [simp]: "rl_ok (update_qunibus_address a s) = rl_ok s"
  by (simp add: update_qunibus_address_def Let_def)

lemma rl_dma_returns:
  assumes "0 < n" "n \<le> length buf" "get_qunibus_address s + 2 * of_nat n \<le> rl_limit s"
  shows "\<exists>b t. rl_dma dir buf n s = Some (b, t) \<and> rl_ok t = rl_ok s \<and> length b = length buf \<and>
    function_code t = function_code s"
proof -
  obtain ok b m where d: "dma_spec (rl_limit s) dir (get_qunibus_address s) buf n (rl_memory s) = Some (ok, b, m)"
    "length b = length buf"
    using assms bus_read_length by (cases dir) (fastforce simp: dma_spec_def split: option.splits prod.splits)+
  then show ?thesis by (simp add: rl_dma_def Let_def update_qunibus_address_def)
qed

lemma read_into_silo_ok:
  assumes "rl_ok s"
  shows "\<exists>b t. read_into_silo s = Some (b, t) \<and> rl_ok t \<and> length b = 128 \<and> function_code t = function_code s \<and>
    get_qunibus_address t = get_qunibus_address s \<and> rl_limit t = rl_limit s"
proof -
  obtain b e where d: "cmd_read_next_sector_data (rl_drive s) = Some (b, e)" "drive_ok e" "\<forall>ws. b = Some ws \<longrightarrow> length ws = 128"
    using sector_data_ok [OF rl_ok_drive [OF assms rl_ok_selected [OF assms]]] unfolding rl_drive_def by blast
  have "rl_ok (upd_rl (selected_drive_unitno s) (\<lambda>_. e) s)" by (rule rl_ok_upd_rl [OF assms d(2)])
  then show ?thesis using d by (cases b) (simp_all add: read_into_silo_def empty_silo_def get_qunibus_address_def)
qed

lemma transfer_sector_ok:
  assumes "rl_ok s" "0 < n" "n \<le> 128" "get_qunibus_address s + 2 * of_nat n \<le> rl_limit s"
  shows "\<exists>b c t. transfer_sector n s = Some (b, c, t) \<and> rl_ok t \<and> function_code t = function_code s"
proof -
  obtain b t where r: "read_into_silo s = Some (b, t)" "rl_ok t" "length b = 128" "function_code t = function_code s"
    "get_qunibus_address t = get_qunibus_address s" "rl_limit t = rl_limit s"
    using read_into_silo_ok [OF assms(1)] by blast
  have e: "n \<le> length empty_silo" using assms(3) by (simp add: empty_silo_def)
  have f: "get_qunibus_address t + 2 * of_nat n \<le> rl_limit t" using assms(4) r by simp
  have b: "n \<le> length b" using assms(3) r(3) by simp
  obtain b1 t1 where d1: "rl_dma To_memory b n t = Some (b1, t1)" "rl_ok t1 = rl_ok t" "function_code t1 = function_code t"
    using rl_dma_returns [OF assms(2) b f] by blast
  obtain b2 t2 where d2: "rl_dma To_device empty_silo n t = Some (b2, t2)" "rl_ok t2 = rl_ok t" "function_code t2 = function_code t"
    using rl_dma_returns [OF assms(2) e f] by blast
  obtain b3 t3 where d3: "rl_dma To_device empty_silo n s = Some (b3, t3)" "rl_ok t3 = rl_ok s" "function_code t3 = function_code s"
    using rl_dma_returns [OF assms(2) e assms(4)] by blast
  show ?thesis using r d1 d2 d3 assms(1) by (simp add: transfer_sector_def)
qed

lemma write_sector_code: "cmd_write_next_sector_data n b s = Some t \<Longrightarrow> function_code t = function_code s"
  by (auto simp: cmd_write_next_sector_data_def Let_def update_status_word_same_def Option.bind_eq_Some_conv split: if_splits)

lemma finish_sector_ok:
  assumes "rl_ok s"
  shows "\<exists>t. finish_sector b c s = Some t \<and> rl_ok t \<and> function_code t = function_code s"
proof (cases "function_code s = 5")
  case True
  obtain t where "cmd_write_next_sector_data (selected_drive_unitno s) b s = Some t" "rl_ok t"
    using write_sector_fine [OF assms rl_ok_selected [OF assms], of b] unfolding fine_iff by blast
  then show ?thesis using True write_sector_code by (auto simp: finish_sector_def)
qed (use assms in \<open>simp add: finish_sector_def\<close>)

lemma next_sector_fine:
  assumes "rl_ok s" "function_code s \<in> {1, 5, 6, 7}"
  shows "fine (next_sector da count s)"
proof -
  let ?s = "\<lambda>r. set_MP_wordcount r (set_dati 2 (da + 1) s)"
  have "rl_ok (?s r)" "function_code (?s r) = function_code s" for r using assms(1) by (simp_all add: set_MP_wordcount_def)
  then show ?thesis using assms(2) rl_ok_state command_done_fine by (simp add: next_sector_def Let_def)
qed

lemma rw_sector_fine:
  assumes "rl_ok s" "function_code s \<in> {1, 5, 6, 7}" "get_MP_wordcount s \<noteq> 0" "rl_dma_fits s"
  shows "fine (rw_sector s)"
proof -
  let ?n = "min (unat (get_MP_wordcount s)) 128"
  have n: "0 < ?n" "?n \<le> 128" using assms(3) by (simp_all add: unat_gt_0)
  obtain b c t where t: "transfer_sector ?n s = Some (b, c, t)" "rl_ok t" "function_code t = function_code s"
    using transfer_sector_ok [OF assms(1) n assms(4) [unfolded rl_dma_fits_def]] by blast
  obtain u where u: "finish_sector b c t = Some u" "rl_ok u" "function_code u = function_code s"
    using finish_sector_ok [OF t(2), of b c] t(3) by auto
  have "fine (next_sector (dati s 2) (get_MP_wordcount s) u)" using u assms(2) by (intro next_sector_fine) simp_all
  then show ?thesis using t(1) u(1) operation_incomplete_fine [OF t(2)] by (simp add: rw_sector_def Let_def)
qed

text \<open>A DMA that does not fit fails the adapter's assertion.\<close>

lemma rl_dma_refused: "\<not> get_qunibus_address s + 2 * of_nat n \<le> rl_limit s \<Longrightarrow> rl_dma dir buf n s = None"
  by (simp add: rl_dma_def dma_spec_def Let_def)

lemma rw_sector_refused:
  assumes "rl_ok s" "\<not> rl_dma_fits s"
  shows "rw_sector s = None"
proof -
  let ?n = "min (unat (get_MP_wordcount s)) 128"
  obtain b t where r: "read_into_silo s = Some (b, t)" "get_qunibus_address t = get_qunibus_address s" "rl_limit t = rl_limit s"
    using read_into_silo_ok [OF assms(1)] by blast
  have "rl_dma dir buf ?n s = None" "rl_dma dir buf ?n t = None" for dir buf
    using assms(2) r(2,3) by (intro rl_dma_refused, simp add: rl_dma_fits_def)+
  then have "transfer_sector ?n s = None" using r(1) by (simp add: transfer_sector_def)
  then show ?thesis by (simp add: rw_sector_def Let_def)
qed

definition keeps :: "bool \<Rightarrow> rl11 option \<Rightarrow> bool" where
  "keeps safe r \<longleftrightarrow> (case r of None \<Rightarrow> \<not> safe | Some t \<Rightarrow> rl_ok t)"

lemma keeps_fine: "fine r \<Longrightarrow> keeps b r" "keeps True r = fine r" "\<not> b \<Longrightarrow> keeps b None"
  by (auto simp: keeps_def fine_def split: option.splits)

lemma header_of_selected:
  assumes "rl_ok s" "n < 4"
  shows "\<exists>h e. cmd_read_next_sector_header (rl_drives s n) = Some (h, e) \<and> rl_ok (upd_rl n (\<lambda>_. e) s)"
proof -
  obtain h e where "cmd_read_next_sector_header (rl_drives s n) = Some (h, e)" "drive_ok e"
    using header_ok [OF rl_ok_drive [OF assms]] by blast
  then show ?thesis using rl_ok_upd_rl [OF assms(1), of n "\<lambda>_. e"] by simp
qed

lemma rw_disk_keeps:
  assumes "rl_ok s" "function_code s \<in> {1, 5, 6, 7}" "get_MP_wordcount s \<noteq> 0"
  shows "keeps (rl_dma_fits s) (rw_disk s)"
proof -
  obtain h e where h: "cmd_read_next_sector_header (rl_drive s) = Some (h, e)" "rl_ok (upd_rl (selected_drive_unitno s) (\<lambda>_. e) s)"
    using header_of_selected [OF assms(1) rl_ok_selected [OF assms(1)]] unfolding rl_drive_def by blast
  define t where "t = (case h of None \<Rightarrow> upd_rl (selected_drive_unitno s) (\<lambda>_. e) s
    | Some ws \<Rightarrow> (upd_rl (selected_drive_unitno s) (\<lambda>_. e) s)\<lparr>mpr_silo := ws\<rparr>)"
  have t: "rl_ok t" "function_code t = function_code s" "get_MP_wordcount t = get_MP_wordcount s" "rl_dma_fits t = rl_dma_fits s"
    using h(2) by (simp_all add: t_def rl_dma_fits_def get_qunibus_address_def get_MP_wordcount_def split: option.splits)
  have sector: "keeps (rl_dma_fits s) (rw_sector u)" if "rl_ok u" "function_code u = function_code s"
    "get_MP_wordcount u = get_MP_wordcount s" "rl_dma_fits u = rl_dma_fits s" for u
    using that assms rw_sector_fine [of u] rw_sector_refused [of u] keeps_fine by (cases "rl_dma_fits s") simp_all
  have "keeps (rl_dma_fits s) (rw_sector t)" using t by (intro sector) simp_all
  moreover have "keeps (rl_dma_fits s) (rw_sector s)" using assms(1) by (intro sector) simp_all
  moreover have "keeps (rl_dma_fits s) (do_operation_incomplete (s\<lparr>error_header_not_found := True\<rparr>))"
    using assms(1) by (intro keeps_fine(1) operation_incomplete_fine) simp
  moreover have "keeps (rl_dma_fits s) (Some t)" using t(1) by (simp add: keeps_def)
  ultimately show ?thesis by (simp add: rw_disk_def h(1) Let_def t_def [symmetric])
qed

definition transfer_accepted :: "rl11 \<Rightarrow> bool" where
  "transfer_accepted s \<longleftrightarrow> rl11_state s = RL11_rw_disk \<longrightarrow> get_MP_wordcount s \<noteq> 0 \<and> rl_dma_fits s"

lemma state_readwrite_keeps:
  assumes "rl_ok s" "rl11_state s \<in> {RL11_rw_init, RL11_rw_disk}"
  shows "keeps (transfer_accepted s) (state_readwrite s)"
proof -
  have f: "function_code s \<in> {1, 5, 6, 7}" using assms(1,2) unfolding rl_ok_def by blast
  have o: "fine (do_operation_incomplete s)" by (rule operation_incomplete_fine [OF assms(1)])
  have c: "rl_ok (clear_errors s)" "function_code (clear_errors s) = function_code s"
    using assms(1) by (simp, simp add: clear_errors_def)
  have i: "fine (do_command_done (clear_errors s))" "rl_ok (change_state RL11_rw_disk (clear_errors s))"
    using c f by (intro command_done_fine, simp, intro rl_ok_state, simp_all)
  show ?thesis
  proof (cases "drive_ready_line (rl_drive s) \<and> rl11_state s = RL11_rw_disk")
    case True
    then have "keeps (rl_dma_fits s) (rw_disk s)" if "get_MP_wordcount s \<noteq> 0" using assms(1) f that by (intro rw_disk_keeps)
    then show ?thesis using True f keeps_fine by (auto simp: state_readwrite_def transfer_accepted_def)
  next
    case False
    then have "fine (state_readwrite s)" using assms o f i by (auto simp: state_readwrite_def Let_def)
    then show ?thesis by (rule keeps_fine(1))
  qed
qed

subsection \<open>Register accesses and resets\<close>

lemma get_status_fine:
  assumes "rl_ok s"
  shows "fine (get_status s)"
proof -
  let ?n = "selected_drive_unitno s"
  have "drive_ok ((rl_drives s ?n)\<lparr>error_wge := False, volume_check := False\<rparr>)"
    using rl_ok_drive [OF assms rl_ok_selected [OF assms]] by (simp add: drive_ok_def rl_geometry_def rl_running_def)
  then have c: "rl_ok (clear_error_register ?n s)"
    unfolding clear_error_register_def by (intro rl_ok_status rl_ok_upd_rl [OF assms])
  have m: "fine (do_command_done (set_MP_dati_value w t))" if "rl_ok t" for w t
    by (rule command_done_fine) (use that in \<open>simp add: set_MP_dati_value_def\<close>)
  have "fine (Option.bind (do_operation_incomplete s) do_command_done)"
    by (rule fine_bind [OF operation_incomplete_fine [OF assms] command_done_fine])
  then show ?thesis using m c assms by (simp add: get_status_def Let_def)
qed

lemma start_function_fine:
  assumes "rl_ok s"
  shows "fine (start_function s)"
proof -
  let ?s = "change_state RL11_busy (clear_errors s)"
  have b: "rl_ok ?s" using assms by (intro rl_ok_state) simp_all
  then have "rl_ok (run_delayed ?s)" by (simp add: run_delayed_def)
  then show ?thesis using command_done_fine [OF b] state_seek_fine [OF b] get_status_fine [OF b]
    by (simp add: start_function_def Let_def)
qed

lemma rl_ok_select:
  assumes "rl_ok s" "rl11_state s = RL11_ready" "n < 4"
  shows "rl_ok (s\<lparr>selected_drive_unitno := n, function_code := f, qunibus_address_msb := a\<rparr>)"
  using assms by (simp add: rl_ok_def)

lemma write_CS_fine:
  assumes "rl_ok s"
  shows "fine (write_CS s)"
proof (cases "rl11_state s = RL11_ready")
  case True
  have n: "unat (drop_bit 8 v AND 3 :: u16) < 4" for v
    using word_and_le1 [of "drop_bit 8 v" 3] by (simp add: word_le_nat_alt)
  show ?thesis using rl_ok_select [OF assms True n] start_function_fine True by (simp add: write_CS_def Let_def)
next
  case False
  then show ?thesis using assms by (simp add: write_CS_def)
qed

lemma access_fine:
  assumes "rl_ok s" "i \<le> 4" "i = 4 \<longrightarrow> has_BAE s"
  shows "fine (rl_on_after_register_access i wr s)"
  using assms write_CS_fine [OF assms(1)]
  by (simp add: rl_on_after_register_access_def read_MP_def write_BAE_def Let_def)

lemma rl_reset_ok: "(\<And>n. n < 4 \<Longrightarrow> drive_ok (rl_drives s n)) \<Longrightarrow> case rl_worker_at s of RL_seek_wait n b \<Rightarrow> n < 4 | _ \<Rightarrow> True \<Longrightarrow> rl_ok (rl_reset s)"
  by (simp add: rl_reset_def Let_def change_state_def clear_errors_def do_controller_status_def rl_ok_def)

lemma rl_reset_keeps: "rl_ok s \<Longrightarrow> rl_ok (rl_reset s)"
  by (rule rl_reset_ok) (simp_all add: rl_ok_def)

lemma drive_power_ok:
  assumes "rl_ok s"
  shows "rl_ok (drive_on_power_changed n p s)"
proof -
  have "rl_ok (upd_rl n (\<lambda>d. d\<lparr>d_state := RL_power_off\<rparr>) s)"
    by (rule rl_ok_upd_rl [OF assms], drule rl_ok_drive [OF assms]) (simp add: drive_ok_def rl_geometry_def rl_running_def)
  then show ?thesis using assms
    by (simp add: drive_on_power_changed_def Let_def drive_change_state_def update_status_word_same_def rl_ok_status)
qed

lemma drives_power_ok: "rl_ok s \<Longrightarrow> rl_ok (fold (\<lambda>n. drive_on_power_changed n p) ns s)"
  by (induction ns arbitrary: s) (simp_all add: drive_power_ok)

lemma power_changed_ok: "rl_ok s \<Longrightarrow> rl_ok (rl_on_power_changed p s)"
  by (simp add: rl_on_power_changed_def Let_def rl_reset_keeps drives_power_ok del: upt_Suc)

subsection \<open>The workers\<close>

text \<open>What the worker of a drive leaves alone: the other drives and the controller, CS apart.\<close>

definition elsewhere :: "nat \<Rightarrow> rl11 \<Rightarrow> (nat \<Rightarrow> rl0102 option) \<times> nat \<times> rl_controller_state \<times> u16 \<times> rl_worker" where
  "elsewhere n s = (\<lambda>m. if m = n then None else Some (rl_drives s m), selected_drive_unitno s, rl11_state s, function_code s, rl_worker_at s)"

lemma elsewhere_simps [simp]:
  "elsewhere n (upd_rl n f s) = elsewhere n s" "elsewhere n (update_status_word n r e s) = elsewhere n s"
  "elsewhere n (drive_not_ready n s) = elsewhere n s" "elsewhere n (drive_change_state n st s) = elsewhere n s"
  "elsewhere n (update_status_word_same n s) = elsewhere n s"
  by (simp_all add: elsewhere_def drive_moves fun_eq_iff)

lemma elsewhere_states [simp]:
  "elsewhere n (state_power_off n s) = elsewhere n s" "elsewhere n (state_load_cartridge n s) = elsewhere n s"
  "elsewhere n (state_spin_up n s) = elsewhere n s" "elsewhere n (state_brush_cycle n s) = elsewhere n s"
  "elsewhere n (state_load_heads n s) = elsewhere n s" "elsewhere n (drive_state_seek n s) = elsewhere n s"
  "elsewhere n (state_lock_on n s) = elsewhere n s" "elsewhere n (state_unload_heads n s) = elsewhere n s"
  "elsewhere n (state_spin_down n s) = elsewhere n s"
  by (simp_all add: state_power_off_def state_load_cartridge_def state_spin_up_def state_brush_cycle_def state_load_heads_def
      drive_state_seek_def state_lock_on_def state_unload_heads_def state_spin_down_def Let_def split: prod.split)

lemma drive_round_elsewhere: "elsewhere n (drive_worker_round n s) = elsewhere n s"
  by (simp add: drive_worker_round_def Let_def split: rl_state.split)

lemma drive_round_ok:
  assumes "rl_ok s" "n < 4"
  shows "rl_ok (drive_worker_round n s)"
proof -
  let ?t = "drive_worker_round n s"
  have e: "elsewhere n ?t = elsewhere n s" by (rule drive_round_elsewhere)
  have "drive_ok (rl_drives ?t m)" if "m < 4" for m
  proof (cases "m = n")
    case True
    then show ?thesis using drive_worker_round_ok [OF rl_ok_drive [OF assms]] by simp
  next
    case False
    have "(if m = n then None else Some (rl_drives ?t m)) = (if m = n then None else Some (rl_drives s m))"
      using arg_cong [OF e, of "\<lambda>x. fst x m"] by (simp add: elsewhere_def)
    then show ?thesis using False rl_ok_drive [OF assms(1) that] by simp
  qed
  then show ?thesis using assms(1) e unfolding rl_ok_def elsewhere_def by simp
qed

lemma worker_at_ok: "rl_ok s \<Longrightarrow> (case w of RL_seek_wait n b \<Rightarrow> n < 4 | _ \<Rightarrow> True) \<Longrightarrow> rl_ok (s\<lparr>rl_worker_at := w\<rparr>)"
  by (simp add: rl_ok_def)

lemma worker_dispatch_fine:
  assumes "rl_ok s" "n < 4"
  shows "fine (worker_dispatch n s)"
proof -
  let ?s = "s\<lparr>rl_worker_at := RL_executing\<rparr>"
  have s: "rl_ok ?s" using assms(1) by (simp add: worker_at_ok)
  obtain h e where h: "cmd_read_next_sector_header (rl_drives ?s n) = Some (h, e)" "rl_ok (upd_rl n (\<lambda>_. e) ?s)"
    using header_of_selected [OF s assms(2)] by blast
  have "rl_ok (case h of None \<Rightarrow> upd_rl n (\<lambda>_. e) ?s | Some ws \<Rightarrow> (upd_rl n (\<lambda>_. e) ?s)\<lparr>mpr_silo := ws\<rparr>)"
    using h(2) by (simp split: option.split)
  then have f: "fine (do_command_done (set_MP_dati_silo (case h of None \<Rightarrow> upd_rl n (\<lambda>_. e) ?s | Some ws \<Rightarrow> (upd_rl n (\<lambda>_. e) ?s)\<lparr>mpr_silo := ws\<rparr>)))"
    by (intro command_done_fine) (simp add: set_MP_dati_silo_def)
  have g: "rl_ok (change_state RL11_seek_init ?s)" using rl_ok_state [OF s, of RL11_seek_init] by simp
  have w: "rl_ok (change_state RL11_rw_init ?s)" if "function_code s \<in> {1, 5, 6, 7}"
    by (rule rl_ok_state [OF s]) (use that in simp)
  have "fine (do { (h, d) \<leftarrow> cmd_read_next_sector_header (rl_drives ?s n);
      let s1 = upd_rl n (\<lambda>_. d) ?s; let s2 = (case h of None \<Rightarrow> s1 | Some h \<Rightarrow> s1\<lparr>mpr_silo := h\<rparr>);
      do_command_done (set_MP_dati_silo s2) })"
    using f h(1) by (simp add: Let_def)
  then show ?thesis using g w s unfolding worker_dispatch_def Let_def by simp
qed

lemma worker_step_keeps:
  assumes "rl_ok s"
  shows "keeps (rl_worker_at s = RL_executing \<longrightarrow> transfer_accepted s) (rl_worker_step s)"
proof (cases "rl_worker_at s")
  case RL_waiting
  let ?t = "clear_errors (s\<lparr>rl_signalled := False\<rparr>)"
  have "rl_ok ?t" using assms(1) by simp
  moreover from this have "rl_ok (?t\<lparr>rl_worker_at := RL_seek_wait (selected_drive_unitno s) False\<rparr>)"
    using rl_ok_selected [OF assms(1)] by (intro worker_at_ok) simp_all
  ultimately have "fine (rl_worker_step s)" using RL_waiting assms(1) operation_incomplete_fine
    by (simp add: rl_worker_step_def worker_wakes_def Let_def)
  then show ?thesis by (rule keeps_fine(1))
next
  case (RL_seek_wait n b)
  then have n: "n < 4" using assms(1) by (simp add: rl_ok_def)
  have "rl_ok (s\<lparr>rl_worker_at := RL_seek_wait n True\<rparr>)" using assms(1) n by (intro worker_at_ok) simp_all
  then have "fine (rl_worker_step s)" using RL_seek_wait assms(1) worker_dispatch_fine [OF assms(1) n] by (simp add: rl_worker_step_def)
  then show ?thesis by (rule keeps_fine(1))
next
  case RL_executing
  have "rl_ok (s\<lparr>rl_worker_at := RL_waiting\<rparr>)" using assms(1) by (intro worker_at_ok) simp_all
  moreover have "keeps b (Some t)" if "rl_ok t" for t b using that by (simp add: keeps_def)
  ultimately show ?thesis
    using RL_executing assms keeps_fine(1) [OF state_seek_fine [OF assms(1)]] state_readwrite_keeps [OF assms(1)]
    by (cases "rl11_state s") (simp_all add: rl_worker_step_def worker_executes_def)
qed

subsection \<open>Every event\<close>

definition event_possible :: "rl_event \<Rightarrow> rl11 \<Rightarrow> bool" where
  "event_possible e s \<longleftrightarrow> (case e of RL_write i v \<Rightarrow> i < (if has_BAE s then 5 else 4) | RL_read i \<Rightarrow> i < (if has_BAE s then 5 else 4) | _ \<Rightarrow> True)"

lemma rl_panel_ok:
  assumes "rl_ok s"
  shows "fine (rl_step (RL_buttons n pwr run wp cover) s)" "fine (rl_step (RL_cartridge n c ok ro) s)"
proof -
  have "rl_ok (upd_rl n (\<lambda>d. d\<lparr>power_switch := pwr, runstop_button := run, writeprotect_button := wp,
       cover_open := (if d_state d = RL_load_cartridge then cover else cover_open d)\<rparr>) s)"
    by (rule rl_ok_upd_rl [OF assms], drule rl_ok_drive [OF assms]) (simp add: drive_ok_def rl_geometry_def rl_running_def)
  then show "fine (rl_step (RL_buttons n pwr run wp cover) s)" by simp
  have "rl_ok (upd_rl n (\<lambda>d. d\<lparr>cartridge := map_option closed_file c, can_open := ok, opens_readonly := ro\<rparr>) s)"
    if "d_state (rl_drives s n) \<in> {RL_power_off, RL_load_cartridge}"
    by (rule rl_ok_upd_rl [OF assms], drule rl_ok_drive [OF assms]) (use that in \<open>auto simp: drive_ok_def rl_geometry_def rl_running_def\<close>)
  then show "fine (rl_step (RL_cartridge n c ok ro) s)" using assms by simp
qed

lemma rl_write_fine:
  assumes "rl_ok s" "event_possible (RL_write i v) s"
  shows "fine (rl_step (RL_write i v) s)"
proof -
  have "i \<le> 4" "i = 4 \<longrightarrow> has_BAE s" using assms(2) by (auto simp: event_possible_def split: if_splits)
  then show ?thesis using assms(1) by (simp add: access_fine)
qed

lemma rl_read_fine:
  assumes "rl_ok s" "event_possible (RL_read i) s"
  shows "fine (rl_step (RL_read i) s)"
proof -
  have "i \<le> 4" "i = 4 \<longrightarrow> has_BAE s" using assms(2) by (auto simp: event_possible_def split: if_splits)
  then show ?thesis using assms(1) by (simp add: access_fine)
qed

text \<open>
  Property C17. The RL11 with its four drives, whatever the host, the panel and the disks do: every event keeps drives and
  controller in order (heads on a cylinder of the cartridge, an open image wherever a drive runs, a transfer only with a
  function code of a transfer), and no assertion fails, with two exceptions: in the middle of a transfer the word count
  has become zero, or the DMA would run past the end of the address space.
\<close>

theorem rl11_assertions:
  assumes "rl_ok s" "event_possible e s"
  shows "case rl_step e s of
      Some t \<Rightarrow> rl_ok t
    | None \<Rightarrow> e = RL_worker \<and> rl_worker_at s = RL_executing \<and> rl11_state s = RL11_rw_disk \<and>
        (get_MP_wordcount s = 0 \<or> \<not> rl_dma_fits s)"
proof (cases "e = RL_worker")
  case True
  then show ?thesis using worker_step_keeps [OF assms(1)] by (auto simp: keeps_def transfer_accepted_def split: option.splits)
next
  case False
  have "fine (rl_step e s)"
    using False assms rl_panel_ok [OF assms(1)] rl_write_fine rl_read_fine power_changed_ok drive_round_ok
    by (cases e) (simp_all add: rl_on_init_changed_def Let_def rl_reset_keeps del: rl_step.simps(1,2,7,8))
  then show ?thesis by (auto simp: fine_iff)
qed

text \<open>A read command written to a controller whose drives are seeking.\<close>

lemma seeking_rl11_ok: "rl_ok seeking_rl11"
  using seeking_drive(1) by (simp add: rl_ok_def) (simp add: seeking_rl11_def)

theorem rl11_assertions_witness:
  "case rl_step (RL_write 0 0x0c) seeking_rl11 of Some t \<Rightarrow> rl_ok t | None \<Rightarrow> False"
proof -
  have "event_possible (RL_write 0 0x0c) seeking_rl11" by (simp add: event_possible_def)
  from rl11_assertions [OF seeking_rl11_ok this] show ?thesis
    by (cases "rl_step (RL_write 0 0x0c) seeking_rl11") (simp_all del: rl_step.simps)
qed

text \<open>
  The first exception is within reach of the host: writing 0 to MP while a transfer runs ends the program
  at the next round of the worker, because the register doubles as the word count of the transfer.
\<close>

lemma rl11_cleared_wordcount_ends_program:
  assumes "rl11_state s = RL11_rw_disk" "rl_worker_at s = RL_executing" "function_code s \<in> {1, 5, 6, 7}"
    "drive_ready_line (rl_drive s)"
  shows "Option.bind (rl_step (RL_write 3 0) s) (rl_step RL_worker) = None"
  using assms by (auto simp: rl_on_after_register_access_def rl_worker_step_def worker_executes_def state_readwrite_def
      get_MP_wordcount_def rl_drive_def)

lemma rl11_cleared_wordcount_example:
  "Option.bind (rl_step (RL_write 3 0) (seeking_rl11\<lparr>rl11_state := RL11_rw_disk, rl_worker_at := RL_executing, function_code := 6,
     rl_drives := \<lambda>_. seeking_drive\<lparr>drive_ready_line := True\<rparr>\<rparr>)) (rl_step RL_worker) = None"
  by (rule rl11_cleared_wordcount_ends_program) (simp_all add: rl_drive_def)

end
