(* ===== verification/RL11_Transfers.thy ===== *)
theory RL11_Transfers
  imports RL11_Safety
begin

text \<open>
  Reading a sector through the RL11: the header asked for comes under the heads within one turn of the disk, and
  then the words of that sector of the image are in the host's memory.
\<close>

subsection \<open>The headers that pass\<close>

definition header_word :: "rl0102 \<Rightarrow> nat \<Rightarrow> u16" where
  "header_word d sec = (push_bit 7 (ucast (cylinder d)) OR push_bit 6 (ucast (head d))) OR of_nat sec"

definition sector_to_come :: "rl0102 \<Rightarrow> nat" where
  "sector_to_come d = (next_sector_segment_under_heads d + 1) div 2 mod 40"

lemma header_passes:
  assumes "drive_ok d" "d_state d = RL_lock_on"
  shows "cmd_read_next_sector_header d = Some (Some [header_word d (sector_to_come d), 0, calc_crc [header_word d (sector_to_come d), 0]],
    d\<lparr>next_sector_segment_under_heads := 2 * sector_to_come d + 1\<rparr>)"
proof -
  let ?g = "next_sector_segment_under_heads d" and ?s = "sector_to_come d"
  have g: "?g < 80" and c: "cylinder d < 512" and h: "head d < 2"
    using assms by (auto simp: drive_ok_def rl_geometry_def word_less_nat_alt split: if_splits)
  have s: "?s < 40" by (simp add: sector_to_come_def)
  have p: "pass_data d = d\<lparr>next_sector_segment_under_heads := 2 * ?s\<rparr>"
  proof (cases "odd ?g")
    case True
    then obtain m where m: "?g = 2 * m + 1" by (rule oddE)
    then have "m < 40" using g by simp
    then have "(?g + 1) mod 80 = 2 * ?s" unfolding sector_to_come_def m by (cases "m = 39") simp_all
    then show ?thesis using True by (simp add: pass_data_def segment_advance_def)
  next
    case False
    then obtain m where m: "?g = 2 * m" by (auto elim: evenE)
    then have "?g = 2 * ?s" unfolding sector_to_come_def using g by simp
    then show ?thesis using False by (simp add: pass_data_def)
  qed
  have n: "(2 * ?s + 1) mod 80 = 2 * ?s + 1" using s by simp
  show ?thesis using assms(2) c h s n
    by (simp add: cmd_read_next_sector_header_def Let_def p sector_under_heads_def segment_advance_def header_word_def)
qed

lemma header_fields:
  fixes da :: u16
  shows "(push_bit 7 (drop_bit 7 da AND mask 9) OR push_bit 6 (drop_bit 6 da AND mask 1)) OR (da AND mask 6) = da"
proof (rule bit_word_eqI)
  fix n assume n: "n < LENGTH(16)"
  consider "n < 6" | "n = 6" | "7 \<le> n" by linarith
  then show "bit ((push_bit 7 (drop_bit 7 da AND mask 9) OR push_bit 6 (drop_bit 6 da AND mask 1)) OR (da AND mask 6)) n = bit da n"
    using n by cases (auto simp add: bit_or_iff bit_push_bit_iff bit_and_iff bit_drop_bit_eq bit_mask_iff simp del: mask_1 mask_Suc_0)
qed

lemma header_low:
  fixes c h s :: u16
  assumes "s AND mask 6 = s"
  shows "((push_bit 7 c OR push_bit 6 h) OR s) AND mask 6 = s"
proof -
  have "(push_bit 7 c OR push_bit 6 h) AND mask 6 = 0" by (rule bit_word_eqI) (auto simp: bit_simps)
  then show ?thesis using assms by (simp add: bit.conj_disj_distrib2)
qed

lemma header_on_track_word:
  assumes "header_on_track da d" "sec < 40"
  shows "header_word d sec = da \<longleftrightarrow> sec = unat (da AND 0x3f)"
proof -
  have m: "(0x3f :: u16) = mask 6" "(0x1ff :: u16) = mask 9" "(1 :: u16) = mask 1" by (simp_all add: mask_eq_exp_minus_1)
  have "cylinder d = ucast (drop_bit 7 da AND 0x1ff)" "head d = ucast (drop_bit 6 da AND 1)"
    using assms(1) by (simp_all add: header_on_track_def)
  moreover have "ucast (ucast x :: u32) = x" for x :: u16 by (rule bit_word_eqI) (auto simp: bit_simps)
  ultimately have c: "ucast (cylinder d) = drop_bit 7 da AND (0x1ff :: u16)" "ucast (head d) = drop_bit 6 da AND (1 :: u16)"
    by simp_all
  have "(of_nat sec :: u16) AND mask 6 = of_nat sec"
    using assms(2) by (simp only: take_bit_eq_mask [symmetric] take_bit_of_nat take_bit_nat_eq_self_iff) (simp add: take_bit_nat_eq_self)
  then have low: "header_word d sec AND mask 6 = of_nat sec" unfolding header_word_def by (rule header_low)
  have "header_word d (unat (da AND mask 6)) = (push_bit 7 (drop_bit 7 da AND mask 9) OR push_bit 6 (drop_bit 6 da AND mask 1)) OR (da AND mask 6)"
    unfolding header_word_def c m by simp
  then have hi: "header_word d (unat (da AND mask 6)) = da" by (simp only: header_fields)
  have "unat (of_nat sec :: u16) = sec" using assms(2) by (simp add: unat_of_nat)
  then show ?thesis unfolding m(1) using low hi by metis
qed

subsection \<open>Waiting for the header\<close>

fun worker_rounds :: "nat \<Rightarrow> rl11 \<Rightarrow> rl11 option" where
  "worker_rounds 0 s = Some s"
| "worker_rounds (Suc k) s = Option.bind (worker_rounds k s) (rl_step RL_worker)"

definition turned :: "nat \<Rightarrow> u16 list \<Rightarrow> rl11 \<Rightarrow> rl11" where
  "turned g h s = (upd_rl (selected_drive_unitno s) (\<lambda>d. d\<lparr>next_sector_segment_under_heads := g\<rparr>) s)\<lparr>mpr_silo := h\<rparr>"

lemma turned_sel [simp]:
  "rl_drive (turned g h s) = (rl_drive s)\<lparr>next_sector_segment_under_heads := g\<rparr>"
  "selected_drive_unitno (turned g h s) = selected_drive_unitno s" "rl11_state (turned g h s) = rl11_state s"
  "function_code (turned g h s) = function_code s" "rl_worker_at (turned g h s) = rl_worker_at s"
  "dato (turned g h s) = dato s" "dati (turned g h s) = dati s" "rl_memory (turned g h s) = rl_memory s"
  "rl_limit (turned g h s) = rl_limit s" "get_qunibus_address (turned g h s) = get_qunibus_address s"
  "get_MP_wordcount (turned g h s) = get_MP_wordcount s" "turned g h (turned g' h' s) = turned g h s"
  by (simp_all add: turned_def rl_drive_def get_qunibus_address_def get_MP_wordcount_def upd_rl_def)

lemma turned_same: "s = turned (next_sector_segment_under_heads (rl_drive s)) (mpr_silo s) s"
proof -
  have "d\<lparr>next_sector_segment_under_heads := next_sector_segment_under_heads d\<rparr> = d" for d :: rl0102 by (cases d) simp
  then have "upd_rl n (\<lambda>d. d\<lparr>next_sector_segment_under_heads := next_sector_segment_under_heads (rl_drives s n)\<rparr>) s = s" for n
    unfolding upd_rl_def by (cases s) simp
  then show ?thesis unfolding turned_def rl_drive_def by (cases s) simp
qed

text \<open>A transfer that looks for the sector of its disk address.\<close>

definition seeks_sector :: "rl11 \<Rightarrow> bool" where
  "seeks_sector s \<longleftrightarrow> rl_ok s \<and> rl_worker_at s = RL_executing \<and> rl11_state s = RL11_rw_disk \<and> function_code s \<in> {1, 5, 6} \<and>
     d_state (rl_drive s) = RL_lock_on \<and> drive_ready_line (rl_drive s) \<and> header_on_track (dati s 2) (rl_drive s) \<and>
     get_MP_wordcount s \<noteq> 0"

definition target_sector :: "rl11 \<Rightarrow> nat" where "target_sector s = unat (dati s 2 AND 0x3f)"

lemma target_sector_less: "seeks_sector s \<Longrightarrow> target_sector s < 40"
  by (simp add: seeks_sector_def header_on_track_def target_sector_def word_less_nat_alt)

lemma turned_ok: "rl_ok s \<Longrightarrow> g < 80 \<Longrightarrow> rl_ok (turned g h s)"
  unfolding turned_def rl_ok_upd(7)
  by (rule rl_ok_upd_rl, assumption, drule rl_ok_drive, assumption) (simp add: drive_ok_def rl_geometry_def rl_running_def)

lemma turned_seeks: "seeks_sector s \<Longrightarrow> g < 80 \<Longrightarrow> seeks_sector (turned g h s)"
  by (simp add: seeks_sector_def turned_ok header_on_track_def)

lemma header_round:
  assumes "seeks_sector s"
  shows "\<exists>h. rl_step RL_worker s =
    (if sector_to_come (rl_drive s) = target_sector s then rw_sector (turned (2 * sector_to_come (rl_drive s) + 1) h s)
     else Some (turned (2 * sector_to_come (rl_drive s) + 1) h s))"
proof -
  let ?d = "rl_drive s" and ?sec = "sector_to_come (rl_drive s)"
  let ?w = "header_word ?d ?sec"
  have s: "rl_ok s" "rl_worker_at s = RL_executing" "rl11_state s = RL11_rw_disk" "function_code s \<in> {1, 5, 6}"
    "d_state ?d = RL_lock_on" "drive_ready_line ?d" "header_on_track (dati s 2) ?d" "get_MP_wordcount s \<noteq> 0"
    using assms unfolding seeks_sector_def by simp_all
  have d: "drive_ok ?d" using rl_ok_drive [OF s(1) rl_ok_selected [OF s(1)]] by (simp add: rl_drive_def)
  have sec: "?sec < 40" by (simp add: sector_to_come_def)
  have w: "?w = dati s 2 \<longleftrightarrow> ?sec = target_sector s" using header_on_track_word [OF s(7) sec] by (simp add: target_sector_def)
  have t: "(upd_rl (selected_drive_unitno s) (\<lambda>_. ?d\<lparr>next_sector_segment_under_heads := g\<rparr>) s)\<lparr>mpr_silo := h\<rparr> = turned g h s" for g h
    by (simp add: turned_def upd_rl_def rl_drive_def)
  have "rw_disk s =
    (if ?w = dati s 2 then rw_sector (turned (2 * ?sec + 1) [?w, 0, calc_crc [?w, 0]] s) else Some (turned (2 * ?sec + 1) [?w, 0, calc_crc [?w, 0]] s))"
    using s(4,7) by (auto simp: rw_disk_def header_passes [OF d s(5)] Let_def t turned_def)
  moreover have "rl_step RL_worker s = rw_disk s"
    using s by (auto simp: rl_worker_step_def worker_executes_def state_readwrite_def)
  ultimately show ?thesis unfolding w by metis
qed

lemma sectors_to_wait:
  fixes a b k :: nat
  assumes "a < 40" "b < 40"
  shows "k < (b + 40 - a) mod 40 \<Longrightarrow> (a + k) mod 40 \<noteq> b" "(a + (b + 40 - a) mod 40) mod 40 = b"
proof -
  have e1: "(b + 40 - a) mod 40 = b - a" if "a \<le> b"
  proof -
    have "b + 40 - a = (b - a) + 40" "b - a < 40" using that assms by linarith+
    then show ?thesis by (simp only: mod_add_self2 mod_less)
  qed
  have e2: "(b + 40 - a) mod 40 = b + 40 - a" if "\<not> a \<le> b" by (rule mod_less) (use that assms in linarith)
  have wrap: "n mod 40 = n - 40" if "\<not> n < 40" "n < 80" for n :: nat using that by (simp add: mod_if)
  show "(a + (b + 40 - a) mod 40) mod 40 = b"
  proof (cases "a \<le> b")
    case True
    then show ?thesis using assms(2) by (simp only: e1 le_add_diff_inverse mod_less)
  next
    case False
    have "a + (b + 40 - a) = b + 40" using assms by linarith
    then show ?thesis using False assms(2) by (simp only: e2 mod_add_self2 mod_less)
  qed
  show "(a + k) mod 40 \<noteq> b" if "k < (b + 40 - a) mod 40"
  proof (cases "a + k < 40")
    case True
    then show ?thesis using that e1 e2 by (cases "a \<le> b") simp_all
  next
    case False
    then have "\<not> a \<le> b" using that e1 assms by auto
    then have "a + k < b + 40" using that e2 by simp
    then show ?thesis using wrap [OF False] False assms by simp
  qed
qed

definition rounds_to_wait :: "rl11 \<Rightarrow> nat" where
  "rounds_to_wait s = (target_sector s + 40 - sector_to_come (rl_drive s)) mod 40"

lemma wait_rounds:
  assumes "seeks_sector s" "k \<le> rounds_to_wait s"
  shows "\<exists>g h. worker_rounds k s = Some (turned g h s) \<and> g < 80 \<and> (g + 1) div 2 mod 40 = (sector_to_come (rl_drive s) + k) mod 40"
  using assms(2)
proof (induction k)
  case 0
  have "next_sector_segment_under_heads (rl_drive s) < 80"
    using assms(1) rl_ok_drive [OF _ rl_ok_selected] by (simp add: seeks_sector_def rl_drive_def drive_segment)
  then show ?case using turned_same [of s] by (intro exI [of _ "next_sector_segment_under_heads (rl_drive s)"] exI [of _ "mpr_silo s"])
    (simp add: sector_to_come_def)
next
  case (Suc k)
  let ?a = "sector_to_come (rl_drive s)"
  obtain g h where k: "worker_rounds k s = Some (turned g h s)" "g < 80" "(g + 1) div 2 mod 40 = (?a + k) mod 40"
    using Suc by auto
  have a: "?a < 40" by (simp add: sector_to_come_def)
  have sec: "sector_to_come (rl_drive (turned g h s)) = (?a + k) mod 40" using k(3) by (simp add: sector_to_come_def)
  have ne: "(?a + k) mod 40 \<noteq> target_sector s"
    using sectors_to_wait(1) [OF a target_sector_less [OF assms(1)]] Suc.prems by (simp add: rounds_to_wait_def)
  have t: "target_sector (turned g h s) = target_sector s" by (simp add: target_sector_def)
  obtain h' where "rl_step RL_worker (turned g h s) = (if (?a + k) mod 40 = target_sector s
      then rw_sector (turned (2 * ((?a + k) mod 40) + 1) h' (turned g h s)) else Some (turned (2 * ((?a + k) mod 40) + 1) h' (turned g h s)))"
    using header_round [OF turned_seeks [OF assms(1) k(2)], of h] unfolding sec t by blast
  then have "rl_step RL_worker (turned g h s) = Some (turned (2 * ((?a + k) mod 40) + 1) h' s)" using ne by (simp del: rl_step.simps)
  moreover have "(2 * ((?a + k) mod 40) + 1 + 1) div 2 mod 40 = (?a + Suc k) mod 40" by (simp add: mod_Suc_eq)
  moreover have "2 * ((?a + k) mod 40) + 1 < 80" using mod_less_divisor [of 40 "?a + k"] by linarith
  ultimately show ?case using k(1)
    by (intro exI [where x = "2 * ((?a + k) mod 40) + 1"], intro exI [where x = h']) (simp del: rl_step.simps)
qed

lemma sector_found:
  assumes "seeks_sector s"
  shows "\<exists>h. worker_rounds (Suc (rounds_to_wait s)) s = rw_sector (turned (2 * target_sector s + 1) h s)"
proof -
  let ?a = "sector_to_come (rl_drive s)"
  obtain g h where k: "worker_rounds (rounds_to_wait s) s = Some (turned g h s)" "g < 80" "(g + 1) div 2 mod 40 = (?a + rounds_to_wait s) mod 40"
    using wait_rounds [OF assms order_refl] by blast
  have a: "?a < 40" by (simp add: sector_to_come_def)
  have sec: "sector_to_come (rl_drive (turned g h s)) = target_sector s"
    using k(3) sectors_to_wait(2) [OF a target_sector_less [OF assms]] by (simp add: sector_to_come_def rounds_to_wait_def)
  have t: "target_sector (turned g h s) = target_sector s" by (simp add: target_sector_def)
  obtain h' where "rl_step RL_worker (turned g h s) = (if target_sector s = target_sector s
      then rw_sector (turned (2 * target_sector s + 1) h' (turned g h s)) else Some (turned (2 * target_sector s + 1) h' (turned g h s)))"
    using header_round [OF turned_seeks [OF assms k(2)], of h] unfolding sec t by blast
  then have "rl_step RL_worker (turned g h s) = rw_sector (turned (2 * target_sector s + 1) h' s)" by (simp del: rl_step.simps)
  then show ?thesis using k(1) by (simp del: rl_step.simps) blast
qed

subsection \<open>The sector is transferred\<close>

definition sector_words :: "binfile \<Rightarrow> nat \<Rightarrow> u16 list" where
  "sector_words f lba = bytes_to_words (take 256 (drop (256 * lba) (content f)))"

definition rl_lba :: "rl11 \<Rightarrow> nat" where
  "rl_lba s = (2 * unat (cylinder (rl_drive s)) + unat (head (rl_drive s))) * 40 + target_sector s"

lemma same_cartridge: "cartridge d = c \<Longrightarrow> d\<lparr>cartridge := c\<rparr> = d"
  by (cases d) simp

lemma binfile_read_good:
  assumes "f_open f" "\<not> f_fail f" "pos + len \<le> length (content f)" "0 < len"
  shows "binfile_read pos len f = Some (take len (drop pos (content f)), f)"
  using assms by (cases f) (simp add: binfile_read_def Let_def)

lemma sector_offset_lba:
  assumes "drive_ok d" "d_state d = RL_lock_on"
  shows "sector_offset d = 256 * ((2 * unat (cylinder d) + unat (head d)) * 40 + sector_under_heads d)"
proof -
  have b: "unat (cylinder d) < 512" "unat (head d) < 2"
    using assms by (auto simp: drive_ok_def rl_geometry_def word_less_nat_alt split: if_splits)
  then have "unat (2 * cylinder d + head d) = 2 * unat (cylinder d) + unat (head d)" by (simp add: unat_word_ariths)
  then show ?thesis by (simp add: sector_offset_def)
qed

lemma data_passes:
  assumes "drive_ok d" "d_state d = RL_lock_on" "next_sector_segment_under_heads d = 2 * sec + 1"
    "cartridge d = Some f" "\<not> f_fail f" "256 * lba + 256 \<le> length (content f)"
    "lba = (2 * unat (cylinder d) + unat (head d)) * 40 + sec"
  shows "cmd_read_next_sector_data d = Some (Some (sector_words f lba), segment_advance d)"
proof -
  have o: "f_open f" using assms(1,2,4) by (auto simp: drive_ok_def rl_running_def)
  have p: "pass_header d = d" using assms(3) by (simp add: pass_header_def)
  have "sector_offset d = 256 * lba" using sector_offset_lba [OF assms(1,2)] assms(3,7) by (simp add: sector_under_heads_def)
  then have "binfile_read (sector_offset d) 256 f = Some (take 256 (drop (256 * lba) (content f)), f)"
    using binfile_read_good [OF o assms(5,6)] by simp
  then show ?thesis using assms(2,4)
    by (simp add: cmd_read_next_sector_data_def Let_def p same_cartridge sector_words_def)
qed

lemma length_sector_words: "256 * lba + 256 \<le> length (content f) \<Longrightarrow> length (sector_words f lba) = 128"
  by (simp add: sector_words_def length_bytes_to_words)

lemma dma_end_answered: "\<forall>i<n. m (a + 2 * of_nat i) \<noteq> None \<Longrightarrow> dma_end m a n = a + 2 * of_nat n - 2"
proof (induction n arbitrary: a)
  case (Suc n)
  have "m a \<noteq> None" using Suc.prems [rule_format, of 0] by simp
  moreover have "\<forall>i<n. m (a + 2 + 2 * of_nat i) \<noteq> None"
  proof (intro allI impI)
    fix i assume "i < n"
    then have x: "m (a + 2 * of_nat (Suc i)) \<noteq> None" using Suc.prems by blast
    have e: "a + 2 * of_nat (Suc i) = a + 2 + 2 * of_nat i" by (simp add: algebra_simps)
    show "m (a + 2 + 2 * of_nat i) \<noteq> None" using x unfolding e .
  qed
  ultimately show ?case using Suc.IH [of "a + 2"] by (auto simp: algebra_simps)
qed simp

lemma address_kept:
  fixes a :: u32
  assumes "\<not> bit a 0"
  shows "push_bit 16 (drop_bit 16 a) OR ucast (ucast a AND 0xfffe :: u16) = a"
proof (rule bit_word_eqI)
  fix n assume n: "n < LENGTH(32)"
  have m: "bit (0xfffe :: u16) n \<longleftrightarrow> 0 < n \<and> n < 16"
  proof -
    have "(0xfffe :: u16) = NOT 1" by simp
    then show ?thesis by (simp only: bit_not_iff) (auto simp: bit_1_iff intro: gr0I)
  qed
  show "bit (push_bit 16 (drop_bit 16 a) OR ucast (ucast a AND 0xfffe :: u16)) n = bit a n"
    using n m assms by (cases "n = 0"; cases "n < 16") (auto simp: bit_or_iff bit_push_bit_iff bit_and_iff bit_drop_bit_eq bit_ucast_iff)
qed

lemma get_after_update:
  assumes "\<not> bit a 0"
  shows "get_qunibus_address (update_qunibus_address a s) = a"
proof -
  have "get_qunibus_address (update_qunibus_address a s) = push_bit 16 (drop_bit 16 a) OR ucast (ucast a AND 0xfffe :: u16)"
    by (simp add: update_qunibus_address_def get_qunibus_address_def Let_def set_dati_def)
  then show ?thesis using address_kept [OF assms] by simp
qed

lemma even_steps: "\<not> bit a 0 \<Longrightarrow> \<not> bit (a + 2 * of_nat n :: u32) 0"
  by (simp add: bit_0)

lemma done_frame:
  assumes "do_command_done s = Some t"
  shows "rl_memory t = rl_memory s" "rl_drives t = rl_drives s" "dato t = dato s" "i \<noteq> 0 \<Longrightarrow> dati t i = dati s i"
    "qunibus_address_msb t = qunibus_address_msb s" "rl11_state t = RL11_ready"
  using assms by (auto simp: do_command_done_def change_state_INTR_def do_controller_status_INTR_def change_state_def
      do_controller_status_def Option.bind_eq_Some_conv split: if_splits)

lemma rl_words_left:
  fixes count :: u16
  shows "(if 128 \<le> count then count - 128 else 0) = count - of_nat (min (unat count) 128)"
    "(if 128 \<le> count then count - 128 else 0) = 0 \<longleftrightarrow> unat count \<le> 128"
proof -
  have "count - 128 = 0 \<longleftrightarrow> count = 128" by simp
  also have "\<dots> \<longleftrightarrow> unat count = 128" by (simp add: word_unat_eq_iff)
  finally show "(if 128 \<le> count then count - 128 else 0) = count - of_nat (min (unat count) 128)"
    "(if 128 \<le> count then count - 128 else 0) = 0 \<longleftrightarrow> unat count \<le> 128"
    by (cases "128 \<le> unat count"; simp add: word_le_nat_alt)+
qed

lemma next_sector_result:
  assumes "next_sector da count s = Some t"
  shows "rl_memory t = rl_memory s" "rl_drives t = rl_drives s" "dati t 2 = da + 1" "get_qunibus_address t = get_qunibus_address s"
    "get_MP_wordcount t = count - of_nat (min (unat count) 128)"
    "rl11_state t = (if unat count \<le> 128 then RL11_ready else RL11_rw_disk)"
proof -
  define rest where "rest = (if 128 \<le> count then count - 128 else 0)"
  let ?s = "set_MP_wordcount rest (set_dati 2 (da + 1) s)"
  have n: "(if rest = 0 then do_command_done ?s else Some (change_state RL11_rw_disk ?s)) = Some t"
    using assms unfolding next_sector_def Let_def rest_def .
  have u: "rl_memory t = rl_memory ?s \<and> rl_drives t = rl_drives ?s \<and> dato t = dato ?s \<and> dati t 1 = dati ?s 1 \<and> dati t 2 = dati ?s 2 \<and>
      qunibus_address_msb t = qunibus_address_msb ?s \<and> rl11_state t = (if rest = 0 then RL11_ready else RL11_rw_disk)"
  proof (cases "rest = 0")
    case True
    then have d: "do_command_done ?s = Some t" using n by simp
    show ?thesis using done_frame [OF d] True by simp
  next
    case False
    then have "t = change_state RL11_rw_disk ?s" using n by simp
    then show ?thesis using False by (simp add: change_state_def do_controller_status_def)
  qed
  have r: "rest = count - of_nat (min (unat count) 128)" "rest = 0 \<longleftrightarrow> unat count \<le> 128"
    unfolding rest_def by (rule rl_words_left)+
  show "rl_memory t = rl_memory s" "rl_drives t = rl_drives s" "dati t 2 = da + 1"
    using u by (simp_all add: set_MP_wordcount_def)
  have "qunibus_address_msb t = qunibus_address_msb s" "dati t 1 = dati s 1" using u by (simp_all add: set_MP_wordcount_def)
  then show "get_qunibus_address t = get_qunibus_address s" by (simp only: get_qunibus_address_def)
  have "dato t 3 = - rest" using u by (simp add: set_MP_wordcount_def)
  then show "get_MP_wordcount t = count - of_nat (min (unat count) 128)" unfolding get_MP_wordcount_def r(1) [symmetric] by simp
  show "rl11_state t = (if unat count \<le> 128 then RL11_ready else RL11_rw_disk)" using u unfolding r(2) by blast
qed

subsection \<open>A read copies a sector to memory\<close>

text \<open>What a read of the sector from the image \<open>f\<close> needs: the sector is in the file, and the host's memory answers.\<close>

definition words_to_move :: "rl11 \<Rightarrow> nat" where "words_to_move s = min (unat (get_MP_wordcount s)) 128"

definition read_possible :: "binfile \<Rightarrow> rl11 \<Rightarrow> bool" where
  "read_possible f s \<longleftrightarrow> cartridge (rl_drive s) = Some f \<and> \<not> f_fail f \<and> 256 * rl_lba s + 256 \<le> length (content f) \<and>
     \<not> bit (get_qunibus_address s) 0 \<and> unat (get_qunibus_address s) + 2 * words_to_move s \<le> unat (rl_limit s) \<and>
     (\<forall>i<words_to_move s. rl_memory s (get_qunibus_address s + 2 * of_nat i) \<noteq> None)"

lemma read_possible_fits: "read_possible f s \<Longrightarrow> get_qunibus_address s + 2 * of_nat (words_to_move s) \<le> rl_limit s"
proof -
  assume r: "read_possible f s"
  have n: "words_to_move s \<le> 128" by (simp add: words_to_move_def)
  have "unat (get_qunibus_address s) + 2 * words_to_move s < 2 ^ 32"
    using r unsigned_less [of "rl_limit s", where 'a = nat] by (simp add: read_possible_def)
  then have "unat (get_qunibus_address s + 2 * of_nat (words_to_move s)) = unat (get_qunibus_address s) + 2 * words_to_move s"
    using n by (simp add: unat_word_ariths unat_of_nat)
  then show ?thesis using r by (simp add: word_le_nat_alt read_possible_def)
qed

lemma data_of_target:
  assumes "seeks_sector s" "read_possible f s" "u = turned (2 * target_sector s + 1) h s"
  shows "read_into_silo u = Some (sector_words f (rl_lba s), upd_rl (selected_drive_unitno s) (\<lambda>_. segment_advance (rl_drive u)) u)"
proof -
  have ok: "rl_ok s" "d_state (rl_drive s) = RL_lock_on" using assms(1) by (simp_all add: seeks_sector_def)
  have u: "rl_ok u" unfolding assms(3) using target_sector_less [OF assms(1)] by (intro turned_ok [OF ok(1)]) simp
  have d: "drive_ok (rl_drive u)" using rl_ok_drive [OF u rl_ok_selected [OF u]] by (simp add: rl_drive_def)
  have "cmd_read_next_sector_data (rl_drive u) = Some (Some (sector_words f (rl_lba s)), segment_advance (rl_drive u))"
    by (rule data_passes [OF d, where sec = "target_sector s"]) (use assms ok in \<open>simp_all add: read_possible_def rl_lba_def\<close>)
  then show ?thesis by (simp add: read_into_silo_def assms(3))
qed

lemma memory_written:
  assumes "read_possible f s" "length ws = 128" "0 < words_to_move s"
  shows "rl_dma To_memory ws (words_to_move s) (upd_rl k g (turned p h s)) =
    Some (ws, update_qunibus_address (get_qunibus_address s + 2 * of_nat (words_to_move s))
      ((upd_rl k g (turned p h s))\<lparr>rl_memory := fst (bus_write (rl_memory s) (get_qunibus_address s) (take (words_to_move s) ws)),
         error_dma_timeout := False\<rparr>))" (is "rl_dma _ _ ?n ?u = _")
    "i < words_to_move s \<Longrightarrow> fst (bus_write (rl_memory s) (get_qunibus_address s) (take (words_to_move s) ws)) (get_qunibus_address s + 2 * of_nat i) = Some (ws ! i)"
    "\<forall>i<words_to_move s. x \<noteq> get_qunibus_address s + 2 * of_nat i \<Longrightarrow>
      fst (bus_write (rl_memory s) (get_qunibus_address s) (take (words_to_move s) ws)) x = rl_memory s x"
proof -
  let ?a = "get_qunibus_address s" and ?w = "take ?n ws"
  have n: "?n \<le> 128" by (simp add: words_to_move_def)
  then have l: "length ?w = ?n" using assms(2) by simp
  have fits: "unat ?a + 2 * length ?w \<le> 2 ^ 32"
    using assms(1) unsigned_less [of "rl_limit s", where 'a = nat] unfolding l by (simp add: read_possible_def)
  have ans: "\<forall>i<length ?w. rl_memory s (?a + 2 * of_nat i) \<noteq> None" using assms(1) unfolding l by (simp add: read_possible_def)
  note b = bus_write_ok [OF fits ans]
  have ga: "get_qunibus_address ?u = ?a" "rl_memory ?u = rl_memory s" "rl_limit ?u = rl_limit s"
    by (simp_all add: get_qunibus_address_def turned_def)
  have e: "dma_end (rl_memory s) ?a ?n + 2 = ?a + 2 * of_nat ?n"
    using dma_end_answered [of ?n "rl_memory s" ?a] ans unfolding l by simp
  obtain m where m: "bus_write (rl_memory s) ?a ?w = (m, True)" using b(1) by (cases "bus_write (rl_memory s) ?a ?w") simp
  have "dma_spec (rl_limit s) To_memory ?a ws ?n (rl_memory s) = Some (True, ws, m)"
    using n assms(2,3) read_possible_fits [OF assms(1)] m by (simp add: dma_spec_def)
  then show "rl_dma To_memory ws ?n ?u = Some (ws, update_qunibus_address (?a + 2 * of_nat ?n)
      (?u\<lparr>rl_memory := fst (bus_write (rl_memory s) ?a ?w), error_dma_timeout := False\<rparr>))"
    unfolding rl_dma_def Let_def ga e by (simp add: m)
  show "fst (bus_write (rl_memory s) ?a ?w) (?a + 2 * of_nat i) = Some (ws ! i)" if "i < ?n"
    using b(2) [of i] that l by simp
  show "fst (bus_write (rl_memory s) ?a ?w) x = rl_memory s x" if "\<forall>i<?n. x \<noteq> ?a + 2 * of_nat i"
    using b(3) [of x] that l by simp
qed

lemma read_round:
  assumes "seeks_sector s" "read_possible f s" "function_code s = 6" "rw_sector (turned (2 * target_sector s + 1) h s) = Some t"
  shows "i < words_to_move s \<Longrightarrow> rl_memory t (get_qunibus_address s + 2 * of_nat i) = Some (sector_words f (rl_lba s) ! i)"
    "\<forall>i<words_to_move s. x \<noteq> get_qunibus_address s + 2 * of_nat i \<Longrightarrow> rl_memory t x = rl_memory s x"
    "dati t 2 = dati s 2 + 1" "get_qunibus_address t = get_qunibus_address s + 2 * of_nat (words_to_move s)"
    "get_MP_wordcount t = get_MP_wordcount s - of_nat (words_to_move s)"
    "rl11_state t = (if unat (get_MP_wordcount s) \<le> 128 then RL11_ready else RL11_rw_disk)"
    "cartridge (rl_drives t d) = cartridge (rl_drives s d)"
proof -
  define p where "p = 2 * target_sector s + 1"
  let ?u = "turned p h s" and ?w = "sector_words f (rl_lba s)" and ?n = "words_to_move s"
  let ?v = "upd_rl (selected_drive_unitno s) (\<lambda>_. segment_advance (rl_drive ?u)) ?u"
  let ?m = "fst (bus_write (rl_memory s) (get_qunibus_address s) (take ?n ?w))"
  let ?x = "update_qunibus_address (get_qunibus_address s + 2 * of_nat ?n) (?v\<lparr>rl_memory := ?m, error_dma_timeout := False\<rparr>)"
  have l: "length ?w = 128" using assms(2) by (intro length_sector_words) (simp add: read_possible_def)
  have n: "0 < ?n" using assms(1) by (simp add: words_to_move_def seeks_sector_def unat_gt_0)
  note d = data_of_target [OF assms(1,2) refl, of h, folded p_def] and m = memory_written [OF assms(2) l n]
  have "transfer_sector ?n ?u = Some (?w, empty_silo, ?x)"
    using assms(3) by (simp add: transfer_sector_def is_read_def d m(1))
  moreover have "\<not> error_dma_timeout ?x" "function_code ?x = 6" using assms(3) by (simp_all add: update_qunibus_address_def Let_def)
  ultimately have "next_sector (dati s 2) (get_MP_wordcount s) ?x = Some t"
    using assms(4) [folded p_def] by (simp add: rw_sector_def Let_def words_to_move_def [symmetric] finish_sector_def)
  note t = next_sector_result [OF this]
  have x: "rl_memory ?x = ?m" "rl_drives ?x = rl_drives ?v" by (simp_all add: update_qunibus_address_def Let_def)
  show "i < ?n \<Longrightarrow> rl_memory t (get_qunibus_address s + 2 * of_nat i) = Some (?w ! i)"
    unfolding t(1) x(1) by (rule m(2))
  show "\<forall>i<?n. x \<noteq> get_qunibus_address s + 2 * of_nat i \<Longrightarrow> rl_memory t x = rl_memory s x"
    unfolding t(1) x(1) by (rule m(3))
  show "dati t 2 = dati s 2 + 1" by (rule t(3))
  have "\<not> bit (get_qunibus_address s + 2 * of_nat ?n) 0" using assms(2) by (intro even_steps) (simp add: read_possible_def)
  then show "get_qunibus_address t = get_qunibus_address s + 2 * of_nat ?n" unfolding t(4) by (rule get_after_update)
  show "get_MP_wordcount t = get_MP_wordcount s - of_nat ?n" "rl11_state t = (if unat (get_MP_wordcount s) \<le> 128 then RL11_ready else RL11_rw_disk)"
    using t(5,6) unfolding words_to_move_def by simp_all
  show "cartridge (rl_drives t d) = cartridge (rl_drives s d)"
    unfolding t(2) x(2) by (simp add: turned_def segment_advance_def rl_drive_def)
qed

text \<open>
  Property C16. Read Data of the RL11, for one sector: within one turn of the disk (40 rounds of the worker) the header the
  disk address names comes under the heads, and then up to 128 words of that sector of the image are in the host's memory
  at the bus address and nothing else there has changed; the disk address is one sector further, the bus address and the
  word count have moved by the words transferred, and the controller is ready when none are left.
\<close>

theorem rl_read_copies_sector:
  assumes "seeks_sector s" "read_possible f s" "function_code s = 6"
  shows "\<exists>k\<le>40. \<exists>t. worker_rounds k s = Some t \<and> rl_ok t \<and>
    (\<forall>i<words_to_move s. rl_memory t (get_qunibus_address s + 2 * of_nat i) = Some (sector_words f (rl_lba s) ! i)) \<and>
    (\<forall>x. (\<forall>i<words_to_move s. x \<noteq> get_qunibus_address s + 2 * of_nat i) \<longrightarrow> rl_memory t x = rl_memory s x) \<and>
    dati t 2 = dati s 2 + 1 \<and> get_qunibus_address t = get_qunibus_address s + 2 * of_nat (words_to_move s) \<and>
    get_MP_wordcount t = get_MP_wordcount s - of_nat (words_to_move s) \<and>
    rl11_state t = (if unat (get_MP_wordcount s) \<le> 128 then RL11_ready else RL11_rw_disk) \<and>
    (\<forall>d. cartridge (rl_drives t d) = cartridge (rl_drives s d))"
proof -
  obtain h where h: "worker_rounds (Suc (rounds_to_wait s)) s = rw_sector (turned (2 * target_sector s + 1) h s)"
    using sector_found [OF assms(1)] by blast
  have k: "Suc (rounds_to_wait s) \<le> 40"
    using mod_less_divisor [of 40 "target_sector s + 40 - sector_to_come (rl_drive s)"] by (simp add: rounds_to_wait_def)
  have ok: "rl_ok s" using assms(1) by (simp add: seeks_sector_def)
  let ?u = "turned (2 * target_sector s + 1) h s"
  have "rl_ok ?u" using target_sector_less [OF assms(1)] by (intro turned_ok [OF ok]) simp
  moreover have "rl_dma_fits ?u" using read_possible_fits [OF assms(2)] by (simp add: rl_dma_fits_def words_to_move_def)
  ultimately have "fine (rw_sector ?u)" using assms(1,3) by (intro rw_sector_fine) (simp_all add: seeks_sector_def)
  then obtain t where t: "rw_sector ?u = Some t" "rl_ok t" unfolding fine_iff by blast
  note r = read_round [OF assms t(1)]
  show ?thesis
    using k h t r by (intro exI [where x = "Suc (rounds_to_wait s)"] exI [where x = t] conjI allI impI) (simp_all del: worker_rounds.simps)
qed

text \<open>Two words of sector 3 of an image that holds octal 021 in every byte.\<close>

definition reading_rl11 :: rl11 where
  "reading_rl11 = seeking_rl11\<lparr>rl11_state := RL11_rw_disk, rl_worker_at := RL_executing, function_code := 6,
     dati := (\<lambda>_. 0)(2 := 3), dato := (\<lambda>_. 0)(3 := - 2),
     rl_drives := \<lambda>_. seeking_drive\<lparr>d_state := RL_lock_on, head := 0, drive_ready_line := True,
       cartridge := Some (opened_binfile (replicate 1024 0x11) False)\<rparr>\<rparr>"

lemma bytes_to_words_replicate: "bytes_to_words (replicate (2 * n) 0x11) = replicate n 0x1111"
  by (induction n) simp_all

lemma reading_drive: "drive_ok (rl_drives reading_rl11 n)"
  using seeking_drive(1) by (simp add: reading_rl11_def drive_ok_def rl_geometry_def rl_running_def seeking_drive_def opened_binfile_def)

lemma reading_rl11_seeks: "seeks_sector reading_rl11"
proof -
  have "rl_ok reading_rl11" using reading_drive unfolding rl_ok_def by (simp add: reading_rl11_def seeking_rl11_def)
  then show ?thesis
    by (simp add: seeks_sector_def) (simp add: reading_rl11_def seeking_rl11_def seeking_drive_def rl_drive_def header_on_track_def get_MP_wordcount_def)
qed

lemma reading_rl11_sel:
  "words_to_move reading_rl11 = 2" "get_qunibus_address reading_rl11 = 0" "rl_lba reading_rl11 = 3"
  "function_code reading_rl11 = 6" "rl_memory reading_rl11 = (\<lambda>_. Some 0)"
  by (simp_all add: reading_rl11_def seeking_rl11_def seeking_drive_def words_to_move_def get_MP_wordcount_def get_qunibus_address_def
      rl_lba_def rl_drive_def target_sector_def)

lemma reading_rl11_possible: "read_possible (opened_binfile (replicate 1024 0x11) False) reading_rl11"
  unfolding read_possible_def reading_rl11_sel
  by (simp add: reading_rl11_def seeking_rl11_def rl_drive_def opened_binfile_def)

theorem rl_read_copies_sector_witness:
  "\<exists>k\<le>40. \<exists>t. worker_rounds k reading_rl11 = Some t \<and> rl_memory t 0 = Some 0x1111 \<and> rl_memory t 2 = Some 0x1111 \<and>
     rl_memory t 4 = Some 0 \<and> rl11_state t = RL11_ready"
proof -
  have w: "sector_words (opened_binfile (replicate 1024 0x11) False) 3 = replicate 128 0x1111"
    using bytes_to_words_replicate [of 128] by (simp add: sector_words_def opened_binfile_def)
  have c: "unat (get_MP_wordcount reading_rl11) = 2" by (simp add: reading_rl11_def get_MP_wordcount_def)
  obtain k t where t: "k \<le> 40" "worker_rounds k reading_rl11 = Some t"
    "\<forall>i<2. rl_memory t (2 * of_nat i) = Some (replicate 128 0x1111 ! i)"
    "\<forall>x. (\<forall>i<2. x \<noteq> 2 * of_nat i) \<longrightarrow> rl_memory t x = Some 0" "rl11_state t = RL11_ready"
    using rl_read_copies_sector [OF reading_rl11_seeks reading_rl11_possible reading_rl11_sel(4)]
    unfolding reading_rl11_sel w c by auto
  have "rl_memory t 0 = Some 0x1111" "rl_memory t 2 = Some 0x1111"
    using t(3) [rule_format, of 0] t(3) [rule_format, of 1] by simp_all
  moreover have "rl_memory t 4 = Some 0" using t(4) by (auto simp: less_2_cases_iff)
  ultimately show ?thesis using t(1,2,5) by blast
qed

end
