(* ===== verification/RF11.thy ===== *)
theory RF11
  imports Device_View Bus_Memory Storage_Image
begin

text \<open>
  The RF11 fixed-head disk controller with its RS11 drive (\<^verbatim>\<open>rf11.cpp\<close>, \<^verbatim>\<open>rs11.cpp\<close>): registers, the
  worker's states, transfers between the image and memory. WC, CMA, DAR and DBR are passive registers, so the bus and
  the controller share one value, \<open>dati\<close>. The buffer of a transfer is an array on the worker's stack: what it holds
  before it is filled, and after a DMA that failed, is an argument of the step.
\<close>

subsection \<open>State\<close>

datatype rf_worker_state = RF_idle | RF_execute | RF_finish

record rf11 = device_view +
  rf_dcs :: u16
  rf_wc :: u16
  rf_cma :: u16
  rf_dar :: u16
  rf_dae :: u16
  rf_dbr :: u16
  rf_mar :: u16
  rf_new_command_ready :: bool
  rf_worker_state :: rf_worker_state
  rs11_image :: "binfile option"
  rf_init_asserted :: bool
  rf_memory :: bus_memory
  rf_limit :: u32
  rf_interrupts :: nat

text \<open>The bit fields of DCS and DAE.\<close>

definition put_field :: "u16 \<Rightarrow> u16 \<Rightarrow> u16 \<Rightarrow> u16" where "put_field m v w = (w AND NOT m) OR (v AND m)"

definition DCS_GO :: u16 where "DCS_GO = 0x0001"
definition DCS_IE :: u16 where "DCS_IE = 0x0040"
definition DCS_RDY :: u16 where "DCS_RDY = 0x0080"
definition DCS_DISK_CLEAR :: u16 where "DCS_DISK_CLEAR = 0x0100"
definition DCS_NED :: u16 where "DCS_NED = 0x0800"
definition DCS_WCE :: u16 where "DCS_WCE = 0x2000"
definition DCS_FRZ :: u16 where "DCS_FRZ = 0x4000"
definition DCS_ERR :: u16 where "DCS_ERR = 0x8000"
definition DCS_XM :: u16 where "DCS_XM = 0x0030"
definition DAE_CMA_INH :: u16 where "DAE_CMA_INH = 0x0100"
definition DAE_NEM :: u16 where "DAE_NEM = 0x0400"

definition field_set :: "u16 \<Rightarrow> u16 \<Rightarrow> bool" where "field_set w m \<longleftrightarrow> w AND m \<noteq> 0"

datatype rf_function = RF_NOP | RF_WRITE | RF_READ | RF_WRITE_CHECK

definition FR :: "u16 \<Rightarrow> rf_function" where
  "FR dcs = [RF_NOP, RF_WRITE, RF_READ, RF_WRITE_CHECK] ! unat (drop_bit 1 dcs AND 3)"

definition upd_dcs :: "u16 \<Rightarrow> u16 \<Rightarrow> rf11 \<Rightarrow> rf11" where "upd_dcs m v s = s\<lparr>rf_dcs := put_field m v (rf_dcs s)\<rparr>"

definition upd_dae :: "u16 \<Rightarrow> u16 \<Rightarrow> rf11 \<Rightarrow> rf11" where "upd_dae m v s = s\<lparr>rf_dae := put_field m v (rf_dae s)\<rparr>"

subsection \<open>Registers\<close>

definition update_DCS :: "rf11 \<Rightarrow> rf11" where
  "update_DCS s0 =
     (let s1 = upd_dcs DCS_FRZ (flag DCS_FRZ (field_set (rf_dae s0) DAE_NEM)) s0;
          s2 = upd_dcs DCS_ERR (flag DCS_ERR (field_set (rf_dcs s1) DCS_FRZ \<or> field_set (rf_dcs s1) DCS_WCE \<or> field_set (rf_dcs s1) DCS_NED)) s1
      in set_dati 0 (rf_dcs s2) s2)"

definition update_DAE :: "rf11 \<Rightarrow> rf11" where "update_DAE s = set_dati 4 (rf_dae s) s"
definition update_CMA :: "rf11 \<Rightarrow> rf11" where "update_CMA s = set_dati 2 (rf_cma s) s"
definition update_WC :: "rf11 \<Rightarrow> rf11" where "update_WC s = set_dati 1 (rf_wc s) s"
definition update_DAR :: "rf11 \<Rightarrow> rf11" where "update_DAR s = set_dati 3 (rf_dar s) s"
definition update_DBR :: "rf11 \<Rightarrow> rf11" where "update_DBR s = set_dati 5 (rf_dbr s) s"

definition get_current_disk_address :: "rf11 \<Rightarrow> u32" where
  "get_current_disk_address s =
     ucast (dati s 3) OR push_bit 16 (ucast (rf_dae s AND 3)) OR push_bit 18 (ucast (drop_bit 2 (rf_dae s) AND 7))"

definition get_memory_address :: "rf11 \<Rightarrow> u32" where
  "get_memory_address s = ucast (dati s 2) OR push_bit 16 (ucast (drop_bit 4 (rf_dcs s) AND 3))"

definition update_memory_address :: "u32 \<Rightarrow> rf11 \<Rightarrow> rf11" where
  "update_memory_address a s =
     update_DCS (update_CMA (upd_dcs DCS_XM (push_bit 4 (ucast (drop_bit 16 (a AND 0x30000)))) (s\<lparr>rf_cma := ucast (a AND 0xffff)\<rparr>)))"

definition update_disk_address :: "u32 \<Rightarrow> rf11 \<Rightarrow> rf11" where
  "update_disk_address a s =
     update_DAR (update_DAE
       (upd_dae 0x1c (push_bit 2 (ucast (drop_bit 18 (a AND 0x1c0000) AND 7)))
         (upd_dae 3 (ucast (drop_bit 16 (a AND 0x30000) AND 3)) (s\<lparr>rf_dar := ucast (a AND 0xffff)\<rparr>))))"

definition reset_local_registers :: "rf11 \<Rightarrow> rf11" where
  "reset_local_registers s = s\<lparr>rf_dcs := DCS_RDY, rf_dae := 0, rf_wc := 0, rf_cma := 0, rf_dar := 0, rf_dbr := 0\<rparr>"

definition rf_reset_controller :: "rf11 \<Rightarrow> rf11" where
  "rf_reset_controller s = reset_local_registers (fold (\<lambda>i. set_dati i (if i = 0 then 0x80 else 0)) [0..<8] s)"

subsection \<open>The drive\<close>

definition get_max_address :: u32 where "get_max_address = 0x40000 * 8 - 1"

definition clip_into_range :: "u32 \<Rightarrow> u32 \<Rightarrow> u32" where
  "clip_into_range a count =
     (let diff = (a + count) - get_max_address in if 0 < sint diff then max 0 (count - diff) else count)"

text \<open>Without an image nothing is read into the buffer, and nothing is written.\<close>

definition rs_read :: "u32 \<Rightarrow> u16 list \<Rightarrow> u32 \<Rightarrow> rf11 \<Rightarrow> (bool \<times> u16 list \<times> rf11) option" where
  "rs_read a buf count s =
     (let n = clip_into_range a count in
      do { (b, i) \<leftarrow> (case rs11_image s of
             Some f \<Rightarrow> if 0 < n
               then do { (b, f) \<leftarrow> binfile_read (unat (push_bit 1 a)) (unat (n * 2)) f;
                         Some (bytes_to_words b @ drop (unat n) buf, Some f) }
               else Some (buf, Some f)
           | None \<Rightarrow> Some (buf, None));
           Some (n = count, b, s\<lparr>rs11_image := i\<rparr>) })"

definition rs_write :: "u32 \<Rightarrow> u16 list \<Rightarrow> u32 \<Rightarrow> rf11 \<Rightarrow> (bool \<times> rf11) option" where
  "rs_write a buf count s =
     (let n = clip_into_range a count in
      do { i \<leftarrow> (case rs11_image s of
             Some f \<Rightarrow> if 0 < n then map_option Some (binfile_write (words_to_bytes (take (unat n) buf)) (unat (push_bit 1 a)) f) else Some (Some f)
           | None \<Rightarrow> Some None);
           Some (n = count, s\<lparr>rs11_image := i\<rparr>) })"

subsection \<open>DMA\<close>

definition rf_dma_read :: "u16 list \<Rightarrow> u32 \<Rightarrow> u16 list \<Rightarrow> u32 \<Rightarrow> rf11 \<Rightarrow> (bool \<times> u16 list) option" where
  "rf_dma_read failed a buf count s =
     (if rf_limit s < a + count * 2 then Some (False, buf)
      else do { (ok, b, _) \<leftarrow> dma_spec (rf_limit s) To_device a buf (unat count) (rf_memory s);
                Some (ok, if ok then b else failed) })"

definition rf_dma_write :: "u32 \<Rightarrow> u16 list \<Rightarrow> u32 \<Rightarrow> rf11 \<Rightarrow> (bool \<times> rf11) option" where
  "rf_dma_write a buf count s =
     (if rf_limit s < a + count * 2 then Some (False, s)
      else do { (ok, _, m) \<leftarrow> dma_spec (rf_limit s) To_memory a buf (unat count) (rf_memory s); Some (ok, s\<lparr>rf_memory := m\<rparr>) })"

subsection \<open>The worker\<close>

definition NED_error :: "rf11 \<Rightarrow> rf11" where "NED_error = upd_dcs DCS_NED DCS_NED"
definition NEM_error :: "rf11 \<Rightarrow> rf11" where "NEM_error = upd_dae DAE_NEM DAE_NEM"
definition WCE_error :: "rf11 \<Rightarrow> rf11" where "WCE_error = upd_dcs DCS_WCE DCS_WCE"

text \<open>\<^verbatim>\<open>memcmp\<close> is given the number of words.\<close>

definition buffers_differ :: "u16 list \<Rightarrow> u16 list \<Rightarrow> nat \<Rightarrow> bool" where
  "buffers_differ a b n \<longleftrightarrow> take n (words_to_bytes a) \<noteq> take n (words_to_bytes b)"

definition rf_transfer_read :: "u16 list \<Rightarrow> u16 list \<Rightarrow> u32 \<Rightarrow> rf11 \<Rightarrow> (u16 list \<times> rf11) option" where
  "rf_transfer_read junk failed n s =
     do { (ok, b, s1) \<leftarrow> rs_read (get_current_disk_address s) junk n s;
          if \<not> ok then Some (b, NED_error s1)
          else if FR (rf_dcs s) = RF_READ
          then do { (done, s2) \<leftarrow> rf_dma_write (get_memory_address s) b n s1;
                    Some (b, if done then s2 else NEM_error s2) }
          else do { (done, c) \<leftarrow> rf_dma_read failed (get_memory_address s) junk n s1;
                    Some (b, if \<not> done then NEM_error s1 else if buffers_differ c b (unat n) then WCE_error s1 else s1) } }"

definition rf_transfer_write :: "u16 list \<Rightarrow> u16 list \<Rightarrow> u32 \<Rightarrow> rf11 \<Rightarrow> (u16 list \<times> rf11) option" where
  "rf_transfer_write junk failed n s =
     do { (done, b) \<leftarrow> rf_dma_read failed (get_memory_address s) junk n s;
          if \<not> done then Some (b, NEM_error s)
          else do { (ok, s1) \<leftarrow> rs_write (get_current_disk_address s) b n s; Some (b, if ok then s1 else NED_error s1) } }"

definition rf_transfer :: "u16 list \<Rightarrow> u16 list \<Rightarrow> u32 \<Rightarrow> rf11 \<Rightarrow> (u16 list \<times> rf11) option" where
  "rf_transfer junk failed n s =
     (if FR (rf_dcs s) = RF_READ \<or> FR (rf_dcs s) = RF_WRITE_CHECK then rf_transfer_read junk failed n s
      else rf_transfer_write junk failed n s)"

definition rf_word_count :: "rf11 \<Rightarrow> u16" where "rf_word_count s = NOT (dati s 1) + 1"

definition rf_execute :: "u16 list \<Rightarrow> u16 list \<Rightarrow> rf11 \<Rightarrow> rf11 option" where
  "rf_execute junk failed s0 =
     (let s = s0\<lparr>rf_wc := dati s0 1\<rparr>; n = ucast (rf_word_count s); a = get_memory_address s; da = get_current_disk_address s in
      do { (b, s1) \<leftarrow> rf_transfer junk failed n s;
           assert_that (n \<noteq> 0);
           let s2 = update_DBR (s1\<lparr>rf_dbr := b ! unat (n - 1)\<rparr>);
           let s3 = (if field_set (rf_dae s2) DAE_CMA_INH then s2 else update_memory_address (a + n * 2) s2);
           let s4 = update_disk_address (da + n) s3;
           Some ((update_WC (s4\<lparr>rf_wc := 0\<rparr>))\<lparr>rf_worker_state := RF_finish\<rparr>) })"

definition rf_finish :: "rf11 \<Rightarrow> rf11" where
  "rf_finish s =
     (let s1 = update_DCS (update_DAE (upd_dcs DCS_RDY DCS_RDY s)) in
      (if field_set (rf_dcs s1) DCS_IE then s1\<lparr>rf_interrupts := rf_interrupts s1 + 1\<rparr> else s1)\<lparr>rf_worker_state := RF_idle\<rparr>)"

definition rf_worker_step :: "u16 list \<Rightarrow> u16 list \<Rightarrow> rf11 \<Rightarrow> rf11 option" where
  "rf_worker_step junk failed s =
     (case rf_worker_state s of
        RF_idle \<Rightarrow>
          if rf_new_command_ready s then Some (s\<lparr>rf_new_command_ready := False, rf_worker_state := RF_execute\<rparr>) else Some s
      | RF_execute \<Rightarrow> rf_execute junk failed s
      | RF_finish \<Rightarrow> Some (rf_finish s))"

subsection \<open>Register accesses, power and INIT\<close>

definition write_DCS :: "rf11 \<Rightarrow> rf11" where
  "write_DCS s0 =
     (let s1 = s0\<lparr>rf_dcs := put_field 0x017f (dato s0 0) (rf_dcs s0)\<rparr>;
          s2 = (if field_set (rf_dcs s1) DCS_DISK_CLEAR then rf_reset_controller s1 else s1);
          s3 = (if field_set (rf_dcs s2) DCS_GO
                then (let s = upd_dcs DCS_WCE 0 (upd_dcs DCS_GO 0 s2) in
                      if \<not> field_set (rf_dcs s) DCS_RDY then s
                      else if FR (rf_dcs s) \<noteq> RF_NOP then (upd_dcs DCS_ERR 0 (upd_dcs DCS_RDY 0 s))\<lparr>rf_new_command_ready := True\<rparr>
                      else s)
                else s2)
      in update_DCS s3)"

definition rf_on_after_register_access :: "nat \<Rightarrow> rf11 \<Rightarrow> rf11" where
  "rf_on_after_register_access i s =
     (if i = 0 then write_DCS s
      else if i = 4 then update_DAE (s\<lparr>rf_dae := put_field 0x01bf (dato s 4) (rf_dae s)\<rparr>)
      else if i = 6 then s\<lparr>rf_mar := dato s 6\<rparr>
      else s)"

definition rf_on_power_changed :: "bool \<Rightarrow> rf11 \<Rightarrow> rf11" where
  "rf_on_power_changed dclo_raising s = (if dclo_raising then rf_reset_controller s else s)"

definition rf_on_init_changed :: "bool \<Rightarrow> rf11 \<Rightarrow> rf11" where
  "rf_on_init_changed asserted s = (let s1 = s\<lparr>rf_init_asserted := asserted\<rparr> in if asserted then rf_reset_controller s1 else s1)"

end
