(* ===== verification/RF11_Correct.thy ===== *)
theory RF11_Correct
  imports RF11
begin

text \<open>
  The RF11: what its transfers do, exactly where the write check looks, and when the program ends.
\<close>

subsection \<open>Bit fields\<close>

lemma field_other: "m AND k = 0 \<Longrightarrow> put_field m v w AND k = w AND k"
proof -
  assume "m AND k = 0"
  then have d: "\<not> (bit m i \<and> bit k i)" for i by (metis bit_and_iff bit_0_eq bot_apply bot_bool_def)
  show ?thesis unfolding put_field_def by (rule bit_word_eqI) (use d in \<open>auto simp: bit_and_iff bit_or_iff bit_not_iff\<close>)
qed

lemma field_same: "put_field m v w AND m = v AND m"
  unfolding put_field_def by (rule bit_word_eqI) (auto simp: bit_and_iff bit_or_iff bit_not_iff)

lemma field_set_other: "m AND k = 0 \<Longrightarrow> field_set (put_field m v w) k = field_set w k"
  by (simp add: field_set_def field_other)

lemma field_set_same: "field_set (put_field m v w) m = field_set v m"
  by (simp add: field_set_def field_same)

lemma drop_field: "drop_bit k w AND mask n = drop_bit k (w AND push_bit k (mask n))" for w :: "'a::len word"
  by (rule bit_word_eqI) (auto simp: bit_and_iff bit_drop_bit_eq bit_push_bit_iff bit_mask_iff dest: bit_imp_le_length)

lemma masks: "(3 :: u16) = mask 2" "(7 :: u16) = mask 3" "(6 :: u16) = push_bit 1 (mask 2)" "(0x30 :: u16) = push_bit 4 (mask 2)"
    "(0x1c :: u16) = push_bit 2 (mask 3)" "(0xffff :: u32) = mask 16" "(0x30000 :: u32) = push_bit 16 (mask 2)"
    "(0x1c0000 :: u32) = push_bit 18 (mask 3)" "(0x3ffff :: u32) = mask 18" "(0x1fffff :: u32) = mask 21" "(3 :: u32) = mask 2" "(7 :: u32) = mask 3"
  by (simp_all add: mask_eq_exp_minus_1)

lemma FR_field: "FR w = [RF_NOP, RF_WRITE, RF_READ, RF_WRITE_CHECK] ! unat (drop_bit 1 (w AND 6))"
  unfolding FR_def masks drop_field ..

lemma FR_other: "m AND 6 = 0 \<Longrightarrow> FR (put_field m v w) = FR w"
  by (simp only: FR_field field_other)

text \<open>The addresses in the registers.\<close>

lemma memory_address_field:
  "get_memory_address s = ucast (dati s 2) OR push_bit 16 (ucast (drop_bit 4 (rf_dcs s AND 0x30)))"
  unfolding get_memory_address_def masks drop_field ..

lemma disk_address_field:
  "get_current_disk_address s =
    ucast (dati s 3) OR push_bit 16 (ucast (rf_dae s AND 3)) OR push_bit 18 (ucast (drop_bit 2 (rf_dae s AND 0x1c)))"
  unfolding get_current_disk_address_def masks drop_field ..

lemma memory_address_bits:
  fixes a :: u32
  shows "ucast (ucast (a AND 0xffff) :: u16) OR push_bit 16 (ucast (drop_bit 4 (push_bit 4 (ucast (drop_bit 16 (a AND 0x30000))) AND (0x30 :: u16)))) = a AND 0x3ffff"
  unfolding masks
  by (rule bit_word_eqI, simp only: bit_and_iff bit_or_iff bit_drop_bit_eq bit_push_bit_iff bit_mask_iff bit_ucast_iff possible_bit_word o_apply) auto

lemma disk_address_bits:
  fixes a :: u32
  shows "ucast (ucast (a AND 0xffff) :: u16) OR push_bit 16 (ucast ((ucast (drop_bit 16 (a AND 0x30000) AND 3) :: u16) AND 3)) OR
    push_bit 18 (ucast (drop_bit 2 (push_bit 2 (ucast (drop_bit 18 (a AND 0x1c0000) AND 7)) AND (0x1c :: u16)))) = a AND 0x1fffff"
  unfolding masks
proof (rule bit_word_eqI)
  fix n assume n: "n < LENGTH(32)"
  show "bit ((ucast (ucast (a AND mask 16) :: u16) :: u32) OR push_bit 16 (ucast ((ucast (drop_bit 16 (a AND push_bit 16 (mask 2)) AND mask 2) :: u16) AND mask 2)) OR
    push_bit 18 (ucast (drop_bit 2 (push_bit 2 (ucast (drop_bit 18 (a AND push_bit 18 (mask 3)) AND mask 3)) AND (push_bit 2 (mask 3) :: u16))))) n = bit (a AND mask 21) n"
  proof (cases "n < 18")
    case True
    then consider "n < 16" | "n = 16" | "n = 17" by arith
    then show ?thesis
      using n by cases (simp_all only: bit_and_iff bit_or_iff bit_drop_bit_eq bit_push_bit_iff bit_mask_iff bit_ucast_iff possible_bit_word o_apply, auto)
  next
    case False
    then obtain k where "n = 18 + k" by (metis le_Suc_ex not_less)
    then show ?thesis
      using n by (simp only: bit_and_iff bit_or_iff bit_drop_bit_eq bit_push_bit_iff bit_mask_iff bit_ucast_iff possible_bit_word o_apply) auto
  qed
qed


lemma update_DCS_other: "0xc000 AND k = 0 \<Longrightarrow> rf_dcs (update_DCS s) AND k = rf_dcs s AND k"
proof -
  assume k: "0xc000 AND k = 0"
  have "DCS_FRZ AND k = DCS_FRZ AND (0xc000 AND k)" "DCS_ERR AND k = DCS_ERR AND (0xc000 AND k)"
    by (simp_all only: and.assoc [symmetric]) (simp_all add: DCS_FRZ_def DCS_ERR_def)
  then have x: "DCS_FRZ AND k = 0" "DCS_ERR AND k = 0" unfolding k by simp_all
  show ?thesis by (simp add: update_DCS_def upd_dcs_def Let_def set_dati_def field_other [OF x(1)] field_other [OF x(2)])
qed

lemma update_DCS_sel [simp]:
  "rf_dae (update_DCS s) = rf_dae s" "rf_wc (update_DCS s) = rf_wc s" "rf_cma (update_DCS s) = rf_cma s" "rf_dar (update_DCS s) = rf_dar s"
  "rf_dbr (update_DCS s) = rf_dbr s" "rf_new_command_ready (update_DCS s) = rf_new_command_ready s"
  "rf_worker_state (update_DCS s) = rf_worker_state s" "rs11_image (update_DCS s) = rs11_image s"
  "rf_memory (update_DCS s) = rf_memory s" "rf_limit (update_DCS s) = rf_limit s" "rf_interrupts (update_DCS s) = rf_interrupts s"
  "i \<noteq> 0 \<Longrightarrow> dati (update_DCS s) i = dati s i" "dati (update_DCS s) 0 = rf_dcs (update_DCS s)" "dato (update_DCS s) = dato s"
  by (simp_all add: update_DCS_def upd_dcs_def Let_def set_dati_def)

lemma rf_set_dati [simp]:
  "rf_dcs (set_dati i v s) = rf_dcs s" "rf_dae (set_dati i v s) = rf_dae s" "rf_wc (set_dati i v s) = rf_wc s"
  "rf_worker_state (set_dati i v s) = rf_worker_state s" "rs11_image (set_dati i v s) = rs11_image s"
  "rf_memory (set_dati i v s) = rf_memory s" "rf_limit (set_dati i v s) = rf_limit s" "rf_interrupts (set_dati i v s) = rf_interrupts s"
  "rf_new_command_ready (set_dati i v s) = rf_new_command_ready s" "rf_dar (set_dati i v s) = rf_dar s" "rf_cma (set_dati i v s) = rf_cma s"
  "rf_dbr (set_dati i v s) = rf_dbr s"
  by (simp_all add: set_dati_def)

lemma upd_fields [simp]:
  "rf_dcs (upd_dcs m v s) = put_field m v (rf_dcs s)" "rf_dae (upd_dcs m v s) = rf_dae s" "dati (upd_dcs m v s) = dati s" "dato (upd_dcs m v s) = dato s"
  "rf_wc (upd_dcs m v s) = rf_wc s" "rs11_image (upd_dcs m v s) = rs11_image s" "rf_memory (upd_dcs m v s) = rf_memory s"
  "rf_limit (upd_dcs m v s) = rf_limit s" "rf_interrupts (upd_dcs m v s) = rf_interrupts s" "rf_worker_state (upd_dcs m v s) = rf_worker_state s"
  "rf_new_command_ready (upd_dcs m v s) = rf_new_command_ready s" "rf_cma (upd_dcs m v s) = rf_cma s"
  "rf_dae (upd_dae m v s) = put_field m v (rf_dae s)" "rf_dcs (upd_dae m v s) = rf_dcs s" "dati (upd_dae m v s) = dati s" "dato (upd_dae m v s) = dato s"
  "rf_wc (upd_dae m v s) = rf_wc s" "rs11_image (upd_dae m v s) = rs11_image s" "rf_memory (upd_dae m v s) = rf_memory s"
  "rf_limit (upd_dae m v s) = rf_limit s" "rf_interrupts (upd_dae m v s) = rf_interrupts s" "rf_worker_state (upd_dae m v s) = rf_worker_state s"
  "rf_new_command_ready (upd_dae m v s) = rf_new_command_ready s" "rf_dar (upd_dae m v s) = rf_dar s"
  by (simp_all add: upd_dcs_def upd_dae_def)

lemma field_set_and: "w AND m = v AND m \<Longrightarrow> field_set w m = field_set v m"
  by (simp add: field_set_def)

lemma update_memory_address_result:
  "dati (update_memory_address a s) 2 = ucast (a AND 0xffff)"
  "rf_dcs (update_memory_address a s) AND 0x30 = push_bit 4 (ucast (drop_bit 16 (a AND 0x30000))) AND 0x30"
  "0xc030 AND k = 0 \<Longrightarrow> rf_dcs (update_memory_address a s) AND k = rf_dcs s AND k"
  "i \<notin> {0, 2} \<Longrightarrow> dati (update_memory_address a s) i = dati s i" "rf_dae (update_memory_address a s) = rf_dae s"
  "rs11_image (update_memory_address a s) = rs11_image s" "rf_memory (update_memory_address a s) = rf_memory s"
  "rf_limit (update_memory_address a s) = rf_limit s" "rf_interrupts (update_memory_address a s) = rf_interrupts s"
  "rf_new_command_ready (update_memory_address a s) = rf_new_command_ready s"
proof -
  have c: "(0xc000 :: u16) AND 0x30 = 0" by simp
  show "rf_dcs (update_memory_address a s) AND 0x30 = push_bit 4 (ucast (drop_bit 16 (a AND 0x30000))) AND 0x30"
    unfolding update_memory_address_def update_DCS_other [OF c] update_CMA_def rf_set_dati upd_fields DCS_XM_def by (rule field_same)
  show "rf_dcs (update_memory_address a s) AND k = rf_dcs s AND k" if "0xc030 AND k = 0"
  proof -
    have "0xc000 AND k = 0xc000 AND (0xc030 AND k)" "0x30 AND k = 0x30 AND (0xc030 AND k)" by (simp_all only: and.assoc [symmetric]) simp_all
    then have x: "0xc000 AND k = 0" "0x30 AND k = 0" unfolding that by simp_all
    show ?thesis by (simp add: update_memory_address_def update_DCS_other [OF x(1)] update_CMA_def DCS_XM_def field_other [OF x(2)])
  qed
qed (simp_all add: update_memory_address_def update_CMA_def)

lemma address_after_update: "get_memory_address (update_memory_address a s) = a AND 0x3ffff"
  unfolding memory_address_field update_memory_address_result(1,2) by (rule memory_address_bits)

lemma update_disk_address_result:
  "dati (update_disk_address a s) 3 = ucast (a AND 0xffff)"
  "rf_dae (update_disk_address a s) AND 3 = ucast (drop_bit 16 (a AND 0x30000) AND 3) AND 3"
  "rf_dae (update_disk_address a s) AND 0x1c = push_bit 2 (ucast (drop_bit 18 (a AND 0x1c0000) AND 7)) AND 0x1c"
  "0x1f AND k = 0 \<Longrightarrow> rf_dae (update_disk_address a s) AND k = rf_dae s AND k"
  "i \<notin> {3, 4} \<Longrightarrow> dati (update_disk_address a s) i = dati s i" "rf_dcs (update_disk_address a s) = rf_dcs s"
  "rs11_image (update_disk_address a s) = rs11_image s" "rf_memory (update_disk_address a s) = rf_memory s"
  "rf_limit (update_disk_address a s) = rf_limit s" "rf_interrupts (update_disk_address a s) = rf_interrupts s"
  "rf_new_command_ready (update_disk_address a s) = rf_new_command_ready s"
proof -
  have d: "rf_dae (update_disk_address a s) = put_field 0x1c (push_bit 2 (ucast (drop_bit 18 (a AND 0x1c0000) AND 7)))
      (put_field 3 (ucast (drop_bit 16 (a AND 0x30000) AND 3)) (rf_dae s))"
    unfolding update_disk_address_def update_DAR_def update_DAE_def rf_set_dati upd_fields by simp
  have c: "(0x1c :: u16) AND 3 = 0" by simp
  show "rf_dae (update_disk_address a s) AND 3 = ucast (drop_bit 16 (a AND 0x30000) AND 3) AND 3"
    unfolding d field_other [OF c] by (rule field_same)
  show "rf_dae (update_disk_address a s) AND 0x1c = push_bit 2 (ucast (drop_bit 18 (a AND 0x1c0000) AND 7)) AND 0x1c"
    unfolding d by (rule field_same)
  show "rf_dae (update_disk_address a s) AND k = rf_dae s AND k" if "0x1f AND k = 0"
  proof -
    have "0x1c AND k = 0x1c AND (0x1f AND k)" "3 AND k = 3 AND (0x1f AND k)" by (simp_all only: and.assoc [symmetric]) simp_all
    then have x: "0x1c AND k = 0" "3 AND k = 0" unfolding that by simp_all
    show ?thesis unfolding d by (simp only: field_other [OF x(1)] field_other [OF x(2)])
  qed
qed (simp_all add: update_disk_address_def update_DAR_def update_DAE_def)

lemma disk_address_after_update: "get_current_disk_address (update_disk_address a s) = a AND 0x1fffff"
  unfolding disk_address_field update_disk_address_result(1-3) by (rule disk_address_bits)

subsection \<open>After the transfer\<close>

lemma unat_count: "unat (ucast w :: u32) = unat w" for w :: u16
proof -
  have "unat w < 2 ^ 32" using unsigned_less [of w, where 'a = nat] by simp
  then show ?thesis by (simp only: unsigned_ucast_eq) (simp add: take_bit_nat_eq_self)
qed

lemma count_of_nat: "(ucast w :: u32) = of_nat (unat w)" for w :: u16
  by simp

lemma execute_ends:
  assumes "rf_transfer junk failed (ucast (rf_word_count s)) (s\<lparr>rf_wc := dati s 1\<rparr>) = Some (b, s1)" "rf_word_count s \<noteq> 0"
  shows "\<exists>t. rf_execute junk failed s = Some t \<and> rf_worker_state t = RF_finish \<and> rf_memory t = rf_memory s1 \<and>
    rs11_image t = rs11_image s1 \<and> dati t 1 = 0 \<and>
    get_memory_address t = (if field_set (rf_dae s1) DAE_CMA_INH then get_memory_address s1
      else (get_memory_address s + 2 * ucast (rf_word_count s)) AND 0x3ffff) \<and>
    get_current_disk_address t = (get_current_disk_address s + ucast (rf_word_count s)) AND 0x1fffff \<and>
    (\<forall>k. 0xc030 AND k = 0 \<longrightarrow> rf_dcs t AND k = rf_dcs s1 AND k) \<and> (\<forall>k. 0x1f AND k = 0 \<longrightarrow> rf_dae t AND k = rf_dae s1 AND k)"
proof -
  let ?n = "ucast (rf_word_count s) :: u32"
  have n: "?n \<noteq> 0"
  proof
    assume "?n = 0"
    then have "unat ?n = 0" by simp
    then have "unat (rf_word_count s) = 0" by (simp only: unat_count)
    then show False using assms(2) by (simp add: unat_eq_0)
  qed
  have a: "get_memory_address (s\<lparr>rf_wc := w\<rparr>) = get_memory_address s" "get_current_disk_address (s\<lparr>rf_wc := w\<rparr>) = get_current_disk_address s"
    "rf_word_count (s\<lparr>rf_wc := w\<rparr>) = rf_word_count s" for w
    by (simp_all add: get_memory_address_def get_current_disk_address_def rf_word_count_def)
  define s2 where "s2 = update_DBR (s1\<lparr>rf_dbr := b ! unat (?n - 1)\<rparr>)"
  have s2: "rf_dae s2 = rf_dae s1" "rf_dcs s2 = rf_dcs s1" "rf_memory s2 = rf_memory s1" "rs11_image s2 = rs11_image s1" "dati s2 2 = dati s1 2"
    by (simp_all add: s2_def update_DBR_def)
  define s3 where "s3 = (if field_set (rf_dae s2) DAE_CMA_INH then s2 else update_memory_address (get_memory_address s + ?n * 2) s2)"
  have s3: "rf_dae s3 = rf_dae s1" "rf_memory s3 = rf_memory s1" "rs11_image s3 = rs11_image s1"
    "\<And>k. 0xc030 AND k = 0 \<Longrightarrow> rf_dcs s3 AND k = rf_dcs s1 AND k"
    by (simp_all add: s3_def s2 update_memory_address_result)
  have m: "get_memory_address s3 = (if field_set (rf_dae s1) DAE_CMA_INH then get_memory_address s1
      else (get_memory_address s + 2 * ?n) AND 0x3ffff)"
    by (simp add: s3_def s2(1) address_after_update mult.commute) (simp add: get_memory_address_def s2)
  define s4 where "s4 = update_disk_address (get_current_disk_address s + ?n) s3"
  have s4: "rf_memory s4 = rf_memory s1" "rs11_image s4 = rs11_image s1" "rf_dcs s4 = rf_dcs s3" "dati s4 2 = dati s3 2"
    "\<And>k. 0x1f AND k = 0 \<Longrightarrow> rf_dae s4 AND k = rf_dae s1 AND k"
    by (simp_all add: s4_def s3 update_disk_address_result)
  define t where "t = (update_WC (s4\<lparr>rf_wc := 0\<rparr>))\<lparr>rf_worker_state := RF_finish\<rparr>"
  have t: "rf_dcs t = rf_dcs s4" "rf_dae t = rf_dae s4" "rf_memory t = rf_memory s4" "rs11_image t = rs11_image s4" "dati t = (dati s4)(1 := 0)"
    "rf_worker_state t = RF_finish"
    by (simp_all add: t_def update_WC_def)
  have "rf_execute junk failed s = Some t"
    using assms(1) n unfolding rf_execute_def Let_def a by (simp add: s2_def s3_def s4_def t_def)
  moreover have "get_memory_address t = get_memory_address s3" by (simp add: get_memory_address_def t s4)
  moreover have "get_current_disk_address t = (get_current_disk_address s + ?n) AND 0x1fffff"
  proof -
    have "get_current_disk_address t = get_current_disk_address s4" by (simp add: get_current_disk_address_def t)
    then show ?thesis by (simp only: s4_def disk_address_after_update)
  qed
  ultimately show ?thesis using m t s4 s3 by (intro exI [where x = t] conjI allI impI) simp_all
qed

subsection \<open>The range of the disk\<close>

lemma sint_diff:
  fixes x m :: u32
  assumes "unat x < 2 ^ 31" "unat m < 2 ^ 31"
  shows "sint (x - m) = int (unat x) - int (unat m)"
proof -
  define i where "i = int (unat x) - int (unat m)"
  have "unat x < 2147483648" "unat m < 2147483648" using assms by simp_all
  then have b: "- 2147483648 \<le> i" "i < 2147483648" unfolding i_def by linarith+
  have "x - m = word_of_int i" by (simp add: i_def)
  moreover have "sint (word_of_int i :: u32) = i"
    using b by (simp add: sint_sbintrunc' signed_take_bit_int_eq_self)
  ultimately show ?thesis by (simp only: i_def)
qed

text \<open>The last word of the disk is out of range: the highest address is taken for the size.\<close>

lemma clip_iff:
  assumes "unat a \<le> 0x1fffff" "unat c \<le> 0xffff"
  shows "clip_into_range a c = (if unat a + unat c \<le> 0x1fffff then c else get_max_address - a)"
    "clip_into_range a c = c \<longleftrightarrow> unat a + unat c \<le> 0x1fffff"
proof -
  have s: "unat (a + c) = unat a + unat c" using assms by (simp add: unat_word_ariths)
  have d: "sint (a + c - get_max_address) = int (unat a + unat c) - 0x1fffff"
    using sint_diff [of "a + c" get_max_address] assms s by (simp add: get_max_address_def)
  have e: "c - (a + c - get_max_address) = get_max_address - a" by (simp add: algebra_simps)
  show 1: "clip_into_range a c = (if unat a + unat c \<le> 0x1fffff then c else get_max_address - a)"
  proof -
    have "0 < int (unat a + unat c) - 0x1fffff \<longleftrightarrow> \<not> unat a + unat c \<le> 0x1fffff" by linarith
    then show ?thesis unfolding clip_into_range_def Let_def d e by (simp only: if_not_P if_P not_not split: if_split) (simp add: max_def)
  qed
  have "unat (get_max_address - a) = 0x1fffff - unat a"
    using assms by (simp add: unat_sub word_le_nat_alt get_max_address_def)
  then have "get_max_address - a = c \<Longrightarrow> unat c = 0x1fffff - unat a" by simp
  then show "clip_into_range a c = c \<longleftrightarrow> unat a + unat c \<le> 0x1fffff" unfolding 1 using assms(1) by auto
qed

lemma memory_address_less: "unat (get_memory_address s) < 2 ^ 18"
proof -
  have "get_memory_address s AND mask 18 = get_memory_address s"
    unfolding get_memory_address_def masks
    by (rule bit_word_eqI, simp only: bit_and_iff bit_or_iff bit_drop_bit_eq bit_push_bit_iff bit_mask_iff bit_ucast_iff possible_bit_word o_apply) (auto dest: bit_imp_le_length)
  then have "take_bit 18 (get_memory_address s) = get_memory_address s" by (simp only: take_bit_eq_mask)
  then have "take_bit 18 (unat (get_memory_address s)) = unat (get_memory_address s)" by (metis unsigned_take_bit_eq)
  then show ?thesis by (metis take_bit_nat_less_exp)
qed

lemma disk_address_less: "unat (get_current_disk_address s) \<le> 0x1fffff"
proof -
  have "get_current_disk_address s AND mask 21 = get_current_disk_address s"
    unfolding get_current_disk_address_def masks
    by (rule bit_word_eqI, simp only: bit_and_iff bit_or_iff bit_drop_bit_eq bit_push_bit_iff bit_mask_iff bit_ucast_iff possible_bit_word o_apply) (auto dest: bit_imp_le_length)
  then have "take_bit 21 (get_current_disk_address s) = get_current_disk_address s" by (simp only: take_bit_eq_mask)
  then have "take_bit 21 (unat (get_current_disk_address s)) = unat (get_current_disk_address s)" by (metis unsigned_take_bit_eq)
  then have "unat (get_current_disk_address s) < 2 ^ 21" by (metis take_bit_nat_less_exp)
  then show ?thesis by simp
qed

subsection \<open>Transfers\<close>

definition rf_disk_words :: "binfile \<Rightarrow> nat \<Rightarrow> nat \<Rightarrow> u16 list" where
  "rf_disk_words f p n = bytes_to_words (take (2 * n) (drop (2 * p) (content f)))"

definition host_words :: "rf11 \<Rightarrow> nat \<Rightarrow> u16 list" where
  "host_words s n = map (\<lambda>i. the (rf_memory s (get_memory_address s + 2 * of_nat i))) [0..<n]"

abbreviation rf_count :: "rf11 \<Rightarrow> nat" where "rf_count s \<equiv> unat (rf_word_count s)"

text \<open>A transfer in range of the disk, of the image and of the host's memory.\<close>

definition rf_ready :: "binfile \<Rightarrow> rf11 \<Rightarrow> bool" where
  "rf_ready f s \<longleftrightarrow> rf_worker_state s = RF_execute \<and> rs11_image s = Some f \<and> f_open f \<and> \<not> f_fail f \<and> 0 < rf_count s \<and>
     unat (get_current_disk_address s) + rf_count s \<le> 0x1fffff \<and>
     2 * (unat (get_current_disk_address s) + rf_count s) \<le> length (content f) \<and>
     unat (get_memory_address s) + 2 * rf_count s \<le> unat (rf_limit s) \<and>
     (\<forall>i<rf_count s. rf_memory s (get_memory_address s + 2 * of_nat i) \<noteq> None)"

lemma rf_count_less: "rf_count s \<le> 0xffff"
  using unsigned_less [of "rf_word_count s", where 'a = nat] by simp

lemma length_bytes_to_words_even: "length (bytes_to_words b) = (length b + 1) div 2"
  by (induction b rule: bytes_to_words.induct) simp_all

lemma unat_double:
  assumes "unat a \<le> 0x1fffff"
  shows "unat (push_bit 1 a :: u32) = 2 * unat a"
  using assms by (simp add: push_bit_eq_mult unat_word_ariths)

lemma rf_sizes:
  assumes "rf_ready f s"
  shows "unat (ucast (rf_word_count s) * 2 :: u32) = 2 * rf_count s" "clip_into_range (get_current_disk_address s) (ucast (rf_word_count s)) = ucast (rf_word_count s)"
    "unat (push_bit 1 (get_current_disk_address s)) = 2 * unat (get_current_disk_address s)" "(0 :: u32) < ucast (rf_word_count s)"
    "length (rf_disk_words f (unat (get_current_disk_address s)) (rf_count s)) = rf_count s"
    "\<not> rf_limit s < get_memory_address s + ucast (rf_word_count s) * 2" "get_memory_address s + 2 * of_nat (rf_count s) \<le> rf_limit s"
proof -
  let ?c = "ucast (rf_word_count s) :: u32"
  have c: "unat ?c = rf_count s" by (rule unat_count)
  show c2: "unat (?c * 2) = 2 * rf_count s" using rf_count_less [of s] c by (simp add: unat_word_ariths)
  show "clip_into_range (get_current_disk_address s) ?c = ?c"
    using clip_iff(2) [OF disk_address_less, of ?c] rf_count_less [of s] assms unfolding c by (simp add: rf_ready_def)
  show "unat (push_bit 1 (get_current_disk_address s)) = 2 * unat (get_current_disk_address s)" by (rule unat_double [OF disk_address_less])
  show "0 < ?c" using assms c by (simp add: word_less_nat_alt rf_ready_def)
  show "length (rf_disk_words f (unat (get_current_disk_address s)) (rf_count s)) = rf_count s"
  proof -
    have "min (length (content f) - 2 * unat (get_current_disk_address s)) (2 * rf_count s) = 2 * rf_count s"
    proof (rule min.absorb2)
      have "2 * (unat (get_current_disk_address s) + rf_count s) \<le> length (content f)" using assms unfolding rf_ready_def by blast
      then show "2 * rf_count s \<le> length (content f) - 2 * unat (get_current_disk_address s)" by arith
    qed
    then show ?thesis by (simp add: rf_disk_words_def length_bytes_to_words_even)
  qed
  have s: "unat (get_memory_address s + ?c * 2) = unat (get_memory_address s) + 2 * rf_count s"
  proof -
    have "unat (get_memory_address s) + unat (?c * 2) < 2 ^ 32" unfolding c2 using memory_address_less [of s] rf_count_less [of s] by simp
    then show ?thesis using unat_add_lem [of "get_memory_address s" "?c * 2"] c2 by simp
  qed
  show "\<not> rf_limit s < get_memory_address s + ?c * 2" using s assms by (simp add: word_less_nat_alt rf_ready_def)
  have "of_nat (rf_count s) = ?c" by (rule count_of_nat [symmetric])
  then show "get_memory_address s + 2 * of_nat (rf_count s) \<le> rf_limit s"
    using s assms by (simp only: mult.commute [of 2]) (simp add: word_le_nat_alt rf_ready_def)
qed

lemma rf_disk_read:
  assumes "rf_ready f s" "length junk = rf_count s"
  shows "rs_read (get_current_disk_address s) junk (ucast (rf_word_count s)) s =
    Some (True, rf_disk_words f (unat (get_current_disk_address s)) (rf_count s), s)"
proof -
  let ?p = "2 * unat (get_current_disk_address s)" and ?n = "2 * rf_count s"
  have f: "f_open f" "\<not> f_fail f" "?p + ?n \<le> length (content f)" "0 < ?n" "rs11_image s = Some f" using assms(1) by (simp_all add: rf_ready_def)
  have "binfile_read ?p ?n f = Some (take ?n (drop ?p (content f)), f)"
    using f by (cases f) (simp add: binfile_read_def Let_def)
  moreover have "s\<lparr>rs11_image := Some f\<rparr> = s" using f(5) by (cases s) simp
  moreover have "unat (ucast (rf_word_count s) :: u32) = length junk" unfolding unat_count assms(2) ..
  ultimately show ?thesis using rf_sizes [OF assms(1)] f(5)
    by (simp add: rs_read_def Let_def rf_disk_words_def)
qed

lemma rf_host_read:
  assumes "rf_ready f s" "length junk = rf_count s"
  shows "rf_dma_read failed (get_memory_address s) junk (ucast (rf_word_count s)) s = Some (True, host_words s (rf_count s))"
proof -
  have "\<forall>i<rf_count s. rf_memory s (get_memory_address s + 2 * of_nat i) \<noteq> None" using assms(1) by (simp add: rf_ready_def)
  then have "bus_read (rf_memory s) (get_memory_address s) (rf_count s) = Some (host_words s (rf_count s))"
    by (simp add: bus_read_iff host_words_def)
  then have "dma_spec (rf_limit s) To_device (get_memory_address s) junk (rf_count s) (rf_memory s) =
      Some (True, host_words s (rf_count s), rf_memory s)"
    using assms rf_sizes(7) [OF assms(1)] by (simp add: dma_spec_def rf_ready_def)
  then show ?thesis using rf_sizes(6) [OF assms(1)] by (simp only: rf_dma_read_def unat_count) simp
qed

lemma rf_ready_wc: "rf_ready f (s\<lparr>rf_wc := w\<rparr>) = rf_ready f s" "rf_word_count (s\<lparr>rf_wc := w\<rparr>) = rf_word_count s"
  "get_memory_address (s\<lparr>rf_wc := w\<rparr>) = get_memory_address s" "get_current_disk_address (s\<lparr>rf_wc := w\<rparr>) = get_current_disk_address s"
  "host_words (s\<lparr>rf_wc := w\<rparr>) n = host_words s n"
  by (simp_all add: rf_ready_def get_memory_address_def get_current_disk_address_def rf_word_count_def host_words_def)

lemma rf_transferred:
  assumes "rf_ready f s" "rf_transfer junk failed (ucast (rf_word_count s)) (s\<lparr>rf_wc := dati s 1\<rparr>) = Some (b, s1)"
    "rf_dae s1 = rf_dae s" "dati s1 = dati s" "rf_dcs s1 AND 0x30 = rf_dcs s AND 0x30"
  obtains t where "rf_worker_step junk failed s = Some t" "rf_worker_state t = RF_finish" "rf_memory t = rf_memory s1"
    "rs11_image t = rs11_image s1" "dati t 1 = 0"
    "get_memory_address t = (if field_set (rf_dae s) DAE_CMA_INH then get_memory_address s else (get_memory_address s + 2 * of_nat (rf_count s)) AND 0x3ffff)"
    "get_current_disk_address t = get_current_disk_address s + of_nat (rf_count s)"
    "field_set (rf_dcs t) DCS_WCE = field_set (rf_dcs s1) DCS_WCE" "field_set (rf_dcs t) DCS_NED = field_set (rf_dcs s1) DCS_NED"
    "field_set (rf_dae t) DAE_NEM = field_set (rf_dae s) DAE_NEM"
proof -
  have n: "rf_word_count s \<noteq> 0" using assms(1) by (auto simp: rf_ready_def)
  obtain t where t: "rf_execute junk failed s = Some t" "rf_worker_state t = RF_finish" "rf_memory t = rf_memory s1"
    "rs11_image t = rs11_image s1" "dati t 1 = 0"
    "get_memory_address t = (if field_set (rf_dae s1) DAE_CMA_INH then get_memory_address s1
      else (get_memory_address s + 2 * ucast (rf_word_count s)) AND 0x3ffff)"
    "get_current_disk_address t = (get_current_disk_address s + ucast (rf_word_count s)) AND 0x1fffff"
    "\<forall>k. 0xc030 AND k = 0 \<longrightarrow> rf_dcs t AND k = rf_dcs s1 AND k" "\<forall>k. 0x1f AND k = 0 \<longrightarrow> rf_dae t AND k = rf_dae s1 AND k"
    using execute_ends [OF assms(2) n] by blast
  have m1: "get_memory_address s1 = get_memory_address s"
  proof -
    show ?thesis by (simp only: memory_address_field assms(4,5))
  qed
  have d: "(get_current_disk_address s + ucast (rf_word_count s)) AND 0x1fffff = get_current_disk_address s + ucast (rf_word_count s)"
  proof -
    let ?x = "get_current_disk_address s + ucast (rf_word_count s)"
    have "unat (get_current_disk_address s) + unat (ucast (rf_word_count s) :: u32) < 2 ^ LENGTH(32)"
      unfolding unat_count using rf_count_less [of s] disk_address_less [of s] by simp
    then have "unat ?x = unat (get_current_disk_address s) + rf_count s" by (simp only: iffD1 [OF unat_add_lem] unat_count)
    moreover have "unat (get_current_disk_address s) + rf_count s \<le> 0x1fffff" using assms(1) unfolding rf_ready_def by blast
    ultimately have "unat ?x < 2 ^ 21" by simp
    then have "take_bit 21 (unat ?x) = unat ?x" by (rule take_bit_nat_eq_self)
    then have "take_bit 21 ?x = ?x" by (simp only: word_unat_eq_iff unsigned_take_bit_eq)
    then show ?thesis by (simp only: masks take_bit_eq_mask)
  qed
  have f: "field_set (rf_dcs t) DCS_WCE = field_set (rf_dcs s1) DCS_WCE" "field_set (rf_dcs t) DCS_NED = field_set (rf_dcs s1) DCS_NED"
    by (rule field_set_and, use t(8) in \<open>simp add: DCS_WCE_def DCS_NED_def\<close>)+
  have g: "field_set (rf_dae t) DAE_NEM = field_set (rf_dae s) DAE_NEM"
    by (rule field_set_and) (use t(9) assms(3) in \<open>simp add: DAE_NEM_def\<close>)
  have w: "rf_worker_step junk failed s = Some t" using assms(1) t(1) by (simp add: rf_worker_step_def rf_ready_def)
  show thesis
    by (rule that [OF w t(2-5) _ _ f g]) (use t(6,7) assms(3) m1 d in \<open>simp_all only: count_of_nat\<close>)
qed

text \<open>Memory after the words of the disk have been written to it.\<close>

lemma rf_host_written:
  assumes "rf_ready f s" "length ws = rf_count s"
  obtains m where "rf_dma_write (get_memory_address s) ws (ucast (rf_word_count s)) s = Some (True, s\<lparr>rf_memory := m\<rparr>)"
    "\<forall>i<rf_count s. m (get_memory_address s + 2 * of_nat i) = Some (ws ! i)"
    "\<forall>x. (\<forall>i<rf_count s. x \<noteq> get_memory_address s + 2 * of_nat i) \<longrightarrow> m x = rf_memory s x"
proof -
  let ?a = "get_memory_address s"
  have fits: "unat ?a + 2 * length ws \<le> 2 ^ 32" unfolding assms(2) using memory_address_less [of s] rf_count_less [of s] by simp
  have ans: "\<forall>i<length ws. rf_memory s (?a + 2 * of_nat i) \<noteq> None" using assms by (simp add: rf_ready_def)
  note b = bus_write_ok [OF fits ans]
  obtain m where m: "bus_write (rf_memory s) ?a ws = (m, True)" using b(1) by (cases "bus_write (rf_memory s) ?a ws") simp
  have "dma_spec (rf_limit s) To_memory ?a ws (rf_count s) (rf_memory s) = Some (True, ws, m)"
    using assms rf_sizes(7) [OF assms(1)] m by (simp add: dma_spec_def rf_ready_def)
  then have "rf_dma_write ?a ws (ucast (rf_word_count s)) s = Some (True, s\<lparr>rf_memory := m\<rparr>)"
    using rf_sizes(6) [OF assms(1)] by (simp only: rf_dma_write_def unat_count) simp
  moreover have "\<forall>i<rf_count s. m (?a + 2 * of_nat i) = Some (ws ! i)" using b(2) m assms(2) by simp
  moreover have "\<forall>x. (\<forall>i<rf_count s. x \<noteq> ?a + 2 * of_nat i) \<longrightarrow> m x = rf_memory s x" using b(3) m assms(2) by simp
  ultimately show thesis by (rule that)
qed

text \<open>
  A Read of the RF11 in range: the words of the disk are in memory at the bus address and nothing else there
  has changed, WC is zero, the bus address (unless inhibited, and within its 18 bits) and the disk address have moved by
  the words transferred, and the image is as before.
\<close>

theorem rf_read_copies_disk:
  assumes "rf_ready f s" "FR (rf_dcs s) = RF_READ" "length junk = unat (rf_word_count s)"
  shows "\<exists>t. rf_worker_step junk failed s = Some t \<and>
    (\<forall>i<unat (rf_word_count s). rf_memory t (get_memory_address s + 2 * of_nat i) =
      Some (rf_disk_words f (unat (get_current_disk_address s)) (unat (rf_word_count s)) ! i)) \<and>
    (\<forall>x. (\<forall>i<unat (rf_word_count s). x \<noteq> get_memory_address s + 2 * of_nat i) \<longrightarrow> rf_memory t x = rf_memory s x) \<and>
    rs11_image t = rs11_image s \<and> dati t 1 = 0 \<and>
    get_memory_address t = (if field_set (rf_dae s) DAE_CMA_INH then get_memory_address s
      else (get_memory_address s + 2 * of_nat (unat (rf_word_count s))) AND 0x3ffff) \<and>
    get_current_disk_address t = get_current_disk_address s + of_nat (unat (rf_word_count s))"
proof -
  let ?s = "s\<lparr>rf_wc := dati s 1\<rparr>" and ?w = "rf_disk_words f (unat (get_current_disk_address s)) (rf_count s)"
  have r: "rf_ready f ?s" "length junk = rf_count ?s" using assms(1,3) by (simp_all add: rf_ready_wc)
  have l: "length ?w = rf_count ?s" using rf_sizes(5) [OF assms(1)] by (simp add: rf_ready_wc)
  obtain m where m: "rf_dma_write (get_memory_address ?s) ?w (ucast (rf_word_count ?s)) ?s = Some (True, ?s\<lparr>rf_memory := m\<rparr>)"
    "\<forall>i<rf_count s. m (get_memory_address s + 2 * of_nat i) = Some (?w ! i)"
    "\<forall>x. (\<forall>i<rf_count s. x \<noteq> get_memory_address s + 2 * of_nat i) \<longrightarrow> m x = rf_memory s x"
    by (rule rf_host_written [OF r(1) l]) (simp add: rf_ready_wc that)
  have "rf_transfer junk failed (ucast (rf_word_count s)) ?s = Some (?w, ?s\<lparr>rf_memory := m\<rparr>)"
    using rf_disk_read [OF r] m(1) assms(2) by (simp add: rf_transfer_def rf_transfer_read_def rf_ready_wc)
  then obtain t where "rf_worker_step junk failed s = Some t" "rf_memory t = m" "rs11_image t = rs11_image s" "dati t 1 = 0"
    "get_memory_address t = (if field_set (rf_dae s) DAE_CMA_INH then get_memory_address s else (get_memory_address s + 2 * of_nat (rf_count s)) AND 0x3ffff)"
    "get_current_disk_address t = get_current_disk_address s + of_nat (rf_count s)"
    by (rule rf_transferred [OF assms(1)]) simp_all
  then show ?thesis using m(2,3) by (intro exI [where x = t] conjI) (simp_all only:)
qed

text \<open>Where the comparison of a write check looks.\<close>

lemma bytes_differ:
  assumes "n \<le> length a" "n \<le> length b"
  shows "buffers_differ a b n \<longleftrightarrow> (\<exists>i<n div 2. a ! i \<noteq> b ! i) \<or> (odd n \<and> (ucast (a ! (n div 2)) :: u8) \<noteq> ucast (b ! (n div 2)))"
  using assms
proof (induction n arbitrary: a b rule: induct_nat_012)
  case 0
  then show ?case by (simp add: buffers_differ_def)
next
  case 1
  then obtain x a' y b' where "a = x # a'" "b = y # b'" by (cases a; cases b) auto
  then show ?case by (simp add: buffers_differ_def)
next
  case (ge2 n)
  then obtain x a' y b' where e: "a = x # a'" "b = y # b'" "n \<le> length a'" "n \<le> length b'" by (cases a; cases b) auto
  have w: "x = y \<longleftrightarrow> (ucast x :: u8) = ucast y \<and> (ucast (drop_bit 8 x) :: u8) = ucast (drop_bit 8 y)"
  proof -
    have "(ucast (ucast z :: u8) :: u16) OR push_bit 8 (ucast (ucast (drop_bit 8 z) :: u8)) = z" for z :: u16
      by (rule bit_word_eqI) (auto simp: bit_simps)
    then show ?thesis by metis
  qed
  have "buffers_differ a b (Suc (Suc n)) \<longleftrightarrow> x \<noteq> y \<or> buffers_differ a' b' n"
  proof (cases "x = y")
    case True
    then show ?thesis unfolding buffers_differ_def e by simp
  next
    case False
    then have "(ucast x :: u8) \<noteq> ucast y \<or> (ucast (drop_bit 8 x) :: u8) \<noteq> ucast (drop_bit 8 y)" using w by blast
    then show ?thesis using False unfolding buffers_differ_def e by simp blast
  qed
  also have "\<dots> \<longleftrightarrow> x \<noteq> y \<or> (\<exists>i<n div 2. a' ! i \<noteq> b' ! i) \<or> (odd n \<and> (ucast (a' ! (n div 2)) :: u8) \<noteq> ucast (b' ! (n div 2)))"
    unfolding ge2.IH(1) [OF e(3,4)] ..
  finally show ?case unfolding e by (simp add: Ex_less_Suc2 disj_assoc)
qed

text \<open>
  Property C19. The write check of the RF11 compares half of what it should: \<open>memcmp\<close> gets the number of words for the
  number of bytes. The error bit becomes set exactly when one of the first words, half of the word count of them, differs
  between memory and disk (with an odd count also the low byte of the next word); the rest is never compared.
\<close>

theorem rf_write_check_compares_half:
  assumes "rf_ready f s" "FR (rf_dcs s) = RF_WRITE_CHECK" "length junk = unat (rf_word_count s)" "n = unat (rf_word_count s)"
    "mem = (\<lambda>i. the (rf_memory s (get_memory_address s + 2 * of_nat i)))"
    "dsk = (!) (rf_disk_words f (unat (get_current_disk_address s)) n)"
  shows "\<exists>t. rf_worker_step junk failed s = Some t \<and> rf_memory t = rf_memory s \<and> rs11_image t = rs11_image s \<and>
    (field_set (rf_dcs t) DCS_WCE \<longleftrightarrow> field_set (rf_dcs s) DCS_WCE \<or>
      (\<exists>i<n div 2. mem i \<noteq> dsk i) \<or> (odd n \<and> (ucast (mem (n div 2)) :: u8) \<noteq> ucast (dsk (n div 2))))"
proof -
  let ?s = "s\<lparr>rf_wc := dati s 1\<rparr>" and ?w = "rf_disk_words f (unat (get_current_disk_address s)) (rf_count s)"
  let ?c = "host_words s (rf_count s)"
  have r: "rf_ready f ?s" "length junk = rf_count ?s" using assms(1,3) by (simp_all add: rf_ready_wc)
  let ?t = "if buffers_differ ?c ?w (rf_count s) then WCE_error ?s else ?s"
  have x: "rf_transfer junk failed (ucast (rf_word_count s)) ?s = Some (?w, ?t)"
    using rf_disk_read [OF r] rf_host_read [OF r, of failed] assms(2)
    by (simp add: rf_transfer_def rf_transfer_read_def rf_ready_wc unat_count)
  have y: "rf_dae ?t = rf_dae s" "dati ?t = dati s" "rf_dcs ?t AND 0x30 = rf_dcs s AND 0x30" by (simp_all add: WCE_error_def DCS_WCE_def field_other)
  obtain t where t: "rf_worker_step junk failed s = Some t" "rf_memory t = rf_memory ?t" "rs11_image t = rs11_image ?t"
    "field_set (rf_dcs t) DCS_WCE = field_set (rf_dcs ?t) DCS_WCE"
    by (rule rf_transferred [OF assms(1) x y])
  have l: "rf_count s \<le> length ?c" "rf_count s \<le> length ?w" using rf_sizes(5) [OF assms(1)] by (simp_all add: host_words_def)
  have c: "?c ! i = mem i" if "i < n" for i using that assms(4,5) by (simp add: host_words_def)
  have "buffers_differ ?c ?w (rf_count s) \<longleftrightarrow> (\<exists>i<n div 2. mem i \<noteq> dsk i) \<or> (odd n \<and> (ucast (mem (n div 2)) :: u8) \<noteq> ucast (dsk (n div 2)))"
  proof -
    have "odd n \<Longrightarrow> n div 2 < n" by (cases n) auto
    then show ?thesis using bytes_differ [OF l] c unfolding assms(4,6) [symmetric] by auto
  qed
  moreover have "field_set (rf_dcs ?t) DCS_WCE \<longleftrightarrow> field_set (rf_dcs s) DCS_WCE \<or> buffers_differ ?c ?w (rf_count s)"
    by (simp add: WCE_error_def field_set_same) (simp add: field_set_def DCS_WCE_def)
  ultimately show ?thesis using t by (intro exI [where x = t]) (simp add: WCE_error_def)
qed

text \<open>Writing.\<close>

lemma overlay_read: "pos \<le> length c \<Longrightarrow> take (length buf) (drop pos (overlay pos buf c)) = buf"
  by (simp add: overlay_def)

lemma overlay_elsewhere:
  assumes "pos \<le> length c" "p + m \<le> pos \<or> pos + length buf \<le> p"
  shows "take m (drop p (overlay pos buf c)) = take m (drop p c)"
  using assms(2)
proof
  assume "p + m \<le> pos"
  then have "take (p + m) (overlay pos buf c) = take (p + m) c" using assms(1) by (simp add: overlay_def min_absorb1)
  then show ?thesis by (metis add.commute drop_take take_drop)
next
  assume a: "pos + length buf \<le> p"
  then have "drop p (overlay pos buf c) = drop (p - pos - length buf) (drop (pos + length buf) c)"
    using assms(1) by (simp add: overlay_def drop_append min_absorb2)
  then show ?thesis using a by simp
qed

lemma rf_disk_written:
  assumes "rf_ready f s" "\<not> f_readonly f" "length ws = rf_count s"
  obtains g where "rs_write (get_current_disk_address s) ws (ucast (rf_word_count s)) s = Some (True, s\<lparr>rs11_image := Some g\<rparr>)"
    "rf_disk_words g (unat (get_current_disk_address s)) (rf_count s) = ws"
    "\<And>p m. p + m \<le> unat (get_current_disk_address s) \<or> unat (get_current_disk_address s) + rf_count s \<le> p \<Longrightarrow> rf_disk_words g p m = rf_disk_words f p m"
proof -
  let ?d = "unat (get_current_disk_address s)" and ?b = "words_to_bytes ws"
  let ?g = "f\<lparr>content := overlay (2 * ?d) ?b (content f), f_fail := False\<rparr>"
  have f: "f_open f" "2 * ?d \<le> length (content f)" "rs11_image s = Some f" using assms(1) by (simp_all add: rf_ready_def)
  have l: "length ?b = 2 * rf_count s" using assms(3) by simp
  have "int (2 * ?d) \<le> int (length (content f))" using f(2) by (simp only: of_nat_le_iff)
  then have "int (2 * ?d) - int (length (content f)) \<le> 0" by (simp only: diff_le_0_iff_le)
  then have "int (2 * ?d) - int (length (content f)) < 2 ^ 31" by (rule le_less_trans) simp
  then have "binfile_write ?b (2 * ?d) f = Some ?g"
    using f(2) unfolding binfile_write_iff [OF f(1) assms(2), of ?b "2 * ?d"] by (simp only: if_True) simp
  then have "rs_write (get_current_disk_address s) ws (ucast (rf_word_count s)) s = Some (True, s\<lparr>rs11_image := Some ?g\<rparr>)"
    using rf_sizes [OF assms(1)] f(3) assms(3) by (simp add: rs_write_def Let_def unat_count)
  moreover have "rf_disk_words ?g ?d (rf_count s) = ws"
    using overlay_read [OF f(2), of ?b] unfolding l by (simp add: rf_disk_words_def words_bytes_words)
  moreover have "rf_disk_words ?g p m = rf_disk_words f p m" if "p + m \<le> ?d \<or> ?d + rf_count s \<le> p" for p m
  proof -
    have "2 * p + 2 * m \<le> 2 * ?d \<or> 2 * ?d + length ?b \<le> 2 * p" using that l by auto
    then show ?thesis using overlay_elsewhere [OF f(2)] by (simp add: rf_disk_words_def)
  qed
  ultimately show thesis by (rule that)
qed

text \<open>
  A Write of the RF11 in range puts the words of memory in their place on the disk, where a Read finds them
  again; every other part of the disk, and memory, are as before.
\<close>

theorem rf_write_reads_back:
  assumes "rf_ready f s" "FR (rf_dcs s) = RF_WRITE" "\<not> f_readonly f" "length junk = unat (rf_word_count s)"
  shows "\<exists>t g. rf_worker_step junk failed s = Some t \<and> rs11_image t = Some g \<and>
    rf_disk_words g (unat (get_current_disk_address s)) (unat (rf_word_count s)) = host_words s (unat (rf_word_count s)) \<and>
    (\<forall>p m. p + m \<le> unat (get_current_disk_address s) \<or> unat (get_current_disk_address s) + unat (rf_word_count s) \<le> p \<longrightarrow>
      rf_disk_words g p m = rf_disk_words f p m) \<and>
    rf_memory t = rf_memory s \<and> get_current_disk_address t = get_current_disk_address s + of_nat (unat (rf_word_count s))"
proof -
  let ?s = "s\<lparr>rf_wc := dati s 1\<rparr>" and ?w = "host_words s (rf_count s)"
  have r: "rf_ready f ?s" "length junk = rf_count ?s" "length ?w = rf_count ?s" using assms(1,4) by (simp_all add: rf_ready_wc host_words_def)
  obtain g where g: "rs_write (get_current_disk_address ?s) ?w (ucast (rf_word_count ?s)) ?s = Some (True, ?s\<lparr>rs11_image := Some g\<rparr>)"
    "rf_disk_words g (unat (get_current_disk_address s)) (rf_count s) = ?w"
    "\<And>p m. p + m \<le> unat (get_current_disk_address s) \<or> unat (get_current_disk_address s) + rf_count s \<le> p \<Longrightarrow> rf_disk_words g p m = rf_disk_words f p m"
    by (rule rf_disk_written [OF r(1) assms(3) r(3)]) (simp add: rf_ready_wc that)
  have x: "rf_transfer junk failed (ucast (rf_word_count s)) ?s = Some (?w, ?s\<lparr>rs11_image := Some g\<rparr>)"
    using rf_host_read [OF r(1,2), of failed] g(1) assms(2) by (simp add: rf_transfer_def rf_transfer_write_def rf_ready_wc)
  have y: "rf_dae (?s\<lparr>rs11_image := Some g\<rparr>) = rf_dae s" "dati (?s\<lparr>rs11_image := Some g\<rparr>) = dati s"
    "rf_dcs (?s\<lparr>rs11_image := Some g\<rparr>) AND 0x30 = rf_dcs s AND 0x30" by simp_all
  obtain t where "rf_worker_step junk failed s = Some t" "rf_memory t = rf_memory (?s\<lparr>rs11_image := Some g\<rparr>)"
    "rs11_image t = rs11_image (?s\<lparr>rs11_image := Some g\<rparr>)"
    "get_current_disk_address t = get_current_disk_address s + of_nat (rf_count s)"
    by (rule rf_transferred [OF assms(1) x y])
  then show ?thesis using g(2,3) by (intro exI [where x = t] exI [where x = g]) simp
qed

subsection \<open>When the program ends\<close>

lemma rf_zero_count_ends_program:
  assumes "rf_worker_state s = RF_execute" "dati s 1 = 0"
  shows "rf_worker_step junk failed s = None"
proof -
  have "rf_word_count (s\<lparr>rf_wc := dati s 1\<rparr>) = 0" using assms(2) by (simp add: rf_word_count_def)
  then show ?thesis using assms(1)
    by (cases "rf_transfer junk failed 0 (s\<lparr>rf_wc := dati s 1\<rparr>)") (simp_all add: rf_worker_step_def rf_execute_def Let_def)
qed

text \<open>A command is there for the worker, which has not begun to execute it.\<close>

definition command_pending :: "rf11 \<Rightarrow> bool" where
  "command_pending s \<longleftrightarrow> rf_worker_state s = RF_execute \<or> (rf_worker_state s = RF_idle \<and> rf_new_command_ready s)"

lemma pending_zero_ends_program:
  assumes "command_pending s" "dati s 1 = 0"
  shows "Option.bind (rf_worker_step junk failed s) (rf_worker_step junk failed) = None"
proof (cases "rf_worker_state s")
  case RF_idle
  then have "rf_worker_step junk failed s = Some (s\<lparr>rf_new_command_ready := False, rf_worker_state := RF_execute\<rparr>)"
    using assms(1) by (simp add: rf_worker_step_def command_pending_def)
  then show ?thesis using rf_zero_count_ends_program [of "s\<lparr>rf_new_command_ready := False, rf_worker_state := RF_execute\<rparr>"] assms(2) by simp
next
  case RF_execute
  then show ?thesis using rf_zero_count_ends_program assms(2) by simp
next
  case RF_finish
  then show ?thesis using assms(1) by (simp add: command_pending_def)
qed

lemma reset_pending: "command_pending (rf_reset_controller s) = command_pending s" "dati (rf_reset_controller s) 1 = 0"
proof -
  have f: "command_pending (fold (\<lambda>i. set_dati i (v i)) is u) = command_pending u" for v "is" u
    by (induction "is" arbitrary: u) (simp_all add: command_pending_def)
  have "[0..<8] = [0, 1, 2, 3, 4, 5, 6, 7 :: nat]" by (simp add: upt_rec)
  then show "dati (rf_reset_controller s) 1 = 0" by (simp add: rf_reset_controller_def reset_local_registers_def)
  show "command_pending (rf_reset_controller s) = command_pending s"
    using f [of "\<lambda>i. if i = 0 then 0x80 else 0" "[0..<8]" s]
    by (simp add: rf_reset_controller_def reset_local_registers_def command_pending_def)
qed

text \<open>
  Property C20. A bus INIT, a power cycle or a Disk Clear that comes between the command and its execution ends the
  program: the reset clears the word count but leaves the command pending, and the worker then transfers zero words,
  which fails an assertion of the adapter.
\<close>

theorem rf_reset_ends_program:
  assumes "command_pending s"
    "t = rf_on_init_changed True s \<or> t = rf_on_power_changed True s \<or> (t = rf_on_after_register_access 0 s \<and> field_set (dato s 0) DCS_DISK_CLEAR)"
  shows "Option.bind (rf_worker_step junk failed t) (rf_worker_step junk failed) = None"
proof (rule pending_zero_ends_program)
  let ?p = "\<lambda>t. command_pending t \<and> dati t 1 = 0"
  have r: "?p (rf_reset_controller u)" if "command_pending u" for u using that reset_pending by simp
  have "?p (write_DCS s)" if d: "field_set (dato s 0) DCS_DISK_CLEAR"
  proof -
    let ?u = "rf_reset_controller (s\<lparr>rf_dcs := put_field 0x017f (dato s 0) (rf_dcs s)\<rparr>)"
    have "command_pending (s\<lparr>rf_dcs := put_field 0x017f (dato s 0) (rf_dcs s)\<rparr>)" using assms(1) by (simp add: command_pending_def)
    then have u: "?p ?u" by (rule r)
    have "rf_dcs ?u = DCS_RDY" by (simp add: rf_reset_controller_def reset_local_registers_def)
    then have g: "\<not> field_set (rf_dcs ?u) DCS_GO" by (simp add: field_set_def DCS_RDY_def DCS_GO_def)
    have "put_field 0x017f (dato s 0) (rf_dcs s) AND DCS_DISK_CLEAR = dato s 0 AND DCS_DISK_CLEAR"
    proof -
      have "x AND DCS_DISK_CLEAR = (x AND 0x017f) AND DCS_DISK_CLEAR" for x :: u16
        by (simp only: and.assoc) (simp add: DCS_DISK_CLEAR_def)
      then show ?thesis by (metis field_same)
    qed
    then have "field_set (put_field 0x017f (dato s 0) (rf_dcs s)) DCS_DISK_CLEAR" using d by (simp add: field_set_def)
    then have "write_DCS s = update_DCS ?u" using g by (simp add: write_DCS_def Let_def)
    then show ?thesis using u by (simp add: command_pending_def)
  qed
  then have c: "?p t" if "t = rf_on_after_register_access 0 s" "field_set (dato s 0) DCS_DISK_CLEAR"
    using that by (simp add: rf_on_after_register_access_def)
  have i: "?p t" if "t = rf_on_init_changed True s"
  proof -
    have "command_pending (s\<lparr>rf_init_asserted := True\<rparr>)" using assms(1) by (simp add: command_pending_def)
    then show ?thesis using r that by (simp add: rf_on_init_changed_def)
  qed
  have p: "?p t" if "t = rf_on_power_changed True s" using r [OF assms(1)] that by (simp add: rf_on_power_changed_def)
  have "?p t" using assms(2) i p c by blast
  then show "command_pending t" "dati t 1 = 0" by simp_all
qed

text \<open>A controller about to read two words of its disk from word 3 on, which holds octal 021 in every byte.\<close>

definition sample_disk :: binfile where "sample_disk = opened_binfile (replicate 64 0x11) False"

definition sample_rf11 :: "u16 \<Rightarrow> rf11" where
  "sample_rf11 fr = \<lparr>dati = (\<lambda>_. 0)(1 := - 2, 2 := 0x100, 3 := 3), dato = (\<lambda>_. 0), rf_dcs = push_bit 1 fr, rf_wc = 0, rf_cma = 0, rf_dar = 0,
     rf_dae = 0, rf_dbr = 0, rf_mar = 0, rf_new_command_ready = False, rf_worker_state = RF_execute, rs11_image = Some sample_disk,
     rf_init_asserted = False, rf_memory = (\<lambda>a. Some (if a = 0x102 then 0x1211 else 0x1111)), rf_limit = 0x40000, rf_interrupts = 0\<rparr>"

lemma sample_address: "fr \<in> {1, 2, 3} \<Longrightarrow> get_memory_address (sample_rf11 fr) = 0x100" "get_current_disk_address (sample_rf11 fr) = 3"
  by (auto simp: sample_rf11_def get_memory_address_def get_current_disk_address_def)

lemma sample_count: "rf_word_count (sample_rf11 fr) = 2"
  by (simp add: sample_rf11_def rf_word_count_def)

lemma sample_ready: "fr \<in> {1, 2, 3} \<Longrightarrow> rf_ready sample_disk (sample_rf11 fr)"
  unfolding rf_ready_def sample_address sample_count
  by (simp add: sample_address) (simp add: sample_rf11_def sample_disk_def opened_binfile_def)

lemma sample_function: "FR (rf_dcs (sample_rf11 1)) = RF_WRITE" "FR (rf_dcs (sample_rf11 2)) = RF_READ" "FR (rf_dcs (sample_rf11 3)) = RF_WRITE_CHECK"
  by (simp_all add: sample_rf11_def FR_def)

lemma rf_sample_words: "rf_disk_words sample_disk 3 2 = [0x1111, 0x1111]"
proof -
  have "take 4 (drop 6 (replicate 64 (0x11 :: u8))) = [0x11, 0x11, 0x11, 0x11]" by (simp add: numeral_eq_Suc)
  then show ?thesis by (simp add: rf_disk_words_def sample_disk_def opened_binfile_def)
qed

theorem rf_read_copies_disk_witness:
  "\<exists>t. rf_worker_step [0, 0] [] (sample_rf11 2) = Some t \<and> rf_memory t 0x102 = Some 0x1111 \<and> get_memory_address t = 0x104"
proof -
  have l: "length [0, 0 :: u16] = unat (rf_word_count (sample_rf11 2))" by (simp add: sample_count)
  have i: "\<not> field_set (rf_dae (sample_rf11 2)) DAE_CMA_INH" by (simp add: sample_rf11_def field_set_def)
  obtain t where t: "rf_worker_step [0, 0] [] (sample_rf11 2) = Some t" "\<forall>i<2. rf_memory t (0x100 + 2 * of_nat i) = Some ([0x1111, 0x1111] ! i)"
    "get_memory_address t = (0x100 + 2 * of_nat 2) AND 0x3ffff"
    using rf_read_copies_disk [OF sample_ready sample_function(2) l, of "[]"] i by (auto simp: sample_address sample_count rf_sample_words)
  then show ?thesis using t(2) [rule_format, of 1] by (intro exI [where x = t]) simp
qed

theorem rf_write_check_compares_half_witness:
  "\<exists>t. rf_worker_step [0, 0] [] (sample_rf11 3) = Some t \<and> \<not> field_set (rf_dcs t) DCS_WCE"
proof -
  let ?s = "sample_rf11 3"
  have l: "length [0, 0 :: u16] = unat (rf_word_count ?s)" by (simp add: sample_count)
  have m: "rf_memory ?s 0x100 = Some 0x1111" "\<not> field_set (rf_dcs ?s) DCS_WCE" by (simp_all add: sample_rf11_def field_set_def DCS_WCE_def)
  obtain t where "rf_worker_step [0, 0] [] ?s = Some t" "field_set (rf_dcs t) DCS_WCE \<longleftrightarrow> field_set (rf_dcs ?s) DCS_WCE \<or>
      (\<exists>i<1. the (rf_memory ?s (0x100 + 2 * of_nat i)) \<noteq> [0x1111, 0x1111 :: u16] ! i)"
    using rf_write_check_compares_half [OF sample_ready sample_function(3) l refl refl refl, of "[]"]
    by (auto simp: sample_address sample_count rf_sample_words)
  then show ?thesis using m by auto
qed

theorem rf_write_reads_back_witness:
  "\<exists>t g. rf_worker_step [0, 0] [] (sample_rf11 1) = Some t \<and> rs11_image t = Some g \<and> rf_disk_words g 3 2 = [0x1111, 0x1211]"
proof -
  let ?s = "sample_rf11 1"
  have l: "length [0, 0 :: u16] = unat (rf_word_count ?s)" "\<not> f_readonly sample_disk" by (simp_all add: sample_count sample_disk_def opened_binfile_def)
  have "[0..<2] = [0, 1 :: nat]" by (simp add: upt_rec)
  then have h: "host_words ?s 2 = [0x1111, 0x1211]" by (simp add: host_words_def sample_address) (simp add: sample_rf11_def)
  show ?thesis
    using rf_write_reads_back [OF sample_ready sample_function(1) l(2,1), of "[]"] h by (auto simp: sample_address sample_count)
qed

theorem rf_reset_ends_program_witness:
  "Option.bind (rf_worker_step [] [] (rf_on_init_changed True (sample_rf11 2))) (rf_worker_step [] []) = None"
proof -
  have "command_pending (sample_rf11 2)" by (simp add: command_pending_def sample_rf11_def)
  then show ?thesis by (rule rf_reset_ends_program) simp
qed

end
