(* ===== verification/DL11W.thy ===== *)
theory DL11W
  imports Device_View
begin

text \<open>
  The DL11-W: the serial line unit and the line clock (\<^verbatim>\<open>dl11w.cpp\<close>), with the router of the serial bytes
  (\<^verbatim>\<open>rs232adapter.cpp\<close>). What arrives at the serial port is a list of bytes in the state, of which
  \<^verbatim>\<open>PollComport\<close> takes the first one, if there is one; \<^verbatim>\<open>SendByte\<close> appends to a list, as does
  a write to the output stream. An interrupt request is pending from \<^verbatim>\<open>INTR\<close> until it is delivered or cancelled.
  A signal of a condition variable reaches the worker only while it waits; a wait may also end without a signal.
\<close>

subsection \<open>The router of serial bytes\<close>

record rs232byte =
  rs_c :: u8
  format_error :: bool

record rs232adapter =
  rcvbuffer :: "rs232byte list"
  rcv_termios_error_encoding :: bool
  rs232_in :: "u8 list"
  rs232_out :: "u8 list"
  stream_rcv :: "u8 list option"
  stream_xmt :: "u8 list option"
  pattern :: "u8 list"
  pattern_stream_data :: "u8 list"
  pattern_found :: bool

definition pattern_max_len :: nat where "pattern_max_len = 256"

text \<open>A byte, or more of an escape sequence, is taken from the port; the sequence must be there as a whole.\<close>

definition decode_port :: "bool \<Rightarrow> u8 list \<Rightarrow> (rs232byte option \<times> u8 list) option" where
  "decode_port enc bytes =
     (case bytes of
        [] \<Rightarrow> Some (None, [])
      | c # rest \<Rightarrow>
          if enc \<and> c = 0xff
          then (case rest of
                  [] \<Rightarrow> None
                | d # rest \<Rightarrow>
                    if d = 0
                    then (case rest of [] \<Rightarrow> None | e # rest \<Rightarrow> Some (Some \<lparr>rs_c = e, format_error = True\<rparr>, rest))
                    else if d = 0xff then Some (Some \<lparr>rs_c = 0xff, format_error = False\<rparr>, rest)
                    else Some (Some \<lparr>rs_c = d, format_error = False\<rparr>, rest))
          else Some (Some \<lparr>rs_c = c, format_error = False\<rparr>, rest))"

definition rs232byte_rcv_poll :: "rs232adapter \<Rightarrow> (rs232byte option \<times> rs232adapter) option" where
  "rs232byte_rcv_poll a =
     (case rcvbuffer a of
        b # bs \<Rightarrow> Some (Some b, a\<lparr>rcvbuffer := bs\<rparr>)
      | [] \<Rightarrow>
          do { (b, rest) \<leftarrow> decode_port (rcv_termios_error_encoding a) (rs232_in a);
               let a1 = a\<lparr>rs232_in := rest\<rparr>;
               Some (case b of
                       Some b \<Rightarrow> (Some b, a1)
                     | None \<Rightarrow>
                         (case stream_rcv a1 of
                            Some (c # cs) \<Rightarrow> (Some \<lparr>rs_c = c, format_error = False\<rparr>, a1\<lparr>stream_rcv := Some cs\<rparr>)
                          | _ \<Rightarrow> (None, a1))) })"

text \<open>The strings of the pattern search end at their first zero byte.\<close>

definition occurs_in :: "u8 list \<Rightarrow> u8 list \<Rightarrow> bool" where
  "occurs_in p d \<longleftrightarrow> list_ex (\<lambda>i. take (length p) (drop i d) = p) [0..<Suc (length d)]"

definition keep_last :: "nat \<Rightarrow> u8 list \<Rightarrow> u8 list" where "keep_last n d = drop (length d - n) d"

definition pattern_search :: "u8 \<Rightarrow> rs232adapter \<Rightarrow> rs232adapter option" where
  "pattern_search c a =
     (let n = length (pattern a) in
      if n = 0 then Some a
      else do { assert_that (length (pattern_stream_data a) < pattern_max_len);
                let d = keep_last n (if c = 0 then pattern_stream_data a else pattern_stream_data a @ [c]);
                Some (a\<lparr>pattern_stream_data := d, pattern_found := pattern_found a \<or> occurs_in (pattern a) d\<rparr>) })"

definition rs232byte_xmt_send :: "rs232byte \<Rightarrow> rs232adapter \<Rightarrow> rs232adapter option" where
  "rs232byte_xmt_send b a =
     pattern_search (rs_c b) (a\<lparr>rs232_out := rs232_out a @ [rs_c b], stream_xmt := map_option (\<lambda>out. out @ [rs_c b]) (stream_xmt a)\<rparr>)"

definition rs232byte_loopback :: "rs232byte \<Rightarrow> rs232adapter \<Rightarrow> rs232adapter" where
  "rs232byte_loopback b a = a\<lparr>rcvbuffer := rcvbuffer a @ [b]\<rparr>"

text \<open>
  \<^verbatim>\<open>strncpy\<close> copies at most 256 bytes and does not write the byte behind them in the array of 257, which is taken for the
  zero that ends a pattern of this length; no property is about a pattern that long.
\<close>

definition set_pattern :: "u8 list \<Rightarrow> rs232adapter \<Rightarrow> rs232adapter" where
  "set_pattern p a =
     a\<lparr>pattern := takeWhile (\<lambda>c. c \<noteq> 0) (take pattern_max_len p), pattern_found := False, pattern_stream_data := []\<rparr>"

subsection \<open>The serial line unit\<close>

datatype xmt_worker = Xmt_waiting | Xmt_shifting rs232byte

record slu = device_view +
  rcv_active :: bool
  rcv_done :: bool
  rcv_intr_enable :: bool
  rcv_or_err :: bool
  rcv_fr_err :: bool
  rcv_p_err :: bool
  rcv_buffer :: u8
  rcv_rdr_enb :: bool
  xmt_ready :: bool
  xmt_intr_enable :: bool
  xmt_maint :: bool
  xmt_break :: bool
  xmt_buffer :: u8
  rcv_signal :: bool
  xmt_signal :: bool
  rcv_pending :: bool
  xmt_pending :: bool
  break_enable :: bool
  error_bits_enable :: bool
  line_break :: bool
  slu_INIT :: bool
  slu_adapter :: rs232adapter
  xmt_at :: xmt_worker
  xmt_signalled :: bool

definition get_rcv_intr_level :: "slu \<Rightarrow> bool" where "get_rcv_intr_level s \<longleftrightarrow> rcv_done s \<and> rcv_intr_enable s"
definition get_xmt_intr_level :: "slu \<Rightarrow> bool" where "get_xmt_intr_level s \<longleftrightarrow> xmt_ready s \<and> xmt_intr_enable s"

definition rcsr_value :: "slu \<Rightarrow> u16" where
  "rcsr_value s = flag 0x0800 (rcv_active s) OR flag 0x0080 (rcv_done s) OR flag 0x0040 (rcv_intr_enable s)"

definition xcsr_value :: "slu \<Rightarrow> u16" where
  "xcsr_value s =
     flag 0x0080 (xmt_ready s) OR flag 0x0040 (xmt_intr_enable s) OR flag 0x0004 (xmt_maint s) OR flag 0x0001 (xmt_break s)"

text \<open>A rising edge of the condition requests an interrupt, a falling one cancels it. A request in the INIT condition is ignored.\<close>

definition set_rcsr_dati_value_and_INTR :: "slu \<Rightarrow> slu" where
  "set_rcsr_dati_value_and_INTR s =
     (let level = get_rcv_intr_level s; val = rcsr_value s; s1 = s\<lparr>rcv_signal := level\<rparr> in
      if level \<and> \<not> rcv_signal s then (if slu_INIT s then s1 else (set_dati 0 val s1)\<lparr>rcv_pending := True\<rparr>)
      else if \<not> level \<and> rcv_signal s then (set_dati 0 val s1)\<lparr>rcv_pending := False\<rparr>
      else set_dati 0 val s1)"

definition set_xcsr_dati_value_and_INTR :: "slu \<Rightarrow> slu" where
  "set_xcsr_dati_value_and_INTR s =
     (let level = get_xmt_intr_level s; val = xcsr_value s; s1 = s\<lparr>xmt_signal := level\<rparr> in
      if level \<and> \<not> xmt_signal s then (if slu_INIT s then s1 else (set_dati 2 val s1)\<lparr>xmt_pending := True\<rparr>)
      else if \<not> level \<and> xmt_signal s then (set_dati 2 val s1)\<lparr>xmt_pending := False\<rparr>
      else set_dati 2 val s1)"

definition eval_rcsr_dato_value :: "slu \<Rightarrow> slu" where
  "eval_rcsr_dato_value s =
     (let v = dato s 0; s1 = s\<lparr>rcv_intr_enable := bit v 6, rcv_rdr_enb := bit v 0\<rparr> in
      set_rcsr_dati_value_and_INTR (if rcv_rdr_enb s1 then s1\<lparr>rcv_done := False\<rparr> else s1))"

definition set_rbuf_dati_value :: "slu \<Rightarrow> slu" where
  "set_rbuf_dati_value s =
     (let e = (if error_bits_enable s then flag 0x4000 (rcv_or_err s) OR flag 0x2000 (rcv_fr_err s) OR flag 0x1000 (rcv_p_err s) else 0);
          v = (if e \<noteq> 0 then e OR 0x8000 else e)
      in set_dati 1 (v OR ucast (rcv_buffer s)) s)"

definition eval_xcsr_dato_value :: "slu \<Rightarrow> slu" where
  "eval_xcsr_dato_value s =
     (let v = dato s 2;
          s1 = set_xcsr_dati_value_and_INTR (s\<lparr>xmt_intr_enable := bit v 6, xmt_maint := bit v 2, xmt_break := bit v 0\<rparr>)
      in if xmt_break s \<noteq> xmt_break s1 then s1\<lparr>line_break := break_enable s1 \<and> xmt_break s1\<rparr> else s1)"

definition eval_xbuf_dato_value :: "slu \<Rightarrow> slu" where
  "eval_xbuf_dato_value s = s\<lparr>xmt_buffer := ucast (dato s 3 AND 0xff)\<rparr>"

definition slu_on_after_register_access :: "nat \<Rightarrow> bool \<Rightarrow> slu \<Rightarrow> slu" where
  "slu_on_after_register_access i is_write s =
     (if slu_INIT s then s
      else if i = 0 \<and> is_write then set_rcsr_dati_value_and_INTR (eval_rcsr_dato_value s)
      else if i = 1 then set_rcsr_dati_value_and_INTR (s\<lparr>rcv_done := False\<rparr>)
      else if i = 2 \<and> is_write then set_xcsr_dati_value_and_INTR (eval_xcsr_dato_value s)
      else if i = 3 \<and> is_write
      then (let s1 = set_xcsr_dati_value_and_INTR ((eval_xbuf_dato_value s)\<lparr>xmt_ready := False\<rparr>) in
            if xmt_at s1 = Xmt_waiting then s1\<lparr>xmt_signalled := True\<rparr> else s1)
      else s)"

definition slu_reset :: "slu \<Rightarrow> slu" where
  "slu_reset s =
     (set_dati 3 0 (set_dati 2 0x0080 (set_dati 1 0 (set_dati 0 0 s))))
       \<lparr>rcv_active := False, rcv_done := False, rcv_intr_enable := False, rcv_or_err := False, rcv_fr_err := False, rcv_p_err := False,
        rcv_buffer := 0, xmt_ready := True, xmt_intr_enable := False, xmt_maint := False, xmt_break := False,
        rcv_signal := False, xmt_signal := False\<rparr>"

definition worker_rcv_step :: "slu \<Rightarrow> slu option" where
  "worker_rcv_step s =
     (if slu_INIT s then Some s
      else do { (b, a) \<leftarrow> rs232byte_rcv_poll (slu_adapter s);
                let s1 = s\<lparr>slu_adapter := a\<rparr>;
                Some (case b of
                        None \<Rightarrow> s1
                      | Some b \<Rightarrow>
                          set_rcsr_dati_value_and_INTR (set_rbuf_dati_value
                            (s1\<lparr>rcv_or_err := rcv_done s1, rcv_fr_err := format_error b, rcv_p_err := format_error b,
                               rcv_buffer := rs_c b, rcv_done := True, rcv_active := False\<rparr>))) })"

definition xmt_begin :: "slu \<Rightarrow> slu option" where
  "xmt_begin s =
     (let b = \<lparr>rs_c = xmt_buffer s, format_error = False\<rparr> in
      do { a \<leftarrow> rs232byte_xmt_send b (slu_adapter s);
           let s1 = set_xcsr_dati_value_and_INTR (s\<lparr>slu_adapter := a, xmt_ready := False\<rparr>);
           let s2 = (if xmt_maint s1 then set_rcsr_dati_value_and_INTR (s1\<lparr>rcv_active := True\<rparr>) else s1);
           Some (s2\<lparr>xmt_at := Xmt_shifting b, xmt_signalled := False\<rparr>) })"

definition xmt_end :: "rs232byte \<Rightarrow> slu \<Rightarrow> slu" where
  "xmt_end b s =
     (let s1 = (if xmt_maint s then s\<lparr>slu_adapter := rs232byte_loopback b (slu_adapter s)\<rparr> else s) in
      (set_xcsr_dati_value_and_INTR (s1\<lparr>xmt_ready := True\<rparr>))\<lparr>xmt_at := Xmt_waiting\<rparr>)"

text \<open>
  The worker waits for its condition variable without a test of its own, so that it also goes on when \<^verbatim>\<open>pthread_cond_wait\<close>
  returns without a signal, which POSIX allows: \<open>spurious\<close>.
\<close>

definition worker_xmt_step :: "bool \<Rightarrow> slu \<Rightarrow> slu option" where
  "worker_xmt_step spurious s =
     (case xmt_at s of
        Xmt_waiting \<Rightarrow> if xmt_signalled s \<or> spurious then xmt_begin s else Some s
      | Xmt_shifting b \<Rightarrow> Some (xmt_end b s))"

text \<open>The adapter notifies the device and then drops its requests, after a power event only when DCLO rises.\<close>

definition slu_on_power_changed :: "bool \<Rightarrow> slu \<Rightarrow> slu" where
  "slu_on_power_changed dclo_raising s =
     (let s1 = slu_reset s in if dclo_raising then s1\<lparr>rcv_pending := False, xmt_pending := False\<rparr> else s1)"

definition slu_on_init_changed :: "bool \<Rightarrow> slu \<Rightarrow> slu" where
  "slu_on_init_changed asserted s =
     (let s1 = s\<lparr>slu_INIT := asserted\<rparr> in (if asserted then slu_reset s1 else s1)\<lparr>rcv_pending := False, xmt_pending := False\<rparr>)"

subsection \<open>The line clock\<close>

record ltc = device_view +
  ltc_intr_enable :: bool
  line_clock_monitor :: bool
  ltc_pending :: bool
  ltc_raised :: nat
  ltc_enable :: bool
  frequency :: u32
  world_next_intr_ns :: int
  global_edge_count :: int

definition lks_value :: "ltc \<Rightarrow> u16" where
  "lks_value s = flag 0x0080 (line_clock_monitor s) OR flag 0x0040 (ltc_intr_enable s)"

text \<open>
  The caller passes \<open>do_intr\<close> only with the interrupt enabled, and a reset, which INIT begins with, disables it. A program does not
  write the register during INIT, when the adapter would ignore the request.
\<close>

definition set_lks_dati_value_and_INTR :: "bool \<Rightarrow> ltc \<Rightarrow> ltc" where
  "set_lks_dati_value_and_INTR do_intr s =
     (if do_intr then (set_dati 0 (lks_value s) s)\<lparr>ltc_pending := True, ltc_raised := ltc_raised s + 1\<rparr>
      else set_dati 0 (lks_value s) s)"

definition ltc_on_after_register_access :: "bool \<Rightarrow> ltc \<Rightarrow> ltc" where
  "ltc_on_after_register_access is_write s0 =
     (if \<not> is_write then s0
      else
        (let v = dato s0 0;
             s = (set_dati 0 v s0)\<lparr>ltc_intr_enable := bit v 6\<rparr>;
             s1 = (if \<not> bit v 7 then s\<lparr>line_clock_monitor := False\<rparr> else s);
             s2 = (if \<not> ltc_intr_enable s1 \<or> \<not> line_clock_monitor s1 then s1\<lparr>ltc_pending := False\<rparr> else s1)
         in set_lks_dati_value_and_INTR False s2))"

definition ltc_reset :: "ltc \<Rightarrow> ltc" where
  "ltc_reset s = (set_dati 0 0x0080 s)\<lparr>ltc_intr_enable := False, line_clock_monitor := True\<rparr>"

definition ltc_on_init_changed :: "bool \<Rightarrow> ltc \<Rightarrow> ltc" where
  "ltc_on_init_changed asserted s = (if asserted then ltc_reset s else s)\<lparr>ltc_pending := False\<rparr>"

definition ltc_on_power_changed :: "bool \<Rightarrow> ltc \<Rightarrow> ltc" where
  "ltc_on_power_changed dclo_raising s = (let s1 = ltc_reset s in if dclo_raising then s1\<lparr>ltc_pending := False\<rparr> else s1)"

text \<open>One round of the worker at world time \<open>now\<close>; it then waits for the time in the result. The frequency is a parameter of the user.\<close>

definition intr_period_ns :: "ltc \<Rightarrow> int option" where
  "intr_period_ns s =
     do { assert_that (frequency s \<noteq> 0); Some (sint (of_int (1000000000 div int (unat (frequency s))) :: u32)) }"

definition next_wait :: "int \<Rightarrow> int \<Rightarrow> int" where
  "next_wait period missing = (let w = period - missing in if w < period div 2 then period div 2 else w)"

definition ltc_worker_round :: "int \<Rightarrow> ltc \<Rightarrow> (int \<times> ltc) option" where
  "ltc_worker_round now s0 =
     (let s = (if ltc_enable s0
               then set_lks_dati_value_and_INTR (ltc_intr_enable s0) (s0\<lparr>global_edge_count := global_edge_count s0 + 1, line_clock_monitor := True\<rparr>)
               else s0)
      in do { period \<leftarrow> intr_period_ns s;
              Some (next_wait period (now - world_next_intr_ns s), s\<lparr>world_next_intr_ns := world_next_intr_ns s + period\<rparr>) })"

end
