(* ===== verification/DL11W_Correct.thy ===== *)
theory DL11W_Correct
  imports DL11W "HOL-Library.Sublist"
begin

text \<open>
  The DL11-W: received bytes, the search for a pattern, registers and interrupts of the serial line, the order of
  transmitted bytes, and the pace of the line clock.
\<close>

subsection \<open>Received bytes\<close>

text \<open>How the terminal driver of Linux marks a byte with an error, and a byte 377 octal.\<close>

definition termios_encode :: "rs232byte \<Rightarrow> u8 list" where
  "termios_encode b = (if format_error b then [0xff, 0, rs_c b] else if rs_c b = 0xff then [0xff, 0xff] else [rs_c b])"

fun poll_bytes :: "nat \<Rightarrow> rs232adapter \<Rightarrow> (rs232byte option list \<times> rs232adapter) option" where
  "poll_bytes 0 a = Some ([], a)"
| "poll_bytes (Suc n) a = do { (b, a1) \<leftarrow> rs232byte_rcv_poll a; (bs, a2) \<leftarrow> poll_bytes n a1; Some (b # bs, a2) }"

lemma decode_encoded: "decode_port True (termios_encode b @ rest) = Some (Some b, rest)"
  by (cases b) (auto simp: termios_encode_def decode_port_def)

text \<open>
  Property C27. The receiver undoes the coding of the terminal driver: polled as often as bytes have arrived, with whatever
  values and errors, it delivers exactly these bytes with their errors, in order, and then nothing more.
\<close>

theorem received_bytes_decoded:
  assumes "rcv_termios_error_encoding a" "rcvbuffer a = []" "stream_rcv a = None" "rs232_in a = concat (map termios_encode bs)"
  shows "poll_bytes (Suc (length bs)) a = Some (map Some bs @ [None], a\<lparr>rs232_in := []\<rparr>)"
  using assms
proof (induction bs arbitrary: a)
  case Nil
  then show ?case by (cases a) (simp add: rs232byte_rcv_poll_def decode_port_def)
next
  case (Cons b bs)
  let ?a = "a\<lparr>rs232_in := concat (map termios_encode bs)\<rparr>"
  have "rs232byte_rcv_poll a = Some (Some b, ?a)"
    using Cons.prems by (simp add: rs232byte_rcv_poll_def decode_encoded)
  moreover have "poll_bytes (Suc (length bs)) ?a = Some (map Some bs @ [None], ?a\<lparr>rs232_in := []\<rparr>)"
    using Cons.prems by (intro Cons.IH) simp_all
  ultimately show ?case unfolding length_Cons by (subst poll_bytes.simps(2)) (simp del: poll_bytes.simps)
qed

definition sample_rs232 :: rs232adapter where
  "sample_rs232 = \<lparr>rcvbuffer = [], rcv_termios_error_encoding = True, rs232_in = [0x41, 0xff, 0xff, 0xff, 0, 0x42], rs232_out = [],
     stream_rcv = None, stream_xmt = None, pattern = [], pattern_stream_data = [], pattern_found = False\<rparr>"

theorem received_bytes_decoded_witness:
  "\<exists>a. poll_bytes 4 sample_rs232 = Some ([Some \<lparr>rs_c = 0x41, format_error = False\<rparr>, Some \<lparr>rs_c = 0xff, format_error = False\<rparr>,
     Some \<lparr>rs_c = 0x42, format_error = True\<rparr>, None], a)"
proof -
  let ?bs = "[\<lparr>rs_c = 0x41, format_error = False\<rparr>, \<lparr>rs_c = 0xff, format_error = False\<rparr>, \<lparr>rs_c = 0x42, format_error = True\<rparr>]"
  have e: "rs232_in sample_rs232 = concat (map termios_encode ?bs)" by (simp add: sample_rs232_def termios_encode_def)
  have l: "Suc (length ?bs) = 4" by simp
  have "rcv_termios_error_encoding sample_rs232" "rcvbuffer sample_rs232 = []" "stream_rcv sample_rs232 = None"
    by (simp_all add: sample_rs232_def)
  from received_bytes_decoded [OF this e] show ?thesis unfolding l by (simp del: poll_bytes.simps)
qed

text \<open>An escape sequence of which only the beginning has arrived ends the program.\<close>

lemma split_sequence_ends_program:
  assumes "rcv_termios_error_encoding a" "rcvbuffer a = []" "rs232_in a = [0xff] \<or> rs232_in a = [0xff, 0]"
  shows "rs232byte_rcv_poll a = None"
  using assms by (auto simp: rs232byte_rcv_poll_def decode_port_def)

subsection \<open>The search for a pattern\<close>

lemma occurs_sublist: "occurs_in p d \<longleftrightarrow> sublist p d"
proof
  assume "occurs_in p d"
  then obtain i where "take (length p) (drop i d) = p" by (auto simp: occurs_in_def list_ex_iff)
  then have "d = take i d @ p @ drop (length p) (drop i d)" by (metis append_take_drop_id)
  then show "sublist p d" unfolding sublist_def by blast
next
  assume "sublist p d"
  then obtain u v where d: "d = u @ p @ v" by (auto simp: sublist_def)
  then have "take (length p) (drop (length u) d) = p" "length u < Suc (length d)" by simp_all
  then show "occurs_in p d" unfolding occurs_in_def list_ex_iff by (metis atLeastLessThan_iff atLeastLessThan_upt zero_le)
qed

lemma keep_last_snoc: "0 < n \<Longrightarrow> keep_last n (keep_last n d @ [c]) = keep_last n (d @ [c])"
  by (cases "n \<le> length d") (simp_all add: keep_last_def Suc_diff_le)

lemma keep_last_twice: "keep_last n (keep_last n d) = keep_last n d"
  by (simp add: keep_last_def)

lemma suffix_keep_last: "suffix p d \<longleftrightarrow> keep_last (length p) d = p"
  by (auto simp: suffix_def keep_last_def) (metis append_take_drop_id)

lemma sublist_keep_last: "sublist p (keep_last (length p) d) \<longleftrightarrow> suffix p d"
proof
  assume s: "sublist p (keep_last (length p) d)"
  then obtain u v where e: "keep_last (length p) d = u @ p @ v" by (auto simp: sublist_def)
  moreover have "length (keep_last (length p) d) \<le> length p" by (simp add: keep_last_def)
  ultimately have "length (u @ p @ v) \<le> length p" by simp
  then have "u = []" "v = []" by simp_all
  then show "suffix p d" using e by (simp add: suffix_keep_last)
next
  assume "suffix p d"
  then show "sublist p (keep_last (length p) d)" by (simp add: suffix_keep_last)
qed

definition sends :: "u8 list \<Rightarrow> rs232adapter \<Rightarrow> rs232adapter option" where
  "sends cs a = fold (\<lambda>c r. Option.bind r (rs232byte_xmt_send \<lparr>rs_c = c, format_error = False\<rparr>)) cs (Some a)"

lemma sends_snoc: "sends (cs @ [c]) a = Option.bind (sends cs a) (rs232byte_xmt_send \<lparr>rs_c = c, format_error = False\<rparr>)"
  by (simp add: sends_def)

text \<open>
  Property C26. The search over a buffer of the last bytes is the search of the whole text: after a pattern of 1 to 255 bytes, none
  of them zero, is set, whatever is sent, the pattern counts as found exactly when it occurs somewhere in what has been sent since,
  with the zero bytes left out, which the search drops (so that a zero byte between its bytes does not hide the pattern). All bytes
  go to the line, the zero bytes too.
\<close>

theorem pattern_search_is_substring:
  assumes "p \<noteq> []" "length p < pattern_max_len" "0 \<notin> set p"
  shows "\<exists>a'. sends cs (set_pattern p a) = Some a' \<and> (pattern_found a' \<longleftrightarrow> sublist p (filter (\<lambda>c. c \<noteq> 0) cs)) \<and> rs232_out a' = rs232_out a @ cs"
proof -
  have p: "pattern (set_pattern p a) = p"
    using assms(2,3) by (simp add: set_pattern_def takeWhile_eq_all_conv) (metis order.strict_implies_not_eq)
  have "\<exists>a'. sends cs (set_pattern p a) = Some a' \<and> pattern a' = p \<and> (pattern_found a' \<longleftrightarrow> sublist p (filter (\<lambda>c. c \<noteq> 0) cs)) \<and>
      pattern_stream_data a' = keep_last (length p) (filter (\<lambda>c. c \<noteq> 0) cs) \<and> rs232_out a' = rs232_out a @ cs"
  proof (induction cs rule: rev_induct)
    case Nil
    have "pattern_stream_data (set_pattern p a) = []" "\<not> pattern_found (set_pattern p a)" "rs232_out (set_pattern p a) = rs232_out a"
      by (simp_all add: set_pattern_def)
    then show ?case using assms(1) p by (simp add: sends_def keep_last_def)
  next
    case (snoc c cs)
    then obtain a' where a': "sends cs (set_pattern p a) = Some a'" "pattern a' = p" "pattern_found a' \<longleftrightarrow> sublist p (filter (\<lambda>c. c \<noteq> 0) cs)"
      "pattern_stream_data a' = keep_last (length p) (filter (\<lambda>c. c \<noteq> 0) cs)" "rs232_out a' = rs232_out a @ cs" by auto
    have n: "0 < length p" using assms(1) by auto
    have l: "length (keep_last (length p) d) < pattern_max_len" for d :: "u8 list" using assms(2) by (simp add: keep_last_def)
    let ?f = "filter (\<lambda>c. c \<noteq> 0)"
    have d: "keep_last (length p) (if c = 0 then keep_last (length p) (?f cs) else keep_last (length p) (?f cs) @ [c]) =
        keep_last (length p) (?f (cs @ [c]))" using n by (simp add: keep_last_snoc keep_last_twice)
    have e: "sublist p (?f cs) \<or> suffix p (?f (cs @ [c])) \<longleftrightarrow> sublist p (?f (cs @ [c]))"
      by (cases "c = 0") (auto simp: sublist_snoc)
    have "pattern_search c b = Some (b\<lparr>pattern_stream_data := keep_last (length p) (?f (cs @ [c])),
        pattern_found := pattern_found b \<or> suffix p (?f (cs @ [c]))\<rparr>)"
      if b: "pattern b = p" "pattern_stream_data b = keep_last (length p) (?f cs)" for b
      unfolding pattern_search_def Let_def b d using n
      by (simp add: l occurs_sublist sublist_keep_last del: filter.simps filter_append)
    then show ?case using a' e by (simp add: sends_snoc rs232byte_xmt_send_def del: filter.simps filter_append)
  qed
  then show ?thesis by blast
qed

theorem pattern_search_is_substring_witness:
  "\<exists>a'. sends [1, 2, 1, 2, 0, 3] (set_pattern [1, 2, 3] sample_rs232) = Some a' \<and> pattern_found a'"
proof -
  have "sublist [1, 2, 3] [1, 2, 1, 2, 3 :: u8]" by (rule sublist_appendI [of _ "[1, 2]" "[]", simplified])
  then show ?thesis using pattern_search_is_substring [of "[1, 2, 3]" "[1, 2, 1, 2, 0, 3]" sample_rs232]
    by (auto simp: pattern_max_len_def)
qed

subsection \<open>Runs of the serial line unit\<close>

datatype slu_event = SLU_write nat u16 | SLU_read nat | SLU_power bool | SLU_init bool | SLU_rcv | SLU_xmt bool |
  SLU_port "u8 list" | SLU_rcv_delivered | SLU_xmt_delivered

fun slu_step :: "slu_event \<Rightarrow> slu \<Rightarrow> slu option" where
  "slu_step (SLU_write i v) s = Some (slu_on_after_register_access i True (s\<lparr>dato := (dato s)(i := v)\<rparr>))"
| "slu_step (SLU_read i) s = Some (slu_on_after_register_access i False s)"
| "slu_step (SLU_power dclo_raising) s = Some (slu_on_power_changed dclo_raising s)"
| "slu_step (SLU_init asserted) s = Some (slu_on_init_changed asserted s)"
| "slu_step SLU_rcv s = worker_rcv_step s"
| "slu_step (SLU_xmt spurious) s = worker_xmt_step spurious s"
| "slu_step (SLU_port bs) s = Some (s\<lparr>slu_adapter := (slu_adapter s)\<lparr>rs232_in := rs232_in (slu_adapter s) @ bs\<rparr>\<rparr>)"
| "slu_step SLU_rcv_delivered s = Some (s\<lparr>rcv_pending := False\<rparr>)"
| "slu_step SLU_xmt_delivered s = Some (s\<lparr>xmt_pending := False\<rparr>)"

fun slu_run :: "slu_event list \<Rightarrow> slu \<Rightarrow> slu option" where
  "slu_run [] s = Some s"
| "slu_run (e # es) s = Option.bind (slu_step e s) (slu_run es)"

text \<open>The registers show the state, and an interrupt is pending only while its condition holds.\<close>

definition slu_ok :: "slu \<Rightarrow> bool" where
  "slu_ok s \<longleftrightarrow> dati s 0 = rcsr_value s \<and> dati s 2 = xcsr_value s \<and>
     rcv_signal s = get_rcv_intr_level s \<and> xmt_signal s = get_xmt_intr_level s \<and>
     (rcv_pending s \<longrightarrow> get_rcv_intr_level s) \<and> (xmt_pending s \<longrightarrow> get_xmt_intr_level s) \<and>
     (slu_INIT s \<longrightarrow> \<not> rcv_intr_enable s \<and> \<not> xmt_intr_enable s)"

lemmas slu_values = slu_ok_def rcsr_value_def xcsr_value_def get_rcv_intr_level_def get_xmt_intr_level_def

definition rcv_side :: "slu \<Rightarrow> bool" where
  "rcv_side s \<longleftrightarrow> dati s 0 = rcsr_value s \<and> rcv_signal s = get_rcv_intr_level s \<and> (rcv_pending s \<longrightarrow> get_rcv_intr_level s) \<and>
     (slu_INIT s \<longrightarrow> \<not> rcv_intr_enable s)"

definition xmt_side :: "slu \<Rightarrow> bool" where
  "xmt_side s \<longleftrightarrow> dati s 2 = xcsr_value s \<and> xmt_signal s = get_xmt_intr_level s \<and> (xmt_pending s \<longrightarrow> get_xmt_intr_level s) \<and>
     (slu_INIT s \<longrightarrow> \<not> xmt_intr_enable s)"

lemma slu_sides: "slu_ok s \<longleftrightarrow> rcv_side s \<and> xmt_side s"
  by (auto simp: slu_ok_def rcv_side_def xmt_side_def)

text \<open>Setting a status register brings its side in order, whatever has changed before.\<close>

lemma set_rcsr_sides:
  "(slu_INIT s \<longrightarrow> \<not> rcv_intr_enable s) \<Longrightarrow> rcv_pending s \<longrightarrow> rcv_signal s \<Longrightarrow> rcv_side (set_rcsr_dati_value_and_INTR s)"
  "xmt_side (set_rcsr_dati_value_and_INTR s) = xmt_side s"
  by (auto simp: set_rcsr_dati_value_and_INTR_def Let_def rcv_side_def xmt_side_def rcsr_value_def xcsr_value_def
      get_rcv_intr_level_def get_xmt_intr_level_def set_dati_def)

lemma set_xcsr_sides:
  "(slu_INIT s \<longrightarrow> \<not> xmt_intr_enable s) \<Longrightarrow> xmt_pending s \<longrightarrow> xmt_signal s \<Longrightarrow> xmt_side (set_xcsr_dati_value_and_INTR s)"
  "rcv_side (set_xcsr_dati_value_and_INTR s) = rcv_side s"
  by (auto simp: set_xcsr_dati_value_and_INTR_def Let_def rcv_side_def xmt_side_def rcsr_value_def xcsr_value_def
      get_rcv_intr_level_def get_xmt_intr_level_def set_dati_def)

lemma set_rcsr_sel [simp]:
  "slu_INIT (set_rcsr_dati_value_and_INTR s) = slu_INIT s" "rcv_intr_enable (set_rcsr_dati_value_and_INTR s) = rcv_intr_enable s"
  "xmt_at (set_rcsr_dati_value_and_INTR s) = xmt_at s" "xmt_ready (set_rcsr_dati_value_and_INTR s) = xmt_ready s"
  "xmt_signalled (set_rcsr_dati_value_and_INTR s) = xmt_signalled s" "xmt_buffer (set_rcsr_dati_value_and_INTR s) = xmt_buffer s"
  "slu_adapter (set_rcsr_dati_value_and_INTR s) = slu_adapter s" "dato (set_rcsr_dati_value_and_INTR s) = dato s"
  "rcv_done (set_rcsr_dati_value_and_INTR s) = rcv_done s" "rcv_buffer (set_rcsr_dati_value_and_INTR s) = rcv_buffer s"
  "xmt_maint (set_rcsr_dati_value_and_INTR s) = xmt_maint s"
  by (simp_all add: set_rcsr_dati_value_and_INTR_def Let_def set_dati_def)

lemma set_xcsr_sel [simp]:
  "slu_INIT (set_xcsr_dati_value_and_INTR s) = slu_INIT s" "rcv_intr_enable (set_xcsr_dati_value_and_INTR s) = rcv_intr_enable s"
  "xmt_intr_enable (set_xcsr_dati_value_and_INTR s) = xmt_intr_enable s" "rcv_signal (set_xcsr_dati_value_and_INTR s) = rcv_signal s"
  "rcv_pending (set_xcsr_dati_value_and_INTR s) = rcv_pending s"
  "xmt_at (set_xcsr_dati_value_and_INTR s) = xmt_at s" "xmt_ready (set_xcsr_dati_value_and_INTR s) = xmt_ready s"
  "xmt_signalled (set_xcsr_dati_value_and_INTR s) = xmt_signalled s" "xmt_buffer (set_xcsr_dati_value_and_INTR s) = xmt_buffer s"
  "slu_adapter (set_xcsr_dati_value_and_INTR s) = slu_adapter s" "dato (set_xcsr_dati_value_and_INTR s) = dato s"
  "xmt_maint (set_xcsr_dati_value_and_INTR s) = xmt_maint s"
  by (simp_all add: set_xcsr_dati_value_and_INTR_def Let_def set_dati_def)

lemma rcv_side_sel: "rcv_side s \<Longrightarrow> rcv_pending s \<longrightarrow> rcv_signal s" "rcv_side s \<Longrightarrow> slu_INIT s \<longrightarrow> \<not> rcv_intr_enable s"
  by (simp_all add: rcv_side_def)

lemma xmt_side_sel: "xmt_side s \<Longrightarrow> xmt_pending s \<longrightarrow> xmt_signal s" "xmt_side s \<Longrightarrow> slu_INIT s \<longrightarrow> \<not> xmt_intr_enable s"
  by (simp_all add: xmt_side_def)

lemma side_frames [simp]:
  "rcv_side (s\<lparr>xmt_at := w\<rparr>) = rcv_side s" "xmt_side (s\<lparr>xmt_at := w\<rparr>) = xmt_side s"
  "rcv_side (s\<lparr>xmt_signalled := b\<rparr>) = rcv_side s" "xmt_side (s\<lparr>xmt_signalled := b\<rparr>) = xmt_side s"
  "rcv_side (s\<lparr>slu_adapter := a\<rparr>) = rcv_side s" "xmt_side (s\<lparr>slu_adapter := a\<rparr>) = xmt_side s"
  "rcv_side (s\<lparr>line_break := b\<rparr>) = rcv_side s" "xmt_side (s\<lparr>line_break := b\<rparr>) = xmt_side s"
  "rcv_side (s\<lparr>xmt_ready := b\<rparr>) = rcv_side s" "rcv_side (s\<lparr>xmt_buffer := c\<rparr>) = rcv_side s" "xmt_side (s\<lparr>xmt_buffer := c\<rparr>) = xmt_side s"
  "rcv_side (s\<lparr>dato := f\<rparr>) = rcv_side s" "xmt_side (s\<lparr>dato := f\<rparr>) = xmt_side s"
  "xmt_side (s\<lparr>rcv_done := b\<rparr>) = xmt_side s" "xmt_side (s\<lparr>rcv_active := b\<rparr>) = xmt_side s"
  "xmt_side (s\<lparr>rcv_intr_enable := b\<rparr>) = xmt_side s" "xmt_side (s\<lparr>rcv_rdr_enb := b\<rparr>) = xmt_side s"
  "rcv_side (s\<lparr>xmt_intr_enable := b\<rparr>) = rcv_side s" "rcv_side (s\<lparr>xmt_maint := b\<rparr>) = rcv_side s" "rcv_side (s\<lparr>xmt_break := b\<rparr>) = rcv_side s"
  by (simp_all add: rcv_side_def xmt_side_def rcsr_value_def xcsr_value_def get_rcv_intr_level_def get_xmt_intr_level_def)

lemma access_ok:
  assumes "slu_ok s"
  shows "slu_ok (slu_on_after_register_access i wr s)"
proof -
  have s: "rcv_side s" "xmt_side s" using assms by (simp_all add: slu_sides)
  have rcsr: "rcv_side (eval_rcsr_dato_value s) \<and> xmt_side (eval_rcsr_dato_value s)" if "\<not> slu_INIT s"
    unfolding eval_rcsr_dato_value_def Let_def
    by (rule conjI, rule set_rcsr_sides(1)) (use s that rcv_side_sel(1) in \<open>simp_all add: set_rcsr_sides(2)\<close>)
  have xcsr: "rcv_side (eval_xcsr_dato_value s) \<and> xmt_side (eval_xcsr_dato_value s)" if "\<not> slu_INIT s"
  proof -
    have "xmt_side (set_xcsr_dati_value_and_INTR (s\<lparr>xmt_intr_enable := e, xmt_maint := m, xmt_break := b\<rparr>))" for e m b
      by (rule set_xcsr_sides(1)) (use s that xmt_side_sel(1) in simp_all)
    then show ?thesis using s by (simp add: eval_xcsr_dato_value_def Let_def set_xcsr_sides(2))
  qed
  have again: "slu_ok (set_rcsr_dati_value_and_INTR t)" "slu_ok (set_xcsr_dati_value_and_INTR t)" if "rcv_side t" "xmt_side t" for t
    using that set_rcsr_sides [of t] set_xcsr_sides [of t] rcv_side_sel [of t] xmt_side_sel [of t] by (simp_all add: slu_sides)
  have rbuf: "slu_ok (set_rcsr_dati_value_and_INTR (s\<lparr>rcv_done := False\<rparr>))"
    unfolding slu_sides by (rule conjI, rule set_rcsr_sides(1)) (use s rcv_side_sel in \<open>simp_all add: set_rcsr_sides(2)\<close>)
  have xbuf: "slu_ok (set_xcsr_dati_value_and_INTR ((eval_xbuf_dato_value s)\<lparr>xmt_ready := False\<rparr>))"
    unfolding slu_sides by (rule conjI, simp add: set_xcsr_sides(2) eval_xbuf_dato_value_def s, rule set_xcsr_sides(1))
      (use s xmt_side_sel in \<open>simp_all add: eval_xbuf_dato_value_def\<close>)
  show ?thesis using assms rcsr xcsr again rbuf xbuf
    by (simp add: slu_on_after_register_access_def Let_def) (simp add: slu_sides)
qed

lemma worker_rcv_ok:
  assumes "slu_ok s" "worker_rcv_step s = Some t"
  shows "slu_ok t"
proof -
  have s: "rcv_side s" "xmt_side s" using assms(1) by (simp_all add: slu_sides)
  have "slu_ok (set_rcsr_dati_value_and_INTR (set_rbuf_dati_value
      (s\<lparr>slu_adapter := a, rcv_or_err := x, rcv_fr_err := y, rcv_p_err := z, rcv_buffer := c, rcv_done := d, rcv_active := e\<rparr>)))"
    for a x y z c d e
    unfolding slu_sides
    by (rule conjI, rule set_rcsr_sides(1), simp_all only: set_rcsr_sides(2))
      (use s in \<open>simp_all add: set_rbuf_dati_value_def Let_def set_dati_def rcv_side_def xmt_side_def xcsr_value_def get_xmt_intr_level_def\<close>)
  then show ?thesis using assms by (auto simp: worker_rcv_step_def slu_sides Option.bind_eq_Some_conv Let_def split: option.splits if_splits)
qed

lemma worker_xmt_ok:
  assumes "slu_ok s" "worker_xmt_step spurious s = Some t"
  shows "slu_ok t"
proof -
  have s: "rcv_side s" "xmt_side s" using assms(1) by (simp_all add: slu_sides)
  have x: "xmt_side (set_xcsr_dati_value_and_INTR (s\<lparr>slu_adapter := a, xmt_ready := r\<rparr>))" for a r
    by (rule set_xcsr_sides(1)) (use s xmt_side_sel in simp_all)
  have b: "slu_ok u" if b: "xmt_begin s = Some u" for u
  proof -
    obtain a where a: "rs232byte_xmt_send \<lparr>rs_c = xmt_buffer s, format_error = False\<rparr> (slu_adapter s) = Some a"
      using b by (auto simp: xmt_begin_def Let_def Option.bind_eq_Some_conv)
    let ?s = "set_xcsr_dati_value_and_INTR (s\<lparr>slu_adapter := a, xmt_ready := False\<rparr>)"
    have s1: "rcv_side ?s" "xmt_side ?s" using s x by (simp_all add: set_xcsr_sides(2))
    have "rcv_side (set_rcsr_dati_value_and_INTR (?s\<lparr>rcv_active := True\<rparr>))"
      by (rule set_rcsr_sides(1)) (use rcv_side_sel [OF s1(1)] in simp_all)
    then show ?thesis using b a s1 by (auto simp: xmt_begin_def Let_def slu_sides set_rcsr_sides(2) split: if_splits)
  qed
  have e: "slu_ok (xmt_end w s)" for w
  proof -
    have "xmt_side (set_xcsr_dati_value_and_INTR (s\<lparr>xmt_ready := True\<rparr>))"
      by (rule set_xcsr_sides(1)) (use s xmt_side_sel in simp_all)
    then show ?thesis using s x by (simp add: xmt_end_def Let_def slu_sides set_xcsr_sides(2))
  qed
  show ?thesis using assms b e by (auto simp: worker_xmt_step_def split: xmt_worker.splits if_splits)
qed

lemma slu_reset_ok: "\<not> rcv_pending s \<Longrightarrow> \<not> xmt_pending s \<Longrightarrow> slu_ok (slu_reset s)"
  by (simp add: slu_reset_def slu_values flag_def set_dati_def)

lemma slu_step_ok:
  assumes "slu_ok s" "slu_step e s = Some t" "e \<noteq> SLU_power False"
  shows "slu_ok t"
proof (cases e)
  case (SLU_init b)
  have r: "(slu_reset u)\<lparr>rcv_pending := False, xmt_pending := False\<rparr> = slu_reset (u\<lparr>rcv_pending := False, xmt_pending := False\<rparr>)" for u
    by (simp add: slu_reset_def set_dati_def)
  have "slu_ok (slu_on_init_changed b s)"
  proof (cases b)
    case True
    then show ?thesis using slu_reset_ok [of "s\<lparr>slu_INIT := True, rcv_pending := False, xmt_pending := False\<rparr>"]
      by (simp add: slu_on_init_changed_def r)
  next
    case False
    then show ?thesis using assms(1) by (simp add: slu_on_init_changed_def slu_values)
  qed
  then show ?thesis using assms(2) SLU_init by simp
next
  case (SLU_power b)
  have r: "(slu_reset u)\<lparr>rcv_pending := False, xmt_pending := False\<rparr> = slu_reset (u\<lparr>rcv_pending := False, xmt_pending := False\<rparr>)" for u
    by (simp add: slu_reset_def set_dati_def)
  show ?thesis using SLU_power assms slu_reset_ok [of "s\<lparr>rcv_pending := False, xmt_pending := False\<rparr>"]
    by (auto simp: slu_on_power_changed_def r)
next
  case (SLU_write i v)
  have "slu_ok (s\<lparr>dato := (dato s)(i := v)\<rparr>)" using assms(1) by (simp add: slu_sides)
  then show ?thesis using assms(2) access_ok SLU_write by auto
next
  case (SLU_read i)
  then show ?thesis using assms access_ok by auto
next
  case SLU_rcv
  then show ?thesis using assms worker_rcv_ok by simp
next
  case (SLU_xmt spurious)
  then show ?thesis using assms worker_xmt_ok by auto
next
  case (SLU_port bs)
  then show ?thesis using assms by (auto simp: slu_sides)
next
  case SLU_rcv_delivered
  then show ?thesis using assms by (auto simp: slu_values)
next
  case SLU_xmt_delivered
  then show ?thesis using assms by (auto simp: slu_values)
qed

lemma slu_run_ok: "slu_ok s \<Longrightarrow> SLU_power False \<notin> set es \<Longrightarrow> slu_run es s = Some t \<Longrightarrow> slu_ok t"
  by (induction es arbitrary: s) (auto simp: Option.bind_eq_Some_conv dest: slu_step_ok)

text \<open>
  Property C23. In every run of the serial line unit, whatever the host writes, whatever arrives and whenever INIT or DCLO
  strikes, and when the transmitting thread wakes up without a signal, the status registers show the state, a receiver (transmitter) interrupt is pending only while data is there
  (the transmitter is free) and the interrupt is enabled, and no interrupt is pending during INIT. Excepted are power
  events without a rising DCLO: they reset the unit but leave its requests in the adapter.
\<close>

theorem slu_interrupts_hold:
  assumes "slu_run es (slu_reset s) = Some t" "SLU_power False \<notin> set es" "\<not> rcv_pending s" "\<not> xmt_pending s"
  shows "dati t 0 = rcsr_value t \<and> dati t 2 = xcsr_value t \<and>
    (rcv_pending t \<longrightarrow> rcv_done t \<and> rcv_intr_enable t) \<and> (xmt_pending t \<longrightarrow> xmt_ready t \<and> xmt_intr_enable t) \<and>
    (slu_INIT t \<longrightarrow> \<not> rcv_pending t \<and> \<not> xmt_pending t)"
  using slu_run_ok [OF slu_reset_ok [OF assms(3,4)] assms(2,1)] by (auto simp: slu_ok_def get_rcv_intr_level_def get_xmt_intr_level_def)

definition sample_slu :: slu where
  "sample_slu = \<lparr>dati = (\<lambda>_. 0), dato = (\<lambda>_. 0), rcv_active = False, rcv_done = False, rcv_intr_enable = False, rcv_or_err = False,
     rcv_fr_err = False, rcv_p_err = False, rcv_buffer = 0, rcv_rdr_enb = False, xmt_ready = False, xmt_intr_enable = False,
     xmt_maint = False, xmt_break = False, xmt_buffer = 0, rcv_signal = False, xmt_signal = False, rcv_pending = False,
     xmt_pending = False, break_enable = True, error_bits_enable = True, line_break = False, slu_INIT = False,
     slu_adapter = sample_rs232, xmt_at = Xmt_waiting, xmt_signalled = False\<rparr>"

text \<open>The interrupt of the receiver is enabled, and a byte arrives.\<close>

lemmas slu_evaluate = slu_on_after_register_access_def eval_rcsr_dato_value_def set_rcsr_dati_value_and_INTR_def worker_rcv_step_def
  set_rbuf_dati_value_def get_rcv_intr_level_def rcsr_value_def slu_reset_def rs232byte_rcv_poll_def decode_port_def Let_def set_dati_def flag_def

lemma sample_received: "\<exists>t. slu_run [SLU_write 0 0x40, SLU_rcv] (slu_reset sample_slu) = Some t \<and> rcv_pending t \<and> dati t 0 = 0xc0 \<and> dati t 1 = 0x41"
  by (simp add: slu_evaluate sample_slu_def sample_rs232_def bit_numeral_rec)

theorem slu_interrupts_hold_witness:
  "\<exists>t. slu_run [SLU_write 0 0x40, SLU_rcv] (slu_reset sample_slu) = Some t \<and> rcv_pending t \<and> dati t 0 = rcsr_value t \<and> rcv_done t"
proof -
  obtain t where t: "slu_run [SLU_write 0 0x40, SLU_rcv] (slu_reset sample_slu) = Some t" "rcv_pending t" using sample_received by blast
  have "\<not> rcv_pending sample_slu" "\<not> xmt_pending sample_slu" by (simp_all add: sample_slu_def)
  from slu_interrupts_hold [OF t(1) _ this] t show ?thesis by auto
qed

subsection \<open>Transmitted bytes\<close>

text \<open>A host that writes XBUF only when it sees the transmitter ready, in a time without resets.\<close>

fun polite_host :: "slu_event list \<Rightarrow> slu \<Rightarrow> bool" where
  "polite_host [] s = True"
| "polite_host (e # es) s =
     ((case e of SLU_write i v \<Rightarrow> i = 3 \<longrightarrow> bit (dati s 2) 7 \<and> \<not> slu_INIT s | SLU_power b \<Rightarrow> False | SLU_init b \<Rightarrow> False | _ \<Rightarrow> True) \<and>
      (case slu_step e s of None \<Rightarrow> True | Some t \<Rightarrow> polite_host es t))"

definition written_byte :: "slu_event \<Rightarrow> u8 list" where
  "written_byte e = (case e of SLU_write i v \<Rightarrow> if i = 3 then [ucast (v AND 0xff)] else [] | _ \<Rightarrow> [])"

definition written :: "slu_event list \<Rightarrow> u8 list" where "written es = concat (map written_byte es)"

definition xmt_line :: "u8 list \<Rightarrow> slu \<Rightarrow> bool" where
  "xmt_line w s \<longleftrightarrow> slu_ok s \<and>
     (case xmt_at s of
        Xmt_waiting \<Rightarrow> if xmt_signalled s then \<not> xmt_ready s \<and> w = rs232_out (slu_adapter s) @ [xmt_buffer s]
                      else xmt_ready s \<and> w = rs232_out (slu_adapter s)
      | Xmt_shifting b \<Rightarrow> \<not> xmt_ready s \<and> \<not> xmt_signalled s \<and> w = rs232_out (slu_adapter s))"

lemma xmt_line_frame:
  assumes "xmt_line w s" "slu_ok t" "xmt_at t = xmt_at s" "xmt_signalled t = xmt_signalled s" "xmt_ready t = xmt_ready s"
    "xmt_buffer t = xmt_buffer s" "rs232_out (slu_adapter t) = rs232_out (slu_adapter s)"
  shows "xmt_line w t"
  using assms by (simp add: xmt_line_def split: xmt_worker.splits if_splits)

lemma ready_bit: "slu_ok s \<Longrightarrow> bit (dati s 2) 7 = xmt_ready s"
  by (simp add: slu_ok_def xcsr_value_def flag_def bit_simps bit_numeral_rec)

lemma poll_keeps_out: "rs232byte_rcv_poll a = Some (b, a') \<Longrightarrow> rs232_out a' = rs232_out a"
  by (auto simp: rs232byte_rcv_poll_def Option.bind_eq_Some_conv Let_def split: list.splits option.splits)

lemma send_appends: "rs232byte_xmt_send b a = Some a' \<Longrightarrow> rs232_out a' = rs232_out a @ [rs_c b]"
  by (auto simp: rs232byte_xmt_send_def pattern_search_def Let_def split: if_splits)

lemma xmt_end_sel [simp]:
  "xmt_at (xmt_end b s) = Xmt_waiting" "xmt_signalled (xmt_end b s) = xmt_signalled s" "xmt_ready (xmt_end b s)"
  "rs232_out (slu_adapter (xmt_end b s)) = rs232_out (slu_adapter s)"
  by (cases "xmt_maint s"; simp add: xmt_end_def Let_def rs232byte_loopback_def)+

lemma access_frame:
  assumes "i \<noteq> 3 \<or> \<not> wr" "t = slu_on_after_register_access i wr s"
  shows "xmt_at t = xmt_at s \<and> xmt_signalled t = xmt_signalled s \<and> xmt_ready t = xmt_ready s \<and> xmt_buffer t = xmt_buffer s \<and> slu_adapter t = slu_adapter s"
  using assms by (auto simp: slu_on_after_register_access_def eval_rcsr_dato_value_def eval_xcsr_dato_value_def Let_def)

lemma xmt_line_step:
  assumes "xmt_line w s" "polite_host [e] s" "slu_step e s = Some t" "e \<noteq> SLU_xmt True"
  shows "xmt_line (w @ written_byte e) t"
proof -
  have "slu_ok s" "e \<noteq> SLU_power False" using assms(1,2) by (auto simp: xmt_line_def)
  then have ok: "slu_ok t" by (intro slu_step_ok [OF _ assms(3)])
  show ?thesis
  proof (cases e)
    case (SLU_write i v)
    let ?s = "s\<lparr>dato := (dato s)(i := v)\<rparr>"
    show ?thesis
    proof (cases "i = 3")
      case True
      have r: "xmt_ready s" "\<not> slu_INIT s" using assms(1,2) SLU_write True ready_bit by (auto simp: xmt_line_def)
      then have w: "xmt_at s = Xmt_waiting" "\<not> xmt_signalled s" "w = rs232_out (slu_adapter s)"
        using assms(1) by (auto simp: xmt_line_def split: xmt_worker.splits if_splits)
      show ?thesis using assms(3) SLU_write True r w ok
        by (auto simp: xmt_line_def slu_on_after_register_access_def eval_xbuf_dato_value_def Let_def written_byte_def)
    next
      case False
      have "xmt_at t = xmt_at s \<and> xmt_signalled t = xmt_signalled s \<and> xmt_ready t = xmt_ready s \<and> xmt_buffer t = xmt_buffer s \<and> slu_adapter t = slu_adapter s"
        using access_frame [of i True t ?s] assms(3) SLU_write False by simp
      then show ?thesis using xmt_line_frame [OF assms(1) ok] SLU_write False by (simp add: written_byte_def)
    qed
  next
    case (SLU_read i)
    have "xmt_at t = xmt_at s \<and> xmt_signalled t = xmt_signalled s \<and> xmt_ready t = xmt_ready s \<and> xmt_buffer t = xmt_buffer s \<and> slu_adapter t = slu_adapter s"
      using access_frame [of i False t s] assms(3) SLU_read by simp
    then show ?thesis using xmt_line_frame [OF assms(1) ok] SLU_read by (simp add: written_byte_def)
  next
    case SLU_rcv
    have "xmt_at t = xmt_at s \<and> xmt_signalled t = xmt_signalled s \<and> xmt_ready t = xmt_ready s \<and> xmt_buffer t = xmt_buffer s \<and>
        rs232_out (slu_adapter t) = rs232_out (slu_adapter s)"
      using assms(3) SLU_rcv poll_keeps_out
      by (auto simp: worker_rcv_step_def Option.bind_eq_Some_conv Let_def set_rbuf_dati_value_def set_dati_def split: if_splits option.splits)
    then show ?thesis using xmt_line_frame [OF assms(1) ok] SLU_rcv by (simp add: written_byte_def)
  next
    case (SLU_xmt spurious)
    then have n: "written_byte e = []" and spurious: "\<not> spurious" using assms(4) by (auto simp: written_byte_def)
    show ?thesis
    proof (cases "xmt_at s")
      case Xmt_waiting
      show ?thesis
      proof (cases "xmt_signalled s")
        case True
        then have b: "xmt_begin s = Some t" using assms(3) SLU_xmt Xmt_waiting by (simp add: worker_xmt_step_def)
        obtain a where a: "rs232byte_xmt_send \<lparr>rs_c = xmt_buffer s, format_error = False\<rparr> (slu_adapter s) = Some a"
          using b by (auto simp: xmt_begin_def Let_def Option.bind_eq_Some_conv)
        have "rs232_out a = rs232_out (slu_adapter s) @ [xmt_buffer s]" using send_appends [OF a] by simp
        moreover have "w = rs232_out (slu_adapter s) @ [xmt_buffer s]" using assms(1) Xmt_waiting True by (simp add: xmt_line_def)
        ultimately show ?thesis using b a ok n by (auto simp: xmt_begin_def Let_def xmt_line_def)
      next
        case False
        then show ?thesis using assms SLU_xmt spurious Xmt_waiting n by (simp add: worker_xmt_step_def)
      qed
    next
      case (Xmt_shifting b)
      then show ?thesis using assms SLU_xmt ok n
        by (auto simp: worker_xmt_step_def xmt_line_def)
    qed
  next
    case (SLU_port bs)
    then show ?thesis using assms(3) xmt_line_frame [OF assms(1) ok] by (auto simp: written_byte_def)
  qed (use assms xmt_line_frame [OF assms(1) ok] in \<open>auto simp: written_byte_def\<close>)
qed

lemma xmt_line_run:
  "xmt_line w s \<Longrightarrow> polite_host es s \<Longrightarrow> slu_run es s = Some t \<Longrightarrow> SLU_xmt True \<notin> set es \<Longrightarrow> xmt_line (w @ written es) t"
proof (induction es arbitrary: w s)
  case Nil
  then show ?case by (simp add: written_def)
next
  case (Cons e es)
  obtain u where u: "slu_step e s = Some u" "slu_run es u = Some t" using Cons.prems(3) by (auto simp: Option.bind_eq_Some_conv)
  have "xmt_line (w @ written_byte e) u" using xmt_line_step [OF Cons.prems(1) _ u(1)] Cons.prems(2,4) by (auto split: option.splits)
  moreover have "polite_host es u" using Cons.prems(2) u(1) by simp
  ultimately have "xmt_line ((w @ written_byte e) @ written es) t" using Cons.IH [OF _ _ u(2)] Cons.prems(4) by (simp del: append_assoc)
  then show ?case by (simp add: written_def)
qed

text \<open>
  Property C24. The transmitter is a queue of one: a host that writes XBUF only when XCSR shows the transmitter ready, with
  anything else happening in between except resets and a spurious wakeup of the transmitting thread, finds its bytes on the line in
  order; none is lost or sent twice, at
  most the last one is still to be sent, and when the transmitter is ready again all are sent. That the wait for the condition
  variable does not end without a signal is a hypothesis on the threads library: POSIX allows it, and then the last byte is sent again
  (lemma spurious_wakeup_resends).
\<close>

theorem transmitted_in_order:
  assumes "slu_run es (slu_reset s) = Some t" "polite_host es (slu_reset s)" "SLU_xmt True \<notin> set es"
    "\<not> rcv_pending s" "\<not> xmt_pending s" "xmt_at s = Xmt_waiting" "\<not> xmt_signalled s"
  shows "\<exists>rest. rs232_out (slu_adapter s) @ written es = rs232_out (slu_adapter t) @ rest \<and> length rest \<le> 1 \<and>
    (bit (dati t 2) 7 \<longrightarrow> rest = [])"
proof -
  have "xmt_line (rs232_out (slu_adapter s)) (slu_reset s)"
    using slu_reset_ok [OF assms(4,5)] assms(6,7) by (simp add: xmt_line_def) (simp add: slu_reset_def set_dati_def)
  from xmt_line_run [OF this assms(2,1,3)] have l: "xmt_line (rs232_out (slu_adapter s) @ written es) t" .
  then have "bit (dati t 2) 7 = xmt_ready t" by (intro ready_bit) (simp add: xmt_line_def)
  then show ?thesis using l by (auto simp: xmt_line_def split: xmt_worker.splits if_splits)
qed

text \<open>A wakeup without a signal sends the byte in the buffer, the last one written, once more.\<close>

lemma spurious_wakeup_resends:
  assumes "xmt_at s = Xmt_waiting" "slu_step (SLU_xmt True) s = Some t"
  shows "rs232_out (slu_adapter t) = rs232_out (slu_adapter s) @ [xmt_buffer s] \<and>
    xmt_at t = Xmt_shifting \<lparr>rs_c = xmt_buffer s, format_error = False\<rparr> \<and> \<not> xmt_ready t"
proof -
  obtain a where a: "rs232byte_xmt_send \<lparr>rs_c = xmt_buffer s, format_error = False\<rparr> (slu_adapter s) = Some a" and b: "xmt_begin s = Some t"
    using assms by (auto simp: worker_xmt_step_def xmt_begin_def Let_def Option.bind_eq_Some_conv)
  then show ?thesis using send_appends [OF a] by (cases "xmt_maint s") (auto simp: xmt_begin_def Let_def)
qed

text \<open>A byte is written after an INIT that struck while the last one was shifted out: the worker misses the signal.\<close>

lemma byte_lost_after_reset:
  assumes "xmt_at s = Xmt_shifting b" "\<not> slu_INIT s" "\<not> xmt_signalled s"
    "slu_run [SLU_init True, SLU_init False, SLU_write 3 v, SLU_xmt False, SLU_xmt False] s = Some t"
  shows "bit (dati t 2) 7 \<and> rs232_out (slu_adapter t) = rs232_out (slu_adapter s) \<and> xmt_at t = Xmt_waiting \<and> \<not> xmt_signalled t"
proof -
  let ?q = "slu_on_after_register_access 3 True
    ((slu_on_init_changed False (slu_on_init_changed True s))\<lparr>dato := (dato (slu_on_init_changed False (slu_on_init_changed True s)))(3 := v)\<rparr>)"
  have q: "xmt_at ?q = Xmt_shifting b" "\<not> xmt_signalled ?q" "rs232_out (slu_adapter ?q) = rs232_out (slu_adapter s)"
    "\<not> xmt_intr_enable ?q" "\<not> xmt_maint ?q" "xmt_break ?q = False" "\<not> xmt_signal ?q"
    using assms(1-3) by (simp_all add: slu_on_after_register_access_def eval_xbuf_dato_value_def slu_on_init_changed_def slu_reset_def
        set_dati_def Let_def set_xcsr_dati_value_and_INTR_def get_xmt_intr_level_def)
  have "t = xmt_end b ?q" using assms(4) q(1,2) by (simp add: worker_xmt_step_def)
  then show ?thesis using q
    by (simp add: xmt_end_def Let_def set_xcsr_dati_value_and_INTR_def get_xmt_intr_level_def set_dati_def xcsr_value_def flag_def bit_numeral_rec)
qed

definition sample_slu_run :: "slu_event list" where
  "sample_slu_run = [SLU_write 3 0x141, SLU_read 1, SLU_xmt False, SLU_xmt False]"

lemmas slu_evaluate_xmt = eval_xbuf_dato_value_def set_xcsr_dati_value_and_INTR_def get_xmt_intr_level_def xcsr_value_def worker_xmt_step_def
  xmt_begin_def xmt_end_def rs232byte_xmt_send_def pattern_search_def

lemma sample_polite: "polite_host sample_slu_run (slu_reset sample_slu)"
  by (simp add: sample_slu_run_def slu_evaluate slu_evaluate_xmt sample_slu_def sample_rs232_def bit_numeral_rec)

lemma sample_sent: "\<exists>t. slu_run sample_slu_run (slu_reset sample_slu) = Some t \<and> dati t 2 = 0x80"
  by (simp add: sample_slu_run_def slu_evaluate slu_evaluate_xmt sample_slu_def sample_rs232_def bit_numeral_rec)

theorem transmitted_in_order_witness:
  "\<exists>t. slu_run sample_slu_run (slu_reset sample_slu) = Some t \<and> rs232_out (slu_adapter t) = [0x41]"
proof -
  obtain t where t: "slu_run sample_slu_run (slu_reset sample_slu) = Some t" "dati t 2 = 0x80" using sample_sent by blast
  have s: "\<not> rcv_pending sample_slu" "\<not> xmt_pending sample_slu" "xmt_at sample_slu = Xmt_waiting" "\<not> xmt_signalled sample_slu"
    "rs232_out (slu_adapter sample_slu) = []" by (simp_all add: sample_slu_def sample_rs232_def)
  have w: "written sample_slu_run = [0x41]" by (simp add: written_def written_byte_def sample_slu_run_def)
  have "bit (dati t 2) 7" using t(2) by (simp add: bit_numeral_rec)
  then show ?thesis using transmitted_in_order [OF t(1) sample_polite _ s(1-4)] t(1) s(5) w by (auto simp: sample_slu_run_def)
qed

subsection \<open>The pace of the line clock\<close>

text \<open>
  Rounds of the worker, which starts at \<open>now\<close>: after each round it sleeps for the time it asked for, and wakes up
  later by the delay in the list.
\<close>

fun ltc_runs :: "int list \<Rightarrow> int \<Rightarrow> ltc \<Rightarrow> (int \<times> ltc) option" where
  "ltc_runs [] now s = Some (now, s)"
| "ltc_runs (d # ds) now s = do { (w, t) \<leftarrow> ltc_worker_round now s; ltc_runs ds (now + w + d) t }"

definition ltc_period :: "ltc \<Rightarrow> int" where "ltc_period s = 1000000000 div int (unat (frequency s))"

lemma ltc_period_bounds: "0 \<le> ltc_period s" "ltc_period s \<le> 1000000000"
proof -
  have "ltc_period s = int (1000000000 div unat (frequency s))" unfolding ltc_period_def by (simp only: zdiv_int) simp
  moreover have "1000000000 div unat (frequency s) \<le> 1000000000" by (rule div_le_dividend)
  ultimately show "0 \<le> ltc_period s" "ltc_period s \<le> 1000000000" by simp_all
qed

lemma intr_period: "frequency s \<noteq> 0 \<Longrightarrow> intr_period_ns s = Some (ltc_period s)"
proof -
  assume f: "frequency s \<noteq> 0"
  have "sint (of_int (ltc_period s) :: u32) = ltc_period s" using ltc_period_bounds [of s] by (simp add: signed_of_int signed_take_bit_int_eq_self)
  then show ?thesis using f by (simp add: intr_period_ns_def ltc_period_def)
qed

lemma ltc_round:
  assumes "frequency s \<noteq> 0"
  shows "\<exists>t. ltc_worker_round now s = Some (next_wait (ltc_period s) (now - world_next_intr_ns s), t) \<and> frequency t = frequency s \<and>
    ltc_enable t = ltc_enable s \<and> ltc_intr_enable t = ltc_intr_enable s \<and> world_next_intr_ns t = world_next_intr_ns s + ltc_period s \<and>
    ltc_raised t = ltc_raised s + (if ltc_enable s \<and> ltc_intr_enable s then 1 else 0)"
proof -
  let ?s = "if ltc_enable s
    then set_lks_dati_value_and_INTR (ltc_intr_enable s) (s\<lparr>global_edge_count := global_edge_count s + 1, line_clock_monitor := True\<rparr>) else s"
  have f: "frequency ?s = frequency s" "ltc_enable ?s = ltc_enable s" "ltc_intr_enable ?s = ltc_intr_enable s"
    "world_next_intr_ns ?s = world_next_intr_ns s" "ltc_raised ?s = ltc_raised s + (if ltc_enable s \<and> ltc_intr_enable s then 1 else 0)"
    by (simp_all add: set_lks_dati_value_and_INTR_def set_dati_def)
  have "intr_period_ns ?s = Some (ltc_period s)" using intr_period [of ?s] assms f(1) by (simp add: ltc_period_def)
  then show ?thesis unfolding ltc_worker_round_def Let_def using f by simp
qed

text \<open>How late the worker is, after a round of which the sleep was prolonged by \<open>d\<close>.\<close>

lemma backlog:
  "now + next_wait p (now - n) + d - (n + p) = max 0 (now - n - (p - p div 2)) + d"
  by (simp add: next_wait_def Let_def max_def)

text \<open>The delays not yet caught up with.\<close>

fun lateness :: "int \<Rightarrow> int \<Rightarrow> int list \<Rightarrow> int" where
  "lateness p b [] = b"
| "lateness p b (d # ds) = lateness p (max 0 (b - (p - p div 2)) + d) ds"

lemma ltc_runs_time:
  assumes "frequency s \<noteq> 0"
  shows "\<exists>now' t. ltc_runs ds now s = Some (now', t) \<and> world_next_intr_ns t = world_next_intr_ns s + int (length ds) * ltc_period s \<and>
    now' = world_next_intr_ns t + lateness (ltc_period s) (now - world_next_intr_ns s) ds \<and>
    ltc_raised t = ltc_raised s + (if ltc_enable s \<and> ltc_intr_enable s then length ds else 0)"
  using assms
proof (induction ds arbitrary: now s)
  case (Cons d ds)
  let ?w = "next_wait (ltc_period s) (now - world_next_intr_ns s)"
  obtain t where t: "ltc_worker_round now s = Some (?w, t)" "frequency t = frequency s"
    "ltc_enable t = ltc_enable s" "ltc_intr_enable t = ltc_intr_enable s" "world_next_intr_ns t = world_next_intr_ns s + ltc_period s"
    "ltc_raised t = ltc_raised s + (if ltc_enable s \<and> ltc_intr_enable s then 1 else 0)" using ltc_round [OF Cons.prems] by blast
  have p: "ltc_period t = ltc_period s" using t(2) by (simp add: ltc_period_def)
  have "frequency t \<noteq> 0" using t(2) Cons.prems by simp
  from Cons.IH [OF this, of "now + ?w + d"] obtain now' u where u: "ltc_runs ds (now + ?w + d) t = Some (now', u)"
    "world_next_intr_ns u = world_next_intr_ns t + int (length ds) * ltc_period t"
    "now' = world_next_intr_ns u + lateness (ltc_period t) (now + ?w + d - world_next_intr_ns t) ds"
    "ltc_raised u = ltc_raised t + (if ltc_enable t \<and> ltc_intr_enable t then length ds else 0)" by blast
  have "ltc_runs (d # ds) now s = Some (now', u)" using t(1) u(1) by simp
  moreover have "now' = world_next_intr_ns u + lateness (ltc_period s) (now - world_next_intr_ns s) (d # ds)"
    using u(3) unfolding p t(5) backlog by simp
  ultimately show ?case using u(2,4) t(3-6) p by (auto simp: algebra_simps)
qed simp

lemma ltc_runs_frequency: "frequency s \<noteq> 0 \<Longrightarrow> ltc_runs ds now s = Some (now', t) \<Longrightarrow> frequency t = frequency s"
proof (induction ds arbitrary: now s)
  case (Cons d ds)
  obtain w u where "ltc_worker_round now s = Some (w, u)" "frequency u = frequency s" using ltc_round [OF Cons.prems(1), of now] by blast
  then show ?case using Cons.IH [of u "now + w + d"] Cons.prems by simp
qed simp

lemma lateness_append: "lateness p b (xs @ ys) = lateness p (lateness p b xs) ys"
  by (induction xs arbitrary: b) simp_all

lemma lateness_bounds:
  "0 \<le> p \<Longrightarrow> 0 \<le> b \<Longrightarrow> \<forall>d\<in>set ds. 0 \<le> d \<Longrightarrow> 0 \<le> lateness p b ds \<and> lateness p b ds \<le> b + sum_list ds"
proof (induction ds arbitrary: b)
  case (Cons d ds)
  have "0 \<le> p - p div 2" using Cons.prems(1) by linarith
  then have "0 \<le> max 0 (b - (p - p div 2)) + d" "max 0 (b - (p - p div 2)) + d \<le> b + d" using Cons.prems by auto
  then show ?case using Cons.IH [of "max 0 (b - (p - p div 2)) + d"] Cons.prems by force
qed simp

lemma lateness_undelayed:
  "0 \<le> p \<Longrightarrow> 0 \<le> b \<Longrightarrow> b \<le> int k * (p - p div 2) \<Longrightarrow> lateness p b (replicate k 0) = 0"
proof (induction k arbitrary: b)
  case (Suc k)
  have "0 \<le> p - p div 2" using Suc.prems(1) by linarith
  then have "0 \<le> int k * (p - p div 2)" by simp
  moreover have "b - (p - p div 2) \<le> int k * (p - p div 2)" using Suc.prems(3) by (simp add: algebra_simps)
  ultimately show ?case using Suc.IH [of "max 0 (b - (p - p div 2))"] Suc.prems(1) by simp
qed simp

text \<open>
  Property C25. The line clock loses no tick: with clock and interrupt enabled, whatever delays the worker has suffered
  from, once it runs undelayed for enough rounds (each one catches up with half a period) it is again exactly on time, and
  has raised one interrupt for each period that has passed since the start. In all rounds it is late by no more
  than the sum of the delays, it never runs ahead, and waits at least half a period between two interrupts.
\<close>

theorem line_clock_catches_up:
  assumes "frequency s \<noteq> 0" "ltc_enable s" "ltc_intr_enable s" "\<forall>d\<in>set ds. 0 \<le> d"
    "sum_list ds \<le> int k * (ltc_period s - ltc_period s div 2)"
  shows "(\<exists>t. ltc_runs (ds @ replicate k 0) (world_next_intr_ns s) s = Some (world_next_intr_ns s + int (length ds + k) * ltc_period s, t) \<and>
      ltc_raised t = ltc_raised s + length ds + k) \<and>
    (\<exists>now t. ltc_runs ds (world_next_intr_ns s) s = Some (now, t) \<and> world_next_intr_ns t \<le> now \<and> now \<le> world_next_intr_ns t + sum_list ds \<and>
      (\<exists>w u. ltc_worker_round now t = Some (w, u) \<and> ltc_period s div 2 \<le> w \<and> w \<le> ltc_period s))"
proof
  note p = ltc_period_bounds(1) [of s]
  note b = lateness_bounds [OF p order.refl assms(4)]
  have z: "lateness (ltc_period s) 0 (ds @ replicate k 0) = 0"
    unfolding lateness_append using b assms(5) by (intro lateness_undelayed p) simp_all
  from ltc_runs_time [OF assms(1), of "ds @ replicate k 0" "world_next_intr_ns s"]
  show "\<exists>t. ltc_runs (ds @ replicate k 0) (world_next_intr_ns s) s = Some (world_next_intr_ns s + int (length ds + k) * ltc_period s, t) \<and>
      ltc_raised t = ltc_raised s + length ds + k"
    using z assms(2,3) by (auto simp: algebra_simps)
  obtain now t where r: "ltc_runs ds (world_next_intr_ns s) s = Some (now, t)"
    "now = world_next_intr_ns t + lateness (ltc_period s) 0 ds" using ltc_runs_time [OF assms(1), of ds "world_next_intr_ns s"] by auto
  have ft: "frequency t = frequency s" using ltc_runs_frequency [OF assms(1) r(1)] .
  then have pt: "ltc_period t = ltc_period s" by (simp add: ltc_period_def)
  obtain u where u: "ltc_worker_round now t = Some (next_wait (ltc_period s) (now - world_next_intr_ns t), u)"
    using ltc_round [of t now] assms(1) ft pt by auto
  have "ltc_period s div 2 \<le> next_wait (ltc_period s) (now - world_next_intr_ns t)" "next_wait (ltc_period s) (now - world_next_intr_ns t) \<le> ltc_period s"
    using r(2) b p by (auto simp: next_wait_def Let_def)
  then show "\<exists>now t. ltc_runs ds (world_next_intr_ns s) s = Some (now, t) \<and> world_next_intr_ns t \<le> now \<and> now \<le> world_next_intr_ns t + sum_list ds \<and>
      (\<exists>w u. ltc_worker_round now t = Some (w, u) \<and> ltc_period s div 2 \<le> w \<and> w \<le> ltc_period s)"
    using r u b by force
qed

definition sample_ltc :: ltc where
  "sample_ltc = \<lparr>dati = (\<lambda>_. 0), dato = (\<lambda>_. 0), ltc_intr_enable = True, line_clock_monitor = False, ltc_pending = False, ltc_raised = 0,
     ltc_enable = True, frequency = 50, world_next_intr_ns = 5000, global_edge_count = 0\<rparr>"

text \<open>At 50 Hz, a delay of 25 ms is made up for by three rounds.\<close>

theorem line_clock_catches_up_witness:
  "\<exists>t. ltc_runs [25000000, 0, 0, 0] 5000 sample_ltc = Some (80005000, t) \<and> ltc_raised t = 4"
proof -
  have s: "frequency sample_ltc \<noteq> 0" "ltc_enable sample_ltc" "ltc_intr_enable sample_ltc" "\<forall>d\<in>set [25000000]. (0::int) \<le> d"
    "sum_list [25000000] \<le> int 3 * (ltc_period sample_ltc - ltc_period sample_ltc div 2)" "ltc_period sample_ltc = 20000000"
    "world_next_intr_ns sample_ltc = 5000" "ltc_raised sample_ltc = 0"
    by (simp_all add: sample_ltc_def ltc_period_def)
  have r: "replicate 3 (0 :: int) = [0, 0, 0]" by (simp add: numeral_eq_Suc)
  show ?thesis using line_clock_catches_up [OF s(1-5), THEN conjunct1] unfolding r s(6-8) by (simp del: ltc_runs.simps)
qed

end
