(* ===== verification/RX11.thy ===== *)
theory RX11
  imports Device_View Storage_Image
begin

text \<open>
  The RX11 floppy controller (\<^verbatim>\<open>rx11.cpp\<close>) and the RX01 box behind it: the microprocessor
  (\<^verbatim>\<open>rx0102ucpu.cpp\<close>) with its programs of steps, and the two drives (\<^verbatim>\<open>rx0102drive.cpp\<close>). The
  same classes with \<^verbatim>\<open>is_RX02\<close> true, behind the RX211, are not modelled.

  The worker of the microprocessor holds its mutex except while it waits for a signal: idle, or in the middle of a transfer step.
  Whoever else needs the mutex is blocked until then, and with it the bus. A signal wakes up the worker only while it waits.
  One step of the worker is what it does between two looks at its program; waits for the time of a movement are left out.
\<close>

subsection \<open>The drives\<close>

text \<open>\<open>fd_trackmove\<close> is the number of tracks the head passes in 10 ms, twice the emulation speed without its fraction.\<close>

record floppy =
  fd_cylinder :: nat
  fd_image :: "binfile option"
  fd_imagetrack0 :: bool
  fd_marks :: "bool list"
  fd_trackmove :: nat
  error_illegal_track :: bool
  error_illegal_sector :: bool

definition fd_cylinder_count :: nat where "fd_cylinder_count = 77"
definition fd_sector_count :: nat where "fd_sector_count = 26"
definition fd_sector_size :: nat where "fd_sector_size = 128"

definition fd_check_ready :: "floppy \<Rightarrow> bool" where
  "fd_check_ready d = (case fd_image d of None \<Rightarrow> False | Some f \<Rightarrow> f_open f)"

definition check_disk_address :: "nat \<Rightarrow> nat \<Rightarrow> floppy \<Rightarrow> bool \<times> floppy" where
  "check_disk_address track sector d =
     (let t = fd_cylinder_count \<le> track; s = sector < 1 \<or> fd_sector_count < sector in
      (\<not> t \<and> \<not> s, d\<lparr>error_illegal_track := t, error_illegal_sector := s\<rparr>))"

definition get_sector_image_offset :: "nat \<Rightarrow> nat \<Rightarrow> nat" where
  "get_sector_image_offset track sector = (track * fd_sector_count + (sector - 1)) * fd_sector_size"

text \<open>\<^verbatim>\<open>deleted_data_marks[track][sector]\<close>: an array of 77 rows of 26, while sectors count from 1.\<close>

definition mark_index :: "nat \<Rightarrow> nat \<Rightarrow> nat" where "mark_index track sector = track * fd_sector_count + sector"

definition get_mark :: "nat \<Rightarrow> nat \<Rightarrow> floppy \<Rightarrow> bool option" where
  "get_mark track sector d =
     (if mark_index track sector < length (fd_marks d) then Some (fd_marks d ! mark_index track sector) else None)"

definition set_mark :: "nat \<Rightarrow> nat \<Rightarrow> bool \<Rightarrow> floppy \<Rightarrow> floppy option" where
  "set_mark track sector m d =
     (if mark_index track sector < length (fd_marks d) then Some (d\<lparr>fd_marks := (fd_marks d)[mark_index track sector := m]\<rparr>) else None)"

text \<open>The bytes of the sector with its mark, or \<open>None\<close> for an error.\<close>

definition fd_sector_read :: "nat \<Rightarrow> nat \<Rightarrow> floppy \<Rightarrow> ((u8 list \<times> bool) option \<times> floppy) option" where
  "fd_sector_read track sector d0 =
     (let (ok, d) = check_disk_address track sector d0 in
      case fd_image d of
        Some f \<Rightarrow>
          if \<not> ok \<or> \<not> fd_check_ready d then Some (None, d)
          else do { m \<leftarrow> get_mark track sector d;
                    if \<not> fd_imagetrack0 d \<and> track = 0 then Some (Some (replicate fd_sector_size 0, m), d)
                    else do { (b, f) \<leftarrow> binfile_read (get_sector_image_offset (if fd_imagetrack0 d then track else track - 1) sector) fd_sector_size f;
                              Some (Some (b, m), d\<lparr>fd_image := Some f\<rparr>) } }
      | None \<Rightarrow> Some (None, d))"

definition fd_sector_write :: "u8 list \<Rightarrow> bool \<Rightarrow> nat \<Rightarrow> nat \<Rightarrow> floppy \<Rightarrow> (bool \<times> floppy) option" where
  "fd_sector_write buf m track sector d0 =
     (let (ok, d) = check_disk_address track sector d0 in
      case fd_image d of
        Some f \<Rightarrow>
          if \<not> ok \<or> \<not> fd_check_ready d then Some (False, d)
          else if f_readonly f then Some (True, d)
          else do { d1 \<leftarrow> set_mark track sector m d;
                    if \<not> fd_imagetrack0 d \<and> track = 0 then Some (True, d1)
                    else do { f \<leftarrow> binfile_write (take fd_sector_size buf)
                                (get_sector_image_offset (if fd_imagetrack0 d then track else track - 1) sector) f;
                              Some (True, d1\<lparr>fd_image := Some f\<rparr>) } }
      | None \<Rightarrow> Some (False, d))"

subsection \<open>The state of the box and its controller\<close>

text \<open>The steps the programs of the RX01 consist of.\<close>

datatype rx_step = Step_transfer_buffer_write | Step_transfer_buffer_read | Step_seek | Step_head_settle | Step_sector_write |
  Step_sector_read | Step_init_done | Step_done | Step_done_read_error_code

datatype rx_function = FILL_BUFFER | EMPTY_BUFFER | WRITE_SECTOR | READ_SECTOR | SET_MEDIA_DENSITY | READ_STATUS |
  WRITE_SECTOR_WITH_DELETED_DATA | READ_ERROR_CODE

datatype rx_worker = RXW_idle | RXW_transfer | RXW_running

text \<open>What the blocked thread, which occupies the bus, will do; \<open>Blocked_init True\<close> is part of a reset.\<close>

datatype rx_blocked = Not_blocked | Blocked_init bool | Blocked_go | Blocked_signal

record rx11 = device_view +
  program_steps :: "rx_step list"
  rx_program_counter :: nat
  program_function_code :: rx_function
  program_function_density :: bool
  rxta :: u16
  rxsa :: u16
  rxes :: u16
  extended_status :: "nat \<Rightarrow> u8"
  sector_buffer :: "u8 list"
  transfer_has_buffer :: bool
  transfer_byte_count :: nat
  transfer_byte_idx :: nat
  deleted_data_mark :: bool
  rx_power_switch :: bool
  signal_selected_drive_unitno :: nat
  signal_function_code :: rx_function
  signal_function_density :: bool
  rx_initializing :: bool
  signal_done :: bool
  signal_error :: bool
  signal_transfer_request :: bool
  rxdb :: u16
  rx_drives :: "nat \<Rightarrow> floppy"
  rx_worker_at :: rx_worker
  rx_woken :: bool
  rx_blocked :: rx_blocked
  rx_interrupt_enable :: bool
  interrupt_condition_prev :: bool
  rx_pending :: bool
  rx_line_INIT :: bool

definition rx_selected_drive :: "rx11 \<Rightarrow> floppy" where "rx_selected_drive s = rx_drives s (signal_selected_drive_unitno s)"

definition upd_selected :: "floppy \<Rightarrow> rx11 \<Rightarrow> rx11" where
  "upd_selected d s = s\<lparr>rx_drives := (rx_drives s)(signal_selected_drive_unitno s := d)\<rparr>"

definition upd_es :: "nat \<Rightarrow> u8 \<Rightarrow> rx11 \<Rightarrow> rx11" where "upd_es i v s = s\<lparr>extended_status := (extended_status s)(i := v)\<rparr>"

text \<open>A transfer request and \<^verbatim>\<open>DONE\<close> become visible to the bus here.\<close>

definition rxcs_value :: "rx11 \<Rightarrow> u16" where
  "rxcs_value s =
     flag 0x8000 (signal_error s) OR flag 0x0080 (signal_transfer_request s) OR flag 0x0040 (rx_interrupt_enable s) OR
     flag 0x0020 (signal_done s)"

definition rx_update_status :: "rx11 \<Rightarrow> rx11" where
  "rx_update_status s =
     (let s1 = set_dati 1 (rxdb s) s; cond = signal_done s \<and> rx_interrupt_enable s; tmp = rxcs_value s;
          s2 = (if \<not> interrupt_condition_prev s \<and> cond
                then (if rx_line_INIT s then s1 else (set_dati 0 tmp s1)\<lparr>rx_pending := True\<rparr>)
                else set_dati 0 tmp (if \<not> cond then s1\<lparr>rx_pending := False\<rparr> else s1))
      in s2\<lparr>interrupt_condition_prev := cond\<rparr>)"

subsection \<open>Programs and steps\<close>

definition step_current :: "rx11 \<Rightarrow> rx_step option" where
  "step_current s = (if length (program_steps s) \<le> rx_program_counter s then None else Some (program_steps s ! rx_program_counter s))"

definition program_complete :: "rx11 \<Rightarrow> bool" where "program_complete s \<longleftrightarrow> step_current s = None"

definition step_next :: "rx11 \<Rightarrow> rx11" where
  "step_next s = (if step_current s \<noteq> None then s\<lparr>rx_program_counter := rx_program_counter s + 1\<rparr> else s)"

definition program_clear :: "rx11 \<Rightarrow> rx11" where "program_clear s = s\<lparr>program_steps := [], rx_program_counter := 0\<rparr>"

definition load_program :: "rx_step list \<Rightarrow> rx11 \<Rightarrow> rx11" where
  "load_program p s = (program_clear s)\<lparr>program_steps := p\<rparr>"

definition clear_error_codes :: "rx11 \<Rightarrow> rx11" where "clear_error_codes s = s\<lparr>extended_status := (\<lambda>_. 0)\<rparr>"

definition complete_rxes :: "rx11 \<Rightarrow> rx11" where
  "complete_rxes s = (if deleted_data_mark s then s\<lparr>rxes := rxes s OR 0x40\<rparr> else s)"

text \<open>The two loops that move the head; with \<open>fd_trackmove\<close> 0 they do not end.\<close>

partial_function (option) seek_outward :: "nat \<Rightarrow> nat \<Rightarrow> nat \<Rightarrow> nat option" where
  "seek_outward inc track cyl =
     (if cyl < track then seek_outward inc track (if track \<le> cyl + inc then track else cyl + inc) else Some cyl)"

partial_function (option) seek_inward :: "nat \<Rightarrow> nat \<Rightarrow> nat \<Rightarrow> nat option" where
  "seek_inward inc track cyl =
     (if track < cyl then seek_inward inc track (if cyl - track \<le> inc then track else cyl - inc) else Some cyl)"

definition pgmstep_seek :: "rx11 \<Rightarrow> rx11 option" where
  "pgmstep_seek s =
     (let d = rx_selected_drive s; track = unat (rxta s) mod 256 in
      do { assert_that (track < fd_cylinder_count);
           c \<leftarrow> seek_outward (fd_trackmove d) track (fd_cylinder d);
           c \<leftarrow> seek_inward (fd_trackmove d) track c;
           Some (upd_selected (d\<lparr>fd_cylinder := c\<rparr>) s) })"

definition density_error :: "rx11 \<Rightarrow> rx11" where
  "density_error s = (upd_es 0 0xa0 s)\<lparr>rxes := rxes s OR 0x10, signal_error := True\<rparr>"

definition medium_error :: "rx11 \<Rightarrow> rx11" where "medium_error s = (upd_es 0 0x48 s)\<lparr>signal_error := True\<rparr>"

definition step_sector_write :: "rx11 \<Rightarrow> rx11 option" where
  "step_sector_write s =
     (if program_function_density s then Some (complete_rxes (density_error s))
      else do { (ok, d) \<leftarrow> fd_sector_write (sector_buffer s) (deleted_data_mark s) (unat (rxta s)) (unat (rxsa s)) (rx_selected_drive s);
                let s1 = upd_selected d s;
                Some (complete_rxes (if ok then s1\<lparr>signal_error := False\<rparr> else medium_error s1)) })"

definition step_sector_read :: "rx11 \<Rightarrow> rx11 option" where
  "step_sector_read s =
     (if program_function_density s then Some (complete_rxes (density_error s))
      else do { (r, d) \<leftarrow> fd_sector_read (unat (rxta s)) (unat (rxsa s)) (rx_selected_drive s);
                let s1 = upd_selected d s;
                Some (complete_rxes (case r of
                  Some (b, m) \<Rightarrow> s1\<lparr>sector_buffer := b @ drop (length b) (sector_buffer s1), deleted_data_mark := m, signal_error := False\<rparr>
                | None \<Rightarrow> medium_error s1)) })"

definition step_init_done :: "rx11 \<Rightarrow> rx11" where
  "step_init_done s =
     (let s1 = complete_rxes (s\<lparr>rx_initializing := False, signal_done := True, signal_transfer_request := False\<rparr>);
          e = rxes s1 OR 0x04 OR flag 0x80 (fd_check_ready (rx_selected_drive s1))
      in rx_update_status (s1\<lparr>rxes := e, rxdb := e\<rparr>))"

definition step_done :: "rx11 \<Rightarrow> rx11" where
  "step_done s =
     (let s1 = complete_rxes (s\<lparr>rx_initializing := False, signal_done := True, signal_transfer_request := False\<rparr>)
      in rx_update_status (s1\<lparr>rxdb := rxes s1\<rparr>))"

definition step_done_read_error_code :: "rx11 \<Rightarrow> rx11" where
  "step_done_read_error_code s =
     rx_update_status (s\<lparr>rx_initializing := False, signal_done := True, signal_transfer_request := False, rxdb := ucast (extended_status s 0)\<rparr>)"

text \<open>The transfer steps begin to wait.\<close>

definition step_transfer_buffer_write :: "rx11 \<Rightarrow> rx11" where
  "step_transfer_buffer_write s =
     (rx_update_status (s\<lparr>transfer_byte_idx := 0, signal_transfer_request := True\<rparr>))\<lparr>rx_worker_at := RXW_transfer, rx_woken := False\<rparr>"

definition step_transfer_buffer_read :: "rx11 \<Rightarrow> rx11 option" where
  "step_transfer_buffer_read s =
     do { assert_that (program_function_code s = EMPTY_BUFFER \<or> program_function_code s = READ_ERROR_CODE);
          assert_that (transfer_has_buffer s);
          Some ((rx_update_status (s\<lparr>transfer_byte_idx := 0, signal_transfer_request := True, rxdb := ucast (sector_buffer s ! 0)\<rparr>))
            \<lparr>rx_worker_at := RXW_transfer, rx_woken := False\<rparr>) }"

fun step_execute :: "rx_step \<Rightarrow> rx11 \<Rightarrow> rx11 option" where
  "step_execute Step_transfer_buffer_write s = Some (step_transfer_buffer_write s)"
| "step_execute Step_transfer_buffer_read s = step_transfer_buffer_read s"
| "step_execute Step_seek s = pgmstep_seek s"
| "step_execute Step_head_settle s = Some (upd_es 6 (extended_status s 6 OR 0x20) s)"
| "step_execute Step_sector_write s = step_sector_write s"
| "step_execute Step_sector_read s = step_sector_read s"
| "step_execute Step_init_done s = Some (step_init_done s)"
| "step_execute Step_done s = Some (step_done s)"
| "step_execute Step_done_read_error_code s = Some (step_done_read_error_code s)"

definition check_signal_error :: "rx11 \<Rightarrow> rx11" where
  "check_signal_error s = (if signal_error s then step_done (program_clear s) else s)"

definition ucpu_worker_step :: "rx11 \<Rightarrow> rx11 option" where
  "ucpu_worker_step s =
     (case rx_worker_at s of
        RXW_idle \<Rightarrow> Some (if rx_woken s then check_signal_error (s\<lparr>rx_worker_at := RXW_running\<rparr>) else s)
      | RXW_transfer \<Rightarrow> Some (if rx_woken s then check_signal_error (step_next (s\<lparr>rx_worker_at := RXW_running\<rparr>)) else s)
      | RXW_running \<Rightarrow>
          (case step_current s of
             None \<Rightarrow> Some (s\<lparr>rx_worker_at := RXW_idle, rx_woken := False\<rparr>)
           | Some p \<Rightarrow>
               do { s1 \<leftarrow> step_execute p s;
                    Some (if rx_worker_at s1 = RXW_transfer then s1 else check_signal_error (step_next s1)) }))"

subsection \<open>Commands\<close>

definition ucpu_signal :: "rx11 \<Rightarrow> rx11" where
  "ucpu_signal s = (if rx_worker_at s = RXW_running then s\<lparr>rx_blocked := Blocked_signal\<rparr> else s\<lparr>rx_woken := True\<rparr>)"

definition ucpu_set_powerless :: "rx11 \<Rightarrow> rx11" where
  "ucpu_set_powerless s = s\<lparr>signal_done := True, signal_error := True, signal_transfer_request := False\<rparr>"

text \<open>Initialization, before and after the mutex is locked.\<close>

definition init_program :: "rx11 \<Rightarrow> rx11" where
  "init_program s = (load_program [Step_seek, Step_sector_read, Step_init_done] s)\<lparr>rx_woken := True\<rparr>"

definition init_signals :: "rx11 \<Rightarrow> rx11" where
  "init_signals s =
     (let s1 = rx_update_status (clear_error_codes (s\<lparr>program_function_density := False, signal_done := False, signal_error := False,
                 signal_transfer_request := False, rx_initializing := True, rxdb := 0, rxes := 0\<rparr>))
      in s1\<lparr>rx_drives := (rx_drives s1)(0 := (rx_drives s1 0)\<lparr>fd_cylinder := 0\<rparr>, 1 := (rx_drives s1 1)\<lparr>fd_cylinder := 0\<rparr>),
            rxta := 1, rxsa := 1, signal_selected_drive_unitno := 0\<rparr>)"

definition ucpu_init :: "bool \<Rightarrow> rx11 \<Rightarrow> rx11" where
  "ucpu_init in_reset s =
     (if \<not> rx_power_switch s then if in_reset then rx_update_status s else s
      else (let s1 = init_signals s in
            if rx_worker_at s1 = RXW_running then s1\<lparr>rx_blocked := Blocked_init in_reset\<rparr>
            else if in_reset then rx_update_status (init_program s1) else init_program s1))"

definition get_transfer_byte_count :: "rx_function \<Rightarrow> nat" where
  "get_transfer_byte_count f =
     (if f \<in> {FILL_BUFFER, EMPTY_BUFFER} then 128
      else if f \<in> {READ_SECTOR, WRITE_SECTOR, WRITE_SECTOR_WITH_DELETED_DATA} then 2 else 0)"

definition get_transfer_buffer :: "rx_function \<Rightarrow> bool" where "get_transfer_buffer f \<longleftrightarrow> f \<in> {FILL_BUFFER, EMPTY_BUFFER}"

fun function_program :: "rx_function \<Rightarrow> rx11 \<Rightarrow> rx11" where
  "function_program FILL_BUFFER s =
     load_program [Step_transfer_buffer_write, Step_done] ((clear_error_codes s)\<lparr>sector_buffer := replicate 256 0\<rparr>)"
| "function_program EMPTY_BUFFER s = load_program [Step_transfer_buffer_read, Step_done] (clear_error_codes s)"
| "function_program READ_SECTOR s =
     load_program [Step_transfer_buffer_write, Step_seek, Step_head_settle, Step_sector_read, Step_done] (clear_error_codes s)"
| "function_program WRITE_SECTOR s =
     load_program [Step_transfer_buffer_write, Step_seek, Step_head_settle, Step_sector_write, Step_done]
       ((clear_error_codes s)\<lparr>deleted_data_mark := False\<rparr>)"
| "function_program WRITE_SECTOR_WITH_DELETED_DATA s =
     load_program [Step_transfer_buffer_write, Step_seek, Step_head_settle, Step_sector_write, Step_done]
       ((clear_error_codes s)\<lparr>deleted_data_mark := True\<rparr>)"
| "function_program SET_MEDIA_DENSITY s = step_done (program_clear (clear_error_codes s))"
| "function_program READ_STATUS s =
     load_program [Step_done] (if fd_check_ready (rx_selected_drive s) then s\<lparr>rxes := rxes s OR 0x80\<rparr> else s)"
| "function_program READ_ERROR_CODE s = load_program [Step_done_read_error_code] s"

definition go_program :: "rx11 \<Rightarrow> rx11" where
  "go_program s =
     (let s1 = s\<lparr>signal_done := False, signal_error := False, signal_transfer_request := False, deleted_data_mark := False,
                 transfer_byte_count := get_transfer_byte_count (program_function_code s),
                 transfer_has_buffer := get_transfer_buffer (program_function_code s), rxes := 0\<rparr>
      in (rx_update_status (function_program (program_function_code s) s1))\<lparr>rx_woken := True\<rparr>)"

definition ucpu_go :: "rx11 \<Rightarrow> rx11" where
  "ucpu_go s =
     (let s1 = s\<lparr>program_function_code := signal_function_code s, program_function_density := signal_function_density s\<rparr> in
      if \<not> rx_power_switch s1 then s1
      else if rx_worker_at s1 = RXW_running then s1\<lparr>rx_blocked := Blocked_go\<rparr>
      else go_program s1)"

text \<open>The blocked thread gets the mutex when the worker waits.\<close>

definition rx_resume :: "rx11 \<Rightarrow> rx11" where
  "rx_resume s0 =
     (if rx_worker_at s0 = RXW_running then s0
      else (let s = s0\<lparr>rx_blocked := Not_blocked\<rparr> in
            case rx_blocked s0 of
              Not_blocked \<Rightarrow> s0
            | Blocked_init in_reset \<Rightarrow> if in_reset then rx_update_status (init_program s) else init_program s
            | Blocked_go \<Rightarrow> go_program s
            | Blocked_signal \<Rightarrow> s\<lparr>rx_woken := True\<rparr>))"

definition rxdb_after_read :: "rx11 \<Rightarrow> rx11 option" where
  "rxdb_after_read s =
     (if program_complete s \<or> transfer_byte_count s \<le> transfer_byte_idx s then Some s
      else if program_function_code s = EMPTY_BUFFER \<or> program_function_code s = READ_ERROR_CODE
      then (if transfer_byte_idx s + 1 < transfer_byte_count s
            then do { assert_that (transfer_has_buffer s);
                      let i = transfer_byte_idx s + 1;
                      Some (rx_update_status (s\<lparr>transfer_byte_idx := i, rxdb := ucast (sector_buffer s ! i)\<rparr>)) }
            else Some (ucpu_signal (rx_update_status (s\<lparr>signal_transfer_request := False, transfer_byte_idx := transfer_byte_idx s + 1\<rparr>))))
      else Some s)"

text \<open>A byte for the buffer, or sector and track; the second component tells that this was the last one.\<close>

definition write_disk_address :: "u16 \<Rightarrow> rx11 \<Rightarrow> rx11 \<times> bool" where
  "write_disk_address w s =
     (let s1 =
        (if transfer_byte_idx s = 0
         then (let a = w AND 0x1f; t = upd_es 5 (ucast a) (s\<lparr>rxsa := a\<rparr>) in
               if a < 1 \<or> fd_sector_count < unat a then (upd_es 0 0x38 t)\<lparr>signal_error := True\<rparr> else t)
         else if transfer_byte_idx s = 1
         then (let a = w AND 0x7f; t = upd_es 4 (ucast a) (s\<lparr>rxta := a\<rparr>) in
               if fd_cylinder_count \<le> unat a then (upd_es 0 0x20 t)\<lparr>signal_error := True\<rparr> else t)
         else s)
      in (s1\<lparr>transfer_byte_idx := transfer_byte_idx s + 1\<rparr>, transfer_byte_idx s = 1))"

definition rxdb_after_write :: "u16 \<Rightarrow> rx11 \<Rightarrow> rx11 option" where
  "rxdb_after_write w s =
     (if program_complete s then Some (rx_update_status (s\<lparr>rxdb := w\<rparr>))
      else if transfer_byte_count s \<le> transfer_byte_idx s then Some s
      else do { (s1, complete) \<leftarrow>
                  (case program_function_code s of
                     FILL_BUFFER \<Rightarrow>
                       do { assert_that (transfer_has_buffer s);
                            let i = transfer_byte_idx s;
                            Some (s\<lparr>sector_buffer := (sector_buffer s)[i := ucast (w AND 0xff)], transfer_byte_idx := i + 1\<rparr>,
                                  transfer_byte_count s \<le> i + 1) }
                   | READ_SECTOR \<Rightarrow> Some (write_disk_address w s)
                   | WRITE_SECTOR \<Rightarrow> Some (write_disk_address w s)
                   | WRITE_SECTOR_WITH_DELETED_DATA \<Rightarrow> Some (write_disk_address w s)
                   | SET_MEDIA_DENSITY \<Rightarrow>
                       Some (if transfer_byte_idx s = 0 \<and> w \<noteq> 0x49 then (upd_es 0 0xa8 s)\<lparr>signal_error := True\<rparr> else s,
                             transfer_byte_idx s = 0)
                   | _ \<Rightarrow> Some (s, False));
                Some (if complete then ucpu_signal (rx_update_status (s1\<lparr>signal_transfer_request := False\<rparr>)) else rx_update_status s1) })"

subsection \<open>Register accesses, power and INIT\<close>

definition function_of :: "u16 \<Rightarrow> rx_function" where
  "function_of w =
     [FILL_BUFFER, EMPTY_BUFFER, WRITE_SECTOR, READ_SECTOR, SET_MEDIA_DENSITY, READ_STATUS, WRITE_SECTOR_WITH_DELETED_DATA, READ_ERROR_CODE]
       ! unat (drop_bit 1 w AND 7)"

definition write_RXCS :: "rx11 \<Rightarrow> rx11" where
  "write_RXCS s =
     (let v = dato s 0;
          s1 = s\<lparr>signal_selected_drive_unitno := (if bit v 4 then 1 else 0), signal_function_code := function_of v,
                 rx_interrupt_enable := bit v 6, signal_function_density := bit v 8, rxdb := 0\<rparr>
      in if bit v 14 then ucpu_init False s1
         else if signal_done s1 \<and> bit v 0 then ucpu_go s1
         else rx_update_status s1)"

definition rx_on_after_register_access :: "nat \<Rightarrow> bool \<Rightarrow> rx11 \<Rightarrow> rx11 option" where
  "rx_on_after_register_access i is_write s =
     (if i = 0 then Some (if is_write then write_RXCS s else s)
      else if i = 1 then if is_write then rxdb_after_write (dato s 1) s else rxdb_after_read s
      else Some s)"

definition rx_reset :: "rx11 \<Rightarrow> rx11" where
  "rx_reset s = ucpu_init True ((set_dati 1 0 (set_dati 0 0 s))\<lparr>rx_interrupt_enable := False, interrupt_condition_prev := True\<rparr>)"

text \<open>The adapter drops the requests after the notification, after a power event only when DCLO rises.\<close>

definition rx_on_power_changed :: "bool \<Rightarrow> rx11 \<Rightarrow> rx11" where
  "rx_on_power_changed dclo_raising s =
     (let s1 = rx_update_status s in if dclo_raising then (rx_reset s1)\<lparr>rx_pending := False\<rparr> else s1)"

definition rx_on_init_changed :: "bool \<Rightarrow> rx11 \<Rightarrow> rx11" where
  "rx_on_init_changed asserted s =
     (let s1 = s\<lparr>rx_line_INIT := asserted\<rparr> in (if asserted then s1 else rx_reset s1)\<lparr>rx_pending := False\<rparr>)"

definition rx_power_switch_changed :: "bool \<Rightarrow> rx11 \<Rightarrow> rx11" where
  "rx_power_switch_changed on s =
     (let s1 = s\<lparr>rx_power_switch := on\<rparr> in
      if on then ucpu_init False s1 else rx_update_status (ucpu_set_powerless s1))"

end
