(* ===== verification/RX11_Transfers.thy ===== *)
theory RX11_Transfers
  imports RX11
begin

text \<open>
  Runs of the RX11: what the steps leave alone, the transfer of a sector buffer over the data register, and
  a sector that is written and read back.
\<close>

subsection \<open>Runs\<close>

text \<open>While a thread is blocked the bus is, and nothing but the worker moves.\<close>

datatype rx_event = RX_write nat u16 | RX_read nat | RX_worker | RX_resume | RX_bus_power bool | RX_INIT bool | RX_power_switch bool

fun rx_event_step :: "rx_event \<Rightarrow> rx11 \<Rightarrow> rx11 option" where
  "rx_event_step (RX_write i v) s =
     (if rx_blocked s \<noteq> Not_blocked then Some s else rx_on_after_register_access i True (s\<lparr>dato := (dato s)(i := v)\<rparr>))"
| "rx_event_step (RX_read i) s = (if rx_blocked s \<noteq> Not_blocked then Some s else rx_on_after_register_access i False s)"
| "rx_event_step RX_worker s = ucpu_worker_step s"
| "rx_event_step RX_resume s = Some (rx_resume s)"
| "rx_event_step (RX_bus_power dclo_raising) s = Some (if rx_blocked s \<noteq> Not_blocked then s else rx_on_power_changed dclo_raising s)"
| "rx_event_step (RX_INIT asserted) s = Some (if rx_blocked s \<noteq> Not_blocked then s else rx_on_init_changed asserted s)"
| "rx_event_step (RX_power_switch on) s = Some (if rx_blocked s \<noteq> Not_blocked then s else rx_power_switch_changed on s)"

fun rx_run :: "rx_event list \<Rightarrow> rx11 \<Rightarrow> rx11 option" where
  "rx_run [] s = Some s"
| "rx_run (e # es) s = Option.bind (rx_event_step e s) (rx_run es)"

lemma rx_run_append: "rx_run (es @ fs) s = Option.bind (rx_run es s) (rx_run fs)"
  by (induction es arbitrary: s) (simp_all split: bind_split)

text \<open>The host reads bytes from RXDB.\<close>

fun read_bytes :: "nat \<Rightarrow> rx11 \<Rightarrow> (u16 list \<times> rx11) option" where
  "read_bytes 0 s = Some ([], s)"
| "read_bytes (Suc n) s = do { t \<leftarrow> rx_event_step (RX_read 1) s; (ws, u) \<leftarrow> read_bytes n t; Some (dati s 1 # ws, u) }"

text \<open>Commands one after the other, each of which has to end without an error.\<close>

fun rx_commands :: "rx_event list list \<Rightarrow> rx11 \<Rightarrow> rx11 option" where
  "rx_commands [] s = Some s"
| "rx_commands (es # ess) s = do { t \<leftarrow> rx_run es s; assert_that (\<not> signal_error t); rx_commands ess t }"

subsection \<open>What the operations leave alone\<close>

lemma rx_update_status_sel [simp]:
  "dati (rx_update_status s) (Suc 0) = rxdb s"
  "dato (rx_update_status s) = dato s" "program_steps (rx_update_status s) = program_steps s"
  "rx_program_counter (rx_update_status s) = rx_program_counter s" "program_function_code (rx_update_status s) = program_function_code s"
  "program_function_density (rx_update_status s) = program_function_density s" "rxta (rx_update_status s) = rxta s"
  "rxsa (rx_update_status s) = rxsa s" "rxes (rx_update_status s) = rxes s" "extended_status (rx_update_status s) = extended_status s"
  "sector_buffer (rx_update_status s) = sector_buffer s" "transfer_has_buffer (rx_update_status s) = transfer_has_buffer s"
  "transfer_byte_count (rx_update_status s) = transfer_byte_count s" "transfer_byte_idx (rx_update_status s) = transfer_byte_idx s"
  "deleted_data_mark (rx_update_status s) = deleted_data_mark s" "rx_power_switch (rx_update_status s) = rx_power_switch s"
  "signal_selected_drive_unitno (rx_update_status s) = signal_selected_drive_unitno s"
  "signal_function_code (rx_update_status s) = signal_function_code s" "signal_function_density (rx_update_status s) = signal_function_density s"
  "rx_initializing (rx_update_status s) = rx_initializing s" "signal_done (rx_update_status s) = signal_done s"
  "signal_error (rx_update_status s) = signal_error s" "signal_transfer_request (rx_update_status s) = signal_transfer_request s"
  "rxdb (rx_update_status s) = rxdb s" "rx_drives (rx_update_status s) = rx_drives s" "rx_worker_at (rx_update_status s) = rx_worker_at s"
  "rx_woken (rx_update_status s) = rx_woken s" "rx_blocked (rx_update_status s) = rx_blocked s"
  "rx_interrupt_enable (rx_update_status s) = rx_interrupt_enable s" "rx_line_INIT (rx_update_status s) = rx_line_INIT s"
  by (simp_all add: rx_update_status_def Let_def set_dati_def)

lemma complete_rxes_sel [simp]:
  "dati (complete_rxes s) = dati s"
  "dato (complete_rxes s) = dato s" "program_steps (complete_rxes s) = program_steps s"
  "rx_program_counter (complete_rxes s) = rx_program_counter s" "program_function_code (complete_rxes s) = program_function_code s"
  "sector_buffer (complete_rxes s) = sector_buffer s" "rx_power_switch (complete_rxes s) = rx_power_switch s"
  "signal_done (complete_rxes s) = signal_done s" "signal_selected_drive_unitno (complete_rxes s) = signal_selected_drive_unitno s"
  "signal_error (complete_rxes s) = signal_error s" "signal_transfer_request (complete_rxes s) = signal_transfer_request s"
  "rx_drives (complete_rxes s) = rx_drives s" "rx_worker_at (complete_rxes s) = rx_worker_at s"
  "rx_woken (complete_rxes s) = rx_woken s" "rx_blocked (complete_rxes s) = rx_blocked s"
  by (simp_all add: complete_rxes_def)

subsection \<open>Commands\<close>

text \<open>The box waits for a command.\<close>

definition rx_ready :: "rx11 \<Rightarrow> bool" where
  "rx_ready s \<longleftrightarrow> rx_worker_at s = RXW_idle \<and> rx_blocked s = Not_blocked \<and> rx_power_switch s \<and> signal_done s \<and>
     length (sector_buffer s) = 256"

text \<open>The worker waits in the first step of a program, which it will continue with the rest.\<close>

definition transferring :: "rx_function \<Rightarrow> rx_step list \<Rightarrow> nat \<Rightarrow> rx11 \<Rightarrow> bool" where
  "transferring f p u s \<longleftrightarrow> rx_worker_at s = RXW_transfer \<and> \<not> rx_woken s \<and> rx_blocked s = Not_blocked \<and> rx_power_switch s \<and>
     program_function_code s = f \<and> \<not> program_function_density s \<and> tl (program_steps s) = p \<and> program_steps s \<noteq> [] \<and> rx_program_counter s = 0 \<and>
     transfer_has_buffer s = get_transfer_buffer f \<and> transfer_byte_count s = get_transfer_byte_count f \<and> \<not> signal_error s \<and>
     signal_selected_drive_unitno s = u \<and> length (sector_buffer s) = 256"

definition command_word :: "nat \<Rightarrow> nat \<Rightarrow> u16" where "command_word u f = of_nat (16 * u + 2 * f + 1)"

lemmas rx_command = rx_on_after_register_access_def write_RXCS_def ucpu_go_def go_program_def load_program_def program_clear_def
  clear_error_codes_def ucpu_worker_step_def check_signal_error_def step_current_def step_transfer_buffer_write_def
  step_transfer_buffer_read_def Let_def get_transfer_buffer_def get_transfer_byte_count_def

lemma command_word_bits:
  assumes "u < 2" "f < 8"
  shows "bit (command_word u f) 0" "\<not> bit (command_word u f) 6" "\<not> bit (command_word u f) 8" "\<not> bit (command_word u f) 14"
    "bit (command_word u f) 4 \<longleftrightarrow> u = 1" "unat (drop_bit 1 (command_word u f) AND 7) = f"
proof -
  have "u \<in> {0, 1}" "f \<in> {0, 1, 2, 3, 4, 5, 6, 7}" using assms by auto
  then show "bit (command_word u f) 0" "\<not> bit (command_word u f) 6" "\<not> bit (command_word u f) 8" "\<not> bit (command_word u f) 14"
    "bit (command_word u f) 4 \<longleftrightarrow> u = 1" "unat (drop_bit 1 (command_word u f) AND 7) = f"
    by (auto simp: command_word_def bit_numeral_rec)
qed

lemma start_fill:
  assumes "rx_ready s" "u < 2"
  shows "\<exists>t. rx_run [RX_write 0 (command_word u 0), RX_worker, RX_worker] s = Some t \<and> transferring FILL_BUFFER [Step_done] u t \<and>
    transfer_byte_idx t = 0 \<and> rx_drives t = rx_drives s \<and> sector_buffer t = replicate 256 0"
proof -
  note b = command_word_bits [OF assms(2), of 0]
  show ?thesis using assms b by (simp add: rx_ready_def rx_command function_of_def transferring_def)
qed

lemma start_empty:
  assumes "rx_ready s" "u < 2"
  shows "\<exists>t. rx_run [RX_write 0 (command_word u 1), RX_worker, RX_worker] s = Some t \<and> transferring EMPTY_BUFFER [Step_done] u t \<and>
    transfer_byte_idx t = 0 \<and> rx_drives t = rx_drives s \<and> sector_buffer t = sector_buffer s \<and> dati t 1 = ucast (sector_buffer s ! 0)"
proof -
  note b = command_word_bits [OF assms(2), of 1]
  show ?thesis using assms b by (simp add: rx_ready_def rx_command function_of_def transferring_def)
qed

text \<open>The steps between the disk address and the end of a sector command.\<close>

definition sector_program :: "rx_step \<Rightarrow> rx_step list" where
  "sector_program p = [Step_seek, Step_head_settle, p, Step_done]"

lemma start_write_sector:
  assumes "rx_ready s" "u < 2"
  shows "\<exists>t. rx_run [RX_write 0 (command_word u 2), RX_worker, RX_worker] s = Some t \<and>
    transferring WRITE_SECTOR (sector_program Step_sector_write) u t \<and>
    transfer_byte_idx t = 0 \<and> rx_drives t = rx_drives s \<and> sector_buffer t = sector_buffer s \<and> \<not> deleted_data_mark t"
proof -
  note b = command_word_bits [OF assms(2), of 2]
  show ?thesis using assms b by (simp add: rx_ready_def rx_command function_of_def transferring_def sector_program_def)
qed

lemma start_read_sector:
  assumes "rx_ready s" "u < 2"
  shows "\<exists>t. rx_run [RX_write 0 (command_word u 3), RX_worker, RX_worker] s = Some t \<and>
    transferring READ_SECTOR (sector_program Step_sector_read) u t \<and>
    transfer_byte_idx t = 0 \<and> rx_drives t = rx_drives s \<and> sector_buffer t = sector_buffer s"
proof -
  note b = command_word_bits [OF assms(2), of 3]
  show ?thesis using assms b by (simp add: rx_ready_def rx_command function_of_def transferring_def sector_program_def)
qed

subsection \<open>The bytes of the buffer\<close>

definition fill_events :: "u8 list \<Rightarrow> rx_event list" where "fill_events bs = map (\<lambda>b. RX_write 1 (ucast b)) bs"

text \<open>The last byte wakes up the worker, which has only its last step to do.\<close>

lemma byte_of_word: "ucast (ucast b AND (0xff :: u16)) = (b :: u8)"
proof -
  have m: "(0xff :: u16) = mask 8" by (simp add: mask_eq_exp_minus_1)
  show ?thesis unfolding m by (rule bit_word_eqI) (auto simp: bit_simps)
qed

lemma fill_byte:
  assumes "transferring FILL_BUFFER [Step_done] u s" "transfer_byte_idx s + 1 < 128"
  shows "\<exists>t. rx_event_step (RX_write 1 (ucast b)) s = Some t \<and> transferring FILL_BUFFER [Step_done] u t \<and>
    transfer_byte_idx t = transfer_byte_idx s + 1 \<and> rx_drives t = rx_drives s \<and>
    sector_buffer t = (sector_buffer s)[transfer_byte_idx s := b]"
  using assms
  by (simp add: transferring_def rx_on_after_register_access_def rxdb_after_write_def program_complete_def step_current_def
      get_transfer_buffer_def get_transfer_byte_count_def Let_def byte_of_word)

lemma fill_last_byte:
  assumes "transferring FILL_BUFFER [Step_done] u s" "transfer_byte_idx s = 127"
  shows "\<exists>t. rx_run [RX_write 1 (ucast b), RX_worker, RX_worker, RX_worker] s = Some t \<and> rx_ready t \<and> \<not> signal_error t \<and> rx_drives t = rx_drives s \<and>
    sector_buffer t = (sector_buffer s)[127 := b]"
proof -
  obtain p where p: "program_steps s = [p, Step_done]" using assms(1) by (cases "program_steps s") (auto simp: transferring_def)
  show ?thesis using assms p
    by (simp add: transferring_def rx_on_after_register_access_def rxdb_after_write_def program_complete_def step_current_def
      get_transfer_buffer_def get_transfer_byte_count_def Let_def byte_of_word ucpu_signal_def ucpu_worker_step_def step_next_def
      check_signal_error_def step_done_def rx_ready_def)
qed

lemma fill_bytes:
  assumes "transferring FILL_BUFFER [Step_done] u s" "transfer_byte_idx s + length bs = 128" "bs \<noteq> []"
  shows "\<exists>t. rx_run (fill_events bs @ [RX_worker, RX_worker, RX_worker]) s = Some t \<and> rx_ready t \<and> \<not> signal_error t \<and>
    rx_drives t = rx_drives s \<and> sector_buffer t = take (transfer_byte_idx s) (sector_buffer s) @ bs @ drop 128 (sector_buffer s)"
  using assms
proof (induction bs arbitrary: s)
  case (Cons b bs)
  have l: "length (sector_buffer s) = 256" using Cons.prems(1) by (simp add: transferring_def)
  show ?case
  proof (cases "bs = []")
    case True
    then have i: "transfer_byte_idx s = 127" using Cons.prems(2) by simp
    have "(sector_buffer s)[127 := b] = take 127 (sector_buffer s) @ b # drop 128 (sector_buffer s)"
      using l by (simp add: upd_conv_take_nth_drop)
    with fill_last_byte [OF Cons.prems(1) i, of b] show ?thesis using True i by (auto simp: fill_events_def)
  next
    case False
    then have i: "transfer_byte_idx s + 1 < 128" using Cons.prems(2) by (cases bs) simp_all
    obtain t where t: "rx_event_step (RX_write 1 (ucast b)) s = Some t" "transferring FILL_BUFFER [Step_done] u t"
      "transfer_byte_idx t = transfer_byte_idx s + 1" "rx_drives t = rx_drives s"
      "sector_buffer t = (sector_buffer s)[transfer_byte_idx s := b]" using fill_byte [OF Cons.prems(1) i, of b] by blast
    obtain v where v: "rx_run (fill_events bs @ [RX_worker, RX_worker, RX_worker]) t = Some v" "rx_ready v" "\<not> signal_error v"
      "rx_drives v = rx_drives t" "sector_buffer v = take (transfer_byte_idx t) (sector_buffer t) @ bs @ drop 128 (sector_buffer t)"
      using Cons.IH [OF t(2)] t(3) Cons.prems(2) False by auto
    have "take (transfer_byte_idx s + 1) ((sector_buffer s)[transfer_byte_idx s := b]) = take (transfer_byte_idx s) (sector_buffer s) @ [b]"
      using l i by (simp add: take_Suc_conv_app_nth)
    moreover have "drop 128 ((sector_buffer s)[transfer_byte_idx s := b]) = drop 128 (sector_buffer s)" using i by simp
    ultimately have "sector_buffer v = take (transfer_byte_idx s) (sector_buffer s) @ (b # bs) @ drop 128 (sector_buffer s)"
      unfolding v(5) t(3,5) by simp
    moreover have "rx_run (fill_events (b # bs) @ [RX_worker, RX_worker, RX_worker]) s = Some v"
      using t(1) v(1) unfolding fill_events_def by (simp del: rx_event_step.simps)
    ultimately show ?thesis using v t(4) by simp
  qed
qed simp

text \<open>The command that fills the buffer.\<close>

definition fill_command :: "nat \<Rightarrow> u8 list \<Rightarrow> rx_event list" where
  "fill_command u bs = [RX_write 0 (command_word u 0), RX_worker, RX_worker] @ fill_events bs @ [RX_worker, RX_worker, RX_worker]"

lemma fill_fills:
  assumes "rx_ready s" "u < 2" "length bs = 128"
  shows "\<exists>t. rx_run (fill_command u bs) s = Some t \<and> rx_ready t \<and> \<not> signal_error t \<and> rx_drives t = rx_drives s \<and>
    sector_buffer t = bs @ replicate 128 0"
proof -
  obtain t where t: "rx_run [RX_write 0 (command_word u 0), RX_worker, RX_worker] s = Some t" "transferring FILL_BUFFER [Step_done] u t"
    "transfer_byte_idx t = 0" "rx_drives t = rx_drives s" "sector_buffer t = replicate 256 0" using start_fill [OF assms(1,2)] by blast
  have "transfer_byte_idx t + length bs = 128" "bs \<noteq> []" using t(3) assms(3) by auto
  from fill_bytes [OF t(2) this] obtain v where v: "rx_run (fill_events bs @ [RX_worker, RX_worker, RX_worker]) t = Some v"
    "rx_ready v" "\<not> signal_error v" "rx_drives v = rx_drives t" "sector_buffer v = bs @ replicate 128 0" using t(3,5) by auto
  have "rx_run (fill_command u bs) s = Some v" unfolding fill_command_def rx_run_append [of "[_, _, _]"] t(1) using v(1) by simp
  then show ?thesis using v t(4) by auto
qed

text \<open>Reading the bytes of the buffer: each access returns a byte and puts the next one into RXDB.\<close>

lemma empty_byte:
  assumes "transferring EMPTY_BUFFER [Step_done] u s" "transfer_byte_idx s + 1 < 128"
  shows "\<exists>t. rx_event_step (RX_read 1) s = Some t \<and> transferring EMPTY_BUFFER [Step_done] u t \<and>
    transfer_byte_idx t = transfer_byte_idx s + 1 \<and> sector_buffer t = sector_buffer s \<and> dati t 1 = ucast (sector_buffer s ! (transfer_byte_idx s + 1))"
  using assms
  by (simp add: transferring_def rx_on_after_register_access_def rxdb_after_read_def program_complete_def step_current_def
      get_transfer_buffer_def get_transfer_byte_count_def Let_def)

lemma empty_last_byte:
  assumes "transferring EMPTY_BUFFER [Step_done] u s" "transfer_byte_idx s = 127"
  shows "\<exists>t w. rx_event_step (RX_read 1) s = Some t \<and> rx_run [RX_worker, RX_worker, RX_worker] t = Some w \<and> rx_ready w \<and> \<not> signal_error w"
proof -
  obtain p where p: "program_steps s = [p, Step_done]" using assms(1) by (cases "program_steps s") (auto simp: transferring_def)
  show ?thesis using assms p
    by (simp add: transferring_def rx_on_after_register_access_def rxdb_after_read_def program_complete_def step_current_def
      get_transfer_buffer_def get_transfer_byte_count_def Let_def ucpu_signal_def ucpu_worker_step_def step_next_def
      check_signal_error_def step_done_def rx_ready_def)
qed

lemma empty_bytes:
  assumes "transferring EMPTY_BUFFER [Step_done] u s" "transfer_byte_idx s + n = 128" "0 < n"
    "dati s 1 = ucast (sector_buffer s ! transfer_byte_idx s)"
  shows "\<exists>t w. read_bytes n s = Some (map ucast (drop (transfer_byte_idx s) (take 128 (sector_buffer s))), t) \<and>
    rx_run [RX_worker, RX_worker, RX_worker] t = Some w \<and> rx_ready w \<and> \<not> signal_error w"
  using assms
proof (induction n arbitrary: s)
  case (Suc n)
  have l: "length (sector_buffer s) = 256" using Suc.prems(1) by (simp add: transferring_def)
  let ?b = "take 128 (sector_buffer s)"
  have h: "drop (transfer_byte_idx s) ?b = sector_buffer s ! transfer_byte_idx s # drop (transfer_byte_idx s + 1) ?b"
    using Cons_nth_drop_Suc [of "transfer_byte_idx s" ?b] l Suc.prems(2) by simp
  show ?case
  proof (cases "n = 0")
    case True
    then have i: "transfer_byte_idx s = 127" using Suc.prems(2) by simp
    obtain t w where t: "rx_event_step (RX_read 1) s = Some t" "rx_run [RX_worker, RX_worker, RX_worker] t = Some w" "rx_ready w"
      "\<not> signal_error w" using empty_last_byte [OF Suc.prems(1) i] by blast
    have "drop (transfer_byte_idx s + 1) ?b = []" using i by simp
    then have "read_bytes (Suc n) s = Some (map ucast (drop (transfer_byte_idx s) ?b), t)"
      using True Suc.prems(4) h t(1) by (simp del: rx_event_step.simps)
    then show ?thesis using t(2-4) by blast
  next
    case False
    then have i: "transfer_byte_idx s + 1 < 128" using Suc.prems(2) by simp
    obtain t where t: "rx_event_step (RX_read 1) s = Some t" "transferring EMPTY_BUFFER [Step_done] u t"
      "transfer_byte_idx t = transfer_byte_idx s + 1" "sector_buffer t = sector_buffer s"
      "dati t 1 = ucast (sector_buffer s ! (transfer_byte_idx s + 1))" using empty_byte [OF Suc.prems(1) i] by blast
    obtain v w where v: "read_bytes n t = Some (map ucast (drop (transfer_byte_idx t) (take 128 (sector_buffer t))), v)"
      "rx_run [RX_worker, RX_worker, RX_worker] v = Some w" "rx_ready w" "\<not> signal_error w"
      using Suc.IH [OF t(2)] t(3-5) Suc.prems(2) False by (auto simp del: rx_run.simps)
    have "read_bytes (Suc n) s = Some (map ucast (drop (transfer_byte_idx s) ?b), v)"
      using t(1,3,4) h Suc.prems(4) v(1) by (simp del: rx_event_step.simps)
    then show ?thesis using v(2-4) by blast
  qed
qed simp

subsection \<open>The head\<close>

lemma seek_outward_ends: "0 < inc \<Longrightarrow> seek_outward inc track cyl = Some (max track cyl)"
proof (induction "track - cyl" arbitrary: cyl rule: less_induct)
  case less
  show ?case
  proof (cases "cyl < track")
    case True
    let ?c = "if track \<le> cyl + inc then track else cyl + inc"
    have "track - ?c < track - cyl" using True less.prems by auto
    from less.hyps [OF this less.prems] show ?thesis using True by (subst seek_outward.simps) (auto simp: max_def)
  qed (subst seek_outward.simps, simp)
qed

lemma seek_inward_ends: "0 < inc \<Longrightarrow> seek_inward inc track cyl = Some (min track cyl)"
proof (induction "cyl - track" arbitrary: cyl rule: less_induct)
  case less
  show ?case
  proof (cases "track < cyl")
    case True
    let ?c = "if cyl - track \<le> inc then track else cyl - inc"
    have "?c - track < cyl - track" using True less.prems by auto
    from less.hyps [OF this less.prems] show ?thesis using True by (subst seek_inward.simps) (auto simp: min_def)
  qed (subst seek_inward.simps, simp)
qed

text \<open>A head that does not move in 10 ms never arrives: the loop has no result.\<close>

lemma seek_without_speed: "cyl < track \<Longrightarrow> seek_outward 0 track cyl \<noteq> Some c"
proof
  assume lt: "cyl < track" and s: "seek_outward 0 track cyl = Some c"
  have "\<not> cyl < track"
    by (rule seek_outward.raw_induct [where P = "\<lambda>i t k c. i = 0 \<longrightarrow> \<not> k < t", OF _ s, rule_format]) (auto split: if_splits)
  with lt show False by simp
qed

subsection \<open>A sector command\<close>

definition sector_address_ok :: "nat \<Rightarrow> nat \<Rightarrow> bool" where
  "sector_address_ok track sector \<longleftrightarrow> track < 77 \<and> 1 \<le> sector \<and> sector \<le> 26 \<and> (track, sector) \<noteq> (76, 26)"

text \<open>The worker is about to move the sector.\<close>

definition at_sector :: "rx_step \<Rightarrow> nat \<Rightarrow> nat \<Rightarrow> nat \<Rightarrow> rx11 \<Rightarrow> bool" where
  "at_sector p u track sector s \<longleftrightarrow> rx_worker_at s = RXW_running \<and> rx_blocked s = Not_blocked \<and> rx_power_switch s \<and>
     program_steps s \<noteq> [] \<and> tl (program_steps s) = sector_program p \<and> rx_program_counter s = 3 \<and> \<not> program_function_density s \<and>
     \<not> signal_error s \<and> rxta s = of_nat track \<and> rxsa s = of_nat sector \<and> signal_selected_drive_unitno s = u \<and> length (sector_buffer s) = 256"

definition address_events :: "nat \<Rightarrow> nat \<Rightarrow> rx_event list" where
  "address_events track sector = [RX_write 1 (of_nat sector), RX_write 1 (of_nat track), RX_worker, RX_worker, RX_worker]"

lemma small_address:
  assumes "sector_address_ok track sector"
  shows "(of_nat sector :: u16) AND 0x1f = of_nat sector" "(of_nat track :: u16) AND 0x7f = of_nat track"
    "unat (of_nat sector :: u16) = sector" "unat (of_nat track :: u16) = track"
proof -
  have b: "sector < 2 ^ 5" "track < 2 ^ 7" using assms by (auto simp: sector_address_ok_def)
  have m: "(0x1f :: u16) = mask 5" "(0x7f :: u16) = mask 7" by (simp_all add: mask_eq_exp_minus_1)
  show u: "unat (of_nat sector :: u16) = sector" "unat (of_nat track :: u16) = track" using b by (simp_all add: unat_of_nat)
  show "(of_nat sector :: u16) AND 0x1f = of_nat sector" unfolding m
    by (simp only: take_bit_eq_mask [symmetric] word_unat_eq_iff unsigned_take_bit_eq u) (use b in \<open>simp add: take_bit_nat_eq_self\<close>)
  show "(of_nat track :: u16) AND 0x7f = of_nat track" unfolding m
    by (simp only: take_bit_eq_mask [symmetric] word_unat_eq_iff unsigned_take_bit_eq u) (use b in \<open>simp add: take_bit_nat_eq_self\<close>)
qed

lemma address_sent:
  assumes "transferring f (sector_program p) u s" "f = READ_SECTOR \<or> f = WRITE_SECTOR" "transfer_byte_idx s = 0"
    "sector_address_ok track sector" "0 < fd_trackmove (rx_drives s u)"
  shows "\<exists>t. rx_run (address_events track sector) s = Some t \<and> at_sector p u track sector t \<and> sector_buffer t = sector_buffer s \<and>
    deleted_data_mark t = deleted_data_mark s \<and> rx_drives t = (rx_drives s)(u := (rx_drives s u)\<lparr>fd_cylinder := track\<rparr>)"
proof -
  obtain x where x: "program_steps s = x # sector_program p" using assms(1) by (cases "program_steps s") (auto simp: transferring_def)
  have a: "(of_nat sector :: u16) AND 0x1f = of_nat sector" "(of_nat track :: u16) AND 0x7f = of_nat track"
    "unat (of_nat sector :: u16) = sector" "unat (of_nat track :: u16) = track" using small_address [OF assms(4)] .
  have b: "\<not> (of_nat sector :: u16) < 1" "sector \<le> 26" "track < 77" "track < 256"
    using assms(4) a(3) by (auto simp: sector_address_ok_def word_less_nat_alt)
  let ?d = "rx_drives s u"
  have c: "seek_outward (fd_trackmove ?d) track (fd_cylinder ?d) = Some (max track (fd_cylinder ?d))"
    "seek_inward (fd_trackmove ?d) track (max track (fd_cylinder ?d)) = Some track"
    using seek_outward_ends [OF assms(5)] seek_inward_ends [OF assms(5)] by simp_all
  show ?thesis using assms(1-3) x a b c
    by (auto simp: transferring_def address_events_def rx_on_after_register_access_def rxdb_after_write_def program_complete_def step_current_def
        get_transfer_buffer_def get_transfer_byte_count_def Let_def write_disk_address_def fd_sector_count_def fd_cylinder_count_def upd_es_def
        ucpu_signal_def ucpu_worker_step_def step_next_def check_signal_error_def sector_program_def pgmstep_seek_def rx_selected_drive_def
        upd_selected_def at_sector_def)
qed

subsection \<open>Sectors\<close>

text \<open>A floppy in the drive: a writable image of all tracks, or of all but track 0.\<close>

definition fd_image_size :: "floppy \<Rightarrow> nat" where "fd_image_size d = (if fd_imagetrack0 d then 77 else 76) * 26 * 128"

definition fd_usable :: "floppy \<Rightarrow> bool" where
  "fd_usable d \<longleftrightarrow> (case fd_image d of None \<Rightarrow> False | Some f \<Rightarrow> image_holds (fd_image_size d) (Binfile f)) \<and>
     0 < fd_trackmove d \<and> length (fd_marks d) = 77 * 26"

text \<open>The place of a sector in the image; without track 0 in the image its sectors have none.\<close>

definition fd_offset :: "floppy \<Rightarrow> nat \<Rightarrow> nat \<Rightarrow> nat" where
  "fd_offset d track sector = get_sector_image_offset (if fd_imagetrack0 d then track else track - 1) sector"

definition fd_has_track :: "floppy \<Rightarrow> nat \<Rightarrow> bool" where "fd_has_track d track \<longleftrightarrow> fd_imagetrack0 d \<or> 0 < track"

definition fd_in_sector :: "floppy \<Rightarrow> nat \<Rightarrow> nat \<Rightarrow> nat \<Rightarrow> bool" where
  "fd_in_sector d track sector p \<longleftrightarrow> fd_has_track d track \<and> fd_offset d track sector \<le> p \<and> p < fd_offset d track sector + 128"

definition fd_byte :: "floppy \<Rightarrow> nat \<Rightarrow> u8" where
  "fd_byte d p = (case fd_image d of None \<Rightarrow> 0 | Some f \<Rightarrow> image_byte (Binfile f) p)"

text \<open>The bytes of a sector; a track that the image does not contain reads as zeros.\<close>

definition fd_sector_bytes :: "floppy \<Rightarrow> nat \<Rightarrow> nat \<Rightarrow> u8 list" where
  "fd_sector_bytes d track sector =
     (if fd_has_track d track then map (fd_byte d) [fd_offset d track sector..<fd_offset d track sector + 128] else replicate 128 0)"

definition fd_written :: "floppy \<Rightarrow> nat \<Rightarrow> nat \<Rightarrow> u8 list \<Rightarrow> floppy \<Rightarrow> bool" where
  "fd_written d track sector buf e \<longleftrightarrow> fd_usable e \<and> fd_imagetrack0 e = fd_imagetrack0 d \<and>
     fd_byte e = (\<lambda>p. if fd_in_sector d track sector p then buf ! (p - fd_offset d track sector) else fd_byte d p)"

lemma fd_sector_offset:
  assumes "sector_address_ok track sector"
  shows "fd_has_track d track \<Longrightarrow> fd_offset d track sector + 128 \<le> fd_image_size d" "mark_index track sector < 77 * 26"
  using assms
  by (auto simp: sector_address_ok_def fd_offset_def fd_has_track_def fd_image_size_def get_sector_image_offset_def mark_index_def
      fd_sector_count_def fd_sector_size_def)

lemma sector_offsets_apart:
  assumes "sector_address_ok t1 s1" "sector_address_ok t2 s2" "(t1, s1) \<noteq> (t2, s2)" "fd_in_sector d t1 s1 p"
  shows "\<not> fd_in_sector d t2 s2 p"
proof
  assume in2: "fd_in_sector d t2 s2 p"
  let ?u1 = "if fd_imagetrack0 d then t1 else t1 - 1" and ?u2 = "if fd_imagetrack0 d then t2 else t2 - 1"
  let ?a = "?u1 * 26 + (s1 - 1)" and ?b = "?u2 * 26 + (s2 - 1)"
  have s: "s1 - 1 < 26" "s2 - 1 < 26" "1 \<le> s1" "1 \<le> s2" using assms(1,2) by (auto simp: sector_address_ok_def)
  have p: "?a * 128 \<le> p" "p < ?a * 128 + 128" "?b * 128 \<le> p" "p < ?b * 128 + 128"
    using assms(4) in2 by (simp_all add: fd_in_sector_def fd_offset_def get_sector_image_offset_def fd_sector_count_def fd_sector_size_def)
  have "p div 128 = ?a" "p div 128 = ?b" by (rule div_nat_eqI; use p in simp)+
  then have "?a = ?b" by simp
  then have "?a div 26 = ?b div 26" "?a mod 26 = ?b mod 26" by simp_all
  then have "?u1 = ?u2" "s1 - 1 = s2 - 1" using s(1,2) by simp_all
  then show False using assms(3,4) in2 s(3,4) by (auto simp: fd_in_sector_def fd_has_track_def split: if_splits)
qed

lemma fd_usable_image:
  assumes "fd_usable d"
  obtains f where "fd_image d = Some f" "image_holds (fd_image_size d) (Binfile f)" "0 < fd_trackmove d" "length (fd_marks d) = 77 * 26"
    "f_open f" "\<not> f_readonly f" "fd_byte d = image_byte (Binfile f)"
proof -
  obtain f where f: "fd_image d = Some f" "image_holds (fd_image_size d) (Binfile f)" "0 < fd_trackmove d" "length (fd_marks d) = 77 * 26"
    using assms by (auto simp: fd_usable_def split: option.splits)
  moreover have "f_open f" "\<not> f_readonly f" using f(2) by simp_all
  moreover have "fd_byte d = image_byte (Binfile f)" using f(1) by (simp add: fd_byte_def fun_eq_iff)
  ultimately show thesis by (rule that)
qed

lemma sector_address_in_range:
  "sector_address_ok track sector \<Longrightarrow> \<not> fd_cylinder_count \<le> track \<and> \<not> sector < 1 \<and> \<not> fd_sector_count < sector"
  by (auto simp: sector_address_ok_def fd_cylinder_count_def fd_sector_count_def)

lemma fd_write_writes:
  assumes "fd_usable d" "sector_address_ok track sector" "128 \<le> length buf"
  shows "\<exists>e. fd_sector_write buf m track sector d = Some (True, e) \<and> fd_written d track sector buf e"
proof -
  obtain f where f: "fd_image d = Some f" "image_holds (fd_image_size d) (Binfile f)" "0 < fd_trackmove d" "length (fd_marks d) = 77 * 26"
    "f_open f" "\<not> f_readonly f" "fd_byte d = image_byte (Binfile f)" using fd_usable_image [OF assms(1)] .
  note a = sector_address_in_range [OF assms(2)]
  note o = fd_sector_offset [OF assms(2)]
  let ?d = "d\<lparr>error_illegal_track := False, error_illegal_sector := False, fd_marks := (fd_marks d)[mark_index track sector := m]\<rparr>"
  show ?thesis
  proof (cases "fd_has_track d track")
    case False
    then have "fd_sector_write buf m track sector d = Some (True, ?d)" using a f(1,4,5,6) o(2)
      by (simp add: fd_sector_write_def check_disk_address_def Let_def fd_check_ready_def set_mark_def fd_has_track_def)
    moreover have "fd_written d track sector buf ?d" using False f(1-4)
      by (simp add: fd_written_def fd_in_sector_def fd_usable_def fd_image_size_def fd_byte_def fun_eq_iff del: image_holds.simps)
    ultimately show ?thesis by blast
  next
    case True
    define off where "off = fd_offset d track sector"
    have b: "length (take 128 buf) = 128" using assms(3) by simp
    have n: "take 128 buf \<noteq> []" using b by (metis list.size(3) zero_neq_numeral)
    have h: "image_holds (off + length (take 128 buf)) (Binfile f)"
      by (rule img.holds_mono [OF f(2)]) (use o(1) [OF True] b in \<open>simp add: off_def\<close>)
    obtain t where t: "image_write (take 128 buf) off (Binfile f) = Some t" "\<forall>n. image_holds n (Binfile f) \<longrightarrow> image_holds n t"
      "image_byte t = (\<lambda>p. if off \<le> p \<and> p < off + length (take 128 buf) then take 128 buf ! (p - off) else image_byte (Binfile f) p)"
      using img.write_ok [OF h n] by blast
    obtain g where g: "t = Binfile g" "binfile_write (take 128 buf) off f = Some g" using t(1) by auto
    have hg: "image_holds (fd_image_size d) (Binfile g)" using t(2) f(2) g(1) by blast
    let ?e = "?d\<lparr>fd_image := Some g\<rparr>"
    have "fd_sector_write buf m track sector d = Some (True, ?e)"
      using True a f(1,4,5,6) o(2) g(2)
      by (auto simp: fd_sector_write_def check_disk_address_def Let_def fd_check_ready_def set_mark_def fd_sector_size_def fd_has_track_def
          off_def fd_offset_def)
    moreover have "fd_usable ?e" using f(3,4) hg by (simp add: fd_usable_def fd_image_size_def del: image_holds.simps)
    moreover have "fd_byte ?e = (\<lambda>p. if fd_in_sector d track sector p then buf ! (p - fd_offset d track sector) else fd_byte d p)"
      using t(3) b True unfolding g(1) f(7) by (auto simp: fd_byte_def fun_eq_iff fd_in_sector_def off_def)
    ultimately show ?thesis by (intro exI [of _ ?e]) (simp add: fd_written_def)
  qed
qed

lemma fd_read_reads:
  assumes "fd_usable d" "sector_address_ok track sector"
  shows "\<exists>m e. fd_sector_read track sector d = Some (Some (fd_sector_bytes d track sector, m), e)"
proof -
  obtain f where f: "fd_image d = Some f" "image_holds (fd_image_size d) (Binfile f)" "0 < fd_trackmove d" "length (fd_marks d) = 77 * 26"
    "f_open f" "\<not> f_readonly f" "fd_byte d = image_byte (Binfile f)" using fd_usable_image [OF assms(1)] .
  note a = sector_address_in_range [OF assms(2)]
  note o = fd_sector_offset [OF assms(2)]
  show ?thesis
  proof (cases "fd_has_track d track")
    case False
    then show ?thesis using a f(1,4,5) o(2)
      by (simp add: fd_sector_read_def check_disk_address_def Let_def fd_check_ready_def get_mark_def fd_sector_bytes_def fd_has_track_def
          fd_sector_size_def)
  next
    case True
    define off where "off = fd_offset d track sector"
    have h: "image_holds (off + 128) (Binfile f)" by (rule img.holds_mono [OF f(2)]) (use o(1) [OF True] in \<open>simp add: off_def\<close>)
    have r: "binfile_read off 128 f = Some (map (image_byte (Binfile f)) [off..<off + 128], f)" using img.read_ok [OF h] by auto
    have b: "fd_sector_bytes d track sector = map (image_byte (Binfile f)) [off..<off + 128]"
      unfolding fd_sector_bytes_def off_def [symmetric] f(7) using True by (simp only: if_True)
    show ?thesis unfolding b using True a f(1,4,5) o(2) r
      by (auto simp: fd_sector_read_def check_disk_address_def Let_def fd_check_ready_def get_mark_def fd_sector_size_def fd_has_track_def
          off_def fd_offset_def)
  qed
qed

text \<open>The command that writes the buffer to a sector.\<close>

definition write_sector_command :: "nat \<Rightarrow> nat \<Rightarrow> nat \<Rightarrow> rx_event list" where
  "write_sector_command u track sector =
     [RX_write 0 (command_word u 2), RX_worker, RX_worker] @ address_events track sector @ [RX_worker, RX_worker, RX_worker]"

definition read_sector_command :: "nat \<Rightarrow> nat \<Rightarrow> nat \<Rightarrow> rx_event list" where
  "read_sector_command u track sector =
     [RX_write 0 (command_word u 3), RX_worker, RX_worker] @ address_events track sector @ [RX_worker, RX_worker, RX_worker]"

lemma sector_written:
  assumes "at_sector Step_sector_write u track sector s" "fd_usable (rx_drives s u)" "sector_address_ok track sector"
  shows "\<exists>t. rx_run [RX_worker, RX_worker, RX_worker] s = Some t \<and> rx_ready t \<and> \<not> signal_error t \<and>
    fd_written (rx_drives s u) track sector (sector_buffer s) (rx_drives t u)"
proof -
  have l: "128 \<le> length (sector_buffer s)" using assms(1) by (simp add: at_sector_def)
  obtain e where e: "fd_sector_write (sector_buffer s) (deleted_data_mark s) track sector (rx_drives s u) = Some (True, e)"
    "fd_written (rx_drives s u) track sector (sector_buffer s) e" using fd_write_writes [OF assms(2,3) l] by blast
  obtain x where x: "program_steps s = x # sector_program Step_sector_write" using assms(1) by (cases "program_steps s") (auto simp: at_sector_def)
  show ?thesis using assms(1) x e small_address(3,4) [OF assms(3)]
    by (simp add: at_sector_def sector_program_def ucpu_worker_step_def step_current_def step_next_def check_signal_error_def step_sector_write_def
        rx_selected_drive_def Let_def upd_selected_def step_done_def rx_ready_def)
qed

lemma fd_sector_bytes_length [simp]: "length (fd_sector_bytes d track sector) = 128"
  by (simp add: fd_sector_bytes_def)

lemma sector_read:
  assumes "at_sector Step_sector_read u track sector s" "fd_usable (rx_drives s u)" "sector_address_ok track sector"
  shows "\<exists>t. rx_run [RX_worker, RX_worker, RX_worker] s = Some t \<and> rx_ready t \<and> \<not> signal_error t \<and>
    take 128 (sector_buffer t) = fd_sector_bytes (rx_drives s u) track sector"
proof -
  obtain m e where e: "fd_sector_read track sector (rx_drives s u) = Some (Some (fd_sector_bytes (rx_drives s u) track sector, m), e)"
    using fd_read_reads [OF assms(2,3)] by blast
  obtain x where x: "program_steps s = x # sector_program Step_sector_read" using assms(1) by (cases "program_steps s") (auto simp: at_sector_def)
  show ?thesis using assms(1) x e small_address(3,4) [OF assms(3)]
    by (simp add: at_sector_def sector_program_def ucpu_worker_step_def step_current_def step_next_def check_signal_error_def step_sector_read_def
        rx_selected_drive_def Let_def upd_selected_def step_done_def rx_ready_def)
qed

text \<open>A seek changes nothing of the floppy.\<close>

lemma fd_moved [simp]:
  "fd_usable (d\<lparr>fd_cylinder := c\<rparr>) = fd_usable d" "fd_byte (d\<lparr>fd_cylinder := c\<rparr>) = fd_byte d"
  "fd_sector_bytes (d\<lparr>fd_cylinder := c\<rparr>) = fd_sector_bytes d"
  "fd_written (d\<lparr>fd_cylinder := c\<rparr>) = fd_written d"
  by (simp_all add: fun_eq_iff fd_usable_def fd_image_size_def fd_byte_def fd_sector_bytes_def fd_written_def fd_in_sector_def fd_has_track_def
      fd_offset_def split: option.split)

lemma sector_command_writes:
  assumes "rx_ready s" "u < 2" "fd_usable (rx_drives s u)" "sector_address_ok track sector"
  shows "\<exists>t. rx_run (write_sector_command u track sector) s = Some t \<and> rx_ready t \<and> \<not> signal_error t \<and>
    fd_written (rx_drives s u) track sector (sector_buffer s) (rx_drives t u)"
proof -
  obtain a where a: "rx_run [RX_write 0 (command_word u 2), RX_worker, RX_worker] s = Some a"
    "transferring WRITE_SECTOR (sector_program Step_sector_write) u a" "transfer_byte_idx a = 0" "rx_drives a = rx_drives s"
    "sector_buffer a = sector_buffer s" using start_write_sector [OF assms(1,2)] by blast
  have m: "0 < fd_trackmove (rx_drives a u)" using assms(3) a(4) by (simp add: fd_usable_def)
  obtain b where b: "rx_run (address_events track sector) a = Some b" "at_sector Step_sector_write u track sector b"
    "sector_buffer b = sector_buffer a" "rx_drives b = (rx_drives a)(u := (rx_drives a u)\<lparr>fd_cylinder := track\<rparr>)"
    using address_sent [OF a(2) disjI2 [OF refl] a(3) assms(4) m] by blast
  have d: "fd_usable (rx_drives b u)" using assms(3) b(4) a(4) by simp
  from sector_written [OF b(2) d assms(4)] obtain t where t: "rx_run [RX_worker, RX_worker, RX_worker] b = Some t" "rx_ready t" "\<not> signal_error t"
    "fd_written (rx_drives b u) track sector (sector_buffer b) (rx_drives t u)" by blast
  have "rx_run (write_sector_command u track sector) s = Some t"
    unfolding write_sector_command_def rx_run_append a(1) using b(1) t(1) by (simp add: rx_run_append del: rx_run.simps)
  then show ?thesis using t a(4,5) b(3,4) by auto
qed

lemma sector_command_reads:
  assumes "rx_ready s" "u < 2" "fd_usable (rx_drives s u)" "sector_address_ok track sector"
  shows "\<exists>t. rx_run (read_sector_command u track sector) s = Some t \<and> rx_ready t \<and> \<not> signal_error t \<and>
    take 128 (sector_buffer t) = fd_sector_bytes (rx_drives s u) track sector"
proof -
  obtain a where a: "rx_run [RX_write 0 (command_word u 3), RX_worker, RX_worker] s = Some a"
    "transferring READ_SECTOR (sector_program Step_sector_read) u a" "transfer_byte_idx a = 0" "rx_drives a = rx_drives s"
    using start_read_sector [OF assms(1,2)] by blast
  have m: "0 < fd_trackmove (rx_drives a u)" using assms(3) a(4) by (simp add: fd_usable_def)
  obtain b where b: "rx_run (address_events track sector) a = Some b" "at_sector Step_sector_read u track sector b"
    "rx_drives b = (rx_drives a)(u := (rx_drives a u)\<lparr>fd_cylinder := track\<rparr>)"
    using address_sent [OF a(2) disjI1 [OF refl] a(3) assms(4) m] by blast
  have d: "fd_usable (rx_drives b u)" using assms(3) b(3) a(4) by simp
  from sector_read [OF b(2) d assms(4)] obtain t where t: "rx_run [RX_worker, RX_worker, RX_worker] b = Some t" "rx_ready t" "\<not> signal_error t"
    "take 128 (sector_buffer t) = fd_sector_bytes (rx_drives b u) track sector" by blast
  have "rx_run (read_sector_command u track sector) s = Some t"
    unfolding read_sector_command_def rx_run_append a(1) using b(1) t(1) by (simp add: rx_run_append del: rx_run.simps)
  then show ?thesis using t a(4) b(3) by auto
qed

text \<open>What is written to a sector stays there while other sectors are written.\<close>

lemma written_stays:
  assumes "fd_written d t1 s1 buf e" "fd_written e t2 s2 buf2 f" "sector_address_ok t1 s1" "sector_address_ok t2 s2" "(t1, s1) \<noteq> (t2, s2)"
    "128 \<le> length buf"
  shows "fd_sector_bytes f t1 s1 = (if fd_has_track d t1 then take 128 buf else replicate 128 0)"
proof -
  have i: "fd_imagetrack0 e = fd_imagetrack0 d" "fd_imagetrack0 f = fd_imagetrack0 d" using assms(1,2) by (simp_all add: fd_written_def)
  then have o: "fd_offset f t1 s1 = fd_offset d t1 s1" "fd_has_track f t1 = fd_has_track d t1" "fd_in_sector e t1 s1 = fd_in_sector d t1 s1"
    by (simp_all add: fd_offset_def fd_has_track_def fd_in_sector_def fun_eq_iff)
  have "fd_byte f p = buf ! (p - fd_offset d t1 s1)" if "fd_in_sector d t1 s1 p" for p
  proof -
    have "\<not> fd_in_sector e t2 s2 p" by (rule sector_offsets_apart [OF assms(3-5)]) (use that o(3) in simp)
    then show ?thesis using assms(1,2) that by (simp add: fd_written_def)
  qed
  then show ?thesis using assms(6)
    by (auto simp: fd_sector_bytes_def o(1,2) fd_in_sector_def intro!: nth_equalityI)
qed

text \<open>The host has sector bytes of its own written to two sectors, and reads back the first one.\<close>

definition two_sectors :: "nat \<Rightarrow> u8 list \<Rightarrow> nat \<Rightarrow> nat \<Rightarrow> u8 list \<Rightarrow> nat \<Rightarrow> nat \<Rightarrow> rx_event list list" where
  "two_sectors u bs t1 s1 cs t2 s2 =
     [fill_command u bs, write_sector_command u t1 s1, fill_command u cs, write_sector_command u t2 s2, read_sector_command u t1 s1,
      [RX_write 0 (command_word u 1), RX_worker, RX_worker]]"

text \<open>
  Property C21. A floppy keeps its sectors: 128 bytes sent through RXDB and written to a sector are, after any other bytes
  have been written to any other sector, read from the sector and returned through RXDB. Each of the commands ends without an
  error, and after the last byte the box is ready for the next one. It holds for all
  tracks and sectors but the last sector of the floppy, on both drives, wherever the heads are, for a box that waits for a
  command and a drive with a writable image of all tracks and a positive speed. When imagetrack0 is switched off the image has all
  tracks but track 0: then it holds for the other tracks, and a sector of track 0 reads as zeros.
\<close>

theorem floppy_keeps_sectors:
  assumes "rx_ready s" "u < 2" "fd_usable (rx_drives s u)" "sector_address_ok t1 s1" "sector_address_ok t2 s2" "(t1, s1) \<noteq> (t2, s2)"
    "length bs = 128" "length cs = 128"
  shows "\<exists>t v w. rx_commands (two_sectors u bs t1 s1 cs t2 s2) s = Some t \<and>
    read_bytes 128 t = Some (if fd_imagetrack0 (rx_drives s u) \<or> 0 < t1 then map ucast bs else replicate 128 0, v) \<and>
    rx_run [RX_worker, RX_worker, RX_worker] v = Some w \<and> rx_ready w \<and> \<not> signal_error w"
proof -
  obtain a where a: "rx_run (fill_command u bs) s = Some a" "rx_ready a" "\<not> signal_error a" "rx_drives a = rx_drives s"
    "sector_buffer a = bs @ replicate 128 0" using fill_fills [OF assms(1,2,7)] by blast
  have "fd_usable (rx_drives a u)" using assms(3) a(4) by simp
  from sector_command_writes [OF a(2) assms(2) this assms(4)] obtain b where b: "rx_run (write_sector_command u t1 s1) a = Some b"
    "rx_ready b" "\<not> signal_error b" "fd_written (rx_drives a u) t1 s1 (sector_buffer a) (rx_drives b u)" by blast
  obtain c where c: "rx_run (fill_command u cs) b = Some c" "rx_ready c" "\<not> signal_error c" "rx_drives c = rx_drives b"
    using fill_fills [OF b(2) assms(2,8)] by blast
  have "fd_usable (rx_drives c u)" using b(4) c(4) by (simp add: fd_written_def)
  from sector_command_writes [OF c(2) assms(2) this assms(5)] obtain d where d: "rx_run (write_sector_command u t2 s2) c = Some d"
    "rx_ready d" "\<not> signal_error d" "fd_written (rx_drives c u) t2 s2 (sector_buffer c) (rx_drives d u)" by blast
  have "fd_usable (rx_drives d u)" using d(4) by (simp add: fd_written_def)
  from sector_command_reads [OF d(2) assms(2) this assms(4)] obtain e where e: "rx_run (read_sector_command u t1 s1) d = Some e"
    "rx_ready e" "\<not> signal_error e" "take 128 (sector_buffer e) = fd_sector_bytes (rx_drives d u) t1 s1" by blast
  have "take 128 (sector_buffer e) = (if fd_has_track (rx_drives s u) t1 then bs else replicate 128 0)"
    using written_stays [OF b(4) d(4) [unfolded c(4)] assms(4-6)] e(4) a(4,5) assms(7) by simp
  then have buf: "map ucast (take 128 (sector_buffer e)) = (if fd_has_track (rx_drives s u) t1 then map ucast bs else replicate 128 (0 :: u16))"
    by simp
  obtain f where f: "rx_run [RX_write 0 (command_word u 1), RX_worker, RX_worker] e = Some f" "transferring EMPTY_BUFFER [Step_done] u f"
    "transfer_byte_idx f = 0" "sector_buffer f = sector_buffer e" "dati f 1 = ucast (sector_buffer e ! 0)" using start_empty [OF e(2) assms(2)] by blast
  have "\<not> signal_error f" using f(2) by (simp add: transferring_def)
  then have "rx_commands (two_sectors u bs t1 s1 cs t2 s2) s = Some f"
    using a(1,3) b(1,3) c(1,3) d(1,3) e(1,3) f(1) by (simp add: two_sectors_def del: rx_run.simps)
  moreover obtain v w where "read_bytes 128 f = Some (map ucast (take 128 (sector_buffer e)), v)"
    "rx_run [RX_worker, RX_worker, RX_worker] v = Some w" "rx_ready w" "\<not> signal_error w"
    using empty_bytes [OF f(2), of 128] f(3-5) by (auto simp del: rx_run.simps)
  ultimately show ?thesis unfolding buf fd_has_track_def by blast
qed

definition sample_floppy :: floppy where
  "sample_floppy = \<lparr>fd_cylinder = 40, fd_image = Some (opened_binfile (replicate (77 * 26 * 128) 0) False), fd_imagetrack0 = True,
     fd_marks = replicate (77 * 26) False, fd_trackmove = 2, error_illegal_track = False, error_illegal_sector = False\<rparr>"

definition sample_rx11 :: rx11 where
  "sample_rx11 = \<lparr>dati = (\<lambda>_. 0), dato = (\<lambda>_. 0), program_steps = [], rx_program_counter = 0, program_function_code = READ_STATUS,
     program_function_density = False, rxta = 0, rxsa = 0, rxes = 0, extended_status = (\<lambda>_. 0), sector_buffer = replicate 256 0,
     transfer_has_buffer = False, transfer_byte_count = 0, transfer_byte_idx = 0, deleted_data_mark = False, rx_power_switch = True,
     signal_selected_drive_unitno = 0, signal_function_code = READ_STATUS, signal_function_density = False, rx_initializing = False,
     signal_done = True, signal_error = False, signal_transfer_request = False, rxdb = 0, rx_drives = (\<lambda>_. sample_floppy),
     rx_worker_at = RXW_idle, rx_woken = False, rx_blocked = Not_blocked, rx_interrupt_enable = False, interrupt_condition_prev = False,
     rx_pending = False, rx_line_INIT = False\<rparr>"

lemma sample_floppy_usable: "fd_usable sample_floppy"
  by (simp add: fd_usable_def fd_image_size_def sample_floppy_def opened_binfile_def)

theorem floppy_keeps_sectors_witness:
  "\<exists>t v w. rx_commands (two_sectors 1 (replicate 128 7) 1 26 (replicate 128 9) 2 1) sample_rx11 = Some t \<and>
    read_bytes 128 t = Some (replicate 128 7, v) \<and> rx_run [RX_worker, RX_worker, RX_worker] v = Some w \<and> rx_ready w \<and> \<not> signal_error w"
proof -
  have r: "rx_ready sample_rx11" "fd_usable (rx_drives sample_rx11 1)" using sample_floppy_usable by (simp_all add: rx_ready_def sample_rx11_def)
  have a: "sector_address_ok 1 26" "sector_address_ok 2 1" "(1 :: nat, 26 :: nat) \<noteq> (2, 1)" by (simp_all add: sector_address_ok_def)
  have l: "length (replicate 128 7 :: u8 list) = 128" "length (replicate 128 9 :: u8 list) = 128" by simp_all
  have u: "(1 :: nat) < 2" by simp
  have "map ucast (replicate 128 (7 :: u8)) = replicate 128 (7 :: u16)" unfolding map_replicate by simp
  moreover have "(fd_imagetrack0 (rx_drives sample_rx11 1) \<or> 0 < (1 :: nat)) = True" by simp
  ultimately show ?thesis using floppy_keeps_sectors [OF r(1) u r(2) a l] by (simp only: if_True)
qed

subsection \<open>What ends the program\<close>

text \<open>
  Property C22. The last sector of a floppy cannot be used: the table of the deleted data marks is indexed by the sector number,
  which counts from 1, so that moving sector 26 of track 76 accesses the table behind its end. A box that has come to the step that
  reads or writes this sector, for the table of 77 times 26 marks, leaves the table exactly when there is
  an open image and, for a write, the image is not read only; without one the step ends with an error, and a write to a read only image
  is ignored, before the table is used. The contents and the length of the image, the deleted data flag, the position of the head and imagetrack0 have no
  influence.
\<close>

theorem last_sector_out_of_bounds:
  assumes "at_sector p u 76 26 s" "p = Step_sector_read \<or> p = Step_sector_write" "length (fd_marks (rx_drives s u)) = 77 * 26"
  shows "rx_run [RX_worker] s = None \<longleftrightarrow>
    (case fd_image (rx_drives s u) of None \<Rightarrow> False | Some f \<Rightarrow> f_open f \<and> \<not> (p = Step_sector_write \<and> f_readonly f))"
proof -
  obtain x where x: "program_steps s = x # sector_program p" using assms(1) by (cases "program_steps s") (auto simp: at_sector_def)
  have a: "unat (76 :: u16) = 76" "unat (26 :: u16) = 26" by simp_all
  have r: "fd_sector_read 76 26 (rx_drives s u) = None \<longleftrightarrow> fd_check_ready (rx_drives s u)"
    using assms(3) by (auto simp: fd_sector_read_def check_disk_address_def fd_check_ready_def Let_def get_mark_def mark_index_def
        fd_sector_count_def fd_cylinder_count_def split: option.splits)
  have w: "fd_sector_write b m 76 26 (rx_drives s u) = None \<longleftrightarrow>
      (case fd_image (rx_drives s u) of None \<Rightarrow> False | Some f \<Rightarrow> f_open f \<and> \<not> f_readonly f)" for b m
    using assms(3) by (auto simp: fd_sector_write_def check_disk_address_def fd_check_ready_def Let_def set_mark_def mark_index_def
        fd_sector_count_def fd_cylinder_count_def split: option.splits)
  have "step_current s = Some p" using assms(1) x by (simp add: step_current_def at_sector_def sector_program_def)
  then have "rx_run [RX_worker] s = None \<longleftrightarrow> step_execute p s = None"
    using assms(1) by (auto simp: ucpu_worker_step_def at_sector_def split: bind_splits)
  also have "\<dots> \<longleftrightarrow> (if p = Step_sector_read then fd_sector_read 76 26 (rx_drives s u) = None
      else fd_sector_write (sector_buffer s) (deleted_data_mark s) 76 26 (rx_drives s u) = None)"
    using assms(1,2) a by (auto simp: at_sector_def step_sector_read_def step_sector_write_def rx_selected_drive_def Let_def
        split: bind_splits)
  also have "\<dots> \<longleftrightarrow> (case fd_image (rx_drives s u) of None \<Rightarrow> False | Some f \<Rightarrow> f_open f \<and> \<not> (p = Step_sector_write \<and> f_readonly f))"
    using assms(2) unfolding r w by (auto simp: fd_check_ready_def split: option.splits)
  finally show ?thesis .
qed

definition sample_last_sector :: rx11 where
  "sample_last_sector = sample_rx11\<lparr>rx_worker_at := RXW_running, program_steps := Step_transfer_buffer_write # sector_program Step_sector_read,
     rx_program_counter := 3, rxta := 76, rxsa := 26\<rparr>"

theorem last_sector_out_of_bounds_witness: "rx_run [RX_worker] sample_last_sector = None"
proof -
  have "at_sector Step_sector_read 0 76 26 sample_last_sector" by (simp add: at_sector_def sample_last_sector_def sample_rx11_def)
  moreover have "length (fd_marks (rx_drives sample_last_sector 0)) = 77 * 26"
    by (simp add: sample_last_sector_def sample_rx11_def sample_floppy_def)
  ultimately have "rx_run [RX_worker] sample_last_sector = None \<longleftrightarrow> (case fd_image (rx_drives sample_last_sector 0) of None \<Rightarrow> False
      | Some f \<Rightarrow> f_open f \<and> \<not> (Step_sector_read = Step_sector_write \<and> f_readonly f))"
    by (rule last_sector_out_of_bounds [OF _ disjI1 [OF refl]])
  then show ?thesis by (simp add: sample_last_sector_def sample_rx11_def sample_floppy_def opened_binfile_def del: rx_run.simps)
qed

text \<open>With the power off a command leaves the buffer of the last one in place: a byte for the buffer then finds none.\<close>

lemma command_without_power:
  assumes "transferring WRITE_SECTOR p u s" "transfer_byte_idx s = 0" "u < 2"
  shows "rx_run [RX_power_switch False, RX_write 0 (command_word u 0), RX_write 1 w] s = None"
  using assms command_word_bits [OF assms(3), of 0]
  by (simp add: transferring_def rx_power_switch_changed_def ucpu_set_powerless_def rx_on_after_register_access_def write_RXCS_def Let_def
      ucpu_go_def function_of_def rxdb_after_write_def program_complete_def step_current_def get_transfer_buffer_def get_transfer_byte_count_def)

text \<open>An INIT that interrupts a transfer loses the first step of its own program: the head is not moved to track 1.\<close>

lemma init_skips_seek:
  assumes "transferring f p u s"
  shows "\<exists>t. rx_run [RX_write 0 0x4000, RX_worker] s = Some t \<and> step_current t = Some Step_sector_read \<and> \<not> signal_error t"
  using assms
  by (simp add: transferring_def rx_on_after_register_access_def write_RXCS_def Let_def bit_numeral_rec ucpu_init_def init_signals_def
      clear_error_codes_def init_program_def load_program_def program_clear_def ucpu_worker_step_def check_signal_error_def step_next_def step_current_def)

end
