(* ===== verification/Spec2Isabelle.thy ===== *)
theory Spec2Isabelle
  imports Event_Worker KE11 RK11_Transfers Device_INTR CPU_Memory KT11D_Correct KD11EA_Arith KD11EA_Machine UDA_Reset MSCP_Correct RL11_Transfers RF11_Correct DL11W_Correct RX11_Transfers
begin

text \<open>
  A model of QUniBone, the program that emulates PDP-11 devices on a real UNIBUS or QBUS.
  Its ARM side (C++) holds the devices and the adapter between them and the bus; its PRU
  side (C, two small cores) drives the bus signals. They share a register table (the IO page)
  and a mailbox of commands and events.

  \<^bold>\<open>How the parts work together.\<close> A device object owns registers and request objects.
  \<^verbatim>\<open>register_device\<close> enters its registers into the shared table; a bus access to one of
  them is answered by the PRU from that table and, for an active register, reported as an
  event. The adapter's worker thread takes the events in rounds and calls the device. A device
  answers by setting register values, and by \<^verbatim>\<open>DMA\<close> and \<^verbatim>\<open>INTR\<close>, which put requests
  into the scheduler's slot tables; the lowest slot of a level is handed to the PRU, whose
  completion events take it out again.

  \<^bold>\<open>The theories.\<close>
  \<^item> \<open>Prelude\<close>: assertions as \<^theory_text>\<open>None\<close>, \<^verbatim>\<open>__builtin_ffs\<close>, word facts, copies into buffers.
  \<^item> \<open>Device_Registers\<close> (\<^verbatim>\<open>arm/qunibusdevice.cpp\<close>, \<^verbatim>\<open>shared/iopageregister.h\<close>, the first part of
    \<^verbatim>\<open>arm/qunibusadapter.cpp\<close>): registers, descriptors, plugging of devices and ROM cells.
    \<open>Register_Map\<close> has its invariant and shows that every address leads to one register, that
    plugging refuses conflicts without harm and that unplugging undoes it.
  \<^item> \<open>Priority_Requests\<close> (\<^verbatim>\<open>arm/priorityrequest.cpp\<close>, \<^verbatim>\<open>.hpp\<close>): request objects and edge detection.
  \<^item> \<open>Request_Scheduler\<close> (\<^verbatim>\<open>arm/qunibusadapter.cpp\<close>): slot tables, \<^verbatim>\<open>DMA\<close>, \<^verbatim>\<open>INTR\<close>, \<^verbatim>\<open>cancel_INTR\<close> and the
    completion events. \<open>Scheduler_Invariant\<close> shows that each operation keeps the tables
    consistent, \<open>Scheduler_Runs\<close> what holds in every run, which operations cannot fail an
    assertion, and what aborting and completing do.
  \<^item> \<open>Event_Worker\<close>: a round of the adapter's worker, with the devices' virtual functions as a
    parameter; separation of read and write values of active registers, order of the events.
  \<^item> \<open>Device_View\<close>: the registers as one device's logic sees them, an abstraction of
    \<open>Device_Registers\<close>.
  \<^item> \<open>KE11\<close> (\<^verbatim>\<open>10.02_devices/2_src/ke11.cpp\<close>): the arithmetic element, each operation against
    integer arithmetic.
  \<^item> \<open>Storage_Geometry\<close> (\<^verbatim>\<open>storagedrive_geometry.hpp\<close>): disk addresses.
  \<^item> \<open>Bus_Memory\<close>: memory on the bus and what a DMA promises its caller.
  \<^item> \<open>RK11\<close> (\<^verbatim>\<open>rk11.cpp\<close>, \<^verbatim>\<open>rk05.cpp\<close>): the disk controller and its drives; \<open>RK11_Correct\<close> its seek,
    disk address and transfer loop, \<open>RK11_Transfers\<close> what whole read, write and check functions do.
  \<^item> \<open>PRU_Registers\<close> (\<^verbatim>\<open>pru1_u/pru1_iopageregisters.c\<close>, \<^verbatim>\<open>pru1_statemachine_data_slave.c\<close>): the PRU's side
    of the IO page; a bus write arrives at the device as written, and the handshake of the slave.
  \<^item> \<open>PRU_Dma\<close> (\<^verbatim>\<open>pru1_u/pru1_statemachine_dma.c\<close>): the machine that transfers a mailbox chunk, on a bus
    with slaves that answer after some time or not at all.
  \<^item> \<open>Device_DMA\<close>: scheduler, DMA machine and worker together implement the contract of \<open>Bus_Memory\<close>.
  \<^item> \<open>PRU_Main\<close> (\<^verbatim>\<open>pru1_u/pru1_main_unibus.c\<close>, \<^verbatim>\<open>pru1_statemachine_arbitration.c\<close>, \<^verbatim>\<open>pru1_statemachine_intr_master.c\<close>,
    \<^verbatim>\<open>pru1_statemachine_intr_slave.c\<close>): arbitration, interrupt transactions and the main loop over all state machines of
    the PRU; \<open>PRU_Interrupts\<close> what the arbitrator grants, that no interrupt is sent without a request.
  \<^item> \<open>Device_INTR\<close>: scheduler, PRU and worker together bring a device's interrupt to an emulated CPU.
  \<^item> \<open>KA11\<close> (\<^verbatim>\<open>cpu20/ka11.c\<close>): the core of the 11/20; \<open>KA11_Arith\<close> its condition codes against integer
    arithmetic, \<open>KA11_Programs\<close> short instruction sequences, \<open>KA11_Memory\<close> what it relies on for memory
    (the locale \<open>cpu_memory\<close>), stack, traps and interrupts under that contract.
  \<^item> \<open>CPU_Memory\<close> (\<^verbatim>\<open>arm/ddrmem.cpp\<close>, \<^verbatim>\<open>cpu.cpp\<close>): emulated memory and the bus functions of the
    core, which provide the contract.
  \<^item> \<open>KT11D\<close> (\<^verbatim>\<open>cpu34/kt11d.c\<close>, \<^verbatim>\<open>kt11d.h\<close>): the memory management of the 11/34; \<open>KT11D_Correct\<close> shows
    that the descriptors it derives never go stale, relocation against the translation by the page
    registers, what aborts record, the registers.
  \<^item> \<open>KD11EA\<close> (\<^verbatim>\<open>cpu34/kd11ea.c\<close>): the core of the 11/34; \<open>KD11EA_Arith\<close> (with \<open>Signed_Words\<close>) its
    extended arithmetic, \<open>KD11EA_Modes\<close> what a user program cannot do and the trap loop of an odd kernel
    stack, \<open>KD11EA_Memory\<close> and \<open>KD11EA_Machine\<close> traps and interrupts under \<open>cpu_memory\<close>.
  \<^item> \<open>Storage_Image\<close> (\<^verbatim>\<open>storageimage.cpp\<close>): image files and images in memory, both with the contract
    \<open>image_store\<close>; \<open>MSCP_Drive\<close> (\<^verbatim>\<open>mscp_drive.cpp\<close>) the drives on them.
  \<^item> \<open>UDA_Rings\<close>, \<open>UDA\<close> (\<^verbatim>\<open>uda.cpp\<close>): the port of the MSCP controller. \<open>Host_Regions\<close> has the lemmas on
    host memory under its DMA, \<open>UDA_Correct\<close> its initialization, \<open>UDA_Commands\<close> that the command ring is a
    queue, \<open>UDA_Reset\<close> that a reset quiesces it.
  \<^item> \<open>MSCP_Server\<close> (\<^verbatim>\<open>mscp_server.cpp\<close>): the commands and the polling thread; \<open>MSCP_Correct\<close> their transfers.
  \<^item> \<open>RL0102\<close> (\<^verbatim>\<open>rl0102.cpp\<close>), \<open>RL11\<close> (\<^verbatim>\<open>rl11.cpp\<close>): the RL01/RL02 drives and their controller. A step of
    a run is a register access, a change of power or INIT, or one round of a worker's loop.
    \<open>RL0102_Correct\<close>: drives stay in order, and every seek ends; \<open>RL11_Safety\<close>: which of the assertions can fail; \<open>RL11_Transfers\<close>:
    a read copies the sector of the image to memory.
  \<^item> \<open>RF11\<close> (\<^verbatim>\<open>rf11.cpp\<close>, \<^verbatim>\<open>rs11.cpp\<close>): the fixed-head disk; \<open>RF11_Correct\<close>: its transfers, how much
    a write check compares, and resets of a pending command.
  \<^item> \<open>DL11W\<close> (\<^verbatim>\<open>dl11w.cpp\<close>, \<^verbatim>\<open>rs232adapter.cpp\<close>): serial line and line clock; \<open>DL11W_Correct\<close>: the
    decoding of received bytes, the pattern search, the interrupts, the transmitter as a queue of one, the clock's pace.
  \<^item> \<open>RX11\<close> (\<^verbatim>\<open>rx11.cpp\<close>, \<^verbatim>\<open>rx0102ucpu.cpp\<close>, \<^verbatim>\<open>rx0102drive.cpp\<close>): the RX01 floppy drives behind the RX11;
    \<open>RX11_Transfers\<close>: a floppy keeps its sectors, and what ends the program.

  \<^bold>\<open>Conventions.\<close> \<^theory_text>\<open>None\<close> is the end of the program: a failed assert, a
  \<^verbatim>\<open>FATAL\<close>, an access outside an object. Errors the program survives are ordinary results.
  Integers have the width of the source. Objects reached by pointers are numbers looked up in
  the state. Operations that hold the scheduler's mutex are atomic steps; the interleaving of
  threads is the order of the steps.

  \<^bold>\<open>Fuel.\<close> \<open>transfer_loop\<close> and \<open>read_check_loop\<close> take the word count as fuel: every round takes
  at least one word. \<open>nor_loop\<close> takes the 31 steps its \<^verbatim>\<open>for\<close> loop has.
  \<open>run_trap\<close> and \<open>run_trap34\<close> of the CPUs may begin anew without end when each trap sequence ends in
  another trap; they are partial functions. The theorems on traps show that they end, and one that
  \<open>run_trap34\<close> does not. \<open>enlarge\<close>, which fills an image file, is partial too; when it ends is proved.
  So are \<open>seek_outward\<close> and \<open>seek_inward\<close> of the floppy drives, which end when the head moves at all.

  \<^bold>\<open>Not modelled.\<close> Logging and display names; thread creation, priorities and waits; the menus
  and the parameter system; the file systems and network
  interfaces behind the devices; the device emulations not named above.
\<close>

end
